(* ===== verification/Prelude.thy ===== *)
theory Prelude
  imports Main "HOL-Library.Word"
begin

unbundle bit_operations_syntax

text \<open>
  What the component theories share: the names of the C integer types, the kernel's error
  convention, and the generic facts about lists updated by index, sums over task lists and
  words that the component proofs use again and again.  Nothing here models code of its own.
\<close>

section \<open>Types\<close>

type_synonym u8 = "8 word"
type_synonym u16 = "16 word"
type_synonym u32 = "32 word"
type_synonym u64 = "64 word"
type_synonym bytes = "8 word list"

text \<open>\<open>(uint32_t)-1\<close>, \<open>UINT_MAX\<close> and \<open>INT_MAX\<close> of both supported targets.\<close>

abbreviation UINT_MAX :: nat where "UINT_MAX \<equiv> 4294967295"
abbreviation INT_MAX :: nat where "INT_MAX \<equiv> 2147483647"

section \<open>Collections\<close>

named_theorems frame_simps \<open>what an operation leaves unchanged\<close>
named_theorems inv_intros \<open>preservation of the component invariants\<close>
named_theorems step_defs \<open>the operations a step relation unfolds to\<close>

section \<open>Lists updated by index\<close>

lemma nth_list_update_if:
  "xs[i := x] ! j = (if i = j \<and> i < length xs then x else xs ! j)"
  by (cases "i < length xs") (auto simp: nth_list_update list_update_beyond)

lemma map_list_update_same:
  "i < length xs \<Longrightarrow> f x = f (xs ! i) \<Longrightarrow> map f (xs[i := x]) = map f xs"
  by (metis list_update_id map_update nth_map)

lemma find_Some_first:
  "find P xs = Some x \<longleftrightarrow> (\<exists>i<length xs. x = xs ! i \<and> P (xs ! i) \<and> (\<forall>j<i. \<not> P (xs ! j)))"
  by (auto simp: find_Some_iff)

lemma find_upt_Some:
  "find P [a..<b] = Some i \<longleftrightarrow> a \<le> i \<and> i < b \<and> P i \<and> (\<forall>j. a \<le> j \<longrightarrow> j < i \<longrightarrow> \<not> P j)"
proof
  assume "find P [a..<b] = Some i"
  then obtain k where k: "k < length [a..<b]" "i = [a..<b] ! k" "P i"
    and least: "\<forall>j<k. \<not> P ([a..<b] ! j)"
    by (auto simp: find_Some_iff)
  have "\<not> P j" if "a \<le> j" "j < i" for j
    using least k that by (auto dest!: spec [of _ "j - a"])
  with k show "a \<le> i \<and> i < b \<and> P i \<and> (\<forall>j. a \<le> j \<longrightarrow> j < i \<longrightarrow> \<not> P j)"
    by auto
next
  assume r: "a \<le> i \<and> i < b \<and> P i \<and> (\<forall>j. a \<le> j \<longrightarrow> j < i \<longrightarrow> \<not> P j)"
  show "find P [a..<b] = Some i"
    unfolding find_Some_iff using r
    by (intro exI [of _ "i - a"]) auto
qed

lemma find_upt_None: "find P [a..<b] = None \<longleftrightarrow> (\<forall>i. a \<le> i \<longrightarrow> i < b \<longrightarrow> \<not> P i)"
  by (auto simp: find_None_iff)

section \<open>Sums over lists without duplicates\<close>

lemma sum_list_remove1:
  fixes f :: "'a \<Rightarrow> 'b::ab_group_add"
  assumes "x \<in> set xs"
  shows "sum_list (map f (remove1 x xs)) = sum_list (map f xs) - f x"
  using assms by (induction xs) (auto simp: algebra_simps)

lemma sum_list_map_cong_on:
  "(\<And>x. x \<in> set xs \<Longrightarrow> f x = g x) \<Longrightarrow> sum_list (map f xs) = sum_list (map g xs)"
  by (metis map_cong)

lemma sum_list_map_update1:
  fixes f g :: "'a \<Rightarrow> 'b::ab_group_add"
  assumes "distinct xs" "x \<in> set xs" "\<And>y. y \<noteq> x \<Longrightarrow> g y = f y"
  shows "sum_list (map g xs) = sum_list (map f xs) - f x + g x"
proof -
  have "sum_list (map g (remove1 x xs)) = sum_list (map f (remove1 x xs))"
    using assms(1,3) by (intro sum_list_map_cong_on) (metis in_set_remove1 remove1.simps distinct_remove1 set_remove1_eq DiffE singletonI)
  then show ?thesis using sum_list_remove1 [OF assms(2), of f] sum_list_remove1 [OF assms(2), of g]
    by (simp add: algebra_simps)
qed

section \<open>Scans\<close>

lemma nat_set_eq_code:
  "(set xs = {t. t < n \<and> Q t \<and> R t}) \<longleftrightarrow> (\<forall>t\<in>set xs. t < n \<and> Q t \<and> R t)
      \<and> (\<forall>t\<in>set [0..<n]. Q t \<and> R t \<longrightarrow> t \<in> set xs)" for xs :: "nat list"
  by (simp only: set_upt atLeastLessThan_iff set_eq_iff mem_Collect_eq Ball_def) blast

lemma all_less_upt: "(\<forall>t < n. P t) \<longleftrightarrow> (\<forall>t\<in>set [0..<n]. P t)" for n :: nat
  by auto

lemma fold_concat_fold: "fold f (concat xss) a = fold (fold f) xss a"
  by (induction xss arbitrary: a) auto

text \<open>A scan that keeps the first strict minimum.\<close>

lemma argmin_fold:
  fixes L :: "'a \<Rightarrow> 'b::linorder" and P :: "'a \<Rightarrow> bool"
  defines "step \<equiv> \<lambda>c (m, l). if \<not> P c then (m, l) else if L c < l then (c, L c) else (m, l)"
  obtains m where "fold step cs (i, L i) = (m, L m)" "m = i \<or> m \<in> set cs \<and> P m \<and> L m < L i"
    "\<And>c. c \<in> set cs \<Longrightarrow> P c \<Longrightarrow> L m \<le> L c" "L m \<le> L i"
proof -
  have "\<exists>m. fold step cs (i, L i) = (m, L m) \<and> (m = i \<or> m \<in> set cs \<and> P m \<and> L m < L i)
      \<and> (\<forall>c\<in>set cs. P c \<longrightarrow> L m \<le> L c) \<and> L m \<le> L i"
  proof (induction cs arbitrary: i)
    case (Cons c cs)
    show ?case
    proof (cases "P c \<and> L c < L i")
      case True
      obtain m where m: "fold step cs (c, L c) = (m, L m)" "m = c \<or> m \<in> set cs \<and> P m \<and> L m < L c"
        "\<forall>d\<in>set cs. P d \<longrightarrow> L m \<le> L d" "L m \<le> L c" using Cons.IH [of c] by blast
      have "step c (i, L i) = (c, L c)" using True by (simp add: step_def)
      with m True show ?thesis by (intro exI [of _ m]) auto
    next
      case False
      then have "step c (i, L i) = (i, L i)" by (auto simp: step_def)
      moreover obtain m where "fold step cs (i, L i) = (m, L m)" "m = i \<or> m \<in> set cs \<and> P m \<and> L m < L i"
        "\<forall>d\<in>set cs. P d \<longrightarrow> L m \<le> L d" "L m \<le> L i" using Cons.IH [of i] by blast
      ultimately show ?thesis using False by (intro exI [of _ m]) auto
    qed
  qed simp
  then show ?thesis using that by blast
qed

text \<open>A scan that keeps the first strict maximum of a positive gain.\<close>

lemma argmax_fold:
  fixes G :: "'a \<Rightarrow> 'b::linorder" and P :: "'a \<Rightarrow> bool" and h :: "'a \<Rightarrow> 'c"
  defines "step \<equiv> \<lambda>t (sel, best). if \<not> P t then (sel, best) else if G t > best then (Some (h t), G t) else (sel, best)"
  obtains sel best where "fold step ts (sel0, best0) = (sel, best)" "best0 \<le> best"
    "(sel, best) = (sel0, best0) \<or> (\<exists>t\<in>set ts. P t \<and> sel = Some (h t) \<and> best = G t)"
    "\<And>t. t \<in> set ts \<Longrightarrow> P t \<Longrightarrow> G t \<le> best"
proof -
  have "\<exists>sel best. fold step ts (sel0, best0) = (sel, best) \<and> best0 \<le> best
     \<and> ((sel, best) = (sel0, best0) \<or> (\<exists>t\<in>set ts. P t \<and> sel = Some (h t) \<and> best = G t))
     \<and> (\<forall>t\<in>set ts. P t \<longrightarrow> G t \<le> best)"
  proof (induction ts arbitrary: sel0 best0)
    case (Cons t ts)
    obtain a b where ab: "step t (sel0, best0) = (a, b)" by force
    obtain sel best where f: "fold step ts (a, b) = (sel, best)" "b \<le> best"
      "(sel, best) = (a, b) \<or> (\<exists>t\<in>set ts. P t \<and> sel = Some (h t) \<and> best = G t)"
      "\<forall>t\<in>set ts. P t \<longrightarrow> G t \<le> best"
      using Cons.IH [of a b] by blast
    have b: "best0 \<le> b" "P t \<Longrightarrow> G t \<le> b" "(a, b) = (sel0, best0) \<or> P t \<and> a = Some (h t) \<and> b = G t"
      using ab by (auto simp: step_def split: if_splits)
    show ?case
    proof (intro exI conjI)
      show "fold step (t # ts) (sel0, best0) = (sel, best)" using ab f(1) by simp
      show "best0 \<le> best" using b(1) f(2) by (rule order_trans)
      show "(sel, best) = (sel0, best0) \<or> (\<exists>t\<in>set (t # ts). P t \<and> sel = Some (h t) \<and> best = G t)"
        using f(3) b(3) by auto
      show "\<forall>u\<in>set (t # ts). P u \<longrightarrow> G u \<le> best"
        using f(2,4) b(2) by (auto intro: order_trans)
    qed
  qed simp
  then show ?thesis using that by blast
qed

section \<open>Words\<close>

lemma unat_ucast_widen:
  assumes "LENGTH('a::len) \<le> LENGTH('b::len)"
  shows "unat (ucast (w :: 'a word) :: 'b word) = unat w"
proof -
  have "unat w < 2 ^ LENGTH('a)" by (rule unsigned_less)
  also have "\<dots> \<le> (2::nat) ^ LENGTH('b)" using assms by (simp add: power_increasing)
  finally show ?thesis by (simp add: unsigned_ucast_eq take_bit_nat_eq_self_iff)
qed

lemma ucast_widen_eq_0:
  "LENGTH('a::len) \<le> LENGTH('b::len) \<Longrightarrow> (ucast (w :: 'a word) :: 'b word) = 0 \<longleftrightarrow> w = 0"
  by (metis unat_eq_zero unat_ucast_widen)

lemma or_and_absorb: "(x OR m) AND m = (m :: 'a::len word)"
  by (rule bit_word_eqI) (auto simp: bit_simps)

lemma unat_less_2p: "unat (w :: 'a::len word) < 2 ^ LENGTH('a)"
  by (rule unsigned_less)

lemma unat_add_no_wrap:
  fixes a b :: "'a::len word"
  assumes "unat a + unat b < 2 ^ LENGTH('a)"
  shows "unat (a + b) = unat a + unat b"
  using assms by (simp add: unat_word_ariths)

lemma unat_sub_no_wrap:
  fixes a b :: "'a::len word"
  assumes "b \<le> a"
  shows "unat (a - b) = unat a - unat b"
  using assms by (simp add: unat_sub_if' word_le_nat_alt)

lemma word_less_Suc:
  fixes w :: "'a::len word"
  assumes "w \<noteq> -1"
  shows "w < w + 1"
proof -
  have "w + 1 \<noteq> 0" using assms by (simp add: eq_neg_iff_add_eq_0)
  then have "unat (1 + w) = Suc (unat w)" by (intro unatSuc) (simp add: add.commute)
  then show ?thesis by (simp add: word_less_nat_alt add.commute)
qed

end
