(* ===== verification/Fifo8.thy ===== *)
theory Fifo8
  imports Prelude
begin

text \<open>
  The byte ring buffer of \<^verbatim>\<open>kernel/dos/tools/fifo.c\<close> that carries keyboard scan codes and mouse
  packets from the interrupt handlers to tasks, and the interface \<open>bounded_fifo\<close> that every
  first-in first-out buffer of the kernel satisfies.  The C \<open>int\<close> indices never leave
  \<open>0..size\<close> (that is part of the invariant), so they are modelled by \<open>nat\<close>.
\<close>

section \<open>The interface of a bounded queue\<close>

locale bounded_fifo =
  fixes put :: "'q \<Rightarrow> 'a \<Rightarrow> 'q \<times> bool"
    and get :: "'q \<Rightarrow> 'q \<times> 'a option"
    and contents :: "'q \<Rightarrow> 'a list"
    and room :: "'q \<Rightarrow> nat"
    and wf :: "'q \<Rightarrow> bool"
  assumes put_room: "wf q \<Longrightarrow> 0 < room q \<Longrightarrow>
      snd (put q x) \<and> wf (fst (put q x)) \<and> contents (fst (put q x)) = contents q @ [x]
      \<and> room (fst (put q x)) = room q - 1"
    and put_full: "wf q \<Longrightarrow> room q = 0 \<Longrightarrow>
      \<not> snd (put q x) \<and> wf (fst (put q x)) \<and> contents (fst (put q x)) = contents q
      \<and> room (fst (put q x)) = 0"
    and get_head: "wf q \<Longrightarrow> contents q = y # ys \<Longrightarrow>
      snd (get q) = Some y \<and> wf (fst (get q)) \<and> contents (fst (get q)) = ys"
    and get_empty: "wf q \<Longrightarrow> contents q = [] \<Longrightarrow> get q = (q, None)"
begin

primrec put_all :: "'q \<Rightarrow> 'a list \<Rightarrow> 'q" where
  "put_all q [] = q"
| "put_all q (x # xs) = put_all (fst (put q x)) xs"

primrec get_n :: "nat \<Rightarrow> 'q \<Rightarrow> 'q \<times> 'a option list" where
  "get_n 0 q = (q, [])"
| "get_n (Suc n) q =
     (let (q', x) = get q; (q'', xs) = get_n n q' in (q'', x # xs))"

lemma put_all_room:
  "wf q \<Longrightarrow> length xs \<le> room q \<Longrightarrow>
   wf (put_all q xs) \<and> contents (put_all q xs) = contents q @ xs
   \<and> room (put_all q xs) = room q - length xs"
proof (induction xs arbitrary: q)
  case (Cons x xs)
  then show ?case using put_room [of q x] by auto
qed simp

lemma get_n_contents:
  "wf q \<Longrightarrow> n \<le> length (contents q) \<Longrightarrow>
   snd (get_n n q) = map Some (take n (contents q)) \<and> wf (fst (get_n n q))
   \<and> contents (fst (get_n n q)) = drop n (contents q)"
proof (induction n arbitrary: q)
  case (Suc n)
  then obtain y ys where c: "contents q = y # ys" by (cases "contents q") auto
  with Suc.prems get_head have g: "snd (get q) = Some y" "wf (fst (get q))"
    "contents (fst (get q)) = ys" by auto
  with Suc.IH [of "fst (get q)"] Suc.prems c show ?case
    by (auto simp: Let_def split: prod.splits)
qed simp

text \<open>A record of \<open>n\<close> elements written when there is room for it is read back whole.\<close>

lemma put_get_round:
  assumes "wf q" "contents q = []" "length xs \<le> room q"
  shows "snd (get_n (length xs) (put_all q xs)) = map Some xs"
    and "contents (fst (get_n (length xs) (put_all q xs))) = []"
  using put_all_room [of q xs] get_n_contents [of "put_all q xs" "length xs"] assms by auto

end

section \<open>The ring buffer\<close>

record fifo8 =
  fbuf :: bytes
  fp :: nat
  fq :: nat
  fsize :: nat
  ffree :: nat
  fflags :: u32

definition FLAGS_OVERRUN :: u32 where "FLAGS_OVERRUN = 1"

definition fifo8_init :: "nat \<Rightarrow> bytes \<Rightarrow> fifo8" where
  "fifo8_init n b = \<lparr>fbuf = b, fp = 0, fq = 0, fsize = n, ffree = n, fflags = 0\<rparr>"

definition fifo8_put :: "fifo8 \<Rightarrow> u8 \<Rightarrow> fifo8 \<times> int" where
  "fifo8_put f data =
     (if ffree f = 0 then (f\<lparr>fflags := fflags f OR FLAGS_OVERRUN\<rparr>, -1)
      else
        (let f = f\<lparr>fbuf := (fbuf f)[fp f := data]\<rparr>;
             f = f\<lparr>fp := Suc (fp f)\<rparr>;
             f = (if fp f = fsize f then f\<lparr>fp := 0\<rparr> else f)
         in (f\<lparr>ffree := ffree f - 1\<rparr>, 0)))"

definition fifo8_get :: "fifo8 \<Rightarrow> fifo8 \<times> int" where
  "fifo8_get f =
     (if ffree f = fsize f then (f, -1)
      else
        (let data = fbuf f ! fq f;
             f = f\<lparr>fq := Suc (fq f)\<rparr>;
             f = (if fq f = fsize f then f\<lparr>fq := 0\<rparr> else f)
         in (f\<lparr>ffree := ffree f + 1\<rparr>, int (unat data))))"

text \<open>\<open>fifo8_status (NULL)\<close> is 0; a pointer to a buffer gives the bytes waiting in it.\<close>

definition fifo8_status :: "fifo8 option \<Rightarrow> nat" where
  "fifo8_status f = (case f of None \<Rightarrow> 0 | Some f \<Rightarrow> fsize f - ffree f)"

section \<open>Refinement to a list\<close>

definition fifo8_wf :: "fifo8 \<Rightarrow> bool" where
  "fifo8_wf f \<longleftrightarrow> 0 < fsize f \<and> length (fbuf f) = fsize f \<and> fp f < fsize f \<and> fq f < fsize f
     \<and> ffree f \<le> fsize f \<and> fp f = (fq f + (fsize f - ffree f)) mod fsize f"

definition fifo8_contents :: "fifo8 \<Rightarrow> bytes" where
  "fifo8_contents f = map (\<lambda>i. fbuf f ! ((fq f + i) mod fsize f)) [0..<fsize f - ffree f]"

lemma fifo8_length_contents [simp]: "length (fifo8_contents f) = fsize f - ffree f"
  by (simp add: fifo8_contents_def)

lemma fifo8_init_wf: "0 < n \<Longrightarrow> length b = n \<Longrightarrow> fifo8_wf (fifo8_init n b)"
  by (simp add: fifo8_wf_def fifo8_init_def)

lemma fifo8_init_contents: "fifo8_contents (fifo8_init n b) = []"
  by (simp add: fifo8_contents_def fifo8_init_def)

lemma ring_index_neq:
  fixes q k i n :: nat
  assumes "i < k" "k < n"
  shows "(q + k) mod n \<noteq> (q + i) mod n"
proof
  assume "(q + k) mod n = (q + i) mod n"
  then have "n dvd (q + k) - (q + i)" using assms(1) by (simp add: mod_eq_dvd_iff_nat)
  then have "n dvd k - i" by simp
  with assms show False by (auto dest: dvd_imp_le)
qed

lemma ring_suc: "0 < (n::nat) \<Longrightarrow> (if Suc (a mod n) = n then 0 else Suc (a mod n)) = Suc a mod n"
  by (simp add: mod_Suc)

lemma fifo8_put_room:
  assumes wf: "fifo8_wf f" and room: "0 < ffree f"
  shows "snd (fifo8_put f x) = 0 \<and> fifo8_wf (fst (fifo8_put f x))
    \<and> fifo8_contents (fst (fifo8_put f x)) = fifo8_contents f @ [x]
    \<and> ffree (fst (fifo8_put f x)) = ffree f - 1 \<and> fsize (fst (fifo8_put f x)) = fsize f"
proof -
  let ?n = "fsize f" and ?f = "fst (fifo8_put f x)"
  define k where "k = fsize f - ffree f"
  have n: "0 < ?n" and k: "k < ?n" and pk: "fp f = (fq f + k) mod ?n" and len: "length (fbuf f) = ?n"
    using wf room by (auto simp: fifo8_wf_def k_def)
  have form: "?f = f\<lparr>fbuf := (fbuf f)[fp f := x], fp := Suc (fq f + k) mod ?n, ffree := ffree f - 1\<rparr>"
    using room pk ring_suc [OF n, of "fq f + k"] by (auto simp: fifo8_put_def Let_def)
  have k': "fsize f - (ffree f - 1) = Suc k" using wf room by (auto simp: fifo8_wf_def k_def)
  have bound: "(fq f + i) mod ?n < ?n" for i using n by simp
  have old: "(fbuf f)[fp f := x] ! ((fq f + i) mod ?n) = fbuf f ! ((fq f + i) mod ?n)" if "i < k" for i
    using ring_index_neq [OF that k, of "fq f"] by (simp add: pk nth_list_update_if)
  have new: "(fbuf f)[fp f := x] ! ((fq f + k) mod ?n) = x"
    using len bound by (simp add: pk)
  have "fifo8_contents ?f = fifo8_contents f @ [x]"
    unfolding fifo8_contents_def form using k' old new by (simp add: k_def [symmetric])
  moreover have "fifo8_wf ?f"
    using wf room k' n by (auto simp: fifo8_wf_def form)
  ultimately show ?thesis using room by (auto simp: form) (auto simp: fifo8_put_def Let_def)
qed

lemma fifo8_put_full:
  assumes "fifo8_wf f" and "ffree f = 0"
  shows "snd (fifo8_put f x) = -1 \<and> fifo8_wf (fst (fifo8_put f x))
    \<and> fifo8_contents (fst (fifo8_put f x)) = fifo8_contents f \<and> ffree (fst (fifo8_put f x)) = 0
    \<and> fflags (fst (fifo8_put f x)) AND FLAGS_OVERRUN = FLAGS_OVERRUN"
  using assms
  by (auto simp: fifo8_put_def fifo8_wf_def fifo8_contents_def or_and_absorb)

lemma fifo8_get_head:
  assumes wf: "fifo8_wf f" and c: "fifo8_contents f = y # ys"
  shows "snd (fifo8_get f) = int (unat y) \<and> fifo8_wf (fst (fifo8_get f))
    \<and> fifo8_contents (fst (fifo8_get f)) = ys \<and> ffree (fst (fifo8_get f)) = ffree f + 1"
proof -
  let ?n = "fsize f"
  let ?f = "fst (fifo8_get f)"
  have "0 < length (fifo8_contents f)" using c by simp
  then have ne: "ffree f < fsize f" by simp
  have n: "0 < ?n" and qn: "fq f < ?n" using wf by (auto simp: fifo8_wf_def)
  obtain m where m: "?n - ffree f = Suc m" using ne by (metis Suc_diff_Suc)
  have form: "?f = f\<lparr>fq := Suc (fq f) mod ?n, ffree := ffree f + 1\<rparr>"
    using ne ring_suc [OF n, of "fq f"] qn by (auto simp: fifo8_get_def Let_def)
  have shift: "(Suc (fq f) mod ?n + i) mod ?n = (fq f + Suc i) mod ?n" for i
    by (metis add_Suc_shift mod_add_left_eq)
  have "fifo8_contents f = fbuf f ! (fq f mod ?n) # map (\<lambda>i. fbuf f ! ((fq f + Suc i) mod ?n)) [0..<m]"
    unfolding fifo8_contents_def m by (simp add: upt_conv_Cons map_Suc_upt [symmetric] del: upt_Suc)
  with c qn have y: "y = fbuf f ! fq f" and ys: "ys = map (\<lambda>i. fbuf f ! ((fq f + Suc i) mod ?n)) [0..<m]"
    by auto
  have m': "?n - (ffree f + 1) = m" using m by simp
  have "fifo8_contents ?f = ys"
    unfolding fifo8_contents_def form ys using m' shift by simp
  moreover have "fifo8_wf ?f"
    using wf ne n m m' by (auto simp: fifo8_wf_def form mod_add_left_eq)
  ultimately show ?thesis using ne y form by (auto simp: fifo8_get_def Let_def)
qed

lemma fifo8_get_empty:
  "fifo8_wf f \<Longrightarrow> fifo8_contents f = [] \<Longrightarrow> fifo8_get f = (f, -1)"
  by (auto simp: fifo8_get_def fifo8_contents_def fifo8_wf_def)

section \<open>The ring buffer is a bounded queue\<close>

text \<open>\<open>-1\<close> is how both operations report failure; every byte is returned as \<open>0..255\<close>.\<close>

definition fifo8_offer :: "fifo8 \<Rightarrow> u8 \<Rightarrow> fifo8 \<times> bool" where
  "fifo8_offer f x = (let (f', r) = fifo8_put f x in (f', r = 0))"

definition fifo8_poll :: "fifo8 \<Rightarrow> fifo8 \<times> u8 option" where
  "fifo8_poll f = (let (f', r) = fifo8_get f in (f', if r < 0 then None else Some (word_of_int r)))"

interpretation fifo8: bounded_fifo fifo8_offer fifo8_poll fifo8_contents ffree fifo8_wf
proof unfold_locales
  fix f x assume "fifo8_wf f" "0 < ffree f"
  then show "snd (fifo8_offer f x) \<and> fifo8_wf (fst (fifo8_offer f x)) \<and>
     fifo8_contents (fst (fifo8_offer f x)) = fifo8_contents f @ [x] \<and>
     ffree (fst (fifo8_offer f x)) = ffree f - 1"
    using fifo8_put_room [of f x] by (auto simp: fifo8_offer_def split: prod.splits)
next
  fix f x assume "fifo8_wf f" "ffree f = 0"
  then show "\<not> snd (fifo8_offer f x) \<and> fifo8_wf (fst (fifo8_offer f x)) \<and>
     fifo8_contents (fst (fifo8_offer f x)) = fifo8_contents f \<and>
     ffree (fst (fifo8_offer f x)) = 0"
    using fifo8_put_full [of f x] by (auto simp: fifo8_offer_def split: prod.splits)
next
  fix f y ys assume "fifo8_wf f" "fifo8_contents f = y # ys"
  then show "snd (fifo8_poll f) = Some y \<and> fifo8_wf (fst (fifo8_poll f)) \<and>
     fifo8_contents (fst (fifo8_poll f)) = ys"
    using fifo8_get_head [of f y ys] by (auto simp: fifo8_poll_def split: prod.splits)
next
  fix f assume "fifo8_wf f" "fifo8_contents f = []"
  then show "fifo8_poll f = (f, None)"
    using fifo8_get_empty [of f] by (simp add: fifo8_poll_def)
qed

section \<open>Properties\<close>

text \<open>On every well-formed ring buffer the operations are those of a bounded list queue:
  a byte is refused with \<open>-1\<close> and the overrun flag exactly when no room is left and is otherwise
  appended; reading gives \<open>-1\<close> exactly on the empty buffer and otherwise the oldest byte; the status
  is the number of bytes waiting; and every operation keeps the ring well formed.\<close>

theorem fifo8_refines_queue:
  assumes "fifo8_wf f"
  shows "fifo8_wf (fst (fifo8_put f x)) \<and> fifo8_wf (fst (fifo8_get f))
    \<and> (if length (fifo8_contents f) = fsize f
       then snd (fifo8_put f x) = -1 \<and> fifo8_contents (fst (fifo8_put f x)) = fifo8_contents f
         \<and> fflags (fst (fifo8_put f x)) AND FLAGS_OVERRUN = FLAGS_OVERRUN
       else snd (fifo8_put f x) = 0 \<and> fifo8_contents (fst (fifo8_put f x)) = fifo8_contents f @ [x])
    \<and> (case fifo8_contents f of
         [] \<Rightarrow> fifo8_get f = (f, -1)
       | y # ys \<Rightarrow> snd (fifo8_get f) = int (unat y) \<and> fifo8_contents (fst (fifo8_get f)) = ys)
    \<and> fifo8_status (Some f) = length (fifo8_contents f)"
proof -
  have full: "length (fifo8_contents f) = fsize f \<longleftrightarrow> ffree f = 0"
    using assms by (auto simp: fifo8_wf_def)
  have st: "fifo8_status (Some f) = length (fifo8_contents f)"
    by (simp add: fifo8_status_def)
  show ?thesis
    unfolding full st
    using fifo8_put_room [OF assms, of x] fifo8_put_full [OF assms, of x] fifo8_get_empty [OF assms]
      fifo8_get_head [OF assms] assms
    by (cases "fifo8_contents f"; cases "ffree f = 0") simp_all
qed

lemma fifo8_refines_queue_witness:
  "fifo8_contents (fst (fifo8_put (fst (fifo8_put (fifo8_init 2 [0, 0]) 7)) 9)) = [7, 9]
   \<and> snd (fifo8_get (fst (fifo8_put (fst (fifo8_put (fifo8_init 2 [0, 0]) 7)) 9))) = 7"
proof -
  have wf: "fifo8_wf (fst (fifo8_put (fifo8_init 2 [0, 0]) 7))" by code_simp
  have c: "fifo8_contents (fst (fifo8_put (fifo8_init 2 [0, 0]) 7)) = [7]" by code_simp
  have n: "fsize (fst (fifo8_put (fifo8_init 2 [0, 0]) 7)) = 2" by code_simp
  note r = fifo8_refines_queue [OF wf, of 9]
  have c2: "fifo8_contents (fst (fifo8_put (fst (fifo8_put (fifo8_init 2 [0, 0]) 7)) 9)) = [7, 9]"
    using r c n by simp
  have "fifo8_wf (fst (fifo8_put (fst (fifo8_put (fifo8_init 2 [0, 0]) 7)) 9))" using r by simp
  from fifo8_refines_queue [OF this, of 9] c2 show ?thesis by simp
qed

end
