(* ===== verification/DriveQueue.thy ===== *)
theory DriveQueue
  imports Fifo8
begin

text \<open>
  The growing ring of waiting tids of \<^verbatim>\<open>kernel/drivers/vdisk.c\<close> that orders the tasks using one
  drive, and its interpretation as a \<open>bounded_fifo\<close>.  \<open>malloc\<close> succeeding is the Boolean
  argument of the one operation that allocates.
\<close>

record drive_wait_queue =
  dq_tids :: "nat list"
  dq_head :: nat
  dq_count :: nat
  dq_capacity :: nat

definition DRIVE_WAIT_INITIAL_CAPACITY :: nat where "DRIVE_WAIT_INITIAL_CAPACITY = 16"

definition drive_queue_empty :: drive_wait_queue where
  "drive_queue_empty = \<lparr>dq_tids = [], dq_head = 0, dq_count = 0, dq_capacity = 0\<rparr>"

definition drive_queue_append :: "drive_wait_queue \<Rightarrow> nat \<Rightarrow> drive_wait_queue" where
  "drive_queue_append dq tid =
     dq\<lparr>dq_tids := (dq_tids dq)[(dq_head dq + dq_count dq) mod dq_capacity dq := tid],
        dq_count := dq_count dq + 1\<rparr>"

text \<open>The new array starts with the waiting tids in order; the rest is whatever \<open>malloc\<close> gave.\<close>

definition drive_queue_grown :: "drive_wait_queue \<Rightarrow> nat \<Rightarrow> drive_wait_queue" where
  "drive_queue_grown dq capacity =
     dq\<lparr>dq_tids := map (\<lambda>i. dq_tids dq ! ((dq_head dq + i) mod dq_capacity dq)) [0..<dq_count dq]
                    @ replicate (capacity - dq_count dq) 0,
        dq_head := 0, dq_capacity := capacity\<rparr>"

definition drive_queue_push :: "bool \<Rightarrow> drive_wait_queue \<Rightarrow> nat \<Rightarrow> drive_wait_queue \<times> bool" where
  "drive_queue_push malloc_ok dq tid =
     (if dq_count dq = dq_capacity dq then
        (let capacity = (if dq_capacity dq = 0 then DRIVE_WAIT_INITIAL_CAPACITY
                         else dq_capacity dq * 2 mod 2 ^ 32) in
         if capacity < dq_capacity dq \<or> capacity > UINT_MAX div 4 then (dq, False)
         else if \<not> malloc_ok then (dq, False)
         else (drive_queue_append (drive_queue_grown dq capacity) tid, True))
      else (drive_queue_append dq tid, True))"

definition drive_queue_front :: "drive_wait_queue \<Rightarrow> nat" where
  "drive_queue_front dq = (if dq_count dq = 0 then UINT_MAX else dq_tids dq ! dq_head dq)"

definition drive_queue_pop :: "drive_wait_queue \<Rightarrow> drive_wait_queue \<times> nat" where
  "drive_queue_pop dq =
     (let tid = drive_queue_front dq in
      (if dq_count dq \<noteq> 0
       then dq\<lparr>dq_head := (dq_head dq + 1) mod dq_capacity dq, dq_count := dq_count dq - 1\<rparr>
       else dq, tid))"

text \<open>The loop of \<open>drive_queue_remove\<close> after \<open>i\<close> iterations are left.\<close>

primrec drive_queue_rotate :: "nat \<Rightarrow> nat \<Rightarrow> drive_wait_queue \<Rightarrow> bool \<Rightarrow> drive_wait_queue \<times> bool" where
  "drive_queue_rotate 0 tid dq removed = (dq, removed)"
| "drive_queue_rotate (Suc i) tid dq removed =
     (let (dq, queued_tid) = drive_queue_pop dq in
      if queued_tid = tid then drive_queue_rotate i tid dq True
      else drive_queue_rotate i tid (fst (drive_queue_push False dq queued_tid)) removed)"

definition drive_queue_remove :: "drive_wait_queue \<Rightarrow> nat \<Rightarrow> drive_wait_queue \<times> bool" where
  "drive_queue_remove dq tid = drive_queue_rotate (dq_count dq) tid dq False"

section \<open>Refinement to a list\<close>

text \<open>The largest capacity the overflow checks of \<open>drive_queue_push\<close> let the ring reach.\<close>

definition DRIVE_QUEUE_MAX :: nat where "DRIVE_QUEUE_MAX = 536870912"

definition drive_queue_wf :: "drive_wait_queue \<Rightarrow> bool" where
  "drive_queue_wf dq \<longleftrightarrow> length (dq_tids dq) = dq_capacity dq \<and> dq_count dq \<le> dq_capacity dq
     \<and> (if dq_capacity dq = 0 then dq_head dq = 0
        else dq_head dq < dq_capacity dq \<and> (\<exists>k\<le>25. dq_capacity dq = 16 * 2 ^ k))"

definition drive_queue_contents :: "drive_wait_queue \<Rightarrow> nat list" where
  "drive_queue_contents dq =
     map (\<lambda>i. dq_tids dq ! ((dq_head dq + i) mod dq_capacity dq)) [0..<dq_count dq]"

definition drive_queue_room :: "drive_wait_queue \<Rightarrow> nat" where
  "drive_queue_room dq = DRIVE_QUEUE_MAX - dq_count dq"

lemma drive_queue_length [simp]: "length (drive_queue_contents dq) = dq_count dq"
  by (simp add: drive_queue_contents_def)

lemma drive_queue_empty_wf [simp]:
  "drive_queue_wf drive_queue_empty" "drive_queue_contents drive_queue_empty = []"
  by (simp_all add: drive_queue_wf_def drive_queue_contents_def drive_queue_empty_def)

lemma drive_queue_capacity_bound:
  assumes "drive_queue_wf dq" shows "dq_capacity dq \<le> DRIVE_QUEUE_MAX"
proof (cases "dq_capacity dq = 0")
  case False
  with assms obtain k where k: "k \<le> 25" "dq_capacity dq = 16 * 2 ^ k"
    by (auto simp: drive_queue_wf_def)
  have "(2::nat) ^ k \<le> 2 ^ 25" using k(1) by (rule power_increasing) simp
  with k(2) show ?thesis by (simp add: DRIVE_QUEUE_MAX_def)
qed simp

lemma drive_queue_append_wf:
  assumes wf: "drive_queue_wf dq" and lt: "dq_count dq < dq_capacity dq"
  shows "drive_queue_wf (drive_queue_append dq tid)
    \<and> drive_queue_contents (drive_queue_append dq tid) = drive_queue_contents dq @ [tid]"
proof -
  let ?n = "dq_capacity dq" and ?k = "dq_count dq"
  have n: "0 < ?n" using lt by simp
  have old: "(dq_tids dq)[(dq_head dq + ?k) mod ?n := tid] ! ((dq_head dq + i) mod ?n)
      = dq_tids dq ! ((dq_head dq + i) mod ?n)" if "i < ?k" for i
    using ring_index_neq [OF that lt, of "dq_head dq"] by (simp add: nth_list_update_if)
  have new: "(dq_tids dq)[(dq_head dq + ?k) mod ?n := tid] ! ((dq_head dq + ?k) mod ?n) = tid"
    using wf n by (simp add: drive_queue_wf_def)
  show ?thesis using wf lt old new
    by (auto simp: drive_queue_append_def drive_queue_contents_def drive_queue_wf_def)
qed

text \<open>Growing keeps the waiting tids in order.\<close>

lemma drive_queue_grown_wf:
  assumes "drive_queue_wf dq" "k \<le> 25" "capacity = 16 * 2 ^ k" "dq_count dq < capacity"
  shows "drive_queue_wf (drive_queue_grown dq capacity)
    \<and> drive_queue_contents (drive_queue_grown dq capacity) = drive_queue_contents dq
    \<and> dq_count (drive_queue_grown dq capacity) = dq_count dq
    \<and> dq_capacity (drive_queue_grown dq capacity) = capacity"
proof -
  have "map (\<lambda>i. (drive_queue_contents dq @ replicate (capacity - dq_count dq) 0) ! (i mod capacity))
      [0..<dq_count dq] = drive_queue_contents dq"
    using assms(4) by (intro nth_equalityI) (auto simp: nth_append)
  with assms show ?thesis
    by (auto simp: drive_queue_grown_def drive_queue_wf_def drive_queue_contents_def)
qed

lemma drive_queue_push_room:
  assumes wf: "drive_queue_wf dq" and room: "0 < drive_queue_room dq"
  shows "snd (drive_queue_push True dq tid) \<and> drive_queue_wf (fst (drive_queue_push True dq tid))
    \<and> drive_queue_contents (fst (drive_queue_push True dq tid)) = drive_queue_contents dq @ [tid]"
proof (cases "dq_count dq = dq_capacity dq")
  case False
  then have "dq_count dq < dq_capacity dq" using wf by (simp add: drive_queue_wf_def)
  with drive_queue_append_wf [OF wf this] False show ?thesis
    by (simp add: drive_queue_push_def)
next
  case True
  have less: "dq_capacity dq < DRIVE_QUEUE_MAX"
    using room True by (simp add: drive_queue_room_def)
  obtain k where k: "k \<le> 25" and cap: "(if dq_capacity dq = 0 then 16 else dq_capacity dq * 2 mod 2 ^ 32) = 16 * 2 ^ k"
  proof (cases "dq_capacity dq = 0")
    case True then show ?thesis using that [of 0] by simp
  next
    case False
    with wf obtain j where j: "j \<le> 25" "dq_capacity dq = 16 * 2 ^ j"
      by (auto simp: drive_queue_wf_def)
    have "j \<noteq> 25" using less j(2) by (auto simp: DRIVE_QUEUE_MAX_def)
    with j False less show ?thesis using that [of "Suc j"] by (simp add: DRIVE_QUEUE_MAX_def)
  qed
  have "(2::nat) ^ k \<le> 2 ^ 25" using k by (rule power_increasing) simp
  then have bound: "16 * 2 ^ k \<le> (536870912::nat)" by simp
  have lt: "dq_count dq < 16 * 2 ^ k"
    using cap True less by (auto simp: DRIVE_QUEUE_MAX_def split: if_splits)
  note grown = drive_queue_grown_wf [OF wf k refl lt]
  have "drive_queue_push True dq tid = (drive_queue_append (drive_queue_grown dq (16 * 2 ^ k)) tid, True)"
    unfolding drive_queue_push_def DRIVE_WAIT_INITIAL_CAPACITY_def cap
    using True lt bound by (simp add: Let_def)
  with drive_queue_append_wf [of "drive_queue_grown dq (16 * 2 ^ k)" tid] grown lt
  show ?thesis by simp
qed

lemma drive_queue_push_full:
  assumes wf: "drive_queue_wf dq" and room: "drive_queue_room dq = 0"
  shows "drive_queue_push True dq tid = (dq, False)"
proof -
  have "dq_count dq \<le> dq_capacity dq" "dq_capacity dq \<le> DRIVE_QUEUE_MAX"
    using wf drive_queue_capacity_bound [OF wf] by (auto simp: drive_queue_wf_def)
  with room have "dq_count dq = DRIVE_QUEUE_MAX" "dq_capacity dq = DRIVE_QUEUE_MAX"
    by (auto simp: drive_queue_room_def)
  then show ?thesis by (simp add: drive_queue_push_def DRIVE_QUEUE_MAX_def)
qed

lemma drive_queue_pop_wf:
  assumes wf: "drive_queue_wf dq" and c: "drive_queue_contents dq = y # ys"
  shows "snd (drive_queue_pop dq) = y \<and> drive_queue_wf (fst (drive_queue_pop dq))
    \<and> drive_queue_contents (fst (drive_queue_pop dq)) = ys
    \<and> dq_capacity (fst (drive_queue_pop dq)) = dq_capacity dq
    \<and> dq_count dq = Suc (dq_count (fst (drive_queue_pop dq)))"
proof -
  have "0 < length (drive_queue_contents dq)" using c by simp
  then obtain m where m: "dq_count dq = Suc m" by (auto simp: gr0_conv_Suc)
  let ?n = "dq_capacity dq"
  have n: "0 < ?n" and h: "dq_head dq < ?n"
    using wf m by (auto simp: drive_queue_wf_def split: if_splits)
  have shift: "(Suc (dq_head dq) mod ?n + i) mod ?n = (dq_head dq + Suc i) mod ?n" for i
    by (metis add_Suc_shift mod_add_left_eq)
  have "drive_queue_contents dq = dq_tids dq ! (dq_head dq mod ?n) #
      map (\<lambda>i. dq_tids dq ! ((dq_head dq + Suc i) mod ?n)) [0..<m]"
    unfolding drive_queue_contents_def m
    by (simp add: upt_conv_Cons map_Suc_upt [symmetric] del: upt_Suc)
  with c h wf m n shift show ?thesis
    by (auto simp: drive_queue_pop_def drive_queue_front_def drive_queue_contents_def
        drive_queue_wf_def Let_def)
qed

section \<open>The drive queue is a bounded queue\<close>

definition drive_queue_poll :: "drive_wait_queue \<Rightarrow> drive_wait_queue \<times> nat option" where
  "drive_queue_poll dq =
     (if dq_count dq = 0 then (dq, None) else map_prod id Some (drive_queue_pop dq))"

interpretation drive_queue: bounded_fifo "drive_queue_push True" drive_queue_poll
  drive_queue_contents drive_queue_room drive_queue_wf
proof unfold_locales
  fix dq x assume "drive_queue_wf dq" "0 < drive_queue_room dq"
  from drive_queue_push_room [OF this, of x] this
  show "snd (drive_queue_push True dq x) \<and> drive_queue_wf (fst (drive_queue_push True dq x)) \<and>
     drive_queue_contents (fst (drive_queue_push True dq x)) = drive_queue_contents dq @ [x] \<and>
     drive_queue_room (fst (drive_queue_push True dq x)) = drive_queue_room dq - 1"
    by (auto simp: drive_queue_room_def dest!: arg_cong [of _ _ length])
next
  fix dq x assume "drive_queue_wf dq" "drive_queue_room dq = 0"
  then show "\<not> snd (drive_queue_push True dq x) \<and> drive_queue_wf (fst (drive_queue_push True dq x)) \<and>
     drive_queue_contents (fst (drive_queue_push True dq x)) = drive_queue_contents dq \<and>
     drive_queue_room (fst (drive_queue_push True dq x)) = 0"
    by (simp add: drive_queue_push_full)
next
  fix dq y ys assume a: "drive_queue_wf dq" "drive_queue_contents dq = y # ys"
  from drive_queue_pop_wf [OF a]
  show "snd (drive_queue_poll dq) = Some y \<and> drive_queue_wf (fst (drive_queue_poll dq)) \<and>
     drive_queue_contents (fst (drive_queue_poll dq)) = ys"
    by (auto simp: drive_queue_poll_def)
next
  fix dq assume "drive_queue_wf dq" "drive_queue_contents dq = []"
  then show "drive_queue_poll dq = (dq, None)"
    by (auto simp: drive_queue_poll_def drive_queue_contents_def)
qed

section \<open>Removing a task\<close>

lemma drive_queue_push_no_growth:
  "dq_count dq < dq_capacity dq \<Longrightarrow> drive_queue_push ok dq tid = (drive_queue_append dq tid, True)"
  by (simp add: drive_queue_push_def)

lemma drive_queue_rotate_contents:
  assumes "drive_queue_wf dq" "drive_queue_contents dq = xs @ ys" "length xs = i"
  shows "drive_queue_wf (fst (drive_queue_rotate i tid dq removed))
    \<and> drive_queue_contents (fst (drive_queue_rotate i tid dq removed)) = ys @ filter (\<lambda>x. x \<noteq> tid) xs
    \<and> snd (drive_queue_rotate i tid dq removed) = (removed \<or> tid \<in> set xs)"
  using assms
proof (induction i arbitrary: dq xs ys removed)
  case (Suc i)
  then obtain x xs' where xs: "xs = x # xs'" by (cases xs) auto
  obtain dq' x' where dq': "drive_queue_pop dq = (dq', x')" by force
  from drive_queue_pop_wf [OF Suc.prems(1), of x "xs' @ ys"] Suc.prems(2) xs dq'
  have pop: "x' = x" "drive_queue_wf dq'" "drive_queue_contents dq' = xs' @ ys"
    "dq_capacity dq' = dq_capacity dq" "dq_count dq = Suc (dq_count dq')" by auto
  have lt: "dq_count dq' < dq_capacity dq'"
    using Suc.prems(1) pop(4,5) by (simp add: drive_queue_wf_def)
  show ?case
  proof (cases "x = tid")
    case True
    with Suc.IH [of dq' xs' ys True] pop dq' Suc.prems(3) xs show ?thesis by simp
  next
    case False
    from drive_queue_append_wf [OF pop(2) lt, of x] pop(3)
    have app: "drive_queue_wf (drive_queue_append dq' x)"
      "drive_queue_contents (drive_queue_append dq' x) = xs' @ (ys @ [x])" by auto
    with Suc.IH [of "drive_queue_append dq' x" xs' "ys @ [x]" removed] pop(1) dq' Suc.prems(3) xs False lt
    show ?thesis by (simp add: drive_queue_push_no_growth)
  qed
qed simp

lemma drive_queue_remove_contents:
  assumes "drive_queue_wf dq"
  shows "drive_queue_wf (fst (drive_queue_remove dq tid))"
    and "drive_queue_contents (fst (drive_queue_remove dq tid)) = filter (\<lambda>x. x \<noteq> tid) (drive_queue_contents dq)"
    and "snd (drive_queue_remove dq tid) \<longleftrightarrow> tid \<in> set (drive_queue_contents dq)"
  using drive_queue_rotate_contents [OF assms, of "drive_queue_contents dq" "[]" "dq_count dq" tid False]
  by (auto simp: drive_queue_remove_def)

lemma drive_queue_front_contents:
  "drive_queue_wf dq \<Longrightarrow> drive_queue_front dq =
     (case drive_queue_contents dq of [] \<Rightarrow> UINT_MAX | t # _ \<Rightarrow> t)"
  by (cases "dq_count dq")
    (auto simp: drive_queue_front_def drive_queue_contents_def drive_queue_wf_def upt_conv_Cons
      simp del: upt_Suc split: if_splits)

section \<open>Properties\<close>

text \<open>The growing ring of waiting tids refines a list: pushing appends as long as the overflow
  checks allow a larger array and the allocation succeeds (growth keeps the order), the front is the
  oldest waiter or \<open>UINT_MAX\<close>, popping drops it, and removing a tid deletes exactly its entries,
  keeps the order of the others and says whether there was one.\<close>

theorem drive_queue_refines_list:
  assumes "drive_queue_wf dq"
  shows "drive_queue_wf (fst (drive_queue_push True dq tid))
    \<and> drive_queue_contents (fst (drive_queue_push True dq tid))
        = drive_queue_contents dq @ (if dq_count dq < DRIVE_QUEUE_MAX then [tid] else [])
    \<and> snd (drive_queue_push True dq tid) = (dq_count dq < DRIVE_QUEUE_MAX)
    \<and> drive_queue_front dq = (case drive_queue_contents dq of [] \<Rightarrow> UINT_MAX | t # _ \<Rightarrow> t)
    \<and> drive_queue_wf (fst (drive_queue_remove dq tid))
    \<and> drive_queue_contents (fst (drive_queue_remove dq tid)) = removeAll tid (drive_queue_contents dq)
    \<and> snd (drive_queue_remove dq tid) = (tid \<in> set (drive_queue_contents dq))
    \<and> (drive_queue_contents dq \<noteq> [] \<longrightarrow>
        drive_queue_contents (fst (drive_queue_pop dq)) = tl (drive_queue_contents dq))"
proof -
  have pop: "drive_queue_contents (fst (drive_queue_pop dq)) = tl (drive_queue_contents dq)"
    if "drive_queue_contents dq \<noteq> []"
    using drive_queue_pop_wf [OF assms, of "hd (drive_queue_contents dq)" "tl (drive_queue_contents dq)"] that
    by simp
  have rem: "filter (\<lambda>x. x \<noteq> tid) xs = removeAll tid xs" for xs
    by (induction xs) auto
  note * = drive_queue_front_contents [OF assms] drive_queue_remove_contents [OF assms, of tid] pop
  show ?thesis
  proof (cases "dq_count dq < DRIVE_QUEUE_MAX")
    case True
    then have "0 < drive_queue_room dq" by (simp add: drive_queue_room_def)
    from drive_queue.put_room [OF assms this, of tid] True * show ?thesis by (simp add: rem)
  next
    case False
    then have "drive_queue_room dq = 0" by (simp add: drive_queue_room_def)
    from drive_queue.put_full [OF assms this, of tid] False * show ?thesis by (simp add: rem)
  qed
qed

lemma drive_queue_refines_list_witness:
  "drive_queue_contents (fst (drive_queue_remove
      (fst (drive_queue_push True (fst (drive_queue_push True drive_queue_empty 5)) 7)) 5)) = [7]"
proof -
  let ?q = "fst (drive_queue_push True drive_queue_empty 5)"
  have "0 < drive_queue_room drive_queue_empty"
    by (simp add: drive_queue_room_def DRIVE_QUEUE_MAX_def drive_queue_empty_def)
  from drive_queue_push_room [OF _ this, of 5]
  have wf: "drive_queue_wf ?q" and c: "drive_queue_contents ?q = [5]" by simp_all
  have n: "dq_count ?q < DRIVE_QUEUE_MAX"
    using arg_cong [OF c, of length] by (simp add: DRIVE_QUEUE_MAX_def)
  from drive_queue_refines_list [OF wf, of 7] c n
  have "drive_queue_wf (fst (drive_queue_push True ?q 7))"
    "drive_queue_contents (fst (drive_queue_push True ?q 7)) = [5, 7]" by auto
  from drive_queue_refines_list [OF this(1), of 5] this(2) show ?thesis by simp
qed

end
