(* ===== verification/Task.thy ===== *)
theory Task
  imports DriveQueue
begin

text \<open>
  The task control block of \<^verbatim>\<open>kernel/include/define.h\<close> (\<open>struct mtask\<close>, \<open>IPC_Header\<close>), the per-CPU
  scheduler record and the task registry of \<^verbatim>\<open>kernel/dos/task/mtask.c\<close>, and the accessors every
  other theory of the process subsystem uses.  A task pointer of the code is the tid of its slot:
  a slot never moves and \<open>task_slot_reset\<close> keeps its tid.  A NULL task pointer is \<open>None\<close>.
\<close>

section \<open>Constants and enumerations\<close>

definition TASK_ID_NONE :: nat where "TASK_ID_NONE = 4294967295"
definition REAPER_TID :: nat where "REAPER_TID = 0"
definition TASK_KILLED_STATUS :: u32 where "TASK_KILLED_STATUS = -1"
definition TASK_SLOT_CHUNK_SIZE :: nat where "TASK_SLOT_CHUNK_SIZE = 64"

datatype task_state =
  EMPTY | RUNNING | WAITING | SLEEPING | WILL_EMPTY | READY | ALLOCATING | DIED

datatype task_kind = TASK_PROCESS | TASK_THREAD

datatype wait_reason =
  WR_NONE | WR_GENERIC | WR_CHILD | WR_LOCK | WR_DISK | WR_TIMER | WR_TASK_GROUP_LOCK
| WR_IPC | WR_SOCKET | WR_KEYBOARD | WR_INPUT | WR_USB | WR_TTY | WR_FUTEX | WR_IO | WR_SIGNAL

section \<open>Records\<close>

text \<open>One message slot of a task's inbox; \<open>None\<close> payload data is a NULL pointer.\<close>

record ipc_message =
  m_data :: bytes
  m_from_tid :: nat
  m_from_generation :: u32
  m_type :: u32
  m_id :: u32
  m_seq :: u64
  m_used :: bool

record rpc_pending =
  rp_server_tid :: nat
  rp_server_generation :: u32
  rp_id :: u32
  rp_opcode :: u32
  rp_deadline :: u32
  rp_reply :: bytes
  rp_capacity :: nat
  rp_length :: nat
  rp_status :: int
  rp_completed :: bool

record ipc_header =
  h_count :: nat
  h_seq :: u64
  h_messages :: "ipc_message list"
  h_rpc :: "rpc_pending option"

text \<open>
  The task control block.  \<open>t_queued\<close> is \<open>run_previous != NULL\<close>: the task is linked into the
  runnable list of its CPU.  \<open>t_idle\<close> and \<open>t_pinned\<close> are the two bits of \<open>sched_flags\<close>.
\<close>

record mtask =
  t_tid :: nat
  t_ptid :: nat
  t_tgid :: nat
  t_generation :: u32
  t_kind :: task_kind
  t_state :: task_state
  t_weight :: u32
  t_queued :: bool
  t_vruntime :: u64
  t_runtime_ns :: u64
  t_cpu :: nat
  t_on_cpu :: bool
  t_idle :: bool
  t_pinned :: bool
  t_urgent :: bool
  t_ready :: bool
  t_fifosleep :: bool
  t_joinable :: bool
  t_status :: u32
  t_terminate_status :: u32
  t_terminate_pending :: bool
  t_waittid :: nat
  t_wait_generation :: u32
  t_wait_reason :: wait_reason
  t_address_space :: nat
  t_group_lock_owner :: nat
  t_group_lock_depth :: u32
  t_tty :: "nat option"
  t_tty_session :: "nat option"
  t_waiting_lock :: "nat option"
  t_pending :: u32
  t_blocked :: u32
  t_ipc :: ipc_header
  t_ipc_wait_peer :: nat
  t_ipc_deadline :: u32
  t_ipc_deadline_set :: bool

text \<open>
  \<open>c_runnable\<close> is the intrusive list headed by \<open>runnable\<close> (head first), \<open>c_online\<close> is
  \<open>smp_cpu_online\<close> of that CPU.
\<close>

record scheduler_cpu =
  c_current :: "nat option"
  c_idle :: "nat option"
  c_next :: "nat option"
  c_runnable :: "nat list"
  c_load :: u64
  c_movable :: u32
  c_min_vruntime :: u64
  c_accounted_at :: u64
  c_accounted_weight :: u32
  c_need_resched :: bool
  c_online :: bool

text \<open>One registered service name (\<^verbatim>\<open>ipc.c\<close>).\<close>

record ipc_service =
  sv_name :: string
  sv_tid :: nat
  sv_generation :: u32
  sv_used :: bool

text \<open>A sleeping lock (\<^verbatim>\<open>lock.c\<close>); \<open>l_waiters\<close> is the list from \<open>waiter\<close> to \<open>waiter_tail\<close>.\<close>

record lock_t =
  l_owner :: "nat option"
  l_locked :: bool
  l_waiters :: "nat list"

text \<open>
  The wait record a blocked \<open>futex_operation\<close> keeps on its stack (\<^verbatim>\<open>futex.c\<close>).  A task blocks in one
  futex at a time, so the record is named by its tid.
\<close>

record futex_waiter =
  fw_address :: nat
  fw_deadline_ns :: u64
  fw_result :: int

text \<open>
  The globals of \<^verbatim>\<open>mtask.c\<close>: the registry (\<open>k_slots\<close> is the concatenation of its chunks, so
  \<open>slot_count\<close> is its length), the scheduler, the CPU that executes the operation, the retired
  list, the reschedule interrupts sent so far and the timer tick count.  After them come the globals
  of the components that block and wake tasks: the service table and RPC counter of \<^verbatim>\<open>ipc.c\<close>, the
  locks (a lock address is an index), the futex buckets, deadline list and wait records, the drive
  queues of \<^verbatim>\<open>vdisk.c\<close> and the input owners of \<^verbatim>\<open>input_device.c\<close>.
\<close>

record kernel =
  k_slots :: "mtask list"
  k_chunk_count :: nat
  k_chunk_capacity :: nat
  k_free_hint :: nat
  k_cpus :: "scheduler_cpu list"
  k_this_cpu :: nat
  k_lock_depth :: nat
  k_active :: bool
  k_ticks :: u64
  k_retired :: "nat list"
  k_ipis :: "nat list"
  k_timer_count :: u32
  k_services :: "ipc_service list"
  k_rpc_next_id :: u32
  k_locks :: "lock_t list"
  k_futex_buckets :: "nat list list"
  k_futex_deadlines :: "nat list"
  k_futex_records :: "nat \<Rightarrow> futex_waiter"
  k_drives :: "drive_wait_queue list"
  k_keyboard_use :: "nat option"
  k_mouse_use :: "nat option"

section \<open>Accessors\<close>

abbreviation slot_count :: "kernel \<Rightarrow> nat" where "slot_count s \<equiv> length (k_slots s)"
abbreviation cpu_total :: "kernel \<Rightarrow> nat" where "cpu_total s \<equiv> length (k_cpus s)"
abbreviation tsk :: "kernel \<Rightarrow> nat \<Rightarrow> mtask" where "tsk s t \<equiv> k_slots s ! t"
abbreviation cpu_of :: "kernel \<Rightarrow> nat \<Rightarrow> scheduler_cpu" where "cpu_of s c \<equiv> k_cpus s ! c"

definition upd_task :: "nat \<Rightarrow> (mtask \<Rightarrow> mtask) \<Rightarrow> kernel \<Rightarrow> kernel" where
  "upd_task t f s = s\<lparr>k_slots := (k_slots s)[t := f (tsk s t)]\<rparr>"

definition upd_cpu :: "nat \<Rightarrow> (scheduler_cpu \<Rightarrow> scheduler_cpu) \<Rightarrow> kernel \<Rightarrow> kernel" where
  "upd_cpu c f s = s\<lparr>k_cpus := (k_cpus s)[c := f (cpu_of s c)]\<rparr>"

text \<open>\<open>task->weight ? task->weight : 1\<close>, widened to the type of the load.\<close>

definition eff_weight :: "mtask \<Rightarrow> u64" where
  "eff_weight t = (if t_weight t = 0 then 1 else ucast (t_weight t))"

definition task_slot_in_use :: "mtask \<Rightarrow> bool" where
  "task_slot_in_use t \<longleftrightarrow> t_state t \<notin> {EMPTY, WILL_EMPTY, READY, ALLOCATING}"

definition task_slot_at :: "kernel \<Rightarrow> nat \<Rightarrow> nat option" where
  "task_slot_at s tid = (if tid \<ge> slot_count s then None else Some tid)"

definition get_task :: "kernel \<Rightarrow> nat \<Rightarrow> nat option" where
  "get_task s tid =
     (case task_slot_at s tid of
        None \<Rightarrow> None
      | Some t \<Rightarrow>
          if t_state (tsk s t) \<in> {EMPTY, WILL_EMPTY, READY, ALLOCATING} then None else Some t)"

definition current_task :: "kernel \<Rightarrow> nat option" where
  "current_task s = c_current (cpu_of s (k_this_cpu s))"

text \<open>\<open>task_iter_next\<close>: the next slot in use at or after \<open>next_tid\<close>, and where to go on.\<close>

definition task_iter_next :: "kernel \<Rightarrow> nat \<Rightarrow> (nat \<times> nat) option" where
  "task_iter_next s next_tid =
     map_option (\<lambda>t. (t, Suc t)) (find (\<lambda>t. task_slot_in_use (tsk s t)) [next_tid..<slot_count s])"

text \<open>
  A \<open>for\<close> loop over every slot whose body runs \<open>f\<close> on the slots that satisfy \<open>P\<close> at the time
  they are visited.
\<close>

definition for_slots :: "(kernel \<Rightarrow> nat \<Rightarrow> bool) \<Rightarrow> (nat \<Rightarrow> kernel \<Rightarrow> kernel) \<Rightarrow> kernel \<Rightarrow> kernel" where
  "for_slots P f s = fold (\<lambda>t s. if P s t then f t s else s) [0..<slot_count s] s"

section \<open>Initial values\<close>

definition ipc_message_clear :: ipc_message where
  "ipc_message_clear =
     \<lparr>m_data = [], m_from_tid = TASK_ID_NONE, m_from_generation = 0, m_type = 0, m_id = 0,
      m_seq = 0, m_used = False\<rparr>"

abbreviation MAX_IPC_MESSAGE :: nat where "MAX_IPC_MESSAGE \<equiv> 16"

definition ipc_header_init :: ipc_header where
  "ipc_header_init =
     \<lparr>h_count = 0, h_seq = 0, h_messages = replicate MAX_IPC_MESSAGE ipc_message_clear,
      h_rpc = None\<rparr>"

definition ipc_task_init :: "mtask \<Rightarrow> mtask" where
  "ipc_task_init t =
     t\<lparr>t_ipc := ipc_header_init, t_ipc_wait_peer := TASK_ID_NONE, t_ipc_deadline := 0,
       t_ipc_deadline_set := False\<rparr>"

text \<open>\<open>memset (task, 0, sizeof (mtask))\<close> and the fields set after it.\<close>

definition task_slot_reset :: "nat \<Rightarrow> mtask \<Rightarrow> mtask" where
  "task_slot_reset tid t = ipc_task_init
     \<lparr>t_tid = tid, t_ptid = TASK_ID_NONE, t_tgid = tid, t_generation = t_generation t,
      t_kind = TASK_PROCESS, t_state = EMPTY, t_weight = 0, t_queued = False,
      t_vruntime = 0, t_runtime_ns = 0, t_cpu = 0, t_on_cpu = False, t_idle = False,
      t_pinned = False, t_urgent = False, t_ready = False, t_fifosleep = False,
      t_joinable = False, t_status = 0, t_terminate_status = 0, t_terminate_pending = False,
      t_waittid = TASK_ID_NONE, t_wait_generation = 0, t_wait_reason = WR_NONE,
      t_address_space = 0, t_group_lock_owner = TASK_ID_NONE, t_group_lock_depth = 0,
      t_tty = None, t_tty_session = None, t_waiting_lock = None, t_pending = 0,
      t_blocked = 0, t_ipc = ipc_header_init, t_ipc_wait_peer = 0, t_ipc_deadline = 0,
      t_ipc_deadline_set = False\<rparr>"

section \<open>Facts about the accessors\<close>

lemma upd_task_slots [simp]:
  "k_slots (upd_task t f s) = (k_slots s)[t := f (tsk s t)]"
  "k_cpus (upd_task t f s) = k_cpus s" "k_this_cpu (upd_task t f s) = k_this_cpu s"
  "k_active (upd_task t f s) = k_active s" "k_free_hint (upd_task t f s) = k_free_hint s"
  "k_retired (upd_task t f s) = k_retired s" "k_ticks (upd_task t f s) = k_ticks s"
  "k_timer_count (upd_task t f s) = k_timer_count s" "k_lock_depth (upd_task t f s) = k_lock_depth s"
  "k_chunk_count (upd_task t f s) = k_chunk_count s"
  "k_chunk_capacity (upd_task t f s) = k_chunk_capacity s" "k_ipis (upd_task t f s) = k_ipis s"
  "k_services (upd_task t f s) = k_services s"
  "k_rpc_next_id (upd_task t f s) = k_rpc_next_id s"
  "k_locks (upd_task t f s) = k_locks s"
  "k_futex_buckets (upd_task t f s) = k_futex_buckets s"
  "k_futex_deadlines (upd_task t f s) = k_futex_deadlines s"
  "k_futex_records (upd_task t f s) = k_futex_records s"
  "k_drives (upd_task t f s) = k_drives s"
  "k_keyboard_use (upd_task t f s) = k_keyboard_use s"
  "k_mouse_use (upd_task t f s) = k_mouse_use s"
  by (simp_all add: upd_task_def)

lemma upd_cpu_slots [simp]:
  "k_cpus (upd_cpu c g s) = (k_cpus s)[c := g (cpu_of s c)]"
  "k_slots (upd_cpu c g s) = k_slots s" "k_this_cpu (upd_cpu c g s) = k_this_cpu s"
  "k_active (upd_cpu c g s) = k_active s" "k_free_hint (upd_cpu c g s) = k_free_hint s"
  "k_retired (upd_cpu c g s) = k_retired s" "k_ticks (upd_cpu c g s) = k_ticks s"
  "k_timer_count (upd_cpu c g s) = k_timer_count s" "k_lock_depth (upd_cpu c g s) = k_lock_depth s"
  "k_chunk_count (upd_cpu c g s) = k_chunk_count s"
  "k_chunk_capacity (upd_cpu c g s) = k_chunk_capacity s" "k_ipis (upd_cpu c g s) = k_ipis s"
  "k_services (upd_cpu c g s) = k_services s"
  "k_rpc_next_id (upd_cpu c g s) = k_rpc_next_id s"
  "k_locks (upd_cpu c g s) = k_locks s"
  "k_futex_buckets (upd_cpu c g s) = k_futex_buckets s"
  "k_futex_deadlines (upd_cpu c g s) = k_futex_deadlines s"
  "k_futex_records (upd_cpu c g s) = k_futex_records s"
  "k_drives (upd_cpu c g s) = k_drives s"
  "k_keyboard_use (upd_cpu c g s) = k_keyboard_use s"
  "k_mouse_use (upd_cpu c g s) = k_mouse_use s"
  by (simp_all add: upd_cpu_def)

lemma tsk_upd_task: "tsk (upd_task t f s) u = (if t = u \<and> t < slot_count s then f (tsk s t) else tsk s u)"
  by (simp add: nth_list_update_if)

lemma get_task_Some:
  "get_task s tid = Some t \<longleftrightarrow> t = tid \<and> tid < slot_count s \<and> task_slot_in_use (tsk s tid)"
  by (auto simp: get_task_def task_slot_at_def task_slot_in_use_def)

lemma get_task_None:
  "get_task s tid = None \<longleftrightarrow> (tid < slot_count s \<longrightarrow> \<not> task_slot_in_use (tsk s tid))"
  by (auto simp: get_task_def task_slot_at_def task_slot_in_use_def)

lemma eff_weight_nonzero: "0 < eff_weight t"
  by (auto simp: eff_weight_def word_neq_0_conv [symmetric] ucast_widen_eq_0)

lemma slot_count_for_slots [simp]:
  "(\<And>t s. slot_count (f t s) = slot_count s) \<Longrightarrow> slot_count (for_slots P f s) = slot_count s"
proof -
  assume f: "\<And>t s. slot_count (f t s) = slot_count s"
  have "slot_count (fold (\<lambda>t s. if P s t then f t s else s) xs s) = slot_count s" for xs
    by (induction xs arbitrary: s) (auto simp: f)
  then show ?thesis by (simp add: for_slots_def)
qed

text \<open>An invariant that the body keeps on every slot it runs on is kept by the loop.\<close>

lemma for_slots_inv:
  assumes "I s" and "\<And>t u. I u \<Longrightarrow> t < slot_count s \<Longrightarrow> P u t \<Longrightarrow> I (f t u)"
  shows "I (for_slots P f s)"
proof -
  have "set xs \<subseteq> {..<slot_count s} \<Longrightarrow> I u \<Longrightarrow> I (fold (\<lambda>t u. if P u t then f t u else u) xs u)" for xs u
    by (induction xs arbitrary: u) (auto simp: assms(2))
  moreover have "set [0..<slot_count s] \<subseteq> {..<slot_count s}" by auto
  ultimately show ?thesis using assms(1) by (simp add: for_slots_def)
qed

end
