(* ===== verification/Sched.thy ===== *)
theory Sched
  imports Task
begin

text \<open>
  The per-CPU run queues of \<^verbatim>\<open>kernel/dos/task/mtask.c\<close>: accounting, queue membership, weights,
  placement, waking, pulling and balancing.  The intrusive runnable list is its list of tids and
  \<open>run_previous != NULL\<close> is \<open>t_queued\<close>; loads are 64-bit words, so the statements about them hold
  with the wrap-around of the code.
\<close>

section \<open>Operations\<close>

definition scheduler_account :: "nat \<Rightarrow> u64 \<Rightarrow> kernel \<Rightarrow> kernel" where
  "scheduler_account index now s =
     (let elapsed = now - c_accounted_at (cpu_of s index);
          s = upd_cpu index (\<lambda>c. c\<lparr>c_accounted_at := now\<rparr>) s
      in case c_current (cpu_of s index) of
           None \<Rightarrow> s
         | Some t \<Rightarrow>
             (let s = upd_task t (\<lambda>k. k\<lparr>t_runtime_ns := t_runtime_ns k + elapsed\<rparr>) s;
                  s = (if \<not> t_idle (tsk s t)
                       then upd_task t (\<lambda>k. k\<lparr>t_vruntime := t_vruntime k
                              + elapsed div ucast (c_accounted_weight (cpu_of s index))\<rparr>) s
                       else s)
              in upd_cpu index (\<lambda>c. c\<lparr>c_accounted_weight :=
                    (if t_weight (tsk s t) = 0 then 1 else t_weight (tsk s t))\<rparr>) s))"

definition scheduler_remove :: "nat \<Rightarrow> kernel \<Rightarrow> kernel" where
  "scheduler_remove t s =
     (if \<not> t_queued (tsk s t) then s
      else
        upd_task t (\<lambda>k. k\<lparr>t_queued := False\<rparr>)
          (upd_cpu (t_cpu (tsk s t))
             (\<lambda>c. c\<lparr>c_runnable := remove1 t (c_runnable c),
                    c_load := c_load c - eff_weight (tsk s t),
                    c_movable := c_movable c - (if t_pinned (tsk s t) then 0 else 1)\<rparr>) s))"

definition scheduler_insert :: "nat \<Rightarrow> kernel \<Rightarrow> kernel" where
  "scheduler_insert t s =
     (if t_state (tsk s t) \<noteq> RUNNING \<or> t_idle (tsk s t) \<or> t_queued (tsk s t) then s
      else
        upd_task t (\<lambda>k. k\<lparr>t_queued := True\<rparr>)
          (upd_cpu (t_cpu (tsk s t))
             (\<lambda>c. c\<lparr>c_runnable := t # c_runnable c,
                    c_load := c_load c + eff_weight (tsk s t),
                    c_movable := c_movable c + (if t_pinned (tsk s t) then 0 else 1)\<rparr>) s))"

definition task_set_state :: "nat \<Rightarrow> task_state \<Rightarrow> kernel \<Rightarrow> kernel" where
  "task_set_state t st s =
     scheduler_insert t (upd_task t (\<lambda>k. k\<lparr>t_state := st\<rparr>) (scheduler_remove t s))"

definition smp_send_reschedule :: "nat \<Rightarrow> kernel \<Rightarrow> kernel" where
  "smp_send_reschedule c s =
     (if c \<ge> cpu_total s \<or> c = k_this_cpu s \<or> \<not> c_online (cpu_of s c) then s
      else s\<lparr>k_ipis := k_ipis s @ [c]\<rparr>)"

definition task_set_weight :: "u64 \<Rightarrow> nat \<Rightarrow> u32 \<Rightarrow> kernel \<Rightarrow> kernel" where
  "task_set_weight now t w s =
     (if t_weight (tsk s t) = w then s
      else
        (let local = (k_active s \<and> current_task s = Some t);
             s = (if local then scheduler_account (k_this_cpu s) now s else s);
             s = (if t_queued (tsk s t)
                  then upd_cpu (t_cpu (tsk s t))
                         (\<lambda>c. c\<lparr>c_load := c_load c - eff_weight (tsk s t)
                                          + (if w = 0 then 1 else ucast w)\<rparr>) s
                  else s);
             s = upd_task t (\<lambda>k. k\<lparr>t_weight := w\<rparr>) s;
             s = (if local
                  then upd_cpu (k_this_cpu s)
                         (\<lambda>c. c\<lparr>c_accounted_weight := (if w = 0 then 1 else w)\<rparr>) s
                  else s)
         in if t_on_cpu (tsk s t) \<and> \<not> local then smp_send_reschedule (t_cpu (tsk s t)) s else s))"

text \<open>The load of a CPU without the task being placed.\<close>

definition scheduler_load :: "kernel \<Rightarrow> nat \<Rightarrow> nat option \<Rightarrow> u64" where
  "scheduler_load s c exclude =
     (case exclude of
        Some t \<Rightarrow>
          (if t_cpu (tsk s t) = c \<and> t_queued (tsk s t)
           then c_load (cpu_of s c) - eff_weight (tsk s t) else c_load (cpu_of s c))
      | None \<Rightarrow> c_load (cpu_of s c))"

definition scheduler_least_loaded_cpu :: "kernel \<Rightarrow> nat \<Rightarrow> nat" where
  "scheduler_least_loaded_cpu s t =
     fst (fold (\<lambda>c (selected, selected_load).
                 if \<not> c_online (cpu_of s c) then (selected, selected_load)
                 else if scheduler_load s c (Some t) < selected_load
                      then (c, scheduler_load s c (Some t)) else (selected, selected_load))
            [0..<cpu_total s]
            (t_cpu (tsk s t), scheduler_load s (t_cpu (tsk s t)) (Some t)))"

definition scheduler_request :: "nat \<Rightarrow> kernel \<Rightarrow> kernel" where
  "scheduler_request c s =
     (if \<not> c_need_resched (cpu_of s c)
      then smp_send_reschedule c (upd_cpu c (\<lambda>k. k\<lparr>c_need_resched := True\<rparr>) s)
      else s)"

definition scheduler_place_task :: "nat \<Rightarrow> nat \<Rightarrow> kernel \<Rightarrow> kernel" where
  "scheduler_place_task t c s =
     (let lag = (if t_vruntime (tsk s t) > c_min_vruntime (cpu_of s (t_cpu (tsk s t)))
                 then t_vruntime (tsk s t) - c_min_vruntime (cpu_of s (t_cpu (tsk s t))) else 0);
          s = scheduler_remove t s;
          s = upd_task t (\<lambda>k. k\<lparr>t_cpu := c\<rparr>) s;
          s = scheduler_insert t s;
          s = upd_task t (\<lambda>k. k\<lparr>t_vruntime := c_min_vruntime (cpu_of s c) + lag\<rparr>) s
      in scheduler_request c s)"

text \<open>Every thread of an address space is moved to one CPU, unless one of them runs elsewhere.\<close>

definition task_pin_address_space :: "nat \<Rightarrow> nat \<Rightarrow> kernel \<Rightarrow> kernel \<times> bool" where
  "task_pin_address_space asp c s =
     (if \<exists>t\<in>set [0..<slot_count s]. task_slot_in_use (tsk s t) \<and> t_address_space (tsk s t) = asp
           \<and> t_on_cpu (tsk s t) \<and> current_task s \<noteq> Some t
      then (s, False)
      else
        (for_slots (\<lambda>s t. task_slot_in_use (tsk s t) \<and> t_address_space (tsk s t) = asp)
           (\<lambda>t s. let s = upd_task t (\<lambda>k. k\<lparr>t_pinned := True\<rparr>) (scheduler_remove t s) in
              if t_cpu (tsk s t) \<noteq> c then scheduler_place_task t c s else scheduler_insert t s) s,
         True))"

definition task_run :: "nat \<Rightarrow> kernel \<Rightarrow> kernel" where
  "task_run t s =
     (if t_state (tsk s t) \<in> {EMPTY, WILL_EMPTY, READY, ALLOCATING, DIED} then s
      else
        (let s = upd_task t (\<lambda>k. k\<lparr>t_urgent := True\<rparr>) s;
             s = (if t_state (tsk s t) \<in> {WAITING, SLEEPING} then
                    (let s = task_set_state t RUNNING s;
                         s = upd_task t (\<lambda>k. k\<lparr>t_wait_reason := WR_NONE, t_ready := False\<rparr>) s
                     in if \<not> t_pinned (tsk s t) \<and> \<not> t_on_cpu (tsk s t)
                        then scheduler_place_task t (scheduler_least_loaded_cpu s t) s
                        else scheduler_request (t_cpu (tsk s t)) s)
                  else
                    (let s = upd_task t (\<lambda>k. k\<lparr>t_ready := True\<rparr>) s
                     in scheduler_request (t_cpu (tsk s t)) s))
         in upd_task t (\<lambda>k. k\<lparr>t_fifosleep := False\<rparr>) s))"

definition task_sleep :: "nat \<Rightarrow> kernel \<Rightarrow> kernel" where
  "task_sleep t s =
     upd_task t (\<lambda>k. k\<lparr>t_wait_reason := WR_GENERIC, t_fifosleep := True\<rparr>) (task_set_state t SLEEPING s)"

definition mtask_run_now :: "nat option \<Rightarrow> kernel \<Rightarrow> kernel" where
  "mtask_run_now obj s =
     (case obj of
        None \<Rightarrow> s
      | Some t \<Rightarrow>
          if t_cpu (tsk s t) \<ge> cpu_total s then s
          else scheduler_request (t_cpu (tsk s t))
                 (upd_cpu (t_cpu (tsk s t)) (\<lambda>c. c\<lparr>c_next := Some t\<rparr>) s))"

definition task_publish :: "nat option \<Rightarrow> kernel \<Rightarrow> kernel \<times> bool" where
  "task_publish task s =
     (case task of
        None \<Rightarrow> (s, False)
      | Some t \<Rightarrow>
          if t_state (tsk s t) \<noteq> ALLOCATING then (s, False)
          else
            (let c = (if t_pinned (tsk s t) then t_cpu (tsk s t) else scheduler_least_loaded_cpu s t)
             in (task_set_state t RUNNING (scheduler_place_task t c s), True)))"

subsection \<open>Pulling and balancing\<close>

text \<open>The gain of moving a queued task, and the candidates of one donor CPU.\<close>

definition pull_gain :: "u64 \<Rightarrow> u64 \<Rightarrow> u64" where
  "pull_gain difference weight =
     (if weight < difference - weight then weight else difference - weight)"

definition pull_candidate :: "kernel \<Rightarrow> u64 \<Rightarrow> nat \<Rightarrow> bool" where
  "pull_candidate s difference t \<longleftrightarrow>
     \<not> (t_on_cpu (tsk s t) \<or> t_terminate_pending (tsk s t) \<or> t_pinned (tsk s t))
     \<and> \<not> (eff_weight (tsk s t) \<ge> difference)"

definition pull_scan :: "kernel \<Rightarrow> u64 \<Rightarrow> nat list \<Rightarrow> nat option \<times> u64 \<Rightarrow> nat option \<times> u64" where
  "pull_scan s difference ts acc =
     fold (\<lambda>t (selected, best_gain).
             if \<not> pull_candidate s difference t then (selected, best_gain)
             else if pull_gain difference (eff_weight (tsk s t)) > best_gain
                  then (Some t, pull_gain difference (eff_weight (tsk s t)))
                  else (selected, best_gain)) ts acc"

text \<open>A donor is skipped when it is the target, not busier, or has no task it could give away.\<close>

definition pull_skip :: "kernel \<Rightarrow> nat \<Rightarrow> nat \<Rightarrow> bool" where
  "pull_skip s target index \<longleftrightarrow>
     index = target \<or> c_load (cpu_of s index) \<le> c_load (cpu_of s target)
     \<or> c_movable (cpu_of s index) = 0
     \<or> (c_movable (cpu_of s index) = 1
        \<and> (case c_current (cpu_of s index) of
             None \<Rightarrow> False
           | Some running \<Rightarrow> t_on_cpu (tsk s running) \<and> t_queued (tsk s running)
                              \<and> \<not> t_pinned (tsk s running)))"

definition pull_select :: "kernel \<Rightarrow> nat \<Rightarrow> nat option \<times> u64" where
  "pull_select s target =
     fold (\<lambda>index acc.
             if pull_skip s target index then acc
             else pull_scan s (c_load (cpu_of s index) - c_load (cpu_of s target))
                    (c_runnable (cpu_of s index)) acc)
       [0..<cpu_total s] (None, 0)"

definition scheduler_pull :: "nat \<Rightarrow> kernel \<Rightarrow> kernel \<times> bool" where
  "scheduler_pull target s =
     (case fst (pull_select s target) of
        None \<Rightarrow> (s, False)
      | Some t \<Rightarrow> (scheduler_place_task t target s, True))"

definition scheduler_balance :: "kernel \<Rightarrow> kernel" where
  "scheduler_balance s =
     (let least = fold (\<lambda>c least. if c_online (cpu_of s c)
                            \<and> c_load (cpu_of s c) < c_load (cpu_of s least) then c else least)
                    [1..<cpu_total s] 0
      in fst (scheduler_pull least s))"

definition scheduler_tick :: "kernel \<Rightarrow> kernel" where
  "scheduler_tick s =
     (if \<not> k_active s then s
      else
        (let s = upd_cpu (k_this_cpu s) (\<lambda>c. c\<lparr>c_need_resched := True\<rparr>) s in
         if k_this_cpu s = 0 then
           (let s = s\<lparr>k_ticks := k_ticks s + 1\<rparr> in
            if k_ticks s mod 10 = 0 then scheduler_balance s else s)
         else s))"

end
