(* ===== verification/SchedInv.thy ===== *)
theory SchedInv
  imports Sched
begin

text \<open>
  The structural invariant of the run queues and that the queue operations keep it.  \<open>runq_wf\<close> ties
  the runnable lists, the membership flag of every task and the cached load and movable count
  together; \<open>sched_wf\<close> adds that exactly the running, non-idle tasks are queued.
\<close>

section \<open>The invariant\<close>

definition cpu_queue_wf :: "kernel \<Rightarrow> nat \<Rightarrow> bool" where
  "cpu_queue_wf s c \<longleftrightarrow>
     distinct (c_runnable (cpu_of s c))
     \<and> set (c_runnable (cpu_of s c))
        = {t. t < slot_count s \<and> t_queued (tsk s t) \<and> t_cpu (tsk s t) = c}
     \<and> c_load (cpu_of s c) = (\<Sum>t\<leftarrow>c_runnable (cpu_of s c). eff_weight (tsk s t))
     \<and> c_movable (cpu_of s c) = (\<Sum>t\<leftarrow>c_runnable (cpu_of s c). if t_pinned (tsk s t) then 0 else 1)"

lemma cpu_queue_wf_code:
  "cpu_queue_wf s c \<longleftrightarrow>
     distinct (c_runnable (cpu_of s c))
     \<and> ((\<forall>t\<in>set (c_runnable (cpu_of s c)). t < slot_count s \<and> t_queued (tsk s t) \<and> t_cpu (tsk s t) = c)
     \<and> (\<forall>t\<in>set [0..<slot_count s]. t_queued (tsk s t) \<and> t_cpu (tsk s t) = c \<longrightarrow>
          t \<in> set (c_runnable (cpu_of s c))))
     \<and> c_load (cpu_of s c) = (\<Sum>t\<leftarrow>c_runnable (cpu_of s c). eff_weight (tsk s t))
     \<and> c_movable (cpu_of s c) = (\<Sum>t\<leftarrow>c_runnable (cpu_of s c). if t_pinned (tsk s t) then 0 else 1)"
  unfolding cpu_queue_wf_def nat_set_eq_code ..

definition runq_wf :: "kernel \<Rightarrow> bool" where
  "runq_wf s \<longleftrightarrow>
     k_this_cpu s < cpu_total s
     \<and> (\<forall>t < slot_count s. t_tid (tsk s t) = t \<and> t_cpu (tsk s t) < cpu_total s)
     \<and> (\<forall>c<cpu_total s. cpu_queue_wf s c)"

definition queue_ok :: "mtask \<Rightarrow> bool" where
  "queue_ok k \<longleftrightarrow> (t_queued k \<longleftrightarrow> t_state k = RUNNING \<and> \<not> t_idle k)"

definition ptr_ok :: "kernel \<Rightarrow> nat option \<Rightarrow> bool" where
  "ptr_ok s p \<longleftrightarrow> (\<forall>t. p = Some t \<longrightarrow> t < slot_count s)"

lemma ptr_ok_code [code]: "ptr_ok s p \<longleftrightarrow> (case p of None \<Rightarrow> True | Some t \<Rightarrow> t < slot_count s)"
  by (simp add: ptr_ok_def split: option.splits)

definition sched_wf :: "kernel \<Rightarrow> bool" where
  "sched_wf s \<longleftrightarrow>
     runq_wf s \<and> (\<forall>t < slot_count s. queue_ok (tsk s t))
     \<and> (\<forall>c<cpu_total s. ptr_ok s (c_current (cpu_of s c)) \<and> ptr_ok s (c_next (cpu_of s c))
          \<and> ptr_ok s (c_idle (cpu_of s c)))"

text \<open>What the invariant reads of a task and of a CPU.\<close>

definition sched_view :: "mtask \<Rightarrow> nat \<times> nat \<times> bool \<times> u32 \<times> bool \<times> task_state \<times> bool" where
  "sched_view k = (t_tid k, t_cpu k, t_queued k, t_weight k, t_pinned k, t_state k, t_idle k)"

definition queue_view :: "scheduler_cpu \<Rightarrow> nat list \<times> u64 \<times> u32" where
  "queue_view c = (c_runnable c, c_load c, c_movable c)"

definition sched_same :: "kernel \<Rightarrow> kernel \<Rightarrow> bool" where
  "sched_same s s' \<longleftrightarrow>
     map sched_view (k_slots s') = map sched_view (k_slots s)
     \<and> map queue_view (k_cpus s') = map queue_view (k_cpus s) \<and> k_this_cpu s' = k_this_cpu s"

section \<open>Frame lemmas\<close>

lemma sched_same_refl [simp]: "sched_same s s" by (simp add: sched_same_def)

lemma sched_same_trans: "sched_same s t \<Longrightarrow> sched_same t u \<Longrightarrow> sched_same s u"
  by (simp add: sched_same_def)

lemma sched_same_lengths:
  assumes "sched_same s s'" shows "slot_count s' = slot_count s" "cpu_total s' = cpu_total s"
  using assms by (auto simp: sched_same_def dest: arg_cong [of _ _ length])

lemma sched_same_task:
  assumes "sched_same s s'" "t < slot_count s" shows "sched_view (tsk s' t) = sched_view (tsk s t)"
  using assms sched_same_lengths [OF assms(1)] by (auto simp: sched_same_def dest!: arg_cong [of _ _ "\<lambda>l. l ! t"])

lemma sched_same_cpu:
  assumes "sched_same s s'" "c < cpu_total s" shows "queue_view (cpu_of s' c) = queue_view (cpu_of s c)"
  using assms sched_same_lengths [OF assms(1)] by (auto simp: sched_same_def dest!: arg_cong [of _ _ "\<lambda>l. l ! c"])

lemma eff_weight_view: "sched_view k = sched_view k' \<Longrightarrow> eff_weight k = eff_weight k'"
  by (simp add: sched_view_def eff_weight_def)

lemma sched_same_upd_task [simp]:
  "sched_view (f (tsk s t)) = sched_view (tsk s t) \<Longrightarrow> sched_same s (upd_task t f s)"
  by (cases "t < slot_count s") (auto simp: sched_same_def map_list_update_same list_update_beyond)

lemma sched_same_upd_cpu [simp]:
  "queue_view (g (cpu_of s c)) = queue_view (cpu_of s c) \<Longrightarrow> sched_same s (upd_cpu c g s)"
  by (cases "c < cpu_total s") (auto simp: sched_same_def map_list_update_same list_update_beyond)

lemma cpu_queue_wf_same:
  assumes same: "sched_same s s'" and c: "c < cpu_total s" and wf: "cpu_queue_wf s c"
  shows "cpu_queue_wf s' c"
proof -
  have q: "c_runnable (cpu_of s' c) = c_runnable (cpu_of s c)" "c_load (cpu_of s' c) = c_load (cpu_of s c)"
    "c_movable (cpu_of s' c) = c_movable (cpu_of s c)"
    using sched_same_cpu [OF same c] by (auto simp: queue_view_def)
  have mem: "t < slot_count s" if "t \<in> set (c_runnable (cpu_of s c))" for t
    using that wf by (auto simp: cpu_queue_wf_def)
  have v: "eff_weight (tsk s' t) = eff_weight (tsk s t)" "t_pinned (tsk s' t) = t_pinned (tsk s t)"
    if "t \<in> set (c_runnable (cpu_of s c))" for t
    using sched_same_task [OF same mem [OF that]] eff_weight_view [of "tsk s' t" "tsk s t"]
    by (simp_all add: sched_view_def)
  have "{t. t < slot_count s' \<and> t_queued (tsk s' t) \<and> t_cpu (tsk s' t) = c}
      = {t. t < slot_count s \<and> t_queued (tsk s t) \<and> t_cpu (tsk s t) = c}"
    using sched_same_task [OF same] sched_same_lengths [OF same] by (auto simp: sched_view_def)
  moreover have "(\<Sum>t\<leftarrow>c_runnable (cpu_of s c). eff_weight (tsk s' t))
      = (\<Sum>t\<leftarrow>c_runnable (cpu_of s c). eff_weight (tsk s t))"
    by (rule sum_list_map_cong_on) (simp add: v)
  moreover have "(\<Sum>t\<leftarrow>c_runnable (cpu_of s c). if t_pinned (tsk s' t) then 0 else 1 :: u32)
      = (\<Sum>t\<leftarrow>c_runnable (cpu_of s c). if t_pinned (tsk s t) then 0 else 1)"
    by (rule sum_list_map_cong_on) (simp add: v)
  ultimately show ?thesis using wf by (simp add: cpu_queue_wf_def q)
qed

lemma runq_wfI:
  "k_this_cpu s < cpu_total s \<Longrightarrow>
   (\<And>t. t < slot_count s \<Longrightarrow> t_tid (tsk s t) = t \<and> t_cpu (tsk s t) < cpu_total s) \<Longrightarrow>
   (\<And>c. c < cpu_total s \<Longrightarrow> cpu_queue_wf s c) \<Longrightarrow> runq_wf s"
  by (simp add: runq_wf_def)

lemma runq_wf_same:
  assumes "sched_same s s'" "runq_wf s" shows "runq_wf s'"
proof (rule runq_wfI)
  note len = sched_same_lengths [OF assms(1)]
  show "k_this_cpu s' < cpu_total s'" using assms len by (simp add: runq_wf_def sched_same_def)
  show "t_tid (tsk s' t) = t \<and> t_cpu (tsk s' t) < cpu_total s'" if "t < slot_count s'" for t
    using that assms(2) len sched_same_task [OF assms(1), of t] by (simp add: runq_wf_def sched_view_def)
  show "cpu_queue_wf s' c" if "c < cpu_total s'" for c
    using that assms(2) len cpu_queue_wf_same [OF assms(1), of c] by (simp add: runq_wf_def)
qed

lemma queue_ok_same:
  assumes "sched_same s s'" "\<forall>t < slot_count s. queue_ok (tsk s t)" "t < slot_count s'"
  shows "queue_ok (tsk s' t)"
  using assms sched_same_lengths [OF assms(1)] sched_same_task [OF assms(1), of t]
  by (auto simp: queue_ok_def sched_view_def)

section \<open>The queue primitives keep the structure\<close>

lemma cpu_queue_wf_frame:
  assumes wf: "cpu_queue_wf s c"
    and "c_runnable (cpu_of s' c) = c_runnable (cpu_of s c)" "c_load (cpu_of s' c) = c_load (cpu_of s c)"
    "c_movable (cpu_of s' c) = c_movable (cpu_of s c)" "slot_count s' = slot_count s"
    and eq: "\<And>u. u < slot_count s \<Longrightarrow> (t_queued (tsk s' u) \<and> t_cpu (tsk s' u) = c)
        = (t_queued (tsk s u) \<and> t_cpu (tsk s u) = c)"
    and v: "\<And>u. u \<in> set (c_runnable (cpu_of s c)) \<Longrightarrow>
        t_weight (tsk s' u) = t_weight (tsk s u) \<and> t_pinned (tsk s' u) = t_pinned (tsk s u)"
  shows "cpu_queue_wf s' c"
proof -
  have "{t. t < slot_count s' \<and> t_queued (tsk s' t) \<and> t_cpu (tsk s' t) = c}
      = {t. t < slot_count s \<and> t_queued (tsk s t) \<and> t_cpu (tsk s t) = c}"
    using eq assms(5) by auto
  moreover have "(\<Sum>t\<leftarrow>c_runnable (cpu_of s c). eff_weight (tsk s' t))
      = (\<Sum>t\<leftarrow>c_runnable (cpu_of s c). eff_weight (tsk s t))"
    by (rule sum_list_map_cong_on) (simp add: v eff_weight_def)
  moreover have "(\<Sum>t\<leftarrow>c_runnable (cpu_of s c). if t_pinned (tsk s' t) then 0 else 1 :: u32)
      = (\<Sum>t\<leftarrow>c_runnable (cpu_of s c). if t_pinned (tsk s t) then 0 else 1)"
    by (rule sum_list_map_cong_on) (simp add: v)
  ultimately show ?thesis using wf assms(2-5) by (simp add: cpu_queue_wf_def)
qed

lemma scheduler_remove_fields [simp]:
  "slot_count (scheduler_remove t s) = slot_count s" "cpu_total (scheduler_remove t s) = cpu_total s"
  "k_this_cpu (scheduler_remove t s) = k_this_cpu s"
  by (simp_all add: scheduler_remove_def)

lemma scheduler_insert_fields [simp]:
  "slot_count (scheduler_insert t s) = slot_count s" "cpu_total (scheduler_insert t s) = cpu_total s"
  "k_this_cpu (scheduler_insert t s) = k_this_cpu s"
  by (simp_all add: scheduler_insert_def)

lemma tsk_scheduler_remove:
  "tsk (scheduler_remove t s) u = (if u = t \<and> t < slot_count s then (tsk s t)\<lparr>t_queued := False\<rparr> else tsk s u)"
  by (auto simp: scheduler_remove_def nth_list_update_if)

lemma tsk_scheduler_insert:
  "tsk (scheduler_insert t s) u = (if u = t \<and> t < slot_count s
     then (tsk s t)\<lparr>t_queued := t_queued (tsk s t) \<or> t_state (tsk s t) = RUNNING \<and> \<not> t_idle (tsk s t)\<rparr>
     else tsk s u)"
  by (auto simp: scheduler_insert_def nth_list_update_if)

lemma runq_wf_remove:
  assumes wf: "runq_wf s" and t: "t < slot_count s"
  shows "runq_wf (scheduler_remove t s)"
proof (cases "t_queued (tsk s t)")
  case False then show ?thesis using wf by (simp add: scheduler_remove_def)
next
  case True
  let ?s = "scheduler_remove t s" and ?c = "t_cpu (tsk s t)"
  have c: "?c < cpu_total s" and q: "cpu_queue_wf s ?c" using wf t by (auto simp: runq_wf_def)
  have mem: "t \<in> set (c_runnable (cpu_of s ?c))" using q True t by (auto simp: cpu_queue_wf_def)
  have cpu: "cpu_of ?s ?c = (cpu_of s ?c)\<lparr>c_runnable := remove1 t (c_runnable (cpu_of s ?c)),
      c_load := c_load (cpu_of s ?c) - eff_weight (tsk s t),
      c_movable := c_movable (cpu_of s ?c) - (if t_pinned (tsk s t) then 0 else 1)\<rparr>"
    using True c by (simp add: scheduler_remove_def)
  have keep: "eff_weight (tsk ?s u) = eff_weight (tsk s u)" "t_pinned (tsk ?s u) = t_pinned (tsk s u)"
    "t_cpu (tsk ?s u) = t_cpu (tsk s u)" for u
    by (auto simp: tsk_scheduler_remove eff_weight_def)
  have "set (remove1 t (c_runnable (cpu_of s ?c)))
      = {u. u < slot_count s \<and> t_queued (tsk ?s u) \<and> t_cpu (tsk s u) = ?c}"
    using q t by (auto simp: cpu_queue_wf_def tsk_scheduler_remove)
  then have "cpu_queue_wf ?s ?c"
    unfolding cpu_queue_wf_def cpu scheduler_remove_fields keep
    using q mem by (simp add: cpu_queue_wf_def sum_list_remove1)
  moreover have "cpu_queue_wf ?s d" if "d < cpu_total s" "d \<noteq> ?c" for d
    by (rule cpu_queue_wf_frame [of s]) (use wf that in \<open>auto simp: runq_wf_def scheduler_remove_def nth_list_update_if\<close>)
  moreover have "t_tid (tsk ?s u) = u" if "u < slot_count s" for u
    using wf that by (simp add: runq_wf_def tsk_scheduler_remove)
  ultimately show ?thesis using wf
    by (intro runq_wfI) (simp_all add: runq_wf_def keep, metis)
qed

lemma runq_wf_insert:
  assumes wf: "runq_wf s" and t: "t < slot_count s"
  shows "runq_wf (scheduler_insert t s)"
proof (cases "t_state (tsk s t) \<noteq> RUNNING \<or> t_idle (tsk s t) \<or> t_queued (tsk s t)")
  case True then show ?thesis using wf by (simp add: scheduler_insert_def)
next
  case False
  let ?s = "scheduler_insert t s" and ?c = "t_cpu (tsk s t)"
  have c: "?c < cpu_total s" and q: "cpu_queue_wf s ?c" using wf t by (auto simp: runq_wf_def)
  have mem: "t \<notin> set (c_runnable (cpu_of s ?c))" using q False by (auto simp: cpu_queue_wf_def)
  have cpu: "cpu_of ?s ?c = (cpu_of s ?c)\<lparr>c_runnable := t # c_runnable (cpu_of s ?c),
      c_load := c_load (cpu_of s ?c) + eff_weight (tsk s t),
      c_movable := c_movable (cpu_of s ?c) + (if t_pinned (tsk s t) then 0 else 1)\<rparr>"
    using False c by (simp add: scheduler_insert_def)
  have keep: "eff_weight (tsk ?s u) = eff_weight (tsk s u)" "t_pinned (tsk ?s u) = t_pinned (tsk s u)"
    "t_cpu (tsk ?s u) = t_cpu (tsk s u)" for u
    by (auto simp: tsk_scheduler_insert eff_weight_def)
  have "set (t # c_runnable (cpu_of s ?c))
      = {u. u < slot_count s \<and> t_queued (tsk ?s u) \<and> t_cpu (tsk s u) = ?c}"
    using q t False by (auto simp: cpu_queue_wf_def tsk_scheduler_insert)
  then have "cpu_queue_wf ?s ?c"
    unfolding cpu_queue_wf_def cpu scheduler_insert_fields keep
    using q mem by (simp add: cpu_queue_wf_def)
  moreover have "cpu_queue_wf ?s d" if "d < cpu_total s" "d \<noteq> ?c" for d
    by (rule cpu_queue_wf_frame [of s]) (use wf that in \<open>auto simp: runq_wf_def scheduler_insert_def nth_list_update_if\<close>)
  moreover have "t_tid (tsk ?s u) = u" if "u < slot_count s" for u
    using wf that by (simp add: runq_wf_def tsk_scheduler_insert)
  ultimately show ?thesis using wf
    by (intro runq_wfI) (simp_all add: runq_wf_def keep, metis)
qed

text \<open>Any update of an unqueued task that keeps it unqueued, its tid and a valid CPU.\<close>

lemma runq_wf_unqueued:
  assumes wf: "runq_wf s" and t: "t < slot_count s" and q: "\<not> t_queued (tsk s t)"
    and f: "\<not> t_queued (f (tsk s t))" "t_tid (f (tsk s t)) = t" "t_cpu (f (tsk s t)) < cpu_total s"
  shows "runq_wf (upd_task t f s)"
proof -
  have "cpu_queue_wf (upd_task t f s) d" if d: "d < cpu_total s" for d
  proof (rule cpu_queue_wf_frame [of s])
    show wfd: "cpu_queue_wf s d" using wf d by (simp add: runq_wf_def)
    show "t_weight (tsk (upd_task t f s) u) = t_weight (tsk s u) \<and>
        t_pinned (tsk (upd_task t f s) u) = t_pinned (tsk s u)"
      if "u \<in> set (c_runnable (cpu_of s d))" for u
      using that wfd q by (auto simp: cpu_queue_wf_def nth_list_update_if)
  qed (use q f in \<open>auto simp: nth_list_update_if\<close>)
  then show ?thesis using wf f by (auto simp: runq_wf_def nth_list_update_if)
qed

section \<open>The invariant with one task in transit\<close>

text \<open>Between the removal and the insertion of a task only its own membership may be out of step.\<close>

definition sched_wf_but :: "nat \<Rightarrow> kernel \<Rightarrow> bool" where
  "sched_wf_but t s \<longleftrightarrow>
     runq_wf s \<and> t < slot_count s \<and> (\<forall>u < slot_count s. u \<noteq> t \<longrightarrow> queue_ok (tsk s u))
     \<and> (\<forall>c<cpu_total s. ptr_ok s (c_current (cpu_of s c)) \<and> ptr_ok s (c_next (cpu_of s c))
          \<and> ptr_ok s (c_idle (cpu_of s c)))"

lemma sched_wf_but_intro: "sched_wf s \<Longrightarrow> t < slot_count s \<Longrightarrow> sched_wf_but t s"
  by (simp add: sched_wf_def sched_wf_but_def)

lemma sched_wf_but_elim: "sched_wf_but t s \<Longrightarrow> queue_ok (tsk s t) \<Longrightarrow> sched_wf s"
  unfolding sched_wf_def sched_wf_but_def by blast

lemma c_ptrs_remove [simp]:
  "c_current (cpu_of (scheduler_remove t s) c) = c_current (cpu_of s c)"
  "c_next (cpu_of (scheduler_remove t s) c) = c_next (cpu_of s c)"
  "c_idle (cpu_of (scheduler_remove t s) c) = c_idle (cpu_of s c)"
  "c_online (cpu_of (scheduler_remove t s) c) = c_online (cpu_of s c)"
  "c_min_vruntime (cpu_of (scheduler_remove t s) c) = c_min_vruntime (cpu_of s c)"
  by (auto simp: scheduler_remove_def nth_list_update_if)

lemma c_ptrs_insert [simp]:
  "c_current (cpu_of (scheduler_insert t s) c) = c_current (cpu_of s c)"
  "c_next (cpu_of (scheduler_insert t s) c) = c_next (cpu_of s c)"
  "c_idle (cpu_of (scheduler_insert t s) c) = c_idle (cpu_of s c)"
  "c_online (cpu_of (scheduler_insert t s) c) = c_online (cpu_of s c)"
  "c_min_vruntime (cpu_of (scheduler_insert t s) c) = c_min_vruntime (cpu_of s c)"
  by (auto simp: scheduler_insert_def nth_list_update_if)

lemma sched_wf_but_remove:
  assumes "sched_wf_but t s"
  shows "sched_wf_but t (scheduler_remove t s)" "\<not> t_queued (tsk (scheduler_remove t s) t)"
  using assms by (auto simp: sched_wf_but_def runq_wf_remove tsk_scheduler_remove ptr_ok_def)

lemma sched_wf_but_unqueued:
  assumes wf: "sched_wf_but t s" and q: "\<not> t_queued (tsk s t)"
    and f: "\<not> t_queued (f (tsk s t))" "t_tid (f (tsk s t)) = t_tid (tsk s t)"
      "t_cpu (f (tsk s t)) < cpu_total s"
  shows "sched_wf_but t (upd_task t f s)"
proof -
  have "t_tid (tsk s t) = t" using wf by (simp add: sched_wf_but_def runq_wf_def)
  with wf q f show ?thesis
    by (auto simp: sched_wf_but_def runq_wf_unqueued nth_list_update_if ptr_ok_def)
qed

lemma sched_wf_insert:
  assumes wf: "sched_wf_but t s" and q: "\<not> t_queued (tsk s t)"
  shows "sched_wf (scheduler_insert t s)"
  using assms by (auto simp: sched_wf_but_def sched_wf_def runq_wf_insert tsk_scheduler_insert
      queue_ok_def ptr_ok_def)

section \<open>Preservation by the operations\<close>

lemma sched_wf_upd_task [inv_intros]:
  assumes "sched_wf s" "sched_view (f (tsk s t)) = sched_view (tsk s t)"
  shows "sched_wf (upd_task t f s)"
  using assms runq_wf_same [OF sched_same_upd_task [of f s t]] queue_ok_same [OF sched_same_upd_task [of f s t]]
  by (auto simp: sched_wf_def ptr_ok_def)

lemma sched_wf_but_upd_task:
  assumes "sched_wf_but t s" "sched_view (f (tsk s u)) = sched_view (tsk s u)"
  shows "sched_wf_but t (upd_task u f s)"
  using assms runq_wf_same [OF sched_same_upd_task [of f s u]]
  by (auto simp: sched_wf_but_def ptr_ok_def nth_list_update_if queue_ok_def sched_view_def)

lemma sched_wf_upd_cpu [inv_intros]:
  assumes "sched_wf s" "queue_view (g (cpu_of s c)) = queue_view (cpu_of s c)"
    "ptr_ok s (c_current (g (cpu_of s c)))" "ptr_ok s (c_next (g (cpu_of s c)))"
    "ptr_ok s (c_idle (g (cpu_of s c)))"
  shows "sched_wf (upd_cpu c g s)"
  using assms runq_wf_same [OF sched_same_upd_cpu [of g s c]]
  by (auto simp: sched_wf_def ptr_ok_def nth_list_update_if)

lemma sched_wf_cong:
  "k_slots s' = k_slots s \<Longrightarrow> k_cpus s' = k_cpus s \<Longrightarrow> k_this_cpu s' = k_this_cpu s \<Longrightarrow>
   sched_wf s' = sched_wf s"
  by (simp add: sched_wf_def runq_wf_def cpu_queue_wf_def ptr_ok_def)

lemma sched_wf_cpu_index: "sched_wf s \<Longrightarrow> t < slot_count s \<Longrightarrow> t_cpu (tsk s t) < cpu_total s"
  by (simp add: sched_wf_def runq_wf_def)

lemma sched_wf_this_cpu: "sched_wf s \<Longrightarrow> k_this_cpu s < cpu_total s"
  by (simp add: sched_wf_def runq_wf_def)

lemma sched_wf_ptrs:
  assumes "sched_wf s" "c < cpu_total s"
  shows "ptr_ok s (c_current (cpu_of s c))" "ptr_ok s (c_next (cpu_of s c))" "ptr_ok s (c_idle (cpu_of s c))"
  using assms by (auto simp: sched_wf_def)

lemma sched_wf_current: "sched_wf s \<Longrightarrow> current_task s = Some t \<Longrightarrow> t < slot_count s"
  using sched_wf_ptrs(1) [OF _ sched_wf_this_cpu] by (auto simp: current_task_def ptr_ok_def)

lemma task_set_state_lengths [simp]:
  "slot_count (task_set_state t st s) = slot_count s" "cpu_total (task_set_state t st s) = cpu_total s"
  "k_this_cpu (task_set_state t st s) = k_this_cpu s"
  by (simp_all add: task_set_state_def)

lemma sched_wf_task_set_state [inv_intros]:
  assumes "sched_wf s" "t < slot_count s"
  shows "sched_wf (task_set_state t st s)"
proof -
  note r = sched_wf_but_remove [OF sched_wf_but_intro [OF assms]]
  have c: "t_cpu (tsk s t) < cpu_total s" using assms by (rule sched_wf_cpu_index)
  then have c': "t_cpu (tsk (scheduler_remove t s) t) < cpu_total (scheduler_remove t s)"
    by (simp add: tsk_scheduler_remove)
  have "sched_wf_but t (upd_task t (\<lambda>k. k\<lparr>t_state := st\<rparr>) (scheduler_remove t s))"
    using sched_wf_but_unqueued [OF r, of "\<lambda>k. k\<lparr>t_state := st\<rparr>"] r(2) c' by simp
  from sched_wf_insert [OF this] r(2) show ?thesis
    by (simp add: task_set_state_def assms(2))
qed

lemma tsk_task_set_state:
  "tsk (task_set_state t st s) u = (if u = t \<and> t < slot_count s
     then (tsk s t)\<lparr>t_state := st, t_queued := (st = RUNNING \<and> \<not> t_idle (tsk s t))\<rparr> else tsk s u)"
  by (simp add: task_set_state_def tsk_scheduler_insert tsk_scheduler_remove nth_list_update_if)

lemma smp_send_reschedule_fields [simp]:
  "k_slots (smp_send_reschedule c s) = k_slots s" "k_cpus (smp_send_reschedule c s) = k_cpus s"
  "k_this_cpu (smp_send_reschedule c s) = k_this_cpu s"
  by (simp_all add: smp_send_reschedule_def)

lemma sched_wf_smp_send [inv_intros]: "sched_wf s \<Longrightarrow> sched_wf (smp_send_reschedule c s)"
  by (subst sched_wf_cong) auto

lemma scheduler_request_fields [simp]:
  "k_slots (scheduler_request c s) = k_slots s" "cpu_total (scheduler_request c s) = cpu_total s"
  "k_this_cpu (scheduler_request c s) = k_this_cpu s"
  by (simp_all add: scheduler_request_def)

lemma sched_wf_request [inv_intros]:
  assumes "sched_wf s" "c < cpu_total s" shows "sched_wf (scheduler_request c s)"
  using assms sched_wf_ptrs [OF assms]
  by (auto simp: scheduler_request_def queue_view_def ptr_ok_def intro!: inv_intros)

lemma scheduler_place_task_lengths [simp]:
  "slot_count (scheduler_place_task t c s) = slot_count s"
  "cpu_total (scheduler_place_task t c s) = cpu_total s"
  "k_this_cpu (scheduler_place_task t c s) = k_this_cpu s"
  by (simp_all add: scheduler_place_task_def Let_def)

text \<open>Placing works on a task in transit as well as on a queued one, and settles its membership.\<close>

lemma sched_wf_place_but:
  assumes wf: "sched_wf_but t s" and c: "c < cpu_total s"
  shows "sched_wf (scheduler_place_task t c s)"
proof -
  note r = sched_wf_but_remove [OF wf]
  have "sched_wf_but t (upd_task t (\<lambda>k. k\<lparr>t_cpu := c\<rparr>) (scheduler_remove t s))"
    using sched_wf_but_unqueued [OF r, of "\<lambda>k. k\<lparr>t_cpu := c\<rparr>"] r(2) c by simp
  from sched_wf_insert [OF this] r(2)
  have i: "sched_wf (scheduler_insert t (upd_task t (\<lambda>k. k\<lparr>t_cpu := c\<rparr>) (scheduler_remove t s)))"
    using wf by (simp add: sched_wf_but_def)
  have "sched_wf (upd_task t (\<lambda>k. k\<lparr>t_vruntime := v\<rparr>)
      (scheduler_insert t (upd_task t (\<lambda>k. k\<lparr>t_cpu := c\<rparr>) (scheduler_remove t s))))" for v
    by (rule sched_wf_upd_task [OF i]) (simp add: sched_view_def)
  then show ?thesis
    unfolding scheduler_place_task_def Let_def by (rule sched_wf_request) (simp add: c)
qed

lemma sched_wf_place [inv_intros]:
  "sched_wf s \<Longrightarrow> t < slot_count s \<Longrightarrow> c < cpu_total s \<Longrightarrow> sched_wf (scheduler_place_task t c s)"
  by (simp add: sched_wf_place_but sched_wf_but_intro)

lemma sched_wf_set_weight:
  assumes wf: "sched_wf s" and t: "t < slot_count s"
  shows "sched_wf (upd_task t (\<lambda>k. k\<lparr>t_weight := w\<rparr>)
    (if t_queued (tsk s t) then upd_cpu (t_cpu (tsk s t))
       (\<lambda>c. c\<lparr>c_load := c_load c - eff_weight (tsk s t) + (if w = 0 then 1 else ucast w)\<rparr>) s else s))"
    (is "sched_wf ?s'")
proof -
  let ?c = "t_cpu (tsk s t)"
  define z where "z = ?s'"
  have c: "?c < cpu_total s" using wf t by (rule sched_wf_cpu_index)
  have tk: "tsk z u = (if u = t then (tsk s t)\<lparr>t_weight := w\<rparr> else tsk s u)" for u
    using t by (auto simp: z_def nth_list_update_if)
  have eff: "eff_weight ((tsk s t)\<lparr>t_weight := w\<rparr>) = (if w = 0 then 1 else ucast w)"
    by (simp add: eff_weight_def)
  have len: "slot_count z = slot_count s" "cpu_total z = cpu_total s" "k_this_cpu z = k_this_cpu s"
    by (auto simp: z_def)
  have "cpu_queue_wf z d" if d: "d < cpu_total s" for d
  proof (cases "d = ?c \<and> t_queued (tsk s t)")
    case False
    have wfd: "cpu_queue_wf s d" using wf d by (simp add: sched_wf_def runq_wf_def)
    have notin: "t \<notin> set (c_runnable (cpu_of s d))"
      using wfd False by (auto simp: cpu_queue_wf_def)
    have cpu: "cpu_of z d = cpu_of s d" using False by (auto simp: z_def nth_list_update_if)
    show ?thesis
    proof (rule cpu_queue_wf_frame [OF wfd])
      fix u
      show "(t_queued (tsk z u) \<and> t_cpu (tsk z u) = d) = (t_queued (tsk s u) \<and> t_cpu (tsk s u) = d)"
        unfolding tk by simp
      show "t_weight (tsk z u) = t_weight (tsk s u) \<and> t_pinned (tsk z u) = t_pinned (tsk s u)"
        if "u \<in> set (c_runnable (cpu_of s d))"
        using that notin unfolding tk by auto
    qed (simp_all only: cpu len)
  next
    case True
    then have q: "cpu_queue_wf s ?c" using wf d by (simp add: sched_wf_def runq_wf_def)
    have mem: "t \<in> set (c_runnable (cpu_of s ?c))" using q True t by (auto simp: cpu_queue_wf_def)
    have cpu: "cpu_of z ?c = (cpu_of s ?c)\<lparr>c_load := c_load (cpu_of s ?c) - eff_weight (tsk s t)
        + (if w = 0 then 1 else ucast w)\<rparr>"
      using True c by (simp add: z_def)
    have "(\<Sum>u\<leftarrow>c_runnable (cpu_of s ?c). eff_weight (tsk z u))
        = (\<Sum>u\<leftarrow>c_runnable (cpu_of s ?c). eff_weight (tsk s u)) - eff_weight (tsk s t)
          + eff_weight (tsk z t)"
      using q mem by (intro sum_list_map_update1) (auto simp: tk cpu_queue_wf_def)
    moreover have "(\<Sum>u\<leftarrow>c_runnable (cpu_of s ?c). if t_pinned (tsk z u) then 0 else 1 :: u32)
        = (\<Sum>u\<leftarrow>c_runnable (cpu_of s ?c). if t_pinned (tsk s u) then 0 else 1)"
      unfolding tk by (rule sum_list_map_cong_on) simp
    moreover have "{u. u < slot_count z \<and> t_queued (tsk z u) \<and> t_cpu (tsk z u) = ?c}
        = {u. u < slot_count s \<and> t_queued (tsk s u) \<and> t_cpu (tsk s u) = ?c}"
      by (simp only: len(1) tk) auto
    ultimately have "cpu_queue_wf z ?c"
      using q by (simp add: cpu_queue_wf_def cpu tk eff)
    then show ?thesis using True by simp
  qed
  then have "runq_wf z" using wf t
    by (intro runq_wfI) (simp_all only: len tk, auto simp: sched_wf_def runq_wf_def)
  moreover have "ptr_ok z (c_current (cpu_of z d)) \<and> ptr_ok z (c_next (cpu_of z d))
      \<and> ptr_ok z (c_idle (cpu_of z d))" if "d < cpu_total s" for d
    using wf that by (auto simp: z_def sched_wf_def ptr_ok_def nth_list_update_if)
  ultimately have "sched_wf z" using wf unfolding sched_wf_def len tk
    by (auto simp: queue_ok_def)
  then show ?thesis by (simp add: z_def)
qed

lemma scheduler_account_lengths [simp]:
  "slot_count (scheduler_account c now s) = slot_count s" "cpu_total (scheduler_account c now s) = cpu_total s"
  "k_this_cpu (scheduler_account c now s) = k_this_cpu s"
  by (simp_all add: scheduler_account_def Let_def split: option.splits)

lemma sched_wf_account [inv_intros]:
  assumes wf: "sched_wf s" and c: "c < cpu_total s"
  shows "sched_wf (scheduler_account c now s)"
proof -
  note p = sched_wf_ptrs [OF wf c]
  have 1: "sched_wf (upd_cpu c (\<lambda>k. k\<lparr>c_accounted_at := now\<rparr>) s)"
    by (rule sched_wf_upd_cpu [OF wf]) (use p in \<open>auto simp: queue_view_def\<close>)
  show ?thesis
  proof (cases "c_current (cpu_of s c)")
    case None then show ?thesis using 1 c by (simp add: scheduler_account_def)
  next
    case (Some t)
    let ?s1 = "upd_cpu c (\<lambda>k. k\<lparr>c_accounted_at := now\<rparr>) s"
    let ?e = "now - c_accounted_at (cpu_of s c)"
    let ?s2 = "upd_task t (\<lambda>k. k\<lparr>t_runtime_ns := t_runtime_ns k + ?e\<rparr>) ?s1"
    let ?s3 = "if \<not> t_idle (tsk ?s2 t) then upd_task t (\<lambda>k. k\<lparr>t_vruntime := t_vruntime k
        + ?e div ucast (c_accounted_weight (cpu_of ?s2 c))\<rparr>) ?s2 else ?s2"
    have 2: "sched_wf ?s2" by (rule sched_wf_upd_task [OF 1]) (simp add: sched_view_def)
    have 3: "sched_wf ?s3"
      using sched_wf_upd_task [OF 2] 2 by (simp add: sched_view_def)
    have cc: "c_current (cpu_of ?s1 c) = Some t" using Some c by simp
    have "scheduler_account c now s = upd_cpu c (\<lambda>k. k\<lparr>c_accounted_weight :=
        (if t_weight (tsk ?s3 t) = 0 then 1 else t_weight (tsk ?s3 t))\<rparr>) ?s3"
      unfolding scheduler_account_def Let_def cc option.case ..
    also have "sched_wf \<dots>"
      using sched_wf_ptrs [OF 3, of c] c by (intro sched_wf_upd_cpu [OF 3]) (simp_all add: queue_view_def)
    finally show ?thesis .
  qed
qed

lemma task_set_weight_sched_wf [inv_intros]:
  assumes wf: "sched_wf s" and t: "t < slot_count s"
  shows "sched_wf (task_set_weight now t w s)"
proof (cases "t_weight (tsk s t) = w")
  case True then show ?thesis using wf by (simp add: task_set_weight_def)
next
  case False
  define local where "local = (k_active s \<and> current_task s = Some t)"
  define s1 where "s1 = (if local then scheduler_account (k_this_cpu s) now s else s)"
  define s2 where "s2 = upd_task t (\<lambda>k. k\<lparr>t_weight := w\<rparr>)
    (if t_queued (tsk s1 t) then upd_cpu (t_cpu (tsk s1 t))
       (\<lambda>c. c\<lparr>c_load := c_load c - eff_weight (tsk s1 t) + (if w = 0 then 1 else ucast w)\<rparr>) s1 else s1)"
  define s3 where "s3 = (if local then upd_cpu (k_this_cpu s2)
       (\<lambda>c. c\<lparr>c_accounted_weight := (if w = 0 then 1 else w)\<rparr>) s2 else s2)"
  have 1: "sched_wf s1" "slot_count s1 = slot_count s"
    using wf sched_wf_this_cpu [OF wf] by (auto simp: s1_def intro!: inv_intros)
  have 2: "sched_wf s2" unfolding s2_def using sched_wf_set_weight [OF 1(1)] 1(2) t by simp
  have 3: "sched_wf s3"
    using 2 sched_wf_ptrs [OF 2 sched_wf_this_cpu [OF 2]] unfolding s3_def
    by (auto simp: queue_view_def intro!: sched_wf_upd_cpu)
  have "task_set_weight now t w s =
      (if t_on_cpu (tsk s3 t) \<and> \<not> local then smp_send_reschedule (t_cpu (tsk s3 t)) s3 else s3)"
    using False unfolding task_set_weight_def s3_def s2_def s1_def local_def by (simp only: Let_def if_False)
  with 3 show ?thesis by (simp add: sched_wf_smp_send)
qed

lemma scheduler_least_loaded:
  obtains "scheduler_least_loaded_cpu s t = t_cpu (tsk s t)
      \<or> scheduler_least_loaded_cpu s t < cpu_total s \<and> c_online (cpu_of s (scheduler_least_loaded_cpu s t))
        \<and> scheduler_load s (scheduler_least_loaded_cpu s t) (Some t) < scheduler_load s (t_cpu (tsk s t)) (Some t)"
    "\<And>c. c < cpu_total s \<Longrightarrow> c_online (cpu_of s c) \<Longrightarrow>
      scheduler_load s (scheduler_least_loaded_cpu s t) (Some t) \<le> scheduler_load s c (Some t)"
    "scheduler_load s (scheduler_least_loaded_cpu s t) (Some t) \<le> scheduler_load s (t_cpu (tsk s t)) (Some t)"
  by (rule argmin_fold [of "\<lambda>c. c_online (cpu_of s c)" "\<lambda>c. scheduler_load s c (Some t)"
        "[0..<cpu_total s]" "t_cpu (tsk s t)"])
    (use that in \<open>force simp: scheduler_least_loaded_cpu_def\<close>)

lemma scheduler_least_loaded_bound:
  "t_cpu (tsk s t) < cpu_total s \<Longrightarrow> scheduler_least_loaded_cpu s t < cpu_total s"
  by (rule scheduler_least_loaded [of s t]) auto

lemma task_run_lengths [simp]:
  "slot_count (task_run t s) = slot_count s" "cpu_total (task_run t s) = cpu_total s"
  "k_this_cpu (task_run t s) = k_this_cpu s"
  by (simp_all add: task_run_def Let_def)

lemma sched_wf_task_run [inv_intros]:
  assumes wf: "sched_wf s" and t: "t < slot_count s"
  shows "sched_wf (task_run t s)"
proof (cases "t_state (tsk s t) \<in> {EMPTY, WILL_EMPTY, READY, ALLOCATING, DIED}")
  case True then show ?thesis using wf by (simp add: task_run_def)
next
  case False
  define s1 where "s1 = upd_task t (\<lambda>k. k\<lparr>t_urgent := True\<rparr>) s"
  define s2 where "s2 = upd_task t (\<lambda>k. k\<lparr>t_wait_reason := WR_NONE, t_ready := False\<rparr>) (task_set_state t RUNNING s1)"
  define s2' where "s2' = upd_task t (\<lambda>k. k\<lparr>t_ready := True\<rparr>) s1"
  define s3 where "s3 = (if t_state (tsk s1 t) \<in> {WAITING, SLEEPING} then
      if \<not> t_pinned (tsk s2 t) \<and> \<not> t_on_cpu (tsk s2 t)
      then scheduler_place_task t (scheduler_least_loaded_cpu s2 t) s2
      else scheduler_request (t_cpu (tsk s2 t)) s2
      else scheduler_request (t_cpu (tsk s2' t)) s2')"
  have 1: "sched_wf s1" "slot_count s1 = slot_count s" unfolding s1_def
    by (rule sched_wf_upd_task [OF wf]) (simp_all add: sched_view_def)
  have 2: "sched_wf s2" "slot_count s2 = slot_count s" unfolding s2_def using 1 t
    by (auto intro!: sched_wf_upd_task sched_wf_task_set_state simp: sched_view_def)
  have r2: "sched_wf s2'" "slot_count s2' = slot_count s" unfolding s2'_def using 1 t
    by (auto intro!: sched_wf_upd_task simp: sched_view_def)
  have 3: "sched_wf s3" unfolding s3_def using 2 r2 t
    by (simp add: sched_wf_place sched_wf_request sched_wf_cpu_index scheduler_least_loaded_bound)
  have "task_run t s = upd_task t (\<lambda>k. k\<lparr>t_fifosleep := False\<rparr>) s3"
    using False unfolding task_run_def s3_def s2_def s2'_def s1_def by (simp only: Let_def if_False)
  also have "sched_wf \<dots>" by (rule sched_wf_upd_task [OF 3]) (simp add: sched_view_def)
  finally show ?thesis .
qed

lemma task_sleep_lengths [simp]:
  "slot_count (task_sleep t s) = slot_count s" "cpu_total (task_sleep t s) = cpu_total s"
  "k_this_cpu (task_sleep t s) = k_this_cpu s"
  by (simp_all add: task_sleep_def)

lemma sched_wf_task_sleep [inv_intros]:
  "sched_wf s \<Longrightarrow> t < slot_count s \<Longrightarrow> sched_wf (task_sleep t s)"
  unfolding task_sleep_def by (rule sched_wf_upd_task) (auto intro!: sched_wf_task_set_state simp: sched_view_def)

lemma sched_wf_run_now [inv_intros]:
  assumes "sched_wf s" "ptr_ok s obj" shows "sched_wf (mtask_run_now obj s)"
proof (cases obj)
  case None then show ?thesis using assms by (simp add: mtask_run_now_def)
next
  case (Some t)
  have "sched_wf (upd_cpu (t_cpu (tsk s t)) (\<lambda>c. c\<lparr>c_next := Some t\<rparr>) s)" if "t_cpu (tsk s t) < cpu_total s"
    using assms sched_wf_ptrs [OF assms(1) that] Some by (auto simp: queue_view_def intro!: sched_wf_upd_cpu)
  then show ?thesis using assms Some by (simp add: mtask_run_now_def sched_wf_request)
qed

lemma sched_wf_publish [inv_intros]:
  assumes "sched_wf s" "ptr_ok s task" shows "sched_wf (fst (task_publish task s))"
  using assms
  by (auto simp: task_publish_def Let_def ptr_ok_def scheduler_least_loaded_bound sched_wf_cpu_index
      intro!: sched_wf_task_set_state sched_wf_place split: option.splits)

lemma sched_wf_pin_step:
  assumes wf: "sched_wf s" and t: "t < slot_count s" and c: "c < cpu_total s"
  defines "s' \<equiv> upd_task t (\<lambda>k. k\<lparr>t_pinned := True\<rparr>) (scheduler_remove t s)"
  shows "sched_wf (if t_cpu (tsk s' t) \<noteq> c then scheduler_place_task t c s' else scheduler_insert t s')"
proof -
  note r = sched_wf_but_remove [OF sched_wf_but_intro [OF wf t]]
  have 1: "sched_wf_but t s'" unfolding s'_def
    using sched_wf_but_unqueued [OF r, of "\<lambda>k. k\<lparr>t_pinned := True\<rparr>"] r(2) sched_wf_cpu_index [OF wf t]
    by (simp add: tsk_scheduler_remove)
  have "\<not> t_queued (tsk s' t)" using r(2) t by (simp add: s'_def)
  with 1 c show ?thesis by (simp add: sched_wf_place_but sched_wf_insert s'_def)
qed

lemma sched_wf_pin_address_space [inv_intros]:
  assumes "sched_wf s" "c < cpu_total s"
  shows "sched_wf (fst (task_pin_address_space asp c s))"
proof (cases "\<exists>t\<in>set [0..<slot_count s]. task_slot_in_use (tsk s t) \<and> t_address_space (tsk s t) = asp
           \<and> t_on_cpu (tsk s t) \<and> current_task s \<noteq> Some t")
  case True then show ?thesis using assms(1) unfolding task_pin_address_space_def by (simp only: if_True fst_conv)
next
  case False
  have "sched_wf (for_slots (\<lambda>s t. task_slot_in_use (tsk s t) \<and> t_address_space (tsk s t) = asp)
       (\<lambda>t s. let s = upd_task t (\<lambda>k. k\<lparr>t_pinned := True\<rparr>) (scheduler_remove t s) in
          if t_cpu (tsk s t) \<noteq> c then scheduler_place_task t c s else scheduler_insert t s) s) \<and> True"
    by (rule conjI, rule for_slots_inv [where I = "\<lambda>u. sched_wf u \<and> slot_count u = slot_count s \<and> cpu_total u = cpu_total s",
          THEN conjunct1])
      (use assms sched_wf_pin_step in \<open>auto simp: Let_def\<close>)
  then show ?thesis using False unfolding task_pin_address_space_def by (simp only: if_False fst_conv)
qed

section \<open>Pulling\<close>

lemma scheduler_request_load [simp]:
  "c_load (cpu_of (scheduler_request c s) d) = c_load (cpu_of s d)"
  "c_runnable (cpu_of (scheduler_request c s) d) = c_runnable (cpu_of s d)"
  "c_min_vruntime (cpu_of (scheduler_request c s) d) = c_min_vruntime (cpu_of s d)"
  "c_current (cpu_of (scheduler_request c s) d) = c_current (cpu_of s d)"
  by (auto simp: scheduler_request_def nth_list_update_if)

lemma tsk_scheduler_place_task:
  assumes "t < slot_count s"
  shows "tsk (scheduler_place_task t c s) u = (if u = t then (tsk s t)\<lparr>t_cpu := c,
      t_queued := (t_state (tsk s t) = RUNNING \<and> \<not> t_idle (tsk s t)),
      t_vruntime := c_min_vruntime (cpu_of s c) +
        (if t_vruntime (tsk s t) > c_min_vruntime (cpu_of s (t_cpu (tsk s t)))
         then t_vruntime (tsk s t) - c_min_vruntime (cpu_of s (t_cpu (tsk s t))) else 0)\<rparr>
     else tsk s u)"
  using assms by (simp add: scheduler_place_task_def Let_def tsk_scheduler_insert tsk_scheduler_remove nth_list_update_if)

lemma load_scheduler_place_task:
  assumes "sched_wf s" "t < slot_count s" "t_queued (tsk s t)" "c < cpu_total s" "d = t_cpu (tsk s t)" "c \<noteq> d"
  shows "c_load (cpu_of (scheduler_place_task t c s) x) =
    (if x = c then c_load (cpu_of s c) + eff_weight (tsk s t)
     else if x = d then c_load (cpu_of s d) - eff_weight (tsk s t) else c_load (cpu_of s x))"
proof -
  have run: "t_state (tsk s t) = RUNNING" "\<not> t_idle (tsk s t)"
    using assms(1-3) by (auto simp: sched_wf_def queue_ok_def)
  have d: "d < cpu_total s" using assms sched_wf_cpu_index by simp
  have r: "tsk (scheduler_remove t s) t = (tsk s t)\<lparr>t_queued := False\<rparr>"
    using assms(2) by (simp add: tsk_scheduler_remove)
  have e: "eff_weight ((tsk s t)\<lparr>t_queued := False, t_cpu := c\<rparr>) = eff_weight (tsk s t)"
    by (simp add: eff_weight_def)
  have "c_load (cpu_of (scheduler_insert t (upd_task t (\<lambda>k. k\<lparr>t_cpu := c\<rparr>) (scheduler_remove t s))) x)
    = (if x = c then c_load (cpu_of (scheduler_remove t s) c) + eff_weight (tsk s t)
       else c_load (cpu_of (scheduler_remove t s) x))"
    using assms(2,4) run by (auto simp: scheduler_insert_def r e nth_list_update_if)
  moreover have "c_load (cpu_of (scheduler_remove t s) y)
    = (if y = d then c_load (cpu_of s d) - eff_weight (tsk s t) else c_load (cpu_of s y))" for y
    using assms(3,5) d by (auto simp: scheduler_remove_def nth_list_update_if)
  ultimately show ?thesis using assms(6) by (simp add: scheduler_place_task_def Let_def)
qed

definition pull_source :: "kernel \<Rightarrow> nat \<Rightarrow> nat \<Rightarrow> nat \<Rightarrow> bool" where
  "pull_source s target index t \<longleftrightarrow>
     index < cpu_total s \<and> \<not> pull_skip s target index \<and> t \<in> set (c_runnable (cpu_of s index))
     \<and> pull_candidate s (c_load (cpu_of s index) - c_load (cpu_of s target)) t"

abbreviation source_gain :: "kernel \<Rightarrow> nat \<Rightarrow> nat \<Rightarrow> nat \<Rightarrow> u64" where
  "source_gain s target index t \<equiv>
     pull_gain (c_load (cpu_of s index) - c_load (cpu_of s target)) (eff_weight (tsk s t))"

text \<open>The two nested loops as one scan over pairs of a donor and a task.\<close>

lemma pull_select_pairs:
  "pull_select s target =
     fold (\<lambda>(i, t) (sel, best).
         if \<not> pull_candidate s (c_load (cpu_of s i) - c_load (cpu_of s target)) t then (sel, best)
         else if source_gain s target i t > best then (Some t, source_gain s target i t) else (sel, best))
       (concat (map (\<lambda>i. if pull_skip s target i then [] else map (Pair i) (c_runnable (cpu_of s i)))
          [0..<cpu_total s])) (None, 0)"
  unfolding pull_select_def fold_concat_fold fold_map
  by (intro fold_cong) (auto simp: fun_eq_iff pull_scan_def fold_map comp_def split_def cong: if_cong)

lemma pull_select_best:
  obtains "pull_select s target = (None, 0)"
      "\<And>index t. \<not> (pull_source s target index t \<and> source_gain s target index t > 0)"
  | index t where "pull_source s target index t"
      "pull_select s target = (Some t, source_gain s target index t)"
      "\<And>i u. pull_source s target i u \<Longrightarrow> source_gain s target i u \<le> source_gain s target index t"
proof -
  let ?ps = "concat (map (\<lambda>i. if pull_skip s target i then [] else map (Pair i) (c_runnable (cpu_of s i)))
          [0..<cpu_total s])"
  let ?P = "\<lambda>(i, t). pull_candidate s (c_load (cpu_of s i) - c_load (cpu_of s target)) t"
  have mem: "p \<in> set ?ps \<and> ?P p \<longleftrightarrow> pull_source s target (fst p) (snd p)" for p
    by (cases p) (auto simp: pull_source_def split: if_splits)
  obtain sel best where r: "pull_select s target = (sel, best)"
    "(sel, best) = (None, 0) \<or> (\<exists>p\<in>set ?ps. ?P p \<and> sel = Some (snd p) \<and> best = source_gain s target (fst p) (snd p))"
    "\<And>p. p \<in> set ?ps \<Longrightarrow> ?P p \<Longrightarrow> source_gain s target (fst p) (snd p) \<le> best"
    by (rule argmax_fold [of ?P "\<lambda>p. source_gain s target (fst p) (snd p)" snd ?ps None 0])
      (simp add: pull_select_pairs split_def)
  have max: "source_gain s target i u \<le> best" if "pull_source s target i u" for i u
    using r(3) [of "(i, u)"] mem [of "(i, u)"] that by simp
  show ?thesis
  proof (cases "(sel, best) = (None, 0)")
    case True
    show ?thesis
    proof (rule that(1))
      show "pull_select s target = (None, 0)" using r(1) True by simp
      show "\<not> (pull_source s target i u \<and> source_gain s target i u > 0)" for i u
        using max [of i u] True by (auto simp: not_less)
    qed
  next
    case False
    with r(2) obtain p where p: "p \<in> set ?ps" "?P p" "sel = Some (snd p)"
      "best = source_gain s target (fst p) (snd p)" by blast
    with mem [of p] max r(1) show ?thesis by (intro that(2) [of "fst p" "snd p"]) auto
  qed
qed

lemma pull_candidate_weight:
  assumes "pull_candidate s D t"
  shows "0 < eff_weight (tsk s t)" "eff_weight (tsk s t) < D" "0 < pull_gain D (eff_weight (tsk s t))"
proof -
  show w: "0 < eff_weight (tsk s t)" "eff_weight (tsk s t) < D"
    using assms eff_weight_nonzero by (auto simp: pull_candidate_def)
  then have "D - eff_weight (tsk s t) \<noteq> 0" by auto
  then show "0 < pull_gain D (eff_weight (tsk s t))"
    using w by (simp add: pull_gain_def word_gt_0)
qed

lemma scheduler_pull_lengths [simp]:
  "slot_count (fst (scheduler_pull c s)) = slot_count s" "cpu_total (fst (scheduler_pull c s)) = cpu_total s"
  "k_this_cpu (fst (scheduler_pull c s)) = k_this_cpu s"
  by (simp_all add: scheduler_pull_def split: option.splits)

text \<open>What a pull does: it moves the queued task of largest gain, or nothing when there is none.\<close>

lemma scheduler_pull_cases:
  obtains (none) "scheduler_pull target s = (s, False)" "\<And>index t. \<not> pull_source s target index t"
  | (pull) index t where "pull_source s target index t"
      "scheduler_pull target s = (scheduler_place_task t target s, True)"
      "\<And>i u. pull_source s target i u \<Longrightarrow> source_gain s target i u \<le> source_gain s target index t"
proof (rule pull_select_best [of s target])
  assume "pull_select s target = (None, 0)"
    and n: "\<And>index t. \<not> (pull_source s target index t \<and> source_gain s target index t > 0)"
  then have "scheduler_pull target s = (s, False)" by (simp add: scheduler_pull_def)
  moreover have "\<not> pull_source s target i u" for i u
    using n [of i u] pull_candidate_weight(3) by (auto simp: pull_source_def)
  ultimately show ?thesis using that(1) by blast
next
  fix index t
  assume "pull_source s target index t" "pull_select s target = (Some t, source_gain s target index t)"
    "\<And>i u. pull_source s target i u \<Longrightarrow> source_gain s target i u \<le> source_gain s target index t"
  then show ?thesis using that(2) [of index t] by (simp add: scheduler_pull_def)
qed

lemma pull_source_member:
  assumes "sched_wf s" "pull_source s target index t"
  shows "t < slot_count s" "t_queued (tsk s t)" "t_cpu (tsk s t) = index" "index < cpu_total s"
  using assms by (auto simp: pull_source_def sched_wf_def runq_wf_def cpu_queue_wf_def)

lemma sched_wf_pull [inv_intros]:
  assumes "sched_wf s" "target < cpu_total s"
  shows "sched_wf (fst (scheduler_pull target s))"
  by (rule scheduler_pull_cases [of target s])
    (use assms pull_source_member in \<open>auto intro!: sched_wf_place\<close>)

lemma scheduler_balance_pull:
  assumes "sched_wf s"
  obtains least where "scheduler_balance s = fst (scheduler_pull least s)" "least < cpu_total s"
    "\<And>c. 0 < c \<Longrightarrow> c < cpu_total s \<Longrightarrow> c_online (cpu_of s c) \<Longrightarrow> c_load (cpu_of s least) \<le> c_load (cpu_of s c)"
proof -
  let ?f = "\<lambda>c least. if c_online (cpu_of s c) \<and> c_load (cpu_of s c) < c_load (cpu_of s least) then c else least"
  have "(fold ?f cs i = i \<or> fold ?f cs i \<in> set cs) \<and> c_load (cpu_of s (fold ?f cs i)) \<le> c_load (cpu_of s i)
    \<and> (\<forall>c\<in>set cs. c_online (cpu_of s c) \<longrightarrow> c_load (cpu_of s (fold ?f cs i)) \<le> c_load (cpu_of s c))" for cs i
  proof (induction cs arbitrary: i)
    case (Cons c cs)
    from Cons.IH [of "?f c i"] show ?case
      by (cases "c_online (cpu_of s c) \<and> c_load (cpu_of s c) < c_load (cpu_of s i)") (auto intro: order_trans less_imp_le)
  qed simp
  from this [of "[1..<cpu_total s]" 0] sched_wf_this_cpu [OF assms] show ?thesis
    by (intro that [of "fold ?f [1..<cpu_total s] 0"]) (auto simp: scheduler_balance_def Suc_le_eq)
qed

lemma sched_wf_balance [inv_intros]:
  "sched_wf s \<Longrightarrow> sched_wf (scheduler_balance s)"
  by (rule scheduler_balance_pull [of s]) (auto simp: sched_wf_pull)

lemma sched_wf_tick [inv_intros]:
  assumes wf: "sched_wf s" shows "sched_wf (scheduler_tick s)"
proof -
  let ?s = "upd_cpu (k_this_cpu s) (\<lambda>c. c\<lparr>c_need_resched := True\<rparr>) s"
  have 1: "sched_wf ?s"
    using sched_wf_ptrs [OF wf sched_wf_this_cpu [OF wf]] wf by (intro sched_wf_upd_cpu) (auto simp: queue_view_def)
  then have "sched_wf (?s\<lparr>k_ticks := n\<rparr>)" for n by (subst sched_wf_cong [of _ ?s]) simp_all
  with 1 wf show ?thesis
    by (cases "k_this_cpu s = 0") (simp_all add: scheduler_tick_def Let_def sched_wf_balance)
qed

section \<open>A concrete state\<close>

text \<open>Two processors, the first with three runnable tasks (one of them on the processor).\<close>

definition example_kernel :: "mtask list \<Rightarrow> scheduler_cpu list \<Rightarrow> kernel" where
  "example_kernel slots cpus =
     \<lparr>k_slots = slots, k_chunk_count = 1, k_chunk_capacity = 1, k_free_hint = length slots,
      k_cpus = cpus, k_this_cpu = 0, k_lock_depth = 0, k_active = True, k_ticks = 0, k_retired = [],
      k_ipis = [], k_timer_count = 0, k_services = [], k_rpc_next_id = 1, k_locks = [],
      k_futex_buckets = [], k_futex_deadlines = [], k_futex_records = (\<lambda>_. \<lparr>fw_address = 0, fw_deadline_ns = 0, fw_result = 0\<rparr>),
      k_drives = [], k_keyboard_use = None, k_mouse_use = None\<rparr>"

definition example_task :: "nat \<Rightarrow> task_state \<Rightarrow> u32 \<Rightarrow> nat \<Rightarrow> mtask" where
  "example_task tid st w cpu =
     \<lparr>t_tid = tid, t_ptid = TASK_ID_NONE, t_tgid = tid, t_generation = 1,
      t_kind = TASK_PROCESS, t_state = st, t_weight = w, t_queued = (st = RUNNING),
      t_vruntime = 0, t_runtime_ns = 0, t_cpu = cpu, t_on_cpu = False, t_idle = False,
      t_pinned = False, t_urgent = False, t_ready = False, t_fifosleep = False,
      t_joinable = False, t_status = 0, t_terminate_status = 0, t_terminate_pending = False,
      t_waittid = TASK_ID_NONE, t_wait_generation = 0, t_wait_reason = WR_NONE,
      t_address_space = 0, t_group_lock_owner = TASK_ID_NONE, t_group_lock_depth = 0,
      t_tty = None, t_tty_session = None, t_waiting_lock = None, t_pending = 0,
      t_blocked = 0, t_ipc = ipc_header_init, t_ipc_wait_peer = TASK_ID_NONE, t_ipc_deadline = 0,
      t_ipc_deadline_set = False\<rparr>"

definition example_cpu :: "nat option \<Rightarrow> nat list \<Rightarrow> u64 \<Rightarrow> scheduler_cpu" where
  "example_cpu cur ts load =
     \<lparr>c_current = cur, c_idle = None, c_next = None, c_runnable = ts, c_load = load,
      c_movable = of_nat (length ts), c_min_vruntime = 0, c_accounted_at = 0, c_accounted_weight = 1,
      c_need_resched = False, c_online = True\<rparr>"

definition sched_example :: kernel where
  "sched_example = example_kernel
     [(example_task 0 RUNNING 4 0)\<lparr>t_on_cpu := True\<rparr>, example_task 1 RUNNING 3 0,
      example_task 2 RUNNING 0 0, example_task 3 SLEEPING 2 1]
     [example_cpu (Some 0) [2, 1, 0] 8, example_cpu None [] 0]"

lemmas example_defs =
  sched_example_def example_kernel_def example_cpu_def example_task_def eff_weight_def upt_rec

lemma sched_example_wf: "sched_wf sched_example"
  unfolding sched_wf_def runq_wf_def cpu_queue_wf_code all_less_upt
  by (simp add: example_defs queue_ok_def ptr_ok_def)

section \<open>Waking\<close>

lemma scheduler_request_need [simp]:
  "c < cpu_total s \<Longrightarrow> c_need_resched (cpu_of (scheduler_request c s) c)"
  by (simp add: scheduler_request_def)

lemma tsk_task_run_other: "u \<noteq> t \<Longrightarrow> t < slot_count s \<Longrightarrow> tsk (task_run t s) u = tsk s u"
  by (simp add: task_run_def Let_def tsk_scheduler_place_task tsk_task_set_state)

lemma task_run_need_resched:
  assumes "sched_wf s" "t < slot_count s" "t_state (tsk s t) \<notin> {EMPTY, WILL_EMPTY, READY, ALLOCATING, DIED}"
  shows "c_need_resched (cpu_of (task_run t s) (t_cpu (tsk (task_run t s) t)))"
proof -
  note c = sched_wf_cpu_index [OF assms(1,2)]
  let ?s2 = "upd_task t (\<lambda>k. k\<lparr>t_wait_reason := WR_NONE, t_ready := False\<rparr>)
      (task_set_state t RUNNING (upd_task t (\<lambda>k. k\<lparr>t_urgent := True\<rparr>) s))"
  have "t_cpu (tsk ?s2 t) = t_cpu (tsk s t)" using assms(2) by (simp add: tsk_task_set_state)
  then have l: "scheduler_least_loaded_cpu ?s2 t < cpu_total s"
    using scheduler_least_loaded_bound [of ?s2 t] c by simp
  have p: "c_need_resched (cpu_of (scheduler_place_task t d u) d)" if "d < cpu_total u" for d u
    using that by (simp add: scheduler_place_task_def Let_def)
  show ?thesis
    using assms c l p [of _ ?s2]
    by (auto simp: task_run_def Let_def tsk_scheduler_place_task tsk_task_set_state)
qed

section \<open>Properties\<close>

text \<open>The task a successful pull moves, and what the move does to the loads.\<close>

lemma scheduler_pull_moves:
  assumes wf: "sched_wf s" and target: "target < cpu_total s"
    and pulled: "scheduler_pull target s = (s', True)"
  obtains index t where "pull_source s target index t"
    "\<not> t_on_cpu (tsk s t)" "\<not> t_pinned (tsk s t)" "\<not> t_terminate_pending (tsk s t)"
    "t_cpu (tsk s' t) = target" "t \<in> set (c_runnable (cpu_of s' target))"
    "unat (c_load (cpu_of s' target)) = unat (c_load (cpu_of s target)) + unat (eff_weight (tsk s t))"
    "unat (c_load (cpu_of s' index)) + unat (eff_weight (tsk s t)) = unat (c_load (cpu_of s index))"
    "\<forall>c. c \<noteq> target \<and> c \<noteq> index \<longrightarrow> c_load (cpu_of s' c) = c_load (cpu_of s c)"
    "\<bar>int (unat (c_load (cpu_of s' index))) - int (unat (c_load (cpu_of s' target)))\<bar>
        < int (unat (c_load (cpu_of s index))) - int (unat (c_load (cpu_of s target)))"
    "\<forall>i u. pull_source s target i u \<longrightarrow> source_gain s target i u \<le> source_gain s target index t"
proof (rule scheduler_pull_cases [of target s])
  fix index t
  assume src: "pull_source s target index t"
    and eq: "scheduler_pull target s = (scheduler_place_task t target s, True)"
    and max: "\<And>i u. pull_source s target i u \<Longrightarrow> source_gain s target i u \<le> source_gain s target index t"
  note m = pull_source_member [OF wf src]
  let ?L = "c_load (cpu_of s index)" and ?T = "c_load (cpu_of s target)" and ?w = "eff_weight (tsk s t)"
  have s': "s' = scheduler_place_task t target s" using eq pulled by simp
  have ne: "target \<noteq> index" and lt: "?T < ?L" and cand: "pull_candidate s (?L - ?T) t"
    and mem: "t \<in> set (c_runnable (cpu_of s index))"
    using src by (auto simp: pull_source_def pull_skip_def not_le)
  note w = pull_candidate_weight [OF cand]
  note load = load_scheduler_place_task [OF wf m(1,2) target m(3) [symmetric] ne, folded s']
  have uD: "unat (?L - ?T) = unat ?L - unat ?T" using lt by (intro unat_sub_no_wrap) simp
  have W: "unat ?w < unat ?L - unat ?T" "0 < unat ?w" "unat ?T < unat ?L"
    using w(1,2) lt unfolding word_less_nat_alt uD by simp_all
  have up: "unat (?T + ?w) = unat ?T + unat ?w"
    using W unat_less_2p [of ?L] by (intro unat_add_no_wrap) simp
  have down: "unat (?L - ?w) = unat ?L - unat ?w"
    using W by (intro unat_sub_no_wrap) (simp add: word_le_nat_alt)
  have e: "c_load (cpu_of s' index) = ?L - ?w" "c_load (cpu_of s' target) = ?T + ?w"
    using ne by (simp_all add: load)
  have arith: "\<bar>int (b - w) - int (a + w)\<bar> < int b - int a" if "w < b - a" "0 < w" for a b w :: nat
    using that by linarith
  have run: "t_state (tsk s t) = RUNNING" "\<not> t_idle (tsk s t)"
    using wf m(1,2) by (auto simp: sched_wf_def queue_ok_def)
  have at: "t_cpu (tsk s' t) = target" "t_queued (tsk s' t)"
    using m(1) run by (simp_all add: s' tsk_scheduler_place_task)
  have "sched_wf s'" unfolding s' using wf m(1) target by (rule sched_wf_place)
  then have mem': "t \<in> set (c_runnable (cpu_of s' target))"
    using at m(1) target by (auto simp: sched_wf_def runq_wf_def cpu_queue_wf_def s')
  show ?thesis
  proof (rule that [OF src _ _ _ at(1) mem'])
    show "\<not> t_on_cpu (tsk s t)" "\<not> t_pinned (tsk s t)" "\<not> t_terminate_pending (tsk s t)"
      using cand by (auto simp: pull_candidate_def)
    show "unat (c_load (cpu_of s' target)) = unat ?T + unat ?w" using up by (simp add: load)
    show "unat (c_load (cpu_of s' index)) + unat ?w = unat ?L" using down W ne by (simp add: load)
    show "\<forall>c. c \<noteq> target \<and> c \<noteq> index \<longrightarrow> c_load (cpu_of s' c) = c_load (cpu_of s c)"
      by (simp add: load)
    show "\<bar>int (unat (c_load (cpu_of s' index))) - int (unat (c_load (cpu_of s' target)))\<bar>
        < int (unat ?L) - int (unat ?T)"
      unfolding e up down by (rule arith [OF W(1,2)])
    show "\<forall>i u. pull_source s target i u \<longrightarrow> source_gain s target i u \<le> source_gain s target index t"
      using max by blast
  qed
qed (use pulled in simp)

text \<open>When there is nothing to pull the state is the old one.\<close>

lemma scheduler_pull_answer:
  assumes "scheduler_pull target s = (s', moved)"
  shows "moved \<longleftrightarrow> (\<exists>index t. pull_source s target index t)" "\<not> moved \<Longrightarrow> s' = s"
  using assms by (rule_tac [!] scheduler_pull_cases [of target s]) auto

text \<open>C4: pulling moves a task exactly when some donor has one to give: another processor with a larger load that is
  not down to the movable task it is executing, and on its queue a task that is neither executing, pinned nor about
  to terminate and whose weight is less than the load difference.  Otherwise nothing changes.  The task moved is one
  of these whose move narrows the difference most; its whole weight moves, every other processor's load is left
  alone, and the two loads end strictly closer together than they were, with no wrap-around.  So a lone task is
  never stolen into an idle processor and back.\<close>

theorem scheduler_pull_narrows:
  assumes wf: "sched_wf s" and target: "target < cpu_total s"
    and pull: "scheduler_pull target s = (s', moved)"
  shows "(moved \<longleftrightarrow> (\<exists>index t. index < cpu_total s \<and> \<not> pull_skip s target index
        \<and> t \<in> set (c_runnable (cpu_of s index))
        \<and> \<not> t_on_cpu (tsk s t) \<and> \<not> t_pinned (tsk s t) \<and> \<not> t_terminate_pending (tsk s t)
        \<and> eff_weight (tsk s t) < c_load (cpu_of s index) - c_load (cpu_of s target)))
    \<and> (\<not> moved \<longrightarrow> s' = s)
    \<and> (moved \<longrightarrow> (\<exists>index t. index \<noteq> target \<and> index < cpu_total s \<and> t \<in> set (c_runnable (cpu_of s index))
        \<and> \<not> t_on_cpu (tsk s t) \<and> \<not> t_pinned (tsk s t) \<and> \<not> t_terminate_pending (tsk s t)
        \<and> t_cpu (tsk s' t) = target \<and> t \<in> set (c_runnable (cpu_of s' target))
        \<and> unat (c_load (cpu_of s' target)) = unat (c_load (cpu_of s target)) + unat (eff_weight (tsk s t))
        \<and> unat (c_load (cpu_of s' index)) + unat (eff_weight (tsk s t)) = unat (c_load (cpu_of s index))
        \<and> (\<forall>c. c \<noteq> target \<and> c \<noteq> index \<longrightarrow> c_load (cpu_of s' c) = c_load (cpu_of s c))
        \<and> \<bar>int (unat (c_load (cpu_of s' index))) - int (unat (c_load (cpu_of s' target)))\<bar>
            < int (unat (c_load (cpu_of s index))) - int (unat (c_load (cpu_of s target)))
        \<and> (\<forall>i u. pull_source s target i u \<longrightarrow> source_gain s target i u \<le> source_gain s target index t)))"
proof -
  note a = scheduler_pull_answer [OF pull]
  have some: "moved \<longleftrightarrow> (\<exists>index t. index < cpu_total s \<and> \<not> pull_skip s target index
        \<and> t \<in> set (c_runnable (cpu_of s index))
        \<and> \<not> t_on_cpu (tsk s t) \<and> \<not> t_pinned (tsk s t) \<and> \<not> t_terminate_pending (tsk s t)
        \<and> eff_weight (tsk s t) < c_load (cpu_of s index) - c_load (cpu_of s target))"
    unfolding a(1) pull_source_def by (auto simp: pull_candidate_def not_le)
  show ?thesis
  proof (cases moved)
    case False
    then show ?thesis using some a(2) by blast
  next
    case True
    then have "scheduler_pull target s = (s', True)" using pull by simp
    then show ?thesis
    proof (rule scheduler_pull_moves [OF wf target])
      fix index t
      assume m: "pull_source s target index t"
        "\<not> t_on_cpu (tsk s t)" "\<not> t_pinned (tsk s t)" "\<not> t_terminate_pending (tsk s t)"
        "t_cpu (tsk s' t) = target" "t \<in> set (c_runnable (cpu_of s' target))"
        "unat (c_load (cpu_of s' target)) = unat (c_load (cpu_of s target)) + unat (eff_weight (tsk s t))"
        "unat (c_load (cpu_of s' index)) + unat (eff_weight (tsk s t)) = unat (c_load (cpu_of s index))"
        "\<forall>c. c \<noteq> target \<and> c \<noteq> index \<longrightarrow> c_load (cpu_of s' c) = c_load (cpu_of s c)"
        "\<bar>int (unat (c_load (cpu_of s' index))) - int (unat (c_load (cpu_of s' target)))\<bar>
            < int (unat (c_load (cpu_of s index))) - int (unat (c_load (cpu_of s target)))"
        "\<forall>i u. pull_source s target i u \<longrightarrow> source_gain s target i u \<le> source_gain s target index t"
      have "index \<noteq> target" "index < cpu_total s" "t \<in> set (c_runnable (cpu_of s index))"
        using m(1) by (auto simp: pull_source_def pull_skip_def)
      with m True show ?thesis by (intro conjI impI some exI [of _ index] exI [of _ t]) simp_all
    qed
  qed
qed

lemma scheduler_pull_narrows_witness:
  "\<exists>index t. index \<noteq> 1 \<and> t \<in> set (c_runnable (cpu_of sched_example index))
     \<and> t_cpu (tsk (fst (scheduler_pull 1 sched_example)) t) = 1"
proof -
  have target: "1 < cpu_total sched_example" by (simp add: example_defs)
  have m: "snd (scheduler_pull 1 sched_example)"
    by (simp add: scheduler_pull_def pull_select_def pull_skip_def pull_scan_def pull_candidate_def
        pull_gain_def example_defs)
  from scheduler_pull_narrows [OF sched_example_wf target prod.collapse [symmetric]] m show ?thesis by blast
qed

text \<open>A waking task is placed on a processor whose load, not counting the task itself, is
  minimal among the online ones, and it stays on its own processor unless another is strictly less
  loaded.\<close>

theorem scheduler_least_loaded_minimal:
  "(\<forall>c. c < cpu_total s \<and> c_online (cpu_of s c) \<longrightarrow>
      scheduler_load s (scheduler_least_loaded_cpu s t) (Some t) \<le> scheduler_load s c (Some t))
   \<and> (scheduler_least_loaded_cpu s t = t_cpu (tsk s t) \<or>
      c_online (cpu_of s (scheduler_least_loaded_cpu s t)) \<and>
      scheduler_load s (scheduler_least_loaded_cpu s t) (Some t) < scheduler_load s (t_cpu (tsk s t)) (Some t))"
  by (rule scheduler_least_loaded [of s t]) blast

lemma scheduler_least_loaded_minimal_witness:
  "scheduler_load sched_example (scheduler_least_loaded_cpu sched_example 1) (Some 1)
     \<le> scheduler_load sched_example 1 (Some 1)"
  using scheduler_least_loaded_minimal [of sched_example 1] by (simp add: example_defs)

text \<open>C33: \<open>task_run\<close> on a blocked task makes it running and queued, with its wait reason and its \<open>ready\<close>
  token cleared; on a task in any other live state it leaves the \<open>ready\<close> token for its next wait, and state and
  processor stay.  In both cases the task becomes urgent, its \<open>fifosleep\<close> flag is cleared and the processor it is
  assigned to is asked to reschedule.  On a slot that is unused or dying it does nothing; no other task changes, and
  the run-queue invariant is kept in every case.\<close>

theorem task_run_wakes:
  assumes "sched_wf s" "t < slot_count s"
  shows "sched_wf (task_run t s) \<and> (\<forall>u. u \<noteq> t \<longrightarrow> tsk (task_run t s) u = tsk s u)
    \<and> (let k = tsk s t; k' = tsk (task_run t s) t in
        if t_state k \<in> {EMPTY, WILL_EMPTY, READY, ALLOCATING, DIED} then task_run t s = s
        else t_urgent k' \<and> \<not> t_fifosleep k' \<and> c_need_resched (cpu_of (task_run t s) (t_cpu k'))
          \<and> (if t_state k \<in> {WAITING, SLEEPING}
             then t_state k' = RUNNING \<and> t_wait_reason k' = WR_NONE \<and> \<not> t_ready k'
               \<and> (t_idle k \<or> t \<in> set (c_runnable (cpu_of (task_run t s) (t_cpu k'))))
             else t_state k' = t_state k \<and> t_ready k' \<and> t_cpu k' = t_cpu k))"
proof -
  have wf: "sched_wf (task_run t s)" using assms by (rule sched_wf_task_run)
  have mem: "t \<in> set (c_runnable (cpu_of (task_run t s) (t_cpu (tsk (task_run t s) t))))"
    if "t_queued (tsk (task_run t s) t)"
    using wf that assms(2) sched_wf_cpu_index [OF wf] by (simp add: sched_wf_def runq_wf_def cpu_queue_wf_def)
  have idle: "t_idle (tsk (task_run t s) t) = t_idle (tsk s t)"
    using assms(2) by (simp add: task_run_def Let_def tsk_scheduler_place_task tsk_task_set_state)
  have run: "t_queued (tsk (task_run t s) t)" if "t_state (tsk (task_run t s) t) = RUNNING" "\<not> t_idle (tsk s t)"
    using wf that assms(2) idle by (simp add: sched_wf_def queue_ok_def)
  have fields: "t_urgent (tsk (task_run t s) t) \<and> \<not> t_fifosleep (tsk (task_run t s) t)
      \<and> (if t_state (tsk s t) \<in> {WAITING, SLEEPING}
         then t_state (tsk (task_run t s) t) = RUNNING \<and> t_wait_reason (tsk (task_run t s) t) = WR_NONE
           \<and> \<not> t_ready (tsk (task_run t s) t)
         else t_state (tsk (task_run t s) t) = t_state (tsk s t) \<and> t_ready (tsk (task_run t s) t)
           \<and> t_cpu (tsk (task_run t s) t) = t_cpu (tsk s t))"
    if "t_state (tsk s t) \<notin> {EMPTY, WILL_EMPTY, READY, ALLOCATING, DIED}"
    using assms(2) that by (simp add: task_run_def Let_def tsk_scheduler_place_task tsk_task_set_state)
  show ?thesis
    using wf tsk_task_run_other [OF _ assms(2)] task_run_need_resched [OF assms] fields mem run
    by (auto simp: Let_def) (auto simp: task_run_def)
qed

lemma task_run_wakes_witness:
  "t_state (tsk (task_run 3 sched_example) 3) = RUNNING \<and> sched_wf (task_run 3 sched_example)"
proof -
  have "t_state (tsk sched_example 3) = SLEEPING" "3 < slot_count sched_example"
    by (simp_all add: example_defs)
  then show ?thesis using task_run_wakes [OF sched_example_wf, of 3] by (simp add: Let_def)
qed

end
