(* ===== verification/GroupLock.thy ===== *)
theory GroupLock
  imports SchedInv
begin

text \<open>
  Blocking the current task and the recursive lock of a thread group (\<^verbatim>\<open>mtask.c\<close>).  A definition
  covers the code up to its return or to its call of \<open>task_next\<close> and says which: \<open>Done r\<close> when it
  returns \<open>r\<close>, \<open>SwitchThen r\<close> when it calls \<open>task_next\<close> and returns \<open>r\<close> once scheduled again, and, for
  one iteration of a waiting loop, \<open>Switch\<close> when it calls \<open>task_next\<close> and then goes round the loop and
  \<open>Retry\<close> when it goes round at once.
\<close>

datatype 'a outcome = Done 'a | SwitchThen 'a | Switch | Retry

definition NULL_TID :: nat where "NULL_TID = 11459810"

text \<open>The tid of \<open>current_task ()\<close>; without a current task it is \<open>null_task\<close>, outside the registry.\<close>

definition current_tid :: "kernel \<Rightarrow> nat" where
  "current_tid s = (case current_task s of None \<Rightarrow> NULL_TID | Some t \<Rightarrow> t)"

definition task_fall_blocked_reason :: "task_state \<Rightarrow> wait_reason \<Rightarrow> kernel \<Rightarrow> kernel \<times> unit outcome" where
  "task_fall_blocked_reason st reason s =
     (let self = current_tid s in
      if t_ready (tsk s self)
      then (upd_task self (\<lambda>k. k\<lparr>t_ready := False, t_wait_reason := WR_NONE\<rparr>) s, Done ())
      else (upd_task self (\<lambda>k. k\<lparr>t_wait_reason := reason, t_ready := False\<rparr>)
              (task_set_state self st s), SwitchThen ()))"

definition task_group_leader :: "kernel \<Rightarrow> nat \<Rightarrow> nat" where
  "task_group_leader s task =
     (case get_task s (t_tgid (tsk s task)) of None \<Rightarrow> task | Some leader \<Rightarrow> leader)"

text \<open>One iteration of the loop of \<open>task_lock\<close>.\<close>

definition task_lock :: "kernel \<Rightarrow> kernel \<times> unit outcome" where
  "task_lock s =
     (let self = current_tid s; leader = task_group_leader s self in
      if t_group_lock_owner (tsk s leader) = TASK_ID_NONE
         \<or> t_group_lock_owner (tsk s leader) = t_tid (tsk s self)
      then (upd_task leader (\<lambda>k. k\<lparr>t_group_lock_owner := t_tid (tsk s self),
                                    t_group_lock_depth := t_group_lock_depth k + 1\<rparr>) s, Done ())
      else (upd_task self (\<lambda>k. k\<lparr>t_wait_reason := WR_TASK_GROUP_LOCK, t_ready := False\<rparr>)
              (task_set_state self WAITING s), Switch))"

text \<open>Waking every waiter of a thread group's lock.\<close>

definition group_lock_waiter :: "nat \<Rightarrow> kernel \<Rightarrow> nat \<Rightarrow> bool" where
  "group_lock_waiter tgid s t \<longleftrightarrow>
     task_slot_in_use (tsk s t) \<and> t_tgid (tsk s t) = tgid \<and> t_state (tsk s t) = WAITING
     \<and> t_wait_reason (tsk s t) = WR_TASK_GROUP_LOCK"

definition wake_group_lock_waiters :: "nat \<Rightarrow> kernel \<Rightarrow> kernel" where
  "wake_group_lock_waiters tgid = for_slots (group_lock_waiter tgid) task_run"

definition task_unlock :: "kernel \<Rightarrow> kernel" where
  "task_unlock s =
     (let self = current_tid s; leader = task_group_leader s self in
      if t_group_lock_owner (tsk s leader) \<noteq> t_tid (tsk s self) \<or> t_group_lock_depth (tsk s leader) = 0
      then s
      else
        (let s = upd_task leader (\<lambda>k. k\<lparr>t_group_lock_depth := t_group_lock_depth k - 1\<rparr>) s in
         if t_group_lock_depth (tsk s leader) = 0
         then wake_group_lock_waiters (t_tgid (tsk s self))
                (upd_task leader (\<lambda>k. k\<lparr>t_group_lock_owner := TASK_ID_NONE\<rparr>) s)
         else s))"

section \<open>Loops over the registry\<close>

text \<open>A waking loop over the registry keeps the run-queue invariant and the lengths.\<close>

definition same_size :: "kernel \<Rightarrow> kernel \<Rightarrow> bool" where
  "same_size s s' \<longleftrightarrow> slot_count s' = slot_count s \<and> cpu_total s' = cpu_total s \<and> k_this_cpu s' = k_this_cpu s"

lemma same_size_refl [simp]: "same_size s s" by (simp add: same_size_def)

lemma for_slots_sched_wf:
  assumes wf: "sched_wf s"
    and step: "\<And>t u. sched_wf u \<Longrightarrow> t < slot_count u \<Longrightarrow> P u t \<Longrightarrow> sched_wf (f t u) \<and> same_size u (f t u)"
  shows "sched_wf (for_slots P f s) \<and> same_size s (for_slots P f s)"
  by (rule for_slots_inv [where I = "\<lambda>u. sched_wf u \<and> same_size s u"])
    (use wf step in \<open>auto simp: same_size_def\<close>)

lemma same_size_task_run [simp]: "same_size s (task_run t s)" by (simp add: same_size_def)

lemma for_slots_task_run:
  "sched_wf s \<Longrightarrow> sched_wf (for_slots P task_run s) \<and> same_size s (for_slots P task_run s)"
  by (rule for_slots_sched_wf) (auto intro: sched_wf_task_run)

text \<open>
  What a waking loop does to one task: each slot is visited once, and \<open>task_run\<close> touches only the
  task it is called on, so a task is woken exactly when it satisfied the condition to begin with,
  provided the condition reads only the task itself.
\<close>

lemma tsk_fold_task_run:
  assumes "distinct ts" "\<forall>t\<in>set ts. t < slot_count s" "\<And>u v t. tsk u t = tsk v t \<Longrightarrow> P u t = P v t"
  shows "\<exists>u. tsk (fold (\<lambda>t u. if P u t then task_run t u else u) ts s) x
      = (if x \<in> set ts \<and> P s x then tsk (task_run x u) x else tsk s x) \<and> tsk u x = tsk s x \<and> slot_count u = slot_count s"
  using assms(1,2)
proof (induction ts arbitrary: s)
  case (Cons t ts)
  let ?u = "if P s t then task_run t s else s"
  have len: "slot_count ?u = slot_count s" by simp
  have d: "distinct ts" "\<forall>t\<in>set ts. t < slot_count ?u" unfolding len using Cons.prems by simp_all
  obtain v where v: "tsk (fold (\<lambda>t u. if P u t then task_run t u else u) ts ?u) x
      = (if x \<in> set ts \<and> P ?u x then tsk (task_run x v) x else tsk ?u x)" "tsk v x = tsk ?u x"
      "slot_count v = slot_count s"
    using Cons.IH [OF d] unfolding len by blast
  show ?case
  proof (cases "x = t")
    case True
    with v Cons.prems show ?thesis by (intro exI [of _ s]) auto
  next
    case False
    have same: "tsk ?u x = tsk s x" using False Cons.prems tsk_task_run_other [of x t s] by auto
    then have "P ?u x = P s x" by (rule assms(3))
    with v same False show ?thesis by (intro exI [of _ v]) auto
  qed
qed auto

lemma tsk_for_slots_task_run:
  assumes "\<And>u v t. tsk u t = tsk v t \<Longrightarrow> P u t = P v t"
  obtains u where "tsk (for_slots P task_run s) x
      = (if x < slot_count s \<and> P s x then tsk (task_run x u) x else tsk s x)"
    "tsk u x = tsk s x" "slot_count u = slot_count s"
  using tsk_fold_task_run [of "[0..<slot_count s]" s P x, OF _ _ assms] unfolding for_slots_def by auto

section \<open>Preservation\<close>

lemma sched_wf_current_tid:
  "sched_wf s \<Longrightarrow> current_task s = Some t \<Longrightarrow> current_tid s = t \<and> t < slot_count s"
  by (simp add: current_tid_def sched_wf_current)

lemma sched_wf_block [inv_intros]:
  assumes "sched_wf s" "t < slot_count s"
  shows "sched_wf (upd_task t (\<lambda>k. k\<lparr>t_wait_reason := r, t_ready := False\<rparr>) (task_set_state t st s))"
  using assms by (intro sched_wf_upd_task sched_wf_task_set_state) (simp_all add: sched_view_def)

lemma sched_wf_fall_blocked [inv_intros]:
  assumes "sched_wf s" "current_tid s < slot_count s"
  shows "sched_wf (fst (task_fall_blocked_reason st r s))"
  using assms by (auto simp: task_fall_blocked_reason_def Let_def intro!: inv_intros simp: sched_view_def)

lemma same_size_fall_blocked [simp]: "same_size s (fst (task_fall_blocked_reason st r s))"
  by (auto simp: task_fall_blocked_reason_def Let_def same_size_def)

lemma sched_wf_task_lock [inv_intros]:
  assumes "sched_wf s" "current_tid s < slot_count s"
  shows "sched_wf (fst (task_lock s))"
  using assms by (auto simp: task_lock_def Let_def intro!: inv_intros simp: sched_view_def)

lemma sched_wf_wake_group [inv_intros]: "sched_wf s \<Longrightarrow> sched_wf (wake_group_lock_waiters g s)"
  unfolding wake_group_lock_waiters_def by (simp add: for_slots_task_run)

lemma sched_wf_task_unlock [inv_intros]:
  assumes "sched_wf s" shows "sched_wf (task_unlock s)"
  using assms by (auto simp: task_unlock_def Let_def intro!: inv_intros simp: sched_view_def)

end
