(* ===== verification/Ipc.thy ===== *)
theory Ipc
  imports GroupLock "HOL-Library.Multiset"
begin

text \<open>
  The message queues, the service names and the synchronous kernel RPC of
  \<^verbatim>\<open>kernel/dos/task/ipc.c\<close>.  A payload is the byte list copied into the receiver's slot, so its
  \<open>size\<close> is its length; \<open>malloc\<close> succeeding is an argument.  Loops that wait are given by one
  iteration (see \<open>outcome\<close>).
\<close>

section \<open>Constants\<close>

abbreviation "IPC_MAX_MSG_SIZE \<equiv> (4096 :: nat)"
abbreviation "IPC_NAME_MAX \<equiv> (32 :: nat)"
abbreviation "IPC_MAX_SERVICE \<equiv> (32 :: nat)"
abbreviation "IPC_NOWAIT \<equiv> (1 :: u32)"
abbreviation "IPC_DELIVER_NOW \<equiv> (2 :: u32)"
abbreviation "IPC_ANY_TID \<equiv> TASK_ID_NONE"
abbreviation "IPC_OK \<equiv> (0 :: int)"
abbreviation "IPC_ERR_INVAL \<equiv> (-1 :: int)"
abbreviation "IPC_ERR_NOTASK \<equiv> (-2 :: int)"
abbreviation "IPC_ERR_FULL \<equiv> (-3 :: int)"
abbreviation "IPC_ERR_EMPTY \<equiv> (-4 :: int)"
abbreviation "IPC_ERR_TOOBIG \<equiv> (-5 :: int)"
abbreviation "IPC_ERR_EXIST \<equiv> (-6 :: int)"
abbreviation "IPC_ERR_NOMEM \<equiv> (-7 :: int)"
abbreviation "IPC_ERR_TIMEOUT \<equiv> (-8 :: int)"
abbreviation "IPC_ERR_NOTFOUND \<equiv> (-9 :: int)"
abbreviation "RPC_TYPE_REQUEST \<equiv> (1 :: u32)"
abbreviation "RPC_TYPE_REPLY \<equiv> (2 :: u32)"
abbreviation "RPC_ERR_INVAL \<equiv> (-100 :: int)"
abbreviation "RPC_ERR_NO_SERVICE \<equiv> (-101 :: int)"
abbreviation "RPC_ERR_TIMEOUT \<equiv> (-103 :: int)"
abbreviation "RPC_ERR_TOOBIG \<equiv> (-104 :: int)"
abbreviation "RPC_ERR_TRANSPORT \<equiv> (-105 :: int)"
abbreviation "RPC_ERR_NESTING \<equiv> (-106 :: int)"
abbreviation "RPC_ERR_NOMEM \<equiv> (-107 :: int)"
abbreviation "RPC_KERNEL_CALL \<equiv> (0x80000000 :: u32)"
abbreviation "RPC_WIRE_SIZE \<equiv> (12 :: nat)"

section \<open>One queue\<close>

definition ipc_drop_message :: "nat \<Rightarrow> ipc_header \<Rightarrow> ipc_header" where
  "ipc_drop_message i ipc =
     ipc\<lparr>h_messages := (h_messages ipc)[i := ipc_message_clear],
         h_count := (if h_count ipc \<noteq> 0 then h_count ipc - 1 else h_count ipc)\<rparr>"

definition ipc_message_matches :: "nat \<Rightarrow> ipc_message \<Rightarrow> bool" where
  "ipc_message_matches from_filter msg \<longleftrightarrow>
     m_used msg \<and> \<not> (from_filter \<noteq> IPC_ANY_TID \<and> m_from_tid msg \<noteq> from_filter)"

text \<open>The index of the oldest matching message.\<close>

definition ipc_find_oldest :: "ipc_header \<Rightarrow> nat \<Rightarrow> nat option" where
  "ipc_find_oldest ipc from_filter =
     fold (\<lambda>i found.
        if \<not> ipc_message_matches from_filter (h_messages ipc ! i) then found
        else case found of
               None \<Rightarrow> Some i
             | Some j \<Rightarrow> if m_seq (h_messages ipc ! i) < m_seq (h_messages ipc ! j) then Some i else found)
       [0..<length (h_messages ipc)] None"

definition ipc_find_free :: "ipc_header \<Rightarrow> nat option" where
  "ipc_find_free ipc = find (\<lambda>i. \<not> m_used (h_messages ipc ! i)) [0..<length (h_messages ipc)]"

text \<open>Filling a free slot: the store part of the loop of \<open>ipc_send\<close>.\<close>

definition ipc_enqueue :: "nat \<Rightarrow> nat \<Rightarrow> u32 \<Rightarrow> u32 \<Rightarrow> u32 \<Rightarrow> bytes \<Rightarrow> ipc_header \<Rightarrow> ipc_header" where
  "ipc_enqueue i from_tid from_generation type mid payload ipc =
     ipc\<lparr>h_messages := (h_messages ipc)[i := \<lparr>m_data = payload, m_from_tid = from_tid,
            m_from_generation = from_generation, m_type = type, m_id = mid, m_seq = h_seq ipc,
            m_used = True\<rparr>],
         h_seq := h_seq ipc + 1, h_count := h_count ipc + 1\<rparr>"

section \<open>Waking and waiting\<close>

definition ipc_wake_senders :: "nat \<Rightarrow> kernel \<Rightarrow> kernel" where
  "ipc_wake_senders to_tid =
     for_slots (\<lambda>s t. task_slot_in_use (tsk s t) \<and> \<not> (t_state (tsk s t) \<noteq> WAITING
                  \<or> t_wait_reason (tsk s t) \<noteq> WR_IPC) \<and> t_ipc_wait_peer (tsk s t) = to_tid) task_run"

definition ipc_wake_receiver :: "nat \<Rightarrow> kernel \<Rightarrow> kernel \<times> bool" where
  "ipc_wake_receiver t s =
     (if t_state (tsk s t) = WAITING \<and> t_wait_reason (tsk s t) = WR_IPC
         \<and> t_ipc_wait_peer (tsk s t) = TASK_ID_NONE
      then (task_run t s, True) else (s, False))"

definition upd_ipc :: "nat \<Rightarrow> (ipc_header \<Rightarrow> ipc_header) \<Rightarrow> kernel \<Rightarrow> kernel" where
  "upd_ipc t f = upd_task t (\<lambda>k. k\<lparr>t_ipc := f (t_ipc k)\<rparr>)"

text \<open>Dropping every used message, as \<open>ipc_task_cleanup\<close> does before it clears the header.\<close>

definition ipc_drop_all :: "ipc_header \<Rightarrow> ipc_header" where
  "ipc_drop_all ipc =
     fold (\<lambda>i ipc. if m_used (h_messages ipc ! i) then ipc_drop_message i ipc else ipc)
       [0..<length (h_messages ipc)] ipc"

definition ipc_task_cleanup :: "nat option \<Rightarrow> kernel \<Rightarrow> kernel" where
  "ipc_task_cleanup task s =
     (case task of
        None \<Rightarrow> s
      | Some t \<Rightarrow>
          (let tid = t_tid (tsk s t); gen = t_generation (tsk s t);
               s = upd_ipc t (\<lambda>ipc. let ipc = ipc_drop_all ipc in ipc_header_init) s;
               s = s\<lparr>k_services := map (\<lambda>sv. if sv_used sv \<and> sv_tid sv = tid \<and> sv_generation sv = gen
                                             then sv\<lparr>sv_used := False, sv_name := []\<rparr> else sv) (k_services s)\<rparr>;
               s = upd_task t (\<lambda>k. k\<lparr>t_ipc_wait_peer := TASK_ID_NONE\<rparr>) s;
               s = ipc_wake_senders tid s
           in for_slots
                (\<lambda>s w. task_slot_in_use (tsk s w) \<and>
                   (case h_rpc (t_ipc (tsk s w)) of
                      None \<Rightarrow> False
                    | Some call \<Rightarrow> rp_server_tid call = tid \<and> rp_server_generation call = gen))
                (\<lambda>w s. fst (ipc_wake_receiver w
                   (upd_ipc w (\<lambda>ipc. ipc\<lparr>h_rpc := map_option (\<lambda>call.
                      call\<lparr>rp_status := RPC_ERR_NO_SERVICE, rp_completed := True\<rparr>) (h_rpc ipc)\<rparr>) s))) s))"

definition ipc_deadline :: "kernel \<Rightarrow> u32 \<Rightarrow> u32" where
  "ipc_deadline s timeout_ms =
     (let ticks = (timeout_ms + 10 - 1) div 10; ticks = (if ticks = 0 then 1 else ticks)
      in k_timer_count s + ticks)"

definition ipc_deadline_passed :: "kernel \<Rightarrow> u32 \<Rightarrow> bool" where
  "ipc_deadline_passed s deadline \<longleftrightarrow> sint (k_timer_count s - deadline) \<ge> 0"

text \<open>\<open>ipc_wait\<close> up to its switch, and what it does once it runs again.\<close>

definition ipc_wait :: "nat \<Rightarrow> nat \<Rightarrow> u32 \<Rightarrow> bool \<Rightarrow> kernel \<Rightarrow> kernel \<times> unit outcome" where
  "ipc_wait self peer_tid deadline use_deadline s =
     (if t_ready (tsk s self)
      then (upd_task self (\<lambda>k. k\<lparr>t_ready := False\<rparr>) s, Done ())
      else task_fall_blocked_reason WAITING WR_IPC
             (upd_task self (\<lambda>k. k\<lparr>t_ipc_wait_peer := peer_tid, t_ipc_deadline := deadline,
                                   t_ipc_deadline_set := use_deadline\<rparr>) s))"

definition ipc_wait_resume :: "nat \<Rightarrow> kernel \<Rightarrow> kernel" where
  "ipc_wait_resume self s =
     upd_task self (\<lambda>k. k\<lparr>t_ipc_wait_peer := TASK_ID_NONE, t_ipc_deadline_set := False,
        t_wait_reason := (if t_wait_reason k = WR_IPC then WR_NONE else t_wait_reason k)\<rparr>) s"

definition ipc_tick :: "kernel \<Rightarrow> kernel" where
  "ipc_tick =
     for_slots (\<lambda>s t. task_slot_in_use (tsk s t)
        \<and> \<not> (t_state (tsk s t) \<noteq> WAITING \<or> t_wait_reason (tsk s t) \<noteq> WR_IPC
             \<or> \<not> t_ipc_deadline_set (tsk s t))
        \<and> sint (k_timer_count s - t_ipc_deadline (tsk s t)) \<ge> 0) task_run"

text \<open>Where a loop goes after \<open>ipc_wait\<close>: round again at once, or after the switch.\<close>

definition ipc_wait_loop :: "kernel \<times> unit outcome \<Rightarrow> kernel \<times> 'a outcome" where
  "ipc_wait_loop r = (case r of (s, Done _) \<Rightarrow> (s, Retry) | (s, _) \<Rightarrow> (s, Switch))"

section \<open>Sending\<close>

text \<open>Little-endian 32-bit fields and the header \<open>rpc_wire_t\<close> in front of an RPC payload.\<close>

definition le32 :: "u32 \<Rightarrow> bytes" where
  "le32 w = [ucast w, ucast (drop_bit 8 w), ucast (drop_bit 16 w), ucast (drop_bit 24 w)]"

definition get_le32 :: "bytes \<Rightarrow> u32" where
  "get_le32 bs =
     (case bs of
        b0 # b1 # b2 # b3 # _ \<Rightarrow>
          ucast b0 OR push_bit 8 (ucast b1) OR push_bit 16 (ucast b2) OR push_bit 24 (ucast b3)
      | _ \<Rightarrow> 0)"

definition rpc_wire :: "u32 \<Rightarrow> u32 \<Rightarrow> u32 \<Rightarrow> bytes" where
  "rpc_wire opcode status len = le32 opcode @ le32 status @ le32 len"

definition wire_opcode :: "bytes \<Rightarrow> u32" where "wire_opcode bs = get_le32 bs"
definition wire_status :: "bytes \<Rightarrow> u32" where "wire_status bs = get_le32 (drop 4 bs)"
definition wire_len :: "bytes \<Rightarrow> u32" where "wire_len bs = get_le32 (drop 8 bs)"

text \<open>The effect of a reply of \<open>size\<close> bytes on the call it answers.\<close>

definition rpc_accept_reply :: "kernel \<Rightarrow> bytes \<Rightarrow> rpc_pending \<Rightarrow> rpc_pending" where
  "rpc_accept_reply s data call =
     (let call = call\<lparr>rp_status := RPC_ERR_TRANSPORT\<rparr>;
          call =
            (if ipc_deadline_passed s (rp_deadline call) then call\<lparr>rp_status := RPC_ERR_TIMEOUT\<rparr>
             else if length data \<ge> RPC_WIRE_SIZE then
               (if wire_opcode data = rp_opcode call \<and> unat (wire_len data) = length data - RPC_WIRE_SIZE
                then
                  (let call = call\<lparr>rp_status := (if unat (wire_len data) > rp_capacity call
                                 then RPC_ERR_TOOBIG else sint (wire_status data))\<rparr>
                   in if unat (wire_len data) \<le> rp_capacity call
                      then call\<lparr>rp_reply := (if wire_len data \<noteq> 0 then drop RPC_WIRE_SIZE data else rp_reply call),
                                rp_length := unat (wire_len data)\<rparr>
                      else call)
                else call)
             else call)
      in call\<lparr>rp_completed := True\<rparr>)"

definition ipc_send_reply :: "nat \<Rightarrow> u32 \<Rightarrow> u32 \<Rightarrow> bytes \<Rightarrow> kernel \<Rightarrow> kernel \<times> int" where
  "ipc_send_reply to_tid to_generation mid data s =
     (case get_task s to_tid of
        None \<Rightarrow> (s, IPC_ERR_NOTASK)
      | Some to \<Rightarrow>
          if t_state (tsk s to) = DIED \<or> t_generation (tsk s to) \<noteq> to_generation then (s, IPC_ERR_NOTASK)
          else case h_rpc (t_ipc (tsk s to)) of
            None \<Rightarrow> (s, IPC_OK)
          | Some call \<Rightarrow>
              if rp_completed call \<or> rp_id call \<noteq> mid
                 \<or> rp_server_tid call \<noteq> t_tid (tsk s (current_tid s))
                 \<or> rp_server_generation call \<noteq> t_generation (tsk s (current_tid s))
              then (s, IPC_OK)
              else (fst (ipc_wake_receiver to
                      (upd_ipc to (\<lambda>ipc. ipc\<lparr>h_rpc := Some (rpc_accept_reply s data call)\<rparr>) s)), IPC_OK))"

text \<open>One iteration of the sending loop.\<close>

definition ipc_send_try ::
  "bool \<Rightarrow> nat \<Rightarrow> u32 \<Rightarrow> u32 \<Rightarrow> u32 \<Rightarrow> bytes \<Rightarrow> u32 \<Rightarrow> u32 \<Rightarrow> u32 \<Rightarrow> kernel \<Rightarrow> kernel \<times> int outcome" where
  "ipc_send_try malloc_ok to_tid to_generation type mid data flags timeout_ms deadline s =
     (let self = current_tid s in
      case get_task s to_tid of
        None \<Rightarrow> (s, Done IPC_ERR_NOTASK)
      | Some to \<Rightarrow>
          if t_state (tsk s to) = DIED \<or> (to_generation \<noteq> 0 \<and> t_generation (tsk s to) \<noteq> to_generation)
          then (s, Done IPC_ERR_NOTASK)
          else case ipc_find_free (t_ipc (tsk s to)) of
            Some slot \<Rightarrow>
              if length data \<noteq> 0 \<and> \<not> malloc_ok then (s, Done IPC_ERR_NOMEM)
              else
                (let s = upd_ipc to (ipc_enqueue slot (t_tid (tsk s self)) (t_generation (tsk s self))
                           type mid data) s;
                     (s, receiver_woken) = ipc_wake_receiver to s
                 in if flags AND IPC_DELIVER_NOW \<noteq> 0 \<and> receiver_woken
                    then (mtask_run_now (Some to) s, SwitchThen IPC_OK)
                    else (s, Done IPC_OK))
          | None \<Rightarrow>
              if flags AND IPC_NOWAIT \<noteq> 0 then (s, Done IPC_ERR_FULL)
              else if timeout_ms \<noteq> 0 \<and> ipc_deadline_passed s deadline then (s, Done IPC_ERR_TIMEOUT)
              else ipc_wait_loop (ipc_wait self to_tid deadline (timeout_ms \<noteq> 0) s))"

text \<open>
  \<open>ipc_send\<close> up to the end of its first iteration; \<open>data\<close> is \<open>None\<close> for a NULL pointer and otherwise
  the bytes it points to, at least \<open>size\<close> of them.
\<close>

definition ipc_send ::
  "bool \<Rightarrow> nat \<Rightarrow> u32 \<Rightarrow> u32 \<Rightarrow> u32 \<Rightarrow> bytes option \<Rightarrow> nat \<Rightarrow> u32 \<Rightarrow> u32 \<Rightarrow> kernel \<Rightarrow> kernel \<times> int outcome" where
  "ipc_send malloc_ok to_tid to_generation type mid data sz flags timeout_ms s =
     (if sz > IPC_MAX_MSG_SIZE then (s, Done IPC_ERR_TOOBIG)
      else if sz \<noteq> 0 \<and> data = None then (s, Done IPC_ERR_INVAL)
      else
        (let data = (case data of None \<Rightarrow> [] | Some bs \<Rightarrow> take sz bs) in
         if type = RPC_TYPE_REPLY \<and> mid AND RPC_KERNEL_CALL \<noteq> 0
         then map_prod id Done (ipc_send_reply to_tid to_generation mid data s)
         else ipc_send_try malloc_ok to_tid to_generation type mid data flags timeout_ms
                (if timeout_ms \<noteq> 0 then ipc_deadline s timeout_ms else 0) s))"

section \<open>Receiving\<close>

text \<open>The descriptor \<open>ipc_msg_info_t\<close> of a message: sender, generation, type, id and size.\<close>

type_synonym ipc_msg_info = "nat \<times> u32 \<times> u32 \<times> u32 \<times> nat"

definition ipc_msg_info :: "ipc_message \<Rightarrow> ipc_msg_info" where
  "ipc_msg_info msg = (m_from_tid msg, m_from_generation msg, m_type msg, m_id msg, length (m_data msg))"

definition ipc_recv_try ::
  "nat \<Rightarrow> nat \<Rightarrow> u32 \<Rightarrow> u32 \<Rightarrow> u32 \<Rightarrow> kernel \<Rightarrow> kernel \<times> int outcome \<times> ipc_msg_info option \<times> bytes" where
  "ipc_recv_try bufsize from_filter flags timeout_ms deadline s =
     (let self = current_tid s; ipc = t_ipc (tsk s self) in
      case ipc_find_oldest ipc from_filter of
        Some i \<Rightarrow>
          (let msg = h_messages ipc ! i; sz = length (m_data msg) in
           if sz > bufsize then (s, Done IPC_ERR_TOOBIG, Some (ipc_msg_info msg), [])
           else (ipc_wake_senders (t_tid (tsk s self)) (upd_ipc self (ipc_drop_message i) s),
                 Done (int sz), Some (ipc_msg_info msg), m_data msg))
      | None \<Rightarrow>
          if flags AND IPC_NOWAIT \<noteq> 0 then (s, Done IPC_ERR_EMPTY, None, [])
          else if timeout_ms \<noteq> 0 \<and> ipc_deadline_passed s deadline then (s, Done IPC_ERR_TIMEOUT, None, [])
          else (let (s, r) = ipc_wait_loop (ipc_wait self TASK_ID_NONE deadline (timeout_ms \<noteq> 0) s)
                in (s, r, None, [])))"

definition ipc_recv ::
  "nat \<Rightarrow> nat \<Rightarrow> u32 \<Rightarrow> u32 \<Rightarrow> kernel \<Rightarrow> kernel \<times> int outcome \<times> ipc_msg_info option \<times> bytes" where
  "ipc_recv bufsize from_filter flags timeout_ms s =
     ipc_recv_try bufsize from_filter flags timeout_ms
       (if timeout_ms \<noteq> 0 then ipc_deadline s timeout_ms else 0) s"

definition ipc_peek :: "nat \<Rightarrow> kernel \<Rightarrow> int \<times> ipc_msg_info option" where
  "ipc_peek from_filter s =
     (let ipc = t_ipc (tsk s (current_tid s)) in
      case ipc_find_oldest ipc from_filter of
        None \<Rightarrow> (IPC_ERR_EMPTY, None)
      | Some i \<Rightarrow> (IPC_OK, Some (ipc_msg_info (h_messages ipc ! i))))"

definition ipc_pending :: "kernel \<Rightarrow> nat" where
  "ipc_pending s = h_count (t_ipc (tsk s (current_tid s)))"

section \<open>The kernel RPC client\<close>

text \<open>The checks of \<open>rpc_call\<close> and the publication of the call: the error, or the request to send.\<close>

definition rpc_call_begin ::
  "(nat \<times> u32) option \<Rightarrow> u32 \<Rightarrow> bytes option \<Rightarrow> nat \<Rightarrow> bool \<Rightarrow> nat \<Rightarrow> u32 \<Rightarrow> kernel \<Rightarrow> kernel \<times> (int + bytes)" where
  "rpc_call_begin server opcode arg arg_len have_ret ret_cap timeout_ms s =
     (let self = current_tid s in
      case server of
        None \<Rightarrow> (s, Inl RPC_ERR_INVAL)
      | Some (tid, generation) \<Rightarrow>
          if generation = 0 \<or> tid = t_tid (tsk s self) \<or> (arg_len \<noteq> 0 \<and> arg = None)
             \<or> (ret_cap \<noteq> 0 \<and> \<not> have_ret) \<or> timeout_ms = 0 \<or> timeout_ms > 0x7fffffff
          then (s, Inl RPC_ERR_INVAL)
          else if arg_len > IPC_MAX_MSG_SIZE - RPC_WIRE_SIZE then (s, Inl RPC_ERR_TOOBIG)
          else if h_rpc (t_ipc (tsk s self)) \<noteq> None then (s, Inl RPC_ERR_NESTING)
          else
            (let call = \<lparr>rp_server_tid = tid, rp_server_generation = generation, rp_id = k_rpc_next_id s,
                         rp_opcode = opcode, rp_deadline = ipc_deadline s timeout_ms, rp_reply = [],
                         rp_capacity = ret_cap, rp_length = 0, rp_status = RPC_ERR_TIMEOUT,
                         rp_completed = False\<rparr>;
                 request = rpc_wire opcode 0 (of_nat arg_len)
                           @ (case arg of None \<Rightarrow> [] | Some bs \<Rightarrow> take arg_len bs);
                 s = s\<lparr>k_rpc_next_id := (k_rpc_next_id s + 1) OR RPC_KERNEL_CALL\<rparr>
             in (upd_ipc self (\<lambda>ipc. ipc\<lparr>h_rpc := Some call\<rparr>) s, Inr request)))"

text \<open>The result of the send becomes the status of a call that could not be delivered.\<close>

definition rpc_send_status :: "int \<Rightarrow> int" where
  "rpc_send_status result =
     (if result = IPC_ERR_NOTASK then RPC_ERR_NO_SERVICE
      else if result = IPC_ERR_NOMEM then RPC_ERR_NOMEM
      else if result = IPC_ERR_TIMEOUT then RPC_ERR_TIMEOUT else RPC_ERR_TRANSPORT)"

definition rpc_call_sent :: "int \<Rightarrow> kernel \<Rightarrow> kernel" where
  "rpc_call_sent result s =
     (if result \<noteq> IPC_OK
      then upd_ipc (current_tid s) (\<lambda>ipc. ipc\<lparr>h_rpc := map_option (\<lambda>call.
             call\<lparr>rp_status := rpc_send_status result\<rparr>) (h_rpc ipc)\<rparr>) s
      else s)"

text \<open>One iteration of the loop that waits for the reply.\<close>

definition rpc_call_wait :: "kernel \<Rightarrow> kernel \<times> unit outcome" where
  "rpc_call_wait s =
     (let self = current_tid s in
      case h_rpc (t_ipc (tsk s self)) of
        None \<Rightarrow> (s, Done ())
      | Some call \<Rightarrow>
          if rp_completed call \<or> ipc_deadline_passed s (rp_deadline call) then (s, Done ())
          else ipc_wait_loop (ipc_wait self TASK_ID_NONE (rp_deadline call) True s))"

definition rpc_call_end :: "kernel \<Rightarrow> kernel \<times> int \<times> nat \<times> bytes" where
  "rpc_call_end s =
     (let self = current_tid s in
      case h_rpc (t_ipc (tsk s self)) of
        None \<Rightarrow> (s, RPC_ERR_TIMEOUT, 0, [])
      | Some call \<Rightarrow>
          (upd_ipc self (\<lambda>ipc. ipc\<lparr>h_rpc := None\<rparr>) s, rp_status call, rp_length call, rp_reply call))"

section \<open>Service names\<close>

text \<open>A C string of at most 31 characters; \<open>None\<close> is NULL.\<close>

definition ipc_name_valid :: "string option \<Rightarrow> bool" where
  "ipc_name_valid name =
     (case name of None \<Rightarrow> False | Some n \<Rightarrow> n \<noteq> [] \<and> length n < IPC_NAME_MAX)"

definition ipc_name_copy :: "string \<Rightarrow> string" where
  "ipc_name_copy src = take (IPC_NAME_MAX - 1) src"

definition service_alive :: "kernel \<Rightarrow> ipc_service \<Rightarrow> bool" where
  "service_alive s sv =
     (case get_task s (sv_tid sv) of
        None \<Rightarrow> False
      | Some owner \<Rightarrow> t_generation (tsk s owner) = sv_generation sv \<and> t_state (tsk s owner) \<noteq> DIED)"

text \<open>
  The scan of \<open>ipc_service_register\<close> over the indices that are left: the index to fill and the table,
  or the result when the name is owned by a live task.
\<close>

primrec service_scan :: "kernel \<Rightarrow> nat \<Rightarrow> string \<Rightarrow> nat list \<Rightarrow> nat option \<Rightarrow> int + (nat option \<times> ipc_service list)" where
  "service_scan s self name [] free_index = Inr (free_index, k_services s)"
| "service_scan s self name (i # is) free_index =
     (let sv = k_services s ! i in
      if \<not> sv_used sv
      then service_scan s self name is (if free_index = None then Some i else free_index)
      else if sv_name sv = name then
        (if service_alive s sv
         then Inl (if get_task s (sv_tid sv) = Some self then IPC_OK else IPC_ERR_EXIST)
         else Inr (Some i, (k_services s)[i := sv\<lparr>sv_used := False\<rparr>]))
      else service_scan s self name is free_index)"

definition ipc_service_register :: "string option \<Rightarrow> kernel \<Rightarrow> kernel \<times> int" where
  "ipc_service_register name s =
     (if \<not> ipc_name_valid name then (s, IPC_ERR_INVAL)
      else
        (let self = current_tid s in
         case service_scan s self (the name) [0..<length (k_services s)] None of
           Inl r \<Rightarrow> (s, r)
         | Inr (None, _) \<Rightarrow> (s, IPC_ERR_FULL)
         | Inr (Some i, svs) \<Rightarrow>
             (s\<lparr>k_services := svs[i := \<lparr>sv_name = ipc_name_copy (the name), sv_tid = t_tid (tsk s self),
                 sv_generation = t_generation (tsk s self), sv_used = True\<rparr>]\<rparr>, IPC_OK)))"

definition service_named :: "kernel \<Rightarrow> string \<Rightarrow> nat option" where
  "service_named s name =
     find (\<lambda>i. sv_used (k_services s ! i) \<and> sv_name (k_services s ! i) = name) [0..<length (k_services s)]"

definition service_clear :: "nat \<Rightarrow> kernel \<Rightarrow> kernel" where
  "service_clear i s =
     s\<lparr>k_services := (k_services s)[i := (k_services s ! i)\<lparr>sv_used := False, sv_name := []\<rparr>]\<rparr>"

definition ipc_service_unregister :: "string option \<Rightarrow> kernel \<Rightarrow> kernel \<times> int" where
  "ipc_service_unregister name s =
     (if \<not> ipc_name_valid name then (s, IPC_ERR_INVAL)
      else case service_named s (the name) of
        None \<Rightarrow> (s, IPC_ERR_NOTFOUND)
      | Some i \<Rightarrow>
          if sv_tid (k_services s ! i) \<noteq> t_tid (tsk s (current_tid s)) then (s, IPC_ERR_INVAL)
          else (service_clear i s, IPC_OK))"

text \<open>The tid found (as \<open>int\<close>) with the generation of the service.\<close>

definition ipc_service_lookup :: "string option \<Rightarrow> kernel \<Rightarrow> kernel \<times> int \<times> u32 option" where
  "ipc_service_lookup name s =
     (if \<not> ipc_name_valid name then (s, IPC_ERR_INVAL, None)
      else case service_named s (the name) of
        None \<Rightarrow> (s, IPC_ERR_NOTFOUND, None)
      | Some i \<Rightarrow>
          if \<not> service_alive s (k_services s ! i) then (service_clear i s, IPC_ERR_NOTFOUND, None)
          else (s, int (sv_tid (k_services s ! i)), Some (sv_generation (k_services s ! i))))"

section \<open>The old interface\<close>

definition send_ipc_message :: "bool \<Rightarrow> int \<Rightarrow> bytes option \<Rightarrow> nat \<Rightarrow> u8 \<Rightarrow> kernel \<Rightarrow> kernel \<times> int outcome" where
  "send_ipc_message malloc_ok to_tid data sz type s =
     (if to_tid < 0 then (s, Done (-1))
      else ipc_send malloc_ok (nat to_tid) 0 (scast type) 0 data sz 0 0 s)"

text \<open>The waiting loop of a synchronous send: it goes on while a message of the sender is unread.\<close>

definition send_ipc_message_sync :: "nat \<Rightarrow> kernel \<Rightarrow> int outcome" where
  "send_ipc_message_sync to_tid s =
     (case get_task s to_tid of
        None \<Rightarrow> Done 0
      | Some to \<Rightarrow>
          if \<exists>msg\<in>set (h_messages (t_ipc (tsk s to))).
               m_used msg \<and> m_from_tid msg = t_tid (tsk s (current_tid s))
          then Switch else Done 0)"

definition get_ipc_message :: "int \<Rightarrow> kernel \<Rightarrow> kernel \<times> int \<times> bytes" where
  "get_ipc_message from_tid s =
     (case ipc_recv IPC_MAX_MSG_SIZE (if from_tid < 0 then IPC_ANY_TID else nat from_tid) IPC_NOWAIT 0 s of
        (s, Done r, _, bs) \<Rightarrow> (s, if r < 0 then -1 else 0, bs)
      | (s, _, _, bs) \<Rightarrow> (s, 0, bs))"

definition ipc_message_len :: "int \<Rightarrow> kernel \<Rightarrow> nat" where
  "ipc_message_len from_tid s =
     (case ipc_peek (if from_tid < 0 then IPC_ANY_TID else nat from_tid) s of
        (r, Some (_, _, _, _, sz)) \<Rightarrow> if r \<noteq> IPC_OK then UINT_MAX else sz
      | (_, None) \<Rightarrow> UINT_MAX)"

end
