(* ===== verification/IpcInv.thy ===== *)
theory IpcInv
  imports Ipc
begin

text \<open>
  What the message queues promise: the inbox of a task is the list of its unread messages in the
  order they were sent.  Sending appends, receiving removes the first match, and the slot array never
  shows.
\<close>

section \<open>The inbox of one task\<close>

definition ipc_inbox :: "ipc_header \<Rightarrow> ipc_message list" where
  "ipc_inbox ipc = sort_key m_seq (filter m_used (h_messages ipc))"

definition ipc_wf :: "ipc_header \<Rightarrow> bool" where
  "ipc_wf ipc \<longleftrightarrow> length (h_messages ipc) = MAX_IPC_MESSAGE
     \<and> h_count ipc = length (filter m_used (h_messages ipc))
     \<and> (\<forall>m\<in>set (h_messages ipc). m_used m \<longrightarrow> m_seq m < h_seq ipc)
     \<and> distinct (map m_seq (filter m_used (h_messages ipc)))"

lemma ipc_header_init_wf [simp]: "ipc_wf ipc_header_init" "ipc_inbox ipc_header_init = []"
  by (simp_all add: ipc_wf_def ipc_header_init_def ipc_message_clear_def ipc_inbox_def)

lemma ipc_inbox_set: "set (ipc_inbox ipc) = {m \<in> set (h_messages ipc). m_used m}"
  by (auto simp: ipc_inbox_def)

lemma ipc_inbox_mset: "mset (ipc_inbox ipc) = mset (filter m_used (h_messages ipc))"
  by (simp add: ipc_inbox_def)

lemma ipc_inbox_length: "ipc_wf ipc \<Longrightarrow> length (ipc_inbox ipc) = h_count ipc"
  by (simp add: ipc_inbox_def ipc_wf_def)

lemma ipc_inbox_inj: "ipc_wf ipc \<Longrightarrow> inj_on m_seq (set (ipc_inbox ipc))"
  by (simp add: ipc_inbox_def ipc_wf_def distinct_map)

lemma ipc_inbox_sorted: "sorted (map m_seq (ipc_inbox ipc))"
  by (simp add: ipc_inbox_def)

lemma ipc_inbox_distinct: "ipc_wf ipc \<Longrightarrow> distinct (ipc_inbox ipc)"
  by (simp add: ipc_inbox_def ipc_wf_def distinct_map)

lemma ipc_inbox_eqI:
  assumes "mset (filter m_used (h_messages ipc)) = mset ys" "inj_on m_seq (set ys)" "sorted (map m_seq ys)"
  shows "ipc_inbox ipc = ys"
proof -
  have "set ys = set (filter m_used (h_messages ipc))" using assms(1) by (metis set_mset_mset)
  then show ?thesis unfolding ipc_inbox_def
    using assms by (intro sort_key_inj_key_eq) auto
qed

lemma mset_filter_update:
  "i < length xs \<Longrightarrow> filter_mset P (mset (xs[i := x]))
     = filter_mset P {#x#} + (filter_mset P (mset xs) - filter_mset P {#xs ! i#})"
  by (simp add: mset_update filter_diff_mset)

subsection \<open>A free slot\<close>

lemma ipc_find_free_Some:
  "ipc_find_free ipc = Some i \<Longrightarrow> i < length (h_messages ipc) \<and> \<not> m_used (h_messages ipc ! i)"
  by (auto simp: ipc_find_free_def find_upt_Some)

lemma ipc_find_free_None:
  assumes "ipc_wf ipc"
  shows "ipc_find_free ipc = None \<longleftrightarrow> h_count ipc = MAX_IPC_MESSAGE"
proof -
  have "ipc_find_free ipc = None \<longleftrightarrow> (\<forall>m\<in>set (h_messages ipc). m_used m)"
    by (simp add: ipc_find_free_def find_upt_None all_set_conv_all_nth)
  also have "\<dots> \<longleftrightarrow> length (filter m_used (h_messages ipc)) = length (h_messages ipc)"
    by (metis filter_id_conv length_filter_less linorder_not_less order_refl)
  finally show ?thesis using assms by (simp add: ipc_wf_def)
qed

lemma ipc_enqueue_inbox:
  fixes payload :: bytes and "from" :: nat and gen type mid :: u32
  assumes wf: "ipc_wf ipc" and free: "ipc_find_free ipc = Some i" and seq: "h_seq ipc \<noteq> -1"
  defines "m \<equiv> \<lparr>m_data = payload, m_from_tid = from, m_from_generation = gen, m_type = type, m_id = mid,
      m_seq = h_seq ipc, m_used = True\<rparr>"
  shows "ipc_wf (ipc_enqueue i from gen type mid payload ipc)"
    and "ipc_inbox (ipc_enqueue i from gen type mid payload ipc) = ipc_inbox ipc @ [m]"
proof -
  let ?e = "ipc_enqueue i from gen type mid payload ipc"
  note i = ipc_find_free_Some [OF free]
  have msgs: "h_messages ?e = (h_messages ipc)[i := m]" "h_seq ?e = h_seq ipc + 1" "h_count ?e = h_count ipc + 1"
    by (simp_all add: ipc_enqueue_def m_def)
  have m: "m_used m" "m_seq m = h_seq ipc" by (simp_all add: m_def)
  have ms: "mset (filter m_used (h_messages ?e)) = mset (ipc_inbox ipc @ [m])"
    using i m by (simp add: msgs mset_filter_update ipc_inbox_mset)
  have less: "\<And>x. x \<in> set (ipc_inbox ipc) \<Longrightarrow> m_seq x < h_seq ipc"
    using wf by (auto simp: ipc_wf_def ipc_inbox_set)
  have sorted: "sorted (map m_seq (ipc_inbox ipc @ [m]))"
    using less m by (auto simp: sorted_append ipc_inbox_sorted less_imp_le)
  have fresh: "m_seq m \<notin> m_seq ` set (ipc_inbox ipc)" using less m(2) by force
  then have fresh_m: "m \<notin> set (ipc_inbox ipc)" by blast
  have inj: "inj_on m_seq (set (ipc_inbox ipc @ [m]))"
    using ipc_inbox_inj [OF wf] fresh by (simp add: inj_on_insert Diff_insert_absorb fresh_m)
  show "ipc_inbox ?e = ipc_inbox ipc @ [m]"
    using ms inj sorted by (rule ipc_inbox_eqI)
  have "distinct (map m_seq (ipc_inbox ipc @ [m]))"
    using ipc_inbox_inj [OF wf] ipc_inbox_distinct [OF wf] fresh by (simp add: distinct_map)
  moreover have "mset (map m_seq (filter m_used (h_messages ?e))) = mset (map m_seq (ipc_inbox ipc @ [m]))"
    using ms by (metis mset_map)
  ultimately have d: "distinct (map m_seq (filter m_used (h_messages ?e)))"
    by (metis mset_eq_imp_distinct_iff)
  have len: "length (filter m_used (h_messages ?e)) = h_count ipc + 1"
    using ipc_inbox_length [OF wf] ms by (metis length_append_singleton size_mset Suc_eq_plus1)
  have up: "h_seq ipc < h_seq ipc + 1" using seq by (rule word_less_Suc)
  have "m_seq x < h_seq ipc + 1" if "x \<in> set (h_messages ?e)" "m_used x" for x
  proof -
    have "x = m \<or> x \<in> set (h_messages ipc)"
      using that set_update_subset_insert [of "h_messages ipc" i m] by (auto simp: msgs)
    then have "m_seq x \<le> h_seq ipc" using that wf m by (auto simp: ipc_wf_def less_imp_le)
    with up show ?thesis by (rule order_le_less_trans [rotated])
  qed
  then show "ipc_wf ?e" using wf d len by (simp add: ipc_wf_def msgs)
qed

subsection \<open>The oldest match\<close>

lemma find_sorted_least:
  "sorted (map f xs) \<Longrightarrow> find P xs = Some y \<Longrightarrow> x \<in> set xs \<Longrightarrow> P x \<Longrightarrow> f y \<le> f x"
  by (induction xs) (auto split: if_splits)

lemma ipc_find_oldest_fold:
  fixes ipc :: ipc_header and fil :: nat
  defines "step \<equiv> \<lambda>i found. if \<not> ipc_message_matches fil (h_messages ipc ! i) then found
        else case found of None \<Rightarrow> Some i
             | Some j \<Rightarrow> if m_seq (h_messages ipc ! i) < m_seq (h_messages ipc ! j) then Some i else found"
  shows "case fold step idx found of
      None \<Rightarrow> found = None \<and> (\<forall>i\<in>set idx. \<not> ipc_message_matches fil (h_messages ipc ! i))
    | Some j \<Rightarrow> (found = Some j \<or> j \<in> set idx \<and> ipc_message_matches fil (h_messages ipc ! j))
        \<and> (\<forall>i\<in>set idx. ipc_message_matches fil (h_messages ipc ! i) \<longrightarrow>
              m_seq (h_messages ipc ! j) \<le> m_seq (h_messages ipc ! i))
        \<and> (\<forall>i. found = Some i \<longrightarrow> m_seq (h_messages ipc ! j) \<le> m_seq (h_messages ipc ! i))"
proof (induction idx arbitrary: found)
  case Nil then show ?case by (auto split: option.splits)
next
  case (Cons i idx)
  have s: "step i found = found \<and> \<not> ipc_message_matches fil (h_messages ipc ! i)
    \<or> step i found = Some i \<and> ipc_message_matches fil (h_messages ipc ! i)
        \<and> (\<forall>j. found = Some j \<longrightarrow> m_seq (h_messages ipc ! i) < m_seq (h_messages ipc ! j))
    \<or> (\<exists>j. step i found = Some j \<and> found = Some j \<and> m_seq (h_messages ipc ! j) \<le> m_seq (h_messages ipc ! i))"
    by (auto simp: step_def not_less split: option.splits)
  from Cons.IH [of "step i found"] s show ?case
    by (auto split: option.splits intro: order_trans less_imp_le dest: order_le_less_trans)
qed

lemma ipc_find_oldest_Some:
  assumes wf: "ipc_wf ipc" and f: "ipc_find_oldest ipc fil = Some i"
  shows "i < length (h_messages ipc)" "m_used (h_messages ipc ! i)"
    "find (ipc_message_matches fil) (ipc_inbox ipc) = Some (h_messages ipc ! i)"
proof -
  let ?m = "h_messages ipc ! i"
  have r: "i < length (h_messages ipc)" "ipc_message_matches fil ?m"
    "\<And>j. j < length (h_messages ipc) \<Longrightarrow> ipc_message_matches fil (h_messages ipc ! j) \<Longrightarrow>
      m_seq ?m \<le> m_seq (h_messages ipc ! j)"
    using ipc_find_oldest_fold [where fil = fil and ipc = ipc and found = None and idx = "[0..<length (h_messages ipc)]"] f
    by (auto simp: ipc_find_oldest_def)
  show "i < length (h_messages ipc)" "m_used ?m" using r by (auto simp: ipc_message_matches_def)
  have mem: "?m \<in> set (ipc_inbox ipc)"
    using r by (auto simp: ipc_inbox_set ipc_message_matches_def)
  then obtain y where y: "find (ipc_message_matches fil) (ipc_inbox ipc) = Some y"
    using r(2) by (cases "find (ipc_message_matches fil) (ipc_inbox ipc)") (auto simp: find_None_iff)
  then have ym: "y \<in> set (ipc_inbox ipc)" "ipc_message_matches fil y"
    by (auto simp: find_Some_iff)
  then obtain j where j: "j < length (h_messages ipc)" "h_messages ipc ! j = y"
    by (auto simp: ipc_inbox_set in_set_conv_nth)
  have "m_seq ?m \<le> m_seq y" using r(3) [of j] j ym(2) by simp
  moreover have "m_seq y \<le> m_seq ?m"
    using find_sorted_least [OF ipc_inbox_sorted y mem r(2)] .
  ultimately have "y = ?m" using ipc_inbox_inj [OF wf] ym(1) mem by (simp add: inj_on_def)
  with y show "find (ipc_message_matches fil) (ipc_inbox ipc) = Some ?m" by simp
qed

lemma ipc_find_oldest_None:
  assumes "ipc_find_oldest ipc fil = None"
  shows "find (ipc_message_matches fil) (ipc_inbox ipc) = None"
proof -
  have "\<not> ipc_message_matches fil m" if m: "m \<in> set (h_messages ipc)" for m
  proof -
    obtain i where "i < length (h_messages ipc)" "m = h_messages ipc ! i"
      using m by (auto simp: in_set_conv_nth)
    with ipc_find_oldest_fold [where fil = fil and ipc = ipc and found = None and idx = "[0..<length (h_messages ipc)]"] assms show ?thesis
      by (auto simp: ipc_find_oldest_def)
  qed
  then show ?thesis by (auto simp: find_None_iff ipc_inbox_set)
qed

lemma ipc_drop_inbox:
  assumes wf: "ipc_wf ipc" and i: "i < length (h_messages ipc)" "m_used (h_messages ipc ! i)"
  shows "ipc_wf (ipc_drop_message i ipc)"
    and "ipc_inbox (ipc_drop_message i ipc) = remove1 (h_messages ipc ! i) (ipc_inbox ipc)"
proof -
  let ?d = "ipc_drop_message i ipc" and ?m = "h_messages ipc ! i"
  have mem: "?m \<in> set (ipc_inbox ipc)" using i by (simp add: ipc_inbox_set)
  have clear: "\<not> m_used ipc_message_clear" by (simp add: ipc_message_clear_def)
  have count: "h_count ipc = length (ipc_inbox ipc)" using ipc_inbox_length [OF wf] by simp
  then have pos: "h_count ipc \<noteq> 0" using mem by auto
  have d: "h_messages ?d = (h_messages ipc)[i := ipc_message_clear]" "h_seq ?d = h_seq ipc"
    "h_count ?d = h_count ipc - 1"
    using pos by (simp_all add: ipc_drop_message_def)
  have ms: "mset (filter m_used (h_messages ?d)) = mset (remove1 ?m (ipc_inbox ipc))"
    using i clear by (simp add: d mset_filter_update ipc_inbox_mset)
  have inj: "inj_on m_seq (set (remove1 ?m (ipc_inbox ipc)))"
    using ipc_inbox_inj [OF wf] by (rule inj_on_subset) (rule set_remove1_subset)
  have sorted: "sorted (map m_seq (remove1 ?m (ipc_inbox ipc)))"
    using ipc_inbox_sorted by (rule sorted_map_remove1)
  show "ipc_inbox ?d = remove1 ?m (ipc_inbox ipc)" using ms inj sorted by (rule ipc_inbox_eqI)
  have "distinct (map m_seq (remove1 ?m (ipc_inbox ipc)))"
    using inj ipc_inbox_distinct [OF wf] by (simp add: distinct_map)
  moreover have "mset (map m_seq (filter m_used (h_messages ?d))) = mset (map m_seq (remove1 ?m (ipc_inbox ipc)))"
    using ms by (metis mset_map)
  ultimately have dist: "distinct (map m_seq (filter m_used (h_messages ?d)))"
    by (metis mset_eq_imp_distinct_iff)
  have "length (filter m_used (h_messages ?d)) = length (remove1 ?m (ipc_inbox ipc))"
    using ms by (metis size_mset)
  then have len: "length (filter m_used (h_messages ?d)) = h_count ipc - 1"
    using mem count by (simp add: length_remove1)
  have "m_seq x < h_seq ipc" if "x \<in> set (h_messages ?d)" "m_used x" for x
    using that wf clear set_update_subset_insert [of "h_messages ipc" i ipc_message_clear]
    by (auto simp: d ipc_wf_def)
  then show "ipc_wf ?d" using wf dist len by (simp add: ipc_wf_def d)
qed

end
