(* ===== verification/IpcProps.thy ===== *)
theory IpcProps
  imports IpcInv
begin

text \<open>
  The operations of \<^verbatim>\<open>ipc.c\<close> on the kernel state: they keep the run queues well formed, deliver and
  receive in order, accept a kernel RPC reply only from the server of the call, and keep the service
  names unique and owned by live tasks.
\<close>

section \<open>What waking leaves alone\<close>

text \<open>The part of a task that waking, blocking and scheduling never write.\<close>

definition id_view where
  "id_view k = (t_ipc k, t_tid k, t_generation k, t_tgid k, t_ptid k, t_kind k, t_waiting_lock k,
     t_address_space k, t_joinable k, t_status k, t_terminate_pending k, t_on_cpu k)"

lemma id_view_simps [simp]:
  "id_view (k\<lparr>t_state := a\<rparr>) = id_view k" "id_view (k\<lparr>t_ready := b\<rparr>) = id_view k"
  "id_view (k\<lparr>t_wait_reason := c\<rparr>) = id_view k" "id_view (k\<lparr>t_ipc_wait_peer := d\<rparr>) = id_view k"
  "id_view (k\<lparr>t_ipc_deadline_set := b\<rparr>) = id_view k" "id_view (k\<lparr>t_ipc_deadline := e\<rparr>) = id_view k"
  "id_view (k\<lparr>t_urgent := b\<rparr>) = id_view k" "id_view (k\<lparr>t_fifosleep := b\<rparr>) = id_view k"
  "id_view (k\<lparr>t_queued := b\<rparr>) = id_view k" "id_view (k\<lparr>t_cpu := d\<rparr>) = id_view k"
  "id_view (k\<lparr>t_vruntime := f\<rparr>) = id_view k"
  by (simp_all add: id_view_def)

lemma id_viewD:
  assumes "id_view k = id_view k'"
  shows "t_ipc k = t_ipc k'" "t_tid k = t_tid k'" "t_generation k = t_generation k'"
    "t_tgid k = t_tgid k'" "t_ptid k = t_ptid k'" "t_kind k = t_kind k'"
    "t_waiting_lock k = t_waiting_lock k'" "t_address_space k = t_address_space k'"
    "t_joinable k = t_joinable k'" "t_status k = t_status k'" "t_terminate_pending k = t_terminate_pending k'"
    "t_on_cpu k = t_on_cpu k'"
  using assms by (simp_all add: id_view_def)

text \<open>A step that wakes or blocks: it keeps every task's identity and inbox and the other tables.\<close>

definition wake_frame :: "kernel \<Rightarrow> kernel \<Rightarrow> bool" where
  "wake_frame s s' \<longleftrightarrow> same_size s s' \<and> (\<forall>u. id_view (tsk s' u) = id_view (tsk s u))
     \<and> k_services s' = k_services s \<and> k_rpc_next_id s' = k_rpc_next_id s \<and> k_timer_count s' = k_timer_count s
     \<and> k_drives s' = k_drives s \<and> k_locks s' = k_locks s"

lemma wake_frame_refl [simp]: "wake_frame s s" by (simp add: wake_frame_def)

lemma wake_frame_trans: "wake_frame s u \<Longrightarrow> wake_frame u v \<Longrightarrow> wake_frame s v"
  by (simp add: wake_frame_def same_size_def)

lemma wake_frameD:
  assumes "wake_frame s s'"
  shows "slot_count s' = slot_count s" "t_ipc (tsk s' u) = t_ipc (tsk s u)" "t_tid (tsk s' u) = t_tid (tsk s u)"
    "t_generation (tsk s' u) = t_generation (tsk s u)" "k_services s' = k_services s"
  using assms by (auto simp: wake_frame_def same_size_def id_view_def)

lemma wake_frame_upd_task [intro]:
  "id_view (f (tsk s t)) = id_view (tsk s t) \<Longrightarrow> wake_frame s (upd_task t f s)"
  by (auto simp: wake_frame_def same_size_def nth_list_update_if)

lemma sched_other_fields [simp]:
  "k_services (scheduler_remove t s) = k_services s" "k_rpc_next_id (scheduler_remove t s) = k_rpc_next_id s"
  "k_timer_count (scheduler_remove t s) = k_timer_count s" "k_drives (scheduler_remove t s) = k_drives s"
  "k_locks (scheduler_remove t s) = k_locks s"
  "k_services (scheduler_insert t s) = k_services s" "k_rpc_next_id (scheduler_insert t s) = k_rpc_next_id s"
  "k_timer_count (scheduler_insert t s) = k_timer_count s" "k_drives (scheduler_insert t s) = k_drives s"
  "k_locks (scheduler_insert t s) = k_locks s"
  "k_services (scheduler_request c s) = k_services s" "k_rpc_next_id (scheduler_request c s) = k_rpc_next_id s"
  "k_timer_count (scheduler_request c s) = k_timer_count s" "k_drives (scheduler_request c s) = k_drives s"
  "k_locks (scheduler_request c s) = k_locks s"
  by (simp_all add: scheduler_remove_def scheduler_insert_def scheduler_request_def smp_send_reschedule_def)

lemma wake_frame_set_state: "t < slot_count s \<Longrightarrow> wake_frame s (task_set_state t st s)"
  by (auto simp: wake_frame_def same_size_def tsk_task_set_state) (simp_all add: task_set_state_def)

lemma wake_frame_place: "t < slot_count s \<Longrightarrow> wake_frame s (scheduler_place_task t c s)"
  by (auto simp: wake_frame_def same_size_def tsk_scheduler_place_task)
    (simp_all add: scheduler_place_task_def Let_def)

lemma wake_frame_request: "wake_frame s (scheduler_request c s)"
  by (simp add: wake_frame_def same_size_def)

lemma wake_frame_task_run:
  assumes "t < slot_count s" shows "wake_frame s (task_run t s)"
proof -
  have a: "wake_frame s (task_set_state t RUNNING (upd_task t (\<lambda>k. k\<lparr>t_urgent := True\<rparr>) s))"
    using assms by (intro wake_frame_trans [OF wake_frame_upd_task wake_frame_set_state]) auto
  show ?thesis
    using assms unfolding task_run_def Let_def
    by (auto intro!: wake_frame_trans [OF _ wake_frame_upd_task] wake_frame_trans [OF _ wake_frame_place]
        wake_frame_trans [OF _ wake_frame_request] a)
qed

lemma wake_frame_for_slots:
  "(\<And>t. t < slot_count s \<Longrightarrow> True) \<Longrightarrow> wake_frame s (for_slots P task_run s)"
  by (rule for_slots_inv [where I = "wake_frame s"])
    (auto intro: wake_frame_trans [OF _ wake_frame_task_run] simp: wake_frameD)

lemma wake_frame_run_now: "wake_frame s (mtask_run_now obj s)"
  by (auto simp: mtask_run_now_def wake_frame_def same_size_def split: option.splits)

lemma wake_frame_wake_senders: "wake_frame s (ipc_wake_senders t s)"
  unfolding ipc_wake_senders_def by (rule wake_frame_for_slots) simp

lemma wake_frame_wake_receiver: "t < slot_count s \<Longrightarrow> wake_frame s (fst (ipc_wake_receiver t s))"
  by (simp add: ipc_wake_receiver_def wake_frame_task_run)

lemma wake_frame_fall_blocked:
  "current_tid s < slot_count s \<Longrightarrow> wake_frame s (fst (task_fall_blocked_reason st r s))"
  by (auto simp: task_fall_blocked_reason_def Let_def
      intro!: wake_frame_trans [OF wake_frame_set_state wake_frame_upd_task])

lemma current_tid_upd_task [simp]: "current_tid (upd_task t f s) = current_tid s"
  by (simp add: current_tid_def current_task_def)

lemma wake_frame_ipc_wait:
  "current_tid s < slot_count s \<Longrightarrow> wake_frame s (fst (ipc_wait self p d b s))"
  by (auto simp: ipc_wait_def intro!: wake_frame_trans [OF wake_frame_upd_task wake_frame_fall_blocked])

lemma ipc_wait_loop_fst [simp]: "fst (ipc_wait_loop r) = fst r"
  by (auto simp: ipc_wait_loop_def split: prod.splits outcome.splits)

section \<open>The run queues stay well formed\<close>

lemma sched_wf_upd_ipc [inv_intros]: "sched_wf s \<Longrightarrow> sched_wf (upd_ipc t f s)"
  unfolding upd_ipc_def by (rule sched_wf_upd_task) (auto simp: sched_view_def)

lemma upd_ipc_simps [simp]:
  "slot_count (upd_ipc t f s) = slot_count s" "cpu_total (upd_ipc t f s) = cpu_total s"
  "k_this_cpu (upd_ipc t f s) = k_this_cpu s" "current_tid (upd_ipc t f s) = current_tid s"
  "k_services (upd_ipc t f s) = k_services s" "k_cpus (upd_ipc t f s) = k_cpus s"
  by (simp_all add: upd_ipc_def)

lemma sched_wf_wake_senders [inv_intros]: "sched_wf s \<Longrightarrow> sched_wf (ipc_wake_senders t s)"
  unfolding ipc_wake_senders_def by (simp add: for_slots_task_run)

lemma sched_wf_wake_receiver [inv_intros]:
  "sched_wf s \<Longrightarrow> t < slot_count s \<Longrightarrow> sched_wf (fst (ipc_wake_receiver t s))"
  by (auto simp: ipc_wake_receiver_def intro: sched_wf_task_run)

lemma sched_wf_ipc_wait [inv_intros]:
  assumes "sched_wf s" "current_tid s < slot_count s" shows "sched_wf (fst (ipc_wait self p d b s))"
  using assms by (auto simp: ipc_wait_def intro!: inv_intros simp: sched_view_def)

lemma sched_wf_ipc_wait_resume [inv_intros]: "sched_wf s \<Longrightarrow> sched_wf (ipc_wait_resume self s)"
  unfolding ipc_wait_resume_def by (rule sched_wf_upd_task) (auto simp: sched_view_def)

lemma sched_wf_ipc_tick [inv_intros]: "sched_wf s \<Longrightarrow> sched_wf (ipc_tick s)"
  unfolding ipc_tick_def by (simp add: for_slots_task_run)

lemma get_task_bound: "get_task s tid = Some t \<Longrightarrow> t = tid \<and> t < slot_count s"
  by (simp add: get_task_Some)

lemma sched_wf_ipc_send_reply [inv_intros]:
  "sched_wf s \<Longrightarrow> sched_wf (fst (ipc_send_reply to_tid gen mid data s))"
  by (auto simp: ipc_send_reply_def dest!: get_task_bound intro!: inv_intros split: option.splits)

lemma ptr_ok_Some: "t < slot_count s \<Longrightarrow> ptr_ok s (Some t)" by (simp add: ptr_ok_def)

lemma ipc_wake_receiver_size [simp]: "slot_count (fst (ipc_wake_receiver t s)) = slot_count s"
  by (simp add: ipc_wake_receiver_def)

lemma sched_wf_ipc_send_try [inv_intros]:
  assumes "sched_wf s" "current_tid s < slot_count s"
  shows "sched_wf (fst (ipc_send_try ok to_tid gen ty mid data fl tmo dl s))"
  using assms
  by (auto simp: ipc_send_try_def Let_def split_beta dest!: get_task_bound
      intro!: inv_intros ptr_ok_Some split: option.splits)

lemma sched_wf_ipc_send [inv_intros]:
  assumes "sched_wf s" "current_tid s < slot_count s"
  shows "sched_wf (fst (ipc_send ok to_tid gen ty mid data sz fl tmo s))"
  using assms by (auto simp: ipc_send_def Let_def intro!: inv_intros)

lemma sched_wf_ipc_recv_try [inv_intros]:
  assumes "sched_wf s" "current_tid s < slot_count s"
  shows "sched_wf (fst (ipc_recv_try n fil fl tmo dl s))"
  using assms by (auto simp: ipc_recv_try_def Let_def split_beta intro!: inv_intros split: option.splits)

lemma sched_wf_ipc_recv [inv_intros]:
  assumes "sched_wf s" "current_tid s < slot_count s"
  shows "sched_wf (fst (ipc_recv n fil fl tmo s))"
  using assms by (simp add: ipc_recv_def sched_wf_ipc_recv_try)

lemma sched_wf_services [simp]: "sched_wf (s\<lparr>k_services := svs\<rparr>) = sched_wf s"
  "sched_wf (s\<lparr>k_rpc_next_id := n\<rparr>) = sched_wf s"
  by (rule sched_wf_cong, simp_all)+

lemma sched_wf_cleanup [inv_intros]:
  assumes "sched_wf s" shows "sched_wf (ipc_task_cleanup task s)"
proof (cases task)
  case (Some t)
  have lp: "sched_wf (for_slots P (\<lambda>w s. fst (ipc_wake_receiver w (upd_ipc w f s))) u)" if "sched_wf u" for P f u
    by (rule for_slots_sched_wf [THEN conjunct1])
      (use that in \<open>auto intro!: inv_intros simp: same_size_def ipc_wake_receiver_def\<close>)
  with assms Some show ?thesis
    by (auto simp: ipc_task_cleanup_def Let_def intro!: lp inv_intros simp: sched_view_def)
qed (use assms in \<open>simp add: ipc_task_cleanup_def\<close>)

section \<open>Delivery\<close>

text \<open>The receiver of a send, when it exists and has the expected generation.\<close>

definition ipc_target :: "kernel \<Rightarrow> nat \<Rightarrow> u32 \<Rightarrow> nat option" where
  "ipc_target s to_tid to_generation =
     (case get_task s to_tid of
        None \<Rightarrow> None
      | Some to \<Rightarrow>
          if t_state (tsk s to) = DIED \<or> (to_generation \<noteq> 0 \<and> t_generation (tsk s to) \<noteq> to_generation)
          then None else Some to)"

lemma ipc_target_bound: "ipc_target s to gen = Some t \<Longrightarrow> t = to \<and> t < slot_count s"
  by (auto simp: ipc_target_def dest!: get_task_bound split: option.splits if_splits)

lemma ipc_of_upd_ipc: "t_ipc (tsk (upd_ipc t f s) u) = (if u = t \<and> t < slot_count s then f (t_ipc (tsk s t)) else t_ipc (tsk s u))"
  by (simp add: upd_ipc_def nth_list_update_if)

lemma ipc_of_wake_receiver [simp]:
  "t < slot_count s \<Longrightarrow> t_ipc (tsk (fst (ipc_wake_receiver t s)) u) = t_ipc (tsk s u)"
  by (rule wake_frameD(2) [OF wake_frame_wake_receiver])

lemma ipc_of_run_now [simp]: "t_ipc (tsk (mtask_run_now obj s) u) = t_ipc (tsk s u)"
  by (rule wake_frameD(2) [OF wake_frame_run_now])

lemma ipc_of_wait [simp]:
  "current_tid s < slot_count s \<Longrightarrow> t_ipc (tsk (fst (ipc_wait self p d b s)) u) = t_ipc (tsk s u)"
  by (rule wake_frameD(2) [OF wake_frame_ipc_wait])

lemma ipc_of_wake_senders [simp]: "t_ipc (tsk (ipc_wake_senders t s) u) = t_ipc (tsk s u)"
  by (rule wake_frameD(2) [OF wake_frame_wake_senders])

text \<open>The message a send of \<open>data\<close> puts into the inbox.\<close>

definition sent_message :: "kernel \<Rightarrow> u32 \<Rightarrow> u32 \<Rightarrow> bytes \<Rightarrow> u64 \<Rightarrow> ipc_message" where
  "sent_message s type mid data seq =
     \<lparr>m_data = data, m_from_tid = t_tid (tsk s (current_tid s)),
      m_from_generation = t_generation (tsk s (current_tid s)), m_type = type, m_id = mid,
      m_seq = seq, m_used = True\<rparr>"

lemma ipc_send_try_None:
  "ipc_target s to gen = None \<Longrightarrow> ipc_send_try ok to gen ty mid data fl tmo dl s = (s, Done IPC_ERR_NOTASK)"
  by (auto simp: ipc_target_def ipc_send_try_def Let_def split: option.splits if_splits)

lemma ipc_send_try_Some:
  assumes "ipc_target s to gen = Some t"
  shows "ipc_send_try ok to gen ty mid data fl tmo dl s =
    (case ipc_find_free (t_ipc (tsk s t)) of
            Some slot \<Rightarrow>
              if length data \<noteq> 0 \<and> \<not> ok then (s, Done IPC_ERR_NOMEM)
              else
                (let s' = upd_ipc t (ipc_enqueue slot (t_tid (tsk s (current_tid s)))
                      (t_generation (tsk s (current_tid s))) ty mid data) s;
                     (s'', receiver_woken) = ipc_wake_receiver t s'
                 in if fl AND IPC_DELIVER_NOW \<noteq> 0 \<and> receiver_woken
                    then (mtask_run_now (Some t) s'', SwitchThen IPC_OK)
                    else (s'', Done IPC_OK))
          | None \<Rightarrow>
              if fl AND IPC_NOWAIT \<noteq> 0 then (s, Done IPC_ERR_FULL)
              else if tmo \<noteq> 0 \<and> ipc_deadline_passed s dl then (s, Done IPC_ERR_TIMEOUT)
              else ipc_wait_loop (ipc_wait (current_tid s) to dl (tmo \<noteq> 0) s))"
  using assms by (auto simp: ipc_target_def ipc_send_try_def Let_def split: option.splits if_splits)

definition ipc_ok :: "kernel \<Rightarrow> bool" where
  "ipc_ok s \<longleftrightarrow> (\<forall>t < slot_count s. ipc_wf (t_ipc (tsk s t)))"

section \<open>Properties\<close>

text \<open>C27: one attempt of \<open>ipc_send\<close> to a live task of the right generation appends exactly one message,
  carrying the sender's identity, to the end of the receiver's inbox when fewer than 16 messages wait
  there; with a full inbox, a missing allocation or a dead or reused receiver no inbox changes and the
  attempt reports the error or blocks.  No other task's inbox is ever touched.\<close>

theorem ipc_send_appends:
  assumes wf: "sched_wf s" "ipc_ok s" and cur: "current_tid s < slot_count s"
    and seq: "\<And>t. t < slot_count s \<Longrightarrow> h_seq (t_ipc (tsk s t)) \<noteq> -1"
    and r: "ipc_send_try malloc_ok to gen type mid data flags timeout_ms deadline s = (s', r)"
  shows "case ipc_target s to gen of
      None \<Rightarrow> s' = s \<and> r = Done IPC_ERR_NOTASK
    | Some t \<Rightarrow>
        (if h_count (t_ipc (tsk s t)) = MAX_IPC_MESSAGE
         then (\<forall>u. t_ipc (tsk s' u) = t_ipc (tsk s u))
           \<and> r \<in> (if flags AND IPC_NOWAIT \<noteq> 0 then {Done IPC_ERR_FULL}
                   else if timeout_ms \<noteq> 0 \<and> ipc_deadline_passed s deadline then {Done IPC_ERR_TIMEOUT}
                   else {Switch, Retry})
         else if data \<noteq> [] \<and> \<not> malloc_ok then s' = s \<and> r = Done IPC_ERR_NOMEM
         else r \<in> {Done IPC_OK, SwitchThen IPC_OK}
           \<and> ipc_wf (t_ipc (tsk s' t))
           \<and> ipc_inbox (t_ipc (tsk s' t)) = ipc_inbox (t_ipc (tsk s t))
               @ [sent_message s type mid data (h_seq (t_ipc (tsk s t)))]
           \<and> (\<forall>u. u \<noteq> t \<longrightarrow> t_ipc (tsk s' u) = t_ipc (tsk s u)))"
proof (cases "ipc_target s to gen")
  case None then show ?thesis using r by (simp add: ipc_send_try_None)
next
  case (Some t)
  have t: "t < slot_count s" using ipc_target_bound [OF Some] by simp
  have iw: "ipc_wf (t_ipc (tsk s t))" using wf(2) t by (simp add: ipc_ok_def)
  note att = ipc_send_try_Some [OF Some, of malloc_ok type mid data flags timeout_ms deadline]
  show ?thesis
  proof (cases "ipc_find_free (t_ipc (tsk s t))")
    case None
    then have full: "h_count (t_ipc (tsk s t)) = MAX_IPC_MESSAGE" using ipc_find_free_None [OF iw] by simp
    have "s' = (if flags AND IPC_NOWAIT \<noteq> 0 \<or> timeout_ms \<noteq> 0 \<and> ipc_deadline_passed s deadline then s
        else fst (ipc_wait (current_tid s) to deadline (timeout_ms \<noteq> 0) s))"
      "r \<in> (if flags AND IPC_NOWAIT \<noteq> 0 then {Done IPC_ERR_FULL}
             else if timeout_ms \<noteq> 0 \<and> ipc_deadline_passed s deadline then {Done IPC_ERR_TIMEOUT}
             else {Switch, Retry})"
      using r unfolding att None
      by (auto simp: ipc_wait_loop_def split: if_splits prod.splits outcome.splits)
    then show ?thesis using full Some cur by (simp only: option.case if_True) simp
  next
    case free: (Some i)
    then have room: "h_count (t_ipc (tsk s t)) \<noteq> MAX_IPC_MESSAGE" using ipc_find_free_None [OF iw] by simp
    let ?e = "upd_ipc t (ipc_enqueue i (t_tid (tsk s (current_tid s)))
                      (t_generation (tsk s (current_tid s))) type mid data) s"
    note q = ipc_enqueue_inbox [OF iw free seq [OF t], of "t_tid (tsk s (current_tid s))"
        "t_generation (tsk s (current_tid s))" type mid data]
    have "s' = s \<and> r = Done IPC_ERR_NOMEM" if "data \<noteq> [] \<and> \<not> malloc_ok"
      using r that unfolding att free by simp
    moreover have "(\<forall>u. t_ipc (tsk s' u) = t_ipc (tsk ?e u)) \<and> r \<in> {Done IPC_OK, SwitchThen IPC_OK}"
      if "\<not> (data \<noteq> [] \<and> \<not> malloc_ok)"
    proof -
      have "s' = fst (ipc_wake_receiver t ?e) \<or> s' = mtask_run_now (Some t) (fst (ipc_wake_receiver t ?e))"
        "r \<in> {Done IPC_OK, SwitchThen IPC_OK}"
        using r that unfolding att free by (auto simp: Let_def split: prod.splits if_splits)
      then show ?thesis using t by auto
    qed
    ultimately show ?thesis
      using Some room q t by (auto simp: ipc_of_upd_ipc sent_message_def)
  qed
qed

text \<open>C28: \<open>ipc_recv\<close> takes the oldest message that passes the sender filter: it returns its payload and
  descriptor, removes it and nothing else from the inbox, leaves it there with \<open>IPC_ERR_TOOBIG\<close> when the
  buffer is too small, and without a match changes no inbox and reports \<open>IPC_ERR_EMPTY\<close>, the time-out or
  blocks.  \<open>ipc_peek\<close> describes the same message.\<close>

theorem ipc_recv_takes_oldest:
  assumes ok: "ipc_ok s" and cur: "current_tid s < slot_count s"
    and r: "ipc_recv_try bufsize fil flags timeout_ms deadline s = (s', r, info, bytes)"
  shows "case find (ipc_message_matches fil) (ipc_inbox (t_ipc (tsk s (current_tid s)))) of
      Some msg \<Rightarrow>
        info = Some (ipc_msg_info msg) \<and> ipc_peek fil s = (IPC_OK, info)
        \<and> (if length (m_data msg) > bufsize then s' = s \<and> r = Done IPC_ERR_TOOBIG \<and> bytes = []
           else r = Done (int (length (m_data msg))) \<and> bytes = m_data msg
             \<and> ipc_wf (t_ipc (tsk s' (current_tid s)))
             \<and> ipc_inbox (t_ipc (tsk s' (current_tid s)))
                 = remove1 msg (ipc_inbox (t_ipc (tsk s (current_tid s))))
             \<and> (\<forall>u. u \<noteq> current_tid s \<longrightarrow> t_ipc (tsk s' u) = t_ipc (tsk s u)))
    | None \<Rightarrow>
        (\<forall>u. t_ipc (tsk s' u) = t_ipc (tsk s u)) \<and> info = None \<and> bytes = []
        \<and> ipc_peek fil s = (IPC_ERR_EMPTY, None)
        \<and> r \<in> (if flags AND IPC_NOWAIT \<noteq> 0 then {Done IPC_ERR_EMPTY}
                else if timeout_ms \<noteq> 0 \<and> ipc_deadline_passed s deadline then {Done IPC_ERR_TIMEOUT}
                else {Switch, Retry})"
proof -
  let ?self = "current_tid s" and ?ipc = "t_ipc (tsk s (current_tid s))"
  have iw: "ipc_wf ?ipc" using ok cur by (simp add: ipc_ok_def)
  show ?thesis
  proof (cases "ipc_find_oldest ?ipc fil")
    case None
    have "s' = (if flags AND IPC_NOWAIT \<noteq> 0 \<or> timeout_ms \<noteq> 0 \<and> ipc_deadline_passed s deadline then s
        else fst (ipc_wait ?self TASK_ID_NONE deadline (timeout_ms \<noteq> 0) s))"
      "info = None" "bytes = []"
      "r \<in> (if flags AND IPC_NOWAIT \<noteq> 0 then {Done IPC_ERR_EMPTY}
                else if timeout_ms \<noteq> 0 \<and> ipc_deadline_passed s deadline then {Done IPC_ERR_TIMEOUT}
                else {Switch, Retry})"
      using r None unfolding ipc_recv_try_def Let_def
      by (auto simp: ipc_wait_loop_def split: if_splits prod.splits outcome.splits)
    then show ?thesis using ipc_find_oldest_None [OF None] None cur by (simp add: ipc_peek_def Let_def)
  next
    case (Some i)
    note o = ipc_find_oldest_Some [OF iw Some]
    note d = ipc_drop_inbox [OF iw o(1,2)]
    have "info = Some (ipc_msg_info (h_messages ?ipc ! i))"
      "if length (m_data (h_messages ?ipc ! i)) > bufsize then s' = s \<and> r = Done IPC_ERR_TOOBIG \<and> bytes = []
       else s' = ipc_wake_senders (t_tid (tsk s ?self)) (upd_ipc ?self (ipc_drop_message i) s)
         \<and> r = Done (int (length (m_data (h_messages ?ipc ! i)))) \<and> bytes = m_data (h_messages ?ipc ! i)"
      using r Some unfolding ipc_recv_try_def Let_def by (auto split: if_splits)
    then show ?thesis using o(3) d Some cur
      by (auto simp: ipc_of_upd_ipc ipc_peek_def Let_def split: if_splits)
  qed
qed

lemma sched_example_tasks:
  "t < slot_count sched_example \<Longrightarrow> t_ipc (tsk sched_example t) = ipc_header_init"
  "slot_count sched_example = 4" "current_tid sched_example = 0"
  "ipc_target sched_example 1 0 = Some 1"
  by (auto simp: example_defs current_tid_def current_task_def ipc_target_def get_task_def
      task_slot_at_def less_Suc_eq numeral_eq_Suc)

lemma sched_example_ipc_ok: "ipc_ok sched_example"
  by (simp add: ipc_ok_def sched_example_tasks)

lemma ipc_send_appends_witness:
  "map m_data (ipc_inbox (t_ipc (tsk (fst (ipc_send_try True 1 0 7 0 [42] 0 0 0 sched_example)) 1))) = [[42]]"
proof -
  have seq: "\<And>t. t < slot_count sched_example \<Longrightarrow> h_seq (t_ipc (tsk sched_example t)) \<noteq> -1"
    by (simp add: sched_example_tasks ipc_header_init_def)
  have c: "current_tid sched_example < slot_count sched_example" by (simp add: sched_example_tasks)
  obtain s' r where r: "ipc_send_try True 1 0 7 0 [42] 0 0 0 sched_example = (s', r)" by force
  have i: "t_ipc (tsk sched_example 1) = ipc_header_init" by (simp add: sched_example_tasks)
  have cnt: "h_count ipc_header_init \<noteq> MAX_IPC_MESSAGE" by (simp add: ipc_header_init_def)
  have "ipc_inbox (t_ipc (tsk s' 1)) = [sent_message sched_example 7 0 [42] (h_seq ipc_header_init)]"
    using ipc_send_appends [OF sched_example_wf sched_example_ipc_ok c seq r] cnt
    by (simp only: sched_example_tasks(4) i option.case if_False) simp
  then show ?thesis unfolding r by (simp add: sent_message_def)
qed

lemma ipc_recv_takes_oldest_witness:
  "fst (snd (ipc_recv_try 4096 IPC_ANY_TID IPC_NOWAIT 0 0 sched_example)) = Done IPC_ERR_EMPTY"
proof -
  have c: "current_tid sched_example < slot_count sched_example" by (simp add: sched_example_tasks)
  obtain s' r i b where r: "ipc_recv_try 4096 IPC_ANY_TID IPC_NOWAIT 0 0 sched_example = (s', r, i, b)"
    by (metis prod_cases4)
  have "t_ipc (tsk sched_example (current_tid sched_example)) = ipc_header_init"
    by (simp add: sched_example_tasks)
  with ipc_recv_takes_oldest [OF sched_example_ipc_ok c r] show ?thesis by (simp add: r)
qed

end
