(* ===== verification/IpcServices.thy ===== *)
theory IpcServices
  imports IpcProps
begin

text \<open>
  The service table and the kernel RPC replies of \<^verbatim>\<open>ipc.c\<close>: names are unique, only live tasks answer
  to them, and a reply reaches a call only from the server it was sent to.
\<close>

section \<open>The service table\<close>

definition svc_wf :: "kernel \<Rightarrow> bool" where
  "svc_wf s \<longleftrightarrow>
     (\<forall>i j. i < length (k_services s) \<and> j < length (k_services s) \<and> sv_used (k_services s ! i)
        \<and> sv_used (k_services s ! j) \<and> sv_name (k_services s ! i) = sv_name (k_services s ! j) \<longrightarrow> i = j)
     \<and> (\<forall>sv\<in>set (k_services s). sv_used sv \<longrightarrow> ipc_name_valid (Some (sv_name sv)))"

lemma service_named_Some:
  assumes "svc_wf s"
  shows "service_named s name = Some i \<longleftrightarrow>
    i < length (k_services s) \<and> sv_used (k_services s ! i) \<and> sv_name (k_services s ! i) = name"
  using assms unfolding service_named_def find_upt_Some svc_wf_def
  by (metis less_trans nat_neq_iff not_less_zero zero_le)

lemma service_named_None:
  "service_named s name = None \<longleftrightarrow>
    (\<forall>i < length (k_services s). sv_used (k_services s ! i) \<longrightarrow> sv_name (k_services s ! i) \<noteq> name)"
  by (auto simp: service_named_def find_upt_None)

lemma service_scan_find:
  "service_scan s self name idx free_index =
    (case find (\<lambda>i. sv_used (k_services s ! i) \<and> sv_name (k_services s ! i) = name) idx of
       Some i \<Rightarrow>
         if service_alive s (k_services s ! i)
         then Inl (if get_task s (sv_tid (k_services s ! i)) = Some self then IPC_OK else IPC_ERR_EXIST)
         else Inr (Some i, (k_services s)[i := (k_services s ! i)\<lparr>sv_used := False\<rparr>])
     | None \<Rightarrow>
         Inr (if free_index = None then find (\<lambda>i. \<not> sv_used (k_services s ! i)) idx else free_index,
              k_services s))"
  by (induction idx arbitrary: free_index) (auto simp: Let_def split: option.splits)

text \<open>Writing one entry keeps the names unique when no other used entry has the new name.\<close>

lemma svc_wf_update:
  assumes wf: "svc_wf s" and i: "i < length (k_services s)"
    and new: "sv_used sv \<Longrightarrow> ipc_name_valid (Some (sv_name sv)) \<and>
      (\<forall>j < length (k_services s). j \<noteq> i \<longrightarrow> sv_used (k_services s ! j) \<longrightarrow> sv_name (k_services s ! j) \<noteq> sv_name sv)"
  shows "svc_wf (s\<lparr>k_services := (k_services s)[i := sv]\<rparr>)"
proof -
  have "a = b" if "a < length (k_services s)" "b < length (k_services s)"
    "sv_used ((k_services s)[i := sv] ! a)" "sv_used ((k_services s)[i := sv] ! b)"
    "sv_name ((k_services s)[i := sv] ! a) = sv_name ((k_services s)[i := sv] ! b)" for a b
  proof -
    have uniq: "c = d" if "c < length (k_services s)" "d < length (k_services s)" "sv_used (k_services s ! c)"
      "sv_used (k_services s ! d)" "sv_name (k_services s ! c) = sv_name (k_services s ! d)" for c d
      using wf that unfolding svc_wf_def by blast
    show ?thesis
    proof (cases "a = i \<or> b = i")
      case True
      then show ?thesis using that new i by (metis nth_list_update_eq nth_list_update_neq)
    next
      case False
      then show ?thesis using that uniq [of a b] by simp
    qed
  qed
  moreover have "ipc_name_valid (Some (sv_name v))" if "v \<in> set ((k_services s)[i := sv])" "sv_used v" for v
    using that wf new set_update_subset_insert [of "k_services s" i sv] by (auto simp: svc_wf_def)
  ultimately show ?thesis unfolding svc_wf_def by simp
qed

lemma service_clear_wf: "svc_wf s \<Longrightarrow> svc_wf (service_clear i s)"
  by (cases "i < length (k_services s)")
    (auto simp: service_clear_def list_update_beyond intro!: svc_wf_update)

lemma ipc_name_copy_valid: "ipc_name_valid (Some n) \<Longrightarrow> ipc_name_copy n = n"
  by (simp add: ipc_name_valid_def ipc_name_copy_def)

lemma get_task_services [simp]: "get_task (s\<lparr>k_services := svs\<rparr>) t = get_task s t"
  by (simp add: get_task_def task_slot_at_def)

lemma current_tid_services [simp]: "current_tid (s\<lparr>k_services := svs\<rparr>) = current_tid s"
  by (simp add: current_tid_def current_task_def)

lemma service_alive_services [simp]: "service_alive (s\<lparr>k_services := svs\<rparr>) = service_alive s"
  by (rule ext) (simp add: service_alive_def split: option.splits)

text \<open>What registering a valid name does, by who holds the name.\<close>

lemma ipc_service_register_cases:
  assumes wf: "svc_wf s" and n: "ipc_name_valid (Some n)"
  defines "sv \<equiv> \<lparr>sv_name = n, sv_tid = t_tid (tsk s (current_tid s)),
      sv_generation = t_generation (tsk s (current_tid s)), sv_used = True\<rparr>"
  obtains (held) i where "service_named s n = Some i" "service_alive s (k_services s ! i)"
      "ipc_service_register (Some n) s =
         (s, if sv_tid (k_services s ! i) = current_tid s then IPC_OK else IPC_ERR_EXIST)"
  | (full) "service_named s n = None" "\<forall>v\<in>set (k_services s). sv_used v"
      "ipc_service_register (Some n) s = (s, IPC_ERR_FULL)"
  | (taken) i where "i < length (k_services s)"
      "service_named s n = Some i \<and> \<not> service_alive s (k_services s ! i)
        \<or> service_named s n = None \<and> \<not> sv_used (k_services s ! i)"
      "ipc_service_register (Some n) s = (s\<lparr>k_services := (k_services s)[i := sv]\<rparr>, IPC_OK)"
proof (cases "service_named s n")
  case (Some i)
  note idx = service_named_Some [OF wf, THEN iffD1, OF Some]
  have own: "get_task s (sv_tid (k_services s ! i)) = Some (current_tid s) \<longleftrightarrow>
      sv_tid (k_services s ! i) = current_tid s" if "service_alive s (k_services s ! i)"
    using that by (auto simp: service_alive_def get_task_Some split: option.splits)
  show ?thesis
  proof (cases "service_alive s (k_services s ! i)")
    case True
    then show ?thesis using Some n own
      by (intro held [of i]) (simp_all add: ipc_service_register_def service_scan_find service_named_def [symmetric] Let_def)
  next
    case False
    then show ?thesis using Some n idx
      by (intro taken [of i])
        (simp_all add: ipc_service_register_def service_scan_find service_named_def [symmetric]
          ipc_name_copy_valid sv_def Let_def)
  qed
next
  case None
  show ?thesis
  proof (cases "find (\<lambda>i. \<not> sv_used (k_services s ! i)) [0..<length (k_services s)]")
    case f: None
    then have "\<forall>v\<in>set (k_services s). sv_used v" by (simp add: find_upt_None all_set_conv_all_nth)
    then show ?thesis using None n f
      by (intro full) (simp_all add: ipc_service_register_def service_scan_find service_named_def [symmetric]
          Let_def)
  next
    case (Some i)
    then have "i < length (k_services s)" "\<not> sv_used (k_services s ! i)" by (simp_all add: find_upt_Some)
    then show ?thesis using None n Some
      by (intro taken [of i])
        (simp_all add: ipc_service_register_def service_scan_find service_named_def [symmetric]
          ipc_name_copy_valid sv_def Let_def)
  qed
qed

lemma ipc_service_lookup_hit:
  assumes "svc_wf s" "i < length (k_services s)" "sv_used (k_services s ! i)" "sv_name (k_services s ! i) = n"
    "service_alive s (k_services s ! i)"
  shows "ipc_service_lookup (Some n) s = (s, int (sv_tid (k_services s ! i)), Some (sv_generation (k_services s ! i)))"
proof -
  have "ipc_name_valid (Some n)" using assms(1-4) by (auto simp: svc_wf_def)
  then show ?thesis
    using assms service_named_Some [OF assms(1), of n i] by (simp add: ipc_service_lookup_def)
qed

section \<open>Kernel RPC\<close>

lemma word32_bytes:
  fixes w :: u32
  shows "ucast (ucast w :: u8) OR push_bit 8 (ucast (ucast (drop_bit 8 w) :: u8))
    OR push_bit 16 (ucast (ucast (drop_bit 16 w) :: u8)) OR push_bit 24 (ucast (ucast (drop_bit 24 w) :: u8)) = w"
proof (rule bit_word_eqI)
  fix n :: nat assume n: "n < LENGTH(32)"
  then consider "n < 8" | "8 \<le> n" "n < 16" | "16 \<le> n" "n < 24" | "24 \<le> n" "n < 32" by force
  then show "bit (ucast (ucast w :: u8) OR push_bit 8 (ucast (ucast (drop_bit 8 w) :: u8))
    OR push_bit 16 (ucast (ucast (drop_bit 16 w) :: u8)) OR push_bit 24 (ucast (ucast (drop_bit 24 w) :: u8)) :: u32) n
    = bit w n"
    by cases (auto simp: bit_simps)
qed

lemma le32_get: "get_le32 (le32 w @ bs) = w"
  by (simp add: le32_def get_le32_def word32_bytes)

lemma length_le32 [simp]: "length (le32 w) = 4" by (simp add: le32_def)

lemma rpc_wire_fields:
  "wire_opcode (rpc_wire oc st ln @ bs) = oc" "wire_status (rpc_wire oc st ln @ bs) = st"
  "wire_len (rpc_wire oc st ln @ bs) = ln" "length (rpc_wire oc st ln) = RPC_WIRE_SIZE"
  "drop RPC_WIRE_SIZE (rpc_wire oc st ln @ bs) = bs"
  using le32_get [of oc "le32 st @ le32 ln @ bs"] le32_get [of st "le32 ln @ bs"] le32_get [of ln bs]
  by (simp_all add: rpc_wire_def wire_opcode_def wire_status_def wire_len_def)

lemma rpc_accept_reply_completed [simp]: "rp_completed (rpc_accept_reply s data call)"
  by (simp add: rpc_accept_reply_def Let_def)

section \<open>Properties\<close>

text \<open>Registering a name keeps the table's names unique; it succeeds exactly when no other live task
  holds the name and an entry is left, afterwards the name resolves to the caller with its generation,
  every other name resolves as before, and in every other case the table is unchanged.\<close>

theorem ipc_service_register_owns:
  assumes wf: "svc_wf s" and n: "ipc_name_valid (Some n)"
    and self: "get_task s (current_tid s) = Some (current_tid s)" "t_tid (tsk s (current_tid s)) = current_tid s"
      "t_state (tsk s (current_tid s)) \<noteq> DIED"
    and r: "ipc_service_register (Some n) s = (s', r)"
  shows "svc_wf s' \<and> (r = IPC_OK \<longrightarrow> fst (snd (ipc_service_lookup (Some n) s')) = int (current_tid s))
    \<and> (r \<noteq> IPC_OK \<longrightarrow> s' = s \<and> (r = IPC_ERR_EXIST \<and> (\<exists>i. service_named s n = Some i
        \<and> service_alive s (k_services s ! i) \<and> sv_tid (k_services s ! i) \<noteq> current_tid s)
      \<or> r = IPC_ERR_FULL \<and> (\<forall>v\<in>set (k_services s). sv_used v) \<and> service_named s n = None))
    \<and> (\<forall>m. m \<noteq> n \<longrightarrow> snd (ipc_service_lookup (Some m) s') = snd (ipc_service_lookup (Some m) s))"
proof -
  let ?sv = "\<lparr>sv_name = n, sv_tid = t_tid (tsk s (current_tid s)),
      sv_generation = t_generation (tsk s (current_tid s)), sv_used = True\<rparr>"
  show ?thesis
  proof (rule ipc_service_register_cases [OF wf n])
    fix i assume i: "service_named s n = Some i" "service_alive s (k_services s ! i)"
      "ipc_service_register (Some n) s = (s, if sv_tid (k_services s ! i) = current_tid s then IPC_OK else IPC_ERR_EXIST)"
    with ipc_service_lookup_hit [OF wf, of i n] service_named_Some [OF wf, of n i] r wf show ?thesis
      by (auto split: if_splits)
  next
    assume "service_named s n = None" "\<forall>v\<in>set (k_services s). sv_used v"
      "ipc_service_register (Some n) s = (s, IPC_ERR_FULL)"
    with r wf show ?thesis by simp
  next
    fix i assume i: "i < length (k_services s)"
      and free: "service_named s n = Some i \<and> \<not> service_alive s (k_services s ! i)
        \<or> service_named s n = None \<and> \<not> sv_used (k_services s ! i)"
      and "ipc_service_register (Some n) s = (s\<lparr>k_services := (k_services s)[i := ?sv]\<rparr>, IPC_OK)"
    then have s': "s' = s\<lparr>k_services := (k_services s)[i := ?sv]\<rparr>" "r = IPC_OK" using r by auto
    have uniq: "\<forall>j < length (k_services s). j \<noteq> i \<longrightarrow> sv_used (k_services s ! j) \<longrightarrow> sv_name (k_services s ! j) \<noteq> n"
      using free service_named_Some [OF wf, of n] service_named_None [of s n] by (metis option.distinct(1) option.inject)
    have wf': "svc_wf s'" unfolding s'(1) using n uniq by (intro svc_wf_update [OF wf i]) simp
    have look: "ipc_service_lookup (Some n) s' = (s', int (current_tid s), Some (t_generation (tsk s (current_tid s))))"
      using ipc_service_lookup_hit [OF wf', of i n] i self by (simp add: s' service_alive_def get_task_def task_slot_at_def split: if_splits)
    have other: "service_named s' m = Some j \<longleftrightarrow> service_named s m = Some j" if "m \<noteq> n" for j m
      unfolding service_named_Some [OF wf] service_named_Some [OF wf']
      using i that free service_named_Some [OF wf, of n i] by (auto simp: s' nth_list_update_if)
    then have same: "service_named s' m = service_named s m" if "m \<noteq> n" for m
      using that by (metis not_None_eq)
    have keep: "k_services s' ! j = k_services s ! j" if "service_named s m = Some j" "m \<noteq> n" for j m
      using that other [of m j] service_named_Some [OF wf', of m j] i by (auto simp: s' nth_list_update_if split: if_splits)
    have "snd (ipc_service_lookup (Some m) s') = snd (ipc_service_lookup (Some m) s)" if "m \<noteq> n" for m
      using that same keep by (auto simp: ipc_service_lookup_def s' split: option.splits)
    then show ?thesis using wf' look s' by simp
  qed
qed

definition service_example :: kernel where
  "service_example = sched_example\<lparr>k_services := [\<lparr>sv_name = [], sv_tid = 0, sv_generation = 0, sv_used = False\<rparr>,
     \<lparr>sv_name = ''tty'', sv_tid = 1, sv_generation = 1, sv_used = True\<rparr>]\<rparr>"

lemma service_example_facts:
  "svc_wf service_example" "ipc_name_valid (Some ''fs'')" "current_tid service_example = 0"
  "get_task service_example 0 = Some 0" "t_tid (tsk service_example 0) = 0"
  "t_state (tsk service_example 0) \<noteq> DIED" "service_named service_example ''fs'' = None"
  "\<not> sv_used (k_services service_example ! 0)" "0 < length (k_services service_example)"
  by (auto simp: service_example_def svc_wf_def ipc_name_valid_def less_Suc_eq sched_example_tasks
      get_task_def task_slot_at_def service_named_def current_tid_def current_task_def example_defs)

lemma ipc_service_register_owns_witness:
  "fst (snd (ipc_service_lookup (Some ''fs'') (fst (ipc_service_register (Some ''fs'') service_example)))) = 0"
proof -
  obtain s' r where r: "ipc_service_register (Some ''fs'') service_example = (s', r)" by force
  have self: "get_task service_example (current_tid service_example) = Some (current_tid service_example)"
    "t_tid (tsk service_example (current_tid service_example)) = current_tid service_example"
    "t_state (tsk service_example (current_tid service_example)) \<noteq> DIED"
    by (simp_all add: service_example_facts)
  note own = ipc_service_register_owns [OF service_example_facts(1,2) self r]
  have "r = IPC_OK"
    using own service_example_facts(7-9) nth_mem [of 0 "k_services service_example"] by auto
  with own show ?thesis by (simp add: r service_example_facts(3))
qed

text \<open>C29: a message of type reply with a kernel call number never enters an inbox.  It completes the call
  of the addressed task only when that task is alive in the addressed generation, its call is pending
  with this number, and the sender is the very server (tid and generation) the call was sent to; a late,
  repeated or forged reply changes nothing.\<close>

theorem rpc_reply_authentic:
  assumes "size_ok \<le> IPC_MAX_MSG_SIZE" and kernel_call: "mid AND RPC_KERNEL_CALL \<noteq> 0"
  shows "let self = tsk s (current_tid s);
             (s', r) = ipc_send ok to gen RPC_TYPE_REPLY mid (Some data) size_ok flags timeout_ms s;
             accepted = (\<exists>call. get_task s to = Some to \<and> t_state (tsk s to) \<noteq> DIED
               \<and> t_generation (tsk s to) = gen \<and> h_rpc (t_ipc (tsk s to)) = Some call
               \<and> \<not> rp_completed call \<and> rp_id call = mid \<and> rp_server_tid call = t_tid self
               \<and> rp_server_generation call = t_generation self)
         in (if accepted
             then r = Done IPC_OK
               \<and> h_rpc (t_ipc (tsk s' to)) = map_option (rpc_accept_reply s (take size_ok data)) (h_rpc (t_ipc (tsk s to)))
               \<and> (\<forall>u. u \<noteq> to \<longrightarrow> t_ipc (tsk s' u) = t_ipc (tsk s u))
             else s' = s \<and> r \<in> {Done IPC_OK, Done IPC_ERR_NOTASK})
            \<and> (\<forall>u. h_messages (t_ipc (tsk s' u)) = h_messages (t_ipc (tsk s u)))"
proof -
  let ?data = "take size_ok data"
  let ?s1 = "upd_ipc to (\<lambda>ipc. ipc\<lparr>h_rpc := Some (rpc_accept_reply s ?data (the (h_rpc (t_ipc (tsk s to)))))\<rparr>) s"
  have send: "ipc_send ok to gen RPC_TYPE_REPLY mid (Some data) size_ok flags timeout_ms s
      = map_prod id Done (ipc_send_reply to gen mid ?data s)"
    using assms by (simp add: ipc_send_def)
  have bound: "to < slot_count s" if "get_task s to = Some to" using get_task_bound [OF that] by simp
  have "t_ipc (tsk (fst (ipc_wake_receiver to ?s1)) u) =
      (if u = to then (t_ipc (tsk s to))\<lparr>h_rpc := Some (rpc_accept_reply s ?data (the (h_rpc (t_ipc (tsk s to)))))\<rparr>
       else t_ipc (tsk s u))" if "to < slot_count s" for u
    using that by (simp add: ipc_of_upd_ipc)
  with bound show ?thesis
    unfolding send Let_def
    by (cases "get_task s to"; cases "h_rpc (t_ipc (tsk s to))")
      (auto simp: ipc_send_reply_def dest!: get_task_bound)
qed

text \<open>A reply the server builds from the wire header of the call is delivered whole: the caller gets
  the server's status, the payload and its length when it fits the caller's buffer, \<open>RPC_ERR_TOOBIG\<close>
  and no payload when it does not, and \<open>RPC_ERR_TIMEOUT\<close> after the deadline.\<close>

theorem rpc_reply_roundtrip:
  assumes "length payload \<le> IPC_MAX_MSG_SIZE - RPC_WIRE_SIZE"
  shows "let call' = rpc_accept_reply s (rpc_wire (rp_opcode call) status (of_nat (length payload)) @ payload) call
    in rp_completed call' \<and>
    (if ipc_deadline_passed s (rp_deadline call)
     then rp_status call' = RPC_ERR_TIMEOUT \<and> rp_reply call' = rp_reply call \<and> rp_length call' = rp_length call
     else if length payload \<le> rp_capacity call
     then rp_status call' = sint status \<and> rp_length call' = length payload
       \<and> (payload \<noteq> [] \<longrightarrow> rp_reply call' = payload)
     else rp_status call' = RPC_ERR_TOOBIG \<and> rp_reply call' = rp_reply call \<and> rp_length call' = rp_length call)"
proof -
  have len: "unat (of_nat (length payload) :: u32) = length payload"
    using assms(1) by (simp add: unat_of_nat take_bit_nat_eq_self_iff)
  then have zero: "(of_nat (length payload) :: u32) = 0 \<longleftrightarrow> payload = []"
    by (metis length_0_conv unat_eq_zero)
  show ?thesis
    unfolding rpc_accept_reply_def Let_def length_append
    by (simp add: rpc_wire_fields len zero)
qed

definition call_example :: rpc_pending where
  "call_example = \<lparr>rp_server_tid = 1, rp_server_generation = 1, rp_id = 0x80000000, rp_opcode = 5,
     rp_deadline = 100, rp_reply = [], rp_capacity = 8, rp_length = 0, rp_status = RPC_ERR_TIMEOUT,
     rp_completed = False\<rparr>"

lemma rpc_reply_roundtrip_witness:
  "rp_reply (rpc_accept_reply sched_example (rpc_wire 5 0 2 @ [1, 2]) call_example) = [1, 2]"
proof -
  have "\<not> ipc_deadline_passed sched_example 100"
    by (simp add: ipc_deadline_passed_def example_defs)
  then show ?thesis
    using rpc_reply_roundtrip [where payload = "[1, 2]" and call = call_example and s = sched_example and status = 0]
    by (simp add: call_example_def Let_def)
qed

lemma rpc_reply_authentic_witness:
  "h_messages (t_ipc (tsk (fst (ipc_send True 1 1 RPC_TYPE_REPLY 0x80000000 (Some [1]) 1 0 0 sched_example)) 1))
   = h_messages ipc_header_init"
  using rpc_reply_authentic [where size_ok = 1 and mid = "0x80000000" and s = sched_example and to = 1 and gen = 1 and data = "[1]" and ok = True and flags = 0 and timeout_ms = 0]
  by (simp add: Let_def split_beta sched_example_tasks)

end
