(* ===== verification/Lock.thy ===== *)
theory Lock
  imports IpcProps
begin

text \<open>
  The sleeping locks of \<^verbatim>\<open>kernel/dos/task/lock.c\<close>.  A lock is named by its index in \<open>k_locks\<close>; its
  intrusive waiter list is the list of tids from \<open>waiter\<close> to \<open>waiter_tail\<close>, and a task's membership is
  its \<open>waiting_lock\<close>.
\<close>

section \<open>Operations\<close>

definition upd_lock :: "nat \<Rightarrow> (lock_t \<Rightarrow> lock_t) \<Rightarrow> kernel \<Rightarrow> kernel" where
  "upd_lock l f s = s\<lparr>k_locks := (k_locks s)[l := f (k_locks s ! l)]\<rparr>"

definition lock_init :: "nat \<Rightarrow> kernel \<Rightarrow> kernel" where
  "lock_init l = upd_lock l (\<lambda>_. \<lparr>l_owner = None, l_locked = False, l_waiters = []\<rparr>)"

definition lock_waiter_remove :: "nat \<Rightarrow> kernel \<Rightarrow> kernel" where
  "lock_waiter_remove task s =
     (case t_waiting_lock (tsk s task) of
        None \<Rightarrow> s
      | Some l \<Rightarrow>
          upd_task task (\<lambda>k. k\<lparr>t_waiting_lock := None\<rparr>)
            (upd_lock l (\<lambda>k. k\<lparr>l_waiters := remove1 task (l_waiters k)\<rparr>) s))"

definition lock_waiter_add :: "nat \<Rightarrow> nat \<Rightarrow> kernel \<Rightarrow> kernel" where
  "lock_waiter_add l task s =
     (if t_waiting_lock (tsk s task) = Some l then s
      else
        (let s = (if t_waiting_lock (tsk s task) \<noteq> None then lock_waiter_remove task s else s)
         in upd_lock l (\<lambda>k. k\<lparr>l_waiters := l_waiters k @ [task]\<rparr>)
              (upd_task task (\<lambda>k. k\<lparr>t_waiting_lock := Some l\<rparr>) s)))"

text \<open>One evaluation of the loop condition of \<open>lock\<close> with the body, or with the code after the loop.\<close>

definition lock :: "nat \<Rightarrow> kernel \<Rightarrow> kernel \<times> unit outcome" where
  "lock l s =
     (let self = current_tid s in
      if l_locked (k_locks s ! l)
      then ipc_wait_loop (task_fall_blocked_reason WAITING WR_LOCK
             (mtask_run_now (l_owner (k_locks s ! l)) (lock_waiter_add l self s)))
      else (upd_lock l (\<lambda>k. k\<lparr>l_locked := True, l_owner := Some self\<rparr>) (lock_waiter_remove self s),
            Done ()))"

definition unlock :: "nat \<Rightarrow> kernel \<Rightarrow> kernel \<times> unit outcome" where
  "unlock l s =
     (if l_owner (k_locks s ! l) \<noteq> Some (current_tid s) then (s, Done ())
      else
        (let s = upd_lock l (\<lambda>k. k\<lparr>l_locked := False, l_owner := None\<rparr>) s in
         case l_waiters (k_locks s ! l) of
           [] \<Rightarrow> (s, Done ())
         | waiter # _ \<Rightarrow>
             (mtask_run_now (Some waiter) (task_run waiter (lock_waiter_remove waiter s)), SwitchThen ())))"

definition lock_cancel_task :: "nat \<Rightarrow> kernel \<Rightarrow> kernel" where
  "lock_cancel_task task = lock_waiter_remove task"

section \<open>The invariant\<close>

text \<open>Each task waits in the queue of the one lock it names, exactly once.\<close>

definition lock_wf :: "kernel \<Rightarrow> bool" where
  "lock_wf s \<longleftrightarrow>
     (\<forall>l < length (k_locks s). distinct (l_waiters (k_locks s ! l))
        \<and> (\<forall>t. t \<in> set (l_waiters (k_locks s ! l)) \<longleftrightarrow> t < slot_count s \<and> t_waiting_lock (tsk s t) = Some l)
        \<and> (l_locked (k_locks s ! l) \<longleftrightarrow> l_owner (k_locks s ! l) \<noteq> None))
     \<and> (\<forall>t < slot_count s. \<forall>l. t_waiting_lock (tsk s t) = Some l \<longrightarrow> l < length (k_locks s))"

lemma upd_lock_simps [simp]:
  "k_slots (upd_lock l f s) = k_slots s" "k_cpus (upd_lock l f s) = k_cpus s"
  "k_this_cpu (upd_lock l f s) = k_this_cpu s" "k_locks (upd_lock l f s) = (k_locks s)[l := f (k_locks s ! l)]"
  "current_tid (upd_lock l f s) = current_tid s"
  by (simp_all add: upd_lock_def current_tid_def current_task_def)

lemma sched_wf_upd_lock [simp]: "sched_wf (upd_lock l f s) = sched_wf s"
  by (rule sched_wf_cong) simp_all

lemma lock_wf_queue:
  assumes "lock_wf s" "l < length (k_locks s)"
  shows "distinct (l_waiters (k_locks s ! l))"
    "t \<in> set (l_waiters (k_locks s ! l)) \<longleftrightarrow> t < slot_count s \<and> t_waiting_lock (tsk s t) = Some l"
  using assms by (auto simp: lock_wf_def)

lemma lock_wf_waiting: "lock_wf s \<Longrightarrow> t < slot_count s \<Longrightarrow> t_waiting_lock (tsk s t) = Some l \<Longrightarrow> l < length (k_locks s)"
  by (simp add: lock_wf_def)

lemma lock_waiter_remove_simps [simp]:
  "slot_count (lock_waiter_remove t s) = slot_count s" "k_cpus (lock_waiter_remove t s) = k_cpus s"
  "k_this_cpu (lock_waiter_remove t s) = k_this_cpu s" "current_tid (lock_waiter_remove t s) = current_tid s"
  "length (k_locks (lock_waiter_remove t s)) = length (k_locks s)"
  by (simp_all add: lock_waiter_remove_def split: option.splits)

lemma tsk_lock_waiter_remove:
  "t < slot_count s \<Longrightarrow> tsk (lock_waiter_remove t s) u = (if u = t then (tsk s t)\<lparr>t_waiting_lock := None\<rparr> else tsk s u)"
  by (simp add: lock_waiter_remove_def nth_list_update_if split: option.splits)

lemma lock_waiter_remove_queue:
  assumes "lock_wf s" "t < slot_count s" "l < length (k_locks s)"
  shows "k_locks (lock_waiter_remove t s) ! l = (k_locks s ! l)\<lparr>l_waiters := removeAll t (l_waiters (k_locks s ! l))\<rparr>"
proof (cases "t_waiting_lock (tsk s t)")
  case None
  then have "t \<notin> set (l_waiters (k_locks s ! l))" using lock_wf_queue(2) [OF assms(1,3)] by simp
  then show ?thesis using None by (simp add: lock_waiter_remove_def removeAll_id)
next
  case (Some m)
  have "l \<noteq> m \<Longrightarrow> t \<notin> set (l_waiters (k_locks s ! l))"
    using lock_wf_queue(2) [OF assms(1,3)] Some by simp
  then show ?thesis using Some assms(3) lock_wf_queue(1) [OF assms(1,3)]
    by (cases "l = m") (auto simp: lock_waiter_remove_def distinct_remove1_removeAll removeAll_id)
qed

lemma lock_wf_remove:
  assumes wf: "lock_wf s" and t: "t < slot_count s"
  shows "lock_wf (lock_waiter_remove t s)"
proof -
  have "distinct (removeAll t (l_waiters (k_locks s ! l)))" if "l < length (k_locks s)" for l
    using lock_wf_queue(1) [OF wf that] by (rule distinct_removeAll)
  then show ?thesis
    using wf t lock_waiter_remove_queue [OF wf t]
    unfolding lock_wf_def by (auto simp: tsk_lock_waiter_remove)
qed

text \<open>Updates that the invariant does not read.\<close>

lemma lock_wf_cong:
  assumes "k_locks s' = k_locks s" "slot_count s' = slot_count s"
    "\<And>t. t < slot_count s \<Longrightarrow> t_waiting_lock (tsk s' t) = t_waiting_lock (tsk s t)"
  shows "lock_wf s' = lock_wf s"
  by (simp add: lock_wf_def assms cong: conj_cong)

lemma lock_wf_wake_frame:
  assumes "wake_frame s s'" shows "lock_wf s' = lock_wf s"
  using assms by (intro lock_wf_cong) (auto simp: wake_frame_def same_size_def dest: id_viewD(7))

lemma lock_wf_add:
  assumes wf: "lock_wf s" and t: "t < slot_count s" and l: "l < length (k_locks s)"
  shows "lock_wf (lock_waiter_add l t s)"
    and "l_waiters (k_locks (lock_waiter_add l t s) ! l)
        = (if t \<in> set (l_waiters (k_locks s ! l)) then l_waiters (k_locks s ! l) else l_waiters (k_locks s ! l) @ [t])"
    and "k_locks (lock_waiter_add l t s) ! l = (k_locks s ! l)\<lparr>l_waiters := l_waiters (k_locks (lock_waiter_add l t s) ! l)\<rparr>"
    and "t_waiting_lock (tsk (lock_waiter_add l t s) t) = Some l"
proof -
  let ?r = "lock_waiter_remove t s"
  have rem: "(if t_waiting_lock (tsk s t) \<noteq> None then ?r else s) = ?r"
    by (simp add: lock_waiter_remove_def)
  have mem: "t \<in> set (l_waiters (k_locks s ! l)) \<longleftrightarrow> t_waiting_lock (tsk s t) = Some l"
    using lock_wf_queue(2) [OF wf l] t by simp
  show "t_waiting_lock (tsk (lock_waiter_add l t s) t) = Some l"
    using t unfolding lock_waiter_add_def rem by (simp add: Let_def)
  show q: "l_waiters (k_locks (lock_waiter_add l t s) ! l)
        = (if t \<in> set (l_waiters (k_locks s ! l)) then l_waiters (k_locks s ! l) else l_waiters (k_locks s ! l) @ [t])"
    using l lock_waiter_remove_queue [OF wf t l] mem
    unfolding lock_waiter_add_def rem by (simp add: Let_def removeAll_id)
  show "k_locks (lock_waiter_add l t s) ! l = (k_locks s ! l)\<lparr>l_waiters := l_waiters (k_locks (lock_waiter_add l t s) ! l)\<rparr>"
    using l lock_waiter_remove_queue [OF wf t l] unfolding lock_waiter_add_def rem by (simp add: Let_def)
  show "lock_wf (lock_waiter_add l t s)"
  proof (cases "t_waiting_lock (tsk s t) = Some l")
    case True then show ?thesis using wf by (simp add: lock_waiter_add_def)
  next
    case False
    let ?a = "upd_lock l (\<lambda>k. k\<lparr>l_waiters := l_waiters k @ [t]\<rparr>)
              (upd_task t (\<lambda>k. k\<lparr>t_waiting_lock := Some l\<rparr>) ?r)"
    have wr: "lock_wf ?r" using wf t by (rule lock_wf_remove)
    have notin: "t \<notin> set (l_waiters (k_locks ?r ! m))" if "m < length (k_locks s)" for m
      using lock_waiter_remove_queue [OF wf t that] by simp
    have "lock_wf ?a"
      unfolding lock_wf_def
    proof (intro conjI allI impI)
      fix m assume m: "m < length (k_locks ?a)"
      then have m': "m < length (k_locks ?r)" by simp
      note old = lock_wf_queue [OF wr m'] notin [of m]
      show "distinct (l_waiters (k_locks ?a ! m))"
        using old m' l by (auto simp: nth_list_update_if)
      show "(u \<in> set (l_waiters (k_locks ?a ! m))) = (u < slot_count ?a \<and> t_waiting_lock (tsk ?a u) = Some m)" for u
        using old(2) [of u] notin m' l t by (auto simp: nth_list_update_if)
      show "l_locked (k_locks ?a ! m) = (l_owner (k_locks ?a ! m) \<noteq> None)"
        using wr m' l by (auto simp: lock_wf_def nth_list_update_if)
    next
      fix u m assume "u < slot_count ?a" "t_waiting_lock (tsk ?a u) = Some m"
      then show "m < length (k_locks ?a)"
        using lock_wf_waiting [OF wr, of u m] l t by (auto simp: nth_list_update_if split: if_splits)
    qed
    then show ?thesis using False unfolding lock_waiter_add_def rem by (simp only: if_False Let_def)
  qed
qed

lemma sched_wf_lock_waiter_remove [inv_intros]: "sched_wf s \<Longrightarrow> sched_wf (lock_waiter_remove t s)"
  by (auto simp: lock_waiter_remove_def sched_view_def intro!: sched_wf_upd_task split: option.splits)

lemma sched_wf_lock_waiter_add [inv_intros]: "sched_wf s \<Longrightarrow> sched_wf (lock_waiter_add l t s)"
  by (auto simp: lock_waiter_add_def sched_view_def Let_def intro!: sched_wf_upd_task sched_wf_lock_waiter_remove)

lemma lock_wf_owner:
  assumes "lock_wf s" "\<And>k. l_waiters (f k) = l_waiters k" "\<And>k. l_locked (f k) = (l_owner (f k) \<noteq> None)"
  shows "lock_wf (upd_lock l f s)"
  using assms unfolding lock_wf_def by (auto simp: nth_list_update_if)

section \<open>Properties\<close>

text \<open>C32: \<open>lock\<close> gives the lock to the caller exactly when nobody holds it, and takes the caller out of
  every waiter queue; when it is held the owner stays, the caller is queued once, behind all earlier
  waiters, and goes round the loop again after blocking (or at once when a wake-up token was left).\<close>

theorem lock_grants_or_queues:
  assumes wf: "lock_wf s" and self: "current_tid s < slot_count s" and l: "l < length (k_locks s)"
    and r: "lock l s = (s', r)"
  shows "lock_wf s' \<and>
    (if l_locked (k_locks s ! l)
     then r \<in> {Switch, Retry} \<and> l_owner (k_locks s' ! l) = l_owner (k_locks s ! l) \<and> l_locked (k_locks s' ! l)
       \<and> l_waiters (k_locks s' ! l) = (if current_tid s \<in> set (l_waiters (k_locks s ! l))
            then l_waiters (k_locks s ! l) else l_waiters (k_locks s ! l) @ [current_tid s])
     else r = Done () \<and> l_owner (k_locks s' ! l) = Some (current_tid s) \<and> l_locked (k_locks s' ! l)
       \<and> (\<forall>m < length (k_locks s). l_waiters (k_locks s' ! m) = removeAll (current_tid s) (l_waiters (k_locks s ! m))))"
proof (cases "l_locked (k_locks s ! l)")
  case True
  let ?a = "lock_waiter_add l (current_tid s) s"
  note a = lock_wf_add [OF wf self l]
  have size: "slot_count ?a = slot_count s" "current_tid ?a = current_tid s"
    by (simp_all add: lock_waiter_add_def Let_def)
  let ?b = "mtask_run_now (l_owner (k_locks s ! l)) ?a"
  have fb: "wake_frame ?a ?b" by (rule wake_frame_run_now)
  have cur: "current_tid (mtask_run_now obj u) = current_tid u" for obj u
    by (auto simp: mtask_run_now_def current_tid_def current_task_def scheduler_request_def
        smp_send_reschedule_def nth_list_update_if split: option.splits)
  have "current_tid ?b < slot_count ?b" using self size cur wake_frameD(1) [OF fb] by simp
  from wake_frame_fall_blocked [OF this]
  have fc: "wake_frame ?a (fst (task_fall_blocked_reason WAITING WR_LOCK ?b))"
    by (rule wake_frame_trans [OF fb])
  have s': "s' = fst (task_fall_blocked_reason WAITING WR_LOCK ?b)"
    using arg_cong [OF r, of fst] True by (simp add: lock_def Let_def)
  have "r \<in> {Switch, Retry}"
    using arg_cong [OF r, of snd] True
    by (auto simp: lock_def Let_def ipc_wait_loop_def split: prod.splits outcome.splits)
  moreover have "k_locks s' = k_locks ?a" using fc by (simp add: s' wake_frame_def)
  moreover have "lock_wf s'" using fc a(1) by (simp add: s' lock_wf_wake_frame)
  moreover have "l_owner (k_locks ?a ! l) = l_owner (k_locks s ! l)" "l_locked (k_locks ?a ! l)"
    using True by (subst a(3), simp)+
  ultimately show ?thesis using True a(2) by simp
next
  case False
  let ?r = "lock_waiter_remove (current_tid s) s"
  have s': "s' = upd_lock l (\<lambda>k. k\<lparr>l_locked := True, l_owner := Some (current_tid s)\<rparr>) ?r" "r = Done ()"
    using r False by (auto simp: lock_def Let_def)
  have "lock_wf s'" unfolding s'(1) by (rule lock_wf_owner [OF lock_wf_remove [OF wf self]]) auto
  then show ?thesis using False l lock_waiter_remove_queue [OF wf self]
    by (auto simp: s' nth_list_update_if)
qed

text \<open>Only the owner can unlock; releasing hands over in arrival order: the first waiter leaves the queue,
  is made runnable and is asked to run next, the others keep their places, and a cancelled task stands
  in no queue.  The queues and the run queues stay well formed.\<close>

theorem unlock_wakes_first:
  assumes wf: "lock_wf s" "sched_wf s" and l: "l < length (k_locks s)" and t: "t < slot_count s"
    and r: "unlock l s = (s', r)"
  shows "lock_wf s' \<and> sched_wf s' \<and> lock_wf (lock_cancel_task t s)
    \<and> (\<forall>m < length (k_locks s). t \<notin> set (l_waiters (k_locks (lock_cancel_task t s) ! m)))
    \<and> (if l_owner (k_locks s ! l) \<noteq> Some (current_tid s) then s' = s
       else l_owner (k_locks s' ! l) = None \<and> \<not> l_locked (k_locks s' ! l)
         \<and> l_waiters (k_locks s' ! l) = tl (l_waiters (k_locks s ! l))
         \<and> (\<forall>w ws. l_waiters (k_locks s ! l) = w # ws \<longrightarrow>
              r = SwitchThen () \<and> t_waiting_lock (tsk s' w) = None
              \<and> (t_state (tsk s w) \<in> {WAITING, SLEEPING} \<longrightarrow> t_state (tsk s' w) = RUNNING)
              \<and> c_next (cpu_of s' (t_cpu (tsk s' w))) = Some w))"
proof -
  have cancel: "lock_wf (lock_cancel_task t s)"
    "\<forall>m < length (k_locks s). t \<notin> set (l_waiters (k_locks (lock_cancel_task t s) ! m))"
    using lock_wf_remove [OF wf(1) t] lock_waiter_remove_queue [OF wf(1) t]
    by (auto simp: lock_cancel_task_def)
  let ?f = "\<lambda>k. k\<lparr>l_locked := False, l_owner := None\<rparr>"
  let ?u = "upd_lock l ?f s"
  have wu: "lock_wf ?u" by (rule lock_wf_owner [OF wf(1)]) auto
  have qu: "k_locks ?u ! l = ?f (k_locks s ! l)" using l by simp
  show ?thesis
  proof (cases "l_owner (k_locks s ! l) = Some (current_tid s)")
    case False then show ?thesis using r wf cancel by (simp add: unlock_def)
  next
    case own: True
    show ?thesis
    proof (cases "l_waiters (k_locks s ! l)")
      case Nil
      then have "s' = ?u" using r own qu by (simp add: unlock_def Let_def)
      then show ?thesis using own Nil wu wf(2) cancel l by simp
    next
      case (Cons w ws)
      have w: "w < slot_count s" "w \<notin> set ws" using lock_wf_queue [OF wf(1) l] Cons by force+
      let ?r = "lock_waiter_remove w ?u"
      have s': "s' = mtask_run_now (Some w) (task_run w ?r)" "r = SwitchThen ()"
        using r own qu Cons by (auto simp: unlock_def Let_def)
      have w': "w < slot_count ?u" "w < slot_count ?r" using w by simp_all
      have fr: "wake_frame ?r s'" unfolding s'
        by (rule wake_frame_trans [OF wake_frame_task_run wake_frame_run_now]) (simp add: w)
      have lk: "k_locks s' ! l = (k_locks ?u ! l)\<lparr>l_waiters := removeAll w (l_waiters (k_locks ?u ! l))\<rparr>"
        using fr lock_waiter_remove_queue [OF wu w'(1), of l] l by (simp add: wake_frame_def)
      have q: "l_waiters (k_locks s' ! l) = ws" "l_owner (k_locks s' ! l) = None" "\<not> l_locked (k_locks s' ! l)"
        using lk qu Cons w(2) by (simp_all add: removeAll_id)
      have wr: "lock_wf s'" using lock_wf_wake_frame [OF fr] lock_wf_remove [OF wu w'(1)] by simp
      have sr: "sched_wf ?r" by (rule sched_wf_lock_waiter_remove) (simp add: wf(2))
      then have st: "sched_wf (task_run w ?r)" using w'(2) by (rule sched_wf_task_run)
      then have ss: "sched_wf s'" unfolding s' by (rule sched_wf_run_now) (simp add: ptr_ok_def w)
      have c: "t_cpu (tsk (task_run w ?r) w) < cpu_total (task_run w ?r)"
        by (rule sched_wf_cpu_index [OF st]) (simp add: w)
      have "tsk s' w = tsk (task_run w ?r) w" using c by (simp add: s' mtask_run_now_def)
      moreover have "t_state (tsk ?r w) = t_state (tsk s w)" "t_waiting_lock (tsk ?r w) = None"
        using tsk_lock_waiter_remove [OF w'(1), of w] by simp_all
      moreover have "t_state (tsk (task_run w ?r) w) = RUNNING" if "t_state (tsk ?r w) \<in> {WAITING, SLEEPING}"
        using that w'(2) by (auto simp: task_run_def Let_def tsk_scheduler_place_task tsk_task_set_state)
      moreover have "t_waiting_lock (tsk s' w) = t_waiting_lock (tsk ?r w)"
        using fr by (intro id_viewD(7)) (simp add: wake_frame_def)
      moreover have "c_next (cpu_of s' (t_cpu (tsk (task_run w ?r) w))) = Some w"
        using c by (auto simp: s' mtask_run_now_def scheduler_request_def nth_list_update_if)
      ultimately show ?thesis using own Cons q wr ss cancel s'(2) by auto
    qed
  qed
qed

definition lock_example :: kernel where
  "lock_example = upd_task 3 (\<lambda>k. k\<lparr>t_waiting_lock := Some 1\<rparr>) sched_example
     \<lparr>k_locks := [\<lparr>l_owner = None, l_locked = False, l_waiters = []\<rparr>,
        \<lparr>l_owner = Some 0, l_locked = True, l_waiters = [3]\<rparr>]\<rparr>"

lemma lock_example_facts:
  "lock_wf lock_example" "sched_wf lock_example" "current_tid lock_example = 0"
  "slot_count lock_example = 4" "length (k_locks lock_example) = 2"
  "l_owner (k_locks lock_example ! 1) = Some 0" "l_waiters (k_locks lock_example ! 1) = [3]"
  "\<not> l_locked (k_locks lock_example ! 0)" "t_state (tsk lock_example 3) = SLEEPING"
proof -
  have "sched_wf (upd_task 3 (\<lambda>k. k\<lparr>t_waiting_lock := Some 1\<rparr>) sched_example)"
    by (rule sched_wf_upd_task [OF sched_example_wf]) (simp add: sched_view_def)
  then show "sched_wf lock_example" unfolding lock_example_def by (subst sched_wf_cong) auto
  have n: "slot_count sched_example = 4" and w: "\<forall>t<4. t_waiting_lock (tsk sched_example t) = None"
    by (auto simp: example_defs less_Suc_eq numeral_eq_Suc)
  show "lock_wf lock_example"
    using n w by (auto simp: lock_wf_def lock_example_def less_Suc_eq numeral_2_eq_2 nth_list_update_if)
qed (simp_all add: lock_example_def example_defs current_tid_def current_task_def)

lemma lock_grants_or_queues_witness:
  "l_owner (k_locks (fst (lock 0 lock_example)) ! 0) = Some 0"
  using lock_grants_or_queues [OF lock_example_facts(1), of 0 "fst (lock 0 lock_example)" "snd (lock 0 lock_example)"]
  by (simp add: lock_example_facts)

lemma unlock_wakes_first_witness:
  "t_state (tsk (fst (unlock 1 lock_example)) 3) = RUNNING \<and> l_waiters (k_locks (fst (unlock 1 lock_example)) ! 1) = []"
  using unlock_wakes_first [OF lock_example_facts(1,2), of 1 3 "fst (unlock 1 lock_example)" "snd (unlock 1 lock_example)"]
  by (simp add: lock_example_facts del: One_nat_def)

end
