(* ===== verification/Futex.thy ===== *)
theory Futex
  imports Lock
begin

text \<open>
  The futexes of \<^verbatim>\<open>kernel/dos/task/futex.c\<close> on the 64-bit target (\<open>uintptr_t\<close> is \<open>u64\<close>).  A wait record
  lives on the stack of the one blocked call of its task, so a bucket and the deadline list are lists of
  tids and \<open>k_futex_records\<close> gives the record of a tid.  What the code reads elsewhere is an argument:
  whether the word is readable, its value, and the monotonic clock.
\<close>

section \<open>Operations\<close>

abbreviation "FUTEX_WAIT \<equiv> (0 :: nat)"
abbreviation "FUTEX_WAKE \<equiv> (1 :: nat)"
abbreviation "FUTEX_OPERATION_COUNT \<equiv> (2 :: nat)"
abbreviation "FUTEX_BUCKET_COUNT \<equiv> (64 :: nat)"
abbreviation "UINT64_MAX \<equiv> (-1 :: u64)"

abbreviation "FUTEX_OK \<equiv> (0 :: int)"
abbreviation "FUTEX_INTERRUPTED \<equiv> (-4 :: int)"
abbreviation "FUTEX_CHANGED \<equiv> (-11 :: int)"
abbreviation "FUTEX_FAULT \<equiv> (-14 :: int)"
abbreviation "FUTEX_INVALID \<equiv> (-22 :: int)"
abbreviation "FUTEX_TIMED_OUT \<equiv> (-110 :: int)"

text \<open>Unlinking a record from its bucket and from the deadline list, whichever it is in.\<close>

definition futex_remove :: "nat \<Rightarrow> kernel \<Rightarrow> kernel" where
  "futex_remove t s =
     s\<lparr>k_futex_buckets := map (removeAll t) (k_futex_buckets s),
       k_futex_deadlines := removeAll t (k_futex_deadlines s)\<rparr>"

definition futex_set_result :: "nat \<Rightarrow> int \<Rightarrow> kernel \<Rightarrow> kernel" where
  "futex_set_result t r s =
     s\<lparr>k_futex_records := (k_futex_records s)(t := (k_futex_records s t)\<lparr>fw_result := r\<rparr>)\<rparr>"

definition futex_bucket :: "u64 \<Rightarrow> nat \<Rightarrow> nat" where
  "futex_bucket address tgid =
     (let hash = drop_bit 2 address XOR (of_nat tgid * 2654435761);
          hash = hash XOR drop_bit 16 hash
      in unat hash mod FUTEX_BUCKET_COUNT)"

definition futex_expired :: "kernel \<Rightarrow> u64 \<Rightarrow> nat \<Rightarrow> bool" where
  "futex_expired s now t \<longleftrightarrow>
     fw_deadline_ns (k_futex_records s t) \<noteq> UINT64_MAX \<and> now \<ge> fw_deadline_ns (k_futex_records s t)"

definition futex_matches :: "kernel \<Rightarrow> nat \<Rightarrow> nat \<Rightarrow> nat \<Rightarrow> bool" where
  "futex_matches s tgid address t \<longleftrightarrow>
     t_tgid (tsk s t) = tgid \<and> fw_address (k_futex_records s t) = address"

text \<open>The waking loop over the rest of the bucket.\<close>

primrec futex_wake_scan ::
  "nat list \<Rightarrow> nat \<Rightarrow> nat \<Rightarrow> nat \<Rightarrow> u64 \<Rightarrow> nat \<Rightarrow> kernel \<Rightarrow> kernel \<times> nat" where
  "futex_wake_scan [] tgid address val now woken s = (s, woken)"
| "futex_wake_scan (t # ts) tgid address val now woken s =
     (if woken \<ge> val then (s, woken)
      else if futex_matches s tgid address t then
        (let s = futex_remove t s;
             expired = futex_expired s now t;
             s = futex_set_result t (if expired then FUTEX_TIMED_OUT else FUTEX_OK) s;
             woken = woken + (if expired then 0 else 1)
         in futex_wake_scan ts tgid address val now woken (task_run t s))
      else futex_wake_scan ts tgid address val now woken s)"

text \<open>Inserting into the deadline list behind every record that is not later.\<close>

fun futex_deadline_insert :: "(nat \<Rightarrow> futex_waiter) \<Rightarrow> nat \<Rightarrow> nat list \<Rightarrow> nat list" where
  "futex_deadline_insert recs t [] = [t]"
| "futex_deadline_insert recs t (u # us) =
     (if fw_deadline_ns (recs u) \<le> fw_deadline_ns (recs t)
      then u # futex_deadline_insert recs t us else t # u # us)"

definition futex_enqueue :: "nat \<Rightarrow> nat \<Rightarrow> u64 \<Rightarrow> u64 \<Rightarrow> kernel \<Rightarrow> kernel" where
  "futex_enqueue self b address deadline_ns s =
     (let s = s\<lparr>k_futex_records := (k_futex_records s)(self :=
              \<lparr>fw_address = unat address, fw_deadline_ns = deadline_ns, fw_result = FUTEX_INTERRUPTED\<rparr>),
            k_futex_buckets := (k_futex_buckets s)[b := self # k_futex_buckets s ! b]\<rparr>
      in if deadline_ns \<noteq> UINT64_MAX
         then s\<lparr>k_futex_deadlines := futex_deadline_insert (k_futex_records s) self (k_futex_deadlines s)\<rparr>
         else s)"

text \<open>What a waiter does when it runs again: it leaves both lists and returns its result.\<close>

definition futex_resume :: "nat \<Rightarrow> kernel \<Rightarrow> kernel \<times> int" where
  "futex_resume self s = (futex_remove self s, fw_result (k_futex_records s self))"

definition futex_operation ::
  "nat \<Rightarrow> u64 \<Rightarrow> u32 \<Rightarrow> u64 \<Rightarrow> bool \<Rightarrow> u32 \<Rightarrow> u64 \<Rightarrow> kernel \<Rightarrow> kernel \<times> int outcome" where
  "futex_operation operation address val deadline_ns readable word now s =
     (if operation \<ge> FUTEX_OPERATION_COUNT \<or> address AND 3 \<noteq> 0
         \<or> (operation = FUTEX_WAKE \<and> (unat val > INT_MAX \<or> deadline_ns \<noteq> 0))
      then (s, Done FUTEX_INVALID)
      else if \<not> readable then (s, Done FUTEX_FAULT)
      else
        (let self = current_tid s; tgid = t_tgid (tsk s self); b = futex_bucket address tgid in
         if operation = FUTEX_WAKE then
           (let (s, woken) = futex_wake_scan (k_futex_buckets s ! b) tgid (unat address) (unat val) now 0 s
            in (s, Done (int woken)))
         else if word \<noteq> val then (s, Done FUTEX_CHANGED)
         else if deadline_ns \<noteq> UINT64_MAX \<and> now \<ge> deadline_ns then (s, Done FUTEX_TIMED_OUT)
         else if t_pending (tsk s self) AND NOT (t_blocked (tsk s self)) \<noteq> 0 then (s, Done FUTEX_INTERRUPTED)
         else
           (case task_fall_blocked_reason WAITING WR_FUTEX (futex_enqueue self b address deadline_ns s) of
              (s, Done _) \<Rightarrow> (let (s, r) = futex_resume self s in (s, Done r))
            | (s, _) \<Rightarrow> (s, Switch))))"

text \<open>The loop of \<open>futex_tick\<close>; each round takes one record off the list, so its length is enough fuel.\<close>

primrec futex_expire :: "nat \<Rightarrow> u64 \<Rightarrow> kernel \<Rightarrow> kernel" where
  "futex_expire 0 now s = s"
| "futex_expire (Suc n) now s =
     (case k_futex_deadlines s of
        [] \<Rightarrow> s
      | t # _ \<Rightarrow>
          if fw_deadline_ns (k_futex_records s t) \<le> now
          then futex_expire n now (task_run t (futex_set_result t FUTEX_TIMED_OUT (futex_remove t s)))
          else s)"

definition futex_tick :: "u64 \<Rightarrow> kernel \<Rightarrow> kernel" where
  "futex_tick now s = futex_expire (length (k_futex_deadlines s)) now s"

definition futex_cancel_task :: "nat \<Rightarrow> kernel \<Rightarrow> kernel" where
  "futex_cancel_task task s =
     (if \<exists>b\<in>set (k_futex_buckets s). task \<in> set b then futex_remove task s else s)"

section \<open>What waking does to the lists\<close>

lemma futex_remove_simps [simp]:
  "k_slots (futex_remove t s) = k_slots s" "k_cpus (futex_remove t s) = k_cpus s"
  "k_this_cpu (futex_remove t s) = k_this_cpu s" "k_futex_records (futex_remove t s) = k_futex_records s"
  "k_futex_buckets (futex_remove t s) = map (removeAll t) (k_futex_buckets s)"
  "k_futex_deadlines (futex_remove t s) = removeAll t (k_futex_deadlines s)"
  by (simp_all add: futex_remove_def)

lemma futex_set_result_simps [simp]:
  "k_slots (futex_set_result t r s) = k_slots s" "k_cpus (futex_set_result t r s) = k_cpus s"
  "k_this_cpu (futex_set_result t r s) = k_this_cpu s"
  "k_futex_records (futex_set_result t r s) = (k_futex_records s)(t := (k_futex_records s t)\<lparr>fw_result := r\<rparr>)"
  "k_futex_buckets (futex_set_result t r s) = k_futex_buckets s"
  "k_futex_deadlines (futex_set_result t r s) = k_futex_deadlines s"
  by (simp_all add: futex_set_result_def)

lemma sched_futex_fields [simp]:
  "k_futex_buckets (scheduler_remove t s) = k_futex_buckets s" "k_futex_deadlines (scheduler_remove t s) = k_futex_deadlines s"
  "k_futex_records (scheduler_remove t s) = k_futex_records s"
  "k_futex_buckets (scheduler_insert t s) = k_futex_buckets s" "k_futex_deadlines (scheduler_insert t s) = k_futex_deadlines s"
  "k_futex_records (scheduler_insert t s) = k_futex_records s"
  "k_futex_buckets (scheduler_request c s) = k_futex_buckets s" "k_futex_deadlines (scheduler_request c s) = k_futex_deadlines s"
  "k_futex_records (scheduler_request c s) = k_futex_records s"
  by (simp_all add: scheduler_remove_def scheduler_insert_def scheduler_request_def smp_send_reschedule_def)

lemma task_run_futex [simp]:
  "k_futex_buckets (task_run t s) = k_futex_buckets s" "k_futex_deadlines (task_run t s) = k_futex_deadlines s"
  "k_futex_records (task_run t s) = k_futex_records s"
  by (simp_all add: task_run_def task_set_state_def scheduler_place_task_def Let_def)

lemma sched_wf_futex [simp]:
  "sched_wf (futex_remove t s) = sched_wf s" "sched_wf (futex_set_result t r s) = sched_wf s"
  by (rule sched_wf_cong, simp_all)+

text \<open>The records \<open>ps\<close> leave both lists, each with its result, and their tasks are woken.\<close>

definition futex_woken :: "kernel \<Rightarrow> (nat \<Rightarrow> int) \<Rightarrow> nat list \<Rightarrow> kernel \<Rightarrow> bool" where
  "futex_woken s res ps s' \<longleftrightarrow>
     k_futex_buckets s' = map (filter (\<lambda>t. t \<notin> set ps)) (k_futex_buckets s)
     \<and> k_futex_deadlines s' = filter (\<lambda>t. t \<notin> set ps) (k_futex_deadlines s)
     \<and> (\<forall>t. k_futex_records s' t = (if t \<in> set ps then (k_futex_records s t)\<lparr>fw_result := res t\<rparr> else k_futex_records s t))
     \<and> (\<forall>t. t \<notin> set ps \<longrightarrow> tsk s' t = tsk s t) \<and> (\<forall>t. t_tgid (tsk s' t) = t_tgid (tsk s t))
     \<and> (\<forall>t\<in>set ps. t_state (tsk s t) \<in> {WAITING, SLEEPING} \<longrightarrow> t_state (tsk s' t) = RUNNING)
     \<and> slot_count s' = slot_count s \<and> (sched_wf s \<longrightarrow> sched_wf s')"

lemma task_run_blocked:
  "t < slot_count s \<Longrightarrow> t_state (tsk s t) \<in> {WAITING, SLEEPING} \<Longrightarrow> t_state (tsk (task_run t s) t) = RUNNING"
  by (auto simp: task_run_def Let_def tsk_scheduler_place_task tsk_task_set_state)

lemma futex_woken_refl: "futex_woken s res [] s"
proof -
  have "map (filter (\<lambda>t. True)) xss = xss" for xss :: "nat list list" by (induction xss) auto
  then show ?thesis by (simp add: futex_woken_def)
qed

lemma futex_woken_step:
  assumes t: "t < slot_count s" and nt: "t \<notin> set ps"
    and w: "futex_woken (task_run t (futex_set_result t (res t) (futex_remove t s))) res ps s'"
  shows "futex_woken s res (t # ps) s'"
proof -
  let ?m = "futex_set_result t (res t) (futex_remove t s)"
  have tm: "t < slot_count ?m" using t by simp
  have other: "tsk (task_run t ?m) u = tsk s u" if "u \<noteq> t" for u
    using tsk_task_run_other [OF that tm] by simp
  have tg: "t_tgid (tsk (task_run t ?m) u) = t_tgid (tsk s u)" for u
    using wake_frame_task_run [OF tm] by (auto simp: wake_frame_def dest!: spec [of _ u] id_viewD(4))
  have st: "t_state (tsk s t) \<in> {WAITING, SLEEPING} \<Longrightarrow> t_state (tsk (task_run t ?m) t) = RUNNING"
    using task_run_blocked [OF tm] by simp
  have keep: "tsk s' t = tsk (task_run t ?m) t" using w nt by (simp add: futex_woken_def)
  have wf: "sched_wf s \<Longrightarrow> sched_wf (task_run t ?m)" using sched_wf_task_run [OF _ tm] by simp
  have f: "filter (\<lambda>u. u \<notin> set ps) (removeAll t xs) = filter (\<lambda>u. u \<noteq> t \<and> u \<notin> set ps) xs" for xs
    by (induction xs) auto
  have "t_state (tsk s' u) = RUNNING" if "u \<in> set (t # ps)" "t_state (tsk s u) \<in> {WAITING, SLEEPING}" for u
  proof (cases "u = t")
    case True then show ?thesis using st that keep by simp
  next
    case False
    then have "u \<in> set ps" "t_state (tsk (task_run t ?m) u) \<in> {WAITING, SLEEPING}"
      using that other [OF False] by simp_all
    then show ?thesis using w unfolding futex_woken_def by blast
  qed
  moreover have "tsk s' u = tsk s u" if "u \<notin> set (t # ps)" for u
    using that w other [of u] by (simp add: futex_woken_def)
  ultimately show ?thesis
    using w tg wf nt unfolding futex_woken_def by (auto simp: f comp_def)
qed

section \<open>The invariant\<close>

definition futex_wf :: "kernel \<Rightarrow> bool" where
  "futex_wf s \<longleftrightarrow>
     (\<forall>b\<in>set (k_futex_buckets s). distinct b) \<and> (\<forall>b\<in>set (k_futex_buckets s). \<forall>t\<in>set b. t < slot_count s)
     \<and> distinct (k_futex_deadlines s) \<and> (\<forall>t\<in>set (k_futex_deadlines s). t < slot_count s)
     \<and> sorted (map (\<lambda>t. fw_deadline_ns (k_futex_records s t)) (k_futex_deadlines s))
     \<and> length (k_futex_buckets s) = FUTEX_BUCKET_COUNT"

lemma futex_wf_woken:
  assumes wf: "futex_wf s" and w: "futex_woken s res ps s'"
  shows "futex_wf s'"
proof -
  have dl: "fw_deadline_ns (k_futex_records s' t) = fw_deadline_ns (k_futex_records s t)" for t
    using w by (simp add: futex_woken_def)
  have "sorted (map (\<lambda>t. fw_deadline_ns (k_futex_records s t)) (filter (\<lambda>t. t \<notin> set ps) (k_futex_deadlines s)))"
    using wf by (simp add: futex_wf_def sorted_filter)
  then show ?thesis using wf w unfolding futex_wf_def dl
    by (auto simp: futex_woken_def)
qed

text \<open>The matching waiters a wake visits: up to \<open>val\<close> that have not expired, and the expired before them.\<close>

primrec wake_prefix :: "(nat \<Rightarrow> bool) \<Rightarrow> nat \<Rightarrow> nat list \<Rightarrow> nat list" where
  "wake_prefix expired n [] = []"
| "wake_prefix expired n (t # ts) =
     (if n = 0 then [] else t # wake_prefix expired (if expired t then n else n - 1) ts)"

lemma wake_prefix_0 [simp]: "wake_prefix e 0 ts = []" by (cases ts) auto

lemma wake_prefix_set: "set (wake_prefix e n ts) \<subseteq> set ts"
  by (induction ts arbitrary: n) auto

lemma wake_prefix_count: "length (filter (\<lambda>t. \<not> e t) (wake_prefix e n ts)) \<le> n"
proof (induction ts arbitrary: n)
  case (Cons t ts)
  from Cons.IH [of "n - 1"] Cons.IH [of n] show ?case by auto
qed simp

lemma wake_prefix_all:
  "length (filter (\<lambda>t. \<not> e t) (wake_prefix e n ts)) < n \<Longrightarrow> wake_prefix e n ts = ts"
proof (induction ts arbitrary: n)
  case (Cons t ts)
  from Cons.IH [of "n - 1"] Cons.IH [of n] Cons.prems show ?case by (auto split: if_splits)
qed simp

lemma futex_wake_scan_effect:
  fixes s :: kernel and now :: u64
  defines "res \<equiv> \<lambda>t. if futex_expired s now t then FUTEX_TIMED_OUT else FUTEX_OK"
  assumes "distinct ts" "\<forall>t\<in>set ts. t < slot_count s" "woken \<le> val"
    "futex_wake_scan ts tgid address val now woken s = (s', n)"
  shows "futex_woken s res (wake_prefix (futex_expired s now) (val - woken) (filter (futex_matches s tgid address) ts)) s'
    \<and> n = woken + length (filter (\<lambda>t. \<not> futex_expired s now t)
          (wake_prefix (futex_expired s now) (val - woken) (filter (futex_matches s tgid address) ts)))"
  using assms(2-)
  unfolding res_def
proof (induction ts arbitrary: s woken)
  case Nil then show ?case by (simp add: futex_woken_refl)
next
  case (Cons t ts)
  show ?case
  proof (cases "woken \<ge> val")
    case True then show ?thesis using Cons.prems by (simp add: futex_woken_refl)
  next
    case False
    show ?thesis
    proof (cases "futex_matches s tgid address t")
      case False
      with Cons.IH [of s woken] Cons.prems \<open>\<not> val \<le> woken\<close> show ?thesis by simp
    next
      case match: True
      let ?e = "futex_expired s now t"
      let ?m = "futex_set_result t (if ?e then FUTEX_TIMED_OUT else FUTEX_OK) (futex_remove t s)"
      let ?u = "task_run t ?m" and ?w = "woken + (if ?e then 0 else 1)"
      have t: "t < slot_count s" "t < slot_count ?m" "t \<notin> set ts" "distinct ts" using Cons.prems by simp_all
      have tg: "t_tgid (tsk ?u x) = t_tgid (tsk s x)" for x
        using wake_frame_task_run [OF t(2)] by (auto simp: wake_frame_def dest!: spec [of _ x] id_viewD(4))
      have exp: "futex_expired ?u now = futex_expired s now"
        by (rule ext) (simp add: futex_expired_def)
      have mat: "futex_matches ?u tgid address = futex_matches s tgid address"
        by (rule ext) (simp add: futex_matches_def tg)
      have "futex_expired (futex_remove t s) now t = ?e" by (simp add: futex_expired_def)
      then have eq: "futex_wake_scan ts tgid address val now ?w ?u = (s', n)"
        using Cons.prems(4) match False by (simp add: Let_def)
      have le: "?w \<le> val" using False by simp
      have "\<forall>t\<in>set ts. t < slot_count ?u" using Cons.prems(2) by simp
      from Cons.IH [OF t(4) this le eq]
      have ih: "futex_woken ?u (\<lambda>t. if futex_expired s now t then FUTEX_TIMED_OUT else FUTEX_OK)
          (wake_prefix (futex_expired s now) (val - ?w) (filter (futex_matches s tgid address) ts)) s'"
        "n = ?w + length (filter (\<lambda>t. \<not> futex_expired s now t)
          (wake_prefix (futex_expired s now) (val - ?w) (filter (futex_matches s tgid address) ts)))"
        unfolding exp mat by blast+
      have notin: "t \<notin> set (wake_prefix (futex_expired s now) (val - ?w) (filter (futex_matches s tgid address) ts))"
        using wake_prefix_set [of "futex_expired s now" "val - ?w" "filter (futex_matches s tgid address) ts"] t(3) by auto
      have pre: "wake_prefix (futex_expired s now) (val - woken) (filter (futex_matches s tgid address) (t # ts))
        = t # wake_prefix (futex_expired s now) (val - ?w) (filter (futex_matches s tgid address) ts)"
        using match False by simp
      show ?thesis
        unfolding pre using futex_woken_step [OF t(1) notin ih(1)] ih(2) by simp
    qed
  qed
qed

lemma futex_expire_effect:
  fixes now :: u64
  assumes "futex_wf s" "length (k_futex_deadlines s) \<le> n"
  shows "futex_woken s (\<lambda>_. FUTEX_TIMED_OUT)
    (takeWhile (\<lambda>t. fw_deadline_ns (k_futex_records s t) \<le> now) (k_futex_deadlines s)) (futex_expire n now s)"
  using assms
proof (induction n arbitrary: s)
  case 0 then show ?case by (simp add: futex_woken_refl)
next
  case (Suc n)
  show ?case
  proof (cases "k_futex_deadlines s")
    case Nil then show ?thesis by (simp add: futex_woken_refl)
  next
    case (Cons t ts)
    show ?thesis
    proof (cases "fw_deadline_ns (k_futex_records s t) \<le> now")
      case False then show ?thesis using Cons by (simp add: futex_woken_refl)
    next
      case True
      let ?u = "task_run t (futex_set_result t FUTEX_TIMED_OUT (futex_remove t s))"
      have t: "t < slot_count s" "t \<notin> set ts" using Suc.prems(1) Cons by (auto simp: futex_wf_def)
      have one: "futex_woken s (\<lambda>_. FUTEX_TIMED_OUT) [t] ?u"
        using futex_woken_step [OF t(1), of "[]" "\<lambda>_. FUTEX_TIMED_OUT"] futex_woken_refl by simp
      have dl: "k_futex_deadlines ?u = ts" using Cons t(2) by (simp add: removeAll_id)
      have rec: "fw_deadline_ns (k_futex_records ?u x) = fw_deadline_ns (k_futex_records s x)" for x by simp
      have "length (k_futex_deadlines ?u) \<le> n" using dl Suc.prems(2) Cons by simp
      from Suc.IH [OF futex_wf_woken [OF Suc.prems(1) one] this]
      have ih: "futex_woken ?u (\<lambda>_. FUTEX_TIMED_OUT)
          (takeWhile (\<lambda>t. fw_deadline_ns (k_futex_records s t) \<le> now) ts) (futex_expire n now ?u)"
        unfolding dl rec .
      have "t \<notin> set (takeWhile (\<lambda>t. fw_deadline_ns (k_futex_records s t) \<le> now) ts)"
        using t(2) by (auto dest: set_takeWhileD)
      from futex_woken_step [OF t(1) this, of "\<lambda>_. FUTEX_TIMED_OUT"] ih show ?thesis
        using Cons True by simp
    qed
  qed
qed

lemma takeWhile_sorted_filter:
  fixes f :: "'a \<Rightarrow> 'b::linorder"
  shows "sorted (map f xs) \<Longrightarrow> takeWhile (\<lambda>x. f x \<le> c) xs = filter (\<lambda>x. f x \<le> c) xs"
proof (induction xs)
  case (Cons x xs)
  have "filter (\<lambda>x. f x \<le> c) xs = []" if "\<not> f x \<le> c"
    using Cons.prems that by (auto simp: filter_empty_conv)
  with Cons show ?case by auto
qed simp

lemma deadline_insert_set [simp]: "set (futex_deadline_insert recs t us) = insert t (set us)"
  by (induction recs t us rule: futex_deadline_insert.induct) auto

lemma deadline_insert_distinct: "distinct us \<Longrightarrow> t \<notin> set us \<Longrightarrow> distinct (futex_deadline_insert recs t us)"
  by (induction recs t us rule: futex_deadline_insert.induct) auto

lemma deadline_insert_sorted:
  "sorted (map (\<lambda>t. fw_deadline_ns (recs t)) us) \<Longrightarrow>
   sorted (map (\<lambda>t. fw_deadline_ns (recs t)) (futex_deadline_insert recs t us))"
  by (induction recs t us rule: futex_deadline_insert.induct) (auto simp: not_le)

definition futex_idle :: "kernel \<Rightarrow> nat \<Rightarrow> bool" where
  "futex_idle s t \<longleftrightarrow> (\<forall>b\<in>set (k_futex_buckets s). t \<notin> set b) \<and> t \<notin> set (k_futex_deadlines s)"

lemma futex_enqueue_slots [simp]:
  "k_slots (futex_enqueue a b c d s) = k_slots s" "k_cpus (futex_enqueue a b c d s) = k_cpus s"
  "k_this_cpu (futex_enqueue a b c d s) = k_this_cpu s"
  by (simp_all add: futex_enqueue_def Let_def)

lemma futex_enqueue_wf:
  assumes wf: "futex_wf s" and t: "t < slot_count s" "futex_idle s t" and b: "b < FUTEX_BUCKET_COUNT"
  shows "futex_wf (futex_enqueue t b address dl s)"
proof -
  let ?recs = "(k_futex_records s)(t := \<lparr>fw_address = unat address, fw_deadline_ns = dl, fw_result = FUTEX_INTERRUPTED\<rparr>)"
  let ?bs = "(k_futex_buckets s)[b := t # k_futex_buckets s ! b]"
  have bl: "b < length (k_futex_buckets s)" using b wf by (simp add: futex_wf_def)
  have "map (\<lambda>u. fw_deadline_ns (?recs u)) (k_futex_deadlines s)
      = map (\<lambda>u. fw_deadline_ns (k_futex_records s u)) (k_futex_deadlines s)"
    using t(2) by (auto simp: futex_idle_def)
  then have so: "sorted (map (\<lambda>u. fw_deadline_ns (?recs u)) (k_futex_deadlines s))"
    using wf by (simp only: futex_wf_def)
  have "distinct c \<and> (\<forall>u\<in>set c. u < slot_count s)" if "c \<in> set ?bs" for c
  proof -
    have "c \<in> set (k_futex_buckets s) \<or> c = t # k_futex_buckets s ! b"
      using that set_update_subset_insert [of "k_futex_buckets s" b "t # k_futex_buckets s ! b"] by blast
    moreover have "k_futex_buckets s ! b \<in> set (k_futex_buckets s)" using bl by (rule nth_mem)
    ultimately show ?thesis using wf t unfolding futex_wf_def futex_idle_def by auto
  qed
  then show ?thesis
    using wf t so deadline_insert_sorted [OF so, of t]
    unfolding futex_wf_def futex_enqueue_def Let_def
    by (auto simp: futex_idle_def deadline_insert_distinct simp del: fun_upd_apply)
qed

lemma futex_bucket_less: "futex_bucket a g < FUTEX_BUCKET_COUNT"
  by (simp add: futex_bucket_def Let_def)

section \<open>Properties\<close>

text \<open>C30: a wake removes from the caller's bucket, in queue order, the waiters of its own thread group on
  exactly this word until \<open>val\<close> of them that have not expired were found; these get \<open>FUTEX_OK\<close>, the
  expired ones met on the way \<open>FUTEX_TIMED_OUT\<close>; all of them become runnable and every other task and
  record is left alone.  The returned count is at most \<open>val\<close>, and when it is smaller no matching waiter
  is left.\<close>

theorem futex_wake_exact:
  assumes wf: "futex_wf s" "sched_wf s"
    and r: "futex_operation FUTEX_WAKE address val 0 True word now s = (s', Done n)"
    and arg: "address AND 3 = 0" "unat val \<le> INT_MAX"
  shows "futex_wf s' \<and> sched_wf s' \<and>
    (let tgid = t_tgid (tsk s (current_tid s));
         waiters = filter (futex_matches s tgid (unat address)) (k_futex_buckets s ! futex_bucket address tgid);
         woken = wake_prefix (futex_expired s now) (unat val) waiters
     in n = int (length (filter (\<lambda>t. \<not> futex_expired s now t) woken)) \<and> n \<le> int (unat val)
        \<and> (n < int (unat val) \<longrightarrow> woken = waiters)
        \<and> k_futex_buckets s' = map (filter (\<lambda>t. t \<notin> set woken)) (k_futex_buckets s)
        \<and> (\<forall>t. t \<notin> set woken \<longrightarrow> tsk s' t = tsk s t \<and> k_futex_records s' t = k_futex_records s t)
        \<and> (\<forall>t\<in>set woken. fw_result (k_futex_records s' t)
              = (if futex_expired s now t then FUTEX_TIMED_OUT else FUTEX_OK)
            \<and> (t_state (tsk s t) \<in> {WAITING, SLEEPING} \<longrightarrow> t_state (tsk s' t) = RUNNING)))"
proof -
  let ?tgid = "t_tgid (tsk s (current_tid s))"
  let ?b = "k_futex_buckets s ! futex_bucket address ?tgid"
  let ?w = "wake_prefix (futex_expired s now) (unat val) (filter (futex_matches s ?tgid (unat address)) ?b)"
  obtain m where m: "futex_wake_scan ?b ?tgid (unat address) (unat val) now 0 s = (s', m)" "n = int m"
    using r arg by (auto simp: futex_operation_def Let_def split: prod.splits)
  have mem: "?b \<in> set (k_futex_buckets s)"
    using wf(1) futex_bucket_less by (intro nth_mem) (simp add: futex_wf_def)
  then have "distinct ?b" "\<forall>t\<in>set ?b. t < slot_count s" using wf(1) by (auto simp: futex_wf_def)
  from futex_wake_scan_effect [OF this le0 m(1)]
  have e: "futex_woken s (\<lambda>t. if futex_expired s now t then FUTEX_TIMED_OUT else FUTEX_OK) ?w s'"
    "m = length (filter (\<lambda>t. \<not> futex_expired s now t) ?w)" by simp_all
  have F: "m \<le> unat val" unfolding e(2) by (rule wake_prefix_count)
  have G: "m < unat val \<longrightarrow> ?w = filter (futex_matches s ?tgid (unat address)) ?b"
    unfolding e(2) by (metis wake_prefix_all)
  have C: "k_futex_buckets s' = map (filter (\<lambda>t. t \<notin> set ?w)) (k_futex_buckets s)"
    and D: "\<forall>t. t \<notin> set ?w \<longrightarrow> tsk s' t = tsk s t \<and> k_futex_records s' t = k_futex_records s t"
    and E: "\<forall>t\<in>set ?w. fw_result (k_futex_records s' t) = (if futex_expired s now t then FUTEX_TIMED_OUT else FUTEX_OK)
      \<and> (t_state (tsk s t) \<in> {WAITING, SLEEPING} \<longrightarrow> t_state (tsk s' t) = RUNNING)"
    using e(1) unfolding futex_woken_def by simp_all
  have B: "sched_wf s'" using e(1) wf(2) by (simp add: futex_woken_def)
  have N: "n = int (length (filter (\<lambda>t. \<not> futex_expired s now t) ?w))" using m(2) e(2) by simp
  show ?thesis
    unfolding Let_def
  proof (intro conjI)
    show "n \<le> int (unat val)" unfolding m(2) using F by (rule of_nat_mono)
    show "n < int (unat val) \<longrightarrow> ?w = filter (futex_matches s ?tgid (unat address)) ?b"
      using G unfolding m(2) of_nat_less_iff .
  qed (rule futex_wf_woken [OF wf(1) e(1)] B N C D E)+
qed

lemma remove_deadline_insert: "t \<notin> set us \<Longrightarrow> removeAll t (futex_deadline_insert recs t us) = us"
  by (induction recs t us rule: futex_deadline_insert.induct) auto

text \<open>Taking a record that was just published off again restores both lists.\<close>

lemma futex_remove_enqueue:
  assumes t: "futex_idle s t" and b: "b < length (k_futex_buckets s)"
  shows "map (removeAll t) (k_futex_buckets (futex_enqueue t b address dl s)) = k_futex_buckets s"
    and "removeAll t (k_futex_deadlines (futex_enqueue t b address dl s)) = k_futex_deadlines s"
proof -
  have same: "map (removeAll t) (k_futex_buckets s) = k_futex_buckets s"
    using t by (intro map_idI) (simp add: futex_idle_def)
  have "removeAll t (t # k_futex_buckets s ! b) = k_futex_buckets s ! b"
    using t nth_mem [OF b] by (simp add: futex_idle_def)
  then have "map (removeAll t) ((k_futex_buckets s)[b := t # k_futex_buckets s ! b]) = k_futex_buckets s"
    using same by (simp add: map_update)
  then show "map (removeAll t) (k_futex_buckets (futex_enqueue t b address dl s)) = k_futex_buckets s"
    by (simp add: futex_enqueue_def Let_def)
  show "removeAll t (k_futex_deadlines (futex_enqueue t b address dl s)) = k_futex_deadlines s"
    using t by (simp add: futex_enqueue_def Let_def futex_idle_def remove_deadline_insert)
qed

text \<open>A published waiter: it heads its bucket, matches a wake on its word, and is in deadline order when it has a deadline.\<close>

definition futex_published :: "nat \<Rightarrow> nat \<Rightarrow> u64 \<Rightarrow> u64 \<Rightarrow> kernel \<Rightarrow> kernel \<Rightarrow> bool" where
  "futex_published t b address deadline s s' \<longleftrightarrow>
     k_futex_buckets s' = (k_futex_buckets s)[b := t # k_futex_buckets s ! b]
     \<and> set (k_futex_deadlines s') = set (k_futex_deadlines s) \<union> (if deadline \<noteq> UINT64_MAX then {t} else {})
     \<and> k_futex_records s' = (k_futex_records s)(t :=
         \<lparr>fw_address = unat address, fw_deadline_ns = deadline, fw_result = FUTEX_INTERRUPTED\<rparr>)"

lemma futex_enqueue_published: "futex_published t b address deadline s (futex_enqueue t b address deadline s)"
  by (auto simp: futex_published_def futex_enqueue_def Let_def)

lemma futex_wait_effect:
  fixes s :: kernel and address deadline :: u64
  defines "self \<equiv> current_tid s" and "b \<equiv> futex_bucket address (t_tgid (tsk s (current_tid s)))"
  assumes wf: "futex_wf s" "sched_wf s" and self: "self < slot_count s" "futex_idle s self" and arg: "address AND 3 = 0"
    and go: "word = val" "deadline = UINT64_MAX \<or> now < deadline" "t_pending (tsk s self) AND NOT (t_blocked (tsk s self)) = 0"
    and r: "futex_operation FUTEX_WAIT address val deadline True word now s = (s', r)"
  shows "futex_wf s' \<and> sched_wf s' \<and> (\<forall>t. t \<noteq> self \<longrightarrow> tsk s' t = tsk s t \<and> k_futex_records s' t = k_futex_records s t)"
    and "t_ready (tsk s self) \<Longrightarrow> r = Done FUTEX_INTERRUPTED \<and> k_futex_buckets s' = k_futex_buckets s
      \<and> k_futex_deadlines s' = k_futex_deadlines s \<and> tsk s' self = (tsk s self)\<lparr>t_ready := False, t_wait_reason := WR_NONE\<rparr>"
    and "\<not> t_ready (tsk s self) \<Longrightarrow> r = Switch \<and> futex_published self b address deadline s s'
      \<and> futex_matches s' (t_tgid (tsk s self)) (unat address) self
      \<and> t_state (tsk s' self) = WAITING \<and> t_wait_reason (tsk s' self) = WR_FUTEX"
proof -
  let ?q = "futex_enqueue self b address deadline s"
  let ?s = "upd_task self (\<lambda>k. k\<lparr>t_wait_reason := WR_FUTEX, t_ready := False\<rparr>) (task_set_state self WAITING ?q)"
  let ?d = "upd_task self (\<lambda>k. k\<lparr>t_ready := False, t_wait_reason := WR_NONE\<rparr>) ?q"
  have bl: "b < FUTEX_BUCKET_COUNT" "b < length (k_futex_buckets s)"
    using wf(1) futex_bucket_less by (simp_all add: futex_wf_def b_def)
  have cur: "current_tid ?q = self" by (simp add: current_tid_def current_task_def self_def)
  have wq: "futex_wf ?q" using wf(1) self bl(1) by (rule futex_enqueue_wf)
  have sq: "sched_wf ?q" using wf(2) by (subst sched_wf_cong [of _ s]) simp_all
  have ss: "sched_wf ?s" using sq self(1) by (intro sched_wf_block) simp_all
  have sd: "sched_wf ?d" using sq by (rule sched_wf_upd_task) (simp add: sched_view_def)
  have fields: "k_futex_buckets ?s = k_futex_buckets ?q" "k_futex_deadlines ?s = k_futex_deadlines ?q"
    "k_futex_records ?s = k_futex_records ?q"
    by (simp_all add: task_set_state_def)
  have fs: "futex_wf ?s" using wq by (simp add: futex_wf_def fields del: upd_task_slots) simp
  have set_state: "k_futex_buckets (task_set_state self WAITING ?q) = k_futex_buckets ?q"
    "k_futex_deadlines (task_set_state self WAITING ?q) = k_futex_deadlines ?q"
    "k_futex_records (task_set_state self WAITING ?q) = k_futex_records ?q" by (simp_all add: task_set_state_def)
  note pub = futex_enqueue_published [of self b address deadline s]
  have dl: "(deadline \<noteq> UINT64_MAX \<and> now \<ge> deadline) = False" using go(2) by auto
  have op: "(s', r) = (case task_fall_blocked_reason WAITING WR_FUTEX ?q of
        (s, Done _) \<Rightarrow> (let (s, r) = futex_resume self s in (s, Done r)) | (s, _) \<Rightarrow> (s, Switch))"
    using r arg go(1,3) unfolding futex_operation_def Let_def self_def b_def dl by simp
  have tq: "tsk ?q t = tsk s t" for t by simp
  have ready: "t_ready (tsk s self) \<Longrightarrow> s' = futex_remove self ?d \<and> r = Done FUTEX_INTERRUPTED"
    and asleep: "\<not> t_ready (tsk s self) \<Longrightarrow> s' = ?s \<and> r = Switch"
    using op pub by (simp_all add: task_fall_blocked_reason_def Let_def cur futex_resume_def futex_published_def)
  note undo = futex_remove_enqueue [OF self(2) bl(2), of address deadline]
  have "sorted (map (\<lambda>t. fw_deadline_ns (k_futex_records ?q t)) (removeAll self (k_futex_deadlines ?q)))"
    unfolding removeAll_filter_not_eq using wq by (intro sorted_filter) (simp add: futex_wf_def)
  then have "sorted (map (\<lambda>t. fw_deadline_ns (k_futex_records ?q t)) (k_futex_deadlines s))" unfolding undo(2) .
  then have fd: "futex_wf (futex_remove self ?d)"
    using wf(1) undo unfolding futex_wf_def by (simp del: removeAll.simps)
  show "futex_wf s' \<and> sched_wf s' \<and> (\<forall>t. t \<noteq> self \<longrightarrow> tsk s' t = tsk s t \<and> k_futex_records s' t = k_futex_records s t)"
  proof (cases "t_ready (tsk s self)")
    case True
    then show ?thesis using ready fd sd self(1) pub by (simp add: futex_published_def)
  next
    case False
    then show ?thesis using asleep fs ss self(1) pub by (simp add: tsk_task_set_state set_state futex_published_def)
  qed
  show "r = Done FUTEX_INTERRUPTED \<and> k_futex_buckets s' = k_futex_buckets s \<and> k_futex_deadlines s' = k_futex_deadlines s
      \<and> tsk s' self = (tsk s self)\<lparr>t_ready := False, t_wait_reason := WR_NONE\<rparr>" if "t_ready (tsk s self)"
    using ready [OF that] futex_remove_enqueue [OF self(2) bl(2), of address deadline] self(1) by simp
  show "r = Switch \<and> futex_published self b address deadline s s' \<and> futex_matches s' (t_tgid (tsk s self)) (unat address) self
      \<and> t_state (tsk s' self) = WAITING \<and> t_wait_reason (tsk s' self) = WR_FUTEX" if "\<not> t_ready (tsk s self)"
    using asleep [OF that] pub self(1) by (simp add: futex_published_def futex_matches_def set_state tsk_task_set_state)
qed

lemma futex_tick_effect:
  fixes now :: u64
  assumes wf: "futex_wf s"
  shows "futex_woken s (\<lambda>_. FUTEX_TIMED_OUT)
    (filter (\<lambda>t. fw_deadline_ns (k_futex_records s t) \<le> now) (k_futex_deadlines s)) (futex_tick now s)"
proof -
  have "takeWhile (\<lambda>t. fw_deadline_ns (k_futex_records s t) \<le> now) (k_futex_deadlines s)
      = filter (\<lambda>t. fw_deadline_ns (k_futex_records s t) \<le> now) (k_futex_deadlines s)"
    using wf by (intro takeWhile_sorted_filter) (simp add: futex_wf_def)
  with futex_expire_effect [OF wf order_refl, of now, folded futex_tick_def] show ?thesis by simp
qed

text \<open>C31: the comparison and the publication of a waiter are one step.  Called by a current task that is in no futex list (a
  task has one call at a time) with an aligned, readable word, a wait whose word has changed, whose deadline has passed or
  whose task has a deliverable signal changes nothing and says so.  Otherwise, if the task holds a ready token from an earlier
  wake-up, the token is used up, both lists are as before and the call returns \<open>FUTEX_INTERRUPTED\<close>; and if not, the task ends
  up first in its bucket with the address and deadline recorded, in deadline order, and blocked, so that it matches a later wake
  of the word.  No other task or record is changed.  The timer tick takes exactly the waiters whose deadline has come out of both
  lists, records the time-out and wakes them; every other waiter stays queued and keeps its record, and no other task is touched.\<close>

theorem futex_wait_publishes:
  assumes wf: "futex_wf s" "sched_wf s" and self: "current_tid s < slot_count s" "futex_idle s (current_tid s)"
    and arg: "address AND 3 = 0"
    and r: "futex_operation FUTEX_WAIT address val deadline True word now s = (s', r)"
  shows "(let self = current_tid s; k = tsk s self; b = futex_bucket address (t_tgid k) in
      if word \<noteq> val then s' = s \<and> r = Done FUTEX_CHANGED
      else if deadline \<noteq> UINT64_MAX \<and> now \<ge> deadline then s' = s \<and> r = Done FUTEX_TIMED_OUT
      else if t_pending k AND NOT (t_blocked k) \<noteq> 0 then s' = s \<and> r = Done FUTEX_INTERRUPTED
      else futex_wf s' \<and> sched_wf s' \<and> (\<forall>t. t \<noteq> self \<longrightarrow> tsk s' t = tsk s t \<and> k_futex_records s' t = k_futex_records s t)
        \<and> (if t_ready k
           then r = Done FUTEX_INTERRUPTED \<and> k_futex_buckets s' = k_futex_buckets s \<and> k_futex_deadlines s' = k_futex_deadlines s
             \<and> tsk s' self = k\<lparr>t_ready := False, t_wait_reason := WR_NONE\<rparr>
           else r = Switch \<and> futex_published self b address deadline s s' \<and> futex_matches s' (t_tgid k) (unat address) self
             \<and> t_state (tsk s' self) = WAITING \<and> t_wait_reason (tsk s' self) = WR_FUTEX))
    \<and> (let due = {t \<in> set (k_futex_deadlines s). fw_deadline_ns (k_futex_records s t) \<le> now}; u = futex_tick now s in
        futex_wf u \<and> sched_wf u
        \<and> k_futex_deadlines u = filter (\<lambda>t. t \<notin> due) (k_futex_deadlines s)
        \<and> k_futex_buckets u = map (filter (\<lambda>t. t \<notin> due)) (k_futex_buckets s)
        \<and> (\<forall>t. t \<notin> due \<longrightarrow> tsk u t = tsk s t \<and> k_futex_records u t = k_futex_records s t)
        \<and> (\<forall>t\<in>due. fw_result (k_futex_records u t) = FUTEX_TIMED_OUT
            \<and> (t_state (tsk s t) \<in> {WAITING, SLEEPING} \<longrightarrow> t_state (tsk u t) = RUNNING)))"
    (is "?wait \<and> ?tick")
proof
  note tick = futex_tick_effect [OF wf(1), of now]
  have nt: "t \<notin> set (filter P xs) \<longleftrightarrow> t \<notin> {t \<in> set xs. P t}" for t P and xs :: "nat list" by simp
  show ?tick
    using tick wf(2) futex_wf_woken [OF wf(1) tick] unfolding futex_woken_def Let_def nt by auto
  note effect = futex_wait_effect [OF wf self arg _ _ _ r]
  show ?wait
  proof (cases "word = val \<and> (deadline = UINT64_MAX \<or> now < deadline) \<and> t_pending (tsk s (current_tid s)) AND NOT (t_blocked (tsk s (current_tid s))) = 0")
    case True
    then have c: "word = val" "deadline = UINT64_MAX \<or> now < deadline"
      "t_pending (tsk s (current_tid s)) AND NOT (t_blocked (tsk s (current_tid s))) = 0" by auto
    then have "\<not> (deadline \<noteq> UINT64_MAX \<and> now \<ge> deadline)" by (auto simp: not_le)
    then show ?thesis using c effect [OF c] by (simp add: Let_def)
  next
    case False
    then have "word \<noteq> val \<or> deadline \<noteq> UINT64_MAX \<and> now \<ge> deadline
        \<or> t_pending (tsk s (current_tid s)) AND NOT (t_blocked (tsk s (current_tid s))) \<noteq> 0" by (simp add: not_less)
    moreover have "(s', r) = (if word \<noteq> val then (s, Done FUTEX_CHANGED)
        else if deadline \<noteq> UINT64_MAX \<and> now \<ge> deadline then (s, Done FUTEX_TIMED_OUT) else (s, Done FUTEX_INTERRUPTED))"
      if "word \<noteq> val \<or> deadline \<noteq> UINT64_MAX \<and> now \<ge> deadline
        \<or> t_pending (tsk s (current_tid s)) AND NOT (t_blocked (tsk s (current_tid s))) \<noteq> 0"
      using r arg that unfolding futex_operation_def Let_def
      by (cases "word = val"; cases "deadline \<noteq> UINT64_MAX"; cases "now \<ge> deadline") simp_all
    ultimately show ?thesis unfolding Let_def
      by (cases "word = val"; cases "deadline \<noteq> UINT64_MAX \<and> now \<ge> deadline") simp_all
  qed
qed

definition futex_example :: kernel where
  "futex_example = upd_task 3 (\<lambda>k. k\<lparr>t_tgid := 0\<rparr>) sched_example
     \<lparr>k_futex_buckets := [3] # replicate 63 [],
       k_futex_records := (\<lambda>_. \<lparr>fw_address = 4096, fw_deadline_ns = UINT64_MAX, fw_result = 0\<rparr>)\<rparr>"

lemma futex_example_bucket: "futex_bucket 4096 0 = 0"
  by (simp add: futex_bucket_def)

lemma futex_example_facts:
  "futex_wf futex_example" "sched_wf futex_example" "current_tid futex_example = 0"
  "t_tgid (tsk futex_example 0) = 0" "futex_idle futex_example 0" "\<not> t_ready (tsk futex_example 0)"
  "slot_count futex_example = 4" "k_futex_buckets futex_example ! 0 = [3]"
  "futex_matches futex_example 0 4096 3" "\<not> futex_expired futex_example 9 3"
  "t_state (tsk futex_example 3) = SLEEPING" "t_pending (tsk futex_example 0) = 0"
proof -
  have "sched_wf (upd_task 3 (\<lambda>k. k\<lparr>t_tgid := 0\<rparr>) sched_example)"
    by (rule sched_wf_upd_task [OF sched_example_wf]) (simp add: sched_view_def)
  then show "sched_wf futex_example" unfolding futex_example_def by (subst sched_wf_cong) auto
  show "futex_wf futex_example"
    using sched_example_tasks(2) by (simp add: futex_wf_def futex_example_def example_defs)
  show "futex_idle futex_example 0" by (simp add: futex_idle_def futex_example_def example_defs)
qed (simp_all add: futex_example_def example_defs current_tid_def current_task_def futex_matches_def futex_expired_def)

lemma futex_wake_exact_witness:
  "t_state (tsk (fst (futex_operation FUTEX_WAKE 4096 1 0 True 0 9 futex_example)) 3) = RUNNING"
proof -
  have "\<exists>s' n. futex_operation FUTEX_WAKE 4096 1 0 True 0 9 futex_example = (s', Done n)"
    by (simp add: futex_operation_def Let_def split_beta)
  then obtain s' n where r: "futex_operation FUTEX_WAKE 4096 1 0 True 0 9 futex_example = (s', Done n)"
    by blast
  show ?thesis
    unfolding r using futex_wake_exact [OF futex_example_facts(1,2) r]
    by (simp add: futex_example_facts futex_example_bucket Let_def)
qed

lemma futex_wait_publishes_witness:
  "t_state (tsk (fst (futex_operation FUTEX_WAIT 4096 5 UINT64_MAX True 5 9 futex_example)) 0) = WAITING"
proof -
  have self: "current_tid futex_example < slot_count futex_example"
    "futex_idle futex_example (current_tid futex_example)"
    by (simp_all add: futex_example_facts)
  obtain s' r where r: "futex_operation FUTEX_WAIT 4096 5 UINT64_MAX True 5 9 futex_example = (s', r)" by force
  show ?thesis
    unfolding r using futex_wait_publishes [OF futex_example_facts(1,2) self _ r]
    by (simp add: futex_example_facts Let_def)
qed

end
