(* ===== verification/Vdisk.thy ===== *)
theory Vdisk
  imports Futex
begin

text \<open>
  The disk layer of \<^verbatim>\<open>kernel/drivers/vdisk.c\<close>: the table of 26 disks with one sticky error each, the
  16 serialization names, the drive queues, and the transfers that split a request into chunks.
  A driver's \<open>Read\<close>, \<open>Write\<close> and \<open>Sync\<close> are arguments; they act on a device state of any type.
\<close>

section \<open>State\<close>

datatype vdisk_type = VDISK_TYPE_NONE | VDISK_TYPE_BLOCK | VDISK_TYPE_OPTICAL

record vdisk =
  vd_flag :: vdisk_type
  vd_size :: nat
  vd_name :: string
  vd_has_read :: bool
  vd_has_write :: bool
  vd_has_sync :: bool
  vd_owns_serialization :: bool
  vd_max_transfer :: nat

text \<open>The text kept in \<open>disk_errors\<close>, by the message it is formatted from.\<close>

datatype disk_error =
  Rejected bool nat nat
| Failed bool nat nat
| SyncFailed

text \<open>An entry of \<open>drive_name\<close> points to a string constant or into \<open>vdisk_ctl\<close>.\<close>

datatype name_ptr = Constant string | NameOf nat

record disks =
  v_ctl :: "vdisk list"
  v_errors :: "disk_error option list"
  v_names :: "name_ptr option list"

definition deref_name :: "disks \<Rightarrow> name_ptr \<Rightarrow> string" where
  "deref_name v p = (case p of Constant n \<Rightarrow> n | NameOf i \<Rightarrow> vd_name (v_ctl v ! i))"

definition drive_index :: "int \<Rightarrow> nat option" where
  "drive_index drive = (if drive - 65 < 0 \<or> drive - 65 \<ge> 26 then None else Some (nat (drive - 65)))"

definition vdisk_used :: "disks \<Rightarrow> nat \<Rightarrow> bool" where
  "vdisk_used v i \<longleftrightarrow> vd_flag (v_ctl v ! i) \<noteq> VDISK_TYPE_NONE"

section \<open>The table\<close>

definition init_vdisk :: "disks \<Rightarrow> disks" where
  "init_vdisk v = v\<lparr>v_ctl := map (\<lambda>d. d\<lparr>vd_flag := VDISK_TYPE_NONE\<rparr>) (v_ctl v)\<rparr>"

definition have_vdisk :: "disks \<Rightarrow> int \<Rightarrow> bool" where
  "have_vdisk v drive = (case drive_index drive of None \<Rightarrow> False | Some i \<Rightarrow> vdisk_used v i)"

definition vdisk_type :: "disks \<Rightarrow> int \<Rightarrow> vdisk_type" where
  "vdisk_type v drive = (case drive_index drive of None \<Rightarrow> VDISK_TYPE_NONE | Some i \<Rightarrow> vd_flag (v_ctl v ! i))"

definition GetDriveCode :: "disks \<Rightarrow> string \<Rightarrow> nat" where
  "GetDriveCode v name =
     (case find (\<lambda>i. case v_names v ! i of None \<Rightarrow> False | Some p \<Rightarrow> deref_name v p = name) [0..<16] of
        None \<Rightarrow> 16 | Some i \<Rightarrow> i)"

definition SetDrive :: "disks \<Rightarrow> name_ptr \<Rightarrow> disks \<times> bool" where
  "SetDrive v name =
     (if GetDriveCode v (deref_name v name) \<noteq> 16 then (v, True)
      else case find (\<lambda>i. v_names v ! i = None) [0..<16] of
             Some i \<Rightarrow> (v\<lparr>v_names := (v_names v)[i := Some name]\<rparr>, True)
           | None \<Rightarrow> (v, False))"

definition register_vdisk_at :: "(int \<Rightarrow> bool) \<Rightarrow> int \<Rightarrow> vdisk \<Rightarrow> disks \<Rightarrow> disks \<times> int" where
  "register_vdisk_at reusable drive vd v =
     (case drive_index drive of
        None \<Rightarrow> (v, 0)
      | Some i \<Rightarrow>
          if vdisk_used v i \<or> \<not> reusable drive then (v, 0)
          else
            (let v = v\<lparr>v_ctl := (v_ctl v)[i := vd], v_errors := (v_errors v)[i := None]\<rparr>;
                 v = (if vd_name vd \<noteq> [] \<and> \<not> vd_owns_serialization vd then fst (SetDrive v (NameOf i)) else v)
             in (v, drive)))"

text \<open>\<open>register_vdisk\<close> tries the letters in order.\<close>

primrec register_scan :: "(int \<Rightarrow> bool) \<Rightarrow> vdisk \<Rightarrow> nat list \<Rightarrow> disks \<Rightarrow> disks \<times> int" where
  "register_scan reusable vd [] v = (v, 0)"
| "register_scan reusable vd (i # is) v =
     (let (v, drive) = register_vdisk_at reusable (65 + int i) vd v in
      if drive \<noteq> 0 then (v, drive) else register_scan reusable vd is v)"

definition register_vdisk :: "(int \<Rightarrow> bool) \<Rightarrow> vdisk \<Rightarrow> disks \<Rightarrow> disks \<times> int" where
  "register_vdisk reusable vd v = register_scan reusable vd [0..<26] v"

definition logout_vdisk :: "int \<Rightarrow> disks \<Rightarrow> disks \<times> bool" where
  "logout_vdisk drive v =
     (case drive_index drive of
        None \<Rightarrow> (v, False)
      | Some i \<Rightarrow>
          if vdisk_used v i
          then (v\<lparr>v_ctl := (v_ctl v)[i := (v_ctl v ! i)\<lparr>vd_flag := VDISK_TYPE_NONE\<rparr>]\<rparr>, True)
          else (v, False))"

definition disk_report_error :: "int \<Rightarrow> disk_error \<Rightarrow> disks \<Rightarrow> disks" where
  "disk_report_error drive e v =
     (case drive_index drive of
        None \<Rightarrow> v
      | Some i \<Rightarrow>
          if \<not> vdisk_used v i \<or> v_errors v ! i \<noteq> None then v
          else v\<lparr>v_errors := (v_errors v)[i := Some e]\<rparr>)"

definition DiskReady :: "disks \<Rightarrow> int \<Rightarrow> bool" where
  "DiskReady v drive =
     (case drive_index drive of None \<Rightarrow> False | Some i \<Rightarrow> vdisk_used v i \<and> v_errors v ! i = None)"

definition disk_writable :: "disks \<Rightarrow> int \<Rightarrow> bool" where
  "disk_writable v drive =
     (DiskReady v drive \<and> vdisk_type v drive = VDISK_TYPE_BLOCK
      \<and> (case drive_index drive of None \<Rightarrow> False | Some i \<Rightarrow> vd_has_write (v_ctl v ! i)))"

definition disk_Size :: "disks \<Rightarrow> int \<Rightarrow> nat" where
  "disk_Size v drive =
     (case drive_index drive of None \<Rightarrow> 0 | Some i \<Rightarrow> if vdisk_used v i then vd_size (v_ctl v ! i) else 0)"

text \<open>\<open>disk_describe\<close>: letter, type, capacity, writability, name and error.\<close>

definition disk_describe :: "disks \<Rightarrow> int \<Rightarrow> (int \<times> vdisk_type \<times> nat \<times> bool \<times> string \<times> disk_error option) option" where
  "disk_describe v drive =
     (case drive_index drive of
        None \<Rightarrow> None
      | Some i \<Rightarrow>
          if \<not> vdisk_used v i then None
          else Some (drive, if vd_flag (v_ctl v ! i) = VDISK_TYPE_OPTICAL then VDISK_TYPE_OPTICAL else VDISK_TYPE_BLOCK,
                     vd_size (v_ctl v ! i), disk_writable v drive, vd_name (v_ctl v ! i), v_errors v ! i))"

definition first_vdisk :: "disks \<Rightarrow> int" where
  "first_vdisk v = (case find (vdisk_used v) [0..<26] of None \<Rightarrow> 0 | Some i \<Rightarrow> 65 + int i)"

definition next_vdisk :: "disks \<Rightarrow> int \<Rightarrow> int" where
  "next_vdisk v drive =
     (let indx = (if drive \<ge> 65 \<and> drive \<le> 90 then nat (drive - 65) + 1 else 0) in
      case find (vdisk_used v) [indx..<26] of None \<Rightarrow> 0 | Some i \<Rightarrow> 65 + int i)"

definition disk_drive_slot :: "disks \<Rightarrow> int \<Rightarrow> nat" where
  "disk_drive_slot v drive =
     (case drive_index drive of
        None \<Rightarrow> 16
      | Some i \<Rightarrow>
          if \<not> vdisk_used v i then 16
          else if vd_owns_serialization (v_ctl v ! i) then 16
          else if vd_name (v_ctl v ! i) \<noteq> [] \<and> GetDriveCode v (vd_name (v_ctl v ! i)) < 16
          then GetDriveCode v (vd_name (v_ctl v ! i))
          else GetDriveCode v ''DISK_DRIVE'')"

section \<open>Reading and writing\<close>

text \<open>A driver operation: drive, buffer, sector count and LBA to the buffer afterwards and success.\<close>

type_synonym 'd operation = "int \<Rightarrow> bytes \<Rightarrow> nat \<Rightarrow> nat \<Rightarrow> 'd \<Rightarrow> 'd \<times> bytes \<times> bool"

definition sector_size :: "vdisk_type \<Rightarrow> nat" where
  "sector_size t = (if t = VDISK_TYPE_OPTICAL then 2048 else 512)"

lemma sector_size_simps [simp]: "sector_size VDISK_TYPE_BLOCK = 512" "sector_size VDISK_TYPE_OPTICAL = 2048"
  by (simp_all add: sector_size_def)

definition rw_vdisk ::
  "'d operation \<Rightarrow> int \<Rightarrow> nat \<Rightarrow> bytes \<Rightarrow> nat \<Rightarrow> bool \<Rightarrow> disks \<times> 'd \<Rightarrow> (disks \<times> 'd) \<times> bytes \<times> bool" where
  "rw_vdisk operation drive lba buffer number read vs =
     (let (v, d) = vs in
      case drive_index drive of
        None \<Rightarrow> (vs, buffer, False)
      | Some i \<Rightarrow>
          if \<not> vdisk_used v i \<or> v_errors v ! i \<noteq> None then (vs, buffer, False)
          else
            (let disk = v_ctl v ! i; unit = sector_size (vd_flag disk);
                 present = (if read then vd_has_read disk else vd_has_write disk) in
             if \<not> present \<or> number > UINT_MAX div unit
                \<or> (vd_flag disk = VDISK_TYPE_BLOCK \<and> lba + number > vd_size disk div unit)
             then ((disk_report_error drive (Rejected read lba number) v, d), buffer, False)
             else
               (let (d, buffer, success) = operation drive buffer number lba d in
                if \<not> success then ((disk_report_error drive (Failed read lba number) v, d), buffer, False)
                else ((v, d), buffer, True))))"

definition disk_transfer_sectors :: "disks \<Rightarrow> int \<Rightarrow> nat" where
  "disk_transfer_sectors v drive =
     (case drive_index drive of
        None \<Rightarrow> 8
      | Some i \<Rightarrow> if vd_max_transfer (v_ctl v ! i) = 0 then 8 else vd_max_transfer (v_ctl v ! i))"

text \<open>
  The transfer loop from sector \<open>i\<close>.  Each round moves at least one sector, so \<open>number\<close> rounds are enough.
  A round hands the driver the part of the buffer it may touch.
\<close>

primrec transfer_loop ::
  "nat \<Rightarrow> 'd operation \<Rightarrow> int \<Rightarrow> nat \<Rightarrow> nat \<Rightarrow> nat \<Rightarrow> nat \<Rightarrow> bool \<Rightarrow> nat \<Rightarrow> bytes \<Rightarrow> disks \<times> 'd
     \<Rightarrow> (disks \<times> 'd) \<times> bytes \<times> bool" where
  "transfer_loop 0 operation drive lba number unit limit read i buffer vs = (vs, buffer, True)"
| "transfer_loop (Suc fuel) operation drive lba number unit limit read i buffer vs =
     (if i \<ge> number then (vs, buffer, True)
      else
        (let sectors = (if number - i < limit then number - i else limit) in
         if lba > UINT_MAX - i then (vs, buffer, False)
         else
           (let (vs, part, success) = rw_vdisk operation drive (lba + i)
                   (take (sectors * unit) (drop (i * unit) buffer)) sectors read vs;
                buffer = take (i * unit) buffer @ part @ drop (i * unit + sectors * unit) buffer
            in if \<not> success then (vs, buffer, False)
               else transfer_loop fuel operation drive lba number unit limit read (i + sectors) buffer vs)))"

section \<open>Taking turns\<close>

definition drive_can_skip_sync :: "kernel \<Rightarrow> bool" where
  "drive_can_skip_sync s \<longleftrightarrow> current_task s = None"

definition upd_drive :: "nat \<Rightarrow> drive_wait_queue \<Rightarrow> kernel \<Rightarrow> kernel" where
  "upd_drive c q s = s\<lparr>k_drives := (k_drives s)[c := q]\<rparr>"

text \<open>One evaluation of the loop condition of \<open>drive_wait_turn\<close>.\<close>

definition drive_wait_turn :: "nat \<Rightarrow> kernel \<Rightarrow> kernel \<times> bool outcome" where
  "drive_wait_turn c s =
     (if c \<ge> 16 \<or> drive_can_skip_sync s then (s, Done True)
      else if drive_queue_front (k_drives s ! c) \<noteq> t_tid (tsk s (current_tid s))
      then ipc_wait_loop (task_fall_blocked_reason WAITING WR_DISK s)
      else (s, Done True))"

definition DriveSemaphoreTake :: "bool \<Rightarrow> nat \<Rightarrow> kernel \<Rightarrow> kernel \<times> bool outcome" where
  "DriveSemaphoreTake malloc_ok c s =
     (if c \<ge> 16 then (s, Done True)
      else if drive_can_skip_sync s then (s, Done True)
      else
        (let (q, ok) = drive_queue_push malloc_ok (k_drives s ! c) (t_tid (tsk s (current_tid s))) in
         if \<not> ok then (upd_drive c q s, Done False) else drive_wait_turn c (upd_drive c q s)))"

definition DriveSemaphoreGive :: "nat \<Rightarrow> kernel \<Rightarrow> kernel" where
  "DriveSemaphoreGive c s =
     (if c \<ge> 16 then s
      else if drive_can_skip_sync s then s
      else if drive_queue_front (k_drives s ! c) \<noteq> t_tid (tsk s (current_tid s)) then s
      else
        (let q = fst (drive_queue_pop (k_drives s ! c)); s = upd_drive c q s in
         if dq_count q > 0 then
           (case get_task s (drive_queue_front q) of
              None \<Rightarrow> s
            | Some next \<Rightarrow> task_run next (mtask_run_now (Some next) s))
         else s))"

definition vdisk_remove_task :: "nat \<Rightarrow> kernel \<Rightarrow> kernel" where
  "vdisk_remove_task tid s =
     fold (\<lambda>c s.
        let (q, removed) = drive_queue_remove (k_drives s ! c) tid; s = upd_drive c q s in
        if removed \<and> dq_count q > 0
        then (case get_task s (drive_queue_front q) of None \<Rightarrow> s | Some next \<Rightarrow> task_run next s)
        else s) [0..<16] s"

section \<open>Transfers\<close>

text \<open>
  A transfer acts on the kernel (for the turn), the disk table and the device.  \<open>disk_transfer_turn\<close> is its part from the moment
  the task has the drive's turn: the loop, giving the turn back, and the clearing of a failed read.  After each chunk the code
  offers the CPU to other tasks (\<open>scheduler_preempt_if_needed\<close>); what they do in between is not part of this model.
\<close>

definition disk_transfer_turn ::
  "'d operation \<Rightarrow> nat \<Rightarrow> nat \<Rightarrow> bytes \<Rightarrow> int \<Rightarrow> bool \<Rightarrow> nat \<Rightarrow> nat \<Rightarrow> kernel \<times> disks \<times> 'd
     \<Rightarrow> (kernel \<times> disks \<times> 'd) \<times> bytes \<times> bool outcome" where
  "disk_transfer_turn operation lba number data drive read unit code svd =
     (let (s, vs) = svd;
          (vs, data, success) =
            transfer_loop number operation drive lba number unit (disk_transfer_sectors (fst vs) drive) read 0 data vs;
          s = DriveSemaphoreGive code s
      in ((s, vs), if \<not> success \<and> read then replicate (number * unit) 0 @ drop (number * unit) data else data, Done success))"

text \<open>\<open>disk_transfer\<close> with its checks; \<open>None\<close> is NULL.  When the turn is refused the transfer fails, and when the task has to
  wait for it the outcome is that of the wait.\<close>

definition disk_transfer ::
  "bool \<Rightarrow> 'd operation \<Rightarrow> nat \<Rightarrow> nat \<Rightarrow> bytes option \<Rightarrow> int \<Rightarrow> bool \<Rightarrow> nat \<Rightarrow> kernel \<times> disks \<times> 'd
     \<Rightarrow> (kernel \<times> disks \<times> 'd) \<times> bytes \<times> bool outcome" where
  "disk_transfer malloc_ok operation lba number buffer drive read unit svd =
     (let (s, v, d) = svd; data = (case buffer of None \<Rightarrow> [] | Some b \<Rightarrow> b) in
      if \<not> DiskReady v drive \<or> (number \<noteq> 0 \<and> buffer = None) \<or> number > UINT_MAX div unit
      then (svd, data, Done False)
      else
        (let code = disk_drive_slot v drive; (s, r) = DriveSemaphoreTake malloc_ok code s in
         case r of
           Done taken \<Rightarrow>
             if \<not> taken then ((s, v, d), data, Done False)
             else disk_transfer_turn operation lba number data drive read unit code (s, v, d)
         | _ \<Rightarrow> ((s, v, d), data, r)))"

text \<open>What a transfer does when a task that waited for its turn runs again: it looks whether it is in front now.\<close>

definition disk_transfer_resume ::
  "'d operation \<Rightarrow> nat \<Rightarrow> nat \<Rightarrow> bytes \<Rightarrow> int \<Rightarrow> bool \<Rightarrow> nat \<Rightarrow> nat \<Rightarrow> kernel \<times> disks \<times> 'd
     \<Rightarrow> (kernel \<times> disks \<times> 'd) \<times> bytes \<times> bool outcome" where
  "disk_transfer_resume operation lba number data drive read unit code svd =
     (let (s, vs) = svd; (s, r) = drive_wait_turn code s in
      case r of
        Done _ \<Rightarrow> disk_transfer_turn operation lba number data drive read unit code (s, vs)
      | _ \<Rightarrow> ((s, vs), data, r))"

definition disk_read ::
  "bool \<Rightarrow> 'd operation \<Rightarrow> nat \<Rightarrow> nat \<Rightarrow> bytes option \<Rightarrow> int \<Rightarrow> kernel \<times> disks \<times> 'd
     \<Rightarrow> (kernel \<times> disks \<times> 'd) \<times> bytes \<times> bool outcome" where
  "disk_read malloc_ok rd lba number buffer drive svd =
     (if vdisk_type (fst (snd svd)) drive = VDISK_TYPE_BLOCK
      then disk_transfer malloc_ok rd lba number buffer drive True 512 svd
      else (svd, (case buffer of None \<Rightarrow> [] | Some b \<Rightarrow> b), Done False))"

definition disk_write ::
  "bool \<Rightarrow> 'd operation \<Rightarrow> nat \<Rightarrow> nat \<Rightarrow> bytes option \<Rightarrow> int \<Rightarrow> kernel \<times> disks \<times> 'd
     \<Rightarrow> (kernel \<times> disks \<times> 'd) \<times> bytes \<times> bool outcome" where
  "disk_write malloc_ok wr lba number buffer drive svd =
     (if vdisk_type (fst (snd svd)) drive = VDISK_TYPE_BLOCK
      then disk_transfer malloc_ok wr lba number buffer drive False 512 svd
      else (svd, (case buffer of None \<Rightarrow> [] | Some b \<Rightarrow> b), Done False))"

definition CDROM_Read ::
  "bool \<Rightarrow> 'd operation \<Rightarrow> nat \<Rightarrow> nat \<Rightarrow> bytes option \<Rightarrow> int \<Rightarrow> kernel \<times> disks \<times> 'd
     \<Rightarrow> (kernel \<times> disks \<times> 'd) \<times> bytes \<times> bool outcome" where
  "CDROM_Read malloc_ok rd lba number buffer drive svd =
     (if vdisk_type (fst (snd svd)) drive = VDISK_TYPE_OPTICAL
      then disk_transfer malloc_ok rd lba number buffer drive True 2048 svd
      else (svd, (case buffer of None \<Rightarrow> [] | Some b \<Rightarrow> b), Done False))"

text \<open>\<open>disk_sync\<close>, likewise in two parts.\<close>

definition disk_sync_turn ::
  "(int \<Rightarrow> 'd \<Rightarrow> 'd \<times> bool) \<Rightarrow> int \<Rightarrow> nat \<Rightarrow> kernel \<times> disks \<times> 'd \<Rightarrow> (kernel \<times> disks \<times> 'd) \<times> bool outcome" where
  "disk_sync_turn sync drive code svd =
     (let (s, v, d) = svd; (d, success) = sync drive d; s = DriveSemaphoreGive code s;
          v = (if \<not> success then disk_report_error drive SyncFailed v else v)
      in ((s, v, d), Done success))"

definition disk_sync ::
  "bool \<Rightarrow> (int \<Rightarrow> 'd \<Rightarrow> 'd \<times> bool) \<Rightarrow> int \<Rightarrow> kernel \<times> disks \<times> 'd \<Rightarrow> (kernel \<times> disks \<times> 'd) \<times> bool outcome" where
  "disk_sync malloc_ok sync drive svd =
     (let (s, v, d) = svd in
      case (if DiskReady v drive then drive_index drive else None) of
        None \<Rightarrow> (svd, Done False)
      | Some i \<Rightarrow>
          if \<not> vd_has_sync (v_ctl v ! i) then (svd, Done True)
          else
            (let code = disk_drive_slot v drive; (s, r) = DriveSemaphoreTake malloc_ok code s in
             case r of
               Done taken \<Rightarrow> if \<not> taken then ((s, v, d), Done False) else disk_sync_turn sync drive code (s, v, d)
             | _ \<Rightarrow> ((s, v, d), r)))"

section \<open>Errors are sticky\<close>

definition disks_wf :: "disks \<Rightarrow> bool" where
  "disks_wf v \<longleftrightarrow> length (v_ctl v) = 26 \<and> length (v_errors v) = 26 \<and> length (v_names v) = 16"

lemma drive_index_bound: "drive_index drive = Some i \<Longrightarrow> i < 26"
  by (auto simp: drive_index_def split: if_splits)

lemma disk_report_error_ctl [simp]: "v_ctl (disk_report_error drive e v) = v_ctl v"
  "v_names (disk_report_error drive e v) = v_names v"
  "disks_wf (disk_report_error drive e v) = disks_wf v"
  by (auto simp: disk_report_error_def disks_wf_def split: option.splits)

lemma disk_report_error_not_ready:
  "disks_wf v \<Longrightarrow> \<not> DiskReady (disk_report_error drive e v) drive"
  by (auto simp: DiskReady_def disk_report_error_def vdisk_used_def disks_wf_def
      dest: drive_index_bound split: option.splits)

lemma rw_vdisk_not_ready: "\<not> DiskReady v drive \<Longrightarrow> rw_vdisk op drive lba buf n rd (v, d) = ((v, d), buf, False)"
  by (auto simp: rw_vdisk_def DiskReady_def split: option.splits)

section \<open>Chunks add up\<close>

lemma length_concat_sectors:
  "(\<And>l. length (sec l) = unit) \<Longrightarrow> length (concat (map sec [a..<b])) = (b - a) * unit"
  by (induction b) (auto simp: Suc_diff_le le_Suc_eq)

lemma upt_split: "a \<le> b \<Longrightarrow> b \<le> c \<Longrightarrow> [a..<c] = [a..<b] @ [b..<c]"
  by (metis le_add_diff_inverse upt_add_eq_append)

text \<open>A driver whose reads return the sectors of a fixed disk image.\<close>

definition reads_image :: "'d operation \<Rightarrow> int \<Rightarrow> nat \<Rightarrow> ('d \<Rightarrow> nat \<Rightarrow> bytes) \<Rightarrow> bool" where
  "reads_image rd drive unit img \<longleftrightarrow>
     (\<forall>d l. length (img d l) = unit)
     \<and> (\<forall>buf n l d. length buf = n * unit \<longrightarrow> rd drive buf n l d = (d, concat (map (img d) [l..<l + n]), True))"

text \<open>The request the table accepts: a ready drive that can read, all of whose sectors exist.\<close>

definition readable_range :: "disks \<Rightarrow> int \<Rightarrow> nat \<Rightarrow> nat \<Rightarrow> bool" where
  "readable_range v drive lba number \<longleftrightarrow>
     (\<exists>i. drive_index drive = Some i \<and> vdisk_used v i \<and> v_errors v ! i = None \<and> vd_has_read (v_ctl v ! i)
        \<and> (vd_flag (v_ctl v ! i) = VDISK_TYPE_BLOCK \<longrightarrow>
            lba + number \<le> vd_size (v_ctl v ! i) div sector_size (vd_flag (v_ctl v ! i))))
     \<and> number \<le> UINT_MAX div sector_size (vdisk_type v drive) \<and> lba + number \<le> UINT_MAX"

lemma rw_vdisk_image:
  assumes "readable_range v drive lba number" "reads_image rd drive (sector_size (vdisk_type v drive)) img"
    "l + n \<le> lba + number" "lba \<le> l" "length buf = n * sector_size (vdisk_type v drive)"
  shows "rw_vdisk rd drive l buf n True (v, d) = ((v, d), concat (map (img d) [l..<l + n]), True)"
proof -
  obtain i where i: "drive_index drive = Some i" "vdisk_used v i" "v_errors v ! i = None" "vd_has_read (v_ctl v ! i)"
    "vd_flag (v_ctl v ! i) = VDISK_TYPE_BLOCK \<longrightarrow>
       lba + number \<le> vd_size (v_ctl v ! i) div sector_size (vd_flag (v_ctl v ! i))"
    "number \<le> UINT_MAX div sector_size (vdisk_type v drive)"
    using assms(1) unfolding readable_range_def by blast
  then have "rd drive buf n l d = (d, concat (map (img d) [l..<l + n]), True)"
    "n \<le> UINT_MAX div sector_size (vd_flag (v_ctl v ! i))"
    using assms(2-5) by (simp_all add: reads_image_def vdisk_type_def)
  moreover have "l + n \<le> vd_size (v_ctl v ! i) div sector_size (vd_flag (v_ctl v ! i))"
    if "vd_flag (v_ctl v ! i) = VDISK_TYPE_BLOCK"
    using i(5) that assms(3) by (auto intro: order_trans)
  ultimately show ?thesis using i(1-4) by (auto simp: rw_vdisk_def Let_def)
qed

lemma transfer_loop_image:
  fixes v :: disks and drive :: int
  defines "unit \<equiv> sector_size (vdisk_type v drive)"
  assumes range: "readable_range v drive lba number" and imgh: "reads_image rd drive unit img"
    and limit: "0 < limit" and buf: "length tail = (number - i) * unit" and i: "i \<le> number" and fuel: "number - i \<le> fuel"
  shows "transfer_loop fuel rd drive lba number unit limit True i (concat (map (img d) [lba..<lba + i]) @ tail) (v, d)
      = ((v, d), concat (map (img d) [lba..<lba + number]), True)"
  using buf i fuel
proof (induction fuel arbitrary: i tail)
  case 0 then show ?case by simp
next
  case (Suc fuel)
  let ?pre = "concat (map (img d) [lba..<lba + i])"
  have len: "\<And>l. length (img d l) = unit" using imgh by (simp add: reads_image_def)
  have pre: "length ?pre = i * unit" using length_concat_sectors [of "img d", OF len] by simp
  show ?case
  proof (cases "i \<ge> number")
    case True with Suc.prems show ?thesis by simp
  next
    case False
    define sectors where "sectors = (if number - i < limit then number - i else limit)"
    have sec: "0 < sectors" "i + sectors \<le> number" using False limit by (auto simp: sectors_def)
    let ?mid = "concat (map (img d) [lba + i..<lba + i + sectors])"
    have lba: "\<not> lba > UINT_MAX - i" using range False by (auto simp: readable_range_def)
    have "sectors * unit \<le> (number - i) * unit" using sec(2) by (intro mult_le_mono1) simp
    then have tl: "length (take (sectors * unit) tail) = sectors * unit"
      unfolding length_take Suc.prems(1) by (rule min_absorb2)
    have part: "take (sectors * unit) (drop (i * unit) (?pre @ tail)) = take (sectors * unit) tail"
      using pre by simp
    have rw: "rw_vdisk rd drive (lba + i) (take (sectors * unit) tail) sectors True (v, d) = ((v, d), ?mid, True)"
      using rw_vdisk_image [OF range, of rd img "lba + i" sectors] imgh sec tl by (simp add: unit_def)
    have mid: "?pre @ ?mid = concat (map (img d) [lba..<lba + (i + sectors)])"
      using upt_split [of lba "lba + i" "lba + (i + sectors)"] by (simp add: add.assoc)
    have rest: "length (drop (sectors * unit) tail) = (number - (i + sectors)) * unit"
      using Suc.prems(1) by (simp add: diff_mult_distrib add_mult_distrib)
    have "number - (i + sectors) \<le> fuel" using Suc.prems(3) sec(1) by simp
    note ih = Suc.IH [OF rest sec(2) this]
    have "take (i * unit) (?pre @ tail) @ ?mid @ drop (i * unit + sectors * unit) (?pre @ tail)
        = concat (map (img d) [lba..<lba + (i + sectors)]) @ drop (sectors * unit) tail"
      using pre mid by simp
    then show ?thesis using False lba part rw ih
      by (simp add: sectors_def [symmetric] Let_def)
  qed
qed

section \<open>Turns\<close>

definition drives_wf :: "kernel \<Rightarrow> bool" where
  "drives_wf s \<longleftrightarrow> length (k_drives s) = 16 \<and> (\<forall>q\<in>set (k_drives s). drive_queue_wf q)"

lemma upd_drive_simps [simp]:
  "k_slots (upd_drive c q s) = k_slots s" "k_cpus (upd_drive c q s) = k_cpus s"
  "k_this_cpu (upd_drive c q s) = k_this_cpu s" "k_drives (upd_drive c q s) = (k_drives s)[c := q]"
  "current_tid (upd_drive c q s) = current_tid s" "current_task (upd_drive c q s) = current_task s"
  "get_task (upd_drive c q s) t = get_task s t"
  by (simp_all add: upd_drive_def current_tid_def current_task_def get_task_def task_slot_at_def)

lemma sched_wf_upd_drive [simp]: "sched_wf (upd_drive c q s) = sched_wf s"
  by (rule sched_wf_cong) simp_all

lemma sched_wf_tid: "sched_wf s \<Longrightarrow> t < slot_count s \<Longrightarrow> t_tid (tsk s t) = t"
  by (simp add: sched_wf_def runq_wf_def)

lemma drives_wf_queue: "drives_wf s \<Longrightarrow> c < 16 \<Longrightarrow> drive_queue_wf (k_drives s ! c)"
  by (simp add: drives_wf_def)

lemma drives_wf_upd: "drives_wf s \<Longrightarrow> drive_queue_wf q \<Longrightarrow> drives_wf (upd_drive c q s)"
  using set_update_subset_insert [of "k_drives s" c q] by (auto simp: drives_wf_def)

lemma wake_frame_drives: "wake_frame s s' \<Longrightarrow> k_drives s' = k_drives s"
  by (simp add: wake_frame_def)

lemma drive_queue_count_contents: "dq_count q = length (drive_queue_contents q)"
  by simp

lemma sched_wf_remove_step:
  assumes "sched_wf s"
  shows "sched_wf (let (q, removed) = drive_queue_remove (k_drives s ! c) tid; s = upd_drive c q s in
        if removed \<and> dq_count q > 0
        then (case get_task s (drive_queue_front q) of None \<Rightarrow> s | Some next \<Rightarrow> task_run next s) else s)"
  using assms by (auto simp: Let_def split_beta dest!: get_task_bound intro!: sched_wf_task_run split: option.splits)

lemma sched_wf_vdisk_remove_task [inv_intros]: "sched_wf s \<Longrightarrow> sched_wf (vdisk_remove_task tid s)"
  unfolding vdisk_remove_task_def
  by (rule fold_invariant [where Q = "\<lambda>_. True" and P = sched_wf]) (auto intro: sched_wf_remove_step [simplified])

section \<open>Properties\<close>

lemma disk_transfer_turn_image:
  assumes "vdisk_type v drive = VDISK_TYPE_BLOCK" "readable_range v drive lba number"
    and "reads_image rd drive 512 img" and "length buffer = number * 512"
  shows "disk_transfer_turn rd lba number buffer drive True 512 code (s, v, d)
     = ((DriveSemaphoreGive code s, v, d), concat (map (img d) [lba..<lba + number]), Done True)"
proof -
  have unit: "sector_size (vdisk_type v drive) = 512" using assms(1) by (simp add: sector_size_def)
  have "0 < disk_transfer_sectors v drive"
    by (simp add: disk_transfer_sectors_def split: option.splits)
  from transfer_loop_image [OF assms(2), of rd img "disk_transfer_sectors v drive" buffer 0 number] assms this
  have "transfer_loop number rd drive lba number 512 (disk_transfer_sectors v drive) True 0 buffer (v, d)
      = ((v, d), concat (map (img d) [lba..<lba + number]), True)"
    by (simp add: unit)
  then show ?thesis by (simp add: disk_transfer_turn_def)
qed

lemma drive_semaphore_not_refused:
  assumes "drives_wf s" "\<And>q. c < 16 \<Longrightarrow> q = k_drives s ! c \<Longrightarrow> length (drive_queue_contents q) < DRIVE_QUEUE_MAX"
  shows "snd (DriveSemaphoreTake True c s) \<noteq> Done False"
proof (cases "c < 16")
  case True
  have "0 < drive_queue_room (k_drives s ! c)" using assms(2) [OF True refl] by (simp add: drive_queue_room_def)
  from drive_queue_push_room [OF drives_wf_queue [OF assms(1) True] this, of "t_tid (tsk s (current_tid s))"]
  show ?thesis by (auto simp: DriveSemaphoreTake_def drive_wait_turn_def ipc_wait_loop_def split: prod.splits outcome.splits)
qed (simp add: DriveSemaphoreTake_def)


text \<open>A driver is called only for a registered disk without a recorded error, with an operation it has
  and, on a block disk, sectors inside the capacity.  Every other request fails without touching the
  device or the buffer, every failure on a registered disk leaves the disk not ready, and a disk that is
  not ready rejects all further requests without any effect until it is registered again.\<close>

theorem rw_vdisk_guarded:
  assumes "disks_wf v" and "rw_vdisk operation drive lba buffer number read (v, d) = ((v', d'), buffer', success)"
  shows "(if \<not> DiskReady v drive then v' = v \<and> d' = d \<and> buffer' = buffer \<and> \<not> success
     else if (case drive_index drive of None \<Rightarrow> True | Some i \<Rightarrow>
          \<not> (if read then vd_has_read (v_ctl v ! i) else vd_has_write (v_ctl v ! i))
          \<or> number > UINT_MAX div sector_size (vd_flag (v_ctl v ! i))
          \<or> (vd_flag (v_ctl v ! i) = VDISK_TYPE_BLOCK \<and>
              lba + number > vd_size (v_ctl v ! i) div sector_size (vd_flag (v_ctl v ! i))))
     then d' = d \<and> buffer' = buffer \<and> \<not> success \<and> \<not> DiskReady v' drive
     else (d', buffer', success) = operation drive buffer number lba d
       \<and> (if success then v' = v else \<not> DiskReady v' drive))"
  using assms disk_report_error_not_ready [OF assms(1), of drive]
  by (auto simp: rw_vdisk_def DiskReady_def Let_def split: option.splits prod.splits if_splits)

definition disks_example :: "nat \<Rightarrow> disks" where
  "disks_example limit =
     \<lparr>v_ctl = (replicate 26 \<lparr>vd_flag = VDISK_TYPE_NONE, vd_size = 0, vd_name = [], vd_has_read = False,
          vd_has_write = False, vd_has_sync = False, vd_owns_serialization = False, vd_max_transfer = 0\<rparr>)
        [0 := \<lparr>vd_flag = VDISK_TYPE_BLOCK, vd_size = 4096, vd_name = ''x'', vd_has_read = True,
          vd_has_write = True, vd_has_sync = False, vd_owns_serialization = False, vd_max_transfer = limit\<rparr>],
      v_errors = replicate 26 None, v_names = replicate 16 None\<rparr>"

lemma disks_example_facts:
  "disks_wf (disks_example n)" "drive_index 65 = Some 0" "vdisk_used (disks_example n) 0"
  "v_errors (disks_example n) ! 0 = None" "DiskReady (disks_example n) 65"
  "vdisk_type (disks_example n) 65 = VDISK_TYPE_BLOCK"
  "v_ctl (disks_example n) ! 0 = \<lparr>vd_flag = VDISK_TYPE_BLOCK, vd_size = 4096, vd_name = ''x'', vd_has_read = True,
          vd_has_write = True, vd_has_sync = False, vd_owns_serialization = False, vd_max_transfer = n\<rparr>"
  by (simp_all add: disks_wf_def disks_example_def drive_index_def vdisk_used_def DiskReady_def vdisk_type_def)

text \<open>A read-only memory disk: every byte of a sector is the low byte of its number.\<close>

definition example_read :: "unit operation" where
  "example_read drive buf n l d = (d, concat (map (\<lambda>i. replicate 512 (of_nat i)) [l..<l + n]), True)"

lemma rw_vdisk_guarded_witness:
  "\<not> DiskReady (fst (fst (rw_vdisk example_read 65 7 [] 2 True (disks_example 2, ())))) 65"
proof -
  obtain v' d' b ok where r: "rw_vdisk example_read 65 7 [] 2 True (disks_example 2, ()) = ((v', d'), b, ok)"
    by (metis prod.collapse)
  show ?thesis unfolding r using rw_vdisk_guarded [OF disks_example_facts(1) r]
    by (simp add: disks_example_facts)
qed

text \<open>A task gets a drive's turn in arrival order: \<open>DriveSemaphoreTake\<close> puts it behind all waiters and
  returns at once exactly when nobody was there; \<open>DriveSemaphoreGive\<close> by the task whose turn it is removes
  it and makes the next waiter runnable, and by any other task does nothing.\<close>

theorem drive_semaphore_turns:
  assumes wf: "drives_wf s" "sched_wf s" and c: "c < 16" and cur: "current_task s = Some self"
    and room: "length (drive_queue_contents (k_drives s ! c)) < DRIVE_QUEUE_MAX"
    and tk: "DriveSemaphoreTake True c s = (s', r)"
  shows "drive_queue_contents (k_drives s' ! c) = drive_queue_contents (k_drives s ! c) @ [self]
    \<and> (if drive_queue_contents (k_drives s ! c) = [] then r = Done True
       else if hd (drive_queue_contents (k_drives s ! c)) = self then r = Done True
       else r \<in> {Switch, Retry})
    \<and> sched_wf (DriveSemaphoreGive c s)
    \<and> (case drive_queue_contents (k_drives s ! c) of
         [] \<Rightarrow> self \<noteq> UINT_MAX \<longrightarrow> DriveSemaphoreGive c s = s
       | t # ts \<Rightarrow>
           if t \<noteq> self then DriveSemaphoreGive c s = s
           else drive_queue_contents (k_drives (DriveSemaphoreGive c s) ! c) = ts
             \<and> (\<forall>n ns. ts = n # ns \<and> get_task s n = Some n \<and> t_state (tsk s n) \<in> {WAITING, SLEEPING} \<longrightarrow>
                  t_state (tsk (DriveSemaphoreGive c s) n) = RUNNING))"
proof -
  let ?q = "k_drives s ! c" and ?g = "DriveSemaphoreGive c s"
  have self: "current_tid s = self" "self < slot_count s" "t_tid (tsk s self) = self"
    using sched_wf_current [OF wf(2) cur] sched_wf_tid [OF wf(2)] cur by (auto simp: current_tid_def)
  have wq: "drive_queue_wf ?q" using wf(1) c by (rule drives_wf_queue)
  have len: "c < length (k_drives s)" using wf(1) c by (simp add: drives_wf_def)
  have rm: "0 < drive_queue_room ?q" using room by (simp add: drive_queue_room_def)
  obtain q where q: "drive_queue_push True ?q self = (q, True)" "drive_queue_wf q"
    "drive_queue_contents q = drive_queue_contents ?q @ [self]"
    using drive_queue_push_room [OF wq rm, of self] by (cases "drive_queue_push True ?q self") auto
  have take_eq: "DriveSemaphoreTake True c s = drive_wait_turn c (upd_drive c q s)"
    using c cur q by (simp add: DriveSemaphoreTake_def drive_can_skip_sync_def self)
  have front: "drive_queue_front q = hd (drive_queue_contents ?q @ [self])"
    using drive_queue_front_contents [OF q(2)] by (cases "drive_queue_contents ?q") (simp_all add: q(3))
  let ?b = "task_fall_blocked_reason WAITING WR_DISK (upd_drive c q s)"
  have fb: "wake_frame (upd_drive c q s) (fst ?b)"
    by (rule wake_frame_fall_blocked) (simp add: self)
  have dr: "k_drives (fst ?b) ! c = q" using wake_frame_drives [OF fb] len by simp
  have turn: "drive_wait_turn c (upd_drive c q s) =
      (if hd (drive_queue_contents ?q @ [self]) \<noteq> self then ipc_wait_loop ?b else (upd_drive c q s, Done True))"
    using c cur self len front by (simp add: drive_wait_turn_def drive_can_skip_sync_def)
  have A: "drive_queue_contents (k_drives s' ! c) = drive_queue_contents ?q @ [self]"
  proof -
    have "k_drives (fst (drive_wait_turn c (upd_drive c q s))) ! c = q" unfolding turn using dr len by simp
    then show ?thesis using tk q(3) unfolding take_eq by simp
  qed
  have B: "if drive_queue_contents ?q = [] then r = Done True
       else if hd (drive_queue_contents ?q) = self then r = Done True else r \<in> {Switch, Retry}"
    using arg_cong [OF tk, of snd] unfolding take_eq turn
    by (cases "drive_queue_contents ?q") (auto simp: ipc_wait_loop_def split: prod.splits outcome.splits if_splits)
  have give: "?g = (if drive_queue_front ?q \<noteq> self then s else
        (let p = fst (drive_queue_pop ?q); u = upd_drive c p s in
         if dq_count p > 0 then
           (case get_task u (drive_queue_front p) of None \<Rightarrow> u
            | Some next \<Rightarrow> task_run next (mtask_run_now (Some next) u)) else u))"
    using c cur self by (simp add: DriveSemaphoreGive_def drive_can_skip_sync_def)
  have sw: "sched_wf ?g"
    unfolding give Let_def using wf(2)
    by (auto dest!: get_task_bound intro!: sched_wf_task_run sched_wf_run_now simp: ptr_ok_def wake_frameD(1) [OF wake_frame_run_now] split: option.splits)
  have C: "case drive_queue_contents ?q of
         [] \<Rightarrow> self \<noteq> UINT_MAX \<longrightarrow> ?g = s
       | t # ts \<Rightarrow> if t \<noteq> self then ?g = s
           else drive_queue_contents (k_drives ?g ! c) = ts
             \<and> (\<forall>n ns. ts = n # ns \<and> get_task s n = Some n \<and> t_state (tsk s n) \<in> {WAITING, SLEEPING} \<longrightarrow>
                  t_state (tsk ?g n) = RUNNING)"
  proof (cases "drive_queue_contents ?q")
    case Nil then show ?thesis using give drive_queue_front_contents [OF wq] by simp
  next
    case (Cons t ts)
    show ?thesis
    proof (cases "t = self")
      case False then show ?thesis using Cons give drive_queue_front_contents [OF wq] by simp
    next
      case True
      define p where "p = fst (drive_queue_pop ?q)"
      have p: "drive_queue_wf p" "drive_queue_contents p = ts"
        using drive_queue_pop_wf [OF wq Cons] by (simp_all add: p_def)
      let ?u = "upd_drive c p s"
      have g: "?g = (if ts \<noteq> [] then (case get_task s (drive_queue_front p) of None \<Rightarrow> ?u
            | Some next \<Rightarrow> task_run next (mtask_run_now (Some next) ?u)) else ?u)"
        unfolding give using True Cons drive_queue_front_contents [OF wq] p(2)
        by (simp add: Let_def p_def [symmetric] drive_queue_count_contents del: drive_queue_length)
      have fr: "wake_frame ?u (task_run n (mtask_run_now (Some n) ?u))" if "n < slot_count s" for n
        by (rule wake_frame_trans [OF wake_frame_run_now wake_frame_task_run])
          (simp add: that wake_frameD(1) [OF wake_frame_run_now])
      have "drive_queue_contents (k_drives ?g ! c) = ts"
        unfolding g using wake_frame_drives [OF fr] len p(2)
        by (auto dest!: get_task_bound split: option.splits)
      moreover have "t_state (tsk ?g n) = RUNNING"
        if "ts = n # ns" "get_task s n = Some n" "t_state (tsk s n) \<in> {WAITING, SLEEPING}" for n ns
      proof -
        have n: "n < slot_count s" using get_task_bound [OF that(2)] by simp
        have "tsk (mtask_run_now (Some n) ?u) n = tsk s n" by (simp add: mtask_run_now_def)
        moreover have "drive_queue_front p = n" using drive_queue_front_contents [OF p(1)] p(2) that(1) by simp
        ultimately show ?thesis
          unfolding g using that task_run_blocked [of n "mtask_run_now (Some n) ?u"] n
          by (simp add: wake_frameD(1) [OF wake_frame_run_now])
      qed
      ultimately show ?thesis using Cons True by auto
    qed
  qed
  show ?thesis using A B sw C by blast
qed

definition drives_example :: kernel where
  "drives_example = sched_example\<lparr>k_drives := replicate 16 drive_queue_empty\<rparr>"

lemma drives_example_facts:
  "drives_wf drives_example" "sched_wf drives_example" "current_task drives_example = Some 0"
  "drive_queue_contents (k_drives drives_example ! 3) = []"
proof -
  show "sched_wf drives_example" using sched_example_wf unfolding drives_example_def by (subst sched_wf_cong) auto
qed (simp_all add: drives_example_def drives_wf_def current_task_def example_defs)

text \<open>The same disk, with entry 3 of the serialization table naming it.\<close>

definition disks_named :: disks where
  "disks_named = (disks_example 2)\<lparr>v_names := (replicate 16 None)[3 := Some (NameOf 0)]\<rparr>"

lemma disks_named_facts:
  "vdisk_type disks_named 65 = VDISK_TYPE_BLOCK" "readable_range disks_named 65 2 3" "disk_drive_slot disks_named 65 = 3"
  by (code_simp, simp_all add: readable_range_def drive_index_def vdisk_used_def vdisk_type_def disks_named_def disks_example_def, code_simp)


lemma drive_semaphore_turns_witness:
  "drive_queue_contents (k_drives (fst (DriveSemaphoreTake True 3 drives_example)) ! 3) = [0]"
proof -
  have room: "length (drive_queue_contents (k_drives drives_example ! 3)) < DRIVE_QUEUE_MAX"
    by (simp only: drives_example_facts) (simp add: DRIVE_QUEUE_MAX_def)
  obtain s' r where r: "DriveSemaphoreTake True 3 drives_example = (s', r)" by force
  show ?thesis unfolding r using drive_semaphore_turns [OF drives_example_facts(1,2) _ drives_example_facts(3) room r]
    by (simp add: drives_example_facts)
qed

text \<open>The serialization table points into the disk table, so re-using a letter renames an entry: after
  disk A is logged out and another disk is registered there, a disk B that shared the old name no longer
  resolves to the queue it used so far.  (With the boot constant \<open>DISK_DRIVE\<close> in entry 0.)\<close>

theorem reregistration_moves_slot:
  "let boot = fst (SetDrive (init_vdisk (disks_example 8)) (Constant ''DISK_DRIVE''));
       disk = v_ctl (disks_example 8) ! 0;
       two = fst (register_vdisk_at (\<lambda>_. True) 66 disk (fst (register_vdisk_at (\<lambda>_. True) 65 disk boot)));
       reused = fst (register_vdisk_at (\<lambda>_. True) 65 (disk\<lparr>vd_name := ''y''\<rparr>) (fst (logout_vdisk 65 two)))
   in disk_drive_slot two 66 = 1 \<and> disk_drive_slot reused 66 = 0 \<and> disk_drive_slot reused 65 = 1
      \<and> v_ctl reused ! 1 = v_ctl two ! 1"
  by code_simp

end
