(* ===== verification/Lifecycle.thy ===== *)
theory Lifecycle
  imports Vdisk
begin

text \<open>
  The life cycle of a task in \<^verbatim>\<open>kernel/dos/task/mtask.c\<close>: the slot registry, creation and fork, teardown,
  termination, waiting for a child, and the scheduler's choice of the next task.  The outcome of an
  allocation, the address space a clone gives and the clock are arguments.  Resources the model does not
  hold (stacks, user memory, file systems, timers, sockets, consoles) are released by calls that are
  left out; every field and table modelled here is updated as in the code.
\<close>

section \<open>The slot registry\<close>

text \<open>
  \<open>mem\<close> is what \<open>page_malloc\<close> left in the new chunk; only its \<open>generation\<close> fields survive the reset.
\<close>

definition task_registry_grow :: "bool \<Rightarrow> bool \<Rightarrow> (nat \<Rightarrow> mtask) \<Rightarrow> kernel \<Rightarrow> kernel \<times> bool" where
  "task_registry_grow page_ok realloc_ok mem s =
     (if slot_count s > UINT_MAX - TASK_SLOT_CHUNK_SIZE then (s, False)
      else if \<not> page_ok then (s, False)
      else
        (let first_tid = slot_count s;
             chunk = map (\<lambda>i. task_slot_reset (first_tid + i) (mem i)) [0..<TASK_SLOT_CHUNK_SIZE];
             capacity = (if k_chunk_capacity s = 0 then 1 else k_chunk_capacity s * 2 mod 2 ^ 32)
         in if k_chunk_count s = k_chunk_capacity s
               \<and> (capacity < k_chunk_capacity s \<or> capacity > UINT_MAX div 4 \<or> \<not> realloc_ok)
            then (s, False)
            else (s\<lparr>k_chunk_capacity := (if k_chunk_count s = k_chunk_capacity s then capacity else k_chunk_capacity s),
                    k_chunk_count := k_chunk_count s + 1,
                    k_slots := k_slots s @ chunk,
                    k_free_hint := (if first_tid < k_free_hint s then first_tid else k_free_hint s)\<rparr>, True)))"

definition slot_first :: "bool \<Rightarrow> kernel \<Rightarrow> nat" where
  "slot_first allow_zero s = (if \<not> allow_zero \<and> k_free_hint s = 0 then 1 else k_free_hint s)"

text \<open>Claiming an empty slot at or after the hint.\<close>

definition task_slot_take :: "bool \<Rightarrow> kernel \<Rightarrow> (kernel \<times> nat) option" where
  "task_slot_take allow_zero s =
     (case find (\<lambda>tid. t_state (tsk s tid) = EMPTY) [slot_first allow_zero s..<slot_count s] of
        None \<Rightarrow> None
      | Some tid \<Rightarrow>
          (let generation = (if t_generation (tsk s tid) + 1 = 0 then 1 else t_generation (tsk s tid) + 1)
           in Some ((upd_task tid (\<lambda>k. (task_slot_reset tid k)\<lparr>t_generation := generation, t_state := ALLOCATING\<rparr>) s)
                      \<lparr>k_free_hint := tid + 1\<rparr>, tid)))"

text \<open>
  The loop of \<open>task_slot_claim\<close>: scan, grow when the scan finds nothing, and scan again.  After growing the
  hint is at or before the new, empty chunk, so the second scan succeeds and two rounds are enough.
\<close>

definition task_slot_claim :: "bool \<Rightarrow> bool \<Rightarrow> (nat \<Rightarrow> mtask) \<Rightarrow> bool \<Rightarrow> kernel \<Rightarrow> kernel \<times> nat option" where
  "task_slot_claim page_ok realloc_ok mem allow_zero s =
     (case task_slot_take allow_zero s of
        Some (s, tid) \<Rightarrow> (s, Some tid)
      | None \<Rightarrow>
          (case task_registry_grow page_ok realloc_ok mem s of
             (s, False) \<Rightarrow> (s, None)
           | (s, True) \<Rightarrow>
               (case task_slot_take allow_zero s of
                  Some (s, tid) \<Rightarrow> (s, Some tid)
                | None \<Rightarrow> (s, None))))"

definition task_slot_release :: "nat \<Rightarrow> kernel \<Rightarrow> kernel" where
  "task_slot_release t s =
     (let tid = t_tid (tsk s t);
          s = scheduler_remove t s;
          s = upd_task t (task_slot_reset tid) s
      in if tid < k_free_hint s then s\<lparr>k_free_hint := tid\<rparr> else s)"

section \<open>Creation\<close>

record alloc_results =
  a_page_ok :: bool
  a_realloc_ok :: bool
  a_mem :: "nat \<Rightarrow> mtask"
  a_stack_ok :: bool
  a_clone :: nat
  a_fs_ok :: bool

definition create_task_impl :: "alloc_results \<Rightarrow> bool \<Rightarrow> nat \<Rightarrow> bool \<Rightarrow> u32 \<Rightarrow> bool \<Rightarrow> kernel \<Rightarrow> kernel \<times> nat option" where
  "create_task_impl a shared_smp kernel_space init_ok weight share s =
     (let (s, pinned) = (if share \<and> k_active s \<and> \<not> shared_smp
             then task_pin_address_space (t_address_space (tsk s (current_tid s))) (k_this_cpu s) s
             else (s, True)) in
      if \<not> pinned then (s, None)
      else
        (case task_slot_claim (a_page_ok a) (a_realloc_ok a) (a_mem a) (\<not> k_active s) s of
           (s, None) \<Rightarrow> (s, None)
         | (s, Some t) \<Rightarrow>
             (let cur = tsk s (current_tid s);
                  s = upd_task t (\<lambda>k. k\<lparr>t_kind := (if share then TASK_THREAD else TASK_PROCESS),
                        t_tgid := (if share \<and> k_active s then t_tgid cur else t_tid k),
                        t_ptid := (if share \<and> k_active s then t_ptid cur else TASK_ID_NONE)\<rparr>) s;
                  s = (if share \<and> k_active s \<and> \<not> shared_smp
                       then upd_task t (\<lambda>k. k\<lparr>t_cpu := k_this_cpu s, t_pinned := True, t_idle := False\<rparr>) s else s)
              in if \<not> a_stack_ok a then (task_slot_release t s, None)
                 else
                   (let space = (if \<not> k_active s then kernel_space
                                 else if share then t_address_space cur else a_clone a);
                        s = upd_task t (\<lambda>k. k\<lparr>t_address_space := space\<rparr>) s
                    in if k_active s \<and> \<not> share \<and> space = 0 then (task_slot_release t s, None)
                       else
                         (let s = upd_task t (\<lambda>k. k\<lparr>t_weight := weight\<rparr>) s
                          in if init_ok \<and> \<not> a_fs_ok a then (task_slot_release t s, None)
                             else (s, Some t))))))"

definition task_address_space_owner :: "nat \<Rightarrow> kernel \<Rightarrow> nat" where
  "task_address_space_owner asp s =
     (let uses = (\<lambda>t. task_slot_in_use (tsk s t) \<and> t_address_space (tsk s t) = asp) in
      case find (\<lambda>t. uses t \<and> t_kind (tsk s t) = TASK_PROCESS \<and> t_tid (tsk s t) = t_tgid (tsk s t)) [0..<slot_count s] of
        Some t \<Rightarrow> t_tid (tsk s t)
      | None \<Rightarrow> (case find uses [0..<slot_count s] of
                  Some t \<Rightarrow> t_tgid (tsk s t) | None \<Rightarrow> TASK_ID_NONE))"

section \<open>Teardown\<close>

definition task_clear_external_refs :: "nat \<Rightarrow> kernel \<Rightarrow> kernel" where
  "task_clear_external_refs task s =
     (let s = (case get_task s (t_tgid (tsk s task)) of
                 None \<Rightarrow> s
               | Some leader \<Rightarrow>
                   if t_group_lock_owner (tsk s leader) = t_tid (tsk s task)
                   then wake_group_lock_waiters (t_tgid (tsk s task))
                          (upd_task leader (\<lambda>k. k\<lparr>t_group_lock_owner := TASK_ID_NONE, t_group_lock_depth := 0\<rparr>) s)
                   else s);
          s = s\<lparr>k_cpus := map (\<lambda>c. if c_next c = Some task then c\<lparr>c_next := None\<rparr> else c) (k_cpus s)\<rparr>;
          s = (if k_mouse_use s = Some task then s\<lparr>k_mouse_use := None\<rparr> else s);
          s = (if k_keyboard_use s = Some task then s\<lparr>k_keyboard_use := None\<rparr> else s);
          s = lock_cancel_task task s;
          s = futex_cancel_task task s;
          s = ipc_task_cleanup (Some task) s
      in vdisk_remove_task (t_tid (tsk s task)) s)"

definition task_release_resources :: "nat \<Rightarrow> kernel \<Rightarrow> kernel" where
  "task_release_resources task s =
     upd_task task (\<lambda>k. k\<lparr>t_urgent := False, t_fifosleep := False, t_waittid := TASK_ID_NONE,
         t_wait_generation := 0, t_wait_reason := WR_NONE, t_ready := False, t_address_space := 0,
         t_pending := 0, t_blocked := 0, t_group_lock_owner := TASK_ID_NONE, t_group_lock_depth := 0\<rparr>)
       (task_clear_external_refs task s)"

definition task_abort_creation :: "nat option \<Rightarrow> kernel \<Rightarrow> kernel" where
  "task_abort_creation task s =
     (case task of
        None \<Rightarrow> s
      | Some t \<Rightarrow>
          if t_state (tsk s t) \<noteq> ALLOCATING then s
          else task_slot_release t (task_release_resources t s))"

text \<open>Whom \<open>wake_child_waiter\<close> wakes for a child.\<close>

definition child_waiter :: "nat \<Rightarrow> nat \<Rightarrow> u32 \<Rightarrow> kernel \<Rightarrow> nat \<Rightarrow> bool" where
  "child_waiter owner tid generation s w \<longleftrightarrow>
     \<not> (\<not> task_slot_in_use (tsk s w) \<or> t_tgid (tsk s w) \<noteq> owner
        \<or> t_state (tsk s w) \<noteq> WAITING \<or> t_wait_reason (tsk s w) \<noteq> WR_CHILD
        \<or> (t_waittid (tsk s w) \<noteq> TASK_ID_NONE
           \<and> (t_waittid (tsk s w) \<noteq> tid \<or> t_wait_generation (tsk s w) \<noteq> generation)))"

definition wake_child_waiter :: "nat \<Rightarrow> kernel \<Rightarrow> kernel" where
  "wake_child_waiter child s =
     (let c = tsk s child; owner = (if t_kind c = TASK_THREAD then t_tgid c else t_ptid c) in
      if owner = TASK_ID_NONE \<or> owner = REAPER_TID then s
      else for_slots (child_waiter owner (t_tid c) (t_generation c)) task_run s)"

definition reparent_children :: "nat \<Rightarrow> nat \<Rightarrow> kernel \<Rightarrow> kernel" where
  "reparent_children old_parent new_parent =
     for_slots (\<lambda>s i. \<not> (\<not> task_slot_in_use (tsk s i) \<or> t_kind (tsk s i) \<noteq> TASK_PROCESS
                      \<or> t_ptid (tsk s i) \<noteq> old_parent))
       (\<lambda>i s.
          let s = upd_task i (\<lambda>k. k\<lparr>t_ptid := new_parent\<rparr>) s;
              s = for_slots (\<lambda>s j. task_slot_in_use (tsk s j) \<and> t_kind (tsk s j) = TASK_THREAD
                                 \<and> t_tgid (tsk s j) = t_tgid (tsk s i))
                    (\<lambda>j. upd_task j (\<lambda>k. k\<lparr>t_ptid := new_parent\<rparr>)) s
          in if t_state (tsk s i) = DIED \<and> new_parent = REAPER_TID then task_slot_release i s else s)"

definition finish_task :: "nat \<Rightarrow> u32 \<Rightarrow> bool \<Rightarrow> kernel \<Rightarrow> kernel" where
  "finish_task task status waitable s =
     (let is_current = (current_task s = Some task);
          s = scheduler_remove task s;
          s = task_release_resources task s;
          s = upd_task task (\<lambda>k. k\<lparr>t_status := status\<rparr>) s;
          s = wake_child_waiter task s
      in if waitable then upd_task task (\<lambda>k. k\<lparr>t_state := DIED\<rparr>) s
         else if is_current then upd_task task (\<lambda>k. k\<lparr>t_state := WILL_EMPTY\<rparr>) s
         else task_slot_release task s)"

section \<open>Termination\<close>

text \<open>
  \<open>task_finish_pending\<close> and \<open>request_task_termination\<close> call each other through \<open>terminate_thread_group\<close>, but
  only for the threads of a process; a thread does not terminate others.  So the recursion is unrolled:
  first both on a thread, then the group, then both on any task.
\<close>

definition task_finish_thread :: "nat \<Rightarrow> kernel \<Rightarrow> kernel" where
  "task_finish_thread task s =
     (let status = t_terminate_status (tsk s task);
          s = upd_task task (\<lambda>k. k\<lparr>t_terminate_pending := False\<rparr>) s
      in finish_task task status (t_joinable (tsk s task)) s)"

definition request_with :: "(nat \<Rightarrow> kernel \<Rightarrow> kernel) \<Rightarrow> nat \<Rightarrow> u32 \<Rightarrow> kernel \<Rightarrow> kernel" where
  "request_with finish task status s =
     (let s = upd_task task (\<lambda>k. k\<lparr>t_terminate_status := status, t_terminate_pending := True\<rparr>) s
      in if t_on_cpu (tsk s task) \<and> current_task s \<noteq> Some task
         then scheduler_request (t_cpu (tsk s task)) s
         else finish task s)"

definition terminate_thread_group :: "nat \<Rightarrow> nat \<Rightarrow> kernel \<Rightarrow> kernel" where
  "terminate_thread_group tgid except =
     for_slots (\<lambda>s i. \<not> (i = except \<or> \<not> task_slot_in_use (tsk s i) \<or> t_kind (tsk s i) \<noteq> TASK_THREAD
                      \<or> t_tgid (tsk s i) \<noteq> tgid))
       (\<lambda>i s.
          let s = upd_task i (\<lambda>k. k\<lparr>t_joinable := False\<rparr>) s in
          if t_state (tsk s i) = DIED then task_slot_release i s
          else request_with task_finish_thread i TASK_KILLED_STATUS s)"

definition task_group_has_threads :: "kernel \<Rightarrow> nat \<Rightarrow> bool" where
  "task_group_has_threads s self =
     (\<exists>t\<in>set [0..<slot_count s]. task_slot_in_use (tsk s t) \<and> t \<noteq> self \<and> t_kind (tsk s t) = TASK_THREAD
        \<and> t_tgid (tsk s t) = t_tgid (tsk s self) \<and> t_address_space (tsk s t) \<noteq> 0)"

definition task_finish_pending :: "nat \<Rightarrow> kernel \<Rightarrow> kernel" where
  "task_finish_pending task s =
     (if t_kind (tsk s task) \<noteq> TASK_PROCESS then task_finish_thread task s
      else
        (let status = t_terminate_status (tsk s task);
             s = upd_task task (\<lambda>k. k\<lparr>t_terminate_pending := False\<rparr>) s;
             s = terminate_thread_group (t_tgid (tsk s task)) task s
         in if task_group_has_threads s task
            then upd_task task (\<lambda>k. k\<lparr>t_wait_reason := WR_CHILD, t_waittid := TASK_ID_NONE, t_wait_generation := 0\<rparr>)
                   (task_set_state task WAITING (upd_task task (\<lambda>k. k\<lparr>t_terminate_pending := True\<rparr>) s))
            else
              (let s = reparent_children (t_tgid (tsk s task)) REAPER_TID s;
                   waitable = (t_joinable (tsk s task)
                     \<or> (t_ptid (tsk s task) \<noteq> TASK_ID_NONE \<and> t_ptid (tsk s task) \<noteq> REAPER_TID))
               in finish_task task status waitable s)))"

definition request_task_termination :: "nat \<Rightarrow> u32 \<Rightarrow> kernel \<Rightarrow> kernel" where
  "request_task_termination = request_with task_finish_pending"

text \<open>\<open>SwitchThen ()\<close>: the killer was the target, calls \<open>task_next\<close> and never returns from it.\<close>

definition task_kill :: "nat \<Rightarrow> kernel \<Rightarrow> kernel \<times> unit outcome" where
  "task_kill tid s =
     (case get_task s tid of
        None \<Rightarrow> (s, Done ())
      | Some task \<Rightarrow>
          if t_state (tsk s task) = DIED then (s, Done ())
          else (request_task_termination task TASK_KILLED_STATUS s,
                if current_task s = Some task then SwitchThen () else Done ()))"

definition task_exit_process :: "u32 \<Rightarrow> kernel \<Rightarrow> kernel" where
  "task_exit_process status s =
     (let self = current_tid s;
          leader = get_task s (t_tgid (tsk s self));
          s = terminate_thread_group (t_tgid (tsk s self)) self s;
          s = reparent_children (t_tgid (tsk s self)) REAPER_TID s;
          s = (case leader of
                 None \<Rightarrow> s
               | Some l \<Rightarrow> if l \<noteq> self then request_task_termination l status s else s);
          s = upd_task self (\<lambda>k. k\<lparr>t_terminate_status := status\<rparr>) s
      in task_finish_pending self s)"

definition task_exit :: "u32 \<Rightarrow> kernel \<Rightarrow> kernel" where
  "task_exit status s =
     (let task = current_tid s in
      task_finish_pending task (upd_task task (\<lambda>k. k\<lparr>t_terminate_status := status\<rparr>) s))"

section \<open>Waiting for a child or a thread\<close>

definition task_can_join :: "kernel \<Rightarrow> nat \<Rightarrow> nat option \<Rightarrow> bool \<Rightarrow> bool" where
  "task_can_join s self target thread =
     (case target of
        None \<Rightarrow> False
      | Some t \<Rightarrow> t \<noteq> self \<and>
          (if thread
           then t_kind (tsk s t) = TASK_THREAD \<and> t_joinable (tsk s t) \<and> t_tgid (tsk s t) = t_tgid (tsk s self)
           else t_kind (tsk s t) = TASK_PROCESS \<and> t_ptid (tsk s t) = t_tgid (tsk s self)))"

text \<open>The check before the loop of \<open>task_wait\<close>: the generation to wait for.\<close>

definition task_wait_begin :: "nat \<Rightarrow> u32 \<Rightarrow> bool \<Rightarrow> kernel \<Rightarrow> u32 option" where
  "task_wait_begin tid generation thread s =
     (let self = current_tid s; child = get_task s tid in
      if \<not> task_can_join s self child thread
         \<or> (generation \<noteq> 0 \<and> t_generation (tsk s (the child)) \<noteq> generation)
      then None else Some (t_generation (tsk s (the child))))"

text \<open>One iteration of its loop; \<open>None\<close> is the result \<open>-1\<close>.\<close>

definition task_wait :: "nat \<Rightarrow> u32 \<Rightarrow> bool \<Rightarrow> kernel \<Rightarrow> kernel \<times> u32 option outcome" where
  "task_wait tid generation thread s =
     (let self = current_tid s; child = get_task s tid;
          clear = upd_task self (\<lambda>k. k\<lparr>t_waittid := TASK_ID_NONE, t_wait_generation := 0, t_wait_reason := WR_NONE\<rparr>)
      in if \<not> task_can_join s self child thread \<or> t_generation (tsk s (the child)) \<noteq> generation
         then (clear s, Done None)
         else if t_state (tsk s (the child)) = DIED
         then (task_slot_release (the child) (clear s), Done (Some (t_status (tsk s (the child)))))
         else
           (upd_task self (\<lambda>k. k\<lparr>t_ready := False\<rparr>)
              (task_set_state self WAITING
                 (upd_task self (\<lambda>k. k\<lparr>t_waittid := tid, t_wait_generation := generation,
                                       t_wait_reason := WR_CHILD\<rparr>) s)), Switch))"

definition task_detach_thread :: "nat \<Rightarrow> u32 \<Rightarrow> kernel \<Rightarrow> kernel \<times> int" where
  "task_detach_thread tid generation s =
     (case get_task s tid of
        None \<Rightarrow> (s, -22)
      | Some t \<Rightarrow>
          if generation = 0 \<or> t_generation (tsk s t) \<noteq> generation \<or> t_kind (tsk s t) \<noteq> TASK_THREAD
             \<or> t_tgid (tsk s t) \<noteq> t_tgid (tsk s (current_tid s)) \<or> \<not> t_joinable (tsk s t)
          then (s, -22)
          else
            (let s = upd_task t (\<lambda>k. k\<lparr>t_joinable := False\<rparr>) s
             in (if t_state (tsk s t) = DIED then task_slot_release t s else s, 0)))"

definition task_terminate_thread :: "nat \<Rightarrow> u32 \<Rightarrow> kernel \<Rightarrow> kernel \<times> int" where
  "task_terminate_thread tid generation s =
     (case get_task s tid of
        None \<Rightarrow> (s, -22)
      | Some t \<Rightarrow>
          if generation = 0 \<or> t_generation (tsk s t) \<noteq> generation \<or> t_kind (tsk s t) \<noteq> TASK_THREAD
             \<or> t_tgid (tsk s t) \<noteq> t_tgid (tsk s (current_tid s))
          then (s, -22) else (fst (task_kill tid s), 0))"

section \<open>Fork\<close>

text \<open>
  The child record of \<open>task_fork\<close>: a copy of the parent with the fields the code resets, then the ones it
  sets after the allocations.
\<close>

definition fork_record :: "nat \<Rightarrow> u32 \<Rightarrow> mtask \<Rightarrow> mtask" where
  "fork_record tid generation parent =
     ipc_task_init (parent\<lparr>t_tid := tid, t_generation := generation, t_kind := TASK_PROCESS,
       t_joinable := False, t_tgid := tid, t_ptid := t_tgid parent, t_state := ALLOCATING,
       t_on_cpu := False, t_queued := False, t_idle := False, t_pinned := False, t_runtime_ns := 0,
       t_terminate_pending := False, t_terminate_status := 0, t_address_space := 0,
       t_waittid := TASK_ID_NONE, t_wait_generation := 0, t_wait_reason := WR_NONE,
       t_waiting_lock := None, t_group_lock_owner := TASK_ID_NONE, t_group_lock_depth := 0,
       t_ready := False, t_urgent := False, t_pending := 0\<rparr>)"

text \<open>\<open>copies_ok\<close>: the stack, heap, FIFO and file-system copies all succeed.\<close>

definition task_fork :: "alloc_results \<Rightarrow> bool \<Rightarrow> kernel \<Rightarrow> kernel \<times> nat option" where
  "task_fork a copies_ok s =
     (let parent = current_tid s in
      case task_slot_claim (a_page_ok a) (a_realloc_ok a) (a_mem a) False s of
        (s, None) \<Rightarrow> (s, None)
      | (s, Some child) \<Rightarrow>
          (let s = upd_task child (\<lambda>k. fork_record (t_tid k) (t_generation k) (tsk s parent)) s in
           if \<not> a_stack_ok a \<or> \<not> copies_ok \<or> a_clone a = 0 then (task_abort_creation (Some child) s, None)
           else
             (let s = upd_task child (\<lambda>k. k\<lparr>t_address_space := a_clone a, t_weight := 1\<rparr>) s;
                  (s, published) = task_publish (Some child) s
              in if published then (s, Some child) else (task_abort_creation (Some child) s, None))))"

section \<open>The next task\<close>

definition scheduler_task_eligible :: "kernel \<Rightarrow> nat option \<Rightarrow> nat \<Rightarrow> nat option \<Rightarrow> bool" where
  "scheduler_task_eligible s task cpu current =
     (case task of
        None \<Rightarrow> False
      | Some t \<Rightarrow> t_state (tsk s t) = RUNNING \<and> t_cpu (tsk s t) = cpu \<and> \<not> t_terminate_pending (tsk s t)
                  \<and> \<not> t_idle (tsk s t) \<and> (\<not> t_on_cpu (tsk s t) \<or> current = Some t))"

text \<open>A queued task whose termination the scan has to finish first.\<close>

definition pick_pending :: "kernel \<Rightarrow> nat option \<Rightarrow> nat \<Rightarrow> bool" where
  "pick_pending s current c \<longleftrightarrow>
     t_terminate_pending (tsk s c) \<and> \<not> t_on_cpu (tsk s c) \<and> current \<noteq> Some c"

text \<open>Whether a candidate replaces the best task so far: more urgent, then less virtual time, then tid.\<close>

definition pick_better :: "kernel \<Rightarrow> nat option \<Rightarrow> nat \<Rightarrow> nat option \<Rightarrow> bool" where
  "pick_better s hint c best =
     (case best of
        None \<Rightarrow> True
      | Some n \<Rightarrow>
          (t_urgent (tsk s c) \<and> \<not> t_urgent (tsk s n))
          \<or> (t_urgent (tsk s c) = t_urgent (tsk s n) \<and>
             (t_vruntime (tsk s c) < t_vruntime (tsk s n)
              \<or> (t_vruntime (tsk s c) = t_vruntime (tsk s n) \<and> best \<noteq> hint \<and> t_tid (tsk s c) < t_tid (tsk s n)))))"

text \<open>The scan without pending tasks: the chosen task and the least virtual time of the eligible ones.\<close>

definition pick_scan :: "kernel \<Rightarrow> nat \<Rightarrow> nat option \<Rightarrow> nat option \<Rightarrow> nat list \<Rightarrow> nat option \<times> u64 \<Rightarrow> nat option \<times> u64" where
  "pick_scan s cpu current hint ts acc =
     fold (\<lambda>c (next, minimum).
        if \<not> scheduler_task_eligible s (Some c) cpu current then (next, minimum)
        else (if pick_better s hint c next then Some c else next,
              if t_vruntime (tsk s c) < minimum then t_vruntime (tsk s c) else minimum)) ts acc"

definition pick_choose :: "nat \<Rightarrow> nat option \<Rightarrow> kernel \<Rightarrow> kernel \<times> nat option" where
  "pick_choose index hint s =
     (let cpu = cpu_of s index; current = c_current cpu;
          first = (if scheduler_task_eligible s hint index current then hint else None);
          (next, minimum) = pick_scan s index current hint (c_runnable cpu) (first, UINT64_MAX);
          minimum = (if minimum = UINT64_MAX \<and> (case current of None \<Rightarrow> False | Some c \<Rightarrow>
                           t_cpu (tsk s c) = index \<and> \<not> t_idle (tsk s c))
                     then t_vruntime (tsk s (the current)) else minimum);
          s = (if minimum \<noteq> UINT64_MAX \<and> minimum > c_min_vruntime cpu
               then upd_cpu index (\<lambda>c. c\<lparr>c_min_vruntime := minimum\<rparr>) s else s)
      in (s, if next \<noteq> None then next else c_idle cpu))"

text \<open>
  The restarts: the first pending task met is finished and the scan starts again.  Every restart finishes
  or parks one task; \<open>None\<close> when the fuel does not suffice.
\<close>

primrec pick_restart :: "nat \<Rightarrow> nat \<Rightarrow> nat option \<Rightarrow> kernel \<Rightarrow> (kernel \<times> nat option) option" where
  "pick_restart 0 index hint s = None"
| "pick_restart (Suc fuel) index hint s =
     (case find (pick_pending s (c_current (cpu_of s index))) (c_runnable (cpu_of s index)) of
        Some c \<Rightarrow> pick_restart fuel index hint (task_finish_pending c s)
      | None \<Rightarrow> Some (pick_choose index hint s))"

definition scheduler_pick_next :: "nat \<Rightarrow> nat \<Rightarrow> kernel \<Rightarrow> (kernel \<times> nat option) option" where
  "scheduler_pick_next fuel index s =
     pick_restart fuel index (c_next (cpu_of s index)) (upd_cpu index (\<lambda>c. c\<lparr>c_next := None\<rparr>) s)"

text \<open>Releasing the slots retired by earlier switches.\<close>

definition release_retired :: "kernel \<Rightarrow> kernel" where
  "release_retired s = fold task_slot_release (k_retired s) (s\<lparr>k_retired := []\<rparr>)"

text \<open>\<open>task_next\<close> up to the point where the new task runs: the last step is the switch of \<open>current\<close>.\<close>

definition task_next :: "nat \<Rightarrow> u64 \<Rightarrow> kernel \<Rightarrow> kernel option" where
  "task_next fuel now s =
     (if \<not> k_active s then Some s
      else
        (let i = k_this_cpu s in
         if k_lock_depth s \<noteq> 1 then Some (upd_cpu i (\<lambda>c. c\<lparr>c_need_resched := True\<rparr>) s)
         else case c_current (cpu_of s i) of
           None \<Rightarrow> Some s
         | Some current \<Rightarrow>
             (let s = release_retired (scheduler_account i now s);
                  s = upd_task current (\<lambda>k. k\<lparr>t_on_cpu := False\<rparr>) s;
                  s = (if t_terminate_pending (tsk s current) then task_finish_pending current s else s);
                  s = (if t_state (tsk s current) = WILL_EMPTY then task_set_state current READY s else s)
              in case scheduler_pick_next fuel i s of
                   None \<Rightarrow> None
                 | Some (s, next) \<Rightarrow>
                     (let (s, pulled) = (if next = c_idle (cpu_of s i) then scheduler_pull i s else (s, False)) in
                      case (if pulled then scheduler_pick_next fuel i s else Some (s, next)) of
                        None \<Rightarrow> None
                      | Some (s, None) \<Rightarrow> Some (upd_task current (\<lambda>k. k\<lparr>t_on_cpu := True\<rparr>) s)
                      | Some (s, Some n) \<Rightarrow>
                          (let s = upd_task n (\<lambda>k. k\<lparr>t_on_cpu := True, t_urgent := False, t_ready := False\<rparr>) s;
                               s = upd_cpu i (\<lambda>c. c\<lparr>c_need_resched := False,
                                     c_accounted_weight := (if t_weight (tsk s n) = 0 then 1 else t_weight (tsk s n))\<rparr>) s
                           in if n = current then Some s
                              else
                                (let s = (if t_state (tsk s current) = READY
                                          then s\<lparr>k_retired := current # k_retired s\<rparr> else s)
                                 in Some (upd_cpu i (\<lambda>c. c\<lparr>c_current := Some n\<rparr>) s))))))) "

definition scheduler_preempt_if_needed :: "nat \<Rightarrow> u64 \<Rightarrow> kernel \<Rightarrow> kernel option" where
  "scheduler_preempt_if_needed fuel now s =
     (if k_active s \<and> k_lock_depth s = 1 \<and> c_need_resched (cpu_of s (k_this_cpu s))
      then task_next fuel now s else Some s)"

section \<open>Consoles and snapshots\<close>

definition task_wake_tty :: "nat \<Rightarrow> kernel \<Rightarrow> kernel \<times> nat" where
  "task_wake_tty tty s =
     (let P = (\<lambda>s t. task_slot_in_use (tsk s t) \<and> t_state (tsk s t) = WAITING \<and> t_wait_reason (tsk s t) = WR_KEYBOARD
                  \<and> \<not> t_terminate_pending (tsk s t) \<and> t_tty (tsk s t) = Some tty)
      in fold (\<lambda>t (s, woken). if P s t then (task_run t s, Suc woken) else (s, woken)) [0..<slot_count s] (s, 0))"

text \<open>One pass of \<open>task_close_tty\<close> over the tasks of one kind; the flag is \<open>kill_self\<close>.\<close>

definition close_tty_pass :: "nat \<Rightarrow> nat option \<Rightarrow> task_kind \<Rightarrow> kernel \<times> bool \<Rightarrow> kernel \<times> bool" where
  "close_tty_pass tty fallback kind acc =
     fold (\<lambda>t (s, kill_self).
        if \<not> task_slot_in_use (tsk s t) \<or> t_kind (tsk s t) \<noteq> kind \<or> t_tty_session (tsk s t) \<noteq> Some tty
        then (s, kill_self)
        else
          (let s = upd_task t (\<lambda>k. k\<lparr>t_tty_session := fallback,
                      t_tty := (if t_tty k = Some tty then fallback else t_tty k)\<rparr>) s in
           if t_state (tsk s t) = DIED then (task_slot_release t s, kill_self)
           else if t = current_tid s then (s, True)
           else (fst (task_kill t (if t_kind (tsk s t) = TASK_PROCESS
                                   then upd_task t (\<lambda>k. k\<lparr>t_ptid := REAPER_TID\<rparr>) s else s)), kill_self)))
       [0..<slot_count (fst acc)] acc"

definition task_close_tty :: "nat option \<Rightarrow> nat option \<Rightarrow> kernel \<Rightarrow> kernel" where
  "task_close_tty tty fallback s =
     (case tty of
        None \<Rightarrow> s
      | Some tty \<Rightarrow>
          (let self = current_tid s;
               (s, kill_self) = close_tty_pass tty fallback TASK_THREAD
                                  (close_tty_pass tty fallback TASK_PROCESS (s, False))
           in if kill_self
              then fst (task_kill (t_tid (tsk s self))
                     (if t_kind (tsk s self) = TASK_PROCESS
                      then upd_task self (\<lambda>k. k\<lparr>t_ptid := REAPER_TID\<rparr>) s else s))
              else s))"

datatype snapshot_state = TASK_INFO_RUNNING | TASK_INFO_WAITING | TASK_INFO_SLEEPING | TASK_INFO_ZOMBIE

record task_info =
  i_tid :: nat
  i_tgid :: nat
  i_ptid :: nat
  i_generation :: u32
  i_cpu :: nat
  i_kind :: task_kind
  i_on_cpu :: bool
  i_runtime_ms :: u64
  i_state :: snapshot_state

definition task_info_of :: "mtask \<Rightarrow> task_info" where
  "task_info_of k =
     \<lparr>i_tid = t_tid k, i_tgid = t_tgid k, i_ptid = t_ptid k, i_generation = t_generation k, i_cpu = t_cpu k,
      i_kind = t_kind k, i_on_cpu = t_on_cpu k, i_runtime_ms = t_runtime_ns k div 1000000,
      i_state = (case t_state k of RUNNING \<Rightarrow> TASK_INFO_RUNNING | WAITING \<Rightarrow> TASK_INFO_WAITING
                  | SLEEPING \<Rightarrow> TASK_INFO_SLEEPING | _ \<Rightarrow> TASK_INFO_ZOMBIE)\<rparr>"

text \<open>The count stored in any case, and the entries, or \<open>None\<close> for \<open>TASK_SNAPSHOT_CAPACITY\<close>.\<close>

definition task_snapshot :: "u64 \<Rightarrow> bool \<Rightarrow> nat \<Rightarrow> kernel \<Rightarrow> kernel \<times> nat \<times> task_info list option" where
  "task_snapshot now want capacity s =
     (let s = scheduler_account (k_this_cpu s) now s;
          used = filter (\<lambda>i. t_state (tsk s i) \<notin> {EMPTY, ALLOCATING, WILL_EMPTY, READY}) [0..<slot_count s]
      in if \<not> want then (s, length used, Some [])
         else if capacity < length used then (s, length used, None)
         else (s, length used, Some (map (\<lambda>i. task_info_of (tsk s i)) used)))"

end
