(* ===== verification/LifecycleInv.thy ===== *)
theory LifecycleInv
  imports Lifecycle
begin

text \<open>
  The slot registry and the teardown of a task keep the run-queue invariant.  \<open>calm\<close> is the step relation of
  the teardown: what it may do to other tasks while one task is off the run queue but still marked
  running.
\<close>

section \<open>Updates of an unqueued task\<close>

lemma sched_wf_upd_unqueued:
  assumes "sched_wf s" "t < slot_count s" "\<not> t_queued (tsk s t)"
    and "\<not> t_queued (f (tsk s t))" "t_tid (f (tsk s t)) = t" "t_cpu (f (tsk s t)) < cpu_total s"
    and "queue_ok (f (tsk s t))"
  shows "sched_wf (upd_task t f s)"
proof (rule sched_wf_but_elim)
  have "t_tid (tsk s t) = t" using assms(1,2) by (simp add: sched_wf_tid)
  then show "sched_wf_but t (upd_task t f s)"
    using assms by (intro sched_wf_but_unqueued sched_wf_but_intro) auto
  show "queue_ok (tsk (upd_task t f s) t)" using assms by simp
qed

lemma sched_wf_idle_state:
  assumes "sched_wf s" "t < slot_count s" "t_state (tsk s t) \<noteq> RUNNING"
  shows "\<not> t_queued (tsk s t)"
  using assms by (simp add: sched_wf_def queue_ok_def)

lemma task_slot_reset_fields [simp]:
  "t_tid (task_slot_reset tid k) = tid" "t_state (task_slot_reset tid k) = EMPTY"
  "\<not> t_queued (task_slot_reset tid k)" "t_cpu (task_slot_reset tid k) = 0"
  "t_generation (task_slot_reset tid k) = t_generation k"
  "t_address_space (task_slot_reset tid k) = 0" "\<not> t_idle (task_slot_reset tid k)"
  by (simp_all add: task_slot_reset_def ipc_task_init_def)

lemma queue_ok_reset [simp]: "queue_ok (task_slot_reset tid k)"
  by (simp add: queue_ok_def)

lemma cpu_total_pos: "sched_wf s \<Longrightarrow> 0 < cpu_total s"
  using sched_wf_this_cpu by force

lemma sched_wf_others [simp]:
  "sched_wf (s\<lparr>k_free_hint := h\<rparr>) = sched_wf s" "sched_wf (s\<lparr>k_retired := r\<rparr>) = sched_wf s"
  "sched_wf (s\<lparr>k_mouse_use := m\<rparr>) = sched_wf s" "sched_wf (s\<lparr>k_keyboard_use := m\<rparr>) = sched_wf s"
  by (rule sched_wf_cong, simp_all)+

section \<open>The registry\<close>

lemma sched_wf_grow:
  assumes wf: "sched_wf s"
  shows "sched_wf (fst (task_registry_grow p r mem s))"
proof -
  let ?c = "map (\<lambda>i. task_slot_reset (slot_count s + i) (mem i)) [0..<TASK_SLOT_CHUNK_SIZE]"
  have c: "t_tid (?c ! i) = slot_count s + i" "\<not> t_queued (?c ! i)" "t_cpu (?c ! i) = 0" "queue_ok (?c ! i)"
    if "i < length ?c" for i using that by simp_all
  have old: "(k_slots s @ ?c) ! t = tsk s t" if "t < slot_count s" for t using that by (simp add: nth_append)
  have new: "\<not> t_queued ((k_slots s @ ?c) ! t)" "t_tid ((k_slots s @ ?c) ! t) = t"
    "t_cpu ((k_slots s @ ?c) ! t) = 0" "queue_ok ((k_slots s @ ?c) ! t)"
    if "slot_count s \<le> t" "t < length (k_slots s @ ?c)" for t
    using that c [of "t - slot_count s"] by (auto simp: nth_append)
  have grown: "sched_wf v" if v: "k_slots v = k_slots s @ ?c" "k_cpus v = k_cpus s" "k_this_cpu v = k_this_cpu s" for v
  proof -
    have q: "cpu_queue_wf v d" if d: "d < cpu_total s" for d
    proof -
      have w: "cpu_queue_wf s d" using wf d by (simp add: sched_wf_def runq_wf_def)
      have set: "{t. t < slot_count v \<and> t_queued (tsk v t) \<and> t_cpu (tsk v t) = d}
          = {t. t < slot_count s \<and> t_queued (tsk s t) \<and> t_cpu (tsk s t) = d}"
        unfolding set_eq_iff mem_Collect_eq v
        by (metis (no_types, lifting) new(1) old length_append trans_less_add1 not_le)
      have k: "tsk v t = tsk s t" if "t \<in> set (c_runnable (cpu_of s d))" for t
        using that w old by (simp add: v cpu_queue_wf_def)
      have "(\<Sum>t\<leftarrow>c_runnable (cpu_of s d). eff_weight (tsk v t)) = (\<Sum>t\<leftarrow>c_runnable (cpu_of s d). eff_weight (tsk s t))"
        "(\<Sum>t\<leftarrow>c_runnable (cpu_of s d). if t_pinned (tsk v t) then 0 else 1 :: u32)
          = (\<Sum>t\<leftarrow>c_runnable (cpu_of s d). if t_pinned (tsk s t) then 0 else 1)"
        by (rule sum_list_map_cong_on, simp add: k)+
      with w set show ?thesis by (simp add: cpu_queue_wf_def v(2))
    qed
    have t: "t_tid (tsk v t) = t \<and> t_cpu (tsk v t) < cpu_total v \<and> queue_ok (tsk v t)" if "t < slot_count v" for t
    proof (cases "t < slot_count s")
      case True then show ?thesis using wf by (simp add: v old sched_wf_def runq_wf_def)
    next
      case False
      with new [of t] that show ?thesis using cpu_total_pos [OF wf] by (simp add: v)
    qed
    have p: "ptr_ok v p" if "ptr_ok s p" for p using that by (auto simp: ptr_ok_def v)
    show ?thesis using q t p wf by (auto simp: sched_wf_def runq_wf_def v)
  qed
  show ?thesis using wf
    by (auto simp: task_registry_grow_def Let_def intro!: grown)
qed

lemma sched_wf_slot_take:
  assumes wf: "sched_wf s" and take: "task_slot_take z s = Some (s', tid)"
  shows "sched_wf s'"
proof -
  from take have e: "t_state (tsk s tid) = EMPTY" "tid < slot_count s"
    and s': "k_slots s' = k_slots (upd_task tid (\<lambda>k. (task_slot_reset tid k)\<lparr>t_generation :=
       (if t_generation (tsk s tid) + 1 = 0 then 1 else t_generation (tsk s tid) + 1), t_state := ALLOCATING\<rparr>) s)"
      "k_cpus s' = k_cpus s" "k_this_cpu s' = k_this_cpu s"
    by (auto simp: task_slot_take_def Let_def find_upt_Some split: option.splits)
  have "\<not> t_queued (tsk s tid)" using wf e by (intro sched_wf_idle_state) simp_all
  then have "sched_wf (upd_task tid (\<lambda>k. (task_slot_reset tid k)\<lparr>t_generation :=
       (if t_generation (tsk s tid) + 1 = 0 then 1 else t_generation (tsk s tid) + 1), t_state := ALLOCATING\<rparr>) s)"
    using wf e cpu_total_pos [OF wf] by (intro sched_wf_upd_unqueued) (simp_all add: queue_ok_def)
  then show ?thesis using s' by (subst sched_wf_cong) simp_all
qed

lemma sched_wf_slot_claim [inv_intros]: "sched_wf s \<Longrightarrow> sched_wf (fst (task_slot_claim p r m z s))"
  using sched_wf_grow [of s p r m]
  by (auto simp: task_slot_claim_def split: option.splits prod.splits bool.splits intro: sched_wf_slot_take)

lemma sched_wf_release_but:
  assumes wf: "sched_wf_but t s"
  shows "sched_wf (task_slot_release t s)"
proof -
  note r = sched_wf_but_remove [OF wf]
  have t: "t < slot_count s" "t_tid (tsk s t) = t" and c: "0 < cpu_total s"
    using wf by (auto simp: sched_wf_but_def runq_wf_def)
  let ?u = "upd_task t (task_slot_reset t) (scheduler_remove t s)"
  have "sched_wf_but t ?u"
    using r t c by (intro sched_wf_but_unqueued) (simp_all add: tsk_scheduler_remove)
  then have "sched_wf ?u" by (rule sched_wf_but_elim) (simp add: t)
  then show ?thesis
    by (simp add: task_slot_release_def Let_def t)
qed

lemma sched_wf_release [inv_intros]:
  "sched_wf s \<Longrightarrow> t < slot_count s \<Longrightarrow> sched_wf (task_slot_release t s)"
  by (intro sched_wf_release_but sched_wf_but_intro)

section \<open>Calm steps\<close>

text \<open>
  While \<open>t\<close> is being torn down other tasks are woken and fields the scheduler does not read change; the
  scheduler's view of \<open>t\<close> stays the same.
\<close>

definition life_view where
  "life_view k = (sched_view k, t_generation k, t_kind k, t_tgid k, t_ptid k, t_wait_reason k, t_waittid k,
     t_wait_generation k, t_status k, t_joinable k)"

lemma life_viewD:
  assumes "life_view k = life_view k'"
  shows "sched_view k = sched_view k'" "t_generation k = t_generation k'" "t_kind k = t_kind k'"
    "t_tgid k = t_tgid k'" "t_ptid k = t_ptid k'" "t_wait_reason k = t_wait_reason k'"
    "t_waittid k = t_waittid k'" "t_wait_generation k = t_wait_generation k'" "t_state k = t_state k'"
  using assms by (auto simp: life_view_def sched_view_def)

inductive calm :: "nat \<Rightarrow> kernel \<Rightarrow> kernel \<Rightarrow> bool" for t where
  calm_refl: "calm t s s"
| calm_task: "calm t s u \<Longrightarrow> life_view (f (tsk u x)) = life_view (tsk u x) \<Longrightarrow> calm t s (upd_task x f u)"
| calm_run: "calm t s u \<Longrightarrow> x \<noteq> t \<Longrightarrow> x < slot_count u \<Longrightarrow> calm t s (task_run x u)"
| calm_other: "calm t s u \<Longrightarrow> k_slots v = k_slots u \<Longrightarrow> k_cpus v = k_cpus u \<Longrightarrow> k_this_cpu v = k_this_cpu u \<Longrightarrow>
    calm t s v"
| calm_cpus: "calm t s u \<Longrightarrow>
    calm t s (u\<lparr>k_cpus := map (\<lambda>c. if c_next c = Some x then c\<lparr>c_next := None\<rparr> else c) (k_cpus u)\<rparr>)"

inductive_cases calm_cases: "calm t s u"

lemma calm_trans: "calm t u v \<Longrightarrow> calm t s u \<Longrightarrow> calm t s v"
  by (induction rule: calm.induct) (auto intro: calm.intros)

lemma calm_sizes: "calm t s u \<Longrightarrow> same_size s u"
  by (induction rule: calm.induct) (auto simp: same_size_def)

lemma calm_life: "calm t s u \<Longrightarrow> life_view (tsk u t) = life_view (tsk s t)"
  by (induction rule: calm.induct) (auto simp: nth_list_update_if tsk_task_run_other)

lemma calm_view: "calm t s u \<Longrightarrow> sched_view (tsk u t) = sched_view (tsk s t)"
  by (drule calm_life) (rule life_viewD(1))

lemma calm_generation: "calm t s u \<Longrightarrow> t_generation (tsk u t) = t_generation (tsk s t)"
  by (drule calm_life) (rule life_viewD(2))

lemma calm_tid:
  assumes "calm t s u" shows "t_tid (tsk u t) = t_tid (tsk s t)" "slot_count u = slot_count s"
  using calm_view [OF assms] calm_sizes [OF assms] by (simp_all add: sched_view_def same_size_def)

text \<open>Waking one task commutes with a change of another one.\<close>

lemma upd_task_swap: "x \<noteq> t \<Longrightarrow> upd_task x g (upd_task t f s) = upd_task t f (upd_task x g s)"
  by (simp add: upd_task_def list_update_swap)

lemma upd_cpu_swap: "upd_cpu c g (upd_task t f s) = upd_task t f (upd_cpu c g s)"
  by (simp add: upd_task_def upd_cpu_def)

lemma smp_send_swap: "smp_send_reschedule c (upd_task t f s) = upd_task t f (smp_send_reschedule c s)"
  by (simp add: smp_send_reschedule_def upd_task_def)

lemma tsk_upd_task_other: "x \<noteq> t \<Longrightarrow> tsk (upd_task t f s) x = tsk s x" by simp

lemma request_swap: "scheduler_request c (upd_task t f s) = upd_task t f (scheduler_request c s)"
  by (simp add: scheduler_request_def upd_cpu_swap smp_send_swap)

lemma remove_swap: "x \<noteq> t \<Longrightarrow> scheduler_remove x (upd_task t f s) = upd_task t f (scheduler_remove x s)"
  by (simp add: scheduler_remove_def tsk_upd_task_other upd_cpu_swap upd_task_swap del: upd_task_slots(1))

lemma insert_swap: "x \<noteq> t \<Longrightarrow> scheduler_insert x (upd_task t f s) = upd_task t f (scheduler_insert x s)"
  by (simp add: scheduler_insert_def tsk_upd_task_other upd_cpu_swap upd_task_swap del: upd_task_slots(1))

lemma set_state_swap: "x \<noteq> t \<Longrightarrow> task_set_state x st (upd_task t f s) = upd_task t f (task_set_state x st s)"
  by (simp add: task_set_state_def remove_swap insert_swap upd_task_swap)

lemma place_swap: "x \<noteq> t \<Longrightarrow> scheduler_place_task x c (upd_task t f s) = upd_task t f (scheduler_place_task x c s)"
  by (simp add: scheduler_place_task_def Let_def tsk_upd_task_other remove_swap insert_swap upd_task_swap request_swap
      del: upd_task_slots(1))

lemma least_loaded_swap:
  "x \<noteq> t \<Longrightarrow> scheduler_least_loaded_cpu (upd_task t f s) x = scheduler_least_loaded_cpu s x"
proof -
  assume x: "x \<noteq> t"
  have L: "scheduler_load (upd_task t f s) c (Some x) = scheduler_load s c (Some x)" for c
    using x by (simp add: scheduler_load_def)
  show ?thesis unfolding scheduler_least_loaded_cpu_def tsk_upd_task_other [OF x] upd_task_slots(2) L ..
qed

lemma task_run_swap: "x \<noteq> t \<Longrightarrow> task_run x (upd_task t f s) = upd_task t f (task_run x s)"
  by (simp add: task_run_def Let_def tsk_upd_task_other upd_task_swap set_state_swap place_swap request_swap
      least_loaded_swap del: upd_task_slots(1))

text \<open>A task off the run queue whose state is about to say so.\<close>

definition parked :: "nat \<Rightarrow> kernel \<Rightarrow> bool" where
  "parked t s \<longleftrightarrow> t < slot_count s \<and> \<not> t_queued (tsk s t) \<and> sched_wf (upd_task t (\<lambda>k. k\<lparr>t_state := DIED\<rparr>) s)"

lemma parked_upd_task:
  assumes p: "parked t s" and v: "sched_view (f (tsk s x)) = sched_view (tsk s x)"
  shows "parked t (upd_task x f s)"
proof -
  let ?die = "\<lambda>k. k\<lparr>t_state := DIED\<rparr>"
  have t: "t < slot_count s" "\<not> t_queued (tsk s t)" "sched_wf (upd_task t ?die s)" using p by (auto simp: parked_def)
  have q: "\<not> t_queued (tsk (upd_task x f s) t)"
    using t v by (auto simp: nth_list_update_if sched_view_def)
  have "sched_wf (upd_task t ?die (upd_task x f s))"
  proof (cases "x = t")
    case True
    have "upd_task t ?die (upd_task x f s) = upd_task t (\<lambda>k. ?die (f (tsk s t))) (upd_task t ?die s)"
      using True t by (simp add: upd_task_def)
    also have "sched_wf \<dots>" 
      by (rule sched_wf_upd_task) (use t v True in \<open>simp_all add: sched_view_def\<close>)
    finally show ?thesis .
  next
    case False
    have "sched_wf (upd_task x f (upd_task t ?die s))"
      by (rule sched_wf_upd_task) (use t v False in simp_all)
    then show ?thesis using False by (simp add: upd_task_swap)
  qed
  with t q show ?thesis by (simp add: parked_def)
qed

lemma parked_task_run:
  assumes p: "parked t s" and x: "x \<noteq> t" "x < slot_count s"
  shows "parked t (task_run x s)"
proof -
  have "sched_wf (task_run x (upd_task t (\<lambda>k. k\<lparr>t_state := DIED\<rparr>) s))"
    using p x by (intro sched_wf_task_run) (simp_all add: parked_def)
  then show ?thesis using p x by (simp add: parked_def task_run_swap tsk_task_run_other)
qed

lemma parked_clear_next:
  assumes "parked t s"
  shows "parked t (s\<lparr>k_cpus := map (\<lambda>c. if c_next c = Some x then c\<lparr>c_next := None\<rparr> else c) (k_cpus s)\<rparr>)"
  using assms
  by (auto simp: parked_def upd_task_def sched_wf_def runq_wf_def cpu_queue_wf_def ptr_ok_def)

lemma parked_calm: "calm t s u \<Longrightarrow> parked t s \<Longrightarrow> parked t u"
proof (induction rule: calm.induct)
  case (calm_other s u v)
  then have "sched_wf (upd_task t (\<lambda>k. k\<lparr>t_state := DIED\<rparr>) v) = sched_wf (upd_task t (\<lambda>k. k\<lparr>t_state := DIED\<rparr>) u)"
    by (intro sched_wf_cong) simp_all
  with calm_other show ?case by (simp add: parked_def)
qed (auto intro: parked_upd_task parked_task_run parked_clear_next dest: life_viewD(1))

lemma parked_remove:
  assumes "sched_wf s" "t < slot_count s" shows "parked t (scheduler_remove t s)"
proof -
  note r = sched_wf_but_remove [OF sched_wf_but_intro [OF assms]]
  have "t_cpu (tsk s t) < cpu_total s" using assms by (rule sched_wf_cpu_index)
  then have "sched_wf_but t (upd_task t (\<lambda>k. k\<lparr>t_state := DIED\<rparr>) (scheduler_remove t s))"
    using r by (intro sched_wf_but_unqueued) (simp_all add: tsk_scheduler_remove)
  then have "sched_wf (upd_task t (\<lambda>k. k\<lparr>t_state := DIED\<rparr>) (scheduler_remove t s))"
    by (rule sched_wf_but_elim) (simp add: assms queue_ok_def tsk_scheduler_remove)
  with r assms show ?thesis by (simp add: parked_def)
qed

text \<open>Leaving the parked state.\<close>

lemma parked_set_state:
  assumes p: "parked t s" and st: "st \<noteq> RUNNING"
  shows "sched_wf (upd_task t (\<lambda>k. k\<lparr>t_state := st\<rparr>) s)"
proof -
  let ?d = "upd_task t (\<lambda>k. k\<lparr>t_state := DIED\<rparr>) s"
  have t: "t < slot_count s" "sched_wf ?d" "\<not> t_queued (tsk s t)" using p by (auto simp: parked_def)
  have i: "t_tid (tsk s t) = t" "t_cpu (tsk s t) < cpu_total s"
    using sched_wf_tid [OF t(2), of t] sched_wf_cpu_index [OF t(2), of t] t(1) by simp_all
  have "sched_wf (upd_task t (\<lambda>k. k\<lparr>t_state := st\<rparr>) ?d)"
    by (rule sched_wf_upd_unqueued) (use t i st in \<open>simp_all add: queue_ok_def\<close>)
  moreover have "upd_task t (\<lambda>k. k\<lparr>t_state := st\<rparr>) ?d = upd_task t (\<lambda>k. k\<lparr>t_state := st\<rparr>) s"
    using t by (simp add: upd_task_def)
  ultimately show ?thesis by simp
qed

lemma parked_release:
  assumes p: "parked t s" shows "sched_wf (task_slot_release t s)"
proof -
  let ?d = "upd_task t (\<lambda>k. k\<lparr>t_state := DIED\<rparr>) s"
  have t: "t < slot_count s" "sched_wf ?d" "\<not> t_queued (tsk s t)" using p by (auto simp: parked_def)
  have i: "t_tid (tsk s t) = t" using sched_wf_tid [OF t(2), of t] t(1) by simp
  have "sched_wf (upd_task t (task_slot_reset t) ?d)"
    by (rule sched_wf_upd_unqueued) (use t cpu_total_pos [OF t(2)] in simp_all)
  moreover have "upd_task t (task_slot_reset t) ?d = upd_task t (task_slot_reset t) s"
    using t by (simp add: upd_task_def task_slot_reset_def)
  ultimately show ?thesis using t(3) by (simp add: task_slot_release_def Let_def i scheduler_remove_def)
qed

section \<open>The teardown is calm\<close>

text \<open>A loop that wakes tasks other than \<open>t\<close>.\<close>

lemma calm_wake_loop:
  assumes other: "\<And>u. tsk u t = tsk s t \<Longrightarrow> \<not> P u t"
  shows "calm t s (for_slots P task_run s) \<and> tsk (for_slots P task_run s) t = tsk s t"
proof -
  have "calm t s (for_slots P task_run s) \<and> tsk (for_slots P task_run s) t = tsk s t
      \<and> same_size s (for_slots P task_run s)"
  proof (rule for_slots_inv [where I = "\<lambda>u. calm t s u \<and> tsk u t = tsk s t \<and> same_size s u"])
    fix x u
    assume u: "calm t s u \<and> tsk u t = tsk s t \<and> same_size s u" and x: "x < slot_count s" "P u x"
    then have "x \<noteq> t" using other [of u] by auto
    with u x show "calm t s (task_run x u) \<and> tsk (task_run x u) t = tsk s t \<and> same_size s (task_run x u)"
      by (auto intro: calm_run simp: tsk_task_run_other same_size_def)
  qed (simp add: calm_refl)
  then show ?thesis by blast
qed

definition group_lock_ok :: "kernel \<Rightarrow> bool" where
  "group_lock_ok s \<longleftrightarrow>
     (\<forall>t < slot_count s. \<forall>l. get_task s (t_tgid (tsk s t)) = Some l \<longrightarrow>
        t_group_lock_owner (tsk s l) = t_tid (tsk s t) \<longrightarrow>
        \<not> (t_state (tsk s t) = WAITING \<and> t_wait_reason (tsk s t) = WR_TASK_GROUP_LOCK))"

text \<open>What the teardown of a task relies on.\<close>

definition teardown_ok :: "nat \<Rightarrow> kernel \<Rightarrow> bool" where
  "teardown_ok t s \<longleftrightarrow> t < slot_count s \<and> slot_count s \<le> UINT_MAX \<and> t_tid (tsk s t) = t \<and> drives_wf s
     \<and> (\<forall>l. get_task s (t_tgid (tsk s t)) = Some l \<longrightarrow> t_group_lock_owner (tsk s l) = t \<longrightarrow>
          \<not> (t_state (tsk s t) = WAITING \<and> t_wait_reason (tsk s t) = WR_TASK_GROUP_LOCK))"

lemma calm_group:
  assumes ok: "teardown_ok t s"
  shows "calm t s (case get_task s (t_tgid (tsk s t)) of None \<Rightarrow> s
     | Some leader \<Rightarrow> if t_group_lock_owner (tsk s leader) = t_tid (tsk s t)
         then wake_group_lock_waiters (t_tgid (tsk s t))
                (upd_task leader (\<lambda>k. k\<lparr>t_group_lock_owner := TASK_ID_NONE, t_group_lock_depth := 0\<rparr>) s) else s)"
proof (cases "get_task s (t_tgid (tsk s t))")
  case None then show ?thesis by (simp add: calm_refl)
next
  case (Some l)
  let ?f = "\<lambda>k. k\<lparr>t_group_lock_owner := TASK_ID_NONE, t_group_lock_depth := 0\<rparr>"
  let ?u = "upd_task l ?f s"
  have 1: "calm t s ?u" by (intro calm_task calm_refl) (simp_all add: life_view_def sched_view_def)
  show ?thesis
  proof (cases "t_group_lock_owner (tsk s l) = t_tid (tsk s t)")
    case False then show ?thesis using Some by (simp add: calm_refl)
  next
    case True
    have nw: "\<not> (t_state (tsk s t) = WAITING \<and> t_wait_reason (tsk s t) = WR_TASK_GROUP_LOCK)"
      using ok True Some by (auto simp: teardown_ok_def)
    have "calm t ?u (wake_group_lock_waiters (t_tgid (tsk s t)) ?u)"
      unfolding wake_group_lock_waiters_def
      by (rule conjunct1 [OF calm_wake_loop])
        (use nw in \<open>auto simp: group_lock_waiter_def nth_list_update_if split: if_splits\<close>)
    with 1 True Some show ?thesis by (auto intro: calm_trans)
  qed
qed

lemma calm_lock_cancel: "calm t s (lock_cancel_task t s)"
  by (cases "t_waiting_lock (tsk s t)")
    (auto simp: lock_cancel_task_def lock_waiter_remove_def life_view_def sched_view_def
      intro!: calm_task [OF calm_other [OF calm_refl]] calm_refl)

lemma calm_futex_cancel: "calm t s (futex_cancel_task t s)"
  by (auto simp: futex_cancel_task_def intro: calm_other [OF calm_refl] calm_refl)

lemma calm_ipc_cleanup:
  assumes t: "t_tid (tsk s t) = t" "t < slot_count s" "slot_count s \<le> UINT_MAX"
  shows "calm t s (ipc_task_cleanup (Some t) s)"
proof -
  define u where "u = upd_task t (\<lambda>k. k\<lparr>t_ipc_wait_peer := TASK_ID_NONE\<rparr>)
    ((upd_ipc t (\<lambda>ipc. ipc_header_init) s)\<lparr>k_services := map (\<lambda>sv. if sv_used sv \<and> sv_tid sv = t
        \<and> sv_generation sv = t_generation (tsk s t) then sv\<lparr>sv_used := False, sv_name := []\<rparr> else sv) (k_services s)\<rparr>)"
  define v where "v = ipc_wake_senders t u"
  define g where "g = t_generation (tsk s t)"
  define f where "f = (\<lambda>w s. fst (ipc_wake_receiver w (upd_ipc w (\<lambda>ipc. ipc\<lparr>h_rpc := map_option (\<lambda>call.
                      call\<lparr>rp_status := RPC_ERR_NO_SERVICE, rp_completed := True\<rparr>) (h_rpc ipc)\<rparr>) s)))"
  let ?P = "\<lambda>s w. task_slot_in_use (tsk s w) \<and>
                   (case h_rpc (t_ipc (tsk s w)) of None \<Rightarrow> False
                    | Some call \<Rightarrow> rp_server_tid call = t \<and> rp_server_generation call = g)"
  have sv: "k_services (upd_ipc t h s) = k_services s" for h by (simp add: upd_ipc_def)
  have eq: "ipc_task_cleanup (Some t) s = for_slots ?P f v"
    unfolding ipc_task_cleanup_def Let_def option.case t(1) v_def u_def f_def g_def sv ..
  have tu: "t_ipc_wait_peer (tsk u t) = TASK_ID_NONE" "h_rpc (t_ipc (tsk u t)) = None" "slot_count u = slot_count s"
    using t by (simp_all add: u_def upd_ipc_def ipc_header_init_def)
  have 1: "calm t s u"
    unfolding u_def upd_ipc_def
    by (rule calm_task [OF calm_other [OF calm_task [OF calm_refl]]]) (simp_all add: life_view_def sched_view_def)
  have ne: "TASK_ID_NONE \<noteq> t" using t by (simp add: TASK_ID_NONE_def)
  have 2: "calm t u v \<and> tsk v t = tsk u t" unfolding v_def ipc_wake_senders_def
    by (rule calm_wake_loop) (use tu ne in simp)
  have "calm t v (for_slots ?P f v) \<and> tsk (for_slots ?P f v) t = tsk v t \<and> same_size v (for_slots ?P f v)"
  proof (rule for_slots_inv [where I = "\<lambda>x. calm t v x \<and> tsk x t = tsk v t \<and> same_size v x"])
    fix w x
    assume x: "calm t v x \<and> tsk x t = tsk v t \<and> same_size v x" and w: "w < slot_count v" "?P x w"
    then have wt: "w \<noteq> t" using 2 tu by auto
    let ?y = "upd_ipc w (\<lambda>ipc. ipc\<lparr>h_rpc := map_option (\<lambda>call.
                      call\<lparr>rp_status := RPC_ERR_NO_SERVICE, rp_completed := True\<rparr>) (h_rpc ipc)\<rparr>) x"
    have y: "calm t v ?y" "tsk ?y t = tsk v t" "same_size v ?y"
      using x wt unfolding upd_ipc_def by (auto intro: calm_task simp: life_view_def sched_view_def same_size_def)
    moreover have "w < slot_count ?y" using w y(3) by (simp add: same_size_def)
    ultimately show "calm t v (f w x) \<and> tsk (f w x) t = tsk v t \<and> same_size v (f w x)"
      using wt unfolding f_def
      by (auto simp: ipc_wake_receiver_def tsk_task_run_other same_size_def intro: calm_run)
  qed (simp add: calm_refl)
  with 1 2 eq show ?thesis by (metis calm_trans)
qed

text \<open>Taking a task out of the drive queues wakes the fronts left, which are other tasks.\<close>

lemma calm_vdisk_remove:
  assumes wf: "drives_wf s" and bound: "t < slot_count s" "slot_count s \<le> UINT_MAX"
  shows "calm t s (vdisk_remove_task t s) \<and> (\<forall>q\<in>set (k_drives (vdisk_remove_task t s)). t \<notin> set (drive_queue_contents q))"
proof -
  define step where "step = (\<lambda>c s.
        let (q, removed) = drive_queue_remove (k_drives s ! c) t; s = upd_drive c q s in
        if removed \<and> dq_count q > 0
        then (case get_task s (drive_queue_front q) of None \<Rightarrow> s | Some next \<Rightarrow> task_run next s)
        else s)"
  define I where "I = (\<lambda>n u. calm t s u \<and> drives_wf u \<and> slot_count u = slot_count s
      \<and> (\<forall>c<n. t \<notin> set (drive_queue_contents (k_drives u ! c))))"
  have "I n (fold step [0..<n] s)" if "n \<le> 16" for n
    using that
  proof (induction n)
    case 0 then show ?case using wf by (simp add: I_def calm_refl)
  next
    case (Suc n)
    define u where "u = fold step [0..<n] s"
    have u: "calm t s u" "drives_wf u" "slot_count u = slot_count s" "\<forall>c<n. t \<notin> set (drive_queue_contents (k_drives u ! c))"
      using Suc by (auto simp: I_def u_def)
    obtain q r where q: "drive_queue_remove (k_drives u ! n) t = (q, r)" by force
    have wq: "drive_queue_wf q" "t \<notin> set (drive_queue_contents q)"
      using drive_queue_remove_contents [OF drives_wf_queue [OF u(2), of n], of t] Suc.prems q by auto
    define v where "v = upd_drive n q u"
    have len: "length (k_drives u) = 16" using u(2) by (simp add: drives_wf_def)
    have cv: "calm t s v" using u(1) by (rule calm_other) (simp_all add: v_def)
    have dv: "drives_wf v" unfolding v_def using u(2) wq(1) by (rule drives_wf_upd)
    have nv: "\<forall>c<Suc n. t \<notin> set (drive_queue_contents (k_drives v ! c))"
      using u(4) wq(2) len Suc.prems by (auto simp: v_def nth_list_update_if less_Suc_eq)
    have sv: "slot_count v = slot_count s" using u(3) by (simp add: v_def)
    have I: "I (Suc n) v" using cv dv nv sv by (simp add: I_def)
    show ?case
    proof (cases "r \<and> dq_count q > 0 \<and> get_task v (drive_queue_front q) \<noteq> None")
      case False
      then have "step n u = v" using q by (auto simp: step_def v_def Let_def)
      then show ?thesis using I by (simp add: u_def)
    next
      case True
      then obtain x where x: "get_task v (drive_queue_front q) = Some x" by auto
      have xb: "x < slot_count v" "x = drive_queue_front q" using x by (simp_all add: get_task_Some)
      have "drive_queue_contents q \<noteq> []" using True by (metis drive_queue_length length_greater_0_conv)
      then have "drive_queue_front q \<in> set (drive_queue_contents q)"
        using drive_queue_front_contents [OF wq(1)] by (cases "drive_queue_contents q") auto
      then have xt: "x \<noteq> t" using wq(2) xb by auto
      have st: "step n u = task_run x v" using q True x by (auto simp: step_def v_def Let_def)
      have "wake_frame v (task_run x v)" using xb(1) by (rule wake_frame_task_run)
      then have "k_drives (task_run x v) = k_drives v" by (rule wake_frame_drives)
      then have "I (Suc n) (task_run x v)"
        using I xt xb calm_run [OF cv xt xb(1)] by (simp add: I_def drives_wf_def)
      then show ?thesis using st by (simp add: u_def)
    qed
  qed
  from this [of 16] have "I 16 (vdisk_remove_task t s)" by (simp add: vdisk_remove_task_def step_def)
  then show ?thesis by (simp add: I_def drives_wf_def) (metis in_set_conv_nth)
qed

section \<open>What waking leaves alone\<close>

text \<open>The tables that name tasks and that no waking step changes.\<close>

definition tables :: "kernel \<Rightarrow> nat option list \<times> lock_t list \<times> nat list list \<times> nat list
    \<times> ipc_service list \<times> drive_wait_queue list \<times> nat option \<times> nat option" where
  "tables s = (map c_next (k_cpus s), k_locks s, k_futex_buckets s, k_futex_deadlines s, k_services s,
     k_drives s, k_keyboard_use s, k_mouse_use s)"

lemma tables_upd_task [simp]: "tables (upd_task t f s) = tables s"
  by (simp add: tables_def)

lemma tables_upd_cpu: "c_next (g (cpu_of s c)) = c_next (cpu_of s c) \<Longrightarrow> tables (upd_cpu c g s) = tables s"
  by (cases "c < cpu_total s") (auto simp: tables_def map_list_update_same list_update_beyond)

lemma tables_smp_send [simp]: "tables (smp_send_reschedule c s) = tables s"
  by (simp add: smp_send_reschedule_def tables_def)

lemma tables_request [simp]: "tables (scheduler_request c s) = tables s"
  by (simp add: scheduler_request_def tables_upd_cpu)

lemma tables_queue [simp]:
  "tables (scheduler_remove t s) = tables s" "tables (scheduler_insert t s) = tables s"
  by (simp_all add: scheduler_remove_def scheduler_insert_def tables_upd_cpu)

lemma tables_place [simp]: "tables (scheduler_place_task t c s) = tables s"
  by (simp add: scheduler_place_task_def Let_def)

lemma tables_set_state [simp]: "tables (task_set_state t st s) = tables s"
  by (simp add: task_set_state_def)

lemma tables_task_run [simp]: "tables (task_run t s) = tables s"
  by (simp add: task_run_def Let_def)

lemma tables_for_slots: "(\<And>t u. tables (f t u) = tables u) \<Longrightarrow> tables (for_slots P f s) = tables s"
  using for_slots_inv [of "\<lambda>u. tables u = tables s" s P f] by simp

lemma tables_ipc_cleanup:
  assumes "t_tid (tsk s t) = t"
  shows "tables (ipc_task_cleanup (Some t) s) = tables (s\<lparr>k_services := map (\<lambda>sv. if sv_used sv \<and> sv_tid sv = t
     \<and> sv_generation sv = t_generation (tsk s t) then sv\<lparr>sv_used := False, sv_name := []\<rparr> else sv) (k_services s)\<rparr>)"
proof -
  have r: "tables (fst (ipc_wake_receiver w u)) = tables u" for w u by (simp add: ipc_wake_receiver_def)
  have i: "tables (upd_ipc w f u) = tables u" "k_services (upd_ipc w f u) = k_services u" for w f u
    by (simp_all add: upd_ipc_def)
  have j: "tables ((upd_ipc w f u)\<lparr>k_services := sv\<rparr>) = tables (u\<lparr>k_services := sv\<rparr>)" for w f u sv
    by (simp add: upd_ipc_def tables_def)
  have w: "tables (ipc_wake_senders to u) = tables u" for to u
    unfolding ipc_wake_senders_def by (rule tables_for_slots) (rule tables_task_run)
  have "tables (ipc_task_cleanup (Some t) s) = tables (ipc_wake_senders t (upd_task t (\<lambda>k. k\<lparr>t_ipc_wait_peer := TASK_ID_NONE\<rparr>)
      ((upd_ipc t (\<lambda>ipc. ipc_header_init) s)\<lparr>k_services := map (\<lambda>sv. if sv_used sv \<and> sv_tid sv = t
        \<and> sv_generation sv = t_generation (tsk s t) then sv\<lparr>sv_used := False, sv_name := []\<rparr> else sv) (k_services s)\<rparr>)))"
    unfolding ipc_task_cleanup_def Let_def option.case assms i(2) by (rule tables_for_slots) (simp only: r i)
  then show ?thesis by (simp only: w tables_upd_task j)
qed

text \<open>Nothing but the registry and its own fields refers to a detached task.\<close>

definition detached :: "nat \<Rightarrow> u32 \<Rightarrow> kernel \<Rightarrow> bool" where
  "detached t generation s \<longleftrightarrow>
     Some t \<notin> set (map c_next (k_cpus s))
     \<and> (\<forall>l\<in>set (k_locks s). t \<notin> set (l_waiters l))
     \<and> (\<forall>b\<in>set (k_futex_buckets s). t \<notin> set b)
     \<and> (\<forall>sv\<in>set (k_services s). sv_used sv \<longrightarrow> \<not> (sv_tid sv = t \<and> sv_generation sv = generation))
     \<and> (\<forall>q\<in>set (k_drives s). t \<notin> set (drive_queue_contents q))
     \<and> k_keyboard_use s \<noteq> Some t \<and> k_mouse_use s \<noteq> Some t"

lemma detached_tables: "tables s' = tables s \<Longrightarrow> detached t g s' = detached t g s"
  by (simp add: detached_def tables_def)

section \<open>Clearing the references\<close>

lemma tables_vdisk_remove:
  "tables ((vdisk_remove_task t s)\<lparr>k_drives := x\<rparr>) = tables (s\<lparr>k_drives := x\<rparr>)"
proof -
  have run: "tables ((task_run n u)\<lparr>k_drives := x\<rparr>) = tables (u\<lparr>k_drives := x\<rparr>)" for n u
    using tables_task_run [of n u] by (simp add: tables_def)
  have upd: "tables ((upd_drive c q u)\<lparr>k_drives := x\<rparr>) = tables (u\<lparr>k_drives := x\<rparr>)" for c q u
    by (simp add: tables_def upd_drive_def)
  show ?thesis unfolding vdisk_remove_task_def
    by (rule fold_invariant [where Q = "\<lambda>_. True" and P = "\<lambda>u. tables (u\<lparr>k_drives := x\<rparr>) = tables (s\<lparr>k_drives := x\<rparr>)"])
      (auto simp: Let_def split_beta run upd split: option.splits)
qed

lemma cleared_services:
  assumes "sv \<in> set (map (\<lambda>sv. if P sv then sv\<lparr>sv_used := False, sv_name := []\<rparr> else sv) svs)" "sv_used sv"
  shows "\<not> P sv"
  using assms by (induction svs) (auto split: if_splits)

lemma futex_cancel_gone: "\<forall>b\<in>set (k_futex_buckets (futex_cancel_task t s)). t \<notin> set b"
  by (auto simp: futex_cancel_task_def)

lemma lock_cancel_gone:
  assumes "lock_wf s" "t < slot_count s"
  shows "\<forall>l\<in>set (k_locks (lock_cancel_task t s)). t \<notin> set (l_waiters l)"
proof -
  have "length (k_locks (lock_cancel_task t s)) = length (k_locks s)"
    by (simp add: lock_cancel_task_def lock_waiter_remove_def split: option.splits)
  moreover have "t \<notin> set (l_waiters (k_locks (lock_cancel_task t s) ! l))" if "l < length (k_locks s)" for l
    using lock_waiter_remove_queue [OF assms that] by (simp add: lock_cancel_task_def)
  ultimately show ?thesis by (metis in_set_conv_nth)
qed

lemma lock_cancel_owners: "map l_owner (k_locks (lock_cancel_task t s)) = map l_owner (k_locks s)"
  by (rule nth_equalityI)
    (auto simp: lock_cancel_task_def lock_waiter_remove_def nth_list_update_if split: option.splits)

lemma clear_external_refs_calm:
  assumes ok: "teardown_ok t s"
  shows "calm t s (task_clear_external_refs t s)"
    and "map l_owner (k_locks (task_clear_external_refs t s)) = map l_owner (k_locks s)"
    and "lock_wf s \<Longrightarrow> detached t (t_generation (tsk s t)) (task_clear_external_refs t s)"
proof -
  have tid: "t_tid (tsk s t) = t" "t < slot_count s" using ok by (simp_all add: teardown_ok_def)
  define s1 where "s1 = (case get_task s (t_tgid (tsk s t)) of None \<Rightarrow> s
     | Some leader \<Rightarrow> if t_group_lock_owner (tsk s leader) = t_tid (tsk s t)
         then wake_group_lock_waiters (t_tgid (tsk s t))
                (upd_task leader (\<lambda>k. k\<lparr>t_group_lock_owner := TASK_ID_NONE, t_group_lock_depth := 0\<rparr>) s) else s)"
  define s2 where "s2 = s1\<lparr>k_cpus := map (\<lambda>c. if c_next c = Some t then c\<lparr>c_next := None\<rparr> else c) (k_cpus s1)\<rparr>"
  define s3 where "s3 = (if k_mouse_use s2 = Some t then s2\<lparr>k_mouse_use := None\<rparr> else s2)"
  define s4 where "s4 = (if k_keyboard_use s3 = Some t then s3\<lparr>k_keyboard_use := None\<rparr> else s3)"
  define s5 where "s5 = lock_cancel_task t s4"
  define s6 where "s6 = futex_cancel_task t s5"
  define s7 where "s7 = ipc_task_cleanup (Some t) s6"
  have 1: "calm t s s1" unfolding s1_def using ok by (rule calm_group)
  have 2: "calm t s s2" unfolding s2_def using 1 by (rule calm_cpus)
  have 4: "calm t s s4" unfolding s4_def s3_def using 2 by (auto intro: calm_other)
  have 5: "calm t s s5" unfolding s5_def using calm_lock_cancel 4 by (rule calm_trans)
  have 6: "calm t s s6" unfolding s6_def using calm_futex_cancel 5 by (rule calm_trans)
  have i6: "t_tid (tsk s6 t) = t" "slot_count s6 = slot_count s" "t_generation (tsk s6 t) = t_generation (tsk s t)"
    using calm_tid [OF 6] calm_generation [OF 6] tid by simp_all
  have 7: "calm t s s7" unfolding s7_def
    using calm_ipc_cleanup [OF i6(1)] ok 6 i6(2) by (auto simp: teardown_ok_def intro: calm_trans)
  have t7: "t_tid (tsk s7 t) = t" "slot_count s7 = slot_count s" using calm_tid [OF 7] tid by simp_all
  have eq: "task_clear_external_refs t s = vdisk_remove_task t s7"
    unfolding task_clear_external_refs_def Let_def s7_def [symmetric] s6_def [symmetric] s5_def [symmetric]
      s4_def [symmetric] s3_def [symmetric] s2_def [symmetric] s1_def [symmetric] t7(1) ..
  have tb: "tables s1 = tables s" unfolding s1_def wake_group_lock_waiters_def
    by (auto simp: tables_for_slots split: option.splits)
  have d7: "k_drives s7 = k_drives s"
  proof -
    have "k_drives s7 = k_drives s6" using tables_ipc_cleanup [OF i6(1)] by (simp add: s7_def tables_def)
    also have "\<dots> = k_drives s1" by (simp add: s6_def s5_def s4_def s3_def s2_def futex_cancel_task_def
          futex_remove_def lock_cancel_task_def lock_waiter_remove_def upd_lock_def Let_def split: option.splits)
    finally show ?thesis using tb by (simp add: tables_def)
  qed
  then have wf7: "drives_wf s7" using ok by (simp add: teardown_ok_def drives_wf_def)
  note v = calm_vdisk_remove [OF wf7, of t]
  show "calm t s (task_clear_external_refs t s)"
    using v ok tid t7 7 unfolding eq teardown_ok_def by (auto intro: calm_trans)
  have "k_locks (task_clear_external_refs t s) = k_locks s7"
    using tables_vdisk_remove [of "[]" t s7] by (simp add: eq tables_def)
  also have "\<dots> = k_locks s6" using tables_ipc_cleanup [OF i6(1)] by (simp add: s7_def tables_def)
  also have "\<dots> = k_locks s5" by (simp add: s6_def futex_cancel_task_def futex_remove_def)
  finally show "map l_owner (k_locks (task_clear_external_refs t s)) = map l_owner (k_locks s)"
    using tb by (simp add: s5_def lock_cancel_owners s4_def s3_def s2_def tables_def)
  assume lk: "lock_wf s"
  have l4: "lock_wf s4"
  proof -
    have "lock_wf s1"
    proof (cases "get_task s (t_tgid (tsk s t))")
      case None then show ?thesis using lk by (simp add: s1_def)
    next
      case (Some l)
      let ?f = "\<lambda>k. k\<lparr>t_group_lock_owner := TASK_ID_NONE, t_group_lock_depth := 0\<rparr>"
      have "wake_frame s (wake_group_lock_waiters (t_tgid (tsk s t)) (upd_task l ?f s))"
        unfolding wake_group_lock_waiters_def
        by (rule wake_frame_trans [OF wake_frame_upd_task wake_frame_for_slots]) (simp_all add: id_view_def)
      then show ?thesis using lk Some lock_wf_wake_frame by (simp add: s1_def)
    qed
    then have "lock_wf s2" by (simp add: s2_def lock_wf_def)
    then show ?thesis by (simp add: s4_def s3_def lock_wf_def)
  qed
  have sl4: "t < slot_count s4" using calm_tid [OF 4] tid by simp
  note lg = lock_cancel_gone [OF l4 sl4]
  have t7s: "tables s7 = tables (s6\<lparr>k_services := map (\<lambda>sv. if sv_used sv \<and> sv_tid sv = t
     \<and> sv_generation sv = t_generation (tsk s t) then sv\<lparr>sv_used := False, sv_name := []\<rparr> else sv) (k_services s6)\<rparr>)"
    using tables_ipc_cleanup [OF i6(1)] i6(3) by (simp add: s7_def)
  have locks: "k_locks s6 = k_locks s5" and cp: "map c_next (k_cpus s6) = map c_next (k_cpus s2)"
    and use: "k_keyboard_use s6 = k_keyboard_use s4" "k_mouse_use s6 = k_mouse_use s4"
    by (auto simp: s6_def s5_def s4_def s3_def futex_cancel_task_def futex_remove_def lock_cancel_task_def
        lock_waiter_remove_def upd_lock_def Let_def split: option.splits)
  have n: "Some t \<notin> set (map c_next (k_cpus s6))" unfolding cp by (auto simp: s2_def split: if_splits)
  have u: "k_keyboard_use s6 \<noteq> Some t" "k_mouse_use s6 \<noteq> Some t"
    unfolding use by (simp_all add: s4_def s3_def)
  have l: "\<forall>l\<in>set (k_locks s6). t \<notin> set (l_waiters l)" using lg by (simp add: locks s5_def)
  have f: "\<forall>b\<in>set (k_futex_buckets s6). t \<notin> set b" unfolding s6_def by (rule futex_cancel_gone)
  define R where "R = vdisk_remove_task t s7"
  have R: "map c_next (k_cpus R) = map c_next (k_cpus s6)" "k_locks R = k_locks s6"
    "k_futex_buckets R = k_futex_buckets s6" "k_keyboard_use R = k_keyboard_use s6" "k_mouse_use R = k_mouse_use s6"
    "k_services R = map (\<lambda>sv. if sv_used sv \<and> sv_tid sv = t
     \<and> sv_generation sv = t_generation (tsk s t) then sv\<lparr>sv_used := False, sv_name := []\<rparr> else sv) (k_services s6)"
    using t7s tables_vdisk_remove [of "[]" t s7] by (simp_all add: tables_def R_def)
  have q: "\<forall>q\<in>set (k_drives R). t \<notin> set (drive_queue_contents q)"
    using v ok by (simp add: teardown_ok_def R_def t7(2))
  have "\<forall>sv\<in>set (k_services R). sv_used sv \<longrightarrow> \<not> (sv_tid sv = t \<and> sv_generation sv = t_generation (tsk s t))"
    using cleared_services [of _ "\<lambda>sv. sv_used sv \<and> sv_tid sv = t \<and> sv_generation sv = t_generation (tsk s t)"]
    unfolding R(6) by blast
  then show "detached t (t_generation (tsk s t)) (task_clear_external_refs t s)"
    unfolding eq R_def [symmetric] detached_def R(1-5) by (intro conjI n u l f q)
qed

section \<open>Finishing a task\<close>

lemma task_run_state_running:
  "t_state (tsk s x) = RUNNING \<Longrightarrow> x < slot_count s \<Longrightarrow> t_state (tsk (task_run x s) x) = RUNNING"
  by (simp add: task_run_def Let_def)

lemma child_waiter_cong:
  assumes "life_view (tsk s w) = life_view (tsk u w)"
  shows "child_waiter o' t g s w = child_waiter o' t g u w"
  using life_viewD [OF assms] by (simp add: child_waiter_def task_slot_in_use_def)

lemma calm_tgid: "calm t s u \<Longrightarrow> t_tgid (tsk u x) = t_tgid (tsk s x)"
proof (induction rule: calm.induct)
  case (calm_task s u f y)
  then show ?case using life_viewD(4) [of "f (tsk u y)" "tsk u y"] by (auto simp: nth_list_update_if)
next
  case (calm_run s u y)
  have "wake_frame u (task_run y u)" using calm_run.hyps by (intro wake_frame_task_run)
  then have "id_view (tsk (task_run y u) x) = id_view (tsk u x)" by (simp add: wake_frame_def)
  with calm_run show ?case by (simp add: id_view_def)
qed auto

text \<open>A parent waiting for its child keeps waiting, or some other event has already woken it.\<close>

lemma calm_waiter:
  assumes "calm t s u" "child_waiter o' c g s p"
  shows "t_state (tsk u p) = RUNNING \<or> child_waiter o' c g u p"
  using assms
proof (induction rule: calm.induct)
  case (calm_task s u f x)
  then have "life_view (tsk (upd_task x f u) p) = life_view (tsk u p)" by (auto simp: nth_list_update_if)
  with calm_task child_waiter_cong [OF this] life_viewD(9) [OF this] show ?case by auto
next
  case (calm_run s u x)
  show ?case
  proof (cases "x = p")
    case True
    with calm_run show ?thesis
      using task_run_state_running [of u x] task_run_blocked [of x u] by (auto simp: child_waiter_def)
  next
    case False
    with calm_run show ?thesis by (auto simp: child_waiter_def tsk_task_run_other)
  qed
qed (auto simp: child_waiter_def)

lemma wake_child_waiter_calm:
  assumes "t_wait_reason (tsk s t) \<noteq> WR_CHILD"
  shows "calm t s (wake_child_waiter t s) \<and> tsk (wake_child_waiter t s) t = tsk s t"
proof (cases "(if t_kind (tsk s t) = TASK_THREAD then t_tgid (tsk s t) else t_ptid (tsk s t)) \<in> {TASK_ID_NONE, REAPER_TID}")
  case True
  then have "wake_child_waiter t s = s" by (auto simp: wake_child_waiter_def Let_def)
  then show ?thesis by (simp add: calm_refl)
next
  case False
  then have eq: "wake_child_waiter t s = for_slots (child_waiter
      (if t_kind (tsk s t) = TASK_THREAD then t_tgid (tsk s t) else t_ptid (tsk s t))
      (t_tid (tsk s t)) (t_generation (tsk s t))) task_run s"
    unfolding wake_child_waiter_def Let_def by auto
  show ?thesis unfolding eq by (rule calm_wake_loop) (use assms in \<open>simp add: child_waiter_def\<close>)
qed

lemma tables_wake_child [simp]: "tables (wake_child_waiter t s) = tables s"
  by (auto simp: wake_child_waiter_def Let_def intro!: tables_for_slots)

lemma wake_child_waiter_runs:
  assumes "child_waiter owner (t_tid (tsk s t)) (t_generation (tsk s t)) s p \<or> t_state (tsk s p) = RUNNING"
    and "owner = (if t_kind (tsk s t) = TASK_THREAD then t_tgid (tsk s t) else t_ptid (tsk s t))"
    and "owner \<notin> {TASK_ID_NONE, REAPER_TID}" "p < slot_count s"
  shows "t_state (tsk (wake_child_waiter t s) p) = RUNNING"
proof -
  let ?P = "child_waiter owner (t_tid (tsk s t)) (t_generation (tsk s t))"
  have eq: "wake_child_waiter t s = for_slots ?P task_run s"
    using assms(2,3) unfolding wake_child_waiter_def Let_def by auto
  obtain u where u: "tsk (for_slots ?P task_run s) p
      = (if p < slot_count s \<and> ?P s p then tsk (task_run p u) p else tsk s p)"
    "tsk u p = tsk s p" "slot_count u = slot_count s"
    by (rule tsk_for_slots_task_run [of ?P s p]) (simp_all add: child_waiter_def)
  show ?thesis
  proof (cases "?P s p")
    case True
    then have "t_state (tsk u p) = WAITING" using u(2) by (simp add: child_waiter_def)
    then show ?thesis using True u assms(4) task_run_blocked [of p u] by (simp add: eq)
  next
    case False then show ?thesis using assms(1) u by (simp add: eq)
  qed
qed

end
