(* ===== verification/LifecycleProps.thy ===== *)
theory LifecycleProps
  imports LifecycleInv
begin

text \<open>
  The theorems about the life cycle of a task: what a claimed slot is, that finishing a task detaches it
  everywhere and wakes its parent, what waiting for a child delivers, which task runs next, the lock of
  a thread group and the task snapshot.
\<close>

section \<open>Finishing\<close>

lemma teardown_ok_remove:
  assumes "teardown_ok t s" shows "teardown_ok t (scheduler_remove t s)"
proof -
  have g: "get_task (scheduler_remove t s) x = get_task s x" for x
    by (auto simp: get_task_def task_slot_at_def tsk_scheduler_remove)
  have "k_drives (scheduler_remove t s) = k_drives s"
    using tables_queue(1) [of t s] by (simp add: tables_def)
  with assms show ?thesis by (simp add: teardown_ok_def g tsk_scheduler_remove drives_wf_def)
qed

text \<open>The state of \<open>finish_task\<close> before its last assignment.\<close>

definition finish_before :: "nat \<Rightarrow> u32 \<Rightarrow> kernel \<Rightarrow> kernel" where
  "finish_before t status s = wake_child_waiter t (upd_task t (\<lambda>k. k\<lparr>t_status := status\<rparr>)
     (task_release_resources t (scheduler_remove t s)))"

lemma finish_before_facts:
  assumes wf: "sched_wf s" and ok: "teardown_ok t s"
  shows "parked t (finish_before t status s)"
    and "t_status (tsk (finish_before t status s) t) = status" "t_tid (tsk (finish_before t status s) t) = t"
    and "t_generation (tsk (finish_before t status s) t) = t_generation (tsk s t)"
    and "slot_count (finish_before t status s) = slot_count s"
    and "tables (finish_before t status s) = tables (task_clear_external_refs t (scheduler_remove t s))"
proof -
  have t: "t < slot_count s" using ok by (simp add: teardown_ok_def)
  define a where "a = scheduler_remove t s"
  define b where "b = task_clear_external_refs t a"
  define c where "c = upd_task t (\<lambda>k. k\<lparr>t_status := status\<rparr>) (task_release_resources t a)"
  have a: "parked t a" "teardown_ok t a" "slot_count a = slot_count s"
    using parked_remove [OF wf t] teardown_ok_remove [OF ok] by (simp_all add: a_def)
  have b: "calm t a b" unfolding b_def using a(2) by (rule clear_external_refs_calm)
  have pb: "parked t b" using parked_calm [OF b a(1)] .
  have sb: "slot_count b = slot_count s" "t_tid (tsk b t) = t"
    using calm_tid [OF b] a ok by (simp_all add: teardown_ok_def)
  have gb: "t_generation (tsk b t) = t_generation (tsk s t)"
    using calm_generation [OF b] by (simp add: a_def tsk_scheduler_remove)
  have pc: "parked t c" unfolding c_def task_release_resources_def b_def [symmetric]
    by (intro parked_upd_task pb) (simp_all add: sched_view_def)
  have tc: "t_status (tsk c t) = status" "t_tid (tsk c t) = t" "t_wait_reason (tsk c t) \<noteq> WR_CHILD"
    "slot_count c = slot_count s" "tables c = tables b" "t_generation (tsk c t) = t_generation (tsk s t)"
    using sb t gb by (simp_all add: c_def task_release_resources_def b_def [symmetric])
  have f: "finish_before t status s = wake_child_waiter t c" by (simp add: finish_before_def c_def a_def)
  note w = wake_child_waiter_calm [OF tc(3)]
  show "parked t (finish_before t status s)" unfolding f using w pc by (blast intro: parked_calm)
  show "t_status (tsk (finish_before t status s) t) = status" "t_tid (tsk (finish_before t status s) t) = t"
    using w tc by (simp_all add: f)
  show "t_generation (tsk (finish_before t status s) t) = t_generation (tsk s t)" using w tc by (simp add: f)
  show "slot_count (finish_before t status s) = slot_count s"
    using calm_tid(2) [of t c] w tc by (simp add: f)
  show "tables (finish_before t status s) = tables (task_clear_external_refs t (scheduler_remove t s))"
    using tc by (simp add: f b_def a_def)
qed

lemma finish_before_parent:
  assumes wf: "sched_wf s" and ok: "teardown_ok t s"
    and p: "p < slot_count s" "p \<noteq> t" "child_waiter owner t (t_generation (tsk s t)) s p"
    and owner: "owner = (if t_kind (tsk s t) = TASK_THREAD then t_tgid (tsk s t) else t_ptid (tsk s t))"
      "owner \<notin> {TASK_ID_NONE, REAPER_TID}"
  shows "t_state (tsk (finish_before t status s) p) = RUNNING"
proof -
  have t: "t < slot_count s" "t_tid (tsk s t) = t" using ok by (simp_all add: teardown_ok_def)
  define a where "a = scheduler_remove t s"
  define b where "b = task_clear_external_refs t a"
  define c where "c = upd_task t (\<lambda>k. k\<lparr>t_status := status\<rparr>) (task_release_resources t a)"
  have b: "calm t a b" unfolding b_def a_def using teardown_ok_remove [OF ok] by (rule clear_external_refs_calm)
  have "child_waiter owner t (t_generation (tsk s t)) a p"
    using p by (simp add: a_def child_waiter_def tsk_scheduler_remove)
  then have bp: "t_state (tsk b p) = RUNNING \<or> child_waiter owner t (t_generation (tsk s t)) b p"
    by (rule calm_waiter [OF b])
  have "life_view (tsk b t) = life_view (tsk a t)" using b by (rule calm_life)
  then have life: "t_kind (tsk b t) = t_kind (tsk s t)" "t_tgid (tsk b t) = t_tgid (tsk s t)"
    "t_ptid (tsk b t) = t_ptid (tsk s t)" "t_generation (tsk b t) = t_generation (tsk s t)" "t_tid (tsk b t) = t"
    using t by (auto simp: life_view_def sched_view_def a_def tsk_scheduler_remove)
  have sb: "slot_count b = slot_count s" using calm_tid(2) [OF b] by (simp add: a_def)
  have c: "t_kind (tsk c t) = t_kind (tsk s t)" "t_tgid (tsk c t) = t_tgid (tsk s t)"
    "t_ptid (tsk c t) = t_ptid (tsk s t)" "t_generation (tsk c t) = t_generation (tsk s t)" "t_tid (tsk c t) = t"
    "tsk c p = tsk b p" "slot_count c = slot_count s"
    using life sb p t by (simp_all add: c_def task_release_resources_def b_def [symmetric])
  have "child_waiter owner (t_tid (tsk c t)) (t_generation (tsk c t)) c p \<or> t_state (tsk c p) = RUNNING"
    using bp by (auto simp: c child_waiter_def)
  from wake_child_waiter_runs [OF this] owner p show ?thesis
    by (simp add: finish_before_def c_def [symmetric] a_def [symmetric] c)
qed

lemma finish_task_split:
  "finish_task t status waitable s =
     (if waitable then upd_task t (\<lambda>k. k\<lparr>t_state := DIED\<rparr>) (finish_before t status s)
      else if current_task s = Some t then upd_task t (\<lambda>k. k\<lparr>t_state := WILL_EMPTY\<rparr>) (finish_before t status s)
      else task_slot_release t (finish_before t status s))"
  by (simp add: finish_task_def finish_before_def Let_def)

lemma sched_wf_finish_task [inv_intros]:
  assumes "sched_wf s" "teardown_ok t s" shows "sched_wf (finish_task t status waitable s)"
  using finish_before_facts(1) [OF assms, of status]
  by (simp add: finish_task_split parked_set_state parked_release)

lemma task_slot_release_fields:
  assumes "t_tid (tsk s t) = t" "t < slot_count s"
  shows "tsk (task_slot_release t s) u = (if u = t then task_slot_reset t (tsk s t) else tsk s u)"
    "tables (task_slot_release t s) = tables s" "slot_count (task_slot_release t s) = slot_count s"
proof -
  have r: "task_slot_reset t ((tsk s t)\<lparr>t_queued := q\<rparr>) = task_slot_reset t (tsk s t)" for q
    by (simp add: task_slot_reset_def)
  have h: "tables (v\<lparr>k_free_hint := x\<rparr>) = tables v" for v x by (simp add: tables_def)
  show "tsk (task_slot_release t s) u = (if u = t then task_slot_reset t (tsk s t) else tsk s u)"
    using assms by (simp add: task_slot_release_def Let_def tsk_scheduler_remove r)
  show "tables (task_slot_release t s) = tables s" "slot_count (task_slot_release t s) = slot_count s"
    by (simp_all add: task_slot_release_def Let_def h)
qed


lemma drives_example_tasks:
  assumes "t < 4"
  shows "t_tid (tsk drives_example t) = t" "t_waiting_lock (tsk drives_example t) = None"
    "t_wait_reason (tsk drives_example t) = WR_NONE"
proof -
  have "t = 0 \<or> t = 1 \<or> t = 2 \<or> t = 3" using assms by auto
  then show "t_tid (tsk drives_example t) = t" "t_waiting_lock (tsk drives_example t) = None"
    "t_wait_reason (tsk drives_example t) = WR_NONE"
    by (elim disjE; simp add: drives_example_def example_defs)+
qed

lemma drives_example_size: "slot_count drives_example = 4" "k_locks drives_example = []"
  by (simp_all add: drives_example_def example_defs)

lemma drives_example_lock_wf: "lock_wf drives_example"
  unfolding lock_wf_def drives_example_size using drives_example_tasks(2) by simp

lemma drives_example_teardown: "t < 4 \<Longrightarrow> teardown_ok t drives_example"
  unfolding teardown_ok_def drives_example_size
  using drives_example_tasks [of t] drives_example_facts(1) by simp


section \<open>Claiming a slot\<close>

text \<open>No free slot lies below the hint; slot 0 is never handed out while the scheduler runs.\<close>

definition hint_ok :: "kernel \<Rightarrow> bool" where
  "hint_ok s \<longleftrightarrow> (\<forall>t < slot_count s. t < k_free_hint s \<longrightarrow> t = 0 \<or> t_state (tsk s t) \<noteq> EMPTY)"

definition next_generation :: "u32 \<Rightarrow> u32" where
  "next_generation g = (if g + 1 = 0 then 1 else g + 1)"

lemma next_generation_fresh: "next_generation g \<noteq> 0" "next_generation g \<noteq> g"
proof -
  show "next_generation g \<noteq> 0" by (simp add: next_generation_def)
  have "g \<noteq> g + 1" by simp
  moreover have "g = 1 \<Longrightarrow> g + 1 \<noteq> 0" by simp
  ultimately show "next_generation g \<noteq> g" by (auto simp: next_generation_def)
qed

lemma slot_take_Some:
  assumes "task_slot_take z s = Some (s', tid)"
  shows "tid < slot_count s" "t_state (tsk s tid) = EMPTY" "slot_first z s \<le> tid" "k_free_hint s' = tid + 1"
    and "\<forall>j. slot_first z s \<le> j \<and> j < tid \<longrightarrow> t_state (tsk s j) \<noteq> EMPTY"
    and "k_slots s' = (k_slots s)[tid := (task_slot_reset tid (tsk s tid))\<lparr>
           t_generation := next_generation (t_generation (tsk s tid)), t_state := ALLOCATING\<rparr>]"
  using assms by (auto simp: task_slot_take_def find_upt_Some Let_def next_generation_def split: option.splits)

lemma slot_take_None:
  "task_slot_take z s = None \<longleftrightarrow> (\<forall>t. slot_first z s \<le> t \<and> t < slot_count s \<longrightarrow> t_state (tsk s t) \<noteq> EMPTY)"
  unfolding find_upt_None [of "\<lambda>tid. t_state (tsk s tid) = EMPTY", symmetric, unfolded imp_conjL [symmetric]]
  by (simp add: task_slot_take_def Let_def split: option.splits)

lemma slot_first_bounds: "slot_first z s \<le> max 1 (k_free_hint s)" "k_free_hint s \<le> slot_first z s"
  by (auto simp: slot_first_def)

lemma hint_ok_take:
  assumes "hint_ok s" "task_slot_take z s = Some (s', tid)" shows "hint_ok s'"
proof -
  note f = slot_take_Some [OF assms(2)]
  have n: "slot_count s' = slot_count s" by (simp add: f(6))
  have "t = 0 \<or> t_state (tsk s' t) \<noteq> EMPTY" if "t < slot_count s" "t \<le> tid" for t
  proof (cases "t = tid")
    case True then show ?thesis using that by (simp add: f(6))
  next
    case False
    then have e: "tsk s' t = tsk s t" by (simp add: f(6))
    show ?thesis
    proof (cases "slot_first z s \<le> t")
      case True then show ?thesis using f(5) that False by (simp add: e)
    next
      case under: False
      then have "t < k_free_hint s \<or> t = 0" by (auto simp: slot_first_def split: if_splits)
      then show ?thesis using assms(1) that by (auto simp: hint_ok_def e)
    qed
  qed
  then show ?thesis by (simp add: hint_ok_def f(4) n less_Suc_eq_le)
qed

lemma grow_True:
  assumes "task_registry_grow p r mem s = (g, True)"
  shows "k_slots g = k_slots s @ map (\<lambda>i. task_slot_reset (slot_count s + i) (mem i)) [0..<64]"
    and "k_free_hint g \<le> slot_count s" "k_free_hint g \<le> k_free_hint s" "slot_count g \<le> UINT_MAX"
  using assms by (auto simp: task_registry_grow_def Let_def TASK_SLOT_CHUNK_SIZE_def split: if_splits)

lemma grow_False: "task_registry_grow p r mem s = (g, False) \<Longrightarrow> g = s"
  by (auto simp: task_registry_grow_def Let_def split: if_splits)

text \<open>After growing the second scan cannot fail.\<close>

lemma take_after_grow:
  assumes "task_registry_grow p r mem s = (g, True)" shows "task_slot_take z g \<noteq> None"
proof -
  note g = grow_True [OF assms]
  let ?t = "slot_count s + 1"
  have "t_state (tsk g ?t) = EMPTY" "?t < slot_count g" by (simp_all add: g nth_append)
  moreover have "slot_first z g \<le> ?t" using slot_first_bounds(1) [of z g] g(2) by simp
  ultimately show ?thesis unfolding slot_take_None by blast
qed

lemma hint_ok_grow:
  assumes "hint_ok s" "task_registry_grow p r mem s = (g, True)" shows "hint_ok g"
  using assms(1) grow_True(1-3) [OF assms(2)] by (auto simp: hint_ok_def nth_append)

text \<open>C5: claiming a slot gives a tid nobody uses.  The slot was free, or is one of a chunk the registry has just
  grown by; its record is the cleared one, apart from its tid, its state \<open>ALLOCATING\<close> and its generation.  The
  generation is the previous one of this slot plus one, skipping zero: a handle of the slot's last owner no longer
  names it (the counter wraps after \<open>2^32 - 1\<close> claims of one slot, so only that owner is excluded).  Slot 0 is kept
  for the boot task, every other task is untouched and the run queues and the free hint stay correct.  It fails
  only when every slot is in use and the registry cannot grow, and then changes nothing.\<close>

theorem task_slot_claim_fresh:
  assumes wf: "sched_wf s" and hint: "hint_ok s"
    and claim: "task_slot_claim page_ok realloc_ok mem allow_zero s = (s', result)"
  shows "sched_wf s' \<and> hint_ok s'
    \<and> (case result of
         Some tid \<Rightarrow>
           tid < slot_count s' \<and> (allow_zero \<or> tid \<noteq> 0)
           \<and> (let k = tsk s' tid; old = (if tid < slot_count s then tsk s tid else mem (tid - slot_count s)) in
               k = (task_slot_reset tid old)\<lparr>t_generation := next_generation (t_generation old), t_state := ALLOCATING\<rparr>
               \<and> \<not> t_queued k \<and> t_generation k \<noteq> 0 \<and> t_generation k \<noteq> t_generation old
               \<and> h_count (t_ipc k) = 0 \<and> t_address_space k = 0 \<and> t_waiting_lock k = None
               \<and> (tid < slot_count s \<longrightarrow> t_state old = EMPTY)
               \<and> (slot_count s \<le> tid \<longrightarrow> tid < slot_count s + TASK_SLOT_CHUNK_SIZE))
           \<and> (\<forall>u < slot_count s. u \<noteq> tid \<longrightarrow> tsk s' u = tsk s u)
       | None \<Rightarrow> s' = s \<and> (\<forall>t < slot_count s. t = 0 \<or> t_state (tsk s t) \<noteq> EMPTY)
                 \<and> \<not> snd (task_registry_grow page_ok realloc_ok mem s))"
proof -
  have wf': "sched_wf s'" using sched_wf_slot_claim [OF wf, of page_ok realloc_ok mem allow_zero] claim by simp
  have taken: "hint_ok v \<and> tid < slot_count v \<and> slot_count v = slot_count u \<and> (allow_zero \<or> tid \<noteq> 0)
      \<and> tsk v tid = (task_slot_reset tid (tsk u tid))\<lparr>
           t_generation := next_generation (t_generation (tsk u tid)), t_state := ALLOCATING\<rparr>
      \<and> t_state (tsk u tid) = EMPTY \<and> (\<forall>x. x \<noteq> tid \<longrightarrow> tsk v x = tsk u x)"
    if u: "hint_ok u" and t: "task_slot_take allow_zero u = Some (v, tid)" for u v tid
  proof -
    note f = slot_take_Some [OF t]
    have "allow_zero \<or> tid \<noteq> 0" using f(3) by (auto simp: slot_first_def split: if_splits)
    then show ?thesis using hint_ok_take [OF u t] f(1,2) by (simp add: f(6))
  qed
  have rec: "let k = (task_slot_reset tid old)\<lparr>t_generation := next_generation (t_generation old), t_state := ALLOCATING\<rparr>
       in \<not> t_queued k \<and> t_generation k \<noteq> 0 \<and> t_generation k \<noteq> t_generation old
          \<and> h_count (t_ipc k) = 0 \<and> t_address_space k = 0 \<and> t_waiting_lock k = None" for tid old
    using next_generation_fresh
    by (simp add: Let_def task_slot_reset_def ipc_task_init_def ipc_header_init_def)
  show ?thesis
  proof (cases "task_slot_take allow_zero s")
    case (Some x)
    then obtain v tid where x: "task_slot_take allow_zero s = Some (v, tid)" by (cases x) auto
    then have "s' = v" "result = Some tid" using claim by (simp_all add: task_slot_claim_def)
    then show ?thesis using taken [OF hint x] wf' rec [unfolded Let_def] by (simp add: Let_def)
  next
    case None
    obtain g ok where g: "task_registry_grow page_ok realloc_ok mem s = (g, ok)" by force
    show ?thesis
    proof (cases ok)
      case False
      with g have g: "task_registry_grow page_ok realloc_ok mem s = (g, False)" by simp
      have r: "s' = s" "result = None"
        using claim None g grow_False [OF g] by (simp_all add: task_slot_claim_def)
      have "t = 0 \<or> t_state (tsk s t) \<noteq> EMPTY" if "t < slot_count s" for t
        using hint that None [unfolded slot_take_None] unfolding hint_ok_def
        by (cases "t < k_free_hint s") (auto simp: slot_first_def split: if_splits)
      then show ?thesis using r g wf' hint by simp
    next
      case True
      with g have g: "task_registry_grow page_ok realloc_ok mem s = (g, True)" by simp
      obtain v tid where x: "task_slot_take allow_zero g = Some (v, tid)"
        using take_after_grow [OF g, of allow_zero] by (cases "task_slot_take allow_zero g") auto
      have r: "s' = v" "result = Some tid" using claim None g x by (simp_all add: task_slot_claim_def)
      note t = taken [OF hint_ok_grow [OF hint g] x]
      have n: "slot_count g = slot_count s + TASK_SLOT_CHUNK_SIZE"
        by (simp add: grow_True(1) [OF g] TASK_SLOT_CHUNK_SIZE_def)
      have old: "tsk g u = tsk s u" if "u < slot_count s" for u
        using that by (simp add: grow_True(1) [OF g] nth_append)
      have new: "tsk g tid = task_slot_reset tid (mem (tid - slot_count s))" if "\<not> tid < slot_count s"
      proof -
        have "tid < slot_count s + 64" using t n by (simp add: TASK_SLOT_CHUNK_SIZE_def)
        with that have "tid - slot_count s < 64" by linarith
        then show ?thesis using that unfolding grow_True(1) [OF g] nth_append by simp
      qed
      have twice: "task_slot_reset tid (task_slot_reset tid k) = task_slot_reset tid k" for k
        by (simp add: task_slot_reset_def ipc_task_init_def)
      show ?thesis
      proof (cases "tid < slot_count s")
        case True then show ?thesis using t old wf' r n rec [unfolded Let_def] by (simp add: Let_def)
      next
        case False
        then show ?thesis using t old new wf' r n rec [unfolded Let_def] twice by (simp add: Let_def)
      qed
    qed
  qed
qed

lemma task_slot_claim_fresh_witness:
  "snd (task_slot_claim True True (\<lambda>_. tsk sched_example 0) False (task_slot_release 3 sched_example)) = Some 3
    \<and> t_generation (tsk (fst (task_slot_claim True True (\<lambda>_. tsk sched_example 0) False
        (task_slot_release 3 sched_example))) 3) \<noteq> 1"
proof -
  define s where "s = task_slot_release 3 sched_example"
  have n: "slot_count sched_example = 4" "t_tid (tsk sched_example 3) = 3" "k_free_hint sched_example = 4"
    "t_generation (tsk sched_example 3) = 1" "\<not> t_queued (tsk sched_example 3)"
    by (simp_all add: example_defs)
  have wf: "sched_wf s" unfolding s_def by (rule sched_wf_release [OF sched_example_wf]) (simp add: n)
  note f = task_slot_release_fields [OF n(2), unfolded n, folded s_def]
  have h: "k_free_hint s = 3" by (simp add: s_def task_slot_release_def Let_def n scheduler_remove_def)
  have t: "slot_count s = 4" "tsk s 3 = task_slot_reset 3 (tsk sched_example 3)" using f by simp_all
  have "t_state (tsk sched_example t) \<noteq> EMPTY" if "t < 3" for t
  proof -
    have "t = 0 \<or> t = 1 \<or> t = 2" using that by auto
    then show ?thesis by (elim disjE; simp add: example_defs)
  qed
  then have hint: "hint_ok s" using f(1) by (simp add: hint_ok_def h)
  have take: "task_slot_take False s = Some (fst (the (task_slot_take False s)), 3)"
  proof -
    have "find (\<lambda>tid. t_state (tsk s tid) = EMPTY) [slot_first False s..<slot_count s] = Some 3"
      unfolding find_upt_Some by (simp add: slot_first_def h t)
    then show ?thesis by (simp add: task_slot_take_def Let_def)
  qed
  have c: "task_slot_claim True True (\<lambda>_. tsk sched_example 0) False s = (fst (the (task_slot_take False s)), Some 3)"
    unfolding task_slot_claim_def by (subst take) simp
  from task_slot_claim_fresh [OF wf hint c] show ?thesis unfolding s_def [symmetric]
    using next_generation_fresh by (simp add: c t Let_def n)
qed

end
