(* ===== verification/PickProps.thy ===== *)
theory PickProps
  imports LifecycleProps
begin

text \<open>
  The choice of the next task (\<open>scheduler_pick_next\<close>), the recursive lock of a thread group and the task
  snapshot.
\<close>

section \<open>The choice of the next task\<close>

text \<open>\<open>a\<close> must run before \<open>b\<close>: urgent tasks first, then less virtual time.\<close>

definition runs_before :: "kernel \<Rightarrow> nat \<Rightarrow> nat \<Rightarrow> bool" where
  "runs_before s a b \<longleftrightarrow>
     (t_urgent (tsk s a) \<and> \<not> t_urgent (tsk s b))
     \<or> (t_urgent (tsk s a) = t_urgent (tsk s b) \<and> t_vruntime (tsk s a) < t_vruntime (tsk s b))"

lemma runs_before_irrefl: "\<not> runs_before s a a"
  by (simp add: runs_before_def)

lemma pick_better_mono:
  assumes "pick_better s hint n (Some m)" "\<not> runs_before s c m" shows "\<not> runs_before s c n"
  using assms by (auto simp: pick_better_def runs_before_def split: if_splits)

lemma pick_better_total: "\<not> pick_better s hint n (Some m) \<Longrightarrow> \<not> runs_before s n m"
  by (auto simp: pick_better_def runs_before_def)

definition pick_inv :: "kernel \<Rightarrow> nat \<Rightarrow> nat option \<Rightarrow> nat set \<Rightarrow> nat option \<times> u64 \<Rightarrow> bool" where
  "pick_inv s cpu current C acc \<longleftrightarrow>
     (fst acc \<noteq> None \<longrightarrow> scheduler_task_eligible s (fst acc) cpu current)
     \<and> (\<forall>c\<in>C. scheduler_task_eligible s (Some c) cpu current \<longrightarrow>
          fst acc \<noteq> None \<and> \<not> runs_before s c (the (fst acc)) \<and> snd acc \<le> t_vruntime (tsk s c))
     \<and> (snd acc = UINT64_MAX \<or> (\<exists>c\<in>C. scheduler_task_eligible s (Some c) cpu current \<and> snd acc = t_vruntime (tsk s c)))"

lemma pick_scan_inv:
  "pick_inv s cpu current C acc \<Longrightarrow> pick_inv s cpu current (C \<union> set ts) (pick_scan s cpu current hint ts acc)"
proof (induction ts arbitrary: acc C)
  case Nil then show ?case by (simp add: pick_scan_def)
next
  case (Cons c ts)
  obtain nx mn where acc: "acc = (nx, mn)" by force
  define acc' where "acc' = (if \<not> scheduler_task_eligible s (Some c) cpu current then (nx, mn)
        else (if pick_better s hint c nx then Some c else nx,
              if t_vruntime (tsk s c) < mn then t_vruntime (tsk s c) else mn))"
  have "pick_inv s cpu current (C \<union> {c}) acc'"
  proof (cases "scheduler_task_eligible s (Some c) cpu current")
    case False then show ?thesis using Cons.prems by (auto simp: acc'_def acc pick_inv_def)
  next
    case True
    have le: "mn \<le> t_vruntime (tsk s d) \<Longrightarrow> t_vruntime (tsk s c) < mn \<Longrightarrow> t_vruntime (tsk s c) \<le> t_vruntime (tsk s d)" for d
      by simp
    show ?thesis
    proof (cases nx)
      case None
      then show ?thesis using True Cons.prems
        by (auto simp: acc'_def acc pick_inv_def pick_better_def runs_before_irrefl not_less)
    next
      case (Some m)
      then show ?thesis using True Cons.prems pick_better_mono [of s hint c m] pick_better_total [of s hint c m]
        by (auto simp: acc'_def acc pick_inv_def runs_before_irrefl not_less intro: le)
    qed
  qed
  from Cons.IH [OF this] show ?case by (simp add: pick_scan_def acc acc'_def Un_insert_right insert_commute)
qed

lemma eligible_cong: "k_slots u = k_slots s \<Longrightarrow> scheduler_task_eligible u t c cur = scheduler_task_eligible s t c cur"
  by (simp add: scheduler_task_eligible_def split: option.splits)

lemma pick_choose_facts:
  fixes index :: nat
  assumes i: "index < cpu_total s" and r: "pick_choose index hint s = (s', next)"
  defines "E \<equiv> \<lambda>c. c \<in> set (c_runnable (cpu_of s index))
      \<and> scheduler_task_eligible s (Some c) index (c_current (cpu_of s index))"
  shows "k_slots s' = k_slots s" "c_min_vruntime (cpu_of s index) \<le> c_min_vruntime (cpu_of s' index)"
    and "c_next (cpu_of s' index) = c_next (cpu_of s index)"
    and "c_min_vruntime (cpu_of s' index) \<noteq> c_min_vruntime (cpu_of s index) \<Longrightarrow> E c \<Longrightarrow>
           c_min_vruntime (cpu_of s' index) \<le> t_vruntime (tsk s c)"
    and "E c \<Longrightarrow> next \<noteq> None \<and> \<not> runs_before s c (the next)"
    and "next \<noteq> c_idle (cpu_of s index) \<Longrightarrow> next \<noteq> None \<and>
           scheduler_task_eligible s next index (c_current (cpu_of s index))"
    and "(\<forall>c. \<not> E c) \<Longrightarrow> \<not> scheduler_task_eligible s hint index (c_current (cpu_of s index)) \<Longrightarrow>
           next = c_idle (cpu_of s index)"
    and "E c \<Longrightarrow> scheduler_task_eligible s next index (c_current (cpu_of s index))"
proof -
  let ?cur = "c_current (cpu_of s index)"
  define first where "first = (if scheduler_task_eligible s hint index ?cur then hint else None)"
  obtain nx mn where scan: "pick_scan s index ?cur hint (c_runnable (cpu_of s index)) (first, UINT64_MAX) = (nx, mn)"
    by force
  have "pick_inv s index ?cur {} (first, UINT64_MAX)" by (simp add: pick_inv_def first_def)
  from pick_scan_inv [OF this, of "c_runnable (cpu_of s index)" hint]
  have inv: "pick_inv s index ?cur (set (c_runnable (cpu_of s index))) (nx, mn)" by (simp add: scan)
  define mn' where "mn' = (if mn = UINT64_MAX \<and> (case ?cur of None \<Rightarrow> False | Some c \<Rightarrow>
                           t_cpu (tsk s c) = index \<and> \<not> t_idle (tsk s c))
                     then t_vruntime (tsk s (the ?cur)) else mn)"
  have eq: "s' = (if mn' \<noteq> UINT64_MAX \<and> mn' > c_min_vruntime (cpu_of s index)
               then upd_cpu index (\<lambda>c. c\<lparr>c_min_vruntime := mn'\<rparr>) s else s)"
    "next = (if nx \<noteq> None then nx else c_idle (cpu_of s index))"
    using r unfolding pick_choose_def Let_def first_def [symmetric] scan mn'_def by auto
  show "k_slots s' = k_slots s" "c_min_vruntime (cpu_of s index) \<le> c_min_vruntime (cpu_of s' index)"
    "c_next (cpu_of s' index) = c_next (cpu_of s index)"
    using i by (simp_all add: eq(1) less_imp_le)
  have e: "nx \<noteq> None \<and> \<not> runs_before s c (the nx) \<and> mn \<le> t_vruntime (tsk s c)" if "E c" for c
    using inv that unfolding pick_inv_def E_def fst_conv snd_conv by blast
  show "c_min_vruntime (cpu_of s' index) \<le> t_vruntime (tsk s c)"
    if "c_min_vruntime (cpu_of s' index) \<noteq> c_min_vruntime (cpu_of s index)" "E c"
  proof -
    have m: "c_min_vruntime (cpu_of s' index) = mn'" "mn' \<noteq> UINT64_MAX"
      using that(1) i by (auto simp: eq(1) split: if_splits)
    show ?thesis
    proof (cases "mn = UINT64_MAX")
      case True
      with e [OF that(2)] have "t_vruntime (tsk s c) = UINT64_MAX" by (simp add: word_order.extremum_unique)
      then show ?thesis by simp
    next
      case False then show ?thesis using m e [OF that(2)] by (simp add: mn'_def)
    qed
  qed
  show "E c \<Longrightarrow> next \<noteq> None \<and> \<not> runs_before s c (the next)" using e by (simp add: eq(2))
  show "next \<noteq> c_idle (cpu_of s index) \<Longrightarrow> next \<noteq> None \<and> scheduler_task_eligible s next index ?cur"
    using inv by (auto simp: eq(2) pick_inv_def split: if_splits)
  show "E c \<Longrightarrow> scheduler_task_eligible s next index ?cur"
    using inv e [of c] by (auto simp: eq(2) pick_inv_def)
  show "next = c_idle (cpu_of s index)"
    if none: "\<forall>c. \<not> E c" and h: "\<not> scheduler_task_eligible s hint index ?cur"
  proof -
    have "fold (\<lambda>c (next, minimum). if \<not> scheduler_task_eligible s (Some c) index ?cur then (next, minimum)
        else (if pick_better s hint c next then Some c else next,
              if t_vruntime (tsk s c) < minimum then t_vruntime (tsk s c) else minimum)) ts (None, UINT64_MAX) = (None, UINT64_MAX)"
      if "\<forall>c\<in>set ts. \<not> scheduler_task_eligible s (Some c) index ?cur" for ts
      using that by (induction ts) auto
    from this [of "c_runnable (cpu_of s index)"] have "nx = None"
      using scan none h by (simp add: pick_scan_def first_def E_def)
    then show ?thesis by (simp add: eq(2))
  qed
qed

text \<open>C3: the task a CPU runs next.  When no queued task still has to be torn down, one scan suffices; if any queued
  task may run, the chosen one may run and none of the others is more urgent or, being as urgent, has less
  virtual time; otherwise the idle task is chosen.  The forced next task is consumed, and the queue's
  virtual clock never goes back and never passes a task that may run.\<close>

theorem scheduler_pick_next_fair:
  assumes wf: "sched_wf s" and i: "index < cpu_total s"
    and pending: "\<forall>c\<in>set (c_runnable (cpu_of s index)). \<not> pick_pending s (c_current (cpu_of s index)) c"
  shows "\<exists>s' next. scheduler_pick_next (Suc fuel) index s = Some (s', next)
    \<and> k_slots s' = k_slots s \<and> c_next (cpu_of s' index) = None
    \<and> c_min_vruntime (cpu_of s index) \<le> c_min_vruntime (cpu_of s' index)
    \<and> (let eligible = (\<lambda>t. scheduler_task_eligible s (Some t) index (c_current (cpu_of s index))) in
         if \<exists>t < slot_count s. eligible t
         then \<exists>n. next = Some n \<and> eligible n
                \<and> (\<forall>c < slot_count s. eligible c \<longrightarrow> \<not> runs_before s c n
                     \<and> (c_min_vruntime (cpu_of s' index) \<noteq> c_min_vruntime (cpu_of s index) \<longrightarrow>
                        c_min_vruntime (cpu_of s' index) \<le> t_vruntime (tsk s c)))
         else next = c_idle (cpu_of s index))"
proof -
  define hint where "hint = c_next (cpu_of s index)"
  let ?u = "upd_cpu index (\<lambda>c. c\<lparr>c_next := None\<rparr>) s"
  let ?cur = "c_current (cpu_of s index)"
  let ?el = "\<lambda>t. scheduler_task_eligible s (Some t) index ?cur"
  have u: "c_runnable (cpu_of ?u index) = c_runnable (cpu_of s index)" "c_current (cpu_of ?u index) = ?cur"
    "c_idle (cpu_of ?u index) = c_idle (cpu_of s index)" "index < cpu_total ?u" "c_next (cpu_of ?u index) = None"
    "c_min_vruntime (cpu_of ?u index) = c_min_vruntime (cpu_of s index)" "k_slots ?u = k_slots s"
    using i by simp_all
  have el: "scheduler_task_eligible ?u = scheduler_task_eligible s"
    by (intro ext) (rule eligible_cong [OF u(7)])
  have rb: "runs_before ?u = runs_before s" by (intro ext) (simp add: runs_before_def)
  have "find (pick_pending ?u (c_current (cpu_of ?u index))) (c_runnable (cpu_of ?u index)) = None"
    unfolding find_None_iff u using pending by (simp add: pick_pending_def)
  then obtain s' nx where r: "pick_choose index hint ?u = (s', nx)"
    and pick: "scheduler_pick_next (Suc fuel) index s = Some (s', nx)"
    by (cases "pick_choose index hint ?u") (simp add: scheduler_pick_next_def hint_def)
  note f = pick_choose_facts [OF u(4) r, unfolded el rb u]
  have queued: "c \<in> set (c_runnable (cpu_of s index))" if "c < slot_count s" "?el c" for c
    using wf i that by (auto simp: sched_wf_def runq_wf_def cpu_queue_wf_def queue_ok_def scheduler_task_eligible_def)
  have hintb: "ptr_ok s hint" using sched_wf_ptrs(2) [OF wf i] by (simp add: hint_def)
  show ?thesis
  proof (cases "\<exists>t < slot_count s. ?el t")
    case True
    then obtain t where t: "t < slot_count s" "?el t" by blast
    have n: "nx \<noteq> None" "scheduler_task_eligible s nx index ?cur" using f(5,8) queued [OF t] t(2) by blast+
    have all: "\<not> runs_before s c (the nx) \<and> (c_min_vruntime (cpu_of s' index) \<noteq> c_min_vruntime (cpu_of s index) \<longrightarrow>
                        c_min_vruntime (cpu_of s' index) \<le> t_vruntime (tsk s c))" if "c < slot_count s" "?el c" for c
      using f(4,5) queued [OF that] that(2) by blast
    show ?thesis unfolding Let_def if_P [OF True]
      by (rule exI [of _ s'], rule exI [of _ nx], intro conjI pick f(1-3)) (use n all in auto)
  next
    case False
    have "\<not> scheduler_task_eligible s hint index ?cur"
    proof (cases hint)
      case None then show ?thesis by (simp add: scheduler_task_eligible_def)
    next
      case (Some h) then show ?thesis using False hintb by (auto simp: ptr_ok_def)
    qed
    moreover have "\<forall>c. \<not> (c \<in> set (c_runnable (cpu_of s index)) \<and> ?el c)"
      using False wf i by (auto simp: sched_wf_def runq_wf_def cpu_queue_wf_def)
    ultimately have "nx = c_idle (cpu_of s index)" using f(7) by blast
    then show ?thesis unfolding Let_def if_not_P [OF False]
      by (intro exI [of _ s'] exI [of _ nx] conjI pick f(1-3))
  qed
qed

lemma scheduler_pick_next_fair_witness:
  "\<exists>s' n. scheduler_pick_next 1 0 sched_example = Some (s', Some n) \<and> \<not> runs_before sched_example 0 n"
proof -
  have n: "slot_count sched_example = 4" "cpu_total sched_example = 2" "c_runnable (cpu_of sched_example 0) = [2, 1, 0]"
    "c_current (cpu_of sched_example 0) = Some 0" by (simp_all add: example_defs)
  have p: "\<forall>c\<in>set (c_runnable (cpu_of sched_example 0)). \<not> pick_pending sched_example (c_current (cpu_of sched_example 0)) c"
    unfolding n by (simp add: pick_pending_def example_defs)
  have e: "scheduler_task_eligible sched_example (Some 0) 0 (Some 0)"
    by (simp add: scheduler_task_eligible_def example_defs)
  have i: "0 < cpu_total sched_example" by (simp add: n)
  from scheduler_pick_next_fair [OF sched_example_wf i p, of 0] obtain s' nx
    where r: "scheduler_pick_next 1 0 sched_example = Some (s', nx)"
      "\<exists>n. nx = Some n \<and> (\<forall>c<4. scheduler_task_eligible sched_example (Some c) 0 (Some 0) \<longrightarrow> \<not> runs_before sched_example c n)"
    unfolding n Let_def using e by (auto split: if_splits)
  then show ?thesis using e by auto
qed

section \<open>The lock of a thread group\<close>

lemma leader_bound:
  "self < slot_count s \<Longrightarrow> task_group_leader s self < slot_count s"
  by (auto simp: task_group_leader_def get_task_Some split: option.splits)

lemma leader_cong:
  assumes "\<And>x. t_state (tsk u x) = t_state (tsk s x)" "t_tgid (tsk u self) = t_tgid (tsk s self)"
    "slot_count u = slot_count s"
  shows "task_group_leader u self = task_group_leader s self"
proof -
  have "get_task u x = get_task s x" for x
    using assms by (simp add: get_task_def task_slot_at_def)
  then show ?thesis using assms(2) by (simp add: task_group_leader_def)
qed

text \<open>The lock of a thread group is a recursive mutex.  A thread takes it when it is free or already its own,
  counting the depth, and otherwise blocks without touching it; unlocking undoes one \<open>task_lock\<close>: the owner
  stays until the depth is back to zero, then the lock is free and every thread of the group blocked on
  it is runnable.\<close>

theorem group_lock_recursive:
  assumes wf: "sched_wf s" and cur: "current_task s = Some self"
    and leader: "leader = task_group_leader s self"
    and consistent: "t_group_lock_owner (tsk s leader) = TASK_ID_NONE \<Longrightarrow> t_group_lock_depth (tsk s leader) = 0"
    and room: "t_group_lock_depth (tsk s leader) + 1 \<noteq> 0"
  shows "let (s', r) = task_lock s; s'' = task_unlock s' in
     if t_group_lock_owner (tsk s leader) \<in> {TASK_ID_NONE, self}
     then r = Done () \<and> t_group_lock_owner (tsk s' leader) = self
       \<and> t_group_lock_depth (tsk s' leader) = t_group_lock_depth (tsk s leader) + 1
       \<and> sched_wf s''
       \<and> (if t_group_lock_depth (tsk s leader) = 0
          then (\<forall>t < slot_count s. group_lock_waiter (t_tgid (tsk s self)) s t \<longrightarrow> t_state (tsk s'' t) = RUNNING)
          else tsk s'' leader = tsk s leader)
     else r = Switch \<and> t_group_lock_owner (tsk s' leader) = t_group_lock_owner (tsk s leader)
       \<and> t_group_lock_depth (tsk s' leader) = t_group_lock_depth (tsk s leader)
       \<and> t_state (tsk s' self) = WAITING \<and> t_wait_reason (tsk s' self) = WR_TASK_GROUP_LOCK"
proof -
  have self: "current_tid s = self" "self < slot_count s" using sched_wf_current_tid [OF wf cur] by simp_all
  have tid: "t_tid (tsk s self) = self" using wf self(2) by (rule sched_wf_tid)
  have lb: "leader < slot_count s" using leader_bound [OF self(2)] leader by simp
  let ?d = "t_group_lock_depth (tsk s leader)"
  show ?thesis
  proof (cases "t_group_lock_owner (tsk s leader) \<in> {TASK_ID_NONE, self}")
    case False
    then show ?thesis using self lb tid
      by (auto simp: task_lock_def leader [symmetric] tsk_task_set_state nth_list_update_if)
  next
    case True
    define s1 where "s1 = upd_task leader (\<lambda>k. k\<lparr>t_group_lock_owner := self, t_group_lock_depth := ?d + 1\<rparr>) s"
    have lock: "task_lock s = (s1, Done ())"
    proof -
      have "upd_task leader (\<lambda>k. k\<lparr>t_group_lock_owner := self, t_group_lock_depth := t_group_lock_depth k + 1\<rparr>) s = s1"
        by (simp add: s1_def upd_task_def)
      then show ?thesis using True by (auto simp: task_lock_def Let_def self tid leader [symmetric])
    qed
    have t1: "tsk s1 leader = (tsk s leader)\<lparr>t_group_lock_owner := self, t_group_lock_depth := ?d + 1\<rparr>"
      "slot_count s1 = slot_count s" "current_tid s1 = self" "t_tid (tsk s1 self) = self"
      using lb self tid by (simp_all add: s1_def current_tid_def current_task_def nth_list_update_if)
    have l1: "task_group_leader s1 self = leader"
      unfolding leader by (rule leader_cong) (auto simp: s1_def nth_list_update_if)
    define s2 where "s2 = upd_task leader (\<lambda>k. k\<lparr>t_group_lock_depth := ?d\<rparr>) s1"
    have s2: "upd_task leader (\<lambda>k. k\<lparr>t_group_lock_depth := t_group_lock_depth k - 1\<rparr>) s1 = s2"
      using lb t1 by (simp add: s2_def upd_task_def)
    have wf1: "sched_wf s1" unfolding s1_def by (rule sched_wf_upd_task [OF wf]) (simp add: sched_view_def)
    have wf2: "sched_wf (task_unlock s1)" using wf1 by (rule sched_wf_task_unlock)
    have un: "task_unlock s1 = (if ?d = 0 then wake_group_lock_waiters (t_tgid (tsk s self))
          (upd_task leader (\<lambda>k. k\<lparr>t_group_lock_owner := TASK_ID_NONE\<rparr>) s2) else s2)"
    proof -
      have "t_tgid (tsk s2 self) = t_tgid (tsk s self)" "t_group_lock_depth (tsk s2 leader) = ?d"
        using lb by (auto simp: s2_def s1_def nth_list_update_if)
      then show ?thesis using room unfolding task_unlock_def Let_def t1(3) l1 s2 t1(1) t1(4) by simp
    qed
    have res: "if ?d = 0
          then (\<forall>t < slot_count s. group_lock_waiter (t_tgid (tsk s self)) s t \<longrightarrow> t_state (tsk (task_unlock s1) t) = RUNNING)
          else tsk (task_unlock s1) leader = tsk s leader"
    proof (cases "?d = 0")
      case False
      then have "t_group_lock_owner (tsk s leader) = self" using True consistent by auto
      then show ?thesis using False lb t1 by (simp add: un s2_def)
    next
      case zero: True
      let ?v = "upd_task leader (\<lambda>k. k\<lparr>t_group_lock_owner := TASK_ID_NONE\<rparr>) s2"
      let ?P = "group_lock_waiter (t_tgid (tsk s self))"
      have "t_state (tsk (for_slots ?P task_run ?v) t) = RUNNING" if t: "t < slot_count s" "?P s t" for t
      proof -
        obtain u where u: "tsk (for_slots ?P task_run ?v) t
            = (if t < slot_count ?v \<and> ?P ?v t then tsk (task_run t u) t else tsk ?v t)"
          "tsk u t = tsk ?v t" "slot_count u = slot_count ?v"
          by (rule tsk_for_slots_task_run [of ?P ?v t]) (simp add: group_lock_waiter_def)
        have v: "?P ?v t" "t_state (tsk ?v t) = WAITING" "slot_count ?v = slot_count s"
          using t by (auto simp: s2_def s1_def group_lock_waiter_def nth_list_update_if task_slot_in_use_def)
        then show ?thesis using u t task_run_blocked [of t u] by simp
      qed
      then show ?thesis by (simp add: un zero wake_group_lock_waiters_def)
    qed
    show ?thesis using True wf2 res by (simp add: lock t1(1))
  qed
qed

lemma group_lock_recursive_witness:
  "snd (task_lock sched_example) = Done () \<and> sched_wf (task_unlock (fst (task_lock sched_example)))"
proof -
  have c: "current_task sched_example = Some 0" by (simp add: current_task_def example_defs)
  have l: "0 = task_group_leader sched_example 0"
    by (simp add: task_group_leader_def get_task_def task_slot_at_def example_defs)
  have o': "t_group_lock_owner (tsk sched_example 0) = TASK_ID_NONE" "t_group_lock_depth (tsk sched_example 0) = 0"
    by (simp_all add: example_defs)
  from group_lock_recursive [OF sched_example_wf c l] show ?thesis
    by (cases "task_lock sched_example") (simp add: o' Let_def)
qed

section \<open>Snapshots\<close>

text \<open>A task snapshot is complete or not given at all.  The count is always the number of tasks that run, wait,
  sleep or are zombies; with a large enough buffer there is one entry for each of them, in tid order and
  without repetition, and a buffer that is too small gets none.\<close>

theorem task_snapshot_complete:
  assumes wf: "sched_wf s" and r: "task_snapshot now want capacity s = (s', number, result)"
  shows "sched_wf s' \<and> number = card {t. t < slot_count s \<and> task_slot_in_use (tsk s t)}
    \<and> (case result of
         None \<Rightarrow> want \<and> capacity < number
       | Some infos \<Rightarrow>
           if want then number \<le> capacity \<and> length infos = number \<and> sorted (map i_tid infos) \<and> distinct (map i_tid infos)
             \<and> set (map i_tid infos) = {t. t < slot_count s \<and> task_slot_in_use (tsk s t)}
             \<and> (\<forall>i\<in>set infos. i = task_info_of (tsk s' (i_tid i)))
           else infos = [])"
proof -
  define a where "a = scheduler_account (k_this_cpu s) now s"
  have wfa: "sched_wf a" unfolding a_def using wf by (intro sched_wf_account sched_wf_this_cpu)
  have st: "t_state (tsk a t) = t_state (tsk s t)" for t
    by (auto simp: a_def scheduler_account_def Let_def nth_list_update_if split: option.splits)
  have n: "slot_count a = slot_count s" by (simp add: a_def)
  define used where "used = filter (\<lambda>i. t_state (tsk a i) \<notin> {EMPTY, ALLOCATING, WILL_EMPTY, READY}) [0..<slot_count s]"
  have set: "set used = {t. t < slot_count s \<and> task_slot_in_use (tsk s t)}"
    by (auto simp: used_def st task_slot_in_use_def)
  have d: "distinct used" "sorted used" by (simp_all add: used_def sorted_filter [of "\<lambda>x. x", simplified])
  have card: "length used = card {t. t < slot_count s \<and> task_slot_in_use (tsk s t)}"
    using distinct_card [OF d(1)] set by simp
  have tids: "map i_tid (map (\<lambda>i. task_info_of (tsk a i)) used) = used"
  proof -
    have "i_tid (task_info_of (tsk a i)) = i" if "i \<in> set used" for i
      using that set sched_wf_tid [OF wfa, of i] by (simp add: task_info_of_def n)
    then show ?thesis by (simp add: comp_def map_idI)
  qed
  have r': "(s', number, result) = (if \<not> want then (a, length used, Some [])
         else if capacity < length used then (a, length used, None)
         else (a, length used, Some (map (\<lambda>i. task_info_of (tsk a i)) used)))"
    by (rule r [symmetric, unfolded task_snapshot_def Let_def a_def [symmetric] n used_def [symmetric]])
  have inf: "\<forall>i\<in>set (map (\<lambda>i. task_info_of (tsk a i)) used). i = task_info_of (tsk a (i_tid i))"
  proof
    fix i assume "i \<in> set (map (\<lambda>i. task_info_of (tsk a i)) used)"
    then obtain j where j: "j \<in> set used" "i = task_info_of (tsk a j)" by auto
    have "i_tid i = j" using j set sched_wf_tid [OF wfa, of j] by (simp add: task_info_of_def n)
    then show "i = task_info_of (tsk a (i_tid i))" using j by simp
  qed
  show ?thesis
  proof (cases "want \<and> \<not> capacity < length used")
    case True
    then have "s' = a" "number = length used" "result = Some (map (\<lambda>i. task_info_of (tsk a i)) used)"
      using r' by simp_all
    then show ?thesis using True wfa card inf tids d set by simp
  next
    case False then show ?thesis using r' wfa card by (auto split: if_splits)
  qed
qed

lemma task_snapshot_complete_witness:
  "fst (snd (task_snapshot 0 True 2 sched_example)) = 4 \<and> snd (snd (task_snapshot 0 True 2 sched_example)) = None"
proof -
  obtain s' c r where e: "task_snapshot 0 True 2 sched_example = (s', c, r)" by (metis prod_cases3)
  have n: "slot_count sched_example = 4" by (simp add: example_defs)
  have "{t. t < slot_count sched_example \<and> task_slot_in_use (tsk sched_example t)} = {0, 1, 2, 3}"
  proof (rule set_eqI)
    fix t
    have "task_slot_in_use (tsk sched_example t)" if "t = 0 \<or> t = 1 \<or> t = 2 \<or> t = 3"
      using that by (elim disjE; simp add: example_defs task_slot_in_use_def)
    then show "t \<in> {t. t < slot_count sched_example \<and> task_slot_in_use (tsk sched_example t)} \<longleftrightarrow> t \<in> {0, 1, 2, 3}"
      unfolding n by auto
  qed
  with task_snapshot_complete [OF sched_example_wf e] show ?thesis by (cases r) (auto simp: e)
qed

end
