(* ===== verification/WaitProps.thy ===== *)
theory WaitProps
  imports PickProps
begin

text \<open>
  Waiting for a child process or a thread: what \<open>task_wait\<close> delivers, and that a parent that blocked in it is
  woken when the child finishes and then collects its exit status.
\<close>

definition clear_wait :: "mtask \<Rightarrow> mtask" where
  "clear_wait k = k\<lparr>t_waittid := TASK_ID_NONE, t_wait_generation := 0, t_wait_reason := WR_NONE\<rparr>"

lemma task_wait_cases:
  assumes "task_wait tid generation thread s = (s', r)"
  defines "self \<equiv> current_tid s" and "child \<equiv> get_task s tid"
  obtains
    (none) "\<not> task_can_join s self child thread \<or> t_generation (tsk s (the child)) \<noteq> generation"
      "s' = upd_task self clear_wait s" "r = Done None"
  | (zombie) "task_can_join s self child thread" "child = Some tid" "t_generation (tsk s tid) = generation"
      "t_state (tsk s tid) = DIED" "s' = task_slot_release tid (upd_task self clear_wait s)"
      "r = Done (Some (t_status (tsk s tid)))"
  | (block) "task_can_join s self child thread" "child = Some tid" "t_generation (tsk s tid) = generation"
      "t_state (tsk s tid) \<noteq> DIED" "r = Switch"
      "s' = upd_task self (\<lambda>k. k\<lparr>t_ready := False\<rparr>) (task_set_state self WAITING
             (upd_task self (\<lambda>k. k\<lparr>t_waittid := tid, t_wait_generation := generation, t_wait_reason := WR_CHILD\<rparr>) s))"
proof -
  have c: "child = Some tid" if "task_can_join s self child thread"
    using that by (auto simp: task_can_join_def child_def get_task_Some split: option.splits)
  have cl: "(\<lambda>k. k\<lparr>t_waittid := TASK_ID_NONE, t_wait_generation := 0, t_wait_reason := WR_NONE\<rparr>) = clear_wait"
    by (rule ext) (simp add: clear_wait_def)
  note eq = assms(1) [unfolded task_wait_def Let_def, folded self_def child_def, unfolded cl, symmetric]
  show ?thesis
  proof (cases "\<not> task_can_join s self child thread \<or> t_generation (tsk s (the child)) \<noteq> generation")
    case True then show ?thesis using eq none by auto
  next
    case False
    then show ?thesis using eq zombie block c by (cases "t_state (tsk s tid) = DIED") auto
  qed
qed

lemma clear_wait_view: "sched_view (clear_wait k) = sched_view k"
  by (simp add: clear_wait_def sched_view_def)

text \<open>C34: waiting delivers an exit status at most once and only to whom it belongs.  A status is returned only for
  a zombie of the generation asked for that the caller may join, it is the status the task left, and its
  slot is free afterwards; a caller that may not join it, or asks for an older generation, gets no status
  and changes no other task; a caller that blocks does so as a waiter its child will find.\<close>

theorem task_wait_collects:
  assumes wf: "sched_wf s" and cur: "current_task s = Some self"
    and r: "task_wait tid generation thread s = (s', r)"
  shows "sched_wf s' \<and> (\<forall>u. u \<noteq> self \<and> u \<noteq> tid \<longrightarrow> tsk s' u = tsk s u)
    \<and> (let joinable = task_can_join s self (get_task s tid) thread \<and> t_generation (tsk s tid) = generation in
       case r of
         Done (Some status) \<Rightarrow> joinable \<and> t_state (tsk s tid) = DIED \<and> status = t_status (tsk s tid)
           \<and> t_state (tsk s' tid) = EMPTY \<and> get_task s' tid = None \<and> t_wait_reason (tsk s' self) = WR_NONE
       | Done None \<Rightarrow> \<not> joinable \<and> (self \<noteq> tid \<longrightarrow> tsk s' tid = tsk s tid) \<and> t_state (tsk s' self) = t_state (tsk s self)
       | Switch \<Rightarrow> joinable \<and> t_state (tsk s tid) \<noteq> DIED \<and> tsk s' tid = tsk s tid
           \<and> child_waiter (t_tgid (tsk s self)) tid generation s' self
       | SwitchThen _ \<Rightarrow> False | Retry \<Rightarrow> False)"
proof -
  have self: "current_tid s = self" "self < slot_count s" using sched_wf_current_tid [OF wf cur] by simp_all
  have none_th: "get_task s tid = Some tid" if "task_can_join s self (get_task s tid) thread"
    using that by (auto simp: task_can_join_def get_task_Some split: option.splits)
  have cl: "sched_wf (upd_task self clear_wait s)" by (rule sched_wf_upd_task [OF wf]) (rule clear_wait_view)
  from r show ?thesis
  proof (cases rule: task_wait_cases)
    case none
    then have "\<not> (task_can_join s self (get_task s tid) thread \<and> t_generation (tsk s tid) = generation)"
      using none_th self by auto
    then show ?thesis using none cl self by (simp add: clear_wait_def nth_list_update_if)
  next
    case zombie
    let ?u = "upd_task self clear_wait s"
    have tid: "tid < slot_count s" "tid \<noteq> self" using zombie by (auto simp: get_task_Some task_can_join_def self)
    have t: "t_tid (tsk ?u tid) = tid" "tid < slot_count ?u" using sched_wf_tid [OF cl, of tid] tid by simp_all
    note f = task_slot_release_fields [OF t]
    have e: "t_state (tsk s' tid) = EMPTY" "get_task s' tid = None" "t_wait_reason (tsk s' self) = WR_NONE"
      using zombie(5) f(1) tid self(2) by (simp_all add: get_task_None task_slot_in_use_def clear_wait_def self(1))
    have o': "tsk s' u = tsk s u" if "u \<noteq> self \<and> u \<noteq> tid" for u
      using that by (simp add: zombie(5) f(1) self(1))
    have "sched_wf s'" unfolding zombie(5) self(1) using cl t(2) by (rule sched_wf_release)
    then show ?thesis using zombie e o' self(1) by (simp add: Let_def)
  next
    case block
    let ?f = "\<lambda>k. k\<lparr>t_waittid := tid, t_wait_generation := generation, t_wait_reason := WR_CHILD\<rparr>"
    have tid: "tid < slot_count s" "tid \<noteq> self" using block by (auto simp: get_task_Some task_can_join_def self)
    have "sched_wf (upd_task self ?f s)" by (rule sched_wf_upd_task [OF wf]) (simp add: sched_view_def)
    then have "sched_wf (task_set_state self WAITING (upd_task self ?f s))"
      by (rule sched_wf_task_set_state) (simp add: self(2))
    then have wf': "sched_wf s'" unfolding block(6) self(1)
      by (rule sched_wf_upd_task) (simp add: sched_view_def)
    have t: "tsk s' u = tsk s u" if "u \<noteq> self" for u
      using that self by (simp add: block(6) self(1) tsk_task_set_state)
    have "child_waiter (t_tgid (tsk s self)) tid generation s' self" "task_slot_in_use (tsk s' self)"
      using self(2) by (simp_all add: block(6) self(1) child_waiter_def task_slot_in_use_def tsk_task_set_state)
    then show ?thesis using block wf' t tid self(1) by (simp add: Let_def)
  qed
qed

lemma task_wait_collects_witness:
  "snd (task_wait 1 1 False (upd_task 1 (\<lambda>k. k\<lparr>t_ptid := 0\<rparr>) sched_example)) = Switch"
proof -
  define s where "s = upd_task 1 (\<lambda>k. k\<lparr>t_ptid := 0\<rparr>) sched_example"
  have wf: "sched_wf s" unfolding s_def by (rule sched_wf_upd_task [OF sched_example_wf]) (simp add: sched_view_def)
  have c: "current_task s = Some 0" by (simp add: s_def current_task_def example_defs)
  obtain s' r where r: "task_wait 1 1 False s = (s', r)" by force
  have j: "task_can_join s 0 (get_task s 1) False" "t_generation (tsk s 1) = 1" "t_state (tsk s 1) = RUNNING"
    by (simp_all add: s_def task_can_join_def get_task_def task_slot_at_def example_defs)
  from task_wait_collects [OF wf c r] j show ?thesis unfolding s_def [symmetric] r
    by (cases r) (auto simp: Let_def split: option.splits)
qed

section \<open>From blocking to the exit status\<close>

lemma finish_task_keeps:
  assumes wf: "sched_wf s" and ok: "teardown_ok t s"
  shows "t_kind (tsk (finish_task t status True s) t) = t_kind (tsk s t)"
    "t_ptid (tsk (finish_task t status True s) t) = t_ptid (tsk s t)"
    "t_tgid (tsk (finish_task t status True s) t) = t_tgid (tsk s t)"
    "t_generation (tsk (finish_task t status True s) t) = t_generation (tsk s t)"
    "t_joinable (tsk (finish_task t status True s) t) = t_joinable (tsk s t)"
    "slot_count (finish_task t status True s) = slot_count s"
    "t_tgid (tsk (finish_task t status True s) p) = t_tgid (tsk s p)"
proof -
  define b where "b = task_clear_external_refs t (scheduler_remove t s)"
  have t: "t < slot_count s" using ok by (simp add: teardown_ok_def)
  have b: "calm t (scheduler_remove t s) b" unfolding b_def using teardown_ok_remove [OF ok] by (rule clear_external_refs_calm)
  have sb: "slot_count b = slot_count s" using calm_tid(2) [OF b] by simp
  define c where "c = upd_task t (\<lambda>k. k\<lparr>t_status := status\<rparr>) (task_release_resources t (scheduler_remove t s))"
  have c: "t_wait_reason (tsk c t) \<noteq> WR_CHILD" "slot_count c = slot_count s" "t_tgid (tsk c x) = t_tgid (tsk b x)"
    "t_kind (tsk c t) = t_kind (tsk b t)" "t_ptid (tsk c t) = t_ptid (tsk b t)" "t_joinable (tsk c t) = t_joinable (tsk b t)"
    "t_generation (tsk c t) = t_generation (tsk b t)" for x
    using sb t by (auto simp: c_def task_release_resources_def b_def [symmetric] nth_list_update_if)
  note w = wake_child_waiter_calm [OF c(1)]
  have e: "finish_task t status True s = upd_task t (\<lambda>k. k\<lparr>t_state := DIED\<rparr>) (wake_child_waiter t c)"
    by (simp add: finish_task_split finish_before_def c_def)
  have n: "slot_count (wake_child_waiter t c) = slot_count s" using calm_tid(2) [OF conjunct1 [OF w]] c(2) by simp
  have life: "life_view (tsk b t) = life_view (tsk (scheduler_remove t s) t)" using b by (rule calm_life)
  show "t_kind (tsk (finish_task t status True s) t) = t_kind (tsk s t)"
    "t_ptid (tsk (finish_task t status True s) t) = t_ptid (tsk s t)"
    "t_tgid (tsk (finish_task t status True s) t) = t_tgid (tsk s t)"
    "t_generation (tsk (finish_task t status True s) t) = t_generation (tsk s t)"
    "t_joinable (tsk (finish_task t status True s) t) = t_joinable (tsk s t)"
    using life w c t n by (auto simp: e life_view_def tsk_scheduler_remove)
  show "slot_count (finish_task t status True s) = slot_count s" by (simp add: e n)
  have "t_tgid (tsk (wake_child_waiter t c) p) = t_tgid (tsk s p)"
    using calm_tgid [OF conjunct1 [OF w]] calm_tgid [OF b] c(3) by (simp add: tsk_scheduler_remove)
  then show "t_tgid (tsk (finish_task t status True s) p) = t_tgid (tsk s p)" by (auto simp: e nth_list_update_if)
qed

text \<open>\<open>self\<close> may join \<open>child\<close>, which is still the task of the generation asked for.\<close>

definition joins :: "nat \<Rightarrow> nat \<Rightarrow> u32 \<Rightarrow> bool \<Rightarrow> kernel \<Rightarrow> bool" where
  "joins self child generation thread u \<longleftrightarrow> self < slot_count u
     \<and> task_can_join u self (get_task u child) thread \<and> t_generation (tsk u child) = generation"

lemma joinsD:
  assumes "joins self child generation thread u"
  shows "self < slot_count u" "child < slot_count u" "child \<noteq> self" "get_task u child = Some child"
    "t_generation (tsk u child) = generation"
    "t_tgid (tsk u self) = (if t_kind (tsk u child) = TASK_THREAD then t_tgid (tsk u child) else t_ptid (tsk u child))"
  using assms by (auto simp: joins_def task_can_join_def get_task_Some split: option.splits if_splits)

text \<open>A child that finishes wakes the task waiting for it.\<close>

lemma finish_wakes_joiner:
  assumes wf: "sched_wf u" and ok: "teardown_ok child u" and j: "joins self child generation thread u"
    and waiter: "child_waiter (t_tgid (tsk u self)) child generation u self"
    and owner: "t_tgid (tsk u self) \<notin> {TASK_ID_NONE, REAPER_TID}"
  shows "t_state (tsk (finish_task child status True u) self) = RUNNING"
proof -
  note j = joinsD [OF j]
  have "t_state (tsk (finish_before child status u) self) = RUNNING"
    by (rule finish_before_parent [OF wf ok j(1) _ _ j(6) owner]) (use j(3) waiter in \<open>simp_all add: j(5)\<close>)
  then show ?thesis using j(3) by (simp add: finish_task_split)
qed

text \<open>Whether it slept or not, its next round collects the status.\<close>

lemma finished_child_collected:
  assumes wf: "sched_wf u" and ok: "teardown_ok child u" and j: "joins self child generation thread u"
    and v: "tsk v child = tsk (finish_task child status True u) child" "child < slot_count v"
      "current_tid v = self" "t_tgid (tsk v self) = t_tgid (tsk u self)"
  shows "snd (task_wait child generation thread v) = Done (Some status)"
proof -
  note k = finish_task_keeps [OF wf ok, of status] and f = finish_before_facts [OF wf ok, of status]
  have can: "task_can_join u self (Some child) thread" using j joinsD(4) [OF j] by (simp add: joins_def)
  note j = joinsD [OF j]
  have died: "t_state (tsk v child) = DIED" "t_status (tsk v child) = status"
    using f(2,5) j(2) by (simp_all add: v(1) finish_task_split)
  then have get: "get_task v child = Some child" by (simp add: get_task_Some v(2) task_slot_in_use_def)
  have "task_can_join v self (Some child) thread"
    using can k(1-3,5) v(1,4) by (auto simp: task_can_join_def split: if_splits)
  then show ?thesis using died k(4) j(5) by (simp add: task_wait_def Let_def get v(1,3))
qed

text \<open>C2: an exit status reaches the task that waits for it.  A task that blocks in \<open>task_wait\<close> is afterwards a
  waiter that may join the child.  In any later state in which it still may join this child and the child then
  finishes as a zombie: if the task still sleeps there as a waiter, and its thread group is neither nobody nor the
  reaper (for which the code wakes nobody), it has become runnable; and in any case, woken or not, its next round,
  in any state in which the zombie's record is untouched and its thread group is the same, returns exactly the
  status the child finished with.\<close>

theorem exit_status_delivered:
  assumes wf: "sched_wf s" and cur: "current_task s = Some self"
    and wait: "task_wait child generation thread s = (s', Switch)"
  shows "sched_wf s' \<and> joins self child generation thread s'
    \<and> child_waiter (t_tgid (tsk s' self)) child generation s' self
    \<and> (\<forall>u status. sched_wf u \<and> teardown_ok child u \<and> joins self child generation thread u \<longrightarrow>
         (child_waiter (t_tgid (tsk u self)) child generation u self
            \<and> t_tgid (tsk u self) \<notin> {TASK_ID_NONE, REAPER_TID} \<longrightarrow>
            t_state (tsk (finish_task child status True u) self) = RUNNING)
         \<and> (\<forall>v. tsk v child = tsk (finish_task child status True u) child \<and> child < slot_count v
                \<and> current_tid v = self \<and> t_tgid (tsk v self) = t_tgid (tsk u self) \<longrightarrow>
                snd (task_wait child generation thread v) = Done (Some status)))"
proof -
  have sb: "current_tid s = self" "self < slot_count s" using sched_wf_current_tid [OF wf cur] by simp_all
  obtain join: "task_can_join s self (get_task s child) thread" "get_task s child = Some child"
      "t_generation (tsk s child) = generation" "t_state (tsk s child) \<noteq> DIED"
    and s': "s' = upd_task self (\<lambda>k. k\<lparr>t_ready := False\<rparr>) (task_set_state self WAITING
             (upd_task self (\<lambda>k. k\<lparr>t_waittid := child, t_wait_generation := generation, t_wait_reason := WR_CHILD\<rparr>) s))"
    using wait sb(1) by (cases rule: task_wait_cases [OF wait]) auto
  have cs: "child < slot_count s" "child \<noteq> self" using join by (auto simp: get_task_Some task_can_join_def)
  have wf': "sched_wf s'"
  proof -
    have "sched_wf (upd_task self (\<lambda>k. k\<lparr>t_waittid := child, t_wait_generation := generation, t_wait_reason := WR_CHILD\<rparr>) s)"
      by (rule sched_wf_upd_task [OF wf]) (simp add: sched_view_def)
    then have "sched_wf (task_set_state self WAITING (upd_task self (\<lambda>k. k\<lparr>t_waittid := child,
        t_wait_generation := generation, t_wait_reason := WR_CHILD\<rparr>) s))"
      by (rule sched_wf_task_set_state) (simp add: sb)
    then show ?thesis unfolding s' by (rule sched_wf_upd_task) (simp add: sched_view_def)
  qed
  have same: "tsk s' child = tsk s child" "slot_count s' = slot_count s" "t_tgid (tsk s' self) = t_tgid (tsk s self)"
    using cs sb by (simp_all add: s' tsk_task_set_state)
  have waiter: "child_waiter (t_tgid (tsk s' self)) child generation s' self"
    unfolding same(3) using sb by (simp add: s' child_waiter_def task_slot_in_use_def tsk_task_set_state)
  have "get_task s' child = Some child" using join(2) by (simp add: get_task_Some same)
  then have "joins self child generation thread s'"
    using join sb by (auto simp: joins_def same task_can_join_def split: if_splits)
  with wf' waiter finish_wakes_joiner finished_child_collected show ?thesis by blast
qed

text \<open>A parent at CPU 0 and a child of it that sleeps, with empty drive queues.\<close>

definition wait_example :: kernel where
  "wait_example = (example_kernel
     [(example_task 0 SLEEPING 1 0), (example_task 1 RUNNING 4 0)\<lparr>t_on_cpu := True\<rparr>,
      (example_task 2 SLEEPING 2 0)\<lparr>t_ptid := 1\<rparr>]
     [example_cpu (Some 1) [1] 4])\<lparr>k_drives := replicate 16 drive_queue_empty\<rparr>"

lemma wait_example_facts:
  "sched_wf wait_example" "current_task wait_example = Some 1" "slot_count wait_example = 3"
  "drives_wf wait_example"
proof -
  show "sched_wf wait_example" unfolding sched_wf_def runq_wf_def cpu_queue_wf_code all_less_upt
    by (simp add: wait_example_def example_defs queue_ok_def ptr_ok_def)
qed (simp_all add: wait_example_def current_task_def drives_wf_def example_defs)

lemma exit_status_delivered_witness:
  "snd (task_wait 2 1 False ((finish_task 2 42 True (fst (task_wait 2 1 False wait_example)))\<lparr>
      k_cpus := k_cpus wait_example, k_this_cpu := 0\<rparr>)) = Done (Some 42)"
proof -
  define s' where "s' = fst (task_wait 2 1 False wait_example)"
  have t2: "t_state (tsk wait_example 2) = SLEEPING" "t_generation (tsk wait_example 2) = 1" "t_ptid (tsk wait_example 2) = 1"
    "t_kind (tsk wait_example 2) = TASK_PROCESS" "t_tgid (tsk wait_example 1) = 1" "t_tgid (tsk wait_example 2) = 2"
    "t_wait_reason (tsk wait_example 2) = WR_NONE" "t_tid (tsk wait_example 2) = 2"
    by (simp_all add: wait_example_def example_defs)
  have c: "current_tid wait_example = 1" using wait_example_facts(2) by (simp add: current_tid_def)
  have w: "task_wait 2 1 False wait_example = (s', Switch)"
    using t2 wait_example_facts(3) c
    by (simp add: s'_def task_wait_def Let_def task_can_join_def get_task_def task_slot_at_def)
  have u: "s' = upd_task 1 (\<lambda>k. k\<lparr>t_ready := False\<rparr>) (task_set_state 1 WAITING
             (upd_task 1 (\<lambda>k. k\<lparr>t_waittid := 2, t_wait_generation := 1, t_wait_reason := WR_CHILD\<rparr>) wait_example))"
    using w c by (cases rule: task_wait_cases [OF w]) auto
  have d: "k_drives s' = k_drives wait_example"
    using tables_set_state [of 1 WAITING] by (simp add: u tables_def)
  have same: "tsk s' 2 = tsk wait_example 2" "slot_count s' = 3"
    using wait_example_facts(3) by (simp_all add: u tsk_task_set_state)
  have ok: "teardown_ok 2 s'"
    using wait_example_facts(4) t2 by (simp add: teardown_ok_def same drives_wf_def d)
  let ?v = "(finish_task 2 42 True s')\<lparr>k_cpus := k_cpus wait_example, k_this_cpu := 0\<rparr>"
  have v: "current_tid ?v = 1"
    by (simp add: current_tid_def current_task_def wait_example_def example_defs)
  note t = exit_status_delivered [OF wait_example_facts(1,2) w]
  have j: "sched_wf s' \<and> teardown_ok 2 s' \<and> joins 1 2 1 False s'" using t ok by blast
  have "2 < slot_count ?v" "t_tgid (tsk ?v 1) = t_tgid (tsk s' 1)"
    using finish_task_keeps [OF conjunct1 [OF j] ok, of 42] same(2) by simp_all
  then have "snd (task_wait 2 1 False ?v) = Done (Some 42)"
    using t [THEN conjunct2, THEN conjunct2, THEN conjunct2, THEN spec, THEN spec, THEN mp, OF j, of 42,
      THEN conjunct2, THEN spec, of ?v] v by simp
  then show ?thesis by (simp add: s'_def)
qed

end
