(* ===== verification/Kasan.thy ===== *)
theory Kasan
  imports Prelude
begin

text \<open>
  The address sanitizer of \<^verbatim>\<open>kernel/dos/mm/kasan.c\<close> (the build with \<open>KASAN_ENABLED\<close>, i386): the shadow memory
  with one byte for eight, the table of allocations, and the check the compiler inserts before every
  access.  Addresses are natural numbers below \<open>2 ^ 32\<close> with the wrap-around of \<open>uintptr_t\<close> written
  out; the shadow is a map from granules to tags.
\<close>

section \<open>State\<close>

abbreviation KASAN_SHADOW_GRANULE :: nat where "KASAN_SHADOW_GRANULE \<equiv> 8"
definition KASAN_SHADOW_SIZE :: nat where "KASAN_SHADOW_SIZE = 67108864"
definition KASAN_MAX_ALLOCS :: nat where "KASAN_MAX_ALLOCS = 16384"
abbreviation "KASAN_TAG_VALID \<equiv> (0 :: u8)"
abbreviation "KASAN_TAG_LEFT \<equiv> (0xf1 :: u8)"
abbreviation "KASAN_TAG_RIGHT \<equiv> (0xf2 :: u8)"
abbreviation "KASAN_TAG_FREED \<equiv> (0xf3 :: u8)"
abbreviation "KASAN_TAG_PAGE_REDZONE \<equiv> (0xf4 :: u8)"
abbreviation "KASAN_TAG_UNTRACKED \<equiv> (0xff :: u8)"

datatype kasan_state = KASAN_STATE_EMPTY | KASAN_STATE_ACTIVE | KASAN_STATE_FREED

record kasan_alloc_info =
  ka_base :: nat
  ka_user :: nat
  ka_total_size :: nat
  ka_user_size :: nat
  ka_type :: nat
  ka_state :: kasan_state

text \<open>A report: address, size, whether it was a write, and the reason.\<close>

type_synonym kasan_event = "nat \<times> nat \<times> bool \<times> string"

record kasan =
  ks_shadow :: "nat \<Rightarrow> u8"
  ks_allocs :: "kasan_alloc_info list"
  ks_ready :: bool
  ks_reporting :: bool
  ks_reports :: "(kasan_event \<times> kasan_alloc_info option) list"

text \<open>\<open>uintptr_t\<close> arithmetic.\<close>

abbreviation wrap32 :: "nat \<Rightarrow> nat" where "wrap32 n \<equiv> n mod 2 ^ 32"

section \<open>Filling\<close>

text \<open>A little-endian 32-bit store, and the loop that stores the pattern \<open>count\<close> times.\<close>

definition store32 :: "nat \<Rightarrow> u32 \<Rightarrow> (nat \<Rightarrow> u8) \<Rightarrow> nat \<Rightarrow> u8" where
  "store32 p w mem = mem(p := ucast w, p + 1 := ucast (drop_bit 8 w), p + 2 := ucast (drop_bit 16 w),
                         p + 3 := ucast (drop_bit 24 w))"

primrec fill_wide :: "nat \<Rightarrow> nat \<Rightarrow> u32 \<Rightarrow> (nat \<Rightarrow> u8) \<Rightarrow> nat \<Rightarrow> u8" where
  "fill_wide 0 p pattern mem = mem"
| "fill_wide (Suc n) p pattern mem = fill_wide n (p + 4) pattern (store32 p pattern mem)"

primrec fill_tail :: "nat \<Rightarrow> nat \<Rightarrow> u8 \<Rightarrow> (nat \<Rightarrow> u8) \<Rightarrow> nat \<Rightarrow> u8" where
  "fill_tail 0 p byte mem = mem"
| "fill_tail (Suc n) p byte mem = fill_tail n (p + 1) byte (mem(p := byte))"

definition kasan_raw_fill :: "nat \<Rightarrow> u8 \<Rightarrow> nat \<Rightarrow> (nat \<Rightarrow> u8) \<Rightarrow> nat \<Rightarrow> u8" where
  "kasan_raw_fill addr val size_in_bytes mem =
     (let pattern = (ucast val :: u32);
          pattern = pattern OR push_bit 8 pattern;
          pattern = pattern OR push_bit 16 pattern;
          wide = size_in_bytes div 4
      in fill_tail (size_in_bytes mod 4) (addr + 4 * wide) val (fill_wide wide addr pattern mem))"

definition kasan_alloc_none :: kasan_alloc_info where
  "kasan_alloc_none = \<lparr>ka_base = 0, ka_user = 0, ka_total_size = 0, ka_user_size = 0, ka_type = 0,
     ka_state = KASAN_STATE_EMPTY\<rparr>"

definition kasan_init :: "kasan \<Rightarrow> kasan" where
  "kasan_init s = s\<lparr>ks_shadow := kasan_raw_fill 0 KASAN_TAG_UNTRACKED KASAN_SHADOW_SIZE (ks_shadow s),
     ks_allocs := replicate KASAN_MAX_ALLOCS kasan_alloc_none, ks_ready := True\<rparr>"

section \<open>Poisoning\<close>

definition kasan_poison :: "nat \<Rightarrow> nat \<Rightarrow> u8 \<Rightarrow> kasan \<Rightarrow> kasan" where
  "kasan_poison addr len tag s =
     (let start = addr div KASAN_SHADOW_GRANULE;
          stop = wrap32 (addr + len + KASAN_SHADOW_GRANULE - 1) div KASAN_SHADOW_GRANULE
      in if \<not> ks_ready s \<or> len = 0 then s
         else if start \<ge> KASAN_SHADOW_SIZE then s
         else
           (let stop = (if stop > KASAN_SHADOW_SIZE then KASAN_SHADOW_SIZE else stop)
            in s\<lparr>ks_shadow := kasan_raw_fill start tag (wrap32 (2 ^ 32 + stop - start)) (ks_shadow s)\<rparr>))"

definition kasan_poison_partial :: "nat \<Rightarrow> nat \<Rightarrow> kasan \<Rightarrow> kasan" where
  "kasan_poison_partial user len s =
     (if \<not> ks_ready s \<or> len = 0 then s
      else
        (let valid = wrap32 (user + len) mod KASAN_SHADOW_GRANULE;
             shadow = wrap32 (user + len) div KASAN_SHADOW_GRANULE
         in if valid = 0 then s
            else if shadow < KASAN_SHADOW_SIZE
            then s\<lparr>ks_shadow := (ks_shadow s)(shadow := of_nat valid)\<rparr> else s))"

definition kasan_unpoison :: "nat \<Rightarrow> nat \<Rightarrow> kasan \<Rightarrow> kasan" where
  "kasan_unpoison addr len s = kasan_poison_partial addr len (kasan_poison addr len KASAN_TAG_VALID s)"

section \<open>The allocation table\<close>

text \<open>An allocation overlaps the first or the last byte of an access.\<close>

definition kasan_overlaps :: "nat \<Rightarrow> nat \<Rightarrow> kasan_alloc_info \<Rightarrow> bool" where
  "kasan_overlaps addr final info \<longleftrightarrow>
     (addr \<ge> ka_base info \<and> addr < wrap32 (ka_base info + ka_total_size info))
     \<or> (final \<ge> ka_base info \<and> final < wrap32 (ka_base info + ka_total_size info))"

definition kasan_find_containing :: "kasan \<Rightarrow> nat \<Rightarrow> nat \<Rightarrow> kasan_alloc_info option" where
  "kasan_find_containing s addr len =
     (let final = wrap32 (addr + len + 2 ^ 32 - 1);
          best = fold (\<lambda>info best.
             if ka_state info \<noteq> KASAN_STATE_ACTIVE then best
             else if kasan_overlaps addr final info
                     \<and> (case best of None \<Rightarrow> True | Some b \<Rightarrow> ka_total_size info < ka_total_size b)
                  then Some info else best) (ks_allocs s) None
      in if best \<noteq> None then best
         else fold (\<lambda>info best.
             if ka_state info = KASAN_STATE_EMPTY then best
             else if kasan_overlaps addr final info then Some info else best) (ks_allocs s) None)"

text \<open>A report is written once; afterwards \<open>arch_halt\<close> stops the machine and further ones are dropped.\<close>

definition kasan_report :: "nat \<Rightarrow> nat \<Rightarrow> bool \<Rightarrow> string \<Rightarrow> kasan \<Rightarrow> kasan" where
  "kasan_report addr len wr reason s =
     (if ks_reporting s then s
      else s\<lparr>ks_reporting := True,
             ks_reports := ks_reports s @ [((addr, len, wr, reason),
                kasan_find_containing s addr (if len = 0 then 1 else len))]\<rparr>)"

definition kasan_find_by_user :: "kasan \<Rightarrow> nat \<Rightarrow> nat \<Rightarrow> nat option" where
  "kasan_find_by_user s user type =
     (let P = (\<lambda>st i. ka_state (ks_allocs s ! i) = st \<and> ka_user (ks_allocs s ! i) = user
                     \<and> ka_type (ks_allocs s ! i) = type)
      in case find (P KASAN_STATE_ACTIVE) [0..<length (ks_allocs s)] of
           Some i \<Rightarrow> Some i
         | None \<Rightarrow> find (P KASAN_STATE_FREED) (rev [0..<length (ks_allocs s)]))"

text \<open>The slot an allocation takes: its own freed one, else an empty one, else any freed one.\<close>

definition kasan_slot :: "kasan \<Rightarrow> nat \<Rightarrow> nat \<Rightarrow> nat option" where
  "kasan_slot s base type =
     (let idx = [0..<length (ks_allocs s)] in
      case find (\<lambda>i. ka_state (ks_allocs s ! i) = KASAN_STATE_FREED \<and> ka_base (ks_allocs s ! i) = base
                     \<and> ka_type (ks_allocs s ! i) = type) idx of
        Some i \<Rightarrow> Some i
      | None \<Rightarrow>
          (case find (\<lambda>i. ka_state (ks_allocs s ! i) = KASAN_STATE_EMPTY) idx of
             Some i \<Rightarrow> Some i
           | None \<Rightarrow> find (\<lambda>i. ka_state (ks_allocs s ! i) = KASAN_STATE_FREED) idx))"

definition kasan_alloc :: "nat \<Rightarrow> nat \<Rightarrow> nat \<Rightarrow> nat \<Rightarrow> nat \<Rightarrow> kasan \<Rightarrow> kasan" where
  "kasan_alloc base total_size user user_size type s =
     (if \<not> ks_ready s \<or> base = 0 \<or> user = 0 \<or> total_size = 0 then s
      else case kasan_slot s base type of
        None \<Rightarrow> kasan_report user user_size False ''metadata table full'' s
      | Some i \<Rightarrow>
          (let s = s\<lparr>ks_allocs := (ks_allocs s)[i := \<lparr>ka_base = base, ka_user = user, ka_total_size = total_size,
                     ka_user_size = user_size, ka_type = type, ka_state = KASAN_STATE_ACTIVE\<rparr>]\<rparr>;
               s = kasan_poison base total_size KASAN_TAG_RIGHT s;
               s = (if user > base then kasan_poison base (user - base) KASAN_TAG_LEFT s else s)
           in kasan_unpoison user user_size s))"

definition kasan_free :: "nat \<Rightarrow> nat \<Rightarrow> kasan \<Rightarrow> kasan" where
  "kasan_free user type s =
     (if \<not> ks_ready s \<or> user = 0 then s
      else case kasan_find_by_user s user type of
        None \<Rightarrow> kasan_report user 1 True ''invalid free'' s
      | Some i \<Rightarrow>
          (let info = ks_allocs s ! i in
           if ka_state info = KASAN_STATE_FREED
           then kasan_report user (ka_user_size info) True ''double free'' s
           else (kasan_poison (ka_base info) (ka_total_size info) KASAN_TAG_FREED s)
                  \<lparr>ks_allocs := (ks_allocs s)[i := info\<lparr>ka_state := KASAN_STATE_FREED\<rparr>]\<rparr>))"

definition kasan_page_alloc :: "nat \<Rightarrow> nat \<Rightarrow> nat \<Rightarrow> kasan \<Rightarrow> kasan" where
  "kasan_page_alloc base total_size requested_size s =
     (if \<not> ks_ready s \<or> base = 0 \<or> total_size = 0 then s
      else
        (let requested_size = (if requested_size > total_size then total_size else requested_size);
             s = kasan_poison base total_size KASAN_TAG_PAGE_REDZONE s;
             s = kasan_unpoison base requested_size s;
             redzone_start = wrap32 (base + requested_size + KASAN_SHADOW_GRANULE - 1) div KASAN_SHADOW_GRANULE
                               * KASAN_SHADOW_GRANULE;
             redzone_end = wrap32 (base + total_size)
         in if redzone_start < redzone_end
            then kasan_poison redzone_start (redzone_end - redzone_start) KASAN_TAG_PAGE_REDZONE s else s))"

definition kasan_page_free :: "nat \<Rightarrow> nat \<Rightarrow> kasan \<Rightarrow> kasan" where
  "kasan_page_free base total_size s =
     (if \<not> ks_ready s \<or> base = 0 \<or> total_size = 0 then s
      else if wrap32 (base + total_size) < base then kasan_report base total_size True ''page free overflow'' s
      else kasan_poison base total_size KASAN_TAG_FREED s)"

section \<open>Checking an access\<close>

definition kasan_tag_for_addr :: "kasan \<Rightarrow> nat \<Rightarrow> u8" where
  "kasan_tag_for_addr s addr =
     (if addr div KASAN_SHADOW_GRANULE \<ge> KASAN_SHADOW_SIZE then KASAN_TAG_UNTRACKED
      else ks_shadow s (addr div KASAN_SHADOW_GRANULE))"

definition kasan_byte_ok :: "kasan \<Rightarrow> nat \<Rightarrow> bool" where
  "kasan_byte_ok s cur \<longleftrightarrow>
     (let tag = kasan_tag_for_addr s cur in
      tag = KASAN_TAG_VALID \<or> tag = KASAN_TAG_UNTRACKED
      \<or> (tag > 0 \<and> tag < 8 \<and> cur mod KASAN_SHADOW_GRANULE < unat tag))"

definition kasan_check_range :: "nat \<Rightarrow> nat \<Rightarrow> bool \<Rightarrow> kasan \<Rightarrow> kasan \<times> bool" where
  "kasan_check_range addr len wr s =
     (if \<not> ks_ready s \<or> ks_reporting s \<or> len = 0 then (s, True)
      else if wrap32 (addr + len) < addr then (kasan_report addr len wr ''address overflow'' s, False)
      else case find (\<lambda>cur. \<not> kasan_byte_ok s cur) [addr..<wrap32 (addr + len)] of
        None \<Rightarrow> (s, True)
      | Some cur \<Rightarrow>
          (kasan_report cur len wr
             (if kasan_tag_for_addr s cur = KASAN_TAG_FREED then ''use after free'' else ''redzone access'') s,
           False))"

text \<open>The entry points the compiler calls before an access of a fixed size, and before one of any size.\<close>

definition asan_load :: "nat \<Rightarrow> nat \<Rightarrow> kasan \<Rightarrow> kasan" where
  "asan_load len addr s = fst (kasan_check_range addr len False s)"

definition asan_store :: "nat \<Rightarrow> nat \<Rightarrow> kasan \<Rightarrow> kasan" where
  "asan_store len addr s = fst (kasan_check_range addr len True s)"

section \<open>Filling, as bytes\<close>

lemma fill_pattern:
  fixes val :: u8
  defines "q \<equiv> (ucast val :: u32) OR push_bit 8 (ucast val)"
  defines "pattern \<equiv> q OR push_bit 16 q"
  shows "ucast pattern = val" "ucast (drop_bit 8 pattern) = val" "ucast (drop_bit 16 pattern) = val"
    "ucast (drop_bit 24 pattern) = val"
  unfolding pattern_def q_def by (rule bit_word_eqI; auto simp: bit_simps dest: bit_imp_le_length)+

lemma fill_wide_bytes:
  assumes "ucast w = val" "ucast (drop_bit 8 w) = val" "ucast (drop_bit 16 w) = val" "ucast (drop_bit 24 w) = val"
  shows "fill_wide n p w mem = (\<lambda>i. if p \<le> i \<and> i < p + 4 * n then val else mem i)"
proof (induction n arbitrary: p mem)
  case (Suc n)
  have "store32 p w mem = (\<lambda>i. if p \<le> i \<and> i < p + 4 then val else mem i)"
    using assms by (auto simp: store32_def fun_eq_iff)
  then show ?case using Suc.IH [of "p + 4"] by (auto simp: fun_eq_iff)
qed (auto simp: fun_eq_iff)

lemma fill_tail_bytes:
  "fill_tail n p val mem = (\<lambda>i. if p \<le> i \<and> i < p + n then val else mem i)"
  by (induction n arbitrary: p mem) (auto simp: fun_eq_iff)

lemma raw_fill_bytes:
  "kasan_raw_fill p val n mem = (\<lambda>i. if p \<le> i \<and> i < p + n then val else mem i)"
proof -
  have n: "n = 4 * (n div 4) + n mod 4" by simp
  show ?thesis unfolding kasan_raw_fill_def Let_def
    by (subst fill_wide_bytes [OF fill_pattern], subst fill_tail_bytes) (use n in \<open>auto simp: fun_eq_iff\<close>)
qed

section \<open>Tags after poisoning\<close>

text \<open>Poisoning colours the granules that the range touches, as far as the shadow reaches.\<close>

lemma poison_shadow:
  assumes "ks_ready s" "0 < len" "addr + len + 7 < 2 ^ 32"
  shows "ks_shadow (kasan_poison addr len tag s) =
     (\<lambda>g. if addr div 8 \<le> g \<and> g < (addr + len + 7) div 8 \<and> g < KASAN_SHADOW_SIZE then tag else ks_shadow s g)"
proof -
  define stop where "stop = (addr + len + 7) div 8"
  have w: "wrap32 (addr + len + KASAN_SHADOW_GRANULE - 1) div KASAN_SHADOW_GRANULE = stop"
    using assms(3) by (simp add: stop_def)
  have le: "addr div 8 < stop" using div_le_mono [of "addr + 8" "addr + len + 7" 8] assms(2) by (simp add: stop_def)
  have sz: "KASAN_SHADOW_SIZE < 2 ^ 32" by (simp add: KASAN_SHADOW_SIZE_def)
  show ?thesis
  proof (cases "addr div 8 < KASAN_SHADOW_SIZE")
    case False
    then show ?thesis using assms by (auto simp: kasan_poison_def Let_def fun_eq_iff)
  next
    case True
    define e where "e = (if stop > KASAN_SHADOW_SIZE then KASAN_SHADOW_SIZE else stop)"
    have e: "addr div 8 < e" "e < 2 ^ 32" using le True sz by (auto simp: e_def)
    have "2 ^ 32 + e - addr div 8 = 2 ^ 32 + (e - addr div 8)" using e by simp
    then have wrap: "wrap32 (2 ^ 32 + e - addr div 8) = e - addr div 8"
      using e(2) by (simp only: mod_add_self1) (rule mod_less, linarith)
    have "ks_shadow (kasan_poison addr len tag s) = kasan_raw_fill (addr div 8) tag (e - addr div 8) (ks_shadow s)"
      using assms(1,2) True unfolding kasan_poison_def Let_def w e_def [symmetric] wrap by simp
    then show ?thesis unfolding raw_fill_bytes stop_def [symmetric] using e by (auto simp: fun_eq_iff e_def split: if_splits)
  qed
qed

lemma kasan_poison_fields [simp]:
  "ks_ready (kasan_poison a n t s) = ks_ready s" "ks_allocs (kasan_poison a n t s) = ks_allocs s"
  "ks_reporting (kasan_poison a n t s) = ks_reporting s" "ks_reports (kasan_poison a n t s) = ks_reports s"
  by (simp_all add: kasan_poison_def Let_def)

lemma kasan_partial_fields [simp]:
  "ks_ready (kasan_poison_partial a n s) = ks_ready s" "ks_allocs (kasan_poison_partial a n s) = ks_allocs s"
  "ks_reporting (kasan_poison_partial a n s) = ks_reporting s" "ks_reports (kasan_poison_partial a n s) = ks_reports s"
  by (simp_all add: kasan_poison_partial_def Let_def)

lemma partial_shadow:
  assumes "ks_ready s" "0 < len" "user + len < 2 ^ 32"
  shows "ks_shadow (kasan_poison_partial user len s) =
     (\<lambda>g. if g = (user + len) div 8 \<and> (user + len) mod 8 \<noteq> 0 \<and> g < KASAN_SHADOW_SIZE
          then of_nat ((user + len) mod 8) else ks_shadow s g)"
  using assms by (auto simp: kasan_poison_partial_def Let_def fun_eq_iff)

lemma granule_end:
  fixes n :: nat
  shows "n mod 8 \<noteq> 0 \<Longrightarrow> (n + 7) div 8 = n div 8 + 1" "n mod 8 = 0 \<Longrightarrow> (n + 7) div 8 = n div 8"
proof -
  have e: "(n + 7) div 8 = n div 8 + (n mod 8 + 7) div 8"
    by (subst div_add1_eq) simp
  have "n mod 8 < 8" by simp
  then show "n mod 8 \<noteq> 0 \<Longrightarrow> (n + 7) div 8 = n div 8 + 1"
    unfolding e by (intro arg_cong [of _ _ "(+) (n div 8)"] div_nat_eqI) simp_all
  show "n mod 8 = 0 \<Longrightarrow> (n + 7) div 8 = n div 8" unfolding e by simp
qed

text \<open>Unpoisoning a range that starts on a granule: full granules become valid, the last one partly.\<close>

lemma unpoison_shadow:
  assumes "ks_ready s" "0 < len" "addr + len + 7 < 2 ^ 32" "addr mod 8 = 0"
  shows "ks_shadow (kasan_unpoison addr len s) =
     (\<lambda>g. if addr div 8 \<le> g \<and> g < (addr + len + 7) div 8 \<and> g < KASAN_SHADOW_SIZE
          then (if g = (addr + len) div 8 then of_nat ((addr + len) mod 8) else 0) else ks_shadow s g)"
proof -
  have *: "(addr + len) mod 8 \<noteq> 0 \<Longrightarrow> (addr + len) div 8 < (addr + len + 7) div 8"
    "(addr + len) mod 8 = 0 \<Longrightarrow> (addr + len + 7) div 8 = (addr + len) div 8"
    "addr div 8 \<le> (addr + len) div 8"
    using granule_end [of "addr + len"] by (simp_all add: div_le_mono)
  define a b c m where "a = addr div 8" and "b = (addr + len) div 8" and "c = (addr + len + 7) div 8"
    and "m = (addr + len) mod 8"
  have o: "m \<noteq> 0 \<Longrightarrow> b < c" "m = 0 \<Longrightarrow> c = b" "a \<le> b" using * by (simp_all add: a_def b_def c_def m_def)
  have p: "ks_shadow (kasan_poison addr len 0 s) = (\<lambda>g. if a \<le> g \<and> g < c \<and> g < KASAN_SHADOW_SIZE then 0 else ks_shadow s g)"
    using assms by (simp only: poison_shadow a_def c_def)
  have "ks_shadow (kasan_unpoison addr len s) =
      (\<lambda>g. if g = b \<and> (addr + len) mod 8 \<noteq> 0 \<and> g < KASAN_SHADOW_SIZE
          then of_nat ((addr + len) mod 8) else ks_shadow (kasan_poison addr len 0 s) g)"
    unfolding kasan_unpoison_def b_def using assms by (intro partial_shadow) simp_all
  then have e: "ks_shadow (kasan_unpoison addr len s) = (\<lambda>g. if g = b \<and> m \<noteq> 0 \<and> g < KASAN_SHADOW_SIZE then of_nat m
      else if a \<le> g \<and> g < c \<and> g < KASAN_SHADOW_SIZE then 0 else ks_shadow s g)"
    unfolding p m_def [symmetric] .
  show ?thesis unfolding e a_def [symmetric] b_def [symmetric] c_def [symmetric] m_def [symmetric]
    using o by (cases "m = 0") (auto simp: fun_eq_iff)
qed

section \<open>The bytes that may be used\<close>

definition byte_tag_ok :: "nat \<Rightarrow> u8 \<Rightarrow> bool" where
  "byte_tag_ok cur tag \<longleftrightarrow> tag = KASAN_TAG_VALID \<or> tag = KASAN_TAG_UNTRACKED
     \<or> (tag > 0 \<and> tag < 8 \<and> cur mod 8 < unat tag)"

lemma byte_ok_tag: "kasan_byte_ok s cur = byte_tag_ok cur (kasan_tag_for_addr s cur)"
  by (simp add: kasan_byte_ok_def byte_tag_ok_def Let_def)

lemma byte_tag_ok_simps [simp]:
  "byte_tag_ok cur 0" "\<not> byte_tag_ok cur KASAN_TAG_LEFT" "\<not> byte_tag_ok cur KASAN_TAG_RIGHT"
  "\<not> byte_tag_ok cur KASAN_TAG_FREED" "\<not> byte_tag_ok cur KASAN_TAG_PAGE_REDZONE"
  by (simp_all add: byte_tag_ok_def)

lemma byte_tag_ok_partial:
  assumes "0 < m" "m < 8" shows "byte_tag_ok cur (of_nat m) \<longleftrightarrow> cur mod 8 < m"
proof -
  have "m = 1 \<or> m = 2 \<or> m = 3 \<or> m = 4 \<or> m = 5 \<or> m = 6 \<or> m = 7" using assms by auto
  then show ?thesis by (elim disjE) (simp_all add: byte_tag_ok_def)
qed

lemma kasan_tag_tracked:
  assumes "cur < 2 ^ 29" shows "kasan_tag_for_addr s cur = ks_shadow s (cur div 8)"
proof -
  have "cur div 8 < 67108864" using assms by (simp add: div_less_iff_less_mult)
  then show ?thesis by (simp add: kasan_tag_for_addr_def KASAN_SHADOW_SIZE_def)
qed

lemma kasan_alloc_shadow:
  assumes "ks_ready s" "kasan_slot s base type \<noteq> None" "base \<noteq> 0"
    and "base mod 8 = 0" "user mod 8 = 0" "base \<le> user" "0 < user_size" "user + user_size \<le> base + total_size"
    and "base + total_size + 7 < 2 ^ 29" and g: "g < KASAN_SHADOW_SIZE"
  shows "ks_shadow (kasan_alloc base total_size user user_size type s) g =
     (if user div 8 \<le> g \<and> g < (user + user_size + 7) div 8
      then (if g = (user + user_size) div 8 then of_nat ((user + user_size) mod 8) else 0)
      else if base div 8 \<le> g \<and> g < user div 8 then KASAN_TAG_LEFT
      else if base div 8 \<le> g \<and> g < (base + total_size + 7) div 8 then KASAN_TAG_RIGHT
      else ks_shadow s g)"
proof -
  obtain i where i: "kasan_slot s base type = Some i" using assms(2) by auto
  define s1 where "s1 = s\<lparr>ks_allocs := (ks_allocs s)[i := \<lparr>ka_base = base, ka_user = user, ka_total_size = total_size,
                     ka_user_size = user_size, ka_type = type, ka_state = KASAN_STATE_ACTIVE\<rparr>]\<rparr>"
  define s2 where "s2 = kasan_poison base total_size KASAN_TAG_RIGHT s1"
  define s3 where "s3 = (if user > base then kasan_poison base (user - base) KASAN_TAG_LEFT s2 else s2)"
  have eq: "kasan_alloc base total_size user user_size type s = kasan_unpoison user user_size s3"
    using assms i unfolding kasan_alloc_def s3_def s2_def s1_def by (simp add: Let_def)
  have r: "ks_ready s1" "ks_ready s2" "ks_ready s3" using assms(1) by (simp_all add: s1_def s2_def s3_def)
  have 1: "ks_shadow s1 = ks_shadow s" by (simp add: s1_def)
  have 2: "ks_shadow s2 g = (if base div 8 \<le> g \<and> g < (base + total_size + 7) div 8 then KASAN_TAG_RIGHT else ks_shadow s g)"
    unfolding s2_def using assms r g by (simp add: poison_shadow 1)
  have u: "(user + 7) div 8 = user div 8" using granule_end(2) [of user] assms(5) by simp
  have 3: "ks_shadow s3 g = (if base div 8 \<le> g \<and> g < user div 8 then KASAN_TAG_LEFT else ks_shadow s2 g)"
    unfolding s3_def using assms r g u by (auto simp: poison_shadow)
  show ?thesis unfolding eq using assms r g
    by (subst unpoison_shadow) (simp_all add: 2 3)
qed

text \<open>The fill used for the shadow and the table writes 32-bit patterns and then the odd bytes; for
  every start, length and byte it equals the byte-by-byte fill: exactly the bytes of the range get the
  value and no byte outside it changes.\<close>

theorem kasan_raw_fill_bytewise:
  "kasan_raw_fill addr val n mem i = (if addr \<le> i \<and> i < addr + n then val else mem i)"
  by (simp add: raw_fill_bytes)

definition kasan_example :: kasan where
  "kasan_example = \<lparr>ks_shadow = (\<lambda>_. KASAN_TAG_UNTRACKED), ks_allocs = replicate 2 kasan_alloc_none, ks_ready = True,
     ks_reporting = False, ks_reports = []\<rparr>"

text \<open>The sanitizer makes exactly the caller's bytes usable.  For an allocation inside the shadowed
  address range whose base and user pointer start a granule, after \<open>kasan_alloc\<close> a byte of the block
  may be accessed if and only if it belongs to the requested user range, byte by byte also in the
  last, partly used granule; both redzones are closed and the bytes outside the block (up to its last
  granule) keep the permission they had.\<close>

theorem kasan_alloc_exact:
  assumes "ks_ready s" "kasan_slot s base type \<noteq> None" "base \<noteq> 0"
    and "base mod 8 = 0" "user mod 8 = 0" "base \<le> user" "0 < user_size" "user + user_size \<le> base + total_size"
    and "base + total_size + 7 < 2 ^ 29"
  shows "(base \<le> cur \<and> cur < base + total_size \<longrightarrow>
       kasan_byte_ok (kasan_alloc base total_size user user_size type s) cur = (user \<le> cur \<and> cur < user + user_size))
    \<and> (cur < base \<or> (base + total_size + 7) div 8 \<le> cur div 8 \<longrightarrow>
       kasan_byte_ok (kasan_alloc base total_size user user_size type s) cur = kasan_byte_ok s cur)"
proof -
  let ?s = "kasan_alloc base total_size user user_size type s"
  define ue where "ue = user + user_size"
  have 8: "n div 8 * 8 + n mod 8 = n" for n :: nat by simp
  note sh = kasan_alloc_shadow [OF assms]
  have inside: "kasan_byte_ok ?s cur = (user \<le> cur \<and> cur < ue)" if c: "base \<le> cur" "cur < base + total_size"
  proof -
    have g: "cur div 8 < KASAN_SHADOW_SIZE" using c assms(9) by (simp add: KASAN_SHADOW_SIZE_def)
    have tag: "kasan_byte_ok ?s cur = byte_tag_ok cur (ks_shadow ?s (cur div 8))"
      using c assms(9) by (simp add: byte_ok_tag kasan_tag_tracked)
    have b: "base div 8 \<le> cur div 8" using c(1) by (rule div_le_mono)
    have e: "cur div 8 < (base + total_size + 7) div 8"
      using div_le_mono [of "cur + 8" "base + total_size + 7" 8] c(2) by simp
    consider (left) "cur < user" | (mid) "user \<le> cur" "cur < ue" | (right) "ue \<le> cur" by linarith
    then show ?thesis
    proof cases
      case left
      then have "cur div 8 < user div 8" using assms(5) 8 [of cur] 8 [of user] by linarith
      then have "ks_shadow ?s (cur div 8) = KASAN_TAG_LEFT" using sh [OF g] b by simp
      then show ?thesis using left tag by simp
    next
      case mid
      have u: "user div 8 \<le> cur div 8" using mid(1) by (rule div_le_mono)
      have l: "cur div 8 < (ue + 7) div 8" using div_le_mono [of "cur + 8" "ue + 7" 8] mid(2) by simp
      have t: "ks_shadow ?s (cur div 8) = (if cur div 8 = ue div 8 then of_nat (ue mod 8) else 0)"
        using sh [OF g] u l by (simp add: ue_def)
      show ?thesis
      proof (cases "cur div 8 = ue div 8")
        case True
        then have "cur mod 8 < ue mod 8" using mid(2) 8 [of cur] 8 [of ue] by linarith
        then show ?thesis using True t tag mid byte_tag_ok_partial [of "ue mod 8" cur] by simp
      next
        case False then show ?thesis using t tag mid by simp
      qed
    next
      case right
      then have d: "ue div 8 \<le> cur div 8" by (rule div_le_mono)
      have u: "user div 8 \<le> cur div 8" using right by (intro div_le_mono) (simp add: ue_def)
      show ?thesis
      proof (cases "cur div 8 < (ue + 7) div 8")
        case True
        have m: "ue mod 8 \<noteq> 0" using True d granule_end(2) [of ue] by fastforce
        then have same: "cur div 8 = ue div 8" using True d granule_end(1) [of ue] by simp
        then have le: "ue mod 8 \<le> cur mod 8" using right 8 [of cur] 8 [of ue] by linarith
        have "ks_shadow ?s (cur div 8) = of_nat (ue mod 8)" using sh [OF g] u True same by (simp add: ue_def)
        then show ?thesis using tag right le m byte_tag_ok_partial [of "ue mod 8" cur] by simp
      next
        case False
        then have "ks_shadow ?s (cur div 8) = KASAN_TAG_RIGHT" using sh [OF g] u b e by (simp add: ue_def)
        then show ?thesis using tag right by simp
      qed
    qed
  qed
  have outside: "kasan_byte_ok ?s cur = kasan_byte_ok s cur"
    if c: "cur < base \<or> (base + total_size + 7) div 8 \<le> cur div 8"
  proof (cases "cur div 8 < KASAN_SHADOW_SIZE")
    case False then show ?thesis by (simp add: byte_ok_tag kasan_tag_for_addr_def)
  next
    case True
    have "ue \<le> base + total_size" "user \<le> ue" using assms(8) by (simp_all add: ue_def)
    then have le: "user div 8 \<le> (base + total_size + 7) div 8" "(ue + 7) div 8 \<le> (base + total_size + 7) div 8"
      by (simp_all add: div_le_mono)
    have lt: "cur < base \<Longrightarrow> cur div 8 < base div 8" using assms(4) 8 [of cur] 8 [of base] by linarith
    have bu: "base div 8 \<le> user div 8" using assms(6) by (rule div_le_mono)
    have "ks_shadow ?s (cur div 8) = ks_shadow s (cur div 8)"
    proof (cases "cur < base")
      case True
      then have "\<not> base div 8 \<le> cur div 8" "\<not> user div 8 \<le> cur div 8" using lt bu by linarith+
      then show ?thesis unfolding sh [OF \<open>cur div 8 < KASAN_SHADOW_SIZE\<close>] by (simp only: if_False simp_thms)
    next
      case False
      then have "\<not> cur div 8 < (user + user_size + 7) div 8" "\<not> cur div 8 < user div 8"
        "\<not> cur div 8 < (base + total_size + 7) div 8" using c le by (simp_all add: ue_def)
      then show ?thesis unfolding sh [OF \<open>cur div 8 < KASAN_SHADOW_SIZE\<close>] by (simp only: if_False simp_thms)
    qed
    then show ?thesis using True by (simp add: byte_ok_tag kasan_tag_for_addr_def)
  qed
  show ?thesis using inside outside by (simp add: ue_def)
qed

theorem kasan_alloc_exact_witness:
  "kasan_slot kasan_example 64 1 \<noteq> None
   \<and> \<not> kasan_byte_ok (kasan_alloc 64 48 80 13 1 kasan_example) 93
   \<and> kasan_byte_ok (kasan_alloc 64 48 80 13 1 kasan_example) 92"
proof -
  have sl: "kasan_slot kasan_example 64 1 \<noteq> None"
    by code_simp
  have r: "ks_ready kasan_example" by (simp add: kasan_example_def)
  note e = kasan_alloc_exact [of kasan_example 64 1 80 13 48, OF r sl]
  show ?thesis using sl e [of 93] e [of 92] by simp
qed

text \<open>The check before an access is exact and reports the first bad byte.  When the sanitizer is
  running and the range does not wrap, \<open>kasan_check_range\<close> accepts an access if and only if every byte
  of it may be used, and then changes nothing; otherwise it rejects it and the report it writes names
  the lowest byte that may not be used, as a use after free exactly if that byte's granule is freed.\<close>

theorem kasan_check_range_exact:
  assumes "ks_ready s" "\<not> ks_reporting s" "0 < len" "addr + len < 2 ^ 32"
  shows "(snd (kasan_check_range addr len wr s) \<longleftrightarrow> (\<forall>cur. addr \<le> cur \<and> cur < addr + len \<longrightarrow> kasan_byte_ok s cur))
    \<and> (snd (kasan_check_range addr len wr s) \<longrightarrow> fst (kasan_check_range addr len wr s) = s)
    \<and> (\<not> snd (kasan_check_range addr len wr s) \<longrightarrow>
        (\<exists>cur reason info. addr \<le> cur \<and> cur < addr + len \<and> \<not> kasan_byte_ok s cur
          \<and> (\<forall>b. addr \<le> b \<and> b < cur \<longrightarrow> kasan_byte_ok s b)
          \<and> ks_reports (fst (kasan_check_range addr len wr s)) = ks_reports s @ [((cur, len, wr, reason), info)]
          \<and> (reason = ''use after free'' \<longleftrightarrow> kasan_tag_for_addr s cur = KASAN_TAG_FREED)))"
proof (cases "find (\<lambda>cur. \<not> kasan_byte_ok s cur) [addr..<addr + len]")
  case None
  then have "\<forall>cur. addr \<le> cur \<and> cur < addr + len \<longrightarrow> kasan_byte_ok s cur" by (auto simp: find_None_iff)
  then show ?thesis using assms None by (simp add: kasan_check_range_def)
next
  case (Some cur)
  then obtain i where i: "i < len" "cur = addr + i" "\<not> kasan_byte_ok s cur" "\<forall>j<i. kasan_byte_ok s (addr + j)"
    by (auto simp: find_Some_iff)
  have low: "kasan_byte_ok s b" if "addr \<le> b" "b < cur" for b
    using i(2,4) that by (metis le_Suc_ex nat_add_left_cancel_less)
  define reason where "reason = (if kasan_tag_for_addr s cur = KASAN_TAG_FREED then ''use after free'' else ''redzone access'')"
  have r: "kasan_check_range addr len wr s = (kasan_report cur len wr reason s, False)"
    using assms Some by (simp add: kasan_check_range_def reason_def)
  obtain info where rep: "ks_reports (kasan_report cur len wr reason s) = ks_reports s @ [((cur, len, wr, reason), info)]"
    using assms(2) by (simp add: kasan_report_def)
  have ok: "reason = ''use after free'' \<longleftrightarrow> kasan_tag_for_addr s cur = KASAN_TAG_FREED" by (simp add: reason_def)
  have bad: "\<not> (\<forall>cur. addr \<le> cur \<and> cur < addr + len \<longrightarrow> kasan_byte_ok s cur)"
    using i(1-3) by (metis le_add1 nat_add_left_cancel_less)
  have "\<exists>c reason' info'. addr \<le> c \<and> c < addr + len \<and> \<not> kasan_byte_ok s c \<and> (\<forall>b. addr \<le> b \<and> b < c \<longrightarrow> kasan_byte_ok s b)
      \<and> ks_reports (kasan_report cur len wr reason s) = ks_reports s @ [((c, len, wr, reason'), info')]
      \<and> (reason' = ''use after free'' \<longleftrightarrow> kasan_tag_for_addr s c = KASAN_TAG_FREED)"
    by (rule exI [of _ cur], rule exI [of _ reason], rule exI [of _ info]) (use i low rep ok in auto)
  then show ?thesis unfolding r using bad by simp
qed

theorem kasan_check_range_exact_witness:
  "ks_ready kasan_example \<and> snd (kasan_check_range 100 4 True kasan_example)"
  using kasan_check_range_exact [of kasan_example 4 100 True]
  by (simp add: kasan_example_def kasan_byte_ok_def kasan_tag_for_addr_def)

section \<open>Freeing\<close>

lemma kasan_slot_bound: "kasan_slot s base type = Some i \<Longrightarrow> i < length (ks_allocs s)"
  unfolding kasan_slot_def Let_def by (auto simp: find_Some_iff split: option.splits)

lemma kasan_alloc_allocs:
  assumes "ks_ready s" "kasan_slot s base type = Some i" "base \<noteq> 0" "user \<noteq> 0" "total_size \<noteq> 0"
  shows "ks_allocs (kasan_alloc base total_size user user_size type s) =
      (ks_allocs s)[i := \<lparr>ka_base = base, ka_user = user, ka_total_size = total_size, ka_user_size = user_size,
                          ka_type = type, ka_state = KASAN_STATE_ACTIVE\<rparr>]"
    "ks_ready (kasan_alloc base total_size user user_size type s)"
    "ks_reporting (kasan_alloc base total_size user user_size type s) = ks_reporting s"
    "ks_reports (kasan_alloc base total_size user user_size type s) = ks_reports s"
  using assms by (simp_all add: kasan_alloc_def kasan_unpoison_def Let_def)

lemma find_unique:
  assumes "i < n" "P i" "\<And>j. j < n \<Longrightarrow> P j \<Longrightarrow> j = i"
  shows "find P [0..<n] = Some i"
  unfolding find_Some_iff using assms by (intro exI [of _ i]) (metis add.left_neutral assms(1) diff_zero length_upt less_trans nat_neq_iff nth_upt)

text \<open>No live allocation has this user pointer and type.\<close>

definition kasan_not_live :: "kasan \<Rightarrow> nat \<Rightarrow> nat \<Rightarrow> bool" where
  "kasan_not_live s user type \<longleftrightarrow> (\<forall>info\<in>set (ks_allocs s). ka_state info = KASAN_STATE_ACTIVE \<longrightarrow>
      \<not> (ka_user info = user \<and> ka_type info = type))"

lemma find_by_user_live:
  assumes nl: "kasan_not_live s user type" and i: "i < length (ks_allocs s)"
    and info: "ka_state info = KASAN_STATE_ACTIVE" "ka_user info = user" "ka_type info = type"
    and s': "ks_allocs s' = (ks_allocs s)[i := info]"
  shows "kasan_find_by_user s' user type = Some i"
proof -
  have "find (\<lambda>j. ka_state (ks_allocs s' ! j) = KASAN_STATE_ACTIVE \<and> ka_user (ks_allocs s' ! j) = user
      \<and> ka_type (ks_allocs s' ! j) = type) [0..<length (ks_allocs s')] = Some i"
  proof (rule find_unique)
    show "i < length (ks_allocs s')" using i s' by simp
    show "ka_state (ks_allocs s' ! i) = KASAN_STATE_ACTIVE \<and> ka_user (ks_allocs s' ! i) = user
      \<and> ka_type (ks_allocs s' ! i) = type" using i s' info by simp
    fix j assume j: "j < length (ks_allocs s')" "ka_state (ks_allocs s' ! j) = KASAN_STATE_ACTIVE
      \<and> ka_user (ks_allocs s' ! j) = user \<and> ka_type (ks_allocs s' ! j) = type"
    show "j = i"
    proof (rule ccontr)
      assume n: "j \<noteq> i"
      then have "ks_allocs s' ! j = ks_allocs s ! j" "ks_allocs s ! j \<in> set (ks_allocs s)" using s' j by simp_all
      then show False using nl j(2) unfolding kasan_not_live_def by auto
    qed
  qed
  then show ?thesis by (simp add: kasan_find_by_user_def)
qed

lemma find_by_user_freed:
  assumes nl: "kasan_not_live s user type" and i: "i < length (ks_allocs s)"
    and info: "ka_state info = KASAN_STATE_FREED" "ka_user info = user" "ka_type info = type"
    and s': "ks_allocs s' = (ks_allocs s)[i := info]"
  shows "\<exists>j. kasan_find_by_user s' user type = Some j \<and> ka_state (ks_allocs s' ! j) = KASAN_STATE_FREED"
proof -
  let ?P = "\<lambda>st j. ka_state (ks_allocs s' ! j) = st \<and> ka_user (ks_allocs s' ! j) = user \<and> ka_type (ks_allocs s' ! j) = type"
  have "\<not> ?P KASAN_STATE_ACTIVE j" if "j < length (ks_allocs s')" for j
  proof (cases "j = i")
    case True then show ?thesis using i s' info by simp
  next
    case False
    then have "ks_allocs s' ! j = ks_allocs s ! j" "ks_allocs s ! j \<in> set (ks_allocs s)" using s' that by simp_all
    then show ?thesis using nl unfolding kasan_not_live_def by auto
  qed
  then have a: "find (?P KASAN_STATE_ACTIVE) [0..<length (ks_allocs s')] = None" by (auto simp: find_None_iff)
  have "?P KASAN_STATE_FREED i" "i \<in> set (rev [0..<length (ks_allocs s')])" using i s' info by simp_all
  then have "find (?P KASAN_STATE_FREED) (rev [0..<length (ks_allocs s')]) \<noteq> None" unfolding find_None_iff by blast
  then obtain j where j: "find (?P KASAN_STATE_FREED) (rev [0..<length (ks_allocs s')]) = Some j" by blast
  then have "?P KASAN_STATE_FREED j" by (auto simp: find_Some_iff)
  then show ?thesis using a j by (simp add: kasan_find_by_user_def)
qed

text \<open>C36: use after free and double free are caught.  When an allocation inside the shadowed range, whose
  base and user pointer start a granule and whose pointer is not live already, is freed, every byte of
  the block is closed, and freeing the pointer a second time is reported as a double free of that
  pointer and leaves the shadow as it is.\<close>

theorem kasan_free_closes:
  assumes "ks_ready s" "\<not> ks_reporting s" "kasan_slot s base type = Some i" "kasan_not_live s user type"
    and "base \<noteq> 0" "user \<noteq> 0" "total_size \<noteq> 0" "base + total_size + 7 < 2 ^ 29"
  shows "(base \<le> cur \<and> cur < base + total_size \<longrightarrow>
        \<not> kasan_byte_ok (kasan_free user type (kasan_alloc base total_size user user_size type s)) cur)
    \<and> (\<exists>n info. ks_reports (kasan_free user type (kasan_free user type (kasan_alloc base total_size user user_size type s)))
           = ks_reports s @ [((user, n, True, ''double free''), info)])
    \<and> ks_shadow (kasan_free user type (kasan_free user type (kasan_alloc base total_size user user_size type s)))
        = ks_shadow (kasan_free user type (kasan_alloc base total_size user user_size type s))"
proof -
  define a where "a = \<lparr>ka_base = base, ka_user = user, ka_total_size = total_size, ka_user_size = user_size,
                       ka_type = type, ka_state = KASAN_STATE_ACTIVE\<rparr>"
  define s1 where "s1 = kasan_alloc base total_size user user_size type s"
  note A = kasan_alloc_allocs [OF assms(1,3,5,6,7), of user_size, folded s1_def a_def]
  have i: "i < length (ks_allocs s)" by (rule kasan_slot_bound [OF assms(3)])
  have f: "kasan_find_by_user s1 user type = Some i"
    by (rule find_by_user_live [OF assms(4) i _ _ _ A(1)]) (simp_all add: a_def)
  define s2 where "s2 = kasan_free user type s1"
  have at: "ks_allocs s1 ! i = a" using i A(1) by simp
  have s2: "s2 = (kasan_poison base total_size KASAN_TAG_FREED s1)\<lparr>ks_allocs := (ks_allocs s1)[i := a\<lparr>ka_state := KASAN_STATE_FREED\<rparr>]\<rparr>"
    using A(2) f assms(6) by (simp add: s2_def kasan_free_def at Let_def) (simp add: a_def)
  have al: "ks_allocs s2 = (ks_allocs s)[i := a\<lparr>ka_state := KASAN_STATE_FREED\<rparr>]" using A(1) s2 by simp
  obtain j where j: "kasan_find_by_user s2 user type = Some j" "ka_state (ks_allocs s2 ! j) = KASAN_STATE_FREED"
    using find_by_user_freed [OF assms(4) i _ _ _ al] by (auto simp: a_def)
  have again: "kasan_free user type s2 = kasan_report user (ka_user_size (ks_allocs s2 ! j)) True ''double free'' s2"
    using A(2) assms(6) j s2 by (simp add: kasan_free_def Let_def)
  have c: "\<not> kasan_byte_ok s2 cur" if "base \<le> cur" "cur < base + total_size"
  proof -
    have m: "base div 8 \<le> cur div 8" using that(1) by (rule div_le_mono)
    have e: "cur div 8 < (base + total_size + 7) div 8"
      using div_le_mono [of "cur + 8" "base + total_size + 7" 8] that(2) by simp
    have b: "cur < 2 ^ 29" using that assms(8) by linarith
    have g: "cur div 8 < KASAN_SHADOW_SIZE" using b by (simp add: KASAN_SHADOW_SIZE_def div_less_iff_less_mult)
    have "ks_shadow s2 (cur div 8) = KASAN_TAG_FREED"
      using assms(7,8) A(2) m e g by (simp add: s2 poison_shadow)
    then show ?thesis unfolding byte_ok_tag kasan_tag_tracked [OF b] by simp
  qed
  have rep: "\<not> ks_reporting s2" "ks_reports s2 = ks_reports s" using A s2 assms(2) by simp_all
  show ?thesis unfolding s1_def [symmetric] s2_def [symmetric] again
    using c rep by (simp add: kasan_report_def)
qed

theorem kasan_free_closes_witness:
  "\<not> kasan_byte_ok (kasan_free 80 1 (kasan_alloc 64 48 80 13 1 kasan_example)) 85"
proof -
  have sl: "kasan_slot kasan_example 64 1 = Some 0" by code_simp
  have nl: "kasan_not_live kasan_example 80 1"
    by (simp add: kasan_not_live_def kasan_example_def kasan_alloc_none_def)
  have r: "ks_ready kasan_example" "\<not> ks_reporting kasan_example" by (simp_all add: kasan_example_def)
  show ?thesis using kasan_free_closes [OF r sl nl, of 48 85 13] by simp
qed

end
