(* ===== verification/PageAlloc.thy ===== *)
theory PageAlloc
  imports Kasan "HOL-Library.Monad_Syntax"
begin

text \<open>
  The physical page allocator of \<^verbatim>\<open>kernel/arch/x86/i386/page.c\<close>: a reference count and an owner for
  every 4 KiB frame, a bitmap of the free frames that is searched 32 frames at a time, and three search
  hints.  \<open>page_ref_panic\<close> stops the machine, so an operation that may panic returns an option and
  \<open>None\<close> is the panic.  An address is a natural number and 0 is NULL.
\<close>

section \<open>State\<close>

definition PAGE_TOTAL_COUNT :: nat where "PAGE_TOTAL_COUNT = 1048576"
abbreviation PAGE_SIZE_BYTES :: nat where "PAGE_SIZE_BYTES \<equiv> 4096"
abbreviation PAGE_RESERVED_OWNER :: u32 where "PAGE_RESERVED_OWNER \<equiv> - 1"

record page_info =
  pi_task :: u32
  pi_count :: u32

text \<open>
  \<open>pg_bitmap\<close> is indexed by word, \<open>pg_mem\<close> holds the 32-bit word at a (physical) address, \<open>pg_zero\<close>
  is the shared zero page or 0.
\<close>

record mm =
  pg_info :: "nat \<Rightarrow> page_info"
  pg_bitmap :: "nat \<Rightarrow> u32"
  pg_limit :: nat
  pg_low :: nat
  pg_high :: nat
  pg_run :: nat
  pg_zero :: nat
  pg_mem :: "nat \<Rightarrow> u32"
  pg_kasan :: kasan

definition IDX :: "nat \<Rightarrow> nat" where "IDX addr = wrap32 addr div PAGE_SIZE_BYTES"
definition PAGE :: "nat \<Rightarrow> nat" where "PAGE idx = wrap32 (idx * PAGE_SIZE_BYTES)"

abbreviation pcount :: "mm \<Rightarrow> nat \<Rightarrow> u32" where "pcount s i \<equiv> pi_count (pg_info s i)"
abbreviation ptask :: "mm \<Rightarrow> nat \<Rightarrow> u32" where "ptask s i \<equiv> pi_task (pg_info s i)"

definition set_info :: "nat \<Rightarrow> u32 \<Rightarrow> u32 \<Rightarrow> mm \<Rightarrow> mm" where
  "set_info idx task cnt s = s\<lparr>pg_info := (pg_info s)(idx := \<lparr>pi_task = task, pi_count = cnt\<rparr>)\<rparr>"

section \<open>The bitmap\<close>

definition page_alloc_word :: "nat \<Rightarrow> nat" where "page_alloc_word idx = idx div 32"
definition page_alloc_mask :: "nat \<Rightarrow> u32" where "page_alloc_mask idx = push_bit (idx mod 32) 1"

definition page_bitmap_mark_free :: "nat \<Rightarrow> mm \<Rightarrow> mm" where
  "page_bitmap_mark_free idx s =
     s\<lparr>pg_bitmap := (pg_bitmap s)(page_alloc_word idx := pg_bitmap s (page_alloc_word idx) OR page_alloc_mask idx)\<rparr>"

definition page_bitmap_mark_used :: "nat \<Rightarrow> mm \<Rightarrow> mm" where
  "page_bitmap_mark_used idx s =
     s\<lparr>pg_bitmap := (pg_bitmap s)(page_alloc_word idx := pg_bitmap s (page_alloc_word idx) AND NOT (page_alloc_mask idx))\<rparr>"

definition page_bitmap_is_free :: "mm \<Rightarrow> nat \<Rightarrow> bool" where
  "page_bitmap_is_free s idx \<longleftrightarrow> pg_bitmap s (page_alloc_word idx) AND page_alloc_mask idx \<noteq> 0"

section \<open>Reference counts and hints\<close>

definition page_refcount_idx :: "nat \<Rightarrow> mm \<Rightarrow> u32 option" where
  "page_refcount_idx idx s = (if idx \<ge> PAGE_TOTAL_COUNT then None else Some (pcount s idx))"

definition page_note_free_idx :: "nat \<Rightarrow> mm \<Rightarrow> mm" where
  "page_note_free_idx idx s =
     (let s = (if idx < pg_low s then s\<lparr>pg_low := idx\<rparr> else s);
          s = (if idx < pg_run s then s\<lparr>pg_run := idx\<rparr> else s)
      in if idx < pg_limit s \<and> idx > pg_high s then s\<lparr>pg_high := idx\<rparr> else s)"

definition page_note_alloc_idx :: "nat \<Rightarrow> mm \<Rightarrow> mm" where
  "page_note_alloc_idx idx s =
     (let s = (if idx = pg_low s then s\<lparr>pg_low := (if idx + 1 < pg_limit s then idx + 1 else 0)\<rparr> else s);
          s = (if idx = pg_run s then s\<lparr>pg_run := (if idx + 1 < pg_limit s then idx + 1 else 0)\<rparr> else s)
      in if idx = pg_high s then s\<lparr>pg_high := (if idx \<noteq> 0 then idx - 1 else 0)\<rparr> else s)"

definition page_ref_inc_idx :: "nat \<Rightarrow> mm \<Rightarrow> mm option" where
  "page_ref_inc_idx idx s =
     (if pg_zero s \<noteq> 0 \<and> idx = IDX (pg_zero s) then Some s
      else if idx \<ge> PAGE_TOTAL_COUNT then None
      else if pcount s idx = - 1 then None
      else
        (let s' = set_info idx 0 (pcount s idx) s;
             s' = (if pcount s idx = 0 then page_note_alloc_idx idx (page_bitmap_mark_used idx s') else s')
         in Some (set_info idx 0 (pcount s idx + 1) s')))"

definition page_ref_dec_idx :: "nat \<Rightarrow> mm \<Rightarrow> mm option" where
  "page_ref_dec_idx idx s =
     (if pg_zero s \<noteq> 0 \<and> idx = IDX (pg_zero s) then Some s
      else if idx \<ge> PAGE_TOTAL_COUNT then None
      else if pcount s idx = 0 then None
      else if ptask s idx = PAGE_RESERVED_OWNER then None
      else if pcount s idx > 1 \<and> ptask s idx \<noteq> 0 then None
      else if pcount s idx = 1
      then Some (page_note_free_idx idx (page_bitmap_mark_free idx (set_info idx 0 0 s)))
      else Some (set_info idx (ptask s idx) (pcount s idx - 1) s))"

definition page_claim_idx :: "nat \<Rightarrow> u32 \<Rightarrow> mm \<Rightarrow> mm option" where
  "page_claim_idx idx task_id s =
     do { s \<leftarrow> page_ref_inc_idx idx s;
          if pcount s idx \<noteq> 1 then None else Some (set_info idx task_id (pcount s idx) s) }"

definition page_ref_count :: "nat \<Rightarrow> mm \<Rightarrow> u32 option" where
  "page_ref_count paddr s = page_refcount_idx (IDX paddr) s"

definition page_ref_release :: "nat \<Rightarrow> mm \<Rightarrow> mm option" where
  "page_ref_release paddr s = page_ref_dec_idx (IDX paddr) s"

definition page_used_count :: "nat \<Rightarrow> mm \<Rightarrow> nat" where
  "page_used_count physical_size s =
     (let limit = physical_size div PAGE_SIZE_BYTES;
          limit = (if physical_size mod PAGE_SIZE_BYTES \<noteq> 0 then limit + 1 else limit);
          limit = (if limit > PAGE_TOTAL_COUNT then PAGE_TOTAL_COUNT else limit)
      in fold (\<lambda>idx used. if pcount s idx \<noteq> 0 \<and> ptask s idx \<noteq> PAGE_RESERVED_OWNER then used + 1 else used)
           [0..<limit] 0)"

text \<open>A \<open>for\<close> loop over frame numbers whose body may panic.\<close>

primrec for_pages :: "(nat \<Rightarrow> mm \<Rightarrow> mm option) \<Rightarrow> nat list \<Rightarrow> mm \<Rightarrow> mm option" where
  "for_pages f [] s = Some s"
| "for_pages f (i # is) s = do { s \<leftarrow> f i s; for_pages f is s }"

definition page_claim_range :: "nat \<Rightarrow> nat \<Rightarrow> u32 \<Rightarrow> mm \<Rightarrow> mm option" where
  "page_claim_range start n task_id = for_pages (\<lambda>idx. page_claim_idx idx task_id) [start..<start + n]"

section \<open>Searching\<close>

text \<open>\<open>__builtin_ctz\<close> and \<open>__builtin_clz\<close> of a word that is not 0.\<close>

definition ctz32 :: "u32 \<Rightarrow> nat" where
  "ctz32 w = (case find (bit w) [0..<32] of Some i \<Rightarrow> i | None \<Rightarrow> 32)"

definition clz32 :: "u32 \<Rightarrow> nat" where
  "clz32 w = (case find (bit w) (rev [0..<32]) of Some i \<Rightarrow> 31 - i | None \<Rightarrow> 32)"

primrec low_scan :: "mm \<Rightarrow> nat \<Rightarrow> nat \<Rightarrow> nat list \<Rightarrow> nat option" where
  "low_scan s start limit [] = None"
| "low_scan s start limit (word # words) =
     (let bits = pg_bitmap s word;
          bits = (if word = start div 32 then bits AND push_bit (start mod 32) (- 1) else bits);
          bits = (if word = (limit - 1) div 32 \<and> limit mod 32 \<noteq> 0
                  then bits AND (push_bit (limit mod 32) 1 - 1) else bits)
      in if bits = 0 then low_scan s start limit words else Some (word * 32 + ctz32 bits))"

definition page_find_free_low_from :: "nat \<Rightarrow> nat \<Rightarrow> mm \<Rightarrow> nat option" where
  "page_find_free_low_from start limit s =
     (if start \<ge> limit then None
      else low_scan s start limit [start div 32..<Suc ((limit - 1) div 32)])"

definition page_find_free_low :: "mm \<Rightarrow> nat option" where
  "page_find_free_low s =
     (case page_find_free_low_from (pg_low s) (pg_limit s) s of
        Some i \<Rightarrow> Some i
      | None \<Rightarrow> if pg_low s \<noteq> 0 then page_find_free_low_from 0 (pg_low s) s else None)"

text \<open>Downwards from \<open>word\<close>, with the mask of the first word.\<close>

primrec high_scan :: "mm \<Rightarrow> u32 \<Rightarrow> nat \<Rightarrow> nat option" where
  "high_scan s end_mask 0 =
     (let bits = pg_bitmap s 0 AND end_mask in if bits \<noteq> 0 then Some (31 - clz32 bits) else None)"
| "high_scan s end_mask (Suc word) =
     (let bits = pg_bitmap s (Suc word) AND end_mask
      in if bits \<noteq> 0 then Some (Suc word * 32 + (31 - clz32 bits)) else high_scan s (- 1) word)"

definition page_find_free_high :: "mm \<Rightarrow> nat option" where
  "page_find_free_high s =
     (if pg_limit s = 0 then None
      else
        (let start = (if pg_high s < pg_limit s then pg_high s else pg_limit s - 1);
             end_mask = (if start mod 32 = 31 then - 1 else push_bit (start mod 32 + 1) 1 - 1)
         in high_scan s end_mask (start div 32)))"

text \<open>
  The inner loop over the bits of one word: \<open>Inr\<close> is a run found, \<open>Inl\<close> the loop variables
  \<open>(idx, run, run_start)\<close> with which the outer loop goes on.
\<close>

function run_bits :: "u32 \<Rightarrow> nat \<Rightarrow> nat \<Rightarrow> nat \<Rightarrow> nat \<Rightarrow> nat \<Rightarrow> nat \<Rightarrow> (nat \<times> nat \<times> nat) + nat" where
  "run_bits bits cnt limit b idx run run_start =
     (if b < 32 \<and> idx < limit then
        (if bit bits b then
           (let run_start = (if run = 0 then idx else run_start); run = run + 1
            in if run = cnt then Inr run_start else run_bits bits cnt limit (b + 1) (idx + 1) run run_start)
         else run_bits bits cnt limit (b + 1) (idx + 1) 0 run_start)
      else Inl (idx, run, run_start))"
  by pat_completeness auto
termination by (relation "measure (\<lambda>(_, _, _, b, _). 32 - b)") auto

declare run_bits.simps [simp del]

lemma run_bits_mono: "run_bits bits cnt limit b idx run rs = Inl (idx', run', rs') \<Longrightarrow> idx \<le> idx'"
proof (induction bits cnt limit b idx run rs rule: run_bits.induct)
  case (1 bits cnt limit b idx run rs)
  show ?case
  proof (cases "b < 32 \<and> idx < limit")
    case False
    show ?thesis using "1.prems" unfolding run_bits.simps [of bits cnt limit b idx run rs] if_not_P [OF False] by simp
  next
    case True
    note IH = "1.IH"(1) [OF True _ refl refl] "1.IH"(2) [OF True]
    show ?thesis using "1.prems" True IH
      unfolding run_bits.simps [of bits cnt limit b idx run rs] Let_def
      by (cases "bit bits b"; cases "run + 1 = cnt") simp_all
  qed
qed

lemma run_bits_progress:
  assumes "run_bits bits cnt limit b idx run rs = Inl (idx', run', rs')" and True: "b < 32 \<and> idx < limit"
  shows "idx < idx'"
  using assms(1) unfolding run_bits.simps [of bits cnt limit b idx run rs] if_P [OF True] Let_def
  by (cases "bit bits b"; cases "run + 1 = cnt") (auto dest: run_bits_mono)

function run_scan :: "mm \<Rightarrow> nat \<Rightarrow> nat \<Rightarrow> nat \<Rightarrow> nat \<Rightarrow> nat \<Rightarrow> nat option" where
  "run_scan s cnt limit idx run run_start =
     (if idx < limit then
        (if pg_bitmap s (idx div 32) = 0 then run_scan s cnt limit ((idx div 32 + 1) * 32) 0 run_start
         else case run_bits (pg_bitmap s (idx div 32)) cnt limit (idx mod 32) idx run run_start of
                Inr r \<Rightarrow> Some r
              | Inl (idx', run', run_start') \<Rightarrow> run_scan s cnt limit idx' run' run_start')
      else None)"
  by pat_completeness auto
termination
proof (relation "measure (\<lambda>(_, _, limit, idx, _). limit - idx)", goal_cases)
  case (2 s cnt limit idx run run_start)
  then show ?case by (simp add: diff_less_mono2 mult.commute dividend_less_times_div)
next
  case (3 s cnt limit idx run run_start st idx' y run' run_start')
  then have "idx < idx'" by (intro run_bits_progress) auto
  then show ?case using 3 by auto
qed auto

declare run_scan.simps [simp del]

definition page_find_free_run_from :: "nat \<Rightarrow> nat \<Rightarrow> nat \<Rightarrow> mm \<Rightarrow> nat option" where
  "page_find_free_run_from start cnt limit s = run_scan s cnt limit start 0 0"

definition page_find_free_run :: "nat \<Rightarrow> nat \<Rightarrow> mm \<Rightarrow> nat option" where
  "page_find_free_run start cnt s =
     (let begin' = (if start \<noteq> 0 then start else pg_run s);
          begin' = (if begin' \<ge> pg_limit s then 0 else begin')
      in case page_find_free_run_from begin' cnt (pg_limit s) s of
           Some i \<Rightarrow> Some i
         | None \<Rightarrow> if begin' \<noteq> 0 then page_find_free_run_from 0 cnt begin' s else None)"

section \<open>Allocating and freeing\<close>

text \<open>\<open>memset\<close> of whole words.\<close>

definition mem_fill :: "nat \<Rightarrow> nat \<Rightarrow> u32 \<Rightarrow> mm \<Rightarrow> mm" where
  "mem_fill addr len w s = s\<lparr>pg_mem := (\<lambda>a. if addr \<le> a \<and> a < addr + len then w else pg_mem s a)\<rparr>"

definition page_alloc_single :: "u32 \<Rightarrow> mm \<Rightarrow> (mm \<times> nat) option" where
  "page_alloc_single task_id s =
     (case page_find_free_low s of
        None \<Rightarrow> Some (s, 0)
      | Some idx \<Rightarrow>
          do { s \<leftarrow> page_claim_idx idx task_id s;
               let s = s\<lparr>pg_low := (if idx + 1 < pg_limit s then idx + 1 else 0)\<rparr>;
               let s = (if pg_run s = idx then s\<lparr>pg_run := pg_low s\<rparr> else s);
               Some (s\<lparr>pg_kasan := kasan_page_alloc (PAGE idx) PAGE_SIZE_BYTES PAGE_SIZE_BYTES (pg_kasan s)\<rparr>, PAGE idx) })"

definition page_alloc_single_high :: "mm \<Rightarrow> (mm \<times> nat) option" where
  "page_alloc_single_high s =
     (case page_find_free_high s of
        None \<Rightarrow> Some (s, 0)
      | Some idx \<Rightarrow>
          do { s \<leftarrow> page_claim_idx idx 0 s;
               let s = s\<lparr>pg_high := (if idx > 0 then idx - 1 else 0)\<rparr>;
               Some (s\<lparr>pg_kasan := kasan_page_alloc (PAGE idx) PAGE_SIZE_BYTES PAGE_SIZE_BYTES (pg_kasan s)\<rparr>, PAGE idx) })"

definition page_malloc_one_no_mark :: "mm \<Rightarrow> (mm \<times> nat) option" where
  "page_malloc_one_no_mark = page_alloc_single 0"

definition page_malloc_one :: "u32 \<Rightarrow> mm \<Rightarrow> (mm \<times> nat) option" where
  "page_malloc_one current_tid = page_alloc_single current_tid"

definition page_malloc :: "int \<Rightarrow> mm \<Rightarrow> (mm \<times> nat) option" where
  "page_malloc len s =
     (if len \<le> 0 then Some (s, 0)
      else
        let cnt = (nat len + PAGE_SIZE_BYTES - 1) div PAGE_SIZE_BYTES
        in case page_find_free_run 0 cnt s of
             None \<Rightarrow> Some (s, 0)
           | Some index \<Rightarrow>
               do { s \<leftarrow> page_claim_range index cnt 0 s;
                    let s = s\<lparr>pg_run := (if index + cnt < pg_limit s then index + cnt else 0)\<rparr>;
                    let s = mem_fill (PAGE index) (cnt * PAGE_SIZE_BYTES) 0 s;
                    Some (s\<lparr>pg_kasan := kasan_page_alloc (PAGE index) (cnt * PAGE_SIZE_BYTES) (nat len) (pg_kasan s)\<rparr>,
                          PAGE index) })"

definition page_free_one_internal :: "nat \<Rightarrow> bool \<Rightarrow> mm \<Rightarrow> mm option" where
  "page_free_one_internal p kasan_track s =
     (let idx = IDX p in
      if idx \<ge> PAGE_TOTAL_COUNT then None
      else do { cnt \<leftarrow> page_refcount_idx idx s;
                if cnt = 0 then None
                else if cnt > 1 then page_ref_dec_idx idx s
                else page_ref_dec_idx idx
                       (if kasan_track
                        then s\<lparr>pg_kasan := kasan_page_free (PAGE idx) PAGE_SIZE_BYTES (pg_kasan s)\<rparr> else s) })"

definition page_free_one :: "nat \<Rightarrow> mm \<Rightarrow> mm option" where
  "page_free_one p = page_free_one_internal p True"

definition page_free :: "nat \<Rightarrow> int \<Rightarrow> mm \<Rightarrow> mm option" where
  "page_free p len s =
     (if p = 0 \<or> len \<le> 0 then Some s
      else
        let cnt = (nat len + PAGE_SIZE_BYTES - 1) div PAGE_SIZE_BYTES;
            address = p div PAGE_SIZE_BYTES * PAGE_SIZE_BYTES;
            s = s\<lparr>pg_kasan := kasan_page_free address (wrap32 (cnt * PAGE_SIZE_BYTES)) (pg_kasan s)\<rparr>
        in for_pages (\<lambda>i. page_free_one_internal (wrap32 (address + i * PAGE_SIZE_BYTES)) False) [0..<cnt] s)"

definition gc_page :: "u32 \<Rightarrow> nat \<Rightarrow> mm \<Rightarrow> mm option" where
  "gc_page tid i s =
     (if ptask s i = PAGE_RESERVED_OWNER then Some s
      else do { cnt \<leftarrow> page_refcount_idx i s;
                if (cnt = 0 \<and> ptask s i \<noteq> 0) \<or> (cnt > 1 \<and> ptask s i \<noteq> 0) then None
                else if tid \<noteq> 0 \<and> cnt = 1 \<and> ptask s i = tid then page_ref_dec_idx i s
                else Some s })"

definition gc :: "u32 \<Rightarrow> mm \<Rightarrow> mm option" where
  "gc tid = for_pages (gc_page tid) [0..<PAGE_TOTAL_COUNT]"

definition change_page_task_id :: "u32 \<Rightarrow> nat \<Rightarrow> nat \<Rightarrow> mm \<Rightarrow> mm option" where
  "change_page_task_id task_id p len s =
     (if len = 0 then Some s
      else for_pages (\<lambda>i s.
             let idx = IDX p + i in
             do { refs \<leftarrow> page_refcount_idx idx s;
                  if refs = 0 then None
                  else if refs > 1 then (if ptask s idx \<noteq> 0 then None else Some s)
                  else Some (set_info idx task_id (pcount s idx) s) })
           [0..<(len - 1) div PAGE_SIZE_BYTES + 1] s)"

section \<open>Reserving and initialising\<close>

definition page_reserve_initial :: "nat \<Rightarrow> nat \<Rightarrow> mm \<Rightarrow> mm option" where
  "page_reserve_initial start stop =
     for_pages (\<lambda>index s. if pcount s index = 0 then page_ref_inc_idx index s else Some s)
       [IDX start..<Suc (if IDX stop \<ge> PAGE_TOTAL_COUNT then PAGE_TOTAL_COUNT - 1 else IDX stop)]"

definition page_reserve_physical_range :: "nat \<Rightarrow> nat \<Rightarrow> mm \<Rightarrow> (mm \<times> bool) option" where
  "page_reserve_physical_range start len s =
     (if len = 0 \<or> start > 2 ^ 32 - 1 - (len - 1) then Some (s, False)
      else
        let first = IDX start; last' = IDX (start + len - 1) in
        if last' \<ge> PAGE_TOTAL_COUNT then Some (s, False)
        else if find (\<lambda>idx. pcount s idx \<noteq> 0) [first..<Suc last'] \<noteq> None then Some (s, False)
        else map_option (\<lambda>s. (s, True)) (for_pages page_ref_inc_idx [first..<Suc last'] s))"

text \<open>The shared zero page is allocated by the first anonymous mapping.\<close>

definition ensure_zero_page :: "mm \<Rightarrow> (mm \<times> bool) option" where
  "ensure_zero_page s =
     (if pg_zero s \<noteq> 0 then Some (s, True)
      else do { (s, page) \<leftarrow> page_alloc_single_high s;
                if page = 0 then Some (s, False)
                else Some ((mem_fill page PAGE_SIZE_BYTES 0 s)\<lparr>pg_zero := page\<rparr>, True) })"

text \<open>
  \<open>pf_set\<close>: the end of memory is known.  The kernel's page table entries above it are cleared, except for device
  pages, the frames above it and those of the sanitizer's shadow are reserved, and the hints follow the limit.
\<close>

abbreviation PG_DEVICE :: u32 where "PG_DEVICE \<equiv> 512"
definition PAGE_KERNEL_BASE :: nat where "PAGE_KERNEL_BASE = 0xc0000000"
definition I386_KERNEL_PAGE_TABLES :: nat where "I386_KERNEL_PAGE_TABLES = 0x00401000"
definition KASAN_SHADOW_START :: nat where "KASAN_SHADOW_START = 0x01200000"

definition pf_clear_tables :: "nat \<Rightarrow> mm \<Rightarrow> mm" where
  "pf_clear_tables memsize s =
     s\<lparr>pg_mem := (\<lambda>a. let i = (a - I386_KERNEL_PAGE_TABLES) div 4 in
         if I386_KERNEL_PAGE_TABLES \<le> a \<and> a < I386_KERNEL_PAGE_TABLES + 0x00400000
            \<and> (a - I386_KERNEL_PAGE_TABLES) mod 4 = 0
            \<and> pg_mem s a AND PG_DEVICE = 0 \<and> memsize div PAGE_SIZE_BYTES \<le> i
            \<and> i \<le> PAGE_KERNEL_BASE div PAGE_SIZE_BYTES
         then 0 else pg_mem s a)\<rparr>"

definition pf_set :: "u32 \<Rightarrow> mm \<Rightarrow> mm option" where
  "pf_set memsize s =
     (let limit = unat memsize div PAGE_SIZE_BYTES;
          s = (pf_clear_tables (unat memsize) s)\<lparr>pg_limit := limit\<rparr>
      in do { s \<leftarrow> (if limit < PAGE_TOTAL_COUNT \<and> unat memsize < PAGE_KERNEL_BASE
                     then page_reserve_initial (unat memsize) (PAGE_KERNEL_BASE - 1) s else Some s);
              s \<leftarrow> page_reserve_initial KASAN_SHADOW_START (KASAN_SHADOW_START + KASAN_SHADOW_SIZE - 1) s;
              Some (if limit = 0 then s\<lparr>pg_low := 0, pg_run := 0, pg_high := 0\<rparr>
                    else if pg_high s \<ge> limit then s\<lparr>pg_high := limit - 1\<rparr> else s) })"

text \<open>A range of the boot memory map: usable or not, base and length (64-bit).\<close>

record boot_memory_range =
  br_usable :: bool
  br_base :: nat
  br_length :: nat

definition mark_usable :: "nat \<Rightarrow> mm \<Rightarrow> mm" where
  "mark_usable page s = page_bitmap_mark_free page (set_info page 0 0 s)"

definition init_range :: "boot_memory_range \<Rightarrow> mm \<Rightarrow> mm" where
  "init_range rg s =
     (if \<not> br_usable rg \<or> br_length rg = 0 then s
      else
        let stop = (br_base rg + br_length rg) mod 2 ^ 64;
            stop = (if stop < br_base rg then 2 ^ 32 else stop);
            start = (br_base rg + PAGE_SIZE_BYTES - 1) mod 2 ^ 64 div PAGE_SIZE_BYTES * PAGE_SIZE_BYTES;
            stop = stop div PAGE_SIZE_BYTES * PAGE_SIZE_BYTES
        in if start \<ge> 2 ^ 32 then s
           else
             let stop = (if stop > 2 ^ 32 then 2 ^ 32 else stop)
             in fold mark_usable [start div PAGE_SIZE_BYTES..<stop div PAGE_SIZE_BYTES] s)"

definition init_page_manager :: "boot_memory_range list \<Rightarrow> mm \<Rightarrow> mm" where
  "init_page_manager ranges s =
     (let s = s\<lparr>pg_info := (\<lambda>_. \<lparr>pi_task = 0, pi_count = 0\<rparr>), pg_bitmap := (\<lambda>_. 0), pg_limit := PAGE_TOTAL_COUNT,
               pg_low := 0, pg_high := PAGE_TOTAL_COUNT - 1, pg_run := 0\<rparr>
      in if ranges = [] then s\<lparr>pg_bitmap := (\<lambda>_. - 1)\<rparr>
         else fold init_range ranges (s\<lparr>pg_info := (\<lambda>_. \<lparr>pi_task = PAGE_RESERVED_OWNER, pi_count = 1\<rparr>)\<rparr>))"

section \<open>The bitmap, frame by frame\<close>

lemma is_free_bit: "page_bitmap_is_free s i \<longleftrightarrow> bit (pg_bitmap s (i div 32)) (i mod 32)"
proof -
  have "w AND push_bit k 1 \<noteq> 0 \<longleftrightarrow> bit w k" if "k < 32" for w :: u32 and k
    using that by (auto simp: bit_eq_iff [where 'a = u32] bit_simps)
  then show ?thesis by (simp add: page_bitmap_is_free_def page_alloc_word_def page_alloc_mask_def)
qed

lemma is_free_at: "k < 32 \<Longrightarrow> page_bitmap_is_free s (word * 32 + k) = bit (pg_bitmap s word) k"
  by (simp add: is_free_bit)

lemma word_bit_index: "i div 32 = j div 32 \<and> i mod 32 = j mod 32 \<longleftrightarrow> i = (j :: nat)"
  by (metis div_mult_mod_eq)

lemma mark_free_is_free [simp]: "page_bitmap_is_free (page_bitmap_mark_free i s) j = (i = j \<or> page_bitmap_is_free s j)"
  using word_bit_index [of i j]
  by (auto simp: is_free_bit page_bitmap_mark_free_def page_alloc_word_def page_alloc_mask_def bit_simps)

lemma mark_used_is_free [simp]: "page_bitmap_is_free (page_bitmap_mark_used i s) j = (i \<noteq> j \<and> page_bitmap_is_free s j)"
  using word_bit_index [of i j]
  by (auto simp: is_free_bit page_bitmap_mark_used_def page_alloc_word_def page_alloc_mask_def bit_simps)

section \<open>The searches\<close>

text \<open>A search result is the least (or the greatest) number with a property, or there is none.\<close>

definition is_least :: "(nat \<Rightarrow> bool) \<Rightarrow> nat option \<Rightarrow> bool" where
  "is_least P r \<longleftrightarrow> (case r of None \<Rightarrow> \<forall>i. \<not> P i | Some i \<Rightarrow> P i \<and> (\<forall>j<i. \<not> P j))"

definition is_greatest :: "(nat \<Rightarrow> bool) \<Rightarrow> nat option \<Rightarrow> bool" where
  "is_greatest P r \<longleftrightarrow> (case r of None \<Rightarrow> \<forall>i. \<not> P i | Some i \<Rightarrow> P i \<and> (\<forall>j>i. \<not> P j))"

lemma is_least_unique: "is_least P r \<Longrightarrow> is_least P r' \<Longrightarrow> r = r'"
  by (auto simp: is_least_def split: option.splits) (meson nat_neq_iff)

lemma is_greatest_unique: "is_greatest P r \<Longrightarrow> is_greatest P r' \<Longrightarrow> r = r'"
  by (auto simp: is_greatest_def split: option.splits) (meson nat_neq_iff)

lemma find_upt_least: "is_least (\<lambda>i. a \<le> i \<and> i < b \<and> P i) (find P [a..<b])"
proof (cases "find P [a..<b]")
  case None
  then have "\<not> P i" if "a \<le> i" "i < b" for i using that by (auto simp: find_None_iff)
  then show ?thesis unfolding None is_least_def by auto
next
  case (Some k)
  then obtain i where i: "i < b - a" "k = a + i" "P k" "\<forall>j<i. \<not> P (a + j)" by (auto simp: find_Some_iff)
  then have "\<not> P j" if "a \<le> j" "j < k" for j using that by (metis add_less_cancel_left le_add_diff_inverse)
  then show ?thesis using i by (auto simp: is_least_def Some)
qed

lemma find_rev_greatest: "is_greatest (\<lambda>i. i < b \<and> P i) (find P (rev [0..<b]))"
proof (induction b)
  case (Suc b)
  then show ?case
    by (auto simp: is_greatest_def less_Suc_eq split: option.splits)
qed (simp add: is_greatest_def)

lemma ctz32_least:
  assumes "w \<noteq> 0" shows "ctz32 w < 32 \<and> bit w (ctz32 w) \<and> (\<forall>j < ctz32 w. \<not> bit w j)"
proof -
  have l: "is_least (\<lambda>i. 0 \<le> i \<and> i < 32 \<and> bit w i) (find (bit w) [0..<32])" by (rule find_upt_least)
  have "\<exists>i<32. bit w i" using assms by (auto simp: bit_eq_iff [where 'a = u32])
  then obtain k where "find (bit w) [0..<32] = Some k" using l by (auto simp: is_least_def split: option.splits)
  then show ?thesis using l by (auto simp: is_least_def ctz32_def)
qed

lemma clz32_greatest:
  assumes "w \<noteq> 0" shows "31 - clz32 w < 32 \<and> bit w (31 - clz32 w) \<and> (\<forall>j. 31 - clz32 w < j \<and> j < 32 \<longrightarrow> \<not> bit w j)"
proof -
  have l: "is_greatest (\<lambda>i. i < 32 \<and> bit w i) (find (bit w) (rev [0..<32]))" by (rule find_rev_greatest)
  have "\<exists>i<32. bit w i" using assms by (auto simp: bit_eq_iff [where 'a = u32])
  then obtain k where "find (bit w) (rev [0..<32]) = Some k" using l by (auto simp: is_greatest_def split: option.splits)
  then show ?thesis using l by (auto simp: is_greatest_def clz32_def)
qed

text \<open>The first frame of a word that the masked bits show.\<close>

definition low_bits :: "mm \<Rightarrow> nat \<Rightarrow> nat \<Rightarrow> nat \<Rightarrow> u32" where
  "low_bits s start limit word =
     (let bits = pg_bitmap s word;
          bits = (if word = start div 32 then bits AND push_bit (start mod 32) (- 1) else bits)
      in if word = (limit - 1) div 32 \<and> limit mod 32 \<noteq> 0
         then bits AND (push_bit (limit mod 32) 1 - 1) else bits)"

lemma low_scan_Cons:
  "low_scan s start limit (word # words) =
     (if low_bits s start limit word = 0 then low_scan s start limit words
      else Some (word * 32 + ctz32 (low_bits s start limit word)))"
  by (simp only: low_scan.simps low_bits_def Let_def)

lemma bit_low_mask: "n < 32 \<Longrightarrow> bit (push_bit n 1 - 1 :: u32) k \<longleftrightarrow> k < n"
  using bit_mask_iff [of n k, where 'a = u32] by (auto simp: mask_eq_exp_minus_1 push_bit_eq_mult bit_imp_le_length)

lemma bit_low_bits:
  assumes k: "k < 32" and w: "start div 32 \<le> word" "word \<le> (limit - 1) div 32" and lim: "0 < limit"
  shows "bit (low_bits s start limit word) k \<longleftrightarrow>
     start \<le> word * 32 + k \<and> word * 32 + k < limit \<and> page_bitmap_is_free s (word * 32 + k)"
proof -
  have free: "page_bitmap_is_free s (word * 32 + k) = bit (pg_bitmap s word) k" using k by (simp add: is_free_bit)
  have 32: "n div 32 * 32 + n mod 32 = n" for n :: nat by simp
  have st: "start \<le> word * 32 + k \<longleftrightarrow> word \<noteq> start div 32 \<or> start mod 32 \<le> k"
  proof (cases "word = start div 32")
    case True then show ?thesis using 32 [of start] by (simp only: True simp_thms) linarith
  next
    case False
    then have "start div 32 + 1 \<le> word" using w(1) by simp
    then have "(start div 32 + 1) * 32 \<le> word * 32" by (rule mult_le_mono1)
    then have "start div 32 * 32 + 32 \<le> word * 32" by (simp only: add_mult_distrib mult_1)
    moreover have "start mod 32 < 32" by simp
    ultimately have "start \<le> word * 32 + k" using 32 [of start] by linarith
    then show ?thesis using False by simp
  qed
  have up: "word * 32 + k < limit \<longleftrightarrow> word \<noteq> (limit - 1) div 32 \<or> limit mod 32 = 0 \<or> k < limit mod 32"
  proof (cases "word = (limit - 1) div 32")
    case False
    then have "word + 1 \<le> (limit - 1) div 32" using w(2) by simp
    then have "(word + 1) * 32 \<le> (limit - 1) div 32 * 32" by (rule mult_le_mono1)
    then have "word * 32 + 32 \<le> (limit - 1) div 32 * 32" by (simp only: add_mult_distrib mult_1)
    then have "word * 32 + k < limit" using k 32 [of "limit - 1"] lim by linarith
    then show ?thesis using False by simp
  next
    case True
    obtain q r where qr: "limit = q * 32 + r" "r < 32" "limit mod 32 = r"
      using 32 [of limit] by (metis mod_less_divisor zero_less_numeral)
    show ?thesis
    proof (cases "r = 0")
      case True
      then have "limit - 1 = (q - 1) * 32 + 31" using qr lim by (cases q) simp_all
      then have "word = q - 1" using \<open>word = (limit - 1) div 32\<close> by simp
      then show ?thesis using True qr lim k by (cases q) simp_all
    next
      case False
      then have "limit - 1 = q * 32 + (r - 1)" "r - 1 < 32" using qr by simp_all
      then have "word = q" using \<open>word = (limit - 1) div 32\<close> by simp
      then show ?thesis using False qr \<open>word = (limit - 1) div 32\<close> by auto
    qed
  qed
  have m1: "bit (push_bit (start mod 32) (- 1) :: u32) k \<longleftrightarrow> start mod 32 \<le> k"
    using k by (auto simp: bit_simps)
  have m2: "bit (push_bit (limit mod 32) 1 - 1 :: u32) k \<longleftrightarrow> k < limit mod 32"
    by (rule bit_low_mask) simp
  show ?thesis unfolding free st up low_bits_def Let_def
    by (simp only: bit_and_iff m1 m2 split: if_split) satx
qed

lemma low_scan_least:
  assumes lim: "0 < limit" and a: "start div 32 \<le> a" and n: "a + n = Suc ((limit - 1) div 32)"
  shows "is_least (\<lambda>i. a * 32 \<le> i \<and> start \<le> i \<and> i < limit \<and> page_bitmap_is_free s i)
     (low_scan s start limit [a..<a + n])"
  using a n
proof (induction n arbitrary: a)
  case 0
  have "(limit - 1) div 32 * 32 + (limit - 1) mod 32 = limit - 1" "(limit - 1) mod 32 < 32" by simp_all
  then have "limit \<le> a * 32" using 0 lim by simp
  then show ?case by (auto simp: is_least_def)
next
  case (Suc n)
  have w: "a \<le> (limit - 1) div 32" using Suc.prems by simp
  note bits = bit_low_bits [OF _ Suc.prems(1) w lim, of _ s]
  have up: "[a..<a + Suc n] = a # [Suc a..<Suc a + n]" by (simp add: upt_conv_Cons)
  let ?b = "low_bits s start limit a"
  show ?case
  proof (cases "?b = 0")
    case True
    have no: "\<not> (start \<le> i \<and> i < limit \<and> page_bitmap_is_free s i)" if "a * 32 \<le> i" "i < Suc a * 32" for i
      using bits [of "i - a * 32"] that True by simp
    have "(\<lambda>i. a * 32 \<le> i \<and> start \<le> i \<and> i < limit \<and> page_bitmap_is_free s i) =
          (\<lambda>i. Suc a * 32 \<le> i \<and> start \<le> i \<and> i < limit \<and> page_bitmap_is_free s i)"
      using no by (intro ext) (metis le_trans linorder_not_le mult_le_mono1 lessI less_imp_le)
    then show ?thesis using Suc.IH [of "Suc a"] Suc.prems True unfolding up low_scan_Cons by simp
  next
    case False
    note c = ctz32_least [OF False]
    have P: "start \<le> a * 32 + ctz32 ?b \<and> a * 32 + ctz32 ?b < limit \<and> page_bitmap_is_free s (a * 32 + ctz32 ?b)"
      using bits [of "ctz32 ?b"] c by blast
    have no: "\<not> (start \<le> j \<and> j < limit \<and> page_bitmap_is_free s j)" if "a * 32 \<le> j" "j < a * 32 + ctz32 ?b" for j
    proof -
      define k where "k = j - a * 32"
      have k: "j = a * 32 + k" "k < ctz32 ?b" using that by (simp_all add: k_def)
      then have "k < 32" using c by linarith
      then show ?thesis using bits [of k] c k by blast
    qed
    show ?thesis unfolding up low_scan_Cons is_least_def using P no False by auto
  qed
qed

lemma low_from_find:
  "page_find_free_low_from start limit s = find (page_bitmap_is_free s) [start..<limit]"
proof (cases "start < limit")
  case False then show ?thesis by (simp add: page_find_free_low_from_def)
next
  case True
  have le: "start div 32 \<le> (limit - 1) div 32" using True by (intro div_le_mono) simp
  define n where "n = Suc ((limit - 1) div 32) - start div 32"
  have n: "start div 32 + n = Suc ((limit - 1) div 32)" using le by (simp add: n_def)
  have st: "start div 32 * 32 \<le> start" by simp
  have "is_least (\<lambda>i. start div 32 * 32 \<le> i \<and> start \<le> i \<and> i < limit \<and> page_bitmap_is_free s i)
     (low_scan s start limit [start div 32..<Suc ((limit - 1) div 32)])"
    using low_scan_least [of limit start "start div 32" n s] True unfolding n by simp
  moreover have "(\<lambda>i. start div 32 * 32 \<le> i \<and> start \<le> i \<and> i < limit \<and> page_bitmap_is_free s i) =
     (\<lambda>i. start \<le> i \<and> i < limit \<and> page_bitmap_is_free s i)" using st by (intro ext) (auto dest: order_trans)
  ultimately have "is_least (\<lambda>i. start \<le> i \<and> i < limit \<and> page_bitmap_is_free s i) (page_find_free_low_from start limit s)"
    using True by (simp add: page_find_free_low_from_def)
  then show ?thesis by (rule is_least_unique [OF _ find_upt_least])
qed

text \<open>The word-wise search for a free frame is the frame-by-frame search.  For every bitmap and every
  pair of bounds, \<open>page_find_free_low_from\<close>, which masks the first and the last word and counts
  trailing zeros, returns exactly the first free frame in \<open>[start, limit)\<close>, or nothing when there is
  none.\<close>

theorem page_find_free_low_from_first:
  "page_find_free_low_from start limit s = find (page_bitmap_is_free s) [start..<limit]"
  by (rule low_from_find)

lemma high_scan_greatest:
  assumes "m < 32" and e: "\<And>k. k < 32 \<Longrightarrow> bit (end_mask :: u32) k \<longleftrightarrow> k \<le> m"
  shows "is_greatest (\<lambda>i. i < word * 32 + m + 1 \<and> page_bitmap_is_free s i) (high_scan s end_mask word)"
  using assms
proof (induction word arbitrary: end_mask m)
  case 0
  have free: "page_bitmap_is_free s i = bit (pg_bitmap s 0) i" if "i \<le> m" for i using that 0 by (simp add: is_free_bit)
  show ?case
  proof (cases "pg_bitmap s 0 AND end_mask = 0")
    case True
    then have "\<not> bit (pg_bitmap s 0) i" if "i \<le> m" for i
      using that 0 by (metis bit_0_eq bit_and_iff bot_apply bot_bool_def le_less_trans)
    then show ?thesis using True free by (auto simp: is_greatest_def Let_def less_Suc_eq_le)
  next
    case False
    note c = clz32_greatest [OF False]
    let ?c = "31 - clz32 (pg_bitmap s 0 AND end_mask)"
    have "?c \<le> m" "bit (pg_bitmap s 0) ?c" using c 0 by (auto simp: bit_and_iff)
    moreover have "\<not> (j < m + 1 \<and> page_bitmap_is_free s j)" if "j > ?c" for j
      using that c 0 free [of j] by (auto simp: bit_and_iff less_Suc_eq_le)
    ultimately show ?thesis using False free [of ?c] by (auto simp: is_greatest_def Let_def)
  qed
next
  case (Suc word)
  have free: "page_bitmap_is_free s (Suc word * 32 + k) = bit (pg_bitmap s (Suc word)) k" if "k < 32" for k
    using that by (rule is_free_at)
  let ?b = "pg_bitmap s (Suc word) AND end_mask"
  show ?case
  proof (cases "?b = 0")
    case True
    have no: "\<not> page_bitmap_is_free s i" if "Suc word * 32 \<le> i" "i < Suc word * 32 + m + 1" for i
    proof -
      define k where "k = i - Suc word * 32"
      have k: "i = Suc word * 32 + k" "k \<le> m" "k < 32" using that Suc.prems(1) by (simp_all add: k_def)
      have "\<not> bit ?b k" using True by simp
      then show ?thesis using k Suc.prems(2) free [of k] by (simp add: bit_and_iff)
    qed
    have IH: "is_greatest (\<lambda>i. i < word * 32 + 31 + 1 \<and> page_bitmap_is_free s i) (high_scan s (- 1) word)"
      by (rule Suc.IH) (simp_all add: bit_simps)
    have "(\<lambda>i. i < Suc word * 32 + m + 1 \<and> page_bitmap_is_free s i) = (\<lambda>i. i < word * 32 + 31 + 1 \<and> page_bitmap_is_free s i)"
    proof (intro ext)
      fix i show "(i < Suc word * 32 + m + 1 \<and> page_bitmap_is_free s i) = (i < word * 32 + 31 + 1 \<and> page_bitmap_is_free s i)"
        using no [of i] by (cases "Suc word * 32 \<le> i") auto
    qed
    then show ?thesis using IH True by (simp add: Let_def)
  next
    case False
    note c = clz32_greatest [OF False]
    let ?c = "31 - clz32 ?b"
    have cm: "?c \<le> m" "bit (pg_bitmap s (Suc word)) ?c" using c Suc.prems by (auto simp: bit_and_iff)
    have no: "\<not> (j < Suc word * 32 + m + 1 \<and> page_bitmap_is_free s j)" if "j > Suc word * 32 + ?c" for j
    proof
      assume j: "j < Suc word * 32 + m + 1 \<and> page_bitmap_is_free s j"
      define k where "k = j - Suc word * 32"
      have j1: "j < Suc word * 32 + m + 1" using j by blast
      have k: "j = Suc word * 32 + k" "k \<le> m" "k < 32" "?c < k" using that j1 Suc.prems(1) unfolding k_def by linarith+
      then have "bit ?b k" using j free [of k] Suc.prems(2) by (simp add: bit_and_iff)
      then show False using c k by blast
    qed
    have "high_scan s end_mask (Suc word) = Some (Suc word * 32 + ?c)" using False by (simp add: Let_def)
    then show ?thesis using cm no free [of ?c] c by (simp add: is_greatest_def)
  qed
qed

lemma high_find:
  "page_find_free_high s =
     find (page_bitmap_is_free s) (rev [0..<(if pg_limit s = 0 then 0 else min (pg_high s + 1) (pg_limit s))])"
proof (cases "pg_limit s = 0")
  case True then show ?thesis by (simp add: page_find_free_high_def)
next
  case False
  define start where "start = (if pg_high s < pg_limit s then pg_high s else pg_limit s - 1)"
  define e :: u32 where "e = (if start mod 32 = 31 then - 1 else push_bit (start mod 32 + 1) 1 - 1)"
  have m: "start mod 32 < 32" by simp
  have e: "bit e k \<longleftrightarrow> k \<le> start mod 32" if "k < 32" for k
  proof (cases "start mod 32 = 31")
    case True then show ?thesis using that by (simp add: e_def)
  next
    case False
    then have "start mod 32 + 1 < 32" using m by linarith
    then show ?thesis using False bit_low_mask [of "start mod 32 + 1" k] unfolding e_def if_not_P [OF False]
      by (simp only: less_Suc_eq_le Suc_eq_plus1 [symmetric])
  qed
  have "is_greatest (\<lambda>i. i < start div 32 * 32 + start mod 32 + 1 \<and> page_bitmap_is_free s i) (high_scan s e (start div 32))"
    by (rule high_scan_greatest [OF m e])
  then have 1: "is_greatest (\<lambda>i. i < start + 1 \<and> page_bitmap_is_free s i) (high_scan s e (start div 32))" by simp
  have 2: "page_find_free_high s = high_scan s e (start div 32)"
    using False unfolding page_find_free_high_def Let_def start_def e_def by simp
  have 3: "(if pg_limit s = 0 then 0 else min (pg_high s + 1) (pg_limit s)) = start + 1"
    using False by (auto simp: start_def min_def)
  show ?thesis unfolding 2 3 by (rule is_greatest_unique [OF 1 find_rev_greatest])
qed

text \<open>The downward search, used for user pages and page tables, returns exactly the last free frame at or
  below the hint (or below the limit when the hint lies outside it), or nothing when there is none.\<close>

theorem page_find_free_high_last:
  "page_find_free_high s =
     find (page_bitmap_is_free s) (rev [0..<(if pg_limit s = 0 then 0 else min (pg_high s + 1) (pg_limit s))])"
  by (rule high_find)

section \<open>The search for a run\<close>

text \<open>\<open>free_run s cnt i\<close>: the \<open>cnt\<close> frames from \<open>i\<close> on are free.\<close>

definition free_run :: "mm \<Rightarrow> nat \<Rightarrow> nat \<Rightarrow> bool" where
  "free_run s cnt i \<longleftrightarrow> (\<forall>j \<in> {i..<i + cnt}. page_bitmap_is_free s j)"

text \<open>
  What the scan knows at \<open>idx\<close>: the open run \<open>[head, idx)\<close> is free and shorter than wanted, and no
  wanted run starts before it.
\<close>

definition scan_inv :: "mm \<Rightarrow> nat \<Rightarrow> nat \<Rightarrow> nat \<Rightarrow> nat \<Rightarrow> nat \<Rightarrow> bool" where
  "scan_inv s cnt start idx run head \<longleftrightarrow>
     start \<le> head \<and> head + run = idx \<and> run < cnt \<and> (\<forall>j \<in> {head..<idx}. page_bitmap_is_free s j)
     \<and> (\<forall>r. start \<le> r \<and> r < head \<longrightarrow> \<not> free_run s cnt r)"

abbreviation scan_head :: "nat \<Rightarrow> nat \<Rightarrow> nat \<Rightarrow> nat" where
  "scan_head idx run rs \<equiv> (if run = 0 then idx else rs)"

lemma scan_inv_used:
  assumes "scan_inv s cnt start idx run head" and "\<forall>j \<in> {idx..<next}. \<not> page_bitmap_is_free s j" and "idx < next"
  shows "scan_inv s cnt start next 0 next"
proof -
  have "\<not> free_run s cnt r" if r: "start \<le> r" "r < next" for r
  proof (cases "r < head")
    case True then show ?thesis using assms(1) r by (simp add: scan_inv_def)
  next
    case False
    define j where "j = max r idx"
    have "j \<in> {r..<r + cnt}" "j \<in> {idx..<next}" using False assms(1,3) r by (auto simp: j_def scan_inv_def)
    then show ?thesis using assms(2) unfolding free_run_def by blast
  qed
  then show ?thesis using assms by (auto simp: scan_inv_def)
qed

lemma run_bits_spec:
  assumes "bits = pg_bitmap s (idx div 32)" "b < 32 \<longrightarrow> idx mod 32 = b \<and> idx div 32 = word"
    "bits = pg_bitmap s word" "scan_inv s cnt start idx run (scan_head idx run rs)" "idx \<le> limit"
  shows "case run_bits bits cnt limit b idx run rs of
      Inr r \<Rightarrow> start \<le> r \<and> r + cnt \<le> limit \<and> free_run s cnt r \<and> (\<forall>q. start \<le> q \<and> q < r \<longrightarrow> \<not> free_run s cnt q)
    | Inl (idx', run', rs') \<Rightarrow> scan_inv s cnt start idx' run' (scan_head idx' run' rs') \<and> idx' \<le> limit"
  using assms(2-)
proof (induction bits cnt limit b idx run rs rule: run_bits.induct)
  case (1 bits cnt limit b idx run rs)
  show ?case
  proof (cases "b < 32 \<and> idx < limit")
    case False
    show ?thesis using "1.prems" unfolding run_bits.simps [of bits cnt limit b idx run rs] if_not_P [OF False] by simp
  next
    case True
    have at: "bit bits b = page_bitmap_is_free s idx" using "1.prems" True by (simp add: is_free_bit)
    have nxt: "b + 1 < 32 \<longrightarrow> (idx + 1) mod 32 = b + 1 \<and> (idx + 1) div 32 = word"
    proof
      assume b: "b + 1 < 32"
      have "idx = word * 32 + b" using "1.prems"(1) True by (metis div_mult_mod_eq)
      then show "(idx + 1) mod 32 = b + 1 \<and> (idx + 1) div 32 = word" using b by simp
    qed
    note inv = "1.prems"(3)
    show ?thesis
    proof (cases "bit bits b")
      case bitF: False
      have i: "scan_inv s cnt start (idx + 1) 0 (scan_head (idx + 1) 0 rs)"
        using scan_inv_used [OF inv, of "idx + 1"] bitF at by simp
      show ?thesis unfolding run_bits.simps [of bits cnt limit b idx run rs] if_P [OF True] if_not_P [OF bitF]
        using "1.IH"(2) [OF True bitF nxt "1.prems"(2) i] True by simp
    next
      case bitT: True
      define h where "h = scan_head idx run rs"
      have h: "start \<le> h" "h + run = idx" "\<forall>j \<in> {h..<idx}. page_bitmap_is_free s j"
        "\<forall>r. start \<le> r \<and> r < h \<longrightarrow> \<not> free_run s cnt r" "run < cnt" using inv by (auto simp: scan_inv_def h_def)
      have f: "\<forall>j \<in> {h..<idx + 1}. page_bitmap_is_free s j" using h(3) bitT at by (auto simp: less_Suc_eq)
      show ?thesis
      proof (cases "run + 1 = cnt")
        case True
        then have "run_bits bits cnt limit b idx run rs = Inr h"
          unfolding run_bits.simps [of bits cnt limit b idx run rs] if_P [OF \<open>b < 32 \<and> idx < limit\<close>] if_P [OF bitT] Let_def
          by (simp add: h_def)
        moreover have "free_run s cnt h" using f h(2) True by (auto simp: free_run_def)
        ultimately show ?thesis using h True \<open>b < 32 \<and> idx < limit\<close> by simp
      next
        case False
        have i: "scan_inv s cnt start (idx + 1) (run + 1) (scan_head (idx + 1) (run + 1) h)"
          using h f False by (auto simp: scan_inv_def)
        have eq: "run_bits bits cnt limit b idx run rs = run_bits bits cnt limit (b + 1) (idx + 1) (run + 1) h"
          unfolding run_bits.simps [of bits cnt limit b idx run rs] if_P [OF True] if_P [OF bitT] Let_def if_not_P [OF False]
          by (simp only: h_def)
        show ?thesis unfolding eq
          using "1.IH"(1) [OF True bitT h_def refl False nxt "1.prems"(2) i] True by simp
      qed
    qed
  qed
qed

lemma run_scan_spec:
  assumes "scan_inv s cnt start idx run (scan_head idx run rs)"
  shows "is_least (\<lambda>r. start \<le> r \<and> r + cnt \<le> limit \<and> free_run s cnt r) (run_scan s cnt limit idx run rs)"
  using assms
proof (induction s cnt limit idx run rs rule: run_scan.induct)
  case (1 s cnt limit idx run rs)
  define word where "word = idx div 32"
  show ?case
  proof (cases "idx < limit")
    case False
    have "\<not> (start \<le> r \<and> r + cnt \<le> limit \<and> free_run s cnt r)" for r
    proof
      assume r: "start \<le> r \<and> r + cnt \<le> limit \<and> free_run s cnt r"
      then have "scan_head idx run rs \<le> r" using "1.prems" unfolding scan_inv_def by (meson not_le)
      then show False using "1.prems" r False unfolding scan_inv_def by linarith
    qed
    then show ?thesis unfolding run_scan.simps [of s cnt limit idx run rs] if_not_P [OF False] is_least_def by simp
  next
    case True
    show ?thesis
    proof (cases "pg_bitmap s (idx div 32) = 0")
      case zero: True
      let ?n = "(idx div 32 + 1) * 32"
      have lt: "idx < ?n" by (simp add: mult.commute dividend_less_times_div)
      have used: "\<not> page_bitmap_is_free s j" if "j \<in> {idx..<?n}" for j
      proof -
        have "idx div 32 \<le> j div 32" using that by (simp add: div_le_mono)
        moreover have "j div 32 < idx div 32 + 1" using that by (simp add: div_less_iff_less_mult)
        ultimately have "j div 32 = idx div 32" by simp
        then show ?thesis using zero by (simp add: is_free_bit)
      qed
      have "scan_inv s cnt start ?n 0 (scan_head ?n 0 rs)" using scan_inv_used [OF "1.prems" _ lt] used by simp
      then show ?thesis using "1.IH"(1) [OF True zero] unfolding run_scan.simps [of s cnt limit idx run rs]
          if_P [OF True] if_P [OF zero] by blast
    next
      case nz: False
      note spec = run_bits_spec [OF refl _ refl "1.prems" less_imp_le [OF True], of "idx mod 32", simplified]
      show ?thesis
      proof (cases "run_bits (pg_bitmap s (idx div 32)) cnt limit (idx mod 32) idx run rs")
        case (Inr r)
        then have eq: "run_scan s cnt limit idx run rs = Some r"
          unfolding run_scan.simps [of s cnt limit idx run rs] using True nz by simp
        show ?thesis unfolding eq is_least_def using spec Inr by auto
      next
        case (Inl st)
        obtain i' r' h' where st: "st = (i', r', h')" by (cases st)
        have eq: "run_scan s cnt limit idx run rs = run_scan s cnt limit i' r' h'"
          unfolding run_scan.simps [of s cnt limit idx run rs] using True nz Inl st by simp
        show ?thesis unfolding eq using "1.IH"(2) [OF True nz Inl st [symmetric] refl] spec Inl st by simp
      qed
    qed
  qed
qed

lemma run_from_least:
  "0 < cnt \<Longrightarrow> is_least (\<lambda>r. start \<le> r \<and> r + cnt \<le> limit \<and> free_run s cnt r) (page_find_free_run_from start cnt limit s)"
  unfolding page_find_free_run_from_def by (rule run_scan_spec) (auto simp: scan_inv_def)

text \<open>The search for contiguous frames is exact.  For a positive number of frames, the scan that skips a
  full word when its bitmap is 0 and carries an open run across words returns the lowest \<open>r\<close> such that
  the \<open>cnt\<close> frames from \<open>r\<close> on are all free and lie in \<open>[start, limit)\<close>, and nothing exactly when there
  is no such \<open>r\<close>; it always returns.\<close>

theorem page_find_free_run_from_least:
  assumes "0 < cnt"
  shows "case page_find_free_run_from start cnt limit s of
      Some r \<Rightarrow> start \<le> r \<and> r + cnt \<le> limit \<and> (\<forall>j \<in> {r..<r + cnt}. page_bitmap_is_free s j)
                \<and> (\<forall>q. start \<le> q \<and> q < r \<longrightarrow> (\<exists>j \<in> {q..<q + cnt}. \<not> page_bitmap_is_free s j))
    | None \<Rightarrow> (\<forall>r. start \<le> r \<and> r + cnt \<le> limit \<longrightarrow> (\<exists>j \<in> {r..<r + cnt}. \<not> page_bitmap_is_free s j))"
proof -
  note least = run_from_least [OF assms, of start limit s]
  show ?thesis
  proof (cases "page_find_free_run_from start cnt limit s")
    case None then show ?thesis using least by (auto simp: is_least_def free_run_def)
  next
    case (Some r)
    have ok: "start \<le> r" "r + cnt \<le> limit" "free_run s cnt r" using least Some by (auto simp: is_least_def)
    have "\<not> free_run s cnt q" if "start \<le> q" "q < r" for q
      using least Some that ok(2) by (auto simp: is_least_def)
    then show ?thesis using Some ok by (auto simp: free_run_def)
  qed
qed

definition mm_example :: mm where
  "mm_example = \<lparr>pg_info = (\<lambda>i. if i \<in> {3, 4, 9, 10, 11} then \<lparr>pi_task = 0, pi_count = 0\<rparr> else \<lparr>pi_task = 0, pi_count = 1\<rparr>),
     pg_bitmap = (\<lambda>w. if w = 0 then 0xE18 else 0), pg_limit = 12, pg_low = 3, pg_high = 11, pg_run = 4, pg_zero = 0,
     pg_mem = (\<lambda>_. 0), pg_kasan = kasan_example\<rparr>"

theorem page_find_free_run_from_least_witness:
  "0 < (3::nat) \<and> page_find_free_run_from 1 3 64 mm_example = Some 9"
proof -
  have free: "page_bitmap_is_free mm_example j \<longleftrightarrow> j \<in> {3, 4, 9, 10, 11}" if "j < 12" for j
  proof -
    have "j = 0 \<or> j = 1 \<or> j = 2 \<or> j = 3 \<or> j = 4 \<or> j = 5 \<or> j = 6 \<or> j = 7 \<or> j = 8 \<or> j = 9 \<or> j = 10 \<or> j = 11"
      using that by presburger
    then show ?thesis by (elim disjE) (simp_all add: is_free_bit mm_example_def)
  qed
  note sp = page_find_free_run_from_least [of 3 1 64 mm_example]
  show ?thesis
  proof (cases "page_find_free_run_from 1 3 64 mm_example")
    case None
    then have all: "\<forall>r. 1 \<le> r \<and> r + 3 \<le> 64 \<longrightarrow> (\<exists>j \<in> {r..<r + 3}. \<not> page_bitmap_is_free mm_example j)"
      using sp by (simp only: option.case) simp
    have "\<exists>j \<in> {9..<9 + 3}. \<not> page_bitmap_is_free mm_example j" by (rule all [rule_format]) simp
    then show ?thesis using free by auto
  next
    case (Some r)
    have fr: "\<forall>j \<in> {r..<r + 3}. page_bitmap_is_free mm_example j"
      and low: "\<forall>q. 1 \<le> q \<and> q < r \<longrightarrow> (\<exists>j \<in> {q..<q + 3}. \<not> page_bitmap_is_free mm_example j)"
      using sp Some by simp_all
    have "\<forall>j \<in> {9..<9 + 3}. page_bitmap_is_free mm_example j" using free by auto
    then have "\<not> (\<exists>j \<in> {9..<9 + 3}. \<not> page_bitmap_is_free mm_example j)" by blast
    then have "\<not> (1 \<le> (9::nat) \<and> 9 < r)" using low [rule_format, of 9] by blast
    then have le: "r \<le> 9" by linarith
    have "page_bitmap_is_free mm_example r" "page_bitmap_is_free mm_example (r + 1)" "page_bitmap_is_free mm_example (r + 2)"
      using fr by simp_all
    then show ?thesis using free [of r] free [of "r + 1"] free [of "r + 2"] le Some by auto
  qed
qed

end
