(* ===== verification/PageInv.thy ===== *)
theory PageInv
  imports PageAlloc
begin

text \<open>
  The invariant of the page allocator (\<^verbatim>\<open>kernel/arch/x86/i386/page.c\<close>): the bitmap shows exactly the
  frames whose reference count is 0, and only a frame with one reference has an owner.  Every operation
  keeps it, and under it no allocation panics.
\<close>

section \<open>The invariant\<close>

definition hints_ok :: "mm \<Rightarrow> bool" where
  "hints_ok s \<longleftrightarrow> pg_high s < PAGE_TOTAL_COUNT \<and> pg_low s \<le> PAGE_TOTAL_COUNT \<and> pg_run s \<le> PAGE_TOTAL_COUNT \<and> pg_limit s \<le> PAGE_TOTAL_COUNT"

definition frame_ok :: "bool \<Rightarrow> page_info \<Rightarrow> bool" where
  "frame_ok free i \<longleftrightarrow> free = (pi_count i = 0) \<and> (pi_count i = 0 \<longrightarrow> pi_task i = 0) \<and> (pi_count i > 1 \<longrightarrow> pi_task i = 0)"

definition zero_ok :: "mm \<Rightarrow> bool" where
  "zero_ok s \<longleftrightarrow> (pg_zero s \<noteq> 0 \<longrightarrow> pcount s (IDX (pg_zero s)) \<noteq> 0)"

definition alloc_wf :: "mm \<Rightarrow> bool" where
  "alloc_wf s \<longleftrightarrow> hints_ok s \<and> zero_ok s
     \<and> (\<forall>i < PAGE_TOTAL_COUNT. frame_ok (page_bitmap_is_free s i) (pg_info s i))"

text \<open>The fields the reference counts never touch.\<close>

definition same_rest :: "mm \<Rightarrow> mm \<Rightarrow> bool" where
  "same_rest s s' \<longleftrightarrow> pg_limit s' = pg_limit s \<and> pg_zero s' = pg_zero s \<and> pg_mem s' = pg_mem s \<and> pg_kasan s' = pg_kasan s"

lemma same_rest_refl [simp, intro]: "same_rest s s" by (simp add: same_rest_def)
lemma same_rest_trans [trans]: "same_rest s t \<Longrightarrow> same_rest t u \<Longrightarrow> same_rest s u" by (simp add: same_rest_def)

lemma is_free_cong: "pg_bitmap s = pg_bitmap t \<Longrightarrow> page_bitmap_is_free s = page_bitmap_is_free t"
  by (simp add: fun_eq_iff is_free_bit)

lemma note_fields [simp]:
  "pg_info (page_note_free_idx i s) = pg_info s" "pg_bitmap (page_note_free_idx i s) = pg_bitmap s"
  "pg_info (page_note_alloc_idx i s) = pg_info s" "pg_bitmap (page_note_alloc_idx i s) = pg_bitmap s"
  "page_bitmap_is_free (page_note_free_idx i s) = page_bitmap_is_free s"
  "page_bitmap_is_free (page_note_alloc_idx i s) = page_bitmap_is_free s"
  by (simp_all add: page_note_free_idx_def page_note_alloc_idx_def Let_def fun_eq_iff is_free_bit)

lemma set_info_fields [simp]:
  "pg_info (set_info i t c s) = (pg_info s)(i := \<lparr>pi_task = t, pi_count = c\<rparr>)"
  "page_bitmap_is_free (set_info i t c s) = page_bitmap_is_free s"
  "pg_limit (set_info i t c s) = pg_limit s" "pg_zero (set_info i t c s) = pg_zero s"
  "pg_low (set_info i t c s) = pg_low s" "pg_run (set_info i t c s) = pg_run s" "pg_high (set_info i t c s) = pg_high s"
  "pg_mem (set_info i t c s) = pg_mem s" "pg_kasan (set_info i t c s) = pg_kasan s"
  by (simp_all add: set_info_def fun_eq_iff is_free_bit)

lemma mark_fields [simp]:
  "pg_info (page_bitmap_mark_free i s) = pg_info s" "pg_info (page_bitmap_mark_used i s) = pg_info s"
  by (simp_all add: page_bitmap_mark_free_def page_bitmap_mark_used_def)

lemma rest_steps [simp]:
  "same_rest s (page_note_free_idx i s)" "same_rest s (page_note_alloc_idx i s)"
  "same_rest s (page_bitmap_mark_free i s)" "same_rest s (page_bitmap_mark_used i s)" "same_rest s (set_info i t c s)"
  by (simp_all add: same_rest_def page_note_free_idx_def page_note_alloc_idx_def page_bitmap_mark_free_def
      page_bitmap_mark_used_def set_info_def Let_def)

lemma hints_steps:
  "hints_ok s \<Longrightarrow> hints_ok (set_info i t c s)"
  "hints_ok s \<Longrightarrow> hints_ok (page_bitmap_mark_free i s)" "hints_ok s \<Longrightarrow> hints_ok (page_bitmap_mark_used i s)"
  "hints_ok s \<Longrightarrow> i < PAGE_TOTAL_COUNT \<Longrightarrow> hints_ok (page_note_free_idx i s)"
  "hints_ok s \<Longrightarrow> hints_ok (page_note_alloc_idx i s)"
  by (auto simp: hints_ok_def set_info_def page_bitmap_mark_free_def page_bitmap_mark_used_def page_note_free_idx_def
      page_note_alloc_idx_def Let_def)

section \<open>Reference counts\<close>

abbreviation is_zero_page :: "mm \<Rightarrow> nat \<Rightarrow> bool" where
  "is_zero_page s i \<equiv> pg_zero s \<noteq> 0 \<and> i = IDX (pg_zero s)"

text \<open>What a reference-count operation did to frame \<open>idx\<close>, whose new record is \<open>i\<close>.\<close>

definition frame_step :: "nat \<Rightarrow> page_info \<Rightarrow> mm \<Rightarrow> mm \<Rightarrow> bool" where
  "frame_step idx i s s' \<longleftrightarrow> idx < PAGE_TOTAL_COUNT \<and> same_rest s s' \<and> pg_info s' = (pg_info s)(idx := i)
     \<and> (\<forall>j. j \<noteq> idx \<longrightarrow> page_bitmap_is_free s' j = page_bitmap_is_free s j) \<and> (hints_ok s \<longrightarrow> hints_ok s')
     \<and> (alloc_wf s \<longrightarrow> page_bitmap_is_free s' idx = (pi_count i = 0))"

lemma wf_frame: "alloc_wf s \<Longrightarrow> i < PAGE_TOTAL_COUNT \<Longrightarrow> frame_ok (page_bitmap_is_free s i) (pg_info s i)"
  by (simp add: alloc_wf_def)

lemma wf_free: "alloc_wf s \<Longrightarrow> i < PAGE_TOTAL_COUNT \<Longrightarrow> page_bitmap_is_free s i = (pcount s i = 0)"
  by (simp add: alloc_wf_def frame_ok_def)

lemma frame_step_wf:
  assumes "frame_step idx i s s'" "alloc_wf s" "frame_ok (pi_count i = 0) i" "is_zero_page s idx \<longrightarrow> pi_count i \<noteq> 0"
  shows "alloc_wf s'"
  using assms unfolding frame_step_def alloc_wf_def zero_ok_def same_rest_def by auto

lemma ref_inc_step:
  assumes "page_ref_inc_idx idx s = Some s'" "\<not> is_zero_page s idx"
  shows "frame_step idx \<lparr>pi_task = 0, pi_count = pcount s idx + 1\<rparr> s s' \<and> pcount s idx \<noteq> - 1"
proof -
  have a: "idx < PAGE_TOTAL_COUNT" "pcount s idx \<noteq> - 1" using assms by (auto simp: page_ref_inc_idx_def split: if_splits)
  have n: "pcount s idx + 1 \<noteq> 0" using a(2) by (simp add: add_eq_0_iff2)
  let ?t = "set_info idx 0 (pcount s idx) s"
  let ?u = "if pcount s idx = 0 then page_note_alloc_idx idx (page_bitmap_mark_used idx ?t) else ?t"
  have s': "s' = set_info idx 0 (pcount s idx + 1) ?u"
    using assms a unfolding page_ref_inc_idx_def Let_def by auto
  have r: "same_rest s s'"
    unfolding s' by (cases "pcount s idx = 0") (simp_all add: same_rest_def page_note_alloc_idx_def page_bitmap_mark_used_def Let_def)
  have h: "hints_ok s \<longrightarrow> hints_ok s'" unfolding s' by (simp add: hints_steps)
  show ?thesis unfolding frame_step_def using a r h n by (auto simp: s' wf_free)
qed

lemma ref_dec_step:
  assumes "page_ref_dec_idx idx s = Some s'" "\<not> is_zero_page s idx"
  shows "frame_step idx (if pcount s idx = 1 then \<lparr>pi_task = 0, pi_count = 0\<rparr>
                         else \<lparr>pi_task = ptask s idx, pi_count = pcount s idx - 1\<rparr>) s s'
    \<and> pcount s idx \<noteq> 0 \<and> (pcount s idx > 1 \<longrightarrow> ptask s idx = 0)"
proof -
  have a: "idx < PAGE_TOTAL_COUNT" "pcount s idx \<noteq> 0" "pcount s idx > 1 \<longrightarrow> ptask s idx = 0"
    using assms by (auto simp: page_ref_dec_idx_def split: if_splits)
  show ?thesis
  proof (cases "pcount s idx = 1")
    case True
    then have s': "s' = page_note_free_idx idx (page_bitmap_mark_free idx (set_info idx 0 0 s))"
      using assms a by (auto simp: page_ref_dec_idx_def split: if_splits)
    have r: "same_rest s s'"
      unfolding s' by (simp add: same_rest_def page_note_free_idx_def page_bitmap_mark_free_def Let_def)
    have h: "hints_ok s \<longrightarrow> hints_ok s'" unfolding s' using a(1) by (simp add: hints_steps)
    show ?thesis unfolding frame_step_def using a r h True by (auto simp: s')
  next
    case False
    then have s': "s' = set_info idx (ptask s idx) (pcount s idx - 1) s"
      using assms a by (auto simp: page_ref_dec_idx_def split: if_splits)
    show ?thesis unfolding frame_step_def using a False by (auto simp: s' hints_steps wf_free)
  qed
qed

lemma gt1_iff: "(n :: u32) > 1 \<longleftrightarrow> n \<noteq> 0 \<and> n \<noteq> 1"
  by (auto simp: word_less_nat_alt word_unat_eq_iff)

lemma ref_inc_wf: "page_ref_inc_idx idx s = Some s' \<Longrightarrow> alloc_wf s \<Longrightarrow> alloc_wf s'"
proof (cases "is_zero_page s idx")
  case False
  assume a: "page_ref_inc_idx idx s = Some s'" "alloc_wf s"
  note st = ref_inc_step [OF a(1) False]
  have "pcount s idx + 1 \<noteq> 0" using st by (simp add: add_eq_0_iff2)
  then show ?thesis by (intro frame_step_wf [OF conjunct1 [OF st] a(2)]) (use False in \<open>auto simp: frame_ok_def\<close>)
qed (auto simp: page_ref_inc_idx_def)

lemma ref_dec_wf: "page_ref_dec_idx idx s = Some s' \<Longrightarrow> alloc_wf s \<Longrightarrow> alloc_wf s'"
proof (cases "is_zero_page s idx")
  case False
  assume a: "page_ref_dec_idx idx s = Some s'" "alloc_wf s"
  note st = ref_dec_step [OF a(1) False]
  show ?thesis
    by (rule frame_step_wf [OF conjunct1 [OF st] a(2)]) (use st False in \<open>auto simp: frame_ok_def gt1_iff\<close>)
qed (auto simp: page_ref_dec_idx_def)

lemma claim_step:
  assumes "page_claim_idx idx task s = Some s'" "\<not> is_zero_page s idx"
  shows "frame_step idx \<lparr>pi_task = task, pi_count = 1\<rparr> s s' \<and> pcount s idx = 0"
proof -
  obtain t where t: "page_ref_inc_idx idx s = Some t" "pcount t idx = 1" "s' = set_info idx task (pcount t idx) t"
    using assms(1) by (auto simp: page_claim_idx_def bind_eq_Some_conv split: if_splits)
  note st = ref_inc_step [OF t(1) assms(2)]
  have 0: "pcount s idx = 0" using st t(2) by (simp add: frame_step_def)
  have "same_rest s s'" using st unfolding t(3) by (simp add: frame_step_def same_rest_def)
  moreover have "hints_ok s \<longrightarrow> hints_ok s'" using st by (auto simp: frame_step_def t(3) hints_steps)
  moreover have "alloc_wf s \<longrightarrow> page_bitmap_is_free s' idx = False" using st 0 by (auto simp: frame_step_def t(3))
  ultimately show ?thesis using st 0 t(2) by (auto simp: frame_step_def t(3))
qed

lemma claim_zero:
  "page_claim_idx idx task s = Some s' \<Longrightarrow> is_zero_page s idx \<Longrightarrow> s' = set_info idx task 1 s \<and> pcount s idx = 1"
  by (auto simp: page_claim_idx_def page_ref_inc_idx_def split: if_splits)

lemma set_owner_wf:
  "alloc_wf s \<Longrightarrow> pcount s idx = 1 \<Longrightarrow> alloc_wf (set_info idx task 1 s)"
  by (auto simp: alloc_wf_def hints_ok_def zero_ok_def frame_ok_def)

lemma claim_wf: "page_claim_idx idx task s = Some s' \<Longrightarrow> alloc_wf s \<Longrightarrow> alloc_wf s'"
proof (cases "is_zero_page s idx")
  case True
  assume "page_claim_idx idx task s = Some s'" "alloc_wf s"
  then show ?thesis using claim_zero [OF _ True] set_owner_wf by blast
next
  case False
  assume a: "page_claim_idx idx task s = Some s'" "alloc_wf s"
  show ?thesis
    by (rule frame_step_wf [OF conjunct1 [OF claim_step [OF a(1) False]] a(2)]) (simp_all add: frame_ok_def)
qed

lemma for_pages_inv:
  assumes "for_pages f is s = Some s'" "I s" and "\<And>i s s'. i \<in> set is \<Longrightarrow> f i s = Some s' \<Longrightarrow> I s \<Longrightarrow> I s'"
  shows "I s'"
  using assms by (induction "is" arbitrary: s) (auto simp: bind_eq_Some_conv)

lemma claim_range_wf: "page_claim_range a n task s = Some s' \<Longrightarrow> alloc_wf s \<Longrightarrow> alloc_wf s'"
  unfolding page_claim_range_def by (erule for_pages_inv [of _ _ _ _ alloc_wf]) (auto intro: claim_wf)

text \<open>Changing the hints, the memory or the sanitizer.\<close>

lemma wf_fields [simp]:
  "alloc_wf (s\<lparr>pg_kasan := k\<rparr>) = alloc_wf s" "alloc_wf (mem_fill a n w s) = alloc_wf s"
  "alloc_wf (s\<lparr>pg_mem := m\<rparr>) = alloc_wf s"
  by (simp_all add: alloc_wf_def hints_ok_def zero_ok_def mem_fill_def is_free_bit)

lemma wf_hints:
  "alloc_wf s \<Longrightarrow> h \<le> PAGE_TOTAL_COUNT \<Longrightarrow> alloc_wf (s\<lparr>pg_low := h\<rparr>)"
  "alloc_wf s \<Longrightarrow> h \<le> PAGE_TOTAL_COUNT \<Longrightarrow> alloc_wf (s\<lparr>pg_run := h\<rparr>)"
  "alloc_wf s \<Longrightarrow> h < PAGE_TOTAL_COUNT \<Longrightarrow> alloc_wf (s\<lparr>pg_high := h\<rparr>)"
  "alloc_wf s \<Longrightarrow> h \<le> PAGE_TOTAL_COUNT \<Longrightarrow> alloc_wf (s\<lparr>pg_limit := h\<rparr>)"
  by (simp_all add: alloc_wf_def hints_ok_def zero_ok_def is_free_bit)

lemma next_hint:
  "alloc_wf s \<Longrightarrow> (if k < pg_limit s then k else 0) \<le> PAGE_TOTAL_COUNT" "alloc_wf s \<Longrightarrow> pg_low s \<le> PAGE_TOTAL_COUNT"
  by (auto simp: alloc_wf_def hints_ok_def)

lemma alloc_single_wf:
  assumes "page_alloc_single task s = Some (s', p)" "alloc_wf s" shows "alloc_wf s'"
proof (cases "page_find_free_low s")
  case None then show ?thesis using assms by (simp add: page_alloc_single_def)
next
  case (Some idx)
  then obtain t where t: "page_claim_idx idx task s = Some t"
    using assms(1) by (auto simp: page_alloc_single_def bind_eq_Some_conv)
  define u where "u = t\<lparr>pg_low := (if idx + 1 < pg_limit t then idx + 1 else 0)\<rparr>"
  have w: "alloc_wf t" by (rule claim_wf [OF t assms(2)])
  then have u: "alloc_wf u" unfolding u_def by (intro wf_hints next_hint)
  then have "alloc_wf (u\<lparr>pg_run := pg_low u\<rparr>)" by (intro wf_hints next_hint)
  moreover have "s' = (if pg_run u = idx then u\<lparr>pg_run := pg_low u\<rparr> else u)
      \<lparr>pg_kasan := kasan_page_alloc (PAGE idx) PAGE_SIZE_BYTES PAGE_SIZE_BYTES
        (pg_kasan (if pg_run u = idx then u\<lparr>pg_run := pg_low u\<rparr> else u))\<rparr>"
    using assms(1) Some t by (auto simp: page_alloc_single_def u_def Let_def)
  ultimately show ?thesis using u by (cases "pg_run u = idx") simp_all
qed

lemma wf_high: "alloc_wf s \<Longrightarrow> pg_high s < PAGE_TOTAL_COUNT"
  by (simp add: alloc_wf_def hints_ok_def)

lemma find_high_bound:
  assumes "page_find_free_high s = Some idx" "alloc_wf s" shows "idx < PAGE_TOTAL_COUNT"
proof -
  have "idx \<in> set (rev [0..<(if pg_limit s = 0 then 0 else min (pg_high s + 1) (pg_limit s))])"
    using assms(1) unfolding high_find find_Some_iff by (metis nth_mem)
  then show ?thesis using wf_high [OF assms(2)] by (auto split: if_splits)
qed

lemma alloc_single_high_wf:
  assumes "page_alloc_single_high s = Some (s', p)" "alloc_wf s" shows "alloc_wf s'"
proof (cases "page_find_free_high s")
  case None then show ?thesis using assms by (simp add: page_alloc_single_high_def)
next
  case (Some idx)
  then obtain t where t: "page_claim_idx idx 0 s = Some t"
    using assms(1) by (auto simp: page_alloc_single_high_def bind_eq_Some_conv)
  have "idx < PAGE_TOTAL_COUNT" by (rule find_high_bound [OF Some assms(2)])
  then have "alloc_wf (t\<lparr>pg_high := (if idx > 0 then idx - 1 else 0)\<rparr>)"
    by (intro wf_hints claim_wf [OF t assms(2)]) auto
  then show ?thesis using assms(1) Some t by (auto simp: page_alloc_single_high_def Let_def)
qed

lemma limit_le: "k < pg_limit s \<Longrightarrow> alloc_wf s \<Longrightarrow> k \<le> PAGE_TOTAL_COUNT"
  by (auto simp: alloc_wf_def hints_ok_def)

lemma page_malloc_wf: "page_malloc len s = Some (s', p) \<Longrightarrow> alloc_wf s \<Longrightarrow> alloc_wf s'"
  by (auto simp: page_malloc_def Let_def bind_eq_Some_conv split: option.splits if_splits
      dest!: claim_range_wf intro!: wf_hints intro: limit_le)

lemma free_one_wf: "page_free_one_internal p k s = Some s' \<Longrightarrow> alloc_wf s \<Longrightarrow> alloc_wf s'"
  by (auto simp: page_free_one_internal_def Let_def bind_eq_Some_conv split: if_splits dest!: ref_dec_wf)

lemma page_free_wf: "page_free p len s = Some s' \<Longrightarrow> alloc_wf s \<Longrightarrow> alloc_wf s'"
  by (auto simp: page_free_def Let_def split: if_splits elim!: for_pages_inv [of _ _ _ _ alloc_wf] intro: free_one_wf)

lemma gc_page_wf: "gc_page tid i s = Some s' \<Longrightarrow> alloc_wf s \<Longrightarrow> alloc_wf s'"
  by (auto simp: gc_page_def bind_eq_Some_conv split: if_splits dest: ref_dec_wf)

lemma gc_wf: "gc tid s = Some s' \<Longrightarrow> alloc_wf s \<Longrightarrow> alloc_wf s'"
  unfolding gc_def by (erule for_pages_inv [of _ _ _ _ alloc_wf]) (auto intro: gc_page_wf)

lemma change_task_wf: "change_page_task_id task p len s = Some s' \<Longrightarrow> alloc_wf s \<Longrightarrow> alloc_wf s'"
  unfolding change_page_task_id_def
  by (auto simp: Let_def bind_eq_Some_conv page_refcount_idx_def gt1_iff split: if_splits
      elim!: for_pages_inv [of _ _ _ _ alloc_wf] intro: set_owner_wf)

lemma reserve_initial_wf: "page_reserve_initial a b s = Some s' \<Longrightarrow> alloc_wf s \<Longrightarrow> alloc_wf s'"
  unfolding page_reserve_initial_def
  by (erule for_pages_inv [of _ _ _ _ alloc_wf]) (auto split: if_splits intro: ref_inc_wf)

lemma reserve_range_wf: "page_reserve_physical_range a n s = Some (s', ok) \<Longrightarrow> alloc_wf s \<Longrightarrow> alloc_wf s'"
  unfolding page_reserve_physical_range_def
  by (auto simp: Let_def split: if_splits elim!: for_pages_inv [of _ _ _ _ alloc_wf] intro: ref_inc_wf)

text \<open>The zero page: it is claimed before it becomes the zero page.\<close>

lemma ensure_zero_wf:
  assumes "ensure_zero_page s = Some (s', ok)" "alloc_wf s" shows "alloc_wf s'"
proof -
  consider "s' = s" | t where "page_alloc_single_high s = Some (t, 0)" "s' = t"
    | t page where "pg_zero s = 0" "page_alloc_single_high s = Some (t, page)" "page \<noteq> 0"
      "s' = (mem_fill page PAGE_SIZE_BYTES 0 t)\<lparr>pg_zero := page\<rparr>"
    using assms(1) by (auto simp: ensure_zero_page_def bind_eq_Some_conv split: if_splits)
  then show ?thesis
  proof cases
    case (3 t page)
    obtain idx c where c: "page_find_free_high s = Some idx" "page_claim_idx idx 0 s = Some c" "page = PAGE idx"
      "pg_info t = pg_info c"
      using 3(2,3) by (auto simp: page_alloc_single_high_def Let_def bind_eq_Some_conv split: option.splits)
    have b: "idx < PAGE_TOTAL_COUNT" by (rule find_high_bound [OF c(1) assms(2)])
    have "pcount c idx = 1" using claim_step [OF c(2)] 3(1) by (simp add: frame_step_def)
    moreover have "IDX page = idx" using b by (simp add: c(3) IDX_def PAGE_def PAGE_TOTAL_COUNT_def)
    ultimately show ?thesis using alloc_single_high_wf [OF 3(2) assms(2)]
      by (simp add: 3(4) alloc_wf_def zero_ok_def hints_ok_def mem_fill_def is_free_bit c(4))
  qed (use assms(2) alloc_single_high_wf in auto)
qed

lemma pf_set_wf:
  assumes "pf_set memsize s = Some s'" "alloc_wf s" shows "alloc_wf s'"
proof -
  define limit where "limit = unat memsize div PAGE_SIZE_BYTES"
  define u where "u = (pf_clear_tables (unat memsize) s)\<lparr>pg_limit := limit\<rparr>"
  have "unat memsize < 2 ^ 32" using unsigned_less [of memsize] by simp
  then have lim: "limit < PAGE_TOTAL_COUNT" by (simp add: limit_def PAGE_TOTAL_COUNT_def less_mult_imp_div_less)
  have u: "alloc_wf u" unfolding u_def pf_clear_tables_def by (intro wf_hints) (use assms(2) lim in simp_all)
  let ?first = "if limit < PAGE_TOTAL_COUNT \<and> unat memsize < PAGE_KERNEL_BASE
    then page_reserve_initial (unat memsize) (PAGE_KERNEL_BASE - 1) u else Some u"
  obtain v w where v: "?first = Some v"
    "page_reserve_initial KASAN_SHADOW_START (KASAN_SHADOW_START + KASAN_SHADOW_SIZE - 1) v = Some w"
    and s': "s' = (if limit = 0 then w\<lparr>pg_low := 0, pg_run := 0, pg_high := 0\<rparr>
                    else if pg_high w \<ge> limit then w\<lparr>pg_high := limit - 1\<rparr> else w)"
    using assms(1) unfolding pf_set_def limit_def [symmetric] u_def [symmetric] Let_def
    unfolding bind_eq_Some_conv option.inject by blast
  have "alloc_wf v" using v(1) u by (auto split: if_splits intro: reserve_initial_wf)
  then have "alloc_wf w" by (rule reserve_initial_wf [OF v(2)])
  then show ?thesis unfolding s' using lim by (auto intro!: wf_hints)
qed

section \<open>Initialisation\<close>

lemma mark_usable_wf: "alloc_wf s \<Longrightarrow> pg_zero s = 0 \<Longrightarrow> i < PAGE_TOTAL_COUNT \<Longrightarrow> alloc_wf (mark_usable i s)"
  by (auto simp: alloc_wf_def mark_usable_def hints_steps zero_ok_def frame_ok_def)
    (auto simp: page_bitmap_mark_free_def)

lemma mark_usable_zero [simp]: "pg_zero (mark_usable i s) = pg_zero s"
  by (simp add: mark_usable_def page_bitmap_mark_free_def)

lemma init_range_wf: "alloc_wf s \<and> pg_zero s = 0 \<Longrightarrow> alloc_wf (init_range rg s) \<and> pg_zero (init_range rg s) = 0"
proof -
  assume s: "alloc_wf s \<and> pg_zero s = 0"
  have f: "alloc_wf u \<and> pg_zero u = 0 \<Longrightarrow> \<forall>i \<in> set is. i < PAGE_TOTAL_COUNT
      \<Longrightarrow> alloc_wf (fold mark_usable is u) \<and> pg_zero (fold mark_usable is u) = 0" for "is" u
    by (induction "is" arbitrary: u) (auto simp: mark_usable_wf)
  have b: "i < PAGE_TOTAL_COUNT" if "i < (if stop > 2 ^ 32 then 2 ^ 32 else stop) div PAGE_SIZE_BYTES" for i stop :: nat
  proof -
    have "(if stop > 2 ^ 32 then 2 ^ 32 else stop) div PAGE_SIZE_BYTES \<le> 2 ^ 32 div PAGE_SIZE_BYTES"
      by (rule div_le_mono) simp
    then show ?thesis using that by (simp add: PAGE_TOTAL_COUNT_def)
  qed
  have g: "alloc_wf (fold mark_usable [a..<(if stop > 2 ^ 32 then 2 ^ 32 else stop) div PAGE_SIZE_BYTES] s)
      \<and> pg_zero (fold mark_usable [a..<(if stop > 2 ^ 32 then 2 ^ 32 else stop) div PAGE_SIZE_BYTES] s) = 0" for a stop :: nat
    by (rule f [OF s], rule ballI, rule b [of _ stop]) (simp only: set_upt atLeastLessThan_iff)
  have "init_range rg s = s \<or> (\<exists>a stop. init_range rg s =
      fold mark_usable [a..<(if stop > 2 ^ 32 then 2 ^ 32 else stop) div PAGE_SIZE_BYTES] s)"
    unfolding init_range_def Let_def by (split if_split, split if_split, blast)
  then show ?thesis using s g by metis
qed

lemma init_wf: "pg_zero s = 0 \<Longrightarrow> alloc_wf (init_page_manager ranges s)"
proof -
  assume z: "pg_zero s = 0"
  have f: "alloc_wf u \<and> pg_zero u = 0 \<Longrightarrow> alloc_wf (fold init_range rs u) \<and> pg_zero (fold init_range rs u) = 0" for rs u
    by (induction rs arbitrary: u) (simp_all add: init_range_wf)
  let ?z = "s\<lparr>pg_info := (\<lambda>_. \<lparr>pi_task = 0, pi_count = 0\<rparr>), pg_bitmap := (\<lambda>_. 0), pg_limit := PAGE_TOTAL_COUNT,
               pg_low := 0, pg_high := PAGE_TOTAL_COUNT - 1, pg_run := 0\<rparr>"
  show ?thesis
  proof (cases "ranges = []")
    case True
    then have "init_page_manager ranges s = ?z\<lparr>pg_bitmap := (\<lambda>_. - 1)\<rparr>" by (simp add: init_page_manager_def Let_def)
    moreover have "PAGE_TOTAL_COUNT - Suc 0 < PAGE_TOTAL_COUNT" by (simp add: PAGE_TOTAL_COUNT_def)
    ultimately show ?thesis using z by (simp add: alloc_wf_def hints_ok_def zero_ok_def frame_ok_def is_free_bit)
  next
    case False
    let ?r = "?z\<lparr>pg_info := (\<lambda>_. \<lparr>pi_task = PAGE_RESERVED_OWNER, pi_count = 1\<rparr>)\<rparr>"
    have "PAGE_TOTAL_COUNT - Suc 0 < PAGE_TOTAL_COUNT" by (simp add: PAGE_TOTAL_COUNT_def)
    then have "alloc_wf ?r \<and> pg_zero ?r = 0" using z
      by (simp add: alloc_wf_def hints_ok_def zero_ok_def frame_ok_def is_free_bit)
    then show ?thesis using f [of ?r ranges] False by (simp add: init_page_manager_def Let_def)
  qed
qed

section \<open>Reachable states\<close>

text \<open>One operation of the allocator that does not panic.\<close>

inductive page_step :: "mm \<Rightarrow> mm \<Rightarrow> bool" where
  retain: "page_ref_inc_idx idx s = Some s' \<Longrightarrow> page_step s s'"
| release: "page_ref_dec_idx idx s = Some s' \<Longrightarrow> page_step s s'"
| single: "page_alloc_single task s = Some (s', p) \<Longrightarrow> page_step s s'"
| single_high: "page_alloc_single_high s = Some (s', p) \<Longrightarrow> page_step s s'"
| malloc: "page_malloc len s = Some (s', p) \<Longrightarrow> page_step s s'"
| free_one: "page_free_one p s = Some s' \<Longrightarrow> page_step s s'"
| free: "page_free p len s = Some s' \<Longrightarrow> page_step s s'"
| collect: "gc tid s = Some s' \<Longrightarrow> page_step s s'"
| owner: "change_page_task_id task p n s = Some s' \<Longrightarrow> page_step s s'"
| reserve_initial: "page_reserve_initial a b s = Some s' \<Longrightarrow> page_step s s'"
| reserve: "page_reserve_physical_range a n s = Some (s', ok) \<Longrightarrow> page_step s s'"
| zero_page: "ensure_zero_page s = Some (s', ok) \<Longrightarrow> page_step s s'"
| limit: "pf_set memsize s = Some s' \<Longrightarrow> page_step s s'"
| memory: "page_step s (s\<lparr>pg_mem := m\<rparr>)"

inductive page_reachable :: "mm \<Rightarrow> bool" where
  init: "pg_zero s = 0 \<Longrightarrow> page_reachable (init_page_manager ranges s)"
| step: "page_reachable s \<Longrightarrow> page_step s s' \<Longrightarrow> page_reachable s'"

lemma page_step_wf: "page_step s s' \<Longrightarrow> alloc_wf s \<Longrightarrow> alloc_wf s'"
  by (induction rule: page_step.induct)
    (auto intro: ref_inc_wf ref_dec_wf alloc_single_wf alloc_single_high_wf page_malloc_wf free_one_wf page_free_wf
      gc_wf change_task_wf reserve_initial_wf reserve_range_wf ensure_zero_wf pf_set_wf simp: page_free_one_def)

text \<open>C9: the allocator's tables never disagree.  In every state reached from \<open>init_page_manager\<close> by any
  sequence of retains, releases, allocations, frees, garbage collections, owner changes, reservations,
  the choice of the shared zero page, the setting of the memory limit and any writes to memory outside these tables, for every frame
  the bitmap says free exactly if its reference count is 0, a free frame has no owner, and a frame with more than
  one reference has no owner; the shared zero page, once there is one, is never a free frame; and the three search
  hints and the limit stay within the frames.\<close>

theorem page_tables_agree:
  assumes "page_reachable s"
  shows "(\<forall>i < PAGE_TOTAL_COUNT. page_bitmap_is_free s i = (pcount s i = 0)
      \<and> (pcount s i = 0 \<longrightarrow> ptask s i = 0) \<and> (pcount s i > 1 \<longrightarrow> ptask s i = 0))
    \<and> (pg_zero s \<noteq> 0 \<longrightarrow> pcount s (IDX (pg_zero s)) \<noteq> 0)
    \<and> pg_low s \<le> PAGE_TOTAL_COUNT \<and> pg_run s \<le> PAGE_TOTAL_COUNT \<and> pg_high s < PAGE_TOTAL_COUNT
    \<and> pg_limit s \<le> PAGE_TOTAL_COUNT"
proof -
  from assms have "alloc_wf s" by (induction rule: page_reachable.induct) (auto intro: init_wf page_step_wf)
  then show ?thesis by (auto simp: alloc_wf_def frame_ok_def hints_ok_def zero_ok_def)
qed

theorem page_tables_agree_witness:
  "page_reachable (init_page_manager [] mm_example) \<and> pcount (init_page_manager [] mm_example) 7 = 0
   \<and> page_bitmap_is_free (init_page_manager [] mm_example) 7"
proof -
  have r: "page_reachable (init_page_manager [] mm_example)" by (rule page_reachable.init) (simp add: mm_example_def)
  have c: "pcount (init_page_manager [] mm_example) 7 = 0" by (simp add: init_page_manager_def)
  show ?thesis using r c page_tables_agree [OF r] by (simp add: PAGE_TOTAL_COUNT_def)
qed

section \<open>Allocation succeeds and is exact\<close>

lemma not_zero_page: "alloc_wf s \<Longrightarrow> pcount s i = 0 \<Longrightarrow> \<not> is_zero_page s i"
  by (auto simp: alloc_wf_def zero_ok_def)

lemma claim_ok:
  assumes "alloc_wf s" "i < PAGE_TOTAL_COUNT" "pcount s i = 0"
  shows "\<exists>s'. page_claim_idx i task s = Some s' \<and> same_rest s s' \<and> pg_info s' = (pg_info s)(i := \<lparr>pi_task = task, pi_count = 1\<rparr>)"
proof -
  have z: "\<not> is_zero_page s i" by (rule not_zero_page [OF assms(1,3)])
  have z': "(pg_zero s \<noteq> 0 \<and> i = IDX (pg_zero s)) = False" using z by simp
  obtain t where t: "page_ref_inc_idx i s = Some t"
    using assms unfolding page_ref_inc_idx_def z' by (auto simp: Let_def)
  have "pcount t i = 1" using ref_inc_step [OF t z] assms(3) by (simp add: frame_step_def)
  then have c: "page_claim_idx i task s = Some (set_info i task 1 t)" using t by (simp add: page_claim_idx_def)
  then show ?thesis using claim_step [OF c z] by (simp add: frame_step_def)
qed

lemma claim_range_ok:
  assumes "alloc_wf s" "a + n \<le> PAGE_TOTAL_COUNT" "\<forall>j \<in> {a..<a + n}. pcount s j = 0"
  shows "\<exists>s'. page_claim_range a n task s = Some s' \<and> same_rest s s'
    \<and> pg_info s' = (\<lambda>i. if a \<le> i \<and> i < a + n then \<lparr>pi_task = task, pi_count = 1\<rparr> else pg_info s i)"
  using assms
proof (induction n arbitrary: a s)
  case (Suc n)
  obtain t where t: "page_claim_idx a task s = Some t" "same_rest s t"
    "pg_info t = (pg_info s)(a := \<lparr>pi_task = task, pi_count = 1\<rparr>)" using claim_ok [of s a task] Suc.prems by auto
  have w: "alloc_wf t" by (rule claim_wf [OF t(1) Suc.prems(1)])
  have fr: "\<forall>j \<in> {Suc a..<Suc a + n}. pcount t j = 0" using Suc.prems(3) t(3) by auto
  obtain u where u: "page_claim_range (Suc a) n task t = Some u" "same_rest t u"
    "pg_info u = (\<lambda>i. if Suc a \<le> i \<and> i < Suc a + n then \<lparr>pi_task = task, pi_count = 1\<rparr> else pg_info t i)"
    using Suc.IH [OF w _ fr] Suc.prems(2) by auto
  have "page_claim_range a (Suc n) task s = Some u"
  proof -
    have "[a..<a + Suc n] = a # [Suc a..<Suc a + n]" by (subst upt_conv_Cons) simp_all
    then show ?thesis using t(1) u(1) unfolding page_claim_range_def by (simp only: for_pages.simps Option.bind.simps)
  qed
  moreover have "pg_info u = (\<lambda>i. if a \<le> i \<and> i < a + Suc n then \<lparr>pi_task = task, pi_count = 1\<rparr> else pg_info s i)"
    unfolding u(3) t(3) by (auto simp: fun_eq_iff)
  ultimately show ?case using same_rest_trans [OF t(2) u(2)] by blast
qed (auto simp: page_claim_range_def fun_eq_iff)

text \<open>What the search hands out.\<close>

lemma find_run_free:
  assumes "page_find_free_run 0 n s = Some i" "0 < n" "alloc_wf s"
  shows "i + n \<le> PAGE_TOTAL_COUNT \<and> (\<forall>j \<in> {i..<i + n}. pcount s j = 0)"
proof -
  have b: "pg_limit s \<le> PAGE_TOTAL_COUNT" "pg_run s \<le> PAGE_TOTAL_COUNT" using assms(3) by (auto simp: alloc_wf_def hints_ok_def)
  obtain st lim where f: "page_find_free_run_from st n lim s = Some i" "lim \<le> PAGE_TOTAL_COUNT"
    using assms(1) b by (auto simp: page_find_free_run_def Let_def split: option.splits if_splits)
  have r: "i + n \<le> lim" "free_run s n i" using run_from_least [OF assms(2), of st lim s] f(1) by (auto simp: is_least_def)
  have "pcount s j = 0" if "j \<in> {i..<i + n}" for j
    using r that f(2) wf_free [OF assms(3), of j] by (auto simp: free_run_def)
  then show ?thesis using r f(2) by auto
qed

text \<open>C35: \<open>page_malloc\<close> never panics and never hands out a page in use.  In a state with the invariant whose
  frame 0 is taken, a request for a positive number of bytes either returns NULL and changes nothing,
  or returns the address of contiguous frames that were all free; each then has exactly one
  reference and no owner, their bytes read as zero, and every other frame, every other word of memory
  and the bitmap of the other frames are as before.\<close>

theorem page_malloc_exact:
  assumes "alloc_wf s" "pcount s 0 \<noteq> 0" "0 < len" "len < 2 ^ 31"
  shows "\<exists>s' p. page_malloc len s = Some (s', p) \<and> alloc_wf s' \<and> (p = 0 \<longrightarrow> s' = s)
     \<and> (p \<noteq> 0 \<longrightarrow> (\<exists>i n. p = i * 4096 \<and> n = (nat len + 4095) div 4096 \<and> i + n \<le> PAGE_TOTAL_COUNT
          \<and> (\<forall>j. i \<le> j \<and> j < i + n \<longrightarrow> pcount s j = 0)
          \<and> pg_info s' = (\<lambda>j. if i \<le> j \<and> j < i + n then \<lparr>pi_task = 0, pi_count = 1\<rparr> else pg_info s j)
          \<and> pg_mem s' = (\<lambda>a. if p \<le> a \<and> a < p + n * 4096 then 0 else pg_mem s a)
          \<and> (\<forall>j < PAGE_TOTAL_COUNT. page_bitmap_is_free s' j = (page_bitmap_is_free s j \<and> \<not> (i \<le> j \<and> j < i + n)))))"
proof -
  define n where "n = (nat len + PAGE_SIZE_BYTES - 1) div PAGE_SIZE_BYTES"
  have n: "0 < n" "n = (nat len + 4095) div 4096" using assms(3) by (auto simp: n_def div_greater_zero_iff)
  show ?thesis
  proof (cases "page_find_free_run 0 n s")
    case None
    then have "page_malloc len s = Some (s, 0)" using assms(3) unfolding page_malloc_def n_def [symmetric] Let_def by simp
    then show ?thesis using assms(1) by blast
  next
    case (Some i)
    have fr: "i + n \<le> PAGE_TOTAL_COUNT" "\<forall>j \<in> {i..<i + n}. pcount s j = 0"
      using find_run_free [OF Some n(1) assms(1)] by auto
    have i: "0 < i" using fr(2) assms(2) n(1) by (metis atLeastLessThan_iff gr0I le_refl trans_less_add2 add_0)
    have P: "PAGE i = i * 4096" using fr(1) n(1) by (simp add: PAGE_def PAGE_TOTAL_COUNT_def)
    obtain t where t: "page_claim_range i n 0 s = Some t" "same_rest s t"
      "pg_info t = (\<lambda>j. if i \<le> j \<and> j < i + n then \<lparr>pi_task = 0, pi_count = 1\<rparr> else pg_info s j)"
      using claim_range_ok [OF assms(1) fr, of 0] by auto
    define s' where "s' = (mem_fill (PAGE i) (n * PAGE_SIZE_BYTES) 0 (t\<lparr>pg_run := (if i + n < pg_limit t then i + n else 0)\<rparr>))
        \<lparr>pg_kasan := kasan_page_alloc (PAGE i) (n * PAGE_SIZE_BYTES) (nat len) (pg_kasan t)\<rparr>"
    have m: "page_malloc len s = Some (s', i * 4096)"
      using assms(3) Some t(1) P unfolding page_malloc_def n_def [symmetric] Let_def s'_def
      by (simp add: mem_fill_def)
    have w: "alloc_wf s'" by (rule page_malloc_wf [OF m assms(1)])
    have info: "pg_info s' = (\<lambda>j. if i \<le> j \<and> j < i + n then \<lparr>pi_task = 0, pi_count = 1\<rparr> else pg_info s j)"
      using t(3) by (simp add: s'_def mem_fill_def)
    have mem: "pg_mem s' = (\<lambda>a. if i * 4096 \<le> a \<and> a < i * 4096 + n * 4096 then 0 else pg_mem s a)"
      using t(2) P by (simp add: s'_def mem_fill_def same_rest_def cong: if_cong)
    have bits: "page_bitmap_is_free s' j = (page_bitmap_is_free s j \<and> \<not> (i \<le> j \<and> j < i + n))" if "j < PAGE_TOTAL_COUNT" for j
      unfolding wf_free [OF w that] wf_free [OF assms(1) that] info by auto
    show ?thesis
      by (rule exI [of _ s'], rule exI [of _ "i * 4096"], intro conjI impI)
        (use m w i n(2) fr info mem bits in \<open>auto simp: Ball_def\<close>)
  qed
qed

lemma mm_example_free: "j < 12 \<Longrightarrow> page_bitmap_is_free mm_example j \<longleftrightarrow> j \<in> {3, 4, 9, 10, 11}"
proof -
  assume "j < 12"
  then have "j = 0 \<or> j = 1 \<or> j = 2 \<or> j = 3 \<or> j = 4 \<or> j = 5 \<or> j = 6 \<or> j = 7 \<or> j = 8 \<or> j = 9 \<or> j = 10 \<or> j = 11"
    by presburger
  then show ?thesis by (elim disjE) (simp_all add: is_free_bit mm_example_def)
qed

lemma mm_example_wf: "alloc_wf mm_example"
proof -
  have hi: "\<not> page_bitmap_is_free mm_example i" if "12 \<le> i" for i
  proof (cases "i < 32")
    case True
    then have "i = 12 \<or> i = 13 \<or> i = 14 \<or> i = 15 \<or> i = 16 \<or> i = 17 \<or> i = 18 \<or> i = 19 \<or> i = 20 \<or> i = 21 \<or> i = 22
      \<or> i = 23 \<or> i = 24 \<or> i = 25 \<or> i = 26 \<or> i = 27 \<or> i = 28 \<or> i = 29 \<or> i = 30 \<or> i = 31" using that by presburger
    then show ?thesis by (elim disjE) (simp_all add: is_free_bit mm_example_def)
  next
    case False
    then have "i div 32 \<noteq> 0" by simp
    then show ?thesis unfolding is_free_bit by (simp add: mm_example_def)
  qed
  have "frame_ok (page_bitmap_is_free mm_example i) (pg_info mm_example i)" for i
  proof (cases "i < 12")
    case True then show ?thesis unfolding mm_example_free [OF True] by (simp add: frame_ok_def mm_example_def)
  next
    case False then show ?thesis using hi [of i] by (auto simp: frame_ok_def mm_example_def)
  qed
  then show ?thesis by (simp add: alloc_wf_def hints_ok_def zero_ok_def) (simp add: mm_example_def PAGE_TOTAL_COUNT_def)
qed

theorem page_malloc_exact_witness:
  "alloc_wf mm_example \<and> (\<exists>s' p. page_malloc 12000 mm_example = Some (s', p) \<and> alloc_wf s')"
proof -
  have "pcount mm_example 0 \<noteq> 0" by (simp add: mm_example_def)
  from page_malloc_exact [OF mm_example_wf this, of 12000] show ?thesis using mm_example_wf by auto
qed

section \<open>Freeing\<close>

lemma IDX_frame: "i < PAGE_TOTAL_COUNT \<Longrightarrow> IDX (i * 4096) = i"
  by (simp add: IDX_def PAGE_TOTAL_COUNT_def)

lemma free_frame_ok:
  assumes "alloc_wf s" "i < PAGE_TOTAL_COUNT" "pg_info s i = \<lparr>pi_task = 0, pi_count = 1\<rparr>" "\<not> is_zero_page s i"
  shows "\<exists>s'. page_free_one_internal (i * 4096) False s = Some s' \<and> alloc_wf s' \<and> pg_zero s' = pg_zero s
    \<and> pg_info s' = (pg_info s)(i := \<lparr>pi_task = 0, pi_count = 0\<rparr>)"
proof -
  have z: "(pg_zero s \<noteq> 0 \<and> i = IDX (pg_zero s)) = False" using assms(4) by simp
  obtain t where t: "page_ref_dec_idx i s = Some t"
    using assms unfolding page_ref_dec_idx_def z by simp
  have "page_free_one_internal (i * 4096) False s = Some t"
    using assms t by (simp add: page_free_one_internal_def IDX_frame page_refcount_idx_def)
  then show ?thesis using ref_dec_step [OF t assms(4)] ref_dec_wf [OF t assms(1)] assms(3)
    by (simp add: frame_step_def same_rest_def)
qed

lemma free_frames_ok:
  assumes "alloc_wf s" "i + n \<le> PAGE_TOTAL_COUNT"
    "\<forall>j. i + m \<le> j \<and> j < i + n \<longrightarrow> pg_info s j = \<lparr>pi_task = 0, pi_count = 1\<rparr> \<and> \<not> is_zero_page s j"
  shows "\<exists>s'. for_pages (\<lambda>k. page_free_one_internal (wrap32 (i * 4096 + k * 4096)) False) [m..<n] s = Some s' \<and> alloc_wf s'
    \<and> pg_info s' = (\<lambda>j. if i + m \<le> j \<and> j < i + n then \<lparr>pi_task = 0, pi_count = 0\<rparr> else pg_info s j)"
  using assms
proof (induction "n - m" arbitrary: m s)
  case 0 then show ?case by (auto simp: fun_eq_iff)
next
  case (Suc d)
  have mn: "m < n" using Suc(2) by simp
  have up: "[m..<n] = m # [Suc m..<n]" using mn by (rule upt_conv_Cons)
  have b: "i + m < 1048576" using Suc.prems(2) mn by (simp add: PAGE_TOTAL_COUNT_def)
  have w: "wrap32 (i * 4096 + m * 4096) = (i + m) * 4096"
    unfolding add_mult_distrib [symmetric] using b by (intro mod_less) simp
  obtain t where t: "page_free_one_internal ((i + m) * 4096) False s = Some t" "alloc_wf t" "pg_zero t = pg_zero s"
    "pg_info t = (pg_info s)(i + m := \<lparr>pi_task = 0, pi_count = 0\<rparr>)"
    using free_frame_ok [OF Suc.prems(1), of "i + m"] Suc.prems(2,3) mn by auto
  have d: "d = n - Suc m" using Suc(2) by simp
  have fr: "\<forall>j. i + Suc m \<le> j \<and> j < i + n \<longrightarrow> pg_info t j = \<lparr>pi_task = 0, pi_count = 1\<rparr> \<and> \<not> is_zero_page t j"
    using Suc.prems(3) t(3,4) by auto
  obtain u where u: "for_pages (\<lambda>k. page_free_one_internal (wrap32 (i * 4096 + k * 4096)) False) [Suc m..<n] t = Some u"
    "alloc_wf u" "pg_info u = (\<lambda>j. if i + Suc m \<le> j \<and> j < i + n then \<lparr>pi_task = 0, pi_count = 0\<rparr> else pg_info t j)"
    using Suc(1) [OF d t(2) Suc.prems(2) fr] by blast
  have "for_pages (\<lambda>k. page_free_one_internal (wrap32 (i * 4096 + k * 4096)) False) [m..<n] s = Some u"
    unfolding up for_pages.simps w t(1) using u(1) by simp
  moreover have "pg_info u = (\<lambda>j. if i + m \<le> j \<and> j < i + n then \<lparr>pi_task = 0, pi_count = 0\<rparr> else pg_info s j)"
    unfolding u(3) t(4) using mn by (auto simp: fun_eq_iff)
  ultimately show ?case using u(2) by blast
qed

text \<open>Freeing a block that \<open>page_malloc\<close> returned, with the same size, gives every frame back: the
  reference counts, the owners and the free bitmap are exactly what they were before the allocation.\<close>

theorem page_free_restores:
  assumes "alloc_wf s" "pcount s 0 \<noteq> 0" "0 < len" "len < 2 ^ 31"
    and "page_malloc len s = Some (s', p)" "p \<noteq> 0"
  shows "\<exists>s''. page_free p len s' = Some s'' \<and> pg_info s'' = pg_info s
    \<and> (\<forall>j < PAGE_TOTAL_COUNT. page_bitmap_is_free s'' j = page_bitmap_is_free s j)"
proof -
  define n where "n = (nat len + PAGE_SIZE_BYTES - 1) div PAGE_SIZE_BYTES"
  have n: "0 < n" using assms(3) by (auto simp: n_def div_greater_zero_iff)
  obtain i where i: "page_find_free_run 0 n s = Some i"
    using assms(3,5,6) unfolding page_malloc_def n_def [symmetric] Let_def by (auto split: option.splits)
  have fr: "i + n \<le> PAGE_TOTAL_COUNT" "\<forall>j \<in> {i..<i + n}. pcount s j = 0" using find_run_free [OF i n assms(1)] by auto
  obtain t where t: "page_claim_range i n 0 s = Some t" "same_rest s t"
    "pg_info t = (\<lambda>j. if i \<le> j \<and> j < i + n then \<lparr>pi_task = 0, pi_count = 1\<rparr> else pg_info s j)"
    using claim_range_ok [OF assms(1) fr, of 0] by auto
  have P: "PAGE i = i * 4096" using fr(1) n by (simp add: PAGE_def PAGE_TOTAL_COUNT_def)
  have s': "pg_info s' = pg_info t" "p = i * 4096" "pg_zero s' = pg_zero s"
    using assms(3,5) i t(1,2) P unfolding page_malloc_def n_def [symmetric] Let_def
    by (auto simp: mem_fill_def same_rest_def)
  have w: "alloc_wf s'" by (rule page_malloc_wf [OF assms(5,1)])
  define u where "u = s'\<lparr>pg_kasan := kasan_page_free p (wrap32 (n * PAGE_SIZE_BYTES)) (pg_kasan s')\<rparr>"
  have u: "alloc_wf u" "pg_info u = pg_info t" "pg_zero u = pg_zero s" using w s' by (simp_all add: u_def)
  have one: "\<forall>j. i + 0 \<le> j \<and> j < i + n \<longrightarrow> pg_info u j = \<lparr>pi_task = 0, pi_count = 1\<rparr> \<and> \<not> is_zero_page u j"
    using u(2,3) t(3) fr(2) not_zero_page [OF assms(1)] by auto
  obtain s'' where s'': "for_pages (\<lambda>k. page_free_one_internal (wrap32 (i * 4096 + k * 4096)) False) [0..<n] u = Some s''"
    "alloc_wf s''" "pg_info s'' = (\<lambda>j. if i + 0 \<le> j \<and> j < i + n then \<lparr>pi_task = 0, pi_count = 0\<rparr> else pg_info u j)"
    using free_frames_ok [OF u(1) fr(1) one] by blast
  have al: "p div PAGE_SIZE_BYTES * PAGE_SIZE_BYTES = p" using s'(2) by simp
  have f: "page_free p len s' = Some s''"
    using assms(3,6) s''(1) unfolding page_free_def n_def [symmetric] Let_def al u_def [symmetric] by (simp add: s'(2))
  have zero: "pg_info s j = \<lparr>pi_task = 0, pi_count = 0\<rparr>" if "i \<le> j" "j < i + n" for j
  proof -
    have "frame_ok (page_bitmap_is_free s j) (pg_info s j)" using that fr(1) by (intro wf_frame [OF assms(1)]) simp
    then show ?thesis using that fr(2) by (intro page_info.equality) (auto simp: frame_ok_def)
  qed
  have info: "pg_info s'' = pg_info s" unfolding s''(3) u(2) t(3) using zero by (auto simp: fun_eq_iff)
  have "page_bitmap_is_free s'' j = page_bitmap_is_free s j" if "j < PAGE_TOTAL_COUNT" for j
    unfolding wf_free [OF s''(2) that] wf_free [OF assms(1) that] info ..
  then show ?thesis using f info by blast
qed

lemma run_from_example:
  assumes "\<And>j. j < 12 \<Longrightarrow> page_bitmap_is_free s j \<longleftrightarrow> j \<in> {3, 4, 9, 10, 11}"
  shows "page_find_free_run_from 4 3 12 s = Some 9"
proof -
  have "is_least (\<lambda>r. 4 \<le> r \<and> r + 3 \<le> 12 \<and> free_run s 3 r) (Some 9)"
    unfolding is_least_def option.case
  proof (intro conjI allI impI notI)
    show "free_run s 3 9" using assms by (auto simp: free_run_def)
    fix j assume j: "j < (9::nat)" "4 \<le> j \<and> j + 3 \<le> 12 \<and> free_run s 3 j"
    then have f: "page_bitmap_is_free s j" "page_bitmap_is_free s (j + 1)" by (simp_all add: free_run_def)
    then show False using assms [of j] assms [of "j + 1"] j by auto
  qed simp_all
  then show ?thesis by (rule is_least_unique [OF run_from_least, rotated]) simp
qed

theorem page_free_restores_witness:
  "\<exists>s' s''. page_malloc 12000 mm_example = Some (s', 36864) \<and> page_free 36864 12000 s' = Some s'' \<and> pg_info s'' = pg_info mm_example"
proof -
  have l: "pg_limit mm_example = 12" "pg_run mm_example = 4" "pcount mm_example 0 \<noteq> 0" by (simp_all add: mm_example_def)
  have f: "page_find_free_run 0 3 mm_example = Some 9"
    using run_from_example [OF mm_example_free] by (simp add: page_find_free_run_def l)
  have fr: "9 + 3 \<le> PAGE_TOTAL_COUNT" "\<forall>j \<in> {9..<9 + 3}. pcount mm_example j = 0"
    using find_run_free [OF f _ mm_example_wf] by auto
  obtain t where t: "page_claim_range 9 3 0 mm_example = Some t" using claim_range_ok [OF mm_example_wf fr] by blast
  have "PAGE 9 = 36864" by (simp add: PAGE_def)
  then obtain s' where m: "page_malloc 12000 mm_example = Some (s', 36864)"
    using f t by (auto simp: page_malloc_def Let_def)
  then show ?thesis using page_free_restores [OF mm_example_wf l(3) _ _ m] by auto
qed

text \<open>A state in which a frame below the run hint is free and its upper neighbour is about to be freed.\<close>

definition mm_frag :: mm where
  "mm_frag = \<lparr>pg_info = (\<lambda>i. if i = 3 then \<lparr>pi_task = 0, pi_count = 0\<rparr> else \<lparr>pi_task = 0, pi_count = 1\<rparr>),
     pg_bitmap = (\<lambda>w. if w = 0 then 8 else 0), pg_limit = 12, pg_low = 3, pg_high = 3, pg_run = 9, pg_zero = 0,
     pg_mem = (\<lambda>_. 0), pg_kasan = kasan_example\<rparr>"

lemma mm_frag_free: "page_bitmap_is_free mm_frag j \<longleftrightarrow> j = 3"
proof -
  have e: "(8 :: u32) = push_bit 3 1" by simp
  have b: "bit (8 :: u32) n \<longleftrightarrow> n = 3" for n
    unfolding e by (simp only: bit_push_bit_iff bit_1_iff) auto
  have w: "pg_bitmap mm_frag w = (if w = 0 then 8 else 0)" for w by (simp add: mm_frag_def)
  have "bit (pg_bitmap mm_frag w) n \<longleftrightarrow> w = 0 \<and> n = 3" for w n
    unfolding w by (cases "w = 0") (simp_all only: b if_True if_False bit_0_eq bot_apply bot_bool_def simp_thms)
  then have "page_bitmap_is_free mm_frag j \<longleftrightarrow> j div 32 = 0 \<and> j mod 32 = 3" unfolding is_free_bit .
  then show ?thesis using word_bit_index [of j 3] by simp
qed

text \<open>The run search can miss a free run.  \<open>page_free\<close> lowers the run hint to the freed frame, also when
  the frame below it is free already, and \<open>page_malloc\<close> searches \<open>[hint, limit)\<close> and then \<open>[0, hint)\<close>,
  so that a run across the hint is in neither part: in a state with the invariant, after the
  release of frame 4 the frames 3 and 4 are free and a request for two frames is refused.\<close>

theorem page_malloc_misses_run:
  "alloc_wf mm_frag \<and> (\<exists>s. page_free 16384 4096 mm_frag = Some s
     \<and> page_bitmap_is_free s 3 \<and> page_bitmap_is_free s 4 \<and> page_malloc 8192 s = Some (s, 0))"
proof -
  have "frame_ok (page_bitmap_is_free mm_frag i) (pg_info mm_frag i)" for i
    unfolding mm_frag_free by (simp add: frame_ok_def mm_frag_def)
  then have w: "alloc_wf mm_frag"
    by (simp add: alloc_wf_def hints_ok_def zero_ok_def) (simp add: mm_frag_def PAGE_TOTAL_COUNT_def)
  define k where "k = mm_frag\<lparr>pg_kasan := kasan_page_free 16384 4096 (pg_kasan mm_frag)\<rparr>"
  define s where "s = page_note_free_idx 4 (page_bitmap_mark_free 4 (set_info 4 0 0 k))"
  have kf: "pg_zero k = 0" "pcount k 4 = 1" "ptask k 4 = 0" "pg_run k = 9" "pg_low k = 3" "pg_limit k = 12" "pg_high k = 3"
    by (simp_all add: k_def mm_frag_def)
  have one: "page_free_one_internal 16384 False k = Some s"
    using kf by (simp add: page_free_one_internal_def page_refcount_idx_def page_ref_dec_idx_def IDX_def PAGE_TOTAL_COUNT_def s_def Let_def)
  have f: "page_free 16384 4096 mm_frag = Some s"
    using one by (simp add: page_free_def Let_def k_def [symmetric])
  have kb: "page_bitmap_is_free k = page_bitmap_is_free mm_frag" by (rule is_free_cong) (simp add: k_def)
  have free: "page_bitmap_is_free s j \<longleftrightarrow> j = 3 \<or> j = 4" for j
    by (auto simp: s_def kb mm_frag_free)
  have h: "pg_run s = 4" "pg_limit s = 12"
    using kf by (simp_all add: s_def page_note_free_idx_def page_bitmap_mark_free_def set_info_def)
  have none: "page_find_free_run_from a 2 b s = None" if "a = 4 \<and> b = 12 \<or> a = 0 \<and> b = 4" for a b
  proof -
    have "\<not> (a \<le> r \<and> r + 2 \<le> b \<and> free_run s 2 r)" for r
    proof
      assume r: "a \<le> r \<and> r + 2 \<le> b \<and> free_run s 2 r"
      then have "page_bitmap_is_free s r" "page_bitmap_is_free s (r + 1)" by (simp_all add: free_run_def)
      then show False using r that free by auto
    qed
    then have "is_least (\<lambda>r. a \<le> r \<and> r + 2 \<le> b \<and> free_run s 2 r) None" by (simp add: is_least_def)
    then show ?thesis by (rule is_least_unique [OF run_from_least, rotated]) simp
  qed
  have "page_find_free_run 0 2 s = None" using none by (simp add: page_find_free_run_def h)
  then have "page_malloc 8192 s = Some (s, 0)" by (simp add: page_malloc_def)
  then show ?thesis using w f free by blast
qed

section \<open>Collecting the frames of a task\<close>

lemma gc_page_ok:
  assumes "alloc_wf s" "i < PAGE_TOTAL_COUNT"
  shows "\<exists>s'. gc_page tid i s = Some s' \<and> alloc_wf s' \<and> pg_zero s' = pg_zero s
    \<and> pg_info s' = (if tid \<noteq> 0 \<and> tid \<noteq> PAGE_RESERVED_OWNER \<and> pcount s i = 1 \<and> ptask s i = tid \<and> \<not> is_zero_page s i
                   then (pg_info s)(i := \<lparr>pi_task = 0, pi_count = 0\<rparr>) else pg_info s)"
proof -
  note fr = wf_frame [OF assms]
  show ?thesis
  proof (cases "tid \<noteq> 0 \<and> tid \<noteq> PAGE_RESERVED_OWNER \<and> pcount s i = 1 \<and> ptask s i = tid")
    case False
    then have "gc_page tid i s = Some s" using assms fr
      by (auto simp: gc_page_def page_refcount_idx_def frame_ok_def)
    then show ?thesis using assms(1) False by auto
  next
    case True
    then have g: "gc_page tid i s = page_ref_dec_idx i s" using assms by (auto simp: gc_page_def page_refcount_idx_def)
    show ?thesis
    proof (cases "is_zero_page s i")
      case Z: True
      then have "page_ref_dec_idx i s = Some s" by (simp add: page_ref_dec_idx_def)
      then show ?thesis using assms(1) g Z by auto
    next
      case Z: False
      then have "(pg_zero s \<noteq> 0 \<and> i = IDX (pg_zero s)) = False" by simp
      then obtain t where t: "page_ref_dec_idx i s = Some t" using True assms unfolding page_ref_dec_idx_def by auto
      show ?thesis using g t ref_dec_step [OF t Z] ref_dec_wf [OF t assms(1)] True Z
        by (auto simp: frame_step_def same_rest_def)
    qed
  qed
qed

lemma gc_pages_ok:
  assumes "alloc_wf s" "n \<le> PAGE_TOTAL_COUNT"
  shows "\<exists>s'. for_pages (gc_page tid) [0..<n] s = Some s' \<and> alloc_wf s' \<and> pg_zero s' = pg_zero s
    \<and> pg_info s' = (\<lambda>i. if i < n \<and> tid \<noteq> 0 \<and> tid \<noteq> PAGE_RESERVED_OWNER \<and> pcount s i = 1 \<and> ptask s i = tid \<and> \<not> is_zero_page s i
                   then \<lparr>pi_task = 0, pi_count = 0\<rparr> else pg_info s i)"
  using assms(2)
proof (induction n)
  case 0 then show ?case using assms(1) by (auto simp: fun_eq_iff)
next
  case (Suc n)
  have app: "for_pages f (xs @ [x]) u = do { v \<leftarrow> for_pages f xs u; f x v }" for f xs x u
    by (induction xs arbitrary: u) (auto simp: bind_assoc split: Option.bind_split)
  from Suc obtain t where t: "for_pages (gc_page tid) [0..<n] s = Some t" "alloc_wf t" "pg_zero t = pg_zero s"
    "pg_info t = (\<lambda>i. if i < n \<and> tid \<noteq> 0 \<and> tid \<noteq> PAGE_RESERVED_OWNER \<and> pcount s i = 1 \<and> ptask s i = tid \<and> \<not> is_zero_page s i
                   then \<lparr>pi_task = 0, pi_count = 0\<rparr> else pg_info s i)" by auto
  obtain u where u: "gc_page tid n t = Some u" "alloc_wf u" "pg_zero u = pg_zero t"
    "pg_info u = (if tid \<noteq> 0 \<and> tid \<noteq> PAGE_RESERVED_OWNER \<and> pcount t n = 1 \<and> ptask t n = tid \<and> \<not> is_zero_page t n
                   then (pg_info t)(n := \<lparr>pi_task = 0, pi_count = 0\<rparr>) else pg_info t)"
    using gc_page_ok [OF t(2), of n tid] Suc.prems by auto
  have "pg_info t n = pg_info s n" by (simp add: t(4))
  then show ?case using t(1) u t(3) by (auto simp: app t(4) fun_eq_iff less_Suc_eq)
qed

text \<open>The collector of a dead task's memory frees exactly what only that task owns.  From a state with
  the invariant \<open>gc\<close> never panics; afterwards every frame that the task owned with a single reference is
  free, and every other frame, shared, owned by another task, reserved or the shared zero page, has
  its reference count and its owner as before.\<close>

theorem gc_frees_owned:
  assumes "alloc_wf s" "tid \<noteq> 0" "tid \<noteq> PAGE_RESERVED_OWNER"
  shows "\<exists>s'. gc tid s = Some s' \<and> alloc_wf s' \<and> (\<forall>i < PAGE_TOTAL_COUNT.
      if pcount s i = 1 \<and> ptask s i = tid \<and> \<not> is_zero_page s i
      then pcount s' i = 0 \<and> page_bitmap_is_free s' i else pg_info s' i = pg_info s i)"
proof -
  obtain s' where s': "for_pages (gc_page tid) [0..<PAGE_TOTAL_COUNT] s = Some s'" "alloc_wf s'"
    "pg_info s' = (\<lambda>i. if i < PAGE_TOTAL_COUNT \<and> tid \<noteq> 0 \<and> tid \<noteq> PAGE_RESERVED_OWNER \<and> pcount s i = 1 \<and> ptask s i = tid
        \<and> \<not> is_zero_page s i then \<lparr>pi_task = 0, pi_count = 0\<rparr> else pg_info s i)"
    using gc_pages_ok [OF assms(1) order_refl, of tid] by blast
  have "if pcount s i = 1 \<and> ptask s i = tid \<and> \<not> is_zero_page s i
      then pcount s' i = 0 \<and> page_bitmap_is_free s' i else pg_info s' i = pg_info s i" if "i < PAGE_TOTAL_COUNT" for i
    using that assms(2,3) wf_free [OF s'(2) that] by (auto simp: s'(3))
  then show ?thesis using s'(1,2) unfolding gc_def by blast
qed

theorem gc_frees_owned_witness:
  "alloc_wf (set_info 7 5 1 mm_example) \<and> (\<exists>s'. gc 5 (set_info 7 5 1 mm_example) = Some s' \<and> page_bitmap_is_free s' 7)"
proof -
  have w: "alloc_wf (set_info 7 5 1 mm_example)"
    by (rule set_owner_wf [OF mm_example_wf]) (simp add: mm_example_def)
  have z: "pg_zero (set_info 7 5 1 mm_example) = 0" by (simp add: mm_example_def)
  have "7 < PAGE_TOTAL_COUNT" by (simp add: PAGE_TOTAL_COUNT_def)
  then show ?thesis using gc_frees_owned [OF w, of 5] w z by (auto dest!: spec [of _ 7])
qed

end
