(* ===== verification/PageTable.thy ===== *)
theory PageTable
  imports PageInv
begin

text \<open>
  The two-level page tables of \<^verbatim>\<open>kernel/arch/x86/i386/page.c\<close>: address spaces and their copy-on-write
  clone, mapping, sharing, protecting and unmapping of user pages, and the page-fault resolver.  The
  code runs these operations under the kernel's identity mapping, so that a table or frame is read at
  its physical address; \<open>active\<close> is the address space in CR3 when the operation starts, which
  \<open>page_table_access_end\<close> restores.  A virtual address is a natural number below \<open>2 ^ 32\<close>.
\<close>

section \<open>Entries\<close>

abbreviation PG_P :: u32 where "PG_P \<equiv> 1"
abbreviation PG_RWW :: u32 where "PG_RWW \<equiv> 2"
abbreviation PG_USU :: u32 where "PG_USU \<equiv> 4"
abbreviation PG_PCD :: u32 where "PG_PCD \<equiv> 16"
abbreviation PG_SHARED :: u32 where "PG_SHARED \<equiv> 1024"
abbreviation PG_COW :: u32 where "PG_COW \<equiv> 2048"
definition PAGE_PRESENT_RW_FLAGS :: u32 where "PAGE_PRESENT_RW_FLAGS = PG_P OR PG_RWW"
definition PAGE_USER_PRESENT_FLAGS :: u32 where "PAGE_USER_PRESENT_FLAGS = PG_P OR PG_USU"
definition PAGE_USER_RW_FLAGS :: u32 where "PAGE_USER_RW_FLAGS = PG_P OR PG_USU OR PG_RWW"

abbreviation USER_SPACE_START :: nat where "USER_SPACE_START \<equiv> 0x70000000"
abbreviation USER_HEAP_END :: nat where "USER_HEAP_END \<equiv> 0xf0000000"
abbreviation VM_READ :: u32 where "VM_READ \<equiv> 1"
abbreviation VM_WRITE :: u32 where "VM_WRITE \<equiv> 2"
abbreviation VM_MAPPED :: u32 where "VM_MAPPED \<equiv> 8"

definition page_entry_addr :: "u32 \<Rightarrow> nat" where "page_entry_addr e = unat (e AND 0xfffff000)"
definition page_entry_flags :: "u32 \<Rightarrow> u32" where "page_entry_flags e = e AND 0xfff"
definition page_entry_make :: "nat \<Rightarrow> u32 \<Rightarrow> u32" where
  "page_entry_make addr flags = (of_nat addr AND 0xfffff000) OR (flags AND 0xfff)"
definition page_entry_add_flags :: "u32 \<Rightarrow> u32 \<Rightarrow> u32" where
  "page_entry_add_flags e flags = page_entry_make (page_entry_addr e) (page_entry_flags e OR flags)"
definition page_entry_clear_flags :: "u32 \<Rightarrow> u32 \<Rightarrow> u32" where
  "page_entry_clear_flags e flags = page_entry_make (page_entry_addr e) (page_entry_flags e AND NOT flags)"
definition page_entry_has_all :: "u32 \<Rightarrow> u32 \<Rightarrow> bool" where "page_entry_has_all e flags \<longleftrightarrow> e AND flags = flags"
definition page_entry_has_any :: "u32 \<Rightarrow> u32 \<Rightarrow> bool" where "page_entry_has_any e flags \<longleftrightarrow> e AND flags \<noteq> 0"

definition DIDX :: "nat \<Rightarrow> nat" where "DIDX addr = addr div 2 ^ 22 mod 1024"
definition TIDX :: "nat \<Rightarrow> nat" where "TIDX addr = addr div 2 ^ 12 mod 1024"

definition page_dir_entry :: "nat \<Rightarrow> nat \<Rightarrow> nat" where "page_dir_entry pde vaddr = pde + DIDX vaddr * 4"
definition page_table_entry_from_dir :: "u32 \<Rightarrow> nat \<Rightarrow> nat" where
  "page_table_entry_from_dir pde_entry vaddr = page_entry_addr pde_entry + TIDX vaddr * 4"

text \<open>Reading and writing a word of physical memory, and \<open>memcpy\<close> of one page.\<close>

definition mem_write :: "nat \<Rightarrow> u32 \<Rightarrow> mm \<Rightarrow> mm" where
  "mem_write a w s = s\<lparr>pg_mem := (pg_mem s)(a := w)\<rparr>"

definition page_copy :: "nat \<Rightarrow> nat \<Rightarrow> mm \<Rightarrow> mm" where
  "page_copy dst src s =
     s\<lparr>pg_mem := (\<lambda>a. if dst \<le> a \<and> a < dst + PAGE_SIZE_BYTES then pg_mem s (src + (a - dst)) else pg_mem s a)\<rparr>"

definition page_refcount_entry :: "u32 \<Rightarrow> mm \<Rightarrow> u32 option" where
  "page_refcount_entry e s =
     (if pg_zero s \<noteq> 0 \<and> page_entry_addr e = pg_zero s then Some 2 else page_refcount_idx (IDX (page_entry_addr e)) s)"

definition page_ref_inc_entry :: "u32 \<Rightarrow> mm \<Rightarrow> mm option" where
  "page_ref_inc_entry e = page_ref_inc_idx (IDX (page_entry_addr e))"

definition page_ref_dec_entry :: "u32 \<Rightarrow> mm \<Rightarrow> mm option" where
  "page_ref_dec_entry e = page_ref_dec_idx (IDX (page_entry_addr e))"

section \<open>Cloning, releasing and emptying an address space\<close>

definition clone_entry :: "nat \<Rightarrow> mm \<Rightarrow> mm option" where
  "clone_entry pte s =
     (let e = pg_mem s pte in
      if \<not> page_entry_has_all e PG_USU then Some s
      else do { s \<leftarrow> page_ref_inc_entry e s;
                let e = pg_mem s pte;
                if page_entry_has_any e PG_SHARED then Some (mem_write pte (page_entry_add_flags e PG_RWW) s)
                else if page_entry_has_any e PG_RWW then Some (mem_write pte ((e AND NOT PG_RWW) OR PG_COW) s)
                else Some s })"

definition clone_directory :: "nat \<Rightarrow> nat \<Rightarrow> mm \<Rightarrow> mm option" where
  "clone_directory address_space i s =
     (let d = pg_mem s (address_space + i * 4) in
      if \<not> page_entry_has_all d PAGE_USER_PRESENT_FLAGS then Some s
      else do { s \<leftarrow> page_ref_inc_entry d s;
                for_pages (\<lambda>j. clone_entry (page_entry_addr d + j * 4)) [0..<1024] s })"

text \<open>\<open>arch_address_space_clone\<close> up to \<open>user_vm_clone\<close>: 0 when no frame is left.\<close>

definition clone_tables :: "nat \<Rightarrow> mm \<Rightarrow> (mm \<times> nat) option" where
  "clone_tables address_space s =
     do { (s, result) \<leftarrow> page_malloc_one_no_mark s;
          if result = 0 then Some (s, 0)
          else do { s \<leftarrow> for_pages (clone_directory address_space) [0..<1024] s;
                    Some (page_copy result address_space s, result) } }"

definition arch_address_space_retain :: "nat \<Rightarrow> nat \<Rightarrow> mm \<Rightarrow> mm option" where
  "arch_address_space_retain kas address_space s =
     (if address_space \<noteq> kas then page_ref_inc_idx (IDX address_space) s else Some s)"

definition release_directory :: "nat \<Rightarrow> nat \<Rightarrow> mm \<Rightarrow> mm option" where
  "release_directory address_space i s =
     (let d = pg_mem s (address_space + i * 4) in
      if \<not> page_entry_has_all d PAGE_USER_PRESENT_FLAGS then Some s
      else do { s \<leftarrow> for_pages (\<lambda>j s. let e = pg_mem s (page_entry_addr d + j * 4) in
                       if page_entry_has_all e PG_USU then page_ref_dec_entry e s else Some s) [0..<1024] s;
                page_ref_dec_entry (pg_mem s (address_space + i * 4)) s })"

text \<open>
  \<open>arch_address_space_release_locked\<close>; the Boolean says that the last reference went, so that the caller
  goes on to \<open>user_vm_release_locked\<close>.
\<close>

definition arch_address_space_release_tables :: "nat \<Rightarrow> nat \<Rightarrow> mm \<Rightarrow> (mm \<times> bool) option" where
  "arch_address_space_release_tables kas address_space s =
     (if address_space = kas then Some (s, False)
      else do { cnt \<leftarrow> page_refcount_idx (IDX address_space) s;
                if cnt > 1 then map_option (\<lambda>s. (s, False)) (page_ref_dec_idx (IDX address_space) s)
                else do { s \<leftarrow> for_pages (release_directory address_space) [0..<DIDX 0xf1000000] s;
                          s \<leftarrow> page_free_one address_space s;
                          Some (s, True) } })"

text \<open>One directory entry of \<open>prepare_exec\<close>: \<open>False\<close> stops the loop.\<close>

definition prepare_exec_entry :: "nat \<Rightarrow> mm \<Rightarrow> (mm \<times> bool) option" where
  "prepare_exec_entry directory s =
     (let d = pg_mem s directory in
      if \<not> page_entry_has_all d PAGE_USER_PRESENT_FLAGS then Some (s, True)
      else do {
        references \<leftarrow> page_refcount_entry d s;
        if references = 0 then Some (s, False)
        else do {
          (s, ok) \<leftarrow>
            (if references > 1 then
               do { (s, new_table) \<leftarrow> page_alloc_single_high s;
                    if new_table = 0 then Some (s, False)
                    else do { s \<leftarrow> page_ref_dec_idx (IDX (page_entry_addr d)) (page_copy new_table (page_entry_addr d) s);
                              Some (mem_write directory (page_entry_make new_table PAGE_USER_RW_FLAGS) s, True) } }
             else Some (s, True));
          if \<not> ok then Some (s, False)
          else do {
            let s = mem_write directory (page_entry_add_flags (pg_mem s directory) PAGE_USER_RW_FLAGS) s;
            s \<leftarrow> for_pages (\<lambda>index s.
                   let entry = page_table_entry_from_dir (pg_mem s directory) (index * 4096);
                       e = pg_mem s entry
                   in if \<not> page_entry_has_all e PG_USU then Some s
                      else do { s \<leftarrow> page_ref_dec_entry e s; Some (mem_write entry 0 s) }) [0..<1024] s;
            Some (s, True) } } })"

primrec while_ok :: "('a \<Rightarrow> mm \<Rightarrow> (mm \<times> bool) option) \<Rightarrow> 'a list \<Rightarrow> mm \<Rightarrow> (mm \<times> bool) option" where
  "while_ok f [] s = Some (s, True)"
| "while_ok f (i # is) s = do { (s, ok) \<leftarrow> f i s; if ok then while_ok f is s else Some (s, False) }"

definition arch_address_space_prepare_exec_tables :: "nat \<Rightarrow> mm \<Rightarrow> (mm \<times> bool) option" where
  "arch_address_space_prepare_exec_tables address_space =
     while_ok (\<lambda>i. prepare_exec_entry (address_space + i * 4)) [DIDX 0x70000000..<1024]"

text \<open>A directory entry is made to point to a table of its own.\<close>

definition page_prepare_user_table :: "nat \<Rightarrow> mm \<Rightarrow> (mm \<times> bool) option" where
  "page_prepare_user_table pde_entry s =
     (let d = pg_mem s pde_entry in
      if \<not> page_entry_has_all d PAGE_USER_PRESENT_FLAGS then
        do { (s, table) \<leftarrow> page_alloc_single_high s;
             if table = 0 then Some (s, False)
             else Some (mem_write pde_entry (page_entry_make table PAGE_USER_RW_FLAGS) (mem_fill table PAGE_SIZE_BYTES 0 s), True) }
      else do {
        references \<leftarrow> page_refcount_entry d s;
        if references \<le> 1 then Some (mem_write pde_entry (page_entry_add_flags d PAGE_USER_RW_FLAGS) s, True)
        else do {
          (s, new_table) \<leftarrow> page_alloc_single_high s;
          if new_table = 0 then Some (s, False)
          else do { s \<leftarrow> page_ref_dec_entry d (page_copy new_table (page_entry_addr d) s);
                    Some (mem_write pde_entry (page_entry_make new_table (page_entry_flags d OR PAGE_USER_RW_FLAGS)) s, True) } } })"

section \<open>Sharing\<close>

definition share_page :: "nat \<Rightarrow> nat \<Rightarrow> nat \<Rightarrow> nat \<Rightarrow> mm \<Rightarrow> (mm \<times> bool) option" where
  "share_page source_as target_as source_address target_address s =
     (let source_directory = page_dir_entry source_as source_address in
      if \<not> page_entry_has_all (pg_mem s source_directory) PAGE_USER_PRESENT_FLAGS then Some (s, False)
      else do {
        (s, ok) \<leftarrow> page_prepare_user_table source_directory s;
        if \<not> ok then Some (s, False)
        else
          let source_entry = page_table_entry_from_dir (pg_mem s source_directory) source_address;
              source_mapping = pg_mem s source_entry
          in if \<not> page_entry_has_all source_mapping PAGE_USER_PRESENT_FLAGS then Some (s, False)
             else do {
               let target_directory = page_dir_entry target_as target_address;
               (s, ok) \<leftarrow> page_prepare_user_table target_directory s;
               if \<not> ok then Some (s, False)
               else
                 let target_entry = page_table_entry_from_dir (pg_mem s target_directory) target_address
                 in if page_entry_has_any (pg_mem s target_entry) PG_P then Some (s, False)
                    else do {
                      let s = mem_write source_entry (page_entry_add_flags source_mapping (PG_SHARED OR PG_RWW)) s;
                      s \<leftarrow> page_ref_inc_idx (IDX (page_entry_addr source_mapping)) s;
                      Some (mem_write target_entry
                        (page_entry_make (page_entry_addr source_mapping) (PAGE_USER_RW_FLAGS OR PG_SHARED)) s, True) } } })"

text \<open>The loop returns how many pages it mapped and whether it finished.\<close>

primrec share_pages :: "nat \<Rightarrow> nat \<Rightarrow> nat \<Rightarrow> nat \<Rightarrow> nat \<Rightarrow> nat \<Rightarrow> mm \<Rightarrow> (mm \<times> nat \<times> bool) option" where
  "share_pages 0 source_as target_as source target k s = Some (s, k, True)"
| "share_pages (Suc n) source_as target_as source target k s =
     do { (s, ok) \<leftarrow> share_page source_as target_as (wrap32 (source + k * PAGE_SIZE_BYTES)) (wrap32 (target + k * PAGE_SIZE_BYTES)) s;
          if ok then share_pages n source_as target_as source target (k + 1) s else Some (s, k, False) }"

definition drop_entry :: "nat \<Rightarrow> nat \<Rightarrow> mm \<Rightarrow> mm option" where
  "drop_entry directory address s =
     (let entry = page_table_entry_from_dir (pg_mem s directory) address
      in do { s \<leftarrow> page_ref_dec_entry (pg_mem s entry) s; Some (mem_write entry 0 s) })"

definition arch_address_space_share :: "nat \<Rightarrow> nat \<Rightarrow> nat \<Rightarrow> nat \<Rightarrow> nat \<Rightarrow> mm \<Rightarrow> (mm \<times> bool) option" where
  "arch_address_space_share source target len source_as target_as s =
     (if len = 0 \<or> source mod PAGE_SIZE_BYTES \<noteq> 0 \<or> target mod PAGE_SIZE_BYTES \<noteq> 0 \<or> len mod PAGE_SIZE_BYTES \<noteq> 0
      then Some (s, False)
      else do {
        (s, mapped, ok) \<leftarrow> share_pages (len div PAGE_SIZE_BYTES) source_as target_as source target 0 s;
        if ok then Some (s, True)
        else do { s \<leftarrow> for_pages (\<lambda>k. let a = wrap32 (target + k * PAGE_SIZE_BYTES) in drop_entry (page_dir_entry target_as a) a)
                         [0..<mapped] s;
                  Some (s, False) } })"

definition page_addresses :: "nat \<Rightarrow> nat \<Rightarrow> nat list" where
  "page_addresses address len = map (\<lambda>k. wrap32 (address + k * PAGE_SIZE_BYTES)) [0..<(len + PAGE_SIZE_BYTES - 1) div PAGE_SIZE_BYTES]"

definition is_shared_page :: "mm \<Rightarrow> nat \<Rightarrow> nat \<Rightarrow> bool" where
  "is_shared_page s target_as a \<longleftrightarrow>
     (let d = pg_mem s (page_dir_entry target_as a) in
      page_entry_has_all d PAGE_USER_PRESENT_FLAGS
      \<and> (let e = pg_mem s (page_table_entry_from_dir d a)
         in page_entry_has_all e PAGE_USER_PRESENT_FLAGS \<and> page_entry_has_any e PG_SHARED))"

definition arch_address_space_unmap_shared :: "nat \<Rightarrow> nat \<Rightarrow> nat \<Rightarrow> mm \<Rightarrow> (mm \<times> bool) option" where
  "arch_address_space_unmap_shared target len target_as s =
     (if len = 0 \<or> target mod PAGE_SIZE_BYTES \<noteq> 0 \<or> len mod PAGE_SIZE_BYTES \<noteq> 0 then Some (s, False)
      else
        let pages = page_addresses target len in
        if \<not> list_all (is_shared_page s target_as) pages then Some (s, False)
        else do {
          (s, ok) \<leftarrow> while_ok (\<lambda>a. page_prepare_user_table (page_dir_entry target_as a)) pages s;
          if \<not> ok then Some (s, False)
          else do { s \<leftarrow> for_pages (\<lambda>a. drop_entry (page_dir_entry target_as a) a) pages s; Some (s, True) } })"

section \<open>Mapping user pages\<close>

definition page_link_pde :: "nat \<Rightarrow> nat \<Rightarrow> mm \<Rightarrow> (mm \<times> bool) option" where
  "page_link_pde addr pde s =
     (let directory = page_dir_entry pde addr in
      do { (s, ok) \<leftarrow> page_prepare_user_table directory s;
           if \<not> ok then Some (s, False)
           else do {
             let entry = page_table_entry_from_dir (pg_mem s directory) addr;
             (s, new_page) \<leftarrow> page_alloc_single_high s;
             if new_page = 0 then Some (s, False)
             else do {
               let s = mem_fill new_page PAGE_SIZE_BYTES 0 s;
               s \<leftarrow> (if page_entry_has_all (pg_mem s entry) PG_USU then page_ref_dec_entry (pg_mem s entry) s else Some s);
               Some (mem_write entry (page_entry_make new_page PAGE_USER_RW_FLAGS) s, True) } } })"

text \<open>The first pass of \<open>arch_user_map_pages\<close> over one page: a table of its own, and no mapping that must stay.\<close>

definition map_check :: "nat \<Rightarrow> (nat \<Rightarrow> bool) \<Rightarrow> bool \<Rightarrow> nat \<Rightarrow> mm \<Rightarrow> (mm \<times> bool) option" where
  "map_check active file_page replace a s =
     (let directory = page_dir_entry active a in
      do { (s, ok) \<leftarrow> page_prepare_user_table directory s;
           if \<not> ok then Some (s, False)
           else
             let e = pg_mem s (page_table_entry_from_dir (pg_mem s directory) a)
             in Some (s, \<not> (e \<noteq> 0 \<and> (\<not> replace \<or> e AND PG_DEVICE \<noteq> 0 \<or> (e AND PG_SHARED \<noteq> 0 \<and> \<not> file_page a)))) })"

definition map_flags :: "u32 \<Rightarrow> bool \<Rightarrow> u32" where
  "map_flags protection shared =
     PG_USU OR (if protection \<noteq> 0 then PG_P else 0) OR (if shared then PG_SHARED else 0)
       OR (if protection AND VM_WRITE \<noteq> 0 then (if shared then PG_RWW else PG_COW) else 0)"

definition map_install :: "nat \<Rightarrow> u32 \<Rightarrow> bool \<Rightarrow> nat \<Rightarrow> nat \<Rightarrow> mm \<Rightarrow> mm option" where
  "map_install active protection shared physical a s =
     (let entry = page_table_entry_from_dir (pg_mem s (page_dir_entry active a)) a in
      do { s \<leftarrow> (if pg_mem s entry AND PG_USU \<noteq> 0 then page_ref_dec_entry (pg_mem s entry) s else Some s);
           s \<leftarrow> page_ref_inc_idx (IDX physical) s;
           Some (mem_write entry (page_entry_make physical (map_flags protection shared)) s) })"

text \<open>\<open>backing\<close> is the list of frames of a file mapping, or \<open>None\<close> for anonymous memory (the zero page).\<close>

definition arch_user_map_pages ::
  "nat \<Rightarrow> (nat \<Rightarrow> bool) \<Rightarrow> nat \<Rightarrow> nat \<Rightarrow> u32 \<Rightarrow> bool \<Rightarrow> (nat list) option \<Rightarrow> bool \<Rightarrow> mm \<Rightarrow> (mm \<times> bool) option" where
  "arch_user_map_pages active file_page address len protection replace backing shared s =
     do { (s, ok) \<leftarrow> (if backing = None then ensure_zero_page s else Some (s, True));
          if \<not> ok then Some (s, False)
          else do {
            (s, ok) \<leftarrow> while_ok (map_check active file_page replace) (page_addresses address len) s;
            if \<not> ok then Some (s, False)
            else do {
              s \<leftarrow> for_pages (\<lambda>k s. map_install active protection shared
                       (case backing of Some frames \<Rightarrow> frames ! k | None \<Rightarrow> pg_zero s)
                       (wrap32 (address + k * PAGE_SIZE_BYTES)) s)
                     [0..<(len + PAGE_SIZE_BYTES - 1) div PAGE_SIZE_BYTES] s;
              Some (s, True) } } }"

definition arch_user_map ::
  "nat \<Rightarrow> (nat \<Rightarrow> bool) \<Rightarrow> nat \<Rightarrow> nat \<Rightarrow> u32 \<Rightarrow> bool \<Rightarrow> mm \<Rightarrow> (mm \<times> bool) option" where
  "arch_user_map active file_page address len protection replace =
     arch_user_map_pages active file_page address len protection replace None False"

definition arch_user_alias :: "nat \<Rightarrow> nat \<Rightarrow> nat \<Rightarrow> bool" where
  "arch_user_alias source target len = False"

definition arch_user_map_zero :: "nat \<Rightarrow> (nat \<Rightarrow> bool) \<Rightarrow> nat \<Rightarrow> mm \<Rightarrow> (mm \<times> bool) option" where
  "arch_user_map_zero active file_page address s =
     (if address \<ge> USER_SPACE_START \<and> address < USER_HEAP_END \<and> address mod PAGE_SIZE_BYTES = 0
      then arch_user_map active file_page address PAGE_SIZE_BYTES (VM_READ OR VM_WRITE) False s
      else Some (s, False))"

section \<open>Looking at user pages\<close>

definition arch_user_page_flags :: "nat \<Rightarrow> nat \<Rightarrow> mm \<Rightarrow> u32" where
  "arch_user_page_flags active address s =
     (let directory = pg_mem s (page_dir_entry active address) in
      if page_entry_has_all directory PAGE_USER_PRESENT_FLAGS then
        let e = pg_mem s (page_table_entry_from_dir directory address) in
        if e AND PG_USU \<noteq> 0 then
          VM_MAPPED OR (if e AND PG_P \<noteq> 0
                        then VM_READ OR (if e AND (PG_RWW OR PG_COW) \<noteq> 0 then VM_WRITE else 0) else 0)
        else 0
      else 0)"

definition page_occupied :: "nat \<Rightarrow> mm \<Rightarrow> nat \<Rightarrow> bool" where
  "page_occupied active s page \<longleftrightarrow>
     (let directory = pg_mem s (page_dir_entry active page)
      in page_entry_has_all directory PAGE_USER_PRESENT_FLAGS
         \<and> page_entry_has_all (pg_mem s (page_table_entry_from_dir directory page)) PG_USU)"

text \<open>Downwards from \<open>upper\<close>; \<open>available\<close> counts the free bytes from \<open>page\<close> on.  0 is failure.\<close>

function find_free_scan :: "nat \<Rightarrow> mm \<Rightarrow> nat \<Rightarrow> nat \<Rightarrow> nat \<Rightarrow> nat \<Rightarrow> nat \<Rightarrow> nat" where
  "find_free_scan active s lower len alignment page available =
     (if page > lower then
        (let page' = page - PAGE_SIZE_BYTES;
             available' = (if page_occupied active s page' then 0 else available + PAGE_SIZE_BYTES)
         in if available' \<ge> len \<and> page' mod alignment = 0 then page'
            else find_free_scan active s lower len alignment page' available')
      else 0)"
  by pat_completeness auto
termination by (relation "measure (\<lambda>(_, _, _, _, _, page, _). page)") auto

declare find_free_scan.simps [simp del]

definition arch_user_find_free :: "nat \<Rightarrow> nat \<Rightarrow> nat \<Rightarrow> nat \<Rightarrow> nat \<Rightarrow> mm \<Rightarrow> nat" where
  "arch_user_find_free active lower upper len alignment s = find_free_scan active s lower len alignment upper 0"

definition arch_user_validate :: "nat \<Rightarrow> (nat \<Rightarrow> bool) \<Rightarrow> nat \<Rightarrow> nat \<Rightarrow> mm \<Rightarrow> bool" where
  "arch_user_validate active file_page address len s =
     list_all (\<lambda>a. let directory = pg_mem s (page_dir_entry active a) in
        page_entry_has_all directory PAGE_USER_PRESENT_FLAGS
        \<and> (let e = pg_mem s (page_table_entry_from_dir directory a)
           in \<not> (e AND PG_USU = 0 \<or> e AND PG_DEVICE \<noteq> 0 \<or> (e AND PG_SHARED \<noteq> 0 \<and> \<not> file_page a))))
       (page_addresses address len)"

section \<open>Changing user pages\<close>

datatype vm_change = CHANGE_UNMAP | CHANGE_DISCARD | CHANGE_PROTECT

definition change_check :: "nat \<Rightarrow> (nat \<Rightarrow> bool) \<Rightarrow> vm_change \<Rightarrow> nat \<Rightarrow> mm \<Rightarrow> (mm \<times> bool) option" where
  "change_check active file_page operation a s =
     (let directory = page_dir_entry active a; d = pg_mem s directory in
      if \<not> page_entry_has_all d PAGE_USER_PRESENT_FLAGS then Some (s, operation = CHANGE_UNMAP)
      else
        let e = pg_mem s (page_table_entry_from_dir d a) in
        if e AND PG_USU = 0 \<and> operation = CHANGE_UNMAP then Some (s, True)
        else if e AND PG_USU = 0 \<or> e AND PG_DEVICE \<noteq> 0
                \<or> (operation \<noteq> CHANGE_UNMAP \<and> e AND PG_SHARED \<noteq> 0 \<and> \<not> file_page a)
        then Some (s, False)
        else page_prepare_user_table directory s)"

definition change_page :: "nat \<Rightarrow> (nat \<Rightarrow> bool) \<Rightarrow> u32 \<Rightarrow> vm_change \<Rightarrow> nat \<Rightarrow> mm \<Rightarrow> mm option" where
  "change_page active file_page protection operation a s =
     (let directory = pg_mem s (page_dir_entry active a) in
      if \<not> page_entry_has_all directory PAGE_USER_PRESENT_FLAGS then Some s
      else
        let entry = page_table_entry_from_dir directory a; e = pg_mem s entry in
        if e AND PG_USU = 0 then Some s
        else case operation of
          CHANGE_UNMAP \<Rightarrow> do { s \<leftarrow> page_ref_dec_entry e s; Some (mem_write entry 0 s) }
        | CHANGE_DISCARD \<Rightarrow>
            do { s \<leftarrow> page_ref_dec_entry e s;
                 s \<leftarrow> page_ref_inc_idx (IDX (pg_zero s)) s;
                 let flags = page_entry_flags e;
                 Some (mem_write entry (page_entry_make (pg_zero s)
                   ((flags AND NOT PG_RWW) OR (if flags AND PG_RWW \<noteq> 0 then PG_COW else 0))) s) }
        | CHANGE_PROTECT \<Rightarrow>
            let e' = (e AND NOT (PG_P OR PG_RWW OR PG_COW)) OR (if protection \<noteq> 0 then PG_P else 0) in
            if protection AND VM_WRITE \<noteq> 0 then
              do { references \<leftarrow> page_refcount_entry e' s;
                   let shared = (e' AND PG_SHARED \<noteq> 0);
                   let copied = ((\<not> shared \<and> file_page a) \<or> references > 1);
                   Some (mem_write entry (e' OR (if shared then PG_RWW else if copied then PG_COW else PG_RWW)) s) }
            else Some (mem_write entry e' s))"

definition user_pages_change ::
  "nat \<Rightarrow> (nat \<Rightarrow> bool) \<Rightarrow> nat \<Rightarrow> nat \<Rightarrow> u32 \<Rightarrow> vm_change \<Rightarrow> mm \<Rightarrow> (mm \<times> bool) option" where
  "user_pages_change active file_page address len protection operation s =
     (let pages = page_addresses address len in
      do { (s, ok) \<leftarrow> while_ok (change_check active file_page operation) pages s;
           if \<not> ok then Some (s, False)
           else do { s \<leftarrow> for_pages (change_page active file_page protection operation) pages s; Some (s, True) } })"

definition arch_user_protect :: "nat \<Rightarrow> (nat \<Rightarrow> bool) \<Rightarrow> nat \<Rightarrow> nat \<Rightarrow> u32 \<Rightarrow> mm \<Rightarrow> (mm \<times> bool) option" where
  "arch_user_protect active file_page address len protection =
     user_pages_change active file_page address len protection CHANGE_PROTECT"

definition arch_user_unmap :: "nat \<Rightarrow> (nat \<Rightarrow> bool) \<Rightarrow> nat \<Rightarrow> nat \<Rightarrow> mm \<Rightarrow> (mm \<times> bool) option" where
  "arch_user_unmap active file_page address len = user_pages_change active file_page address len 0 CHANGE_UNMAP"

definition arch_user_discard :: "nat \<Rightarrow> (nat \<Rightarrow> bool) \<Rightarrow> nat \<Rightarrow> nat \<Rightarrow> mm \<Rightarrow> (mm \<times> bool) option" where
  "arch_user_discard active file_page address len = user_pages_change active file_page address len 0 CHANGE_DISCARD"

definition page_set_physics_attr :: "nat \<Rightarrow> nat \<Rightarrow> nat \<Rightarrow> u32 \<Rightarrow> mm \<Rightarrow> (mm \<times> bool) option" where
  "page_set_physics_attr pde vaddr paddr attr s =
     (let directory = page_dir_entry pde vaddr in
      do { (s, ok) \<leftarrow> page_prepare_user_table directory s;
           if \<not> ok then Some (s, False)
           else do {
             let physics = page_table_entry_from_dir (pg_mem s directory) vaddr;
             let old_mapping = pg_mem s physics;
             let mapped = page_entry_has_all old_mapping PAGE_USER_PRESENT_FLAGS;
             let same = (page_entry_addr old_mapping = paddr);
             s \<leftarrow> (if mapped \<and> \<not> same then page_ref_dec_entry old_mapping s else Some s);
             s \<leftarrow> (if \<not> mapped \<or> \<not> same then page_ref_inc_idx (IDX paddr) s else Some s);
             Some (mem_write physics (page_entry_make paddr attr) s, True) } })"

definition arch_address_space_map_user_device :: "nat \<Rightarrow> nat \<Rightarrow> nat \<Rightarrow> nat \<Rightarrow> mm \<Rightarrow> (mm \<times> bool) option" where
  "arch_address_space_map_user_device pde user_address physical_address len s =
     (if len = 0 \<or> user_address mod PAGE_SIZE_BYTES \<noteq> 0 \<or> physical_address mod PAGE_SIZE_BYTES \<noteq> 0
         \<or> len mod PAGE_SIZE_BYTES \<noteq> 0 then Some (s, False)
      else while_ok (\<lambda>k. page_set_physics_attr pde (wrap32 (user_address + k * PAGE_SIZE_BYTES))
             (wrap32 (physical_address + k * PAGE_SIZE_BYTES)) (PAGE_USER_RW_FLAGS OR PG_SHARED))
           [0..<len div PAGE_SIZE_BYTES] s)"

section \<open>The page-fault resolver\<close>

datatype page_fault_result = PAGE_FAULT_UNHANDLED | PAGE_FAULT_RESOLVED | PAGE_FAULT_NO_MEMORY

text \<open>
  The copy itself, after the checks: \<open>new_table\<close> and \<open>new_page\<close> are the frames taken for it, 0 where
  nothing has to be copied.
\<close>

definition fault_install :: "nat \<Rightarrow> nat \<Rightarrow> u32 \<Rightarrow> u32 \<Rightarrow> nat \<Rightarrow> nat \<Rightarrow> mm \<Rightarrow> mm option" where
  "fault_install pde address old_pde old_pte_value new_table new_page s =
     (let old_pte = page_table_entry_from_dir old_pde address;
          s = (if new_table \<noteq> 0 then page_copy new_table (page_entry_addr old_pde) s else s);
          target_pte = (if new_table \<noteq> 0 then page_table_entry_from_dir (of_nat new_table) address else old_pte);
          s = (if new_page \<noteq> 0
               then mem_write target_pte (page_entry_make new_page (page_entry_flags old_pte_value OR PAGE_USER_RW_FLAGS))
                      (page_copy new_page (page_entry_addr old_pte_value) s)
               else mem_write target_pte (page_entry_add_flags old_pte_value PAGE_USER_RW_FLAGS) s);
          s = mem_write target_pte (pg_mem s target_pte AND NOT PG_COW) s;
          s = mem_write pde (if new_table \<noteq> 0
                then page_entry_make new_table (page_entry_flags old_pde OR PAGE_USER_RW_FLAGS)
                else page_entry_add_flags old_pde PAGE_USER_RW_FLAGS) s
      in do { s \<leftarrow> (if new_page \<noteq> 0 then page_ref_dec_entry old_pte_value s else Some s);
              if new_table \<noteq> 0 then page_ref_dec_entry old_pde s else Some s })"

text \<open>Taking the frames: a shared table and a shared page are copied unless they are marked \<open>PG_SHARED\<close>.\<close>

definition fault_copy :: "nat \<Rightarrow> nat \<Rightarrow> u32 \<Rightarrow> u32 \<Rightarrow> u32 \<Rightarrow> u32 \<Rightarrow> mm \<Rightarrow> (mm \<times> page_fault_result) option" where
  "fault_copy pde address old_pde old_pte_value table_refs page_refs s =
     (let copy_table = (table_refs > 1 \<and> \<not> page_entry_has_any old_pde PG_SHARED);
          copy_page = (\<not> page_entry_has_any old_pte_value PG_RWW \<and> page_refs > 1
                       \<and> \<not> page_entry_has_any old_pte_value PG_SHARED)
      in do {
        (s, new_table) \<leftarrow> (if copy_table then page_alloc_single_high s else Some (s, 0));
        if copy_table \<and> new_table = 0 then Some (s, PAGE_FAULT_NO_MEMORY)
        else do {
          (s, new_page) \<leftarrow> (if copy_page then page_alloc_single_high s else Some (s, 0));
          if copy_page \<and> new_page = 0
          then do { s \<leftarrow> (if new_table \<noteq> 0 then page_free_one new_table s else Some s);
                    Some (s, PAGE_FAULT_NO_MEMORY) }
          else do { s \<leftarrow> fault_install pde address old_pde old_pte_value new_table new_page s;
                    Some (s, PAGE_FAULT_RESOLVED) } } })"

text \<open>\<open>owned\<close> says that \<open>task_address_space_owner\<close> knows a task of the active address space.\<close>

definition arch_page_fault_resolve :: "nat \<Rightarrow> bool \<Rightarrow> nat \<Rightarrow> nat \<Rightarrow> mm \<Rightarrow> (mm \<times> page_fault_result) option" where
  "arch_page_fault_resolve active owned address error s =
     (if (error \<noteq> 3 \<and> error \<noteq> 7) \<or> address < USER_SPACE_START \<or> address > USER_HEAP_END
      then Some (s, PAGE_FAULT_UNHANDLED)
      else if active < PAGE_SIZE_BYTES \<or> active mod PAGE_SIZE_BYTES \<noteq> 0 then Some (s, PAGE_FAULT_UNHANDLED)
      else do {
        refs \<leftarrow> page_refcount_idx (IDX active) s;
        if refs = 0 \<or> \<not> owned then Some (s, PAGE_FAULT_UNHANDLED)
        else
          let pde = page_dir_entry active address; old_pde = pg_mem s pde in
          if \<not> page_entry_has_all old_pde PAGE_USER_PRESENT_FLAGS \<or> page_entry_addr old_pde = 0
          then Some (s, PAGE_FAULT_UNHANDLED)
          else do {
            table_refs \<leftarrow> page_refcount_entry old_pde s;
            if table_refs = 0 then Some (s, PAGE_FAULT_UNHANDLED)
            else
              let old_pte_value = pg_mem s (page_table_entry_from_dir old_pde address) in
              if \<not> page_entry_has_all old_pte_value PAGE_USER_PRESENT_FLAGS \<or> page_entry_addr old_pte_value = 0
              then Some (s, PAGE_FAULT_UNHANDLED)
              else do {
                page_refs \<leftarrow> page_refcount_entry old_pte_value s;
                if page_refs = 0 then Some (s, PAGE_FAULT_UNHANDLED)
                else if page_entry_has_any old_pde PG_RWW \<and> page_entry_has_any old_pte_value PG_RWW
                then Some (s, PAGE_FAULT_RESOLVED)
                else if old_pte_value AND PG_COW = 0 then Some (s, PAGE_FAULT_UNHANDLED)
                else fault_copy pde address old_pde old_pte_value table_refs page_refs s } } })"

end
