(* ===== verification/PageFault.thy ===== *)
theory PageFault
  imports PageTable
begin

text \<open>
  Facts about page-table entries and frames, and the correctness of the copy-on-write resolver and of
  the address-space clone of \<^verbatim>\<open>kernel/arch/x86/i386/page.c\<close>.
\<close>

section \<open>Bits of an entry\<close>

lemma entry_bits:
  "page_entry_has_any e PG_P = bit e 0" "page_entry_has_any e PG_RWW = bit e 1" "page_entry_has_any e PG_SHARED = bit e 10"
  "page_entry_has_any e PG_DEVICE = bit e 9" "page_entry_has_any e PG_COW = bit e 11"
  "(e AND PG_COW = 0) = (\<not> bit e 11)" "(e AND PG_USU = 0) = (\<not> bit e 2)"
  using and_exp_eq_0_iff_not_bit [of e 0] and_exp_eq_0_iff_not_bit [of e 1] and_exp_eq_0_iff_not_bit [of e 2]
    and_exp_eq_0_iff_not_bit [of e 9] and_exp_eq_0_iff_not_bit [of e 10] and_exp_eq_0_iff_not_bit [of e 11]
  by (simp_all add: page_entry_has_any_def)

lemma and_eq_self_iff: "(e AND f = f) \<longleftrightarrow> (\<forall>n < 32. bit f n \<longrightarrow> bit (e :: u32) n)"
  by (auto simp: bit_eq_iff [where 'a = u32] bit_simps)

lemma flag_bits:
  "bit PAGE_USER_PRESENT_FLAGS n \<longleftrightarrow> n = 0 \<or> n = 2" "bit PAGE_USER_RW_FLAGS n \<longleftrightarrow> n = 0 \<or> n = 1 \<or> n = 2"
  "bit PG_USU n \<longleftrightarrow> n = 2"
proof -
  have e: "(4 :: u32) = push_bit 2 1" "(2 :: u32) = push_bit 1 1" by simp_all
  have b: "bit (4 :: u32) n \<longleftrightarrow> n = 2" "bit (2 :: u32) n \<longleftrightarrow> n = 1" "bit (1 :: u32) n \<longleftrightarrow> n = 0" for n
    unfolding e by (simp_all only: bit_push_bit_iff bit_1_iff) auto
  show "bit PAGE_USER_PRESENT_FLAGS n \<longleftrightarrow> n = 0 \<or> n = 2" "bit PAGE_USER_RW_FLAGS n \<longleftrightarrow> n = 0 \<or> n = 1 \<or> n = 2"
    "bit PG_USU n \<longleftrightarrow> n = 2"
    unfolding PAGE_USER_PRESENT_FLAGS_def PAGE_USER_RW_FLAGS_def bit_or_iff b by auto
qed

lemma user_present_bits: "page_entry_has_all e PAGE_USER_PRESENT_FLAGS = (bit e 0 \<and> bit e 2)"
  "page_entry_has_all e PG_USU = bit e 2"
proof -
  have "(\<forall>n < 32. n = 0 \<or> n = 2 \<longrightarrow> bit e n) \<longleftrightarrow> bit e 0 \<and> bit e 2" (is "?l = ?r")
  proof
    assume a: ?l
    show ?r using a [rule_format, of 0] a [rule_format, of 2] by simp
  qed auto
  then show "page_entry_has_all e PAGE_USER_PRESENT_FLAGS = (bit e 0 \<and> bit e 2)"
    unfolding page_entry_has_all_def and_eq_self_iff flag_bits .
  show "page_entry_has_all e PG_USU = bit e 2" unfolding page_entry_has_all_def and_eq_self_iff flag_bits by simp
qed

lemma mask_bits: "bit (0xfffff000 :: u32) n \<longleftrightarrow> 12 \<le> n \<and> n < 32" "bit (0xfff :: u32) n \<longleftrightarrow> n < 12"
proof -
  have a: "(0xfff :: u32) = mask 12" by (simp add: mask_eq_exp_minus_1)
  have b: "(0xfffff000 :: u32) = push_bit 12 (mask 20)" by (simp add: mask_eq_exp_minus_1)
  show "bit (0xfffff000 :: u32) n \<longleftrightarrow> 12 \<le> n \<and> n < 32" "bit (0xfff :: u32) n \<longleftrightarrow> n < 12"
    unfolding a b by (auto simp: bit_push_bit_iff bit_mask_iff)
qed

lemma make_bits: "bit (page_entry_make a f) n \<longleftrightarrow> (if n < 12 then bit f n else n < 32 \<and> bit (of_nat a :: u32) n)"
  unfolding page_entry_make_def bit_or_iff bit_and_iff mask_bits by auto

lemma entry_addr_word: "page_entry_addr e = unat (push_bit 12 (drop_bit 12 e))"
  unfolding page_entry_addr_def
  by (intro arg_cong [of _ _ unat] bit_word_eqI, unfold bit_and_iff mask_bits)
    (auto simp: bit_push_bit_iff bit_drop_bit_eq)

lemma entry_addr_div: "page_entry_addr e = unat e div 4096 * 4096"
proof -
  have lt: "unat e < 2 ^ 32" using unsigned_less [of e] by simp
  then have m: "unat e mod 2 ^ 32 = unat e" by simp
  have "unat (push_bit 12 (drop_bit 12 e)) = 4096 * (unat e div 4096) mod 2 ^ 32"
    unfolding unsigned_push_bit_eq unsigned_drop_bit_eq take_bit_eq_mod
    using m by (simp add: push_bit_eq_mult drop_bit_eq_div mult.commute)
  moreover have "4096 * (unat e div 4096) < 2 ^ 32" by (rule le_less_trans [OF _ lt]) simp
  ultimately show ?thesis unfolding entry_addr_word by simp
qed

lemma entry_addr_aligned [simp]: "page_entry_addr e mod 4096 = 0" "page_entry_addr e < 2 ^ 32"
proof -
  have "unat e < 2 ^ 32" using unsigned_less [of e] by simp
  then show "page_entry_addr e < 2 ^ 32" unfolding entry_addr_div by (rule le_less_trans [rotated]) simp
qed (simp add: entry_addr_div)

lemma entry_addr_eqI: "(\<And>n. 12 \<le> n \<Longrightarrow> n < 32 \<Longrightarrow> bit e n = bit e' n) \<Longrightarrow> page_entry_addr e = page_entry_addr e'"
  unfolding page_entry_addr_def
  by (intro arg_cong [of _ _ unat] bit_word_eqI, unfold bit_and_iff mask_bits) auto

lemma entry_addr_make:
  assumes "a mod 4096 = 0" "a < 2 ^ 32" shows "page_entry_addr (page_entry_make a f) = a"
proof -
  have "page_entry_addr (page_entry_make a f) = page_entry_addr (of_nat a)"
    by (rule entry_addr_eqI) (simp add: make_bits)
  moreover have "unat (of_nat a :: u32) = a" using assms(2) by (simp add: unat_of_nat take_bit_eq_mod)
  ultimately show ?thesis using assms(1) by (simp add: entry_addr_div) (metis add.right_neutral div_mult_mod_eq)
qed

lemma add_flags_bits: "bit (page_entry_add_flags e f) n \<longleftrightarrow> (if n < 12 then bit e n \<or> bit f n else bit e n)"
proof -
  have of: "bit (of_nat (page_entry_addr e) :: u32) n = (bit e n \<and> 12 \<le> n)" if "n < 32" for n
    unfolding page_entry_addr_def of_nat_unat ucast_id bit_and_iff mask_bits using that by auto
  show ?thesis
    unfolding page_entry_add_flags_def make_bits page_entry_flags_def bit_or_iff bit_and_iff mask_bits
    using of [of n] bit_imp_le_length [of e n] by auto
qed

lemma entry_addr_add_flags [simp]: "page_entry_addr (page_entry_add_flags e f) = page_entry_addr e"
  by (rule entry_addr_eqI) (simp add: add_flags_bits)

section \<open>Frames\<close>

lemma in_frame: "b mod 4096 = 0 \<Longrightarrow> k < 1024 \<Longrightarrow> (b + k * 4) div 4096 = b div (4096 :: nat)"
proof -
  assume b: "b mod 4096 = 0" and k: "k < 1024"
  obtain q where q: "b = q * 4096" using b by (metis add.right_neutral div_mult_mod_eq)
  show ?thesis unfolding q using k by simp
qed

lemma frame_range: "b mod 4096 = 0 \<Longrightarrow> b \<le> a \<and> a < b + 4096 \<longleftrightarrow> a div 4096 = b div (4096 :: nat)"
proof -
  assume b: "b mod 4096 = 0"
  obtain q where q: "b = q * 4096" using b by (metis add.right_neutral div_mult_mod_eq)
  have "a div 4096 * 4096 + a mod 4096 = a" "a mod 4096 < 4096" by simp_all
  then show ?thesis unfolding q by (auto simp: div_nat_eqI)
qed

lemma DIDX_less [simp]: "DIDX v < 1024" and TIDX_less [simp]: "TIDX v < 1024"
  by (simp_all add: DIDX_def TIDX_def)

lemma dir_entry_frame: "as mod 4096 = 0 \<Longrightarrow> page_dir_entry as v div 4096 = as div 4096"
  unfolding page_dir_entry_def by (rule in_frame) simp_all

lemma table_entry_frame: "page_table_entry_from_dir d v div 4096 = page_entry_addr d div 4096"
  unfolding page_table_entry_from_dir_def by (rule in_frame) simp_all

lemma aligned_eq: "a mod 4096 = 0 \<Longrightarrow> b mod 4096 = 0 \<Longrightarrow> a div 4096 = b div 4096 \<longleftrightarrow> a = (b :: nat)"
  by (metis div_mult_mod_eq)

text \<open>The frame a fresh page comes from was free.\<close>

lemma alloc_high_fresh:
  assumes "page_alloc_single_high s = Some (s', p)" "alloc_wf s" "pcount s 0 \<noteq> 0"
  shows "alloc_wf s' \<and> pg_mem s' = pg_mem s \<and> pg_zero s' = pg_zero s
    \<and> (p = 0 \<longrightarrow> pg_info s' = pg_info s)
    \<and> (p \<noteq> 0 \<longrightarrow> p mod 4096 = 0 \<and> p < 2 ^ 32 \<and> p div 4096 < PAGE_TOTAL_COUNT \<and> pcount s (p div 4096) = 0
        \<and> pg_info s' = (pg_info s)(p div 4096 := \<lparr>pi_task = 0, pi_count = 1\<rparr>))"
proof (cases "page_find_free_high s")
  case None then show ?thesis using assms by (simp add: page_alloc_single_high_def)
next
  case (Some i)
  have lim: "pg_limit s \<le> PAGE_TOTAL_COUNT" using assms(2) by (simp add: alloc_wf_def hints_ok_def)
  have f: "i < PAGE_TOTAL_COUNT" "page_bitmap_is_free s i"
    using Some lim find_rev_greatest [of "if pg_limit s = 0 then 0 else min (pg_high s + 1) (pg_limit s)" "page_bitmap_is_free s"]
    unfolding high_find by (auto simp: is_greatest_def split: if_splits)
  then have c: "pcount s i = 0" using wf_free [OF assms(2) f(1)] by simp
  obtain t where t: "page_claim_idx i 0 s = Some t" "same_rest s t" "pg_info t = (pg_info s)(i := \<lparr>pi_task = 0, pi_count = 1\<rparr>)"
    using claim_ok [OF assms(2) f(1) c] by blast
  have i: "i \<noteq> 0" using c assms(3) by metis
  have P: "PAGE i = i * 4096" "i * 4096 < 2 ^ 32" using f(1) by (simp_all add: PAGE_def PAGE_TOTAL_COUNT_def)
  have Q: "PAGE i mod 4096 = 0" "PAGE i div 4096 = i" unfolding P(1) by simp_all
  have "alloc_wf s'" by (rule alloc_single_high_wf [OF assms(1,2)])
  then show ?thesis using assms(1) Some t P Q i f(1) c
    by (auto simp: page_alloc_single_high_def same_rest_def)
qed

section \<open>What a resolved fault did\<close>

lemma ref_dec_mem: "page_ref_dec_idx i s = Some s' \<Longrightarrow> pg_mem s' = pg_mem s"
  using ref_dec_step [of i s s'] by (cases "is_zero_page s i") (auto simp: page_ref_dec_idx_def frame_step_def same_rest_def)

lemma ref_inc_mem: "page_ref_inc_idx i s = Some s' \<Longrightarrow> pg_mem s' = pg_mem s"
  using ref_inc_step [of i s s'] by (cases "is_zero_page s i") (auto simp: page_ref_inc_idx_def frame_step_def same_rest_def)

abbreviation wants_copy :: "u32 \<Rightarrow> u32 \<Rightarrow> bool" where
  "wants_copy refs e \<equiv> refs > 1 \<and> \<not> page_entry_has_any e PG_SHARED"

abbreviation copies_page :: "u32 \<Rightarrow> u32 \<Rightarrow> bool" where
  "copies_page refs e \<equiv> \<not> page_entry_has_any e PG_RWW \<and> refs > 1 \<and> \<not> page_entry_has_any e PG_SHARED"

lemma fault_copy_cases:
  assumes "fault_copy pde v d e tr pr s = Some (s', PAGE_FAULT_RESOLVED)"
  obtains s1 nt s2 np where
      "if wants_copy tr d then page_alloc_single_high s = Some (s1, nt) \<and> nt \<noteq> 0 else s1 = s \<and> nt = 0"
      "if copies_page pr e then page_alloc_single_high s1 = Some (s2, np) \<and> np \<noteq> 0 else s2 = s1 \<and> np = 0"
      "fault_install pde v d e nt np s2 = Some s'"
proof -
  define A where "A = (if wants_copy tr d then page_alloc_single_high s else Some (s, 0))"
  obtain s1 nt where A: "A = Some (s1, nt)" "\<not> (wants_copy tr d \<and> nt = 0)"
    using assms unfolding fault_copy_def Let_def A_def [symmetric] by (auto simp: bind_eq_Some_conv split: if_splits)
  define B where "B = (if copies_page pr e then page_alloc_single_high s1 else Some (s1, 0))"
  obtain s2 np where B: "B = Some (s2, np)" "\<not> (copies_page pr e \<and> np = 0)" "fault_install pde v d e nt np s2 = Some s'"
    using assms unfolding fault_copy_def Let_def A_def [symmetric] A(1) Option.bind.simps prod.case if_not_P [OF A(2)]
      B_def [symmetric] by (auto simp: bind_eq_Some_conv split: if_splits)
  show ?thesis
    by (rule that [of s1 nt s2 np]) (use A B in \<open>auto simp: A_def B_def split: if_splits\<close>)
qed

lemma fault_cases:
  assumes "arch_page_fault_resolve active owned v error s = Some (s', PAGE_FAULT_RESOLVED)"
    and d: "d = pg_mem s (page_dir_entry active v)" and e: "e = pg_mem s (page_table_entry_from_dir d v)"
  shows "page_entry_has_all d PAGE_USER_PRESENT_FLAGS \<and> page_entry_has_all e PAGE_USER_PRESENT_FLAGS
    \<and> active mod PAGE_SIZE_BYTES = 0
    \<and> (page_entry_has_any d PG_RWW \<and> page_entry_has_any e PG_RWW \<and> s' = s
       \<or> (\<exists>tr pr. page_refcount_entry d s = Some tr \<and> page_refcount_entry e s = Some pr
            \<and> fault_copy (page_dir_entry active v) v d e tr pr s = Some (s', PAGE_FAULT_RESOLVED)))"
  using assms(1) unfolding arch_page_fault_resolve_def Let_def d [symmetric] e [symmetric]
  by (simp add: bind_eq_Some_conv split: if_splits) blast

text \<open>The entry the resolver writes: present, user, writable and no longer copy-on-write.\<close>

definition fault_entry :: "u32 \<Rightarrow> nat \<Rightarrow> u32" where
  "fault_entry e np = (if np \<noteq> 0 then page_entry_make np (page_entry_flags e OR PAGE_USER_RW_FLAGS)
                       else page_entry_add_flags e PAGE_USER_RW_FLAGS) AND NOT PG_COW"

definition fault_dir :: "u32 \<Rightarrow> nat \<Rightarrow> u32" where
  "fault_dir d nt = (if nt \<noteq> 0 then page_entry_make nt (page_entry_flags d OR PAGE_USER_RW_FLAGS)
                     else page_entry_add_flags d PAGE_USER_RW_FLAGS)"

lemma bit_not_cow: "n < 32 \<Longrightarrow> bit (NOT PG_COW) n = (n \<noteq> 11)"
proof -
  have "(2048 :: u32) = push_bit 11 1" by simp
  then have "bit (2048 :: u32) n = (n = 11)" if "n < 32"
    using that by (simp only: bit_push_bit_iff bit_1_iff) auto
  then show "n < 32 \<Longrightarrow> bit (NOT PG_COW) n = (n \<noteq> 11)" by (simp only: bit_not_iff) auto
qed

lemma fault_entry_bits:
  "bit (fault_entry e np) 0" "bit (fault_entry e np) 1" "bit (fault_entry e np) 2" "\<not> bit (fault_entry e np) 11"
  unfolding fault_entry_def by (simp_all add: bit_and_iff bit_not_cow make_bits add_flags_bits bit_or_iff flag_bits del: bit_not_iff)

lemma fault_entry_addr:
  assumes "np \<noteq> 0 \<longrightarrow> np mod 4096 = 0 \<and> np < 2 ^ 32"
  shows "page_entry_addr (fault_entry e np) = (if np \<noteq> 0 then np else page_entry_addr e)"
proof -
  let ?x = "if np \<noteq> 0 then page_entry_make np (page_entry_flags e OR PAGE_USER_RW_FLAGS) else page_entry_add_flags e PAGE_USER_RW_FLAGS"
  have "page_entry_addr (fault_entry e np) = page_entry_addr ?x"
    unfolding fault_entry_def by (rule entry_addr_eqI) (auto simp only: bit_and_iff bit_not_cow)
  then show ?thesis using assms by (simp add: entry_addr_make)
qed

lemma fault_dir_addr:
  assumes "nt \<noteq> 0 \<longrightarrow> nt mod 4096 = 0 \<and> nt < 2 ^ 32"
  shows "page_entry_addr (fault_dir d nt) = (if nt \<noteq> 0 then nt else page_entry_addr d)"
    "page_entry_has_all (fault_dir d nt) PAGE_USER_PRESENT_FLAGS"
  using assms unfolding fault_dir_def user_present_bits
  by (simp_all add: entry_addr_make make_bits add_flags_bits bit_or_iff flag_bits)

lemma of_nat_entry: "n mod 4096 = 0 \<Longrightarrow> n < 2 ^ 32 \<Longrightarrow> page_table_entry_from_dir (of_nat n) v = n + TIDX v * 4"
proof -
  assume n: "n mod 4096 = 0" "n < 2 ^ 32"
  have "unat (of_nat n :: u32) = n" using n(2) by (simp add: unat_of_nat take_bit_eq_mod)
  then have "page_entry_addr (of_nat n) = n" using n(1) by (simp add: entry_addr_div) (metis add.right_neutral div_mult_mod_eq)
  then show ?thesis by (simp add: page_table_entry_from_dir_def)
qed

text \<open>The memory after the resolver, word by word.\<close>

lemma fault_install_mem:
  assumes "fault_install pde v d e nt np s = Some s'" and nt: "nt \<noteq> 0 \<longrightarrow> nt mod 4096 = 0 \<and> nt < 2 ^ 32"
    and np: "np \<noteq> 0 \<longrightarrow> np mod 4096 = 0 \<and> (nt \<noteq> 0 \<longrightarrow> page_entry_addr e \<noteq> nt)"
  defines "tp \<equiv> (if nt \<noteq> 0 then nt else page_entry_addr d) + TIDX v * 4"
  shows "pg_mem s' a = (if a = pde then fault_dir d nt
     else if a = tp then fault_entry e np
     else if np \<noteq> 0 \<and> a div 4096 = np div 4096 then pg_mem s (page_entry_addr e + (a - np))
     else if nt \<noteq> 0 \<and> a div 4096 = nt div 4096 then pg_mem s (page_entry_addr d + (a - nt))
     else pg_mem s a)"
proof -
  define s1 where "s1 = (if nt \<noteq> 0 then page_copy nt (page_entry_addr d) s else s)"
  define s2 where "s2 = (if np \<noteq> 0 then page_copy np (page_entry_addr e) s1 else s1)"
  define s3 where "s3 = mem_write pde (fault_dir d nt) (mem_write tp (fault_entry e np) s2)"
  have tp: "(if nt \<noteq> 0 then page_table_entry_from_dir (of_nat nt) v else page_table_entry_from_dir d v) = tp"
    using nt by (simp add: tp_def of_nat_entry) (simp add: page_table_entry_from_dir_def)
  have "\<exists>u. pg_mem u = pg_mem s3 \<and> (if np \<noteq> 0 then page_ref_dec_entry e u else Some u) \<bind>
      (\<lambda>s. if nt \<noteq> 0 then page_ref_dec_entry d s else Some s) = Some s'"
    using assms(1) unfolding fault_install_def Let_def tp s1_def [symmetric] fault_dir_def [symmetric]
    by (intro exI [of _ s3]) (cases "np = 0"; simp add: s3_def s2_def fault_entry_def mem_write_def)
  then have m: "pg_mem s' = pg_mem s3"
    by (auto simp: bind_eq_Some_conv page_ref_dec_entry_def split: if_splits dest!: ref_dec_mem)
  have m1: "pg_mem s1 b = (if nt \<noteq> 0 \<and> b div 4096 = nt div 4096 then pg_mem s (page_entry_addr d + (b - nt)) else pg_mem s b)" for b
    using nt frame_range [of nt b] by (auto simp: s1_def page_copy_def)
  have src: "pg_mem s1 (page_entry_addr e + (b - np)) = pg_mem s (page_entry_addr e + (b - np))"
    if "np \<noteq> 0" "b div 4096 = np div 4096" for b
  proof (cases "nt = 0")
    case False
    have r: "np \<le> b" "b < np + 4096" using that np frame_range [of np b] by auto
    have "page_entry_addr e \<le> page_entry_addr e + (b - np) \<and> page_entry_addr e + (b - np) < page_entry_addr e + 4096"
      using r by linarith
    then have "(page_entry_addr e + (b - np)) div 4096 = page_entry_addr e div 4096"
      by (rule iffD1 [OF frame_range, rotated]) simp
    moreover have "page_entry_addr e div 4096 \<noteq> nt div 4096" using np nt that(1) False aligned_eq by simp
    ultimately show ?thesis unfolding m1 by simp
  qed (simp add: s1_def)
  have m2: "pg_mem s2 b = (if np \<noteq> 0 \<and> b div 4096 = np div 4096 then pg_mem s (page_entry_addr e + (b - np)) else pg_mem s1 b)" for b
    using np frame_range [of np b] src [of b] by (auto simp: s2_def page_copy_def)
  show ?thesis unfolding m s3_def by (simp add: mem_write_def m2 m1)
qed

section \<open>Copy on write\<close>

text \<open>What the address space \<open>as\<close> maps at \<open>v\<close>: the entry of its table, if the directory has one.\<close>

definition user_entry :: "mm \<Rightarrow> nat \<Rightarrow> nat \<Rightarrow> u32 option" where
  "user_entry s as v =
     (let d = pg_mem s (page_dir_entry as v)
      in if page_entry_has_all d PAGE_USER_PRESENT_FLAGS then Some (pg_mem s (page_table_entry_from_dir d v)) else None)"

text \<open>The directory, the table and the page behind \<open>v\<close> are three different frames in use.\<close>

definition frames_apart :: "mm \<Rightarrow> nat \<Rightarrow> nat \<Rightarrow> bool" where
  "frames_apart s as v \<longleftrightarrow>
     (let d = pg_mem s (page_dir_entry as v); t = page_entry_addr d; f = page_entry_addr (pg_mem s (page_table_entry_from_dir d v))
      in as mod 4096 = 0 \<and> pcount s (as div 4096) \<noteq> 0 \<and> pcount s (t div 4096) \<noteq> 0 \<and> pcount s (f div 4096) \<noteq> 0
         \<and> as \<noteq> t \<and> as \<noteq> f \<and> t \<noteq> f)"

text \<open>The frames a copying fault took, and the memory it left.\<close>

lemma fault_copy_mem:
  assumes "fault_copy (page_dir_entry as v) v d e tr pr s = Some (s', PAGE_FAULT_RESOLVED)"
    and "alloc_wf s" "pcount s 0 \<noteq> 0" and d: "d = pg_mem s (page_dir_entry as v)"
    and e: "e = pg_mem s (page_table_entry_from_dir d v)" and ap: "frames_apart s as v"
  obtains nt np where
    "nt \<noteq> 0 \<longleftrightarrow> wants_copy tr d" "np \<noteq> 0 \<longleftrightarrow> copies_page pr e"
    "nt \<noteq> 0 \<longrightarrow> nt mod 4096 = 0 \<and> nt < 2 ^ 32 \<and> pcount s (nt div 4096) = 0"
    "np \<noteq> 0 \<longrightarrow> np mod 4096 = 0 \<and> np < 2 ^ 32 \<and> pcount s (np div 4096) = 0 \<and> np \<noteq> nt"
    "\<And>a. pg_mem s' a = (if a = page_dir_entry as v then fault_dir d nt
     else if a = (if nt \<noteq> 0 then nt else page_entry_addr d) + TIDX v * 4 then fault_entry e np
     else if np \<noteq> 0 \<and> a div 4096 = np div 4096 then pg_mem s (page_entry_addr e + (a - np))
     else if nt \<noteq> 0 \<and> a div 4096 = nt div 4096 then pg_mem s (page_entry_addr d + (a - nt))
     else pg_mem s a)"
proof -
  have used: "pcount s (page_entry_addr e div 4096) \<noteq> 0" using ap d e by (simp add: frames_apart_def Let_def)
  obtain s1 nt s2 np where
    A: "if wants_copy tr d then page_alloc_single_high s = Some (s1, nt) \<and> nt \<noteq> 0 else s1 = s \<and> nt = 0"
    and B: "if copies_page pr e then page_alloc_single_high s1 = Some (s2, np) \<and> np \<noteq> 0 else s2 = s1 \<and> np = 0"
    and C: "fault_install (page_dir_entry as v) v d e nt np s2 = Some s'"
    using fault_copy_cases [OF assms(1)] by metis
  have n: "nt \<noteq> 0 \<longrightarrow> nt mod 4096 = 0 \<and> nt < 2 ^ 32 \<and> pcount s (nt div 4096) = 0"
    and m1: "pg_mem s1 = pg_mem s" and w1: "alloc_wf s1"
    and i1: "nt \<noteq> 0 \<longrightarrow> pg_info s1 = (pg_info s)(nt div 4096 := \<lparr>pi_task = 0, pi_count = 1\<rparr>)" "nt = 0 \<longrightarrow> s1 = s"
    using A alloc_high_fresh [of s s1 nt] assms(2,3) by (auto split: if_splits)
  have z1: "pcount s1 0 \<noteq> 0" using i1 assms(3) by (cases "nt = 0") auto
  have p: "np \<noteq> 0 \<longrightarrow> np mod 4096 = 0 \<and> np < 2 ^ 32 \<and> pcount s1 (np div 4096) = 0" and m2: "pg_mem s2 = pg_mem s1"
    using B alloc_high_fresh [of s1 s2 np, OF _ w1 z1] by (auto split: if_splits)
  have q: "np \<noteq> 0 \<longrightarrow> pcount s (np div 4096) = 0 \<and> np \<noteq> nt"
  proof
    assume np: "np \<noteq> 0"
    show "pcount s (np div 4096) = 0 \<and> np \<noteq> nt"
    proof (cases "nt = 0")
      case True then show ?thesis using p np i1 by simp
    next
      case False
      then have "np div 4096 \<noteq> nt div 4096" using p np i1 by auto
      then show ?thesis using p np i1 False by auto
    qed
  qed
  have fe: "nt \<noteq> 0 \<longrightarrow> page_entry_addr e \<noteq> nt" using used n by auto
  have na: "nt \<noteq> 0 \<longrightarrow> nt mod 4096 = 0 \<and> nt < 2 ^ 32" "np \<noteq> 0 \<longrightarrow> np mod 4096 = 0 \<and> (nt \<noteq> 0 \<longrightarrow> page_entry_addr e \<noteq> nt)"
    using n p fe by auto
  have ez: "page_entry_addr e \<noteq> nt \<or> nt = 0" using fe by auto
  show ?thesis
  proof (rule that [of nt np])
    show "nt \<noteq> 0 \<longleftrightarrow> wants_copy tr d" "np \<noteq> 0 \<longleftrightarrow> copies_page pr e" using A B by (auto split: if_splits)
  qed (use n p q fault_install_mem [OF C na(1)] na m1 m2 ez in auto)
qed

lemma dir_entry_eq: "as mod 4096 = 0 \<Longrightarrow> page_dir_entry as v = page_dir_entry as w \<longleftrightarrow> DIDX v = DIDX w"
  by (simp add: page_dir_entry_def)

lemma dir_entry_cong: "DIDX v = DIDX w \<Longrightarrow> page_dir_entry as v = page_dir_entry as w"
  by (simp add: page_dir_entry_def)

text \<open>C6: a resolved write fault gives the process a writable page with the same contents.  When the resolver
  of a task's write fault answers \<open>PAGE_FAULT_RESOLVED\<close>, the faulting address is mapped present, for the
  user and writable; all 1024 words of the page read as before; a page that was shared copy-on-write
  now sits in a frame nobody used; and the other pages of the same table are mapped as before.\<close>

theorem page_fault_private:
  assumes res: "arch_page_fault_resolve as owned v error s = Some (s', PAGE_FAULT_RESOLVED)"
    and "alloc_wf s" "pcount s 0 \<noteq> 0" and ap: "frames_apart s as v"
  shows "\<exists>e e'. user_entry s as v = Some e \<and> user_entry s' as v = Some e' \<and> bit e' 0 \<and> bit e' 1 \<and> bit e' 2
    \<and> (\<forall>k < 1024. pg_mem s' (page_entry_addr e' + k * 4) = pg_mem s (page_entry_addr e + k * 4))
    \<and> (\<forall>pr. page_refcount_entry e s = Some pr \<and> copies_page pr e \<longrightarrow> pcount s (page_entry_addr e' div 4096) = 0)
    \<and> (\<forall>w. DIDX w = DIDX v \<and> TIDX w \<noteq> TIDX v \<longrightarrow> user_entry s' as w = user_entry s as w)"
proof -
  define d where "d = pg_mem s (page_dir_entry as v)"
  define e where "e = pg_mem s (page_table_entry_from_dir d v)"
  define t where "t = page_entry_addr d"
  define f where "f = page_entry_addr e"
  note cs = fault_cases [OF res d_def e_def]
  have al: "as mod 4096 = 0" and ue: "user_entry s as v = Some e"
    using cs by (simp_all add: user_entry_def Let_def d_def [symmetric] e_def [symmetric])
  have fr: "pcount s (as div 4096) \<noteq> 0" "pcount s (t div 4096) \<noteq> 0" "pcount s (f div 4096) \<noteq> 0" "as \<noteq> t" "as \<noteq> f" "t \<noteq> f"
    using ap by (simp_all add: frames_apart_def Let_def d_def [symmetric] e_def [symmetric] t_def [symmetric] f_def [symmetric])
  have tm: "t mod 4096 = 0" "f mod 4096 = 0" by (simp_all add: t_def f_def)
  show ?thesis
  proof (cases "page_entry_has_any d PG_RWW \<and> page_entry_has_any e PG_RWW \<and> s' = s")
    case True
    then have "\<not> copies_page pr e" for pr by simp
    moreover have "bit e 0" "bit e 1" "bit e 2" using cs True by (simp_all add: user_present_bits entry_bits)
    ultimately show ?thesis using ue True by auto
  next
    case False
    then obtain tr pr where tr: "page_refcount_entry d s = Some tr" "page_refcount_entry e s = Some pr"
      "fault_copy (page_dir_entry as v) v d e tr pr s = Some (s', PAGE_FAULT_RESOLVED)" using cs by auto
    obtain nt np where w: "nt \<noteq> 0 \<longleftrightarrow> wants_copy tr d" "np \<noteq> 0 \<longleftrightarrow> copies_page pr e"
      and nt: "nt \<noteq> 0 \<longrightarrow> nt mod 4096 = 0 \<and> nt < 2 ^ 32 \<and> pcount s (nt div 4096) = 0"
      and np: "np \<noteq> 0 \<longrightarrow> np mod 4096 = 0 \<and> np < 2 ^ 32 \<and> pcount s (np div 4096) = 0 \<and> np \<noteq> nt"
      and m: "\<And>a. pg_mem s' a = (if a = page_dir_entry as v then fault_dir d nt
         else if a = (if nt \<noteq> 0 then nt else t) + TIDX v * 4 then fault_entry e np
         else if np \<noteq> 0 \<and> a div 4096 = np div 4096 then pg_mem s (f + (a - np))
         else if nt \<noteq> 0 \<and> a div 4096 = nt div 4096 then pg_mem s (t + (a - nt)) else pg_mem s a)"
      by (rule fault_copy_mem [OF tr(3) assms(2,3) d_def e_def ap, folded t_def f_def]) (rule that; assumption)
    define t' where "t' = (if nt \<noteq> 0 then nt else t)"
    define f' where "f' = (if np \<noteq> 0 then np else f)"
    have at: "t' mod 4096 = 0" "f' mod 4096 = 0" using nt np tm by (simp_all add: t'_def f'_def)
    have asne: "as div 4096 \<noteq> t' div 4096" "as div 4096 \<noteq> f' div 4096"
      using fr nt np al tm aligned_eq by (auto simp: t'_def f'_def)
    have tf: "t' div 4096 \<noteq> f' div 4096" using fr nt np tm aligned_eq by (auto simp: t'_def f'_def)
    note md = fault_dir_addr [of nt d, folded t_def t'_def]
    have ad: "page_entry_addr (fault_dir d nt) = t'" using md(1) nt by (simp add: t'_def)
    have ae: "page_entry_addr (fault_entry e np) = f'" using fault_entry_addr [of np e] np by (simp add: f'_def f_def)
    have pe: "page_dir_entry as w div 4096 = as div 4096" for w by (rule dir_entry_frame [OF al])
    have te: "(t' + TIDX w * 4) div 4096 = t' div 4096" for w by (rule in_frame [OF at(1)]) simp
    have fk: "(f' + k * 4) div 4096 = f' div 4096" if "k < 1024" for k by (rule in_frame [OF at(2) that])
    have e': "user_entry s' as v = Some (fault_entry e np)"
    proof -
      have "pg_mem s' (t' + TIDX v * 4) = fault_entry e np"
        using m [of "t' + TIDX v * 4", folded t'_def] te [of v] pe [of v] asne(1) by auto
      then show ?thesis using m [of "page_dir_entry as v"] md(2) nt ad
        by (simp add: user_entry_def Let_def page_table_entry_from_dir_def t'_def)
    qed
    have cont: "pg_mem s' (f' + k * 4) = pg_mem s (f + k * 4)" if k: "k < 1024" for k
    proof -
      have 1: "f' + k * 4 \<noteq> page_dir_entry as v" using fk [OF k] pe [of v] asne(2) by metis
      have 2: "f' + k * 4 \<noteq> t' + TIDX v * 4" using fk [OF k] te [of v] tf by metis
      show ?thesis
      proof (cases "np = 0")
        case True
        have "\<not> (nt \<noteq> 0 \<and> (f' + k * 4) div 4096 = nt div 4096)" using tf fk [OF k] by (auto simp: t'_def)
        then show ?thesis using m [of "f' + k * 4", folded t'_def] 1 2 True unfolding f'_def by auto
      next
        case False
        then show ?thesis using m [of "f' + k * 4", folded t'_def] 1 2 fk [OF k] by (simp add: f'_def)
      qed
    qed
    have fresh: "pcount s (f' div 4096) = 0" if "copies_page pr e" using that w(2) np by (simp add: f'_def)
    have other: "user_entry s' as w = user_entry s as w" if w: "DIDX w = DIDX v" "TIDX w \<noteq> TIDX v" for w
    proof -
      have dw: "page_dir_entry as w = page_dir_entry as v" using w(1) by (rule dir_entry_cong)
      have 1: "t' + TIDX w * 4 \<noteq> page_dir_entry as v" using te [of w] pe [of v] asne(1) by metis
      have 2: "t' + TIDX w * 4 \<noteq> t' + TIDX v * 4" using w(2) by simp
      have 3: "\<not> (np \<noteq> 0 \<and> (t' + TIDX w * 4) div 4096 = np div 4096)" using te [of w] tf by (auto simp: f'_def)
      have 4: "pg_mem s' (t' + TIDX w * 4) = pg_mem s (t + TIDX w * 4)"
      proof (cases "nt = 0")
        case True then show ?thesis using m [of "t' + TIDX w * 4", folded t'_def] 1 2 3 unfolding t'_def by auto
      next
        case False
        then show ?thesis using m [of "t' + TIDX w * 4", folded t'_def] 1 2 3 te [of w] unfolding t'_def by auto
      qed
      show ?thesis using m [of "page_dir_entry as v"] md(2) nt ad 4 cs
        by (simp add: user_entry_def Let_def dw page_table_entry_from_dir_def d_def [symmetric] t_def [symmetric] t'_def)
    qed
    show ?thesis
    proof (rule exI [of _ e], rule exI [of _ "fault_entry e np"], intro conjI allI impI)
      fix k :: nat assume "k < 1024"
      then show "pg_mem s' (page_entry_addr (fault_entry e np) + k * 4) = pg_mem s (page_entry_addr e + k * 4)"
        using cont unfolding ae f_def [symmetric] by simp
    next
      fix r assume "page_refcount_entry e s = Some r \<and> copies_page r e"
      then show "pcount s (page_entry_addr (fault_entry e np) div 4096) = 0" using fresh tr(2) unfolding ae by simp
    qed (use ue e' fault_entry_bits other in auto)
  qed
qed

text \<open>Two processes (directories at 20480 and 8192) that share the page at 0x70000000 copy-on-write.\<close>

definition mm_cow :: mm where
  "mm_cow = set_info 7 0 2 (mem_write 9984 4103 (mem_write 4096 30725 (mem_write 24576 30725 (mem_write 22272 24583 mm_example))))"

lemma mm_cow_fields [simp]:
  "pg_info mm_cow = (pg_info mm_example)(7 := \<lparr>pi_task = 0, pi_count = 2\<rparr>)" "pg_zero mm_cow = 0" "pg_limit mm_cow = 12"
  "pg_high mm_cow = 11" "pg_mem mm_cow = (\<lambda>_. 0)(22272 := 24583, 24576 := 30725, 4096 := 30725, 9984 := 4103)"
  "page_bitmap_is_free mm_cow = page_bitmap_is_free mm_example"
  by (simp_all add: mm_cow_def mem_write_def mm_example_def fun_eq_iff is_free_bit)

lemma mm_cow_wf: "alloc_wf mm_cow"
proof -
  have "alloc_wf (mem_write 9984 4103 (mem_write 4096 30725 (mem_write 24576 30725 (mem_write 22272 24583 mm_example))))"
    using mm_example_wf by (simp add: alloc_wf_def hints_ok_def zero_ok_def mem_write_def is_free_bit)
  then show ?thesis
    by (auto simp: mm_cow_def alloc_wf_def hints_ok_def zero_ok_def frame_ok_def mm_example_free)
      (auto simp: mem_write_def mm_example_def is_free_bit)
qed

lemma mm_cow_resolve: "\<exists>s'. arch_page_fault_resolve 20480 True 0x70000000 7 mm_cow = Some (s', PAGE_FAULT_RESOLVED)"
proof -
  have bits: "page_entry_has_all 24583 PAGE_USER_PRESENT_FLAGS" "page_entry_has_all 30725 PAGE_USER_PRESENT_FLAGS"
    "\<not> page_entry_has_any 30725 PG_RWW" "\<not> page_entry_has_any 30725 PG_SHARED" "(30725 :: u32) AND PG_COW \<noteq> 0"
    "page_entry_addr 24583 = 24576" "page_entry_addr 30725 = 28672"
    by (simp_all add: page_entry_has_all_def page_entry_has_any_def PAGE_USER_PRESENT_FLAGS_def page_entry_addr_def)
  have pde: "page_dir_entry 20480 0x70000000 = 22272" by (simp add: page_dir_entry_def DIDX_def)
  have pte: "page_table_entry_from_dir 24583 0x70000000 = 24576" by (simp add: page_table_entry_from_dir_def bits TIDX_def)
  have g: "is_greatest (\<lambda>i. i < 12 \<and> page_bitmap_is_free mm_cow i) (Some 11)"
    using mm_example_free by (auto simp: is_greatest_def)
  have f: "page_find_free_high mm_cow = Some 11"
    unfolding high_find using is_greatest_unique [OF find_rev_greatest g] by simp
  have i: "pcount mm_cow 11 = 0" "11 < PAGE_TOTAL_COUNT" by (simp_all add: mm_example_def PAGE_TOTAL_COUNT_def)
  obtain t where t: "page_claim_idx 11 0 mm_cow = Some t" "same_rest mm_cow t"
    "pg_info t = (pg_info mm_cow)(11 := \<lparr>pi_task = 0, pi_count = 1\<rparr>)"
    using claim_ok [OF mm_cow_wf i(2,1)] by blast
  define s1 where "s1 = t\<lparr>pg_high := 10, pg_kasan := kasan_page_alloc 45056 PAGE_SIZE_BYTES PAGE_SIZE_BYTES (pg_kasan t)\<rparr>"
  have a: "page_alloc_single_high mm_cow = Some (s1, 45056)"
    using f t(1) by (simp add: page_alloc_single_high_def s1_def PAGE_def)
  have s1: "pg_info s1 = (pg_info mm_cow)(11 := \<lparr>pi_task = 0, pi_count = 1\<rparr>)" "pg_zero s1 = 0"
    using t by (simp_all add: s1_def same_rest_def)
  have dec: "\<exists>s'. page_ref_dec_entry 30725 u = Some s'" if "pg_info u = pg_info s1" "pg_zero u = 0" for u
    using that by (simp add: page_ref_dec_entry_def bits page_ref_dec_idx_def IDX_def PAGE_TOTAL_COUNT_def s1)
  have "\<exists>s'. fault_install 22272 0x70000000 24583 30725 0 45056 s1 = Some s'"
    using dec s1(2) by (simp add: fault_install_def Let_def mem_write_def page_copy_def)
  then have "\<exists>s'. fault_copy 22272 0x70000000 24583 30725 1 2 mm_cow = Some (s', PAGE_FAULT_RESOLVED)"
    using a bits by (simp add: fault_copy_def) (auto simp: page_entry_has_any_def)
  then show ?thesis
    by (simp add: arch_page_fault_resolve_def page_refcount_idx_def page_refcount_entry_def IDX_def PAGE_TOTAL_COUNT_def
        pde pte bits) (simp add: mm_example_def)
qed

theorem page_fault_private_witness:
  "\<exists>s' e'. arch_page_fault_resolve 20480 True 0x70000000 7 mm_cow = Some (s', PAGE_FAULT_RESOLVED)
     \<and> user_entry s' 20480 0x70000000 = Some e' \<and> bit e' 1"
proof -
  obtain s' where r: "arch_page_fault_resolve 20480 True 0x70000000 7 mm_cow = Some (s', PAGE_FAULT_RESOLVED)"
    using mm_cow_resolve by blast
  have z: "pcount mm_cow 0 \<noteq> 0" by (simp add: mm_example_def)
  have ap: "frames_apart mm_cow 20480 0x70000000"
    by (simp add: frames_apart_def Let_def page_dir_entry_def DIDX_def page_table_entry_from_dir_def TIDX_def page_entry_addr_def
        mm_example_def)
  show ?thesis using page_fault_private [OF r mm_cow_wf z ap] r by auto
qed

text \<open>C7: a resolved write fault is invisible to every other address space.  Take another place \<open>w\<close> of any
  address space \<open>q\<close> whose directory is in use and is not the faulting one's table, whose directory entry is not
  the faulting one and whose table is in use, and whose table, if it is the faulting process's table, was
  shared (so that the resolver copied it): after the resolver has answered RESOLVED its mapping is
  the same, and every word of every frame in use other than the faulting directory and table
  is unchanged, so the other process keeps reading the old contents.\<close>

theorem page_fault_isolated:
  assumes res: "arch_page_fault_resolve as owned v error s = Some (s', PAGE_FAULT_RESOLVED)"
    and "alloc_wf s" "pcount s 0 \<noteq> 0" and ap: "frames_apart s as v"
    and "q mod 4096 = 0" "pcount s (q div 4096) \<noteq> 0" "page_dir_entry q w \<noteq> page_dir_entry as v"
    and "q \<noteq> page_entry_addr (pg_mem s (page_dir_entry as v))"
    and "tbl = page_entry_addr (pg_mem s (page_dir_entry q w))" "pcount s (tbl div 4096) \<noteq> 0" "tbl \<noteq> as"
    and "tbl = page_entry_addr (pg_mem s (page_dir_entry as v)) \<Longrightarrow>
           \<exists>tr. page_refcount_entry (pg_mem s (page_dir_entry as v)) s = Some tr \<and> wants_copy tr (pg_mem s (page_dir_entry as v))"
  shows "user_entry s' q w = user_entry s q w
    \<and> (\<forall>a. pcount s (a div 4096) \<noteq> 0 \<and> a div 4096 \<noteq> as div 4096
           \<and> a div 4096 \<noteq> page_entry_addr (pg_mem s (page_dir_entry as v)) div 4096 \<longrightarrow> pg_mem s' a = pg_mem s a)"
proof -
  define d where "d = pg_mem s (page_dir_entry as v)"
  define e where "e = pg_mem s (page_table_entry_from_dir d v)"
  define t where "t = page_entry_addr d"
  define f where "f = page_entry_addr e"
  note cs = fault_cases [OF res d_def e_def]
  have al: "as mod 4096 = 0" using cs by simp
  show ?thesis
  proof (cases "page_entry_has_any d PG_RWW \<and> page_entry_has_any e PG_RWW \<and> s' = s")
    case True then show ?thesis by simp
  next
    case False
    then obtain tr pr where tr: "page_refcount_entry d s = Some tr" "page_refcount_entry e s = Some pr"
      "fault_copy (page_dir_entry as v) v d e tr pr s = Some (s', PAGE_FAULT_RESOLVED)" using cs by auto
    obtain nt np where wc: "nt \<noteq> 0 \<longleftrightarrow> wants_copy tr d"
      and nt: "nt \<noteq> 0 \<longrightarrow> nt mod 4096 = 0 \<and> nt < 2 ^ 32 \<and> pcount s (nt div 4096) = 0"
      and np: "np \<noteq> 0 \<longrightarrow> np mod 4096 = 0 \<and> np < 2 ^ 32 \<and> pcount s (np div 4096) = 0 \<and> np \<noteq> nt"
      and m: "\<And>a. pg_mem s' a = (if a = page_dir_entry as v then fault_dir d nt
         else if a = (if nt \<noteq> 0 then nt else t) + TIDX v * 4 then fault_entry e np
         else if np \<noteq> 0 \<and> a div 4096 = np div 4096 then pg_mem s (f + (a - np))
         else if nt \<noteq> 0 \<and> a div 4096 = nt div 4096 then pg_mem s (t + (a - nt)) else pg_mem s a)"
      by (rule fault_copy_mem [OF tr(3) assms(2,3) d_def e_def ap, folded t_def f_def]) (rule that; assumption)
    define t' where "t' = (if nt \<noteq> 0 then nt else t)"
    have t': "t' mod 4096 = 0" using nt by (simp add: t'_def t_def)
    have te: "(t' + TIDX v * 4) div 4096 = t' div 4096" by (rule in_frame [OF t']) simp
    have keep: "pg_mem s' a = pg_mem s a"
      if "pcount s (a div 4096) \<noteq> 0" "a \<noteq> page_dir_entry as v" "a div 4096 \<noteq> t' div 4096" for a
    proof -
      have "a \<noteq> t' + TIDX v * 4" using that(3) te by metis
      moreover have "\<not> (np \<noteq> 0 \<and> a div 4096 = np div 4096)" "\<not> (nt \<noteq> 0 \<and> a div 4096 = nt div 4096)"
        using that(1) nt np by auto
      ultimately show ?thesis using m [of a, folded t'_def] that(2) by auto
    qed
    have q': "q div 4096 \<noteq> t' div 4096"
      using assms(5,6,8) nt aligned_eq [OF assms(5)] by (auto simp: t'_def t_def d_def)
    have od: "page_dir_entry q w div 4096 = q div 4096" by (rule dir_entry_frame [OF assms(5)])
    have 1: "pg_mem s' (page_dir_entry q w) = pg_mem s (page_dir_entry q w)"
      by (rule keep) (use assms(6,7) q' od in simp_all)
    have t2f: "page_table_entry_from_dir (pg_mem s (page_dir_entry q w)) w div 4096 = tbl div 4096"
      unfolding table_entry_frame assms(9) ..
    have "tbl \<noteq> t'"
    proof (cases "nt = 0")
      case True
      then have "\<not> wants_copy tr d" using wc by simp
      then show ?thesis using assms(12) tr(1) True by (auto simp: t'_def t_def d_def)
    next
      case False then show ?thesis using nt assms(10) by (auto simp: t'_def)
    qed
    then have ne: "tbl div 4096 \<noteq> t' div 4096" using aligned_eq [of tbl t'] t' by (simp add: assms(9))
    have pe: "page_dir_entry as v div 4096 = as div 4096" by (rule dir_entry_frame [OF al])
    have "tbl div 4096 \<noteq> as div 4096" using aligned_eq [of tbl as] al assms(11) by (simp add: assms(9))
    then have 2: "pg_mem s' (page_table_entry_from_dir (pg_mem s (page_dir_entry q w)) w)
        = pg_mem s (page_table_entry_from_dir (pg_mem s (page_dir_entry q w)) w)"
      using assms(10) t2f ne pe by (intro keep) metis+
    have 3: "pg_mem s' a = pg_mem s a" if "pcount s (a div 4096) \<noteq> 0" "a div 4096 \<noteq> as div 4096" "a div 4096 \<noteq> t div 4096" for a
    proof (rule keep [OF that(1)])
      show "a \<noteq> page_dir_entry as v" using that(2) pe by metis
      show "a div 4096 \<noteq> t' div 4096" using that nt by (auto simp: t'_def)
    qed
    have "user_entry s' q w = user_entry s q w" unfolding user_entry_def Let_def 1 2 ..
    then show ?thesis using 3 by (simp add: t_def d_def)
  qed
qed

theorem page_fault_isolated_witness:
  "\<exists>s'. arch_page_fault_resolve 20480 True 0x70000000 7 mm_cow = Some (s', PAGE_FAULT_RESOLVED)
     \<and> user_entry s' 8192 0x70000000 = Some 30725 \<and> pg_mem s' 28672 = pg_mem mm_cow 28672"
proof -
  obtain s' where r: "arch_page_fault_resolve 20480 True 0x70000000 7 mm_cow = Some (s', PAGE_FAULT_RESOLVED)"
    using mm_cow_resolve by blast
  have z: "pcount mm_cow 0 \<noteq> 0" by (simp add: mm_example_def)
  have ap: "frames_apart mm_cow 20480 0x70000000"
    by (simp add: frames_apart_def Let_def page_dir_entry_def DIDX_def page_table_entry_from_dir_def TIDX_def page_entry_addr_def
        mm_example_def)
  have u: "user_entry mm_cow 8192 0x70000000 = Some 30725"
    by (simp add: user_entry_def page_dir_entry_def DIDX_def page_table_entry_from_dir_def TIDX_def page_entry_addr_def
        page_entry_has_all_def PAGE_USER_PRESENT_FLAGS_def)
  have c: "pcount mm_cow 1 \<noteq> 0" "pcount mm_cow 2 \<noteq> 0" "pcount mm_cow 7 \<noteq> 0" by (simp_all add: mm_example_def)
  have p: "page_dir_entry 8192 0x70000000 = 9984" "page_dir_entry 20480 0x70000000 = 22272"
    "page_entry_addr 4103 = 4096" "page_entry_addr 24583 = 24576" by (simp_all add: page_dir_entry_def DIDX_def page_entry_addr_def)
  have "user_entry s' 8192 0x70000000 = user_entry mm_cow 8192 0x70000000
    \<and> (\<forall>a. pcount mm_cow (a div 4096) \<noteq> 0 \<and> a div 4096 \<noteq> 20480 div 4096
      \<and> a div 4096 \<noteq> page_entry_addr (pg_mem mm_cow (page_dir_entry 20480 0x70000000)) div 4096 \<longrightarrow> pg_mem s' a = pg_mem mm_cow a)"
    by (rule page_fault_isolated [OF r mm_cow_wf z ap, where q = 8192 and w = "0x70000000" and tbl = 4096]) (use c p in simp_all)
  then show ?thesis using r u c p by auto
qed

end
