(* ===== verification/PageClone.thy ===== *)
theory PageClone
  imports PageFault
begin

text \<open>
  The address-space clone of \<^verbatim>\<open>kernel/arch/x86/i386/page.c\<close> makes every private page copy-on-write in both
  address spaces, and \<open>arch_user_find_free\<close> returns the highest free range of the alignment.
\<close>

section \<open>The entry a clone leaves\<close>

definition clone_value :: "u32 \<Rightarrow> u32" where
  "clone_value e =
     (if \<not> page_entry_has_all e PG_USU then e
      else if page_entry_has_any e PG_SHARED then page_entry_add_flags e PG_RWW
      else if page_entry_has_any e PG_RWW then (e AND NOT PG_RWW) OR PG_COW else e)"

lemma single_bits: "bit (2 :: u32) n \<longleftrightarrow> n = 1" "bit (2048 :: u32) n \<longleftrightarrow> n = 11"
proof -
  have e: "(2 :: u32) = push_bit 1 1" "(2048 :: u32) = push_bit 11 1" by simp_all
  show "bit (2 :: u32) n \<longleftrightarrow> n = 1" "bit (2048 :: u32) n \<longleftrightarrow> n = 11"
    unfolding e by (simp_all only: bit_push_bit_iff bit_1_iff) auto
qed

lemma clone_value_bits:
  assumes "n < 32"
  shows "bit (clone_value e) n \<longleftrightarrow>
     (if bit e 2 \<and> bit e 10 then n = 1 \<or> bit e n
      else if bit e 2 \<and> bit e 1 then n = 11 \<or> bit e n \<and> n \<noteq> 1 else bit e n)"
proof -
  have w: "bit ((e AND NOT PG_RWW) OR PG_COW) n \<longleftrightarrow> n = 11 \<or> bit e n \<and> n \<noteq> 1"
    using assms by (simp only: bit_or_iff bit_and_iff bit_not_iff single_bits) auto
  have sh: "bit (page_entry_add_flags e PG_RWW) n \<longleftrightarrow> n = 1 \<or> bit e n"
    by (simp only: add_flags_bits single_bits) auto
  show ?thesis unfolding clone_value_def user_present_bits entry_bits
    by (cases "bit e 2"; cases "bit e 10"; cases "bit e 1") (simp_all only: w sh if_True if_False simp_thms)
qed

lemma clone_value_idem [simp]: "clone_value (clone_value e) = clone_value e"
  by (rule bit_word_eqI) (cases "bit e 2"; cases "bit e 10"; cases "bit e 1"; simp add: clone_value_bits)

lemma clone_value_safe: "bit (clone_value e) 2 \<Longrightarrow> \<not> bit (clone_value e) 10 \<Longrightarrow> \<not> bit (clone_value e) 1"
  by (cases "bit e 2"; cases "bit e 10"; cases "bit e 1"; simp add: clone_value_bits)

lemma clone_value_addr [simp]: "page_entry_addr (clone_value e) = page_entry_addr e"
  by (rule entry_addr_eqI) (simp add: clone_value_bits)

lemma clone_entry_mem:
  assumes "clone_entry pte s = Some s'"
  shows "pg_mem s' = (pg_mem s)(pte := clone_value (pg_mem s pte))"
proof (cases "page_entry_has_all (pg_mem s pte) PG_USU")
  case False
  then show ?thesis using assms by (simp add: clone_entry_def clone_value_def)
next
  case True
  then obtain t where t: "page_ref_inc_idx (IDX (page_entry_addr (pg_mem s pte))) s = Some t"
    using assms by (auto simp: clone_entry_def Let_def bind_eq_Some_conv page_ref_inc_entry_def)
  have m: "pg_mem t = pg_mem s" by (rule ref_inc_mem [OF t])
  have "Some s' = (let e = pg_mem s pte in
      if page_entry_has_any e PG_SHARED then Some (mem_write pte (page_entry_add_flags e PG_RWW) t)
      else if page_entry_has_any e PG_RWW then Some (mem_write pte ((e AND NOT PG_RWW) OR PG_COW) t) else Some t)"
    using assms True t by (simp add: clone_entry_def Let_def page_ref_inc_entry_def m cong: if_cong)
  then show ?thesis using True m unfolding clone_value_def Let_def
    by (cases "page_entry_has_any (pg_mem s pte) PG_SHARED"; cases "page_entry_has_any (pg_mem s pte) PG_RWW")
      (simp_all add: mem_write_def)
qed

lemma clone_entries_mem:
  "for_pages (\<lambda>j. clone_entry (p + j * 4)) js s = Some s' \<Longrightarrow>
     pg_mem s' a = (if \<exists>j \<in> set js. a = p + j * 4 then clone_value (pg_mem s a) else pg_mem s a)"
  by (induction js arbitrary: s) (auto simp: bind_eq_Some_conv dest!: clone_entry_mem)

text \<open>The words of the tables of an address space.\<close>

definition table_word :: "mm \<Rightarrow> nat \<Rightarrow> nat \<Rightarrow> nat \<Rightarrow> bool" where
  "table_word s as i a \<longleftrightarrow>
     (let d = pg_mem s (as + i * 4)
      in page_entry_has_all d PAGE_USER_PRESENT_FLAGS \<and> (\<exists>j < 1024. a = page_entry_addr d + j * 4))"

lemma clone_directory_mem:
  assumes "clone_directory as i s = Some s'"
  shows "pg_mem s' a = (if table_word s as i a then clone_value (pg_mem s a) else pg_mem s a)"
proof (cases "page_entry_has_all (pg_mem s (as + i * 4)) PAGE_USER_PRESENT_FLAGS")
  case False then show ?thesis using assms by (simp add: clone_directory_def table_word_def)
next
  case True
  then obtain t where t: "page_ref_inc_entry (pg_mem s (as + i * 4)) s = Some t"
    "for_pages (\<lambda>j. clone_entry (page_entry_addr (pg_mem s (as + i * 4)) + j * 4)) [0..<1024] t = Some s'"
    using assms by (auto simp: clone_directory_def Let_def bind_eq_Some_conv)
  have "pg_mem t = pg_mem s" using t(1) by (auto simp: page_ref_inc_entry_def dest: ref_inc_mem)
  then show ?thesis using clone_entries_mem [OF t(2), of a] True by (auto simp: table_word_def)
qed

text \<open>No directory word lies in a table of the address space.\<close>

definition tables_apart :: "mm \<Rightarrow> nat \<Rightarrow> bool" where
  "tables_apart s as \<longleftrightarrow> as mod 4096 = 0
     \<and> (\<forall>i < 1024. let d = pg_mem s (as + i * 4) in page_entry_has_all d PAGE_USER_PRESENT_FLAGS \<longrightarrow> page_entry_addr d \<noteq> as)"

definition tables_used :: "mm \<Rightarrow> nat \<Rightarrow> bool" where
  "tables_used s as \<longleftrightarrow> pcount s (as div 4096) \<noteq> 0
     \<and> (\<forall>i < 1024. let d = pg_mem s (as + i * 4) in page_entry_has_all d PAGE_USER_PRESENT_FLAGS \<longrightarrow>
          pcount s (page_entry_addr d div 4096) \<noteq> 0)"

lemma table_word_frame: "table_word s as i a \<Longrightarrow> a div 4096 = page_entry_addr (pg_mem s (as + i * 4)) div 4096"
  by (auto simp: table_word_def Let_def in_frame)

lemma directory_word:
  assumes "tables_apart s as" "i < 1024" "k < 1024" shows "\<not> table_word s as i (as + k * 4)"
proof
  assume t: "table_word s as i (as + k * 4)"
  have al: "as mod 4096 = 0" using assms(1) by (simp add: tables_apart_def)
  have "page_entry_addr (pg_mem s (as + i * 4)) \<noteq> as"
    using assms(1,2) t by (auto simp: tables_apart_def table_word_def Let_def)
  moreover have "(as + k * 4) div 4096 = as div 4096" by (rule in_frame [OF al assms(3)])
  ultimately show False using table_word_frame [OF t] aligned_eq [OF _ al] by simp
qed

lemma clone_directories_mem:
  assumes "for_pages (clone_directory as) is s = Some s'" "tables_apart s as" "set is \<subseteq> {..<1024}"
  shows "pg_mem s' a = (if \<exists>i \<in> set is. table_word s as i a then clone_value (pg_mem s a) else pg_mem s a)"
proof -
  have gen: "for_pages (clone_directory as) is t = Some s' \<Longrightarrow> set is \<subseteq> {..<1024}
      \<Longrightarrow> (\<And>k. k < 1024 \<Longrightarrow> pg_mem t (as + k * 4) = pg_mem s (as + k * 4))
      \<Longrightarrow> pg_mem s' a = (if \<exists>i \<in> set is. table_word s as i a then clone_value (pg_mem t a) else pg_mem t a)" for t
  proof (induction "is" arbitrary: t)
    case (Cons i "is")
    obtain v where v: "clone_directory as i t = Some v" "for_pages (clone_directory as) is v = Some s'"
      using Cons.prems(1) by (auto simp: bind_eq_Some_conv)
    have i: "i < 1024" using Cons.prems(2) by simp
    have same: "table_word t as i = table_word s as i" using Cons.prems(3) [OF i] by (auto simp: table_word_def fun_eq_iff)
    have m: "pg_mem v b = (if table_word s as i b then clone_value (pg_mem t b) else pg_mem t b)" for b
      using clone_directory_mem [OF v(1), of b] same by simp
    have d: "pg_mem v (as + k * 4) = pg_mem s (as + k * 4)" if "k < 1024" for k
      using m [of "as + k * 4"] directory_word [OF assms(2) i that] Cons.prems(3) [OF that] by simp
    show ?case using Cons.IH [OF v(2) _ d] Cons.prems(2) m [of a] by auto
  qed simp
  show ?thesis using gen [OF assms(1,3)] by simp
qed

lemma alloc_single_fresh:
  assumes "page_alloc_single task s = Some (s', p)" "alloc_wf s" "p \<noteq> 0"
  shows "pg_mem s' = pg_mem s \<and> p mod 4096 = 0 \<and> pcount s (p div 4096) = 0"
proof (cases "page_find_free_low s")
  case None then show ?thesis using assms by (simp add: page_alloc_single_def)
next
  case (Some i)
  have b: "pg_low s \<le> PAGE_TOTAL_COUNT" "pg_limit s \<le> PAGE_TOTAL_COUNT" using assms(2) by (simp_all add: alloc_wf_def hints_ok_def)
  have "i < PAGE_TOTAL_COUNT \<and> page_bitmap_is_free s i"
    using Some b find_upt_least [of "pg_low s" "pg_limit s" "page_bitmap_is_free s"]
      find_upt_least [of 0 "pg_low s" "page_bitmap_is_free s"]
    unfolding page_find_free_low_def low_from_find by (auto simp: is_least_def split: option.splits if_splits)
  then have f: "i < PAGE_TOTAL_COUNT" "pcount s i = 0" using wf_free [OF assms(2)] by auto
  obtain t where t: "page_claim_idx i task s = Some t" "same_rest s t" using claim_ok [OF assms(2) f] by blast
  have P: "PAGE i = i * 4096" using f(1) by (simp add: PAGE_def PAGE_TOTAL_COUNT_def)
  have "pg_mem s' = pg_mem t \<and> p = i * 4096" using assms(1) Some t(1) P by (auto simp: page_alloc_single_def Let_def)
  then show ?thesis using t(2) f by (simp add: same_rest_def)
qed

text \<open>C8: fork shares no writable private page.  When \<open>arch_address_space_clone\<close> has copied the tables of an
  address space (whose directory and tables are separate frames in use) into a new directory, both
  address spaces map the same entry at every address, it points to the same frame as before, and an
  entry that the user can reach is writable only if the page is marked shared; a private page that was writable is now
  copy-on-write, and no word of memory outside the tables and the new directory changed.\<close>

theorem clone_copy_on_write:
  assumes "clone_tables as s = Some (s', r)" "r \<noteq> 0" "alloc_wf s" "tables_apart s as" "tables_used s as"
  shows "user_entry s' r v = user_entry s' as v
    \<and> user_entry s' as v = map_option clone_value (user_entry s as v)
    \<and> (\<forall>e. user_entry s' as v = Some e \<and> bit e 2 \<and> \<not> bit e 10 \<longrightarrow> \<not> bit e 1)
    \<and> (\<forall>a. (\<forall>i < 1024. \<not> table_word s as i a) \<and> a div 4096 \<noteq> r div 4096 \<longrightarrow> pg_mem s' a = pg_mem s a)"
proof -
  obtain t u where t: "page_alloc_single 0 s = Some (t, r)" and u: "for_pages (clone_directory as) [0..<1024] t = Some u"
    and s': "s' = page_copy r as u"
    using assms(1,2) by (auto simp: clone_tables_def page_malloc_one_no_mark_def bind_eq_Some_conv split: if_splits)
  have fr: "pg_mem t = pg_mem s" "r mod 4096 = 0" "pcount s (r div 4096) = 0"
    using alloc_single_fresh [OF t assms(3,2)] by auto
  have al: "as mod 4096 = 0" using assms(4) by (simp add: tables_apart_def)
  have tw: "table_word t as = table_word s as" "tables_apart t as = tables_apart s as"
    by (simp_all add: table_word_def tables_apart_def fr(1) fun_eq_iff)
  have mu: "pg_mem u a = (if \<exists>i < 1024. table_word s as i a then clone_value (pg_mem s a) else pg_mem s a)" for a
  proof -
    have sub: "set [0..<1024] \<subseteq> {..<1024 :: nat}" by auto
    have ap: "tables_apart t as" unfolding tw by (rule assms(4))
    show ?thesis using clone_directories_mem [OF u ap sub, of a] unfolding tw fr(1) by (simp add: Bex_def)
  qed
  have ms: "pg_mem s' a = (if a div 4096 = r div 4096 then pg_mem u (as + (a - r)) else pg_mem u a)" for a
    using frame_range [OF fr(2), of a] by (simp add: s' page_copy_def)
  have dir: "pg_mem u (as + k * 4) = pg_mem s (as + k * 4)" if "k < 1024" for k
    using mu [of "as + k * 4"] directory_word [OF assms(4) _ that] by auto
  have asr: "as div 4096 \<noteq> r div 4096" using fr(3) assms(5) by (auto simp: tables_used_def)
  let ?k = "DIDX v"
  let ?d = "pg_mem s (as + ?k * 4)"
  have d1: "pg_mem s' (page_dir_entry as v) = ?d"
    using ms [of "as + ?k * 4"] dir [of ?k] in_frame [OF al, of ?k] asr by (simp add: page_dir_entry_def)
  have d2: "pg_mem s' (page_dir_entry r v) = ?d"
    using ms [of "r + ?k * 4"] dir [of ?k] in_frame [OF fr(2), of ?k] by (simp add: page_dir_entry_def)
  have e: "pg_mem s' (page_table_entry_from_dir ?d v) = clone_value (pg_mem s (page_table_entry_from_dir ?d v))"
    if p: "page_entry_has_all ?d PAGE_USER_PRESENT_FLAGS"
  proof -
    have "pcount s (page_entry_addr ?d div 4096) \<noteq> 0" using assms(5) p by (auto simp: tables_used_def Let_def)
    then have "page_table_entry_from_dir ?d v div 4096 \<noteq> r div 4096" using fr(3) unfolding table_entry_frame by metis
    moreover have "table_word s as ?k (page_table_entry_from_dir ?d v)"
      using p by (auto simp: table_word_def page_table_entry_from_dir_def)
    ultimately show ?thesis using ms mu DIDX_less by metis
  qed
  have ue: "user_entry s' r v = user_entry s' as v" "user_entry s' as v = map_option clone_value (user_entry s as v)"
    unfolding user_entry_def Let_def d1 d2 using e by (simp_all add: page_dir_entry_def)
  moreover have "\<not> bit e 1" if "user_entry s' as v = Some e" "bit e 2" "\<not> bit e 10" for e
    using that clone_value_safe unfolding ue(2) by auto
  moreover have "pg_mem s' a = pg_mem s a" if "\<forall>i < 1024. \<not> table_word s as i a" "a div 4096 \<noteq> r div 4096" for a
    using that ms [of a] mu [of a] by auto
  ultimately show ?thesis by blast
qed

lemma for_pages_append: "for_pages f (xs @ ys) s = do { s \<leftarrow> for_pages f xs s; for_pages f ys s }"
  by (induction xs arbitrary: s) (auto simp: bind_assoc split: Option.bind_split)

lemma for_pages_skip: "(\<And>i. i \<in> set is \<Longrightarrow> f i s = Some s) \<Longrightarrow> for_pages f is s = Some s"
  by (induction "is") auto

lemma for_pages_one:
  assumes "i < n" "\<And>k. k < i \<Longrightarrow> f k s = Some s" "f i s = Some t" "\<And>k. i < k \<Longrightarrow> k < n \<Longrightarrow> f k t = Some t"
  shows "for_pages f [0..<n] s = Some t"
proof -
  have "[0..<n] = [0..<i] @ i # [Suc i..<n]" using assms(1) by (metis le_add_same_cancel1 less_imp_le upt_add_eq_append upt_conv_Cons zero_le le_add_diff_inverse)
  moreover have "for_pages f [0..<i] s = Some s" by (rule for_pages_skip) (use assms(2) in auto)
  moreover have "for_pages f [Suc i..<n] t = Some t" by (rule for_pages_skip) (use assms(4) in auto)
  ultimately show ?thesis using assms(3) by (simp add: for_pages_append)
qed

lemma mm_cow_apart: "tables_apart mm_cow 20480 \<and> tables_used mm_cow 20480"
proof -
  have d: "pg_mem mm_cow (20480 + i * 4) = (if i = 448 then 24583 else 0)" if "i < 1024" for i using that by auto
  have n: "\<not> page_entry_has_all 0 PAGE_USER_PRESENT_FLAGS" by (simp add: page_entry_has_all_def PAGE_USER_PRESENT_FLAGS_def)
  have a: "page_entry_addr 24583 = 24576" by (simp add: page_entry_addr_def)
  have c: "pcount mm_cow 5 \<noteq> 0" "pcount mm_cow 6 \<noteq> 0" by (simp_all add: mm_example_def)
  show ?thesis
  proof
    show "tables_apart mm_cow 20480" unfolding tables_apart_def Let_def
    proof (intro conjI allI impI)
      fix i :: nat assume "i < 1024" "page_entry_has_all (pg_mem mm_cow (20480 + i * 4)) PAGE_USER_PRESENT_FLAGS"
      then show "page_entry_addr (pg_mem mm_cow (20480 + i * 4)) \<noteq> 20480" unfolding d [OF \<open>i < 1024\<close>] using n a by (auto split: if_splits)
    qed simp
    show "tables_used mm_cow 20480" unfolding tables_used_def Let_def
    proof (intro conjI allI impI)
      fix i :: nat assume "i < 1024" "page_entry_has_all (pg_mem mm_cow (20480 + i * 4)) PAGE_USER_PRESENT_FLAGS"
      then show "pcount mm_cow (page_entry_addr (pg_mem mm_cow (20480 + i * 4)) div 4096) \<noteq> 0"
        unfolding d [OF \<open>i < 1024\<close>] using n a c by (auto split: if_splits)
    qed (use c in simp)
  qed
qed

lemma mm_cow_clone: "\<exists>s' r. clone_tables 20480 mm_cow = Some (s', r) \<and> r \<noteq> 0"
proof -
  have e: "page_entry_has_all 24583 PAGE_USER_PRESENT_FLAGS" "page_entry_has_all 30725 PG_USU" "\<not> page_entry_has_all 0 PG_USU"
    "\<not> page_entry_has_all 0 PAGE_USER_PRESENT_FLAGS" "page_entry_addr 24583 = 24576" "page_entry_addr 30725 = 28672"
    "\<not> page_entry_has_any 30725 PG_RWW" "\<not> page_entry_has_any 30725 PG_SHARED"
    by (simp_all add: page_entry_has_all_def page_entry_has_any_def PAGE_USER_PRESENT_FLAGS_def page_entry_addr_def)
  have g: "is_least (\<lambda>i. 3 \<le> i \<and> i < 12 \<and> page_bitmap_is_free mm_cow i) (Some 3)"
    using mm_example_free by (auto simp: is_least_def)
  have low: "pg_low mm_cow = 3" by (simp add: mm_cow_def mem_write_def mm_example_def)
  have "find (page_bitmap_is_free mm_cow) [3..<12] = Some 3" by (rule is_least_unique [OF find_upt_least g])
  then have f: "page_find_free_low mm_cow = Some 3"
    unfolding page_find_free_low_def low_from_find low mm_cow_fields(3) by (simp only: option.case)
  have i: "pcount mm_cow 3 = 0" "3 < PAGE_TOTAL_COUNT" by (simp_all add: mm_example_def PAGE_TOTAL_COUNT_def)
  obtain c where c: "page_claim_idx 3 0 mm_cow = Some c" "same_rest mm_cow c"
    "pg_info c = (pg_info mm_cow)(3 := \<lparr>pi_task = 0, pi_count = 1\<rparr>)" using claim_ok [OF mm_cow_wf i(2,1)] by blast
  obtain t where t: "page_alloc_single 0 mm_cow = Some (t, 12288)" "pg_info t = pg_info c" "pg_zero t = 0" "pg_mem t = pg_mem mm_cow"
    using f c(1,2) by (auto simp: page_alloc_single_def Let_def PAGE_def same_rest_def)
  have inc: "\<exists>u'. page_ref_inc_idx k u = Some u' \<and> pg_mem u' = pg_mem u \<and> pg_zero u' = 0
      \<and> pg_info u' = (pg_info u)(k := \<lparr>pi_task = 0, pi_count = pcount u k + 1\<rparr>)"
    if "pg_zero u = 0" "k < PAGE_TOTAL_COUNT" "pcount u k \<noteq> - 1" for u k
  proof -
    have z: "(pg_zero u \<noteq> 0 \<and> k = IDX (pg_zero u)) = False" "(PAGE_TOTAL_COUNT \<le> k) = False" "(pcount u k = - 1) = False"
      using that by simp_all
    obtain u' where u': "page_ref_inc_idx k u = Some u'"
      unfolding page_ref_inc_idx_def z Let_def if_False by blast
    have "\<not> is_zero_page u k" using that by simp
    from ref_inc_step [OF u' this] show ?thesis using u' that(1) by (auto simp: frame_step_def same_rest_def)
  qed
  have c6: "pcount t 6 = 1" "pcount t 7 = 2" using t(2) c(3) by (simp_all add: mm_example_def)
  obtain u where u: "page_ref_inc_idx 6 t = Some u" "pg_mem u = pg_mem t" "pg_zero u = 0"
    "pg_info u = (pg_info t)(6 := \<lparr>pi_task = 0, pi_count = pcount t 6 + 1\<rparr>)"
    using inc [OF t(3), of 6] c6 by (auto simp: PAGE_TOTAL_COUNT_def)
  obtain w where w: "page_ref_inc_idx 7 u = Some w" "pg_mem w = pg_mem u"
    using inc [OF u(3), of 7] c6 u(4) by (auto simp: PAGE_TOTAL_COUNT_def)
  have mem: "pg_mem x = (\<lambda>_. 0)(22272 := 24583, 24576 := 30725, 4096 := 30725, 9984 := 4103)" if "x \<in> {t, u, w}" for x
    using that t(4) u(2) w(2) by auto
  have ent: "for_pages (\<lambda>j. clone_entry (24576 + j * 4)) [0..<1024] u = Some w"
  proof (rule for_pages_one [of 0])
    show "clone_entry (24576 + 0 * 4) u = Some w"
      using w mem [of u] mem [of w] e by (simp add: clone_entry_def page_ref_inc_entry_def IDX_def)
    show "\<And>k. 0 < k \<Longrightarrow> k < 1024 \<Longrightarrow> clone_entry (24576 + k * 4) w = Some w"
      using mem [of w] e by (simp add: clone_entry_def)
  qed simp_all
  have "for_pages (clone_directory 20480) [0..<1024] t = Some w"
  proof (rule for_pages_one [of 448])
    show "clone_directory 20480 448 t = Some w"
      using ent u(1) mem [of t] e by (simp add: clone_directory_def page_ref_inc_entry_def IDX_def)
    show "\<And>k. k < 448 \<Longrightarrow> clone_directory 20480 k t = Some t"
      using mem [of t] e by (simp add: clone_directory_def)
    show "\<And>k. 448 < k \<Longrightarrow> k < 1024 \<Longrightarrow> clone_directory 20480 k w = Some w"
      using mem [of w] e by (simp add: clone_directory_def)
  qed simp
  then show ?thesis using t(1) by (simp add: clone_tables_def page_malloc_one_no_mark_def)
qed

theorem clone_copy_on_write_witness:
  "\<exists>s' r. clone_tables 20480 mm_cow = Some (s', r) \<and> user_entry s' r 0x70000000 = user_entry s' 20480 0x70000000
     \<and> user_entry s' r 0x70000000 = Some 30725"
proof -
  obtain s' r where c: "clone_tables 20480 mm_cow = Some (s', r)" "r \<noteq> 0" using mm_cow_clone by blast
  have u: "user_entry mm_cow 20480 0x70000000 = Some 30725"
    by (simp add: user_entry_def page_dir_entry_def DIDX_def page_table_entry_from_dir_def TIDX_def page_entry_addr_def
        page_entry_has_all_def PAGE_USER_PRESENT_FLAGS_def)
  have v: "clone_value 30725 = 30725"
    by (simp add: clone_value_def page_entry_has_all_def page_entry_has_any_def)
  have ap: "tables_apart mm_cow 20480" "tables_used mm_cow 20480" using mm_cow_apart by auto
  show ?thesis using clone_copy_on_write [OF c mm_cow_wf ap, of "0x70000000"] c u v by auto
qed

section \<open>Free address ranges\<close>

text \<open>All pages of the range are unmapped.\<close>

definition range_free :: "nat \<Rightarrow> mm \<Rightarrow> nat \<Rightarrow> nat \<Rightarrow> bool" where
  "range_free active s a stop \<longleftrightarrow> (\<forall>p. a \<le> p \<and> p < stop \<and> p mod 4096 = 0 \<longrightarrow> \<not> page_occupied active s p)"

definition fits :: "nat \<Rightarrow> mm \<Rightarrow> nat \<Rightarrow> nat \<Rightarrow> nat \<Rightarrow> nat \<Rightarrow> nat \<Rightarrow> bool" where
  "fits active s lower upper len alignment r \<longleftrightarrow>
     lower \<le> r \<and> r + len \<le> upper \<and> r mod alignment = 0 \<and> r mod 4096 = 0 \<and> range_free active s r (r + len)"

lemma range_free_step:
  assumes "p mod 4096 = 0" "\<not> page_occupied active s p" "range_free active s (p + 4096) stop"
  shows "range_free active s p stop"
  unfolding range_free_def
proof (intro allI impI)
  fix b assume b: "p \<le> b \<and> b < stop \<and> b mod 4096 = 0"
  show "\<not> page_occupied active s b"
  proof (cases "b = p")
    case False
    obtain i j where "p = i * 4096" "b = j * 4096" using assms(1) b by (metis add.right_neutral div_mult_mod_eq)
    then have "p + 4096 \<le> b" using False b by auto
    then show ?thesis using assms(3) b by (auto simp: range_free_def)
  qed (use assms(2) in simp)
qed

lemma find_free_scan_greatest:
  assumes "page mod 4096 = 0" "lower mod 4096 = 0" "len mod 4096 = 0" "0 < len" "0 < lower" "lower \<le> page"
    "page + available \<le> upper" "available mod 4096 = 0" "range_free active s page (page + available)"
    "page + available = upper \<or> page_occupied active s (page + available)"
    "\<forall>r \<ge> page. \<not> fits active s lower upper len alignment r"
  shows "is_greatest (fits active s lower upper len alignment)
     (let r = find_free_scan active s lower len alignment page available in if r = 0 then None else Some r)"
  using assms
proof (induction active s lower len alignment page available rule: find_free_scan.induct)
  case (1 active s lower len alignment page available)
  show ?case
  proof (cases "page > lower")
    case False
    have "find_free_scan active s lower len alignment page available = 0"
      unfolding find_free_scan.simps [of active s lower len alignment page available] if_not_P [OF False] ..
    moreover have "\<not> fits active s lower upper len alignment r" for r
      using "1.prems"(6,11) False by (cases "page \<le> r") (auto simp: fits_def)
    ultimately show ?thesis by (simp add: is_greatest_def)
  next
    case True
    obtain q where q: "page = q * 4096" using "1.prems"(1) by (metis add.right_neutral div_mult_mod_eq)
    obtain l where l: "lower = l * 4096" using "1.prems"(2) by (metis add.right_neutral div_mult_mod_eq)
    define p where "p = page - 4096"
    define v where "v = (if page_occupied active s p then 0 else available + 4096)"
    have p: "p mod 4096 = 0" "lower \<le> p" "page = p + 4096" using True q l by (auto simp: p_def)
    have p0: "p \<noteq> 0" using p(2) "1.prems"(5) by simp
    have vm: "v mod 4096 = 0" using "1.prems"(8) by (simp add: v_def)
    have pv: "p + v = (if page_occupied active s p then p else page + available)" using p(3) by (simp add: v_def)
    have vf: "range_free active s p (p + v)"
      using range_free_step [OF p(1), of active s "page + available"] "1.prems"(9) p(3)
      by (simp add: pv) (simp add: range_free_def)
    have up: "p + v \<le> upper" using "1.prems"(7) p(3) by (simp add: v_def)
    have edge: "p + v = upper \<or> page_occupied active s (p + v)" using "1.prems"(10) by (auto simp: pv)
    have pm: "(p + v) mod 4096 = 0" using p(1) vm unfolding mod_eq_0_iff_dvd by (rule dvd_add)
    have at: "fits active s lower upper len alignment p \<longleftrightarrow> len \<le> v \<and> p mod alignment = 0"
    proof
      assume f: "fits active s lower upper len alignment p"
      have "len \<le> v"
      proof (rule ccontr)
        assume "\<not> len \<le> v"
        then have "p + v < p + len" "p + v < upper" using f by (auto simp: fits_def)
        then show False using edge f pm by (auto simp: fits_def range_free_def)
      qed
      then show "len \<le> v \<and> p mod alignment = 0" using f by (simp add: fits_def)
    next
      assume "len \<le> v \<and> p mod alignment = 0"
      then show "fits active s lower upper len alignment p" using p up vf by (auto simp: fits_def range_free_def)
    qed
    have step: "find_free_scan active s lower len alignment page available =
        (if len \<le> v \<and> p mod alignment = 0 then p else find_free_scan active s lower len alignment p v)"
      unfolding find_free_scan.simps [of active s lower len alignment page available] if_P [OF True] Let_def
      by (simp only: p_def v_def)
    have above: "\<not> fits active s lower upper len alignment r" if "p < r" for r
    proof
      assume f: "fits active s lower upper len alignment r"
      then obtain k where "r = k * 4096" by (metis add.right_neutral div_mult_mod_eq fits_def)
      then have "page \<le> r" using that q p(3) by auto
      then show False using "1.prems"(11) f by blast
    qed
    show ?thesis
    proof (cases "len \<le> v \<and> p mod alignment = 0")
      case True then show ?thesis using step at above p0 by (simp add: is_greatest_def)
    next
      case F: False
      have nf: "\<forall>r \<ge> p. \<not> fits active s lower upper len alignment r" using above at F by (auto simp: le_less)
      have F': "\<not> (len \<le> (if page_occupied active s (page - PAGE_SIZE_BYTES) then 0 else available + PAGE_SIZE_BYTES)
          \<and> (page - PAGE_SIZE_BYTES) mod alignment = 0)" using F by (simp add: v_def p_def)
      note IH = "1.IH" [OF True refl refl F']
      show ?thesis unfolding step if_not_P [OF F]
        using IH p(1,2) vf up edge nf vm "1.prems"(2-5) by (simp only: p_def [symmetric] v_def [symmetric])
    qed
  qed
qed

lemma find_free_fits:
  fixes s active alignment
  assumes "lower mod 4096 = 0" "upper mod 4096 = 0" "len mod 4096 = 0" "0 < len" "0 < lower" "lower \<le> upper"
  defines "r \<equiv> arch_user_find_free active lower upper len alignment s"
  shows "(r = 0 \<longrightarrow> (\<forall>a. \<not> fits active s lower upper len alignment a))
    \<and> (r \<noteq> 0 \<longrightarrow> fits active s lower upper len alignment r \<and> (\<forall>a. r < a \<longrightarrow> \<not> fits active s lower upper len alignment a))"
proof -
  have none: "\<forall>a \<ge> upper. \<not> fits active s lower upper len alignment a" using assms(4) by (auto simp: fits_def)
  have "is_greatest (fits active s lower upper len alignment)
     (let r = find_free_scan active s lower len alignment upper 0 in if r = 0 then None else Some r)"
    by (rule find_free_scan_greatest) (use assms(1-6) none in \<open>auto simp: range_free_def\<close>)
  then show ?thesis unfolding r_def arch_user_find_free_def by (simp add: is_greatest_def Let_def split: if_splits)
qed

text \<open>The search for user address space is exact.  For page-aligned bounds above address 0 and a positive
  page-aligned size, \<open>arch_user_find_free\<close> returns the highest address of the wanted alignment such
  that the whole range lies in \<open>[lower, upper)\<close> and no page of it is mapped, and 0 exactly when there
  is none.\<close>

theorem arch_user_find_free_highest:
  fixes s active alignment
  assumes "lower mod 4096 = 0" "upper mod 4096 = 0" "len mod 4096 = 0" "0 < len" "0 < lower" "lower \<le> upper"
  defines "r \<equiv> arch_user_find_free active lower upper len alignment s"
  shows "(r = 0 \<longrightarrow> (\<forall>a. \<not> fits active s lower upper len alignment a))
    \<and> (r \<noteq> 0 \<longrightarrow> fits active s lower upper len alignment r \<and> (\<forall>a. r < a \<longrightarrow> \<not> fits active s lower upper len alignment a))"
  unfolding r_def by (rule find_free_fits) (use assms in simp_all)

theorem arch_user_find_free_highest_witness:
  "arch_user_find_free 20480 0x70000000 0x70003000 4096 4096 mm_cow = 0x70002000"
proof -
  have occ: "\<not> page_occupied 20480 mm_cow 0x70002000"
    by (simp add: page_occupied_def page_dir_entry_def DIDX_def page_table_entry_from_dir_def TIDX_def page_entry_addr_def
        page_entry_has_all_def)
  have one: "p = 0x70002000" if t: "0x70002000 \<le> p" "p < 0x70003000" "p mod 4096 = 0" for p :: nat
  proof -
    obtain q where "p = q * 4096" using t(3) by (metis add.right_neutral div_mult_mod_eq)
    then show ?thesis using t by simp
  qed
  then have f: "fits 20480 mm_cow 0x70000000 0x70003000 4096 4096 0x70002000"
    using occ by (auto simp: fits_def range_free_def dest!: one)
  define r where "r = arch_user_find_free 20480 0x70000000 0x70003000 4096 4096 mm_cow"
  note th = arch_user_find_free_highest [of "0x70000000" "0x70003000" 4096 20480 4096 mm_cow, folded r_def]
  have r0: "r \<noteq> 0" using th f by auto
  then have "\<not> r < 0x70002000" using th f by auto
  moreover have "r + 4096 \<le> 0x70003000" using th r0 by (simp add: fits_def)
  ultimately show ?thesis unfolding r_def [symmetric] by simp
qed

end
