(* ===== verification/UserVm.thy ===== *)
theory UserVm
  imports PageClone
begin

text \<open>
  The user memory requests of \<^verbatim>\<open>kernel/dos/mm/user_vm.c\<close> and the file-backed extents of
  \<^verbatim>\<open>kernel/dos/mm/user_vm_file.c\<close>, over the page tables of \<open>PageTable\<close>.  Every operation runs under
  \<open>user_vm_lock\<close>, so it is one step.  The outcome of \<open>malloc\<close>, of \<open>vfs_mapping_create\<close> and of
  \<open>vfs_mapping_sync\<close> (a write to the disk) are arguments.
\<close>

section \<open>State\<close>

abbreviation VM_EXEC :: u32 where "VM_EXEC \<equiv> 4"
abbreviation VM_REPLACE :: u32 where "VM_REPLACE \<equiv> 1"
abbreviation VM_FILE :: u32 where "VM_FILE \<equiv> 2"
abbreviation VM_SHARED :: u32 where "VM_SHARED \<equiv> 4"
abbreviation VM_ERROR_NOMEM :: int where "VM_ERROR_NOMEM \<equiv> - 12"
abbreviation VM_ERROR_EXISTS :: int where "VM_ERROR_EXISTS \<equiv> - 17"
abbreviation VM_ERROR_INVALID :: int where "VM_ERROR_INVALID \<equiv> - 22"
abbreviation VFS_ERROR_ACCESS :: int where "VFS_ERROR_ACCESS \<equiv> - 13"

datatype vm_operation = VM_MAP | VM_PROTECT | VM_UNMAP | VM_DISCARD | VM_SYNC | VM_ALIAS

record vm_request =
  rq_address :: nat
  rq_length :: nat
  rq_alignment :: nat
  rq_protection :: u32
  rq_flags :: u32
  rq_offset :: nat
  rq_descriptor :: int
  rq_reserved :: u32

text \<open>A file extent; \<open>vr_backing\<close> names the \<open>vfs_mapping_t\<close> behind it.\<close>

record vm_file_region =
  vr_root :: nat
  vr_address :: nat
  vr_length :: nat
  vr_first :: nat
  vr_backing :: nat

record vfs_mapping =
  vm_pages :: "nat list"
  vm_references :: nat
  vm_shared :: bool
  vm_writable :: bool

text \<open>
  \<open>v_regions\<close> is the list \<open>file_regions\<close>, \<open>v_root\<close> the address space of the current task, \<open>v_hint\<close> its
  owner's \<open>vm_hint\<close>, and \<open>v_heap\<close> its \<open>alloc_addr\<close> and \<open>*alloc_size\<close>, or \<open>None\<close> for a task without a heap.
\<close>

record vm_state =
  v_mm :: mm
  v_regions :: "vm_file_region list"
  v_maps :: "nat \<Rightarrow> vfs_mapping"
  v_root :: nat
  v_hint :: nat
  v_heap :: "(nat \<times> nat) option"

definition vfs_mapping_retain :: "nat \<Rightarrow> vm_state \<Rightarrow> vm_state" where
  "vfs_mapping_retain b s = s\<lparr>v_maps := (v_maps s)(b := (v_maps s b)\<lparr>vm_references := vm_references (v_maps s b) + 1\<rparr>)\<rparr>"

text \<open>The reference count only; what the last release does to the page cache belongs to the VFS.\<close>

definition vfs_mapping_release :: "nat \<Rightarrow> vm_state \<Rightarrow> vm_state" where
  "vfs_mapping_release b s = s\<lparr>v_maps := (v_maps s)(b := (v_maps s b)\<lparr>vm_references := vm_references (v_maps s b) - 1\<rparr>)\<rparr>"

section \<open>Extents\<close>

definition region_holds :: "nat \<Rightarrow> nat \<Rightarrow> vm_file_region \<Rightarrow> bool" where
  "region_holds root address r \<longleftrightarrow> vr_root r = root \<and> address \<ge> vr_address r \<and> address - vr_address r < vr_length r"

definition file_region_at :: "vm_state \<Rightarrow> nat \<Rightarrow> vm_file_region option" where
  "file_region_at s address = find (region_holds (v_root s) address) (v_regions s)"

definition user_vm_file_page :: "vm_state \<Rightarrow> nat \<Rightarrow> bool" where
  "user_vm_file_page s address \<longleftrightarrow> file_region_at s address \<noteq> None"

text \<open>\<open>user_vm_clone\<close>: the copies made so far, then the loop that puts them on the list.  Only the first
  \<open>allocs\<close> calls of \<open>malloc\<close> succeed.\<close>

primrec clone_regions ::
  "nat \<Rightarrow> nat \<Rightarrow> nat \<Rightarrow> vm_file_region list \<Rightarrow> vm_file_region list \<Rightarrow> vm_state \<Rightarrow> vm_state \<times> bool" where
  "clone_regions source target allocs [] copies s =
     (fold (\<lambda>copy s. s\<lparr>v_regions := copy # v_regions s\<rparr>) copies s, True)"
| "clone_regions source target allocs (region # regions) copies s =
     (if vr_root region \<noteq> source then clone_regions source target allocs regions copies s
      else if allocs = 0 then (fold (\<lambda>copy s. vfs_mapping_release (vr_backing copy) s) copies s, False)
      else clone_regions source target (allocs - 1) regions (region\<lparr>vr_root := target\<rparr> # copies)
             (vfs_mapping_retain (vr_backing region) s))"

definition user_vm_clone :: "nat \<Rightarrow> nat \<Rightarrow> nat \<Rightarrow> vm_state \<Rightarrow> vm_state \<times> bool" where
  "user_vm_clone source target allocs s = clone_regions source target allocs (v_regions s) [] s"

text \<open>A failed writeback is only logged.\<close>

definition user_vm_release_locked :: "nat \<Rightarrow> vm_state \<Rightarrow> vm_state" where
  "user_vm_release_locked root s =
     fold (\<lambda>region s. vfs_mapping_release (vr_backing region) s)
       (filter (\<lambda>region. vr_root region = root) (v_regions s))
       (s\<lparr>v_regions := filter (\<lambda>region. vr_root region \<noteq> root) (v_regions s)\<rparr>)"

definition next_region :: "nat \<Rightarrow> nat \<Rightarrow> nat \<Rightarrow> vm_file_region \<Rightarrow> vm_file_region option \<Rightarrow> vm_file_region option" where
  "next_region root from stop region first =
     (if vr_root region \<noteq> root \<or> vr_address region \<ge> stop \<or> vr_address region + vr_length region \<le> from then first
      else case first of
             None \<Rightarrow> Some region
           | Some f \<Rightarrow> if vr_address region < vr_address f then Some region else first)"

definition file_region_next :: "vm_file_region list \<Rightarrow> nat \<Rightarrow> nat \<Rightarrow> nat \<Rightarrow> vm_file_region option" where
  "file_region_next regions root from stop = fold (next_region root from stop) regions None"

text \<open>One chunk of \<open>[cursor, stop)\<close>: its span, the extent it lies in or \<open>None\<close>, for a cursor below \<open>stop\<close>.\<close>

definition file_range_chunk :: "vm_file_region list \<Rightarrow> nat \<Rightarrow> nat \<Rightarrow> nat \<Rightarrow> nat \<times> vm_file_region option" where
  "file_range_chunk regions root cursor stop =
     (case file_region_next regions root cursor stop of
        None \<Rightarrow> (stop - cursor, None)
      | Some r \<Rightarrow>
          if cursor < vr_address r then (min (vr_address r) stop - cursor, None)
          else (min (vr_address r + vr_length r) stop - cursor, Some r))"

lemma next_region_cases:
  "next_region root from stop region first = first
   \<or> next_region root from stop region first = Some region \<and> vr_root region = root \<and> vr_address region < stop
       \<and> from < vr_address region + vr_length region"
  by (auto simp: next_region_def split: option.splits)

lemma file_region_next_fold:
  "fold (next_region root from stop) regions acc = Some r \<Longrightarrow>
   acc = Some r \<or> (r \<in> set regions \<and> vr_root r = root \<and> vr_address r < stop \<and> from < vr_address r + vr_length r)"
proof (induction regions arbitrary: acc)
  case (Cons region regions)
  show ?case using Cons.IH [of "next_region root from stop region acc"] Cons.prems next_region_cases [of root "from" stop region acc]
    by auto
qed simp

lemma file_region_next_some:
  "file_region_next regions root from stop = Some r \<Longrightarrow>
     r \<in> set regions \<and> vr_root r = root \<and> vr_address r < stop \<and> from < vr_address r + vr_length r"
  unfolding file_region_next_def by (drule file_region_next_fold) simp

lemma file_range_chunk_span:
  "cursor < stop \<Longrightarrow> 0 < fst (file_range_chunk regions root cursor stop)
     \<and> cursor + fst (file_range_chunk regions root cursor stop) \<le> stop"
  by (auto simp: file_range_chunk_def dest!: file_region_next_some split: option.splits)

text \<open>The chunks the calls of \<open>file_range_next\<close> return, with their start.\<close>

function file_ranges :: "vm_file_region list \<Rightarrow> nat \<Rightarrow> nat \<Rightarrow> nat \<Rightarrow> (nat \<times> nat \<times> vm_file_region option) list" where
  "file_ranges regions root cursor stop =
     (if cursor \<ge> stop then []
      else (cursor, file_range_chunk regions root cursor stop)
             # file_ranges regions root (cursor + fst (file_range_chunk regions root cursor stop)) stop)"
  by pat_completeness auto
termination
  by (relation "measure (\<lambda>(_, _, cursor, stop). stop - cursor)")
    (use file_range_chunk_span in \<open>auto simp: not_le intro!: diff_less_mono2\<close>)

declare file_ranges.simps [simp del]

section \<open>Cutting a range out of the extents\<close>

text \<open>\<open>file_mapping_sync\<close> of a part of an extent; \<open>sync backing first count\<close> is the writeback's status.\<close>

definition file_mapping_sync :: "(nat \<Rightarrow> nat \<Rightarrow> nat \<Rightarrow> int) \<Rightarrow> vm_file_region \<Rightarrow> nat \<Rightarrow> nat \<Rightarrow> int" where
  "file_mapping_sync sync region address len =
     sync (vr_backing region) (vr_first region + (address - vr_address region) div 4096) (len div 4096)"

text \<open>\<open>file_regions_prepare\<close>: the status, and whether the second node of a split was allocated.\<close>

primrec prepare_regions ::
  "(nat \<Rightarrow> nat \<Rightarrow> nat \<Rightarrow> int) \<Rightarrow> bool \<Rightarrow> nat \<Rightarrow> nat \<Rightarrow> nat \<Rightarrow> bool \<Rightarrow> vm_file_region list \<Rightarrow> int \<times> bool" where
  "prepare_regions sync alloc root address stop split [] = (0, split)"
| "prepare_regions sync alloc root address stop split (region # regions) =
     (let region_end = vr_address region + vr_length region in
      if vr_root region \<noteq> root \<or> stop \<le> vr_address region \<or> address \<ge> region_end
      then prepare_regions sync alloc root address stop split regions
      else if address > vr_address region \<and> stop < region_end \<and> \<not> alloc then (VM_ERROR_NOMEM, False)
      else
        let split = (split \<or> (address > vr_address region \<and> stop < region_end));
            start = (if address > vr_address region then address else vr_address region);
            status = file_mapping_sync sync region start ((if stop < region_end then stop else region_end) - start)
        in if status \<noteq> 0 then (status, split)
           else prepare_regions sync alloc root address stop split regions)"

definition file_regions_prepare ::
  "(nat \<Rightarrow> nat \<Rightarrow> nat \<Rightarrow> int) \<Rightarrow> bool \<Rightarrow> nat \<Rightarrow> nat \<Rightarrow> vm_state \<Rightarrow> int \<times> bool" where
  "file_regions_prepare sync alloc address len s =
     prepare_regions sync alloc (v_root s) address (address + len) False (v_regions s)"

text \<open>The upper part of an extent that loses everything below \<open>stop\<close>.\<close>

definition region_tail :: "nat \<Rightarrow> vm_file_region \<Rightarrow> vm_file_region" where
  "region_tail stop region =
     region\<lparr>vr_address := stop, vr_length := vr_address region + vr_length region - stop,
            vr_first := vr_first region + (stop - vr_address region) div 4096\<rparr>"

text \<open>
  \<open>file_regions_remove\<close> over the list: what is left of it, the backings released and the backings
  retained, in order.
\<close>

primrec remove_regions ::
  "nat \<Rightarrow> nat \<Rightarrow> nat \<Rightarrow> vm_file_region list \<Rightarrow> vm_file_region list \<times> nat list \<times> nat list" where
  "remove_regions root address stop [] = ([], [], [])"
| "remove_regions root address stop (region # regions) =
     (let (rest, released, retained) = remove_regions root address stop regions;
          region_end = vr_address region + vr_length region
      in if vr_root region \<noteq> root \<or> stop \<le> vr_address region \<or> address \<ge> region_end
         then (region # rest, released, retained)
         else if address \<le> vr_address region \<and> stop \<ge> region_end
         then (rest, vr_backing region # released, retained)
         else if address > vr_address region then
           (if stop < region_end
            then (region\<lparr>vr_length := address - vr_address region\<rparr> # region_tail stop region # rest, released,
                  vr_backing region # retained)
            else (region\<lparr>vr_length := address - vr_address region\<rparr> # rest, released, retained))
         else (region_tail stop region # rest, released, retained))"

definition file_regions_remove :: "nat \<Rightarrow> nat \<Rightarrow> vm_state \<Rightarrow> vm_state" where
  "file_regions_remove address len s =
     (let (rest, released, retained) = remove_regions (v_root s) address (address + len) (v_regions s)
      in fold vfs_mapping_retain retained (fold vfs_mapping_release released (s\<lparr>v_regions := rest\<rparr>)))"

section \<open>User memory\<close>

definition user_page_flags :: "vm_state \<Rightarrow> nat \<Rightarrow> u32" where
  "user_page_flags s a = arch_user_page_flags (v_root s) a (v_mm s)"

text \<open>The checks of \<open>user_vm_readable\<close> and \<open>user_vm_prepare_write\<close> before their loops.\<close>

definition user_range_ok :: "nat \<Rightarrow> nat \<Rightarrow> bool" where
  "user_range_ok address len \<longleftrightarrow> \<not> (address < USER_SPACE_START \<or> address \<ge> USER_HEAP_END \<or> len = 0
     \<or> len > USER_HEAP_END - address)"

text \<open>
  The loop \<open>for (page = first;; page += VM_PAGE_SIZE)\<close>, which ends when \<open>page\<close> is \<open>last\<close>; \<open>page\<close> is never above it.
\<close>

function readable_pages :: "vm_state \<Rightarrow> nat \<Rightarrow> nat \<Rightarrow> bool" where
  "readable_pages s page last' =
     (if user_page_flags s page AND VM_READ = 0 then False
      else if page \<ge> last' then True else readable_pages s (page + 4096) last')"
  by pat_completeness auto
termination by (relation "measure (\<lambda>(_, page, last'). last' - page)") auto

declare readable_pages.simps [simp del]

definition user_vm_readable :: "nat \<Rightarrow> nat \<Rightarrow> vm_state \<Rightarrow> bool" where
  "user_vm_readable address len s \<longleftrightarrow>
     user_range_ok address len
     \<and> readable_pages s (address div 4096 * 4096) ((address + len - 1) div 4096 * 4096)"

text \<open>\<open>owned\<close> is the answer of \<open>task_address_space_owner\<close> for the active address space.\<close>

function prepare_pages :: "bool \<Rightarrow> nat \<Rightarrow> nat \<Rightarrow> vm_state \<Rightarrow> (vm_state \<times> bool) option" where
  "prepare_pages owned page last' s =
     (if user_page_flags s page AND VM_WRITE = 0 then Some (s, False)
      else case arch_page_fault_resolve (v_root s) owned page 3 (v_mm s) of
        None \<Rightarrow> None
      | Some (m, r) \<Rightarrow>
          let s = s\<lparr>v_mm := m\<rparr> in
          if r = PAGE_FAULT_NO_MEMORY then Some (s, False)
          else if page \<ge> last' then Some (s, True) else prepare_pages owned (page + 4096) last' s)"
  by pat_completeness auto
termination by (relation "measure (\<lambda>(_, page, last', _). last' - page)") auto

declare prepare_pages.simps [simp del]

definition user_vm_prepare_write :: "bool \<Rightarrow> nat \<Rightarrow> nat \<Rightarrow> vm_state \<Rightarrow> (vm_state \<times> bool) option" where
  "user_vm_prepare_write owned address len s =
     (if \<not> user_range_ok address len then Some (s, False)
      else prepare_pages owned (address div 4096 * 4096) ((address + len - 1) div 4096 * 4096) s)"

section \<open>Requests\<close>

definition user_vm_range_free :: "nat \<Rightarrow> nat \<Rightarrow> vm_state \<Rightarrow> bool" where
  "user_vm_range_free address len s \<longleftrightarrow>
     arch_user_find_free (v_root s) address (address + len) len 4096 (v_mm s) = address"

definition vm_request_supported :: "vm_operation \<Rightarrow> vm_request \<Rightarrow> bool" where
  "vm_request_supported operation rq =
     (if rq_length rq = 0 \<or> drop_bit 3 (rq_reserved rq OR rq_flags rq) \<noteq> 0
         \<or> rq_protection rq AND NOT (VM_READ OR VM_WRITE OR VM_EXEC) \<noteq> 0
         \<or> rq_protection rq AND (VM_WRITE OR VM_EXEC) = VM_WRITE OR VM_EXEC then False
      else if operation = VM_ALIAS then
        rq_flags rq = 0 \<and> rq_alignment rq = 0 \<and> rq_descriptor rq = 0
        \<and> rq_offset rq \<ge> USER_SPACE_START \<and> rq_offset rq < USER_HEAP_END \<and> rq_offset rq mod 4096 = 0
        \<and> rq_length rq \<le> USER_HEAP_END - rq_offset rq \<and> rq_protection rq = VM_READ OR VM_WRITE
      else if operation \<noteq> VM_MAP then
        rq_flags rq = 0 \<and> rq_alignment rq = 0 \<and> rq_offset rq = 0 \<and> rq_descriptor rq = 0
        \<and> (operation = VM_PROTECT \<or> rq_protection rq = 0)
      else if rq_flags rq AND VM_FILE \<noteq> 0 then rq_offset rq mod 4096 = 0
      else \<not> (rq_offset rq \<noteq> 0 \<or> rq_descriptor rq \<noteq> 0 \<or> rq_flags rq AND VM_SHARED \<noteq> 0))"

text \<open>A loop over the chunks of a range whose body may stop it with a status.\<close>

primrec for_chunks ::
  "(nat \<times> nat \<times> vm_file_region option \<Rightarrow> mm \<Rightarrow> (mm \<times> int) option) \<Rightarrow> (nat \<times> nat \<times> vm_file_region option) list
     \<Rightarrow> mm \<Rightarrow> (mm \<times> int) option" where
  "for_chunks f [] m = Some (m, 0)"
| "for_chunks f (c # cs) m = do { (m, status) \<leftarrow> f c m; if status \<noteq> 0 then Some (m, status) else for_chunks f cs m }"

definition user_chunks :: "vm_state \<Rightarrow> nat \<Rightarrow> nat \<Rightarrow> (nat \<times> nat \<times> vm_file_region option) list" where
  "user_chunks s address len = file_ranges (v_regions s) (v_root s) address (address + len)"

definition with_status :: "int \<Rightarrow> (mm \<times> bool) option \<Rightarrow> (mm \<times> int) option" where
  "with_status error r = map_option (\<lambda>(m, ok). (m, if ok then 0 else error)) r"

definition lift_mm :: "vm_state \<Rightarrow> (mm \<times> int) option \<Rightarrow> (vm_state \<times> int) option" where
  "lift_mm s r = map_option (\<lambda>(m, status). (s\<lparr>v_mm := m\<rparr>, status)) r"

definition examine_check :: "vm_state \<Rightarrow> vm_operation \<Rightarrow> u32 \<Rightarrow> nat \<times> nat \<times> vm_file_region option \<Rightarrow> mm \<Rightarrow> (mm \<times> int) option" where
  "examine_check s operation protection c m =
     (case c of (cursor, span, region) \<Rightarrow>
        if \<not> arch_user_validate (v_root s) (user_vm_file_page s) cursor span m then Some (m, VM_ERROR_INVALID)
        else if operation = VM_PROTECT \<and> protection AND VM_WRITE \<noteq> 0
                \<and> (case region of Some r \<Rightarrow> \<not> vm_writable (v_maps s (vr_backing r)) | None \<Rightarrow> False)
        then Some (m, VFS_ERROR_ACCESS) else Some (m, 0))"

definition examine_apply ::
  "vm_state \<Rightarrow> (nat \<Rightarrow> nat \<Rightarrow> nat \<Rightarrow> int) \<Rightarrow> vm_operation \<Rightarrow> u32 \<Rightarrow> nat \<times> nat \<times> vm_file_region option \<Rightarrow> mm \<Rightarrow> (mm \<times> int) option" where
  "examine_apply s sync operation protection c m =
     (case c of (cursor, span, region) \<Rightarrow>
        if operation = VM_PROTECT
        then with_status VM_ERROR_INVALID (arch_user_protect (v_root s) (user_vm_file_page s) cursor span protection m)
        else case region of None \<Rightarrow> Some (m, 0) | Some r \<Rightarrow> Some (m, file_mapping_sync sync r cursor span))"

definition user_file_examine ::
  "(nat \<Rightarrow> nat \<Rightarrow> nat \<Rightarrow> int) \<Rightarrow> vm_operation \<Rightarrow> nat \<Rightarrow> nat \<Rightarrow> u32 \<Rightarrow> vm_state \<Rightarrow> (vm_state \<times> int) option" where
  "user_file_examine sync operation address len protection s =
     do { (m, status) \<leftarrow> (if operation = VM_PROTECT \<or> operation = VM_SYNC
            then for_chunks (examine_check s operation protection) (user_chunks s address len) (v_mm s)
            else Some (v_mm s, 0));
          if status \<noteq> 0 then Some (s\<lparr>v_mm := m\<rparr>, status)
          else lift_mm s (for_chunks (examine_apply s sync operation protection) (user_chunks s address len) m) }"

text \<open>The pages of a private extent are remapped in runs of equal flags; \<open>flags_run\<close> is the length of a run.\<close>

function flags_run :: "nat \<Rightarrow> mm \<Rightarrow> u32 \<Rightarrow> nat \<Rightarrow> nat \<Rightarrow> nat \<Rightarrow> nat" where
  "flags_run active m flags cursor limit run =
     (if run < limit - cursor \<and> arch_user_page_flags active (cursor + run) m = flags
      then flags_run active m flags cursor limit (run + 4096) else run)"
  by pat_completeness auto
termination by (relation "measure (\<lambda>(_, _, _, cursor, limit, run). limit - cursor - run)") auto

declare flags_run.simps [simp del]

lemma flags_run_ge: "run \<le> flags_run active m flags cursor limit run"
proof (induction active m flags cursor limit run rule: flags_run.induct)
  case (1 active m flags cursor limit run)
  then show ?case by (subst flags_run.simps) auto
qed

function discard_private :: "vm_state \<Rightarrow> vm_file_region \<Rightarrow> nat \<Rightarrow> nat \<Rightarrow> mm \<Rightarrow> (mm \<times> bool) option" where
  "discard_private s region cursor limit m =
     (if cursor < limit then
        (let flags = arch_user_page_flags (v_root s) cursor m;
             run = flags_run (v_root s) m flags cursor limit 4096;
             first = vr_first region + (cursor - vr_address region) div 4096
         in case arch_user_map_pages (v_root s) (user_vm_file_page s) cursor run (flags AND (VM_READ OR VM_WRITE OR VM_EXEC)) True
                   (Some (drop first (vm_pages (v_maps s (vr_backing region))))) False m of
              None \<Rightarrow> None
            | Some (m, ok) \<Rightarrow> if \<not> ok then Some (m, False) else discard_private s region (cursor + run) limit m)
      else Some (m, True))"
  by pat_completeness auto
termination
proof (relation "measure (\<lambda>(_, _, cursor, limit, _). limit - cursor)", goal_cases)
  case (2 s region cursor limit m flags run first a m' ok)
  then have "4096 \<le> run" using flags_run_ge [of 4096 "v_root s" m flags cursor limit] by simp
  then show ?case using 2 by simp
qed simp

declare discard_private.simps [simp del]

definition discard_chunk ::
  "vm_state \<Rightarrow> (nat \<Rightarrow> nat \<Rightarrow> nat \<Rightarrow> int) \<Rightarrow> nat \<times> nat \<times> vm_file_region option \<Rightarrow> mm \<Rightarrow> (mm \<times> int) option" where
  "discard_chunk s sync c m =
     (case c of
        (cursor, span, None) \<Rightarrow> with_status 1 (arch_user_discard (v_root s) (user_vm_file_page s) cursor span m)
      | (cursor, span, Some r) \<Rightarrow>
          if \<not> vm_shared (v_maps s (vr_backing r)) then with_status 1 (discard_private s r cursor (cursor + span) m)
          else Some (m, if file_mapping_sync sync r cursor span \<noteq> 0 then 1 else 0))"

definition user_file_discard :: "(nat \<Rightarrow> nat \<Rightarrow> nat \<Rightarrow> int) \<Rightarrow> nat \<Rightarrow> nat \<Rightarrow> vm_state \<Rightarrow> (vm_state \<times> bool) option" where
  "user_file_discard sync address len s =
     map_option (\<lambda>(m, status). (s\<lparr>v_mm := m\<rparr>, status = 0)) (for_chunks (discard_chunk s sync) (user_chunks s address len) (v_mm s))"

text \<open>
  The outcomes of the environment during one request: whether the \<open>malloc\<close> of a new extent and of the second
  half of a split succeed, what \<open>vfs_mapping_create\<close> returns (a status, or a mapping with one reference),
  and the statuses of the writebacks.
\<close>

record vm_outcome =
  vo_extent :: bool
  vo_split :: bool
  vo_create :: "int + nat \<times> vfs_mapping"
  vo_sync :: "nat \<Rightarrow> nat \<Rightarrow> nat \<Rightarrow> int"

definition below_heap :: "nat \<Rightarrow> vm_state \<Rightarrow> bool" where
  "below_heap address s = (case v_heap s of Some (addr, len) \<Rightarrow> address < wrap32 (addr + len) | None \<Rightarrow> False)"

definition user_file_map :: "vm_outcome \<Rightarrow> nat \<Rightarrow> nat \<Rightarrow> vm_request \<Rightarrow> vm_state \<Rightarrow> (vm_state \<times> int) option" where
  "user_file_map env address len rq s =
     (if \<not> vo_extent env then Some (s, VM_ERROR_NOMEM)
      else case vo_create env of
        Inl status \<Rightarrow> Some (s, status)
      | Inr (b, mapping) \<Rightarrow>
          (let s = s\<lparr>v_maps := (v_maps s)(b := mapping\<lparr>vm_references := 1\<rparr>)\<rparr>;
               fail = (\<lambda>s status. Some (vfs_mapping_release b s, status))
           in if rq_protection rq AND VM_WRITE \<noteq> 0 \<and> \<not> vm_writable mapping then fail s VFS_ERROR_ACCESS
              else
                let (status, split) = (if below_heap address s then (VM_ERROR_INVALID, False)
                                       else file_regions_prepare (vo_sync env) (vo_split env) address len s)
                in if status \<noteq> 0 then fail s status
                   else case arch_user_map_pages (v_root s) (user_vm_file_page s) address len (rq_protection rq)
                               (rq_flags rq AND VM_REPLACE \<noteq> 0) (Some (vm_pages mapping)) (vm_shared mapping) (v_mm s) of
                          None \<Rightarrow> None
                        | Some (m, ok) \<Rightarrow>
                            if \<not> ok then fail (s\<lparr>v_mm := m\<rparr>) VM_ERROR_NOMEM
                            else
                              let s = file_regions_remove address len (s\<lparr>v_mm := m\<rparr>)
                              in Some (s\<lparr>v_regions := \<lparr>vr_root = v_root s, vr_address = address, vr_length = len, vr_first = 0,
                                                       vr_backing = b\<rparr> # v_regions s\<rparr>, 0)))"

definition user_vm_apply :: "vm_outcome \<Rightarrow> vm_operation \<Rightarrow> nat \<Rightarrow> vm_request \<Rightarrow> vm_state \<Rightarrow> (vm_state \<times> int) option" where
  "user_vm_apply env operation address rq s =
     (let len = rq_length rq in
      if operation = VM_ALIAS then
        Some (s, if arch_user_alias (rq_offset rq) address len then 0 else VM_ERROR_NOMEM)
      else if operation = VM_DISCARD then
        if \<not> list_all (\<lambda>a. user_page_flags s a AND VM_READ \<noteq> 0) (page_addresses address len) then Some (s, VM_ERROR_INVALID)
        else map_option (\<lambda>(s, ok). (s, if ok then 0 else VM_ERROR_NOMEM)) (user_file_discard (vo_sync env) address len s)
      else if operation = VM_PROTECT \<or> operation = VM_SYNC then
        user_file_examine (vo_sync env) operation address len (rq_protection rq) s
      else if operation = VM_MAP \<and> rq_flags rq AND VM_FILE \<noteq> 0 then user_file_map env address len rq s
      else
        let (status, split) = file_regions_prepare (vo_sync env) (vo_split env) address len s
        in if status \<noteq> 0 then Some (s, status)
           else if below_heap address s then Some (s, VM_ERROR_INVALID)
           else case (if operation = VM_UNMAP then arch_user_unmap (v_root s) (user_vm_file_page s) address len (v_mm s)
                      else arch_user_map (v_root s) (user_vm_file_page s) address len (rq_protection rq)
                             (rq_flags rq AND VM_REPLACE \<noteq> 0) (v_mm s)) of
                  None \<Rightarrow> None
                | Some (m, ok) \<Rightarrow>
                    if \<not> ok then Some (s\<lparr>v_mm := m\<rparr>, if operation = VM_MAP then VM_ERROR_NOMEM else VM_ERROR_INVALID)
                    else Some (file_regions_remove address len (s\<lparr>v_mm := m\<rparr>), 0))"

text \<open>The checks on the address, the length and the alignment.\<close>

definition vm_request_valid :: "vm_operation \<Rightarrow> vm_request \<Rightarrow> vm_state \<Rightarrow> bool" where
  "vm_request_valid operation rq s \<longleftrightarrow>
     v_heap s \<noteq> None \<and> vm_request_supported operation rq
     \<and> rq_address rq mod 4096 = 0 \<and> rq_length rq mod 4096 = 0
     \<and> (operation = VM_MAP \<longrightarrow>
          rq_alignment rq \<ge> 4096 \<and> rq_alignment rq AND (rq_alignment rq - 1) = 0
          \<and> rq_address rq AND (rq_alignment rq - 1) = 0
          \<and> \<not> (rq_flags rq AND (VM_REPLACE OR VM_FILE) = VM_REPLACE \<and> rq_address rq = 0))"

text \<open>The address of a mapping the caller left to the kernel: below the last one first, then below the top.\<close>

definition vm_place :: "nat \<Rightarrow> nat \<Rightarrow> nat \<Rightarrow> vm_state \<Rightarrow> nat" where
  "vm_place lower len alignment s =
     (let upper = (if v_hint s > lower then v_hint s else USER_HEAP_END);
          address = (if len \<le> upper - lower then arch_user_find_free (v_root s) lower upper len alignment (v_mm s) else 0)
      in if address = 0 \<and> upper \<noteq> USER_HEAP_END
         then arch_user_find_free (v_root s) lower USER_HEAP_END len alignment (v_mm s) else address)"

definition user_vm_operation :: "vm_outcome \<Rightarrow> vm_operation \<Rightarrow> vm_request \<Rightarrow> vm_state \<Rightarrow> (vm_state \<times> int) option" where
  "user_vm_operation env operation rq s =
     (if \<not> vm_request_valid operation rq s then Some (s, VM_ERROR_INVALID)
      else
        let len = rq_length rq;
            alignment = (if operation = VM_ALIAS then 4096 else rq_alignment rq);
            (base, heap) = the (v_heap s);
            lower = wrap32 (base + heap);
            search = (rq_address rq = 0 \<and> (operation = VM_MAP \<or> operation = VM_ALIAS))
        in if lower < base \<or> lower \<ge> USER_HEAP_END \<or> len > USER_HEAP_END - lower then Some (s, VM_ERROR_NOMEM)
           else
             let address = (if search then vm_place lower len alignment s else rq_address rq)
             in if search \<and> address = 0 then Some (s, VM_ERROR_NOMEM)
                else if address < lower \<or> address \<ge> USER_HEAP_END \<or> len > USER_HEAP_END - address then Some (s, VM_ERROR_INVALID)
                else if operation = VM_MAP \<or> operation = VM_ALIAS then
                  if operation = VM_MAP \<and> rq_flags rq AND VM_REPLACE = 0 \<and> \<not> user_vm_range_free address len s
                  then Some (s, VM_ERROR_EXISTS)
                  else do { (s, result) \<leftarrow> user_vm_apply env operation address rq s;
                            if result < 0 then Some (s, result) else Some (s\<lparr>v_hint := address\<rparr>, int address) }
                else do { (s, result) \<leftarrow> user_vm_apply env operation address rq s;
                          if result = 0 \<and> operation = VM_UNMAP \<and> address + len > v_hint s
                          then Some (s\<lparr>v_hint := address + len\<rparr>, result) else Some (s, result) })"

end
