(* ===== verification/UserVmExtents.thy ===== *)
theory UserVmExtents
  imports UserVm
begin

text \<open>
  What the file extents of an address space mean, and the invariant that the requests keep.  The
  abstract value of the extent list is a partial function from addresses to pages of a backing
  (\<open>extent_page\<close>): cutting a range out of the extents is restriction of that function, a clone of the
  address space copies it, and the release of the address space empties it.  The invariant
  (\<open>vm_wf\<close>) says that the extents of one address space do not overlap, that they are page aligned, and
  that each backing is referenced once per extent.
\<close>

section \<open>The abstract value and the invariant\<close>

definition extent_page :: "vm_file_region list \<Rightarrow> nat \<Rightarrow> nat \<Rightarrow> (nat \<times> nat) option" where
  "extent_page rs root a =
     map_option (\<lambda>r. (vr_backing r, vr_first r + (a - vr_address r) div 4096)) (find (region_holds root a) rs)"

definition region_aligned :: "vm_file_region \<Rightarrow> bool" where
  "region_aligned r \<longleftrightarrow> vr_address r mod 4096 = 0 \<and> vr_length r mod 4096 = 0 \<and> 0 < vr_length r"

definition region_apart :: "vm_file_region \<Rightarrow> vm_file_region \<Rightarrow> bool" where
  "region_apart q r \<longleftrightarrow> vr_root q \<noteq> vr_root r \<or> vr_address q + vr_length q \<le> vr_address r
     \<or> vr_address r + vr_length r \<le> vr_address q"

primrec extents_wf :: "vm_file_region list \<Rightarrow> bool" where
  "extents_wf [] \<longleftrightarrow> True"
| "extents_wf (r # rs) \<longleftrightarrow> region_aligned r \<and> list_all (region_apart r) rs \<and> extents_wf rs"

definition extent_count :: "vm_file_region list \<Rightarrow> nat \<Rightarrow> nat" where
  "extent_count rs b = count_list (map vr_backing rs) b"

definition vm_wf :: "vm_state \<Rightarrow> bool" where
  "vm_wf s \<longleftrightarrow> extents_wf (v_regions s) \<and> (\<forall>b. vm_references (v_maps s b) = extent_count (v_regions s) b)
     \<and> v_hint s mod 4096 = 0"

lemma extents_wf_append:
  "extents_wf (xs @ ys) \<longleftrightarrow> extents_wf xs \<and> extents_wf ys \<and> (\<forall>x\<in>set xs. \<forall>y\<in>set ys. region_apart x y)"
  by (induction xs) (auto simp: list_all_iff)

lemma extent_page_append:
  "extent_page (xs @ ys) root a = (case extent_page xs root a of None \<Rightarrow> extent_page ys root a | Some p \<Rightarrow> Some p)"
  by (induction xs) (auto simp: extent_page_def)

lemma extent_page_Cons:
  "extent_page (r # rs) root a = (if region_holds root a r then Some (vr_backing r, vr_first r + (a - vr_address r) div 4096)
     else extent_page rs root a)"
  by (simp add: extent_page_def)

lemma extent_page_Nil [simp]: "extent_page [] root a = None"
  by (simp add: extent_page_def)

lemma region_holds_tail:
  "vr_address r < stop \<Longrightarrow> stop < vr_address r + vr_length r \<Longrightarrow>
     region_holds root a (region_tail stop r) \<longleftrightarrow> region_holds root a r \<and> stop \<le> a"
  by (auto simp: region_holds_def region_tail_def)

lemma region_holds_head:
  "vr_address r < l \<Longrightarrow> l < vr_address r + vr_length r \<Longrightarrow>
     region_holds root a (r\<lparr>vr_length := l - vr_address r\<rparr>) \<longleftrightarrow> region_holds root a r \<and> a < l"
  by (auto simp: region_holds_def)

lemma page_index_split:
  fixes a :: nat
  assumes "a \<le> b" "b \<le> c" "a mod 4096 = 0" "b mod 4096 = 0"
  shows "(b - a) div 4096 + (c - b) div 4096 = (c - a) div 4096"
proof -
  obtain m n where "a = m * 4096" "b = n * 4096" using assms(3,4) by (metis add.right_neutral div_mult_mod_eq)
  moreover obtain k where "c = b + k" using assms(2) le_Suc_ex by blast
  ultimately show ?thesis using assms(1) by (simp add: diff_mult_distrib [symmetric] div_add1_eq)
qed

lemma region_tail_page:
  assumes "region_aligned r" "stop mod 4096 = 0" "vr_address r \<le> stop" "stop \<le> a"
  shows "vr_first (region_tail stop r) + (a - vr_address (region_tail stop r)) div 4096
       = vr_first r + (a - vr_address r) div 4096"
  using page_index_split [of "vr_address r" stop a] assms by (simp add: region_tail_def region_aligned_def)

lemma region_tail_fields [simp]:
  "vr_root (region_tail stop r) = vr_root r" "vr_backing (region_tail stop r) = vr_backing r"
  "vr_address (region_tail stop r) = stop" "vr_length (region_tail stop r) = vr_address r + vr_length r - stop"
  by (simp_all add: region_tail_def)

section \<open>Cutting a range\<close>

text \<open>What \<open>remove_regions\<close> makes of one extent: nothing, itself, or up to two parts of it.\<close>

definition cut_region :: "nat \<Rightarrow> nat \<Rightarrow> nat \<Rightarrow> vm_file_region \<Rightarrow> vm_file_region list" where
  "cut_region root address stop r =
     (if vr_root r \<noteq> root \<or> stop \<le> vr_address r \<or> address \<ge> vr_address r + vr_length r then [r]
      else (if address > vr_address r then [r\<lparr>vr_length := address - vr_address r\<rparr>] else [])
         @ (if stop < vr_address r + vr_length r then [region_tail stop r] else []))"

lemma remove_regions_cut: "fst (remove_regions root address stop rs) = concat (map (cut_region root address stop) rs)"
  by (induction rs) (auto simp: cut_region_def Let_def split: prod.splits)

lemma remove_regions_count:
  "extent_count (fst (remove_regions root address stop rs)) b + count_list (fst (snd (remove_regions root address stop rs))) b
     = extent_count rs b + count_list (snd (snd (remove_regions root address stop rs))) b"
  by (induction rs) (auto simp: Let_def extent_count_def split: prod.splits)

lemma cut_region_page:
  assumes "region_aligned r" "address < stop" "stop mod 4096 = 0"
  shows "extent_page (cut_region root address stop r) root' a =
    (if root' = root \<and> address \<le> a \<and> a < stop then None else extent_page [r] root' a)"
proof (cases "vr_root r \<noteq> root \<or> stop \<le> vr_address r \<or> address \<ge> vr_address r + vr_length r")
  case True
  then show ?thesis by (auto simp: cut_region_def extent_page_Cons region_holds_def)
next
  case False
  then show ?thesis using assms region_tail_page [OF assms(1,3), of a]
    by (auto simp: cut_region_def extent_page_Cons region_holds_def region_aligned_def)
qed

lemma remove_regions_page:
  assumes "extents_wf rs" "address < stop" "stop mod 4096 = 0"
  shows "extent_page (fst (remove_regions root address stop rs)) root' a =
    (if root' = root \<and> address \<le> a \<and> a < stop then None else extent_page rs root' a)"
  using assms(1)
proof (induction rs)
  case (Cons r rs)
  have c: "extent_page (r # rs) root' a = extent_page ([r] @ rs) root' a" by simp
  show ?case unfolding c remove_regions_cut
    using Cons cut_region_page [of r address stop root root' a] assms(2,3)
    by (cases "extent_page [r] root' a"; cases "root' = root \<and> address \<le> a \<and> a < stop")
      (auto simp add: extent_page_append remove_regions_cut simp del: append_Cons)
qed (simp add: remove_regions_cut)

text \<open>A part of an extent lies inside it, outside the range that was cut, and is aligned.\<close>

lemma cut_region_part:
  assumes "region_aligned r" "address mod 4096 = 0" "stop mod 4096 = 0" "p \<in> set (cut_region root address stop r)" "address < stop"
  shows "region_aligned p \<and> vr_root p = vr_root r \<and> vr_address r \<le> vr_address p
     \<and> vr_address p + vr_length p \<le> vr_address r + vr_length r
     \<and> (vr_root p = root \<longrightarrow> vr_address p + vr_length p \<le> address \<or> stop \<le> vr_address p)"
proof -
  have m: "(a - b) mod 4096 = 0" if "a mod 4096 = 0" "b mod 4096 = 0" for a b :: nat
    using that by (simp add: mod_eq_0_iff_dvd)
  have e: "(vr_address r + vr_length r) mod 4096 = 0" using assms(1) by (auto simp: region_aligned_def mod_eq_0_iff_dvd)
  show ?thesis
    using assms m [OF assms(2), of "vr_address r"] m [OF e assms(3)]
    by (auto simp: cut_region_def region_aligned_def split: if_splits)
qed

lemma region_apart_sub:
  assumes "region_apart q r" "vr_root p = vr_root q" "vr_address q \<le> vr_address p"
    "vr_address p + vr_length p \<le> vr_address q + vr_length q"
    "vr_root p' = vr_root r" "vr_address r \<le> vr_address p'" "vr_address p' + vr_length p' \<le> vr_address r + vr_length r"
  shows "region_apart p p'"
  using assms by (auto simp: region_apart_def)

lemma cut_region_wf:
  assumes "region_aligned r" "address mod 4096 = 0" "stop mod 4096 = 0" "address < stop"
  shows "extents_wf (cut_region root address stop r)"
proof -
  have "\<forall>p\<in>set (cut_region root address stop r). region_aligned p"
    using cut_region_part [OF assms(1-3) _ assms(4)] by blast
  then show ?thesis using assms(4) by (simp add: cut_region_def region_apart_def)
qed

lemma remove_regions_wf:
  assumes a: "address mod 4096 = 0" "stop mod 4096 = 0" "address < stop"
  shows "extents_wf rs \<Longrightarrow> extents_wf (fst (remove_regions root address stop rs))"
proof (induction rs)
  case (Cons r rs)
  have al: "\<forall>r\<in>set rs. region_aligned r" using Cons.prems by (induction rs) auto
  have "region_apart p p'" if p: "p \<in> set (cut_region root address stop r)"
    and q: "q \<in> set rs" "p' \<in> set (cut_region root address stop q)" for p q p'
    using region_apart_sub [of r q p p'] cut_region_part [OF _ a(1,2) p a(3)] cut_region_part [OF _ a(1,2) q(2) a(3)] Cons.prems al q(1)
    by (auto simp: list_all_iff)
  then show ?case using Cons cut_region_wf [OF _ a] unfolding remove_regions_cut
    by (auto simp: extents_wf_append)
qed (simp add: remove_regions_cut)

lemma extents_wf_aligned: "extents_wf rs \<Longrightarrow> r \<in> set rs \<Longrightarrow> region_aligned r"
  by (induction rs) auto

lemma remove_regions_outside:
  assumes "extents_wf rs" "address mod 4096 = 0" "stop mod 4096 = 0" "address < stop"
    "p \<in> set (fst (remove_regions root address stop rs))"
  shows "vr_root p = root \<longrightarrow> vr_address p + vr_length p \<le> address \<or> stop \<le> vr_address p"
  using assms cut_region_part [OF extents_wf_aligned [OF assms(1)] assms(2,3) _ assms(4)]
  unfolding remove_regions_cut by auto

section \<open>References\<close>

lemma retain_frame [simp]:
  "v_regions (vfs_mapping_retain b s) = v_regions s" "v_mm (vfs_mapping_retain b s) = v_mm s"
  "v_root (vfs_mapping_retain b s) = v_root s" "v_hint (vfs_mapping_retain b s) = v_hint s" "v_heap (vfs_mapping_retain b s) = v_heap s"
  "v_regions (vfs_mapping_release b s) = v_regions s" "v_mm (vfs_mapping_release b s) = v_mm s"
  "v_root (vfs_mapping_release b s) = v_root s" "v_hint (vfs_mapping_release b s) = v_hint s" "v_heap (vfs_mapping_release b s) = v_heap s"
  by (simp_all add: vfs_mapping_retain_def vfs_mapping_release_def)

lemma fold_frame:
  assumes "\<And>b s. g (f b s) = g s"
  shows "g (fold f bs s) = g s"
  using assms by (induction bs arbitrary: s) auto

lemmas references_frame [simp] =
  fold_frame [where f = vfs_mapping_retain and g = v_regions] fold_frame [where f = vfs_mapping_retain and g = v_mm]
  fold_frame [where f = vfs_mapping_retain and g = v_root] fold_frame [where f = vfs_mapping_retain and g = v_hint]
  fold_frame [where f = vfs_mapping_retain and g = v_heap]
  fold_frame [where f = vfs_mapping_release and g = v_regions] fold_frame [where f = vfs_mapping_release and g = v_mm]
  fold_frame [where f = vfs_mapping_release and g = v_root] fold_frame [where f = vfs_mapping_release and g = v_hint]
  fold_frame [where f = vfs_mapping_release and g = v_heap]

lemma retain_count:
  "vm_references (v_maps (fold vfs_mapping_retain bs s) b) = vm_references (v_maps s b) + count_list bs b"
  by (induction bs arbitrary: s) (auto simp: vfs_mapping_retain_def)

lemma release_count:
  "vm_references (v_maps (fold vfs_mapping_release bs s) b) = vm_references (v_maps s b) - count_list bs b"
  by (induction bs arbitrary: s) (auto simp: vfs_mapping_release_def)

lemma file_regions_remove_fields [simp]:
  "v_mm (file_regions_remove address len s) = v_mm s" "v_root (file_regions_remove address len s) = v_root s"
  "v_hint (file_regions_remove address len s) = v_hint s" "v_heap (file_regions_remove address len s) = v_heap s"
  "v_regions (file_regions_remove address len s) = fst (remove_regions (v_root s) address (address + len) (v_regions s))"
  by (simp_all add: file_regions_remove_def split: prod.splits)

lemma remove_released_le:
  "count_list (fst (snd (remove_regions root address stop rs))) b \<le> extent_count rs b"
  by (induction rs) (auto simp: Let_def extent_count_def split: prod.splits)

lemma file_regions_remove_refs:
  assumes "extent_count (v_regions s) b \<le> vm_references (v_maps s b)"
  shows "vm_references (v_maps (file_regions_remove address len s) b) + extent_count (v_regions s) b
       = vm_references (v_maps s b) + extent_count (v_regions (file_regions_remove address len s)) b"
proof -
  obtain rest xs ys where r: "remove_regions (v_root s) address (address + len) (v_regions s) = (rest, xs, ys)"
    by (metis prod_cases3)
  show ?thesis using remove_regions_count [of "v_root s" address "address + len" "v_regions s" b] assms
    remove_released_le [of "v_root s" address "address + len" "v_regions s" b]
    by (simp add: file_regions_remove_def retain_count release_count r)
qed

lemma file_regions_remove_wf:
  assumes "vm_wf s" "address mod 4096 = 0" "len mod 4096 = 0" "0 < len"
  shows "vm_wf (file_regions_remove address len s)"
proof -
  have "(address + len) mod 4096 = 0" using assms(2,3) by (auto simp: mod_eq_0_iff_dvd)
  moreover have "vm_references (v_maps (file_regions_remove address len s) b) = extent_count (v_regions (file_regions_remove address len s)) b" for b
    using file_regions_remove_refs [of s b address len] assms(1) unfolding vm_wf_def by (metis add.commute add_left_cancel order_refl)
  ultimately show ?thesis using assms remove_regions_wf [of address "address + len" "v_regions s" "v_root s"]
    by (simp add: vm_wf_def)
qed

section \<open>Clone and release of an address space\<close>

lemma push_copies:
  "fold (\<lambda>copy s. s\<lparr>v_regions := copy # v_regions s\<rparr>) copies s = s\<lparr>v_regions := rev copies @ v_regions s\<rparr>"
  by (induction copies arbitrary: s) auto

definition root_copies :: "nat \<Rightarrow> nat \<Rightarrow> vm_file_region list \<Rightarrow> vm_file_region list" where
  "root_copies source target rs = map (\<lambda>r. r\<lparr>vr_root := target\<rparr>) (filter (\<lambda>r. vr_root r = source) rs)"

text \<open>Retaining and releasing again restores the state, whatever the order.\<close>

lemma fold_release_comp: "fold (\<lambda>copy s. vfs_mapping_release (vr_backing copy) s) cs s = fold vfs_mapping_release (map vr_backing cs) s"
  by (induction cs arbitrary: s) auto

lemma release_maps:
  "v_maps (fold vfs_mapping_release bs s) = (\<lambda>b. (v_maps s b)\<lparr>vm_references := vm_references (v_maps s b) - count_list bs b\<rparr>)"
  by (induction bs arbitrary: s) (auto simp: vfs_mapping_release_def fun_eq_iff)

lemma retain_maps:
  "v_maps (fold vfs_mapping_retain bs s) = (\<lambda>b. (v_maps s b)\<lparr>vm_references := vm_references (v_maps s b) + count_list bs b\<rparr>)"
  by (induction bs arbitrary: s) (auto simp: vfs_mapping_retain_def fun_eq_iff)

lemma vm_state_eqI:
  "v_mm s = v_mm t \<Longrightarrow> v_regions s = v_regions t \<Longrightarrow> v_maps s = v_maps t \<Longrightarrow> v_root s = v_root t \<Longrightarrow> v_hint s = v_hint t
     \<Longrightarrow> v_heap s = v_heap t \<Longrightarrow> s = (t :: vm_state)"
  by (cases s; cases t) simp

lemma clone_regions_loop:
  "clone_regions source target allocs rs copies (fold vfs_mapping_retain (rev (map vr_backing copies)) s) =
    (if length (root_copies source target rs) \<le> allocs
     then ((fold vfs_mapping_retain (rev (map vr_backing copies) @ map vr_backing (root_copies source target rs)) s)
             \<lparr>v_regions := rev copies @ root_copies source target rs @ v_regions s\<rparr>, True)
     else (s, False))"
proof (induction rs arbitrary: copies allocs)
  case Nil
  then show ?case by (simp add: push_copies root_copies_def)
next
  case (Cons r rs)
  show ?case
  proof (cases "vr_root r = source")
    case False
    then show ?thesis using Cons.IH [of allocs copies] by (simp add: root_copies_def)
  next
    case True
    have undo: "fold (\<lambda>copy s. vfs_mapping_release (vr_backing copy) s) copies
        (fold vfs_mapping_retain (rev (map vr_backing copies)) s) = s"
      unfolding fold_release_comp
      by (rule vm_state_eqI) (simp_all add: release_maps retain_maps del: fold_rev)
    have one: "vfs_mapping_retain (vr_backing r) (fold vfs_mapping_retain (rev (map vr_backing copies)) s)
        = fold vfs_mapping_retain (rev (map vr_backing (r\<lparr>vr_root := target\<rparr> # copies))) s" by simp
    show ?thesis
    proof (cases allocs)
      case 0
      then show ?thesis using True undo by (simp add: root_copies_def)
    next
      case (Suc n)
      then show ?thesis using True Cons.IH [of n "r\<lparr>vr_root := target\<rparr> # copies", folded one] by (simp add: root_copies_def)
    qed
  qed
qed

lemma user_vm_clone_value:
  "user_vm_clone source target allocs s =
    (if length (root_copies source target (v_regions s)) \<le> allocs
     then ((fold vfs_mapping_retain (map vr_backing (root_copies source target (v_regions s))) s)
             \<lparr>v_regions := root_copies source target (v_regions s) @ v_regions s\<rparr>, True)
     else (s, False))"
  using clone_regions_loop [of source target allocs "v_regions s" "[]" s] by (simp add: user_vm_clone_def)

lemma root_copies_page:
  "extent_page (root_copies source target rs) root a = (if root = target then extent_page rs source a else None)"
  by (induction rs) (auto simp: root_copies_def extent_page_Cons region_holds_def)

lemma root_copies_wf: "extents_wf rs \<Longrightarrow> extents_wf (root_copies source target rs)"
  by (induction rs) (auto simp: root_copies_def region_aligned_def region_apart_def list_all_iff)

lemma count_list_append_map: "extent_count (xs @ ys) b = extent_count xs b + extent_count ys b"
  by (simp add: extent_count_def)

lemma user_vm_clone_wf:
  assumes "vm_wf s" "\<forall>r\<in>set (v_regions s). vr_root r \<noteq> target"
  shows "vm_wf (fst (user_vm_clone source target allocs s))"
proof -
  have "\<forall>x\<in>set (root_copies source target (v_regions s)). \<forall>y\<in>set (v_regions s). region_apart x y"
    using assms(2) by (auto simp: root_copies_def region_apart_def)
  then show ?thesis using assms root_copies_wf [of "v_regions s" source target]
    unfolding user_vm_clone_value vm_wf_def
    by (simp add: extents_wf_append retain_count extent_count_def)
qed

lemma release_root_value:
  "user_vm_release_locked root s =
     fold vfs_mapping_release (map vr_backing (filter (\<lambda>r. vr_root r = root) (v_regions s)))
       (s\<lparr>v_regions := filter (\<lambda>r. vr_root r \<noteq> root) (v_regions s)\<rparr>)"
  by (simp add: user_vm_release_locked_def fold_release_comp)

lemma filter_root_page:
  "extent_page (filter (\<lambda>r. vr_root r \<noteq> root) rs) root' a = (if root' = root then None else extent_page rs root' a)"
  by (induction rs) (auto simp: extent_page_Cons region_holds_def)

lemma extents_wf_filter: "extents_wf rs \<Longrightarrow> extents_wf (filter P rs)"
  by (induction rs) (auto simp: list_all_iff)

lemma extent_count_filter:
  "extent_count rs b = extent_count (filter (\<lambda>r. \<not> P r) rs) b + count_list (map vr_backing (filter P rs)) b"
  by (induction rs) (auto simp: extent_count_def)

lemma user_vm_release_wf: "vm_wf s \<Longrightarrow> vm_wf (user_vm_release_locked root s)"
  unfolding release_root_value vm_wf_def
  by (simp add: extents_wf_filter release_count) (metis add_diff_cancel_right' extent_count_filter)

section \<open>The ranges of a walk\<close>

lemma extents_wf_apart: "extents_wf rs \<Longrightarrow> q \<in> set rs \<Longrightarrow> r \<in> set rs \<Longrightarrow> q = r \<or> region_apart q r"
proof (induction rs)
  case (Cons x xs)
  then show ?case by (auto simp: list_all_iff region_apart_def)
qed simp

lemma extents_wf_find:
  assumes "extents_wf rs" "r \<in> set rs" "region_holds root a r"
  shows "find (region_holds root a) rs = Some r"
proof -
  obtain q where q: "find (region_holds root a) rs = Some q" "q \<in> set rs" "region_holds root a q"
    using assms(2,3) by (metis find_None_iff find_Some_iff nth_mem option.exhaust)
  then have "\<not> region_apart q r" using assms(3) by (auto simp: region_holds_def region_apart_def)
  then show ?thesis using extents_wf_apart [OF assms(1) q(2) assms(2)] q(1) by simp
qed

abbreviation region_meets :: "nat \<Rightarrow> nat \<Rightarrow> nat \<Rightarrow> vm_file_region \<Rightarrow> bool" where
  "region_meets root from stop r \<equiv> vr_root r = root \<and> vr_address r < stop \<and> from < vr_address r + vr_length r"

lemma fold_next_region_least:
  "(\<forall>f. acc = Some f \<longrightarrow> (\<exists>r. fold (next_region root from stop) rs acc = Some r \<and> vr_address r \<le> vr_address f))
   \<and> (\<forall>q\<in>set rs. region_meets root from stop q \<longrightarrow>
        (\<exists>r. fold (next_region root from stop) rs acc = Some r \<and> vr_address r \<le> vr_address q))"
proof (induction rs arbitrary: acc)
  case (Cons x xs)
  note IH = Cons [of "next_region root from stop x acc"]
  show ?case using IH by (auto simp: next_region_def split: option.splits if_splits)
qed simp

lemma file_region_next_least:
  assumes "q \<in> set rs" "region_meets root from stop q"
  obtains r where "file_region_next rs root from stop = Some r" "vr_address r \<le> vr_address q"
  using fold_next_region_least [of None root "from" stop rs] assms unfolding file_region_next_def by blast

lemma file_range_chunk_uniform:
  assumes wf: "extents_wf rs" and c: "cursor < stop" and ch: "file_range_chunk rs root cursor stop = (span, region)"
    and a: "cursor \<le> a" "a < cursor + span"
  shows "find (region_holds root a) rs = region"
proof -
  have none: "find (region_holds root a) rs = None"
    if n: "\<And>q. q \<in> set rs \<Longrightarrow> region_meets root cursor stop q \<Longrightarrow> a < vr_address q" and l: "a < stop"
  proof -
    have "\<not> region_holds root a q" if q: "q \<in> set rs" for q
      using n [OF q] a(1) l by (cases "vr_address q \<le> a"; cases "cursor < vr_address q + vr_length q") (auto simp: region_holds_def)
    then show ?thesis by (simp add: find_None_iff)
  qed
  show ?thesis
  proof (cases "file_region_next rs root cursor stop")
    case None
    then have f: "region = None" "a < stop" using ch a(2) c by (auto simp: file_range_chunk_def)
    have "\<not> region_meets root cursor stop q" if "q \<in> set rs" for q
      using file_region_next_least [OF that] None by force
    then have "find (region_holds root a) rs = None" by (intro none f(2)) blast
    then show ?thesis using f(1) by simp
  next
    case (Some r)
    note r = file_region_next_some [OF Some]
    show ?thesis
    proof (cases "cursor < vr_address r")
      case True
      then have f: "region = None" "a < vr_address r" "a < stop" using ch a(2) c Some by (auto simp: file_range_chunk_def)
      have "vr_address r \<le> vr_address q" if "q \<in> set rs" "region_meets root cursor stop q" for q
        using file_region_next_least [OF that] Some by force
      then have "find (region_holds root a) rs = None" using f(2) by (intro none f(3)) (rule less_le_trans)
      then show ?thesis using f(1) by simp
    next
      case False
      then have "region = Some r" "a < vr_address r + vr_length r" using ch a Some by (auto simp: file_range_chunk_def)
      then show ?thesis using extents_wf_find [OF wf, of r root a] r a(1) False by (simp add: region_holds_def)
    qed
  qed
qed

text \<open>Consecutive chunks from \<open>cursor\<close> to \<open>stop\<close>.\<close>

primrec chunks_cover :: "nat \<Rightarrow> nat \<Rightarrow> (nat \<times> nat \<times> vm_file_region option) list \<Rightarrow> bool" where
  "chunks_cover cursor stop [] \<longleftrightarrow> stop \<le> cursor"
| "chunks_cover cursor stop (c # cs) \<longleftrightarrow>
     fst c = cursor \<and> 0 < fst (snd c) \<and> cursor + fst (snd c) \<le> stop \<and> chunks_cover (cursor + fst (snd c)) stop cs"

lemma file_ranges_cover: "chunks_cover cursor stop (file_ranges rs root cursor stop)"
proof (induction rs root cursor stop rule: file_ranges.induct)
  case (1 rs root cursor stop)
  then show ?case using file_range_chunk_span [of cursor stop rs root]
    by (subst file_ranges.simps) (auto simp: not_le)
qed

lemma file_ranges_uniform:
  "extents_wf rs \<Longrightarrow> (cursor', span, region) \<in> set (file_ranges rs root cursor stop) \<Longrightarrow> cursor' \<le> a \<Longrightarrow> a < cursor' + span
     \<Longrightarrow> find (region_holds root a) rs = region"
proof (induction rs root cursor stop rule: file_ranges.induct)
  case (1 rs root cursor stop)
  show ?case
  proof (cases "cursor \<ge> stop")
    case True
    then show ?thesis using 1 by (subst (asm) (2) file_ranges.simps) simp
  next
    case False
    then have "(cursor', span, region) = (cursor, file_range_chunk rs root cursor stop)
       \<or> (cursor', span, region) \<in> set (file_ranges rs root (cursor + fst (file_range_chunk rs root cursor stop)) stop)"
      using 1(3) by (subst (asm) file_ranges.simps) simp
    then show ?thesis using 1 False file_range_chunk_uniform [of rs cursor stop root span region a] by auto
  qed
qed

end
