(* ===== verification/UserVmProps.thy ===== *)
theory UserVmProps
  imports UserVmExtents
begin

text \<open>
  What the user memory requests guarantee: the extents after a cut, a clone and a walk, the invariant
  of every reachable state, where a new mapping is placed, and when a user range is readable.
\<close>

section \<open>Requests keep the invariant\<close>

lemma find_free_scan_aligned:
  "page mod 4096 = 0 \<Longrightarrow> find_free_scan active s lower len alignment page available mod 4096 = 0"
proof (induction active s lower len alignment page available rule: find_free_scan.induct)
  case (1 active s lower len alignment page available)
  show ?case
  proof (cases "lower < page")
    case True
    have "(page - 4096) mod 4096 = 0" using "1.prems" True by (cases "4096 \<le> page") (auto simp: mod_eq_0_iff_dvd)
    then show ?thesis using "1.IH" True by (subst find_free_scan.simps) (auto simp: Let_def)
  next
    case False
    then show ?thesis by (subst find_free_scan.simps) simp
  qed
qed

lemma heap_end_aligned: "USER_HEAP_END mod 4096 = 0" by simp

lemma vm_place_aligned: "v_hint s mod 4096 = 0 \<Longrightarrow> vm_place lower len alignment s mod 4096 = 0"
  unfolding vm_place_def arch_user_find_free_def Let_def
  using find_free_scan_aligned [of "v_hint s"] find_free_scan_aligned [OF heap_end_aligned] by auto

lemma vm_wf_cong:
  "v_regions s' = v_regions s \<Longrightarrow> v_maps s' = v_maps s \<Longrightarrow> v_hint s' = v_hint s \<Longrightarrow> vm_wf s' \<longleftrightarrow> vm_wf s"
  by (simp add: vm_wf_def)

lemma vm_wf_mm [simp]: "vm_wf (s\<lparr>v_mm := m\<rparr>) \<longleftrightarrow> vm_wf s"
  by (rule vm_wf_cong) simp_all

lemma user_file_examine_wf:
  assumes "user_file_examine sync operation address len protection s = Some (s', r)" "vm_wf s"
  shows "vm_wf s'"
  using assms unfolding user_file_examine_def lift_mm_def
  by (auto simp: bind_eq_Some_conv split: if_splits)

lemma user_file_discard_wf:
  assumes "user_file_discard sync address len s = Some (s', r)" "vm_wf s"
  shows "vm_wf s'"
  using assms unfolding user_file_discard_def by auto

text \<open>The mapping of a new extent is fresh: no extent refers to it yet.\<close>

definition vm_created :: "vm_outcome \<Rightarrow> vm_state \<Rightarrow> bool" where
  "vm_created env s = (case vo_create env of Inl status \<Rightarrow> status < 0 | Inr (b, mapping) \<Rightarrow> extent_count (v_regions s) b = 0)"

definition vm_with_mapping :: "nat \<Rightarrow> vfs_mapping \<Rightarrow> vm_state \<Rightarrow> vm_state" where
  "vm_with_mapping b mapping s = s\<lparr>v_maps := (v_maps s)(b := mapping\<lparr>vm_references := 1\<rparr>)\<rparr>"

lemma vm_with_mapping_fields [simp]:
  "v_regions (vm_with_mapping b mapping s) = v_regions s" "v_root (vm_with_mapping b mapping s) = v_root s"
  "v_hint (vm_with_mapping b mapping s) = v_hint s" "v_mm (vm_with_mapping b mapping s) = v_mm s"
  by (simp_all add: vm_with_mapping_def)

lemma vm_with_mapping_dropped:
  assumes "vm_wf s" "extent_count (v_regions s) b = 0"
  shows "vm_wf (vfs_mapping_release b (vm_with_mapping b mapping s))"
    "vm_wf (vfs_mapping_release b ((vm_with_mapping b mapping s)\<lparr>v_mm := m\<rparr>))"
  using assms by (auto simp: vm_wf_def vfs_mapping_release_def vm_with_mapping_def)

lemma extent_count_Cons: "extent_count (r # rs) b = (if vr_backing r = b then 1 else 0) + extent_count rs b"
  by (simp add: extent_count_def)

lemma vm_with_mapping_kept:
  fixes mapping m
  assumes wf: "vm_wf s" "extent_count (v_regions s) b = 0"
    and al: "address mod 4096 = 0" "len mod 4096 = 0" "0 < len"
  defines "t \<equiv> file_regions_remove address len ((vm_with_mapping b mapping s)\<lparr>v_mm := m\<rparr>)"
  shows "vm_wf (t\<lparr>v_regions := \<lparr>vr_root = v_root t, vr_address = address, vr_length = len, vr_first = 0, vr_backing = b\<rparr> # v_regions t\<rparr>)"
proof -
  define u where "u = (vm_with_mapping b mapping s)\<lparr>v_mm := m\<rparr>"
  have stop: "(address + len) mod 4096 = 0" "address < address + len" using al by (auto simp: mod_eq_0_iff_dvd)
  have rs: "v_regions t = fst (remove_regions (v_root s) address (address + len) (v_regions s))" "v_root t = v_root s"
    "v_hint t = v_hint s" by (simp_all add: t_def)
  have ex: "extents_wf (v_regions s)" using wf(1) by (simp add: vm_wf_def)
  have "region_apart \<lparr>vr_root = v_root t, vr_address = address, vr_length = len, vr_first = 0, vr_backing = b\<rparr> p"
    if "p \<in> set (v_regions t)" for p
    using remove_regions_outside [OF ex al(1) stop that [unfolded rs]] by (auto simp: region_apart_def rs)
  moreover have "region_aligned \<lparr>vr_root = v_root t, vr_address = address, vr_length = len, vr_first = 0, vr_backing = b\<rparr>"
    using al by (simp add: region_aligned_def)
  moreover have "vm_references (v_maps t c) = extent_count (v_regions t) c + (if c = b then 1 else 0)" for c
  proof -
    have e: "vm_references (v_maps u c) = extent_count (v_regions u) c + (if c = b then 1 else 0)"
      using wf by (auto simp: u_def vm_wf_def vm_with_mapping_def)
    then show ?thesis using file_regions_remove_refs [of u c address len] unfolding t_def u_def [symmetric] by simp
  qed
  ultimately show ?thesis using remove_regions_wf [OF al(1) stop ex] wf(1)
    by (auto simp: vm_wf_def list_all_iff extent_count_Cons rs)
qed

lemma user_file_map_wf:
  assumes r: "user_file_map env address len rq s = Some (s', r)" and wf: "vm_wf s" "vm_created env s"
    and al: "address mod 4096 = 0" "len mod 4096 = 0" "0 < len"
  shows "vm_wf s'"
proof (cases "vo_create env")
  case (Inl status)
  then show ?thesis using r wf(1) by (auto simp: user_file_map_def split: if_splits)
next
  case (Inr p)
  obtain b mapping where p: "p = (b, mapping)" by (cases p)
  have free: "extent_count (v_regions s) b = 0" using wf(2) Inr p by (simp add: vm_created_def)
  note dropped = vm_with_mapping_dropped [OF wf(1) free, where mapping = mapping]
  note kept = vm_with_mapping_kept [OF wf(1) free al, where mapping = mapping]
  show ?thesis using r Inr p dropped kept wf(1) unfolding user_file_map_def vm_with_mapping_def [symmetric]
    by (auto simp: Let_def simp del: file_regions_remove_fields split: if_splits prod.splits option.splits)
qed

lemma user_vm_apply_wf:
  assumes r: "user_vm_apply env operation address rq s = Some (s', r)" and wf: "vm_wf s" "vm_created env s"
    and al: "address mod 4096 = 0" "rq_length rq mod 4096 = 0" "0 < rq_length rq"
  shows "vm_wf s'"
  using r wf(1) user_file_map_wf [OF _ wf al] file_regions_remove_wf [OF _ al]
    user_file_examine_wf [OF _ wf(1)] user_file_discard_wf [OF _ wf(1)]
  unfolding user_vm_apply_def Let_def
  by (auto simp del: file_regions_remove_fields split: if_splits prod.splits option.splits)


lemma vm_request_valid_fields:
  assumes "vm_request_valid operation rq s"
  shows "rq_address rq mod 4096 = 0" "rq_length rq mod 4096 = 0" "0 < rq_length rq"
  using assms by (auto simp: vm_request_valid_def vm_request_supported_def split: if_splits)

definition vm_lower :: "vm_state \<Rightarrow> nat" where
  "vm_lower s = (case the (v_heap s) of (base, heap) \<Rightarrow> wrap32 (base + heap))"

definition vm_address :: "vm_operation \<Rightarrow> vm_request \<Rightarrow> vm_state \<Rightarrow> nat" where
  "vm_address operation rq s =
     (if rq_address rq = 0 \<and> (operation = VM_MAP \<or> operation = VM_ALIAS)
      then vm_place (vm_lower s) (rq_length rq) (if operation = VM_ALIAS then 4096 else rq_alignment rq) s
      else rq_address rq)"

lemma vm_address_aligned:
  "vm_request_valid operation rq s \<Longrightarrow> v_hint s mod 4096 = 0 \<Longrightarrow> vm_address operation rq s mod 4096 = 0"
  by (auto simp: vm_address_def vm_place_aligned dest: vm_request_valid_fields)

text \<open>What an operation returned: an error of the checks with the state unchanged, or the outcome of
  \<open>user_vm_apply\<close> at \<open>vm_address\<close>.\<close>

lemma user_vm_operation_cases:
  assumes "user_vm_operation env operation rq s = Some (s', r)"
  obtains (rejected) "s' = s" "r < 0"
  | (mapped) t n where "vm_request_valid operation rq s" "operation = VM_MAP \<or> operation = VM_ALIAS"
      "vm_address operation rq s \<noteq> 0"
      "vm_lower s \<le> vm_address operation rq s" "vm_address operation rq s < USER_HEAP_END"
      "rq_length rq \<le> USER_HEAP_END - vm_address operation rq s"
      "operation = VM_MAP \<and> rq_flags rq AND VM_REPLACE = 0 \<Longrightarrow> user_vm_range_free (vm_address operation rq s) (rq_length rq) s"
      "user_vm_apply env operation (vm_address operation rq s) rq s = Some (t, n)"
      "(n < 0 \<and> s' = t \<and> r = n) \<or> (0 \<le> n \<and> s' = t\<lparr>v_hint := vm_address operation rq s\<rparr> \<and> r = int (vm_address operation rq s))"
  | (other) t where "vm_request_valid operation rq s" "operation \<noteq> VM_MAP" "operation \<noteq> VM_ALIAS"
      "vm_lower s \<le> rq_address rq" "rq_length rq \<le> USER_HEAP_END - rq_address rq"
      "user_vm_apply env operation (rq_address rq) rq s = Some (t, r)"
      "s' = t \<or> s' = t\<lparr>v_hint := rq_address rq + rq_length rq\<rparr> \<and> r = 0"
proof -
  obtain base heap where h: "the (v_heap s) = (base, heap)" by (cases "the (v_heap s)")
  have lo: "vm_lower s = wrap32 (base + heap)" by (simp add: vm_lower_def h)
  show ?thesis
  proof (cases "vm_request_valid operation rq s")
    case False
    then show ?thesis using assms by (intro rejected) (simp_all add: user_vm_operation_def)
  next
    case True
    note v = True
    define a where "a = vm_address operation rq s"
    note u = assms [unfolded user_vm_operation_def h Let_def prod.case lo [symmetric] vm_address_def [symmetric] a_def [symmetric]]
    show ?thesis
    proof (cases "operation = VM_MAP \<or> operation = VM_ALIAS")
      case True
      show ?thesis
      proof (cases "a = 0")
        case True
        have "rq_address rq = 0" using True \<open>operation = VM_MAP \<or> operation = VM_ALIAS\<close>
          by (auto simp: a_def vm_address_def split: if_splits)
        then have "s' = s \<and> r < 0" using u v True \<open>operation = VM_MAP \<or> operation = VM_ALIAS\<close> by (auto split: if_splits)
        then show ?thesis using rejected by blast
      next
        case False
        then show ?thesis using \<open>operation = VM_MAP \<or> operation = VM_ALIAS\<close> u v rejected mapped unfolding a_def [symmetric]
          by (auto simp: bind_eq_Some_conv split: if_splits)
      qed
    next
      case False
      then have a: "a = rq_address rq" by (simp add: a_def vm_address_def)
      show ?thesis using u v rejected other False unfolding a
        by (auto simp: bind_eq_Some_conv split: if_splits)
    qed
  qed
qed

lemma user_vm_operation_wf:
  assumes "user_vm_operation env operation rq s = Some (s', r)" "vm_wf s" "vm_created env s"
  shows "vm_wf s'"
  using assms(1)
proof (cases rule: user_vm_operation_cases)
  case rejected
  then show ?thesis using assms(2) by simp
next
  case (mapped t n)
  note f = vm_request_valid_fields [OF mapped(1)]
  have a: "vm_address operation rq s mod 4096 = 0" using vm_address_aligned [OF mapped(1)] assms(2) by (simp add: vm_wf_def)
  show ?thesis using user_vm_apply_wf [OF mapped(8) assms(2,3) a f(2,3)] mapped(9) a by (auto simp: vm_wf_def)
next
  case (other t)
  note f = vm_request_valid_fields [OF other(1)]
  have "(rq_address rq + rq_length rq) mod 4096 = 0" using f by (auto simp: mod_eq_0_iff_dvd)
  then show ?thesis using user_vm_apply_wf [OF other(6) assms(2,3) f] other(7) by (auto simp: vm_wf_def)
qed


section \<open>The reachable states\<close>

text \<open>
  One request, a clone into a new address space, the release of an address space, or a switch to
  another task, whose hint is an address that an earlier request stored.
\<close>

inductive vm_step :: "vm_state \<Rightarrow> vm_state \<Rightarrow> bool" where
  vm_request: "user_vm_operation env operation rq s = Some (s', r) \<Longrightarrow> vm_created env s \<Longrightarrow> vm_step s s'"
| vm_clone: "(\<forall>r\<in>set (v_regions s). vr_root r \<noteq> target) \<Longrightarrow> vm_step s (fst (user_vm_clone source target allocs s))"
| vm_release: "vm_step s (user_vm_release_locked root s)"
| vm_switch: "hint mod 4096 = 0 \<Longrightarrow> vm_step s (s\<lparr>v_root := root, v_hint := hint, v_heap := heap\<rparr>)"

inductive vm_reachable :: "vm_state \<Rightarrow> bool" where
  vm_initial: "v_regions s = [] \<Longrightarrow> (\<forall>b. vm_references (v_maps s b) = 0) \<Longrightarrow> v_hint s = 0 \<Longrightarrow> vm_reachable s"
| vm_next: "vm_reachable s \<Longrightarrow> vm_step s s' \<Longrightarrow> vm_reachable s'"

lemma vm_step_wf: "vm_step s s' \<Longrightarrow> vm_wf s \<Longrightarrow> vm_wf s'"
  by (cases rule: vm_step.cases)
    (auto intro: user_vm_operation_wf user_vm_clone_wf user_vm_release_wf simp: vm_wf_def [of "_\<lparr>v_root := _, v_hint := _, v_heap := _\<rparr>"] vm_wf_def [of s])

lemma vm_reachable_wf: "vm_reachable s \<Longrightarrow> vm_wf s"
proof (induction rule: vm_reachable.induct)
  case (vm_initial s)
  then show ?case by (simp add: vm_wf_def extent_count_def)
qed (rule vm_step_wf)

lemma root_copies_length: "length (root_copies source target rs) = length (filter (\<lambda>r. vr_root r = source) rs)"
  by (simp add: root_copies_def)

section \<open>An example\<close>

lemma mm_cow_map_file:
  "\<exists>m. arch_user_map_pages 20480 f 0x70001000 4096 1 False (Some [28672]) False mm_cow = Some (m, True)"
proof -
  have bits: "page_entry_has_all 24583 PAGE_USER_PRESENT_FLAGS" "page_entry_addr 24583 = 24576" "page_entry_add_flags 24583 PAGE_USER_RW_FLAGS = 24583"
    by (simp_all add: page_entry_has_all_def page_entry_add_flags_def PAGE_USER_PRESENT_FLAGS_def PAGE_USER_RW_FLAGS_def page_entry_addr_def page_entry_make_def page_entry_flags_def)
  have pde: "page_dir_entry 20480 0x70001000 = 22272" by (simp add: page_dir_entry_def DIDX_def)
  have pte: "page_table_entry_from_dir 24583 0x70001000 = 24580" by (simp add: page_table_entry_from_dir_def bits TIDX_def)
  have "mem_write a (pg_mem s a) s = s" for a s by (simp add: mem_write_def)
  from this [of 22272 mm_cow] have same: "mem_write 22272 24583 mm_cow = mm_cow" by simp
  have refs: "page_refcount_entry 24583 mm_cow = Some 1"
    by (simp add: page_refcount_entry_def page_refcount_idx_def bits IDX_def mm_example_def PAGE_TOTAL_COUNT_def)
  have prep: "page_prepare_user_table 22272 mm_cow = Some (mm_cow, True)"
    by (simp add: page_prepare_user_table_def bits refs same)
  have check: "map_check 20480 f False 0x70001000 mm_cow = Some (mm_cow, True)"
    by (simp add: map_check_def pde pte prep)
  have addrs: "page_addresses 0x70001000 4096 = [0x70001000]" by (simp add: page_addresses_def)
  show ?thesis
    by (simp add: arch_user_map_pages_def addrs check map_install_def pde pte page_ref_inc_idx_def IDX_def PAGE_TOTAL_COUNT_def mm_example_def)
qed

text \<open>A task with a heap of one page that maps one page of a file above it.\<close>

definition vm_start :: vm_state where
  "vm_start = \<lparr>v_mm = mm_cow, v_regions = [],
     v_maps = (\<lambda>_. \<lparr>vm_pages = [], vm_references = 0, vm_shared = False, vm_writable = False\<rparr>),
     v_root = 20480, v_hint = 0, v_heap = Some (0x70000000, 4096)\<rparr>"

definition vm_map_request :: vm_request where
  "vm_map_request = \<lparr>rq_address = 0x70001000, rq_length = 4096, rq_alignment = 4096, rq_protection = 1, rq_flags = 2,
     rq_offset = 0, rq_descriptor = 3, rq_reserved = 0\<rparr>"

definition vm_map_outcome :: vm_outcome where
  "vm_map_outcome = \<lparr>vo_extent = True, vo_split = True,
     vo_create = Inr (1, \<lparr>vm_pages = [28672], vm_references = 1, vm_shared = False, vm_writable = False\<rparr>),
     vo_sync = (\<lambda>_ _ _. 0)\<rparr>"

definition vm_mapped :: "mm \<Rightarrow> vm_state" where
  "vm_mapped m = \<lparr>v_mm = m,
     v_regions = [\<lparr>vr_root = 20480, vr_address = 0x70001000, vr_length = 4096, vr_first = 0, vr_backing = 1\<rparr>],
     v_maps = (v_maps vm_start)(1 := \<lparr>vm_pages = [28672], vm_references = 1, vm_shared = False, vm_writable = False\<rparr>),
     v_root = 20480, v_hint = 0x70001000, v_heap = Some (0x70000000, 4096)\<rparr>"

lemma vm_start_map:
  "\<exists>m. user_vm_operation vm_map_outcome VM_MAP vm_map_request vm_start = Some (vm_mapped m, 0x70001000)"
proof -
  obtain m where m: "arch_user_map_pages 20480 (user_vm_file_page (vm_with_mapping 1 \<lparr>vm_pages = [28672], vm_references = 1, vm_shared = False, vm_writable = False\<rparr> vm_start))
      0x70001000 4096 1 False (Some [28672]) False mm_cow = Some (m, True)"
    using mm_cow_map_file by blast
  have valid: "vm_request_valid VM_MAP vm_map_request vm_start"
    by (simp add: vm_request_valid_def vm_request_supported_def vm_map_request_def vm_start_def)
  have occ: "\<not> page_occupied 20480 mm_cow 0x70001000"
    by (simp add: page_occupied_def page_dir_entry_def DIDX_def page_table_entry_from_dir_def TIDX_def page_entry_addr_def
        page_entry_has_all_def)
  have free: "user_vm_range_free 0x70001000 4096 vm_start"
    by (simp add: user_vm_range_free_def arch_user_find_free_def vm_start_def find_free_scan.simps [of _ _ _ _ _ "0x70002000"] occ)
  have applied: "user_vm_apply vm_map_outcome VM_MAP 0x70001000 vm_map_request vm_start = Some ((vm_mapped m)\<lparr>v_hint := 0\<rparr>, 0)"
    using m by (simp add: user_vm_apply_def vm_map_request_def user_file_map_def vm_map_outcome_def vm_start_def below_heap_def
        file_regions_prepare_def vm_with_mapping_def file_regions_remove_def vm_mapped_def)
  show ?thesis unfolding user_vm_operation_def using valid free applied
    by (intro exI [of _ m]) (simp add: vm_map_request_def vm_start_def vm_mapped_def)
qed

lemma vm_mapped_reachable:
  "user_vm_operation vm_map_outcome VM_MAP vm_map_request vm_start = Some (s, r) \<Longrightarrow> vm_reachable s"
proof (rule vm_next)
  show "vm_reachable vm_start" by (rule vm_initial) (simp_all add: vm_start_def)
qed (erule vm_request, simp add: vm_created_def vm_map_outcome_def extent_count_def vm_start_def)

definition vm_two :: vm_state where
  "vm_two = vm_start\<lparr>v_regions := [\<lparr>vr_root = 20480, vr_address = 0x70010000, vr_length = 0x3000, vr_first = 4, vr_backing = 1\<rparr>,
      \<lparr>vr_root = 24576, vr_address = 0x70010000, vr_length = 0x1000, vr_first = 0, vr_backing = 1\<rparr>],
     v_maps := (\<lambda>b. \<lparr>vm_pages = [], vm_references = (if b = 1 then 2 else 0), vm_shared = False, vm_writable = False\<rparr>)\<rparr>"

lemma vm_two_wf: "vm_wf vm_two"
  by (auto simp: vm_wf_def vm_two_def vm_start_def region_aligned_def region_apart_def extent_count_def)

section \<open>Properties\<close>

text \<open>C11: cutting a range out of the file extents of an address space is exact.  In a state that satisfies the invariant, for an
  aligned non-empty range, after \<open>file_regions_remove\<close> no address of the range in the current address
  space has a file page, every other address (and every other address space) still finds the same page of
  the same backing, and each backing has exactly one reference per extent that is left.\<close>

theorem file_regions_remove_cuts:
  assumes "vm_wf s" "address mod 4096 = 0" "len mod 4096 = 0" "0 < len"
  defines "t \<equiv> file_regions_remove address len s"
  shows "(\<forall>root a. extent_page (v_regions t) root a =
       (if root = v_root s \<and> address \<le> a \<and> a < address + len then None else extent_page (v_regions s) root a))
    \<and> (\<forall>b. vm_references (v_maps t b) = extent_count (v_regions t) b)"
proof -
  note wf = assms(1)
  have "(address + len) mod 4096 = 0" using assms(2,3) by (auto simp: mod_eq_0_iff_dvd)
  then show ?thesis using remove_regions_page [of "v_regions s" address "address + len" "v_root s"] assms(4)
      file_regions_remove_wf [OF wf assms(2-4)] wf
    by (simp add: vm_wf_def t_def)
qed

theorem file_regions_remove_cuts_witness:
  "extent_page (v_regions (file_regions_remove 0x70011000 4096 vm_two)) 20480 0x70011010 = None
   \<and> extent_page (v_regions (file_regions_remove 0x70011000 4096 vm_two)) 20480 0x70012010 = Some (1, 6)
   \<and> vm_references (v_maps (file_regions_remove 0x70011000 4096 vm_two) 1) = 3"
proof -
  note th = file_regions_remove_cuts [OF vm_two_wf, of "0x70011000" 4096]
  have "extent_count (v_regions (file_regions_remove 0x70011000 4096 vm_two)) 1 = 3"
    by (simp add: vm_two_def vm_start_def extent_count_def region_tail_def)
  moreover have "extent_page (v_regions vm_two) 20480 0x70012010 = Some (1, 6)"
    by (simp add: vm_two_def extent_page_def region_holds_def)
  moreover have "v_root vm_two = 20480" by (simp add: vm_two_def vm_start_def)
  ultimately show ?thesis using th by simp
qed

text \<open>C10: Whatever sequence of map, protect, unmap, discard, sync and alias requests, clones, releases and
  task switches has run, and whatever the allocations and writebacks of each returned, the file extents
  of one address space never overlap, are page aligned, every backing is referenced exactly once per
  extent, and the search hint is page aligned.\<close>

theorem vm_extents_invariant:
  assumes "vm_reachable s"
  shows "extents_wf (v_regions s) \<and> (\<forall>b. vm_references (v_maps s b) = extent_count (v_regions s) b) \<and> v_hint s mod 4096 = 0"
  using vm_reachable_wf [OF assms] unfolding vm_wf_def .

theorem vm_extents_invariant_witness:
  "\<exists>s. user_vm_operation vm_map_outcome VM_MAP vm_map_request vm_start = Some (s, 0x70001000)
     \<and> length (v_regions s) = 1 \<and> vm_references (v_maps s 1) = extent_count (v_regions s) 1"
proof -
  obtain m where m: "user_vm_operation vm_map_outcome VM_MAP vm_map_request vm_start = Some (vm_mapped m, 0x70001000)"
    using vm_start_map by blast
  have "length (v_regions (vm_mapped m)) = 1" by (simp add: vm_mapped_def)
  then show ?thesis using m vm_extents_invariant [OF vm_mapped_reachable [OF m]] by blast
qed

text \<open>The clone of an address space for fork is all or nothing.  If every copy of an extent can be
  allocated, the new address space maps the same file pages as the source, every other address space is
  as before, and the references again agree with the extents; if one allocation fails, the state is
  restored exactly.\<close>

theorem user_vm_clone_atomic:
  fixes source allocs
  assumes "vm_wf s" "\<forall>r\<in>set (v_regions s). vr_root r \<noteq> target"
  defines "t \<equiv> fst (user_vm_clone source target allocs s)"
  shows "if snd (user_vm_clone source target allocs s)
    then (\<forall>root a. extent_page (v_regions t) root a = extent_page (v_regions s) (if root = target then source else root) a)
       \<and> (\<forall>b. vm_references (v_maps t b) = extent_count (v_regions t) b)
    else t = s \<and> allocs < length (filter (\<lambda>r. vr_root r = source) (v_regions s))"
proof -
  have wf: "vm_wf t" unfolding t_def by (rule user_vm_clone_wf [OF assms(1,2)])
  have none: "extent_page (v_regions s) target a = None" for a
    using assms(2) by (auto simp: extent_page_def find_None_iff region_holds_def)
  show ?thesis using wf none unfolding t_def user_vm_clone_value vm_wf_def
    by (auto simp: extent_page_append root_copies_page root_copies_length split: option.splits)
qed

theorem user_vm_clone_atomic_witness:
  "extent_page (v_regions (fst (user_vm_clone 20480 28672 1 vm_two))) 28672 0x70012000 = Some (1, 6)
   \<and> vm_references (v_maps (fst (user_vm_clone 20480 28672 1 vm_two)) 1) = 3
   \<and> fst (user_vm_clone 20480 28672 0 vm_two) = vm_two"
proof -
  have t: "\<forall>r\<in>set (v_regions vm_two). vr_root r \<noteq> 28672" by (simp add: vm_two_def)
  have ok: "snd (user_vm_clone 20480 28672 1 vm_two)" "\<not> snd (user_vm_clone 20480 28672 0 vm_two)"
    by (simp_all add: user_vm_clone_def vm_two_def)
  have c: "extent_count (v_regions (fst (user_vm_clone 20480 28672 1 vm_two))) 1 = 3"
    by (simp add: user_vm_clone_value vm_two_def root_copies_def extent_count_def)
  have p: "extent_page (v_regions vm_two) 20480 0x70012000 = Some (1, 6)"
    by (simp add: vm_two_def extent_page_def region_holds_def)
  show ?thesis using user_vm_clone_atomic [OF vm_two_wf t, of 20480 1] user_vm_clone_atomic [OF vm_two_wf t, of 20480 0] ok c p by simp
qed

text \<open>The walk of \<open>file_range_next\<close> splits a range without gaps or overlaps into non-empty chunks, and each
  chunk is uniform: every address of it lies in the extent that the chunk names, or in none.\<close>

theorem file_ranges_partition:
  assumes "vm_wf s" "address \<le> stop"
  defines "cs \<equiv> file_ranges (v_regions s) (v_root s) address stop"
  shows "chunks_cover address stop cs \<and> (\<forall>(cursor, span, region) \<in> set cs. \<forall>a. cursor \<le> a \<and> a < cursor + span \<longrightarrow>
       file_region_at s a = region)"
  using file_ranges_cover [of address stop "v_regions s" "v_root s"]
    file_ranges_uniform [of "v_regions s" _ _ _ "v_root s" address stop] assms(1)
  unfolding cs_def file_region_at_def vm_wf_def by blast

theorem file_ranges_partition_witness:
  "chunks_cover 0x7000F000 0x70014000 (file_ranges (v_regions vm_two) (v_root vm_two) 0x7000F000 0x70014000)
   \<and> length (file_ranges (v_regions vm_two) (v_root vm_two) 0x7000F000 0x70014000) = 3
   \<and> vr_address (the (file_region_at vm_two 0x70011000)) = 0x70010000"
proof -
  have cs: "file_ranges (v_regions vm_two) (v_root vm_two) 0x7000F000 0x70014000 =
     [(0x7000F000, 0x1000, None), (0x70010000, 0x3000, Some (v_regions vm_two ! 0)), (0x70013000, 0x1000, None)]"
    by (simp add: file_ranges.simps [of _ _ _ "0x70014000"] file_range_chunk_def file_region_next_def next_region_def vm_two_def vm_start_def)
  note th = file_ranges_partition [OF vm_two_wf, of "0x7000F000" "0x70014000"]
  have "file_region_at vm_two 0x70011000 = Some (v_regions vm_two ! 0)" using th by (simp add: cs)
  then show ?thesis using th by (simp add: cs) (simp add: vm_two_def)
qed

lemma readable_pages_iff:
  "page \<le> last' \<Longrightarrow> page mod 4096 = 0 \<Longrightarrow> last' mod 4096 = 0 \<Longrightarrow>
   readable_pages s page last' \<longleftrightarrow> (\<forall>p. page \<le> p \<longrightarrow> p \<le> last' \<longrightarrow> p mod 4096 = 0 \<longrightarrow> user_page_flags s p AND VM_READ \<noteq> 0)"
proof (induction s page last' rule: readable_pages.induct)
  case (1 s page last')
  have step: "p = page \<or> page + 4096 \<le> p" if pp: "page \<le> p" "p mod 4096 = 0" for p
  proof -
    obtain m where m: "page = m * 4096" using "1.prems"(2) by (metis add.right_neutral div_mult_mod_eq)
    obtain n where n: "p = n * 4096" using pp(2) by (metis add.right_neutral div_mult_mod_eq)
    show ?thesis using pp(1) unfolding m n by (cases "m = n") auto
  qed
  show ?case
  proof (cases "page < last' \<and> user_page_flags s page AND VM_READ \<noteq> 0")
    case True
    have n: "page + 4096 \<le> last'" using step [of last'] True "1.prems"(3) by auto
    have "(page + 4096) mod 4096 = 0" using "1.prems"(2) by simp
    then have IH: "readable_pages s (page + 4096) last' \<longleftrightarrow>
        (\<forall>p. page + 4096 \<le> p \<longrightarrow> p \<le> last' \<longrightarrow> p mod 4096 = 0 \<longrightarrow> user_page_flags s p AND VM_READ \<noteq> 0)"
      using "1.IH" True n "1.prems"(3) by simp
    have r: "readable_pages s page last' \<longleftrightarrow> readable_pages s (page + 4096) last'"
      using True by (subst readable_pages.simps) simp
    have q: "(\<forall>p. page \<le> p \<longrightarrow> p \<le> last' \<longrightarrow> p mod 4096 = 0 \<longrightarrow> Q p) \<longleftrightarrow>
        (\<forall>p. page + 4096 \<le> p \<longrightarrow> p \<le> last' \<longrightarrow> p mod 4096 = 0 \<longrightarrow> Q p)" if "Q page" for Q
    proof (intro iffI allI impI)
      fix p assume h: "\<forall>p. page + 4096 \<le> p \<longrightarrow> p \<le> last' \<longrightarrow> p mod 4096 = 0 \<longrightarrow> Q p" "page \<le> p" "p \<le> last'" "p mod 4096 = 0"
      from step [OF h(2,4)] show "Q p"
      proof
        assume "p = page"
        then show ?thesis using that by simp
      next
        assume "page + 4096 \<le> p"
        then show ?thesis by (intro h(1) [rule_format] h(3,4))
      qed
    qed simp
    show ?thesis unfolding r IH by (rule q [where Q = "\<lambda>p. user_page_flags s p AND VM_READ \<noteq> 0", OF conjunct2 [OF True], symmetric])
  next
    case False
    have d: "readable_pages s page last' \<longleftrightarrow> user_page_flags s page AND VM_READ \<noteq> 0"
      using False "1.prems"(1) by (subst readable_pages.simps) auto
    show ?thesis
    proof (cases "user_page_flags s page AND VM_READ = 0")
      case True
      then show ?thesis unfolding d using "1.prems"(1,2) by auto
    next
      case flags: False
      then have "page = last'" using False "1.prems"(1) by simp
      then show ?thesis unfolding d using flags by (auto dest: le_antisym)
    qed
  qed
qed

text \<open>\<open>user_vm_readable\<close> accepts exactly the non-empty ranges inside user space of which every byte lies on a
  readable page, for any start and length, aligned or not.\<close>

theorem user_vm_readable_exact:
  "user_vm_readable address len s \<longleftrightarrow>
     USER_SPACE_START \<le> address \<and> 0 < len \<and> address + len \<le> USER_HEAP_END
     \<and> (\<forall>a. address \<le> a \<and> a < address + len \<longrightarrow> user_page_flags s (a div 4096 * 4096) AND VM_READ \<noteq> 0)"
proof (cases "user_range_ok address len")
  case False
  then show ?thesis by (auto simp: user_vm_readable_def user_range_ok_def)
next
  case True
  define first where "first = address div 4096 * 4096"
  define last' where "last' = (address + len - 1) div 4096 * 4096"
  have ok: "USER_SPACE_START \<le> address" "0 < len" "address + len \<le> USER_HEAP_END"
    using True by (auto simp: user_range_ok_def)
  have le: "first \<le> last'" unfolding first_def last'_def using ok(2) by (intro mult_le_mono1 div_le_mono) simp
  have pages: "(\<forall>p. first \<le> p \<longrightarrow> p \<le> last' \<longrightarrow> p mod 4096 = 0 \<longrightarrow> Q p)
      \<longleftrightarrow> (\<forall>a. address \<le> a \<and> a < address + len \<longrightarrow> Q (a div 4096 * 4096))" for Q
  proof (intro iffI allI impI)
    fix a assume Q: "\<forall>p. first \<le> p \<longrightarrow> p \<le> last' \<longrightarrow> p mod 4096 = 0 \<longrightarrow> Q p" and a: "address \<le> a \<and> a < address + len"
    have "first \<le> a div 4096 * 4096" "a div 4096 * 4096 \<le> last'"
      unfolding first_def last'_def using a by (auto intro!: mult_le_mono1 div_le_mono)
    then show "Q (a div 4096 * 4096)" using Q by simp
  next
    fix p assume Q: "\<forall>a. address \<le> a \<and> a < address + len \<longrightarrow> Q (a div 4096 * 4096)"
      and p: "first \<le> p" "p \<le> last'" "p mod 4096 = 0"
    obtain n where n: "p = n * 4096" using p(3) by (metis add.right_neutral div_mult_mod_eq)
    have m: "address div 4096 \<le> n" "n \<le> (address + len - 1) div 4096" using p(1,2) by (simp_all add: n first_def last'_def)
    have u: "p \<le> address + len - 1" using m(2) unfolding n by (metis le_trans mult_le_mono1 div_times_less_eq_dividend)
    define a where "a = max address p"
    have "a div 4096 = n"
    proof (cases "address \<le> p")
      case True
      then show ?thesis by (simp add: a_def n)
    next
      case False
      then have "n \<le> address div 4096" unfolding n by (simp add: div_le_mono less_eq_div_iff_mult_less_eq)
      then show ?thesis using False m(1) by (simp add: a_def)
    qed
    moreover have "address \<le> a \<and> a < address + len" using u ok(2) by (auto simp: a_def)
    ultimately show "Q p" using Q n by blast
  qed
  show ?thesis using True ok readable_pages_iff [OF le, of s] pages
    unfolding user_vm_readable_def first_def [symmetric] last'_def [symmetric]
    by (simp add: first_def last'_def)
qed


theorem user_vm_readable_exact_witness:
  "user_vm_readable 0x70000010 32 vm_start \<and> \<not> user_vm_readable 0x70000FF0 32 vm_start"
proof -
  have f: "user_page_flags vm_start 0x70000000 AND VM_READ \<noteq> 0" "user_page_flags vm_start 0x70001000 AND VM_READ = 0"
    by (simp_all add: user_page_flags_def vm_start_def arch_user_page_flags_def page_dir_entry_def DIDX_def page_entry_has_all_def
        PAGE_USER_PRESENT_FLAGS_def page_table_entry_from_dir_def TIDX_def page_entry_addr_def)
  have "a div 4096 * 4096 = 0x70000000" if "0x70000010 \<le> a \<and> a < 0x70000010 + 32" for a :: nat
  proof -
    have "a div 4096 = 0x70000" using that by (intro div_nat_eqI) simp_all
    then show ?thesis by simp
  qed
  then have "user_vm_readable 0x70000010 32 vm_start"
    unfolding user_vm_readable_exact using f(1) by auto
  moreover have "\<not> user_vm_readable 0x70000FF0 32 vm_start"
    unfolding user_vm_readable_exact using f(2) by (auto intro!: exI [of _ "0x70001000"])
  ultimately show ?thesis ..
qed

lemma find_free_scan_multiple:
  "find_free_scan active s lower len alignment page available mod alignment = 0"
proof (induction active s lower len alignment page available rule: find_free_scan.induct)
  case (1 active s lower len alignment page available)
  then show ?case by (subst find_free_scan.simps) (simp add: Let_def)
qed

lemma vm_place_multiple: "vm_place lower len alignment s mod alignment = 0"
  unfolding vm_place_def arch_user_find_free_def Let_def by (simp add: find_free_scan_multiple)

lemma user_vm_range_free_pages:
  assumes "user_vm_range_free a len s" "a \<noteq> 0" "a mod 4096 = 0" "len mod 4096 = 0" "0 < len"
  shows "range_free (v_root s) (v_mm s) a (a + len)"
proof -
  have "(a + len) mod 4096 = 0" using assms(3,4) by (auto simp: mod_eq_0_iff_dvd)
  then have "fits (v_root s) (v_mm s) a (a + len) len 4096 a"
    using find_free_fits [where lower = a and upper = "a + len" and len = len and active = "v_root s" and s = "v_mm s" and alignment = 4096] assms unfolding user_vm_range_free_def by simp
  then show ?thesis by (simp add: fits_def)
qed

text \<open>Where a mapping goes.  If a \<open>VM_MAP\<close> request returns an address, that address is page aligned, it is the
  one asked for or a multiple of the wanted alignment if the choice was left to the kernel, the mapping
  lies between the end of the heap and \<open>USER_HEAP_END\<close>, it did not cover a mapped page unless the request
  said \<open>VM_REPLACE\<close>, and the next search starts there; a request that is refused by the checks returns a
  negative status.\<close>

theorem user_vm_map_placed:
  assumes "user_vm_operation env VM_MAP rq s = Some (s', r)" "0 \<le> r" "v_hint s mod 4096 = 0"
  shows "r = int (v_hint s') \<and> v_hint s' \<noteq> 0 \<and> v_hint s' mod 4096 = 0
    \<and> (if rq_address rq = 0 then v_hint s' mod rq_alignment rq = 0 else v_hint s' = rq_address rq)
    \<and> vm_lower s \<le> v_hint s' \<and> v_hint s' + rq_length rq \<le> USER_HEAP_END
    \<and> (rq_flags rq AND VM_REPLACE \<noteq> 0 \<or> range_free (v_root s) (v_mm s) (v_hint s') (v_hint s' + rq_length rq))"
  using assms(1)
proof (cases rule: user_vm_operation_cases)
  case (mapped t n)
  note f = vm_request_valid_fields [OF mapped(1)]
  have a: "vm_address VM_MAP rq s mod 4096 = 0" using vm_address_aligned [OF mapped(1) assms(3)] .
  have h: "v_hint s' = vm_address VM_MAP rq s" "r = int (vm_address VM_MAP rq s)" using mapped(9) assms(2) by auto
  have m: "if rq_address rq = 0 then vm_address VM_MAP rq s mod rq_alignment rq = 0 else vm_address VM_MAP rq s = rq_address rq"
    by (simp add: vm_address_def vm_place_multiple)
  show ?thesis unfolding h using user_vm_range_free_pages [OF mapped(7) mapped(3) a f(2,3)] m mapped(3-6) a by auto
qed (use assms(2) in auto)

theorem user_vm_map_placed_witness:
  "\<exists>s. user_vm_operation vm_map_outcome VM_MAP vm_map_request vm_start = Some (s, 0x70001000)
     \<and> v_hint s = 0x70001000 \<and> range_free (v_root vm_start) (v_mm vm_start) 0x70001000 0x70002000"
proof -
  obtain m where m: "user_vm_operation vm_map_outcome VM_MAP vm_map_request vm_start = Some (vm_mapped m, 0x70001000)"
    using vm_start_map by blast
  have "v_hint vm_start mod 4096 = 0" by (simp add: vm_start_def)
  note th = user_vm_map_placed [OF m _ this]
  have h: "v_hint (vm_mapped m) = 0x70001000" by (simp add: vm_mapped_def)
  have "range_free (v_root vm_start) (v_mm vm_start) 0x70001000 0x70002000" using th by (simp add: h vm_map_request_def)
  then show ?thesis using m h by blast
qed

end
