(* ===== verification/Signal.thy ===== *)
theory Signal
  imports Lifecycle PageTable
begin

text \<open>
  The signals of \<^verbatim>\<open>kernel/dos/task/signal.c\<close> in the i386 build: the requests of the signal system
  call, the delivery of a signal to user mode, the return from a handler, and the signals that processor
  exceptions raise.  The pending and the blocked sets are fields of the task; the alternate stack, the
  active frame, the actions and the return address of the group leader, and the thread pointer stand
  beside it, by tid.  A NULL dereference is \<open>None\<close>.
\<close>

section \<open>Constants and data\<close>

abbreviation NSIG :: nat where "NSIG \<equiv> 32"
abbreviation SIGILL :: nat where "SIGILL \<equiv> 4"
abbreviation SIGTRAP :: nat where "SIGTRAP \<equiv> 5"
abbreviation SIGBUS :: nat where "SIGBUS \<equiv> 7"
abbreviation SIGFPE :: nat where "SIGFPE \<equiv> 8"
abbreviation SIGKILL :: nat where "SIGKILL \<equiv> 9"
abbreviation SIGSEGV :: nat where "SIGSEGV \<equiv> 11"
abbreviation SIG_DFL :: u32 where "SIG_DFL \<equiv> 0"
abbreviation SIG_IGN :: u32 where "SIG_IGN \<equiv> 1"
abbreviation SA_ONSTACK :: u32 where "SA_ONSTACK \<equiv> 2"
abbreviation SA_NODEFER :: u32 where "SA_NODEFER \<equiv> 4"
abbreviation SA_RESETHAND :: u32 where "SA_RESETHAND \<equiv> 8"
abbreviation SA_RESTART :: u32 where "SA_RESTART \<equiv> 64"
abbreviation SA_SUPPORTED :: u32 where "SA_SUPPORTED \<equiv> 127"
abbreviation SS_ONSTACK :: u32 where "SS_ONSTACK \<equiv> 1"
abbreviation SS_DISABLE :: u32 where "SS_DISABLE \<equiv> 2"
abbreviation MINSIGSTKSZ :: u32 where "MINSIGSTKSZ \<equiv> 4096"
abbreviation SI_TKILL :: u32 where "SI_TKILL \<equiv> - 6"

definition SIGMASK :: "nat \<Rightarrow> u32" where
  "SIGMASK n = push_bit (n - 1) 1"

definition BLOCKABLE_BITS :: u32 where
  "BLOCKABLE_BITS = 0x7fffffff AND NOT (SIGMASK SIGKILL)"

record sigaction =
  sa_handler :: u32
  sa_mask :: u32
  sa_flags :: u32

record sigstack =
  ss_sp :: u32
  ss_flags :: u32
  ss_size :: u32

text \<open>The first word of the union is the fault address.\<close>

record siginfo =
  si_signo :: nat
  si_code :: u32
  si_errno :: u32
  si_addr :: u32

text \<open>The registers of \<open>mcontext_t\<close>; \<open>r_general\<close> holds \<open>edi esi ebp esp_dummy ebx edx ecx eax\<close> and \<open>r_fpregs\<close> the 27
  words of the x87 image.\<close>

record mcontext =
  r_general :: "u32 list"
  r_gs :: u32
  r_fs :: u32
  r_es :: u32
  r_ds :: u32
  r_eip :: u32
  r_cs :: u32
  r_eflags :: u32
  r_esp :: u32
  r_ss :: u32
  r_fpregs :: "u32 list"

record signal_frame =
  f_stack :: sigstack
  f_sigmask :: u32
  f_context :: mcontext
  f_information :: siginfo
  f_previous :: u32
  f_onstack :: u32

record task_signals =
  sx_stack :: sigstack
  sx_frame :: u32
  sx_onstack :: bool
  sx_actions :: "sigaction list"
  sx_ret_to_app :: u32
  sx_thread_pointer :: u32

text \<open>The user memory of the current address space: its bytes, \<open>user_vm_readable\<close> and \<open>user_vm_prepare_write\<close>.\<close>

record user_memory =
  um_bytes :: "nat \<Rightarrow> u8"
  um_readable :: "nat \<Rightarrow> nat \<Rightarrow> bool"
  um_writable :: "nat \<Rightarrow> nat \<Rightarrow> bool"

record sig_state =
  sg_kernel :: kernel
  sg_ext :: "nat \<Rightarrow> task_signals"
  sg_mem :: user_memory

abbreviation sg_self :: "sig_state \<Rightarrow> nat" where "sg_self s \<equiv> current_tid (sg_kernel s)"
abbreviation sg_pending :: "sig_state \<Rightarrow> nat \<Rightarrow> u32" where "sg_pending s t \<equiv> t_pending (tsk (sg_kernel s) t)"
abbreviation sg_blocked :: "sig_state \<Rightarrow> nat \<Rightarrow> u32" where "sg_blocked s t \<equiv> t_blocked (tsk (sg_kernel s) t)"
abbreviation sg_owner :: "sig_state \<Rightarrow> nat \<Rightarrow> nat option" where
  "sg_owner s t \<equiv> get_task (sg_kernel s) (t_tgid (tsk (sg_kernel s) t))"

definition upd_sig_task :: "nat \<Rightarrow> (mtask \<Rightarrow> mtask) \<Rightarrow> sig_state \<Rightarrow> sig_state" where
  "upd_sig_task t f s = s\<lparr>sg_kernel := upd_task t f (sg_kernel s)\<rparr>"

definition upd_ext :: "nat \<Rightarrow> (task_signals \<Rightarrow> task_signals) \<Rightarrow> sig_state \<Rightarrow> sig_state" where
  "upd_ext t f s = s\<lparr>sg_ext := (sg_ext s)(t := f (sg_ext s t))\<rparr>"

section \<open>User memory in words\<close>

definition load_word :: "(nat \<Rightarrow> u8) \<Rightarrow> nat \<Rightarrow> u32" where
  "load_word m a = ucast (m a) OR push_bit 8 (ucast (m (a + 1))) OR push_bit 16 (ucast (m (a + 2)))
     OR push_bit 24 (ucast (m (a + 3)))"

definition store_word :: "nat \<Rightarrow> u32 \<Rightarrow> (nat \<Rightarrow> u8) \<Rightarrow> (nat \<Rightarrow> u8)" where
  "store_word a w m = m(a := ucast w, a + 1 := ucast (drop_bit 8 w), a + 2 := ucast (drop_bit 16 w),
     a + 3 := ucast (drop_bit 24 w))"

primrec store_words :: "nat \<Rightarrow> u32 list \<Rightarrow> (nat \<Rightarrow> u8) \<Rightarrow> (nat \<Rightarrow> u8)" where
  "store_words a [] m = m"
| "store_words a (w # ws) m = store_words (a + 4) ws (store_word a w m)"

definition load_words :: "(nat \<Rightarrow> u8) \<Rightarrow> nat \<Rightarrow> nat \<Rightarrow> u32 list" where
  "load_words m a n = map (\<lambda>i. load_word m (a + 4 * i)) [0..<n]"

text \<open>\<open>user_vm_copy_from\<close> and \<open>user_vm_copy_to\<close> of structures that consist of 32-bit words.\<close>

definition copy_from :: "nat \<Rightarrow> nat \<Rightarrow> sig_state \<Rightarrow> u32 list option" where
  "copy_from a n s = (if um_readable (sg_mem s) a (4 * n) then Some (load_words (um_bytes (sg_mem s)) a n) else None)"

definition put_words :: "nat \<Rightarrow> u32 list \<Rightarrow> sig_state \<Rightarrow> sig_state" where
  "put_words a ws s = s\<lparr>sg_mem := (sg_mem s)\<lparr>um_bytes := store_words a ws (um_bytes (sg_mem s))\<rparr>\<rparr>"

definition copy_to :: "nat \<Rightarrow> u32 list \<Rightarrow> sig_state \<Rightarrow> sig_state option" where
  "copy_to a ws s = (if um_writable (sg_mem s) a (4 * length ws) then Some (put_words a ws s) else None)"

text \<open>The layouts of \<open>struct sigaction\<close>, \<open>stack_t\<close>, \<open>mcontext_t\<close> and \<open>signal_frame_t\<close>.\<close>

definition action_words :: "sigaction \<Rightarrow> u32 list" where
  "action_words action = [sa_handler action, sa_mask action, sa_flags action]"

definition words_action :: "u32 list \<Rightarrow> sigaction" where
  "words_action ws = \<lparr>sa_handler = ws ! 0, sa_mask = ws ! 1, sa_flags = ws ! 2\<rparr>"

definition stack_words :: "sigstack \<Rightarrow> u32 list" where
  "stack_words stack = [ss_sp stack, ss_flags stack, ss_size stack]"

definition words_stack :: "u32 list \<Rightarrow> sigstack" where
  "words_stack ws = \<lparr>ss_sp = ws ! 0, ss_flags = ws ! 1, ss_size = ws ! 2\<rparr>"

definition context_words :: "mcontext \<Rightarrow> u32 list" where
  "context_words c = r_general c
     @ [r_gs c, r_fs c, r_es c, r_ds c, r_eip c, r_cs c, r_eflags c, r_esp c, r_ss c] @ r_fpregs c"

definition words_context :: "u32 list \<Rightarrow> mcontext" where
  "words_context ws = \<lparr>r_general = take 8 ws, r_gs = ws ! 8, r_fs = ws ! 9, r_es = ws ! 10, r_ds = ws ! 11, r_eip = ws ! 12,
     r_cs = ws ! 13, r_eflags = ws ! 14, r_esp = ws ! 15, r_ss = ws ! 16, r_fpregs = drop 17 ws\<rparr>"

text \<open>\<open>uc_link\<close>, \<open>uc_stack\<close>, \<open>uc_sigmask\<close>, \<open>uc_mcontext\<close>, the information with its unused last word, \<open>previous\<close>, \<open>onstack\<close>.\<close>

definition frame_words :: "signal_frame \<Rightarrow> u32 list" where
  "frame_words f = 0 # stack_words (f_stack f) @ [f_sigmask f] @ context_words (f_context f)
     @ [of_nat (si_signo (f_information f)), si_code (f_information f), si_errno (f_information f), si_addr (f_information f), 0]
     @ [f_previous f, f_onstack f]"

definition words_frame :: "u32 list \<Rightarrow> signal_frame" where
  "words_frame ws = \<lparr>f_stack = words_stack (drop 1 ws), f_sigmask = ws ! 4, f_context = words_context (take 44 (drop 5 ws)),
     f_information = \<lparr>si_signo = unat (ws ! 49), si_code = ws ! 50, si_errno = ws ! 51, si_addr = ws ! 52\<rparr>,
     f_previous = ws ! 54, f_onstack = ws ! 55\<rparr>"

abbreviation FRAME_SIZE :: nat where "FRAME_SIZE \<equiv> 224"
abbreviation FRAME_INFORMATION :: nat where "FRAME_INFORMATION \<equiv> 196"
abbreviation FRAME_ARGUMENTS :: nat where "FRAME_ARGUMENTS \<equiv> 20"

section \<open>Sending\<close>

definition user_signal_send :: "nat \<Rightarrow> nat \<Rightarrow> sig_state \<Rightarrow> sig_state \<times> unit outcome" where
  "user_signal_send task sig s =
     (if sig = SIGKILL
      then let (k, r) = task_kill (t_tgid (tsk (sg_kernel s) task)) (sg_kernel s) in (s\<lparr>sg_kernel := k\<rparr>, r)
      else case sg_owner s task of
        None \<Rightarrow> (s, Done ())
      | Some owner \<Rightarrow>
          if sa_handler (sx_actions (sg_ext s owner) ! sig) = SIG_IGN then (s, Done ())
          else
            let s = upd_sig_task task (\<lambda>k. k\<lparr>t_pending := t_pending k OR SIGMASK sig\<rparr>) s
            in if sg_blocked s task AND SIGMASK sig = 0
                  \<and> t_wait_reason (tsk (sg_kernel s) task) \<in> {WR_FUTEX, WR_IO, WR_SIGNAL}
               then (s\<lparr>sg_kernel := task_run task (sg_kernel s)\<rparr>, Done ())
               else (s, Done ()))"

section \<open>Requests\<close>

text \<open>Setting a signal to be ignored drops it from every thread of the group.\<close>

definition drop_ignored :: "nat \<Rightarrow> nat \<Rightarrow> sig_state \<Rightarrow> sig_state" where
  "drop_ignored tgid sig s =
     s\<lparr>sg_kernel := for_slots (\<lambda>k t. task_slot_in_use (tsk k t) \<and> t_tgid (tsk k t) = tgid)
        (\<lambda>t. upd_task t (\<lambda>k. k\<lparr>t_pending := t_pending k AND NOT (SIGMASK sig)\<rparr>)) (sg_kernel s)\<rparr>"

definition action_refused :: "sigaction \<Rightarrow> sig_state \<Rightarrow> bool" where
  "action_refused action s \<longleftrightarrow> sa_flags action AND NOT SA_SUPPORTED \<noteq> 0
     \<or> (sa_handler action \<noteq> SIG_DFL \<and> sa_handler action \<noteq> SIG_IGN
        \<and> \<not> um_readable (sg_mem s) (unat (sa_handler action)) 1)"

definition signal_action :: "nat \<Rightarrow> nat \<Rightarrow> nat \<Rightarrow> sig_state \<Rightarrow> (sig_state \<times> int) option" where
  "signal_action a b c s =
     (if a = 0 \<or> a \<ge> NSIG \<or> a = SIGKILL then Some (s, - 22)
      else if b \<noteq> 0 \<and> copy_from b 3 s = None then Some (s, - 14)
      else
        let action = words_action (the (copy_from b 3 s))
        in if b \<noteq> 0 \<and> action_refused action s then Some (s, - 22)
           else case sg_owner s (sg_self s) of
             None \<Rightarrow> if b = 0 \<and> c = 0 then Some (s, 0) else None
           | Some owner \<Rightarrow>
               case (if c = 0 then Some s else copy_to c (action_words (sx_actions (sg_ext s owner) ! a)) s) of
                 None \<Rightarrow> Some (s, - 14)
               | Some s \<Rightarrow>
                   if b = 0 then Some (s, 0)
                   else
                     let action = action\<lparr>sa_mask := sa_mask action AND BLOCKABLE_BITS\<rparr>;
                         s = upd_ext owner (\<lambda>x. x\<lparr>sx_actions := (sx_actions x)[a := action]\<rparr>) s
                     in Some (if sa_handler action = SIG_IGN
                              then drop_ignored (t_tgid (tsk (sg_kernel s) (sg_self s))) a s else s, 0))"

definition signal_mask :: "nat \<Rightarrow> nat \<Rightarrow> nat \<Rightarrow> sig_state \<Rightarrow> sig_state \<times> int" where
  "signal_mask a b c s =
     (if b \<noteq> 0 \<and> a > 2 then (s, - 22)
      else if b \<noteq> 0 \<and> copy_from b 1 s = None then (s, - 14)
      else
        let mask = the (copy_from b 1 s) ! 0 AND BLOCKABLE_BITS; self = sg_self s
        in case (if c = 0 then Some s else copy_to c [sg_blocked s self] s) of
             None \<Rightarrow> (s, - 14)
           | Some s \<Rightarrow>
               (if b = 0 then s
                else upd_sig_task self (\<lambda>k. k\<lparr>t_blocked :=
                       (if a = 0 then t_blocked k OR mask else if a = 1 then t_blocked k AND NOT mask else mask)\<rparr>) s, 0))"

definition stack_now :: "task_signals \<Rightarrow> sigstack" where
  "stack_now x = (sx_stack x)\<lparr>ss_flags := (if sx_onstack x then SS_ONSTACK
     else if ss_size (sx_stack x) \<noteq> 0 then 0 else SS_DISABLE)\<rparr>"

definition signal_stack :: "nat \<Rightarrow> nat \<Rightarrow> sig_state \<Rightarrow> sig_state \<times> int" where
  "signal_stack a b s =
     (let self = sg_self s; x = sg_ext s self; stack = words_stack (the (copy_from a 3 s)) in
      if a \<noteq> 0 \<and> copy_from a 3 s = None then (s, - 14)
      else if a \<noteq> 0 \<and> sx_onstack x then (s, - 1)
      else if a \<noteq> 0 \<and> ss_flags stack \<noteq> 0 \<and> ss_flags stack \<noteq> SS_DISABLE then (s, - 22)
      else if a \<noteq> 0 \<and> ss_flags stack = 0 \<and> ss_size stack < MINSIGSTKSZ then (s, - 12)
      else if a \<noteq> 0 \<and> ss_flags stack = 0 \<and> \<not> um_writable (sg_mem s) (unat (ss_sp stack)) (unat (ss_size stack)) then (s, - 14)
      else case (if b = 0 then Some s else copy_to b (stack_words (stack_now x)) s) of
             None \<Rightarrow> (s, - 14)
           | Some s \<Rightarrow>
               (if a = 0 then s
                else upd_ext self (\<lambda>x. x\<lparr>sx_stack := (if ss_flags stack = SS_DISABLE then \<lparr>ss_sp = 0, ss_flags = 0, ss_size = 0\<rparr>
                                                      else stack)\<rparr>) s, 0))"

definition signal_pending :: "nat \<Rightarrow> sig_state \<Rightarrow> sig_state \<times> int" where
  "signal_pending a s =
     (case copy_to a [sg_pending s (sg_self s)] s of None \<Rightarrow> (s, - 14) | Some s \<Rightarrow> (s, 0))"

text \<open>\<open>SIGNAL_RAISE\<close> (to the caller) and \<open>SIGNAL_SEND\<close> (to a thread of the group, with its generation).\<close>

definition signal_send :: "bool \<Rightarrow> nat \<Rightarrow> nat \<Rightarrow> u32 \<Rightarrow> sig_state \<Rightarrow> sig_state \<times> int outcome" where
  "signal_send to_self a b c s =
     (let k = sg_kernel s; self = sg_self s; target = (if to_self then Some self else get_task k b)
      in if a \<ge> NSIG then (s, Done (- 22))
         else case target of
           None \<Rightarrow> (s, Done (- 3))
         | Some t \<Rightarrow>
             if t_tgid (tsk k t) \<noteq> t_tgid (tsk k self) \<or> (\<not> to_self \<and> t_generation (tsk k t) \<noteq> c)
                \<or> t_state (tsk k t) \<in> {EMPTY, DIED, WILL_EMPTY, ALLOCATING} then (s, Done (- 3))
             else if a = 0 then (s, Done 0)
             else case user_signal_send t a s of
                    (s, SwitchThen _) \<Rightarrow> (s, SwitchThen 0)
                  | (s, _) \<Rightarrow> (s, Done 0))"

definition signal_kill :: "nat \<Rightarrow> nat \<Rightarrow> sig_state \<Rightarrow> sig_state \<times> int outcome" where
  "signal_kill a b s =
     (if b = 0 \<or> b > 2147483647 then (s, Done (- 95))
      else if a \<ge> NSIG then (s, Done (- 22))
      else case get_task (sg_kernel s) b of
        None \<Rightarrow> (s, Done (- 3))
      | Some t \<Rightarrow>
          if t_tid (tsk (sg_kernel s) t) \<noteq> t_tgid (tsk (sg_kernel s) t) \<or> t_state (tsk (sg_kernel s) t) = DIED then (s, Done (- 3))
          else if a = 0 then (s, Done 0)
          else case user_signal_send t a s of
                 (s, SwitchThen _) \<Rightarrow> (s, SwitchThen 0)
               | (s, _) \<Rightarrow> (s, Done 0))"

text \<open>\<open>__builtin_ctz (w) + 1\<close> of a set that is not empty, \<open>SIGKILL\<close> first.\<close>

definition next_signal :: "u32 \<Rightarrow> nat" where
  "next_signal w =
     (if w AND SIGMASK SIGKILL \<noteq> 0 then SIGKILL
      else case find (bit w) [0..<32] of Some n \<Rightarrow> n + 1 | None \<Rightarrow> 33)"

text \<open>\<open>SIGNAL_SUSPEND\<close>: up to the wait, with the mask to restore, and after it.\<close>

definition signal_suspend :: "nat \<Rightarrow> sig_state \<Rightarrow> sig_state \<times> (int + u32) outcome" where
  "signal_suspend a s =
     (case (if a = 0 then None else copy_from a 1 s) of
        None \<Rightarrow> (s, Done (Inl (- 14)))
      | Some ws \<Rightarrow>
          let self = sg_self s; previous = sg_blocked s self;
              s = upd_sig_task self (\<lambda>k. k\<lparr>t_blocked := ws ! 0 AND BLOCKABLE_BITS\<rparr>) s
          in if sg_pending s self AND NOT (sg_blocked s self) \<noteq> 0 then (s, Done (Inr previous))
             else case task_fall_blocked_reason WAITING WR_SIGNAL (sg_kernel s) of
                    (k, SwitchThen _) \<Rightarrow> (s\<lparr>sg_kernel := k\<rparr>, SwitchThen (Inr previous))
                  | (k, _) \<Rightarrow> (s\<lparr>sg_kernel := k\<rparr>, Done (Inr previous)))"

definition signal_resume :: "u32 \<Rightarrow> sig_state \<Rightarrow> sig_state \<times> int" where
  "signal_resume previous s =
     (let self = sg_self s; pending = sg_pending s self AND NOT (sg_blocked s self); sig = next_signal pending;
          s = (if pending \<noteq> 0 \<and> previous AND SIGMASK sig \<noteq> 0
               then upd_sig_task self (\<lambda>k. k\<lparr>t_pending := t_pending k AND NOT (SIGMASK sig)\<rparr>) s else s)
      in (upd_sig_task self (\<lambda>k. k\<lparr>t_blocked := previous\<rparr>) s, - 4))"

section \<open>Delivery\<close>

datatype dispatch_result = NOT_DELIVERED | DELIVERED | EXITED

text \<open>The signal to deliver: a processor fault, or the next pending signal, which is taken from the set.\<close>

definition take_signal :: "siginfo option \<Rightarrow> sig_state \<Rightarrow> (sig_state \<times> siginfo) option" where
  "take_signal fault s =
     (let self = sg_self s; pending = sg_pending s self AND NOT (sg_blocked s self) in
      case fault of
        Some information \<Rightarrow> Some (s, information)
      | None \<Rightarrow>
          if pending = 0 then None
          else
            let sig = next_signal pending
            in Some (upd_sig_task self (\<lambda>k. k\<lparr>t_pending := t_pending k AND NOT (SIGMASK sig)\<rparr>) s,
                     \<lparr>si_signo = sig, si_code = SI_TKILL, si_errno = 0, si_addr = 0\<rparr>))"

text \<open>What is saved on the user stack.\<close>

definition saved_frame :: "siginfo \<Rightarrow> mcontext \<Rightarrow> sig_state \<Rightarrow> signal_frame" where
  "saved_frame information context s =
     (let x = sg_ext s (sg_self s)
      in \<lparr>f_stack = stack_now x, f_sigmask = sg_blocked s (sg_self s), f_context = context, f_information = information,
          f_previous = sx_frame x, f_onstack = of_bool (sx_onstack x)\<rparr>)"

text \<open>Whether the handler runs on the alternate stack, the top of its stack, the frame, and the arguments below it.\<close>

definition use_onstack :: "sigaction \<Rightarrow> task_signals \<Rightarrow> bool" where
  "use_onstack action x \<longleftrightarrow> sx_onstack x \<or> (sa_flags action AND SA_ONSTACK \<noteq> 0 \<and> ss_size (sx_stack x) \<noteq> 0)"

definition stack_top :: "sigaction \<Rightarrow> task_signals \<Rightarrow> mcontext \<Rightarrow> nat" where
  "stack_top action x context =
     (if use_onstack action x \<and> \<not> sx_onstack x then unat (ss_sp (sx_stack x) + ss_size (sx_stack x)) else unat (r_esp context))"

definition frame_address :: "nat \<Rightarrow> nat" where
  "frame_address upper = (upper - FRAME_SIZE) div 16 * 16"

definition frame_stack :: "nat \<Rightarrow> nat" where
  "frame_stack upper = wrap32 (frame_address upper + (2 ^ 32 - FRAME_ARGUMENTS))"

definition frame_refused :: "nat \<Rightarrow> sigaction \<Rightarrow> task_signals \<Rightarrow> nat \<Rightarrow> sig_state \<Rightarrow> bool" where
  "frame_refused owner action x upper s \<longleftrightarrow>
     upper < FRAME_SIZE + FRAME_ARGUMENTS
     \<or> (use_onstack action x \<and> frame_stack upper < unat (ss_sp (sx_stack x)))
     \<or> \<not> um_readable (sg_mem s) (unat (sx_ret_to_app (sg_ext s owner))) 1
     \<or> \<not> um_writable (sg_mem s) (frame_stack upper) (wrap32 (upper + (2 ^ 32 - frame_stack upper)))"

text \<open>The frame is written, the registers enter the handler, and the task records frame, stack and mask.\<close>

definition enter_handler :: "nat \<Rightarrow> siginfo \<Rightarrow> mcontext \<Rightarrow> sig_state \<Rightarrow> sig_state \<times> mcontext" where
  "enter_handler owner information context s =
     (let self = sg_self s; x = sg_ext s self; sig = si_signo information; action = sx_actions (sg_ext s owner) ! sig;
          upper = stack_top action x context; address = frame_address upper; stack = frame_stack upper; onstack = use_onstack action x;
          s = put_words address (frame_words (saved_frame information context s)) s;
          s = put_words stack [sx_ret_to_app (sg_ext s owner), of_nat sig, of_nat (address + FRAME_INFORMATION), of_nat address,
                               of_nat address] s;
          context = context\<lparr>r_esp := of_nat stack, r_eip := sa_handler action,
                            r_eflags := r_eflags context AND NOT (0x100 OR 0x400 OR 0x40000)\<rparr>;
          s = upd_ext self (\<lambda>x. x\<lparr>sx_frame := of_nat address, sx_onstack := onstack\<rparr>) s;
          s = upd_sig_task self (\<lambda>k. k\<lparr>t_blocked := t_blocked k OR sa_mask action
                                      OR (if sa_flags action AND SA_NODEFER = 0 then SIGMASK sig else 0)\<rparr>) s;
          s = (if sa_flags action AND SA_RESETHAND \<noteq> 0
               then upd_ext owner (\<lambda>x. x\<lparr>sx_actions := (sx_actions x)[sig := \<lparr>sa_handler = 0, sa_mask = 0, sa_flags = 0\<rparr>]\<rparr>) s
               else s)
      in (s, context))"

definition exit_process :: "sig_state \<Rightarrow> sig_state" where
  "exit_process s = s\<lparr>sg_kernel := task_exit_process (- 1) (sg_kernel s)\<rparr>"

definition user_signal_dispatch ::
  "mcontext \<Rightarrow> siginfo option \<Rightarrow> sig_state \<Rightarrow> (sig_state \<times> mcontext \<times> dispatch_result) option" where
  "user_signal_dispatch context fault s =
     (if r_cs context AND 3 \<noteq> 3 \<or> sg_self s = NULL_TID then Some (s, context, NOT_DELIVERED)
      else case take_signal fault s of
        None \<Rightarrow> Some (s, context, NOT_DELIVERED)
      | Some (s, information) \<Rightarrow>
          case sg_owner s (sg_self s) of
            None \<Rightarrow> None
          | Some owner \<Rightarrow>
              let sig = si_signo information; action = sx_actions (sg_ext s owner) ! sig; x = sg_ext s (sg_self s)
              in if fault = None \<and> sa_handler action = SIG_IGN then Some (s, context, NOT_DELIVERED)
                 else if sa_handler action = SIG_DFL \<or> sa_handler action = SIG_IGN
                         \<or> (fault \<noteq> None \<and> sg_blocked s (sg_self s) AND SIGMASK sig \<noteq> 0) \<or> sig = SIGKILL
                         \<or> frame_refused owner action x (stack_top action x context) s
                 then Some (exit_process s, context, EXITED)
                 else let (s, context) = enter_handler owner information context s in Some (s, context, DELIVERED))"

section \<open>The return from a handler\<close>

definition X86_USER_SELECTOR :: "nat \<Rightarrow> u32" where
  "X86_USER_SELECTOR index = of_nat (index * 8) OR 3"

text \<open>\<open>x86_user_frame_init\<close> and \<open>x86_user_frame_set_tls\<close>: the segments of user mode.\<close>

definition user_gs :: "sig_state \<Rightarrow> u32" where
  "user_gs s = (if sx_thread_pointer (sg_ext s (sg_self s)) \<noteq> 0 then X86_USER_SELECTOR (5 + k_this_cpu (sg_kernel s))
                else X86_USER_SELECTOR 3)"

definition user_segments :: "u32 \<Rightarrow> mcontext \<Rightarrow> mcontext" where
  "user_segments gs r = r\<lparr>r_cs := X86_USER_SELECTOR 4, r_ss := X86_USER_SELECTOR 3, r_ds := X86_USER_SELECTOR 3,
     r_es := X86_USER_SELECTOR 3, r_fs := X86_USER_SELECTOR 3, r_gs := gs,
     r_eflags := (r_eflags r AND 0x240dd5) OR 0x202\<rparr>"

definition user_address :: "u32 \<Rightarrow> bool" where
  "user_address a \<longleftrightarrow> \<not> (unat a < USER_SPACE_START \<or> unat a \<ge> USER_HEAP_END)"

definition user_signal_restore :: "u32 \<Rightarrow> mcontext \<Rightarrow> sig_state \<Rightarrow> sig_state \<times> mcontext \<times> bool" where
  "user_signal_restore address context s =
     (let self = sg_self s in
      if address = 0 \<or> address \<noteq> sx_frame (sg_ext s self) then (s, context, False)
      else case copy_from (unat address) 56 s of
        None \<Rightarrow> (s, context, False)
      | Some ws \<Rightarrow>
          let saved = words_frame ws; registers = f_context saved
          in if f_onstack saved > 1 \<or> \<not> user_address (r_eip registers) \<or> \<not> user_address (r_esp registers)
             then (s, context, False)
             else (upd_ext self (\<lambda>x. x\<lparr>sx_frame := f_previous saved, sx_onstack := f_onstack saved \<noteq> 0\<rparr>)
                     (upd_sig_task self (\<lambda>k. k\<lparr>t_blocked := f_sigmask saved AND BLOCKABLE_BITS\<rparr>) s),
                   user_segments (user_gs s) registers, True))"

section \<open>Processor exceptions\<close>

text \<open>The x87 exceptions that are raised and not masked: status (bytes 4 and 5 of the image) and not control (bytes 0 and 1).\<close>

definition fpu_exceptions :: "mcontext \<Rightarrow> u32" where
  "fpu_exceptions c = (r_fpregs c ! 1 AND 0xffff) AND NOT (r_fpregs c ! 0 AND 0xffff)"

definition fpu_code :: "u32 \<Rightarrow> u32" where
  "fpu_code e = (if e AND 1 \<noteq> 0 then 7 else if e AND 4 \<noteq> 0 then 3 else if e AND 8 \<noteq> 0 then 4
     else if e AND 0x12 \<noteq> 0 then 5 else if e AND 0x20 \<noteq> 0 then 6 else 7)"

text \<open>\<open>page_flags\<close> is \<open>arch_user_page_flags\<close> of the active address space.\<close>

definition exception_information :: "(nat \<Rightarrow> u32) \<Rightarrow> mcontext \<Rightarrow> nat \<Rightarrow> u32 \<Rightarrow> u32 \<Rightarrow> siginfo" where
  "exception_information page_flags context vector address error =
     (let i = (\<lambda>signo code a. \<lparr>si_signo = signo, si_code = code, si_errno = 0, si_addr = a\<rparr>) in
      if vector = 0 then i SIGFPE 1 address
      else if vector = 1 then i SIGTRAP 2 address
      else if vector = 3 then i SIGTRAP 1 (address - 1)
      else if vector = 6 then i SIGILL 1 address
      else if vector = 14 then
        i SIGSEGV (if error AND 1 \<noteq> 0 \<or> page_flags (unat address div 4096 * 4096) \<noteq> 0 then 2 else 1) address
      else if vector = 16 \<or> vector = 19 then i SIGFPE (fpu_code (fpu_exceptions context)) address
      else if vector = 17 then i SIGBUS 1 address
      else i SIGSEGV 2 address)"

definition user_signal_exception ::
  "(nat \<Rightarrow> u32) \<Rightarrow> mcontext \<Rightarrow> nat \<Rightarrow> u32 \<Rightarrow> u32 \<Rightarrow> sig_state \<Rightarrow> (sig_state \<times> mcontext \<times> dispatch_result) option" where
  "user_signal_exception page_flags context vector address error s =
     user_signal_dispatch context (Some (exception_information page_flags context vector address error)) s"

end
