(* ===== verification/SignalFrames.thy ===== *)
theory SignalFrames
  imports Signal
begin

text \<open>
  What the kernel below the signals does to the pending and the blocked sets: every operation of the
  scheduler, of the wait queues and of the life cycle either leaves both sets of a task alone or clears
  them with the task (\<open>sig_le\<close>).  The lemmas are in the collection \<open>sig_frames\<close>.
\<close>

definition sig_view :: "mtask \<Rightarrow> u32 \<times> u32" where
  "sig_view k = (t_pending k, t_blocked k)"

definition sig_le :: "kernel \<Rightarrow> kernel \<Rightarrow> bool" where
  "sig_le s s' \<longleftrightarrow> slot_count s' = slot_count s \<and> (\<forall>t. sig_view (tsk s' t) \<in> {sig_view (tsk s t), (0, 0)})"

named_theorems sig_frames \<open>operations that leave the signal sets of a task alone or clear them\<close>

lemma sig_le_refl [sig_frames]: "sig_le s s"
  by (simp add: sig_le_def)

lemma sig_le_trans: "sig_le s u \<Longrightarrow> sig_le u v \<Longrightarrow> sig_le s v"
  unfolding sig_le_def by (metis (no_types, lifting) insert_iff singletonD)

lemma sig_le_upd_task [sig_frames]:
  assumes "sig_le s u" "sig_view (f (tsk u t)) \<in> {sig_view (tsk u t), (0, 0)}"
  shows "sig_le s (upd_task t f u)"
proof -
  have "sig_le u (upd_task t f u)" using assms(2) by (auto simp: sig_le_def upd_task_def nth_list_update_if)
  then show ?thesis using assms(1) by (rule sig_le_trans [rotated])
qed

lemma sig_le_cong: "k_slots v = k_slots u \<Longrightarrow> sig_le s v \<longleftrightarrow> sig_le s u"
  by (simp add: sig_le_def)

lemma sig_le_fold [sig_frames]:
  "sig_le s u \<Longrightarrow> (\<And>x v. sig_le s v \<Longrightarrow> sig_le s (f x v)) \<Longrightarrow> sig_le s (fold f xs u)"
  by (induction xs arbitrary: u) auto

lemma sig_le_for_slots [sig_frames]:
  "sig_le s u \<Longrightarrow> (\<And>x v. sig_le s v \<Longrightarrow> sig_le s (f x v)) \<Longrightarrow> sig_le s (for_slots P f u)"
  unfolding for_slots_def by (rule sig_le_fold) auto

lemma sig_le_tables [sig_frames]:
  "sig_le s u \<Longrightarrow> sig_le s (upd_cpu c g u)" "sig_le s u \<Longrightarrow> sig_le s (smp_send_reschedule c u)"
  "sig_le s u \<Longrightarrow> sig_le s (u\<lparr>k_cpus := a\<rparr>)" "sig_le s u \<Longrightarrow> sig_le s (u\<lparr>k_services := b\<rparr>)"
  "sig_le s u \<Longrightarrow> sig_le s (u\<lparr>k_mouse_use := d\<rparr>)" "sig_le s u \<Longrightarrow> sig_le s (u\<lparr>k_keyboard_use := d\<rparr>)"
  "sig_le s u \<Longrightarrow> sig_le s (upd_lock l h u)" "sig_le s u \<Longrightarrow> sig_le s (upd_drive l q u)"
  "sig_le s u \<Longrightarrow> sig_le s (u\<lparr>k_free_hint := n\<rparr>)" "sig_le s u \<Longrightarrow> sig_le s (futex_remove t u)"
  by (simp_all add: sig_le_def upd_cpu_def upd_lock_def upd_drive_def smp_send_reschedule_def futex_remove_def)

lemma sig_le_if [sig_frames]: "sig_le s u \<Longrightarrow> sig_le s v \<Longrightarrow> sig_le s (if b then u else v)"
  by simp

lemma sig_le_request [sig_frames]: "sig_le s u \<Longrightarrow> sig_le s (scheduler_request c u)"
  unfolding scheduler_request_def by (intro sig_frames)

lemma sig_le_option [sig_frames]:
  "sig_le s u \<Longrightarrow> (\<And>x. sig_le s (f x)) \<Longrightarrow> sig_le s (case z of None \<Rightarrow> u | Some x \<Rightarrow> f x)"
  by (cases z) auto

lemma sig_le_queue [sig_frames]:
  "sig_le s u \<Longrightarrow> sig_le s (scheduler_remove t u)" "sig_le s u \<Longrightarrow> sig_le s (scheduler_insert t u)"
  unfolding scheduler_remove_def scheduler_insert_def by (auto intro!: sig_frames simp: sig_view_def)

lemma sig_le_set_state [sig_frames]: "sig_le s u \<Longrightarrow> sig_le s (task_set_state t st u)"
  unfolding task_set_state_def by (auto intro!: sig_frames simp: sig_view_def)

lemma sig_le_place [sig_frames]: "sig_le s u \<Longrightarrow> sig_le s (scheduler_place_task t c u)"
  unfolding scheduler_place_task_def Let_def by (auto intro!: sig_frames simp: sig_view_def)

lemma sig_le_run [sig_frames]: "sig_le s u \<Longrightarrow> sig_le s (task_run t u)"
  unfolding task_run_def Let_def by (auto intro!: sig_frames simp: sig_view_def)

lemma sig_le_fall_blocked: "sig_le s u \<Longrightarrow> sig_le s (fst (task_fall_blocked_reason st r u))"
  unfolding task_fall_blocked_reason_def Let_def by (auto intro!: sig_frames simp: sig_view_def)

lemma sig_le_group_waiters [sig_frames]: "sig_le s u \<Longrightarrow> sig_le s (wake_group_lock_waiters g u)"
  unfolding wake_group_lock_waiters_def by (auto intro!: sig_frames)

lemma sig_le_lock_cancel [sig_frames]: "sig_le s u \<Longrightarrow> sig_le s (lock_cancel_task t u)"
  unfolding lock_cancel_task_def lock_waiter_remove_def by (auto intro!: sig_frames simp: sig_view_def)

lemma sig_le_futex_cancel [sig_frames]: "sig_le s u \<Longrightarrow> sig_le s (futex_cancel_task t u)"
  unfolding futex_cancel_task_def by (auto intro!: sig_frames)

lemma sig_le_receiver [sig_frames]: "sig_le s u \<Longrightarrow> sig_le s (fst (ipc_wake_receiver t u))"
  unfolding ipc_wake_receiver_def Let_def by (auto intro!: sig_frames simp: sig_view_def split: prod.splits)

lemma sig_le_ipc_cleanup [sig_frames]: "sig_le s u \<Longrightarrow> sig_le s (ipc_task_cleanup t u)"
  unfolding ipc_task_cleanup_def ipc_wake_senders_def upd_ipc_def Let_def
  by (auto intro!: sig_frames simp: sig_view_def)

lemma sig_le_vdisk_remove [sig_frames]: "sig_le s u \<Longrightarrow> sig_le s (vdisk_remove_task tid u)"
  unfolding vdisk_remove_task_def Let_def by (auto intro!: sig_frames split: prod.splits)

lemma sig_le_clear_refs [sig_frames]: "sig_le s u \<Longrightarrow> sig_le s (task_clear_external_refs t u)"
  unfolding task_clear_external_refs_def Let_def by (auto intro!: sig_frames simp: sig_view_def)

lemma sig_le_release_resources [sig_frames]: "sig_le s u \<Longrightarrow> sig_le s (task_release_resources t u)"
  unfolding task_release_resources_def by (auto intro!: sig_frames simp: sig_view_def)

lemma sig_view_reset: "sig_view (task_slot_reset tid k) = (0, 0)"
  by (simp add: sig_view_def task_slot_reset_def ipc_task_init_def)

lemma sig_le_slot_release [sig_frames]: "sig_le s u \<Longrightarrow> sig_le s (task_slot_release t u)"
  unfolding task_slot_release_def Let_def by (auto intro!: sig_frames simp: sig_view_reset)

lemma sig_le_wake_child [sig_frames]: "sig_le s u \<Longrightarrow> sig_le s (wake_child_waiter t u)"
  unfolding wake_child_waiter_def Let_def by (auto intro!: sig_frames)

lemma sig_le_reparent [sig_frames]: "sig_le s u \<Longrightarrow> sig_le s (reparent_children p q u)"
  unfolding reparent_children_def Let_def by (auto intro!: sig_frames simp: sig_view_def)

lemma sig_le_finish [sig_frames]: "sig_le s u \<Longrightarrow> sig_le s (finish_task t st w u)"
  unfolding finish_task_def Let_def by (auto intro!: sig_frames simp: sig_view_def)

lemma sig_le_finish_thread [sig_frames]: "sig_le s u \<Longrightarrow> sig_le s (task_finish_thread t u)"
  unfolding task_finish_thread_def Let_def by (auto intro!: sig_frames simp: sig_view_def)

lemma sig_le_request_with [sig_frames]:
  assumes f: "\<And>x v. sig_le s v \<Longrightarrow> sig_le s (finish x v)" and u: "sig_le s u"
  shows "sig_le s (request_with finish t st u)"
proof -
  have "sig_le s (upd_task t (\<lambda>k. k\<lparr>t_terminate_status := st, t_terminate_pending := True\<rparr>) u)"
    using u by (auto intro!: sig_frames simp: sig_view_def)
  then show ?thesis unfolding request_with_def Let_def by (auto intro: f sig_le_request)
qed

lemma sig_le_terminate_group [sig_frames]: "sig_le s u \<Longrightarrow> sig_le s (terminate_thread_group g e u)"
  unfolding terminate_thread_group_def Let_def by (auto intro!: sig_frames simp: sig_view_def)

lemma sig_le_finish_pending [sig_frames]: "sig_le s u \<Longrightarrow> sig_le s (task_finish_pending t u)"
  unfolding task_finish_pending_def Let_def by (auto intro!: sig_frames simp: sig_view_def)

lemma sig_le_request_termination [sig_frames]: "sig_le s u \<Longrightarrow> sig_le s (request_task_termination t st u)"
  unfolding request_task_termination_def by (auto intro!: sig_frames)

lemma sig_le_kill: "sig_le s (fst (task_kill t s))"
  unfolding task_kill_def by (auto intro!: sig_frames split: option.splits)

lemma sig_le_exit_process: "sig_le s (task_exit_process st s)"
  unfolding task_exit_process_def Let_def by (auto intro!: sig_frames simp: sig_view_def)

end
