(* ===== verification/SignalProps.thy ===== *)
theory SignalProps
  imports SignalFrames
begin

text \<open>
  What the signals guarantee: \<open>SIGKILL\<close> is never blocked and never handled, whatever a process does, also
  by forging a signal frame; the next signal is the lowest pending one; a handler's return restores the
  interrupted registers, and never more than user privileges.
\<close>

section \<open>Signal sets\<close>

definition blockable :: "u32 \<Rightarrow> bool" where
  "blockable w \<longleftrightarrow> w AND BLOCKABLE_BITS = w"

lemma bit_BLOCKABLE: "bit BLOCKABLE_BITS n \<longleftrightarrow> n < 31 \<and> n \<noteq> 8"
proof -
  have e: "BLOCKABLE_BITS = mask 31 AND NOT (push_bit 8 1)"
    by (simp add: BLOCKABLE_BITS_def SIGMASK_def mask_eq_exp_minus_1)
  show ?thesis unfolding e
    by (simp only: bit_and_iff bit_mask_iff bit_not_iff bit_push_bit_iff bit_1_iff possible_bit_word) auto
qed

lemma blockable_bits: "blockable w \<longleftrightarrow> (\<forall>n. bit w n \<longrightarrow> n < 31 \<and> n \<noteq> 8)"
proof
  assume "blockable w"
  then have "bit w n = (bit w n \<and> bit BLOCKABLE_BITS n)" for n
    unfolding blockable_def by (metis bit_and_iff)
  then show "\<forall>n. bit w n \<longrightarrow> n < 31 \<and> n \<noteq> 8" by (auto simp: bit_BLOCKABLE)
next
  assume "\<forall>n. bit w n \<longrightarrow> n < 31 \<and> n \<noteq> 8"
  then show "blockable w" unfolding blockable_def by (intro bit_word_eqI) (auto simp: bit_and_iff bit_BLOCKABLE)
qed

lemma bit_SIGMASK: "0 < n \<Longrightarrow> bit (SIGMASK n) k \<longleftrightarrow> k = n - 1 \<and> n \<le> 32"
  by (auto simp: SIGMASK_def bit_simps)

lemma blockable_simps [simp]:
  "blockable 0" "blockable (w AND BLOCKABLE_BITS)" "blockable (BLOCKABLE_BITS AND w)"
  "blockable v \<Longrightarrow> blockable w \<Longrightarrow> blockable (v OR w)"
  "blockable v \<Longrightarrow> blockable (v AND w)"
  by (auto simp: blockable_bits bit_simps bit_BLOCKABLE)

lemma blockable_SIGMASK: "0 < n \<Longrightarrow> n < NSIG \<Longrightarrow> n \<noteq> SIGKILL \<Longrightarrow> blockable (SIGMASK n)"
  by (auto simp: blockable_bits bit_SIGMASK)

lemma no_kill_bit: "w AND SIGMASK SIGKILL = 0 \<longleftrightarrow> \<not> bit w 8"
proof -
  have "w AND SIGMASK SIGKILL = (if bit w 8 then SIGMASK SIGKILL else 0)"
    by (intro bit_word_eqI) (auto simp: bit_and_iff bit_SIGMASK)
  then show ?thesis by (simp add: SIGMASK_def)
qed

lemma blockable_no_kill: "blockable w \<Longrightarrow> w AND SIGMASK SIGKILL = 0"
  by (auto simp: blockable_bits no_kill_bit)

section \<open>The invariant\<close>

definition actions_wf :: "sigaction list \<Rightarrow> bool" where
  "actions_wf as \<longleftrightarrow> length as = NSIG \<and> sa_handler (as ! SIGKILL) = SIG_DFL \<and> list_all (\<lambda>a. blockable (sa_mask a)) as"

definition signal_wf :: "sig_state \<Rightarrow> bool" where
  "signal_wf s \<longleftrightarrow> (\<forall>t < slot_count (sg_kernel s). blockable (sg_blocked s t) \<and> blockable (sg_pending s t))
     \<and> (\<forall>t. actions_wf (sx_actions (sg_ext s t)))"

lemma actions_wf_upd:
  "actions_wf as \<Longrightarrow> i \<noteq> SIGKILL \<Longrightarrow> blockable (sa_mask a) \<Longrightarrow> actions_wf (as[i := a])"
  unfolding actions_wf_def list_all_length by (auto simp: nth_list_update_if)

lemma actions_wf_mask: "actions_wf as \<Longrightarrow> i < NSIG \<Longrightarrow> blockable (sa_mask (as ! i))"
  by (simp add: actions_wf_def list_all_length)

lemma signal_wf_kernel:
  "signal_wf s \<Longrightarrow> sig_le (sg_kernel s) k \<Longrightarrow> signal_wf (s\<lparr>sg_kernel := k\<rparr>)"
proof -
  assume wf: "signal_wf s" and le: "sig_le (sg_kernel s) k"
  have "blockable (t_blocked (tsk k t)) \<and> blockable (t_pending (tsk k t))" if "t < slot_count k" for t
  proof -
    have "sig_view (tsk k t) \<in> {sig_view (tsk (sg_kernel s) t), (0, 0)}" "t < slot_count (sg_kernel s)"
      using le that by (simp_all add: sig_le_def)
    then show ?thesis using wf by (auto simp: signal_wf_def sig_view_def)
  qed
  then show ?thesis using wf by (simp add: signal_wf_def)
qed

lemma signal_wf_task:
  assumes "signal_wf s" "t < slot_count (sg_kernel s) \<Longrightarrow> blockable (t_blocked (f (tsk (sg_kernel s) t)))"
    "t < slot_count (sg_kernel s) \<Longrightarrow> blockable (t_pending (f (tsk (sg_kernel s) t)))"
  shows "signal_wf (upd_sig_task t f s)"
  using assms by (auto simp: signal_wf_def upd_sig_task_def upd_task_def nth_list_update_if)

lemma signal_wf_ext:
  assumes "signal_wf s" "actions_wf (sx_actions (f (sg_ext s t)))"
  shows "signal_wf (upd_ext t f s)"
  using assms by (auto simp: signal_wf_def upd_ext_def)

lemma signal_wf_words [simp]: "signal_wf (put_words a ws s) \<longleftrightarrow> signal_wf s"
  by (simp add: signal_wf_def put_words_def)

lemma signal_wf_copy: "copy_to a ws s = Some s' \<Longrightarrow> signal_wf s' \<longleftrightarrow> signal_wf s"
  by (auto simp: copy_to_def split: if_splits)

lemma upd_fields [simp]:
  "sg_ext (upd_sig_task t f s) = sg_ext s" "sg_mem (upd_sig_task t f s) = sg_mem s" "sg_kernel (upd_ext t g s) = sg_kernel s"
  "sg_mem (upd_ext t g s) = sg_mem s" "sg_kernel (put_words a ws s) = sg_kernel s" "sg_ext (put_words a ws s) = sg_ext s"
  by (simp_all add: upd_sig_task_def upd_ext_def put_words_def)

lemma sg_self_upd [simp]: "current_tid (sg_kernel (upd_sig_task t f s)) = sg_self s"
  by (simp add: upd_sig_task_def)

lemma user_signal_send_wf:
  assumes "signal_wf s" "0 < sig" "sig < NSIG"
  shows "signal_wf (fst (user_signal_send t sig s))"
proof (cases "sig = SIGKILL")
  case True
  then show ?thesis using signal_wf_kernel [OF assms(1) sig_le_kill, of "t_tgid (tsk (sg_kernel s) t)"]
    by (cases "task_kill (t_tgid (tsk (sg_kernel s) t)) (sg_kernel s)") (simp add: user_signal_send_def)
next
  case False
  let ?u = "upd_sig_task t (\<lambda>k. k\<lparr>t_pending := t_pending k OR SIGMASK sig\<rparr>) s"
  have u: "signal_wf ?u" using assms(1) blockable_SIGMASK [OF assms(2,3) False]
    by (intro signal_wf_task) (auto simp: signal_wf_def)
  then show ?thesis using False assms(1) signal_wf_kernel [OF u sig_le_run [OF sig_le_refl], of t]
    by (simp add: user_signal_send_def Let_def split: option.splits)
qed


lemma drop_ignored_wf: "signal_wf s \<Longrightarrow> signal_wf (drop_ignored g n s)"
proof -
  assume wf: "signal_wf s"
  define I where "I k \<longleftrightarrow> slot_count k = slot_count (sg_kernel s)
     \<and> (\<forall>t < slot_count k. blockable (t_blocked (tsk k t)) \<and> blockable (t_pending (tsk k t)))" for k
  have "I (for_slots (\<lambda>k t. task_slot_in_use (tsk k t) \<and> t_tgid (tsk k t) = g)
        (\<lambda>t. upd_task t (\<lambda>k. k\<lparr>t_pending := t_pending k AND NOT (SIGMASK n)\<rparr>)) (sg_kernel s))"
    by (rule for_slots_inv) (use wf in \<open>auto simp: I_def signal_wf_def upd_task_def nth_list_update_if\<close>)
  then show ?thesis using wf by (simp add: drop_ignored_def signal_wf_def I_def)
qed

lemma signal_action_wf: "signal_action a b c s = Some (s', r) \<Longrightarrow> signal_wf s \<Longrightarrow> signal_wf s'"
proof -
  assume r: "signal_action a b c s = Some (s', r)" and wf: "signal_wf s"
  have upd: "signal_wf (upd_ext owner (\<lambda>x. x\<lparr>sx_actions := (sx_actions x)[a := act\<lparr>sa_mask := sa_mask act AND BLOCKABLE_BITS\<rparr>]\<rparr>) v)"
    if "signal_wf v" "a \<noteq> SIGKILL" for owner act v
    using that by (intro signal_wf_ext) (auto simp: signal_wf_def intro!: actions_wf_upd)
  show ?thesis using r wf upd drop_ignored_wf
    by (auto simp: signal_action_def Let_def signal_wf_copy split: if_splits option.splits)
qed

lemma signal_mask_wf: "signal_wf s \<Longrightarrow> signal_wf (fst (signal_mask a b c s))"
proof -
  assume wf: "signal_wf s"
  have upd: "signal_wf (upd_sig_task t (\<lambda>k. k\<lparr>t_blocked := (if i = 0 then t_blocked k OR (m AND BLOCKABLE_BITS)
        else if i = 1 then t_blocked k AND NOT (m AND BLOCKABLE_BITS) else m AND BLOCKABLE_BITS)\<rparr>) v)" if "signal_wf v" for t m v and i :: nat
    using that by (intro signal_wf_task) (auto simp: signal_wf_def)
  show ?thesis using wf upd
    by (auto simp: signal_mask_def Let_def signal_wf_copy split: option.splits)
qed

lemma signal_stack_wf: "signal_wf s \<Longrightarrow> signal_wf (fst (signal_stack a b s))"
proof -
  assume wf: "signal_wf s"
  have "signal_wf (upd_ext t (\<lambda>x. x\<lparr>sx_stack := st\<rparr>) v)" if "signal_wf v" for t st v
    using that by (intro signal_wf_ext) (auto simp: signal_wf_def)
  then show ?thesis using wf
    by (auto simp: signal_stack_def Let_def signal_wf_copy split: option.splits)
qed

lemma signal_pending_wf: "signal_wf s \<Longrightarrow> signal_wf (fst (signal_pending a s))"
  by (auto simp: signal_pending_def signal_wf_copy split: option.splits)

lemma after_send:
  "fst (case user_signal_send t a s of (s, SwitchThen _) \<Rightarrow> (s, SwitchThen (0 :: int)) | (s, _) \<Rightarrow> (s, Done 0)) = fst (user_signal_send t a s)"
  by (cases "user_signal_send t a s") (simp split: outcome.split)

lemma signal_send_wf: "signal_wf s \<Longrightarrow> signal_wf (fst (signal_send b a t g s))"
  unfolding signal_send_def Let_def using user_signal_send_wf [of s a]
  by (simp add: after_send split: option.split del: not_less)

lemma signal_kill_wf: "signal_wf s \<Longrightarrow> signal_wf (fst (signal_kill a t s))"
  unfolding signal_kill_def using user_signal_send_wf [of s a]
  by (simp add: after_send split: option.split)

lemma fall_kernel:
  "fst (case task_fall_blocked_reason st r k of (k, SwitchThen _) \<Rightarrow> (s\<lparr>sg_kernel := k\<rparr>, SwitchThen x)
      | (k, _) \<Rightarrow> (s\<lparr>sg_kernel := k\<rparr>, Done y)) = s\<lparr>sg_kernel := fst (task_fall_blocked_reason st r k)\<rparr>"
  by (cases "task_fall_blocked_reason st r k") (simp split: outcome.split)

lemma signal_suspend_wf: "signal_wf s \<Longrightarrow> signal_wf (fst (signal_suspend a s))"
proof -
  assume wf: "signal_wf s"
  have u: "signal_wf (upd_sig_task t (\<lambda>k. k\<lparr>t_blocked := w AND BLOCKABLE_BITS\<rparr>) s)" for t w
    using wf by (intro signal_wf_task) (auto simp: signal_wf_def)
  have "signal_wf (v\<lparr>sg_kernel := fst (task_fall_blocked_reason st r (sg_kernel v))\<rparr>)" if "signal_wf v" for v st r
    using that sig_le_fall_blocked [OF sig_le_refl] by (rule signal_wf_kernel)
  note f = this [OF u]
  show ?thesis using wf u f
    by (simp add: signal_suspend_def Let_def fall_kernel split: option.split)
qed

lemma signal_resume_wf: "signal_wf s \<Longrightarrow> blockable previous \<Longrightarrow> signal_wf (fst (signal_resume previous s))"
  unfolding signal_resume_def Let_def fst_conv
  by (intro signal_wf_task) (auto simp: signal_wf_def upd_sig_task_def upd_task_def nth_list_update_if)


section \<open>The next signal\<close>

lemma next_signal_lowest:
  assumes "blockable w" "w \<noteq> 0"
  shows "0 < next_signal w \<and> next_signal w < NSIG \<and> next_signal w \<noteq> SIGKILL \<and> bit w (next_signal w - 1)
    \<and> (\<forall>n. bit w n \<longrightarrow> next_signal w \<le> n + 1)"
proof -
  obtain m where m: "bit w m" using assms(2) by (metis bit_eq_iff bit_0_eq bot_apply bot_bool_def)
  then have "m < 32" using assms(1) by (auto simp: blockable_bits)
  then have "find (bit w) [0..<32] \<noteq> None" using m by (auto simp: find_None_iff)
  then obtain n where n: "find (bit w) [0..<32] = Some n" by blast
  then have b: "bit w n" "\<forall>k. bit w k \<longrightarrow> n \<le> k"
    using assms(1) by (auto simp: find_upt_Some) (metis not_le)
  have "next_signal w = n + 1"
    using n blockable_no_kill [OF assms(1)] by (simp add: next_signal_def)
  then show ?thesis using b assms(1) by (auto simp: blockable_bits)
qed

lemma take_signal_cases:
  assumes "take_signal fault s = Some (u, information)" "signal_wf s" "sg_self s < slot_count (sg_kernel s)"
  shows "signal_wf u \<and> sg_ext u = sg_ext s \<and> sg_mem u = sg_mem s \<and> sg_self u = sg_self s
    \<and> slot_count (sg_kernel u) = slot_count (sg_kernel s)
    \<and> (\<forall>t. sg_blocked u t = sg_blocked s t \<and> t_tgid (tsk (sg_kernel u) t) = t_tgid (tsk (sg_kernel s) t))
    \<and> (\<forall>t. get_task (sg_kernel u) t = get_task (sg_kernel s) t)
    \<and> (fault = Some information \<or> fault = None \<and> 0 < si_signo information \<and> si_signo information < NSIG
         \<and> si_signo information = next_signal (sg_pending s (sg_self s) AND NOT (sg_blocked s (sg_self s)))
         \<and> sg_pending s (sg_self s) AND NOT (sg_blocked s (sg_self s)) \<noteq> 0)"
proof (cases fault)
  case (Some i)
  then show ?thesis using assms by (auto simp: take_signal_def Let_def)
next
  case None
  let ?p = "sg_pending s (sg_self s) AND NOT (sg_blocked s (sg_self s))"
  let ?f = "\<lambda>k. k\<lparr>t_pending := t_pending k AND NOT (SIGMASK (next_signal ?p))\<rparr>"
  have p: "?p \<noteq> 0" and u: "u = upd_sig_task (sg_self s) ?f s" and i: "si_signo information = next_signal ?p"
    using assms(1) None by (auto simp: take_signal_def Let_def split: if_splits)
  have b: "blockable ?p" using assms(2,3) by (auto simp: signal_wf_def)
  note nl = next_signal_lowest [OF b p]
  have "signal_wf u" unfolding u using assms(2) by (intro signal_wf_task) (auto simp: signal_wf_def)
  moreover have "sg_self u = sg_self s" unfolding u by simp
  moreover have "sg_ext u = sg_ext s" "sg_mem u = sg_mem s" unfolding u by simp_all
  moreover have "slot_count (sg_kernel u) = slot_count (sg_kernel s)" unfolding u by (simp add: upd_sig_task_def)
  moreover have "sg_blocked u t = sg_blocked s t" "t_tgid (tsk (sg_kernel u) t) = t_tgid (tsk (sg_kernel s) t)"
    "get_task (sg_kernel u) t = get_task (sg_kernel s) t" for t
    unfolding u by (auto simp: upd_sig_task_def upd_task_def nth_list_update_if get_task_def task_slot_at_def)
  ultimately show ?thesis using nl None p i by auto
qed


section \<open>The frame on the user stack\<close>

lemma load_store_word [simp]: "load_word (store_word a w m) a = w"
proof (rule bit_word_eqI)
  fix n assume "n < LENGTH(32)"
  then consider "n < 8" | k where "n = 8 + k" "k < 8" | k where "n = 16 + k" "k < 8" | k where "n = 24 + k" "k < 8"
    by (cases "n < 8"; cases "n < 16"; cases "n < 24") (force simp: not_less le_iff_add)+
  then show "bit (load_word (store_word a w m) a) n \<longleftrightarrow> bit w n"
    by cases (auto simp: load_word_def store_word_def bit_simps)
qed

lemma store_word_frame: "x < a \<or> a + 4 \<le> x \<Longrightarrow> store_word a w m x = m x"
  by (auto simp: store_word_def)

lemma store_words_frame: "x < a \<or> a + 4 * length ws \<le> x \<Longrightarrow> store_words a ws m x = m x"
  by (induction ws arbitrary: a m) (auto simp: store_word_frame)

lemma load_word_cong: "(\<And>x. a \<le> x \<Longrightarrow> x < a + 4 \<Longrightarrow> m x = m' x) \<Longrightarrow> load_word m a = load_word m' a"
  by (simp add: load_word_def)

lemma load_words_Suc: "load_words m a (Suc n) = load_word m a # load_words m (a + 4) n"
  unfolding load_words_def upt_conv_Cons [OF zero_less_Suc] map_Suc_upt [symmetric] by (simp add: ac_simps)

lemma load_words_cong: "(\<And>x. a \<le> x \<Longrightarrow> x < a + 4 * n \<Longrightarrow> m x = m' x) \<Longrightarrow> load_words m a n = load_words m' a n"
  unfolding load_words_def by (rule map_cong [OF refl], rule load_word_cong) auto

lemma load_store_words: "load_words (store_words a ws m) a (length ws) = ws"
proof (induction ws arbitrary: a m)
  case (Cons w ws)
  have "load_word (store_words (a + 4) ws (store_word a w m)) a = load_word (store_word a w m) a"
    by (rule load_word_cong) (simp add: store_words_frame)
  then show ?case using Cons.IH by (simp add: load_words_Suc)
qed (simp add: load_words_def)

definition context_wf :: "mcontext \<Rightarrow> bool" where
  "context_wf c \<longleftrightarrow> length (r_general c) = 8 \<and> length (r_fpregs c) = 27"

lemma frame_words_length: "context_wf (f_context f) \<Longrightarrow> length (frame_words f) = 56"
  by (simp add: frame_words_def stack_words_def context_words_def context_wf_def)

lemma frame_roundtrip:
  assumes "context_wf (f_context f)" "si_signo (f_information f) < 2 ^ 32"
  shows "words_frame (frame_words f) = f"
proof -
  obtain c i st where f: "f_context f = c" "f_information f = i" "f_stack f = st" by simp
  obtain a1 a2 a3 a4 a5 a6 a7 a8 where g: "r_general c = [a1, a2, a3, a4, a5, a6, a7, a8]"
    using assms(1) f(1) by (auto simp: context_wf_def numeral_eq_Suc length_Suc_conv)
  have l: "length (r_fpregs c) = 27" using assms(1) f(1) by (simp add: context_wf_def)
  have n: "(xs @ ys) ! k = ys ! (k - 27)" if "length xs = 27" "27 \<le> k" for xs ys :: "u32 list" and k
    using that by (simp add: nth_append)
  have "unat (of_nat (si_signo i) :: u32) = si_signo i" using assms(2) f(2) by (simp add: unat_of_nat take_bit_nat_eq_self)
  then show ?thesis
    using f l by (simp add: words_frame_def frame_words_def words_context_def context_words_def words_stack_def stack_words_def g
        nth_Cons' nth_append)
qed


section \<open>Delivery and return\<close>

lemma enter_handler_fields:
  assumes "enter_handler owner i c s = (s', c')"
  defines "self \<equiv> sg_self s"
  defines "x \<equiv> sg_ext s self" and "action \<equiv> sx_actions (sg_ext s owner) ! si_signo i"
  defines "upper \<equiv> stack_top action x c"
  shows "sx_frame (sg_ext s' self) = of_nat (frame_address upper)" "sx_onstack (sg_ext s' self) = use_onstack action x"
    "sx_stack (sg_ext s' self) = sx_stack x"
    "um_bytes (sg_mem s') = store_words (frame_stack upper)
        [sx_ret_to_app (sg_ext s owner), of_nat (si_signo i), of_nat (frame_address upper + FRAME_INFORMATION),
         of_nat (frame_address upper), of_nat (frame_address upper)]
        (store_words (frame_address upper) (frame_words (saved_frame i c s)) (um_bytes (sg_mem s)))"
    "c' = c\<lparr>r_esp := of_nat (frame_stack upper), r_eip := sa_handler action,
            r_eflags := r_eflags c AND NOT (0x100 OR 0x400 OR 0x40000)\<rparr>"
    "sg_self s' = sg_self s"
    "sg_kernel s' = upd_task self (\<lambda>k. k\<lparr>t_blocked := t_blocked k OR sa_mask action
        OR (if sa_flags action AND SA_NODEFER = 0 then SIGMASK (si_signo i) else 0)\<rparr>) (sg_kernel s)"
    "sg_ext s' = (let e = (sg_ext s)(self := x\<lparr>sx_frame := of_nat (frame_address upper), sx_onstack := use_onstack action x\<rparr>)
        in if sa_flags action AND SA_RESETHAND \<noteq> 0
           then e(owner := (e owner)\<lparr>sx_actions := (sx_actions (e owner))[si_signo i := \<lparr>sa_handler = 0, sa_mask = 0, sa_flags = 0\<rparr>]\<rparr>)
           else e)"
    "um_readable (sg_mem s') = um_readable (sg_mem s)"
  using assms(1) unfolding self_def x_def action_def upper_def enter_handler_def Let_def
  by (auto simp: upd_ext_def upd_sig_task_def put_words_def split: if_splits)

lemma enter_handler_wf:
  assumes e: "enter_handler owner i c s = (s', c')" and wf: "signal_wf s"
    and sig: "0 < si_signo i" "si_signo i < NSIG" "si_signo i \<noteq> SIGKILL"
  shows "signal_wf s'"
proof -
  have a: "actions_wf (sx_actions (sg_ext s t))" for t using wf by (simp add: signal_wf_def)
  have m: "blockable (sa_mask (sx_actions (sg_ext s owner) ! si_signo i))" using actions_wf_mask [OF a sig(2)] .
  have k: "blockable (sg_blocked s' t) \<and> blockable (sg_pending s' t)" if "t < slot_count (sg_kernel s')" for t
    using wf m that blockable_SIGMASK [OF sig] unfolding enter_handler_fields(7) [OF e] signal_wf_def
    by (auto simp: upd_task_def nth_list_update_if)
  have "actions_wf (sx_actions (sg_ext s' t))" for t
    using a sig(3) unfolding enter_handler_fields(8) [OF e] by (auto simp: Let_def intro!: actions_wf_upd)
  then show ?thesis using k by (simp add: signal_wf_def)
qed

lemma exit_process_wf: "signal_wf s \<Longrightarrow> signal_wf (exit_process s)"
  unfolding exit_process_def by (rule signal_wf_kernel [OF _ sig_le_exit_process])

lemma user_signal_dispatch_wf:
  assumes d: "user_signal_dispatch c fault s = Some (s', c', r)" and wf: "signal_wf s" "sg_self s < slot_count (sg_kernel s)"
    and f: "\<And>i. fault = Some i \<Longrightarrow> 0 < si_signo i \<and> si_signo i < NSIG"
  shows "signal_wf s'"
proof (cases "(r_cs c AND 3 \<noteq> 3 \<or> sg_self s = NULL_TID) \<or> take_signal fault s = None")
  case True
  then show ?thesis using d wf(1)
    by (cases "r_cs c AND 3 \<noteq> 3 \<or> sg_self s = NULL_TID") (auto simp: user_signal_dispatch_def)
next
  case False
  then obtain u i where t: "take_signal fault s = Some (u, i)" by (cases "take_signal fault s") auto
  note tc = take_signal_cases [OF t wf]
  have u: "signal_wf u" and sig: "0 < si_signo i" "si_signo i < NSIG" using tc f [of i] by auto
  obtain owner where o: "sg_owner u (sg_self u) = Some owner"
    using d False t by (cases "sg_owner u (sg_self u)") (auto simp: user_signal_dispatch_def)
  obtain v c'' where e: "enter_handler owner i c u = (v, c'')" by force
  have "si_signo i \<noteq> SIGKILL \<Longrightarrow> signal_wf v" using enter_handler_wf [OF e u sig] by blast
  then show ?thesis using d False t o e u exit_process_wf [OF u]
    by (auto simp: user_signal_dispatch_def Let_def split: if_splits)
qed

lemma user_signal_restore_wf: "signal_wf s \<Longrightarrow> signal_wf (fst (user_signal_restore a c s))"
proof -
  assume wf: "signal_wf s"
  have "signal_wf (upd_ext t (\<lambda>x. x\<lparr>sx_frame := p, sx_onstack := q\<rparr>) (upd_sig_task t (\<lambda>k. k\<lparr>t_blocked := w AND BLOCKABLE_BITS\<rparr>) s))" for t p q w
  proof -
    have "signal_wf (upd_sig_task t (\<lambda>k. k\<lparr>t_blocked := w AND BLOCKABLE_BITS\<rparr>) s)"
      using wf by (intro signal_wf_task) (auto simp: signal_wf_def)
    then show ?thesis by (intro signal_wf_ext) (auto simp: signal_wf_def)
  qed
  then show ?thesis using wf by (simp add: user_signal_restore_def Let_def split: option.split)
qed

lemma exception_signal: "0 < si_signo (exception_information f c v a e) \<and> si_signo (exception_information f c v a e) < NSIG"
  by (simp add: exception_information_def)

section \<open>The reachable states\<close>

text \<open>
  A request of the running task, a delivery, a return, a signal from the keyboard, any write of the
  process to its own memory (also into its signal frames), or any other activity of the kernel: it may
  clear the sets of a task, or start a task with the blocked set and the actions of another one.
\<close>

inductive signal_step :: "sig_state \<Rightarrow> sig_state \<Rightarrow> bool" where
  step_action: "signal_action a b c s = Some (s', r) \<Longrightarrow> signal_step s s'"
| step_mask: "signal_step s (fst (signal_mask a b c s))"
| step_stack: "signal_step s (fst (signal_stack a b s))"
| step_pending: "signal_step s (fst (signal_pending a s))"
| step_send: "signal_step s (fst (signal_send to_self a b g s))"
| step_kill: "signal_step s (fst (signal_kill a b s))"
| step_suspend: "signal_step s (fst (signal_suspend a s))"
| step_resume: "previous AND BLOCKABLE_BITS = previous \<Longrightarrow> signal_step s (fst (signal_resume previous s))"
| step_key: "0 < sig \<Longrightarrow> sig < NSIG \<Longrightarrow> signal_step s (fst (user_signal_send t sig s))"
| step_dispatch: "sg_self s < slot_count (sg_kernel s) \<Longrightarrow> user_signal_dispatch c None s = Some (s', c', d) \<Longrightarrow> signal_step s s'"
| step_exception: "sg_self s < slot_count (sg_kernel s) \<Longrightarrow> user_signal_exception f c v a e s = Some (s', c', d) \<Longrightarrow> signal_step s s'"
| step_return: "signal_step s (fst (user_signal_restore address c s))"
| step_memory: "signal_step s (s\<lparr>sg_mem := m\<rparr>)"
| step_kernel: "(\<forall>t < slot_count k. t_blocked (tsk k t) \<in> insert 0 (sg_blocked s ` {..<slot_count (sg_kernel s)})
                   \<and> t_pending (tsk k t) \<in> insert 0 (sg_pending s ` {..<slot_count (sg_kernel s)})) \<Longrightarrow>
                (\<forall>t. sx_actions (e t) \<in> insert (replicate NSIG \<lparr>sa_handler = 0, sa_mask = 0, sa_flags = 0\<rparr>)
                   (range (\<lambda>u. sx_actions (sg_ext s u)))) \<Longrightarrow> signal_step s (s\<lparr>sg_kernel := k, sg_ext := e\<rparr>)"

inductive signal_reachable :: "sig_state \<Rightarrow> bool" where
  signal_initial: "(\<forall>t < slot_count (sg_kernel s). sg_blocked s t = 0 \<and> sg_pending s t = 0) \<Longrightarrow>
    (\<forall>t. sx_actions (sg_ext s t) = replicate NSIG \<lparr>sa_handler = 0, sa_mask = 0, sa_flags = 0\<rparr>) \<Longrightarrow> signal_reachable s"
| signal_next: "signal_reachable s \<Longrightarrow> signal_step s s' \<Longrightarrow> signal_reachable s'"

lemma no_actions_wf: "actions_wf (replicate NSIG \<lparr>sa_handler = 0, sa_mask = 0, sa_flags = 0\<rparr>)"
  by (simp add: actions_wf_def list_all_iff)

lemma signal_step_wf: "signal_step s s' \<Longrightarrow> signal_wf s \<Longrightarrow> signal_wf s'"
proof (induction rule: signal_step.cases)
  case (step_dispatch s c s' c' d)
  then show ?case using user_signal_dispatch_wf [OF step_dispatch(4)] by auto
next
  case (step_exception s f c v a e s' c' d)
  then show ?case
    using user_signal_dispatch_wf [of c "Some (exception_information f c v a e)" s s' c' d] exception_signal [of f c v a e]
    unfolding user_signal_exception_def by auto
next
  case (step_kernel k s e)
  then show ?case using no_actions_wf by (auto simp: signal_wf_def) (metis (no_types, lifting) blockable_simps(1) image_iff lessThan_iff insertE rangeE)+
next
  case (step_memory s m)
  then show ?case by (simp add: signal_wf_def)
next
  case (step_resume previous s)
  then show ?case by (auto intro!: signal_resume_wf simp: blockable_def)
qed (auto intro: signal_action_wf simp: signal_mask_wf signal_stack_wf signal_pending_wf signal_send_wf signal_kill_wf signal_suspend_wf
      user_signal_send_wf user_signal_restore_wf)


lemma signal_reachable_wf: "signal_reachable s \<Longrightarrow> signal_wf s"
proof (induction rule: signal_reachable.induct)
  case (signal_initial s)
  then show ?case using no_actions_wf by (simp add: signal_wf_def)
qed (rule signal_step_wf)

section \<open>An example\<close>

text \<open>Task 0 installs a handler for signal 10 from a structure in its memory and raises the signal.\<close>

definition sig_start :: sig_state where
  "sig_start = \<lparr>sg_kernel = sched_example,
     sg_ext = (\<lambda>_. \<lparr>sx_stack = \<lparr>ss_sp = 0, ss_flags = 0, ss_size = 0\<rparr>, sx_frame = 0, sx_onstack = False,
        sx_actions = replicate NSIG \<lparr>sa_handler = 0, sa_mask = 0, sa_flags = 0\<rparr>, sx_ret_to_app = 0x70000100, sx_thread_pointer = 0\<rparr>),
     sg_mem = \<lparr>um_bytes = store_words 0x70003000 [0x70001000, 0xffffffff, 0] (\<lambda>_. 0), um_readable = (\<lambda>_ _. True),
               um_writable = (\<lambda>_ _. True)\<rparr>\<rparr>"

definition sig_action :: sigaction where
  "sig_action = \<lparr>sa_handler = 0x70001000, sa_mask = 0xffffffff AND BLOCKABLE_BITS, sa_flags = 0\<rparr>"

definition sig_ready :: sig_state where
  "sig_ready = upd_sig_task 0 (\<lambda>k. k\<lparr>t_pending := SIGMASK 10\<rparr>) (upd_ext 0 (\<lambda>x. x\<lparr>sx_actions := (sx_actions x)[10 := sig_action]\<rparr>) sig_start)"

definition sig_context :: mcontext where
  "sig_context = \<lparr>r_general = replicate 8 7, r_gs = 27, r_fs = 27, r_es = 27, r_ds = 27, r_eip = 0x70000200, r_cs = 35,
     r_eflags = 0x202, r_esp = 0x70010000, r_ss = 27, r_fpregs = replicate 27 1\<rparr>"

lemma sched_example_facts:
  "current_tid sched_example = 0" "slot_count sched_example = 4" "get_task sched_example (t_tgid (tsk sched_example 0)) = Some 0"
  "t < 4 \<Longrightarrow> t_pending (tsk sched_example t) = 0" "t < 4 \<Longrightarrow> t_blocked (tsk sched_example t) = 0"
  "t_state (tsk sched_example 0) = RUNNING" "t_wait_reason (tsk sched_example 0) = WR_NONE" "k_this_cpu sched_example = 0"
  by (simp_all add: example_defs current_tid_def current_task_def get_task_def task_slot_at_def less_Suc_eq numeral_eq_Suc) auto

lemma sig_start_reachable: "signal_reachable sig_start"
  by (rule signal_initial) (simp_all add: sig_start_def sched_example_facts)

lemma sig_start_words: "copy_from 0x70003000 3 sig_start = Some [0x70001000, 0xffffffff, 0]"
  using load_store_words [of "0x70003000" "[0x70001000, 0xffffffff, 0]" "\<lambda>_. 0"]
  by (simp add: copy_from_def sig_start_def numeral_3_eq_3 del: store_words.simps)

lemma sig_ready_reachable: "signal_reachable sig_ready"
proof -
  let ?u = "upd_ext 0 (\<lambda>x. x\<lparr>sx_actions := (sx_actions x)[10 := sig_action]\<rparr>) sig_start"
  have "signal_action 10 0x70003000 0 sig_start = Some (?u, 0)"
    by (simp add: signal_action_def sig_start_words words_action_def action_refused_def sig_action_def)
      (simp add: sig_start_def sched_example_facts)
  then have u: "signal_reachable ?u" using signal_next [OF sig_start_reachable step_action] by blast
  have "signal_send True 10 0 0 ?u = (sig_ready, Done 0)"
    by (simp add: signal_send_def sig_ready_def user_signal_send_def sig_start_def sched_example_facts upd_ext_def sig_action_def
        upd_sig_task_def upd_task_def)
  then show ?thesis using signal_next [OF u step_send, of True 10 0 0] by simp
qed

lemma sig_ready_fields:
  "sg_self sig_ready = 0" "slot_count (sg_kernel sig_ready) = 4" "sg_pending sig_ready 0 = SIGMASK 10" "sg_blocked sig_ready 0 = 0"
  "sg_owner sig_ready 0 = Some 0" "sx_frame (sg_ext sig_ready 0) = 0" "sx_onstack (sg_ext sig_ready 0) = False"
  by (simp_all add: sig_ready_def sig_start_def upd_ext_def upd_sig_task_def upd_task_def sched_example_facts)
    (simp_all add: example_defs current_tid_def current_task_def get_task_def task_slot_at_def)

lemma sig_ready_delivers: "\<exists>s1 c1. user_signal_dispatch sig_context None sig_ready = Some (s1, c1, DELIVERED)"
proof -
  have b: "blockable (SIGMASK 10)" "SIGMASK 10 \<noteq> 0" by (simp add: blockable_SIGMASK) (simp add: SIGMASK_def)
  have "next_signal (SIGMASK 10) = 10" by (simp add: next_signal_def SIGMASK_def upt_rec)
  then obtain u where t: "take_signal None sig_ready = Some (u, \<lparr>si_signo = 10, si_code = SI_TKILL, si_errno = 0, si_addr = 0\<rparr>)"
    using b(2) by (simp add: take_signal_def sig_ready_fields)
  have wf: "signal_wf sig_ready" by (rule signal_reachable_wf [OF sig_ready_reachable])
  note tc = take_signal_cases [OF t wf, unfolded sig_ready_fields]
  have x: "sg_ext u = sg_ext sig_ready" "sg_mem u = sg_mem sig_ready" "sg_self u = 0" "sg_owner u 0 = Some 0"
    using tc sig_ready_fields(5) by auto
  have a: "sx_actions (sg_ext sig_ready 0) ! 10 = sig_action" by (simp add: sig_ready_def sig_start_def upd_ext_def)
  have "\<not> frame_refused 0 sig_action (sg_ext sig_ready 0) (stack_top sig_action (sg_ext sig_ready 0) sig_context) u"
    by (simp add: frame_refused_def x stack_top_def use_onstack_def sig_action_def sig_ready_def sig_start_def upd_ext_def sig_context_def)
  then show ?thesis using t x a
    by (simp add: user_signal_dispatch_def sig_ready_fields sig_context_def NULL_TID_def) (simp add: sig_action_def split: prod.split)
qed

section \<open>Properties\<close>

text \<open>C19: \<open>SIGKILL\<close> can be neither blocked nor handled.  Whatever requests the tasks make, whatever signals and
  exceptions are delivered, whatever a process writes into its own memory (its signal frames included)
  before it returns from a handler, and whatever the rest of the kernel does, no task ever blocks
  \<open>SIGKILL\<close>, its action stays the default one, and it is never left pending.\<close>

theorem signal_kill_unblockable:
  assumes "signal_reachable s"
  shows "(\<forall>t < slot_count (sg_kernel s). sg_blocked s t AND SIGMASK SIGKILL = 0 \<and> sg_pending s t AND SIGMASK SIGKILL = 0)
    \<and> (\<forall>t. sa_handler (sx_actions (sg_ext s t) ! SIGKILL) = SIG_DFL)"
  using signal_reachable_wf [OF assms] by (auto simp: signal_wf_def actions_wf_def intro: blockable_no_kill)

theorem signal_kill_unblockable_witness:
  "sg_blocked (fst (signal_mask 2 0x70003004 0 sig_ready)) 0 = BLOCKABLE_BITS
   \<and> sg_blocked (fst (signal_mask 2 0x70003004 0 sig_ready)) 0 AND SIGMASK SIGKILL = 0"
proof -
  have w: "copy_from 0x70003004 1 sig_ready = Some [0xffffffff]"
  proof -
    have "load_words (um_bytes (sg_mem sig_ready)) 0x70003000 3 = [0x70001000, 0xffffffff, 0]"
      using sig_start_words by (simp add: sig_ready_def copy_from_def sig_start_def)
    then have "load_word (um_bytes (sg_mem sig_ready)) 0x70003004 = 0xffffffff"
      by (simp add: numeral_3_eq_3 load_words_Suc)
    then show ?thesis by (simp add: copy_from_def load_words_def) (simp add: sig_ready_def sig_start_def)
  qed
  let ?s = "fst (signal_mask 2 0x70003004 0 sig_ready)"
  have r: "signal_reachable ?s" using signal_next [OF sig_ready_reachable step_mask] .
  have k: "sg_blocked ?s 0 = BLOCKABLE_BITS" "slot_count (sg_kernel ?s) = 4"
    using sig_ready_fields(2)
    by (simp_all add: signal_mask_def w w [simplified] sig_ready_fields upd_sig_task_def upd_task_def BLOCKABLE_BITS_def SIGMASK_def)
  have "0 < slot_count (sg_kernel ?s)" using k(2) by simp
  then have "sg_blocked ?s 0 AND SIGMASK SIGKILL = 0" using signal_kill_unblockable [OF r] by blast
  then show ?thesis using k(1) by blast
qed

text \<open>C20: the return from a signal handler cannot raise privileges.  If \<open>user_signal_restore\<close> accepts a frame, whatever
  bytes the process has put there, then the frame is the active one, the registers resume in user mode
  (all six segment registers hold user selectors: \<open>gs\<close> that of the processor's thread-local segment when the
  task has a thread pointer; program counter and stack pointer lie in user space), of the flags only the status, trap,
  direction and overflow bits and \<open>AC\<close>, \<open>ID\<close> come from the process, interrupts are enabled, and \<open>SIGKILL\<close> is
  not blocked; if it refuses the frame, nothing has changed.\<close>

theorem signal_restore_unprivileged:
  assumes "user_signal_restore address c s = (s', c', ok)"
  shows "if ok
    then address = sx_frame (sg_ext s (sg_self s)) \<and> r_cs c' = 35 \<and> r_ss c' = 27 \<and> r_ds c' = 27 \<and> r_es c' = 27
      \<and> r_fs c' = 27 \<and> r_gs c' AND 3 = 3
      \<and> r_gs c' = (if sx_thread_pointer (sg_ext s (sg_self s)) = 0 then 27 else X86_USER_SELECTOR (5 + k_this_cpu (sg_kernel s)))
      \<and> USER_SPACE_START \<le> unat (r_eip c') \<and> unat (r_eip c') < USER_HEAP_END
      \<and> USER_SPACE_START \<le> unat (r_esp c') \<and> unat (r_esp c') < USER_HEAP_END
      \<and> r_eflags c' AND NOT 0x240dd5 = 0x202 \<and> r_eflags c' AND 0x3000 = 0
      \<and> (sg_self s < slot_count (sg_kernel s) \<longrightarrow> sg_blocked s' (sg_self s) AND SIGMASK SIGKILL = 0)
    else s' = s \<and> c' = c"
proof (cases ok)
  case False
  then show ?thesis using assms by (auto simp: user_signal_restore_def Let_def split: if_splits option.splits)
next
  case True
  then obtain ws where ws: "copy_from (unat address) 56 s = Some ws" "address = sx_frame (sg_ext s (sg_self s))"
    and u: "user_address (r_eip (f_context (words_frame ws)))" "user_address (r_esp (f_context (words_frame ws)))"
    and r: "c' = user_segments (user_gs s) (f_context (words_frame ws))"
    and s': "\<exists>g. s' = upd_ext (sg_self s) g (upd_sig_task (sg_self s) (\<lambda>k. k\<lparr>t_blocked := f_sigmask (words_frame ws) AND BLOCKABLE_BITS\<rparr>) s)"
    using assms by (auto simp: user_signal_restore_def Let_def split: if_splits option.splits)
  have fl: "((e AND 0x240dd5) OR 0x202) AND NOT 0x240dd5 = 0x202" "((e AND 0x240dd5) OR 0x202) AND 0x3000 = 0" for e :: u32
    by (simp_all add: bit.conj_disj_distrib2 and.assoc)
  have b: "sg_self s < slot_count (sg_kernel s) \<longrightarrow> sg_blocked s' (sg_self s) AND SIGMASK SIGKILL = 0"
    using s' by (auto simp: upd_sig_task_def upd_task_def intro: blockable_no_kill)
  have x: "X86_USER_SELECTOR 4 = 35" "X86_USER_SELECTOR 3 = 27" by (simp_all add: X86_USER_SELECTOR_def)
  have gs: "user_gs s AND 3 = 3" by (simp add: user_gs_def X86_USER_SELECTOR_def bit.conj_disj_distrib2)
  have "user_gs s = (if sx_thread_pointer (sg_ext s (sg_self s)) = 0 then 27 else X86_USER_SELECTOR (5 + k_this_cpu (sg_kernel s)))"
    by (simp add: user_gs_def x)
  with gs show ?thesis using True ws(2) u b fl by (simp add: r user_segments_def user_address_def not_less not_le x)
qed


lemma copy_from_put_words:
  "length ws = n \<Longrightarrow> um_readable (sg_mem s) a (4 * n) \<Longrightarrow> copy_from a n (put_words a ws s) = Some ws"
  using load_store_words [of a ws] by (simp add: copy_from_def put_words_def del: store_words.simps)

lemma sg_self_frame: "sg_self (put_words a ws (upd_ext t g s)) = sg_self s"
  by (simp add: put_words_def upd_ext_def)

lemma restore_accepts:
  assumes "copy_from (unat a) 56 s = Some ws" "words_frame ws = f" "a \<noteq> 0" "a = sx_frame (sg_ext s (sg_self s))" "f_onstack f \<le> 1"
    "user_address (r_eip (f_context f))" "user_address (r_esp (f_context f))"
  shows "snd (snd (user_signal_restore a c s))"
  using assms by (simp add: user_signal_restore_def Let_def)

theorem signal_restore_unprivileged_witness:
  "\<exists>s' c'. user_signal_restore 0x70002000 sig_context (put_words 0x70002000
       (frame_words (saved_frame \<lparr>si_signo = 10, si_code = 0, si_errno = 0, si_addr = 0\<rparr>
          (sig_context\<lparr>r_cs := 8, r_eflags := 0x3000\<rparr>) sig_ready)) (upd_ext 0 (\<lambda>x. x\<lparr>sx_frame := 0x70002000\<rparr>) sig_ready)) = (s', c', True)
     \<and> r_cs c' = 35 \<and> r_eflags c' AND 0x3000 = 0"
proof -
  let ?c = "sig_context\<lparr>r_cs := 8, r_eflags := 0x3000\<rparr>"
  let ?f = "saved_frame \<lparr>si_signo = 10, si_code = 0, si_errno = 0, si_addr = 0\<rparr> ?c sig_ready"
  let ?s = "put_words 0x70002000 (frame_words ?f) (upd_ext 0 (\<lambda>x. x\<lparr>sx_frame := 0x70002000\<rparr>) sig_ready)"
  have fw: "context_wf (f_context ?f)" "si_signo (f_information ?f) < 2 ^ 32"
    by (simp_all add: saved_frame_def Let_def context_wf_def sig_context_def)
  have cf: "copy_from 0x70002000 56 ?s = Some (frame_words ?f)"
    by (rule copy_from_put_words, rule frame_words_length [OF fw(1)]) (simp add: sig_ready_def sig_start_def del: store_words.simps)
  have c: "f_context ?f = ?c" "f_onstack ?f = 0" by (simp_all add: saved_frame_def Let_def sig_ready_fields)
  have x: "sx_frame (sg_ext ?s 0) = 0x70002000" by (simp add: upd_ext_def)
  have ok: "snd (snd (user_signal_restore 0x70002000 sig_context ?s))"
  proof (rule restore_accepts [of _ _ "frame_words ?f" ?f])
    show "words_frame (frame_words ?f) = ?f" by (rule frame_roundtrip [OF fw])
    show "copy_from (unat (0x70002000 :: u32)) 56 ?s = Some (frame_words ?f)" proof -
      have "unat (0x70002000 :: u32) = 0x70002000" by simp
      then show ?thesis using cf by (simp only:)
    qed
    have "sg_self ?s = 0" by (simp only: sg_self_frame sig_ready_fields)
    then show "0x70002000 = sx_frame (sg_ext ?s (sg_self ?s))" using x by (simp only:)
    show "user_address (r_eip (f_context ?f))" "user_address (r_esp (f_context ?f))" "f_onstack ?f \<le> 1"
      unfolding c by (simp_all add: user_address_def sig_context_def)
  qed simp
  obtain s' c' b where r': "user_signal_restore 0x70002000 sig_context ?s = (s', c', b)" by (rule prod_cases3)
  have b: "b" using ok unfolding r' by (simp only: snd_conv)
  then have r: "user_signal_restore 0x70002000 sig_context ?s = (s', c', True)" using r' by (simp only:)
  note p = signal_restore_unprivileged [OF r, unfolded if_True]
  from p have "r_cs c' = 35" by (elim conjE)
  moreover from p have "r_eflags c' AND 0x3000 = 0" by (elim conjE)
  ultimately show ?thesis by (intro exI conjI) (rule r)
qed

text \<open>The cases of a delivery, for the running task in a slot.\<close>

lemma dispatch_delivered:
  assumes "user_signal_dispatch c fault s = Some (s', c', DELIVERED)" "signal_wf s" "sg_self s < slot_count (sg_kernel s)"
  obtains u i owner where "take_signal fault s = Some (u, i)" "sg_owner s (sg_self s) = Some owner"
    "enter_handler owner i c u = (s', c')" "si_signo i \<noteq> SIGKILL"
    "sa_handler (sx_actions (sg_ext s owner) ! si_signo i) \<noteq> SIG_DFL" "sa_handler (sx_actions (sg_ext s owner) ! si_signo i) \<noteq> SIG_IGN"
    "FRAME_SIZE + FRAME_ARGUMENTS \<le> stack_top (sx_actions (sg_ext s owner) ! si_signo i) (sg_ext s (sg_self s)) c"
proof -
  have g: "\<not> (r_cs c AND 3 \<noteq> 3 \<or> sg_self s = NULL_TID)"
  proof
    assume "r_cs c AND 3 \<noteq> 3 \<or> sg_self s = NULL_TID"
    then show False using assms(1) unfolding user_signal_dispatch_def by (simp only: if_True) simp
  qed
  obtain u i where t: "take_signal fault s = Some (u, i)"
    using assms(1) g by (cases "take_signal fault s") (auto simp: user_signal_dispatch_def)
  note tc = take_signal_cases [OF t assms(2,3)]
  have ow: "sg_owner u (sg_self u) = sg_owner s (sg_self s)" using tc by simp
  obtain owner where o: "sg_owner u (sg_self u) = Some owner"
    using assms(1) g t by (cases "sg_owner u (sg_self u)") (auto simp: user_signal_dispatch_def)
  have x: "sg_ext u = sg_ext s" "sg_self u = sg_self s" using tc by simp_all
  note d = assms(1) [unfolded user_signal_dispatch_def if_not_P [OF g] t option.case prod.case o o [unfolded x] Let_def x]
  have "enter_handler owner i c u = (s', c')" using d by (auto split: if_splits prod.splits)
  moreover have "sg_owner s (sg_self s) = Some owner" using o ow by simp
  ultimately show thesis using t d
    by (intro that) (auto simp: frame_refused_def not_less split: if_splits)
qed

text \<open>Which signal is delivered, and how.  For a running task in user mode, the signal that enters its handler
  is the lowest pending one that is not blocked; only that one leaves the pending set, execution continues
  at the handler of the group leader with trap, direction and alignment checks off, and until the handler
  returns the blocked set is extended by the mask of the action and, unless \<open>SA_NODEFER\<close> is set, by the
  signal itself.\<close>

theorem signal_dispatch_lowest:
  assumes "user_signal_dispatch c None s = Some (s', c', DELIVERED)" "signal_reachable s" "sg_self s < slot_count (sg_kernel s)"
  shows "\<exists>sig owner action. 0 < sig \<and> sig < NSIG \<and> sig \<noteq> SIGKILL \<and> sg_owner s (sg_self s) = Some owner
    \<and> action = sx_actions (sg_ext s owner) ! sig
    \<and> bit (sg_pending s (sg_self s)) (sig - 1) \<and> \<not> bit (sg_blocked s (sg_self s)) (sig - 1)
    \<and> (\<forall>n. bit (sg_pending s (sg_self s)) (n - 1) \<and> \<not> bit (sg_blocked s (sg_self s)) (n - 1) \<and> 0 < n \<longrightarrow> sig \<le> n)
    \<and> sg_pending s' (sg_self s) = sg_pending s (sg_self s) AND NOT (SIGMASK sig)
    \<and> sg_blocked s' (sg_self s) = (sg_blocked s (sg_self s) OR sa_mask action
         OR (if sa_flags action AND SA_NODEFER = 0 then SIGMASK sig else 0))
    \<and> r_eip c' = sa_handler action \<and> r_eflags c' = r_eflags c AND NOT 0x40500"
proof -
  have wf: "signal_wf s" using assms(2) by (rule signal_reachable_wf)
  obtain u i owner where t: "take_signal None s = Some (u, i)" and o: "sg_owner s (sg_self s) = Some owner"
    and e: "enter_handler owner i c u = (s', c')" by (rule dispatch_delivered [OF assms(1) wf assms(3)])
  note tc = take_signal_cases [OF t wf assms(3)]
  let ?p = "sg_pending s (sg_self s) AND NOT (sg_blocked s (sg_self s))"
  have p: "?p \<noteq> 0" "si_signo i = next_signal ?p" using tc by auto
  have bl: "blockable ?p" using wf assms(3) by (auto simp: signal_wf_def)
  note nl = next_signal_lowest [OF bl p(1)]
  have u: "u = upd_sig_task (sg_self s) (\<lambda>k. k\<lparr>t_pending := t_pending k AND NOT (SIGMASK (si_signo i))\<rparr>) s"
    using t by (auto simp: take_signal_def Let_def split: if_splits)
  have su: "sg_self u = sg_self s" "sg_ext u = sg_ext s" using tc by simp_all
  have pend: "sg_pending s' (sg_self s) = sg_pending s (sg_self s) AND NOT (SIGMASK (si_signo i))"
    "sg_blocked s' (sg_self s) = (sg_blocked s (sg_self s) OR sa_mask (sx_actions (sg_ext s owner) ! si_signo i)
         OR (if sa_flags (sx_actions (sg_ext s owner) ! si_signo i) AND SA_NODEFER = 0 then SIGMASK (si_signo i) else 0))"
    unfolding enter_handler_fields(7) [OF e] su using assms(3) by (simp_all add: u upd_sig_task_def upd_task_def)
  have c': "r_eip c' = sa_handler (sx_actions (sg_ext s owner) ! si_signo i)" "r_eflags c' = r_eflags c AND NOT 0x40500"
    unfolding enter_handler_fields(5) [OF e] su by simp_all
  have least: "si_signo i \<le> n" if "bit (sg_pending s (sg_self s)) (n - 1) \<and> \<not> bit (sg_blocked s (sg_self s)) (n - 1) \<and> 0 < n" for n
  proof -
    have "bit ?p (n - 1)" using that bit_imp_le_length [of "sg_pending s (sg_self s)" "n - 1"] by (simp add: bit_and_iff bit_not_iff)
    then show ?thesis using nl that p(2) by fastforce
  qed
  have "bit ?p (si_signo i - 1)" using nl p(2) by simp
  then have "bit (sg_pending s (sg_self s)) (si_signo i - 1) \<and> \<not> bit (sg_blocked s (sg_self s)) (si_signo i - 1)"
    by (simp add: bit_and_iff bit_not_iff)
  then show ?thesis using nl p(2) o pend c' least
    by (intro exI [of _ "si_signo i"] exI [of _ owner] exI [of _ "sx_actions (sg_ext s owner) ! si_signo i"]) simp
qed


theorem signal_dispatch_lowest_witness:
  "\<exists>s' c'. user_signal_dispatch sig_context None sig_ready = Some (s', c', DELIVERED)
     \<and> r_eip c' = 0x70001000 \<and> sg_pending s' 0 = 0"
proof -
  obtain s' c' where d: "user_signal_dispatch sig_context None sig_ready = Some (s', c', DELIVERED)" using sig_ready_delivers by blast
  obtain sig owner action where r: "0 < sig" "sig < NSIG" "sg_owner sig_ready (sg_self sig_ready) = Some owner" "action = sx_actions (sg_ext sig_ready owner) ! sig"
    "bit (sg_pending sig_ready (sg_self sig_ready)) (sig - 1)" "sg_pending s' (sg_self sig_ready) = sg_pending sig_ready (sg_self sig_ready) AND NOT (SIGMASK sig)"
    "r_eip c' = sa_handler action"
    using signal_dispatch_lowest [OF d sig_ready_reachable] sig_ready_fields(1,2) by auto
  have sig: "sig = 10" using r(1,2,5) by (simp add: sig_ready_fields bit_SIGMASK)
  have "sx_actions (sg_ext sig_ready 0) ! 10 = sig_action" by (simp add: sig_ready_def sig_start_def upd_ext_def)
  then have "r_eip c' = 0x70001000" using r(3,4,7) sig sig_ready_fields(5) by (simp add: sig_ready_fields(1) sig_action_def)
  moreover have "sg_pending s' 0 = 0" using r(6) sig by (simp add: sig_ready_fields)
  ultimately show ?thesis using d by blast
qed

text \<open>The frame lies below the top, above address 0, and apart from the arguments.\<close>

lemma frame_place:
  assumes "FRAME_SIZE + FRAME_ARGUMENTS \<le> upper" "upper < 2 ^ 32"
  shows "16 \<le> frame_address upper" "frame_address upper + FRAME_SIZE \<le> upper" "frame_address upper mod 16 = 0"
    "frame_stack upper + FRAME_ARGUMENTS \<le> frame_address upper \<or> frame_address upper + FRAME_SIZE \<le> frame_stack upper"
proof -
  define q where "q = (upper - FRAME_SIZE) div 16"
  have a: "frame_address upper = q * 16" by (simp add: frame_address_def q_def)
  have q: "1 \<le> q" "q * 16 \<le> upper - FRAME_SIZE" using assms(1) by (auto simp: q_def div_le_dividend less_eq_div_iff_mult_less_eq)
  show "16 \<le> frame_address upper" "frame_address upper + FRAME_SIZE \<le> upper" "frame_address upper mod 16 = 0"
    using q assms(1) by (simp_all add: a)
  show "frame_stack upper + FRAME_ARGUMENTS \<le> frame_address upper \<or> frame_address upper + FRAME_SIZE \<le> frame_stack upper"
  proof (cases "q = 1")
    case True
    then show ?thesis by (simp add: frame_stack_def a)
  next
    case False
    then have "20 \<le> q * 16" "q * 16 < 2 ^ 32" using q assms by simp_all
    then have "frame_stack upper = q * 16 - 20" unfolding frame_stack_def a by (simp add: mod_if)
    then show ?thesis using \<open>20 \<le> q * 16\<close> by (simp add: a)
  qed
qed

lemma stack_top_less: "stack_top action x c < 2 ^ 32"
proof -
  have "unat w < 2 ^ 32" for w :: u32 by (rule order_less_le_trans [OF unsigned_less]) simp
  then show ?thesis by (simp add: stack_top_def del: power_numeral)
qed

text \<open>C21: A signal handler is transparent.  If a signal or an exception was delivered and the task later returns with
  the frame it was given and that frame is unchanged in its memory, then the return succeeds exactly when the
  interrupted program counter and stack pointer lie in user space; then every
  register and the x87 state resume with the interrupted values (segments and privileged flags are set to
  those of user mode), and the blocked set, the enclosing frame and the use of the alternate stack are
  those before the delivery.  Otherwise, as after a \<open>SIGSEGV\<close> for a jump to address 0, the return is refused and
  changes nothing.\<close>

theorem signal_return_roundtrip:
  assumes d: "user_signal_dispatch c fault s = Some (s1, c1, DELIVERED)" and s: "signal_reachable s" "sg_self s < slot_count (sg_kernel s)"
    and fault: "\<forall>i. fault = Some i \<longrightarrow> 0 < si_signo i \<and> si_signo i < NSIG"
    and c: "context_wf c"
    and later: "sg_self s2 = sg_self s" "sg_self s < slot_count (sg_kernel s2)" "sx_frame (sg_ext s2 (sg_self s)) = a"
    and frame: "a = sx_frame (sg_ext s1 (sg_self s))" "um_readable (sg_mem s2) (unat a) FRAME_SIZE"
      "\<forall>x. unat a \<le> x \<and> x < unat a + FRAME_SIZE \<longrightarrow> um_bytes (sg_mem s2) x = um_bytes (sg_mem s1) x"
  shows "if user_address (r_eip c) \<and> user_address (r_esp c)
    then \<exists>s3. user_signal_restore a c2 s2 = (s3, user_segments (user_gs s2) c, True)
      \<and> sg_blocked s3 (sg_self s) = sg_blocked s (sg_self s)
      \<and> sx_frame (sg_ext s3 (sg_self s)) = sx_frame (sg_ext s (sg_self s))
      \<and> sx_onstack (sg_ext s3 (sg_self s)) = sx_onstack (sg_ext s (sg_self s))
    else user_signal_restore a c2 s2 = (s2, c2, False)"
proof -
  have wf: "signal_wf s" using s(1) by (rule signal_reachable_wf)
  obtain u i owner where t: "take_signal fault s = Some (u, i)" and e: "enter_handler owner i c u = (s1, c1)"
    and fit: "FRAME_SIZE + FRAME_ARGUMENTS \<le> stack_top (sx_actions (sg_ext s owner) ! si_signo i) (sg_ext s (sg_self s)) c"
    by (rule dispatch_delivered [OF d wf s(2)])
  note tc = take_signal_cases [OF t wf s(2)]
  define upper where "upper = stack_top (sx_actions (sg_ext s owner) ! si_signo i) (sg_ext s (sg_self s)) c"
  define A where "A = frame_address upper"
  have u: "sg_ext u = sg_ext s" "sg_self u = sg_self s" "sg_blocked u (sg_self s) = sg_blocked s (sg_self s)" using tc by simp_all
  have up: "upper < 2 ^ 32" unfolding upper_def by (rule stack_top_less)
  note place = frame_place [OF fit [folded upper_def] up, folded A_def]
  have sig: "si_signo i < 2 ^ 32" using tc fault by auto
  have a: "unat a = A" "a \<noteq> 0" using enter_handler_fields(1) [OF e] place(1,2) up unfolding frame(1) u upper_def [symmetric] A_def [symmetric]
    by (auto simp: unat_of_nat take_bit_nat_eq_self unat_eq_zero [symmetric])
  let ?f = "saved_frame i c u"
  have fw: "context_wf (f_context ?f)" "si_signo (f_information ?f) < 2 ^ 32" using c sig by (simp_all add: saved_frame_def Let_def)
  have "load_words (um_bytes (sg_mem s2)) A 56 = load_words (um_bytes (sg_mem s1)) A 56"
    by (rule load_words_cong) (use frame(3) a(1) in simp)
  also have "\<dots> = load_words (store_words A (frame_words ?f) (um_bytes (sg_mem u))) A 56"
    unfolding enter_handler_fields(4) [OF e] u upper_def [symmetric] A_def [symmetric]
    by (rule load_words_cong, rule store_words_frame) (use place(4) in auto)
  also have "\<dots> = frame_words ?f" using load_store_words [of A "frame_words ?f"] frame_words_length [OF fw(1)] by simp
  finally have cf: "copy_from (unat a) 56 s2 = Some (frame_words ?f)" using frame(2) a(1) by (simp add: copy_from_def)
  have r: "words_frame (frame_words ?f) = ?f" by (rule frame_roundtrip [OF fw])
  have fields: "f_context ?f = c" "f_sigmask ?f = sg_blocked s (sg_self s)" "f_previous ?f = sx_frame (sg_ext s (sg_self s))"
    "f_onstack ?f = of_bool (sx_onstack (sg_ext s (sg_self s)))" by (simp_all add: saved_frame_def Let_def u)
  have b: "sg_blocked s (sg_self s) AND BLOCKABLE_BITS = sg_blocked s (sg_self s)"
    using wf s(2) by (simp add: signal_wf_def blockable_def)
  show ?thesis unfolding user_signal_restore_def Let_def later(1) cf r option.case fields
    using a(2) later b by (simp add: upd_ext_def upd_sig_task_def upd_task_def)
qed

theorem signal_return_roundtrip_witness:
  "\<exists>s1 c1 s3 c3. user_signal_dispatch sig_context None sig_ready = Some (s1, c1, DELIVERED)
     \<and> user_signal_restore (sx_frame (sg_ext s1 0)) c1 s1 = (s3, c3, True)
     \<and> r_eip c3 = 0x70000200 \<and> r_esp c3 = 0x70010000 \<and> r_general c3 = replicate 8 7 \<and> sg_blocked s3 0 = 0"
proof -
  obtain s1 c1 where d: "user_signal_dispatch sig_context None sig_ready = Some (s1, c1, DELIVERED)" using sig_ready_delivers by blast
  have wf: "signal_wf sig_ready" by (rule signal_reachable_wf [OF sig_ready_reachable])
  have l: "sg_self sig_ready < slot_count (sg_kernel sig_ready)" by (simp add: sig_ready_fields)
  obtain u i owner where t: "take_signal None sig_ready = Some (u, i)" and e: "enter_handler owner i sig_context u = (s1, c1)"
    by (rule dispatch_delivered [OF d wf l])
  note tc = take_signal_cases [OF t wf l]
  have s1: "sg_self s1 = 0" "slot_count (sg_kernel s1) = 4"
    using enter_handler_fields(6,7) [OF e] tc by (simp_all add: sig_ready_fields upd_task_def)
  have m: "um_readable (sg_mem s1) = (\<lambda>_ _. True)"
    using enter_handler_fields(9) [OF e] tc by (simp add: sig_ready_def sig_start_def)
  have c: "context_wf sig_context" "user_address (r_eip sig_context)" "user_address (r_esp sig_context)"
    by (simp_all add: context_wf_def user_address_def sig_context_def)
  obtain s3 where r: "user_signal_restore (sx_frame (sg_ext s1 0)) c1 s1 = (s3, user_segments (user_gs s1) sig_context, True)"
    "sg_blocked s3 0 = 0"
  proof -
    have later: "sg_self s1 = sg_self sig_ready" "sg_self sig_ready < slot_count (sg_kernel s1)"
      "um_readable (sg_mem s1) (unat (sx_frame (sg_ext s1 (sg_self sig_ready)))) FRAME_SIZE"
      using s1 m by (simp_all add: sig_ready_fields(1))
    have "\<exists>s3. user_signal_restore (sx_frame (sg_ext s1 (sg_self sig_ready))) c1 s1 = (s3, user_segments (user_gs s1) sig_context, True)
        \<and> sg_blocked s3 (sg_self sig_ready) = sg_blocked sig_ready (sg_self sig_ready)"
      using signal_return_roundtrip [OF d sig_ready_reachable l _ c(1) later(1,2) refl refl later(3), of c1] c(2,3) by auto
    then show thesis using that unfolding sig_ready_fields(1,4) by blast
  qed
  have "r_eip (user_segments (user_gs s1) sig_context) = 0x70000200" "r_esp (user_segments (user_gs s1) sig_context) = 0x70010000"
    "r_general (user_segments (user_gs s1) sig_context) = replicate 8 7"
    by (simp_all add: user_segments_def sig_context_def)
  then show ?thesis using d r by blast
qed

text \<open>\<open>SIGNAL_SUSPEND\<close> loses the signal that ends it.  When the task wakes up because a signal arrived that the
  caller's own mask blocks (the usual way to wait for it), the resumption removes the signal from the
  pending set and puts the old mask back, so its handler does not run: afterwards no delivery takes it.\<close>

theorem signal_suspend_loses:
  assumes "signal_reachable s" "sg_self s < slot_count (sg_kernel s)"
    and "sg_pending s (sg_self s) AND NOT (sg_blocked s (sg_self s)) = SIGMASK sig" "0 < sig" "sig < NSIG"
    and "previous AND SIGMASK sig \<noteq> 0" "sg_pending s (sg_self s) AND NOT previous = 0" "r_cs c AND 3 = 3"
  shows "user_signal_dispatch c None (fst (signal_resume previous s)) = Some (fst (signal_resume previous s), c, NOT_DELIVERED)
    \<and> sg_pending (fst (signal_resume previous s)) (sg_self s) = sg_pending s (sg_self s) AND NOT (SIGMASK sig)
    \<and> sg_ext (fst (signal_resume previous s)) = sg_ext s"
proof -
  have wf: "signal_wf s" using assms(1) by (rule signal_reachable_wf)
  let ?p = "sg_pending s (sg_self s) AND NOT (sg_blocked s (sg_self s))"
  have b: "blockable ?p" using wf assms(2) by (auto simp: signal_wf_def)
  have nz: "?p \<noteq> 0" unfolding assms(3) using bit_SIGMASK [of sig "sig - 1"] assms(4,5) by auto
  note nl = next_signal_lowest [OF b nz]
  have "bit (SIGMASK sig) (next_signal ?p - 1)" using nl unfolding assms(3) by blast
  then have n: "next_signal ?p = sig" using nl assms(4) by (simp add: bit_SIGMASK) linarith
  define v where "v = fst (signal_resume previous s)"
  have v: "v = upd_sig_task (sg_self s) (\<lambda>k. k\<lparr>t_blocked := previous\<rparr>)
      (upd_sig_task (sg_self s) (\<lambda>k. k\<lparr>t_pending := t_pending k AND NOT (SIGMASK sig)\<rparr>) s)"
    unfolding v_def signal_resume_def Let_def n using nz assms(6) by simp
  have f: "sg_self v = sg_self s" "sg_pending v (sg_self s) = sg_pending s (sg_self s) AND NOT (SIGMASK sig)"
    "sg_blocked v (sg_self s) = previous" "sg_ext v = sg_ext s"
    using assms(2) by (simp_all add: v upd_sig_task_def upd_task_def) (simp add: current_tid_def current_task_def)
  have "(sg_pending s (sg_self s) AND NOT (SIGMASK sig)) AND NOT previous = 0"
    using assms(7) by (metis and.assoc and.commute and_zero_eq)
  then have "take_signal None v = None" by (simp add: take_signal_def f)
  then show ?thesis using assms(8) f unfolding v_def [symmetric] by (simp add: user_signal_dispatch_def)
qed

theorem signal_suspend_loses_witness:
  "user_signal_dispatch sig_context None (fst (signal_resume (SIGMASK 10) sig_ready)) = Some (fst (signal_resume (SIGMASK 10) sig_ready), sig_context, NOT_DELIVERED)
   \<and> sg_pending sig_ready 0 = SIGMASK 10 \<and> sg_pending (fst (signal_resume (SIGMASK 10) sig_ready)) 0 = 0"
proof -
  have m: "sg_pending sig_ready (sg_self sig_ready) AND NOT (sg_blocked sig_ready (sg_self sig_ready)) = SIGMASK 10"
      "0 < (10::nat)" "(10::nat) < NSIG" "SIGMASK 10 AND SIGMASK 10 \<noteq> 0"
      "sg_pending sig_ready (sg_self sig_ready) AND NOT (SIGMASK 10) = 0" "r_cs sig_context AND 3 = 3"
      "sg_self sig_ready < slot_count (sg_kernel sig_ready)"
    by (simp_all add: sig_ready_fields) (simp_all add: SIGMASK_def sig_context_def)
  have r: "sg_pending sig_ready 0 AND NOT (SIGMASK 10) = 0" using m(5) unfolding sig_ready_fields(1) .
  show ?thesis
    using signal_suspend_loses [OF sig_ready_reachable m(7) m(1-6)] r sig_ready_fields(3) unfolding sig_ready_fields(1) by metis
qed

end
