(* ===== verification/IoPoll.thy ===== *)
theory IoPoll
  imports Futex
begin

text \<open>
  Waiting for descriptors, \<^verbatim>\<open>kernel/dos/task/io_poll.c\<close> as compiled for i386.  A waiter is known by the address
  \<open>malloc\<close> returned for it; a watch is a waiter with the index of one of its watches.  The intrusive lists are lists:
  \<open>io_waiters\<close> from the variable \<open>waiters\<close> on, \<open>io_timers\<close> from \<open>timers\<close> on, and \<open>io_queues q\<close> from the field \<open>first\<close> of
  the queue at address \<open>q\<close> on.  A watch is linked (its field \<open>previous\<close> is not NULL) when it is in a queue.
  What a driver answers for a descriptor, and the queue in which it puts the watch, is the argument \<open>poll\<close>.
\<close>

section \<open>State\<close>

abbreviation POLLIN :: u16 where "POLLIN \<equiv> 1"
abbreviation POLLOUT :: u16 where "POLLOUT \<equiv> 4"
abbreviation POLLERR :: u16 where "POLLERR \<equiv> 8"
abbreviation POLLHUP :: u16 where "POLLHUP \<equiv> 16"
abbreviation POLLNVAL :: u16 where "POLLNVAL \<equiv> 32"

record pollfd =
  fd :: int
  events :: u16
  revents :: u16

record io_waiter =
  iw_task :: nat
  iw_deadline :: u64
  iw_count :: nat

type_synonym io_watch = "nat \<times> nat"

record io_state =
  io_kernel :: kernel
  io_records :: "nat \<Rightarrow> io_waiter"
  io_waiters :: "nat list"
  io_timers :: "nat list"
  io_queues :: "nat \<Rightarrow> io_watch list"

definition io_interrupted :: "io_state \<Rightarrow> bool" where
  "io_interrupted s =
     (let self = tsk (io_kernel s) (current_tid (io_kernel s)) in t_pending self AND NOT (t_blocked self) \<noteq> 0)"

section \<open>Operations\<close>

definition detach :: "nat \<Rightarrow> io_state \<Rightarrow> io_state" where
  "detach w s = s\<lparr>io_queues := (\<lambda>q. filter (\<lambda>(v, i). \<not> (v = w \<and> i < iw_count (io_records s w))) (io_queues s q)),
                  io_timers := removeAll w (io_timers s)\<rparr>"

definition io_poll_watch :: "nat \<Rightarrow> io_watch option \<Rightarrow> io_state \<Rightarrow> io_state" where
  "io_poll_watch q watch s =
     (case watch of None \<Rightarrow> s | Some x \<Rightarrow> s\<lparr>io_queues := (io_queues s)(q := x # io_queues s q)\<rparr>)"

text \<open>One round of the loops of \<open>io_poll_wake\<close> and \<open>io_poll_tick\<close>.\<close>

definition io_detach_run :: "nat \<Rightarrow> io_state \<Rightarrow> io_state" where
  "io_detach_run w s = (let s = detach w s in s\<lparr>io_kernel := task_run (iw_task (io_records s w)) (io_kernel s)\<rparr>)"

partial_function (option) wake_loop :: "nat \<Rightarrow> io_state \<Rightarrow> io_state option" where
  "wake_loop q s = (if io_queues s q = [] then Some s else wake_loop q (io_detach_run (fst (hd (io_queues s q))) s))"

definition io_poll_wake :: "nat option \<Rightarrow> io_state \<Rightarrow> io_state option" where
  "io_poll_wake queue s = (case queue of None \<Rightarrow> Some s | Some q \<Rightarrow> wake_loop q s)"

definition destroy :: "nat \<Rightarrow> io_state \<Rightarrow> io_state" where
  "destroy w s = (let s = detach w s in s\<lparr>io_waiters := removeAll w (io_waiters s)\<rparr>)"

text \<open>\<open>create\<close> after \<open>malloc\<close> returned \<open>w\<close>.\<close>

definition create :: "nat \<Rightarrow> nat \<Rightarrow> io_state \<Rightarrow> io_state" where
  "create w n s =
     s\<lparr>io_records := (io_records s)(w := \<lparr>iw_task = current_tid (io_kernel s), iw_deadline = 0, iw_count = n\<rparr>),
       io_waiters := w # io_waiters s\<rparr>"

text \<open>\<open>task_fall_blocked_reason (WAITING, WAIT_REASON_IO)\<close>: whether the task stops here.\<close>

definition io_block :: "io_state \<Rightarrow> io_state \<times> bool" where
  "io_block s = (case task_fall_blocked_reason WAITING WR_IO (io_kernel s) of
     (k, Done _) \<Rightarrow> (s\<lparr>io_kernel := k\<rparr>, False)
   | (k, _) \<Rightarrow> (s\<lparr>io_kernel := k\<rparr>, True))"

text \<open>Waiting for one queue; \<open>io_wait_resume\<close> is what follows when the task runs again.\<close>

definition io_wait_resume :: "nat \<Rightarrow> io_state \<Rightarrow> io_state \<times> int" where
  "io_wait_resume w s = (let result = (if io_interrupted s then -4 else 0) in (destroy w s, result))"

definition io_poll_wait :: "nat \<Rightarrow> nat option \<Rightarrow> io_state \<Rightarrow> io_state \<times> int outcome" where
  "io_poll_wait q memory s =
     (if io_interrupted s then (s, Done (-4))
      else case memory of
        None \<Rightarrow> (s, Done (-12))
      | Some w \<Rightarrow>
          (case io_block (io_poll_watch q (Some (w, 0)) (create w 1 s)) of
             (s, True) \<Rightarrow> (s, Switch)
           | (s, False) \<Rightarrow> (let (s, r) = io_wait_resume w s in (s, Done r))))"

text \<open>The scan over the descriptors.\<close>

definition poll_answer :: "(nat \<Rightarrow> pollfd \<Rightarrow> u16 \<times> nat option) \<Rightarrow> nat \<Rightarrow> pollfd \<Rightarrow> u16 \<times> nat option" where
  "poll_answer poll i p = (if fd p < 0 then (0, None) else poll i p)"

primrec poll_scan ::
  "(nat \<Rightarrow> pollfd \<Rightarrow> u16 \<times> nat option) \<Rightarrow> nat \<Rightarrow> nat \<Rightarrow> pollfd list \<Rightarrow> io_state \<Rightarrow> io_state \<times> pollfd list \<times> int" where
  "poll_scan poll w i [] s = (s, [], 0)"
| "poll_scan poll w i (p # ps) s =
     (let (r, queue) = poll_answer poll i p;
          s = (case queue of None \<Rightarrow> s | Some q \<Rightarrow> io_poll_watch q (Some (w, i)) s);
          (s, ps, n) = poll_scan poll w (Suc i) ps s
      in (s, p\<lparr>revents := r\<rparr> # ps, n + (if r \<noteq> 0 then 1 else 0)))"

fun timer_insert :: "(nat \<Rightarrow> io_waiter) \<Rightarrow> nat \<Rightarrow> nat list \<Rightarrow> nat list" where
  "timer_insert recs w [] = [w]"
| "timer_insert recs w (v # vs) =
     (if iw_deadline (recs v) \<le> iw_deadline (recs w) then v # timer_insert recs w vs else w # v # vs)"

text \<open>One iteration of the loop of \<open>io_poll\<close>.  \<open>Switch\<close>: the task sleeps, and \<open>io_poll_resume\<close> is its next iteration;
  \<open>Retry\<close>: it was woken before it could sleep and goes on at once.\<close>

definition io_poll_round ::
  "(nat \<Rightarrow> pollfd \<Rightarrow> u16 \<times> nat option) \<Rightarrow> nat \<Rightarrow> int \<Rightarrow> u64 \<Rightarrow> pollfd list \<Rightarrow> io_state
     \<Rightarrow> io_state \<times> pollfd list \<times> int outcome" where
  "io_poll_round poll w timeout now copy s =
     (let (s, copy, result) = poll_scan poll w 0 copy s; deadline = iw_deadline (io_records s w) in
      if result \<noteq> 0 \<or> timeout = 0 \<or> (deadline \<noteq> UINT64_MAX \<and> now \<ge> deadline) then (s, copy, Done result)
      else if io_interrupted s then (s, copy, Done (-4))
      else
        (let s = (if deadline \<noteq> UINT64_MAX then s\<lparr>io_timers := timer_insert (io_records s) w (io_timers s)\<rparr> else s)
         in case io_block s of (s, True) \<Rightarrow> (s, copy, Switch) | (s, False) \<Rightarrow> (detach w s, copy, Retry)))"

definition io_poll_resume ::
  "(nat \<Rightarrow> pollfd \<Rightarrow> u16 \<times> nat option) \<Rightarrow> nat \<Rightarrow> int \<Rightarrow> u64 \<Rightarrow> pollfd list \<Rightarrow> io_state
     \<Rightarrow> io_state \<times> pollfd list \<times> int outcome" where
  "io_poll_resume poll w timeout now copy s = io_poll_round poll w timeout now copy (detach w s)"

text \<open>The start of \<open>io_poll\<close>: its checks, the allocation and the deadline.  \<open>SIZE_MAX\<close> is \<open>2 ^ 32 - 1\<close>, a waiter takes 32
  bytes, a watch 12 and a \<open>pollfd\<close> 8.\<close>

abbreviation POLL_COUNT_MAX :: nat where "POLL_COUNT_MAX \<equiv> (2 ^ 32 - 1 - 32) div (12 + 8)"

definition io_deadline :: "int \<Rightarrow> u64 \<Rightarrow> u64" where
  "io_deadline timeout now = (if timeout < 0 then UINT64_MAX else now + word_of_int timeout * 1000000)"

definition io_poll_begin ::
  "pollfd list \<Rightarrow> int \<Rightarrow> bool \<Rightarrow> bool \<Rightarrow> bool \<Rightarrow> nat option \<Rightarrow> u64 \<Rightarrow> io_state \<Rightarrow> io_state \<times> (int + nat)" where
  "io_poll_begin fds timeout user readable writable memory now s =
     (if length fds > INT_MAX \<or> length fds > POLL_COUNT_MAX then (s, Inl (-22))
      else if user \<and> fds \<noteq> [] \<and> (\<not> readable \<or> \<not> writable) then (s, Inl (-14))
      else case memory of
        None \<Rightarrow> (s, Inl (-12))
      | Some w \<Rightarrow>
          (let s = create w (length fds) s
           in (s\<lparr>io_records := (io_records s)(w := (io_records s w)\<lparr>iw_deadline := io_deadline timeout now\<rparr>)\<rparr>, Inr w)))"

text \<open>The end of \<open>io_poll\<close>: the answers go to the caller's array.\<close>

definition io_poll_finish ::
  "nat \<Rightarrow> bool \<Rightarrow> bool \<Rightarrow> pollfd list \<Rightarrow> pollfd list \<Rightarrow> int \<Rightarrow> io_state \<Rightarrow> io_state \<times> pollfd list \<times> int" where
  "io_poll_finish w user writable copy fds result s =
     (let (fds, result) =
            (if result \<ge> 0 \<and> fds \<noteq> [] then
               (if user \<and> \<not> writable then (fds, -14)
                else (map2 (\<lambda>f c. f\<lparr>revents := revents c\<rparr>) fds copy, result))
             else (fds, result))
      in (destroy w s, fds, result))"

definition io_poll_leave ::
  "nat \<Rightarrow> bool \<Rightarrow> bool \<Rightarrow> pollfd list \<Rightarrow> io_state \<times> pollfd list \<times> int outcome \<Rightarrow> io_state \<times> pollfd list \<times> int outcome" where
  "io_poll_leave w user writable fds x =
     (case x of
        (s, copy, Done result) \<Rightarrow> (let (s, fds, result) = io_poll_finish w user writable copy fds result s in (s, fds, Done result))
      | (s, copy, blocked) \<Rightarrow> (s, copy, blocked))"

text \<open>\<open>io_poll\<close> up to the first sleep, and from a wake-up to the next one.\<close>

definition io_poll ::
  "(nat \<Rightarrow> pollfd \<Rightarrow> u16 \<times> nat option) \<Rightarrow> pollfd list \<Rightarrow> int \<Rightarrow> bool \<Rightarrow> bool \<Rightarrow> bool \<Rightarrow> nat option \<Rightarrow> u64 \<Rightarrow> io_state
     \<Rightarrow> io_state \<times> pollfd list \<times> int outcome" where
  "io_poll poll fds timeout user readable writable memory now s =
     (case io_poll_begin fds timeout user readable writable memory now s of
        (s, Inl error) \<Rightarrow> (s, fds, Done error)
      | (s, Inr w) \<Rightarrow> io_poll_leave w user writable fds (io_poll_round poll w timeout now fds s))"

definition io_poll_again ::
  "(nat \<Rightarrow> pollfd \<Rightarrow> u16 \<times> nat option) \<Rightarrow> nat \<Rightarrow> int \<Rightarrow> bool \<Rightarrow> bool \<Rightarrow> u64 \<Rightarrow> pollfd list \<Rightarrow> pollfd list \<Rightarrow> io_state
     \<Rightarrow> io_state \<times> pollfd list \<times> int outcome" where
  "io_poll_again poll w timeout user writable now copy fds s =
     io_poll_leave w user writable fds (io_poll_resume poll w timeout now copy s)"

function (sequential) tick_loop :: "u64 \<Rightarrow> io_state \<Rightarrow> io_state" where
  "tick_loop now s =
     (case io_timers s of
        [] \<Rightarrow> s
      | w # _ \<Rightarrow> if iw_deadline (io_records s w) \<le> now then tick_loop now (io_detach_run w s) else s)"
  by pat_completeness auto

lemma io_detach_run_fields [simp]:
  "io_timers (io_detach_run w s) = removeAll w (io_timers s)" "io_waiters (io_detach_run w s) = io_waiters s"
  "io_records (io_detach_run w s) = io_records s"
  "io_queues (io_detach_run w s) q = filter (\<lambda>(v, i). \<not> (v = w \<and> i < iw_count (io_records s w))) (io_queues s q)"
  "io_kernel (io_detach_run w s) = task_run (iw_task (io_records s w)) (io_kernel s)"
  by (simp_all add: io_detach_run_def detach_def Let_def)

termination tick_loop
  by (relation "measure (\<lambda>(now, s). length (io_timers s))") (auto intro: le_imp_less_Suc simp: length_filter_le removeAll_filter_not_eq)

declare tick_loop.simps [simp del]

definition io_poll_tick :: "u64 \<Rightarrow> io_state \<Rightarrow> io_state" where
  "io_poll_tick now s = (if io_timers s = [] then s else tick_loop now s)"

text \<open>The walk saves the successor of a waiter before it frees it.\<close>

definition io_poll_cancel_task :: "nat \<Rightarrow> io_state \<Rightarrow> io_state" where
  "io_poll_cancel_task task s =
     fold (\<lambda>w s. if iw_task (io_records s w) = task then destroy w s else s) (io_waiters s) s"

section \<open>The invariant\<close>

text \<open>Every watch in a queue and every timer belongs to a live waiter; no watch is linked twice; the timers are in the order
  of their deadlines.\<close>

definition io_wf :: "io_state \<Rightarrow> bool" where
  "io_wf s \<longleftrightarrow> distinct (io_waiters s) \<and> distinct (io_timers s) \<and> set (io_timers s) \<subseteq> set (io_waiters s)
     \<and> sorted (map (\<lambda>w. iw_deadline (io_records s w)) (io_timers s))
     \<and> (\<forall>w\<in>set (io_timers s). iw_deadline (io_records s w) \<noteq> UINT64_MAX)
     \<and> (\<forall>q. distinct (io_queues s q))
     \<and> (\<forall>q w i. (w, i) \<in> set (io_queues s q) \<longrightarrow> w \<in> set (io_waiters s) \<and> i < iw_count (io_records s w))
     \<and> (\<forall>q r x. x \<in> set (io_queues s q) \<and> x \<in> set (io_queues s r) \<longrightarrow> q = r)
     \<and> (\<forall>w\<in>set (io_waiters s). iw_task (io_records s w) < slot_count (io_kernel s))"

lemma io_wfI:
  assumes "distinct (io_waiters s)" "distinct (io_timers s)" "set (io_timers s) \<subseteq> set (io_waiters s)"
    "sorted (map (\<lambda>w. iw_deadline (io_records s w)) (io_timers s))"
    "\<And>w. w \<in> set (io_timers s) \<Longrightarrow> iw_deadline (io_records s w) \<noteq> UINT64_MAX" "\<And>q. distinct (io_queues s q)"
    "\<And>q w i. (w, i) \<in> set (io_queues s q) \<Longrightarrow> w \<in> set (io_waiters s) \<and> i < iw_count (io_records s w)"
    "\<And>q r x. x \<in> set (io_queues s q) \<Longrightarrow> x \<in> set (io_queues s r) \<Longrightarrow> q = r"
    "\<And>w. w \<in> set (io_waiters s) \<Longrightarrow> iw_task (io_records s w) < slot_count (io_kernel s)"
  shows "io_wf s"
  unfolding io_wf_def
proof (intro conjI)
  show "\<forall>q r x. x \<in> set (io_queues s q) \<and> x \<in> set (io_queues s r) \<longrightarrow> q = r" using assms(8) by blast
  show "\<forall>q w i. (w, i) \<in> set (io_queues s q) \<longrightarrow> w \<in> set (io_waiters s) \<and> i < iw_count (io_records s w)" using assms(7) by blast
qed (use assms in simp_all)

lemma io_wfD:
  assumes "io_wf s"
  shows "distinct (io_waiters s)" "distinct (io_timers s)" "set (io_timers s) \<subseteq> set (io_waiters s)"
    "sorted (map (\<lambda>w. iw_deadline (io_records s w)) (io_timers s))"
    "w \<in> set (io_timers s) \<Longrightarrow> iw_deadline (io_records s w) \<noteq> UINT64_MAX" "distinct (io_queues s q)"
    "(w, i) \<in> set (io_queues s q) \<Longrightarrow> w \<in> set (io_waiters s)" "(w, i) \<in> set (io_queues s q) \<Longrightarrow> i < iw_count (io_records s w)"
    "x \<in> set (io_queues s q) \<Longrightarrow> x \<in> set (io_queues s r) \<Longrightarrow> q = r"
    "w \<in> set (io_waiters s) \<Longrightarrow> iw_task (io_records s w) < slot_count (io_kernel s)"
  using assms unfolding io_wf_def by (simp, simp, simp, simp, blast, simp, blast, blast, blast, blast)

text \<open>Dropping waiters from the lists keeps it.\<close>

lemma io_wf_shrink:
  assumes "io_wf s" "io_records s' = io_records s" "\<And>q. \<exists>P. io_queues s' q = filter P (io_queues s q)"
    "\<exists>P. io_timers s' = filter P (io_timers s)" "io_waiters s' = io_waiters s" "slot_count (io_kernel s) \<le> slot_count (io_kernel s')"
  shows "io_wf s'"
proof -
  obtain P where P: "\<And>q. io_queues s' q = filter (P q) (io_queues s q)" using assms(3) by metis
  obtain T where T: "io_timers s' = filter T (io_timers s)" using assms(4) by blast
  have o: "sorted (map f (filter T xs))" if "sorted (map f xs)" for f :: "nat \<Rightarrow> u64" and xs
    using that by (rule sorted_filter)
  note wf = io_wfD [OF assms(1)]
  show ?thesis
  proof (rule io_wfI, unfold assms(2,5) P T)
    fix q r x assume "x \<in> set (filter (P q) (io_queues s q))" "x \<in> set (filter (P r) (io_queues s r))"
    then have "x \<in> set (io_queues s q)" "x \<in> set (io_queues s r)" by simp_all
    then show "q = r" by (rule wf(9))
  next
    fix w assume "w \<in> set (io_waiters s)"
    then show "iw_task (io_records s w) < slot_count (io_kernel s')" using wf(10) assms(6) by (meson order_less_le_trans)
  qed (use wf(1-8) o in auto)
qed

lemma detach_fields [simp]:
  "io_timers (detach w s) = removeAll w (io_timers s)" "io_waiters (detach w s) = io_waiters s"
  "io_records (detach w s) = io_records s" "io_kernel (detach w s) = io_kernel s"
  "io_queues (detach w s) q = filter (\<lambda>(v, i). \<not> (v = w \<and> i < iw_count (io_records s w))) (io_queues s q)"
  by (simp_all add: detach_def)

lemma io_wf_watch: "io_wf s \<Longrightarrow> (w, i) \<in> set (io_queues s q) \<Longrightarrow> w \<in> set (io_waiters s) \<and> i < iw_count (io_records s w)"
  by (auto simp: io_wf_def)

lemma detach_queue: "io_wf s \<Longrightarrow> io_queues (detach w s) q = filter (\<lambda>(v, i). v \<noteq> w) (io_queues s q)"
  by (auto intro!: filter_cong dest: io_wf_watch)

lemma removeAll_filter: "\<exists>P. removeAll x xs = filter P xs"
  by (metis removeAll_filter_not_eq)

lemma detach_wf [inv_intros]: "io_wf s \<Longrightarrow> io_wf (detach w s)"
  by (rule io_wf_shrink) (auto intro: removeAll_filter)

lemma task_run_slots: "slot_count (task_run t k) = slot_count k"
  by (simp add: task_run_def Let_def scheduler_place_task_def task_set_state_def)

lemma io_detach_run_wf [inv_intros]: "io_wf s \<Longrightarrow> io_wf (io_detach_run w s)"
  by (rule io_wf_shrink [of s]) (auto intro: removeAll_filter simp: task_run_slots)

text \<open>A waiter none of whose watches is linked and that has no timer.\<close>

definition io_idle :: "nat \<Rightarrow> io_state \<Rightarrow> bool" where
  "io_idle w s \<longleftrightarrow> w \<notin> set (io_timers s) \<and> (\<forall>q i. (w, i) \<notin> set (io_queues s q))"

lemma detach_idle: "io_wf s \<Longrightarrow> io_idle w (detach w s)"
  unfolding io_idle_def by (auto simp: detach_queue simp del: detach_fields(5))

lemma io_wf_drop:
  assumes "io_wf s" "io_idle w s" shows "io_wf (s\<lparr>io_waiters := removeAll w (io_waiters s)\<rparr>)"
proof -
  note wf = io_wfD [OF assms(1)]
  show ?thesis
  proof (rule io_wfI)
    fix q v i assume x: "(v, i) \<in> set (io_queues (s\<lparr>io_waiters := removeAll w (io_waiters s)\<rparr>) q)"
    then have "v \<noteq> w" using assms(2) by (auto simp: io_idle_def)
    then show "v \<in> set (io_waiters (s\<lparr>io_waiters := removeAll w (io_waiters s)\<rparr>))
        \<and> i < iw_count (io_records (s\<lparr>io_waiters := removeAll w (io_waiters s)\<rparr>) v)" using wf(7,8) x by simp
  next
    fix q r x assume "x \<in> set (io_queues (s\<lparr>io_waiters := removeAll w (io_waiters s)\<rparr>) q)"
      "x \<in> set (io_queues (s\<lparr>io_waiters := removeAll w (io_waiters s)\<rparr>) r)"
    then show "q = r" by (auto intro: wf(9))
  qed (use wf(1-6,10) assms(2) in \<open>auto simp: io_idle_def distinct_removeAll\<close>)
qed

lemma destroy_wf [inv_intros]: "io_wf s \<Longrightarrow> io_wf (destroy w s)"
  unfolding destroy_def Let_def by (intro io_wf_drop detach_wf detach_idle)

lemma destroy_fields [simp]:
  "io_records (destroy w s) = io_records s" "io_kernel (destroy w s) = io_kernel s" "io_waiters (destroy w s) = removeAll w (io_waiters s)"
  by (simp_all add: destroy_def Let_def)

text \<open>Linking a watch of a live waiter that is not linked.\<close>

lemma watch_wf [inv_intros]:
  assumes "io_wf s" "w \<in> set (io_waiters s)" "i < iw_count (io_records s w)" "\<And>r. (w, i) \<notin> set (io_queues s r)"
  shows "io_wf (io_poll_watch q (Some (w, i)) s)"
proof -
  note wf = io_wfD [OF assms(1)]
  let ?s = "io_poll_watch q (Some (w, i)) s"
  have f: "io_waiters ?s = io_waiters s" "io_timers ?s = io_timers s" "io_records ?s = io_records s" "io_kernel ?s = io_kernel s"
    "io_queues ?s r = (if r = q then (w, i) # io_queues s q else io_queues s r)" for r by (simp_all add: io_poll_watch_def)
  show ?thesis
  proof (rule io_wfI, unfold f)
    fix r t x assume x: "x \<in> set (if r = q then (w, i) # io_queues s q else io_queues s r)"
      "x \<in> set (if t = q then (w, i) # io_queues s q else io_queues s t)"
    show "r = t"
    proof (cases "x = (w, i)")
      case True
      then show ?thesis using x assms(4) [of r] assms(4) [of t] by (simp split: if_splits)
    next
      case False
      then have "x \<in> set (io_queues s r)" "x \<in> set (io_queues s t)" using x by (simp_all split: if_splits)
      then show ?thesis by (rule wf(9))
    qed
  next
    fix r v j assume "(v, j) \<in> set (if r = q then (w, i) # io_queues s q else io_queues s r)"
    then have "(v, j) = (w, i) \<or> (v, j) \<in> set (io_queues s r)" by (auto split: if_splits)
    then show "v \<in> set (io_waiters s) \<and> j < iw_count (io_records s v)" using wf(7,8) assms(2,3) by auto
  qed (use wf(1-6,10) assms(4) in auto)
qed

lemma create_wf [inv_intros]:
  assumes "io_wf s" "w \<notin> set (io_waiters s)" "current_tid (io_kernel s) < slot_count (io_kernel s)"
  shows "io_wf (create w n s)" "io_idle w (create w n s)"
proof -
  note wf = io_wfD [OF assms(1)]
  let ?s = "create w n s"
  have f: "io_waiters ?s = w # io_waiters s" "io_timers ?s = io_timers s" "io_queues ?s q = io_queues s q" "io_kernel ?s = io_kernel s" for q
    by (simp_all add: create_def)
  have r: "v \<noteq> w \<Longrightarrow> io_records ?s v = io_records s v" "iw_task (io_records ?s w) = current_tid (io_kernel s)" for v
    by (simp_all add: create_def)
  have nt: "w \<notin> set (io_timers s)" using wf(3) assms(2) by blast
  have nq: "(w, i) \<notin> set (io_queues s q)" for q i using wf(7) assms(2) by blast
  have m: "map (\<lambda>v. iw_deadline (io_records ?s v)) (io_timers s) = map (\<lambda>v. iw_deadline (io_records s v)) (io_timers s)"
    using nt by (intro map_cong refl) (metis r(1))
  show "io_wf ?s"
  proof (rule io_wfI, unfold f m)
    fix q v i assume x: "(v, i) \<in> set (io_queues s q)"
    then have "v \<noteq> w" using nq by blast
    then show "v \<in> set (w # io_waiters s) \<and> i < iw_count (io_records ?s v)" using wf(7,8) x by (simp add: r(1))
  next
    fix v assume "v \<in> set (w # io_waiters s)"
    then show "iw_task (io_records ?s v) < slot_count (io_kernel s)" using wf(10) assms(2,3) r by (cases "v = w") auto
  next
    fix v assume "v \<in> set (io_timers s)"
    then show "iw_deadline (io_records ?s v) \<noteq> UINT64_MAX" using wf(5) nt r(1) by metis
  qed (use wf(1-4,6,9) assms(2) in auto)
  show "io_idle w ?s" using nt nq by (simp add: io_idle_def f)
qed

section \<open>A round of \<open>io_poll\<close>\<close>

definition scan_links :: "(nat \<Rightarrow> pollfd \<Rightarrow> u16 \<times> nat option) \<Rightarrow> nat \<Rightarrow> nat \<Rightarrow> pollfd list \<Rightarrow> nat \<Rightarrow> io_watch list" where
  "scan_links poll w i ps q = map (\<lambda>(j, p). (w, j)) (filter (\<lambda>(j, p). snd (poll_answer poll j p) = Some q) (enumerate i ps))"

lemma poll_scan_effect:
  assumes "poll_scan poll w i ps s = (s', copy, n)"
  shows "io_waiters s' = io_waiters s \<and> io_timers s' = io_timers s \<and> io_records s' = io_records s \<and> io_kernel s' = io_kernel s
    \<and> copy = map (\<lambda>(j, p). p\<lparr>revents := fst (poll_answer poll j p)\<rparr>) (enumerate i ps)
    \<and> n = int (length (filter (\<lambda>p. revents p \<noteq> 0) copy))
    \<and> (\<forall>q. io_queues s' q = rev (scan_links poll w i ps q) @ io_queues s q)"
  using assms
proof (induction ps arbitrary: i s s' copy n)
  case Nil
  then show ?case by (simp add: scan_links_def)
next
  case (Cons p ps)
  obtain r queue where a: "poll_answer poll i p = (r, queue)" by fastforce
  let ?u = "case queue of None \<Rightarrow> s | Some q \<Rightarrow> io_poll_watch q (Some (w, i)) s"
  obtain v c m where rec: "poll_scan poll w (Suc i) ps ?u = (v, c, m)" by (rule prod_cases3)
  have u: "io_waiters ?u = io_waiters s" "io_timers ?u = io_timers s" "io_records ?u = io_records s" "io_kernel ?u = io_kernel s"
    "io_queues ?u q = (if queue = Some q then [(w, i)] else []) @ io_queues s q" for q
    by (simp_all add: io_poll_watch_def split: option.split)
  have r: "s' = v" "copy = p\<lparr>revents := r\<rparr> # c" "n = m + (if r \<noteq> 0 then 1 else 0)"
    using Cons.prems by (simp_all add: a rec Let_def)
  show ?case using Cons.IH [OF rec] by (simp add: r u a scan_links_def)
qed

lemma scan_links_distinct: "distinct (scan_links poll w i ps q)"
proof -
  have "distinct (map fst (filter P (enumerate i ps)))" for P by (rule distinct_map_filter) simp
  then have "inj_on fst (set (filter P (enumerate i ps)))" for P by (simp add: distinct_map)
  then have "inj_on (\<lambda>(j, p). (w, j)) (set (filter P (enumerate i ps)))" for P :: "nat \<times> pollfd \<Rightarrow> bool"
    unfolding inj_on_def by (force simp: case_prod_beta)
  then show ?thesis unfolding scan_links_def by (simp add: distinct_map)
qed

lemma scan_links_mem:
  "(v, j) \<in> set (scan_links poll w i ps q) \<longleftrightarrow>
     v = w \<and> i \<le> j \<and> j < i + length ps \<and> snd (poll_answer poll j (ps ! (j - i))) = Some q"
  by (auto simp: scan_links_def in_set_enumerate_eq)

lemma poll_scan_wf:
  assumes "poll_scan poll w 0 ps s = (s', copy, n)" "io_wf s" "io_idle w s" "w \<in> set (io_waiters s)" "length ps \<le> iw_count (io_records s w)"
  shows "io_wf s'"
proof -
  note wf = io_wfD [OF assms(2)]
  have idle: "w \<notin> set (io_timers s)" "(w, i) \<notin> set (io_queues s q)" for i q using assms(3) by (auto simp: io_idle_def)
  from poll_scan_effect [OF assms(1)]
  have f: "io_waiters s' = io_waiters s" "io_timers s' = io_timers s" "io_records s' = io_records s" "io_kernel s' = io_kernel s"
    and q: "\<And>q. io_queues s' q = rev (scan_links poll w 0 ps q) @ io_queues s q" by blast+
  show ?thesis
  proof (rule io_wfI, unfold f q)
    fix q show "distinct (rev (scan_links poll w 0 ps q) @ io_queues s q)"
      using wf(6) idle(2) by (auto simp: scan_links_distinct scan_links_mem)
  next
    fix q v i assume "(v, i) \<in> set (rev (scan_links poll w 0 ps q) @ io_queues s q)"
    then show "v \<in> set (io_waiters s) \<and> i < iw_count (io_records s v)" using wf(7,8) assms(4,5) by (auto simp: scan_links_mem)
  next
    fix q r x assume "x \<in> set (rev (scan_links poll w 0 ps q) @ io_queues s q)" "x \<in> set (rev (scan_links poll w 0 ps r) @ io_queues s r)"
    moreover obtain v i where "x = (v, i)" by fastforce
    ultimately show "q = r" using wf(9) idle(2) by (cases "v = w") (auto simp: scan_links_mem)
  qed (use wf in auto)
qed

lemma timer_insert_set: "set (timer_insert recs w vs) = insert w (set vs)"
  by (induction vs) auto

lemma timer_insert_distinct: "w \<notin> set vs \<Longrightarrow> distinct vs \<Longrightarrow> distinct (timer_insert recs w vs)"
  by (induction vs) (auto simp: timer_insert_set)

lemma timer_insert_sorted:
  "sorted (map (\<lambda>v. iw_deadline (recs v)) vs) \<Longrightarrow> sorted (map (\<lambda>v. iw_deadline (recs v)) (timer_insert recs w vs))"
  by (induction vs) (auto simp: timer_insert_set)

lemma io_block_fields:
  "io_block s = (s', b) \<Longrightarrow> io_waiters s' = io_waiters s \<and> io_timers s' = io_timers s \<and> io_records s' = io_records s
     \<and> io_queues s' = io_queues s \<and> slot_count (io_kernel s') = slot_count (io_kernel s)"
  by (auto simp: io_block_def task_fall_blocked_reason_def Let_def task_set_state_def split: if_splits)

lemma io_wf_timer:
  assumes "io_wf s" "w \<in> set (io_waiters s)" "w \<notin> set (io_timers s)" "iw_deadline (io_records s w) \<noteq> UINT64_MAX"
  shows "io_wf (s\<lparr>io_timers := timer_insert (io_records s) w (io_timers s)\<rparr>)"
proof -
  note wf = io_wfD [OF assms(1)]
  show ?thesis
  proof (rule io_wfI)
    fix q r x assume "x \<in> set (io_queues (s\<lparr>io_timers := timer_insert (io_records s) w (io_timers s)\<rparr>) q)"
      "x \<in> set (io_queues (s\<lparr>io_timers := timer_insert (io_records s) w (io_timers s)\<rparr>) r)"
    then show "q = r" by (auto intro: wf(9))
  qed (use wf assms(2-4) in \<open>auto simp: timer_insert_set timer_insert_distinct timer_insert_sorted\<close>)
qed

lemma io_wf_cong:
  "io_wf s \<Longrightarrow> io_waiters s' = io_waiters s \<Longrightarrow> io_timers s' = io_timers s \<Longrightarrow> io_records s' = io_records s \<Longrightarrow> io_queues s' = io_queues s
    \<Longrightarrow> slot_count (io_kernel s) \<le> slot_count (io_kernel s') \<Longrightarrow> io_wf s'"
  by (rule io_wf_shrink [of s]) (auto intro: exI [of _ "\<lambda>_. True"])

text \<open>The three ways out of a round.\<close>

lemma io_poll_round_cases:
  assumes "io_poll_round poll w timeout now copy s = (s', copy', r)"
  obtains u n where "poll_scan poll w 0 copy s = (u, copy', n)"
    "(\<exists>m. s' = u \<and> r = Done m \<and> (m = n \<and> (n \<noteq> 0 \<or> timeout = 0 \<or> iw_deadline (io_records s w) \<noteq> UINT64_MAX \<and> iw_deadline (io_records s w) \<le> now)
          \<or> m = -4 \<and> n = 0 \<and> io_interrupted u))
     \<or> (n = 0 \<and> timeout \<noteq> 0 \<and> \<not> io_interrupted u \<and> (iw_deadline (io_records s w) \<noteq> UINT64_MAX \<longrightarrow> now < iw_deadline (io_records s w))
        \<and> (\<exists>v b. io_block (if iw_deadline (io_records s w) \<noteq> UINT64_MAX
                         then u\<lparr>io_timers := timer_insert (io_records s) w (io_timers s)\<rparr> else u) = (v, b)
             \<and> (b \<and> s' = v \<and> r = Switch \<or> \<not> b \<and> s' = detach w v \<and> r = Retry)))"
proof -
  obtain u c n where p: "poll_scan poll w 0 copy s = (u, c, n)" by (rule prod_cases3)
  note e = poll_scan_effect [OF p]
  let ?v = "if iw_deadline (io_records s w) \<noteq> UINT64_MAX then u\<lparr>io_timers := timer_insert (io_records s) w (io_timers s)\<rparr> else u"
  obtain v b where b: "io_block ?v = (v, b)" by fastforce
  have f: "io_records u = io_records s" "io_timers u = io_timers s" using e by simp_all
  have r: "(if n \<noteq> 0 \<or> timeout = 0 \<or> (iw_deadline (io_records s w) \<noteq> UINT64_MAX \<and> now \<ge> iw_deadline (io_records s w)) then (u, c, Done n)
      else if io_interrupted u then (u, c, Done (-4))
      else (case (v, b) of (s, True) \<Rightarrow> (s, c, Switch) | (s, False) \<Rightarrow> (detach w s, c, Retry))) = (s', copy', r)"
    using assms unfolding io_poll_round_def p Let_def prod.case f b .
  show thesis
    by (rule that [of u n]) (use r p b in \<open>auto split: if_splits bool.splits simp: not_le\<close>)
qed

lemma io_poll_round_wf:
  assumes r: "io_poll_round poll w timeout now copy s = (s', copy', r)"
    and wf: "io_wf s" "io_idle w s" "w \<in> set (io_waiters s)" "length copy \<le> iw_count (io_records s w)"
  shows "io_wf s' \<and> io_waiters s' = io_waiters s \<and> io_records s' = io_records s"
  using r
proof (rule io_poll_round_cases)
  fix u n assume p: "poll_scan poll w 0 copy s = (u, copy', n)"
  assume c: "(\<exists>m. s' = u \<and> r = Done m \<and> (m = n \<and> (n \<noteq> 0 \<or> timeout = 0 \<or> iw_deadline (io_records s w) \<noteq> UINT64_MAX \<and> iw_deadline (io_records s w) \<le> now)
          \<or> m = -4 \<and> n = 0 \<and> io_interrupted u))
     \<or> (n = 0 \<and> timeout \<noteq> 0 \<and> \<not> io_interrupted u \<and> (iw_deadline (io_records s w) \<noteq> UINT64_MAX \<longrightarrow> now < iw_deadline (io_records s w))
        \<and> (\<exists>v b. io_block (if iw_deadline (io_records s w) \<noteq> UINT64_MAX
                         then u\<lparr>io_timers := timer_insert (io_records s) w (io_timers s)\<rparr> else u) = (v, b)
             \<and> (b \<and> s' = v \<and> r = Switch \<or> \<not> b \<and> s' = detach w v \<and> r = Retry)))"
  note e = poll_scan_effect [OF p]
  have u: "io_wf u" by (rule poll_scan_wf [OF p wf])
  have f: "io_records u = io_records s" "io_timers u = io_timers s" "io_waiters u = io_waiters s" using e by simp_all
  let ?v = "if iw_deadline (io_records s w) \<noteq> UINT64_MAX then u\<lparr>io_timers := timer_insert (io_records s) w (io_timers s)\<rparr> else u"
  have v: "io_wf ?v" using io_wf_timer [OF u, of w] u wf(2,3) by (simp add: f io_idle_def)
  from c show ?thesis
  proof (elim disjE exE conjE)
    fix v b assume "io_block ?v = (v, b)" "b" "s' = v"
    with io_block_fields [of ?v v b] show ?thesis using io_wf_cong [OF v, of v] by (simp add: f split: if_splits)
  next
    fix v b assume "io_block ?v = (v, b)" "s' = detach w v"
    with io_block_fields [of ?v v b] show ?thesis using io_wf_cong [OF v, of v] by (simp add: f detach_wf split: if_splits)
  qed (use u f in simp_all)
qed

section \<open>Waking\<close>

definition run_waiters :: "(nat \<Rightarrow> io_waiter) \<Rightarrow> nat list \<Rightarrow> kernel \<Rightarrow> kernel" where
  "run_waiters recs ws k = fold (\<lambda>w. task_run (iw_task (recs w))) ws k"

text \<open>The waiters \<open>ws\<close> leave every queue and the timers, and their tasks run.\<close>

definition io_released :: "nat list \<Rightarrow> io_state \<Rightarrow> io_state" where
  "io_released ws s = s\<lparr>io_queues := (\<lambda>q. filter (\<lambda>(v, i). v \<notin> set ws) (io_queues s q)), io_timers := filter (\<lambda>v. v \<notin> set ws) (io_timers s),
                       io_kernel := run_waiters (io_records s) ws (io_kernel s)\<rparr>"

lemma io_released_Nil [simp]: "io_released [] s = s"
  by (simp add: io_released_def run_waiters_def)

lemma io_released_Cons:
  assumes "io_wf s" shows "io_released ws (io_detach_run w s) = io_released (w # ws) s"
proof (rule io_state.equality)
  have "io_queues (io_detach_run w s) q = filter (\<lambda>(v, i). v \<noteq> w) (io_queues s q)" for q
    using detach_queue [OF assms, of w q] by (simp add: io_detach_run_def Let_def)
  then show "io_queues (io_released ws (io_detach_run w s)) = io_queues (io_released (w # ws) s)"
    by (auto simp: io_released_def fun_eq_iff case_prod_beta simp del: io_detach_run_fields(4) intro!: filter_cong)
qed (auto simp: io_released_def run_waiters_def removeAll_filter_not_eq intro!: filter_cong)

lemma wake_loop_effect:
  assumes "io_wf s"
  shows "\<exists>ws. wake_loop q s = Some (io_released ws s) \<and> distinct ws \<and> set ws = fst ` set (io_queues s q)"
  using assms
proof (induction "length (io_queues s q)" arbitrary: s rule: less_induct)
  case less
  show ?case
  proof (cases "io_queues s q")
    case Nil
    then show ?thesis by (intro exI [of _ "[]"]) (simp add: wake_loop.simps)
  next
    case (Cons x xs)
    obtain w i where x: "x = (w, i)" by fastforce
    let ?s = "io_detach_run w s"
    have wf: "io_wf ?s" using less.prems by (rule io_detach_run_wf)
    have q: "io_queues ?s q = filter (\<lambda>(v, i). v \<noteq> w) xs"
      using detach_queue [OF less.prems, of w q] Cons x by (simp add: io_detach_run_def Let_def)
    have "length (io_queues ?s q) < length (io_queues s q)" unfolding q Cons by (simp add: le_imp_less_Suc)
    from less.hyps [OF this wf] obtain ws
      where ws: "wake_loop q ?s = Some (io_released ws ?s)" "distinct ws" "set ws = fst ` set (io_queues ?s q)" by blast
    have "w \<notin> set ws" unfolding ws(3) q by auto
    moreover have "set (w # ws) = fst ` set (io_queues s q)" using ws(3) unfolding q Cons x by force
    moreover have "wake_loop q s = wake_loop q ?s" by (subst wake_loop.simps) (simp add: Cons x)
    ultimately show ?thesis using ws(1,2) io_released_Cons [OF less.prems, of ws w] by (intro exI [of _ "w # ws"]) simp
  qed
qed

lemma tick_loop_effect:
  assumes "io_wf s"
  shows "tick_loop now s = io_released (filter (\<lambda>w. iw_deadline (io_records s w) \<le> now) (io_timers s)) s"
  using assms
proof (induction "length (io_timers s)" arbitrary: s rule: less_induct)
  case less
  show ?case
  proof (cases "io_timers s")
    case Nil
    then show ?thesis by (simp add: tick_loop.simps)
  next
    case (Cons w ws)
    note wf = io_wfD [OF less.prems]
    show ?thesis
    proof (cases "iw_deadline (io_records s w) \<le> now")
      case True
      let ?s = "io_detach_run w s"
      have "w \<notin> set ws" using wf(2) Cons by simp
      then have t: "io_timers ?s = ws" by (simp add: Cons removeAll_id)
      have "tick_loop now s = tick_loop now ?s" using Cons True by (subst tick_loop.simps) simp
      also have "\<dots> = io_released (filter (\<lambda>w. iw_deadline (io_records s w) \<le> now) ws) ?s"
        using less.hyps [of ?s] io_detach_run_wf [OF less.prems, of w] t Cons by simp
      finally show ?thesis using Cons True io_released_Cons [OF less.prems] by simp
    next
      case False
      then have "filter (\<lambda>w. iw_deadline (io_records s w) \<le> now) (io_timers s) = []"
        using wf(4) by (auto simp: filter_empty_conv Cons)
      then show ?thesis using Cons False by (simp add: tick_loop.simps)
    qed
  qed
qed

lemma task_run_state:
  "t < slot_count k \<Longrightarrow> t_state (tsk (task_run t k) t) = (if t_state (tsk k t) \<in> {WAITING, SLEEPING} then RUNNING else t_state (tsk k t))"
  by (auto simp: task_run_def Let_def tsk_scheduler_place_task tsk_task_set_state)

lemma run_waiters_slots [simp]: "slot_count (run_waiters recs ws k) = slot_count k"
  by (induction ws arbitrary: k) (simp_all add: run_waiters_def task_run_slots)

lemma run_waiters_tasks:
  assumes "\<And>w. w \<in> set ws \<Longrightarrow> iw_task (recs w) < slot_count k"
  shows "(t \<notin> (\<lambda>w. iw_task (recs w)) ` set ws \<longrightarrow> tsk (run_waiters recs ws k) t = tsk k t)
    \<and> (t_state (tsk k t) \<notin> {WAITING, SLEEPING} \<longrightarrow> t_state (tsk (run_waiters recs ws k) t) = t_state (tsk k t))
    \<and> (t \<in> (\<lambda>w. iw_task (recs w)) ` set ws \<and> t_state (tsk k t) \<in> {WAITING, SLEEPING} \<longrightarrow> t_state (tsk (run_waiters recs ws k) t) = RUNNING)"
  using assms
proof (induction ws arbitrary: k)
  case Nil
  then show ?case by (simp add: run_waiters_def)
next
  case (Cons w ws)
  let ?t = "iw_task (recs w)" let ?k = "task_run ?t k"
  have r: "run_waiters recs (w # ws) k = run_waiters recs ws ?k" by (simp add: run_waiters_def)
  have tl: "?t < slot_count k" using Cons.prems by simp
  have o: "t \<noteq> ?t \<Longrightarrow> tsk ?k t = tsk k t" using tsk_task_run_other tl by blast
  have "\<And>v. v \<in> set ws \<Longrightarrow> iw_task (recs v) < slot_count ?k" using Cons.prems by (simp add: task_run_slots)
  from Cons.IH [OF this] show ?case unfolding r using o task_run_state [OF tl] by (cases "t = ?t") auto
qed

lemma run_waiters_sched_wf:
  "(\<And>w. w \<in> set ws \<Longrightarrow> iw_task (recs w) < slot_count k) \<Longrightarrow> sched_wf k \<Longrightarrow> sched_wf (run_waiters recs ws k)"
  by (induction ws arbitrary: k) (simp_all add: run_waiters_def sched_wf_task_run task_run_slots)

lemma io_released_wf [inv_intros]: "io_wf s \<Longrightarrow> io_wf (io_released ws s)"
  by (rule io_wf_shrink [of s]) (auto simp: io_released_def intro!: exI)

section \<open>Reachable states\<close>

text \<open>A new waiter gets memory that no live waiter occupies, the calls are made by a task in a slot, and a task goes on
  polling only with its own live waiter; a queue can be woken at any time, and the rest of the kernel may do anything
  except shrink the table of tasks.\<close>

inductive io_step :: "io_state \<Rightarrow> io_state \<Rightarrow> bool" where
  io_step_wait: "current_tid (io_kernel s) < slot_count (io_kernel s) \<Longrightarrow> (\<forall>w. memory = Some w \<longrightarrow> w \<notin> set (io_waiters s))
     \<Longrightarrow> io_step s (fst (io_poll_wait q memory s))"
| io_step_woken: "io_step s (fst (io_wait_resume w s))"
| io_step_poll: "current_tid (io_kernel s) < slot_count (io_kernel s) \<Longrightarrow> (\<forall>w. memory = Some w \<longrightarrow> w \<notin> set (io_waiters s))
     \<Longrightarrow> io_step s (fst (io_poll poll fds timeout user readable writable memory now s))"
| io_step_again: "w \<in> set (io_waiters s) \<Longrightarrow> length copy = iw_count (io_records s w)
     \<Longrightarrow> io_step s (fst (io_poll_again poll w timeout user writable now copy fds s))"
| io_step_wake: "io_poll_wake q s = Some s' \<Longrightarrow> io_step s s'"
| io_step_tick: "io_step s (io_poll_tick now s)"
| io_step_cancel: "io_step s (io_poll_cancel_task task s)"
| io_step_kernel: "slot_count (io_kernel s) \<le> slot_count k \<Longrightarrow> io_step s (s\<lparr>io_kernel := k\<rparr>)"

inductive io_reachable :: "io_state \<Rightarrow> bool" where
  io_start: "io_waiters s = [] \<Longrightarrow> io_timers s = [] \<Longrightarrow> (\<forall>q. io_queues s q = []) \<Longrightarrow> io_reachable s"
| io_next: "io_reachable s \<Longrightarrow> io_step s s' \<Longrightarrow> io_reachable s'"

lemma cancel_fold:
  assumes "io_wf s"
  shows "io_wf (fold (\<lambda>w s. if iw_task (io_records s w) = task then destroy w s else s) ws s)
    \<and> io_records (fold (\<lambda>w s. if iw_task (io_records s w) = task then destroy w s else s) ws s) = io_records s
    \<and> set (io_waiters (fold (\<lambda>w s. if iw_task (io_records s w) = task then destroy w s else s) ws s))
        = set (io_waiters s) - {w \<in> set ws. iw_task (io_records s w) = task}"
  using assms by (induction ws arbitrary: s) (auto simp: destroy_wf)

lemma io_poll_leave_wf:
  assumes "io_poll_leave w user writable fds x = (s', c, r)" "io_wf (fst x)"
  shows "io_wf s'"
  using assms by (auto simp: io_poll_leave_def io_poll_finish_def Let_def destroy_wf split: prod.splits outcome.splits if_splits)

lemma io_poll_begin_wf:
  assumes "io_poll_begin fds timeout user readable writable memory now s = (s', Inr w)" "io_wf s"
    "current_tid (io_kernel s) < slot_count (io_kernel s)" "\<forall>w. memory = Some w \<longrightarrow> w \<notin> set (io_waiters s)"
  shows "io_wf s' \<and> io_idle w s' \<and> w \<in> set (io_waiters s') \<and> iw_count (io_records s' w) = length fds
    \<and> iw_deadline (io_records s' w) = io_deadline timeout now \<and> io_queues s' = io_queues s \<and> io_timers s' = io_timers s
    \<and> io_kernel s' = io_kernel s"
proof -
  have m: "memory = Some w" and s': "s' = (let s = create w (length fds) s
           in s\<lparr>io_records := (io_records s)(w := (io_records s w)\<lparr>iw_deadline := io_deadline timeout now\<rparr>)\<rparr>)"
    using assms(1) by (auto simp: io_poll_begin_def Let_def split: if_splits option.splits)
  let ?c = "create w (length fds) s"
  have c: "io_wf ?c" "io_idle w ?c" using create_wf assms(2-4) m by simp_all
  have f: "io_waiters s' = io_waiters ?c" "io_timers s' = io_timers ?c" "io_queues s' = io_queues ?c" "io_kernel s' = io_kernel ?c"
    "io_records s' = (io_records ?c)(w := (io_records ?c w)\<lparr>iw_deadline := io_deadline timeout now\<rparr>)"
    by (simp_all add: s' Let_def)
  have nt: "w \<notin> set (io_timers ?c)" using c(2) by (simp add: io_idle_def)
  have m: "map (\<lambda>v. iw_deadline (io_records s' v)) (io_timers ?c) = map (\<lambda>v. iw_deadline (io_records ?c v)) (io_timers ?c)"
    by (intro map_cong) (use nt in \<open>auto simp: f(5)\<close>)
  note wf = io_wfD [OF c(1)]
  have "io_wf s'"
  proof (rule io_wfI, unfold f(1-4) m)
    fix v assume "v \<in> set (io_timers ?c)"
    then show "iw_deadline (io_records s' v) \<noteq> UINT64_MAX" using wf(5) nt by (auto simp: f(5))
  next
    fix v assume "v \<in> set (io_waiters ?c)"
    then show "iw_task (io_records s' v) < slot_count (io_kernel ?c)" using wf(10) [of v] by (auto simp: f(5))
  next
    fix q v i assume "(v, i) \<in> set (io_queues ?c q)"
    then show "v \<in> set (io_waiters ?c) \<and> i < iw_count (io_records s' v)" using wf(7,8) [of v i q] by (auto simp: f(5))
  qed (use wf(1-4,6,9) in auto)
  then show ?thesis using c(2) by (simp add: io_idle_def f) (simp add: create_def)
qed

lemma io_poll_wait_wf:
  assumes "io_wf s" "current_tid (io_kernel s) < slot_count (io_kernel s)" "\<forall>w. memory = Some w \<longrightarrow> w \<notin> set (io_waiters s)"
  shows "io_wf (fst (io_poll_wait q memory s))"
proof (cases memory)
  case None
  then show ?thesis using assms(1) by (simp add: io_poll_wait_def)
next
  case (Some w)
  let ?c = "create w 1 s"
  have c: "io_wf ?c" "io_idle w ?c" using create_wf assms Some by simp_all
  let ?w = "io_poll_watch q (Some (w, 0)) ?c"
  have ww: "io_wf ?w" using c by (intro watch_wf) (auto simp: io_idle_def create_def)
  obtain v b where b: "io_block ?w = (v, b)" by fastforce
  have "io_wf v" using io_block_fields [OF b] by (intro io_wf_cong [OF ww]) simp_all
  then show ?thesis using assms(1) Some b
    by (cases b) (simp_all add: io_poll_wait_def io_wait_resume_def Let_def destroy_wf)
qed

lemma io_step_wf: "io_step s s' \<Longrightarrow> io_wf s \<Longrightarrow> io_wf s'"
proof (induction rule: io_step.induct)
  case (io_step_poll s memory poll fds timeout user readable writable now)
  obtain u r where b: "io_poll_begin fds timeout user readable writable memory now s = (u, r)" by fastforce
  show ?case
  proof (cases r)
    case (Inl e)
    then have "u = s" using b by (auto simp: io_poll_begin_def Let_def split: if_splits option.splits)
    then show ?thesis using io_step_poll.prems Inl b by (simp add: io_poll_def)
  next
    case (Inr w)
    note wf = io_poll_begin_wf [OF b [unfolded Inr] io_step_poll.prems io_step_poll.hyps]
    obtain v c o' where p: "io_poll_round poll w timeout now fds u = (v, c, o')" by (rule prod_cases3)
    have "io_wf v" using io_poll_round_wf [OF p] wf by simp
    then show ?thesis using io_poll_leave_wf by (simp add: io_poll_def b Inr p) (metis fst_conv prod.collapse)
  qed
next
  case (io_step_again w s copy poll timeout user writable now fds)
  have d: "io_wf (detach w s)" "io_idle w (detach w s)" using io_step_again.prems by (auto intro: detach_wf detach_idle)
  obtain v c o' where p: "io_poll_round poll w timeout now copy (detach w s) = (v, c, o')" by (rule prod_cases3)
  have "io_wf v" using io_poll_round_wf [OF p d] io_step_again.hyps by simp
  then show ?case using io_poll_leave_wf by (simp add: io_poll_again_def io_poll_resume_def p) (metis fst_conv prod.collapse)
next
  case (io_step_wake q s s')
  then show ?case
  proof (cases q)
    case (Some p)
    obtain ws where "wake_loop p s = Some (io_released ws s)" using wake_loop_effect [OF io_step_wake.prems] by blast
    then have "s' = io_released ws s" using io_step_wake.hyps Some by (simp add: io_poll_wake_def)
    then show ?thesis using io_released_wf [OF io_step_wake.prems] by simp
  qed (simp add: io_poll_wake_def)
next
  case (io_step_kernel s k)
  then show ?case by (intro io_wf_cong [OF io_step_kernel.prems]) simp_all
next
  case (io_step_wait s memory q)
  then show ?case by (intro io_poll_wait_wf)
next
  case (io_step_woken s w)
  then show ?case by (simp add: io_wait_resume_def Let_def destroy_wf)
next
  case (io_step_tick s now)
  then show ?case by (simp add: io_poll_tick_def tick_loop_effect io_released_wf)
next
  case (io_step_cancel s task)
  then show ?case using cancel_fold unfolding io_poll_cancel_task_def by blast
qed

lemma io_reachable_wf: "io_reachable s \<Longrightarrow> io_wf s"
  by (induction rule: io_reachable.induct) (auto intro: io_step_wf io_wfI)

end
