(* ===== verification/IoPollProps.thy ===== *)
theory IoPollProps
  imports IoPoll
begin

text \<open>What the polling of \<^verbatim>\<open>kernel/dos/task/io_poll.c\<close> promises: which waiters a wake-up or the clock releases, that a task
  sleeps only where every change it waits for will wake it, and that nothing refers to memory that was freed.\<close>

section \<open>An example\<close>

text \<open>Task 0 polls two descriptors for ten milliseconds; the first is negative, the second puts its watch into queue 100.\<close>

definition io_begin :: io_state where
  "io_begin = \<lparr>io_kernel = sched_example, io_records = (\<lambda>_. \<lparr>iw_task = 0, iw_deadline = 0, iw_count = 0\<rparr>), io_waiters = [],
     io_timers = [], io_queues = (\<lambda>_. [])\<rparr>"

definition io_fds :: "pollfd list" where
  "io_fds = [\<lparr>fd = -1, events = POLLIN, revents = 0\<rparr>, \<lparr>fd = 7, events = POLLIN, revents = 0\<rparr>]"

definition io_driver :: "nat \<Rightarrow> pollfd \<Rightarrow> u16 \<times> nat option" where
  "io_driver i p = (0, Some 100)"

definition io_sleeping :: io_state where
  "io_sleeping = fst (io_poll io_driver io_fds 10 True True True (Some 64) 1000 io_begin)"

lemma io_example_facts:
  "current_tid sched_example = 0" "slot_count sched_example = 4" "t_state (tsk sched_example 0) = RUNNING" "\<not> t_ready (tsk sched_example 0)"
  "t_pending (tsk sched_example 0) AND NOT (t_blocked (tsk sched_example 0)) = 0"
  by (simp_all add: example_defs current_tid_def current_task_def)

lemma io_sleeping_fields:
  "io_waiters io_sleeping = [64]" "io_timers io_sleeping = [64]" "io_queues io_sleeping q = (if q = 100 then [(64, 1)] else [])"
  "iw_task (io_records io_sleeping 64) = 0" "iw_deadline (io_records io_sleeping 64) = 10001000"
  "snd (snd (io_poll io_driver io_fds 10 True True True (Some 64) 1000 io_begin)) = Switch"
  "io_kernel io_sleeping = fst (task_fall_blocked_reason WAITING WR_IO sched_example)"
  by (simp_all add: io_sleeping_def io_poll_def io_poll_begin_def create_def io_poll_round_def poll_answer_def io_poll_watch_def Let_def
      io_begin_def io_fds_def io_driver_def io_deadline_def io_interrupted_def io_example_facts io_block_def task_fall_blocked_reason_def
      io_poll_leave_def)

lemma fall_blocked_task:
  assumes "task_fall_blocked_reason st reason k = (k', SwitchThen ())" "current_tid k < slot_count k"
  shows "t_state (tsk k' (current_tid k)) = st" "t_wait_reason (tsk k' (current_tid k)) = reason" "slot_count k' = slot_count k"
proof -
  have k': "k' = upd_task (current_tid k) (\<lambda>x. x\<lparr>t_wait_reason := reason, t_ready := False\<rparr>) (task_set_state (current_tid k) st k)"
    using assms(1) by (auto simp: task_fall_blocked_reason_def Let_def split: if_splits)
  have l: "slot_count (task_set_state (current_tid k) st k) = slot_count k" by (simp add: task_set_state_def)
  show "t_state (tsk k' (current_tid k)) = st" "t_wait_reason (tsk k' (current_tid k)) = reason" "slot_count k' = slot_count k"
    using assms(2) l by (simp_all add: k' upd_task_def tsk_task_set_state)
qed

lemma io_sleeping_task: "t_state (tsk (io_kernel io_sleeping) 0) = WAITING" "slot_count (io_kernel io_sleeping) = 4"
proof -
  have "task_fall_blocked_reason WAITING WR_IO sched_example = (io_kernel io_sleeping, SwitchThen ())"
    unfolding io_sleeping_fields by (simp add: task_fall_blocked_reason_def Let_def io_example_facts)
  from fall_blocked_task [OF this] show "t_state (tsk (io_kernel io_sleeping) 0) = WAITING" "slot_count (io_kernel io_sleeping) = 4"
    by (simp_all add: io_example_facts)
qed

lemma io_sleeping_reachable: "io_reachable io_sleeping"
proof -
  have "io_reachable io_begin" by (rule io_start) (simp_all add: io_begin_def)
  moreover have "io_step io_begin io_sleeping" unfolding io_sleeping_def
    by (rule io_step_poll) (simp_all add: io_begin_def io_example_facts)
  ultimately show ?thesis by (rule io_next)
qed

section \<open>Properties\<close>

lemma io_released_tasks:
  assumes "io_wf s" "set ws \<subseteq> set (io_waiters s)"
  shows "(\<forall>w\<in>set ws. t_state (tsk (io_kernel s) (iw_task (io_records s w))) \<in> {WAITING, SLEEPING}
        \<longrightarrow> t_state (tsk (io_kernel (io_released ws s)) (iw_task (io_records s w))) = RUNNING)
    \<and> (\<forall>t. (\<forall>w\<in>set ws. iw_task (io_records s w) \<noteq> t) \<longrightarrow> tsk (io_kernel (io_released ws s)) t = tsk (io_kernel s) t)
    \<and> (sched_wf (io_kernel s) \<longrightarrow> sched_wf (io_kernel (io_released ws s)))"
proof -
  have t: "\<And>w. w \<in> set ws \<Longrightarrow> iw_task (io_records s w) < slot_count (io_kernel s)" using assms io_wfD(10) by blast
  note r = run_waiters_tasks [of ws "io_records s" "io_kernel s", OF t]
  have k: "io_kernel (io_released ws s) = run_waiters (io_records s) ws (io_kernel s)" by (simp add: io_released_def)
  have "t_state (tsk (io_kernel (io_released ws s)) (iw_task (io_records s w))) = RUNNING"
    if "w \<in> set ws" "t_state (tsk (io_kernel s) (iw_task (io_records s w))) \<in> {WAITING, SLEEPING}" for w
    using r [of "iw_task (io_records s w)"] that unfolding k by blast
  moreover have "tsk (io_kernel (io_released ws s)) t = tsk (io_kernel s) t" if "\<forall>w\<in>set ws. iw_task (io_records s w) \<noteq> t" for t
  proof -
    have "t \<notin> (\<lambda>w. iw_task (io_records s w)) ` set ws" using that by blast
    then show ?thesis using r [of t] unfolding k by blast
  qed
  moreover have "sched_wf (io_kernel s) \<Longrightarrow> sched_wf (io_kernel (io_released ws s))"
    unfolding k by (rule run_waiters_sched_wf [OF t])
  ultimately show ?thesis by blast
qed

text \<open>C24: \<open>io_poll_wake\<close> returns, and it releases exactly the waiters that watch the queue.  Each of them leaves every queue
  it watches and the timers, and its task becomes runnable; the queue is empty afterwards, and all other waiters, timers
  and tasks are as before.\<close>

theorem io_poll_wake_releases:
  assumes "io_reachable s"
  shows "\<exists>s'. io_poll_wake (Some q) s = Some s' \<and> io_queues s' q = []
    \<and> (\<forall>r. io_queues s' r = filter (\<lambda>(w, i). w \<notin> fst ` set (io_queues s q)) (io_queues s r))
    \<and> io_timers s' = filter (\<lambda>w. w \<notin> fst ` set (io_queues s q)) (io_timers s)
    \<and> io_waiters s' = io_waiters s \<and> io_records s' = io_records s
    \<and> (\<forall>w\<in>fst ` set (io_queues s q). t_state (tsk (io_kernel s) (iw_task (io_records s w))) \<in> {WAITING, SLEEPING}
         \<longrightarrow> t_state (tsk (io_kernel s') (iw_task (io_records s w))) = RUNNING)
    \<and> (\<forall>t. (\<forall>w\<in>fst ` set (io_queues s q). iw_task (io_records s w) \<noteq> t) \<longrightarrow> tsk (io_kernel s') t = tsk (io_kernel s) t)"
proof -
  have wf: "io_wf s" using assms by (rule io_reachable_wf)
  obtain ws where w: "wake_loop q s = Some (io_released ws s)" "set ws = fst ` set (io_queues s q)"
    using wake_loop_effect [OF wf] by blast
  have sub: "set ws \<subseteq> set (io_waiters s)" using w(2) io_wfD(7) [OF wf] by auto
  have "io_queues (io_released ws s) q = []" by (auto simp: io_released_def w(2) filter_empty_conv image_iff)
  moreover have "io_poll_wake (Some q) s = Some (io_released ws s)" using w(1) by (simp add: io_poll_wake_def)
  moreover note io_released_tasks [OF wf sub]
  ultimately show ?thesis unfolding w(2) [symmetric]
    by (intro exI [of _ "io_released ws s"]) (simp add: io_released_def)
qed

theorem io_poll_wake_releases_witness:
  "\<exists>s'. io_poll_wake (Some 100) io_sleeping = Some s' \<and> io_queues s' 100 = [] \<and> io_timers s' = []
     \<and> t_state (tsk (io_kernel io_sleeping) 0) = WAITING \<and> t_state (tsk (io_kernel s') 0) = RUNNING"
  using io_poll_wake_releases [OF io_sleeping_reachable, of 100] by (auto simp: io_sleeping_fields(1-6) io_sleeping_task)

text \<open>C22: polling leaves no dangling reference.  In every reachable state each linked watch belongs to a waiter that is still
  allocated and is one of the waiter's own watches, each timer is that of an allocated waiter whose wait is limited, no watch is
  in two queues or twice in one, and the timers are ordered by deadline.  Once \<open>io_poll_cancel_task\<close> has run for a
  task that exits, no waiter, watch or timer of that task is left, so that neither a queue nor the clock leads to its memory.
  (That a sleeping task is linked and that a wake runs it are separate properties.)\<close>

theorem io_poll_no_dangling:
  assumes "io_reachable s"
  shows "(\<forall>q w i. (w, i) \<in> set (io_queues s q) \<longrightarrow> w \<in> set (io_waiters s) \<and> i < iw_count (io_records s w))
    \<and> (\<forall>w\<in>set (io_timers s). w \<in> set (io_waiters s) \<and> iw_deadline (io_records s w) \<noteq> UINT64_MAX)
    \<and> (\<forall>q. distinct (io_queues s q)) \<and> (\<forall>q r x. x \<in> set (io_queues s q) \<and> x \<in> set (io_queues s r) \<longrightarrow> q = r)
    \<and> sorted (map (\<lambda>w. iw_deadline (io_records s w)) (io_timers s))
    \<and> (let s' = io_poll_cancel_task task s in
        (\<forall>w\<in>set (io_waiters s') \<union> set (io_timers s'). iw_task (io_records s' w) \<noteq> task)
        \<and> (\<forall>q w i. (w, i) \<in> set (io_queues s' q) \<longrightarrow> iw_task (io_records s' w) \<noteq> task))"
proof -
  have wf: "io_wf s" using assms by (rule io_reachable_wf)
  let ?c = "io_poll_cancel_task task s"
  have c: "io_wf ?c" "io_records ?c = io_records s"
    "set (io_waiters ?c) = set (io_waiters s) - {w \<in> set (io_waiters s). iw_task (io_records s w) = task}"
    using cancel_fold [OF wf, of task "io_waiters s"] by (simp_all add: io_poll_cancel_task_def)
  have live: "iw_task (io_records ?c w) \<noteq> task" if "w \<in> set (io_waiters ?c)" for w using that c(2,3) by auto
  have "(\<forall>w\<in>set (io_waiters ?c) \<union> set (io_timers ?c). iw_task (io_records ?c w) \<noteq> task)
      \<and> (\<forall>q w i. (w, i) \<in> set (io_queues ?c q) \<longrightarrow> iw_task (io_records ?c w) \<noteq> task)"
    using live io_wfD(3,7) [OF c(1)] by blast
  moreover have "\<forall>w\<in>set (io_timers s). w \<in> set (io_waiters s)" using io_wfD(3) [OF wf] by blast
  ultimately show ?thesis using wf unfolding io_wf_def Let_def by blast
qed

theorem io_poll_no_dangling_witness:
  "(64, 1) \<in> set (io_queues io_sleeping 100) \<and> 64 \<in> set (io_waiters io_sleeping)
     \<and> 64 \<notin> set (io_timers (io_poll_cancel_task 0 io_sleeping))"
proof -
  have r: "io_records (io_poll_cancel_task 0 io_sleeping) = io_records io_sleeping"
    using cancel_fold [OF io_reachable_wf [OF io_sleeping_reachable], of 0 "io_waiters io_sleeping"] by (simp add: io_poll_cancel_task_def)
  note p = io_poll_no_dangling [OF io_sleeping_reachable, of 0]
  have "(64, 1) \<in> set (io_queues io_sleeping 100)" by (simp add: io_sleeping_fields)
  moreover from this have "64 \<in> set (io_waiters io_sleeping)" using p by blast
  moreover have "64 \<notin> set (io_timers (io_poll_cancel_task 0 io_sleeping))"
  proof
    assume "64 \<in> set (io_timers (io_poll_cancel_task 0 io_sleeping))"
    then have "iw_task (io_records (io_poll_cancel_task 0 io_sleeping) 64) \<noteq> 0" using p unfolding Let_def by blast
    then show False unfolding r using io_sleeping_fields(4) by blast
  qed
  ultimately show ?thesis by blast
qed

text \<open>The clock interrupt releases exactly the waiters whose deadline has passed: they leave their queues and the timers
  and their tasks run, and the others keep their watches and their deadlines.\<close>

theorem io_poll_tick_releases:
  assumes "io_reachable s"
  shows "let s' = io_poll_tick now s; expired = {w \<in> set (io_timers s). iw_deadline (io_records s w) \<le> now} in
    io_timers s' = filter (\<lambda>w. now < iw_deadline (io_records s w)) (io_timers s)
    \<and> (\<forall>q. io_queues s' q = filter (\<lambda>(w, i). w \<notin> expired) (io_queues s q)) \<and> io_waiters s' = io_waiters s
    \<and> (\<forall>w\<in>expired. t_state (tsk (io_kernel s) (iw_task (io_records s w))) \<in> {WAITING, SLEEPING}
         \<longrightarrow> t_state (tsk (io_kernel s') (iw_task (io_records s w))) = RUNNING)
    \<and> (\<forall>t. (\<forall>w\<in>expired. iw_task (io_records s w) \<noteq> t) \<longrightarrow> tsk (io_kernel s') t = tsk (io_kernel s) t)"
proof -
  have wf: "io_wf s" using assms by (rule io_reachable_wf)
  define ws where "ws = filter (\<lambda>w. iw_deadline (io_records s w) \<le> now) (io_timers s)"
  have e: "io_poll_tick now s = io_released ws s"
    using tick_loop_effect [OF wf, of now] by (auto simp: io_poll_tick_def ws_def)
  have sw: "set ws = {w \<in> set (io_timers s). iw_deadline (io_records s w) \<le> now}" by (auto simp: ws_def)
  have t: "filter (\<lambda>v. v \<notin> set ws) (io_timers s) = filter (\<lambda>w. now < iw_deadline (io_records s w)) (io_timers s)"
    by (rule filter_cong) (auto simp: ws_def not_le)
  have sub: "set ws \<subseteq> set (io_waiters s)" unfolding sw using io_wfD(3) [OF wf] by blast
  note k = io_released_tasks [OF wf sub]
  show ?thesis unfolding Let_def e sw [symmetric] using k t by (simp add: io_released_def)
qed

theorem io_poll_tick_releases_witness:
  "io_timers (io_poll_tick 10001000 io_sleeping) = [] \<and> io_timers (io_poll_tick 10000999 io_sleeping) = [64]
     \<and> t_state (tsk (io_kernel (io_poll_tick 10001000 io_sleeping)) 0) = RUNNING"
  using io_poll_tick_releases [OF io_sleeping_reachable, of 10001000] io_poll_tick_releases [OF io_sleeping_reachable, of 10000999]
  by (simp add: Let_def io_sleeping_fields(1-6) io_sleeping_task)

text \<open>C23: \<open>io_poll\<close> never sleeps through an event.  When a round puts the task to sleep, no descriptor was ready, no
  signal is pending and the deadline lies ahead; the watch of every descriptor is in the queue its driver named, the
  waiter has a timer exactly if the wait is limited, and the task waits for I/O.  So waking any of these queues runs it.\<close>

theorem io_poll_sleeps_watched:
  assumes "io_poll_round poll w timeout now copy s = (s', copy', Switch)" "io_idle w s"
    "current_tid (io_kernel s) < slot_count (io_kernel s)"
  shows "(\<forall>p\<in>set copy'. revents p = 0) \<and> timeout \<noteq> 0 \<and> \<not> io_interrupted s
    \<and> (iw_deadline (io_records s w) = UINT64_MAX \<or> now < iw_deadline (io_records s w))
    \<and> (\<forall>i < length copy. \<forall>q. 0 \<le> fd (copy ! i) \<and> snd (poll i (copy ! i)) = Some q \<longrightarrow> (w, i) \<in> set (io_queues s' q))
    \<and> (w \<in> set (io_timers s') \<longleftrightarrow> iw_deadline (io_records s w) \<noteq> UINT64_MAX)
    \<and> t_state (tsk (io_kernel s') (current_tid (io_kernel s))) = WAITING
    \<and> t_wait_reason (tsk (io_kernel s') (current_tid (io_kernel s))) = WR_IO"
proof -
  obtain u n v where p: "poll_scan poll w 0 copy s = (u, copy', n)" and g: "n = 0" "timeout \<noteq> 0" "\<not> io_interrupted u"
      "iw_deadline (io_records s w) \<noteq> UINT64_MAX \<longrightarrow> now < iw_deadline (io_records s w)"
    and b: "io_block (if iw_deadline (io_records s w) \<noteq> UINT64_MAX
               then u\<lparr>io_timers := timer_insert (io_records s) w (io_timers s)\<rparr> else u) = (s', True)"
    using assms(1) by (rule io_poll_round_cases) (auto split: if_splits)
  note e = poll_scan_effect [OF p]
  have k: "io_kernel u = io_kernel s" using e by simp
  have ready: "\<forall>p\<in>set copy'. revents p = 0" using e g(1) by (auto simp: filter_empty_conv)
  let ?v = "if iw_deadline (io_records s w) \<noteq> UINT64_MAX then u\<lparr>io_timers := timer_insert (io_records s) w (io_timers s)\<rparr> else u"
  note f = io_block_fields [OF b]
  have q: "io_queues s' q = rev (scan_links poll w 0 copy q) @ io_queues s q" for q using e f by simp
  have watched: "\<forall>i < length copy. \<forall>q. 0 \<le> fd (copy ! i) \<and> snd (poll i (copy ! i)) = Some q \<longrightarrow> (w, i) \<in> set (io_queues s' q)"
    by (simp add: q scan_links_mem poll_answer_def)
  have timer: "w \<in> set (io_timers s') \<longleftrightarrow> iw_deadline (io_records s w) \<noteq> UINT64_MAX"
    using f e assms(2) by (auto simp: timer_insert_set io_idle_def)
  have kv: "io_kernel ?v = io_kernel s" using k by simp
  have fall: "task_fall_blocked_reason WAITING WR_IO (io_kernel s) = (io_kernel s', SwitchThen ())"
    using b unfolding io_block_def kv by (auto simp: task_fall_blocked_reason_def Let_def split: if_splits)
  have st: "t_state (tsk (io_kernel s') (current_tid (io_kernel s))) = WAITING"
    "t_wait_reason (tsk (io_kernel s') (current_tid (io_kernel s))) = WR_IO"
    using fall_blocked_task [OF fall] assms(3) by simp_all
  have i: "\<not> io_interrupted s" using g(3) k by (simp add: io_interrupted_def)
  show ?thesis using ready g(2,4) i watched timer st by blast
qed

theorem io_poll_sleeps_watched_witness:
  "\<exists>s' copy'. io_poll_round io_driver 64 (-1) 0 io_fds
       (fst (io_poll_begin io_fds (-1) True True True (Some 64) 0 io_begin)) = (s', copy', Switch)
     \<and> (64, 1) \<in> set (io_queues s' 100) \<and> 64 \<notin> set (io_timers s')"
proof -
  let ?s = "fst (io_poll_begin io_fds (-1) True True True (Some 64) 0 io_begin)"
  obtain s' copy' where r: "io_poll_round io_driver 64 (-1) 0 io_fds ?s = (s', copy', Switch)"
    by (simp add: io_poll_round_def io_poll_begin_def create_def poll_answer_def io_poll_watch_def Let_def
      io_begin_def io_fds_def io_driver_def io_deadline_def io_interrupted_def io_example_facts io_block_def task_fall_blocked_reason_def)
  have i: "io_idle 64 ?s" "current_tid (io_kernel ?s) < slot_count (io_kernel ?s)"
    "iw_deadline (io_records ?s 64) = UINT64_MAX"
    by (simp_all add: io_poll_begin_def create_def Let_def io_begin_def io_fds_def io_idle_def io_example_facts io_deadline_def)
  have d: "1 < length io_fds" "0 \<le> fd (io_fds ! 1)" "snd (io_driver 1 (io_fds ! 1)) = Some 100" by (simp_all add: io_fds_def io_driver_def)
  note p = io_poll_sleeps_watched [OF r i(1,2)]
  have "(64, 1) \<in> set (io_queues s' 100)" using p d by blast
  moreover have "64 \<notin> set (io_timers s')" using p i(3) by blast
  ultimately show ?thesis using r by blast
qed

end
