(* ===== verification/RecordLock.thy ===== *)
theory RecordLock
  imports IoPoll
begin

text \<open>
  The record locks of files in \<^verbatim>\<open>kernel/fs/vfs.c\<close>: the list of locks and its changes, and the range a request means.
  A lock belongs to a thread group and to a file, which is known by its mount (a pointer) and its node number; it covers
  the bytes from \<open>rl_start\<close> up to but not including \<open>rl_end\<close>, and \<open>UINT64_MAX\<close> stands for no end.
\<close>

section \<open>Locks\<close>

abbreviation F_RDLCK :: int where "F_RDLCK \<equiv> 0"
abbreviation F_WRLCK :: int where "F_WRLCK \<equiv> 1"
abbreviation F_UNLCK :: int where "F_UNLCK \<equiv> 2"
abbreviation F_GETLK :: int where "F_GETLK \<equiv> 5"
abbreviation F_SETLK :: int where "F_SETLK \<equiv> 6"
abbreviation F_SETLKW :: int where "F_SETLKW \<equiv> 7"
abbreviation SEEK_SET :: int where "SEEK_SET \<equiv> 0"
abbreviation SEEK_CUR :: int where "SEEK_CUR \<equiv> 1"
abbreviation SEEK_END :: int where "SEEK_END \<equiv> 2"
abbreviation U64_MAX :: nat where "U64_MAX \<equiv> 18446744073709551615"
abbreviation INT64_MAX :: int where "INT64_MAX \<equiv> 9223372036854775807"

abbreviation VFS_OK :: int where "VFS_OK \<equiv> 0"
abbreviation VFS_ERROR_INTERRUPTED :: int where "VFS_ERROR_INTERRUPTED \<equiv> -4"
abbreviation VFS_ERROR_IO :: int where "VFS_ERROR_IO \<equiv> -5"
abbreviation VFS_ERROR_BAD_DESCRIPTOR :: int where "VFS_ERROR_BAD_DESCRIPTOR \<equiv> -9"
abbreviation VFS_ERROR_AGAIN :: int where "VFS_ERROR_AGAIN \<equiv> -11"
abbreviation VFS_ERROR_NO_MEMORY :: int where "VFS_ERROR_NO_MEMORY \<equiv> -12"
abbreviation VFS_ERROR_ACCESS :: int where "VFS_ERROR_ACCESS \<equiv> -13"
abbreviation VFS_ERROR_INVALID :: int where "VFS_ERROR_INVALID \<equiv> -22"
abbreviation VFS_ERROR_TOO_MANY_FILES :: int where "VFS_ERROR_TOO_MANY_FILES \<equiv> -24"
abbreviation VFS_ERROR_NOT_SEEKABLE :: int where "VFS_ERROR_NOT_SEEKABLE \<equiv> -29"
abbreviation VFS_ERROR_PIPE :: int where "VFS_ERROR_PIPE \<equiv> -32"
abbreviation VFS_ERROR_OVERFLOW :: int where "VFS_ERROR_OVERFLOW \<equiv> -75"

record record_lock =
  rl_mount :: nat
  rl_node :: nat
  rl_owner :: nat
  rl_type :: int
  rl_start :: nat
  rl_end :: nat

definition vfs_record_lock_key_equal :: "record_lock \<Rightarrow> nat \<Rightarrow> nat \<Rightarrow> bool" where
  "vfs_record_lock_key_equal r mount node \<longleftrightarrow> rl_mount r = mount \<and> rl_node r = node"

definition vfs_record_lock_overlap :: "nat \<Rightarrow> nat \<Rightarrow> nat \<Rightarrow> nat \<Rightarrow> bool" where
  "vfs_record_lock_overlap left_start left_end right_start right_end \<longleftrightarrow> left_start < right_end \<and> right_start < left_end"

definition vfs_record_lock_conflicts :: "record_lock \<Rightarrow> nat \<Rightarrow> int \<Rightarrow> nat \<Rightarrow> nat \<Rightarrow> bool" where
  "vfs_record_lock_conflicts r owner type lo hi \<longleftrightarrow>
     rl_owner r \<noteq> owner \<and> vfs_record_lock_overlap (rl_start r) (rl_end r) lo hi \<and> (type = F_WRLCK \<or> rl_type r = F_WRLCK)"

text \<open>The locks of one thread group on one file.\<close>

definition lock_of :: "nat \<Rightarrow> nat \<Rightarrow> nat \<Rightarrow> record_lock \<Rightarrow> bool" where
  "lock_of mount node owner r \<longleftrightarrow> vfs_record_lock_key_equal r mount node \<and> rl_owner r = owner"

text \<open>A request of \<open>fcntl\<close>; \<open>flock_start\<close> and \<open>flock_len\<close> are \<open>int64_t\<close>.\<close>

record flock =
  l_type :: int
  l_whence :: int
  l_start :: int
  l_len :: int
  l_pid :: int

text \<open>The range of a request, for the handle's offset and the size of the file.\<close>

definition vfs_record_lock_normalize_range :: "u32 \<Rightarrow> u32 \<Rightarrow> flock \<Rightarrow> int + nat \<times> nat" where
  "vfs_record_lock_normalize_range offset file_size request =
     (if l_whence request \<noteq> SEEK_SET \<and> l_whence request \<noteq> SEEK_CUR \<and> l_whence request \<noteq> SEEK_END then Inl VFS_ERROR_INVALID
      else
        (let base = (if l_whence request = SEEK_SET then 0 else if l_whence request = SEEK_CUR then uint offset else uint file_size) in
         if (l_start request < 0 \<and> base < (- INT64_MAX - 1) - l_start request) \<or> (l_start request > 0 \<and> base > INT64_MAX - l_start request)
         then Inl VFS_ERROR_OVERFLOW
         else if base + l_start request < 0 then Inl VFS_ERROR_INVALID
         else
           (let start = nat (base + l_start request) in
            if l_len request = 0 then Inr (start, U64_MAX)
            else if l_len request > 0 then
              (let len = nat (l_len request) in
               if len > U64_MAX - start then Inl VFS_ERROR_OVERFLOW
               else if (start + len) mod 2 ^ 64 \<le> start then Inl VFS_ERROR_OVERFLOW
               else Inr (start, (start + len) mod 2 ^ 64))
            else
              (let len = nat (- (l_len request + 1)) + 1 in
               if len > start then Inl VFS_ERROR_INVALID
               else if start - len < start then Inr (start - len, start) else Inl VFS_ERROR_INVALID))))"

text \<open>The cast to \<open>int64_t\<close>, and the description of a lock.\<close>

definition to_int64 :: "nat \<Rightarrow> int" where
  "to_int64 n = sint (of_nat n :: u64)"

definition vfs_record_lock_describe :: "record_lock \<Rightarrow> flock \<Rightarrow> flock" where
  "vfs_record_lock_describe r result =
     result\<lparr>l_type := rl_type r, l_whence := SEEK_SET, l_start := to_int64 (rl_start r),
            l_len := (if rl_end r = U64_MAX then 0
                      else if int (rl_end r - rl_start r) > INT64_MAX then INT64_MAX else to_int64 (rl_end r - rl_start r)),
            l_pid := sint (of_nat (rl_owner r) :: u32)\<rparr>"

section \<open>Changes of the list\<close>

text \<open>Removing a range; \<open>splits\<close> is the number of nodes allocated before, and \<open>None\<close> the panic when they do not suffice.\<close>

primrec vfs_record_lock_remove_owner_range ::
  "nat \<Rightarrow> nat \<Rightarrow> nat \<Rightarrow> nat \<Rightarrow> nat \<Rightarrow> nat \<Rightarrow> record_lock list \<Rightarrow> record_lock list option" where
  "vfs_record_lock_remove_owner_range mount node owner lo hi splits [] = Some []"
| "vfs_record_lock_remove_owner_range mount node owner lo hi splits (r # rs) =
     (if lock_of mount node owner r \<and> vfs_record_lock_overlap (rl_start r) (rl_end r) lo hi then
        if rl_start r < lo \<and> hi < rl_end r then
          (case splits of
             0 \<Rightarrow> None
           | Suc n \<Rightarrow>
               map_option (\<lambda>rs. r\<lparr>rl_end := lo\<rparr> # r\<lparr>rl_start := hi\<rparr> # rs) (vfs_record_lock_remove_owner_range mount node owner lo hi n rs))
        else if lo \<le> rl_start r \<and> hi \<ge> rl_end r then vfs_record_lock_remove_owner_range mount node owner lo hi splits rs
        else if lo \<le> rl_start r then
          map_option (\<lambda>rs. r\<lparr>rl_start := hi\<rparr> # rs) (vfs_record_lock_remove_owner_range mount node owner lo hi splits rs)
        else map_option (\<lambda>rs. r\<lparr>rl_end := lo\<rparr> # rs) (vfs_record_lock_remove_owner_range mount node owner lo hi splits rs)
      else map_option (\<lambda>rs. r # rs) (vfs_record_lock_remove_owner_range mount node owner lo hi splits rs))"

text \<open>Merging: the inner loop takes the later locks that touch \<open>left\<close> into it.\<close>

primrec merge_right :: "nat \<Rightarrow> nat \<Rightarrow> nat \<Rightarrow> record_lock \<Rightarrow> record_lock list \<Rightarrow> record_lock \<times> record_lock list" where
  "merge_right mount node owner left [] = (left, [])"
| "merge_right mount node owner left (r # rs) =
     (if lock_of mount node owner r \<and> rl_type r = rl_type left \<and> rl_end left \<ge> rl_start r \<and> rl_end r \<ge> rl_start left
      then merge_right mount node owner
             (left\<lparr>rl_start := (if rl_start r < rl_start left then rl_start r else rl_start left),
                   rl_end := (if rl_end r > rl_end left then rl_end r else rl_end left)\<rparr>) rs
      else let (left, rs) = merge_right mount node owner left rs in (left, r # rs))"

lemma merge_right_length: "length (snd (merge_right mount node owner left rs)) \<le> length rs"
  by (induction rs arbitrary: left) (auto simp: case_prod_beta intro: le_SucI)

function vfs_record_lock_coalesce :: "nat \<Rightarrow> nat \<Rightarrow> nat \<Rightarrow> record_lock list \<Rightarrow> record_lock list" where
  "vfs_record_lock_coalesce mount node owner [] = []"
| "vfs_record_lock_coalesce mount node owner (left # rs) =
     (if lock_of mount node owner left
      then let (left, rs) = merge_right mount node owner left rs in left # vfs_record_lock_coalesce mount node owner rs
      else left # vfs_record_lock_coalesce mount node owner rs)"
  by pat_completeness auto

termination
  by (relation "measure (\<lambda>(mount, node, owner, rs). length rs)")
    (auto simp: less_Suc_eq_le, metis merge_right_length snd_conv)

text \<open>Setting a lock (or removing it, type \<open>F_UNLCK\<close>): the allocations come first, \<open>memory\<close> is the number that succeed.  The
  outer option is the panic.\<close>

definition split_count :: "nat \<Rightarrow> nat \<Rightarrow> nat \<Rightarrow> nat \<Rightarrow> nat \<Rightarrow> record_lock list \<Rightarrow> nat" where
  "split_count mount node owner lo hi rs = length (filter (\<lambda>r. lock_of mount node owner r \<and> rl_start r < lo \<and> hi < rl_end r) rs)"

definition apply_lock ::
  "nat \<Rightarrow> nat \<Rightarrow> nat \<Rightarrow> int \<Rightarrow> nat \<Rightarrow> nat \<Rightarrow> nat \<Rightarrow> record_lock list \<Rightarrow> (record_lock list \<times> int) option" where
  "apply_lock mount node owner type lo hi memory rs =
     (let splits = split_count mount node owner lo hi rs in
      if splits > memory then Some (rs, VFS_ERROR_NO_MEMORY)
      else if type \<noteq> F_UNLCK \<and> Suc splits > memory then Some (rs, VFS_ERROR_NO_MEMORY)
      else
        (case vfs_record_lock_remove_owner_range mount node owner lo hi splits rs of
           None \<Rightarrow> None
         | Some rs \<Rightarrow>
             Some (if type \<noteq> F_UNLCK
                   then vfs_record_lock_coalesce mount node owner
                          (\<lparr>rl_mount = mount, rl_node = node, rl_owner = owner, rl_type = type, rl_start = lo, rl_end = hi\<rparr> # rs)
                   else rs, VFS_OK)))"

text \<open>The first lock of another group that stands in the way.\<close>

definition find_conflict :: "nat \<Rightarrow> nat \<Rightarrow> nat \<Rightarrow> int \<Rightarrow> nat \<Rightarrow> nat \<Rightarrow> record_lock list \<Rightarrow> record_lock option" where
  "find_conflict mount node owner type lo hi rs =
     (if type = F_UNLCK then None
      else find (\<lambda>r. vfs_record_lock_key_equal r mount node \<and> vfs_record_lock_conflicts r owner type lo hi) rs)"

section \<open>The locked bytes\<close>

text \<open>The abstract state: the type of the lock a group has on a byte of a file.\<close>

definition covers :: "record_lock \<Rightarrow> nat \<Rightarrow> bool" where
  "covers r b \<longleftrightarrow> rl_start r \<le> b \<and> b < rl_end r"

definition locked :: "record_lock list \<Rightarrow> nat \<Rightarrow> nat \<Rightarrow> nat \<Rightarrow> nat \<Rightarrow> int \<Rightarrow> bool" where
  "locked rs mount node owner b type \<longleftrightarrow> (\<exists>r\<in>set rs. lock_of mount node owner r \<and> covers r b \<and> rl_type r = type)"

text \<open>The invariant: ranges are not empty, the locks of one group on a file neither overlap nor, when of one type, touch,
  and locks of different groups conflict nowhere.\<close>

definition apart :: "record_lock \<Rightarrow> record_lock \<Rightarrow> bool" where
  "apart r t \<longleftrightarrow> (rl_mount r = rl_mount t \<and> rl_node r = rl_node t \<longrightarrow>
     (if rl_owner r = rl_owner t
      then if rl_type r = rl_type t then rl_end r < rl_start t \<or> rl_end t < rl_start r else rl_end r \<le> rl_start t \<or> rl_end t \<le> rl_start r
      else rl_type r = F_WRLCK \<or> rl_type t = F_WRLCK \<longrightarrow> rl_end r \<le> rl_start t \<or> rl_end t \<le> rl_start r))"

definition locks_wf :: "record_lock list \<Rightarrow> bool" where
  "locks_wf rs \<longleftrightarrow> (\<forall>r\<in>set rs. rl_start r < rl_end r \<and> rl_type r \<in> {F_RDLCK, F_WRLCK}) \<and> sorted_wrt apart rs"

section \<open>Removing a range\<close>

lemma lock_of_upd [simp]:
  "lock_of m n ow (r\<lparr>rl_start := a\<rparr>) = lock_of m n ow r" "lock_of m n ow (r\<lparr>rl_end := a\<rparr>) = lock_of m n ow r"
  by (simp_all add: lock_of_def vfs_record_lock_key_equal_def)

lemma apart_sym: "apart r t \<Longrightarrow> apart t r"
  by (auto simp: apart_def split: if_splits)

lemma apart_shrink:
  "apart r t \<Longrightarrow> rl_mount r' = rl_mount r \<Longrightarrow> rl_node r' = rl_node r \<Longrightarrow> rl_owner r' = rl_owner r \<Longrightarrow> rl_type r' = rl_type r
     \<Longrightarrow> rl_start r \<le> rl_start r' \<Longrightarrow> rl_end r' \<le> rl_end r \<Longrightarrow> apart r' t"
  unfolding apart_def by (auto split: if_splits)

text \<open>The panic is not reached: the nodes that were counted suffice.\<close>

lemma remove_owner_range_total:
  "split_count m n ow lo hi rs \<le> splits \<Longrightarrow> \<exists>rs'. vfs_record_lock_remove_owner_range m n ow lo hi splits rs = Some rs'"
  by (induction rs arbitrary: splits) (auto simp: split_count_def split: nat.splits if_splits)

text \<open>What the loop leaves of one lock: its parts before and after the range.\<close>

definition cut :: "nat \<Rightarrow> nat \<Rightarrow> nat \<Rightarrow> nat \<Rightarrow> nat \<Rightarrow> record_lock \<Rightarrow> record_lock list" where
  "cut m n ow lo hi r =
     (if lock_of m n ow r \<and> vfs_record_lock_overlap (rl_start r) (rl_end r) lo hi
      then (if rl_start r < lo then [r\<lparr>rl_end := lo\<rparr>] else []) @ (if hi < rl_end r then [r\<lparr>rl_start := hi\<rparr>] else [])
      else [r])"

lemma remove_owner_range_cut:
  "split_count m n ow lo hi rs \<le> splits \<Longrightarrow>
   vfs_record_lock_remove_owner_range m n ow lo hi splits rs = Some (concat (map (cut m n ow lo hi) rs))"
  by (induction rs arbitrary: splits) (auto simp: split_count_def cut_def split: nat.splits if_splits)

definition piece :: "record_lock \<Rightarrow> record_lock \<Rightarrow> bool" where
  "piece r' r \<longleftrightarrow> rl_mount r' = rl_mount r \<and> rl_node r' = rl_node r \<and> rl_owner r' = rl_owner r \<and> rl_type r' = rl_type r \<and>
     rl_start r \<le> rl_start r' \<and> rl_start r' < rl_end r' \<and> rl_end r' \<le> rl_end r"

lemma apart_piece: "apart r t \<Longrightarrow> piece r' r \<Longrightarrow> piece t' t \<Longrightarrow> apart r' t'"
  unfolding piece_def apart_def by (auto split: if_splits)

lemma cut_piece: "r' \<in> set (cut m n ow lo hi r) \<Longrightarrow> rl_start r < rl_end r \<Longrightarrow> lo < hi \<Longrightarrow> piece r' r"
  by (auto simp: cut_def piece_def vfs_record_lock_overlap_def split: if_splits)

lemma cut_clear:
  "r' \<in> set (cut m n ow lo hi r) \<Longrightarrow> lock_of m n ow r' \<Longrightarrow> \<not> vfs_record_lock_overlap (rl_start r') (rl_end r') lo hi"
  by (auto simp: cut_def vfs_record_lock_overlap_def split: if_splits)

lemma cut_apart: "lo < hi \<Longrightarrow> sorted_wrt apart (cut m n ow lo hi r)"
  by (simp add: cut_def apart_def)

lemma cuts_apart:
  "sorted_wrt apart rs \<Longrightarrow> \<forall>r\<in>set rs. rl_start r < rl_end r \<Longrightarrow> lo < hi \<Longrightarrow> sorted_wrt apart (concat (map (cut m n ow lo hi) rs))"
  by (induction rs) (auto simp: sorted_wrt_append cut_apart intro: apart_piece cut_piece)

lemma locked_Nil [simp]: "\<not> locked [] m n ow b ty"
  by (simp add: locked_def)

lemma locked_Cons [simp]: "locked (r # rs) m n ow b ty \<longleftrightarrow> (lock_of m n ow r \<and> covers r b \<and> rl_type r = ty) \<or> locked rs m n ow b ty"
  by (auto simp: locked_def)

lemma locked_append [simp]: "locked (rs @ ts) m n ow b ty \<longleftrightarrow> locked rs m n ow b ty \<or> locked ts m n ow b ty"
  by (auto simp: locked_def)

lemma cut_locked:
  "lo < hi \<Longrightarrow> locked (cut m n ow lo hi r) m' n' ow' b ty \<longleftrightarrow>
     locked [r] m' n' ow' b ty \<and> \<not> (m' = m \<and> n' = n \<and> ow' = ow \<and> lo \<le> b \<and> b < hi)"
  by (auto simp: cut_def covers_def vfs_record_lock_overlap_def lock_of_def vfs_record_lock_key_equal_def)

lemma cuts_locked:
  "lo < hi \<Longrightarrow> locked (concat (map (cut m n ow lo hi) rs)) m' n' ow' b ty \<longleftrightarrow>
     locked rs m' n' ow' b ty \<and> \<not> (m' = m \<and> n' = n \<and> ow' = ow \<and> lo \<le> b \<and> b < hi)"
  by (induction rs) (auto simp: cut_locked)

section \<open>Merging\<close>

definition nonempty :: "record_lock \<Rightarrow> bool" where
  "nonempty r \<longleftrightarrow> rl_start r < rl_end r \<and> rl_type r \<in> {F_RDLCK, F_WRLCK}"

text \<open>The lock \<open>left\<close> may touch the locks of its type that come later, and conflicts with nothing.\<close>

definition loose :: "record_lock \<Rightarrow> record_lock \<Rightarrow> bool" where
  "loose r t \<longleftrightarrow> (rl_mount r = rl_mount t \<and> rl_node r = rl_node t \<longrightarrow>
     (if rl_owner r = rl_owner t
      then rl_type r \<noteq> rl_type t \<longrightarrow> rl_end r \<le> rl_start t \<or> rl_end t \<le> rl_start r
      else rl_type r = F_WRLCK \<or> rl_type t = F_WRLCK \<longrightarrow> rl_end r \<le> rl_start t \<or> rl_end t \<le> rl_start r))"

definition touching :: "nat \<Rightarrow> nat \<Rightarrow> nat \<Rightarrow> record_lock \<Rightarrow> record_lock \<Rightarrow> bool" where
  "touching m n ow left r \<longleftrightarrow> lock_of m n ow r \<and> rl_type r = rl_type left \<and> rl_end left \<ge> rl_start r \<and> rl_end r \<ge> rl_start left"

definition merged :: "record_lock \<Rightarrow> record_lock \<Rightarrow> record_lock" where
  "merged left r = left\<lparr>rl_start := (if rl_start r < rl_start left then rl_start r else rl_start left),
                        rl_end := (if rl_end r > rl_end left then rl_end r else rl_end left)\<rparr>"

lemma merge_right_Cons:
  "merge_right m n ow left (r # rs) =
     (if touching m n ow left r then merge_right m n ow (merged left r) rs
      else (fst (merge_right m n ow left rs), r # snd (merge_right m n ow left rs)))"
  by (simp add: touching_def merged_def case_prod_beta)

lemma merged_simps [simp]:
  "lock_of m n ow (merged left r) = lock_of m n ow left" "rl_type (merged left r) = rl_type left"
  by (simp_all add: merged_def)

lemma merged_nonempty: "nonempty left \<Longrightarrow> nonempty r \<Longrightarrow> nonempty (merged left r)"
  by (auto simp: merged_def nonempty_def)

lemma merged_covers:
  "touching m n ow left r \<Longrightarrow> nonempty left \<Longrightarrow> nonempty r \<Longrightarrow> covers (merged left r) b \<longleftrightarrow> covers left b \<or> covers r b"
  by (auto simp: merged_def touching_def nonempty_def covers_def)

lemma merged_apart:
  assumes "touching m n ow left r" "lock_of m n ow left" "apart left t" "apart r t" "nonempty left" "nonempty r" "nonempty t"
  shows "apart (merged left r) t"
  using assms unfolding touching_def lock_of_def vfs_record_lock_key_equal_def apart_def nonempty_def merged_def
  by (auto split: if_splits)

lemma merged_loose:
  assumes "touching m n ow left r" "lock_of m n ow left" "loose left t" "apart r t" "nonempty left" "nonempty r" "nonempty t"
  shows "loose (merged left r) t"
  using assms unfolding touching_def lock_of_def vfs_record_lock_key_equal_def apart_def loose_def nonempty_def merged_def
  by (auto split: if_splits)

lemma loose_apart: "loose left t \<Longrightarrow> lock_of m n ow left \<Longrightarrow> \<not> touching m n ow left t \<Longrightarrow> apart left t"
  unfolding loose_def touching_def lock_of_def vfs_record_lock_key_equal_def apart_def by (auto split: if_splits)

lemma merge_right_subset: "set (snd (merge_right m n ow left rs)) \<subseteq> set rs"
  by (induction rs arbitrary: left) (auto simp: merge_right_Cons simp del: merge_right.simps(2))

lemma merge_right_lock_of: "lock_of m' n' ow' (fst (merge_right m n ow left rs)) = lock_of m' n' ow' left"
  by (induction rs arbitrary: left) (simp_all add: case_prod_beta lock_of_def vfs_record_lock_key_equal_def)

lemma merge_right_nonempty: "nonempty left \<Longrightarrow> \<forall>r\<in>set rs. nonempty r \<Longrightarrow> nonempty (fst (merge_right m n ow left rs))"
  by (induction rs arbitrary: left) (auto simp: merge_right_Cons merged_nonempty simp del: merge_right.simps(2))

lemma merge_right_sorted: "sorted_wrt apart rs \<Longrightarrow> sorted_wrt apart (snd (merge_right m n ow left rs))"
  using merge_right_subset
  by (induction rs arbitrary: left) (fastforce simp: merge_right_Cons simp del: merge_right.simps(2))+

text \<open>A lock that was passed over stays apart from the growing one, and the growing one ends apart from all that stay.\<close>

lemma merge_right_passed:
  "lock_of m n ow left \<Longrightarrow> nonempty left \<Longrightarrow> \<forall>r\<in>set rs. nonempty r \<and> apart r p \<Longrightarrow> nonempty p \<Longrightarrow> apart left p
     \<Longrightarrow> apart (fst (merge_right m n ow left rs)) p"
proof (induction rs arbitrary: left)
  case (Cons r rs)
  show ?case
  proof (cases "touching m n ow left r")
    case True
    have "apart (merged left r) p"
      using Cons.prems by (intro merged_apart [OF True]) auto
    then show ?thesis
      using Cons.prems True by (simp add: merge_right_Cons Cons.IH merged_nonempty del: merge_right.simps)
  qed (use Cons in \<open>simp add: merge_right_Cons del: merge_right.simps\<close>)
qed simp

lemma merge_right_apart:
  "lock_of m n ow left \<Longrightarrow> nonempty left \<Longrightarrow> \<forall>r\<in>set rs. nonempty r \<and> loose left r \<Longrightarrow> sorted_wrt apart rs
     \<Longrightarrow> \<forall>r\<in>set (snd (merge_right m n ow left rs)). apart (fst (merge_right m n ow left rs)) r"
proof (induction rs arbitrary: left)
  case (Cons r rs)
  show ?case
  proof (cases "touching m n ow left r")
    case True
    then show ?thesis
      using Cons.prems by (simp add: merge_right_Cons Cons.IH merged_nonempty merged_loose del: merge_right.simps)
  next
    case False
    have "apart (fst (merge_right m n ow left rs)) r"
      using Cons.prems False by (intro merge_right_passed) (auto intro: loose_apart apart_sym)
    then show ?thesis
      using Cons.prems False by (simp add: merge_right_Cons Cons.IH del: merge_right.simps)
  qed
qed simp

lemma merge_right_locked:
  "lock_of m n ow left \<Longrightarrow> nonempty left \<Longrightarrow> \<forall>r\<in>set rs. nonempty r
     \<Longrightarrow> locked (fst (merge_right m n ow left rs) # snd (merge_right m n ow left rs)) m' n' ow' b ty \<longleftrightarrow> locked (left # rs) m' n' ow' b ty"
proof (induction rs arbitrary: left)
  case (Cons r rs)
  show ?case
  proof (cases "touching m n ow left r")
    case True
    have "rl_type r = rl_type left" "lock_of m' n' ow' r \<longleftrightarrow> lock_of m' n' ow' left"
      using True Cons.prems(1) by (auto simp: touching_def lock_of_def vfs_record_lock_key_equal_def)
    then show ?thesis
      using Cons.prems Cons.IH [of "merged left r"] True
      by (auto simp: merge_right_Cons merged_nonempty merged_covers simp del: merge_right.simps)
  next
    case False
    then show ?thesis
      using Cons.prems Cons.IH [of left] by (auto simp: merge_right_Cons simp del: merge_right.simps)
  qed
qed simp

text \<open>Locks that are apart are not merged.\<close>

lemma apart_not_touching: "apart left r \<Longrightarrow> lock_of m n ow left \<Longrightarrow> nonempty left \<Longrightarrow> nonempty r \<Longrightarrow> \<not> touching m n ow left r"
  unfolding apart_def lock_of_def vfs_record_lock_key_equal_def touching_def nonempty_def by (auto split: if_splits)

lemma merge_right_same:
  "lock_of m n ow left \<Longrightarrow> nonempty left \<Longrightarrow> \<forall>r\<in>set rs. nonempty r \<and> apart left r \<Longrightarrow> merge_right m n ow left rs = (left, rs)"
  by (induction rs) (auto simp: merge_right_Cons apart_not_touching simp del: merge_right.simps(2))

lemma locks_wf_alt: "locks_wf rs \<longleftrightarrow> (\<forall>r\<in>set rs. nonempty r) \<and> sorted_wrt apart rs"
  by (simp add: locks_wf_def nonempty_def)

lemma coalesce_same: "locks_wf rs \<Longrightarrow> vfs_record_lock_coalesce m n ow rs = rs"
  by (induction rs) (auto simp: locks_wf_alt merge_right_same)

text \<open>A new lock in front of the list is merged with its neighbours.\<close>

lemma coalesce_new:
  assumes "lock_of m n ow left" "nonempty left" "locks_wf rs" "\<forall>r\<in>set rs. loose left r"
  shows "locks_wf (vfs_record_lock_coalesce m n ow (left # rs))"
    and "locked (vfs_record_lock_coalesce m n ow (left # rs)) m' n' ow' b ty \<longleftrightarrow> locked (left # rs) m' n' ow' b ty"
proof -
  let ?l = "fst (merge_right m n ow left rs)" and ?r = "snd (merge_right m n ow left rs)"
  have rs: "\<forall>r\<in>set rs. nonempty r" "sorted_wrt apart rs"
    using assms(3) by (auto simp: locks_wf_alt)
  have r: "locks_wf ?r"
    using rs merge_right_subset [of m n ow left rs] merge_right_sorted [OF rs(2)] by (auto simp: locks_wf_alt)
  have eq: "vfs_record_lock_coalesce m n ow (left # rs) = ?l # ?r"
    using assms(1) coalesce_same [OF r] by (simp add: case_prod_beta)
  show "locks_wf (vfs_record_lock_coalesce m n ow (left # rs))"
    unfolding eq using r merge_right_nonempty [OF assms(2) rs(1)] merge_right_apart [OF assms(1,2) _ rs(2)] rs assms(4)
    by (simp add: locks_wf_alt)
  show "locked (vfs_record_lock_coalesce m n ow (left # rs)) m' n' ow' b ty \<longleftrightarrow> locked (left # rs) m' n' ow' b ty"
    unfolding eq by (rule merge_right_locked [OF assms(1,2) rs(1)])
qed

section \<open>Setting a lock\<close>

lemma apply_lock_exact:
  assumes "locks_wf rs" "lo < hi" "type \<in> {F_RDLCK, F_WRLCK, F_UNLCK}" "find_conflict m n ow type lo hi rs = None"
  shows "\<exists>rs' st. apply_lock m n ow type lo hi memory rs = Some (rs', st) \<and> locks_wf rs' \<and>
      (if st = VFS_OK
       then \<forall>m' n' ow' b ty. locked rs' m' n' ow' b ty \<longleftrightarrow>
              (if m' = m \<and> n' = n \<and> ow' = ow \<and> lo \<le> b \<and> b < hi then type \<noteq> F_UNLCK \<and> ty = type else locked rs m' n' ow' b ty)
       else st = VFS_ERROR_NO_MEMORY \<and> rs' = rs)"
proof -
  let ?k = "split_count m n ow lo hi rs" and ?rs = "concat (map (cut m n ow lo hi) rs)"
  let ?new = "\<lparr>rl_mount = m, rl_node = n, rl_owner = ow, rl_type = type, rl_start = lo, rl_end = hi\<rparr>"
  have rs: "\<forall>r\<in>set rs. rl_start r < rl_end r" "sorted_wrt apart rs" "\<forall>r\<in>set rs. rl_type r \<in> {F_RDLCK, F_WRLCK}"
    using assms(1) by (auto simp: locks_wf_def)
  have pc: "\<exists>r\<in>set rs. piece r' r" if "r' \<in> set ?rs" for r'
    using that rs(1) cut_piece [OF _ _ assms(2)] by fastforce
  have wf: "locks_wf ?rs"
    using pc rs cuts_apart [OF rs(2,1) assms(2)] by (fastforce simp: locks_wf_def piece_def)
  have rem: "vfs_record_lock_remove_owner_range m n ow lo hi ?k rs = Some ?rs"
    by (rule remove_owner_range_cut) simp
  show ?thesis
  proof (cases "?k > memory \<or> type \<noteq> F_UNLCK \<and> Suc ?k > memory")
    case True
    then show ?thesis
      using assms(1) by (auto simp: apply_lock_def Let_def)
  next
    case mem: False
    show ?thesis
    proof (cases "type = F_UNLCK")
      case True
      then show ?thesis
        using mem wf by (auto simp: apply_lock_def Let_def rem cuts_locked [OF assms(2)])
    next
      case False
      have new: "lock_of m n ow ?new" "nonempty ?new"
        using assms(2,3) False by (auto simp: lock_of_def vfs_record_lock_key_equal_def nonempty_def)
      have loose: "loose ?new r'" if r': "r' \<in> set ?rs" for r'
      proof (cases "rl_owner r' = ow")
        case True
        obtain r where "r' \<in> set (cut m n ow lo hi r)"
          using r' by auto
        then show ?thesis
          using True cut_clear [of r' m n ow lo hi r]
          by (auto simp: loose_def lock_of_def vfs_record_lock_key_equal_def vfs_record_lock_overlap_def not_less)
      next
        case other: False
        obtain r where r: "r \<in> set rs" "piece r' r"
          using pc [OF r'] by auto
        have "\<not> (vfs_record_lock_key_equal r m n \<and> vfs_record_lock_conflicts r ow type lo hi)"
          using assms(4) False r(1) by (auto simp: find_conflict_def find_None_iff)
        then show ?thesis
          using r(2) other by (auto simp: loose_def piece_def vfs_record_lock_key_equal_def vfs_record_lock_conflicts_def
              vfs_record_lock_overlap_def)
      qed
      have eq: "apply_lock m n ow type lo hi memory rs = Some (vfs_record_lock_coalesce m n ow (?new # ?rs), VFS_OK)"
        using mem False by (simp add: apply_lock_def Let_def rem)
      have "locked (vfs_record_lock_coalesce m n ow (?new # ?rs)) m' n' ow' b ty \<longleftrightarrow>
              (if m' = m \<and> n' = n \<and> ow' = ow \<and> lo \<le> b \<and> b < hi then ty = type else locked rs m' n' ow' b ty)" for m' n' ow' b ty
        using coalesce_new(2) [OF new wf, of m' n' ow' b ty] loose
        by (auto simp: cuts_locked [OF assms(2)] lock_of_def vfs_record_lock_key_equal_def covers_def)
      then show ?thesis
        unfolding eq using coalesce_new(1) [OF new wf] loose False by auto
    qed
  qed
qed

end
