(* ===== verification/RecordLockOps.thy ===== *)
theory RecordLockOps
  imports RecordLock IoPollProps
begin

text \<open>
  The operations on record locks of \<^verbatim>\<open>kernel/fs/vfs.c\<close>: \<open>fcntl\<close> on a handle, the closing of a descriptor, the end of a task
  and of a mount, with the waiters and the references they hold on mounts.  A waiter lies on the stack of its task, which
  has at most one; it is known by the task, and its field \<open>previous\<close> is not NULL when it is in \<open>rs_waiters\<close>.  The outer
  option is a panic or an access to a mount that was freed.
\<close>

section \<open>State\<close>

record rl_waiter =
  wt_mount :: nat
  wt_node :: nat
  wt_task :: nat

record vfs_mount =
  vm_references :: nat
  vm_retired :: bool
  vm_destroyed :: bool

record rl_state =
  rs_kernel :: kernel
  rs_locks :: "record_lock list"
  rs_waiters :: "rl_waiter list"
  rs_mounts :: "nat \<Rightarrow> vfs_mount"

abbreviation VFS_OPEN_READ :: u32 where "VFS_OPEN_READ \<equiv> 1"
abbreviation VFS_OPEN_WRITE :: u32 where "VFS_OPEN_WRITE \<equiv> 2"

text \<open>What a handle that is not a pipe says of its file.\<close>

record vfs_dentry =
  de_mount :: nat
  de_node :: nat
  de_file :: bool
  de_size :: u32

record vfs_file_handle =
  fh_pipe :: bool
  fh_dentry :: "vfs_dentry option"
  fh_offset :: u32
  fh_flags :: u32

section \<open>Mounts and waiters\<close>

definition vfs_mount_reference :: "nat \<Rightarrow> rl_state \<Rightarrow> rl_state" where
  "vfs_mount_reference m s =
     s\<lparr>rs_mounts := (rs_mounts s)(m := (rs_mounts s m)\<lparr>vm_references := vm_references (rs_mounts s m) + 1\<rparr>)\<rparr>"

definition rl_run :: "nat \<Rightarrow> rl_state \<Rightarrow> rl_state" where
  "rl_run t s = s\<lparr>rs_kernel := task_run t (rs_kernel s)\<rparr>"

definition wake_waiters :: "(rl_waiter \<Rightarrow> bool) \<Rightarrow> rl_state \<Rightarrow> rl_state" where
  "wake_waiters P s = fold (\<lambda>w s. if P w then rl_run (wt_task w) s else s) (rs_waiters s) s"

definition vfs_record_lock_wake_key :: "nat \<Rightarrow> nat \<Rightarrow> rl_state \<Rightarrow> rl_state" where
  "vfs_record_lock_wake_key m n = wake_waiters (\<lambda>w. wt_mount w = m \<and> wt_node w = n)"

definition vfs_record_lock_wake_mount :: "nat \<Rightarrow> rl_state \<Rightarrow> rl_state" where
  "vfs_record_lock_wake_mount m = wake_waiters (\<lambda>w. wt_mount w = m)"

definition vfs_record_lock_mount_cleanup :: "nat \<Rightarrow> rl_state \<Rightarrow> rl_state" where
  "vfs_record_lock_mount_cleanup m s = vfs_record_lock_wake_mount m (s\<lparr>rs_locks := filter (\<lambda>r. rl_mount r \<noteq> m) (rs_locks s)\<rparr>)"

text \<open>The end of the last reference to a retired mount frees it; of \<open>vfs_destroy_mount\<close> the part on the locks.\<close>

definition vfs_destroy_mount :: "nat \<Rightarrow> rl_state \<Rightarrow> rl_state" where
  "vfs_destroy_mount m s =
     (let s = vfs_record_lock_mount_cleanup m s
      in s\<lparr>rs_mounts := (rs_mounts s)(m := (rs_mounts s m)\<lparr>vm_destroyed := True\<rparr>)\<rparr>)"

definition vfs_mount_release :: "nat \<Rightarrow> rl_state \<Rightarrow> rl_state option" where
  "vfs_mount_release m s =
     (if vm_references (rs_mounts s m) = 0 then None
      else
        (let s = s\<lparr>rs_mounts := (rs_mounts s)(m := (rs_mounts s m)\<lparr>vm_references := vm_references (rs_mounts s m) - 1\<rparr>)\<rparr> in
         Some (if vm_references (rs_mounts s m) = 0 \<and> vm_retired (rs_mounts s m) then vfs_destroy_mount m s else s)))"

definition waiter_linked :: "nat \<Rightarrow> rl_state \<Rightarrow> rl_waiter option" where
  "waiter_linked t s = find (\<lambda>w. wt_task w = t) (rs_waiters s)"

definition vfs_record_lock_waiter_remove :: "rl_waiter \<Rightarrow> rl_state \<Rightarrow> rl_state option" where
  "vfs_record_lock_waiter_remove w s = vfs_mount_release (wt_mount w) (s\<lparr>rs_waiters := remove1 w (rs_waiters s)\<rparr>)"

definition vfs_record_lock_waiter_add :: "nat \<Rightarrow> nat \<Rightarrow> nat \<Rightarrow> rl_state \<Rightarrow> rl_state" where
  "vfs_record_lock_waiter_add t m n s =
     vfs_mount_reference m (s\<lparr>rs_waiters := \<lparr>wt_mount = m, wt_node = n, wt_task = t\<rparr> # rs_waiters s\<rparr>)"

section \<open>fcntl\<close>

definition vfs_record_lock_apply :: "nat \<Rightarrow> nat \<Rightarrow> nat \<Rightarrow> int \<Rightarrow> nat \<Rightarrow> nat \<Rightarrow> nat \<Rightarrow> rl_state \<Rightarrow> (rl_state \<times> int) option" where
  "vfs_record_lock_apply m n ow type lo hi memory s =
     (case apply_lock m n ow type lo hi memory (rs_locks s) of
        None \<Rightarrow> None
      | Some (rs, status) \<Rightarrow>
          if status = VFS_OK then Some (vfs_record_lock_wake_key m n (s\<lparr>rs_locks := rs\<rparr>), VFS_OK) else Some (s, status))"

definition rl_interrupted :: "rl_state \<Rightarrow> bool" where
  "rl_interrupted s =
     (let self = tsk (rs_kernel s) (current_tid (rs_kernel s)) in t_pending self AND NOT (t_blocked self) \<noteq> 0)"

definition rl_owner_now :: "rl_state \<Rightarrow> nat" where
  "rl_owner_now s = t_tgid (tsk (rs_kernel s) (current_tid (rs_kernel s)))"

text \<open>The answer of \<open>F_GETLK\<close>.\<close>

definition describe_conflict :: "record_lock option \<Rightarrow> nat \<Rightarrow> nat \<Rightarrow> flock \<Rightarrow> flock" where
  "describe_conflict conflict lo hi request =
     (case conflict of
        Some r \<Rightarrow> vfs_record_lock_describe r request
      | None \<Rightarrow> request\<lparr>l_type := F_UNLCK, l_whence := SEEK_SET, l_start := to_int64 lo,
                        l_len := (if hi = U64_MAX then 0 else to_int64 (hi - lo)), l_pid := 0\<rparr>)"

definition rl_block :: "rl_state \<Rightarrow> rl_state \<times> bool" where
  "rl_block s = (case task_fall_blocked_reason WAITING WR_LOCK (rs_kernel s) of
     (k, Done _) \<Rightarrow> (s\<lparr>rs_kernel := k\<rparr>, False)
   | (k, _) \<Rightarrow> (s\<lparr>rs_kernel := k\<rparr>, True))"

text \<open>After the wait: the waiter leaves the list, unless it was taken out already.\<close>

definition rl_unlink_self :: "nat \<Rightarrow> rl_state \<Rightarrow> rl_state option" where
  "rl_unlink_self t s = (case waiter_linked t s of None \<Rightarrow> Some s | Some w \<Rightarrow> vfs_record_lock_waiter_remove w s)"

text \<open>One iteration of the loop of \<open>vfs_record_lock_operation\<close>.  \<open>Switch\<close>: the task sleeps, and \<open>rl_resume\<close> follows;
  \<open>Retry\<close>: it was woken before it could sleep and goes on at once.\<close>

definition rl_round :: "nat \<Rightarrow> nat \<Rightarrow> int \<Rightarrow> nat \<Rightarrow> nat \<Rightarrow> nat \<Rightarrow> flock \<Rightarrow> rl_state \<Rightarrow> (rl_state \<times> flock \<times> int outcome) option" where
  "rl_round m n command lo hi memory request s =
     (let self = current_tid (rs_kernel s); owner = rl_owner_now s in
      if vm_destroyed (rs_mounts s m) then None
      else if vm_retired (rs_mounts s m) then Some (s, request, Done VFS_ERROR_IO)
      else
        (let conflict = find_conflict m n owner (l_type request) lo hi (rs_locks s) in
         if command = F_GETLK then Some (s, describe_conflict conflict lo hi request, Done VFS_OK)
         else if conflict = None then
           (case vfs_record_lock_apply m n owner (l_type request) lo hi memory s of
              None \<Rightarrow> None
            | Some (s, status) \<Rightarrow> Some (s, request, Done status))
         else if command = F_SETLK \<or> rl_interrupted s
         then Some (s, request, Done (if command = F_SETLK then VFS_ERROR_AGAIN else VFS_ERROR_INTERRUPTED))
         else
           (let s = (if waiter_linked self s = None then vfs_record_lock_waiter_add self m n s else s) in
            case rl_block s of
              (s, True) \<Rightarrow> Some (s, request, Switch)
            | (s, False) \<Rightarrow> (case rl_unlink_self self s of None \<Rightarrow> None | Some s \<Rightarrow> Some (s, request, Retry)))))"

definition rl_resume :: "nat \<Rightarrow> nat \<Rightarrow> int \<Rightarrow> nat \<Rightarrow> nat \<Rightarrow> nat \<Rightarrow> flock \<Rightarrow> rl_state \<Rightarrow> (rl_state \<times> flock \<times> int outcome) option" where
  "rl_resume m n command lo hi memory request s =
     (case rl_unlink_self (current_tid (rs_kernel s)) s of
        None \<Rightarrow> None
      | Some s \<Rightarrow> rl_round m n command lo hi memory request s)"

text \<open>The checks before the loop: the file and the range, or the error.\<close>

definition rl_request :: "vfs_file_handle \<Rightarrow> flock \<Rightarrow> int + nat \<times> nat \<times> nat \<times> nat" where
  "rl_request handle request =
     (case fh_dentry handle of
        None \<Rightarrow> Inl VFS_ERROR_NOT_SEEKABLE
      | Some d \<Rightarrow>
          if fh_pipe handle \<or> \<not> de_file d then Inl VFS_ERROR_NOT_SEEKABLE
          else if l_type request \<noteq> F_RDLCK \<and> l_type request \<noteq> F_WRLCK \<and> l_type request \<noteq> F_UNLCK then Inl VFS_ERROR_INVALID
          else if l_type request = F_RDLCK \<and> fh_flags handle AND VFS_OPEN_READ = 0 then Inl VFS_ERROR_ACCESS
          else if l_type request = F_WRLCK \<and> fh_flags handle AND VFS_OPEN_WRITE = 0 then Inl VFS_ERROR_ACCESS
          else case vfs_record_lock_normalize_range (fh_offset handle) (de_size d) request of
                 Inl e \<Rightarrow> Inl e
               | Inr (lo, hi) \<Rightarrow> Inr (de_mount d, de_node d, lo, hi))"

definition vfs_record_lock_operation ::
  "vfs_file_handle \<Rightarrow> int \<Rightarrow> flock \<Rightarrow> nat \<Rightarrow> rl_state \<Rightarrow> (rl_state \<times> flock \<times> int outcome) option" where
  "vfs_record_lock_operation handle command request memory s =
     (case rl_request handle request of
        Inl e \<Rightarrow> Some (s, request, Done e)
      | Inr (m, n, lo, hi) \<Rightarrow> rl_round m n command lo hi memory request s)"

section \<open>Ends\<close>

definition vfs_record_lock_close :: "nat \<Rightarrow> vfs_file_handle option \<Rightarrow> rl_state \<Rightarrow> rl_state" where
  "vfs_record_lock_close owner handle s =
     (case handle of
        None \<Rightarrow> s
      | Some h \<Rightarrow>
          (case fh_dentry h of
             None \<Rightarrow> s
           | Some d \<Rightarrow>
               if fh_pipe h then s
               else vfs_record_lock_wake_key (de_mount d) (de_node d)
                      (s\<lparr>rs_locks := filter (\<lambda>r. \<not> lock_of (de_mount d) (de_node d) owner r) (rs_locks s)\<rparr>)))"

primrec remove_waiters :: "(rl_state \<Rightarrow> rl_waiter \<Rightarrow> bool) \<Rightarrow> (rl_waiter \<Rightarrow> rl_state \<Rightarrow> rl_state option) \<Rightarrow> rl_waiter list \<Rightarrow> rl_state \<Rightarrow> rl_state option" where
  "remove_waiters P f [] s = Some s"
| "remove_waiters P f (w # ws) s =
     (if P s w then (case f w s of None \<Rightarrow> None | Some s \<Rightarrow> remove_waiters P f ws s) else remove_waiters P f ws s)"

definition vfs_record_lock_cancel_task :: "nat option \<Rightarrow> rl_state \<Rightarrow> rl_state option" where
  "vfs_record_lock_cancel_task task s =
     (case task of
        None \<Rightarrow> Some s
      | Some t \<Rightarrow> remove_waiters (\<lambda>s w. wt_task w = t) vfs_record_lock_waiter_remove (rs_waiters s) s)"

text \<open>The locks of a group go one by one, each with a wake-up for its file, and then the group's waiters.\<close>

primrec drop_owner_locks :: "nat \<Rightarrow> record_lock list \<Rightarrow> rl_state \<Rightarrow> rl_state" where
  "drop_owner_locks owner [] s = s"
| "drop_owner_locks owner (r # rs) s =
     (if rl_owner r = owner
      then drop_owner_locks owner rs (vfs_record_lock_wake_key (rl_mount r) (rl_node r) (s\<lparr>rs_locks := remove1 r (rs_locks s)\<rparr>))
      else drop_owner_locks owner rs s)"

definition vfs_record_lock_task_cleanup :: "nat \<Rightarrow> rl_state \<Rightarrow> rl_state option" where
  "vfs_record_lock_task_cleanup owner s =
     (let s = drop_owner_locks owner (rs_locks s) s in
      remove_waiters (\<lambda>s w. t_tgid (tsk (rs_kernel s) (wt_task w)) = owner)
        (\<lambda>w s. vfs_record_lock_waiter_remove w (rl_run (wt_task w) s)) (rs_waiters s) s)"

section \<open>Waking\<close>

definition asleep :: "kernel \<Rightarrow> nat \<Rightarrow> bool" where
  "asleep k t \<longleftrightarrow> t_state (tsk k t) \<in> {WAITING, SLEEPING}"

lemma run_all_slots [simp]: "slot_count (fold task_run ts k) = slot_count k"
  by (induction ts arbitrary: k) simp_all

lemma task_run_tgid: "t < slot_count k \<Longrightarrow> t_tgid (tsk (task_run t k) u) = t_tgid (tsk k u)"
  using wake_frame_task_run [of t k] by (auto simp: wake_frame_def dest!: spec [of _ u] id_viewD(4))

lemma run_all_tgid: "\<forall>t\<in>set ts. t < slot_count k \<Longrightarrow> t_tgid (tsk (fold task_run ts k) u) = t_tgid (tsk k u)"
  by (induction ts arbitrary: k) (simp_all add: task_run_tgid)

lemma run_all_other: "\<forall>t\<in>set ts. t < slot_count k \<Longrightarrow> u \<notin> set ts \<Longrightarrow> tsk (fold task_run ts k) u = tsk k u"
  by (induction ts arbitrary: k) (simp_all add: tsk_task_run_other)

lemma task_run_not_asleep: "t < slot_count k \<Longrightarrow> \<not> asleep (task_run t k) t"
  using task_run_blocked [of t k] by (auto simp: asleep_def task_run_def Let_def tsk_scheduler_place_task tsk_task_set_state)

lemma run_all_asleep:
  "\<forall>t\<in>set ts. t < slot_count k \<Longrightarrow> asleep (fold task_run ts k) u \<longleftrightarrow> asleep k u \<and> u \<notin> set ts"
proof (induction ts arbitrary: k)
  case (Cons t ts)
  have "asleep (task_run t k) u \<longleftrightarrow> asleep k u \<and> u \<noteq> t"
    using Cons.prems task_run_not_asleep [of t k] tsk_task_run_other [of u t k] by (cases "u = t") (auto simp: asleep_def)
  then show ?case
    using Cons by auto
qed simp

lemma wake_waiters_run: "wake_waiters P s = s\<lparr>rs_kernel := fold task_run (map wt_task (filter P (rs_waiters s))) (rs_kernel s)\<rparr>"
proof -
  have "fold (\<lambda>w s. if P w then rl_run (wt_task w) s else s) ws s =
          s\<lparr>rs_kernel := fold task_run (map wt_task (filter P ws)) (rs_kernel s)\<rparr>" for ws
    by (induction ws arbitrary: s) (simp_all add: rl_run_def)
  then show ?thesis
    by (simp add: wake_waiters_def)
qed

lemma wake_waiters_fields [simp]:
  "rs_locks (wake_waiters P s) = rs_locks s" "rs_waiters (wake_waiters P s) = rs_waiters s" "rs_mounts (wake_waiters P s) = rs_mounts s"
  "slot_count (rs_kernel (wake_waiters P s)) = slot_count (rs_kernel s)"
  by (simp_all add: wake_waiters_run)

text \<open>The waiters are tasks of the registry.\<close>

definition waiters_in_range :: "rl_state \<Rightarrow> bool" where
  "waiters_in_range s \<longleftrightarrow> (\<forall>w\<in>set (rs_waiters s). wt_task w < slot_count (rs_kernel s))"

lemma wake_waiters_tgid: "waiters_in_range s \<Longrightarrow> t_tgid (tsk (rs_kernel (wake_waiters P s)) u) = t_tgid (tsk (rs_kernel s) u)"
  by (simp add: wake_waiters_run waiters_in_range_def run_all_tgid)

lemma wake_waiters_asleep:
  "waiters_in_range s \<Longrightarrow>
     asleep (rs_kernel (wake_waiters P s)) u \<longleftrightarrow> asleep (rs_kernel s) u \<and> (\<forall>w\<in>set (rs_waiters s). P w \<longrightarrow> wt_task w \<noteq> u)"
  by (subst wake_waiters_run) (auto simp: waiters_in_range_def run_all_asleep)

section \<open>The invariant\<close>

definition mount_waiters :: "nat \<Rightarrow> rl_state \<Rightarrow> nat" where
  "mount_waiters m s = length (filter (\<lambda>w. wt_mount w = m) (rs_waiters s))"

definition mount_ok :: "nat \<Rightarrow> rl_state \<Rightarrow> bool" where
  "mount_ok m s \<longleftrightarrow> mount_waiters m s \<le> vm_references (rs_mounts s m)
     \<and> (vm_destroyed (rs_mounts s m) \<longrightarrow> vm_references (rs_mounts s m) = 0 \<and> (\<forall>r\<in>set (rs_locks s). rl_mount r \<noteq> m))"

definition rl_wf :: "rl_state \<Rightarrow> bool" where
  "rl_wf s \<longleftrightarrow> locks_wf (rs_locks s) \<and> distinct (map wt_task (rs_waiters s)) \<and> waiters_in_range s \<and> (\<forall>m. mount_ok m s)"

text \<open>A mount that someone besides the waiters holds, as an open handle does.\<close>

definition rl_held :: "nat \<Rightarrow> rl_state \<Rightarrow> bool" where
  "rl_held m s \<longleftrightarrow> mount_waiters m s < vm_references (rs_mounts s m)"

lemma rl_wfI:
  "locks_wf (rs_locks s) \<Longrightarrow> distinct (map wt_task (rs_waiters s)) \<Longrightarrow> waiters_in_range s \<Longrightarrow> (\<And>m. mount_ok m s) \<Longrightarrow> rl_wf s"
  by (simp add: rl_wf_def)

lemma rl_wfD:
  assumes "rl_wf s"
  shows "locks_wf (rs_locks s)" "distinct (map wt_task (rs_waiters s))" "waiters_in_range s" "mount_ok m s"
  using assms by (simp_all add: rl_wf_def)

lemma waiters_cong:
  "rs_waiters s' = rs_waiters s \<Longrightarrow> mount_waiters m s' = mount_waiters m s"
  "rs_waiters s' = rs_waiters s \<Longrightarrow> slot_count (rs_kernel s) \<le> slot_count (rs_kernel s') \<Longrightarrow> waiters_in_range s \<Longrightarrow> waiters_in_range s'"
  by (auto simp: mount_waiters_def waiters_in_range_def)

lemma rl_wf_cong:
  assumes "rl_wf s" "rs_locks s' = rs_locks s" "rs_waiters s' = rs_waiters s" "rs_mounts s' = rs_mounts s"
    "slot_count (rs_kernel s) \<le> slot_count (rs_kernel s')"
  shows "rl_wf s'"
  using assms rl_wfD [OF assms(1)] waiters_cong [OF assms(3)] by (intro rl_wfI) (simp_all add: mount_ok_def)

lemma locks_wf_filter: "locks_wf rs \<Longrightarrow> locks_wf (filter P rs)"
  by (auto simp: locks_wf_def sorted_wrt_filter)

text \<open>A change of the list of locks that adds none on a freed mount.\<close>

lemma rl_wf_locks:
  assumes "rl_wf s" "locks_wf rs" "\<And>r. r \<in> set rs \<Longrightarrow> \<not> vm_destroyed (rs_mounts s (rl_mount r))"
  shows "rl_wf (s\<lparr>rs_locks := rs\<rparr>)"
  using assms rl_wfD [OF assms(1)] by (intro rl_wfI) (auto simp: mount_ok_def mount_waiters_def waiters_in_range_def)

lemma lock_mount_alive: "rl_wf s \<Longrightarrow> r \<in> set (rs_locks s) \<Longrightarrow> \<not> vm_destroyed (rs_mounts s (rl_mount r))"
  using rl_wfD(4) by (fastforce simp: mount_ok_def)

lemma rl_wf_fewer_locks: "rl_wf s \<Longrightarrow> rl_wf (s\<lparr>rs_locks := filter P (rs_locks s)\<rparr>)"
  by (intro rl_wf_locks) (auto intro: locks_wf_filter rl_wfD dest: lock_mount_alive)

lemma rl_wf_wake: "rl_wf s \<Longrightarrow> rl_wf (wake_waiters P s)"
  by (erule rl_wf_cong) simp_all

lemma mount_cleanup_fields [simp]:
  "rs_locks (vfs_record_lock_mount_cleanup m s) = filter (\<lambda>r. rl_mount r \<noteq> m) (rs_locks s)"
  "rs_waiters (vfs_record_lock_mount_cleanup m s) = rs_waiters s" "rs_mounts (vfs_record_lock_mount_cleanup m s) = rs_mounts s"
  "slot_count (rs_kernel (vfs_record_lock_mount_cleanup m s)) = slot_count (rs_kernel s)"
  by (simp_all add: vfs_record_lock_mount_cleanup_def vfs_record_lock_wake_mount_def)

text \<open>Releasing a reference: the fields after it, and the invariant when the waiters keep theirs.\<close>

lemma mount_release_fields:
  assumes "vfs_mount_release m s = Some s'"
  shows "rs_waiters s' = rs_waiters s" "slot_count (rs_kernel s') = slot_count (rs_kernel s)"
    "vm_references (rs_mounts s' n) = vm_references (rs_mounts s n) - (if n = m then 1 else 0)"
    "vm_retired (rs_mounts s' n) = vm_retired (rs_mounts s n)"
    "vm_destroyed (rs_mounts s' n) \<longleftrightarrow>
       vm_destroyed (rs_mounts s n) \<or> (n = m \<and> vm_references (rs_mounts s m) = 1 \<and> vm_retired (rs_mounts s m))"
    "rs_locks s' = filter (\<lambda>r. \<not> (rl_mount r = m \<and> vm_references (rs_mounts s m) = 1 \<and> vm_retired (rs_mounts s m))) (rs_locks s)"
  using assms by (auto simp: vfs_mount_release_def vfs_destroy_mount_def Let_def split: if_splits)

lemma mount_release_wf:
  assumes "vfs_mount_release m s = Some s'" "rl_wf s" "rl_held m s"
  shows "rl_wf s'"
proof (rule rl_wfI)
  note f = mount_release_fields [OF assms(1)] and wf = rl_wfD [OF assms(2)]
  show "locks_wf (rs_locks s')"
    using wf(1) by (simp only: f(6) locks_wf_filter)
  show "distinct (map wt_task (rs_waiters s'))" "waiters_in_range s'"
    using wf(2,3) f(1,2) waiters_cong(2) [OF f(1)] by auto
  show "mount_ok n s'" for n
    using wf(4) [of n] assms(3) f(5) [of n]
    by (auto simp: mount_ok_def rl_held_def f(3,6) waiters_cong(1) [OF f(1)] split: if_splits)
qed

lemma mount_release_total: "vfs_mount_release m s = None \<longleftrightarrow> vm_references (rs_mounts s m) = 0"
  by (simp add: vfs_mount_release_def Let_def)

text \<open>A waiter gives its own reference back.\<close>

lemma waiter_dropped:
  assumes "rl_wf s" "w \<in> set (rs_waiters s)"
  shows "rl_wf (s\<lparr>rs_waiters := remove1 w (rs_waiters s)\<rparr>)" (is "rl_wf ?s") "rl_held (wt_mount w) (s\<lparr>rs_waiters := remove1 w (rs_waiters s)\<rparr>)"
proof -
  note wf = rl_wfD [OF assms(1)]
  have cnt: "mount_waiters m ?s = mount_waiters m s - (if m = wt_mount w then 1 else 0)" for m
    using assms(2) by (simp add: mount_waiters_def filter_remove1 length_remove1)
  have pos: "mount_waiters (wt_mount w) s > 0"
    using assms(2) by (auto simp: mount_waiters_def filter_empty_conv)
  show "rl_held (wt_mount w) ?s"
    using pos wf(4) [of "wt_mount w"] cnt [of "wt_mount w"] unfolding rl_held_def mount_ok_def by simp linarith
  have "distinct (map wt_task (remove1 w (rs_waiters s)))"
    using wf(2) by (meson distinct_remove1 distinct_map inj_on_subset set_remove1_subset)
  moreover have "mount_ok m ?s" for m
    using wf(4) [of m] by (auto simp: mount_ok_def cnt)
  ultimately show "rl_wf ?s"
    using wf(1,3) by (intro rl_wfI) (auto simp: waiters_in_range_def dest: notin_set_remove1)
qed

lemma waiter_remove_wf:
  assumes "rl_wf s" "w \<in> set (rs_waiters s)"
  shows "\<exists>s'. vfs_record_lock_waiter_remove w s = Some s' \<and> rl_wf s'"
  using waiter_dropped [OF assms] mount_release_wf [OF _ waiter_dropped [OF assms]]
    mount_release_total [of "wt_mount w" "s\<lparr>rs_waiters := remove1 w (rs_waiters s)\<rparr>"]
  by (auto simp: vfs_record_lock_waiter_remove_def rl_held_def)

lemma waiter_remove_fields:
  assumes "vfs_record_lock_waiter_remove w s = Some s'"
  shows "rs_waiters s' = remove1 w (rs_waiters s)" "slot_count (rs_kernel s') = slot_count (rs_kernel s)"
    "vm_references (rs_mounts s' n) = vm_references (rs_mounts s n) - (if n = wt_mount w then 1 else 0)"
    "set (rs_locks s') \<subseteq> set (rs_locks s)"
  using mount_release_fields [OF assms [unfolded vfs_record_lock_waiter_remove_def]] by auto

lemma waiter_linked_in: "waiter_linked t s = Some w \<Longrightarrow> w \<in> set (rs_waiters s) \<and> wt_task w = t"
  by (auto simp: waiter_linked_def find_Some_iff)

text \<open>A removal leaves what others hold as it was.\<close>

lemma waiter_remove_held:
  assumes "rl_wf s" "w \<in> set (rs_waiters s)" "vfs_record_lock_waiter_remove w s = Some s'"
  shows "rl_held m s' \<longleftrightarrow> rl_held m s"
proof -
  note f = waiter_remove_fields [OF assms(3)]
  have "mount_waiters m s' = mount_waiters m s - (if m = wt_mount w then 1 else 0)"
    using assms(2) by (simp add: mount_waiters_def f(1) filter_remove1 length_remove1)
  moreover have "mount_waiters (wt_mount w) s > 0"
    using assms(2) by (auto simp: mount_waiters_def filter_empty_conv)
  moreover have "mount_waiters (wt_mount w) s \<le> vm_references (rs_mounts s (wt_mount w))"
    using rl_wfD(4) [OF assms(1)] by (simp add: mount_ok_def)
  ultimately show ?thesis
    by (auto simp: rl_held_def f(3))
qed

lemma unlink_self_wf:
  assumes "rl_wf s"
  shows "\<exists>s'. rl_unlink_self t s = Some s' \<and> rl_wf s' \<and> (\<forall>m. rl_held m s' \<longleftrightarrow> rl_held m s) \<and> (\<forall>w\<in>set (rs_waiters s'). wt_task w \<noteq> t)"
proof (cases "waiter_linked t s")
  case None
  then have "rl_unlink_self t s = Some s" "\<forall>w\<in>set (rs_waiters s). wt_task w \<noteq> t"
    by (simp add: rl_unlink_self_def) (use None in \<open>auto simp: waiter_linked_def find_None_iff\<close>)
  then show ?thesis
    using assms by simp
next
  case (Some w)
  note w = waiter_linked_in [OF Some]
  obtain s' where s': "vfs_record_lock_waiter_remove w s = Some s'" "rl_wf s'"
    using waiter_remove_wf [OF assms conjunct1 [OF w]] by auto
  have "\<forall>v\<in>set (rs_waiters s'). wt_task v \<noteq> t"
    using w rl_wfD(2) [OF assms] by (auto simp: waiter_remove_fields(1) [OF s'(1)] distinct_map inj_on_def set_remove1_eq)
  then show ?thesis
    using s' Some waiter_remove_held [OF assms conjunct1 [OF w] s'(1)] by (auto simp: rl_unlink_self_def)
qed

section \<open>The operations keep the invariant and never panic\<close>

lemma held_alive: "rl_wf s \<Longrightarrow> rl_held m s \<Longrightarrow> \<not> vm_destroyed (rs_mounts s m)"
  using rl_wfD(4) [of s m] by (auto simp: mount_ok_def rl_held_def)

lemma apply_wf:
  assumes "rl_wf s" "rl_held m s" "lo < hi" "type \<in> {F_RDLCK, F_WRLCK, F_UNLCK}" "find_conflict m n ow type lo hi (rs_locks s) = None"
  shows "\<exists>s' status. vfs_record_lock_apply m n ow type lo hi memory s = Some (s', status) \<and> rl_wf s' \<and> rs_waiters s' = rs_waiters s"
proof -
  obtain rs st where a: "apply_lock m n ow type lo hi memory (rs_locks s) = Some (rs, st)" and wf: "locks_wf rs"
    and l: "st = VFS_OK \<Longrightarrow> \<forall>m' n' ow' b ty. locked rs m' n' ow' b ty \<longleftrightarrow>
        (if m' = m \<and> n' = n \<and> ow' = ow \<and> lo \<le> b \<and> b < hi then type \<noteq> F_UNLCK \<and> ty = type else locked (rs_locks s) m' n' ow' b ty)"
    using apply_lock_exact [OF rl_wfD(1) [OF assms(1)] assms(3-5), of memory] by (metis (no_types, lifting))
  have alive: "\<not> vm_destroyed (rs_mounts s (rl_mount r))" if "r \<in> set rs" "st = VFS_OK" for r
  proof -
    have "locked rs (rl_mount r) (rl_node r) (rl_owner r) (rl_start r) (rl_type r)"
      using that(1) wf by (auto simp: locked_def lock_of_def vfs_record_lock_key_equal_def covers_def locks_wf_def)
    then have "rl_mount r = m \<or> (\<exists>t\<in>set (rs_locks s). rl_mount t = rl_mount r)"
      using l [OF that(2)] by (auto simp: locked_def lock_of_def vfs_record_lock_key_equal_def split: if_splits)
    then show ?thesis
      using held_alive [OF assms(1,2)] lock_mount_alive [OF assms(1)] by metis
  qed
  show ?thesis
    using assms(1) rl_wf_wake [OF rl_wf_locks [OF assms(1) wf]] alive
    by (auto simp: vfs_record_lock_apply_def a vfs_record_lock_wake_key_def)
qed

lemma waiter_add_wf:
  assumes "rl_wf s" "rl_held m s" "t < slot_count (rs_kernel s)" "waiter_linked t s = None"
  shows "rl_wf (vfs_record_lock_waiter_add t m n s)" "rl_held m (vfs_record_lock_waiter_add t m n s)"
proof -
  let ?s = "vfs_record_lock_waiter_add t m n s"
  note wf = rl_wfD [OF assms(1)]
  have f: "rs_waiters ?s = \<lparr>wt_mount = m, wt_node = n, wt_task = t\<rparr> # rs_waiters s" "rs_locks ?s = rs_locks s" "rs_kernel ?s = rs_kernel s"
    "vm_references (rs_mounts ?s k) = vm_references (rs_mounts s k) + (if k = m then 1 else 0)"
    "vm_destroyed (rs_mounts ?s k) = vm_destroyed (rs_mounts s k)" for k
    by (simp_all add: vfs_record_lock_waiter_add_def vfs_mount_reference_def)
  have c: "mount_waiters k ?s = mount_waiters k s + (if k = m then 1 else 0)" for k
    by (simp add: mount_waiters_def f(1))
  have "mount_ok k ?s" for k
    using wf(4) [of k] held_alive [OF assms(1,2)] by (auto simp: mount_ok_def c f)
  moreover have "distinct (map wt_task (rs_waiters ?s))"
    using wf(2) assms(4) by (auto simp: f(1) waiter_linked_def find_None_iff)
  ultimately show "rl_wf ?s"
    using wf(1,3) assms(3) by (intro rl_wfI) (auto simp: f(1,2,3) waiters_in_range_def)
  show "rl_held m ?s"
    using assms(2) by (simp add: rl_held_def c f(4))
qed

lemma rl_block_wf: "rl_wf s \<Longrightarrow> rl_wf (fst (rl_block s))"
  by (erule rl_wf_cong)
    (auto simp: rl_block_def task_fall_blocked_reason_def Let_def task_set_state_def split: prod.splits outcome.splits if_splits)

lemma rl_round_wf:
  assumes "rl_wf s" "rl_held m s" "lo < hi" "l_type request \<in> {F_RDLCK, F_WRLCK, F_UNLCK}"
    "current_tid (rs_kernel s) < slot_count (rs_kernel s)"
  shows "\<exists>s' answer out. rl_round m n command lo hi memory request s = Some (s', answer, out) \<and> rl_wf s'"
proof -
  let ?self = "current_tid (rs_kernel s)"
  let ?s = "if waiter_linked ?self s = None then vfs_record_lock_waiter_add ?self m n s else s"
  have wf: "rl_wf ?s"
    using waiter_add_wf [OF assms(1,2,5)] assms(1) by simp
  obtain u stop where b: "rl_block ?s = (u, stop)" by fastforce
  have u: "rl_wf u"
    using rl_block_wf [OF wf] b by simp
  obtain v where v: "rl_unlink_self ?self u = Some v" "rl_wf v"
    using unlink_self_wf [OF u] by blast
  show ?thesis
    using assms(1) held_alive [OF assms(1,2)] apply_wf [OF assms(1-4), of n "rl_owner_now s" memory] b u v
    by (auto simp: rl_round_def Let_def split: option.splits bool.splits prod.splits)
qed

lemma rl_request_range:
  assumes "rl_request handle request = Inr (m, n, lo, hi)"
  shows "lo < hi" "l_type request \<in> {F_RDLCK, F_WRLCK, F_UNLCK}" "\<exists>d. fh_dentry handle = Some d \<and> de_mount d = m \<and> de_node d = n"
proof -
  obtain d where d: "fh_dentry handle = Some d" "de_mount d = m" "de_node d = n"
    "vfs_record_lock_normalize_range (fh_offset handle) (de_size d) request = Inr (lo, hi)"
    "l_type request \<in> {F_RDLCK, F_WRLCK, F_UNLCK}"
    using assms by (auto simp: rl_request_def split: option.splits if_splits sum.splits)
  show "l_type request \<in> {F_RDLCK, F_WRLCK, F_UNLCK}" "\<exists>d. fh_dentry handle = Some d \<and> de_mount d = m \<and> de_node d = n"
    using d by auto
  have u: "uint x \<le> 4294967295" for x :: u32
    using uint_lt2p [of x] by simp
  show "lo < hi"
    using d(4) u [of "fh_offset handle"] u [of "de_size d"]
    by (auto simp: vfs_record_lock_normalize_range_def Let_def split: if_splits)
qed

lemma remove_waiters_wf:
  assumes "rl_wf s" "set ws \<subseteq> set (rs_waiters s)" "distinct ws"
    and f: "\<And>w s. rl_wf s \<Longrightarrow> w \<in> set (rs_waiters s) \<Longrightarrow> \<exists>s'. f w s = Some s' \<and> rl_wf s' \<and> rs_waiters s' = remove1 w (rs_waiters s)
      \<and> set (rs_locks s') \<subseteq> set (rs_locks s) \<and> (\<forall>v. P s' v \<longleftrightarrow> P s v)"
  shows "\<exists>s'. remove_waiters P f ws s = Some s' \<and> rl_wf s' \<and> (\<forall>v. P s' v \<longleftrightarrow> P s v)
      \<and> set (rs_locks s') \<subseteq> set (rs_locks s) \<and> set (rs_waiters s') = set (rs_waiters s) - {w \<in> set ws. P s w}"
  using assms(1-3)
proof (induction ws arbitrary: s)
  case (Cons w ws)
  show ?case
  proof (cases "P s w")
    case True
    obtain t where t: "f w s = Some t" "rl_wf t" "rs_waiters t = remove1 w (rs_waiters s)" "set (rs_locks t) \<subseteq> set (rs_locks s)"
      "\<forall>v. P t v \<longleftrightarrow> P s v"
      using f [OF Cons.prems(1), of w] Cons.prems(2) by auto
    have d: "distinct (rs_waiters s)"
      using rl_wfD(2) [OF Cons.prems(1)] by (simp add: distinct_map)
    have "set ws \<subseteq> set (rs_waiters t)"
      using Cons.prems(2,3) by (auto simp: t(3) set_remove1_eq [OF d])
    then obtain u where u: "remove_waiters P f ws t = Some u" "rl_wf u" "\<forall>v. P u v \<longleftrightarrow> P t v" "set (rs_locks u) \<subseteq> set (rs_locks t)"
      "set (rs_waiters u) = set (rs_waiters t) - {x \<in> set ws. P t x}"
      using Cons.IH [OF t(2)] Cons.prems(3) by auto
    have "set (rs_locks u) \<subseteq> set (rs_locks s)"
      using u(4) t(4) by (rule order_trans)
    then show ?thesis
      using t u True by (auto simp: set_remove1_eq [OF d])
  next
    case False
    then have "{x \<in> set (w # ws). P s x} = {x \<in> set ws. P s x}"
      by auto
    then show ?thesis
      using Cons False by simp
  qed
qed simp

lemma waiter_remove_tgid:
  assumes "rl_wf s" "w \<in> set (rs_waiters s)" "vfs_record_lock_waiter_remove w s = Some s'"
  shows "t_tgid (tsk (rs_kernel s') u) = t_tgid (tsk (rs_kernel s) u)"
proof -
  let ?s = "s\<lparr>rs_waiters := remove1 w (rs_waiters s)\<rparr>"
  have "waiters_in_range (x\<lparr>rs_waiters := remove1 w (rs_waiters s)\<rparr>)" if "slot_count (rs_kernel x) = slot_count (rs_kernel s)" for x
    using rl_wfD(3) [OF assms(1)] that by (auto simp: waiters_in_range_def dest: notin_set_remove1)
  then have "waiters_in_range (?s\<lparr>rs_mounts := ms, rs_locks := ls\<rparr>)" for ms ls
    by (simp add: waiters_in_range_def)
  then show ?thesis
    using assms(3)
    by (auto simp: vfs_record_lock_waiter_remove_def vfs_mount_release_def vfs_destroy_mount_def vfs_record_lock_mount_cleanup_def
        vfs_record_lock_wake_mount_def Let_def wake_waiters_tgid split: if_splits)
qed

lemma cancel_wf:
  assumes "rl_wf s"
  shows "\<exists>s'. vfs_record_lock_cancel_task (Some t) s = Some s' \<and> rl_wf s' \<and> (\<forall>w\<in>set (rs_waiters s'). wt_task w \<noteq> t)"
proof -
  have d: "distinct (rs_waiters s)"
    using rl_wfD(2) [OF assms] by (simp add: distinct_map)
  have f: "\<exists>u'. vfs_record_lock_waiter_remove w u = Some u' \<and> rl_wf u' \<and> rs_waiters u' = remove1 w (rs_waiters u)
      \<and> set (rs_locks u') \<subseteq> set (rs_locks u) \<and> (\<forall>v. wt_task v = t \<longleftrightarrow> wt_task v = t)" if "rl_wf u" "w \<in> set (rs_waiters u)" for u w
    using waiter_remove_wf [OF that] waiter_remove_fields(1,4) by blast
  note remove_waiters_wf [where P = "\<lambda>s w. wt_task w = t", OF assms order_refl d f]
  then show ?thesis
    by (auto simp: vfs_record_lock_cancel_task_def)
qed

lemma drop_owner_locks_fields [simp]:
  "rs_waiters (drop_owner_locks ow rs s) = rs_waiters s" "rs_mounts (drop_owner_locks ow rs s) = rs_mounts s"
  "slot_count (rs_kernel (drop_owner_locks ow rs s)) = slot_count (rs_kernel s)"
  by (induction rs arbitrary: s) (simp_all add: vfs_record_lock_wake_key_def)

lemma drop_owner_locks_locks:
  "rs_locks s = us @ rs \<Longrightarrow> \<forall>u\<in>set us. rl_owner u \<noteq> ow \<Longrightarrow> rs_locks (drop_owner_locks ow rs s) = us @ filter (\<lambda>r. rl_owner r \<noteq> ow) rs"
proof (induction rs arbitrary: s us)
  case (Cons r rs)
  show ?case
  proof (cases "rl_owner r = ow")
    case True
    then have "r \<notin> set us" using Cons.prems by auto
    then show ?thesis
      using True Cons.prems by (simp add: vfs_record_lock_wake_key_def Cons.IH remove1_append)
  next
    case False
    then show ?thesis
      using Cons.prems Cons.IH [of s "us @ [r]"] by simp
  qed
qed simp

lemma drop_owner_locks_tgid:
  "waiters_in_range s \<Longrightarrow> t_tgid (tsk (rs_kernel (drop_owner_locks ow rs s)) u) = t_tgid (tsk (rs_kernel s) u)"
proof (induction rs arbitrary: s)
  case (Cons r rs)
  then show ?case
    by (simp add: vfs_record_lock_wake_key_def wake_waiters_tgid waiters_in_range_def)
qed simp

lemma drop_owner_locks_wf: "rl_wf s \<Longrightarrow> rl_wf (drop_owner_locks ow (rs_locks s) s)"
  by (rule rl_wf_cong [OF rl_wf_fewer_locks [of s "\<lambda>r. rl_owner r \<noteq> ow"]]) (simp_all add: drop_owner_locks_locks [of s "[]"])

text \<open>The end of a group: neither a lock nor a waiter of it is left.\<close>

lemma task_cleanup_wf:
  assumes "rl_wf s"
  shows "\<exists>s'. vfs_record_lock_task_cleanup ow s = Some s' \<and> rl_wf s' \<and> (\<forall>r\<in>set (rs_locks s'). rl_owner r \<noteq> ow)
      \<and> (\<forall>w\<in>set (rs_waiters s'). t_tgid (tsk (rs_kernel s') (wt_task w)) \<noteq> ow)"
proof -
  let ?s = "drop_owner_locks ow (rs_locks s) s" and ?P = "\<lambda>(s :: rl_state) (w :: rl_waiter). t_tgid (tsk (rs_kernel s) (wt_task w)) = ow"
  let ?f = "\<lambda>w s. vfs_record_lock_waiter_remove w (rl_run (wt_task w) s)"
  have wf: "rl_wf ?s" and l: "\<forall>r\<in>set (rs_locks ?s). rl_owner r \<noteq> ow"
    using drop_owner_locks_wf [OF assms] drop_owner_locks_locks [of s "[]"] by auto
  have d: "distinct (rs_waiters ?s)"
    using rl_wfD(2) [OF assms] by (simp add: distinct_map)
  have f: "\<exists>u'. vfs_record_lock_waiter_remove w (rl_run (wt_task w) u) = Some u' \<and> rl_wf u' \<and> rs_waiters u' = remove1 w (rs_waiters u)
      \<and> set (rs_locks u') \<subseteq> set (rs_locks u) \<and> (\<forall>v. ?P u' v \<longleftrightarrow> ?P u v)" if "rl_wf u" "w \<in> set (rs_waiters u)" for u w
  proof -
    let ?u = "rl_run (wt_task w) u"
    have u: "rl_wf ?u" "w \<in> set (rs_waiters ?u)"
      using that by (auto simp: rl_run_def intro: rl_wf_cong)
    obtain u' where u': "vfs_record_lock_waiter_remove w ?u = Some u'" "rl_wf u'"
      using waiter_remove_wf [OF u] by auto
    have "t_tgid (tsk (rs_kernel ?u) v) = t_tgid (tsk (rs_kernel u) v)" for v
      using that rl_wfD(3) [OF that(1)] by (simp add: rl_run_def waiters_in_range_def task_run_tgid)
    then show ?thesis
      using u' waiter_remove_fields [OF u'(1)] waiter_remove_tgid [OF u u'(1)] by (auto simp: rl_run_def)
  qed
  have "\<exists>s'. remove_waiters ?P ?f (rs_waiters ?s) ?s = Some s' \<and> rl_wf s' \<and> (\<forall>v. ?P s' v \<longleftrightarrow> ?P ?s v)
      \<and> set (rs_locks s') \<subseteq> set (rs_locks ?s) \<and> set (rs_waiters s') = set (rs_waiters ?s) - {w \<in> set (rs_waiters ?s). ?P ?s w}"
    by (rule remove_waiters_wf [OF wf order_refl d]) (rule f)
  then obtain s' where s': "remove_waiters ?P ?f (rs_waiters ?s) ?s = Some s'" "rl_wf s'" "\<forall>v. ?P s' v \<longleftrightarrow> ?P ?s v"
    "set (rs_locks s') \<subseteq> set (rs_locks ?s)" "set (rs_waiters s') = set (rs_waiters ?s) - {w \<in> set (rs_waiters ?s). ?P ?s w}"
    by (elim exE conjE) (rule that)
  have "vfs_record_lock_task_cleanup ow s = Some s'"
    using s'(1) unfolding vfs_record_lock_task_cleanup_def Let_def by simp
  then show ?thesis
    using s'(2-5) l by auto
qed

end
