(* ===== verification/RecordLockProps.thy ===== *)
theory RecordLockProps
  imports RecordLockOps
begin

text \<open>What the record locks of \<^verbatim>\<open>kernel/fs/vfs.c\<close> promise in every order of the operations: exclusion, an exact effect on
  the locked bytes, no panic, and no task that sleeps although nothing stands in its way.\<close>

section \<open>A sleeping task has a conflict\<close>

text \<open>What the task of a waiter asked for: mount, node, thread group, type and range.\<close>

type_synonym rl_wish = "nat \<times> nat \<times> nat \<times> int \<times> nat \<times> nat"

definition hinders :: "record_lock list \<Rightarrow> rl_wish \<Rightarrow> bool" where
  "hinders rs wish = (case wish of (m, n, ow, ty, lo, hi) \<Rightarrow> find_conflict m n ow ty lo hi rs \<noteq> None)"

definition wish_ok :: "rl_waiter \<Rightarrow> rl_wish \<Rightarrow> bool" where
  "wish_ok w wish = (case wish of (m, n, ow, ty, lo, hi) \<Rightarrow> wt_mount w = m \<and> wt_node w = n \<and> lo < hi)"

definition waits_rightly :: "(nat \<Rightarrow> rl_wish) \<Rightarrow> rl_state \<Rightarrow> bool" where
  "waits_rightly g s \<longleftrightarrow> (\<forall>w\<in>set (rs_waiters s). wish_ok w (g (wt_task w))
     \<and> (asleep (rs_kernel s) (wt_task w) \<longrightarrow> hinders (rs_locks s) (g (wt_task w))))"

text \<open>A conflict is a byte that another group has locked.\<close>

lemma find_conflict_bytes:
  assumes "locks_wf rs" "lo < hi"
  shows "find_conflict m n ow ty lo hi rs \<noteq> None \<longleftrightarrow>
    ty \<noteq> F_UNLCK \<and> (\<exists>ow' b ty'. ow' \<noteq> ow \<and> lo \<le> b \<and> b < hi \<and> locked rs m n ow' b ty' \<and> (ty = F_WRLCK \<or> ty' = F_WRLCK))"
    (is "_ \<longleftrightarrow> _ \<and> ?R")
proof -
  have "(\<exists>r\<in>set rs. vfs_record_lock_key_equal r m n \<and> vfs_record_lock_conflicts r ow ty lo hi) \<longleftrightarrow> ?R"
  proof
    assume "\<exists>r\<in>set rs. vfs_record_lock_key_equal r m n \<and> vfs_record_lock_conflicts r ow ty lo hi"
    then obtain r where r: "r \<in> set rs" "vfs_record_lock_key_equal r m n" "vfs_record_lock_conflicts r ow ty lo hi"
      by auto
    have "rl_start r < rl_end r"
      using assms(1) r(1) by (auto simp: locks_wf_def)
    then have "covers r (max lo (rl_start r))" "max lo (rl_start r) < hi"
      using r(3) assms(2) by (auto simp: covers_def vfs_record_lock_conflicts_def vfs_record_lock_overlap_def)
    then have "locked rs m n (rl_owner r) (max lo (rl_start r)) (rl_type r)"
      using r(1,2) by (auto simp: locked_def lock_of_def)
    then show ?R
      using r(3) \<open>max lo (rl_start r) < hi\<close>
      by (intro exI [of _ "rl_owner r"] exI [of _ "max lo (rl_start r)"] exI [of _ "rl_type r"]) (simp add: vfs_record_lock_conflicts_def)
  next
    assume ?R
    then show "\<exists>r\<in>set rs. vfs_record_lock_key_equal r m n \<and> vfs_record_lock_conflicts r ow ty lo hi"
      by (fastforce simp: locked_def lock_of_def covers_def vfs_record_lock_conflicts_def vfs_record_lock_overlap_def)
  qed
  moreover have "find P rs \<noteq> None \<longleftrightarrow> (\<exists>r\<in>set rs. P r)" for P
    by (auto simp del: not_None_eq simp: find_None_iff)
  ultimately show ?thesis
    by (simp add: find_conflict_def del: not_None_eq)
qed

lemma hinders_cong:
  assumes "locks_wf rs" "locks_wf rs'" "wish_ok w wish"
    "\<And>ow b ty. locked rs' (wt_mount w) (wt_node w) ow b ty \<longleftrightarrow> locked rs (wt_mount w) (wt_node w) ow b ty"
  shows "hinders rs' wish \<longleftrightarrow> hinders rs wish"
proof -
  obtain m n ow ty lo hi where w: "wish = (m, n, ow, ty, lo, hi)"
    by (cases wish)
  then have "lo < hi" "m = wt_mount w" "n = wt_node w"
    using assms(3) by (auto simp: wish_ok_def)
  then show ?thesis
    unfolding w hinders_def prod.case find_conflict_bytes [OF assms(1) \<open>lo < hi\<close>] find_conflict_bytes [OF assms(2) \<open>lo < hi\<close>]
    by (simp add: assms(4))
qed

text \<open>The pattern of every release: the locks change, and the waiters of the files concerned are woken.\<close>

lemma waits_rightly_change:
  assumes "waits_rightly g s" "rl_wf s" "locks_wf rs"
    and "\<And>w ow b ty. w \<in> set (rs_waiters s) \<Longrightarrow> \<not> P w \<Longrightarrow>
      locked rs (wt_mount w) (wt_node w) ow b ty \<longleftrightarrow> locked (rs_locks s) (wt_mount w) (wt_node w) ow b ty"
  shows "waits_rightly g (wake_waiters P (s\<lparr>rs_locks := rs\<rparr>))"
proof -
  have r: "waiters_in_range (s\<lparr>rs_locks := rs\<rparr>)"
    using rl_wfD(3) [OF assms(2)] by (simp add: waiters_in_range_def)
  have "hinders rs (g (wt_task w))" if "w \<in> set (rs_waiters s)" "\<not> P w" "asleep (rs_kernel s) (wt_task w)" for w
    using that assms(1) hinders_cong [OF rl_wfD(1) [OF assms(2)] assms(3), of w] assms(4) by (auto simp: waits_rightly_def)
  then show ?thesis
    using assms(1) by (auto simp: waits_rightly_def wake_waiters_asleep [OF r])
qed

lemma waits_rightly_cong:
  "waits_rightly g s \<Longrightarrow> rs_locks s' = rs_locks s \<Longrightarrow> set (rs_waiters s') \<subseteq> set (rs_waiters s) \<Longrightarrow>
     (\<And>w. w \<in> set (rs_waiters s') \<Longrightarrow> asleep (rs_kernel s') (wt_task w) \<Longrightarrow> asleep (rs_kernel s) (wt_task w)) \<Longrightarrow> waits_rightly g s'"
  by (auto simp: waits_rightly_def)

lemma locked_filter_mount: "m' \<noteq> m \<Longrightarrow> locked (filter (\<lambda>r. rl_mount r \<noteq> m) rs) m' n ow b ty \<longleftrightarrow> locked rs m' n ow b ty"
  by (auto simp: locked_def lock_of_def vfs_record_lock_key_equal_def)

lemma locked_filter_key:
  "m' \<noteq> m \<or> n' \<noteq> n \<Longrightarrow> locked (filter (\<lambda>r. \<not> lock_of m n ow r) rs) m' n' ow' b ty \<longleftrightarrow> locked rs m' n' ow' b ty"
  by (auto simp: locked_def lock_of_def vfs_record_lock_key_equal_def)

lemma locked_remove1:
  "m' \<noteq> rl_mount r \<or> n' \<noteq> rl_node r \<Longrightarrow> locked (remove1 r rs) m' n' ow' b ty \<longleftrightarrow> locked rs m' n' ow' b ty"
  by (auto simp: locked_def lock_of_def vfs_record_lock_key_equal_def dest: notin_set_remove1 intro: in_set_remove1 [THEN iffD2])

lemma mount_release_rightly:
  assumes "waits_rightly g s" "rl_wf s" "vfs_mount_release m s = Some s'"
  shows "waits_rightly g s'"
proof -
  let ?u = "s\<lparr>rs_mounts := (rs_mounts s)(m := (rs_mounts s m)\<lparr>vm_references := vm_references (rs_mounts s m) - 1\<rparr>)\<rparr>"
  have u: "waits_rightly g ?u"
    by (rule waits_rightly_cong [OF assms(1)]) auto
  have c: "waits_rightly g (wake_waiters (\<lambda>w. wt_mount w = m) (s\<lparr>rs_locks := filter (\<lambda>r. rl_mount r \<noteq> m) (rs_locks s)\<rparr>))"
    by (rule waits_rightly_change [OF assms(1,2)]) (auto simp: locked_filter_mount intro: locks_wf_filter rl_wfD [OF assms(2)])
  have "waits_rightly g (vfs_destroy_mount m ?u)"
    by (rule waits_rightly_cong [OF c])
      (simp_all add: vfs_destroy_mount_def vfs_record_lock_mount_cleanup_def vfs_record_lock_wake_mount_def Let_def wake_waiters_run)
  then show ?thesis
    using u assms(3) by (auto simp: vfs_mount_release_def Let_def split: if_splits)
qed

lemma waiter_remove_rightly:
  assumes "waits_rightly g s" "rl_wf s" "w \<in> set (rs_waiters s)" "vfs_record_lock_waiter_remove w s = Some s'"
  shows "waits_rightly g s'"
proof (rule mount_release_rightly)
  show "waits_rightly g (s\<lparr>rs_waiters := remove1 w (rs_waiters s)\<rparr>)"
    by (rule waits_rightly_cong [OF assms(1)]) (auto dest: subsetD [OF set_remove1_subset])
  show "rl_wf (s\<lparr>rs_waiters := remove1 w (rs_waiters s)\<rparr>)"
    by (rule waiter_dropped [OF assms(2,3)])
  show "vfs_mount_release (wt_mount w) (s\<lparr>rs_waiters := remove1 w (rs_waiters s)\<rparr>) = Some s'"
    using assms(4) by (simp add: vfs_record_lock_waiter_remove_def)
qed

lemma unlink_self_rightly: "waits_rightly g s \<Longrightarrow> rl_wf s \<Longrightarrow> rl_unlink_self t s = Some s' \<Longrightarrow> waits_rightly g s'"
  by (auto simp: rl_unlink_self_def split: option.splits dest!: waiter_linked_in intro: waiter_remove_rightly)

lemma apply_rightly:
  assumes "waits_rightly g s" "rl_wf s" "lo < hi" "type \<in> {F_RDLCK, F_WRLCK, F_UNLCK}"
    "find_conflict m n ow type lo hi (rs_locks s) = None" "vfs_record_lock_apply m n ow type lo hi memory s = Some (s', status)"
  shows "waits_rightly g s'"
proof -
  obtain rs st where a: "apply_lock m n ow type lo hi memory (rs_locks s) = Some (rs, st)" "locks_wf rs"
    and l: "st = VFS_OK \<Longrightarrow> \<forall>m' n' ow' b ty. locked rs m' n' ow' b ty \<longleftrightarrow>
        (if m' = m \<and> n' = n \<and> ow' = ow \<and> lo \<le> b \<and> b < hi then type \<noteq> F_UNLCK \<and> ty = type else locked (rs_locks s) m' n' ow' b ty)"
    using apply_lock_exact [OF rl_wfD(1) [OF assms(2)] assms(3-5), of memory] by (metis (no_types, lifting))
  have "waits_rightly g (vfs_record_lock_wake_key m n (s\<lparr>rs_locks := rs\<rparr>))" if "st = VFS_OK"
    unfolding vfs_record_lock_wake_key_def by (rule waits_rightly_change [OF assms(1,2) a(2)]) (auto simp: l [OF that])
  then show ?thesis
    using assms(1,6) a(1) by (auto simp: vfs_record_lock_apply_def split: if_splits)
qed

text \<open>What falling asleep changes.\<close>

lemma rl_block_facts:
  assumes "rl_block s = (s', stop)"
  shows "rs_locks s' = rs_locks s" "rs_waiters s' = rs_waiters s" "rs_mounts s' = rs_mounts s"
    "t \<noteq> current_tid (rs_kernel s) \<Longrightarrow> asleep (rs_kernel s') t \<longleftrightarrow> asleep (rs_kernel s) t"
    "slot_count (rs_kernel s') = slot_count (rs_kernel s)"
  using assms
  by (auto simp: rl_block_def task_fall_blocked_reason_def Let_def asleep_def tsk_task_set_state
      split: prod.splits outcome.splits if_splits)

lemma waiter_add_fields [simp]:
  "rs_waiters (vfs_record_lock_waiter_add t m n s) = \<lparr>wt_mount = m, wt_node = n, wt_task = t\<rparr> # rs_waiters s"
  "rs_locks (vfs_record_lock_waiter_add t m n s) = rs_locks s" "rs_kernel (vfs_record_lock_waiter_add t m n s) = rs_kernel s"
  by (simp_all add: vfs_record_lock_waiter_add_def vfs_mount_reference_def)

lemma rl_round_rightly:
  assumes "waits_rightly g s" "rl_wf s" "rl_held m s" "lo < hi" "l_type request \<in> {F_RDLCK, F_WRLCK, F_UNLCK}"
    "current_tid (rs_kernel s) < slot_count (rs_kernel s)" "waiter_linked (current_tid (rs_kernel s)) s = None"
    and round: "rl_round m n command lo hi memory request s = Some (s', answer, out)"
  shows "waits_rightly (g(current_tid (rs_kernel s) := (m, n, rl_owner_now s, l_type request, lo, hi))) s'"
proof -
  let ?self = "current_tid (rs_kernel s)"
  let ?g = "g(?self := (m, n, rl_owner_now s, l_type request, lo, hi))"
  have not_self: "wt_task w \<noteq> ?self" if "w \<in> set (rs_waiters s)" for w
    using assms(7) that by (auto simp: waiter_linked_def find_None_iff)
  have g: "waits_rightly ?g s"
    using assms(1) not_self by (simp add: waits_rightly_def)
  let ?c = "find_conflict m n (rl_owner_now s) (l_type request) lo hi (rs_locks s)"
  let ?s = "vfs_record_lock_waiter_add ?self m n s"
  obtain u stop where b: "rl_block ?s = (u, stop)" by fastforce
  note bf = rl_block_facts [OF b]
  have wf: "rl_wf u"
    using rl_block_wf [OF waiter_add_wf(1) [OF assms(2,3,6,7), of n]] b by simp
  have u: "waits_rightly ?g u" if "?c \<noteq> None"
    using assms(1,4) not_self that by (auto simp: waits_rightly_def bf wish_ok_def hinders_def)
  show ?thesis
  proof (cases "?c = None")
    case True
    then show ?thesis
      using round g apply_rightly [OF g assms(2,4,5) True]
      by (auto simp: rl_round_def Let_def split: if_splits option.splits prod.splits)
  next
    case False
    then show ?thesis
      using round g u unlink_self_rightly [OF u [OF False] wf, of ?self]
      by (auto simp: rl_round_def Let_def assms(7) b split: if_splits option.splits bool.splits)
  qed
qed

lemma remove_waiters_inv:
  assumes "remove_waiters P f ws s = Some s'" "J s" "set ws \<subseteq> set (rs_waiters s)" "distinct ws"
    and f: "\<And>w s s'. J s \<Longrightarrow> w \<in> set (rs_waiters s) \<Longrightarrow> f w s = Some s' \<Longrightarrow> J s' \<and> rs_waiters s' = remove1 w (rs_waiters s)"
  shows "J s'"
  using assms(1-4)
proof (induction ws arbitrary: s)
  case (Cons w ws)
  show ?case
  proof (cases "P s w")
    case True
    then obtain t where t: "f w s = Some t" "remove_waiters P f ws t = Some s'"
      using Cons.prems(1) by (auto split: option.splits)
    have J: "J t" "rs_waiters t = remove1 w (rs_waiters s)"
      using f [OF Cons.prems(2) _ t(1)] Cons.prems(3) by auto
    have "x \<noteq> w" if "x \<in> set ws" for x
      using that Cons.prems(4) by auto
    then have "set ws \<subseteq> set (rs_waiters t)"
      using Cons.prems(3) by (auto simp: J(2))
    then show ?thesis
      using Cons.IH [OF t(2) J(1)] Cons.prems(4) by simp
  qed (use Cons in auto)
qed simp

lemma cancel_rightly:
  assumes "waits_rightly g s" "rl_wf s" "vfs_record_lock_cancel_task t s = Some s'"
  shows "waits_rightly g s'"
proof (cases t)
  case (Some t)
  have d: "distinct (rs_waiters s)"
    using rl_wfD(2) [OF assms(2)] by (simp add: distinct_map)
  have "rl_wf s' \<and> waits_rightly g s'"
  proof (rule remove_waiters_inv [where J = "\<lambda>s. rl_wf s \<and> waits_rightly g s"])
    show "remove_waiters (\<lambda>s w. wt_task w = t) vfs_record_lock_waiter_remove (rs_waiters s) s = Some s'"
      using assms(3) Some by (simp add: vfs_record_lock_cancel_task_def)
    show "(rl_wf s' \<and> waits_rightly g s') \<and> rs_waiters s' = remove1 w (rs_waiters s)"
      if "rl_wf s \<and> waits_rightly g s" "w \<in> set (rs_waiters s)" "vfs_record_lock_waiter_remove w s = Some s'" for w s s'
      using that waiter_remove_wf [of s w] waiter_remove_rightly [of g s w s'] waiter_remove_fields(1) [OF that(3)] by auto
  qed (use assms d in auto)
  then show ?thesis ..
qed (use assms in \<open>simp add: vfs_record_lock_cancel_task_def\<close>)

lemma locks_wf_remove1: "locks_wf rs \<Longrightarrow> locks_wf (remove1 r rs)"
proof -
  have "sorted_wrt P xs \<Longrightarrow> sorted_wrt P (remove1 x xs)" for P and x :: record_lock and xs
    by (induction xs) (auto dest: notin_set_remove1)
  then show "locks_wf rs \<Longrightarrow> ?thesis"
    by (auto simp: locks_wf_def dest: notin_set_remove1)
qed

lemma drop_owner_locks_rightly:
  "waits_rightly g s \<Longrightarrow> rl_wf s \<Longrightarrow> waits_rightly g (drop_owner_locks ow rs s)"
proof (induction rs arbitrary: s)
  case (Cons r rs)
  let ?s = "s\<lparr>rs_locks := remove1 r (rs_locks s)\<rparr>"
  have wf: "rl_wf ?s"
    using Cons.prems(2)
    by (intro rl_wf_locks)
      (auto intro: locks_wf_remove1 rl_wfD dest: subsetD [OF set_remove1_subset] lock_mount_alive [OF Cons.prems(2)])
  have "waits_rightly g (vfs_record_lock_wake_key (rl_mount r) (rl_node r) ?s)"
    unfolding vfs_record_lock_wake_key_def
    by (rule waits_rightly_change [OF Cons.prems]) (auto simp: locked_remove1 intro: locks_wf_remove1 rl_wfD [OF Cons.prems(2)])
  then show ?case
    using Cons rl_wf_wake [OF wf] by (simp add: vfs_record_lock_wake_key_def)
qed simp

lemma task_cleanup_rightly:
  assumes "waits_rightly g s" "rl_wf s" "vfs_record_lock_task_cleanup ow s = Some s'"
  shows "waits_rightly g s'"
proof -
  let ?s = "drop_owner_locks ow (rs_locks s) s"
  have d: "distinct (rs_waiters ?s)"
    using rl_wfD(2) [OF assms(2)] by (simp add: distinct_map)
  have J: "(rl_wf u' \<and> waits_rightly g u') \<and> rs_waiters u' = remove1 w (rs_waiters u)"
    if "rl_wf u \<and> waits_rightly g u" "w \<in> set (rs_waiters u)"
      "vfs_record_lock_waiter_remove w (rl_run (wt_task w) u) = Some u'" for w u u'
  proof -
    let ?u = "rl_run (wt_task w) u"
    have t: "wt_task w < slot_count (rs_kernel u)"
      using that(1,2) rl_wfD(3) by (auto simp: waiters_in_range_def)
    have "asleep (rs_kernel ?u) x \<Longrightarrow> asleep (rs_kernel u) x" for x
      using task_run_not_asleep [OF t] tsk_task_run_other [OF _ t] by (cases "x = wt_task w") (auto simp: rl_run_def asleep_def)
    then have "rl_wf ?u" "waits_rightly g ?u" "w \<in> set (rs_waiters ?u)"
      using that(1,2) by (auto simp: rl_run_def intro: rl_wf_cong waits_rightly_cong)
    then show ?thesis
      using waiter_remove_wf [of ?u w] waiter_remove_rightly [of g ?u w u'] waiter_remove_fields(1) [OF that(3)] that(3)
      by (auto simp: rl_run_def)
  qed
  have "rl_wf s' \<and> waits_rightly g s'"
  proof (rule remove_waiters_inv [where J = "\<lambda>s. rl_wf s \<and> waits_rightly g s"])
    show "remove_waiters (\<lambda>s w. t_tgid (tsk (rs_kernel s) (wt_task w)) = ow)
        (\<lambda>w s. vfs_record_lock_waiter_remove w (rl_run (wt_task w) s)) (rs_waiters ?s) ?s = Some s'"
      using assms(3) unfolding vfs_record_lock_task_cleanup_def Let_def by simp
    show "rl_wf ?s \<and> waits_rightly g ?s"
      using drop_owner_locks_rightly [OF assms(1,2)] drop_owner_locks_wf [OF assms(2)] by (rule conjI [rotated])
    show "set (rs_waiters ?s) \<subseteq> set (rs_waiters ?s)" ..
    show "distinct (rs_waiters ?s)" by (rule d)
  qed (rule J)
  then show ?thesis ..
qed

lemma close_rightly:
  assumes "waits_rightly g s" "rl_wf s"
  shows "waits_rightly g (vfs_record_lock_close ow handle s)" "rl_wf (vfs_record_lock_close ow handle s)"
proof -
  have "waits_rightly g (vfs_record_lock_wake_key m n (s\<lparr>rs_locks := filter (\<lambda>r. \<not> lock_of m n ow r) (rs_locks s)\<rparr>))" for m n
    unfolding vfs_record_lock_wake_key_def
    by (rule waits_rightly_change [OF assms locks_wf_filter [OF rl_wfD(1) [OF assms(2)]]]) (auto simp: locked_filter_key)
  then show "waits_rightly g (vfs_record_lock_close ow handle s)"
    using assms(1) by (simp add: vfs_record_lock_close_def split: option.splits)
  show "rl_wf (vfs_record_lock_close ow handle s)"
    using assms(2) rl_wf_wake [OF rl_wf_fewer_locks [OF assms(2)]]
    by (simp add: vfs_record_lock_close_def vfs_record_lock_wake_key_def split: option.splits)
qed

section \<open>Who sleeps stays linked\<close>

text \<open>\<open>kept X s s'\<close>: apart from the tasks of \<open>X\<close>, a task that sleeps in \<open>s'\<close> slept in \<open>s\<close> already, and it has not
  lost its entry in the list of waiters.  So an operation may take a waiter out of the list only when it wakes the task.\<close>

abbreviation linked :: "nat \<Rightarrow> rl_state \<Rightarrow> bool" where
  "linked t s \<equiv> t \<in> wt_task ` set (rs_waiters s)"

definition kept :: "nat set \<Rightarrow> rl_state \<Rightarrow> rl_state \<Rightarrow> bool" where
  "kept X s s' \<longleftrightarrow> (\<forall>t. t \<notin> X \<longrightarrow> asleep (rs_kernel s') t \<longrightarrow> asleep (rs_kernel s) t \<and> (linked t s \<longrightarrow> linked t s'))"

lemma kept_trans: "kept X s t \<Longrightarrow> kept X t u \<Longrightarrow> kept X s u"
  by (simp add: kept_def)

lemma kept_mono: "kept X s t \<Longrightarrow> X \<subseteq> Y \<Longrightarrow> kept Y s t"
  by (auto simp: kept_def)

lemma kept_same: "rs_kernel s' = rs_kernel s \<Longrightarrow> rs_waiters s' = rs_waiters s \<Longrightarrow> kept X s s'"
  by (simp add: kept_def)

lemma kept_wake: "waiters_in_range s \<Longrightarrow> kept X s (wake_waiters P s)"
  by (simp add: kept_def wake_waiters_asleep)

lemma kept_wake_locks: "waiters_in_range s \<Longrightarrow> kept X s (wake_waiters P (s\<lparr>rs_locks := rs\<rparr>))"
  using kept_wake [of "s\<lparr>rs_locks := rs\<rparr>" X P] by (simp add: kept_def waiters_in_range_def)

lemma kept_mount_release:
  assumes "vfs_mount_release m s = Some s'" "waiters_in_range s" shows "kept X s s'"
proof -
  have "kept X s (vfs_destroy_mount m (s\<lparr>rs_mounts := f\<rparr>))" for f
  proof -
    have "kept X s (wake_waiters (\<lambda>w. wt_mount w = m) (s\<lparr>rs_locks := filter (\<lambda>r. rl_mount r \<noteq> m) (rs_locks s)\<rparr>))"
      using assms(2) by (rule kept_wake_locks)
    then show ?thesis
      by (simp add: kept_def vfs_destroy_mount_def vfs_record_lock_mount_cleanup_def vfs_record_lock_wake_mount_def Let_def
          wake_waiters_run)
  qed
  then show ?thesis using assms(1) by (auto simp: vfs_mount_release_def Let_def intro: kept_same split: if_splits)
qed

lemma kept_remove:
  assumes "vfs_record_lock_waiter_remove w s = Some s'" "rl_wf s"
  shows "kept {wt_task w} s s'" "asleep (rs_kernel s') t \<Longrightarrow> asleep (rs_kernel s) t"
proof -
  let ?u = "s\<lparr>rs_waiters := remove1 w (rs_waiters s)\<rparr>"
  have "waiters_in_range ?u"
    using rl_wfD(3) [OF assms(2)] by (auto simp: waiters_in_range_def dest: notin_set_remove1)
  then have k: "kept X ?u s'" for X
    using assms(1) by (simp add: vfs_record_lock_waiter_remove_def kept_mount_release)
  show "asleep (rs_kernel s') t \<Longrightarrow> asleep (rs_kernel s) t" using k [of "{}"] by (simp add: kept_def)
  note k [of "{wt_task w}"]
  moreover have "kept {wt_task w} s ?u"
    by (auto simp: kept_def intro!: image_eqI in_set_remove1 [THEN iffD2])
  ultimately show "kept {wt_task w} s s'" by (rule kept_trans [rotated])
qed

lemma kept_unlink_self: "rl_unlink_self t s = Some s' \<Longrightarrow> rl_wf s \<Longrightarrow> kept {t} s s'"
  using kept_remove(1) waiter_linked_in by (fastforce simp: rl_unlink_self_def intro: kept_same split: option.splits)

lemma kept_run: "t < slot_count (rs_kernel s) \<Longrightarrow> kept X s (rl_run t s) \<and> \<not> asleep (rs_kernel (rl_run t s)) t"
  using task_run_not_asleep [of t "rs_kernel s"] tsk_task_run_other [of _ t "rs_kernel s"]
  by (auto simp: kept_def rl_run_def asleep_def) metis+

lemma kept_cancel:
  assumes "vfs_record_lock_cancel_task (Some t) s = Some s'" "rl_wf s" shows "kept {t} s s'"
proof -
  have d: "distinct (rs_waiters s)" using rl_wfD(2) [OF assms(2)] by (simp add: distinct_map)
  have "remove_waiters (\<lambda>s w. wt_task w = t) (\<lambda>w s. if wt_task w = t then vfs_record_lock_waiter_remove w s else None) ws u
      = remove_waiters (\<lambda>s w. wt_task w = t) vfs_record_lock_waiter_remove ws u" for ws u
    by (induction ws arbitrary: u) (auto split: option.splits)
  then have run: "remove_waiters (\<lambda>s w. wt_task w = t) (\<lambda>w s. if wt_task w = t then vfs_record_lock_waiter_remove w s else None)
      (rs_waiters s) s = Some s'"
    using assms(1) by (simp add: vfs_record_lock_cancel_task_def)
  have "rl_wf s' \<and> kept {t} s s'"
  proof (rule remove_waiters_inv [where J = "\<lambda>u. rl_wf u \<and> kept {t} s u", OF run _ order_refl d])
    show "rl_wf s \<and> kept {t} s s" using assms(2) by (simp add: kept_same)
    show "(rl_wf v \<and> kept {t} s v) \<and> rs_waiters v = remove1 w (rs_waiters u)"
      if "rl_wf u \<and> kept {t} s u" "w \<in> set (rs_waiters u)"
        "(if wt_task w = t then vfs_record_lock_waiter_remove w u else None) = Some v" for w u v
    proof -
      have v: "vfs_record_lock_waiter_remove w u = Some v" "wt_task w = t" using that(3) by (auto split: if_splits)
      have "rl_wf v" using waiter_remove_wf [of u w] that(1,2) v(1) by auto
      moreover have "kept {t} u v" using kept_remove(1) [OF v(1)] that(1) v(2) by simp
      ultimately show ?thesis using that(1) waiter_remove_fields(1) [OF v(1)] by (blast intro: kept_trans)
    qed
  qed
  then show ?thesis ..
qed

lemma kept_drop_owner_locks: "waiters_in_range s \<Longrightarrow> kept X s (drop_owner_locks ow rs s)"
proof (induction rs arbitrary: s)
  case (Cons r rs)
  have w: "kept X s (vfs_record_lock_wake_key (rl_mount r) (rl_node r) (s\<lparr>rs_locks := remove1 r (rs_locks s)\<rparr>))"
    unfolding vfs_record_lock_wake_key_def using Cons.prems by (rule kept_wake_locks)
  have "waiters_in_range (vfs_record_lock_wake_key (rl_mount r) (rl_node r) (s\<lparr>rs_locks := remove1 r (rs_locks s)\<rparr>))"
    using Cons.prems by (simp add: vfs_record_lock_wake_key_def waiters_in_range_def)
  from kept_trans [OF w Cons.IH [OF this]] show ?case using Cons by simp
qed (simp add: kept_same)

lemma kept_task_cleanup:
  assumes "vfs_record_lock_task_cleanup ow s = Some s'" "rl_wf s" shows "kept {} s s'"
proof -
  let ?s = "drop_owner_locks ow (rs_locks s) s"
  have d: "distinct (rs_waiters ?s)" using rl_wfD(2) [OF assms(2)] by (simp add: distinct_map)
  have run: "remove_waiters (\<lambda>s w. t_tgid (tsk (rs_kernel s) (wt_task w)) = ow)
      (\<lambda>w s. vfs_record_lock_waiter_remove w (rl_run (wt_task w) s)) (rs_waiters ?s) ?s = Some s'"
    using assms(1) unfolding vfs_record_lock_task_cleanup_def Let_def by simp
  have "rl_wf s' \<and> kept {} s s'"
  proof (rule remove_waiters_inv [where J = "\<lambda>u. rl_wf u \<and> kept {} s u", OF run _ order_refl d])
    show "rl_wf ?s \<and> kept {} s ?s"
      using drop_owner_locks_wf [OF assms(2)] kept_drop_owner_locks rl_wfD(3) [OF assms(2)] by blast
    show "(rl_wf v \<and> kept {} s v) \<and> rs_waiters v = remove1 w (rs_waiters u)"
      if "rl_wf u \<and> kept {} s u" "w \<in> set (rs_waiters u)"
        "vfs_record_lock_waiter_remove w (rl_run (wt_task w) u) = Some v" for w u v
    proof -
      let ?u = "rl_run (wt_task w) u"
      have t: "wt_task w < slot_count (rs_kernel u)"
        using that(1,2) rl_wfD(3) by (auto simp: waiters_in_range_def)
      have u: "rl_wf ?u" "w \<in> set (rs_waiters ?u)" "rs_waiters ?u = rs_waiters u"
        using that(1,2) by (auto simp: rl_run_def intro: rl_wf_cong)
      have "rl_wf v" using waiter_remove_wf [OF u(1,2)] that(3) by auto
      moreover have "kept {} u v"
        unfolding kept_def
      proof (intro allI impI)
        fix x
        assume x: "asleep (rs_kernel v) x"
        have r: "asleep (rs_kernel ?u) x" by (rule kept_remove(2) [OF that(3) u(1) x])
        then have "x \<noteq> wt_task w" using kept_run [OF t] by blast
        then show "asleep (rs_kernel u) x \<and> (linked x u \<longrightarrow> linked x v)"
          using r x kept_run [OF t, of "{}"] kept_remove(1) [OF that(3) u(1)] by (simp add: kept_def u(3))
      qed
      ultimately show ?thesis using that(1) waiter_remove_fields(1) [OF that(3)] u(3) by (auto intro: kept_trans)
    qed
  qed
  then show ?thesis ..
qed

lemma kept_close:
  assumes "rl_wf s" shows "kept X s (vfs_record_lock_close ow handle s)"
proof -
  have "kept X s (wake_waiters P (s\<lparr>rs_locks := rs\<rparr>))" for P rs using rl_wfD(3) [OF assms] by (rule kept_wake_locks)
  then show ?thesis
    by (auto simp: vfs_record_lock_close_def vfs_record_lock_wake_key_def kept_same split: option.splits)
qed

text \<open>A round: the caller sleeps only as a waiter.\<close>

lemma kept_round:
  assumes "rl_round m n command lo hi memory request s = Some (s', answer, out)" "rl_wf s" "rl_held m s"
    "current_tid (rs_kernel s) < slot_count (rs_kernel s)"
  shows "kept {current_tid (rs_kernel s)} s s'" "out = Switch \<Longrightarrow> linked (current_tid (rs_kernel s)) s'"
proof -
  let ?self = "current_tid (rs_kernel s)"
  let ?a = "if waiter_linked ?self s = None then vfs_record_lock_waiter_add ?self m n s else s"
  have in_a: "linked ?self ?a"
    using waiter_linked_in [of ?self s] by (cases "waiter_linked ?self s") (auto intro: rev_image_eqI)
  have a: "kept {?self} s ?a" "rs_kernel ?a = rs_kernel s" by (simp_all add: kept_def)
  obtain u stop where b: "rl_block ?a = (u, stop)" by fastforce
  note bf = rl_block_facts [OF b]
  have u: "kept {?self} s u"
    using a by (simp add: kept_def bf)
  have grant: "kept {?self} s v" if "vfs_record_lock_apply m n ow ty lo hi memory s = Some (v, st)" for v ow ty st
    using that rl_wfD(3) [OF assms(2)]
    by (auto simp: vfs_record_lock_apply_def vfs_record_lock_wake_key_def intro: kept_wake_locks kept_same
        split: option.splits if_splits)
  have wf: "rl_wf u"
    using rl_block_wf [of ?a] waiter_add_wf(1) [OF assms(2-4)] assms(2) b by (cases "waiter_linked ?self s = None") auto
  have unlink: "kept {?self} s v" if "rl_unlink_self ?self u = Some v" for v
    using u kept_unlink_self [OF that wf] by (rule kept_trans)
  show "kept {?self} s s'"
    using assms(1) u grant unlink b
    by (auto simp: rl_round_def Let_def kept_same split: if_splits option.splits prod.splits bool.splits)
  show "linked ?self s'" if "out = Switch"
  proof -
    have "s' = u"
      using assms(1) that b
      by (auto simp: rl_round_def Let_def split: if_splits option.splits prod.splits bool.splits)
    then show ?thesis using in_a by (simp add: bf)
  qed
qed

section \<open>Every order of the operations\<close>

text \<open>Any task may start an operation, which a handle it has open keeps the mount for, or go on with one after its sleep; any
  task may close, end, open or unmount; and between two operations the scheduler puts no waiter back to sleep.  Besides the state
  the relation keeps what each waiter asked for and the set of the tasks that have blocked in \<open>F_SETLKW\<close> and not gone on since; a
  task leaves the set when its wait is cancelled, or when the scheduler has let it run and it sleeps somewhere else.\<close>

inductive rl_reached :: "rl_state \<Rightarrow> (nat \<Rightarrow> rl_wish) \<Rightarrow> nat set \<Rightarrow> bool" where
  rl_start: "rs_locks s = [] \<Longrightarrow> rs_waiters s = [] \<Longrightarrow> (\<And>m. \<not> vm_destroyed (rs_mounts s m)) \<Longrightarrow> rl_reached s g {}"
| rl_begin: "rl_reached s g B \<Longrightarrow> rl_request handle request = Inr (m, n, lo, hi) \<Longrightarrow> rl_held m s \<Longrightarrow>
    current_tid (rs_kernel s) < slot_count (rs_kernel s) \<Longrightarrow> waiter_linked (current_tid (rs_kernel s)) s = None \<Longrightarrow>
    vfs_record_lock_operation handle command request memory s = Some (s', answer, out) \<Longrightarrow>
    rl_reached s' (g(current_tid (rs_kernel s) := (m, n, rl_owner_now s, l_type request, lo, hi)))
      (if out = Switch then insert (current_tid (rs_kernel s)) B else B - {current_tid (rs_kernel s)})"
| rl_again: "rl_reached s g B \<Longrightarrow> rl_request handle request = Inr (m, n, lo, hi) \<Longrightarrow> rl_held m s \<Longrightarrow>
    current_tid (rs_kernel s) < slot_count (rs_kernel s) \<Longrightarrow> \<not> asleep (rs_kernel s) (current_tid (rs_kernel s)) \<Longrightarrow>
    rl_resume m n command lo hi memory request s = Some (s', answer, out) \<Longrightarrow>
    rl_reached s' (g(current_tid (rs_kernel s) := (m, n, rl_owner_now s, l_type request, lo, hi)))
      (if out = Switch then insert (current_tid (rs_kernel s)) B else B - {current_tid (rs_kernel s)})"
| rl_closed: "rl_reached s g B \<Longrightarrow> rl_reached (vfs_record_lock_close ow h s) g B"
| rl_cancelled: "rl_reached s g B \<Longrightarrow> vfs_record_lock_cancel_task t s = Some s' \<Longrightarrow> rl_reached s' g (B - set_option t)"
| rl_ended: "rl_reached s g B \<Longrightarrow> vfs_record_lock_task_cleanup ow s = Some s' \<Longrightarrow> rl_reached s' g B"
| rl_opened: "rl_reached s g B \<Longrightarrow> \<not> vm_destroyed (rs_mounts s m) \<Longrightarrow> rl_reached (vfs_mount_reference m s) g B"
| rl_dropped: "rl_reached s g B \<Longrightarrow> rl_held m s \<Longrightarrow> vfs_mount_release m s = Some s' \<Longrightarrow> rl_reached s' g B"
| rl_retired: "rl_reached s g B \<Longrightarrow> rl_reached (s\<lparr>rs_mounts := (rs_mounts s)(m := (rs_mounts s m)\<lparr>vm_retired := True\<rparr>)\<rparr>) g B"
| rl_scheduled: "rl_reached s g B \<Longrightarrow> slot_count (rs_kernel s) \<le> slot_count k \<Longrightarrow>
    (\<And>w. w \<in> set (rs_waiters s) \<Longrightarrow> asleep k (wt_task w) \<Longrightarrow> asleep (rs_kernel s) (wt_task w)) \<Longrightarrow>
    rl_reached (s\<lparr>rs_kernel := k\<rparr>) g {t \<in> B. asleep k t \<longrightarrow> asleep (rs_kernel s) t}"

definition rl_reachable :: "rl_state \<Rightarrow> (nat \<Rightarrow> rl_wish) \<Rightarrow> bool" where
  "rl_reachable s g \<longleftrightarrow> (\<exists>B. rl_reached s g B)"

lemma rl_wf_mounts:
  assumes "rl_wf s" "\<And>k. vm_references (f k) = vm_references (rs_mounts s k)" "\<And>k. vm_destroyed (f k) = vm_destroyed (rs_mounts s k)"
  shows "rl_wf (s\<lparr>rs_mounts := f\<rparr>)"
  using rl_wfD [OF assms(1)] by (intro rl_wfI) (simp_all add: mount_ok_def assms(2,3) mount_waiters_def waiters_in_range_def)

lemma mount_reference_wf:
  assumes "rl_wf s" "\<not> vm_destroyed (rs_mounts s m)"
  shows "rl_wf (vfs_mount_reference m s)"
proof (rule rl_wfI)
  show "mount_ok k (vfs_mount_reference m s)" for k
    using rl_wfD(4) [OF assms(1), of k] assms(2) by (auto simp: mount_ok_def vfs_mount_reference_def mount_waiters_def)
qed (use rl_wfD(1-3) [OF assms(1)] in \<open>simp_all add: vfs_mount_reference_def waiters_in_range_def\<close>)

lemma rl_operation_round:
  "rl_request handle request = Inr (m, n, lo, hi) \<Longrightarrow>
     vfs_record_lock_operation handle command request memory s = rl_round m n command lo hi memory request s"
  by (simp add: vfs_record_lock_operation_def)

lemma current_tid_upd_cpu: "(\<And>c. c_current (f c) = c_current c) \<Longrightarrow> current_tid (upd_cpu i f k) = current_tid k"
  by (simp add: current_tid_def current_task_def upd_cpu_def nth_list_update_if)

lemma current_tid_ipis [simp]: "current_tid (k\<lparr>k_ipis := i\<rparr>) = current_tid k"
  by (simp add: current_tid_def current_task_def)

lemma sched_current [simp]:
  "current_tid (scheduler_remove t k) = current_tid k" "current_tid (scheduler_insert t k) = current_tid k"
  "current_tid (smp_send_reschedule c k) = current_tid k" "current_tid (scheduler_request c k) = current_tid k"
  by (simp_all add: scheduler_remove_def scheduler_insert_def scheduler_request_def smp_send_reschedule_def current_tid_upd_cpu)

lemma task_run_current [simp]: "current_tid (task_run t k) = current_tid k"
  by (simp add: task_run_def task_set_state_def scheduler_place_task_def Let_def)

lemma run_all_current [simp]: "current_tid (fold task_run ts k) = current_tid k"
  by (induction ts arbitrary: k) simp_all

lemma unlink_self_kernel:
  assumes "rl_unlink_self t s = Some s'" "rl_wf s"
  shows "slot_count (rs_kernel s') = slot_count (rs_kernel s)" "current_tid (rs_kernel s') = current_tid (rs_kernel s)"
    "t_tgid (tsk (rs_kernel s') u) = t_tgid (tsk (rs_kernel s) u)"
proof -
  have c: "current_tid (rs_kernel v') = current_tid (rs_kernel v)" if "vfs_mount_release m v = Some v'" for m v v'
    using that by (auto simp: vfs_mount_release_def vfs_destroy_mount_def vfs_record_lock_mount_cleanup_def
        vfs_record_lock_wake_mount_def Let_def wake_waiters_run split: if_splits)
  consider "s' = s" | w where "w \<in> set (rs_waiters s)" "vfs_record_lock_waiter_remove w s = Some s'"
    using assms(1) waiter_linked_in by (auto simp: rl_unlink_self_def split: option.splits)
  then show "slot_count (rs_kernel s') = slot_count (rs_kernel s)" "current_tid (rs_kernel s') = current_tid (rs_kernel s)"
    "t_tgid (tsk (rs_kernel s') u) = t_tgid (tsk (rs_kernel s) u)"
    using waiter_remove_fields(2) waiter_remove_tgid [OF assms(2)] c
    by (cases, simp, simp, cases, simp, fastforce simp: vfs_record_lock_waiter_remove_def, cases, simp, simp)
qed

lemma rl_reached_wf: "rl_reached s g B \<Longrightarrow> rl_wf s \<and> waits_rightly g s"
proof (induction rule: rl_reached.induct)
  case (rl_start s g)
  then show ?case
    by (simp add: rl_wf_def locks_wf_def waiters_in_range_def mount_ok_def mount_waiters_def waits_rightly_def)
next
  case (rl_begin s g B handle request m n lo hi command memory s' answer out)
  have wf: "rl_wf s" "waits_rightly g s"
    using rl_begin.IH by auto
  note r = rl_request_range [OF rl_begin(2)]
  have round: "rl_round m n command lo hi memory request s = Some (s', answer, out)"
    using rl_begin(6) rl_operation_round [OF rl_begin(2)] by simp
  then have "rl_wf s'"
    using rl_round_wf [OF wf(1) rl_begin(3) r(1,2) rl_begin(4), of n command memory] by auto
  with rl_round_rightly [OF wf(2,1) rl_begin(3) r(1,2) rl_begin(4,5) round] show ?case by blast
next
  case (rl_again s g B handle request m n lo hi command memory s' answer out)
  have wf: "rl_wf s" "waits_rightly g s"
    using rl_again.IH by auto
  note r = rl_request_range [OF rl_again(2)]
  let ?self = "current_tid (rs_kernel s)"
  obtain u where u: "rl_unlink_self ?self s = Some u" "rl_wf u" "rl_held m u" "\<forall>w\<in>set (rs_waiters u). wt_task w \<noteq> ?self"
    using unlink_self_wf [OF wf(1)] rl_again(3) by metis
  note k = unlink_self_kernel [OF u(1) wf(1)]
  have linked: "waiter_linked (current_tid (rs_kernel u)) u = None"
    using u(4) by (auto simp: waiter_linked_def find_None_iff k)
  have round: "rl_round m n command lo hi memory request u = Some (s', answer, out)"
    using rl_again(6) u(1) by (simp add: rl_resume_def)
  have self: "current_tid (rs_kernel u) < slot_count (rs_kernel u)" "rl_owner_now u = rl_owner_now s"
    using rl_again(4) by (simp_all add: rl_owner_now_def k)
  have "rl_wf s'"
    using rl_round_wf [OF u(2,3) r(1,2) self(1), of n command memory] round by auto
  with rl_round_rightly [OF unlink_self_rightly [OF wf(2,1) u(1)] u(2,3) r(1,2) self(1) linked round] show ?case
    unfolding k(2) self(2) by blast
next
  case (rl_closed s g B ow h)
  then show ?case using close_rightly by blast
next
  case (rl_cancelled s g B t s')
  then show ?case
    using cancel_rightly [of g s t s'] cancel_wf [of s "the t"] by (cases t) (force simp: vfs_record_lock_cancel_task_def)+
next
  case (rl_ended s g B ow s')
  then show ?case
    using task_cleanup_rightly task_cleanup_wf [of s ow] by auto
next
  case (rl_opened s g B m)
  then show ?case
    using mount_reference_wf by (auto simp: vfs_mount_reference_def intro: waits_rightly_cong)
next
  case (rl_dropped s g B m s')
  then show ?case
    using mount_release_wf mount_release_rightly by blast
next
  case (rl_retired s g B m)
  then show ?case
    by (auto intro!: rl_wf_mounts intro: waits_rightly_cong split: if_splits)
next
  case (rl_scheduled s g B k)
  then show ?case
    by (auto intro: rl_wf_cong waits_rightly_cong)
qed

lemma rl_reachable_wf: "rl_reachable s g \<Longrightarrow> rl_wf s \<and> waits_rightly g s"
  by (auto simp: rl_reachable_def dest: rl_reached_wf)

text \<open>Who has blocked and still sleeps is in the list of waiters.\<close>

lemma kept_blocked:
  assumes "kept X s s'" "\<forall>t\<in>B. asleep (rs_kernel s) t \<longrightarrow> linked t s" "B' \<subseteq> B - X"
  shows "\<forall>t\<in>B'. asleep (rs_kernel s') t \<longrightarrow> linked t s'"
  using assms unfolding kept_def by blast

lemma rl_reached_linked: "rl_reached s g B \<Longrightarrow> \<forall>t\<in>B. asleep (rs_kernel s) t \<longrightarrow> linked t s"
proof (induction rule: rl_reached.induct)
  case (rl_start s g) then show ?case by simp
next
  case (rl_begin s g B handle request m n lo hi command memory s' answer out)
  have round: "rl_round m n command lo hi memory request s = Some (s', answer, out)"
    using rl_begin(6) rl_operation_round [OF rl_begin(2)] by simp
  note k = kept_round [OF round conjunct1 [OF rl_reached_wf [OF rl_begin(1)]] rl_begin(3,4)]
  show ?case using kept_blocked [OF k(1) rl_begin.IH order_refl] k(2) by auto
next
  case (rl_again s g B handle request m n lo hi command memory s' answer out)
  let ?self = "current_tid (rs_kernel s)"
  have wf: "rl_wf s" using rl_reached_wf [OF rl_again(1)] ..
  obtain u where u: "rl_unlink_self ?self s = Some u" "rl_wf u" "rl_held m u"
    using unlink_self_wf [OF wf] rl_again(3) by metis
  note c = unlink_self_kernel [OF u(1) wf]
  have round: "rl_round m n command lo hi memory request u = Some (s', answer, out)"
    using rl_again(6) u(1) by (simp add: rl_resume_def)
  have self: "current_tid (rs_kernel u) < slot_count (rs_kernel u)" using rl_again(4) by (simp add: c)
  note k = kept_round [OF round u(2,3) self, unfolded c(2)]
  show ?case using kept_blocked [OF kept_trans [OF kept_unlink_self [OF u(1) wf] k(1)] rl_again.IH order_refl] k(2) by auto
next
  case (rl_closed s g B ow h)
  show ?case
    by (rule kept_blocked [OF kept_close [OF conjunct1 [OF rl_reached_wf [OF rl_closed(1)]], of "{}"] rl_closed.IH]) simp
next
  case (rl_cancelled s g B t s')
  have wf: "rl_wf s" using rl_reached_wf [OF rl_cancelled(1)] ..
  show ?case
  proof (cases t)
    case None then show ?thesis using rl_cancelled by (simp add: vfs_record_lock_cancel_task_def)
  next
    case (Some x)
    then have "vfs_record_lock_cancel_task (Some x) s = Some s'" using rl_cancelled(2) by simp
    then show ?thesis by (rule kept_blocked [OF kept_cancel [OF _ wf] rl_cancelled.IH]) (simp add: Some)
  qed
next
  case (rl_ended s g B ow s')
  show ?case
    by (rule kept_blocked [OF kept_task_cleanup [OF rl_ended(2) conjunct1 [OF rl_reached_wf [OF rl_ended(1)]]] rl_ended.IH]) simp
next
  case (rl_opened s g B m)
  then show ?case by (simp add: vfs_mount_reference_def)
next
  case (rl_dropped s g B m s')
  have "waiters_in_range s" using rl_reached_wf [OF rl_dropped(1)] rl_wfD(3) by blast
  then show ?case by (intro kept_blocked [OF kept_mount_release [OF rl_dropped(3), of "{}"] rl_dropped.IH]) simp_all
next
  case (rl_retired s g B m)
  then show ?case by simp
next
  case (rl_scheduled s g B k)
  then show ?case by simp
qed

section \<open>An example\<close>

text \<open>Task 0 locks the bytes 0 to 9 of a file for writing; then, as a task of group 7, it wants the bytes 5 to 14.\<close>

definition rl_file :: vfs_file_handle where
  "rl_file = \<lparr>fh_pipe = False, fh_dentry = Some \<lparr>de_mount = 1, de_node = 2, de_file = True, de_size = 100\<rparr>, fh_offset = 0, fh_flags = 3\<rparr>"

definition rl_want :: "int \<Rightarrow> int \<Rightarrow> int \<Rightarrow> flock" where
  "rl_want type begin len = \<lparr>l_type = type, l_whence = SEEK_SET, l_start = begin, l_len = len, l_pid = 0\<rparr>"

definition rl_empty :: rl_state where
  "rl_empty = \<lparr>rs_kernel = sched_example, rs_locks = [], rs_waiters = [],
     rs_mounts = (\<lambda>_. \<lparr>vm_references = 1, vm_retired = False, vm_destroyed = False\<rparr>)\<rparr>"

definition rl_one :: rl_state where
  "rl_one = rl_empty\<lparr>rs_locks := [\<lparr>rl_mount = 1, rl_node = 2, rl_owner = t_tgid (tsk sched_example 0), rl_type = F_WRLCK,
                                  rl_start = 0, rl_end = 10\<rparr>]\<rparr>"

definition rl_other :: rl_state where
  "rl_other = rl_one\<lparr>rs_kernel := upd_task 0 (\<lambda>t. t\<lparr>t_tgid := 7\<rparr>) sched_example\<rparr>"

lemma rl_want_type [simp]: "l_type (rl_want type b l) = type"
  by (simp add: rl_want_def)

lemma rl_want_request: "0 \<le> b \<Longrightarrow> b \<le> 1000 \<Longrightarrow> 0 < l \<Longrightarrow> l \<le> 1000 \<Longrightarrow> type \<in> {F_RDLCK, F_WRLCK, F_UNLCK} \<Longrightarrow>
    rl_request rl_file (rl_want type b l) = Inr (1, 2, nat b, nat b + nat l)"
  by (auto simp: rl_request_def rl_file_def rl_want_def vfs_record_lock_normalize_range_def Let_def nat_add_distrib)

lemma rl_first: "vfs_record_lock_operation rl_file F_SETLK (rl_want F_WRLCK 0 10) 9 rl_empty =
    Some (rl_one, rl_want F_WRLCK 0 10, Done VFS_OK)"
  by (simp add: vfs_record_lock_operation_def rl_want_request rl_round_def Let_def rl_empty_def rl_one_def find_conflict_def
      vfs_record_lock_apply_def apply_lock_def split_count_def vfs_record_lock_wake_key_def wake_waiters_run lock_of_def
      vfs_record_lock_key_equal_def rl_owner_now_def io_example_facts)

lemma rl_other_reached: "\<exists>g. rl_reached rl_other g {}"
proof -
  have e: "rl_reached rl_empty (\<lambda>_. (0, 0, 0, 0, 0, 0)) {}"
    by (rule rl_start) (simp_all add: rl_empty_def)
  have "\<exists>g. rl_reached rl_one g {}"
    using rl_begin [OF e rl_want_request [of 0 10 F_WRLCK] _ _ _ rl_first]
    by (auto simp: rl_held_def mount_waiters_def rl_empty_def io_example_facts waiter_linked_def)
  then obtain g where g: "rl_reached rl_one g {}" ..
  have "rl_reached (rl_one\<lparr>rs_kernel := upd_task 0 (\<lambda>t. t\<lparr>t_tgid := 7\<rparr>) sched_example\<rparr>) g
      {t \<in> {}. asleep (upd_task 0 (\<lambda>t. t\<lparr>t_tgid := 7\<rparr>) sched_example) t \<longrightarrow> asleep (rs_kernel rl_one) t}"
    by (rule rl_scheduled [OF g]) (simp_all add: rl_one_def rl_empty_def)
  then show ?thesis
    by (auto simp: rl_other_def)
qed

lemma rl_other_reachable: "\<exists>g. rl_reachable rl_other g"
  using rl_other_reached by (auto simp: rl_reachable_def)

lemma rl_one_tgid: "t_tgid (tsk sched_example 0) = 0"
  by (simp add: example_defs)

lemma rl_other_self: "current_tid (rs_kernel rl_other) = 0" "slot_count (rs_kernel rl_other) = 4" "rl_owner_now rl_other = 7"
  "rs_waiters rl_other = []" "rs_mounts rl_other m = \<lparr>vm_references = 1, vm_retired = False, vm_destroyed = False\<rparr>"
  "rs_locks rl_other = [\<lparr>rl_mount = 1, rl_node = 2, rl_owner = 0, rl_type = F_WRLCK, rl_start = 0, rl_end = 10\<rparr>]"
proof -
  have k: "rs_kernel rl_other = upd_task 0 (\<lambda>t. t\<lparr>t_tgid := 7\<rparr>) sched_example"
    by (simp add: rl_other_def)
  show c: "current_tid (rs_kernel rl_other) = 0" "slot_count (rs_kernel rl_other) = 4"
    unfolding k by (simp_all add: io_example_facts)
  show "rl_owner_now rl_other = 7"
    unfolding rl_owner_now_def c unfolding k by (simp add: upd_task_def io_example_facts)
  show "rs_waiters rl_other = []" "rs_mounts rl_other m = \<lparr>vm_references = 1, vm_retired = False, vm_destroyed = False\<rparr>"
    "rs_locks rl_other = [\<lparr>rl_mount = 1, rl_node = 2, rl_owner = 0, rl_type = F_WRLCK, rl_start = 0, rl_end = 10\<rparr>]"
    by (simp_all add: rl_other_def rl_one_def rl_empty_def rl_one_tgid)
qed

definition rl_sleeper :: rl_state where
  "rl_sleeper = fst (rl_block (vfs_record_lock_waiter_add 0 1 2 rl_other))"

lemma rl_second: "vfs_record_lock_operation rl_file F_SETLKW (rl_want F_WRLCK 5 10) 9 rl_other = Some (rl_sleeper, rl_want F_WRLCK 5 10, Switch)"
proof -
  have c: "find_conflict 1 2 7 F_WRLCK 5 15 (rs_locks rl_other) \<noteq> None"
    by (simp add: rl_other_self find_conflict_def vfs_record_lock_key_equal_def vfs_record_lock_conflicts_def vfs_record_lock_overlap_def)
  have i: "\<not> rl_interrupted rl_other" "\<not> t_ready (tsk (rs_kernel rl_other) 0)"
    by (simp_all add: rl_interrupted_def rl_other_self Let_def) (simp_all add: rl_other_def upd_task_def io_example_facts)
  have "snd (rl_block (vfs_record_lock_waiter_add 0 1 2 rl_other))"
    by (simp add: rl_block_def task_fall_blocked_reason_def Let_def rl_other_self i)
  then have b: "rl_block (vfs_record_lock_waiter_add 0 1 2 rl_other) = (rl_sleeper, True)"
    by (simp add: rl_sleeper_def prod_eq_iff)
  show ?thesis
    using c i(1) b
    by (simp add: vfs_record_lock_operation_def rl_want_request rl_round_def Let_def rl_other_self waiter_linked_def del: not_None_eq)
qed

lemma rl_sleeper_facts: "rs_waiters rl_sleeper = [\<lparr>wt_mount = 1, wt_node = 2, wt_task = 0\<rparr>]" "asleep (rs_kernel rl_sleeper) 0"
  "rs_locks rl_sleeper = rs_locks rl_other"
proof -
  note f = rl_block_facts [OF surjective_pairing, where s = "vfs_record_lock_waiter_add 0 1 2 rl_other"]
  show "rs_waiters rl_sleeper = [\<lparr>wt_mount = 1, wt_node = 2, wt_task = 0\<rparr>]" "rs_locks rl_sleeper = rs_locks rl_other"
    unfolding rl_sleeper_def f by (simp_all add: rl_other_self)
  show "asleep (rs_kernel rl_sleeper) 0"
    by (simp add: rl_sleeper_def rl_block_def task_fall_blocked_reason_def Let_def rl_other_self asleep_def tsk_task_set_state
        upd_task_def) (simp add: rl_other_def upd_task_def io_example_facts)
qed

lemma rl_sleeper_reached: "\<exists>g. rl_reached rl_sleeper g {0}"
proof -
  obtain g where g: "rl_reached rl_other g {}"
    using rl_other_reached ..
  show ?thesis
    using rl_begin [OF g rl_want_request [of 5 10 F_WRLCK] _ _ _ rl_second]
    by (auto simp: rl_held_def mount_waiters_def rl_other_self waiter_linked_def)
qed

section \<open>Properties\<close>

text \<open>C13: In every state that the operations can reach, in whatever order they run, a byte of a file that one thread group has
  locked for writing is locked by no other group, a group has one type of lock on a byte, and so several groups share a byte only for
  reading.\<close>
theorem record_locks_exclude:
  assumes "rl_reachable s g" "locked (rs_locks s) m n ow b ty" "locked (rs_locks s) m n ow' b ty'"
  shows "if ow' = ow then ty' = ty else ty = F_RDLCK \<and> ty' = F_RDLCK"
proof -
  have wf: "sorted_wrt apart (rs_locks s)" "\<forall>r\<in>set (rs_locks s). rl_type r \<in> {F_RDLCK, F_WRLCK}"
    using rl_reachable_wf [OF assms(1)] by (auto simp: rl_wf_def locks_wf_def)
  obtain r t where r: "r \<in> set (rs_locks s)" "lock_of m n ow r" "covers r b" "rl_type r = ty"
    and t: "t \<in> set (rs_locks s)" "lock_of m n ow' t" "covers t b" "rl_type t = ty'"
    using assms(2,3) by (auto simp: locked_def)
  have "r = t \<or> apart r t"
    using r(1) t(1) wf(1) apart_sym by (metis in_set_conv_nth linorder_neqE_nat sorted_wrt_iff_nth_less)
  then show ?thesis
    using r t wf(2) by (auto simp: apart_def lock_of_def vfs_record_lock_key_equal_def covers_def split: if_splits)
qed

lemma record_locks_exclude_witness:
  "locked (rs_locks rl_other) 1 2 0 5 F_WRLCK \<and> \<not> locked (rs_locks rl_other) 1 2 7 5 F_RDLCK"
proof -
  obtain g where g: "rl_reachable rl_other g"
    using rl_other_reachable ..
  have l: "locked (rs_locks rl_other) 1 2 0 5 F_WRLCK"
    by (simp add: rl_other_self lock_of_def vfs_record_lock_key_equal_def covers_def)
  then show ?thesis
    using record_locks_exclude [OF g l, of 7 F_RDLCK] by auto
qed

text \<open>C12: No wake-up is lost and no sleeper is forgotten.  In every reachable state a task that has blocked in \<open>F_SETLKW\<close> and still
  sleeps there is in the list of waiters, for the file of its request, and it sleeps for a reason: some other thread group still has a
  byte of the range it wants locked, one of the two for writing.  So as soon as the last such lock is given up, in any of the ways a
  lock can go, and also when its group ends, the task does not sleep any more.\<close>
theorem record_lock_sleeps_for_conflict:
  assumes "rl_reached s g blocked" "t \<in> blocked" "asleep (rs_kernel s) t"
  shows "\<exists>w\<in>set (rs_waiters s). wt_task w = t \<and> (\<exists>ow ty lo hi. g t = (wt_mount w, wt_node w, ow, ty, lo, hi) \<and>
    (\<exists>ow' b ty'. ow' \<noteq> ow \<and> lo \<le> b \<and> b < hi \<and> locked (rs_locks s) (wt_mount w) (wt_node w) ow' b ty' \<and>
       (ty = F_WRLCK \<or> ty' = F_WRLCK)))"
proof -
  have wf: "rl_wf s" "waits_rightly g s"
    using rl_reached_wf [OF assms(1)] by auto
  obtain w where w: "w \<in> set (rs_waiters s)" "wt_task w = t"
    using rl_reached_linked [OF assms(1)] assms(2,3) by auto
  obtain m n ow ty lo hi where gw: "g t = (m, n, ow, ty, lo, hi)"
    by (cases "g t")
  then have m: "m = wt_mount w" "n = wt_node w" and lo: "lo < hi" and c: "find_conflict m n ow ty lo hi (rs_locks s) \<noteq> None"
    using wf(2) w assms(3) by (auto simp: waits_rightly_def wish_ok_def hinders_def)
  note find_conflict_bytes [OF rl_wfD(1) [OF wf(1)] lo, THEN iffD1, THEN conjunct2, OF c]
  then show ?thesis
    unfolding gw m by - (rule bexI [OF _ w(1)], rule conjI [OF w(2)], rule exI [of _ ow], rule exI [of _ ty], rule exI [of _ lo],
        rule exI [of _ hi], rule conjI [OF refl])
qed

lemma record_lock_sleeps_for_conflict_witness:
  "\<exists>w\<in>set (rs_waiters rl_sleeper). wt_task w = 0 \<and> (\<exists>ow ty lo hi ow' b ty'. ow' \<noteq> ow \<and> lo \<le> b \<and> b < hi
     \<and> locked (rs_locks rl_sleeper) (wt_mount w) (wt_node w) ow' b ty' \<and> (ty = F_WRLCK \<or> ty' = F_WRLCK))"
proof -
  obtain g where g: "rl_reached rl_sleeper g {0}"
    using rl_sleeper_reached ..
  show ?thesis
    using record_lock_sleeps_for_conflict [OF g _ rl_sleeper_facts(2)] by blast
qed

text \<open>C14: Setting or removing a lock changes exactly the bytes of its range.  When no other group is in the way, the group's lock on a
  byte of the range is afterwards of the type that was set, or none; every other lock on every byte is what it was, whatever was split,
  shortened or merged in the list; the list is again sorted out into separate locks; and the only other outcome is that memory ran out,
  with the list as it was.  The panic for missing nodes is never reached.\<close>
theorem record_lock_apply_exact:
  assumes "locks_wf rs" "lo < hi" "type \<in> {F_RDLCK, F_WRLCK, F_UNLCK}" "find_conflict m n ow type lo hi rs = None"
  shows "\<exists>rs' st. apply_lock m n ow type lo hi memory rs = Some (rs', st) \<and> locks_wf rs' \<and>
      (if st = VFS_OK
       then \<forall>m' n' ow' b ty. locked rs' m' n' ow' b ty \<longleftrightarrow>
              (if m' = m \<and> n' = n \<and> ow' = ow \<and> lo \<le> b \<and> b < hi then type \<noteq> F_UNLCK \<and> ty = type else locked rs m' n' ow' b ty)
       else st = VFS_ERROR_NO_MEMORY \<and> rs' = rs)"
  by (rule apply_lock_exact [OF assms])

text \<open>A hole in the middle of a lock.\<close>

lemma record_lock_apply_exact_witness:
  "\<exists>rs'. apply_lock 1 2 0 F_UNLCK 4 6 1 (rs_locks rl_other) = Some (rs', VFS_OK) \<and> locks_wf rs' \<and>
     locked rs' 1 2 0 3 F_WRLCK \<and> \<not> locked rs' 1 2 0 4 F_WRLCK \<and> \<not> locked rs' 1 2 0 5 F_WRLCK \<and> locked rs' 1 2 0 6 F_WRLCK"
proof -
  have wf: "locks_wf (rs_locks rl_other)"
    by (simp add: rl_other_self locks_wf_def)
  have ok: "\<exists>rs'. apply_lock 1 2 0 F_UNLCK 4 6 1 (rs_locks rl_other) = Some (rs', VFS_OK)"
    by (simp add: apply_lock_def rl_other_self split_count_def lock_of_def vfs_record_lock_key_equal_def vfs_record_lock_overlap_def)
  then show ?thesis
    using record_lock_apply_exact [OF wf, of 4 6 F_UNLCK 1 2 0 1]
    by (auto simp: rl_other_self find_conflict_def lock_of_def vfs_record_lock_key_equal_def covers_def)
qed

text \<open>\<open>F_SETLK\<close> refuses exactly when another group has a byte of the range locked and one of the two wants to write; it then
  changes nothing.  Otherwise the lock is set, or memory ran out and nothing is changed.\<close>
theorem record_lock_setlk_exact:
  assumes "rl_reachable s g" "rl_request handle request = Inr (m, n, lo, hi)" "rl_held m s" "\<not> vm_retired (rs_mounts s m)"
  shows "if l_type request \<noteq> F_UNLCK \<and> (\<exists>ow b ty. ow \<noteq> rl_owner_now s \<and> lo \<le> b \<and> b < hi \<and> locked (rs_locks s) m n ow b ty \<and>
            (l_type request = F_WRLCK \<or> ty = F_WRLCK))
     then vfs_record_lock_operation handle F_SETLK request memory s = Some (s, request, Done VFS_ERROR_AGAIN)
     else \<exists>s' st. vfs_record_lock_operation handle F_SETLK request memory s = Some (s', request, Done st) \<and>
       (if st = VFS_OK
        then \<forall>m' n' ow' b ty. locked (rs_locks s') m' n' ow' b ty \<longleftrightarrow>
               (if m' = m \<and> n' = n \<and> ow' = rl_owner_now s \<and> lo \<le> b \<and> b < hi then l_type request \<noteq> F_UNLCK \<and> ty = l_type request
                else locked (rs_locks s) m' n' ow' b ty)
        else st = VFS_ERROR_NO_MEMORY \<and> s' = s)"
proof -
  have wf: "rl_wf s"
    using rl_reachable_wf [OF assms(1)] by simp
  note r = rl_request_range [OF assms(2)] and alive = held_alive [OF wf assms(3)]
  let ?c = "find_conflict m n (rl_owner_now s) (l_type request) lo hi (rs_locks s)"
  note c = find_conflict_bytes [OF rl_wfD(1) [OF wf] r(1), of m n "rl_owner_now s" "l_type request"]
  note op = vfs_record_lock_operation_def rl_round_def Let_def assms(2,4) alive
  show ?thesis
  proof (cases "?c = None")
    case False
    then show ?thesis
      unfolding c [symmetric] by (simp add: op del: not_None_eq)
  next
    case True
    obtain rs st where a: "apply_lock m n (rl_owner_now s) (l_type request) lo hi memory (rs_locks s) = Some (rs, st)"
      and l: "if st = VFS_OK
       then \<forall>m' n' ow' b ty. locked rs m' n' ow' b ty \<longleftrightarrow>
              (if m' = m \<and> n' = n \<and> ow' = rl_owner_now s \<and> lo \<le> b \<and> b < hi then l_type request \<noteq> F_UNLCK \<and> ty = l_type request
               else locked (rs_locks s) m' n' ow' b ty)
       else st = VFS_ERROR_NO_MEMORY \<and> rs = rs_locks s"
      using apply_lock_exact [OF rl_wfD(1) [OF wf] r(1,2) True, of memory] by - (elim exE conjE, rule that)
    let ?s = "if st = VFS_OK then vfs_record_lock_wake_key m n (s\<lparr>rs_locks := rs\<rparr>) else s"
    have "vfs_record_lock_operation handle F_SETLK request memory s = Some (?s, request, Done st)"
      using True by (simp add: op vfs_record_lock_apply_def a)
    moreover have "rs_locks ?s = (if st = VFS_OK then rs else rs_locks s)"
      by (simp add: vfs_record_lock_wake_key_def)
    ultimately show ?thesis
      using l unfolding c [symmetric] if_not_P [OF iffD2 [OF not_not True]] by (intro exI [of _ ?s] exI [of _ st]) auto
  qed
qed

lemma record_lock_setlk_exact_witness:
  "vfs_record_lock_operation rl_file F_SETLK (rl_want F_RDLCK 5 10) 9 rl_other = Some (rl_other, rl_want F_RDLCK 5 10, Done VFS_ERROR_AGAIN)"
proof -
  obtain g where g: "rl_reachable rl_other g"
    using rl_other_reachable ..
  have req: "rl_request rl_file (rl_want F_RDLCK 5 10) = Inr (1, 2, 5, 15)"
    by (simp add: rl_want_request)
  have h: "rl_held 1 rl_other" "\<not> vm_retired (rs_mounts rl_other 1)"
    by (simp_all add: rl_held_def mount_waiters_def rl_other_self)
  have l: "l_type (rl_want F_RDLCK 5 10) \<noteq> F_UNLCK \<and> (\<exists>ow b ty. ow \<noteq> rl_owner_now rl_other \<and> 5 \<le> b \<and> b < 15 \<and> locked (rs_locks rl_other) 1 2 ow b ty \<and>
            (l_type (rl_want F_RDLCK 5 10) = F_WRLCK \<or> ty = F_WRLCK))"
  proof -
    have "locked (rs_locks rl_other) 1 2 0 5 F_WRLCK"
      by (simp add: rl_other_self lock_of_def vfs_record_lock_key_equal_def covers_def)
    then show ?thesis
      unfolding rl_want_type rl_other_self(3)
      by (intro conjI exI [of _ 0] exI [of _ 5] exI [of _ F_WRLCK]) simp_all
  qed
  show ?thesis
    using record_lock_setlk_exact [OF g req h, of 9] unfolding if_P [OF l] .
qed

text \<open>The range of a request is computed exactly, whatever the 64-bit numbers in it: the start counts from the start, the offset or
  the end of the file; a start beyond \<open>INT64_MAX\<close> is an overflow and one before the file invalid; a length of zero means all
  further bytes, a negative one the bytes before the start.  Nothing wraps around.\<close>
theorem record_lock_range_exact:
  assumes "l_whence request \<in> {SEEK_SET, SEEK_CUR, SEEK_END}" "- INT64_MAX - 1 \<le> l_start request" "l_start request \<le> INT64_MAX"
    "- INT64_MAX - 1 \<le> l_len request" "l_len request \<le> INT64_MAX"
    "S = (if l_whence request = SEEK_SET then 0 else if l_whence request = SEEK_CUR then uint offset else uint file_size) + l_start request"
  shows "vfs_record_lock_normalize_range offset file_size request =
    (if S > INT64_MAX then Inl VFS_ERROR_OVERFLOW
     else if S < 0 \<or> S + l_len request < 0 then Inl VFS_ERROR_INVALID
     else if l_len request = 0 then Inr (nat S, U64_MAX)
     else if l_len request > 0 then Inr (nat S, nat (S + l_len request))
     else Inr (nat (S + l_len request), nat S))"
proof -
  define base where "base = (if l_whence request = SEEK_SET then 0 else if l_whence request = SEEK_CUR then uint offset else uint file_size)"
  have b: "0 \<le> base"
    by (simp add: base_def)
  have S: "S = base + l_start request"
    by (simp add: assms(6) base_def)
  let ?n = "nat S" and ?l = "l_len request"
  have over: "l_start request > 0 \<and> base > INT64_MAX - l_start request \<longleftrightarrow> S > INT64_MAX" if "base \<le> INT64_MAX"
    using that b by (auto simp: S)
  have bu: "base \<le> INT64_MAX"
    using uint_lt2p [of offset] uint_lt2p [of file_size] by (simp add: base_def)
  have under: "\<not> (l_start request < 0 \<and> base < (- INT64_MAX - 1) - l_start request)"
    using b assms(2) by linarith
  have ahead: "\<not> nat ?l > U64_MAX - ?n \<and> (?n + nat ?l) mod 2 ^ 64 = nat (S + ?l) \<and> \<not> (?n + nat ?l) mod 2 ^ 64 \<le> ?n"
    if "0 \<le> S" "S \<le> INT64_MAX" "0 < ?l"
  proof -
    have e: "?n + nat ?l = nat (S + ?l)" "nat (S + ?l) < 2 ^ 64"
      using that assms(5) by (auto simp: nat_add_distrib)
    then have "(?n + nat ?l) mod 2 ^ 64 = nat (S + ?l)"
      by simp
    then show ?thesis
      using e that by auto
  qed
  have behind: "nat (- (?l + 1)) + 1 = nat (- ?l)" if "?l < 0"
    using that by simp
  show ?thesis
    unfolding vfs_record_lock_normalize_range_def Let_def base_def [symmetric] S [symmetric] over [OF bu]
    using assms(1) under ahead behind by (auto simp: nat_diff_distrib [symmetric] nat_le_eq_zle)
qed

lemma record_lock_range_exact_witness:
  "vfs_record_lock_normalize_range 7 100 \<lparr>l_type = F_RDLCK, l_whence = SEEK_END, l_start = -10, l_len = -20, l_pid = 0\<rparr> = Inr (70, 90)"
  using record_lock_range_exact [of "\<lparr>l_type = F_RDLCK, l_whence = SEEK_END, l_start = -10, l_len = -20, l_pid = 0\<rparr>" 90 7 100] by simp

section \<open>Two limits\<close>

text \<open>A lock may begin past \<open>INT64_MAX\<close>: what is left of \<open>[INT64_MAX, \<infinity>)\<close> when the \<open>INT64_MAX\<close> bytes from its start are
  unlocked.  \<open>F_GETLK\<close> then reports a negative start.\<close>

lemma record_lock_getlk_negative:
  "let far = \<lparr>rl_mount = 1, rl_node = 2, rl_owner = 0, rl_type = F_WRLCK, rl_start = 9223372036854775807, rl_end = U64_MAX\<rparr>;
       hole = \<lparr>l_type = F_UNLCK, l_whence = SEEK_SET, l_start = INT64_MAX, l_len = INT64_MAX, l_pid = 0\<rparr> in
   vfs_record_lock_normalize_range 0 0 hole = Inr (9223372036854775807, 18446744073709551614) \<and>
   apply_lock 1 2 0 F_UNLCK 9223372036854775807 18446744073709551614 0 [far] = Some ([far\<lparr>rl_start := 18446744073709551614\<rparr>], VFS_OK) \<and>
   l_start (describe_conflict (find_conflict 1 2 7 F_WRLCK 0 U64_MAX [far\<lparr>rl_start := 18446744073709551614\<rparr>]) 0 U64_MAX hole) = -2"
  by (simp add: Let_def vfs_record_lock_normalize_range_def apply_lock_def split_count_def lock_of_def vfs_record_lock_key_equal_def
      vfs_record_lock_overlap_def find_conflict_def vfs_record_lock_conflicts_def describe_conflict_def vfs_record_lock_describe_def
      to_int64_def)

text \<open>Nothing but the waiter keeps the mount while its task sleeps: when another thread closes the descriptor meanwhile and the mount
  is retired, the task goes on with a mount that its own waiter has just freed.\<close>

lemma record_lock_wait_dangles:
  assumes "waiter_linked (current_tid (rs_kernel s)) s = Some w" "vm_retired (rs_mounts s (wt_mount w))"
    "vm_references (rs_mounts s (wt_mount w)) = 1"
  shows "rl_resume (wt_mount w) n command lo hi memory request s = None"
proof -
  obtain u where u: "vfs_record_lock_waiter_remove w s = Some u" "vm_destroyed (rs_mounts u (wt_mount w))"
    using assms(2,3) mount_release_fields(5) [of "wt_mount w" "s\<lparr>rs_waiters := remove1 w (rs_waiters s)\<rparr>" _ "wt_mount w"]
    by (auto simp: vfs_record_lock_waiter_remove_def vfs_mount_release_def vfs_destroy_mount_def Let_def)
  then show ?thesis
    using assms(1) by (simp add: rl_resume_def rl_unlink_self_def rl_round_def)
qed

end
