(* ===== verification/Pipe.thy ===== *)
theory Pipe
  imports RecordLockOps
begin

text \<open>
  The ring buffer of a pipe, \<open>vfs_pipe_io\<close> of \<^verbatim>\<open>kernel/fs/vfs.c\<close>.  The interface is a stream of bytes: what comes out is
  what went in, in the same order.
\<close>

section \<open>The interface of a stream\<close>

datatype 'a stream_op = Put "'a list" | Get nat

locale byte_stream =
  fixes put :: "'a list \<Rightarrow> 'p \<Rightarrow> 'p"
    and get :: "nat \<Rightarrow> 'p \<Rightarrow> 'a list \<times> 'p"
    and contents :: "'p \<Rightarrow> 'a list"
    and capacity :: nat
    and wf :: "'p \<Rightarrow> bool"
  assumes put_law: "wf p \<Longrightarrow> length (contents p) + length xs \<le> capacity \<Longrightarrow> wf (put xs p) \<and> contents (put xs p) = contents p @ xs"
    and get_law: "wf p \<Longrightarrow> n \<le> length (contents p) \<Longrightarrow>
      wf (snd (get n p)) \<and> fst (get n p) = take n (contents p) \<and> contents (snd (get n p)) = drop n (contents p)"
begin

primrec step :: "'a stream_op \<Rightarrow> 'p \<Rightarrow> 'p \<times> 'a list \<times> 'a list" where
  "step (Put xs) p = (put xs p, xs, [])"
| "step (Get n) p = (let (ys, p) = get n p in (p, [], ys))"

primrec possible :: "'a stream_op \<Rightarrow> 'p \<Rightarrow> bool" where
  "possible (Put xs) p \<longleftrightarrow> length (contents p) + length xs \<le> capacity"
| "possible (Get n) p \<longleftrightarrow> n \<le> length (contents p)"

text \<open>One operation neither loses, adds nor reorders anything.\<close>

lemma step_stream:
  assumes "wf p" "possible x p" "step x p = (p', went_in, came_out)"
  shows "wf p'" "came_out @ contents p' = contents p @ went_in"
proof (atomize (full), cases x)
  case (Put xs)
  then show "wf p' \<and> came_out @ contents p' = contents p @ went_in"
    using assms(2,3) put_law [OF assms(1), of xs] by auto
next
  case (Get n)
  then have "p' = snd (get n p)" "came_out = fst (get n p)" "went_in = []"
    using assms(3) by (simp_all add: case_prod_beta)
  then show "wf p' \<and> came_out @ contents p' = contents p @ went_in"
    using assms(2) get_law [OF assms(1), of n] Get by simp
qed

end

section \<open>The ring\<close>

abbreviation VFS_PIPE_CAPACITY :: nat where "VFS_PIPE_CAPACITY \<equiv> 65536"
abbreviation VFS_PIPE_ATOMIC :: nat where "VFS_PIPE_ATOMIC \<equiv> 4096"

record vfs_pipe =
  pp_identity :: u64
  pp_head :: nat
  pp_used :: nat
  pp_read_open :: bool
  pp_write_open :: bool
  pp_data :: "u8 list"

definition memcpy_at :: "nat \<Rightarrow> u8 list \<Rightarrow> u8 list \<Rightarrow> u8 list" where
  "memcpy_at pos xs ys = take pos ys @ xs @ drop (pos + length xs) ys"

text \<open>The transfer of \<open>n\<close> bytes in two pieces, into the ring and out of it.\<close>

definition pipe_store :: "u8 list \<Rightarrow> vfs_pipe \<Rightarrow> vfs_pipe" where
  "pipe_store xs p =
     (let position = (pp_head p + pp_used p) mod VFS_PIPE_CAPACITY;
          first = min (VFS_PIPE_CAPACITY - position) (length xs) in
      p\<lparr>pp_data := memcpy_at 0 (drop first xs) (memcpy_at position (take first xs) (pp_data p)),
        pp_used := pp_used p + length xs\<rparr>)"

definition pipe_fetch :: "nat \<Rightarrow> vfs_pipe \<Rightarrow> u8 list \<times> vfs_pipe" where
  "pipe_fetch n p =
     (let position = pp_head p; first = min (VFS_PIPE_CAPACITY - position) n in
      (take first (drop position (pp_data p)) @ take (n - first) (pp_data p),
       p\<lparr>pp_head := (pp_head p + n) mod VFS_PIPE_CAPACITY, pp_used := pp_used p - n\<rparr>))"

definition pipe_contents :: "vfs_pipe \<Rightarrow> u8 list" where
  "pipe_contents p = map (\<lambda>i. pp_data p ! ((pp_head p + i) mod VFS_PIPE_CAPACITY)) [0..<pp_used p]"

definition pipe_wf :: "vfs_pipe \<Rightarrow> bool" where
  "pipe_wf p \<longleftrightarrow> pp_head p < VFS_PIPE_CAPACITY \<and> pp_used p \<le> VFS_PIPE_CAPACITY \<and> length (pp_data p) = VFS_PIPE_CAPACITY"

lemma pipe_contents_length [simp]: "length (pipe_contents p) = pp_used p"
  by (simp add: pipe_contents_def)

lemma memcpy_at_length: "pos + length xs \<le> length ys \<Longrightarrow> length (memcpy_at pos xs ys) = length ys"
  by (simp add: memcpy_at_def)

lemma memcpy_at_nth:
  "pos + length xs \<le> length ys \<Longrightarrow> i < length ys \<Longrightarrow>
     memcpy_at pos xs ys ! i = (if pos \<le> i \<and> i < pos + length xs then xs ! (i - pos) else ys ! i)"
  by (auto simp: memcpy_at_def nth_append)

text \<open>What \<open>pipe_store\<close> writes: byte \<open>j\<close> goes \<open>j\<close> places after the end, around the ring.\<close>

lemma pipe_store_length: "pipe_wf p \<Longrightarrow> length xs \<le> VFS_PIPE_CAPACITY \<Longrightarrow> length (pp_data (pipe_store xs p)) = VFS_PIPE_CAPACITY"
  by (auto simp: pipe_store_def pipe_wf_def Let_def memcpy_at_length min_def)

lemma ring_place:
  fixes e j c :: nat
  assumes "e < c" "j < c"
  shows "(e + j) mod c = (if e + j < c then e + j else e + j - c)"
  using assms by (simp add: mod_if)

lemma pipe_store_nth:
  assumes "pipe_wf p" "length xs + pp_used p \<le> VFS_PIPE_CAPACITY" "i < pp_used p + length xs"
  shows "pp_data (pipe_store xs p) ! ((pp_head p + i) mod VFS_PIPE_CAPACITY) =
    (if i < pp_used p then pp_data p ! ((pp_head p + i) mod VFS_PIPE_CAPACITY) else xs ! (i - pp_used p))"
proof -
  define c where "c = VFS_PIPE_CAPACITY"
  define e where "e = (pp_head p + pp_used p) mod c"
  define k where "k = (pp_head p + i) mod c"
  define f where "f = min (c - e) (length xs)"
  have e: "e < c" and k: "k < c" and h: "pp_head p < c" and d: "length (pp_data p) = c" and u: "pp_used p + length xs \<le> c"
    using assms by (auto simp: e_def k_def c_def pipe_wf_def)
  have e2: "e = (if pp_head p + pp_used p < c then pp_head p + pp_used p else pp_head p + pp_used p - c)"
    using h u unfolding e_def by (simp add: mod_if)
  have k2: "k = (if pp_head p + i < c then pp_head p + i else pp_head p + i - c)"
    using h u assms(3) unfolding k_def by (simp add: mod_if)
  have data: "pp_data (pipe_store xs p) = memcpy_at 0 (drop f xs) (memcpy_at e (take f xs) (pp_data p))"
    by (simp add: pipe_store_def Let_def f_def e_def c_def)
  have f: "f \<le> length xs" "e + f \<le> c" "length xs - f \<le> e"
    using e u by (auto simp: f_def min_def)
  have l: "length (memcpy_at e (take f xs) (pp_data p)) = c"
    using f d by (simp add: memcpy_at_length)
  have n: "pp_data (pipe_store xs p) ! k =
      (if k < length xs - f then xs ! (f + k) else if e \<le> k \<and> k < e + f then xs ! (k - e) else pp_data p ! k)"
    using f d k e l unfolding data by (subst memcpy_at_nth) (auto simp: memcpy_at_nth)
  have fc: "f = length xs \<or> e + f = c"
    using e by (auto simp: f_def min_def)
  have "(if k < length xs - f then xs ! (f + k) else if e \<le> k \<and> k < e + f then xs ! (k - e) else pp_data p ! k) =
      (if i < pp_used p then pp_data p ! k else xs ! (i - pp_used p))"
  proof (cases "i < pp_used p")
    case True
    have "\<not> k < length xs - f"
      using True e2 k2 h u f fc by (simp split: if_splits) linarith+
    moreover have "\<not> (e \<le> k \<and> k < e + f)"
      using True e2 k2 h u f fc by (simp split: if_splits) linarith+
    ultimately show ?thesis
      using True by auto
  next
    case False
    define j where "j = i - pp_used p"
    have j: "i = pp_used p + j" "j < length xs"
      using False assms(3) by (simp_all add: j_def)
    have kj: "k = (if e + j < c then e + j else e + j - c)"
      using e2 k2 j h u by (simp add: add.assoc split: if_splits)
    show ?thesis
    proof (cases "e + j < c")
      case True
      then have "j < f" "k = e + j" "\<not> k < length xs - f"
        using fc j kj f by auto
      then have "e \<le> k \<and> k < e + f" "k - e = i - pp_used p" "\<not> k < length xs - f"
        using j by auto
      then show ?thesis
        using False by simp
    next
      case over: False
      then have "f \<noteq> length xs"
        using f(2) j(2) by linarith
      then have ec: "e + f = c"
        using fc by simp
      then have fj: "f \<le> j"
        using over by linarith
      have "k = j - f"
        using kj over ec by auto
      then have "f + k = i - pp_used p" "k < length xs - f"
        using fj j by linarith+
      then show ?thesis
        using False by simp
    qed
  qed
  then show ?thesis
    using n by (simp add: k_def c_def)
qed

lemma pipe_store_stream:
  assumes "pipe_wf p" "pp_used p + length xs \<le> VFS_PIPE_CAPACITY"
  shows "pipe_wf (pipe_store xs p)" "pipe_contents (pipe_store xs p) = pipe_contents p @ xs"
proof -
  have f: "pp_head (pipe_store xs p) = pp_head p" "pp_used (pipe_store xs p) = pp_used p + length xs"
    by (simp_all add: pipe_store_def Let_def)
  show "pipe_wf (pipe_store xs p)"
    using assms pipe_store_length [OF assms(1), of xs] by (simp add: pipe_wf_def f)
  show "pipe_contents (pipe_store xs p) = pipe_contents p @ xs"
    using pipe_store_nth [OF assms(1)] assms(2)
    by (intro nth_equalityI) (auto simp: f pipe_contents_def nth_append add.commute)
qed

lemma pipe_fetch_stream:
  assumes "pipe_wf p" "n \<le> pp_used p"
  shows "pipe_wf (snd (pipe_fetch n p))" "fst (pipe_fetch n p) = take n (pipe_contents p)"
    "pipe_contents (snd (pipe_fetch n p)) = drop n (pipe_contents p)"
proof -
  show "pipe_wf (snd (pipe_fetch n p))"
    using assms unfolding pipe_wf_def by (simp add: pipe_fetch_def Let_def) linarith
  have nth: "i < n \<Longrightarrow> (take (min (VFS_PIPE_CAPACITY - pp_head p) n) (drop (pp_head p) (pp_data p)) @
      take (n - min (VFS_PIPE_CAPACITY - pp_head p) n) (pp_data p)) ! i = pp_data p ! ((pp_head p + i) mod VFS_PIPE_CAPACITY)" for i
    using assms by (auto simp: pipe_wf_def nth_append mod_if min_def not_less add.commute)
  have len: "length (fst (pipe_fetch n p)) = n"
    using assms by (auto simp: pipe_fetch_def Let_def pipe_wf_def min_def)
  show "fst (pipe_fetch n p) = take n (pipe_contents p)"
  proof (rule nth_equalityI)
    show "length (fst (pipe_fetch n p)) = length (take n (pipe_contents p))"
      using len assms(2) by simp
    show "fst (pipe_fetch n p) ! i = take n (pipe_contents p) ! i" if "i < length (fst (pipe_fetch n p))" for i
    proof -
      have "take n (pipe_contents p) ! i = pp_data p ! ((pp_head p + i) mod VFS_PIPE_CAPACITY)"
        using that len assms(2) by (simp add: pipe_contents_def)
      moreover have "fst (pipe_fetch n p) ! i = pp_data p ! ((pp_head p + i) mod VFS_PIPE_CAPACITY)"
        using nth [of i] that len unfolding pipe_fetch_def Let_def fst_conv by simp
      ultimately show ?thesis by simp
    qed
  qed
  show "pipe_contents (snd (pipe_fetch n p)) = drop n (pipe_contents p)"
    using assms by (intro nth_equalityI) (auto simp: pipe_fetch_def pipe_contents_def Let_def mod_add_right_eq ac_simps)
qed

interpretation pipe: byte_stream pipe_store pipe_fetch pipe_contents VFS_PIPE_CAPACITY pipe_wf
proof unfold_locales
  show "pipe_wf (pipe_store xs p) \<and> pipe_contents (pipe_store xs p) = pipe_contents p @ xs"
    if "pipe_wf p" "length (pipe_contents p) + length xs \<le> VFS_PIPE_CAPACITY" for p xs
    using pipe_store_stream [OF that(1)] that(2) by simp
  show "pipe_wf (snd (pipe_fetch n p)) \<and> fst (pipe_fetch n p) = take n (pipe_contents p) \<and>
      pipe_contents (snd (pipe_fetch n p)) = drop n (pipe_contents p)"
    if "pipe_wf p" "n \<le> length (pipe_contents p)" for p n
    using pipe_fetch_stream [OF that(1)] that(2) by simp
qed

end
