(* ===== verification/Descriptors.thy ===== *)
theory Descriptors
  imports Pipe
begin

text \<open>
  Descriptors, handles, pipes and directory entries of \<^verbatim>\<open>kernel/fs/vfs.c\<close> (i386): the table of a context, the handles its
  entries refer to, and what a handle keeps alive.  Memory is a partial map from addresses to objects, a freed object is
  \<open>None\<close>, and an operation that would read one, or panics, is \<open>None\<close>; an address that \<open>malloc\<close> returned is an argument.
  The queue \<open>readers\<close> of a pipe is at the address of the pipe and \<open>writers\<close> four bytes behind it.  The operations combine the
  polling of \<open>IoPoll\<close> with the record locks of \<open>RecordLockOps\<close>; both see the kernel of \<open>vs_io\<close>.
\<close>

section \<open>State\<close>

abbreviation VFS_OPEN_APPEND :: u32 where "VFS_OPEN_APPEND \<equiv> 32"
abbreviation VFS_OPEN_NONBLOCK :: u32 where "VFS_OPEN_NONBLOCK \<equiv> 128"
abbreviation VFS_OPEN_CLOEXEC :: u32 where "VFS_OPEN_CLOEXEC \<equiv> 256"
abbreviation VFS_INITIAL_FD_CAPACITY :: nat where "VFS_INITIAL_FD_CAPACITY \<equiv> 16"
abbreviation VFS_ERROR_NOT_DIRECTORY :: int where "VFS_ERROR_NOT_DIRECTORY \<equiv> -20"
abbreviation VFS_ERROR_NOT_SUPPORTED :: int where "VFS_ERROR_NOT_SUPPORTED \<equiv> -95"

record vfs_handle =
  vh_pipe :: "nat option"
  vh_dentry :: "nat option"
  vh_offset :: u32
  vh_flags :: u32
  vh_references :: nat

record vfs_descriptor =
  ds_handle :: "nat option"
  ds_close_on_exec :: bool

record vfs_context =
  vc_cwd :: nat
  vc_entries :: "vfs_descriptor list"
  vc_references :: nat

record dentry = vfs_dentry +
  dn_parent :: "nat option"
  dn_references :: nat

record vfs_state =
  vs_io :: io_state
  vs_rl :: rl_state
  vs_pipes :: "nat \<Rightarrow> vfs_pipe option"
  vs_handles :: "nat \<Rightarrow> vfs_handle option"
  vs_open :: "nat list"
  vs_dentries :: "nat \<Rightarrow> dentry option"
  vs_roots :: "nat \<Rightarrow> nat"
  vs_contexts :: "(nat \<times> vfs_context) list"
  vs_sequence :: u64

abbreviation vs_kernel :: "vfs_state \<Rightarrow> kernel" where "vs_kernel s \<equiv> io_kernel (vs_io s)"

text \<open>An operation on the polling or on the record locks, on the same kernel.\<close>

definition on_io :: "(io_state \<Rightarrow> io_state option) \<Rightarrow> vfs_state \<Rightarrow> vfs_state option" where
  "on_io f s = map_option (\<lambda>io. s\<lparr>vs_io := io\<rparr>) (f (vs_io s))"

definition on_rl :: "(rl_state \<Rightarrow> rl_state option) \<Rightarrow> vfs_state \<Rightarrow> vfs_state option" where
  "on_rl f s = map_option (\<lambda>r. s\<lparr>vs_rl := r, vs_io := (vs_io s)\<lparr>io_kernel := rs_kernel r\<rparr>\<rparr>) (f ((vs_rl s)\<lparr>rs_kernel := vs_kernel s\<rparr>))"

definition upd_handle :: "nat \<Rightarrow> vfs_handle option \<Rightarrow> vfs_state \<Rightarrow> vfs_state" where
  "upd_handle h x s = s\<lparr>vs_handles := (vs_handles s)(h := x)\<rparr>"

definition upd_pipe :: "nat \<Rightarrow> vfs_pipe option \<Rightarrow> vfs_state \<Rightarrow> vfs_state" where
  "upd_pipe p x s = s\<lparr>vs_pipes := (vs_pipes s)(p := x)\<rparr>"

definition upd_dentry :: "nat \<Rightarrow> dentry option \<Rightarrow> vfs_state \<Rightarrow> vfs_state" where
  "upd_dentry d x s = s\<lparr>vs_dentries := (vs_dentries s)(d := x)\<rparr>"

definition upd_context :: "nat \<Rightarrow> (vfs_context \<Rightarrow> vfs_context) \<Rightarrow> vfs_state \<Rightarrow> vfs_state" where
  "upd_context c f s = s\<lparr>vs_contexts := map (\<lambda>(a, x). (a, if a = c then f x else x)) (vs_contexts s)\<rparr>"

section \<open>Directory entries\<close>

text \<open>The end of a mount frees its root entry.\<close>

definition mount_release :: "nat \<Rightarrow> vfs_state \<Rightarrow> vfs_state option" where
  "mount_release m s =
     (case on_rl (vfs_mount_release m) s of
        None \<Rightarrow> None
      | Some s' \<Rightarrow>
          Some (if vm_destroyed (rs_mounts (vs_rl s') m) \<and> \<not> vm_destroyed (rs_mounts (vs_rl s) m)
                then upd_dentry (vs_roots s m) None s' else s'))"

definition vfs_dentry_retain :: "nat \<Rightarrow> vfs_state \<Rightarrow> vfs_state option" where
  "vfs_dentry_retain d s =
     (case vs_dentries s d of
        None \<Rightarrow> None
      | Some x \<Rightarrow> on_rl (\<lambda>r. Some (vfs_mount_reference (de_mount x) r)) (upd_dentry d (Some (x\<lparr>dn_references := dn_references x + 1\<rparr>)) s))"

partial_function (option) vfs_dentry_release :: "nat \<Rightarrow> vfs_state \<Rightarrow> vfs_state option" where
  "vfs_dentry_release d s =
     (case vs_dentries s d of
        None \<Rightarrow> None
      | Some x \<Rightarrow>
          if dn_references x \<le> (if dn_parent x = None then 1 else 0) then None
          else
            (case dn_parent x of
               None \<Rightarrow> mount_release (de_mount x) (upd_dentry d (Some (x\<lparr>dn_references := dn_references x - 1\<rparr>)) s)
             | Some parent \<Rightarrow>
                 if dn_references x - 1 = 0
                 then Option.bind (vfs_dentry_release parent (upd_dentry d None s)) (mount_release (de_mount x))
                 else mount_release (de_mount x) (upd_dentry d (Some (x\<lparr>dn_references := dn_references x - 1\<rparr>)) s)))"

section \<open>Handles\<close>

definition vfs_handle_retain :: "nat option \<Rightarrow> vfs_state \<Rightarrow> vfs_state option" where
  "vfs_handle_retain handle s =
     (case handle of
        None \<Rightarrow> Some s
      | Some h \<Rightarrow>
          (case vs_handles s h of
             None \<Rightarrow> None
           | Some x \<Rightarrow> Some (upd_handle h (Some (x\<lparr>vh_references := vh_references x + 1\<rparr>)) s)))"

definition wake_pipe :: "nat \<Rightarrow> vfs_state \<Rightarrow> vfs_state option" where
  "wake_pipe p s = Option.bind (on_io (io_poll_wake (Some p)) s) (on_io (io_poll_wake (Some (p + 4))))"

text \<open>The last reference to one end of a pipe goes: both queues are woken, and the pipe is freed with its second end.\<close>

definition close_pipe_end :: "nat \<Rightarrow> u32 \<Rightarrow> vfs_state \<Rightarrow> vfs_state option" where
  "close_pipe_end p flags s =
     (case vs_pipes s p of
        None \<Rightarrow> None
      | Some q \<Rightarrow>
          (let q = (if flags AND VFS_OPEN_READ \<noteq> 0 then q\<lparr>pp_read_open := False\<rparr> else q\<lparr>pp_write_open := False\<rparr>) in
           map_option (\<lambda>s. if \<not> pp_read_open q \<and> \<not> pp_write_open q then upd_pipe p None s else s)
             (wake_pipe p (upd_pipe p (Some q) s))))"

definition vfs_close :: "nat option \<Rightarrow> vfs_state \<Rightarrow> (vfs_state \<times> int) option" where
  "vfs_close handle s =
     (case handle of
        None \<Rightarrow> Some (s, VFS_ERROR_BAD_DESCRIPTOR)
      | Some h \<Rightarrow>
          (case vs_handles s h of
             None \<Rightarrow> None
           | Some x \<Rightarrow>
               if vh_references x = 0 then Some (s, VFS_ERROR_BAD_DESCRIPTOR)
               else if vh_references x - 1 \<noteq> 0 then Some (upd_handle h (Some (x\<lparr>vh_references := vh_references x - 1\<rparr>)) s, VFS_OK)
               else
                 (case vh_pipe x of
                    Some p \<Rightarrow> map_option (\<lambda>s. (upd_handle h None s, VFS_OK)) (close_pipe_end p (vh_flags x) s)
                  | None \<Rightarrow>
                      (case vh_dentry x of
                         None \<Rightarrow> None
                       | Some d \<Rightarrow>
                           map_option (\<lambda>s. (upd_handle h None s, VFS_OK)) (vfs_dentry_release d (s\<lparr>vs_open := removeAll h (vs_open s)\<rparr>))))))"

text \<open>Nonblocking transfer through a pipe; the result, the bytes read, and the new pipe.\<close>

definition pipe_io :: "u32 \<Rightarrow> u8 list \<Rightarrow> nat \<Rightarrow> bool \<Rightarrow> vfs_pipe \<Rightarrow> vfs_pipe \<times> int \<times> u8 list" where
  "pipe_io flags buffer n write p =
     (if flags AND (if write then VFS_OPEN_WRITE else VFS_OPEN_READ) = 0 then (p, VFS_ERROR_BAD_DESCRIPTOR, [])
      else if n = 0 then (p, 0, [])
      else if write \<and> \<not> pp_read_open p then (p, VFS_ERROR_PIPE, [])
      else
        (let available = (if write then VFS_PIPE_CAPACITY - pp_used p else pp_used p) in
         if available = 0 \<or> (write \<and> n \<le> VFS_PIPE_ATOMIC \<and> n > available)
         then (p, if \<not> write \<and> \<not> pp_write_open p then 0 else VFS_ERROR_AGAIN, [])
         else
           (let n = (if n > available then available else n) in
            if write then (pipe_store (take n buffer) p, int n, [])
            else (let (out, p) = pipe_fetch n p in (p, int n, out)))))"

definition vfs_pipe_io :: "nat \<Rightarrow> u8 list \<Rightarrow> nat \<Rightarrow> bool \<Rightarrow> vfs_state \<Rightarrow> (vfs_state \<times> int \<times> u8 list) option" where
  "vfs_pipe_io h buffer n write s =
     (case vs_handles s h of
        None \<Rightarrow> None
      | Some x \<Rightarrow>
          (case vh_pipe x of
             None \<Rightarrow> None
           | Some p \<Rightarrow>
               (case vs_pipes s p of
                  None \<Rightarrow> None
                | Some q \<Rightarrow>
                    (let (q, result, out) = pipe_io (vh_flags x) buffer n write q; s = upd_pipe p (Some q) s in
                     if result > 0 then map_option (\<lambda>s. (s, result, out)) (on_io (io_poll_wake (Some (if write then p else p + 4))) s)
                     else Some (s, result, out)))))"

section \<open>The table of descriptors\<close>

definition vfs_fd_get :: "nat option \<Rightarrow> int \<Rightarrow> vfs_state \<Rightarrow> nat option" where
  "vfs_fd_get context d s =
     (case Option.bind context (map_of (vs_contexts s)) of
        None \<Rightarrow> None
      | Some x \<Rightarrow> if d < 3 \<or> nat d \<ge> length (vc_entries x) then None else ds_handle (vc_entries x ! nat d))"

definition no_descriptor :: vfs_descriptor where
  "no_descriptor = \<lparr>ds_handle = None, ds_close_on_exec = False\<rparr>"

text \<open>A free entry, growing the table when there is none; \<open>grown\<close> says whether \<open>realloc\<close> succeeds.  An entry takes 8 bytes.
  NULL is an address at which there is no context.\<close>

definition vfs_fd_reserve :: "nat \<Rightarrow> nat \<Rightarrow> bool \<Rightarrow> vfs_state \<Rightarrow> vfs_state \<times> int" where
  "vfs_fd_reserve context minimum grown s =
     (case map_of (vs_contexts s) context of
        None \<Rightarrow> (s, VFS_ERROR_INVALID)
      | Some x \<Rightarrow>
          (let capacity = length (vc_entries x);
               d = (case find (\<lambda>i. ds_handle (vc_entries x ! i) = None) [minimum..<capacity] of Some i \<Rightarrow> i | None \<Rightarrow> max minimum capacity)
           in if d = capacity then
                if capacity > (2 ^ 32 - 1) div 2 div 8 then (s, VFS_ERROR_TOO_MANY_FILES)
                else if \<not> grown then (s, VFS_ERROR_NO_MEMORY)
                else (upd_context context (\<lambda>x. x\<lparr>vc_entries := vc_entries x @ replicate capacity no_descriptor\<rparr>) s, int d)
              else (s, int d)))"

definition set_descriptor :: "nat \<Rightarrow> nat \<Rightarrow> vfs_descriptor \<Rightarrow> vfs_state \<Rightarrow> vfs_state" where
  "set_descriptor context d x = upd_context context (\<lambda>c. c\<lparr>vc_entries := (vc_entries c)[d := x]\<rparr>)"

definition pipe_handle :: "nat \<Rightarrow> u32 \<Rightarrow> u32 \<Rightarrow> vfs_handle" where
  "pipe_handle p flags mode =
     \<lparr>vh_pipe = Some p, vh_dentry = None, vh_offset = 0, vh_flags = (flags AND NOT VFS_OPEN_CLOEXEC) OR mode, vh_references = 1\<rparr>"

definition vfs_fd_pipe ::
  "nat \<Rightarrow> u32 \<Rightarrow> bool \<Rightarrow> bool \<Rightarrow> nat option \<Rightarrow> nat option \<Rightarrow> nat option \<Rightarrow> u8 list \<Rightarrow> vfs_state \<Rightarrow> vfs_state \<times> int \<times> nat \<times> nat" where
  "vfs_fd_pipe context flags grown1 grown2 reader writer pipe memory s =
     (if flags AND NOT (VFS_OPEN_NONBLOCK OR VFS_OPEN_CLOEXEC) \<noteq> 0 then (s, VFS_ERROR_INVALID, 0, 0)
      else
        (let (s, read_fd) = vfs_fd_reserve context 3 grown1 s in
         if read_fd < 0 then (s, read_fd, 0, 0)
         else case reader of
           None \<Rightarrow> (s, VFS_ERROR_NO_MEMORY, 0, 0)
         | Some r \<Rightarrow>
             (let (s, write_fd) = vfs_fd_reserve context (nat read_fd + 1) grown2 s in
              if write_fd < 0 then (s, write_fd, 0, 0)
              else case (writer, pipe) of
                (Some w, Some p) \<Rightarrow>
                  if vs_sequence s = - 1 then (s, VFS_ERROR_NO_MEMORY, 0, 0)
                  else
                    (let s = s\<lparr>vs_sequence := vs_sequence s + 1\<rparr>;
                         s = upd_pipe p (Some \<lparr>pp_identity = vs_sequence s, pp_head = 0, pp_used = 0, pp_read_open = True,
                                               pp_write_open = True, pp_data = replicate VFS_PIPE_CAPACITY 0\<rparr>) s;
                         s = upd_handle r (Some (pipe_handle p flags VFS_OPEN_READ)) s;
                         s = upd_handle w (Some (pipe_handle p flags VFS_OPEN_WRITE)) s;
                         cloexec = (flags AND VFS_OPEN_CLOEXEC \<noteq> 0);
                         s = set_descriptor context (nat read_fd) \<lparr>ds_handle = Some r, ds_close_on_exec = cloexec\<rparr> s;
                         s = set_descriptor context (nat write_fd) \<lparr>ds_handle = Some w, ds_close_on_exec = cloexec\<rparr> s
                     in (s, 0, nat read_fd, nat write_fd))
              | _ \<Rightarrow> (s, VFS_ERROR_NO_MEMORY, 0, 0))))"

text \<open>What the record locks see of a handle; the locks that the closing task has on its file go with any descriptor of it.\<close>

definition handle_view :: "vfs_handle \<Rightarrow> vfs_state \<Rightarrow> vfs_file_handle option" where
  "handle_view x s =
     (case vh_dentry x of
        None \<Rightarrow> Some \<lparr>fh_pipe = (vh_pipe x \<noteq> None), fh_dentry = None, fh_offset = vh_offset x, fh_flags = vh_flags x\<rparr>
      | Some d \<Rightarrow>
          map_option (\<lambda>y. \<lparr>fh_pipe = (vh_pipe x \<noteq> None), fh_dentry = Some (vfs_dentry.truncate y), fh_offset = vh_offset x, fh_flags = vh_flags x\<rparr>)
            (vs_dentries s d))"

definition drop_locks :: "nat \<Rightarrow> vfs_state \<Rightarrow> vfs_state option" where
  "drop_locks h s =
     (case Option.bind (vs_handles s h) (\<lambda>x. handle_view x s) of
        None \<Rightarrow> None
      | Some v \<Rightarrow> on_rl (\<lambda>r. Some (vfs_record_lock_close (rl_owner_now r) (Some v) r)) s)"

definition vfs_fd_close :: "nat option \<Rightarrow> int \<Rightarrow> vfs_state \<Rightarrow> (vfs_state \<times> int) option" where
  "vfs_fd_close context d s =
     (case (context, vfs_fd_get context d s) of
        (Some c, Some h) \<Rightarrow>
          (case drop_locks h (set_descriptor c (nat d) no_descriptor s) of
             None \<Rightarrow> None
           | Some s \<Rightarrow>
               (case Option.bind (vs_handles s h) vh_pipe of
                  None \<Rightarrow> vfs_close (Some h) s
                | Some p \<Rightarrow> if vs_pipes s p = None then None else Option.bind (wake_pipe p s) (vfs_close (Some h))))
      | _ \<Rightarrow> Some (s, VFS_ERROR_BAD_DESCRIPTOR))"

text \<open>The handle that \<open>vfs_open\<close> returned, or its error, is an argument.\<close>

definition vfs_fd_open :: "nat \<Rightarrow> int + nat \<Rightarrow> u32 \<Rightarrow> bool \<Rightarrow> vfs_state \<Rightarrow> (vfs_state \<times> int) option" where
  "vfs_fd_open context opened flags grown s =
     (case opened of
        Inl status \<Rightarrow> Some (s, status)
      | Inr h \<Rightarrow>
          (let (s, d) = vfs_fd_reserve context 3 grown s in
           if d < 0 then map_option (\<lambda>(s, _). (s, d)) (vfs_close (Some h) s)
           else Some (set_descriptor context (nat d) \<lparr>ds_handle = Some h, ds_close_on_exec = (flags AND VFS_OPEN_CLOEXEC \<noteq> 0)\<rparr> s, d)))"

section \<open>Contexts\<close>

primrec close_entries :: "vfs_descriptor list \<Rightarrow> vfs_state \<Rightarrow> vfs_state option" where
  "close_entries [] s = Some s"
| "close_entries (e # es) s =
     (case ds_handle e of
        None \<Rightarrow> close_entries es s
      | Some h \<Rightarrow>
          Option.bind (Option.bind (drop_locks h s) (vfs_close (Some h))) (\<lambda>(s, _). close_entries es s))"

definition vfs_fd_table_destroy :: "vfs_descriptor list \<Rightarrow> vfs_state \<Rightarrow> vfs_state option" where
  "vfs_fd_table_destroy es = close_entries (drop 3 es)"

primrec retain_entries :: "vfs_descriptor list \<Rightarrow> vfs_state \<Rightarrow> vfs_state option" where
  "retain_entries [] s = Some s"
| "retain_entries (e # es) s = Option.bind (vfs_handle_retain (ds_handle e) s) (retain_entries es)"

definition vfs_fd_table_fork :: "vfs_descriptor list \<Rightarrow> vfs_state \<Rightarrow> vfs_state option" where
  "vfs_fd_table_fork es = retain_entries (drop 3 es)"

definition vfs_context_register :: "nat \<Rightarrow> vfs_context \<Rightarrow> vfs_state \<Rightarrow> vfs_state" where
  "vfs_context_register c x s = s\<lparr>vs_contexts := (c, x) # vs_contexts s\<rparr>"

definition vfs_context_unregister :: "nat \<Rightarrow> vfs_state \<Rightarrow> vfs_state" where
  "vfs_context_unregister c s = s\<lparr>vs_contexts := filter (\<lambda>(a, x). a \<noteq> c) (vs_contexts s)\<rparr>"

text \<open>The result is the address of the new context, or \<open>None\<close> when one of the two allocations failed.\<close>

definition vfs_context_allocate :: "nat \<Rightarrow> nat option \<Rightarrow> bool \<Rightarrow> vfs_state \<Rightarrow> (vfs_state \<times> nat option) option" where
  "vfs_context_allocate cwd memory entries s =
     (case memory of
        Some c \<Rightarrow>
          if entries then
            map_option (\<lambda>s. (vfs_context_register c \<lparr>vc_cwd = cwd, vc_entries = replicate VFS_INITIAL_FD_CAPACITY no_descriptor, vc_references = 1\<rparr> s, Some c))
              (vfs_dentry_retain cwd s)
          else Some (s, None)
      | None \<Rightarrow> Some (s, None))"

text \<open>\<open>root\<close> is the root entry of the mount in service on the drive, if there is one.\<close>

definition vfs_context_create :: "nat option \<Rightarrow> nat option \<Rightarrow> bool \<Rightarrow> vfs_state \<Rightarrow> (vfs_state \<times> nat option) option" where
  "vfs_context_create root memory entries s =
     (case root of
        None \<Rightarrow> Some (s, None)
      | Some d \<Rightarrow>
          Option.bind (vfs_dentry_retain d s) (\<lambda>s. Option.bind (vfs_context_allocate d memory entries s)
            (\<lambda>(s, c). map_option (\<lambda>s. (s, c)) (vfs_dentry_release d s))))"

definition vfs_context_clone_cwd :: "nat option \<Rightarrow> nat option \<Rightarrow> bool \<Rightarrow> vfs_state \<Rightarrow> (vfs_state \<times> nat option) option" where
  "vfs_context_clone_cwd source memory entries s =
     (case source of
        None \<Rightarrow> Some (s, None)
      | Some c \<Rightarrow> (case map_of (vs_contexts s) c of None \<Rightarrow> None | Some x \<Rightarrow> vfs_context_allocate (vc_cwd x) memory entries s))"

definition vfs_context_fork :: "nat option \<Rightarrow> nat option \<Rightarrow> bool \<Rightarrow> vfs_state \<Rightarrow> (vfs_state \<times> nat option) option" where
  "vfs_context_fork source memory entries s =
     (case (source, memory) of
        (Some c, Some a) \<Rightarrow>
          if entries then
            (case map_of (vs_contexts s) c of
               None \<Rightarrow> None
             | Some x \<Rightarrow>
                 map_option (\<lambda>s. (vfs_context_register a (x\<lparr>vc_references := 1\<rparr>) s, Some a))
                   (Option.bind (vfs_fd_table_fork (vc_entries x) s) (vfs_dentry_retain (vc_cwd x))))
          else Some (s, None)
      | _ \<Rightarrow> Some (s, None))"

definition vfs_context_retain :: "nat option \<Rightarrow> vfs_state \<Rightarrow> vfs_state option" where
  "vfs_context_retain context s =
     (case context of
        None \<Rightarrow> Some s
      | Some c \<Rightarrow>
          if map_of (vs_contexts s) c = None then None
          else Some (upd_context c (\<lambda>x. x\<lparr>vc_references := vc_references x + 1\<rparr>) s))"

definition vfs_context_release :: "nat option \<Rightarrow> vfs_state \<Rightarrow> vfs_state option" where
  "vfs_context_release context s =
     (case context of
        None \<Rightarrow> Some s
      | Some c \<Rightarrow>
          (case map_of (vs_contexts s) c of
             None \<Rightarrow> None
           | Some x \<Rightarrow>
               if vc_references x = 0 then None
               else if vc_references x - 1 \<noteq> 0 then Some (upd_context c (\<lambda>x. x\<lparr>vc_references := vc_references x - 1\<rparr>) s)
               else Option.bind (vfs_fd_table_destroy (vc_entries x) (vfs_context_unregister c s)) (vfs_dentry_release (vc_cwd x))))"

text \<open>The new directory is retained before the old one is released.\<close>

definition change_cwd :: "nat \<Rightarrow> nat \<Rightarrow> vfs_state \<Rightarrow> vfs_state option" where
  "change_cwd c d s =
     (case (map_of (vs_contexts s) c, vfs_dentry_retain d s) of
        (Some x, Some s) \<Rightarrow> vfs_dentry_release (vc_cwd x) (upd_context c (\<lambda>x. x\<lparr>vc_cwd := d\<rparr>) s)
      | _ \<Rightarrow> None)"

definition vfs_context_transfer_cwd :: "nat option \<Rightarrow> nat option \<Rightarrow> vfs_state \<Rightarrow> (vfs_state \<times> bool) option" where
  "vfs_context_transfer_cwd source destination s =
     (case (source, destination) of
        (Some a, Some b) \<Rightarrow>
          (case map_of (vs_contexts s) a of
             None \<Rightarrow> None
           | Some x \<Rightarrow> map_option (\<lambda>s. (s, True)) (change_cwd b (vc_cwd x) s))
      | _ \<Rightarrow> Some (s, False))"

definition vfs_context_fchdir :: "nat option \<Rightarrow> int \<Rightarrow> vfs_state \<Rightarrow> (vfs_state \<times> int) option" where
  "vfs_context_fchdir context d s =
     (case (context, vfs_fd_get context d s) of
        (Some c, Some h) \<Rightarrow>
          (case vs_handles s h of
             None \<Rightarrow> None
           | Some x \<Rightarrow>
               if vh_pipe x \<noteq> None then Some (s, VFS_ERROR_NOT_DIRECTORY)
               else case vh_dentry x of
                 None \<Rightarrow> None
               | Some e \<Rightarrow>
                   (case vs_dentries s e of
                      None \<Rightarrow> None
                    | Some y \<Rightarrow> if de_file y then Some (s, VFS_ERROR_NOT_DIRECTORY) else map_option (\<lambda>s. (s, VFS_OK)) (change_cwd c e s)))
      | _ \<Rightarrow> Some (s, VFS_ERROR_BAD_DESCRIPTOR))"

end
