(* ===== verification/DescriptorIo.thy ===== *)
theory DescriptorIo
  imports Descriptors
begin

text \<open>
  The calls on a descriptor (\<^verbatim>\<open>kernel/fs/vfs.c\<close>): \<open>fcntl\<close>, polling, and the loop of \<open>vfs_fd_io\<close> that waits on a pipe.  Record
  locks go on to \<open>RecordLockOps\<close>; what reading and writing a file does is the argument \<open>file\<close>, as it is the file system's.
\<close>

section \<open>fcntl\<close>

abbreviation O_RDONLY :: u32 where "O_RDONLY \<equiv> 0"
abbreviation O_WRONLY :: u32 where "O_WRONLY \<equiv> 1"
abbreviation O_RDWR :: u32 where "O_RDWR \<equiv> 2"
abbreviation O_APPEND :: u32 where "O_APPEND \<equiv> 0x400"
abbreviation O_NONBLOCK :: u32 where "O_NONBLOCK \<equiv> 0x2000"
abbreviation F_GETFD :: int where "F_GETFD \<equiv> 1"
abbreviation F_SETFD :: int where "F_SETFD \<equiv> 2"
abbreviation F_GETFL :: int where "F_GETFL \<equiv> 3"
abbreviation F_SETFL :: int where "F_SETFL \<equiv> 4"
abbreviation FD_CLOEXEC :: u32 where "FD_CLOEXEC \<equiv> 1"
abbreviation VFS_ERROR_FAULT :: int where "VFS_ERROR_FAULT \<equiv> -14"

definition vfs_handle_status_flags :: "vfs_handle \<Rightarrow> u32" where
  "vfs_handle_status_flags x =
     (if vh_flags x AND VFS_OPEN_WRITE = 0 then O_RDONLY else if vh_flags x AND VFS_OPEN_READ = 0 then O_WRONLY else O_RDWR)
       OR (if vh_flags x AND VFS_OPEN_APPEND \<noteq> 0 then O_APPEND else 0)
       OR (if vh_flags x AND VFS_OPEN_NONBLOCK \<noteq> 0 then O_NONBLOCK else 0)"

definition set_status_flags :: "u32 \<Rightarrow> u32 \<Rightarrow> u32" where
  "set_status_flags argument flags =
     (flags AND NOT (VFS_OPEN_APPEND OR VFS_OPEN_NONBLOCK))
       OR (if argument AND O_APPEND \<noteq> 0 then VFS_OPEN_APPEND else 0)
       OR (if argument AND O_NONBLOCK \<noteq> 0 then VFS_OPEN_NONBLOCK else 0)"

text \<open>\<open>request\<close> is what \<open>user_vm_copy_from\<close> brought, \<open>writable\<close> whether \<open>user_vm_copy_to\<close> succeeds; the second component of
  the result is the lock description in user memory.\<close>

definition fcntl_lock ::
  "vfs_handle \<Rightarrow> int \<Rightarrow> flock option \<Rightarrow> bool \<Rightarrow> nat \<Rightarrow> vfs_state \<Rightarrow> (vfs_state \<times> flock option \<times> int outcome) option" where
  "fcntl_lock x command request writable memory s =
     (case request of
        None \<Rightarrow> Some (s, None, Done VFS_ERROR_INVALID)
      | Some f \<Rightarrow>
          (case Option.bind (handle_view x s) (\<lambda>v. vfs_record_lock_operation v command f memory ((vs_rl s)\<lparr>rs_kernel := vs_kernel s\<rparr>)) of
             None \<Rightarrow> None
           | Some (r, f', status) \<Rightarrow>
               (let s = s\<lparr>vs_rl := r, vs_io := (vs_io s)\<lparr>io_kernel := rs_kernel r\<rparr>\<rparr> in
                if status = Done VFS_OK \<and> command = F_GETLK then
                  if writable then Some (s, Some f', status) else Some (s, Some f, Done VFS_ERROR_INVALID)
                else Some (s, Some f, status))))"

definition vfs_fd_fcntl ::
  "nat option \<Rightarrow> int \<Rightarrow> int \<Rightarrow> u32 \<Rightarrow> flock option \<Rightarrow> bool \<Rightarrow> nat \<Rightarrow> vfs_state \<Rightarrow> (vfs_state \<times> flock option \<times> int outcome) option" where
  "vfs_fd_fcntl context d command argument request writable memory s =
     (case (context, vfs_fd_get context d s) of
        (Some c, Some h) \<Rightarrow>
          (case (map_of (vs_contexts s) c, vs_handles s h) of
             (Some cx, Some x) \<Rightarrow>
               (let e = vc_entries cx ! nat d in
                if command = F_GETFL then Some (s, request, Done (uint (vfs_handle_status_flags x)))
                else if command = F_SETFL then
                  Some (upd_handle h (Some (x\<lparr>vh_flags := set_status_flags argument (vh_flags x)\<rparr>)) s, request, Done VFS_OK)
                else if command = F_GETFD then Some (s, request, Done (if ds_close_on_exec e then uint FD_CLOEXEC else 0))
                else if command = F_SETFD then
                  if argument AND NOT FD_CLOEXEC \<noteq> 0 then Some (s, request, Done VFS_ERROR_INVALID)
                  else Some (set_descriptor c (nat d) (e\<lparr>ds_close_on_exec := (argument AND FD_CLOEXEC \<noteq> 0)\<rparr>) s, request, Done VFS_OK)
                else if command = F_GETLK \<or> command = F_SETLK \<or> command = F_SETLKW then
                  if argument = 0 then Some (s, request, Done VFS_ERROR_INVALID)
                  else fcntl_lock x command request writable memory s
                else Some (s, request, Done VFS_ERROR_INVALID))
           | _ \<Rightarrow> None)
      | _ \<Rightarrow> Some (s, request, Done VFS_ERROR_BAD_DESCRIPTOR))"

section \<open>Polling\<close>

text \<open>The answer for a descriptor and the queue in which the watch is put.\<close>

definition pipe_poll :: "u32 \<Rightarrow> u16 \<Rightarrow> vfs_pipe \<Rightarrow> u16" where
  "pipe_poll flags want q =
     (if flags AND VFS_OPEN_READ \<noteq> 0
      then (if pp_used q \<noteq> 0 then want AND POLLIN else 0) OR (if \<not> pp_write_open q then POLLHUP else 0)
      else (if VFS_PIPE_CAPACITY - pp_used q \<ge> VFS_PIPE_ATOMIC then want AND POLLOUT else 0) OR (if \<not> pp_read_open q then POLLERR else 0))"

definition vfs_fd_poll :: "nat option \<Rightarrow> int \<Rightarrow> u16 \<Rightarrow> vfs_state \<Rightarrow> (u16 \<times> nat option) option" where
  "vfs_fd_poll context d want s =
     (if d = 1 \<or> d = 2 then Some (want AND POLLOUT, None)
      else if d = 0 then Some (POLLERR, None)
      else case vfs_fd_get context d s of
        None \<Rightarrow> Some (POLLNVAL, None)
      | Some h \<Rightarrow>
          (case vs_handles s h of
             None \<Rightarrow> None
           | Some x \<Rightarrow>
               (case vh_pipe x of
                  None \<Rightarrow> Some (want AND (POLLIN OR POLLOUT), None)
                | Some p \<Rightarrow>
                    (case vs_pipes s p of
                       None \<Rightarrow> None
                     | Some q \<Rightarrow>
                         Some (pipe_poll (vh_flags x) want q, Some (if vh_flags x AND VFS_OPEN_READ \<noteq> 0 then p else p + 4))))))"

definition vfs_fd_available :: "nat option \<Rightarrow> int \<Rightarrow> vfs_state \<Rightarrow> int option" where
  "vfs_fd_available context d s =
     (case vfs_fd_get context d s of
        None \<Rightarrow> Some VFS_ERROR_BAD_DESCRIPTOR
      | Some h \<Rightarrow>
          (case vs_handles s h of
             None \<Rightarrow> None
           | Some x \<Rightarrow>
               (case vh_pipe x of
                  None \<Rightarrow> Some VFS_ERROR_NOT_SUPPORTED
                | Some p \<Rightarrow> map_option (\<lambda>q. int (pp_used q)) (vs_pipes s p))))"

section \<open>Reading and writing\<close>

type_synonym file_io = "nat \<Rightarrow> vfs_state \<Rightarrow> vfs_state \<times> int \<times> u8 list"

text \<open>One iteration of the loop of \<open>vfs_fd_io\<close>; \<open>accessible\<close> is what the check of the user's buffer says, \<open>memory\<close> the
  waiter's allocation.  \<open>Switch\<close>: the task sleeps, and \<open>fd_io_resume\<close> follows; \<open>Retry\<close>: it goes on at once.  The result
  also has the identity the next iteration will ask for and the bytes that were read.\<close>

definition fd_io_round ::
  "file_io \<Rightarrow> nat option \<Rightarrow> int \<Rightarrow> u8 list \<Rightarrow> nat \<Rightarrow> bool \<Rightarrow> bool \<Rightarrow> nat option \<Rightarrow> u64 \<Rightarrow> vfs_state
     \<Rightarrow> (vfs_state \<times> u64 \<times> u8 list \<times> int outcome) option" where
  "fd_io_round file context d buffer n write accessible memory identity s =
     (case vfs_fd_get context d s of
        None \<Rightarrow> Some (s, identity, [], Done VFS_ERROR_BAD_DESCRIPTOR)
      | Some h \<Rightarrow>
          (case vs_handles s h of
             None \<Rightarrow> None
           | Some x \<Rightarrow>
               (case vh_pipe x of
                  None \<Rightarrow>
                    if identity \<noteq> 0 then Some (s, identity, [], Done VFS_ERROR_BAD_DESCRIPTOR)
                    else (let (s, result, out) = file h s in Some (s, identity, out, Done result))
                | Some p \<Rightarrow>
                    (case vs_pipes s p of
                       None \<Rightarrow> None
                     | Some q \<Rightarrow>
                         if identity \<noteq> 0 \<and> identity \<noteq> pp_identity q then Some (s, identity, [], Done VFS_ERROR_BAD_DESCRIPTOR)
                         else if n \<noteq> 0 \<and> \<not> accessible then Some (s, identity, [], Done VFS_ERROR_FAULT)
                         else case vfs_pipe_io h buffer n write s of
                           None \<Rightarrow> None
                         | Some (s, result, out) \<Rightarrow>
                             if result \<noteq> VFS_ERROR_AGAIN \<or> vh_flags x AND VFS_OPEN_NONBLOCK \<noteq> 0 then Some (s, identity, out, Done result)
                             else (case io_poll_wait (if write then p + 4 else p) memory (vs_io s) of
                                     (io, Done r) \<Rightarrow> Some (s\<lparr>vs_io := io\<rparr>, pp_identity q, [], if r < 0 then Done r else Retry)
                                   | (io, _) \<Rightarrow> Some (s\<lparr>vs_io := io\<rparr>, pp_identity q, [], Switch))))))"

text \<open>The task runs again: its waiter \<open>w\<close> goes, and the next iteration starts unless a signal is waiting.\<close>

definition fd_io_resume ::
  "file_io \<Rightarrow> nat \<Rightarrow> nat option \<Rightarrow> int \<Rightarrow> u8 list \<Rightarrow> nat \<Rightarrow> bool \<Rightarrow> bool \<Rightarrow> nat option \<Rightarrow> u64 \<Rightarrow> vfs_state
     \<Rightarrow> (vfs_state \<times> u64 \<times> u8 list \<times> int outcome) option" where
  "fd_io_resume file w context d buffer n write accessible memory identity s =
     (let (io, r) = io_wait_resume w (vs_io s); s = s\<lparr>vs_io := io\<rparr> in
      if r < 0 then Some (s, identity, [], Done r)
      else fd_io_round file context d buffer n write accessible memory identity s)"

end

