(* ===== verification/PipeProps.thy ===== *)
theory PipeProps
  imports DescriptorIo
begin

text \<open>
  Properties of the transfers through a pipe: each call on every branch, any sequence of calls as one stream of bytes, and
  what polling says about them.
\<close>

section \<open>One call\<close>

lemma pipe_store_fields [simp]:
  "pp_head (pipe_store xs p) = pp_head p" "pp_used (pipe_store xs p) = pp_used p + length xs" "pp_identity (pipe_store xs p) = pp_identity p"
  "pp_read_open (pipe_store xs p) = pp_read_open p" "pp_write_open (pipe_store xs p) = pp_write_open p"
  by (simp_all add: pipe_store_def Let_def)

lemma pipe_fetch_fields [simp]:
  "pp_used (snd (pipe_fetch n p)) = pp_used p - n" "pp_identity (snd (pipe_fetch n p)) = pp_identity p"
  "pp_read_open (snd (pipe_fetch n p)) = pp_read_open p" "pp_write_open (snd (pipe_fetch n p)) = pp_write_open p"
  by (simp_all add: pipe_fetch_def Let_def)

text \<open>The number of bytes that move, or why none do.\<close>

definition transfer :: "u32 \<Rightarrow> nat \<Rightarrow> bool \<Rightarrow> vfs_pipe \<Rightarrow> int + nat" where
  "transfer flags n wr p =
     (if flags AND (if wr then VFS_OPEN_WRITE else VFS_OPEN_READ) = 0 then Inl VFS_ERROR_BAD_DESCRIPTOR
      else if n = 0 then Inl 0
      else if wr \<and> \<not> pp_read_open p then Inl VFS_ERROR_PIPE
      else
        (let room = (if wr then VFS_PIPE_CAPACITY - pp_used p else pp_used p) in
         if room = 0 \<or> (wr \<and> n \<le> VFS_PIPE_ATOMIC \<and> n > room)
         then Inl (if \<not> wr \<and> \<not> pp_write_open p then 0 else VFS_ERROR_AGAIN)
         else Inr (min n room)))"

lemma pipe_io_transfer:
  "pipe_io flags buffer n wr p =
     (case transfer flags n wr p of
        Inl r \<Rightarrow> (p, r, [])
      | Inr k \<Rightarrow> if wr then (pipe_store (take k buffer) p, int k, []) else (snd (pipe_fetch k p), int k, fst (pipe_fetch k p)))"
  by (auto simp: pipe_io_def transfer_def Let_def min_def case_prod_beta)

lemma transfer_Inr:
  assumes "transfer flags n wr p = Inr k"
  shows "0 < k" "k \<le> n" "k \<le> (if wr then VFS_PIPE_CAPACITY - pp_used p else pp_used p)"
    "wr \<Longrightarrow> pp_read_open p" "wr \<Longrightarrow> n \<le> VFS_PIPE_ATOMIC \<Longrightarrow> k = n"
  using assms by (auto simp: transfer_def Let_def min_def split: if_splits)

lemma transfer_Inl: "transfer flags n wr p = Inl r \<Longrightarrow> r \<le> 0"
  by (auto simp: transfer_def Let_def split: if_splits)

text \<open>A call is one step of the stream.\<close>

lemma pipe_io_step:
  assumes "pipe_wf p" "n \<le> length buffer \<or> \<not> wr" "pipe_io flags buffer n wr p = (p', result, out)"
  shows "pipe_wf p'" "out @ pipe_contents p' = pipe_contents p @ (if wr then take (nat result) buffer else [])"
    "pp_read_open p' = pp_read_open p" "pp_write_open p' = pp_write_open p" "pp_identity p' = pp_identity p"
proof -
  have *: "pipe_wf p' \<and> out @ pipe_contents p' = pipe_contents p @ (if wr then take (nat result) buffer else [])
      \<and> pp_read_open p' = pp_read_open p \<and> pp_write_open p' = pp_write_open p \<and> pp_identity p' = pp_identity p"
  proof (cases "transfer flags n wr p")
    case (Inl r)
    then show ?thesis
      using assms(1,3) transfer_Inl [OF Inl] by (auto simp: pipe_io_transfer)
  next
    case (Inr k)
    note t = transfer_Inr [OF Inr]
    show ?thesis
    proof (cases wr)
      case True
      have p': "p' = pipe_store (take k buffer) p" "result = int k" "out = []"
        using assms(3) Inr True by (auto simp: pipe_io_transfer)
      have "pipe.possible (Put (take k buffer)) p" "pipe.step (Put (take k buffer)) p = (p', take k buffer, [])"
        using t assms True by (auto simp: p' pipe_wf_def)
      from pipe.step_stream [OF assms(1) this] show ?thesis
        using True by (simp add: p')
    next
      case False
      have p': "p' = snd (pipe_fetch k p)" "result = int k" "out = fst (pipe_fetch k p)"
        using assms(3) Inr False by (auto simp: pipe_io_transfer)
      have "pipe.possible (Get k) p" "pipe.step (Get k) p = (p', [], out)"
        using t False by (auto simp: p' case_prod_beta)
      from pipe.step_stream [OF assms(1) this] show ?thesis
        using False by (simp add: p')
    qed
  qed
  then show "pipe_wf p'" "out @ pipe_contents p' = pipe_contents p @ (if wr then take (nat result) buffer else [])"
    "pp_read_open p' = pp_read_open p" "pp_write_open p' = pp_write_open p" "pp_identity p' = pp_identity p" by blast+
qed

section \<open>Any number of calls\<close>

text \<open>A call is its flags, the buffer and whether it writes; a reading call asks for \<open>length buffer\<close> bytes.  The run
  collects what the writers were told is written and what the readers got.\<close>

type_synonym pipe_call = "u32 \<times> u8 list \<times> bool"

primrec pipe_run :: "pipe_call list \<Rightarrow> vfs_pipe \<Rightarrow> vfs_pipe \<times> u8 list \<times> u8 list" where
  "pipe_run [] p = (p, [], [])"
| "pipe_run (c # cs) p =
     (case c of (flags, buffer, wr) \<Rightarrow>
        (let (p, result, out) = pipe_io flags buffer (length buffer) wr p; (p, ins, outs) = pipe_run cs p in
         (p, (if wr then take (nat result) buffer else []) @ ins, out @ outs)))"

text \<open>C18: 
  C0: A pipe is a stream.  However calls to read and write are ordered and however long their buffers are, the bytes the
  readers have got followed by the bytes in the ring are the bytes that were in the ring at first followed by those whose
  writing was reported, in this order; and the ring stays within its capacity.
\<close>

theorem pipe_is_a_stream:
  assumes "pipe_wf p" "pipe_run calls p = (p', written, read)"
  shows "read @ pipe_contents p' = pipe_contents p @ written \<and> pipe_wf p' \<and> length (pipe_contents p') \<le> VFS_PIPE_CAPACITY"
  using assms
proof (induction calls arbitrary: p written read)
  case Nil
  then show ?case
    by (auto simp: pipe_wf_def)
next
  case (Cons c cs)
  obtain flags buffer wr where c: "c = (flags, buffer, wr)" by (cases c)
  obtain p1 r out where io: "pipe_io flags buffer (length buffer) wr p = (p1, r, out)" by (rule prod_cases3)
  obtain p2 ins outs where run: "pipe_run cs p1 = (p2, ins, outs)" by (rule prod_cases3)
  note step = pipe_io_step [OF Cons.prems(1) disjI1 [OF order_refl] io]
  have eq: "p' = p2" "written = (if wr then take (nat r) buffer else []) @ ins" "read = out @ outs"
    using Cons.prems(2) by (auto simp: c io run)
  have "outs @ pipe_contents p2 = pipe_contents p1 @ ins \<and> pipe_wf p2"
    using Cons.IH [OF step(1), of ins outs] run eq(1) by simp
  moreover have "out @ (pipe_contents p1 @ ins) = pipe_contents p @ (if wr then take (nat r) buffer else []) @ ins"
    using step(2) by (simp flip: append_assoc)
  ultimately show ?case
    by (simp add: eq pipe_wf_def)
qed

definition pipe_example :: vfs_pipe where
  "pipe_example = \<lparr>pp_identity = 1, pp_head = 65535, pp_used = 0, pp_read_open = True, pp_write_open = True, pp_data = replicate VFS_PIPE_CAPACITY 0\<rparr>"

lemma pipe_example_wf: "pipe_wf pipe_example"
  by (simp add: pipe_wf_def pipe_example_def)

lemma pipe_example_run:
  "pipe_run [(VFS_OPEN_WRITE, [1, 2, 3], True), (VFS_OPEN_READ, [0, 0], False)] pipe_example =
     (snd (pipe_fetch 2 (pipe_store [1, 2, 3] pipe_example)), [1, 2, 3], [1, 2])"
proof -
  have c: "pipe_contents pipe_example = []"
    by (simp add: pipe_contents_def pipe_example_def)
  note s = pipe_store_stream [OF pipe_example_wf, of "[1, 2, 3]"]
  have s: "pipe_wf (pipe_store [1, 2, 3] pipe_example)" "pipe_contents (pipe_store [1, 2, 3] pipe_example) = [1, 2, 3]"
    using s c by (simp_all add: pipe_example_def)
  have w: "pipe_io VFS_OPEN_WRITE [1, 2, 3] (length [1, 2, 3 :: u8]) True pipe_example = (pipe_store [1, 2, 3] pipe_example, 3, [])"
    by (simp add: pipe_io_transfer transfer_def pipe_example_def)
  have "pp_used (pipe_store [1, 2, 3] pipe_example) = 3"
    by (simp add: pipe_example_def)
  then have "pipe_io VFS_OPEN_READ [0, 0] (length [0, 0 :: u8]) False (pipe_store [1, 2, 3] pipe_example) =
      (snd (pipe_fetch 2 (pipe_store [1, 2, 3] pipe_example)), 2, [1, 2])"
    using pipe_fetch_stream(2) [OF s(1), of 2] s(2) by (simp add: pipe_io_transfer transfer_def numeral_2_eq_2)
  then show ?thesis
    using w by (simp del: pipe_store_fields)
qed

theorem pipe_is_a_stream_witness:
  "\<exists>p'. pipe_run [(VFS_OPEN_WRITE, [1, 2, 3], True), (VFS_OPEN_READ, [0, 0], False)] pipe_example = (p', [1, 2, 3], [1, 2])
     \<and> [1, 2] @ pipe_contents p' = pipe_contents pipe_example @ [1, 2, 3]"
  using pipe_is_a_stream [OF pipe_example_wf pipe_example_run] pipe_example_run by blast

text \<open>
  C0: Each call on every branch.  The wrong end is refused and nothing is moved for a length of zero.  Writing without a reader
  fails; at most 4096 bytes go in as a whole or, when there is no room for all of them, not at all; more than 4096 bytes
  go in as far as there is room.  Reading takes as many bytes as there are, the oldest; from an empty pipe it reports the
  end when no writer is left and asks to try again otherwise.
\<close>

theorem pipe_io_exact:
  assumes "pipe_wf p" "n = length buffer"
  shows "pipe_io flags buffer n wr p =
      (if flags AND (if wr then VFS_OPEN_WRITE else VFS_OPEN_READ) = 0 then (p, VFS_ERROR_BAD_DESCRIPTOR, [])
       else if n = 0 then (p, 0, [])
       else if wr then
         (let room = VFS_PIPE_CAPACITY - length (pipe_contents p); k = (if n \<le> VFS_PIPE_ATOMIC \<and> n > room then 0 else min n room) in
          if \<not> pp_read_open p then (p, VFS_ERROR_PIPE, [])
          else if k = 0 then (p, VFS_ERROR_AGAIN, [])
          else (fst (pipe_io flags buffer n wr p), int k, []))
       else
         (let k = min n (length (pipe_contents p)) in
          if k = 0 then (p, if pp_write_open p then VFS_ERROR_AGAIN else 0, [])
          else (fst (pipe_io flags buffer n wr p), int k, take k (pipe_contents p))))
    \<and> (let (p', result, out) = pipe_io flags buffer n wr p in
        pipe_wf p' \<and> pipe_contents p' = drop (if wr then 0 else nat result) (pipe_contents p) @ (if wr then take (nat result) buffer else []))"
proof -
  obtain p' r out where io: "pipe_io flags buffer n wr p = (p', r, out)" by (rule prod_cases3)
  have n: "n \<le> length buffer \<or> \<not> wr"
    using assms(2) by simp
  note step = pipe_io_step [OF assms(1) n io]
  have branch: "transfer flags n wr p = Inr k \<Longrightarrow> k \<noteq> 0 \<and> (\<not> wr \<longrightarrow> fst (pipe_fetch k p) = take k (pipe_contents p))" for k
    using transfer_Inr [of flags n wr p k] pipe_fetch_stream(2) [OF assms(1), of k] by auto
  have out: "out = (if wr then [] else take (nat r) (pipe_contents p))" "\<not> wr \<Longrightarrow> nat r \<le> length (pipe_contents p)"
    using io branch transfer_Inl [of flags n wr p] transfer_Inr(3) [of flags n wr p]
    by (auto simp: pipe_io_transfer split: sum.splits if_splits)
  have "pipe_contents p' = drop (if wr then 0 else nat r) (pipe_contents p) @ (if wr then take (nat r) buffer else [])"
  proof (cases wr)
    case False
    then have "take (nat r) (pipe_contents p) @ pipe_contents p' = take (nat r) (pipe_contents p) @ drop (nat r) (pipe_contents p)"
      using step(2) out(1) by simp
    then have "pipe_contents p' = drop (nat r) (pipe_contents p)"
      by (simp only: same_append_eq)
    then show ?thesis
      using False by simp
  qed (use step(2) out in simp)
  moreover have "pipe_io flags buffer n wr p =
      (if flags AND (if wr then VFS_OPEN_WRITE else VFS_OPEN_READ) = 0 then (p, VFS_ERROR_BAD_DESCRIPTOR, [])
       else if n = 0 then (p, 0, [])
       else if wr then
         (let room = VFS_PIPE_CAPACITY - length (pipe_contents p); k = (if n \<le> VFS_PIPE_ATOMIC \<and> n > room then 0 else min n room) in
          if \<not> pp_read_open p then (p, VFS_ERROR_PIPE, [])
          else if k = 0 then (p, VFS_ERROR_AGAIN, [])
          else (fst (pipe_io flags buffer n wr p), int k, []))
       else
         (let k = min n (length (pipe_contents p)) in
          if k = 0 then (p, if pp_write_open p then VFS_ERROR_AGAIN else 0, [])
          else (fst (pipe_io flags buffer n wr p), int k, take k (pipe_contents p))))"
  proof (cases wr)
    case True
    then show ?thesis by (auto simp: pipe_io_transfer transfer_def Let_def min_def)
  next
    case False
    have "fst (pipe_fetch (min n (pp_used p)) p) = take (min n (pp_used p)) (pipe_contents p)"
      by (rule pipe_fetch_stream(2) [OF assms(1)]) simp
    moreover have "min n (pp_used p) = 0 \<longleftrightarrow> n = 0 \<or> pp_used p = 0"
      by (auto simp: min_def)
    ultimately show ?thesis using False by (simp add: pipe_io_transfer transfer_def Let_def)
  qed
  ultimately show ?thesis
    using step(1) unfolding io Let_def by simp
qed

theorem pipe_io_exact_witness:
  "pipe_io VFS_OPEN_READ [0] (length [0 :: u8]) False pipe_example = (pipe_example, VFS_ERROR_AGAIN, [])"
  using pipe_io_exact [OF pipe_example_wf refl, of VFS_OPEN_READ "[0]" False] by (simp add: pipe_example_def)

text \<open>C39: 
  C0: Polling tells what a transfer would do.  On the reading end \<open>POLLIN\<close> or \<open>POLLHUP\<close> is reported exactly when a read would not
  have to wait, and \<open>POLLHUP\<close> exactly when no writer is left; on the writing end \<open>POLLOUT\<close> or \<open>POLLERR\<close> is reported exactly when
  no write of up to 4096 bytes would have to wait.
\<close>

theorem pipe_poll_exact:
  assumes "pipe_wf p"
  shows "(flags AND VFS_OPEN_READ \<noteq> 0 \<longrightarrow>
        (pipe_poll flags POLLIN p \<noteq> 0 \<longleftrightarrow> (\<forall>buffer. buffer \<noteq> [] \<longrightarrow> fst (snd (pipe_io flags buffer (length buffer) False p)) \<noteq> VFS_ERROR_AGAIN))
      \<and> (pipe_poll flags POLLIN p AND POLLHUP \<noteq> 0 \<longleftrightarrow> \<not> pp_write_open p))
    \<and> (flags AND VFS_OPEN_READ = 0 \<and> flags AND VFS_OPEN_WRITE \<noteq> 0 \<longrightarrow>
        (pipe_poll flags POLLOUT p \<noteq> 0 \<longleftrightarrow>
           (\<forall>buffer. length buffer \<le> VFS_PIPE_ATOMIC \<longrightarrow> fst (snd (pipe_io flags buffer (length buffer) True p)) \<noteq> VFS_ERROR_AGAIN)))"
proof (intro conjI impI)
  have used: "pp_used p \<le> VFS_PIPE_CAPACITY"
    using assms by (simp add: pipe_wf_def)
  {
    assume r: "flags AND VFS_OPEN_READ \<noteq> 0"
    have ready: "pipe_poll flags POLLIN p \<noteq> 0 \<longleftrightarrow> pp_used p \<noteq> 0 \<or> \<not> pp_write_open p"
      using r by (simp add: pipe_poll_def)
    have again: "fst (snd (pipe_io flags buffer (length buffer) False p)) = VFS_ERROR_AGAIN \<longleftrightarrow> pp_used p = 0 \<and> pp_write_open p"
      if "buffer \<noteq> []" for buffer
      using r that by (auto simp: pipe_io_transfer transfer_def Let_def)
    have "(\<forall>buffer :: u8 list. buffer \<noteq> [] \<longrightarrow> \<not> (pp_used p = 0 \<and> pp_write_open p)) \<longleftrightarrow> pp_used p \<noteq> 0 \<or> \<not> pp_write_open p"
      by (rule iffI, drule spec [of _ "[0 :: u8]"]) simp_all
    then show "pipe_poll flags POLLIN p \<noteq> 0 \<longleftrightarrow>
        (\<forall>buffer. buffer \<noteq> [] \<longrightarrow> fst (snd (pipe_io flags buffer (length buffer) False p)) \<noteq> VFS_ERROR_AGAIN)"
      by (simp add: ready again del: length_0_conv cong: imp_cong)
    show "pipe_poll flags POLLIN p AND POLLHUP \<noteq> 0 \<longleftrightarrow> \<not> pp_write_open p"
      using r by (simp add: pipe_poll_def)
  }
  assume w: "flags AND VFS_OPEN_READ = 0 \<and> flags AND VFS_OPEN_WRITE \<noteq> 0"
  have ready: "pipe_poll flags POLLOUT p \<noteq> 0 \<longleftrightarrow> VFS_PIPE_ATOMIC \<le> VFS_PIPE_CAPACITY - pp_used p \<or> \<not> pp_read_open p"
    using w by (simp add: pipe_poll_def)
  have again: "fst (snd (pipe_io flags buffer (length buffer) True p)) = VFS_ERROR_AGAIN \<longleftrightarrow>
      buffer \<noteq> [] \<and> pp_read_open p \<and> length buffer > VFS_PIPE_CAPACITY - pp_used p" if "length buffer \<le> VFS_PIPE_ATOMIC" for buffer
    using w that by (auto simp: pipe_io_transfer transfer_def Let_def)
  show "pipe_poll flags POLLOUT p \<noteq> 0 \<longleftrightarrow>
      (\<forall>buffer. length buffer \<le> VFS_PIPE_ATOMIC \<longrightarrow> fst (snd (pipe_io flags buffer (length buffer) True p)) \<noteq> VFS_ERROR_AGAIN)"
  proof
    assume "pipe_poll flags POLLOUT p \<noteq> 0"
    then show "\<forall>buffer. length buffer \<le> VFS_PIPE_ATOMIC \<longrightarrow> fst (snd (pipe_io flags buffer (length buffer) True p)) \<noteq> VFS_ERROR_AGAIN"
    proof (intro allI impI)
      fix buffer :: "u8 list"
      assume "length buffer \<le> VFS_PIPE_ATOMIC"
      moreover have "VFS_PIPE_ATOMIC \<le> VFS_PIPE_CAPACITY - pp_used p \<or> \<not> pp_read_open p"
        using \<open>pipe_poll flags POLLOUT p \<noteq> 0\<close> ready by simp
      ultimately show "fst (snd (pipe_io flags buffer (length buffer) True p)) \<noteq> VFS_ERROR_AGAIN"
        using again [of buffer] by linarith
    qed
  next
    obtain b :: "u8 list" where b: "length b = VFS_PIPE_ATOMIC"
      by (rule that [of "replicate VFS_PIPE_ATOMIC 0"]) (rule length_replicate)
    then have "b \<noteq> []"
      by auto
    moreover assume "\<forall>buffer. length buffer \<le> VFS_PIPE_ATOMIC \<longrightarrow> fst (snd (pipe_io flags buffer (length buffer) True p)) \<noteq> VFS_ERROR_AGAIN"
    then have "fst (snd (pipe_io flags b (length b) True p)) \<noteq> VFS_ERROR_AGAIN"
      by (elim allE [of _ b] impE) (simp_all only: b order_refl not_False_eq_True)
    ultimately show "pipe_poll flags POLLOUT p \<noteq> 0"
      using again [of b] unfolding b ready by linarith
  qed
qed

theorem pipe_poll_exact_witness:
  "pipe_poll VFS_OPEN_READ POLLIN pipe_example = 0 \<and> fst (snd (pipe_io VFS_OPEN_READ [0] (length [0 :: u8]) False pipe_example)) = VFS_ERROR_AGAIN
     \<and> (pipe_poll VFS_OPEN_WRITE POLLOUT pipe_example \<noteq> 0 \<longleftrightarrow>
          (\<forall>buffer. length buffer \<le> VFS_PIPE_ATOMIC \<longrightarrow> fst (snd (pipe_io VFS_OPEN_WRITE buffer (length buffer) True pipe_example)) \<noteq> VFS_ERROR_AGAIN))"
  using pipe_poll_exact [OF pipe_example_wf, of VFS_OPEN_READ] pipe_poll_exact [OF pipe_example_wf, of VFS_OPEN_WRITE]
  by (simp add: pipe_poll_def pipe_io_transfer transfer_def pipe_example_def)

end
