(* ===== verification/DescriptorInv.thy ===== *)
theory DescriptorInv
  imports PipeProps
begin

text \<open>
  The invariant of the descriptors and handles: a handle lives exactly as long as something refers to it, and its count is
  the number of its references; an end of a pipe is open exactly as long as it has a handle, and the pipe lives exactly
  as long as an end is open.
\<close>

section \<open>References\<close>

text \<open>\<open>entries_uses es h\<close>: the entries that refer to the handle \<open>h\<close>.\<close>

definition entries_uses :: "vfs_descriptor list \<Rightarrow> nat \<Rightarrow> nat" where
  "entries_uses es h = length (filter (\<lambda>e. ds_handle e = Some h) es)"

definition handle_uses :: "vfs_state \<Rightarrow> nat \<Rightarrow> nat" where
  "handle_uses s h = sum_list (map (\<lambda>(c, x). entries_uses (vc_entries x) h) (vs_contexts s))"

lemma entries_uses_simps [simp]:
  "entries_uses [] h = 0" "entries_uses (e # es) h = (if ds_handle e = Some h then 1 else 0) + entries_uses es h"
  "entries_uses (xs @ ys) h = entries_uses xs h + entries_uses ys h"
  "entries_uses (replicate n no_descriptor) h = 0"
  by (simp_all add: entries_uses_def no_descriptor_def)

lemma entries_uses_update:
  "d < length es \<Longrightarrow> entries_uses (es[d := e]) h + (if ds_handle (es ! d) = Some h then 1 else 0) =
     entries_uses es h + (if ds_handle e = Some h then 1 else 0)"
proof (induction es arbitrary: d)
  case (Cons a es)
  then show ?case
    by (cases d) simp_all
qed simp

lemma entries_uses_pos: "0 < entries_uses es h \<longleftrightarrow> (\<exists>e\<in>set es. ds_handle e = Some h)"
  by (auto simp: entries_uses_def filter_empty_conv)

lemma map_of_upd_context [simp]:
  "map_of (vs_contexts (upd_context c f s)) a = map_option (\<lambda>x. if a = c then f x else x) (map_of (vs_contexts s) a)"
proof -
  have "map_of (map (\<lambda>(a, x). (a, if a = c then f x else x)) xs) a = map_option (\<lambda>x. if a = c then f x else x) (map_of xs a)" for xs
    by (induction xs) auto
  then show ?thesis
    by (simp add: upd_context_def)
qed

lemma upd_context_keys [simp]: "map fst (vs_contexts (upd_context c f s)) = map fst (vs_contexts s)"
  by (simp add: upd_context_def comp_def case_prod_beta)

lemma sum_contexts:
  fixes g :: "vfs_context \<Rightarrow> nat"
  assumes "distinct (map fst xs)" "map_of xs c = Some x"
  shows "sum_list (map (\<lambda>(a, y). g (if a = c then f y else y)) xs) + g x = sum_list (map (\<lambda>(a, y). g y) xs) + g (f x)"
  using assms
proof (induction xs)
  case (Cons z zs)
  obtain a y where z: "z = (a, y)" by (cases z)
  show ?case
  proof (cases "a = c")
    case True
    then have "c \<notin> fst ` set zs"
      using Cons.prems(1) by (simp add: z)
    then have "map (\<lambda>(a, y). g (if a = c then f y else y)) zs = map (\<lambda>(a, y). g y) zs"
      by (intro map_cong) (auto simp: image_iff)
    then have "sum_list (map (\<lambda>(a, y). g (if a = c then f y else y)) zs) = sum_list (map (\<lambda>(a, y). g y) zs)"
      by (rule arg_cong)
    then show ?thesis
      using Cons.prems(2) True by (simp add: z)
  next
    case False
    then show ?thesis
      using Cons by (simp add: z)
  qed
qed simp

lemma handle_uses_upd_context:
  assumes "distinct (map fst (vs_contexts s))" "map_of (vs_contexts s) c = Some x"
  shows "handle_uses (upd_context c f s) h + entries_uses (vc_entries x) h = handle_uses s h + entries_uses (vc_entries (f x)) h"
  using sum_contexts [OF assms, of "\<lambda>x. entries_uses (vc_entries x) h" f, unfolded case_prod_beta]
  unfolding handle_uses_def case_prod_beta by (simp add: upd_context_def comp_def case_prod_beta)

lemma handle_uses_cong: "vs_contexts s' = vs_contexts s \<Longrightarrow> handle_uses s' h = handle_uses s h"
  by (simp add: handle_uses_def)

lemma handle_uses_register [simp]:
  "handle_uses (vfs_context_register c x s) h = entries_uses (vc_entries x) h + handle_uses s h"
  by (simp add: handle_uses_def vfs_context_register_def)

lemma handle_uses_unregister:
  assumes "distinct (map fst (vs_contexts s))" "map_of (vs_contexts s) c = Some x"
  shows "handle_uses (vfs_context_unregister c s) h + entries_uses (vc_entries x) h = handle_uses s h"
proof -
  have "sum_list (map (\<lambda>(a, y). g y) (filter (\<lambda>(a, y). a \<noteq> c) xs)) + g x = sum_list (map (\<lambda>(a, y). g y) xs)"
    if "distinct (map fst xs)" "map_of xs c = Some x" for xs and g :: "vfs_context \<Rightarrow> nat"
    using that
  proof (induction xs)
    case (Cons z zs)
    obtain a y where z: "z = (a, y)" by (cases z)
    have "filter (\<lambda>(a, y). a \<noteq> c) zs = zs" if "a = c"
      using Cons.prems(1) that by (intro filter_True) (auto simp: z image_iff)
    then show ?case
      using Cons by (auto simp: z)
  qed simp
  from this [OF assms, of "\<lambda>x. entries_uses (vc_entries x) h"] show ?thesis
    by (simp add: handle_uses_def vfs_context_unregister_def)
qed

lemma handle_uses_get:
  assumes "map_of (vs_contexts s) c = Some x" "e \<in> set (vc_entries x)" "ds_handle e = Some h"
  shows "0 < handle_uses s h"
proof -
  have "(c, x) \<in> set (vs_contexts s)" "0 < entries_uses (vc_entries x) h"
    using assms by (auto simp: entries_uses_pos dest: map_of_SomeD)
  moreover have "entries_uses (vc_entries x) h \<le> handle_uses s h" if "(c, x) \<in> set (vs_contexts s)"
    unfolding handle_uses_def by (rule member_le_sum_list) (use that in force)+
  ultimately show ?thesis
    by fastforce
qed

lemma vfs_fd_get_Some:
  assumes "vfs_fd_get context d s = Some h"
  obtains c x where "context = Some c" "map_of (vs_contexts s) c = Some x" "3 \<le> nat d" "nat d < length (vc_entries x)"
    "ds_handle (vc_entries x ! nat d) = Some h"
  using assms that by (cases "context") (auto simp: vfs_fd_get_def split: option.splits if_splits)

section \<open>The invariant\<close>

text \<open>The handles of one end of a pipe; the reading end for \<open>r\<close>.\<close>

definition pipe_end :: "vfs_state \<Rightarrow> nat \<Rightarrow> bool \<Rightarrow> nat set" where
  "pipe_end s p r = {h. \<exists>x. vs_handles s h = Some x \<and> vh_pipe x = Some p \<and> (vh_flags x AND VFS_OPEN_READ \<noteq> 0) = r}"

definition end_open :: "vfs_pipe option \<Rightarrow> bool \<Rightarrow> bool" where
  "end_open q r = (case q of None \<Rightarrow> False | Some q \<Rightarrow> if r then pp_read_open q else pp_write_open q)"

text \<open>\<open>E h\<close> counts the references to \<open>h\<close> that the operation at work holds, and \<open>H h\<close> those that outlive it without a
  descriptor: of a mapping, of a truncation under way and of a stream of \<^verbatim>\<open>kernel/fs/file.c\<close>.  Only handles of files have such.\<close>

definition fd_wf_with :: "(nat \<Rightarrow> nat) \<Rightarrow> (nat \<Rightarrow> nat) \<Rightarrow> vfs_state \<Rightarrow> bool" where
  "fd_wf_with H E s \<longleftrightarrow>
     distinct (map fst (vs_contexts s))
   \<and> (\<forall>(c, x)\<in>set (vs_contexts s). 3 \<le> length (vc_entries x) \<and> (\<forall>i<3. ds_handle (vc_entries x ! i) = None))
   \<and> (\<forall>h. case vs_handles s h of
           None \<Rightarrow> handle_uses s h + E h + H h = 0
         | Some x \<Rightarrow> vh_references x = handle_uses s h + E h + H h \<and> 0 < vh_references x
             \<and> (vh_pipe x \<noteq> None \<longrightarrow> H h = 0 \<and> vh_dentry x = None \<and> (vh_flags x AND VFS_OPEN_READ \<noteq> 0) = (vh_flags x AND VFS_OPEN_WRITE = 0)))
   \<and> (\<forall>p q. vs_pipes s p = Some q \<longrightarrow> pipe_wf q \<and> (pp_read_open q \<or> pp_write_open q))
   \<and> (\<forall>p r. if end_open (vs_pipes s p) r then (\<exists>h. pipe_end s p r = {h}) else pipe_end s p r = {})
   \<and> io_wf (vs_io s)"

abbreviation fd_wf :: "(nat \<Rightarrow> nat) \<Rightarrow> vfs_state \<Rightarrow> bool" where "fd_wf H \<equiv> fd_wf_with H (\<lambda>_. 0)"

lemma fd_wfD:
  assumes "fd_wf_with H E s"
  shows "distinct (map fst (vs_contexts s))"
    "map_of (vs_contexts s) c = Some x \<Longrightarrow> 3 \<le> length (vc_entries x) \<and> (\<forall>i<3. ds_handle (vc_entries x ! i) = None)"
    "vs_handles s h = None \<Longrightarrow> handle_uses s h = 0 \<and> E h = 0 \<and> H h = 0"
    "vs_handles s h = Some y \<Longrightarrow> vh_references y = handle_uses s h + E h + H h \<and> 0 < vh_references y"
    "vs_handles s h = Some y \<Longrightarrow> vh_pipe y \<noteq> None \<Longrightarrow>
       H h = 0 \<and> vh_dentry y = None \<and> (vh_flags y AND VFS_OPEN_READ \<noteq> 0) = (vh_flags y AND VFS_OPEN_WRITE = 0)"
    "vs_pipes s p = Some q \<Longrightarrow> pipe_wf q \<and> (pp_read_open q \<or> pp_write_open q)"
    "if end_open (vs_pipes s p) r then (\<exists>h. pipe_end s p r = {h}) else pipe_end s p r = {}"
    "io_wf (vs_io s)"
proof -
  note a = assms [unfolded fd_wf_with_def]
  show "distinct (map fst (vs_contexts s))" "vs_pipes s p = Some q \<Longrightarrow> pipe_wf q \<and> (pp_read_open q \<or> pp_write_open q)"
    "if end_open (vs_pipes s p) r then (\<exists>h. pipe_end s p r = {h}) else pipe_end s p r = {}" "io_wf (vs_io s)"
    using a by blast+
  show "map_of (vs_contexts s) c = Some x \<Longrightarrow> 3 \<le> length (vc_entries x) \<and> (\<forall>i<3. ds_handle (vc_entries x ! i) = None)"
    using a map_of_SomeD [of "vs_contexts s" c x] by blast
  have h: "case vs_handles s h of
           None \<Rightarrow> handle_uses s h + E h + H h = 0
         | Some x \<Rightarrow> vh_references x = handle_uses s h + E h + H h \<and> 0 < vh_references x
             \<and> (vh_pipe x \<noteq> None \<longrightarrow> H h = 0 \<and> vh_dentry x = None \<and> (vh_flags x AND VFS_OPEN_READ \<noteq> 0) = (vh_flags x AND VFS_OPEN_WRITE = 0))"
    using a by blast
  show "vs_handles s h = None \<Longrightarrow> handle_uses s h = 0 \<and> E h = 0 \<and> H h = 0"
    "vs_handles s h = Some y \<Longrightarrow> vh_references y = handle_uses s h + E h + H h \<and> 0 < vh_references y"
    "vs_handles s h = Some y \<Longrightarrow> vh_pipe y \<noteq> None \<Longrightarrow>
       H h = 0 \<and> vh_dentry y = None \<and> (vh_flags y AND VFS_OPEN_READ \<noteq> 0) = (vh_flags y AND VFS_OPEN_WRITE = 0)"
    using h by auto
qed

lemma fd_wfI:
  assumes "distinct (map fst (vs_contexts s))"
    "\<And>c x. map_of (vs_contexts s) c = Some x \<Longrightarrow> 3 \<le> length (vc_entries x) \<and> (\<forall>i<3. ds_handle (vc_entries x ! i) = None)"
    "\<And>h. vs_handles s h = None \<Longrightarrow> handle_uses s h = 0 \<and> E h = 0 \<and> H h = 0"
    "\<And>h y. vs_handles s h = Some y \<Longrightarrow> vh_references y = handle_uses s h + E h + H h \<and> 0 < vh_references y"
    "\<And>h y. vs_handles s h = Some y \<Longrightarrow> vh_pipe y \<noteq> None \<Longrightarrow>
       H h = 0 \<and> vh_dentry y = None \<and> (vh_flags y AND VFS_OPEN_READ \<noteq> 0) = (vh_flags y AND VFS_OPEN_WRITE = 0)"
    "\<And>p q. vs_pipes s p = Some q \<Longrightarrow> pipe_wf q \<and> (pp_read_open q \<or> pp_write_open q)"
    "\<And>p r. if end_open (vs_pipes s p) r then (\<exists>h. pipe_end s p r = {h}) else pipe_end s p r = {}"
    "io_wf (vs_io s)"
  shows "fd_wf_with H E s"
  unfolding fd_wf_with_def
proof (intro conjI allI)
  show "\<forall>(c, x)\<in>set (vs_contexts s). 3 \<le> length (vc_entries x) \<and> (\<forall>i<3. ds_handle (vc_entries x ! i) = None)"
  proof (rule ballI)
    fix z assume "z \<in> set (vs_contexts s)"
    then show "case z of (c, x) \<Rightarrow> 3 \<le> length (vc_entries x) \<and> (\<forall>i<3. ds_handle (vc_entries x ! i) = None)"
      using assms(2) map_of_is_SomeI [OF assms(1)] by (cases z) auto
  qed
  show "vs_pipes s p = Some q \<longrightarrow> pipe_wf q \<and> (pp_read_open q \<or> pp_write_open q)" for p q
    using assms(6) by blast
  show "case vs_handles s h of
           None \<Rightarrow> handle_uses s h + E h + H h = 0
         | Some x \<Rightarrow> vh_references x = handle_uses s h + E h + H h \<and> 0 < vh_references x
             \<and> (vh_pipe x \<noteq> None \<longrightarrow> H h = 0 \<and> vh_dentry x = None \<and> (vh_flags x AND VFS_OPEN_READ \<noteq> 0) = (vh_flags x AND VFS_OPEN_WRITE = 0))" for h
  proof (cases "vs_handles s h")
    case (Some a)
    show ?thesis
      unfolding Some option.case using assms(4,5) [OF Some] by blast
  qed (simp add: assms(3))
qed (fact assms(1) assms(7) assms(8))+

text \<open>What leaves the tables, the handles and the pipes alone keeps the invariant.\<close>

definition fd_same :: "vfs_state \<Rightarrow> vfs_state \<Rightarrow> bool" where
  "fd_same s s' \<longleftrightarrow> vs_handles s' = vs_handles s \<and> vs_contexts s' = vs_contexts s \<and> vs_pipes s' = vs_pipes s
     \<and> (io_wf (vs_io s) \<longrightarrow> io_wf (vs_io s'))"

lemma fd_same_refl [simp]: "fd_same s s"
  by (simp add: fd_same_def)

lemma fd_same_trans: "fd_same s t \<Longrightarrow> fd_same t u \<Longrightarrow> fd_same s u"
  by (simp add: fd_same_def)

lemma fd_same_fields:
  assumes "fd_same s s'"
  shows "vs_handles s' = vs_handles s" "vs_contexts s' = vs_contexts s" "vs_pipes s' = vs_pipes s"
    "handle_uses s' h = handle_uses s h" "pipe_end s' p r = pipe_end s p r" "io_wf (vs_io s) \<Longrightarrow> io_wf (vs_io s')"
  using assms by (simp_all add: fd_same_def handle_uses_def pipe_end_def)

lemma fd_same_wf: "fd_same s s' \<Longrightarrow> fd_wf_with H E s \<Longrightarrow> fd_wf_with H E s'"
  unfolding fd_wf_with_def by (simp add: fd_same_fields cong: option.case_cong)

lemma fd_same_io: "io_poll_wake q io = Some io' \<Longrightarrow> io_wf io \<Longrightarrow> io_wf io'"
  using io_step_wf [OF io_step_wake] by blast

lemma fd_same_wake: "on_io (io_poll_wake q) s = Some s' \<Longrightarrow> fd_same s s'"
  by (auto simp: on_io_def fd_same_def intro: fd_same_io)

lemma fd_same_wake_pipe: "wake_pipe p s = Some s' \<Longrightarrow> fd_same s s'"
  by (auto simp: wake_pipe_def bind_eq_Some_conv intro: fd_same_trans dest!: fd_same_wake)

lemma fd_same_rl:
  assumes "on_rl f s = Some s'" "\<And>r r'. f r = Some r' \<Longrightarrow> slot_count (rs_kernel r') = slot_count (rs_kernel r)"
  shows "fd_same s s'"
  using assms by (auto simp: on_rl_def fd_same_def elim!: io_wf_cong)

lemma fd_same_upd_dentry [simp]: "fd_same (upd_dentry d x s) s' \<longleftrightarrow> fd_same s s'" "fd_same s (upd_dentry d x s') \<longleftrightarrow> fd_same s s'"
  by (simp_all add: fd_same_def upd_dentry_def)

lemma fd_same_mount_release: "mount_release m s = Some s' \<Longrightarrow> fd_same s s'"
  by (auto simp: mount_release_def mount_release_fields(2) split: option.splits if_splits dest!: fd_same_rl)

lemma fd_same_dentry_retain: "vfs_dentry_retain d s = Some s' \<Longrightarrow> fd_same s s'"
  by (auto simp: vfs_dentry_retain_def vfs_mount_reference_def split: option.splits dest!: fd_same_rl)

lemma fd_same_dentry_release:
  assumes "vfs_dentry_release d s = Some s'"
  shows "fd_same s s'"
  by (rule vfs_dentry_release.raw_induct [of "\<lambda>d s s'. fd_same s s'", OF _ assms])
    (fastforce simp: bind_eq_Some_conv split: option.splits if_splits dest: fd_same_mount_release intro: fd_same_trans)

lemma fd_same_drop_locks: "drop_locks h s = Some s' \<Longrightarrow> fd_same s s'"
  by (auto simp: drop_locks_def vfs_record_lock_close_def vfs_record_lock_wake_key_def split: option.splits dest!: fd_same_rl)

section \<open>Single changes\<close>

lemma vs_upd_fields [simp]:
  "vs_handles (upd_handle h x s) = (vs_handles s)(h := x)" "vs_contexts (upd_handle h x s) = vs_contexts s"
  "vs_pipes (upd_handle h x s) = vs_pipes s" "vs_io (upd_handle h x s) = vs_io s" "handle_uses (upd_handle h x s) g = handle_uses s g"
  "vs_handles (upd_pipe p y s) = vs_handles s" "vs_contexts (upd_pipe p y s) = vs_contexts s"
  "vs_pipes (upd_pipe p y s) = (vs_pipes s)(p := y)" "vs_io (upd_pipe p y s) = vs_io s" "handle_uses (upd_pipe p y s) g = handle_uses s g"
  "vs_handles (upd_context c f s) = vs_handles s" "vs_pipes (upd_context c f s) = vs_pipes s" "vs_io (upd_context c f s) = vs_io s"
  "vs_handles (set_descriptor c d e s) = vs_handles s" "vs_pipes (set_descriptor c d e s) = vs_pipes s" "vs_io (set_descriptor c d e s) = vs_io s"
  by (simp_all add: upd_handle_def upd_pipe_def upd_context_def set_descriptor_def handle_uses_def)

lemma pipe_end_upd [simp]:
  "pipe_end (upd_pipe p y s) = pipe_end s" "pipe_end (upd_context c f s) = pipe_end s" "pipe_end (set_descriptor c d e s) = pipe_end s"
  by (simp_all add: pipe_end_def fun_eq_iff)

text \<open>A handle with a new count, or other flags than those of its direction.\<close>

lemma fd_wf_handle:
  assumes "fd_wf_with H E s" "vs_handles s h = Some x" "vh_pipe y = vh_pipe x" "vh_dentry y = vh_dentry x"
    "vh_flags y AND VFS_OPEN_READ = vh_flags x AND VFS_OPEN_READ" "vh_flags y AND VFS_OPEN_WRITE = vh_flags x AND VFS_OPEN_WRITE"
    "0 < vh_references y" "vh_references y + E h = vh_references x + k"
  shows "fd_wf_with H (E(h := k)) (upd_handle h (Some y) s)"
proof (rule fd_wfI)
  note wf = fd_wfD [OF assms(1)]
  have "pipe_end (upd_handle h (Some y) s) = pipe_end s"
    using assms(2,3,5) by (auto simp: pipe_end_def fun_eq_iff)
  then show "if end_open (vs_pipes (upd_handle h (Some y) s) p) r then \<exists>g. pipe_end (upd_handle h (Some y) s) p r = {g}
      else pipe_end (upd_handle h (Some y) s) p r = {}" for p r
    using wf(7) [of p r] by simp
  show "vh_references z = handle_uses (upd_handle h (Some y) s) g + (E(h := k)) g + H g \<and> 0 < vh_references z"
    if "vs_handles (upd_handle h (Some y) s) g = Some z" for g z
    using that wf(4) [of g] wf(4) [OF assms(2)] assms(7,8) by (auto split: if_splits)
  show "H g = 0 \<and> vh_dentry z = None \<and> (vh_flags z AND VFS_OPEN_READ \<noteq> 0) = (vh_flags z AND VFS_OPEN_WRITE = 0)"
    if "vs_handles (upd_handle h (Some y) s) g = Some z" "vh_pipe z \<noteq> None" for g z
  proof (cases "g = h")
    case True
    then show ?thesis
      using that wf(5) [OF assms(2)] assms(3-6) by simp
  next
    case False
    then show ?thesis
      using that wf(5) [of g z] by simp
  qed
  show "handle_uses (upd_handle h (Some y) s) g = 0 \<and> (E(h := k)) g = 0 \<and> H g = 0" if "vs_handles (upd_handle h (Some y) s) g = None" for g
    using that wf(3) [of g] by (auto split: if_splits)
qed (use fd_wfD [OF assms(1)] in auto)

text \<open>New entries in a table.\<close>

lemma fd_wf_entries:
  assumes "fd_wf_with H E s" "map_of (vs_contexts s) c = Some x"
    "\<And>h. entries_uses (vc_entries (f x)) h + E' h = entries_uses (vc_entries x) h + E h"
    "3 \<le> length (vc_entries (f x))" "\<forall>i<3. ds_handle (vc_entries (f x) ! i) = None"
  shows "fd_wf_with H E' (upd_context c f s)"
proof (rule fd_wfI)
  note wf = fd_wfD [OF assms(1)]
  have uses: "handle_uses (upd_context c f s) h + E' h = handle_uses s h + E h" for h
    using handle_uses_upd_context [OF wf(1) assms(2), of f h] assms(3) [of h] by simp
  show "vh_references y = handle_uses (upd_context c f s) h + E' h + H h \<and> 0 < vh_references y" if "vs_handles (upd_context c f s) h = Some y" for h y
    using that wf(4) [of h y] uses [of h] by auto
  show "handle_uses (upd_context c f s) h = 0 \<and> E' h = 0 \<and> H h = 0" if "vs_handles (upd_context c f s) h = None" for h
    using that wf(3) [of h] uses [of h] by simp
  show "3 \<le> length (vc_entries y) \<and> (\<forall>i<3. ds_handle (vc_entries y ! i) = None)"
    if "map_of (vs_contexts (upd_context c f s)) a = Some y" for a y
    using that wf(2) [of a] assms(2,4,5) by (auto split: if_splits)
qed (use fd_wfD(1,5-8) [OF assms(1)] in auto)

lemma fd_wf_set_descriptor:
  assumes "fd_wf_with H E s" "map_of (vs_contexts s) c = Some x" "3 \<le> d" "d < length (vc_entries x)"
    "\<And>h. (if ds_handle e = Some h then 1 else 0) + E' h = (if ds_handle (vc_entries x ! d) = Some h then 1 else 0) + E h"
  shows "fd_wf_with H E' (set_descriptor c d e s)"
  unfolding set_descriptor_def
proof (rule fd_wf_entries [OF assms(1,2)])
  show "entries_uses (vc_entries (x\<lparr>vc_entries := (vc_entries x)[d := e]\<rparr>)) h + E' h = entries_uses (vc_entries x) h + E h" for h
    using entries_uses_update [OF assms(4), of e h] assms(5) [of h] by simp
qed (use fd_wfD(2) [OF assms(1,2)] assms(3) in auto)

text \<open>A pipe that keeps its ends open.\<close>

lemma fd_wf_pipe:
  assumes "fd_wf_with H E s" "vs_pipes s p = Some q" "pipe_wf y" "pp_read_open y = pp_read_open q" "pp_write_open y = pp_write_open q"
  shows "fd_wf_with H E (upd_pipe p (Some y) s)"
proof (rule fd_wfI)
  note wf = fd_wfD [OF assms(1)]
  have "end_open (vs_pipes (upd_pipe p (Some y) s) a) r = end_open (vs_pipes s a) r" for a r
    using assms(2,4,5) by (simp add: end_open_def)
  then show "if end_open (vs_pipes (upd_pipe p (Some y) s) a) r then \<exists>g. pipe_end (upd_pipe p (Some y) s) a r = {g}
      else pipe_end (upd_pipe p (Some y) s) a r = {}" for a r
    using wf(7) [of a r] by simp
  show "pipe_wf z \<and> (pp_read_open z \<or> pp_write_open z)" if "vs_pipes (upd_pipe p (Some y) s) a = Some z" for a z
    using that wf(6) [of a z] wf(6) [OF assms(2)] assms(3-5) by (auto split: if_splits)
  show "vh_references z = handle_uses (upd_pipe p (Some y) s) h + E h + H h \<and> 0 < vh_references z"
    if "vs_handles (upd_pipe p (Some y) s) h = Some z" for h z
    using that wf(4) [of h z] by auto
qed (use fd_wfD(1,2,3,5,8) [OF assms(1)] in auto)

section \<open>Closing\<close>

lemma pipe_end_member: "vs_handles s h = Some x \<Longrightarrow> vh_pipe x = Some p \<Longrightarrow> h \<in> pipe_end s p (vh_flags x AND VFS_OPEN_READ \<noteq> 0)"
  by (simp add: pipe_end_def)

lemma pipe_alive:
  assumes "fd_wf_with H E s" "vs_handles s h = Some x" "vh_pipe x = Some p"
  obtains q where "vs_pipes s p = Some q" "if vh_flags x AND VFS_OPEN_READ \<noteq> 0 then pp_read_open q else pp_write_open q"
    "pipe_end s p (vh_flags x AND VFS_OPEN_READ \<noteq> 0) = {h}"
proof -
  let ?r = "vh_flags x AND VFS_OPEN_READ \<noteq> 0"
  have "h \<in> pipe_end s p ?r"
    using assms(2,3) by (rule pipe_end_member)
  then have "end_open (vs_pipes s p) ?r" "pipe_end s p ?r = {h}"
    using fd_wfD(7) [OF assms(1), of p ?r] by (auto split: if_splits)
  then show ?thesis
    using that by (auto simp: end_open_def split: option.splits)
qed

text \<open>The last reference to a handle goes: to a file, and to an end of a pipe.\<close>

lemma fd_wf_drop_file:
  assumes "fd_wf_with H E s" "vs_handles s h = Some x" "vh_pipe x = None" "vh_references x = 1" "E h = 1"
  shows "fd_wf_with H (E(h := 0)) (upd_handle h None s)"
proof (rule fd_wfI)
  note wf = fd_wfD [OF assms(1)]
  have "pipe_end (upd_handle h None s) = pipe_end s"
    using assms(2,3) by (auto simp: pipe_end_def fun_eq_iff)
  then show "if end_open (vs_pipes (upd_handle h None s) p) r then \<exists>g. pipe_end (upd_handle h None s) p r = {g}
      else pipe_end (upd_handle h None s) p r = {}" for p r
    using wf(7) [of p r] by simp
  show "handle_uses (upd_handle h None s) g = 0 \<and> (E(h := 0)) g = 0 \<and> H g = 0" if "vs_handles (upd_handle h None s) g = None" for g
    using that wf(3) [of g] wf(4) [OF assms(2)] assms(4,5) by (auto split: if_splits)
  show "vh_references y = handle_uses (upd_handle h None s) g + (E(h := 0)) g + H g \<and> 0 < vh_references y"
    if "vs_handles (upd_handle h None s) g = Some y" for g y
    using that wf(4) [of g y] by (auto split: if_splits)
  show "H g = 0 \<and> vh_dentry y = None \<and> (vh_flags y AND VFS_OPEN_READ \<noteq> 0) = (vh_flags y AND VFS_OPEN_WRITE = 0)"
    if "vs_handles (upd_handle h None s) g = Some y" "vh_pipe y \<noteq> None" for g y
    using that wf(5) [of g y] by (auto split: if_splits)
qed (use fd_wfD [OF assms(1)] in auto)

lemma fd_wf_drop_pipe:
  assumes "fd_wf_with H E s" "vs_handles s h = Some x" "vh_pipe x = Some p" "vh_references x = 1" "E h = 1"
    "vs_pipes s p = Some q"
    and y: "y = (if vh_flags x AND VFS_OPEN_READ \<noteq> 0 then q\<lparr>pp_read_open := False\<rparr> else q\<lparr>pp_write_open := False\<rparr>)"
  shows "fd_wf_with H (E(h := 0)) (upd_handle h None (upd_pipe p (if \<not> pp_read_open y \<and> \<not> pp_write_open y then None else Some y) s))"
    (is "fd_wf_with H _ ?s")
proof (rule fd_wfI)
  note wf = fd_wfD [OF assms(1)]
  obtain q' where "vs_pipes s p = Some q'" and e: "pipe_end s p (vh_flags x AND VFS_OPEN_READ \<noteq> 0) = {h}"
    by (rule pipe_alive [OF assms(1-3)])
  have ends: "pipe_end ?s a r = pipe_end s a r - {h}" for a r
    by (auto simp: pipe_end_def)
  show "if end_open (vs_pipes ?s a) r then \<exists>g. pipe_end ?s a r = {g} else pipe_end ?s a r = {}" for a r
  proof (cases "a = p \<and> r = (vh_flags x AND VFS_OPEN_READ \<noteq> 0)")
    case True
    then have "pipe_end ?s a r = {}" "\<not> end_open (vs_pipes ?s a) r"
      using e ends [of a r] y by (auto simp: end_open_def)
    then show ?thesis by simp
  next
    case False
    then have "h \<notin> pipe_end s a r"
      using assms(2,3) by (auto simp: pipe_end_def)
    then have "pipe_end ?s a r = pipe_end s a r"
      using ends [of a r] by blast
    moreover have "end_open (vs_pipes ?s a) r = end_open (vs_pipes s a) r"
      using False assms(6) y by (auto simp: end_open_def split: if_splits)
    ultimately show ?thesis
      using wf(7) [of a r] by simp
  qed
  show "handle_uses ?s g = 0 \<and> (E(h := 0)) g = 0 \<and> H g = 0" if "vs_handles ?s g = None" for g
    using that wf(3) [of g] wf(4) [OF assms(2)] assms(4,5) by (auto split: if_splits)
  show "vh_references z = handle_uses ?s g + (E(h := 0)) g + H g \<and> 0 < vh_references z" if "vs_handles ?s g = Some z" for g z
    using that wf(4) [of g z] by (auto split: if_splits)
  show "H g = 0 \<and> vh_dentry z = None \<and> (vh_flags z AND VFS_OPEN_READ \<noteq> 0) = (vh_flags z AND VFS_OPEN_WRITE = 0)"
    if "vs_handles ?s g = Some z" "vh_pipe z \<noteq> None" for g z
    using that wf(5) [of g z] by (auto split: if_splits)
  show "pipe_wf z \<and> (pp_read_open z \<or> pp_write_open z)" if "vs_pipes ?s a = Some z" for a z
    using that wf(6) [of a z] wf(6) [OF assms(6)] y by (auto simp: pipe_wf_def split: if_splits)
qed (use fd_wfD [OF assms(1)] in auto)

end
