(* ===== verification/DescriptorSteps.thy ===== *)
theory DescriptorSteps
  imports DescriptorInv RecordLockProps
begin

text \<open>
  Every operation on contexts, descriptors and handles keeps the invariant.
\<close>

section \<open>Waking\<close>

lemma io_released_append: "io_released ws (io_released vs io) = io_released (vs @ ws) io"
  by (auto simp: io_released_def run_waiters_def fun_eq_iff case_prod_beta intro!: filter_cong io_state.equality)

lemma wake_effect:
  assumes "io_wf (vs_io s)"
  obtains ws where "on_io (io_poll_wake (Some q)) s = Some (s\<lparr>vs_io := io_released ws (vs_io s)\<rparr>)" "set ws = fst ` set (io_queues (vs_io s) q)"
  using wake_loop_effect [OF assms, of q] that by (auto simp: on_io_def io_poll_wake_def)

lemma wake_pipe_effect:
  assumes "io_wf (vs_io s)"
  obtains ws where "wake_pipe p s = Some (s\<lparr>vs_io := io_released ws (vs_io s)\<rparr>)"
    "fst ` set (io_queues (vs_io s) p) \<union> fst ` set (io_queues (vs_io s) (p + 4)) = set ws"
proof -
  obtain ws where w: "on_io (io_poll_wake (Some p)) s = Some (s\<lparr>vs_io := io_released ws (vs_io s)\<rparr>)"
    "set ws = fst ` set (io_queues (vs_io s) p)"
    by (rule wake_effect [OF assms])
  let ?s = "s\<lparr>vs_io := io_released ws (vs_io s)\<rparr>"
  have "io_wf (vs_io ?s)"
    using assms by (simp add: io_released_wf)
  from wake_effect [OF this, of "p + 4"] obtain vs where v:
    "on_io (io_poll_wake (Some (p + 4))) ?s = Some (?s\<lparr>vs_io := io_released vs (vs_io ?s)\<rparr>)"
    "set vs = fst ` set (io_queues (vs_io ?s) (p + 4))"
    by blast
  have "fst ` set (io_queues (vs_io ?s) (p + 4)) = fst ` set (io_queues (vs_io s) (p + 4)) - set ws"
    by (force simp: io_released_def)
  then have "set (ws @ vs) = fst ` set (io_queues (vs_io s) p) \<union> fst ` set (io_queues (vs_io s) (p + 4))"
    using w(2) v(2) by auto
  then show ?thesis
    using that [of "ws @ vs"] w(1) v(1) by (simp add: wake_pipe_def io_released_append)
qed

section \<open>Closing keeps the invariant\<close>

lemma vfs_close_wf:
  assumes "fd_wf_with H E s" "E h = Suc k" "vfs_close (Some h) s = Some (s', r)"
  shows "fd_wf_with H (E(h := k)) s'"
proof -
  obtain x where x: "vs_handles s h = Some x"
    using fd_wfD(3) [OF assms(1), of h] assms(2) by (cases "vs_handles s h") auto
  have refs: "vh_references x = handle_uses s h + Suc k + H h"
    using fd_wfD(4) [OF assms(1) x] assms(2) by simp
  show ?thesis
  proof (cases "vh_references x - 1 = 0")
    case False
    have "s' = upd_handle h (Some (x\<lparr>vh_references := vh_references x - 1\<rparr>)) s"
      using assms(3) x refs False by (simp add: vfs_close_def)
    then show ?thesis
      using False refs assms(2) by (auto intro!: fd_wf_handle [OF assms(1) x])
  next
    case True
    then have one: "vh_references x = 1" "E h = 1" "k = 0"
      using refs assms(2) by auto
    show ?thesis
    proof (cases "vh_pipe x")
      case None
      then obtain d t where t: "vfs_dentry_release d (s\<lparr>vs_open := removeAll h (vs_open s)\<rparr>) = Some t" "s' = upd_handle h None t"
        using assms(3) x True one by (auto simp: vfs_close_def split: option.splits)
      have "fd_same (upd_handle h None s) s'"
        using fd_same_dentry_release [OF t(1)] t(2) by (simp add: fd_same_def)
      then show ?thesis
        using fd_same_wf fd_wf_drop_file [OF assms(1) x None one(1,2)] one(3) by blast
    next
      case (Some p)
      obtain q where q: "vs_pipes s p = Some q"
        by (rule pipe_alive [OF assms(1) x Some])
      define y where "y = (if vh_flags x AND VFS_OPEN_READ \<noteq> 0 then q\<lparr>pp_read_open := False\<rparr> else q\<lparr>pp_write_open := False\<rparr>)"
      obtain t where t: "wake_pipe p (upd_pipe p (Some y) s) = Some t"
          "s' = upd_handle h None (if \<not> pp_read_open y \<and> \<not> pp_write_open y then upd_pipe p None t else t)"
        using assms(3) x True one Some q by (auto simp: vfs_close_def close_pipe_end_def y_def Let_def split: if_splits)
      have "fd_same (upd_handle h None (upd_pipe p (if \<not> pp_read_open y \<and> \<not> pp_write_open y then None else Some y) s)) s'"
        using fd_same_wake_pipe [OF t(1)] t(2) by (auto simp: fd_same_def)
      then show ?thesis
        using fd_same_wf fd_wf_drop_pipe [OF assms(1) x Some one(1,2) q y_def] one(3) by blast
    qed
  qed
qed

lemma wake_pipe_wf: "wake_pipe p s = Some s' \<Longrightarrow> fd_wf_with H E s \<Longrightarrow> fd_wf_with H E s'"
  using fd_same_wf fd_same_wake_pipe by blast

lemma cleared_descriptor_wf:
  assumes "fd_wf_with H E s" "vfs_fd_get (Some c) d s = Some h"
  shows "fd_wf_with H (E(h := Suc (E h))) (set_descriptor c (nat d) no_descriptor s)"
  using assms(2)
proof (rule vfs_fd_get_Some)
  fix a x assume a: "Some c = Some a" "map_of (vs_contexts s) a = Some x" "3 \<le> nat d" "nat d < length (vc_entries x)"
    "ds_handle (vc_entries x ! nat d) = Some h"
  then show ?thesis
    by (intro fd_wf_set_descriptor [OF assms(1)]) (auto simp: no_descriptor_def)
qed

lemma vfs_fd_close_wf:
  assumes "fd_wf H s" "vfs_fd_close c d s = Some (s', r)"
  shows "fd_wf H s'"
proof (cases "\<exists>a h. c = Some a \<and> vfs_fd_get c d s = Some h")
  case False
  then have "vfs_fd_close c d s = Some (s, VFS_ERROR_BAD_DESCRIPTOR)"
    by (auto simp: vfs_fd_close_def split: option.splits)
  then show ?thesis
    using assms by simp
next
  case True
  then obtain a h where a: "c = Some a" "vfs_fd_get (Some a) d s = Some h"
    by auto
  let ?E = "(\<lambda>_. 0 :: nat)(h := Suc 0)"
  obtain t where t: "drop_locks h (set_descriptor a (nat d) no_descriptor s) = Some t"
    using assms(2) a by (auto simp: vfs_fd_close_def split: option.splits)
  have wf: "fd_wf_with H ?E t"
    using fd_same_wf [OF fd_same_drop_locks [OF t]] cleared_descriptor_wf [OF assms(1) a(2)] by simp
  obtain u where u: "fd_wf_with H ?E u" "vfs_close (Some h) u = Some (s', r)"
    using assms(2) a t wf wake_pipe_wf [of _ t _ H ?E]
    by (auto simp: vfs_fd_close_def bind_eq_Some_conv split: option.splits if_splits)
  have "fd_wf_with H (?E(h := 0)) s'"
    by (rule vfs_close_wf [OF u(1) _ u(2)]) simp
  moreover have "?E(h := 0) = (\<lambda>_. 0)"
    by (simp add: fun_eq_iff)
  ultimately show ?thesis
    by simp
qed

lemma close_entries_wf: "fd_wf_with H (entries_uses es) s \<Longrightarrow> close_entries es s = Some s' \<Longrightarrow> fd_wf H s'"
proof (induction es arbitrary: s)
  case Nil
  moreover have "entries_uses [] = (\<lambda>_. 0)"
    by (simp add: fun_eq_iff)
  ultimately show ?case
    by simp
next
  case (Cons e es)
  show ?case
  proof (cases "ds_handle e")
    case None
    then have "entries_uses (e # es) = entries_uses es"
      by (simp add: fun_eq_iff)
    then show ?thesis
      using Cons None by simp
  next
    case (Some h)
    obtain t u r where t: "drop_locks h s = Some t" "vfs_close (Some h) t = Some (u, r)" "close_entries es u = Some s'"
      using Cons.prems(2) Some by (auto simp: bind_eq_Some_conv)
    have "fd_wf_with H ((entries_uses (e # es))(h := entries_uses es h)) u"
      using fd_same_wf [OF fd_same_drop_locks [OF t(1)] Cons.prems(1)] by (rule vfs_close_wf [OF _ _ t(2)]) (simp add: Some)
    moreover have "(entries_uses (e # es))(h := entries_uses es h) = entries_uses es"
      using Some by (auto simp: fun_eq_iff)
    ultimately show ?thesis
      using Cons.IH t(3) by simp
  qed
qed

section \<open>Tables and contexts\<close>

lemma handle_retain_wf:
  assumes "fd_wf_with H E s" "vfs_handle_retain (Some h) s = Some s'"
  shows "fd_wf_with H (E(h := Suc (E h))) s'"
  using assms(2) fd_wf_handle [OF assms(1), of h] by (auto simp: vfs_handle_retain_def split: option.splits)

lemma retain_entries_wf:
  "fd_wf_with H E s \<Longrightarrow> retain_entries es s = Some s' \<Longrightarrow> fd_wf_with H (\<lambda>h. entries_uses es h + E h) s' \<and> vs_contexts s' = vs_contexts s"
proof (induction es arbitrary: s E)
  case (Cons e es)
  obtain t where t: "vfs_handle_retain (ds_handle e) s = Some t" "retain_entries es t = Some s'"
    using Cons.prems(2) by (auto simp: bind_eq_Some_conv)
  have c: "vs_contexts t = vs_contexts s"
    using t(1) by (auto simp: vfs_handle_retain_def split: option.splits)
  show ?case
  proof (cases "ds_handle e")
    case None
    then have "t = s" "(\<lambda>h. entries_uses (e # es) h + E h) = (\<lambda>h. entries_uses es h + E h)"
      using t(1) by (auto simp: vfs_handle_retain_def)
    then show ?thesis
      using Cons.IH [OF Cons.prems(1)] t(2) by (simp del: entries_uses_simps)
  next
    case (Some h)
    have "(\<lambda>g. entries_uses (e # es) g + E g) = (\<lambda>g. entries_uses es g + (E(h := Suc (E h))) g)"
      using Some by (auto simp: fun_eq_iff)
    moreover have "fd_wf_with H (E(h := Suc (E h))) t"
      using handle_retain_wf [OF Cons.prems(1)] t(1) Some by simp
    ultimately show ?thesis
      using Cons.IH [of "E(h := Suc (E h))" t] t(2) c by (simp only:)
  qed
qed simp

lemma entries_uses_from_3:
  assumes "3 \<le> length es" "\<forall>i<3. ds_handle (es ! i) = None"
  shows "entries_uses (drop 3 es) = entries_uses es"
proof
  fix h
  have "entries_uses (take 3 es) h = 0"
    using assms by (auto simp: entries_uses_def filter_empty_conv in_set_conv_nth)
  then show "entries_uses (drop 3 es) h = entries_uses es h"
    using entries_uses_simps(3) [of "take 3 es" "drop 3 es" h] by (simp del: entries_uses_simps)
qed

lemma vfs_context_register_fields [simp]:
  "vs_handles (vfs_context_register c x s) = vs_handles s" "vs_pipes (vfs_context_register c x s) = vs_pipes s"
  "vs_io (vfs_context_register c x s) = vs_io s" "pipe_end (vfs_context_register c x s) = pipe_end s"
  "vs_contexts (vfs_context_register c x s) = (c, x) # vs_contexts s"
  by (simp_all add: vfs_context_register_def pipe_end_def fun_eq_iff)

lemma vfs_context_unregister_fields [simp]:
  "vs_handles (vfs_context_unregister c s) = vs_handles s" "vs_pipes (vfs_context_unregister c s) = vs_pipes s"
  "vs_io (vfs_context_unregister c s) = vs_io s" "pipe_end (vfs_context_unregister c s) = pipe_end s"
  "vs_contexts (vfs_context_unregister c s) = filter (\<lambda>(a, x). a \<noteq> c) (vs_contexts s)"
  by (simp_all add: vfs_context_unregister_def pipe_end_def fun_eq_iff)

lemma context_register_wf:
  assumes "fd_wf_with H (entries_uses (vc_entries x)) s" "c \<notin> fst ` set (vs_contexts s)"
    "3 \<le> length (vc_entries x)" "\<forall>i<3. ds_handle (vc_entries x ! i) = None"
  shows "fd_wf H (vfs_context_register c x s)"
proof (rule fd_wfI)
  note wf = fd_wfD [OF assms(1)]
  show "vh_references y = handle_uses (vfs_context_register c x s) h + 0 + H h \<and> 0 < vh_references y"
    if "vs_handles (vfs_context_register c x s) h = Some y" for h y
    using that wf(4) [of h y] by auto
  show "3 \<le> length (vc_entries y) \<and> (\<forall>i<3. ds_handle (vc_entries y ! i) = None)"
    if "map_of (vs_contexts (vfs_context_register c x s)) a = Some y" for a y
    using that wf(2) [of a y] assms(3,4) by (auto split: if_splits)
qed (use fd_wfD(1,3,5-8) [OF assms(1)] assms(2) in auto)

lemma context_unregister_wf:
  assumes "fd_wf H s" "map_of (vs_contexts s) c = Some x"
  shows "fd_wf_with H (entries_uses (vc_entries x)) (vfs_context_unregister c s)"
proof (rule fd_wfI)
  note wf = fd_wfD [OF assms(1)]
  note uses = handle_uses_unregister [OF wf(1) assms(2)]
  show "vh_references y = handle_uses (vfs_context_unregister c s) h + entries_uses (vc_entries x) h + H h \<and> 0 < vh_references y"
    if "vs_handles (vfs_context_unregister c s) h = Some y" for h y
    using that wf(4) [of h y] uses [of h] by auto
  show "handle_uses (vfs_context_unregister c s) h = 0 \<and> entries_uses (vc_entries x) h = 0 \<and> H h = 0"
    if "vs_handles (vfs_context_unregister c s) h = None" for h
    using that wf(3) [of h] uses [of h] by auto
  show "distinct (map fst (vs_contexts (vfs_context_unregister c s)))"
    using wf(1) by (simp add: distinct_map_filter)
  show "3 \<le> length (vc_entries y) \<and> (\<forall>i<3. ds_handle (vc_entries y ! i) = None)"
    if "map_of (vs_contexts (vfs_context_unregister c s)) a = Some y" for a y
  proof -
    have "(a, y) \<in> set (vs_contexts s)"
      using map_of_SomeD [OF that] by simp
    then show ?thesis
      using wf(2) [of a y] map_of_is_SomeI [OF wf(1)] by blast
  qed
qed (use fd_wfD(5-8) [OF assms(1)] in auto)

lemma no_descriptor_entries:
  "entries_uses (replicate VFS_INITIAL_FD_CAPACITY no_descriptor) = (\<lambda>_. 0)" "3 \<le> length (replicate VFS_INITIAL_FD_CAPACITY no_descriptor)"
  "\<forall>i<3. ds_handle (replicate VFS_INITIAL_FD_CAPACITY no_descriptor ! i) = None"
  by (simp_all only: length_replicate nth_replicate fun_eq_iff entries_uses_simps) (simp_all add: no_descriptor_def)

lemma vfs_context_allocate_wf:
  assumes "fd_wf H s" "vfs_context_allocate d memory entries s = Some (s', r)" "\<forall>c. memory = Some c \<longrightarrow> c \<notin> fst ` set (vs_contexts s)"
  shows "fd_wf H s'"
proof (cases "s' = s")
  case False
  then obtain c t where t: "memory = Some c" "vfs_dentry_retain d s = Some t"
      "s' = vfs_context_register c \<lparr>vc_cwd = d, vc_entries = replicate VFS_INITIAL_FD_CAPACITY no_descriptor, vc_references = 1\<rparr> t"
    using assms(2) by (auto simp: vfs_context_allocate_def split: option.splits if_splits)
  have "fd_wf H t" "vs_contexts t = vs_contexts s"
    using fd_same_wf [OF fd_same_dentry_retain [OF t(2)] assms(1)] fd_same_fields(2) [OF fd_same_dentry_retain [OF t(2)]] by simp_all
  then show ?thesis
    unfolding t(3) using assms(3) t(1) no_descriptor_entries by (intro context_register_wf) simp_all
qed (use assms(1) in simp)

lemma vfs_context_create_wf:
  assumes "fd_wf H s" "vfs_context_create base memory entries s = Some (s', r)" "\<forall>c. memory = Some c \<longrightarrow> c \<notin> fst ` set (vs_contexts s)"
  shows "fd_wf H s'"
proof (cases base)
  case (Some d)
  then obtain t u r' where t: "vfs_dentry_retain d s = Some t" "vfs_context_allocate d memory entries t = Some (u, r')" "vfs_dentry_release d u = Some s'"
    using assms(2) by (auto simp: vfs_context_create_def bind_eq_Some_conv)
  have "fd_wf H t" "vs_contexts t = vs_contexts s"
    using fd_same_wf [OF fd_same_dentry_retain [OF t(1)] assms(1)] fd_same_fields(2) [OF fd_same_dentry_retain [OF t(1)]] by simp_all
  then have "fd_wf H u"
    using vfs_context_allocate_wf [OF _ t(2)] assms(3) by simp
  then show ?thesis
    by (rule fd_same_wf [OF fd_same_dentry_release [OF t(3)]])
qed (use assms in \<open>simp add: vfs_context_create_def\<close>)

lemma vfs_context_clone_cwd_wf:
  assumes "fd_wf H s" "vfs_context_clone_cwd source memory entries s = Some (s', r)" "\<forall>c. memory = Some c \<longrightarrow> c \<notin> fst ` set (vs_contexts s)"
  shows "fd_wf H s'"
  using assms by (auto simp: vfs_context_clone_cwd_def split: option.splits intro: vfs_context_allocate_wf)

lemma vfs_context_fork_wf:
  assumes "fd_wf H s" "vfs_context_fork source memory entries s = Some (s', r)" "\<forall>c. memory = Some c \<longrightarrow> c \<notin> fst ` set (vs_contexts s)"
  shows "fd_wf H s'"
proof (cases "s' = s")
  case False
  then obtain c a x t u where t: "memory = Some a" "map_of (vs_contexts s) c = Some x" "retain_entries (drop 3 (vc_entries x)) s = Some t"
      "vfs_dentry_retain (vc_cwd x) t = Some u" "s' = vfs_context_register a (x\<lparr>vc_references := 1\<rparr>) u"
    using assms(2) by (auto simp: vfs_context_fork_def vfs_fd_table_fork_def bind_eq_Some_conv split: option.splits if_splits)
  note x = fd_wfD(2) [OF assms(1) t(2)]
  have "fd_wf_with H (entries_uses (vc_entries x)) t" "vs_contexts t = vs_contexts s"
    using retain_entries_wf [OF assms(1) t(3)] x by (simp_all add: entries_uses_from_3)
  then have "fd_wf_with H (entries_uses (vc_entries x)) u" "vs_contexts u = vs_contexts s"
    using fd_same_wf [OF fd_same_dentry_retain [OF t(4)]] fd_same_fields(2) [OF fd_same_dentry_retain [OF t(4)]] by simp_all
  then show ?thesis
    unfolding t(5) using assms(3) t(1) x by (intro context_register_wf) simp_all
qed (use assms(1) in simp)

lemma upd_context_absent: "map_of (vs_contexts s) c = None \<Longrightarrow> upd_context c f s = s"
  by (rule vfs_state.equality) (force simp: upd_context_def map_of_eq_None_iff intro!: map_idI)+

text \<open>Another count or directory.\<close>

lemma context_fields_wf:
  assumes "fd_wf H s" "\<And>x. vc_entries (f x) = vc_entries x"
  shows "fd_wf H (upd_context c f s)"
proof (cases "map_of (vs_contexts s) c")
  case None
  then show ?thesis
    using assms(1) by (simp add: upd_context_absent)
next
  case (Some x)
  show ?thesis
    using fd_wfD(2) [OF assms(1) Some] assms(2) by (intro fd_wf_entries [OF assms(1) Some]) simp_all
qed

lemma vfs_context_retain_wf: "fd_wf H s \<Longrightarrow> vfs_context_retain c s = Some s' \<Longrightarrow> fd_wf H s'"
  by (auto simp: vfs_context_retain_def split: option.splits if_splits intro: context_fields_wf)

lemma vfs_context_release_wf:
  assumes "fd_wf H s" "vfs_context_release c s = Some s'" shows "fd_wf H s'"
proof (cases "\<exists>a x. c = Some a \<and> map_of (vs_contexts s) a = Some x \<and> vc_references x = 1")
  case True
  then obtain a x where a: "c = Some a" "map_of (vs_contexts s) a = Some x" "vc_references x = 1"
    by blast
  obtain t where t: "close_entries (drop 3 (vc_entries x)) (vfs_context_unregister a s) = Some t" "vfs_dentry_release (vc_cwd x) t = Some s'"
    using assms(2) a by (auto simp: vfs_context_release_def vfs_fd_table_destroy_def bind_eq_Some_conv)
  have "fd_wf H t"
    using context_unregister_wf [OF assms(1) a(2)] fd_wfD(2) [OF assms(1) a(2)] t(1) by (intro close_entries_wf) (simp_all add: entries_uses_from_3)
  then show ?thesis
    using fd_same_wf [OF fd_same_dentry_release [OF t(2)]] by simp
next
  case False
  then show ?thesis
    using assms by (auto simp: vfs_context_release_def split: option.splits if_splits intro: context_fields_wf)
qed

lemma change_cwd_wf:
  assumes "fd_wf H s" "change_cwd c d s = Some s'" shows "fd_wf H s'"
proof -
  obtain x t where t: "map_of (vs_contexts s) c = Some x" "vfs_dentry_retain d s = Some t"
      "vfs_dentry_release (vc_cwd x) (upd_context c (\<lambda>x. x\<lparr>vc_cwd := d\<rparr>) t) = Some s'"
    using assms(2) by (auto simp: change_cwd_def split: option.splits)
  have "fd_wf H t" "map_of (vs_contexts t) c = Some x"
    using fd_same_wf [OF fd_same_dentry_retain [OF t(2)] assms(1)] fd_same_fields(2) [OF fd_same_dentry_retain [OF t(2)]] t(1) by simp_all
  then have "fd_wf H (upd_context c (\<lambda>x. x\<lparr>vc_cwd := d\<rparr>) t)"
    by (simp add: context_fields_wf)
  then show ?thesis
    using fd_same_wf [OF fd_same_dentry_release [OF t(3)]] by simp
qed

section \<open>New descriptors\<close>

lemma vs_sequence_upd [simp]:
  "vs_sequence (upd_context c f s) = vs_sequence s" "vs_sequence (upd_handle h x s) = vs_sequence s" "vs_sequence (upd_pipe p y s) = vs_sequence s"
  by (simp_all add: upd_context_def upd_handle_def upd_pipe_def)

lemma fd_reserve_wf:
  assumes "fd_wf_with H E s" "vfs_fd_reserve c minimum grown s = (s', d)" "\<And>x. map_of (vs_contexts s) c = Some x \<Longrightarrow> minimum \<le> length (vc_entries x)"
  shows "fd_wf_with H E s'" "vs_handles s' = vs_handles s" "vs_pipes s' = vs_pipes s" "vs_sequence s' = vs_sequence s"
    "0 \<le> d \<Longrightarrow> \<exists>x. map_of (vs_contexts s') c = Some x \<and> minimum \<le> nat d \<and> nat d < length (vc_entries x) \<and> ds_handle (vc_entries x ! nat d) = None"
proof -
  have "fd_wf_with H E s' \<and> vs_handles s' = vs_handles s \<and> vs_pipes s' = vs_pipes s \<and> vs_sequence s' = vs_sequence s \<and>
    (0 \<le> d \<longrightarrow> (\<exists>x. map_of (vs_contexts s') c = Some x \<and> minimum \<le> nat d \<and> nat d < length (vc_entries x) \<and> ds_handle (vc_entries x ! nat d) = None))"
  proof (cases "map_of (vs_contexts s) c")
    case None
    then show ?thesis
      using assms(1,2) by (auto simp: vfs_fd_reserve_def)
  next
    case (Some x)
    let ?free = "\<lambda>i. ds_handle (vc_entries x ! i) = None"
    have low: "3 \<le> length (vc_entries x)" "minimum \<le> length (vc_entries x)"
      using fd_wfD(2) [OF assms(1) Some] assms(3) [OF Some] by auto
    show ?thesis
    proof (cases "find ?free [minimum..<length (vc_entries x)]")
      case (Some i)
      then have i: "minimum \<le> i" "i < length (vc_entries x)" "?free i"
        by (auto simp: find_Some_iff nth_upt)
      then have "s' = s" "d = int i"
        using assms(2) Some \<open>map_of (vs_contexts s) c = Some x\<close> by (auto simp: vfs_fd_reserve_def Let_def)
      then show ?thesis
        using assms(1) i \<open>map_of (vs_contexts s) c = Some x\<close> by auto
    next
      case None
      let ?grow = "\<lambda>x. x\<lparr>vc_entries := vc_entries x @ replicate (length (vc_entries x)) no_descriptor\<rparr>"
      have r: "vfs_fd_reserve c minimum grown s =
          (if length (vc_entries x) > (2 ^ 32 - 1) div 2 div 8 then (s, VFS_ERROR_TOO_MANY_FILES)
           else if \<not> grown then (s, VFS_ERROR_NO_MEMORY)
           else (upd_context c (\<lambda>y. y\<lparr>vc_entries := vc_entries y @ replicate (length (vc_entries x)) no_descriptor\<rparr>) s, int (length (vc_entries x))))"
        using None low \<open>map_of (vs_contexts s) c = Some x\<close> by (simp add: vfs_fd_reserve_def Let_def)
      have grow: "fd_wf_with H E (upd_context c (\<lambda>y. y\<lparr>vc_entries := vc_entries y @ replicate (length (vc_entries x)) no_descriptor\<rparr>) s)"
        using fd_wfD(2) [OF assms(1) \<open>map_of (vs_contexts s) c = Some x\<close>]
        by (intro fd_wf_entries [OF assms(1) \<open>map_of (vs_contexts s) c = Some x\<close>]) (auto simp: nth_append)
      show ?thesis
      proof (cases "length (vc_entries x) > (2 ^ 32 - 1) div 2 div 8 \<or> \<not> grown")
        case True
        then show ?thesis
          using r assms(1,2) by (auto split: if_splits)
      next
        case False
        then have "s' = upd_context c (\<lambda>y. y\<lparr>vc_entries := vc_entries y @ replicate (length (vc_entries x)) no_descriptor\<rparr>) s" "d = int (length (vc_entries x))"
          using r assms(2) by auto
        moreover have "ds_handle (replicate (length (vc_entries x)) no_descriptor ! 0) = None"
          using low(1) by (subst nth_replicate) (auto simp: no_descriptor_def)
        ultimately show ?thesis
          using grow low \<open>map_of (vs_contexts s) c = Some x\<close> by (auto simp: nth_append)
      qed
    qed
  qed
  then show "fd_wf_with H E s'" "vs_handles s' = vs_handles s" "vs_pipes s' = vs_pipes s" "vs_sequence s' = vs_sequence s"
    "0 \<le> d \<Longrightarrow> \<exists>x. map_of (vs_contexts s') c = Some x \<and> minimum \<le> nat d \<and> nat d < length (vc_entries x) \<and> ds_handle (vc_entries x ! nat d) = None"
    by blast+
qed

lemma fd_reserve_keeps:
  assumes "vfs_fd_reserve c minimum grown s = (s', d)" "map_of (vs_contexts s) c = Some x" "i < length (vc_entries x)"
    "map_of (vs_contexts s') c = Some y"
  shows "vc_entries y ! i = vc_entries x ! i"
  using assms by (auto simp: vfs_fd_reserve_def Let_def nth_append split: if_splits)

text \<open>A handle that came into being with one reference, which the operation at work holds.\<close>

lemma new_file_wf:
  assumes "fd_wf H s" "vs_handles s h = None" "vh_pipe x = None" "vh_references x = 1"
  shows "fd_wf_with H ((\<lambda>_. 0)(h := 1)) (upd_handle h (Some x) s)"
proof (rule fd_wfI)
  note wf = fd_wfD [OF assms(1)]
  have "pipe_end (upd_handle h (Some x) s) = pipe_end s"
    using assms(2,3) by (auto simp: pipe_end_def fun_eq_iff)
  then show "if end_open (vs_pipes (upd_handle h (Some x) s) p) r then \<exists>g. pipe_end (upd_handle h (Some x) s) p r = {g}
      else pipe_end (upd_handle h (Some x) s) p r = {}" for p r
    using wf(7) [of p r] by simp
  show "vh_references y = handle_uses (upd_handle h (Some x) s) g + ((\<lambda>_. 0)(h := 1)) g + H g \<and> 0 < vh_references y"
    if "vs_handles (upd_handle h (Some x) s) g = Some y" for g y
    using that wf(4) [of g y] wf(3) [OF assms(2)] assms(4) by (auto split: if_splits)
  show "H g = 0 \<and> vh_dentry y = None \<and> (vh_flags y AND VFS_OPEN_READ \<noteq> 0) = (vh_flags y AND VFS_OPEN_WRITE = 0)"
    if "vs_handles (upd_handle h (Some x) s) g = Some y" "vh_pipe y \<noteq> None" for g y
    using that wf(5) [of g y] assms(3) by (auto split: if_splits)
  show "handle_uses (upd_handle h (Some x) s) g = 0 \<and> ((\<lambda>_. 0)(h := 1)) g = 0 \<and> H g = 0" if "vs_handles (upd_handle h (Some x) s) g = None" for g
    using that wf(3) [of g] by (auto split: if_splits)
qed (use fd_wfD(1,2,6,8) [OF assms(1)] in auto)

lemma vfs_fd_open_wf:
  assumes "fd_wf_with H ((\<lambda>_. 0)(h := 1)) s" "vfs_fd_open c (Inr h) flags grown s = Some (s', r)"
  shows "fd_wf H s'"
proof -
  obtain t d where t: "vfs_fd_reserve c 3 grown s = (t, d)" by fastforce
  have low: "3 \<le> length (vc_entries x)" if "map_of (vs_contexts s) c = Some x" for x
    using fd_wfD(2) [OF assms(1) that] by simp
  note res = fd_reserve_wf [OF assms(1) t low]
  have e: "((\<lambda>_. 0 :: nat)(h := 1))(h := 0) = (\<lambda>_. 0)"
    by (simp add: fun_eq_iff)
  show ?thesis
  proof (cases "d < 0")
    case True
    then obtain r' where "vfs_close (Some h) t = Some (s', r')"
      using assms(2) t by (auto simp: vfs_fd_open_def)
    then have "fd_wf_with H (((\<lambda>_. 0)(h := 1))(h := 0)) s'"
      by (intro vfs_close_wf [OF res(1), where h = h and k = 0 and s' = s' and r = r']) simp_all
    then show ?thesis
      unfolding e .
  next
    case False
    then obtain x where x: "map_of (vs_contexts t) c = Some x" "3 \<le> nat d" "nat d < length (vc_entries x)" "ds_handle (vc_entries x ! nat d) = None"
      using res(5) by auto
    have "s' = set_descriptor c (nat d) \<lparr>ds_handle = Some h, ds_close_on_exec = (flags AND VFS_OPEN_CLOEXEC \<noteq> 0)\<rparr> t"
      using assms(2) t False by (auto simp: vfs_fd_open_def)
    then show ?thesis
      using x by (auto intro!: fd_wf_set_descriptor [OF res(1) x(1)])
  qed
qed

text \<open>The two ends of a new pipe, each with a reference the operation holds.\<close>

lemma pipe_handle_flags:
  fixes flags :: u32
  assumes "flags AND NOT (VFS_OPEN_NONBLOCK OR VFS_OPEN_CLOEXEC) = 0"
  shows "(flags AND NOT VFS_OPEN_CLOEXEC OR VFS_OPEN_READ) AND VFS_OPEN_READ \<noteq> 0" "(flags AND NOT VFS_OPEN_CLOEXEC OR VFS_OPEN_READ) AND VFS_OPEN_WRITE = 0"
    "(flags AND NOT VFS_OPEN_CLOEXEC OR VFS_OPEN_WRITE) AND VFS_OPEN_READ = 0" "(flags AND NOT VFS_OPEN_CLOEXEC OR VFS_OPEN_WRITE) AND VFS_OPEN_WRITE \<noteq> 0"
proof -
  have "NOT VFS_OPEN_CLOEXEC AND VFS_OPEN_READ = VFS_OPEN_READ" "NOT VFS_OPEN_CLOEXEC AND VFS_OPEN_WRITE = VFS_OPEN_WRITE"
    "NOT (VFS_OPEN_NONBLOCK OR VFS_OPEN_CLOEXEC) AND VFS_OPEN_READ = VFS_OPEN_READ" "NOT (VFS_OPEN_NONBLOCK OR VFS_OPEN_CLOEXEC) AND VFS_OPEN_WRITE = VFS_OPEN_WRITE"
    by simp_all
  then have f: "flags AND VFS_OPEN_READ = 0" "flags AND VFS_OPEN_WRITE = 0" "(flags AND NOT VFS_OPEN_CLOEXEC) AND VFS_OPEN_READ = 0"
      "(flags AND NOT VFS_OPEN_CLOEXEC) AND VFS_OPEN_WRITE = 0"
    using arg_cong [OF assms, of "\<lambda>x. x AND VFS_OPEN_READ"] arg_cong [OF assms, of "\<lambda>x. x AND VFS_OPEN_WRITE"]
    by (simp_all only: and.assoc and_zero_eq zero_and_eq)
  show "(flags AND NOT VFS_OPEN_CLOEXEC OR VFS_OPEN_READ) AND VFS_OPEN_READ \<noteq> 0" "(flags AND NOT VFS_OPEN_CLOEXEC OR VFS_OPEN_READ) AND VFS_OPEN_WRITE = 0"
    "(flags AND NOT VFS_OPEN_CLOEXEC OR VFS_OPEN_WRITE) AND VFS_OPEN_READ = 0" "(flags AND NOT VFS_OPEN_CLOEXEC OR VFS_OPEN_WRITE) AND VFS_OPEN_WRITE \<noteq> 0"
    by (simp_all only: bit.conj_disj_distrib2 f) simp_all
qed

lemma new_pipe_wf:
  assumes "fd_wf H s" "vs_handles s r = None" "vs_handles s w = None" "r \<noteq> w" "vs_pipes s p = None"
    "vh_pipe x = Some p" "vh_dentry x = None" "vh_references x = 1" "vh_flags x AND VFS_OPEN_READ \<noteq> 0" "vh_flags x AND VFS_OPEN_WRITE = 0"
    "vh_pipe y = Some p" "vh_dentry y = None" "vh_references y = 1" "vh_flags y AND VFS_OPEN_READ = 0" "vh_flags y AND VFS_OPEN_WRITE \<noteq> 0"
    "pipe_wf q" "pp_read_open q" "pp_write_open q"
  shows "fd_wf_with H ((\<lambda>_. 0)(r := 1, w := 1)) (upd_handle w (Some y) (upd_handle r (Some x) (upd_pipe p (Some q) s)))" (is "fd_wf_with H ?E ?s")
proof (rule fd_wfI)
  note wf = fd_wfD [OF assms(1)]
  have gone: "pipe_end s p e = {}" for e
    using wf(7) [of p e] assms(5) by (simp add: end_open_def)
  have no: "vh_pipe z \<noteq> Some p" if "vs_handles s g = Some z" for g z
    using pipe_end_member [OF that, of p] gone by auto
  have "pipe_end ?s a e = (if a = p then {if e then r else w} else pipe_end s a e)" for a e
    using assms(2-4,6,9,11,14) no by (auto simp: pipe_end_def)
  moreover have "end_open (vs_pipes ?s a) e = (if a = p then True else end_open (vs_pipes s a) e)" for a e
    using assms(17,18) by (auto simp: end_open_def)
  ultimately show "if end_open (vs_pipes ?s a) e then \<exists>g. pipe_end ?s a e = {g} else pipe_end ?s a e = {}" for a e
    using wf(7) [of a e] by auto
  show "vh_references z = handle_uses ?s g + ?E g + H g \<and> 0 < vh_references z" if "vs_handles ?s g = Some z" for g z
    using that wf(4) [of g z] wf(3) [OF assms(2)] wf(3) [OF assms(3)] assms(4,8,13) by (auto split: if_splits)
  show "H g = 0 \<and> vh_dentry z = None \<and> (vh_flags z AND VFS_OPEN_READ \<noteq> 0) = (vh_flags z AND VFS_OPEN_WRITE = 0)"
    if "vs_handles ?s g = Some z" "vh_pipe z \<noteq> None" for g z
    using that wf(5) [of g z] wf(3) [OF assms(2)] wf(3) [OF assms(3)] assms(7,9,10,12,14,15) by (auto split: if_splits)
  show "handle_uses ?s g = 0 \<and> ?E g = 0 \<and> H g = 0" if "vs_handles ?s g = None" for g
    using that wf(3) [of g] by (auto split: if_splits)
  show "pipe_wf z \<and> (pp_read_open z \<or> pp_write_open z)" if "vs_pipes ?s a = Some z" for a z
    using that wf(6) [of a z] assms(16-18) by (auto split: if_splits)
qed (use fd_wfD(1,2,8) [OF assms(1)] in auto)

lemma vfs_fd_pipe_wf:
  assumes "fd_wf H s" "vfs_fd_pipe c flags g1 g2 reader writer pipe memory s = (s', r, d1, d2)"
    "\<forall>h. reader = Some h \<longrightarrow> vs_handles s h = None" "\<forall>h. writer = Some h \<longrightarrow> vs_handles s h = None \<and> reader \<noteq> Some h"
    "\<forall>p. pipe = Some p \<longrightarrow> vs_pipes s p = None"
  shows "fd_wf H s'"
proof -
  obtain t e where t: "vfs_fd_reserve c 3 g1 s = (t, e)" by fastforce
  have low: "3 \<le> length (vc_entries x)" if "map_of (vs_contexts s) c = Some x" for x
    using fd_wfD(2) [OF assms(1) that] by simp
  note res = fd_reserve_wf [OF assms(1) t low]
  show ?thesis
  proof (cases "flags AND NOT (VFS_OPEN_NONBLOCK OR VFS_OPEN_CLOEXEC) \<noteq> 0 \<or> e < 0 \<or> reader = None")
    case True
    then show ?thesis
      using assms(1,2) t res(1) by (auto simp: vfs_fd_pipe_def Let_def split: if_splits option.splits)
  next
    case False
    then obtain h where h: "reader = Some h" "0 \<le> e" "flags AND NOT (VFS_OPEN_NONBLOCK OR VFS_OPEN_CLOEXEC) = 0"
      by auto
    then obtain x where x: "map_of (vs_contexts t) c = Some x" "3 \<le> nat e" "nat e < length (vc_entries x)" "ds_handle (vc_entries x ! nat e) = None"
      using res(5) by blast
    obtain u f where u: "vfs_fd_reserve c (nat e + 1) g2 t = (u, f)" by fastforce
    have low: "nat e + 1 \<le> length (vc_entries y)" if "map_of (vs_contexts t) c = Some y" for y
      using that x by simp
    note res2 = fd_reserve_wf [OF res(1) u low]
    show ?thesis
    proof (cases "f < 0 \<or> writer = None \<or> pipe = None \<or> vs_sequence u = - 1")
      case True
      then show ?thesis
        using assms(2) t u h res2(1) by (auto simp: vfs_fd_pipe_def Let_def split: if_splits option.splits)
    next
      case False
      then obtain w p where w: "writer = Some w" "pipe = Some p" "0 \<le> f" "vs_sequence u \<noteq> - 1"
        by auto
      let ?cl = "flags AND VFS_OPEN_CLOEXEC \<noteq> 0"
      let ?q = "\<lparr>pp_identity = vs_sequence u + 1, pp_head = 0, pp_used = 0, pp_read_open = True,
                 pp_write_open = True, pp_data = replicate VFS_PIPE_CAPACITY 0\<rparr>"
      let ?u = "u\<lparr>vs_sequence := vs_sequence u + 1\<rparr>"
      let ?v = "upd_handle w (Some (pipe_handle p flags VFS_OPEN_WRITE)) (upd_handle h (Some (pipe_handle p flags VFS_OPEN_READ)) (upd_pipe p (Some ?q) ?u))"
      have s': "s' = set_descriptor c (nat f) \<lparr>ds_handle = Some w, ds_close_on_exec = ?cl\<rparr>
          (set_descriptor c (nat e) \<lparr>ds_handle = Some h, ds_close_on_exec = ?cl\<rparr> ?v)"
        using assms(2) t u h w by (auto simp: vfs_fd_pipe_def Let_def)
      have "fd_same u ?u"
        by (simp add: fd_same_def)
      then have "fd_wf H ?u"
        using res2(1) by (rule fd_same_wf)
      then have v: "fd_wf_with H ((\<lambda>_. 0)(h := 1, w := 1)) ?v"
        using assms(3-5) h w res(2,3) res2(2,3) pipe_handle_flags [OF h(3)]
        by (intro new_pipe_wf) (simp_all add: pipe_handle_def pipe_wf_def)
      obtain y where y: "map_of (vs_contexts u) c = Some y" "nat e + 1 \<le> nat f" "nat f < length (vc_entries y)" "ds_handle (vc_entries y ! nat f) = None"
        using res2(5) w by blast
      have "ds_handle (vc_entries y ! nat e) = None"
        using fd_reserve_keeps [OF u x(1,3) y(1)] x(4) by simp
      then have v2: "fd_wf_with H ((\<lambda>_. 0)(w := 1)) (set_descriptor c (nat e) \<lparr>ds_handle = Some h, ds_close_on_exec = ?cl\<rparr> ?v)" (is "fd_wf_with H _ ?w")
        using x y assms(4) h w by (intro fd_wf_set_descriptor [OF v, where x = y]) auto
      have m: "map_of (vs_contexts ?w) c = Some (y\<lparr>vc_entries := (vc_entries y)[nat e := \<lparr>ds_handle = Some h, ds_close_on_exec = ?cl\<rparr>]\<rparr>)"
        using y(1) by (simp add: set_descriptor_def)
      show ?thesis
        unfolding s' by (rule fd_wf_set_descriptor [OF v2 m]) (use x y in auto)
    qed
  qed
qed

section \<open>Calls on a descriptor\<close>

lemma rl_round_slots:
  assumes "rl_round m n command lo hi memory request s = Some (s', f, r)"
  shows "slot_count (rs_kernel s') = slot_count (rs_kernel s)"
proof -
  let ?w = "if waiter_linked (current_tid (rs_kernel s)) s = None then vfs_record_lock_waiter_add (current_tid (rs_kernel s)) m n s else s"
  obtain u stop where u: "rl_block ?w = (u, stop)" by fastforce
  have su: "slot_count (rs_kernel u) = slot_count (rs_kernel s)"
    using rl_block_facts(5) [OF u] by (simp add: vfs_record_lock_waiter_add_def vfs_mount_reference_def)
  have unlink: "rl_unlink_self t u = Some v \<Longrightarrow> slot_count (rs_kernel v) = slot_count (rs_kernel s)" for t v
    using su by (auto simp: rl_unlink_self_def split: option.splits dest: waiter_remove_fields(2))
  have applied: "vfs_record_lock_apply m n w k lo hi memory s = Some (v, status) \<Longrightarrow> slot_count (rs_kernel v) = slot_count (rs_kernel s)" for w k v status
    by (auto simp: vfs_record_lock_apply_def vfs_record_lock_wake_key_def split: option.splits if_splits prod.splits)
  show ?thesis
    using assms su unfolding rl_round_def Let_def u
    by (auto split: option.splits if_splits prod.splits bool.splits dest: unlink applied)
qed

lemma rl_operation_slots:
  "vfs_record_lock_operation v command request memory s = Some (s', f, r) \<Longrightarrow> slot_count (rs_kernel s') = slot_count (rs_kernel s)"
  by (auto simp: vfs_record_lock_operation_def rl_round_slots split: sum.splits)

lemma fcntl_lock_same:
  assumes "fcntl_lock x command request writable memory s = Some (s', f, r)"
  shows "fd_same s s'"
proof (cases request)
  case (Some g)
  then obtain v rl f' r' where op: "vfs_record_lock_operation v command g memory ((vs_rl s)\<lparr>rs_kernel := vs_kernel s\<rparr>) = Some (rl, f', r')"
      and s': "s' = s\<lparr>vs_rl := rl, vs_io := (vs_io s)\<lparr>io_kernel := rs_kernel rl\<rparr>\<rparr>"
    using assms by (auto simp: fcntl_lock_def Let_def bind_eq_Some_conv split: option.splits if_splits)
  show ?thesis
    using rl_operation_slots [OF op] unfolding s' by (auto simp: fd_same_def elim!: io_wf_cong)
qed (use assms in \<open>simp add: fcntl_lock_def\<close>)

lemma set_status_flags_direction:
  "set_status_flags argument flags AND VFS_OPEN_READ = flags AND VFS_OPEN_READ"
  "set_status_flags argument flags AND VFS_OPEN_WRITE = flags AND VFS_OPEN_WRITE"
proof -
  have "NOT (VFS_OPEN_APPEND OR VFS_OPEN_NONBLOCK) AND VFS_OPEN_READ = VFS_OPEN_READ" "NOT (VFS_OPEN_APPEND OR VFS_OPEN_NONBLOCK) AND VFS_OPEN_WRITE = VFS_OPEN_WRITE"
    by simp_all
  then have "(flags AND NOT (VFS_OPEN_APPEND OR VFS_OPEN_NONBLOCK)) AND VFS_OPEN_READ = flags AND VFS_OPEN_READ"
      "(flags AND NOT (VFS_OPEN_APPEND OR VFS_OPEN_NONBLOCK)) AND VFS_OPEN_WRITE = flags AND VFS_OPEN_WRITE"
    by (simp_all only: and.assoc)
  then show "set_status_flags argument flags AND VFS_OPEN_READ = flags AND VFS_OPEN_READ"
    "set_status_flags argument flags AND VFS_OPEN_WRITE = flags AND VFS_OPEN_WRITE"
    unfolding set_status_flags_def bit.conj_disj_distrib2 by simp_all
qed

lemma vfs_fd_fcntl_wf:
  assumes "fd_wf H s" "vfs_fd_fcntl c d command argument request writable memory s = Some (s', f, r)"
  shows "fd_wf H s'"
proof (cases "\<exists>a h x. c = Some a \<and> vfs_fd_get c d s = Some h \<and> vs_handles s h = Some x")
  case False
  then have "s' = s"
    using assms(2) by (auto simp: vfs_fd_fcntl_def split: option.splits)
  then show ?thesis
    using assms(1) by simp
next
  case True
  then obtain a h x where a: "c = Some a" "vfs_fd_get (Some a) d s = Some h" "vs_handles s h = Some x"
    by auto
  obtain cx where cx: "map_of (vs_contexts s) a = Some cx" "3 \<le> nat d" "nat d < length (vc_entries cx)" "ds_handle (vc_entries cx ! nat d) = Some h"
    using a(2) by (elim vfs_fd_get_Some) auto
  have "fd_wf_with H ((\<lambda>_. 0)(h := 0)) (upd_handle h (Some (x\<lparr>vh_flags := set_status_flags argument (vh_flags x)\<rparr>)) s)"
    using fd_wfD(4) [OF assms(1) a(3)] by (intro fd_wf_handle [OF assms(1) a(3)]) (auto simp: set_status_flags_direction)
  moreover have "(\<lambda>_. 0 :: nat)(h := 0) = (\<lambda>_. 0)"
    by (simp add: fun_eq_iff)
  ultimately have setfl: "fd_wf H (upd_handle h (Some (x\<lparr>vh_flags := set_status_flags argument (vh_flags x)\<rparr>)) s)"
    by simp
  have setfd: "fd_wf H (set_descriptor a (nat d) ((vc_entries cx ! nat d)\<lparr>ds_close_on_exec := b\<rparr>) s)" for b
    using cx by (intro fd_wf_set_descriptor [OF assms(1) cx(1)]) simp_all
  show ?thesis
    using assms(2) a cx setfl setfd assms(1) fd_same_wf [OF fcntl_lock_same assms(1)]
    by (auto simp: vfs_fd_fcntl_def Let_def simp del: fun_upd_apply split: if_splits)
qed

lemma vfs_pipe_io_effect:
  assumes "fd_wf_with H E s" "vs_handles s h = Some x" "vh_pipe x = Some p" "n \<le> length buffer \<or> \<not> wr"
  obtains q q' result out ws where "vs_pipes s p = Some q" "pipe_io (vh_flags x) buffer n wr q = (q', result, out)"
    "vfs_pipe_io h buffer n wr s = Some ((upd_pipe p (Some q') s)\<lparr>vs_io := io_released ws (vs_io s)\<rparr>, result, out)"
    "set ws = (if result > 0 then fst ` set (io_queues (vs_io s) (if wr then p else p + 4)) else {})"
    "fd_wf_with H E ((upd_pipe p (Some q') s)\<lparr>vs_io := io_released ws (vs_io s)\<rparr>)"
proof -
  obtain q where q: "vs_pipes s p = Some q"
    by (rule pipe_alive [OF assms(1-3)])
  obtain q' result out where io: "pipe_io (vh_flags x) buffer n wr q = (q', result, out)" by (rule prod_cases3)
  have "pipe_wf q"
    using fd_wfD(6) [OF assms(1) q] by simp
  note step = pipe_io_step [OF this assms(4) io]
  have u: "fd_wf_with H E (upd_pipe p (Some q') s)"
    using step by (intro fd_wf_pipe [OF assms(1) q]) simp_all
  have iw: "io_wf (vs_io (upd_pipe p (Some q') s))"
    using fd_wfD(8) [OF u] .
  have wf: "fd_wf_with H E ((upd_pipe p (Some q') s)\<lparr>vs_io := io_released ws (vs_io s)\<rparr>)" for ws
    using u by (rule fd_same_wf [rotated]) (auto simp: fd_same_def io_released_wf)
  show ?thesis
  proof (cases "result > 0")
    case True
    obtain ws where ws: "on_io (io_poll_wake (Some (if wr then p else p + 4))) (upd_pipe p (Some q') s) =
        Some ((upd_pipe p (Some q') s)\<lparr>vs_io := io_released ws (vs_io s)\<rparr>)"
      "set ws = fst ` set (io_queues (vs_io s) (if wr then p else p + 4))"
      using wake_effect [OF iw] by auto
    show ?thesis
      by (rule that [OF q io _ _ wf, of ws]) (use True q io ws assms(2,3) in \<open>simp_all add: vfs_pipe_io_def Let_def\<close>)
  next
    case False
    have same: "(upd_pipe p (Some q') s)\<lparr>vs_io := io_released [] (vs_io s)\<rparr> = upd_pipe p (Some q') s"
      by (rule vfs_state.equality) simp_all
    show ?thesis
      by (rule that [OF q io _ _ wf, of "[]"]) (use False q io same assms(2,3) in \<open>simp_all add: vfs_pipe_io_def Let_def\<close>)
  qed
qed

text \<open>One iteration of the loop on an end of a pipe, in each of its outcomes.\<close>

lemma io_poll_wait_sleeps:
  assumes "io_poll_wait q memory io = (io', r)" "current_tid (io_kernel io) < slot_count (io_kernel io)"
  shows "(\<exists>e. r = Done e \<and> e \<le> 0) \<or>
    r = Switch \<and> (\<exists>w. memory = Some w \<and> (w, 0) \<in> set (io_queues io' q) \<and> iw_task (io_records io' w) = current_tid (io_kernel io))
     \<and> t_state (tsk (io_kernel io') (current_tid (io_kernel io))) = WAITING"
proof (cases "io_interrupted io \<or> memory = None")
  case True
  then show ?thesis
    using assms(1) by (auto simp: io_poll_wait_def split: option.splits if_splits)
next
  case False
  then obtain w where w: "memory = Some w" "\<not> io_interrupted io"
    by auto
  let ?v = "io_poll_watch q (Some (w, 0)) (create w 1 io)"
  obtain u stop where u: "io_block ?v = (u, stop)" by fastforce
  have k: "io_kernel ?v = io_kernel io" "(w, 0) \<in> set (io_queues ?v q)" "iw_task (io_records ?v w) = current_tid (io_kernel io)"
    by (simp_all add: io_poll_watch_def create_def)
  show ?thesis
  proof (cases stop)
    case True
    then have "task_fall_blocked_reason WAITING WR_IO (io_kernel io) = (io_kernel u, SwitchThen ())"
      using u unfolding io_block_def k(1) by (auto simp: task_fall_blocked_reason_def Let_def split: if_splits)
    then have "t_state (tsk (io_kernel u) (current_tid (io_kernel io))) = WAITING"
      using fall_blocked_task assms(2) by blast
    moreover have "io' = u" "r = Switch"
      using assms(1) w u True by (auto simp: io_poll_wait_def)
    ultimately show ?thesis
      using io_block_fields [OF u] k(2,3) w(1) by auto
  next
    case False
    then have "r = Done (-4) \<or> r = Done 0"
      using assms(1) w u by (auto simp: io_poll_wait_def io_wait_resume_def Let_def split: if_splits)
    then show ?thesis
      by auto
  qed
qed

lemma fd_io_round_pipe:
  assumes "fd_wf H s" "vfs_fd_get c d s = Some h" "vs_handles s h = Some x" "vh_pipe x = Some p" "n \<le> length buffer \<or> \<not> wr"
    "current_tid (vs_kernel s) < slot_count (vs_kernel s)" "\<forall>w. memory = Some w \<longrightarrow> w \<notin> set (io_waiters (vs_io s))"
  obtains q where "vs_pipes s p = Some q"
    "identity \<noteq> 0 \<and> identity \<noteq> pp_identity q \<and> fd_io_round fio c d buffer n wr accessible memory identity s = Some (s, identity, [], Done VFS_ERROR_BAD_DESCRIPTOR)"
  | q where "vs_pipes s p = Some q"
    "n \<noteq> 0 \<and> \<not> accessible \<and> fd_io_round fio c d buffer n wr accessible memory identity s = Some (s, identity, [], Done VFS_ERROR_FAULT)"
  | q q' result out ws where "vs_pipes s p = Some q" "pipe_io (vh_flags x) buffer n wr q = (q', result, out)"
      "result \<noteq> VFS_ERROR_AGAIN \<or> vh_flags x AND VFS_OPEN_NONBLOCK \<noteq> 0"
      "fd_io_round fio c d buffer n wr accessible memory identity s =
         Some ((upd_pipe p (Some q') s)\<lparr>vs_io := io_released ws (vs_io s)\<rparr>, identity, out, Done result)"
      "set ws = (if result > 0 then fst ` set (io_queues (vs_io s) (if wr then p else p + 4)) else {})"
      "fd_wf H ((upd_pipe p (Some q') s)\<lparr>vs_io := io_released ws (vs_io s)\<rparr>)"
  | q io r where "vs_pipes s p = Some q" "pipe_io (vh_flags x) buffer n wr q = (q, VFS_ERROR_AGAIN, [])" "vh_flags x AND VFS_OPEN_NONBLOCK = 0"
      "io_poll_wait (if wr then p + 4 else p) memory (vs_io s) = (io, r)"
      "fd_io_round fio c d buffer n wr accessible memory identity s =
         Some (s\<lparr>vs_io := io\<rparr>, pp_identity q, [], case r of Done e \<Rightarrow> if e < 0 then Done e else Retry | _ \<Rightarrow> Switch)"
      "fd_wf H (s\<lparr>vs_io := io\<rparr>)"
proof -
  obtain q q' result out ws where io: "vs_pipes s p = Some q" "pipe_io (vh_flags x) buffer n wr q = (q', result, out)"
    "vfs_pipe_io h buffer n wr s = Some ((upd_pipe p (Some q') s)\<lparr>vs_io := io_released ws (vs_io s)\<rparr>, result, out)"
    "set ws = (if result > 0 then fst ` set (io_queues (vs_io s) (if wr then p else p + 4)) else {})"
    "fd_wf H ((upd_pipe p (Some q') s)\<lparr>vs_io := io_released ws (vs_io s)\<rparr>)"
    by (rule vfs_pipe_io_effect [OF assms(1,3,4,5)])
  note round = fd_io_round_def
  consider "identity \<noteq> 0 \<and> identity \<noteq> pp_identity q" | "\<not> (identity \<noteq> 0 \<and> identity \<noteq> pp_identity q)" "n \<noteq> 0 \<and> \<not> accessible"
    | "\<not> (identity \<noteq> 0 \<and> identity \<noteq> pp_identity q)" "\<not> (n \<noteq> 0 \<and> \<not> accessible)"
        "result \<noteq> VFS_ERROR_AGAIN \<or> vh_flags x AND VFS_OPEN_NONBLOCK \<noteq> 0"
    | "\<not> (identity \<noteq> 0 \<and> identity \<noteq> pp_identity q)" "\<not> (n \<noteq> 0 \<and> \<not> accessible)"
        "result = VFS_ERROR_AGAIN" "vh_flags x AND VFS_OPEN_NONBLOCK = 0"
    by blast
  then show ?thesis
  proof cases
    case 1
    then show ?thesis
      using io(1) round assms(2-4) by (intro that(1)) (auto)
  next
    case 2
    then show ?thesis
      using io(1) round assms(2-4) by (intro that(2)) (auto)
  next
    case 3
    show ?thesis
      by (rule that(3) [OF io(1,2) 3(3) _ io(4,5)]) (use 3 io round assms(2-4) in auto)
  next
    case 4
    have again: "q' = q" "out = []" "ws = []"
      using io(2,4) 4(3) transfer_Inl by (auto simp: pipe_io_transfer split: sum.splits if_splits)
    have s: "(upd_pipe p (Some q') s)\<lparr>vs_io := io_released ws (vs_io s)\<rparr> = s"
      using io(1) again by (intro vfs_state.equality) (auto simp: upd_pipe_def)
    obtain v r where v: "io_poll_wait (if wr then p + 4 else p) memory (vs_io s) = (v, r)" by fastforce
    have "io_wf v"
      using io_poll_wait_wf [OF fd_wfD(8) [OF assms(1)] assms(6,7)] v by (metis fst_conv)
    then have "fd_same s (s\<lparr>vs_io := v\<rparr>)"
      by (simp add: fd_same_def)
    then have wf: "fd_wf H (s\<lparr>vs_io := v\<rparr>)"
      using assms(1) by (rule fd_same_wf)
    show ?thesis
      by (rule that(4) [OF io(1) _ 4(4) v _ wf]) (use 4 io s v again round assms(2-4) in \<open>auto split: outcome.splits\<close>)
  qed
qed

end
