(* ===== verification/DescriptorProps.thy ===== *)
theory DescriptorProps
  imports DescriptorSteps
begin

text \<open>
  The states that calls on descriptors reach, in any order and by any tasks, and the properties: reference counts are exact,
  what closing an end of a pipe does, and what reading and writing through a descriptor does.
\<close>

section \<open>Reachable states\<close>

text \<open>New objects get memory that no live object of their kind occupies.  A file system may do anything to a file but
  touch the descriptors; the rest of the kernel may do anything that leaves the descriptors alone and keeps the lists of
  the waiters well formed.\<close>

inductive fd_step :: "vfs_state \<Rightarrow> vfs_state \<Rightarrow> bool" where
  step_create: "vfs_context_create base memory entries s = Some (s', r) \<Longrightarrow> (\<forall>c. memory = Some c \<longrightarrow> c \<notin> fst ` set (vs_contexts s)) \<Longrightarrow> fd_step s s'"
| step_clone: "vfs_context_clone_cwd c memory entries s = Some (s', r) \<Longrightarrow> (\<forall>c. memory = Some c \<longrightarrow> c \<notin> fst ` set (vs_contexts s)) \<Longrightarrow> fd_step s s'"
| step_fork: "vfs_context_fork c memory entries s = Some (s', r) \<Longrightarrow> (\<forall>c. memory = Some c \<longrightarrow> c \<notin> fst ` set (vs_contexts s)) \<Longrightarrow> fd_step s s'"
| step_retain: "vfs_context_retain c s = Some s' \<Longrightarrow> fd_step s s'"
| step_release: "vfs_context_release c s = Some s' \<Longrightarrow> fd_step s s'"
| step_fchdir: "vfs_context_fchdir c d s = Some (s', r) \<Longrightarrow> fd_step s s'"
| step_transfer: "vfs_context_transfer_cwd c c' s = Some (s', b) \<Longrightarrow> fd_step s s'"
| step_pipe: "vfs_fd_pipe c flags g1 g2 reader writer pipe memory s = (s', r, d1, d2) \<Longrightarrow> (\<forall>h. reader = Some h \<longrightarrow> vs_handles s h = None)
    \<Longrightarrow> (\<forall>h. writer = Some h \<longrightarrow> vs_handles s h = None \<and> reader \<noteq> Some h) \<Longrightarrow> (\<forall>p. pipe = Some p \<longrightarrow> vs_pipes s p = None) \<Longrightarrow> fd_step s s'"
| step_open: "vs_handles s h = None \<Longrightarrow> vh_pipe x = None \<Longrightarrow> vh_references x = 1
    \<Longrightarrow> vfs_fd_open c (Inr h) flags grown (upd_handle h (Some x) s) = Some (s', r) \<Longrightarrow> fd_step s s'"
| step_close: "vfs_fd_close c d s = Some (s', r) \<Longrightarrow> fd_step s s'"
| step_fcntl: "vfs_fd_fcntl c d command argument request writable memory' s = Some (s', f, r) \<Longrightarrow> fd_step s s'"
| step_io: "fd_io_round fio c d buffer n wr accessible memory identity s = Some (s', identity', out, r) \<Longrightarrow> n \<le> length buffer \<or> \<not> wr
    \<Longrightarrow> current_tid (vs_kernel s) < slot_count (vs_kernel s) \<Longrightarrow> (\<forall>w. memory = Some w \<longrightarrow> w \<notin> set (io_waiters (vs_io s)))
    \<Longrightarrow> (\<forall>h x. vs_handles s h = Some x \<and> vh_pipe x = None \<longrightarrow> (\<exists>offset. fd_same (upd_handle h (Some (x\<lparr>vh_offset := offset\<rparr>)) s) (fst (fio h s))))
    \<Longrightarrow> fd_step s s'"
| step_woken: "fd_step s (s\<lparr>vs_io := fst (io_wait_resume w (vs_io s))\<rparr>)"
| step_other: "fd_same s s' \<Longrightarrow> fd_step s s'"

text \<open>A reference without a descriptor: a mapping takes one through a descriptor of a file and gives it back when its last
  region goes (\<open>vfs_mapping_create\<close>, \<open>vfs_mapping_release\<close>), so does a truncation for its duration (\<open>vfs_fd_truncate\<close>), and a stream
  of \<^verbatim>\<open>kernel/fs/file.c\<close> is a handle of its own from \<open>fopen\<close> to \<open>fclose\<close>.  \<open>H h\<close> counts
  those references.  Seeking, and reading or writing through such a handle, moves its offset.\<close>

inductive fd_reached :: "(nat \<Rightarrow> nat) \<Rightarrow> vfs_state \<Rightarrow> bool" where
  fd_start: "vs_contexts s = [] \<Longrightarrow> (\<forall>h. vs_handles s h = None) \<Longrightarrow> (\<forall>p. vs_pipes s p = None) \<Longrightarrow> io_reachable (vs_io s)
    \<Longrightarrow> fd_reached (\<lambda>_. 0) s"
| fd_next: "fd_reached H s \<Longrightarrow> fd_step s s' \<Longrightarrow> fd_reached H s'"
| fd_hold: "fd_reached H s \<Longrightarrow> vfs_fd_get c d s = Some h \<Longrightarrow> vs_handles s h = Some x \<Longrightarrow> vh_pipe x = None
    \<Longrightarrow> vfs_handle_retain (Some h) s = Some s' \<Longrightarrow> fd_reached (H(h := Suc (H h))) s'"
| fd_stream: "fd_reached H s \<Longrightarrow> vs_handles s h = None \<Longrightarrow> vh_pipe x = None \<Longrightarrow> vh_references x = 1
    \<Longrightarrow> fd_reached (H(h := 1)) (upd_handle h (Some x) s)"
| fd_drop: "fd_reached H s \<Longrightarrow> 0 < H h \<Longrightarrow> vfs_close (Some h) s = Some (s', r) \<Longrightarrow> fd_reached (H(h := H h - 1)) s'"
| fd_moved: "fd_reached H s \<Longrightarrow> vs_handles s h = Some x \<Longrightarrow> vh_pipe x = None
    \<Longrightarrow> fd_reached H (upd_handle h (Some (x\<lparr>vh_offset := offset\<rparr>)) s)"

definition fd_reachable :: "vfs_state \<Rightarrow> bool" where
  "fd_reachable s \<longleftrightarrow> (\<exists>H. fd_reached H s)"

lemma fd_io_round_wf:
  assumes "fd_wf H s" "fd_io_round fio c d buffer n wr accessible memory identity s = Some (s', identity', out, r)" "n \<le> length buffer \<or> \<not> wr"
    "current_tid (vs_kernel s) < slot_count (vs_kernel s)" "\<forall>w. memory = Some w \<longrightarrow> w \<notin> set (io_waiters (vs_io s))"
    "\<forall>h x. vs_handles s h = Some x \<and> vh_pipe x = None \<longrightarrow> (\<exists>offset. fd_same (upd_handle h (Some (x\<lparr>vh_offset := offset\<rparr>)) s) (fst (fio h s)))"
  shows "fd_wf H s'"
proof (cases "\<exists>h x. vfs_fd_get c d s = Some h \<and> vs_handles s h = Some x")
  case False
  then show ?thesis
    using assms(1,2) by (auto simp: fd_io_round_def split: option.splits)
next
  case True
  then obtain h x where h: "vfs_fd_get c d s = Some h" "vs_handles s h = Some x"
    by blast
  show ?thesis
  proof (cases "vh_pipe x")
    case None
    then obtain offset where "fd_same (upd_handle h (Some (x\<lparr>vh_offset := offset\<rparr>)) s) (fst (fio h s))"
      using assms(6) h(2) by blast
    moreover have "fd_wf_with H ((\<lambda>_. 0)(h := 0)) (upd_handle h (Some (x\<lparr>vh_offset := offset\<rparr>)) s)"
      using fd_wfD(4) [OF assms(1) h(2)] by (intro fd_wf_handle [OF assms(1) h(2)]) auto
    moreover have "(\<lambda>_. 0 :: nat)(h := 0) = (\<lambda>_. 0)"
      by (simp add: fun_eq_iff)
    ultimately have "fd_wf H (fst (fio h s))"
      using fd_same_wf by fastforce
    moreover have "s' = s \<or> s' = fst (fio h s)"
      using assms(2) h None by (auto simp: fd_io_round_def split: if_splits prod.splits)
    ultimately show ?thesis
      using assms(1) by auto
  next
    case (Some p)
    show ?thesis
      by (rule fd_io_round_pipe [OF assms(1) h Some assms(3-5), where identity = identity and fio = fio and accessible = accessible]) (use assms(1,2) in auto)
  qed
qed

lemma fd_step_wf: "fd_step s s' \<Longrightarrow> fd_wf H s \<Longrightarrow> fd_wf H s'"
proof (induction rule: fd_step.induct)
  case (step_open s h x c flags grown s' r)
  then show ?case
    using vfs_fd_open_wf new_file_wf by blast
next
  case (step_fchdir c d s s' r)
  then show ?case
    using change_cwd_wf by (fastforce simp: vfs_context_fchdir_def split: option.splits if_splits)
next
  case (step_transfer c c' s s' b)
  then show ?case
    using change_cwd_wf by (fastforce simp: vfs_context_transfer_cwd_def split: option.splits)
next
  case (step_woken s w)
  have "fd_same s (s\<lparr>vs_io := fst (io_wait_resume w (vs_io s))\<rparr>)"
    by (simp add: fd_same_def io_wait_resume_def Let_def destroy_wf)
  then show ?case
    using step_woken by (rule fd_same_wf)
qed (blast intro: vfs_context_create_wf vfs_context_clone_cwd_wf vfs_context_fork_wf vfs_context_retain_wf vfs_context_release_wf
      vfs_fd_pipe_wf vfs_fd_close_wf vfs_fd_fcntl_wf fd_io_round_wf fd_same_wf)+

text \<open>A reference changes hands between the operation at work and a holder without a descriptor.\<close>

lemma fd_wf_moved:
  assumes "fd_wf_with H E s" "H h + E h = k + l" "\<And>x. vs_handles s h = Some x \<Longrightarrow> vh_pipe x \<noteq> None \<Longrightarrow> k = 0"
  shows "fd_wf_with (H(h := k)) (E(h := l)) s"
proof (rule fd_wfI)
  note wf = fd_wfD [OF assms(1)]
  have sum: "(E(h := l)) g + (H(h := k)) g = E g + H g" for g
    using assms(2) by simp
  show "vs_handles s g = None \<Longrightarrow> handle_uses s g = 0 \<and> (E(h := l)) g = 0 \<and> (H(h := k)) g = 0" for g
    using wf(3) [of g] sum [of g] by linarith
  show "vs_handles s g = Some y \<Longrightarrow> vh_references y = handle_uses s g + (E(h := l)) g + (H(h := k)) g \<and> 0 < vh_references y" for g y
    using wf(4) [of g y] sum [of g] by linarith
  show "vs_handles s g = Some y \<Longrightarrow> vh_pipe y \<noteq> None \<Longrightarrow> (H(h := k)) g = 0 \<and>
       vh_dentry y = None \<and> (vh_flags y AND VFS_OPEN_READ \<noteq> 0) = (vh_flags y AND VFS_OPEN_WRITE = 0)" for g y
    using wf(5) [of g y] assms(3) [of y] by (cases "g = h") simp_all
qed (use fd_wfD(1,2,6-8) [OF assms(1)] in blast)+

lemma no_references: "((\<lambda>_. 0 :: nat)(h := a))(h := 0) = (\<lambda>_. 0)" "(\<lambda>_. 0 :: nat)(h := 0) = (\<lambda>_. 0)"
  by (simp_all add: fun_eq_iff)

lemma fd_reached_wf: "fd_reached H s \<Longrightarrow> fd_wf H s"
proof (induction rule: fd_reached.induct)
  case (fd_start s)
  then show ?case
    by (intro fd_wfI) (simp_all add: handle_uses_def pipe_end_def end_open_def io_reachable_wf)
next
  case (fd_next H s s')
  then show ?case using fd_step_wf by blast
next
  case (fd_hold H s c d h x s')
  have "vs_handles s' h = Some (x\<lparr>vh_references := vh_references x + 1\<rparr>)"
    using fd_hold(3,5) by (auto simp: vfs_handle_retain_def)
  then have "fd_wf_with (H(h := Suc (H h))) (((\<lambda>_. 0)(h := Suc 0))(h := 0)) s'"
    using handle_retain_wf [OF fd_hold.IH fd_hold(5)] fd_hold(4) by (intro fd_wf_moved) auto
  then show ?case unfolding no_references .
next
  case (fd_stream H s h x)
  have "H h = 0" using fd_wfD(3) [OF fd_stream.IH fd_stream(2)] by simp
  then have "fd_wf_with (H(h := 1)) (((\<lambda>_. 0)(h := 1))(h := 0)) (upd_handle h (Some x) s)"
    using new_file_wf [OF fd_stream.IH fd_stream(2-4)] fd_stream(3) by (intro fd_wf_moved) auto
  then show ?case unfolding no_references .
next
  case (fd_drop H s h s' r)
  obtain x where x: "vs_handles s h = Some x"
    using fd_wfD(3) [OF fd_drop.IH, of h] fd_drop(2) by (cases "vs_handles s h") auto
  have "vh_pipe x = None" using fd_wfD(5) [OF fd_drop.IH x] fd_drop(2) by (cases "vh_pipe x") auto
  then have "fd_wf_with (H(h := H h - 1)) ((\<lambda>_. 0)(h := 1)) s"
    using fd_drop(2) x by (intro fd_wf_moved [OF fd_drop.IH]) auto
  from vfs_close_wf [OF this _ fd_drop(3), of 0]
  have "fd_wf_with (H(h := H h - 1)) (((\<lambda>_. 0)(h := 1))(h := 0)) s'" by simp
  then show ?case unfolding no_references .
next
  case (fd_moved H s h x offset)
  have "fd_wf_with H ((\<lambda>_. 0)(h := 0)) (upd_handle h (Some (x\<lparr>vh_offset := offset\<rparr>)) s)"
    using fd_wfD(4) [OF fd_moved.IH fd_moved(2)] by (intro fd_wf_handle [OF fd_moved.IH fd_moved(2)]) auto
  then show ?case unfolding no_references .
qed

lemma fd_reachable_wf: "fd_reachable s \<Longrightarrow> \<exists>H. fd_wf H s"
  using fd_reached_wf by (auto simp: fd_reachable_def)

lemma handle_uses_descriptor:
  assumes "fd_wf H s" "0 < handle_uses s h"
  obtains c d where "vfs_fd_get (Some c) d s = Some h"
proof -
  obtain c x where x: "(c, x) \<in> set (vs_contexts s)" "0 < entries_uses (vc_entries x) h"
    using assms(2) by (fastforce simp: handle_uses_def sum_list_eq_0_iff simp flip: neq0_conv)
  then obtain i where i: "i < length (vc_entries x)" "ds_handle (vc_entries x ! i) = Some h"
    by (auto simp: entries_uses_pos in_set_conv_nth)
  have m: "map_of (vs_contexts s) c = Some x"
    using fd_wfD(1) [OF assms(1)] x(1) by (rule map_of_is_SomeI)
  have "3 \<le> i"
    using fd_wfD(2) [OF assms(1) m] i(2) by (cases "i < 3") auto
  then have "vfs_fd_get (Some c) (int i) s = Some h"
    using m i by (simp add: vfs_fd_get_def)
  then show ?thesis
    by (rule that)
qed

lemma descriptor_uses: "fd_wf H s \<Longrightarrow> vfs_fd_get c d s = Some h \<Longrightarrow> 0 < handle_uses s h"
  by (elim vfs_fd_get_Some) (rule handle_uses_get, assumption, rule nth_mem)

section \<open>An example\<close>

text \<open>One context, whose directory is the root of a mount, and in it a pipe with the descriptors 3 and 4.\<close>

definition fd_begin :: vfs_state where
  "fd_begin =
     \<lparr>vs_io = io_begin, vs_rl = \<lparr>rs_kernel = io_kernel io_begin, rs_locks = [], rs_waiters = [],
        rs_mounts = (\<lambda>_. \<lparr>vm_references = 0, vm_retired = False, vm_destroyed = False\<rparr>)\<rparr>,
      vs_pipes = (\<lambda>_. None), vs_handles = (\<lambda>_. None), vs_open = [],
      vs_dentries = (\<lambda>_. None)(1 := Some \<lparr>de_mount = 0, de_node = 0, de_file = False, de_size = 0, dn_parent = None, dn_references = 1\<rparr>),
      vs_roots = (\<lambda>_. 1), vs_contexts = [], vs_sequence = 0\<rparr>"

definition fd_context :: vfs_state where
  "fd_context = fst (the (vfs_context_create (Some 1) (Some 10) True fd_begin))"

definition fd_piped :: vfs_state where
  "fd_piped = fst (vfs_fd_pipe 10 0 True True (Some 20) (Some 21) (Some 30) [] fd_context)"

lemma fd_context_created:
  "vfs_context_create (Some 1) (Some 10) True fd_begin \<noteq> None"
  "vs_contexts fd_context = [(10, \<lparr>vc_cwd = 1, vc_entries = replicate 16 no_descriptor, vc_references = 1\<rparr>)]"
  "vs_handles fd_context = (\<lambda>_. None)" "vs_pipes fd_context = (\<lambda>_. None)" "vs_sequence fd_context = 0" "vs_io fd_context = io_begin"
  by (simp_all add: fd_context_def vfs_context_create_def vfs_dentry_retain_def vfs_context_allocate_def vfs_dentry_release.simps
      mount_release_def on_rl_def upd_dentry_def vfs_mount_reference_def vfs_mount_release_def Let_def fd_begin_def io_begin_def vfs_context_register_def)

definition fd_pipe_made :: "vfs_state \<times> int \<times> nat \<times> nat" where
  "fd_pipe_made = vfs_fd_pipe 10 0 True True (Some 20) (Some 21) (Some 30) [] fd_context"

lemma fd_table_scan: "[3..<16] = [3 :: nat, 4, 5, 6, 7, 8, 9, 10, 11, 12, 13, 14, 15]" "[4..<16] = [4 :: nat, 5, 6, 7, 8, 9, 10, 11, 12, 13, 14, 15]"
  by (simp_all add: upt_rec)

lemma fd_piped_fields:
  "snd fd_pipe_made = (0, 3, 4)" "vfs_fd_get (Some 10) 3 fd_piped = Some 20" "vfs_fd_get (Some 10) 4 fd_piped = Some 21"
  "vs_handles fd_piped 20 = Some (pipe_handle 30 0 VFS_OPEN_READ)" "vs_handles fd_piped 21 = Some (pipe_handle 30 0 VFS_OPEN_WRITE)"
  "vs_pipes fd_piped 30 = Some \<lparr>pp_identity = 1, pp_head = 0, pp_used = 0, pp_read_open = True, pp_write_open = True, pp_data = replicate VFS_PIPE_CAPACITY 0\<rparr>"
  "vs_io fd_piped = io_begin"
proof -
  have e: "fd_pipe_made = (fd_piped, 0, 3, 4)"
    unfolding fd_pipe_made_def fd_piped_def
    by (simp add: vfs_fd_pipe_def vfs_fd_reserve_def fd_context_created fd_table_scan no_descriptor_def Let_def)
  show "snd fd_pipe_made = (0, 3, 4)"
    unfolding e snd_conv ..
  show "vfs_fd_get (Some 10) 3 fd_piped = Some 20" "vfs_fd_get (Some 10) 4 fd_piped = Some 21"
    "vs_handles fd_piped 20 = Some (pipe_handle 30 0 VFS_OPEN_READ)" "vs_handles fd_piped 21 = Some (pipe_handle 30 0 VFS_OPEN_WRITE)"
    "vs_pipes fd_piped 30 = Some \<lparr>pp_identity = 1, pp_head = 0, pp_used = 0, pp_read_open = True, pp_write_open = True, pp_data = replicate VFS_PIPE_CAPACITY 0\<rparr>"
    "vs_io fd_piped = io_begin"
    by (simp_all add: fd_piped_def vfs_fd_pipe_def vfs_fd_reserve_def fd_context_created fd_table_scan no_descriptor_def Let_def vfs_fd_get_def
        set_descriptor_def upd_context_def upd_handle_def upd_pipe_def)
qed

lemma fd_piped_reached: "fd_reached (\<lambda>_. 0) fd_piped"
proof -
  have b: "fd_reached (\<lambda>_. 0) fd_begin"
  proof (rule fd_start)
    have "io_reachable io_begin"
      by (rule io_start) (simp_all add: io_begin_def)
    then show "io_reachable (vs_io fd_begin)"
      by (simp add: fd_begin_def)
  qed (simp_all add: fd_begin_def)
  obtain r where "vfs_context_create (Some 1) (Some 10) True fd_begin = Some (fd_context, r)"
    using fd_context_created(1) by (auto simp: fd_context_def)
  then have "fd_step fd_begin fd_context"
    by (rule step_create) (simp add: fd_begin_def)
  then have c: "fd_reached (\<lambda>_. 0) fd_context"
    using b by (blast intro: fd_next)
  obtain r d1 d2 where "vfs_fd_pipe 10 0 True True (Some 20) (Some 21) (Some 30) [] fd_context = (fd_piped, r, d1, d2)"
    by (cases "vfs_fd_pipe 10 0 True True (Some 20) (Some 21) (Some 30) [] fd_context") (simp add: fd_piped_def)
  then have "fd_step fd_context fd_piped"
    by (rule step_pipe) (simp_all add: fd_context_created)
  then show ?thesis
    using c by (blast intro: fd_next)
qed

lemma fd_piped_reachable: "fd_reachable fd_piped"
  using fd_piped_reached by (auto simp: fd_reachable_def)

section \<open>Properties\<close>

text \<open>C15: Handles and pipes live exactly as long as they are needed.  Whatever calls are made, by whichever tasks and in whatever
  order, the count of a handle is the number of descriptors that refer to it in all contexts plus the references that mappings,
  truncations under way and streams hold, and a handle with neither is freed; the latter exist for files only.  No descriptor leads
  to a handle or to a pipe that was freed; an end of a pipe is open exactly when some descriptor leads to it, and a pipe with both
  ends closed is freed.\<close>

theorem descriptors_counted:
  assumes "fd_reached H s"
  shows "(\<forall>h. vs_handles s h = None \<longleftrightarrow> handle_uses s h + H h = 0)
    \<and> (\<forall>h x. vs_handles s h = Some x \<longrightarrow> vh_references x = handle_uses s h + H h \<and> (vh_pipe x \<noteq> None \<longrightarrow> H h = 0))
    \<and> (\<forall>c d h. vfs_fd_get c d s = Some h \<longrightarrow>
        (\<exists>x. vs_handles s h = Some x \<and> (\<forall>p. vh_pipe x = Some p \<longrightarrow> vs_pipes s p \<noteq> None)))
    \<and> (\<forall>p q. vs_pipes s p = Some q \<longrightarrow> (pp_read_open q \<or> pp_write_open q)
        \<and> (pp_read_open q \<longleftrightarrow> (\<exists>c d h x. vfs_fd_get c d s = Some h \<and> vs_handles s h = Some x \<and> vh_pipe x = Some p \<and> vh_flags x AND VFS_OPEN_READ \<noteq> 0))
        \<and> (pp_write_open q \<longleftrightarrow> (\<exists>c d h x. vfs_fd_get c d s = Some h \<and> vs_handles s h = Some x \<and> vh_pipe x = Some p \<and> vh_flags x AND VFS_OPEN_READ = 0)))"
proof (intro conjI allI impI)
  have wf: "fd_wf H s"
    using assms by (rule fd_reached_wf)
  show "vs_handles s h = None \<longleftrightarrow> handle_uses s h + H h = 0" for h
    using fd_wfD(3,4) [OF wf, of h] by (cases "vs_handles s h") auto
  show "vh_references x = handle_uses s h + H h" if "vs_handles s h = Some x" for h x
    using fd_wfD(4) [OF wf that] by simp
  show "H h = 0" if "vs_handles s h = Some x" "vh_pipe x \<noteq> None" for h x
    using fd_wfD(5) [OF wf that] by simp
  show "\<exists>x. vs_handles s h = Some x \<and> (\<forall>p. vh_pipe x = Some p \<longrightarrow> vs_pipes s p \<noteq> None)" if get: "vfs_fd_get c d s = Some h" for c d h
  proof -
    obtain x where x: "vs_handles s h = Some x"
      using descriptor_uses [OF wf get] fd_wfD(3) [OF wf, of h] by (cases "vs_handles s h") auto
    then show ?thesis
      using pipe_alive [OF wf x] by fastforce
  qed
  fix p q assume q: "vs_pipes s p = Some q"
  show "pp_read_open q \<or> pp_write_open q"
    using fd_wfD(6) [OF wf q] by simp
  have ends: "(if r then pp_read_open q else pp_write_open q) \<longleftrightarrow>
      (\<exists>c d h x. vfs_fd_get c d s = Some h \<and> vs_handles s h = Some x \<and> vh_pipe x = Some p \<and> (vh_flags x AND VFS_OPEN_READ \<noteq> 0) = r)" for r
  proof -
    have "end_open (vs_pipes s p) r \<longleftrightarrow> pipe_end s p r \<noteq> {}"
      using fd_wfD(7) [OF wf, of p r] by auto
    also have "\<dots> \<longleftrightarrow> (\<exists>h x. vs_handles s h = Some x \<and> vh_pipe x = Some p \<and> (vh_flags x AND VFS_OPEN_READ \<noteq> 0) = r)"
      by (auto simp: pipe_end_def)
    also have "\<dots> \<longleftrightarrow> (\<exists>c d h x. vfs_fd_get c d s = Some h \<and> vs_handles s h = Some x \<and> vh_pipe x = Some p \<and> (vh_flags x AND VFS_OPEN_READ \<noteq> 0) = r)"
    proof -
      have "\<exists>c d. vfs_fd_get c d s = Some h" if "vs_handles s h = Some x" "vh_pipe x = Some p" for h x
      proof -
        have "0 < handle_uses s h"
          using fd_wfD(4,5) [OF wf that(1)] that(2) by auto
        then show ?thesis
          by (rule handle_uses_descriptor [OF wf]) blast
      qed
      then show ?thesis by blast
    qed
    finally show ?thesis
      using q by (simp add: end_open_def)
  qed
  show "pp_read_open q \<longleftrightarrow> (\<exists>c d h x. vfs_fd_get c d s = Some h \<and> vs_handles s h = Some x \<and> vh_pipe x = Some p \<and> vh_flags x AND VFS_OPEN_READ \<noteq> 0)"
    "pp_write_open q \<longleftrightarrow> (\<exists>c d h x. vfs_fd_get c d s = Some h \<and> vs_handles s h = Some x \<and> vh_pipe x = Some p \<and> vh_flags x AND VFS_OPEN_READ = 0)"
    using ends [of True] ends [of False] by simp_all
qed

theorem descriptors_counted_witness:
  "vs_handles fd_piped 20 \<noteq> None \<and> handle_uses fd_piped 20 = 1 \<and> (handle_uses fd_piped 22 = 0 \<longleftrightarrow> vs_handles fd_piped 22 = None)"
proof -
  note c = descriptors_counted [OF fd_piped_reached]
  have "vh_references (pipe_handle 30 0 VFS_OPEN_READ) = handle_uses fd_piped 20 + 0"
    by (rule c [THEN conjunct2, THEN conjunct1, rule_format, OF fd_piped_fields(4), THEN conjunct1])
  moreover have "vs_handles fd_piped 22 = None \<longleftrightarrow> handle_uses fd_piped 22 + 0 = 0"
    by (rule c [THEN conjunct1, rule_format])
  ultimately show ?thesis
    using fd_piped_fields(4) by (simp add: pipe_handle_def)
qed

text \<open>C17: What closing a descriptor of a pipe does, in every reachable state.  It succeeds; the descriptor is free; every task that
  waits for either end is woken and leaves the queues, which are empty then.  While other descriptors refer to the same
  end, one reference goes and nothing else changes; with the last one the handle is freed and the end is closed, and if the other end
  is closed already, the pipe is freed, after the queues inside it were emptied.
\<close>

theorem vfs_fd_close_pipe_exact:
  assumes "fd_reachable s" "vfs_fd_get (Some c) d s = Some h" "vs_handles s h = Some x" "vh_pipe x = Some p" "vs_pipes s p = Some q"
  shows "\<exists>s'. vfs_fd_close (Some c) d s = Some (s', VFS_OK) \<and> vfs_fd_get (Some c) d s' = None
    \<and> io_queues (vs_io s') p = [] \<and> io_queues (vs_io s') (p + 4) = []
    \<and> (\<forall>w\<in>fst ` set (io_queues (vs_io s) p @ io_queues (vs_io s) (p + 4)).
         asleep (vs_kernel s) (iw_task (io_records (vs_io s) w)) \<longrightarrow> t_state (tsk (vs_kernel s') (iw_task (io_records (vs_io s) w))) = RUNNING)
    \<and> vs_handles s' = (vs_handles s)(h := if handle_uses s h = 1 then None else Some (x\<lparr>vh_references := handle_uses s h - 1\<rparr>))
    \<and> (let y = (if vh_flags x AND VFS_OPEN_READ \<noteq> 0 then q\<lparr>pp_read_open := False\<rparr> else q\<lparr>pp_write_open := False\<rparr>) in
         vs_pipes s' = (vs_pipes s)(p := if handle_uses s h \<noteq> 1 then Some q else if pp_read_open y \<or> pp_write_open y then Some y else None))"
proof -
  obtain H where wf: "fd_wf H s"
    using fd_reachable_wf [OF assms(1)] ..
  have io: "io_wf (vs_io s)"
    using fd_wfD(8) [OF wf] .
  have refs: "vh_references x = handle_uses s h" "0 < handle_uses s h"
    using fd_wfD(4,5) [OF wf assms(3)] assms(4) by auto
  have dentry: "vh_dentry x = None"
    using fd_wfD(5) [OF wf assms(3)] assms(4) by simp
  let ?cleared = "set_descriptor c (nat d) no_descriptor s"
  let ?t = "?cleared\<lparr>vs_rl := (vs_rl s)\<lparr>rs_kernel := vs_kernel s\<rparr>\<rparr>"
  have cleared: "vs_rl ?cleared = vs_rl s"
    by (simp add: set_descriptor_def upd_context_def)
  have drop: "drop_locks h ?cleared = Some ?t"
    using assms(3,4) dentry cleared by (simp add: drop_locks_def handle_view_def vfs_record_lock_close_def on_rl_def)
  have "io_wf (vs_io ?t)"
    using io by simp
  then obtain ws where ws: "wake_pipe p ?t = Some (?t\<lparr>vs_io := io_released ws (vs_io s)\<rparr>)"
    "fst ` set (io_queues (vs_io s) p) \<union> fst ` set (io_queues (vs_io s) (p + 4)) = set ws"
    by (rule wake_pipe_effect) auto
  let ?u = "?t\<lparr>vs_io := io_released ws (vs_io s)\<rparr>"
  have empty: "io_queues (io_released (ws @ vs) (vs_io s)) p = []" "io_queues (io_released (ws @ vs) (vs_io s)) (p + 4) = []" for vs
    using ws(2) by (force simp: io_released_def filter_empty_conv)+
  have sub: "set (ws @ vs) \<subseteq> set (io_waiters (vs_io s))" if "set vs \<subseteq> set ws" for vs
    using ws(2) io_wfD(7) [OF io] that by fastforce
  have woken: "t_state (tsk (io_kernel (io_released (ws @ vs) (vs_io s))) (iw_task (io_records (vs_io s) w))) = RUNNING"
    if "set vs \<subseteq> set ws" "w \<in> fst ` set (io_queues (vs_io s) p @ io_queues (vs_io s) (p + 4))"
      "asleep (vs_kernel s) (iw_task (io_records (vs_io s) w))" for vs w
    using io_released_tasks [OF io sub [OF that(1)]] ws(2) that(2,3) by (auto simp: asleep_def)
  have close: "vfs_fd_close (Some c) d s = vfs_close (Some h) ?u"
    using assms(2-5) drop ws(1) by (simp add: vfs_fd_close_def)
  obtain cx where cx: "map_of (vs_contexts s) c = Some cx" "3 \<le> nat d" "nat d < length (vc_entries cx)"
    using assms(2) by (rule vfs_fd_get_Some) auto
  have gone: "vfs_fd_get (Some c) d s' = None" if "vs_contexts s' = vs_contexts ?cleared" for s'
    using cx that by (simp add: vfs_fd_get_def set_descriptor_def no_descriptor_def)
  have idem: "(vs_pipes s)(p := Some q) = vs_pipes s"
    using assms(5) by (simp add: fun_upd_idem)
  show ?thesis
  proof (cases "handle_uses s h = 1")
    case False
    have "vfs_close (Some h) ?u = Some (upd_handle h (Some (x\<lparr>vh_references := handle_uses s h - 1\<rparr>)) ?u, VFS_OK)"
      using assms(3) refs False by (simp add: vfs_close_def)
    then show ?thesis
      using False close gone [of "upd_handle h (Some (x\<lparr>vh_references := handle_uses s h - 1\<rparr>)) ?u"] empty [of "[]"] woken [of "[]"] assms(5)
      by (intro exI [of _ "upd_handle h (Some (x\<lparr>vh_references := handle_uses s h - 1\<rparr>)) ?u"]) (auto simp: Let_def idem simp del: fun_upd_apply)
  next
    case True
    let ?y = "if vh_flags x AND VFS_OPEN_READ \<noteq> 0 then q\<lparr>pp_read_open := False\<rparr> else q\<lparr>pp_write_open := False\<rparr>"
    have "io_wf (vs_io (upd_pipe p (Some ?y) ?u))"
      using io by (simp add: io_released_wf)
    then obtain vs where vs: "wake_pipe p (upd_pipe p (Some ?y) ?u) = Some ((upd_pipe p (Some ?y) ?u)\<lparr>vs_io := io_released vs (io_released ws (vs_io s))\<rparr>)"
      "fst ` set (io_queues (io_released ws (vs_io s)) p) \<union> fst ` set (io_queues (io_released ws (vs_io s)) (p + 4)) = set vs"
      by (rule wake_pipe_effect) auto
    have vs0: "set vs \<subseteq> set ws"
      using vs(2) empty [of "[]"] by simp
    let ?v = "(upd_pipe p (Some ?y) ?u)\<lparr>vs_io := io_released (ws @ vs) (vs_io s)\<rparr>"
    let ?s' = "upd_handle h None (if \<not> pp_read_open ?y \<and> \<not> pp_write_open ?y then upd_pipe p None ?v else ?v)"
    have "vfs_close (Some h) ?u = Some (?s', VFS_OK)"
      using assms(3-5) refs True vs(1) by (simp add: vfs_close_def close_pipe_end_def io_released_append Let_def)
    moreover have "vs_contexts ?s' = vs_contexts ?cleared" "vs_io ?s' = io_released (ws @ vs) (vs_io s)" "vs_handles ?s' = (vs_handles s)(h := None)"
      by simp_all
    moreover have "vs_pipes ?s' = (vs_pipes s)(p := if pp_read_open ?y \<or> pp_write_open ?y then Some ?y else None)"
      by simp
    ultimately show ?thesis
      using True close gone [of ?s'] empty [of vs] woken [OF vs0]
      by (intro exI [of _ ?s']) (simp add: Let_def del: fun_upd_apply)
  qed
qed

theorem vfs_fd_close_pipe_exact_witness:
  "\<exists>s'. vfs_fd_close (Some 10) 3 fd_piped = Some (s', VFS_OK) \<and> vs_handles s' 20 = None \<and> vfs_fd_get (Some 10) 3 s' = None"
proof -
  have "handle_uses fd_piped 20 = 1"
    using fd_wfD(4) [OF fd_reached_wf [OF fd_piped_reached] fd_piped_fields(4)] by (simp add: pipe_handle_def)
  moreover have "vh_pipe (pipe_handle 30 0 VFS_OPEN_READ) = Some 30"
    by (simp add: pipe_handle_def)
  from vfs_fd_close_pipe_exact [OF fd_piped_reachable fd_piped_fields(2,4) this fd_piped_fields(6)]
  obtain s' where "vfs_fd_close (Some 10) 3 fd_piped = Some (s', VFS_OK)" "vfs_fd_get (Some 10) 3 s' = None"
    "vs_handles s' = (vs_handles fd_piped)(20 := if handle_uses fd_piped 20 = 1 then None
        else Some (pipe_handle 30 0 VFS_OPEN_READ\<lparr>vh_references := handle_uses fd_piped 20 - 1\<rparr>))"
    by blast
  ultimately show ?thesis
    by auto
qed

text \<open>A round never reads a handle or a pipe that was freed.\<close>

lemma fd_io_round_total:
  assumes "fd_wf H s" "n \<le> length buffer \<or> \<not> wr" "current_tid (vs_kernel s) < slot_count (vs_kernel s)"
    "\<forall>w. memory = Some w \<longrightarrow> w \<notin> set (io_waiters (vs_io s))"
  shows "fd_io_round fio c d buffer n wr accessible memory identity s \<noteq> None"
proof (cases "vfs_fd_get c d s")
  case (Some h)
  obtain x where x: "vs_handles s h = Some x"
    using descriptor_uses [OF assms(1) Some] fd_wfD(3) [OF assms(1), of h] by (cases "vs_handles s h") auto
  show ?thesis
  proof (cases "vh_pipe x")
    case None
    then show ?thesis
      using Some x by (simp add: fd_io_round_def case_prod_beta)
  next
    case pipe: (Some p)
    show ?thesis
      by (rule fd_io_round_pipe [OF assms(1) Some x pipe assms(2-4), where identity = identity and fio = fio and accessible = accessible]) auto
  qed
qed (simp add: fd_io_round_def)

lemma fd_io_resume_total:
  assumes "fd_wf H s" "n \<le> length buffer \<or> \<not> wr" "current_tid (vs_kernel s) < slot_count (vs_kernel s)"
    "\<forall>w. memory = Some w \<longrightarrow> w \<notin> set (io_waiters (vs_io s))"
  shows "fd_io_resume fio w c d buffer n wr accessible memory identity s \<noteq> None"
proof -
  let ?s = "s\<lparr>vs_io := destroy w (vs_io s)\<rparr>"
  have "fd_same s ?s"
    by (simp add: fd_same_def destroy_wf)
  then have "fd_wf H ?s"
    using assms(1) by (rule fd_same_wf)
  then have "fd_io_round fio c d buffer n wr accessible memory identity ?s \<noteq> None"
    using assms(2-4) by (intro fd_io_round_total) (auto simp: destroy_fields)
  then show ?thesis
    by (simp add: fd_io_resume_def io_wait_resume_def Let_def)
qed

text \<open>What may come of one iteration on the pipe \<open>q\<close> at \<open>p\<close>.\<close>

definition transfer_outcome ::
  "u32 \<Rightarrow> nat \<Rightarrow> vfs_pipe \<Rightarrow> u8 list \<Rightarrow> bool \<Rightarrow> nat option \<Rightarrow> vfs_state \<Rightarrow> vfs_state \<Rightarrow> u64 \<Rightarrow> u8 list \<Rightarrow> int outcome \<Rightarrow> bool" where
  "transfer_outcome flags p q buffer wr memory s s' identity' out r =
     (case r of
        Switch \<Rightarrow> pipe_io flags buffer (length buffer) wr q = (q, VFS_ERROR_AGAIN, []) \<and> flags AND VFS_OPEN_NONBLOCK = 0
          \<and> identity' = pp_identity q \<and> vs_pipes s' = vs_pipes s
          \<and> (\<exists>w. memory = Some w \<and> (w, 0) \<in> set (io_queues (vs_io s') (if wr then p + 4 else p))
                \<and> iw_task (io_records (vs_io s') w) = current_tid (vs_kernel s))
          \<and> t_state (tsk (vs_kernel s') (current_tid (vs_kernel s))) = WAITING
      | Done k \<Rightarrow>
          if k > 0 then
            \<exists>q'. pipe_io flags buffer (length buffer) wr q = (q', k, out) \<and> vs_pipes s' = (vs_pipes s)(p := Some q')
              \<and> io_queues (vs_io s') (if wr then p else p + 4) = []
              \<and> (\<forall>w\<in>fst ` set (io_queues (vs_io s) (if wr then p else p + 4)).
                   asleep (vs_kernel s) (iw_task (io_records (vs_io s) w)) \<longrightarrow> t_state (tsk (vs_kernel s') (iw_task (io_records (vs_io s) w))) = RUNNING)
          else vs_pipes s' = vs_pipes s \<and> out = []
      | Retry \<Rightarrow> vs_pipes s' = vs_pipes s
      | SwitchThen _ \<Rightarrow> False)"

lemma transfer_outcome_moved:
  assumes "fd_wf H s" "vs_pipes s p = Some q" "pipe_io flags buffer (length buffer) wr q = (q', result, out)"
    "set ws = (if result > 0 then fst ` set (io_queues (vs_io s) (if wr then p else p + 4)) else {})"
  shows "transfer_outcome flags p q buffer wr memory s ((upd_pipe p (Some q') s)\<lparr>vs_io := io_released ws (vs_io s)\<rparr>) identity out (Done result)"
proof (cases "result > 0")
  case True
  have "set ws \<subseteq> set (io_waiters (vs_io s))"
    using assms(4) True io_wfD(7) [OF fd_wfD(8) [OF assms(1)]] by fastforce
  note tasks = io_released_tasks [OF fd_wfD(8) [OF assms(1)] this]
  have "io_queues (io_released ws (vs_io s)) (if wr then p else p + 4) = []"
    using assms(4) True by (force simp: io_released_def filter_empty_conv)
  moreover have "\<forall>w\<in>set ws. asleep (vs_kernel s) (iw_task (io_records (vs_io s) w))
      \<longrightarrow> t_state (tsk (io_kernel (io_released ws (vs_io s))) (iw_task (io_records (vs_io s) w))) = RUNNING"
    using tasks by (simp add: asleep_def)
  ultimately show ?thesis
    using True assms(3,4) by (simp add: transfer_outcome_def)
next
  case False
  then have "q' = q" "out = []"
    using assms(3) transfer_Inr(1) by (auto simp: pipe_io_transfer split: sum.splits if_splits)
  then show ?thesis
    using False assms(2) by (simp add: transfer_outcome_def fun_upd_idem)
qed

text \<open>C16: Reading and writing through a descriptor of a pipe, in every reachable state.  The call returns or sleeps, and neither it nor
  its continuation ever touches a handle or a pipe that was freed, whatever became of the descriptor meanwhile; if another
  pipe has taken the place of the one it waited for, the continuation fails.  It sleeps only where the transfer is not possible
  now and the descriptor may block, with a watch in the queue that the other end wakes.  When bytes have moved, the waiters
  for the other direction are awake and their queue is empty; otherwise the pipe is as it was.
\<close>

theorem vfs_fd_io_pipe_exact:
  assumes "fd_reachable s" "vfs_fd_get c d s = Some h" "vs_handles s h = Some x" "vh_pipe x = Some p" "vs_pipes s p = Some q"
    "n = length buffer" "current_tid (vs_kernel s) < slot_count (vs_kernel s)" "\<forall>w. memory = Some w \<longrightarrow> w \<notin> set (io_waiters (vs_io s))"
  shows "(\<exists>s' identity' out r. fd_io_round fio c d buffer n wr accessible memory identity s = Some (s', identity', out, r)
        \<and> transfer_outcome (vh_flags x) p q buffer wr memory s s' identity' out r
        \<and> (identity \<noteq> 0 \<and> identity \<noteq> pp_identity q \<longrightarrow> s' = s \<and> r = Done VFS_ERROR_BAD_DESCRIPTOR))
    \<and> (\<forall>w e. fd_io_resume fio w c e buffer n wr accessible memory identity s \<noteq> None)"
proof
  obtain H where wf: "fd_wf H s"
    using fd_reachable_wf [OF assms(1)] ..
  have n: "n \<le> length buffer \<or> \<not> wr"
    using assms(6) by simp
  show "\<forall>w e. fd_io_resume fio w c e buffer n wr accessible memory identity s \<noteq> None"
    using fd_io_resume_total [OF wf n assms(7,8)] by blast
  let ?round = "fd_io_round fio c d buffer n wr accessible memory identity s"
  have refused: "transfer_outcome (vh_flags x) p q buffer wr memory s s i [] (Done e)" if "e \<le> 0" for i e
    using that by (simp add: transfer_outcome_def)
  show "\<exists>s' identity' out r. ?round = Some (s', identity', out, r) \<and> transfer_outcome (vh_flags x) p q buffer wr memory s s' identity' out r
      \<and> (identity \<noteq> 0 \<and> identity \<noteq> pp_identity q \<longrightarrow> s' = s \<and> r = Done VFS_ERROR_BAD_DESCRIPTOR)"
  proof (cases "identity \<noteq> 0 \<and> identity \<noteq> pp_identity q")
    case True
    then have "?round = Some (s, identity, [], Done VFS_ERROR_BAD_DESCRIPTOR)"
      using assms(2-5) by (simp add: fd_io_round_def)
    then show ?thesis
      using refused by simp
  next
    case identity: False
    show ?thesis
    proof (rule fd_io_round_pipe [OF wf assms(2-4) n assms(7,8), where identity = identity and fio = fio and accessible = accessible])
      fix q0 q' result out ws
      assume "vs_pipes s p = Some q0" "pipe_io (vh_flags x) buffer n wr q0 = (q', result, out)"
        "set ws = (if result > 0 then fst ` set (io_queues (vs_io s) (if wr then p else p + 4)) else {})"
        "?round = Some ((upd_pipe p (Some q') s)\<lparr>vs_io := io_released ws (vs_io s)\<rparr>, identity, out, Done result)"
      then show ?thesis
        using transfer_outcome_moved [OF wf assms(5), of "vh_flags x" buffer wr q' result out ws memory identity] identity assms(5,6) by auto
    next
      fix q0 io r
      assume a: "vs_pipes s p = Some q0" "pipe_io (vh_flags x) buffer n wr q0 = (q0, VFS_ERROR_AGAIN, [])" "vh_flags x AND VFS_OPEN_NONBLOCK = 0"
        "io_poll_wait (if wr then p + 4 else p) memory (vs_io s) = (io, r)"
        "?round = Some (s\<lparr>vs_io := io\<rparr>, pp_identity q0, [], case r of Done e \<Rightarrow> if e < 0 then Done e else Retry | _ \<Rightarrow> Switch)"
      have "transfer_outcome (vh_flags x) p q buffer wr memory s (s\<lparr>vs_io := io\<rparr>) (pp_identity q0) []
          (case r of Done e \<Rightarrow> if e < 0 then Done e else Retry | _ \<Rightarrow> Switch)"
        using io_poll_wait_sleeps [OF a(4) assms(7)] a(1-3) assms(5,6) by (auto simp: transfer_outcome_def split: if_splits)
      then show ?thesis
        using a(5) identity by auto
    qed (use refused identity assms(5) in auto)
  qed
qed

theorem vfs_fd_io_pipe_exact_witness:
  "\<exists>s' identity out r. fd_io_round (\<lambda>h s. (s, 0, [])) (Some 10) 3 [0] 1 False True (Some 64) 0 fd_piped = Some (s', identity, out, r)
     \<and> transfer_outcome (vh_flags (pipe_handle 30 0 VFS_OPEN_READ)) 30
         \<lparr>pp_identity = 1, pp_head = 0, pp_used = 0, pp_read_open = True, pp_write_open = True, pp_data = replicate VFS_PIPE_CAPACITY 0\<rparr>
         [0] False (Some 64) fd_piped s' identity out r"
proof -
  have "vh_pipe (pipe_handle 30 0 VFS_OPEN_READ) = Some 30"
    by (simp add: pipe_handle_def)
  moreover have "current_tid (vs_kernel fd_piped) < slot_count (vs_kernel fd_piped)"
    "\<forall>w. Some 64 = Some w \<longrightarrow> w \<notin> set (io_waiters (vs_io fd_piped))"
    by (simp_all add: fd_piped_fields(7) io_begin_def io_example_facts)
  moreover have "1 = length [0 :: u8]"
    by simp
  ultimately show ?thesis
    using vfs_fd_io_pipe_exact [OF fd_piped_reachable fd_piped_fields(2,4) _ fd_piped_fields(6), of 1 "[0]" "Some 64" "\<lambda>h s. (s, 0, [])" False True 0]
    by blast
qed

end
