(* ===== verification/Format.thy ===== *)
theory Format
  imports Prelude
begin

text \<open>
  Formatted output, \<^verbatim>\<open>kernel/std/format.c\<close> as compiled for i386: \<open>size_t\<close>, \<open>long\<close>, \<open>intptr_t\<close> and pointers have 32 bits,
  \<open>long long\<close> 64.  The format is the list of its bytes before the terminating NUL.  The variable arguments are the 32-bit
  words of the caller's stack from the first one on, with the index of the next; the string at an address is the argument
  \<open>str\<close> (its bytes before the NUL).  The buffer is a function of the offset, so that a write outside it would be seen.
\<close>

section \<open>Output\<close>

abbreviation SIZE_LIMIT :: nat where "SIZE_LIMIT \<equiv> 4294967296"

record format_output =
  fo_buffer :: "nat \<Rightarrow> u8"
  fo_capacity :: nat
  fo_length :: nat

definition bytes_at :: "nat \<Rightarrow> bytes \<Rightarrow> (nat \<Rightarrow> u8) \<Rightarrow> (nat \<Rightarrow> u8)" where
  "bytes_at a text m = (\<lambda>x. if a \<le> x \<and> x < a + length text then text ! (x - a) else m x)"

definition format_append :: "bytes \<Rightarrow> format_output \<Rightarrow> format_output" where
  "format_append text out =
     (let available = (if fo_length out < fo_capacity out then fo_capacity out - fo_length out else 0);
          n = (if length text < available then length text else available)
      in out\<lparr>fo_buffer := (if available > 0 then bytes_at (fo_length out) (take n text) (fo_buffer out) else fo_buffer out),
             fo_length := (fo_length out + length text) mod SIZE_LIMIT\<rparr>)"

definition format_padding :: "u8 \<Rightarrow> nat \<Rightarrow> format_output \<Rightarrow> format_output" where
  "format_padding fill n out =
     (let available = (if fo_length out < fo_capacity out then fo_capacity out - fo_length out else 0);
          m = (if n < available then n else available)
      in out\<lparr>fo_buffer := (if available > 0 then bytes_at (fo_length out) (replicate m fill) (fo_buffer out) else fo_buffer out),
             fo_length := (fo_length out + n) mod SIZE_LIMIT\<rparr>)"

section \<open>Directives\<close>

text \<open>Characters.\<close>

definition chr :: "char \<Rightarrow> u8" where
  "chr c = of_nat (of_char c)"

definition is_digit :: "u8 \<Rightarrow> bool" where
  "is_digit c \<longleftrightarrow> chr CHR ''0'' \<le> c \<and> c \<le> chr CHR ''9''"

text \<open>The stack words at \<open>i\<close> as an \<open>int\<close>, and as a \<open>long long\<close>.\<close>

type_synonym va_list = "nat \<Rightarrow> u32"

definition va_int :: "va_list \<Rightarrow> nat \<Rightarrow> int" where
  "va_int va i = sint (va i)"

definition va_long_long :: "va_list \<Rightarrow> nat \<Rightarrow> u64" where
  "va_long_long va i = word_cat (va (Suc i)) (va i)"

record directive =
  d_left :: bool
  d_zero :: bool
  d_alternate :: bool
  d_sign :: u8

fun parse_flags :: "bytes \<Rightarrow> directive \<Rightarrow> bytes \<times> directive" where
  "parse_flags [] d = ([], d)"
| "parse_flags (c # f) d =
     (if c = chr CHR ''-'' then parse_flags f (d\<lparr>d_left := True\<rparr>)
      else if c = chr CHR ''0'' then parse_flags f (d\<lparr>d_zero := True\<rparr>)
      else if c = chr CHR ''#'' then parse_flags f (d\<lparr>d_alternate := True\<rparr>)
      else if c = chr CHR ''+'' then parse_flags f (d\<lparr>d_sign := chr CHR ''+''\<rparr>)
      else if c = chr CHR '' '' then parse_flags f (if d_sign d = 0 then d\<lparr>d_sign := chr CHR '' ''\<rparr> else d)
      else (c # f, d))"

text \<open>A decimal number; \<open>None\<close> when the code returns \<open>-1\<close> because it may not fit an \<open>int\<close>.\<close>

fun parse_number :: "bytes \<Rightarrow> nat \<Rightarrow> (bytes \<times> nat) option" where
  "parse_number [] n = Some ([], n)"
| "parse_number (c # f) n =
     (if is_digit c
      then if n > (INT_MAX - 9) div 10 then None else parse_number f (n * 10 + unat c - unat (chr CHR ''0''))
      else Some (c # f, n))"

definition parse_width :: "va_list \<Rightarrow> bytes \<Rightarrow> nat \<Rightarrow> directive \<Rightarrow> (bytes \<times> nat \<times> directive \<times> nat) option" where
  "parse_width va f i d =
     (if f \<noteq> [] \<and> hd f = chr CHR ''*''
      then let v = va_int va i in Some (tl f, Suc i, d\<lparr>d_left := d_left d \<or> v < 0\<rparr>, nat \<bar>v\<bar>)
      else case parse_number f 0 of None \<Rightarrow> None | Some (f, n) \<Rightarrow> Some (f, i, d, n))"

text \<open>A negative precision, also one from an argument, counts as none.\<close>

definition parse_precision :: "va_list \<Rightarrow> bytes \<Rightarrow> nat \<Rightarrow> (bytes \<times> nat \<times> int) option" where
  "parse_precision va f i =
     (if f \<noteq> [] \<and> hd f = chr CHR ''.''
      then let f = tl f in
        if f \<noteq> [] \<and> hd f = chr CHR ''*'' then Some (tl f, Suc i, va_int va i)
        else (case parse_number f 0 of None \<Rightarrow> None | Some (f, n) \<Rightarrow> Some (f, i, int n))
      else Some (f, i, -1))"

datatype length_modifier = NORMAL | CHAR_LENGTH | SHORT | LONG | LONG_LONG | SIZE | POINTER

definition parse_length :: "bytes \<Rightarrow> bytes \<times> length_modifier" where
  "parse_length f =
     (case f of
        [] \<Rightarrow> (f, NORMAL)
      | c # g \<Rightarrow>
          if c = chr CHR ''l'' then (if g \<noteq> [] \<and> hd g = chr CHR ''l'' then (tl g, LONG_LONG) else (g, LONG))
          else if c = chr CHR ''h'' then (if g \<noteq> [] \<and> hd g = chr CHR ''h'' then (tl g, CHAR_LENGTH) else (g, SHORT))
          else if c = chr CHR ''z'' then (g, SIZE)
          else if c = chr CHR ''t'' then (g, POINTER)
          else (f, NORMAL))"

section \<open>Conversions\<close>

definition signed_argument :: "length_modifier \<Rightarrow> va_list \<Rightarrow> nat \<Rightarrow> int \<times> nat" where
  "signed_argument m va i =
     (case m of
        LONG_LONG \<Rightarrow> (sint (va_long_long va i), i + 2)
      | CHAR_LENGTH \<Rightarrow> (sint (ucast (va i) :: u8), Suc i)
      | SHORT \<Rightarrow> (sint (ucast (va i) :: u16), Suc i)
      | _ \<Rightarrow> (sint (va i), Suc i))"

definition unsigned_argument :: "length_modifier \<Rightarrow> va_list \<Rightarrow> nat \<Rightarrow> nat \<times> nat" where
  "unsigned_argument m va i =
     (case m of
        LONG_LONG \<Rightarrow> (unat (va_long_long va i), i + 2)
      | CHAR_LENGTH \<Rightarrow> (unat (ucast (va i) :: u8), Suc i)
      | SHORT \<Rightarrow> (unat (ucast (va i) :: u16), Suc i)
      | _ \<Rightarrow> (unat (va i), Suc i))"

definition digit_of :: "bool \<Rightarrow> nat \<Rightarrow> u8" where
  "digit_of upper d =
     (if d < 10 then chr CHR ''0'' + of_nat d else (if upper then chr CHR ''A'' else chr CHR ''a'') + of_nat (d - 10))"

text \<open>The digits are written from the last one backwards, at least one of them.\<close>

fun digit_loop :: "bool \<Rightarrow> nat \<Rightarrow> nat \<Rightarrow> bytes \<Rightarrow> bytes" where
  "digit_loop upper base v text =
     (if v < base \<or> base < 2 then digit_of upper (v mod base) # text
      else digit_loop upper base (v div base) (digit_of upper (v mod base) # text))"

declare digit_loop.simps [simp del]

text \<open>The pieces of a conversion: prefix, number of zeros, text, and whether the padding may be zeros.\<close>

record conversion =
  v_prefix :: bytes
  v_zeros :: nat
  v_text :: bytes
  v_zero :: bool

definition integer_pieces :: "u8 \<Rightarrow> directive \<Rightarrow> int \<Rightarrow> bool \<Rightarrow> nat \<Rightarrow> conversion" where
  "integer_pieces conv d precision negative v =
     (let base = (if conv = chr CHR ''o'' then 8 else if conv = chr CHR ''b'' then 2
                  else if conv = chr CHR ''x'' \<or> conv = chr CHR ''X'' \<or> conv = chr CHR ''p'' then 16 else 10);
          sign = (if negative then [chr CHR ''-'']
                  else if d_sign d \<noteq> 0 \<and> (conv = chr CHR ''d'' \<or> conv = chr CHR ''i'') then [d_sign d] else []);
          prefix = (if conv = chr CHR ''p'' \<or> (d_alternate d \<and> base = 16 \<and> v \<noteq> 0)
                    then [chr CHR ''0'', if conv = chr CHR ''X'' then chr CHR ''X'' else chr CHR ''x''] else []);
          text = (if v \<noteq> 0 \<or> precision \<noteq> 0 then digit_loop (conv = chr CHR ''X'') base v [] else []);
          zeros = (if d_alternate d \<and> base = 8 \<and> (text = [] \<or> hd text \<noteq> chr CHR ''0'') then 1 else 0);
          zeros = (if precision > 0 \<and> nat precision > length text then nat precision - length text else zeros)
      in \<lparr>v_prefix = sign @ prefix, v_zeros = zeros, v_text = text, v_zero = d_zero d \<and> precision < 0\<rparr>)"

definition is_integer_conversion :: "u8 \<Rightarrow> bool" where
  "is_integer_conversion c \<longleftrightarrow> c \<in> chr ` set ''diuxXobp''"

text \<open>The bytes of a string argument, \<open>(null)\<close> for the null pointer.\<close>

definition string_argument :: "(u32 \<Rightarrow> bytes) \<Rightarrow> u32 \<Rightarrow> int \<Rightarrow> bytes" where
  "string_argument str a precision =
     (let text = (if a = 0 then map chr ''(null)'' else str a) in if precision < 0 then text else take (nat precision) text)"

definition convert :: "(u32 \<Rightarrow> bytes) \<Rightarrow> va_list \<Rightarrow> nat \<Rightarrow> directive \<Rightarrow> int \<Rightarrow> length_modifier \<Rightarrow> u8 option \<Rightarrow> conversion \<times> nat" where
  "convert str va i d precision m conv =
     (case conv of
        None \<Rightarrow> (\<lparr>v_prefix = [], v_zeros = 0, v_text = [chr CHR ''%''], v_zero = d_zero d\<rparr>, i)
      | Some c \<Rightarrow>
          if c = chr CHR ''s''
          then (\<lparr>v_prefix = [], v_zeros = 0, v_text = string_argument str (va i) precision, v_zero = False\<rparr>, Suc i)
          else if c = chr CHR ''%'' then (\<lparr>v_prefix = [], v_zeros = 0, v_text = [chr CHR ''%''], v_zero = False\<rparr>, i)
          else if c = chr CHR ''c'' then (\<lparr>v_prefix = [], v_zeros = 0, v_text = [ucast (va i)], v_zero = False\<rparr>, Suc i)
          else if c = chr CHR ''p'' then (integer_pieces c d precision False (unat (va i)), Suc i)
          else if c = chr CHR ''d'' \<or> c = chr CHR ''i''
          then (let (number, i) = signed_argument m va i in (integer_pieces c d precision (number < 0) (nat \<bar>number\<bar>), i))
          else if is_integer_conversion c
          then (let (v, i) = unsigned_argument m va i in (integer_pieces c d precision False v, i))
          else (\<lparr>v_prefix = [], v_zeros = 0, v_text = [chr CHR ''%'', c], v_zero = d_zero d\<rparr>, i))"

text \<open>A directive after its \<open>%\<close>: what it prints, the rest of the format and the next argument.\<close>

definition parse_directive ::
  "(u32 \<Rightarrow> bytes) \<Rightarrow> va_list \<Rightarrow> bytes \<Rightarrow> nat \<Rightarrow> (bytes \<times> nat \<times> bool \<times> nat \<times> conversion) option" where
  "parse_directive str va f i =
     (let (f, d) = parse_flags f \<lparr>d_left = False, d_zero = False, d_alternate = False, d_sign = 0\<rparr> in
      case parse_width va f i d of
        None \<Rightarrow> None
      | Some (f, i, d, width) \<Rightarrow>
          (case parse_precision va f i of
             None \<Rightarrow> None
           | Some (f, i, precision) \<Rightarrow>
               (let (f, m) = parse_length f;
                    conv = (if f = [] then None else Some (hd f));
                    (v, i) = convert str va i d precision m conv
                in Some (tl f, i, d_left d, width, v))))"

definition emit :: "bool \<Rightarrow> nat \<Rightarrow> conversion \<Rightarrow> format_output \<Rightarrow> format_output" where
  "emit left width v out =
     (let body = (length (v_prefix v) + v_zeros v + length (v_text v)) mod SIZE_LIMIT;
          padding = (if width > body then width - body else 0);
          out = (if \<not> left \<and> \<not> v_zero v then format_padding (chr CHR '' '') padding out else out);
          out = format_append (v_prefix v) out;
          out = (if \<not> left \<and> v_zero v then format_padding (chr CHR ''0'') padding out else out);
          out = format_padding (chr CHR ''0'') (v_zeros v) out;
          out = format_append (v_text v) out
      in if left then format_padding (chr CHR '' '') padding out else out)"

lemma parse_flags_length: "length (fst (parse_flags f d)) \<le> length f"
  by (induction f d rule: parse_flags.induct) auto

lemma parse_number_length: "parse_number f n = Some (g, k) \<Longrightarrow> length g \<le> length f"
  by (induction f n rule: parse_number.induct) (auto split: if_splits)

lemma parse_width_length: "parse_width va f i d = Some (g, j, e, w) \<Longrightarrow> length g \<le> length f"
  by (auto simp: parse_width_def Let_def dest: parse_number_length split: if_splits option.splits)

lemma parse_precision_length: "parse_precision va f i = Some (g, j, p) \<Longrightarrow> length g \<le> length f"
  by (auto simp: parse_precision_def Let_def split: if_splits option.splits dest!: parse_number_length) 

lemma parse_length_length: "length (fst (parse_length f)) \<le> length f"
  by (auto simp: parse_length_def split: list.split)

lemma parse_directive_length:
  assumes "parse_directive str va f i = Some (g, j, left, width, v)" shows "length g \<le> length f"
proof -
  obtain f1 d where f1: "parse_flags f \<lparr>d_left = False, d_zero = False, d_alternate = False, d_sign = 0\<rparr> = (f1, d)" by fastforce
  obtain f2 i2 d2 w where f2: "parse_width va f1 i d = Some (f2, i2, d2, w)"
    using assms by (auto simp: parse_directive_def f1 split: option.splits)
  obtain f3 i3 p where f3: "parse_precision va f2 i2 = Some (f3, i3, p)"
    using assms by (auto simp: parse_directive_def f1 f2 split: option.splits)
  obtain f4 m where f4: "parse_length f3 = (f4, m)" by fastforce
  have "g = tl f4" using assms by (auto simp: parse_directive_def f1 f2 f3 f4 Let_def split: prod.splits)
  then show ?thesis
    using parse_flags_length [of f] f1 parse_width_length [OF f2] parse_precision_length [OF f3] parse_length_length [of f3] f4
    by (metis diff_le_self dual_order.trans fst_conv length_tl)
qed

section \<open>The loop\<close>

function format_loop :: "(u32 \<Rightarrow> bytes) \<Rightarrow> va_list \<Rightarrow> bytes \<Rightarrow> nat \<Rightarrow> format_output \<Rightarrow> format_output \<times> bool" where
  "format_loop str va f i out =
     (let out = (if f = [] then out else format_append (takeWhile (\<lambda>c. c \<noteq> chr CHR ''%'') f) out)
      in case dropWhile (\<lambda>c. c \<noteq> chr CHR ''%'') f of
           [] \<Rightarrow> (out, True)
         | _ # f \<Rightarrow>
             (case parse_directive str va f i of
                None \<Rightarrow> (out, False)
              | Some (f, i, left, width, v) \<Rightarrow> format_loop str va f i (emit left width v out)))"
  by pat_completeness auto

lemma directive_shorter:
  assumes "dropWhile P f = c # g" "parse_directive str va g i = Some (h, x)" shows "length h < length f"
proof -
  obtain j left width v where x: "x = (j, left, width, v)" by (cases x)
  have "length (c # g) \<le> length f" using assms(1) by (metis length_dropWhile_le)
  then show ?thesis using parse_directive_length [OF assms(2) [unfolded x]] by simp
qed

termination format_loop
  by (relation "measure (\<lambda>(str, va, f, i, out). length f)") (auto dest: directive_shorter)

declare format_loop.simps [simp del]

definition vsnprintf :: "(u32 \<Rightarrow> bytes) \<Rightarrow> (nat \<Rightarrow> u8) \<Rightarrow> nat \<Rightarrow> bytes \<Rightarrow> va_list \<Rightarrow> (nat \<Rightarrow> u8) \<times> int" where
  "vsnprintf str buffer capacity f va =
     (case format_loop str va f 0 \<lparr>fo_buffer = buffer, fo_capacity = (if capacity > 0 then capacity - 1 else 0), fo_length = 0\<rparr> of
        (out, False) \<Rightarrow> (fo_buffer out, -1)
      | (out, True) \<Rightarrow>
          (if capacity > 0
           then (fo_buffer out)((if fo_length out < capacity then fo_length out else capacity - 1) := 0)
           else fo_buffer out,
           if fo_length out > INT_MAX then -1 else int (fo_length out)))"

definition vsprintf :: "(u32 \<Rightarrow> bytes) \<Rightarrow> (nat \<Rightarrow> u8) \<Rightarrow> bytes \<Rightarrow> va_list \<Rightarrow> (nat \<Rightarrow> u8) \<times> int" where
  "vsprintf str buffer f va = vsnprintf str buffer (SIZE_LIMIT - 1) f va"

end
