(* ===== verification/CString.thy ===== *)
theory CString
  imports Format
begin

text \<open>
  The C library functions of \<^verbatim>\<open>kernel/std/std.c\<close> that parse numbers and move memory, as compiled for i386 (\<open>long\<close>, \<open>size_t\<close>
  and a machine word have 32 bits).  A string argument of \<open>strtol\<close> is the list of its bytes before the NUL, and a pointer
  into it an index; memory is a function from addresses to bytes.
\<close>

section \<open>Characters\<close>

definition isspace :: "u8 \<Rightarrow> bool" where
  "isspace c \<longleftrightarrow> c = 32 \<or> c = 9 \<or> c = 10 \<or> c = 13 \<or> c = 12 \<or> c = 11"

definition isdigit :: "u8 \<Rightarrow> bool" where
  "isdigit c \<longleftrightarrow> 48 \<le> c \<and> c \<le> 57"

definition isalpha :: "u8 \<Rightarrow> bool" where
  "isalpha c \<longleftrightarrow> 97 \<le> c \<and> c \<le> 122 \<or> 65 \<le> c \<and> c \<le> 90"

definition isupper :: "u8 \<Rightarrow> bool" where
  "isupper c \<longleftrightarrow> 65 \<le> c \<and> c \<le> 90"

section \<open>\<open>strtol\<close>\<close>

text \<open>The byte at an index, the NUL behind the last one.\<close>

definition char_at :: "bytes \<Rightarrow> nat \<Rightarrow> u8" where
  "char_at s p = (if p < length s then s ! p else 0)"

definition digit_value :: "u8 \<Rightarrow> nat option" where
  "digit_value c =
     (if isdigit c then Some (unat c - 48)
      else if isalpha c then Some (if isupper c then unat c - 55 else unat c - 87)
      else None)"

text \<open>The loop: \<open>any\<close> is \<open>0\<close> before the first digit, then \<open>1\<close>, and \<open>-1\<close> after an overflow.\<close>

primrec strtol_loop :: "nat \<Rightarrow> nat \<Rightarrow> nat \<Rightarrow> bytes \<Rightarrow> u32 \<Rightarrow> int \<Rightarrow> nat \<Rightarrow> u32 \<times> int \<times> nat" where
  "strtol_loop base cutoff cutlim [] acc any p = (acc, any, p)"
| "strtol_loop base cutoff cutlim (c # cs) acc any p =
     (case digit_value c of
        None \<Rightarrow> (acc, any, p)
      | Some d \<Rightarrow>
          if d \<ge> base then (acc, any, p)
          else if any < 0 \<or> unat acc > cutoff \<or> (unat acc = cutoff \<and> d > cutlim)
               then strtol_loop base cutoff cutlim cs acc (-1) (Suc p)
               else strtol_loop base cutoff cutlim cs (acc * of_nat base + of_nat d) 1 (Suc p))"

text \<open>What precedes the digits: where they start, the base and the sign.\<close>

definition strtol_start :: "bytes \<Rightarrow> nat \<Rightarrow> nat \<times> nat \<times> bool" where
  "strtol_start s base =
     (let p = length (takeWhile isspace s);
          neg = (char_at s p = chr CHR ''-'');
          p = (if neg \<or> char_at s p = chr CHR ''+'' then Suc p else p)
      in if (base = 0 \<or> base = 16) \<and> char_at s p = chr CHR ''0'' \<and> char_at s (Suc p) \<in> {chr CHR ''x'', chr CHR ''X''}
         then (p + 2, 16, neg)
         else if (base = 0 \<or> base = 2) \<and> char_at s p = chr CHR ''0'' \<and> char_at s (Suc p) \<in> {chr CHR ''b'', chr CHR ''B''}
         then (p + 2, 2, neg)
         else (p, if base = 0 then (if char_at s p = chr CHR ''0'' then 8 else 10) else base, neg))"

text \<open>The value, and the index stored at \<open>endptr\<close>.\<close>

definition strtol :: "bytes \<Rightarrow> nat \<Rightarrow> int \<times> nat" where
  "strtol s base =
     (let (p, base, neg) = strtol_start s base;
          cutoff = (if neg then 2147483648 else 2147483647);
          cutlim = cutoff mod base;
          cutoff = cutoff div base;
          (acc, any, p) = strtol_loop base cutoff cutlim (drop p s) 0 0 p;
          acc = (if any < 0 then (if neg then 0x80000000 else 0x7fffffff) else if neg then - acc else acc)
      in (sint acc, if any \<noteq> 0 then Suc p else p))"

definition strtoul_digit :: "u8 \<Rightarrow> u32 option" where
  "strtoul_digit c = (case digit_value c of None \<Rightarrow> None | Some d \<Rightarrow> Some (of_nat d))"

primrec strtoul :: "bytes \<Rightarrow> u32 \<Rightarrow> u32 \<Rightarrow> nat \<Rightarrow> u32 \<times> nat" where
  "strtoul [] base result p = (result, p)"
| "strtoul (c # cs) base result p =
     (case strtoul_digit c of None \<Rightarrow> (result, p) | Some d \<Rightarrow> strtoul cs base (result * base + d) (Suc p))"

section \<open>Memory\<close>

text \<open>A machine word of four bytes at an address, written at once.\<close>

definition read_word :: "(nat \<Rightarrow> u8) \<Rightarrow> nat \<Rightarrow> u8 list" where
  "read_word m a = [m a, m (a + 1), m (a + 2), m (a + 3)]"

definition write_word :: "nat \<Rightarrow> u8 list \<Rightarrow> (nat \<Rightarrow> u8) \<Rightarrow> (nat \<Rightarrow> u8)" where
  "write_word a w m = m(a := w ! 0, a + 1 := w ! 1, a + 2 := w ! 2, a + 3 := w ! 3)"

primrec copy_bytes :: "nat \<Rightarrow> nat \<Rightarrow> nat \<Rightarrow> (nat \<Rightarrow> u8) \<Rightarrow> (nat \<Rightarrow> u8)" where
  "copy_bytes dest src 0 m = m"
| "copy_bytes dest src (Suc n) m = copy_bytes (Suc dest) (Suc src) n (m(dest := m src))"

fun copy_words :: "nat \<Rightarrow> nat \<Rightarrow> nat \<Rightarrow> (nat \<Rightarrow> u8) \<Rightarrow> (nat \<Rightarrow> u8)" where
  "copy_words dest src n m =
     (if n \<ge> 4 then copy_words (dest + 4) (src + 4) (n - 4) (write_word dest (read_word m src) m) else copy_bytes dest src n m)"

declare copy_words.simps [simp del]

definition memcpy :: "nat \<Rightarrow> nat \<Rightarrow> nat \<Rightarrow> (nat \<Rightarrow> u8) \<Rightarrow> (nat \<Rightarrow> u8)" where
  "memcpy dest src n m = (if dest mod 4 = 0 \<and> src mod 4 = 0 then copy_words dest src n m else copy_bytes dest src n m)"

text \<open>\<open>memmove\<close> copies upwards or downwards.\<close>

primrec copy_down :: "nat \<Rightarrow> nat \<Rightarrow> nat \<Rightarrow> (nat \<Rightarrow> u8) \<Rightarrow> (nat \<Rightarrow> u8)" where
  "copy_down dest src 0 m = m"
| "copy_down dest src (Suc i) m = copy_down dest src i (m(dest + i := m (src + i)))"

definition memmove :: "nat \<Rightarrow> nat \<Rightarrow> int \<Rightarrow> (nat \<Rightarrow> u8) \<Rightarrow> (nat \<Rightarrow> u8)" where
  "memmove dest src n m =
     (if n \<le> 0 \<or> dest = src then m
      else if dest < src then copy_bytes dest src (nat n) m
      else copy_down dest src (nat n) m)"

text \<open>\<open>memset\<close>: bytes up to a word boundary, then words of the repeated byte, then the rest.\<close>

primrec set_bytes :: "nat \<Rightarrow> u8 \<Rightarrow> nat \<Rightarrow> (nat \<Rightarrow> u8) \<Rightarrow> (nat \<Rightarrow> u8)" where
  "set_bytes a c 0 m = m"
| "set_bytes a c (Suc n) m = set_bytes (Suc a) c n (m(a := c))"

fun set_align :: "nat \<Rightarrow> u8 \<Rightarrow> nat \<Rightarrow> (nat \<Rightarrow> u8) \<Rightarrow> nat \<times> nat \<times> (nat \<Rightarrow> u8)" where
  "set_align a c n m = (if n \<noteq> 0 \<and> a mod 4 \<noteq> 0 then set_align (Suc a) c (n - 1) (m(a := c)) else (a, n, m))"

definition word_bytes :: "u32 \<Rightarrow> bytes" where
  "word_bytes p = [ucast p, ucast (drop_bit 8 p), ucast (drop_bit 16 p), ucast (drop_bit 24 p)]"

fun set_words :: "nat \<Rightarrow> u8 \<Rightarrow> u32 \<Rightarrow> nat \<Rightarrow> (nat \<Rightarrow> u8) \<Rightarrow> (nat \<Rightarrow> u8)" where
  "set_words a c p n m =
     (if n \<ge> 4 then set_words (a + 4) c p (n - 4) (write_word a (word_bytes p) m) else set_bytes a c n m)"

declare set_align.simps [simp del] set_words.simps [simp del]

text \<open>The word the code builds with \<open>pattern |= pattern << shift\<close> for the shifts 8 and 16.\<close>

definition memset_pattern :: "u8 \<Rightarrow> u32" where
  "memset_pattern c = (let p = ucast c; p = p OR push_bit 8 p in p OR push_bit 16 p)"

definition memset :: "nat \<Rightarrow> int \<Rightarrow> nat \<Rightarrow> (nat \<Rightarrow> u8) \<Rightarrow> (nat \<Rightarrow> u8)" where
  "memset a value n m =
     (let c = word_of_int value; (a, n, m) = set_align a c n m in set_words a c (memset_pattern c) n m)"

primrec memcmp :: "nat \<Rightarrow> nat \<Rightarrow> nat \<Rightarrow> (nat \<Rightarrow> u8) \<Rightarrow> int" where
  "memcmp a b 0 m = 0"
| "memcmp a b (Suc n) m = (if m a \<noteq> m b then uint (m a) - uint (m b) else memcmp (Suc a) (Suc b) n m)"

text \<open>Strings in memory.  A loop that runs to the NUL is \<open>None\<close> when there is none.\<close>

partial_function (option) strlen_from :: "(nat \<Rightarrow> u8) \<Rightarrow> nat \<Rightarrow> nat \<Rightarrow> nat option" where
  "strlen_from m a n = (if m (a + n) = 0 then Some n else strlen_from m a (Suc n))"

definition strlen :: "(nat \<Rightarrow> u8) \<Rightarrow> nat \<Rightarrow> nat option" where
  "strlen m a = strlen_from m a 0"

partial_function (option) strcpy :: "nat \<Rightarrow> nat \<Rightarrow> (nat \<Rightarrow> u8) \<Rightarrow> (nat \<Rightarrow> u8) option" where
  "strcpy dest src m =
     (let m' = m(dest := m src) in if m src = 0 then Some m' else strcpy (Suc dest) (Suc src) m')"

primrec strncpy :: "nat \<Rightarrow> nat \<Rightarrow> nat \<Rightarrow> (nat \<Rightarrow> u8) \<Rightarrow> (nat \<Rightarrow> u8)" where
  "strncpy dest src 0 m = m"
| "strncpy dest src (Suc n) m =
     (let m' = m(dest := m src) in if m src = 0 then m' else strncpy (Suc dest) (Suc src) n m')"

partial_function (option) strcmp :: "(nat \<Rightarrow> u8) \<Rightarrow> nat \<Rightarrow> nat \<Rightarrow> int option" where
  "strcmp m a b =
     (if m a = m b then (if m a = 0 then Some 0 else strcmp m (Suc a) (Suc b)) else Some (sint (m a) - sint (m b)))"

primrec strncmp :: "(nat \<Rightarrow> u8) \<Rightarrow> nat \<Rightarrow> nat \<Rightarrow> nat \<Rightarrow> int" where
  "strncmp m a b 0 = 0"
| "strncmp m a b (Suc n) =
     (if m a \<noteq> m b then uint (m a) - uint (m b) else if m a = 0 then 0 else strncmp m (Suc a) (Suc b) n)"

definition strcat :: "nat \<Rightarrow> nat \<Rightarrow> (nat \<Rightarrow> u8) \<Rightarrow> (nat \<Rightarrow> u8) option" where
  "strcat dest src m = (case strlen m dest of None \<Rightarrow> None | Some n \<Rightarrow> strcpy (dest + n) src m)"

definition strncat :: "nat \<Rightarrow> nat \<Rightarrow> nat \<Rightarrow> (nat \<Rightarrow> u8) \<Rightarrow> (nat \<Rightarrow> u8) option" where
  "strncat dest src n m = (case strlen m dest of None \<Rightarrow> None | Some k \<Rightarrow> Some (strncpy (dest + k) src n m))"

partial_function (option) strchr :: "(nat \<Rightarrow> u8) \<Rightarrow> nat \<Rightarrow> int \<Rightarrow> nat option option" where
  "strchr m a c = (if m a \<noteq> 0 \<and> sint (m a) \<noteq> c then strchr m (Suc a) c else Some (if sint (m a) = c then Some a else None))"

partial_function (option) strrchr_from :: "(nat \<Rightarrow> u8) \<Rightarrow> nat \<Rightarrow> int \<Rightarrow> nat option" where
  "strrchr_from m a c = Option.bind (strchr m (Suc a) c) (\<lambda>r. case r of None \<Rightarrow> Some a | Some b \<Rightarrow> strrchr_from m b c)"

definition strrchr :: "(nat \<Rightarrow> u8) \<Rightarrow> nat \<Rightarrow> int \<Rightarrow> nat option option" where
  "strrchr m a c =
     (case strchr m a c of
        None \<Rightarrow> None
      | Some None \<Rightarrow> Some None
      | Some (Some b) \<Rightarrow> map_option Some (strrchr_from m b c))"

section \<open>What the memory functions do\<close>

lemma copy_bytes_eq:
  "(\<forall>x. src \<le> x \<and> x < src + n \<longrightarrow> \<not> (dest \<le> x \<and> x < dest + n)) \<or> dest \<le> src
    \<Longrightarrow> copy_bytes dest src n m x = (if dest \<le> x \<and> x < dest + n then m (src + (x - dest)) else m x)"
proof (induction n arbitrary: dest src m)
  case (Suc n)
  have "(\<forall>x. Suc src \<le> x \<and> x < Suc src + n \<longrightarrow> \<not> (Suc dest \<le> x \<and> x < Suc dest + n)) \<or> Suc dest \<le> Suc src"
    using Suc.prems by auto
  note IH = Suc.IH [OF this, of "m(dest := m src)"]
  show ?case
  proof (cases "Suc dest \<le> x \<and> x < Suc dest + n")
    case True
    have "Suc src + (x - Suc dest) \<noteq> dest"
      using Suc.prems True by (auto dest!: spec [of _ "Suc src + (x - Suc dest)"])
    then show ?thesis using IH True by (simp add: Suc_diff_Suc fun_upd_def)
  next
    case False
    then show ?thesis using IH by (auto simp: not_less_eq_eq fun_upd_def)
  qed
qed auto

lemma copy_down_eq:
  "src \<le> dest \<Longrightarrow> copy_down dest src n m x = (if dest \<le> x \<and> x < dest + n then m (src + (x - dest)) else m x)"
  by (induction n arbitrary: m) (auto simp: le_less_Suc_eq)

lemma copy_words_eq:
  assumes "(\<forall>x. src \<le> x \<and> x < src + n \<longrightarrow> \<not> (dest \<le> x \<and> x < dest + n))"
  shows "copy_words dest src n m = copy_bytes dest src n m"
  using assms
proof (induction dest src n m rule: copy_words.induct)
  case (1 dest src n m)
  show ?case
  proof (cases "n \<ge> 4")
    case True
    have sub: "\<forall>x. src + 4 \<le> x \<and> x < src + 4 + (n - 4) \<longrightarrow> \<not> (dest + 4 \<le> x \<and> x < dest + 4 + (n - 4))" using 1(2) by auto
    have n: "n = Suc (Suc (Suc (Suc (n - 4))))" using True by simp
    have ne: "src + 1 \<noteq> dest" "src + 2 \<noteq> dest" "src + 3 \<noteq> dest" "src + 2 \<noteq> dest + 1" "src + 3 \<noteq> dest + 1" "src + 3 \<noteq> dest + 2"
      using 1(2) True by (auto dest: spec [of _ "src + 1"] spec [of _ "src + 2"] spec [of _ "src + 3"])
    have "copy_bytes dest src n m = copy_bytes (dest + 4) (src + 4) (n - 4) (write_word dest (read_word m src) m)"
      using ne by (subst n) (simp add: write_word_def read_word_def numeral_eq_Suc)
    then show ?thesis using 1(1) [OF True sub] True by (simp add: copy_words.simps [of dest])
  qed (simp add: copy_words.simps)
qed

lemma set_bytes_eq: "set_bytes a c n m x = (if a \<le> x \<and> x < a + n then c else m x)"
  by (induction n arbitrary: a m) (auto simp: not_less_eq_eq)

lemma pattern_bytes: "word_bytes (memset_pattern c) = [c, c, c, c]"
proof -
  have bits: "bit (memset_pattern c) n \<longleftrightarrow> n < 32 \<and> bit c (n mod 8)" for n
  proof (cases "n < 32")
    case True
    have c: "\<not> bit c k" if "8 \<le> k" for k using that bit_imp_le_length [of c k] by auto
    consider "n < 8" | "8 \<le> n" "n < 16" | "16 \<le> n" "n < 24" | "24 \<le> n" "n < 32" using True by linarith
    then show ?thesis
      by cases (simp_all add: memset_pattern_def Let_def bit_simps c le_mod_geq mod_if)
  next
    case False
    then show ?thesis using bit_imp_le_length [of "memset_pattern c" n] by auto
  qed
  have "ucast (drop_bit (8 * k) (memset_pattern c)) = c" if "k < 4" for k
  proof (rule bit_word_eqI)
    fix n assume "n < LENGTH(8)"
    then show "bit (ucast (drop_bit (8 * k) (memset_pattern c)) :: u8) n = bit c n" using that by (simp add: bit_simps bits)
  qed
  from this [of 0] this [of 1] this [of 2] this [of 3] show ?thesis by (simp add: word_bytes_def)
qed

lemma set_words_eq: "set_words a c (memset_pattern c) n m = set_bytes a c n m"
proof (induction a c "memset_pattern c" n m rule: set_words.induct)
  case (1 a c n m)
  show ?case
  proof (cases "n \<ge> 4")
    case True
    then have n: "n = Suc (Suc (Suc (Suc (n - 4))))" by simp
    have "set_bytes a c n m = set_bytes (a + 4) c (n - 4) (write_word a [c, c, c, c] m)"
      by (subst n) (simp add: write_word_def numeral_eq_Suc)
    then show ?thesis using 1 True by (simp add: set_words.simps [of a] pattern_bytes)
  qed (simp add: set_words.simps)
qed

lemma set_align_eq: "set_align a c n m = (b, k, m') \<Longrightarrow> set_bytes b c k m' = set_bytes a c n m"
proof (induction a c n m rule: set_align.induct)
  case (1 a c n m)
  show ?case
  proof (cases "n \<noteq> 0 \<and> a mod 4 \<noteq> 0")
    case True
    then have n: "n = Suc (n - 1)" by simp
    have "set_align (Suc a) c (n - 1) (m(a := c)) = (b, k, m')" using 1(2) True by (subst (asm) set_align.simps) simp
    from 1(1) [OF True this] show ?thesis by (subst n) (simp add: fun_upd_def)
  next
    case False
    then show ?thesis using 1(2) by (subst (asm) set_align.simps) auto
  qed
qed

text \<open>A string ends at the first NUL; without one the loop does not return.\<close>

lemma strlen_from_Some: "(\<forall>k<n. m (a + i + k) \<noteq> 0) \<Longrightarrow> m (a + i + n) = 0 \<Longrightarrow> strlen_from m a i = Some (i + n)"
proof (induction n arbitrary: i)
  case 0
  then show ?case by (simp add: strlen_from.simps)
next
  case (Suc n)
  have "m (a + i) \<noteq> 0" using Suc.prems(1) by (auto dest: spec [of _ 0])
  moreover have "\<forall>k<n. m (a + Suc i + k) \<noteq> 0" using Suc.prems(1) by (auto dest: spec [of _ "Suc _"])
  ultimately show ?case using Suc.IH [of "Suc i"] Suc.prems(2) by (simp add: strlen_from.simps [of m a i])
qed

lemma strlen_from_result: "strlen_from m a i = Some n \<Longrightarrow> i \<le> n \<and> m (a + n) = 0 \<and> (\<forall>k. i \<le> k \<and> k < n \<longrightarrow> m (a + k) \<noteq> 0)"
proof -
  assume r: "strlen_from m a i = Some n"
  show ?thesis
  proof (rule strlen_from.raw_induct [of "\<lambda>m a i n. i \<le> n \<and> m (a + n) = 0 \<and> (\<forall>k. i \<le> k \<and> k < n \<longrightarrow> m (a + k) \<noteq> 0)", OF _ r])
    fix f :: "(nat \<Rightarrow> u8) \<Rightarrow> nat \<Rightarrow> nat \<Rightarrow> nat option" and m :: "nat \<Rightarrow> u8" and a i n
    assume IH: "\<And>m a i n. f m a i = Some n \<Longrightarrow> i \<le> n \<and> m (a + n) = 0 \<and> (\<forall>k. i \<le> k \<and> k < n \<longrightarrow> m (a + k) \<noteq> 0)"
      and "(if m (a + i) = 0 then Some i else f m a (Suc i)) = Some n"
    then show "i \<le> n \<and> m (a + n) = 0 \<and> (\<forall>k. i \<le> k \<and> k < n \<longrightarrow> m (a + k) \<noteq> 0)"
      using IH [of m a "Suc i" n] by (auto split: if_splits simp: Suc_le_eq dest: le_neq_implies_less)
  qed
qed

lemma strchr_nul: "strchr m a 0 \<noteq> Some None"
proof
  assume a: "strchr m a 0 = Some None"
  have "0 = (0 :: int) \<longrightarrow> None \<noteq> (None :: nat option)"
    by (rule strchr.raw_induct [of "\<lambda>m a c r. c = 0 \<longrightarrow> r \<noteq> None", OF _ a]) (auto split: if_splits)
  then show False by simp
qed

section \<open>Properties\<close>

text \<open>\<open>memmove\<close> copies correctly whatever the overlap of source and destination: every destination byte gets the
  original source byte and nothing else changes.\<close>

theorem memmove_exact:
  "memmove dest src n m x = (if dest \<le> x \<and> x < dest + nat n then m (src + (x - dest)) else m x)"
  by (cases "dest < src") (auto simp: memmove_def copy_bytes_eq copy_down_eq)

text \<open>\<open>memset\<close> and \<open>memcpy\<close> store whole machine words, and have the effect of their byte by byte definitions: for every
  alignment and length, and for \<open>memcpy\<close> with areas that do not overlap.\<close>

theorem memset_memcpy_bytewise:
  "memset a value n m = (\<lambda>x. if a \<le> x \<and> x < a + n then word_of_int value else m x)
   \<and> (dest + n \<le> src \<or> src + n \<le> dest
        \<longrightarrow> memcpy dest src n m = (\<lambda>x. if dest \<le> x \<and> x < dest + n then m (src + (x - dest)) else m x))"
proof (intro conjI impI)
  obtain b k m' where al: "set_align a (word_of_int value) n m = (b, k, m')" by (rule prod_cases3)
  have "memset a value n m = set_bytes a (word_of_int value) n m"
    using set_align_eq [OF al] by (simp add: memset_def Let_def al set_words_eq)
  then show "memset a value n m = (\<lambda>x. if a \<le> x \<and> x < a + n then word_of_int value else m x)"
    by (simp add: fun_eq_iff set_bytes_eq)
next
  assume "dest + n \<le> src \<or> src + n \<le> dest"
  then have d: "\<forall>x. src \<le> x \<and> x < src + n \<longrightarrow> \<not> (dest \<le> x \<and> x < dest + n)" by auto
  then have "memcpy dest src n m = copy_bytes dest src n m" by (simp add: memcpy_def copy_words_eq)
  then show "memcpy dest src n m = (\<lambda>x. if dest \<le> x \<and> x < dest + n then m (src + (x - dest)) else m x)"
    using d by (simp add: fun_eq_iff copy_bytes_eq)
qed

theorem memset_memcpy_bytewise_witness:
  "memcpy 12 4 5 (\<lambda>x. of_nat x) 16 = 8 \<and> memset 2 (-1) 9 (\<lambda>_. 0) 10 = 255"
proof -
  have "memcpy 12 4 5 (\<lambda>x. of_nat x) = (\<lambda>x. if 12 \<le> x \<and> x < 12 + 5 then of_nat (4 + (x - 12)) else of_nat x)"
    using memset_memcpy_bytewise [where dest = 12 and src = 4 and n = 5 and m = "\<lambda>x. of_nat x"] by simp
  moreover have "memset 2 (-1) 9 (\<lambda>_. 0) = (\<lambda>x. if 2 \<le> x \<and> x < 2 + 9 then word_of_int (-1) else 0)"
    using memset_memcpy_bytewise [where a = 2 and n = 9 and m = "\<lambda>_. 0"] by blast
  ultimately show ?thesis by simp
qed

text \<open>\<open>strlen\<close> returns exactly for strings that end, and then the number of bytes before the NUL.\<close>

theorem strlen_returns:
  "strlen m a = Some n \<longleftrightarrow> m (a + n) = 0 \<and> (\<forall>k<n. m (a + k) \<noteq> 0)"
  using strlen_from_result [of m a 0 n] strlen_from_Some [of n m a 0] by (auto simp: strlen_def)

theorem strlen_returns_witness: "strlen (\<lambda>x. if x = 5 then 0 else 1) 2 = Some 3"
  using strlen_returns [of "\<lambda>x. if x = 5 then 0 else 1" 2 3] by simp

text \<open>\<open>strrchr\<close> never returns when it is asked for the terminating NUL: it goes on searching behind it.\<close>

theorem strrchr_nul_diverges:
  "strrchr m a 0 = None"
proof -
  have "strrchr_from m b 0 \<noteq> Some r" for b r
  proof
    assume f: "strrchr_from m b 0 = Some r"
    have "(0 :: int) \<noteq> 0"
    proof (rule strrchr_from.raw_induct [of "\<lambda>m a c r. c \<noteq> 0", OF _ f])
      fix g :: "(nat \<Rightarrow> u8) \<Rightarrow> nat \<Rightarrow> int \<Rightarrow> nat option" and m :: "nat \<Rightarrow> u8" and a c r
      assume IH: "\<And>m a c r. g m a c = Some r \<Longrightarrow> c \<noteq> 0"
        and e: "Option.bind (strchr m (Suc a) c) (\<lambda>r. case r of None \<Rightarrow> Some a | Some b \<Rightarrow> g m b c) = Some r"
      then obtain x where x: "strchr m (Suc a) c = Some x" by (cases "strchr m (Suc a) c") auto
      show "c \<noteq> 0"
      proof (cases x)
        case None
        then show ?thesis using strchr_nul [of m "Suc a"] x by auto
      next
        case (Some b)
        then have "g m b c = Some r" using e x by simp
        then show ?thesis by (rule IH)
      qed
    qed
    then show False by simp
  qed
  then have f: "strrchr_from m b 0 = None" for b by (cases "strrchr_from m b 0") auto
  show ?thesis using strchr_nul [of m a] by (auto simp: strrchr_def f split: option.split)
qed

text \<open>\<open>strncat\<close> leaves the destination without a terminating NUL when the source is not shorter than the limit: the byte
  behind the copied ones keeps its old value.\<close>

theorem strncat_unterminated:
  assumes "strlen m dest = Some k" "\<forall>i<n. m (src + i) \<noteq> 0" "dest + k + n \<le> src"
  shows "\<exists>m'. strncat dest src n m = Some m' \<and> m' (dest + k + n) = m (dest + k + n) \<and> (\<forall>i<n. m' (dest + k + i) = m (src + i))"
proof -
  have c: "strncpy d s n m = copy_bytes d s n m" if "\<forall>i<n. m (s + i) \<noteq> 0" "d + n \<le> s" for d s n m
    using that
  proof (induction n arbitrary: d s m)
    case (Suc n)
    have "m s \<noteq> 0" using Suc.prems(1) by (auto dest: spec [of _ 0])
    moreover have "\<forall>i<n. (m(d := m s)) (Suc s + i) \<noteq> 0" using Suc.prems by (auto dest: spec [of _ "Suc _"])
    ultimately show ?case using Suc.IH [of "m(d := m s)" "Suc s" "Suc d"] Suc.prems(2) by (simp add: fun_upd_def)
  qed simp
  have "strncpy (dest + k) src n m = copy_bytes (dest + k) src n m" using c [of n m src "dest + k"] assms(2,3) by simp
  then have "strncat dest src n m = Some (copy_bytes (dest + k) src n m)" by (simp add: strncat_def assms(1))
  then show ?thesis using assms(3) by (simp add: copy_bytes_eq)
qed

end
