(* ===== verification/FormatProps.thy ===== *)
theory FormatProps
  imports CString
begin

text \<open>
  What formatted output promises: the text it stands for as a function on lists, that \<open>vsnprintf\<close> stores the part of this
  text that fits and returns its length, that it writes nowhere else, and that numbers printed with \<open>%d\<close> are read back
  by \<open>strtol\<close>.
\<close>

section \<open>The text of a format\<close>

definition item_text :: "bool \<Rightarrow> nat \<Rightarrow> conversion \<Rightarrow> bytes" where
  "item_text left width v =
     (let body = replicate (v_zeros v) (chr CHR ''0'') @ v_text v; gap = width - (length (v_prefix v) + length body) in
      if left then v_prefix v @ body @ replicate gap (chr CHR '' '')
      else if v_zero v then v_prefix v @ replicate gap (chr CHR ''0'') @ body
      else replicate gap (chr CHR '' '') @ v_prefix v @ body)"

text \<open>The text, and whether the format was read to its end.\<close>

function format_text :: "(u32 \<Rightarrow> bytes) \<Rightarrow> va_list \<Rightarrow> bytes \<Rightarrow> nat \<Rightarrow> bytes \<times> bool" where
  "format_text str va f i =
     (let literal = takeWhile (\<lambda>c. c \<noteq> chr CHR ''%'') f in
      case dropWhile (\<lambda>c. c \<noteq> chr CHR ''%'') f of
        [] \<Rightarrow> (literal, True)
      | _ # f \<Rightarrow>
          (case parse_directive str va f i of
             None \<Rightarrow> (literal, False)
           | Some (f, i, left, width, v) \<Rightarrow>
               (let (t, ok) = format_text str va f i in (literal @ item_text left width v @ t, ok))))"
  by pat_completeness auto

termination
  by (relation "measure (\<lambda>(str, va, f, i). length f)") (auto dest: directive_shorter)

declare format_text.simps [simp del]

abbreviation literal :: "bytes \<Rightarrow> bytes" where "literal \<equiv> takeWhile (\<lambda>c. c \<noteq> chr CHR ''%'')"
abbreviation directives :: "bytes \<Rightarrow> bytes" where "directives \<equiv> dropWhile (\<lambda>c. c \<noteq> chr CHR ''%'')"

text \<open>The three ways a round of the loop and of the text can go.\<close>

lemma format_text_rounds:
  "directives f = [] \<Longrightarrow> format_text str va f i = (literal f, True)"
  "directives f = c # g \<Longrightarrow> parse_directive str va g i = None \<Longrightarrow> format_text str va f i = (literal f, False)"
  "directives f = c # g \<Longrightarrow> parse_directive str va g i = Some (h, j, left, width, v) \<Longrightarrow> format_text str va h j = (u, ok)
     \<Longrightarrow> format_text str va f i = (literal f @ item_text left width v @ u, ok)"
  by (subst format_text.simps, simp only: Let_def list.case option.case prod.case)+

lemma format_loop_rounds:
  "directives f = [] \<Longrightarrow> format_loop str va f i out = (if f = [] then out else format_append (literal f) out, True)"
  "directives f = c # g \<Longrightarrow> parse_directive str va g i = None
     \<Longrightarrow> format_loop str va f i out = (if f = [] then out else format_append (literal f) out, False)"
  "directives f = c # g \<Longrightarrow> parse_directive str va g i = Some (h, j, left, width, v)
     \<Longrightarrow> format_loop str va f i out = format_loop str va h j (emit left width v (if f = [] then out else format_append (literal f) out))"
  by (subst format_loop.simps, simp only: Let_def list.case option.case prod.case)+

section \<open>Appending\<close>

text \<open>Appending a text: the part below the capacity is stored.\<close>

definition appended :: "bytes \<Rightarrow> format_output \<Rightarrow> format_output" where
  "appended t out = out\<lparr>fo_buffer := bytes_at (fo_length out) (take (fo_capacity out - fo_length out) t) (fo_buffer out),
                       fo_length := (fo_length out + length t) mod SIZE_LIMIT\<rparr>"

lemma bytes_at_Nil [simp]: "bytes_at a [] m = m"
  by (auto simp: bytes_at_def fun_eq_iff)

lemma format_append_eq: "format_append t out = appended t out"
  by (auto simp: format_append_def appended_def Let_def)

lemma format_padding_eq: "format_padding c n out = appended (replicate n c) out"
  by (auto simp: format_padding_def appended_def Let_def take_replicate min_def)

lemma bytes_at_append: "bytes_at (a + length t) u (bytes_at a t m) = bytes_at a (t @ u) m"
  by (auto simp: bytes_at_def nth_append fun_eq_iff)

lemma appended_append:
  assumes "fo_length out + length t < SIZE_LIMIT"
  shows "appended u (appended t out) = appended (t @ u) out"
proof -
  let ?n = "fo_length out" and ?c = "fo_capacity out"
  have "bytes_at (?n + length t) (take (?c - (?n + length t)) u) (bytes_at ?n (take (?c - ?n) t) m) = bytes_at ?n (take (?c - ?n) (t @ u)) m" for m
  proof (cases "length t \<le> ?c - ?n")
    case True
    then show ?thesis using bytes_at_append [of ?n t "take (?c - (?n + length t)) u" m] by simp
  qed simp
  then show ?thesis using assms by (simp add: appended_def add.assoc mod_add_left_eq)
qed

lemma appended_fields [simp]:
  "fo_capacity (appended t out) = fo_capacity out" "fo_length (appended t out) = (fo_length out + length t) mod SIZE_LIMIT"
  by (simp_all add: appended_def)

lemma appended_Nil [simp]: "fo_length out < SIZE_LIMIT \<Longrightarrow> appended [] out = out"
  by (simp add: appended_def)

lemma item_text_length: "length (item_text left width v) = max width (length (v_prefix v) + v_zeros v + length (v_text v))"
  by (auto simp: item_text_def Let_def)

lemma emit_appended:
  assumes "fo_length out + length (item_text left width v) < SIZE_LIMIT"
  shows "emit left width v out = appended (item_text left width v) out"
proof -
  have body: "length (v_prefix v) + v_zeros v + length (v_text v) < SIZE_LIMIT" using assms by (simp add: item_text_length)
  then have b: "(length (v_prefix v) + v_zeros v + length (v_text v)) mod SIZE_LIMIT = length (v_prefix v) + v_zeros v + length (v_text v)"
    by simp
  have g: "(if width > b then width - b else 0) = width - b" for b :: nat by simp
  show ?thesis using assms unfolding item_text_length
    by (auto simp: emit_def Let_def b g format_append_eq format_padding_eq appended_append item_text_def add.assoc)
qed

lemma format_loop_appended:
  assumes "format_text str va f i = (t, ok)" "fo_length out + length t < SIZE_LIMIT"
  shows "format_loop str va f i out = (appended t out, ok)"
  using assms
proof (induction str va f i arbitrary: out t ok rule: format_text.induct)
  case (1 str va f i)
  let ?l = "takeWhile (\<lambda>c. c \<noteq> chr CHR ''%'') f"
  have len: "fo_length out < SIZE_LIMIT" using "1.prems"(2) by simp
  have first: "(if f = [] then out else format_append ?l out) = appended ?l out" using len by (simp add: format_append_eq)
  show ?case
  proof (cases "dropWhile (\<lambda>c. c \<noteq> chr CHR ''%'') f")
    case Nil
    then show ?thesis using "1.prems"(1) format_text_rounds(1) [OF Nil, of str va i] format_loop_rounds(1) [OF Nil, of str va i out] first
      by simp
  next
    case (Cons c g)
    show ?thesis
    proof (cases "parse_directive str va g i")
      case None
      then show ?thesis
        using "1.prems"(1) format_text_rounds(2) [OF Cons None] format_loop_rounds(2) [OF Cons None, of out] first by simp
    next
      case (Some x)
      obtain h j left width v where x: "x = (h, j, left, width, v)" by (cases x)
      obtain u b where u: "format_text str va h j = (u, b)" by fastforce
      have t: "t = ?l @ item_text left width v @ u" "ok = b"
        using "1.prems"(1) format_text_rounds(3) [OF Cons Some [unfolded x] u] by simp_all
      let ?o = "appended (?l @ item_text left width v) out"
      have e: "emit left width v (appended ?l out) = ?o"
        using "1.prems"(2) t by (simp add: emit_appended appended_append)
      have "format_loop str va h j ?o = (appended u ?o, b)"
        using "1.IH" [OF refl Cons Some x [symmetric] refl refl refl u, of ?o] "1.prems"(2) t by simp
      moreover have "appended u ?o = appended t out" using "1.prems"(2) t by (simp add: appended_append)
      ultimately show ?thesis using format_loop_rounds(3) [OF Cons Some [unfolded x], of out] t e first by simp
    qed
  qed
qed

text \<open>Whatever the lengths do, nothing at or above the capacity is written.\<close>

lemma appended_bounds: "fo_capacity out \<le> x \<Longrightarrow> fo_buffer (appended t out) x = fo_buffer out x"
  by (auto simp: appended_def bytes_at_def)

lemma emit_bounds:
  "fo_capacity (emit left width v out) = fo_capacity out \<and> (fo_capacity out \<le> x \<longrightarrow> fo_buffer (emit left width v out) x = fo_buffer out x)"
  by (auto simp: emit_def Let_def format_append_eq format_padding_eq appended_bounds)

lemma format_loop_bounds:
  "fo_capacity (fst (format_loop str va f i out)) = fo_capacity out
    \<and> (fo_capacity out \<le> x \<longrightarrow> fo_buffer (fst (format_loop str va f i out)) x = fo_buffer out x)"
proof (induction str va f i out rule: format_loop.induct)
  case (1 str va f i out)
  let ?o = "if f = [] then out else format_append (takeWhile (\<lambda>c. c \<noteq> chr CHR ''%'') f) out"
  have o: "fo_capacity ?o = fo_capacity out" "fo_capacity out \<le> x \<longrightarrow> fo_buffer ?o x = fo_buffer out x"
    by (simp_all add: format_append_eq appended_bounds)
  show ?case
  proof (cases "dropWhile (\<lambda>c. c \<noteq> chr CHR ''%'') f")
    case Nil
    then show ?thesis using o format_loop_rounds(1) [OF Nil, of str va i out] by simp
  next
    case (Cons c g)
    show ?thesis
    proof (cases "parse_directive str va g i")
      case None
      then show ?thesis using o format_loop_rounds(2) [OF Cons None, of out] by simp
    next
      case (Some y)
      obtain h j left width v where y: "y = (h, j, left, width, v)" by (cases y)
      have e: "format_loop str va f i out = format_loop str va h j (emit left width v ?o)"
        by (rule format_loop_rounds(3) [OF Cons Some [unfolded y]])
      show ?thesis using "1.IH" [OF refl Cons Some y [symmetric] refl refl refl] o emit_bounds [of left width v ?o x] unfolding e by simp
    qed
  qed
qed

section \<open>Digits\<close>

lemma chr_simps [simp]:
  "chr CHR ''0'' = 48" "chr CHR ''9'' = 57" "chr CHR ''-'' = 45" "chr CHR ''+'' = 43" "chr CHR '' '' = 32" "chr CHR ''#'' = 35"
  "chr CHR ''*'' = 42" "chr CHR ''.'' = 46" "chr CHR ''l'' = 108" "chr CHR ''h'' = 104" "chr CHR ''z'' = 122" "chr CHR ''t'' = 116"
  "chr CHR ''%'' = 37" "chr CHR ''d'' = 100" "chr CHR ''i'' = 105" "chr CHR ''u'' = 117" "chr CHR ''x'' = 120" "chr CHR ''X'' = 88"
  "chr CHR ''o'' = 111" "chr CHR ''b'' = 98" "chr CHR ''p'' = 112" "chr CHR ''s'' = 115" "chr CHR ''c'' = 99" "chr CHR ''a'' = 97"
  "chr CHR ''A'' = 65" "chr CHR ''B'' = 66" "chr CHR ''4'' = 52" "chr CHR ''5'' = 53" "chr CHR ''|'' = 124"
  by (simp_all add: chr_def)

lemma digit_value_of: "d < 36 \<Longrightarrow> digit_value (digit_of upper d) = Some d"
proof -
  have "\<forall>d\<in>set [0..<36]. \<forall>u\<in>set [True, False]. digit_value (digit_of u d) = Some d"
    by code_simp
  then show "d < 36 \<Longrightarrow> digit_value (digit_of upper d) = Some d" by (cases upper) auto
qed

definition digits_value :: "nat \<Rightarrow> nat \<Rightarrow> bytes \<Rightarrow> nat" where
  "digits_value base v t = foldl (\<lambda>a c. a * base + the (digit_value c)) v t"

definition valid_digit :: "nat \<Rightarrow> u8 \<Rightarrow> bool" where
  "valid_digit base c \<longleftrightarrow> (case digit_value c of None \<Rightarrow> False | Some d \<Rightarrow> d < base)"

lemma digit_loop_value:
  "2 \<le> base \<Longrightarrow> base \<le> 36 \<Longrightarrow> digits_value base 0 (digit_loop upper base v t) = digits_value base v t"
proof (induction upper base v t rule: digit_loop.induct)
  case (1 upper base v t)
  have d: "v mod base < 36" using "1.prems" mod_less_divisor [of base v] by linarith
  show ?case
  proof (cases "v < base")
    case True
    then show ?thesis using "1.prems" d by (subst digit_loop.simps) (simp add: digits_value_def digit_value_of)
  next
    case False
    have "digits_value base 0 (digit_loop upper base v t) = digits_value base (v div base) (digit_of upper (v mod base) # t)"
      using "1.IH" "1.prems" False by (subst digit_loop.simps) simp
    also have "\<dots> = digits_value base (v div base * base + v mod base) t"
      using d by (simp add: digits_value_def digit_value_of)
    finally show ?thesis by simp
  qed
qed

lemma digit_loop_small: "v < base \<Longrightarrow> digit_loop upper base v t = digit_of upper v # t"
  by (simp add: digit_loop.simps)

lemma digit_loop_valid:
  "2 \<le> base \<Longrightarrow> base \<le> 36 \<Longrightarrow> \<forall>c\<in>set t. valid_digit base c \<Longrightarrow> \<forall>c\<in>set (digit_loop upper base v t). valid_digit base c"
proof (induction upper base v t rule: digit_loop.induct)
  case (1 upper base v t)
  have d: "v mod base < base" "v mod base < 36" using "1.prems" mod_less_divisor [of base v] by linarith+
  have c: "valid_digit base (digit_of upper (v mod base))" using digit_value_of d by (simp add: valid_digit_def)
  show ?case using "1.IH" "1.prems" c by (subst digit_loop.simps) (auto split: if_splits)
qed

lemma digit_loop_length:
  "2 \<le> base \<Longrightarrow> v < base ^ Suc k \<Longrightarrow> length (digit_loop upper base v t) \<le> Suc k + length t \<and> digit_loop upper base v t \<noteq> []"
proof (induction k arbitrary: v t)
  case 0
  then show ?case by (subst (1 2) digit_loop.simps) simp
next
  case (Suc k)
  have v: "v div base < base ^ Suc k" using Suc.prems by (intro less_mult_imp_div_less) (simp add: mult.commute)
  show ?case using Suc.IH [OF Suc.prems(1) v, of "digit_of upper (v mod base) # t"] Suc.prems(1)
    by (subst (1 2) digit_loop.simps) auto
qed

section \<open>Reading numbers\<close>

lemma cutoff_iff:
  fixes a d base L :: nat
  assumes "d < base"
  shows "(a > L div base \<or> a = L div base \<and> d > L mod base) \<longleftrightarrow> a * base + d > L"
proof -
  have L: "L = L div base * base + L mod base" "L mod base < base" "L div base * base \<le> L" using assms by simp_all
  show ?thesis
  proof (cases "a \<le> L div base")
    case True
    show ?thesis
    proof (cases "a = L div base")
      case False
      then have "Suc a * base \<le> L div base * base" using True by (intro mult_le_mono1) simp
      then have "a * base + d < L" using assms L(3) unfolding mult_Suc by linarith
      then show ?thesis using True False by simp
    next
      case True
      then have "L = a * base + L mod base" using L(1) by simp
      then have "L < a * base + d \<longleftrightarrow> L mod base < d" by linarith
      then show ?thesis using True by simp
    qed
  next
    case False
    then have "Suc (L div base) * base \<le> a * base" by (intro mult_le_mono1) simp
    then have "a * base > L" using L(1,2) unfolding mult_Suc by linarith
    then show ?thesis using False by simp
  qed
qed

lemma digits_value_mono: "v \<le> digits_value base v t" if "1 \<le> base"
proof (induction t arbitrary: v)
  case (Cons c t)
  have "v \<le> v * base + the (digit_value c)" using that by (simp add: trans_le_add1)
  then show ?case using Cons [of "v * base + the (digit_value c)"] by (simp add: digits_value_def)
qed (simp add: digits_value_def)

lemma strtol_loop_overflow:
  "\<exists>a. strtol_loop base cutoff cutlim cs acc (-1) p = (a, -1, p + length (takeWhile (valid_digit base) cs))"
proof (induction cs arbitrary: acc p)
  case (Cons c cs)
  obtain a where "strtol_loop base cutoff cutlim cs acc (-1) (Suc p) = (a, -1, Suc p + length (takeWhile (valid_digit base) cs))"
    using Cons.IH by blast
  moreover have "valid_digit base c \<longleftrightarrow> (\<exists>d. digit_value c = Some d \<and> d < base)" by (simp add: valid_digit_def split: option.split)
  ultimately show ?case by (cases "digit_value c") auto
qed simp

lemma strtol_loop_exact:
  assumes "1 \<le> base" "L < 2 ^ 32" "unat acc \<le> L" "any = 0 \<or> any = 1"
  defines "\<And>cs. V cs \<equiv> digits_value base (unat acc) (takeWhile (valid_digit base) cs)"
  shows "\<exists>a. strtol_loop base (L div base) (L mod base) cs acc any p =
      (a, if V cs > L then -1 else if takeWhile (valid_digit base) cs = [] then any else 1, p + length (takeWhile (valid_digit base) cs))
    \<and> (V cs \<le> L \<longrightarrow> unat a = V cs)"
  using assms(3,4) unfolding V_def
proof (induction cs arbitrary: acc any p)
  case Nil
  then show ?case by (simp add: digits_value_def)
next
  case (Cons c cs)
  show ?case
  proof (cases "valid_digit base c")
    case False
    then show ?thesis using Cons.prems by (auto simp: valid_digit_def digits_value_def split: option.splits)
  next
    case True
    then obtain d where d: "digit_value c = Some d" "d < base" by (auto simp: valid_digit_def split: option.splits)
    let ?v = "unat acc * base + d"
    have V: "digits_value base (unat acc) (takeWhile (valid_digit base) (c # cs)) = digits_value base ?v (takeWhile (valid_digit base) cs)"
      using True d by (simp add: digits_value_def)
    have test: "(any < 0 \<or> unat acc > L div base \<or> (unat acc = L div base \<and> d > L mod base)) = (?v > L)"
    proof -
      have "\<not> any < 0" using Cons.prems(2) by auto
      then show ?thesis using cutoff_iff [OF d(2), of L "unat acc"] by blast
    qed
    have loop: "strtol_loop base (L div base) (L mod base) (c # cs) acc any p =
      (if ?v > L then strtol_loop base (L div base) (L mod base) cs acc (-1) (Suc p)
       else strtol_loop base (L div base) (L mod base) cs (acc * of_nat base + of_nat d) 1 (Suc p))"
      using d(2) unfolding strtol_loop.simps d(1) option.case test [symmetric] by simp
    note valid = True
    have tw: "takeWhile (valid_digit base) (c # cs) = c # takeWhile (valid_digit base) cs" using True by simp
    show ?thesis
    proof (cases "?v > L")
      case over: True
      then have "digits_value base (unat acc) (takeWhile (valid_digit base) (c # cs)) > L"
        unfolding V using digits_value_mono [OF assms(1), of ?v] by (meson order_less_le_trans)
      moreover obtain a where "strtol_loop base (L div base) (L mod base) cs acc (-1) (Suc p)
          = (a, -1, Suc p + length (takeWhile (valid_digit base) cs))" using strtol_loop_overflow by blast
      ultimately show ?thesis unfolding loop tw using over by simp
    next
      case False
      have "unat (acc * of_nat base + of_nat d :: u32) = ?v"
      proof -
        have "acc * of_nat base + of_nat d = (of_nat ?v :: u32)" by simp
        then show ?thesis using False assms(2) by (simp only: unat_of_nat) (simp add: take_bit_nat_eq_self)
      qed
      then show ?thesis
        using Cons.IH [of "acc * of_nat base + of_nat d" 1 "Suc p"] False unfolding loop V by (cases "L < digits_value base ?v (takeWhile (valid_digit base) cs)") (simp_all add: valid)
    qed
  qed
qed

section \<open>Properties\<close>

text \<open>The number a string denotes, clamped to the range of \<open>long\<close>.\<close>

definition strtol_value :: "bytes \<Rightarrow> nat \<Rightarrow> int" where
  "strtol_value s base =
     (let (p, base, neg) = strtol_start s base; v = int (digits_value base 0 (takeWhile (valid_digit base) (drop p s)))
      in if neg then max (- (2 ^ 31)) (- v) else min (2 ^ 31 - 1) v)"

lemma strtol_start_base: "2 \<le> base \<or> base = 0 \<Longrightarrow> strtol_start s base = (p, b, neg) \<Longrightarrow> 2 \<le> b"
  by (auto simp: strtol_start_def Let_def split: if_splits)

lemma strtol_cases:
  assumes "2 \<le> base \<or> base = 0" "strtol_start s base = (p, b, neg)"
  defines "ds \<equiv> takeWhile (valid_digit b) (drop p s)"
  shows "strtol s base = (strtol_value s base, if ds = [] then p else Suc (p + length ds))"
proof -
  define L :: nat where "L = (if neg then 2147483648 else 2147483647)"
  have b: "1 \<le> b" using strtol_start_base [OF assms(1,2)] by simp
  let ?v = "digits_value b 0 ds"
  have L: "L < 2 ^ 32" "unat (0 :: u32) \<le> L" by (simp_all add: L_def)
  obtain a where a: "strtol_loop b (L div b) (L mod b) (drop p s) 0 0 p = (a, if ?v > L then -1 else if ds = [] then 0 else 1, p + length ds)"
    "?v \<le> L \<longrightarrow> unat a = ?v"
    using strtol_loop_exact [OF b L, of 0 "drop p s" p] unfolding ds_def by auto
  have nil: "ds = [] \<Longrightarrow> ?v = 0" by (simp add: digits_value_def)
  have v: "strtol_value s base = (if neg then max (- (2 ^ 31)) (- int ?v) else min (2 ^ 31 - 1) (int ?v))"
    by (simp add: strtol_value_def assms(2) ds_def)
  have st: "strtol s base = (sint (if (if ?v > L then -1 else if ds = [] then 0 else 1 :: int) < 0
       then (if neg then 0x80000000 else 0x7fffffff :: u32) else if neg then - a else a),
       if (if ?v > L then -1 else if ds = [] then 0 else 1 :: int) \<noteq> 0 then Suc (p + length ds) else p + length ds)"
    unfolding strtol_def assms(2) Let_def prod.case L_def [symmetric] a(1) ..
  have m: "sint (0x80000000 :: u32) = - (2 ^ 31)" "sint (0x7fffffff :: u32) = 2 ^ 31 - 1" by simp_all
  show ?thesis
  proof (cases "?v > L")
    case True
    then have "ds \<noteq> []" using nil by auto
    then show ?thesis using True unfolding st v m L_def by (auto simp: m)
  next
    case False
    have "a = of_nat (unat a)" by simp
    then have aw: "a = of_nat ?v" using a(2) False by simp
    have le: "?v \<le> 2147483648" "\<not> neg \<Longrightarrow> ?v \<le> 2147483647" using False by (auto simp: L_def split: if_splits)
    have "sint (if neg then - a else a) = (if neg then - int ?v else int ?v)"
    proof (cases neg)
      case True
      have "- a = word_of_int (- int ?v)" unfolding aw by simp
      then have "sint (- a) = signed_take_bit 31 (- int ?v)" using sint_sbintrunc' [where 'a = 32, of "- int ?v"] by (simp only:) simp
      also have "\<dots> = - int ?v" using le(1) by (intro signed_take_bit_int_eq_self) simp_all
      finally show ?thesis using True by simp
    next
      case False
      have "a = word_of_int (int ?v)" unfolding aw by simp
      then have "sint a = signed_take_bit 31 (int ?v)" using sint_sbintrunc' [where 'a = 32, of "int ?v"] by (simp only:) simp
      also have "\<dots> = int ?v" using le(2) [OF False] by (intro signed_take_bit_int_eq_self) simp_all
      finally show ?thesis using False by simp
    qed
    then show ?thesis using False le nil unfolding st v by auto
  qed
qed

text \<open>C37: \<open>strtol\<close> converts exactly: for base 0 and every base from 2 to 36 its value is that of the longest run of valid digits
  after blanks, sign and base prefix, and the nearest \<open>long\<close> when that does not fit.\<close>

theorem strtol_exact:
  assumes "base = 0 \<or> 2 \<le> base"
  shows "fst (strtol s base) = strtol_value s base"
proof -
  obtain p b neg where "strtol_start s base = (p, b, neg)" by (rule prod_cases3)
  then show ?thesis using strtol_cases assms by auto
qed

theorem strtol_exact_witness: "fst (strtol (map chr '' -0x80000001 '') 0) = - 2147483648"
  using strtol_exact [of 0 "map chr '' -0x80000001 ''"]
  by (simp add: strtol_value_def strtol_start_def char_at_def isspace_def digits_value_def valid_digit_def digit_value_def isdigit_def
      isalpha_def isupper_def chr_def)

text \<open>The \<open>endptr\<close> of \<open>strtol\<close> is wrong: when there are digits it points one past the first character that was not
  converted, for a number that ends the string beyond its NUL.\<close>

theorem strtol_endptr_late:
  assumes "base = 0 \<or> 2 \<le> base" "strtol_start s base = (p, b, neg)" "takeWhile (valid_digit b) (drop p s) \<noteq> []"
  shows "snd (strtol s base) = Suc (p + length (takeWhile (valid_digit b) (drop p s)))"
  using strtol_cases assms by auto

theorem strtol_endptr_late_witness: "snd (strtol (map chr ''12'') 10) = 3"
proof -
  have "strtol_start (map chr ''12'') 10 = (0, 10, False)" "takeWhile (valid_digit 10) (drop 0 (map chr ''12'')) = map chr ''12''"
    by code_simp+
  from strtol_endptr_late [OF _ this(1)] this(2) show ?thesis by simp
qed

lemma vsnprintf_text:
  assumes "format_text str va f 0 = (t, ok)" "length t < SIZE_LIMIT"
  shows "vsnprintf str buffer capacity f va =
     (\<lambda>x. if x < min (length t) (capacity - 1) then t ! x
          else if ok \<and> 0 < capacity \<and> x = min (length t) (capacity - 1) then 0 else buffer x,
      if ok \<and> length t \<le> INT_MAX then int (length t) else -1)"
proof -
  let ?o = "\<lparr>fo_buffer = buffer, fo_capacity = (if capacity > 0 then capacity - 1 else 0), fo_length = 0\<rparr>"
  have l: "format_loop str va f 0 ?o = (appended t ?o, ok)" by (rule format_loop_appended [OF assms(1)]) (use assms(2) in simp)
  have len: "fo_length (appended t ?o) = length t" using assms(2) by simp
  show ?thesis unfolding vsnprintf_def l prod.case len
    by (cases ok; cases "capacity = 0") (auto simp: appended_def bytes_at_def fun_eq_iff min_def)
qed

text \<open>C26: \<open>vsnprintf\<close> stores exactly the text its format stands for.  With \<open>t\<close> the text of the format up to its end, or
  up to the first directive that cannot be parsed, the bytes of \<open>t\<close> below \<open>capacity - 1\<close> are stored.  When every directive is
  parsed a NUL follows them (unless the capacity is 0) and the length of the whole \<open>t\<close> is returned, \<open>-1\<close> when it exceeds
  \<open>INT_MAX\<close>; otherwise \<open>-1\<close> is returned and no NUL is stored.  Every other byte of memory is left alone.  This is for texts
  shorter than \<open>2 ^ 32\<close>, the range of the \<open>size_t\<close> counter of the target: a longer text makes the counter wrap, as
  \<open>vsnprintf_length_wraps\<close> shows.\<close>

theorem vsnprintf_stores_text:
  assumes "format_text str va f 0 = (t, ok)" "length t < SIZE_LIMIT"
  shows "vsnprintf str buffer capacity f va =
     (\<lambda>x. if x < min (length t) (capacity - 1) then t ! x
          else if ok \<and> 0 < capacity \<and> x = min (length t) (capacity - 1) then 0 else buffer x,
      if ok \<and> length t \<le> INT_MAX then int (length t) else -1)"
  using assms by (rule vsnprintf_text)

theorem vsnprintf_stores_text_witness:
  "map (fst (vsnprintf (\<lambda>_. map chr ''abc'') (\<lambda>_. 255) 5 (map chr ''%4d|%s'') (\<lambda>i. [5, 1] ! i))) [0..<6] = map chr ''   5'' @ [0, 255]
   \<and> snd (vsnprintf (\<lambda>_. map chr ''abc'') (\<lambda>_. 255) 5 (map chr ''%4d|%s'') (\<lambda>i. [5, 1] ! i)) = 8"
proof -
  let ?str = "\<lambda>_ :: u32. map chr ''abc''" and ?va = "\<lambda>i. [5, 1 :: u32] ! i"
  note defs = parse_directive_def parse_width_def parse_precision_def parse_length_def is_digit_def convert_def signed_argument_def
    integer_pieces_def digit_loop_small digit_of_def string_argument_def Let_def
  have 1: "parse_directive ?str ?va (map chr ''4d|%s'') 0 =
      Some (map chr ''|%s'', 1, False, 4, \<lparr>v_prefix = [], v_zeros = 0, v_text = [53], v_zero = False\<rparr>)" by (simp add: defs)
  have 2: "parse_directive ?str ?va (map chr ''s'') 1 =
      Some ([], 2, False, 0, \<lparr>v_prefix = [], v_zeros = 0, v_text = map chr ''abc'', v_zero = False\<rparr>)" by (simp add: defs)
  have "format_text ?str ?va [] 2 = ([], True)" by (simp add: format_text_rounds)
  from format_text_rounds(3) [OF _ 2 this, of "map chr ''|%s''"]
  have "format_text ?str ?va (map chr ''|%s'') 1 = (map chr ''|abc'', True)" by (simp add: chr_def item_text_def)
  from format_text_rounds(3) [OF _ 1 this, of "map chr ''%4d|%s''"]
  have t: "format_text ?str ?va (map chr ''%4d|%s'') 0 = (map chr ''   5|abc'', True)"
    by (simp add: chr_def item_text_def numeral_eq_Suc)
  have "[0..<6] = [0, 1, 2, 3, 4, 5]" by (simp add: upt_rec)
  then show ?thesis using vsnprintf_stores_text [OF t, of "\<lambda>_. 255" 5] by simp
qed

text \<open>C25: formatted output stays in bounds.  For every format and all arguments, also where a width or precision is refused
  or the length counter wraps around, \<open>vsnprintf\<close> changes no byte at or above the capacity; the prefix and the digits of
  every conversion fit their arrays of 3 and 65 bytes; and unless it refuses the format the buffer holds a NUL.\<close>

theorem vsnprintf_in_bounds:
  "(\<forall>x\<ge>capacity. fst (vsnprintf str buffer capacity f va) x = buffer x)
   \<and> (0 < capacity \<and> snd (format_loop str va f 0 \<lparr>fo_buffer = buffer, fo_capacity = capacity - 1, fo_length = 0\<rparr>)
        \<longrightarrow> (\<exists>x<capacity. fst (vsnprintf str buffer capacity f va) x = 0))
   \<and> (\<forall>conv d precision negative v. v < 2 ^ 64
        \<longrightarrow> length (v_prefix (integer_pieces conv d precision negative v)) \<le> 3
          \<and> length (v_text (integer_pieces conv d precision negative v)) \<le> 65)"
proof (intro conjI allI impI)
  fix x assume x: "capacity \<le> x"
  let ?o = "\<lparr>fo_buffer = buffer, fo_capacity = (if capacity > 0 then capacity - 1 else 0), fo_length = 0\<rparr>"
  obtain u ok where u: "format_loop str va f 0 ?o = (u, ok)" by fastforce
  have "fo_buffer u x = buffer x" using format_loop_bounds [of str va f 0 ?o x] u x by (simp split: if_splits)
  then show "fst (vsnprintf str buffer capacity f va) x = buffer x" using x u by (cases ok) (auto simp: vsnprintf_def)
next
  assume "0 < capacity \<and> snd (format_loop str va f 0 \<lparr>fo_buffer = buffer, fo_capacity = capacity - 1, fo_length = 0\<rparr>)"
  then obtain u where c: "0 < capacity" and u: "format_loop str va f 0 \<lparr>fo_buffer = buffer, fo_capacity = capacity - 1, fo_length = 0\<rparr> = (u, True)"
    by (metis prod.collapse)
  let ?n = "if fo_length u < capacity then fo_length u else capacity - 1"
  have "fst (vsnprintf str buffer capacity f va) ?n = 0" using c u by (simp add: vsnprintf_def)
  moreover have "?n < capacity" using c by simp
  ultimately show "\<exists>x<capacity. fst (vsnprintf str buffer capacity f va) x = 0" by blast
next
  fix conv d precision negative and v :: nat assume v: "v < 2 ^ 64"
  show "length (v_prefix (integer_pieces conv d precision negative v)) \<le> 3" by (simp add: integer_pieces_def Let_def)
  have p: "(2 :: nat) ^ 64 \<le> base ^ 64" if "2 \<le> base" for base :: nat using that by (rule power_mono) simp
  have l: "length (digit_loop u base v []) \<le> 64" if "2 \<le> base" for u base
    using digit_loop_length [OF that, of v 63 u "[]"] v p [OF that] by simp
  show "length (v_text (integer_pieces conv d precision negative v)) \<le> 65"
    using l [THEN order_trans, of _ 65] by (simp add: integer_pieces_def Let_def)
qed

theorem vsnprintf_in_bounds_witness:
  "fst (vsnprintf (\<lambda>_. []) (\<lambda>_. 7) 4 (map chr ''4545'') (\<lambda>_. 0)) 4 = 7
   \<and> (\<exists>x<4. fst (vsnprintf (\<lambda>_. []) (\<lambda>_. 7) 4 (map chr ''4545'') (\<lambda>_. 0)) x = 0)"
proof -
  note b = vsnprintf_in_bounds [of 4 "\<lambda>_. []" "\<lambda>_. 7" "map chr ''4545''" "\<lambda>_. 0"]
  have "snd (format_loop (\<lambda>_. []) (\<lambda>_. 0) (map chr ''4545'') 0 \<lparr>fo_buffer = \<lambda>_. 7, fo_capacity = 4 - 1, fo_length = 0\<rparr>)"
    by (subst format_loop_rounds(1)) simp_all
  then have "\<exists>x<4. fst (vsnprintf (\<lambda>_. []) (\<lambda>_. 7) 4 (map chr ''4545'') (\<lambda>_. 0)) x = 0" using b by simp
  moreover have "fst (vsnprintf (\<lambda>_. []) (\<lambda>_. 7) 4 (map chr ''4545'') (\<lambda>_. 0)) 4 = 7" using b by blast
  ultimately show ?thesis by blast
qed

text \<open>The text of \<open>%d\<close>, and how \<open>strtol\<close> reads it.\<close>

lemma decimal_text:
  fixes va :: va_list
  defines "n \<equiv> sint (va 0)"
  defines "D \<equiv> digit_loop False 10 (nat \<bar>n\<bar>) []"
  shows "format_text str va (map chr ''%d'') 0 = ((if n < 0 then [45] else []) @ D, True)"
proof -
  have p: "parse_directive str va (map chr ''d'') 0 =
      Some ([], 1, False, 0, \<lparr>v_prefix = (if n < 0 then [45] else []), v_zeros = 0, v_text = D, v_zero = False\<rparr>)"
    by (simp add: parse_directive_def parse_width_def parse_precision_def parse_length_def is_digit_def convert_def signed_argument_def
        integer_pieces_def Let_def D_def n_def)
  have "format_text str va [] 1 = ([], True)" by (simp add: format_text_rounds)
  from format_text_rounds(3) [OF _ p this, of "map chr ''%d''"] show ?thesis by (simp add: item_text_def)
qed

lemma valid_digit_10: "valid_digit 10 c \<Longrightarrow> 48 \<le> c \<and> c \<le> 57"
  by (auto simp: valid_digit_def digit_value_def isdigit_def isalpha_def isupper_def word_le_nat_alt split: if_splits)

lemma digit_not_special: "48 \<le> c \<and> c \<le> 57 \<Longrightarrow> \<not> isspace c \<and> c \<noteq> 45 \<and> c \<noteq> 43" for c :: u8
  by (auto simp: isspace_def)

lemma decimal_reads_back:
  assumes "- (2 ^ 31) \<le> n" "n < 2 ^ 31"
  defines "D \<equiv> digit_loop False 10 (nat \<bar>n\<bar>) []"
  shows "fst (strtol ((if n < 0 then [45] else []) @ D) 10) = n" "D \<noteq> []" "length D \<le> 10"
proof -
  have v: "nat \<bar>n\<bar> < 10 ^ Suc 9" using assms(1,2) by simp
  show ne: "D \<noteq> []" and "length D \<le> 10" using digit_loop_length [OF _ v, of False "[]"] by (simp_all add: D_def)
  have valid: "\<forall>c\<in>set D. valid_digit 10 c" unfolding D_def by (rule digit_loop_valid) simp_all
  obtain c D' where D: "D = c # D'" using ne by (cases D) auto
  have c: "48 \<le> c \<and> c \<le> 57" using valid D valid_digit_10 by simp
  note sp = digit_not_special [OF c]
  let ?t = "(if n < 0 then [45] else []) @ D"
  have st: "strtol_start ?t 10 = (if n < 0 then 1 else 0, 10, n < 0)"
    using sp by (cases "n < 0") (simp_all add: strtol_start_def D char_at_def isspace_def)
  have dr: "drop (if n < 0 then 1 else 0) ?t = D" by simp
  have tw: "takeWhile (valid_digit 10) D = D" using valid by (simp add: takeWhile_eq_all_conv)
  have dv: "digits_value 10 0 D = nat \<bar>n\<bar>" unfolding D_def by (subst digit_loop_value) (simp_all add: digits_value_def)
  have "strtol_value ?t 10 = n" unfolding strtol_value_def st Let_def prod.case dr tw dv using assms(1,2) by auto
  moreover have "fst (strtol ?t 10) = strtol_value ?t 10" using strtol_cases [OF _ st] by simp
  ultimately show "fst (strtol ?t 10) = n" by simp
qed

text \<open>What \<open>%d\<close> prints is read back: for every 32-bit number, \<open>strtol\<close> of the text that \<open>vsnprintf\<close> leaves in a buffer
  of at least 12 bytes is the number.\<close>

theorem printed_number_reads_back:
  assumes "12 \<le> capacity" "vsnprintf str buffer capacity (map chr ''%d'') va = (m, r)"
  shows "0 < r \<and> r \<le> 11 \<and> m (nat r) = 0 \<and> fst (strtol (map m [0..<nat r]) 10) = sint (va 0)"
proof -
  have n: "- (2 ^ 31) \<le> sint (va 0)" "sint (va 0) < 2 ^ 31" using sint_greater_eq [of "va 0"] sint_less [of "va 0"] by simp_all
  note D = decimal_reads_back [OF n]
  have "\<exists>t. format_text str va (map chr ''%d'') 0 = (t, True) \<and> 0 < length t \<and> length t \<le> 11 \<and> fst (strtol t 10) = sint (va 0)"
    by (intro exI conjI, rule decimal_text) (use D in \<open>auto\<close>)
  then obtain t where t: "format_text str va (map chr ''%d'') 0 = (t, True)" and l: "0 < length t" "length t \<le> 11"
    and reads: "fst (strtol t 10) = sint (va 0)" by blast
  have "min (length t) (capacity - 1) = length t" using l(2) assms(1) by linarith
  then have m: "m = (\<lambda>x. if x < length t then t ! x else if x = length t then 0 else buffer x)" and r: "r = int (length t)"
    using vsnprintf_text [OF t, of buffer capacity] assms l(2) by auto
  have "map m [0..<length t] = t" by (rule nth_equalityI) (simp_all add: m)
  then show ?thesis using l reads unfolding r by (simp only: nat_int) (simp add: m)
qed

theorem printed_number_reads_back_witness:
  "\<exists>m r. vsnprintf (\<lambda>_. []) (\<lambda>_. 255) 12 (map chr ''%d'') (\<lambda>_. 0x80000000) = (m, r)
     \<and> fst (strtol (map m [0..<nat r]) 10) = - 2147483648"
proof -
  obtain m r where v: "vsnprintf (\<lambda>_. []) (\<lambda>_. 255) 12 (map chr ''%d'') (\<lambda>_. 0x80000000) = (m, r)" by fastforce
  show ?thesis using printed_number_reads_back [OF _ v] v by auto
qed

text \<open>The length counter is a \<open>size_t\<close> and wraps.\<close>

lemma emit_length:
  assumes "length (v_prefix v) + v_zeros v + length (v_text v) < SIZE_LIMIT" "fo_length out < SIZE_LIMIT"
  shows "fo_length (emit left width v out) = (fo_length out + max width (length (v_prefix v) + v_zeros v + length (v_text v))) mod SIZE_LIMIT"
proof -
  let ?b = "length (v_prefix v) + v_zeros v + length (v_text v)"
  define gap where "gap = (if width > ?b then width - ?b else 0)"
  have m: "?b mod SIZE_LIMIT = ?b" using assms(1) by simp
  have mx: "max width ?b = gap + ?b" by (simp add: gap_def)
  have "fo_length (emit left width v out) = (if left then (((fo_length out + length (v_prefix v)) mod SIZE_LIMIT + v_zeros v) mod SIZE_LIMIT
        + length (v_text v)) mod SIZE_LIMIT + gap
      else if v_zero v then (((fo_length out + length (v_prefix v)) mod SIZE_LIMIT + gap) mod SIZE_LIMIT + v_zeros v) mod SIZE_LIMIT + length (v_text v)
      else (((fo_length out + gap) mod SIZE_LIMIT + length (v_prefix v)) mod SIZE_LIMIT + v_zeros v) mod SIZE_LIMIT + length (v_text v)) mod SIZE_LIMIT"
    unfolding emit_def m Let_def gap_def [symmetric] format_append_eq format_padding_eq by simp
  then show ?thesis unfolding mx by (simp add: mod_add_left_eq) (simp add: ac_simps)
qed

lemma decimal_item:
  fixes va :: va_list
  assumes "parse_number f 0 = Some (chr CHR ''d'' # g, width)" "f \<noteq> []" "hd f \<notin> chr ` set ''-0#+ *''"
  shows "\<exists>v. parse_directive str va f i = Some (g, Suc i, False, width, v) \<and> length (v_prefix v) + v_zeros v + length (v_text v) \<le> 11"
proof -
  obtain c h where f: "f = c # h" using assms(2) by (cases f) auto
  have c: "c \<noteq> 45" "c \<noteq> 48" "c \<noteq> 35" "c \<noteq> 43" "c \<noteq> 32" "c \<noteq> 42" using assms(3) f by auto
  let ?n = "sint (va i)"
  have "nat \<bar>?n\<bar> < 10 ^ Suc 9" using sint_greater_eq [of "va i"] sint_less [of "va i"] by simp
  define ds where "ds = digit_loop False 10 (nat \<bar>?n\<bar>) []"
  have D: "length ds \<le> 10" using digit_loop_length [of 10 _ 9 False "[]"] \<open>nat \<bar>?n\<bar> < 10 ^ Suc 9\<close> by (simp add: ds_def)
  have n: "parse_number (c # h) 0 = Some (100 # g, width)" using assms(1) f by simp
  have "parse_directive str va f i = Some (g, Suc i, False, width,
      \<lparr>v_prefix = (if ?n < 0 then [45] else []), v_zeros = 0, v_text = ds, v_zero = False\<rparr>)"
    using c by (simp add: ds_def f parse_directive_def parse_width_def n parse_precision_def parse_length_def convert_def signed_argument_def
        integer_pieces_def Let_def del: parse_number.simps)
  then show ?thesis using D by simp
qed

text \<open>The result of \<open>vsnprintf\<close> can be wrong: where \<open>size_t\<close> has 32 bits the length counter wraps around, and a format that
  stands for 4294967296 characters is reported to have printed none instead of failing with \<open>-1\<close>.\<close>

theorem vsnprintf_length_wraps:
  "snd (vsnprintf str buffer capacity (map chr ''%2147483639d%2147483639d%18d'') va) = 0"
proof -
  let ?f1 = "map chr ''2147483639d%2147483639d%18d''" and ?f2 = "map chr ''2147483639d%18d''" and ?f3 = "map chr ''18d''"
  note pn = is_digit_def chr_def
  have "\<exists>v. parse_directive str va ?f1 0 = Some (37 # ?f2, Suc 0, False, 2147483639, v)
      \<and> length (v_prefix v) + v_zeros v + length (v_text v) \<le> 11" by (rule decimal_item) (simp_all add: pn)
  then obtain v1 where 1: "parse_directive str va ?f1 0 = Some (37 # ?f2, Suc 0, False, 2147483639, v1)"
    "length (v_prefix v1) + v_zeros v1 + length (v_text v1) \<le> 11" by blast
  have "\<exists>v. parse_directive str va ?f2 (Suc 0) = Some (37 # ?f3, Suc (Suc 0), False, 2147483639, v)
      \<and> length (v_prefix v) + v_zeros v + length (v_text v) \<le> 11" by (rule decimal_item) (simp_all add: pn)
  then obtain v2 where 2: "parse_directive str va ?f2 (Suc 0) = Some (37 # ?f3, Suc (Suc 0), False, 2147483639, v2)"
    "length (v_prefix v2) + v_zeros v2 + length (v_text v2) \<le> 11" by blast
  have "\<exists>v. parse_directive str va ?f3 (Suc (Suc 0)) = Some ([], Suc (Suc (Suc 0)), False, 18, v)
      \<and> length (v_prefix v) + v_zeros v + length (v_text v) \<le> 11" by (rule decimal_item) (simp_all add: pn)
  then obtain v3 where 3: "parse_directive str va ?f3 (Suc (Suc 0)) = Some ([], Suc (Suc (Suc 0)), False, 18, v3)"
    "length (v_prefix v3) + v_zeros v3 + length (v_text v3) \<le> 11" by blast
  have d: "directives (37 # f) = 37 # f" "literal (37 # f) = []" for f by simp_all
  let ?o = "\<lparr>fo_buffer = buffer, fo_capacity = (if capacity > 0 then capacity - 1 else 0), fo_length = 0\<rparr>"
  let ?a = "format_append []"
  have len: "fo_length (?a o') = fo_length o' mod SIZE_LIMIT" for o' by (simp add: format_append_eq)
  let ?e1 = "emit False 2147483639 v1 (?a ?o)" let ?e2 = "emit False 2147483639 v2 (?a ?e1)" let ?e3 = "emit False 18 v3 (?a ?e2)"
  have e1: "fo_length ?e1 = 2147483639" using 1(2) by (subst emit_length) (simp_all add: len)
  have e2: "fo_length ?e2 = 4294967278" using 2(2) by (subst emit_length) (simp_all add: len e1)
  have e3: "fo_length ?e3 = 0" using 3(2) by (subst emit_length) (simp_all add: len e2)
  have f: "map chr ''%2147483639d%2147483639d%18d'' = 37 # ?f1" by (simp add: chr_def)
  have "format_loop str va (37 # ?f1) 0 ?o = (?e3, True)"
    using format_loop_rounds(3) [OF d(1) 1(1), of ?o] format_loop_rounds(3) [OF d(1) 2(1), of ?e1] format_loop_rounds(3) [OF d(1) 3(1), of ?e2]
      format_loop_rounds(1) [of "[]" str va "Suc (Suc (Suc 0))" ?e3] by simp
  then show ?thesis unfolding vsnprintf_def f using e3 by simp
qed

end
