(* ===== verification/Calendar.thy ===== *)
theory Calendar
  imports Prelude
begin

text \<open>
  Calendar dates, \<^verbatim>\<open>kernel/dos/tools/time.c\<close>: seconds since 1970 of a date, and the date of an NTP time stamp (seconds since
  1900, moved to the time zone eight hours east).  All arithmetic is that of \<open>uint32_t\<close>.
\<close>

section \<open>The code\<close>

abbreviation CALENDAR_DAY_SECONDS :: u32 where "CALENDAR_DAY_SECONDS \<equiv> 86400"
abbreviation CALENDAR_COMMON_YEAR_SECONDS :: u32 where "CALENDAR_COMMON_YEAR_SECONDS \<equiv> 31536000"
abbreviation CALENDAR_LEAP_YEAR_SECONDS :: u32 where "CALENDAR_LEAP_YEAR_SECONDS \<equiv> 31622400"

definition calendar_common_month_days :: "nat list" where
  "calendar_common_month_days = [31, 28, 31, 30, 31, 30, 31, 31, 30, 31, 30, 31]"

definition calendar_leap_month_days :: "nat list" where
  "calendar_leap_month_days = [31, 29, 31, 30, 31, 30, 31, 31, 30, 31, 30, 31]"

definition calendar_is_leap_year :: "u32 \<Rightarrow> bool" where
  "calendar_is_leap_year year \<longleftrightarrow> (year mod 4 = 0 \<and> year mod 100 \<noteq> 0) \<or> year mod 400 = 0"

definition month_days :: "u32 \<Rightarrow> nat list" where
  "month_days year = (if calendar_is_leap_year year then calendar_leap_month_days else calendar_common_month_days)"

definition leap_years :: "u32 \<Rightarrow> u32" where
  "leap_years year = fold (\<lambda>current n. if calendar_is_leap_year (of_nat current) then n + 1 else n) [1970..<unat year] 0"

text \<open>A month above 13 reads behind the table of the months, which is \<open>None\<close>.\<close>

definition calendar_to_unix_timestamp :: "u32 \<Rightarrow> u32 \<Rightarrow> u32 \<Rightarrow> u32 \<Rightarrow> u32 \<Rightarrow> u32 \<Rightarrow> u32 option" where
  "calendar_to_unix_timestamp year month day hour minute second =
     (if month > 13 then None
      else
        (let seconds = fold (\<lambda>index s. s + of_nat (month_days year ! index) * CALENDAR_DAY_SECONDS) [0..<unat month - 1] 0;
             seconds = seconds + ((day - 1) * CALENDAR_DAY_SECONDS + hour * 3600 + minute * 60 + second)
         in Some (leap_years year * CALENDAR_LEAP_YEAR_SECONDS
                  + (year - 1970 - leap_years year) * CALENDAR_COMMON_YEAR_SECONDS + seconds)))"

definition year_seconds :: "u32 \<Rightarrow> u32" where
  "year_seconds year = (if calendar_is_leap_year year then CALENDAR_LEAP_YEAR_SECONDS else CALENDAR_COMMON_YEAR_SECONDS)"

function find_year :: "u32 \<Rightarrow> u32 \<Rightarrow> u32 \<times> u32" where
  "find_year timestamp year =
     (if timestamp < year_seconds year then (timestamp, year) else find_year (timestamp - year_seconds year) (year + 1))"
  by pat_completeness auto

lemmas unat_add_small = unat_add_lem [THEN iffD1]
lemmas unat_mult_small = unat_mult_lem [THEN iffD1]

lemma year_seconds_pos: "0 < unat (year_seconds year)"
  by (simp add: year_seconds_def)

lemma year_step: "\<not> t < year_seconds y \<Longrightarrow> unat (t - year_seconds y) = unat t - unat (year_seconds y)"
  by (simp add: unat_sub not_less)

termination find_year
  by (relation "measure (\<lambda>(t, y). unat t)")
    (use year_seconds_pos in \<open>auto simp: year_step word_less_nat_alt not_less intro!: diff_less intro: order_less_le_trans\<close>)

declare find_year.simps [simp del]

text \<open>The loop over the months before December.\<close>

fun find_month :: "nat list \<Rightarrow> u32 \<Rightarrow> u32 \<Rightarrow> u32 \<times> u32" where
  "find_month [] timestamp month = (timestamp, month)"
| "find_month (days # rest) timestamp month =
     (if rest \<noteq> [] \<and> timestamp \<ge> of_nat days * CALENDAR_DAY_SECONDS
      then find_month rest (timestamp - of_nat days * CALENDAR_DAY_SECONDS) (month + 1)
      else (timestamp, month))"

definition calendar_from_ntp_timestamp :: "u32 \<Rightarrow> u32 \<times> u32 \<times> u32 \<times> u32 \<times> u32 \<times> u32" where
  "calendar_from_ntp_timestamp timestamp =
     (let timestamp = timestamp + 28800;
          (timestamp, year) = find_year timestamp 1900;
          (timestamp, month) = find_month (month_days year) timestamp 0;
          day = timestamp div CALENDAR_DAY_SECONDS + 1;
          timestamp = timestamp mod CALENDAR_DAY_SECONDS;
          hour = timestamp div 3600;
          timestamp = timestamp mod 3600
      in (year, month + 1, day, hour, timestamp div 60, timestamp mod 60))"

section \<open>The calendar\<close>

text \<open>The reference: seconds from the start of a year to a date, counted year by year and month by month.\<close>

definition leap :: "nat \<Rightarrow> bool" where
  "leap y \<longleftrightarrow> 4 dvd y \<and> (\<not> 100 dvd y \<or> 400 dvd y)"

definition days_of_month :: "nat \<Rightarrow> nat \<Rightarrow> nat" where
  "days_of_month y m = (if m = 2 then (if leap y then 29 else 28) else if m \<in> {4, 6, 9, 11} then 30 else 31)"

definition days_of_year :: "nat \<Rightarrow> nat" where
  "days_of_year y = (\<Sum>m\<leftarrow>[1..<13]. days_of_month y m)"

definition days_to :: "nat \<Rightarrow> nat \<Rightarrow> nat \<Rightarrow> nat \<Rightarrow> nat" where
  "days_to y0 y m d = (\<Sum>k\<leftarrow>[y0..<y]. days_of_year k) + (\<Sum>k\<leftarrow>[1..<m]. days_of_month y k) + (d - 1)"

definition seconds_to :: "nat \<Rightarrow> u32 \<times> u32 \<times> u32 \<times> u32 \<times> u32 \<times> u32 \<Rightarrow> nat" where
  "seconds_to y0 = (\<lambda>(y, m, d, h, i, s). days_to y0 (unat y) (unat m) (unat d) * 86400 + unat h * 3600 + unat i * 60 + unat s)"

definition valid_date :: "u32 \<times> u32 \<times> u32 \<times> u32 \<times> u32 \<times> u32 \<Rightarrow> bool" where
  "valid_date = (\<lambda>(y, m, d, h, i, s). 1 \<le> unat m \<and> unat m \<le> 12 \<and> 1 \<le> unat d \<and> unat d \<le> days_of_month (unat y) (unat m)
     \<and> unat h < 24 \<and> unat i < 60 \<and> unat s < 60)"

lemma is_leap: "calendar_is_leap_year y \<longleftrightarrow> leap (unat y)"
proof -
  have m: "y mod k = 0 \<longleftrightarrow> unat k dvd unat y" for k :: u32 by (simp add: dvd_eq_mod_eq_0 flip: unat_mod) (metis unat_eq_zero unat_mod)
  have "100 dvd unat y \<Longrightarrow> 4 dvd unat y" by (rule dvd_trans [of _ 100]) simp_all
  moreover have "400 dvd unat y \<Longrightarrow> 100 dvd unat y" by (rule dvd_trans [of _ 400]) simp_all
  ultimately show ?thesis by (auto simp: calendar_is_leap_year_def leap_def m)
qed

lemma month_days_eq: "month_days y = map (days_of_month (unat y)) [1..<13]"
  by (simp add: month_days_def is_leap calendar_common_month_days_def calendar_leap_month_days_def days_of_month_def upt_rec)

lemma days_of_year_eq: "days_of_year y = (if leap y then 366 else 365)"
  by (simp add: days_of_year_def days_of_month_def upt_rec)

lemma year_seconds_eq: "unat (year_seconds y) = days_of_year (unat y) * 86400"
  by (simp add: year_seconds_def is_leap days_of_year_eq)

lemma sum_list_upt_Suc: "a \<le> b \<Longrightarrow> (\<Sum>k\<leftarrow>[a..<Suc b]. f k) = (\<Sum>k\<leftarrow>[a..<b]. f k) + f b" for f :: "nat \<Rightarrow> nat"
  by simp

lemma find_year_spec:
  assumes "find_year t y = (t', y')" "unat y + unat t div 31536000 < 2 ^ 31"
  shows "unat y \<le> unat y' \<and> unat t = (\<Sum>k\<leftarrow>[unat y..<unat y']. days_of_year k) * 86400 + unat t' \<and> unat t' < days_of_year (unat y') * 86400
    \<and> unat y' \<le> unat y + unat t div 31536000"
  using assms
proof (induction t y rule: find_year.induct)
  case (1 t y)
  show ?case
  proof (cases "t < year_seconds y")
    case True
    then show ?thesis using "1.prems" by (simp add: find_year.simps [of t y] word_less_nat_alt year_seconds_eq)
  next
    case False
    let ?n = "days_of_year (unat y) * 86400"
    have n: "?n = 31536000 \<or> ?n = 31622400" by (simp add: days_of_year_eq)
    have le: "?n \<le> unat t" using False by (simp add: not_less word_le_nat_alt year_seconds_eq)
    have t: "unat (t - year_seconds y) = unat t - ?n" using year_step [OF False] by (simp add: year_seconds_eq)
    have y: "unat (y + 1) = Suc (unat y)" using "1.prems"(2) by (subst unat_add_small) simp_all
    have r: "find_year (t - year_seconds y) (y + 1) = (t', y')" using "1.prems"(1) False by (simp add: find_year.simps [of t y])
    have q: "Suc ((unat t - ?n) div 31536000) \<le> unat t div 31536000"
    proof -
      have "unat t - ?n \<le> unat t - 31536000" "31536000 \<le> unat t" using n le by auto
      then have "(unat t - ?n) div 31536000 \<le> (unat t - 31536000) div 31536000" by (intro div_le_mono)
      also have "Suc ((unat t - 31536000) div 31536000) = unat t div 31536000" using \<open>31536000 \<le> unat t\<close> by (simp add: le_div_geq)
      finally show ?thesis by simp
    qed
    have lt: "unat (y + 1) + unat (t - year_seconds y) div 31536000 < 2 ^ 31" using "1.prems"(2) q unfolding y t by linarith
    note IH = "1.IH" [OF False r lt, unfolded y t]
    have "[unat y..<unat y'] = unat y # [Suc (unat y)..<unat y']" using IH by (simp add: upt_conv_Cons)
    then have "(\<Sum>k\<leftarrow>[unat y..<unat y']. days_of_year k) * 86400 = ?n + (\<Sum>k\<leftarrow>[Suc (unat y)..<unat y']. days_of_year k) * 86400"
      by (simp add: algebra_simps)
    then show ?thesis using IH le q by linarith
  qed
qed

lemma find_month_spec:
  assumes "find_month ds t m = (t', m')" "ds \<noteq> []" "unat m + length ds < 2 ^ 32" "\<forall>d\<in>set ds. d \<le> 31" "unat t < sum_list ds * 86400"
  shows "\<exists>k < length ds. unat m' = unat m + k \<and> unat t = sum_list (take k ds) * 86400 + unat t' \<and> unat t' < ds ! k * 86400"
  using assms
proof (induction ds t m rule: find_month.induct)
  case (2 days rest t m)
  have d: "unat (of_nat days * CALENDAR_DAY_SECONDS) = days * 86400"
  proof -
    have "days * 86400 < 2 ^ 32" using "2.prems"(4) by simp
    then show ?thesis by (simp add: unat_mult_small unat_of_nat take_bit_nat_eq_self)
  qed
  show ?case
  proof (cases "rest \<noteq> [] \<and> t \<ge> of_nat days * CALENDAR_DAY_SECONDS")
    case True
    have t: "unat (t - of_nat days * CALENDAR_DAY_SECONDS) = unat t - days * 86400" using True d by (simp add: unat_sub)
    have le: "days * 86400 \<le> unat t" using True d by (simp add: word_le_nat_alt)
    have m: "unat (m + 1) = Suc (unat m)" using "2.prems"(3) by (subst unat_add_small) simp_all
    obtain k where "k < length rest" "unat m' = unat (m + 1) + k" "unat (t - of_nat days * CALENDAR_DAY_SECONDS) = sum_list (take k rest) * 86400 + unat t'"
        "unat t' < rest ! k * 86400"
    proof -
      have "find_month rest (t - of_nat days * CALENDAR_DAY_SECONDS) (m + 1) = (t', m')" using "2.prems"(1) True by simp
      moreover have "unat (m + 1) + length rest < 2 ^ 32" using "2.prems"(3) unfolding m by simp
      moreover have "unat t - days * 86400 < sum_list rest * 86400" using "2.prems"(5) le by (simp add: algebra_simps)
      ultimately show thesis using "2.IH" [OF True] "2.prems"(4) True that unfolding t by auto
    qed
    then show ?thesis using t m le by (intro exI [of _ "Suc k"]) (simp add: algebra_simps)
  next
    case False
    then show ?thesis using "2.prems" d by (intro exI [of _ 0]) (auto simp: word_le_nat_alt split: if_splits)
  qed
qed simp

section \<open>Properties\<close>

lemma days_of_year_sum: "sum_list (month_days y) = days_of_year (unat y)"
  by (simp add: month_days_eq days_of_year_def)

lemma take_months: "k \<le> 12 \<Longrightarrow> take k (month_days y) = map (days_of_month (unat y)) [1..<Suc k]"
  by (simp add: month_days_eq take_map)

text \<open>The date found for a time stamp is the date that many seconds after the start of 1900.\<close>

lemma from_ntp_date:
  assumes "calendar_from_ntp_timestamp t = date"
  shows "valid_date date" "seconds_to 1900 date = unat (t + 28800)" "1900 \<le> unat (fst date)" "unat (fst date) < 2 ^ 16"
proof -
  obtain t1 y where y: "find_year (t + 28800) 1900 = (t1, y)" by fastforce
  obtain t2 m where m: "find_month (month_days y) t1 0 = (t2, m)" by fastforce
  have date: "date = (y, m + 1, t2 div 86400 + 1, t2 mod 86400 div 3600, t2 mod 86400 mod 3600 div 60, t2 mod 86400 mod 3600 mod 60)"
    using assms by (simp add: calendar_from_ntp_timestamp_def Let_def y m)
  have "unat (t + 28800) < 2 ^ 32" by (rule order_less_le_trans [OF unsigned_less]) simp
  then have q: "unat (t + 28800) div 31536000 \<le> 136" by simp
  have ys: "1900 \<le> unat y \<and> unat (t + 28800) = (\<Sum>k\<leftarrow>[1900..<unat y]. days_of_year k) * 86400 + unat t1
      \<and> unat t1 < days_of_year (unat y) * 86400 \<and> unat y \<le> 2036"
  proof -
    have u: "unat (1900 :: u32) = 1900" by simp
    have p: "unat (1900 :: u32) + unat (t + 28800) div 31536000 < 2 ^ 31" using q by simp
    note f = find_year_spec [OF y p, unfolded u]
    show ?thesis by (intro conjI) (use f q in \<open>linarith\<close>)+
  qed
  then have t1: "unat t1 < sum_list (month_days y) * 86400" by (simp add: days_of_year_sum)
  have md: "month_days y \<noteq> []" "length (month_days y) = 12" "\<forall>d\<in>set (month_days y). d \<le> 31"
    by (auto simp: month_days_eq days_of_month_def)
  obtain k where k: "k < 12" "unat m = k" "unat t1 = sum_list (take k (month_days y)) * 86400 + unat t2" "unat t2 < month_days y ! k * 86400"
    using find_month_spec [OF m md(1) _ md(3) t1] md(2) by auto
  have m1: "unat (m + 1) = Suc k" using k(1,2) by (subst unat_add_small) simp_all
  have dm: "month_days y ! k = days_of_month (unat y) (Suc k)" using k(1) by (simp add: month_days_eq)
  have d31: "days_of_month (unat y) (Suc k) \<le> 31" by (simp add: days_of_month_def)
  have dlt: "unat t2 div 86400 < days_of_month (unat y) (Suc k)" using k(4) unfolding dm by (simp add: less_mult_imp_div_less)
  have d: "unat (t2 div 86400 + 1) = Suc (unat t2 div 86400)" using dlt d31 by (subst unat_add_small) (simp_all add: unat_div)
  have parts: "unat (t2 mod 86400 div 3600) = unat t2 mod 86400 div 3600" "unat (t2 mod 86400 mod 3600 div 60) = unat t2 mod 86400 mod 3600 div 60"
    "unat (t2 mod 86400 mod 3600 mod 60) = unat t2 mod 86400 mod 3600 mod 60" by (simp_all add: unat_div unat_mod)
  have h: "unat t2 mod 86400 div 3600 < 24" by (simp add: less_mult_imp_div_less)
  show "valid_date date" unfolding date valid_date_def prod.case m1 d parts using k(1) dlt h by (simp add: less_mult_imp_div_less Suc_le_eq)
  have s: "unat t2 = unat t2 div 86400 * 86400 + unat t2 mod 86400 div 3600 * 3600 + unat t2 mod 86400 mod 3600 div 60 * 60
      + unat t2 mod 86400 mod 3600 mod 60" by simp
  have "seconds_to 1900 date = ((\<Sum>k\<leftarrow>[1900..<unat y]. days_of_year k) + sum_list (take k (month_days y)) + unat t2 div 86400) * 86400
      + unat t2 mod 86400 div 3600 * 3600 + unat t2 mod 86400 mod 3600 div 60 * 60 + unat t2 mod 86400 mod 3600 mod 60"
    unfolding date seconds_to_def prod.case days_to_def m1 d parts take_months [OF less_imp_le [OF k(1)]] by simp
  also have "\<dots> = unat (t + 28800)" using ys [THEN conjunct2, THEN conjunct1] k(3) s unfolding add_mult_distrib by linarith
  finally show "seconds_to 1900 date = unat (t + 28800)" .
  show "1900 \<le> unat (fst date)" "unat (fst date) < 2 ^ 16" using ys by (simp_all add: date)
qed

lemma fold_count: "fold (\<lambda>x n. if P x then n + 1 else n) xs (of_nat k) = of_nat (k + length (filter P xs))" for xs :: "nat list" and k
proof (induction xs arbitrary: k)
  case (Cons x xs)
  then show ?case using Cons [of "Suc k"] Cons [of k] by (cases "P x") (simp_all add: add.commute)
qed simp

lemma leap_years_eq: "leap_years y = of_nat (length (filter leap [1970..<unat y]))"
proof -
  have "fold (\<lambda>current n. if calendar_is_leap_year (of_nat current) then n + 1 else n) xs a = fold (\<lambda>k n. if leap k then n + 1 else n) xs a"
    if "\<forall>k\<in>set xs. k < 2 ^ 32" for xs and a :: u32
    using that by (induction xs arbitrary: a) (simp_all add: is_leap unat_of_nat take_bit_nat_eq_self)
  moreover have "\<forall>k\<in>set [1970..<unat y]. k < 2 ^ 32" using unsigned_less [where 'a = nat, of y] by (auto intro: less_trans)
  ultimately show ?thesis using fold_count [of leap "[1970..<unat y]" 0] by (simp add: leap_years_def)
qed

lemma days_of_years: "a \<le> b \<Longrightarrow> (\<Sum>k\<leftarrow>[a..<b]. days_of_year k) = 365 * (b - a) + length (filter leap [a..<b])"
proof (induction b)
  case (Suc b)
  then show ?case by (cases "a = Suc b") (simp_all add: days_of_year_eq algebra_simps Suc_diff_le le_Suc_eq)
qed simp

lemma fold_months: "fold (\<lambda>i s. s + of_nat (f i) * 86400) xs a = a + of_nat ((\<Sum>i\<leftarrow>xs. f i) * 86400)" for a :: u32 and f :: "nat \<Rightarrow> nat"
  by (induction xs arbitrary: a) (simp_all add: algebra_simps)

lemma to_unix_seconds:
  assumes "valid_date (y, m, d, h, i, s)" "1970 \<le> unat y"
  shows "calendar_to_unix_timestamp y m d h i s = Some (of_nat (seconds_to 1970 (y, m, d, h, i, s)))"
proof -
  have v: "1 \<le> unat m" "unat m \<le> 12" "1 \<le> unat d" using assms(1) by (auto simp: valid_date_def)
  have m: "\<not> m > 13" using v(2) by (simp add: word_less_nat_alt)
  obtain k where k: "unat m = Suc k" "k < 12" using v by (cases "unat m") auto
  let ?N = "unat y - 1970" and ?L = "length (filter leap [1970..<unat y])"
  have y: "y - 1970 = of_nat ?N" using assms(2) by (simp add: of_nat_diff)
  obtain e where e: "unat d = Suc e" using v(3) by (cases "unat d") auto
  have d: "d - 1 = of_nat e" using arg_cong [OF e, of "of_nat :: nat \<Rightarrow> u32"] by simp
  have months: "fold (\<lambda>index s. s + of_nat (month_days y ! index) * CALENDAR_DAY_SECONDS) [0..<unat m - 1] 0
      = of_nat ((\<Sum>j\<leftarrow>[1..<unat m]. days_of_month (unat y) j) * 86400)"
  proof -
    have "map ((!) (month_days y)) [0..<k] = take k (month_days y)" using k(2) by (intro nth_equalityI) (simp_all add: month_days_eq)
    then show ?thesis using k take_months [of k y] by (simp add: fold_months)
  qed
  have years: "of_nat ?L * CALENDAR_LEAP_YEAR_SECONDS + (of_nat ?N - of_nat ?L) * CALENDAR_COMMON_YEAR_SECONDS
      = of_nat ((\<Sum>k\<leftarrow>[1970..<unat y]. days_of_year k) * 86400)"
    using assms(2) by (simp add: days_of_years algebra_simps)
  show ?thesis
    unfolding calendar_to_unix_timestamp_def Let_def leap_years_eq y d months
    using m years by (simp add: seconds_to_def days_to_def e algebra_simps)
qed

text \<open>C40: the calendar is right.  \<open>calendar_from_ntp_timestamp\<close> yields the valid date that lies as many seconds after the
  start of 1900, leap years included, as the time stamp says (plus eight hours, modulo \<open>2 ^ 32\<close>), and from 1970 on
  \<open>calendar_to_unix_timestamp\<close> of this date is the time stamp counted from 1970.\<close>

theorem calendar_round_trip:
  assumes "calendar_from_ntp_timestamp t = (y, m, d, h, i, s)"
  shows "valid_date (y, m, d, h, i, s) \<and> seconds_to 1900 (y, m, d, h, i, s) = unat (t + 28800)
    \<and> (1970 \<le> unat y \<longrightarrow> calendar_to_unix_timestamp y m d h i s = Some (t + 28800 - 2208988800))"
proof (intro conjI impI)
  note n = from_ntp_date [OF assms]
  show "valid_date (y, m, d, h, i, s)" "seconds_to 1900 (y, m, d, h, i, s) = unat (t + 28800)" using n by auto
  assume y: "1970 \<le> unat y"
  then have "[1900..<unat y] = [1900..<1970] @ [1970..<unat y]" using upt_add_eq_append [of 1900 1970 "unat y - 1970"] by simp
  moreover have "(\<Sum>k\<leftarrow>[1900..<1970]. days_of_year k) = 25567" by (subst days_of_years) (simp_all add: leap_def upt_rec)
  ultimately have "seconds_to 1900 (y, m, d, h, i, s) = 2208988800 + seconds_to 1970 (y, m, d, h, i, s)"
    by (simp add: seconds_to_def days_to_def)
  then have e: "unat (t + 28800) = 2208988800 + seconds_to 1970 (y, m, d, h, i, s)" using n(2) by (simp only:)
  have "w = of_nat (unat w)" for w :: u32 by simp
  from this [of "t + 28800"] have "t + 28800 = of_nat (unat (t + 28800))" .
  also have "\<dots> = of_nat (2208988800 + seconds_to 1970 (y, m, d, h, i, s))" by (simp only: e)
  finally have "of_nat (seconds_to 1970 (y, m, d, h, i, s)) = t + 28800 - 2208988800" by simp
  then show "calendar_to_unix_timestamp y m d h i s = Some (t + 28800 - 2208988800)" using to_unix_seconds [OF n(1) y] by simp
qed

text \<open>The last second of 29 February 2000, eight hours east of Greenwich.\<close>

theorem calendar_round_trip_witness:
  "\<exists>y m d h i s. calendar_from_ntp_timestamp 3160828799 = (y, m, d, h, i, s) \<and> valid_date (y, m, d, h, i, s)
     \<and> seconds_to 1900 (y, m, d, h, i, s) = 3160857599"
proof -
  obtain y m d h i s where c: "calendar_from_ntp_timestamp 3160828799 = (y, m, d, h, i, s)" by (rule prod_cases6)
  show ?thesis using calendar_round_trip [OF c] c by (intro exI conjI) (assumption, blast, simp)
qed

end
