(* ===== verification/Spec2Isabelle.thy ===== *)
theory Spec2Isabelle
  imports Fifo8 DriveQueue Task Sched SchedInv GroupLock Ipc IpcInv IpcProps IpcServices
    Lock Futex Vdisk Lifecycle LifecycleInv LifecycleProps PickProps WaitProps
    Kasan PageAlloc PageInv PageTable PageFault PageClone UserVm UserVmExtents UserVmProps
    Signal SignalFrames SignalProps IoPoll IoPollProps
    RecordLock RecordLockOps RecordLockProps Pipe PipeProps Descriptors DescriptorIo DescriptorInv DescriptorSteps DescriptorProps
    Format CString FormatProps Calendar
begin

text \<open>
  A verification development for the kernel of Plant-OS, a small multitasking operating system for the PC written in C.
  All source paths below are under \<^verbatim>\<open>src/kernel\<close>.

  THE PROGRAM.  The kernel runs user processes and their threads on several processors.  A task is a slot of the task
  registry (\<^verbatim>\<open>dos/task/mtask.c\<close>); the same file has the per-processor run queues and everything that starts, blocks, wakes
  and ends a task.  Tasks wait for each other through messages and kernel calls (\<^verbatim>\<open>dos/task/ipc.c\<close>), sleeping locks
  (\<^verbatim>\<open>dos/task/lock.c\<close>), futexes (\<^verbatim>\<open>dos/task/futex.c\<close>), signals (\<^verbatim>\<open>dos/task/signal.c\<close>), descriptors (\<^verbatim>\<open>dos/task/io_poll.c\<close>),
  record locks on files (\<^verbatim>\<open>fs/vfs.c\<close>) and the turns on a drive (\<^verbatim>\<open>drivers/vdisk.c\<close>); each of these keeps its own lists of
  waiting tasks and calls the scheduler to wake them.  Memory is handed out by the physical page allocator and mapped
  copy-on-write by the page tables (\<^verbatim>\<open>arch/x86/i386/page.c\<close>), and requested by processes through \<^verbatim>\<open>dos/mm/user_vm.c\<close> and
  \<^verbatim>\<open>dos/mm/user_vm_file.c\<close>; \<^verbatim>\<open>dos/mm/kasan.c\<close> checks the accesses of the kernel itself.  The end of a task
  (\<open>finish_task\<close>) calls into every one of these components to take the task out of their lists.  The model of it covers
  the locks, the futexes, the messages, the drives and the group lock; what polling, record locks and signals do at the
  end of a task is modelled in their own theories, next to the state it changes.

  THE MODEL.  One record \<open>kernel\<close> (theory \<open>Task\<close>) is the state of the process subsystem: the slots, the processors, the
  services, locks, futexes and drives.  A task pointer is the tid of its slot, NULL is \<open>None\<close>, and an intrusive linked
  list is the list of the tids in it.  Components with state of their own (signals, polling, record locks, descriptors)
  have a record that holds the \<open>kernel\<close> and extend it.  The code runs with interrupts off and one kernel lock held, so an
  operation is one step of the model.  An operation that blocks is given up to the point where the task stops, with an
  \<open>outcome\<close> that says how it goes on (\<open>Done\<close>, \<open>SwitchThen\<close>, \<open>Switch\<close>, \<open>Retry\<close>), and the rest of a waiting loop is a
  definition of its own, which the wake-up continues with.  A panic, and an access to memory that was freed, is \<open>None\<close>.
  What the environment decides (whether an allocation succeeds, the clock, what a device or a driver answers, the
  contents of user memory) is an argument.  Integers are words of their width wherever the code depends on it, and natural
  numbers where an invariant keeps them in range.

  THE THEORIES.
  Prelude: lemmas on lists, options and words that the components share, and the collections of rules.
  Task, Sched, SchedInv, PickProps: task control block, registry accessors, run queues.  \<open>sched_wf\<close> ties the runnable lists
  to the states of the tasks and the cached loads; every operation keeps it.  The properties: what is pulled and balanced,
  which task runs next, what waking a task does.
  GroupLock, Lifecycle, LifecycleInv, LifecycleProps, WaitProps: the lock of a thread group, claiming and releasing slots,
  creation, fork, teardown, exit, kill, wait.  \<open>calm\<close> is what a teardown may do to other tasks; the properties say that a
  finished task is in none of the lists the model has of locks, futexes, messages, drives and the group lock, that a task
  waiting for it is woken and gets its exit status, and that a claimed slot has a cleared record and the generation after
  the one it had before (generations are 32 bits wide and skip 0 when they wrap).
  Ipc, IpcInv, IpcProps, IpcServices: message queues refined to lists of messages, service names, kernel calls and the
  authenticity of their replies.
  Lock, Futex: the sleeping lock and the futex with its time-outs.  \<^verbatim>\<open>dos/task/futex.c\<close> is modelled for the 64-bit build, whose
  addresses are \<open>u64\<close>; everything else follows the i386 build.
  DriveQueue, Fifo8: two ring buffers, both interpretations of the locale \<open>bounded_fifo\<close>.
  Vdisk: the table of disks, the queues of tasks per drive, and the transfers: the checks, taking the drive's turn (which can
  fail, or put the task to sleep), the chunks with the sticky error of the drive, and giving the turn back.
  Kasan: the shadow memory at byte granularity and the checks of the sanitizer.
  PageAlloc, PageInv, PageTable, PageFault, PageClone: frames with reference counts and the bitmap that is searched by
  words, page directories and tables, faults on shared and copy-on-write pages, clones.  \<open>alloc_wf\<close> ties the bitmap to the
  counts, and \<open>hints_ok\<close> keeps the search hints within the frames; \<open>page_reachable\<close> has every operation of the allocator,
  the zero page and the limit of memory (\<open>pf_set\<close>) included.  The properties: a fault gives the faulting address space its own copy and changes nothing that another
  address space sees, and an allocation returns a free run.
  UserVm, UserVmExtents, UserVmProps: the requests of a process for memory and the list of file extents, whose abstract
  value is a partial function from addresses to pages of files.
  Signal, SignalFrames, SignalProps: signal requests, delivery through a frame in user memory, and the return from it.
  \<open>sig_le\<close> collects what the rest of the kernel does to the sets of signals.
  IoPoll, IoPollProps: waiters, their watches in the queues of drivers and the list of time-outs.
  RecordLock, RecordLockOps, RecordLockProps: the list of locks on ranges of files, refined to the type of lock a thread
  group has on a byte (\<open>locked\<close>); the operations with their waiters and the references these hold on mounts; and the
  relation \<open>rl_reached\<close> of all orders of operations, which also keeps the list of the tasks that sleep in them; over it
  exclusion and the absence of lost wake-ups are proved (\<open>rl_reachable\<close> forgets that list).
  Pipe, PipeProps: the ring of a pipe as an interpretation of the locale \<open>byte_stream\<close>, and what each transfer and polling do.
  Descriptors, DescriptorIo, DescriptorInv, DescriptorSteps, DescriptorProps: directory entries, handles, pipes and the
  contexts with their tables, over the polling of \<open>IoPoll\<close> and the record locks; \<open>vfs_state\<close> has objects by address, and an
  access to a freed one is \<open>None\<close>.  \<open>fd_wf H\<close> says that the count of a handle is the number of descriptors that refer to it and of the references \<open>H\<close> that
  mappings, truncation and streams hold, and that an end of a pipe is open exactly as long as it has a handle; every step of
  \<open>fd_reached\<close> keeps it.  \<open>fd_wf_with\<close> is the same in the middle of an operation that holds references of its own.

  Format, CString, FormatProps: \<open>vsnprintf\<close> and its refinement to the text it stands for, the number parsers, and the
  memory and string functions of \<^verbatim>\<open>std/std.c\<close>.
  Calendar: conversions between dates and seconds (\<^verbatim>\<open>dos/tools/time.c\<close>).

  FUEL AND TERMINATION.  No theorem rests on fuel that might not suffice.  Loops of the code are recursions over lists or
  \<open>function\<close>s with a measure (\<open>tick_loop\<close>, \<open>format_loop\<close>, \<open>find_year\<close>, \<open>vfs_record_lock_coalesce\<close>); loops whose end depends on
  the state are \<open>partial_function\<close>s with theorems that they return (\<open>wake_loop\<close>, \<open>strlen_from\<close>), and where the code does
  not return, the theorem says so (\<open>strrchr_nul_diverges\<close>).  The choice of the next task starts again after it has
  buried a task that was to be killed; \<open>pick_restart\<close> takes the bound on these restarts as its argument, and the
  property covers the choice when no such task is queued.  \<open>task_slot_claim\<close> takes two rounds because the second one
  follows a growth that leaves a free slot.

  NOT MODELLED, and why.  The context switch, system call entry, interrupt and exception entry, start-up, and the FPU are
  assembly and processor registers.  Drivers and the PC platform are port and memory-mapped I/O with devices whose
  behaviour is not in the repository.  Of the virtual file system, path resolution, mounting and the page cache call into
  file systems through function pointers; opening a file and reading it are arguments of the operations on descriptors, and
  the counts of directory entries and mounts are modelled without an invariant that ties them to their users.  The on-disk
  formats, the program loader, the network sockets over lwIP, windows, fonts, images and the configuration parser are left for later or are glue over vendored code.  The x86_64 page tables
  repeat the i386 ones with more levels.  The applications under \<^verbatim>\<open>src/apps\<close> are mostly third-party programs.
\<close>

end
